(* ===== verification/Prelude.thy ===== *)
theory Prelude
  imports Main "HOL-Library.AList" "HOL-Library.List_Lexorder" "HOL-Library.Char_ord"
begin

text \<open>
  Shared vocabulary of the development: results, saturating arithmetic, hash maps and
  ordered maps as association lists, Rust strings and the few string functions of the
  standard library the program uses.

  A Rust \<open>Result<T, E>\<close> is a sum, \<open>Inl\<close> the error and \<open>Inr\<close> the value. A Rust string is
  its UTF-8 byte sequence, as a \<open>string\<close>: \<open>length\<close> is \<open>str::len\<close> and the lexicographic
  order of \<open>List_Lexorder\<close> is the order of \<open>str\<close>.
\<close>

named_theorems hmap_simps \<open>characteristic equations of the map operations\<close>
named_theorems rust_arith \<open>facts about saturating arithmetic\<close>

section \<open>Results\<close>

type_synonym ('e, 'a) result = "'e + 'a"

fun is_ok :: "('e, 'a) result \<Rightarrow> bool" where
  "is_ok (Inr _) = True"
| "is_ok (Inl _) = False"

lemma is_ok_iff: "is_ok r \<longleftrightarrow> (\<exists>a. r = Inr a)"
  by (cases r) auto

lemma not_is_ok_iff: "\<not> is_ok r \<longleftrightarrow> (\<exists>e. r = Inl e)"
  by (cases r) auto

section \<open>Machine arithmetic\<close>

text \<open>
  Unsigned integers are natural numbers below their bound; the operations that the source
  writes as \<open>saturating_\<dots>\<close> stop at the bound. \<open>usize\<close> is 64 bits wide on the supported
  targets.
\<close>

definition u32_max :: nat where "u32_max = 2 ^ 32 - 1"
definition u64_max :: nat where "u64_max = 2 ^ 64 - 1"

definition sat_add32 :: "nat \<Rightarrow> nat \<Rightarrow> nat" where
  "sat_add32 a b = min (a + b) u32_max"

definition sat_add :: "nat \<Rightarrow> nat \<Rightarrow> nat" where
  "sat_add a b = min (a + b) u64_max"

definition sat_mul :: "nat \<Rightarrow> nat \<Rightarrow> nat" where
  "sat_mul a b = min (a * b) u64_max"

definition sat_pow :: "nat \<Rightarrow> nat \<Rightarrow> nat" where
  "sat_pow a n = min (a ^ n) u64_max"

definition div_ceil :: "nat \<Rightarrow> nat \<Rightarrow> nat" where
  "div_ceil a b = (a + b - 1) div b"

lemma sat_add_le [rust_arith]: "sat_add a b \<le> a + b" "sat_add a b \<le> u64_max"
  by (simp_all add: sat_add_def)

lemma sat_add_exact [rust_arith]: "a + b \<le> u64_max \<Longrightarrow> sat_add a b = a + b"
  by (simp add: sat_add_def)

lemma sat_add_le_iff [rust_arith]: "c < u64_max \<Longrightarrow> sat_add a b \<le> c \<longleftrightarrow> a + b \<le> c"
  by (auto simp: sat_add_def min_def)

lemma sat_add_less_iff [rust_arith]: "c \<le> u64_max \<Longrightarrow> sat_add a b < c \<longleftrightarrow> a + b < c"
  by (auto simp: sat_add_def min_def)

lemma sat_add_gt [rust_arith]: "c < u64_max \<Longrightarrow> c < sat_add a b \<longleftrightarrow> c < a + b"
  by (auto simp: sat_add_def min_def)

lemma sat_add_ge_left [rust_arith]: "a \<le> u64_max \<Longrightarrow> a \<le> sat_add a b"
  by (simp add: sat_add_def)

lemma div_ceil_bounds:
  assumes "0 < b" shows "a \<le> div_ceil a b * b" "div_ceil a b * b < a + b"
proof -
  have eq: "(a + b - 1) div b * b + (a + b - 1) mod b = a + b - 1" by simp
  have "(a + b - 1) mod b < b" using assms by simp
  then show "a \<le> div_ceil a b * b" using eq assms unfolding div_ceil_def by linarith
  show "div_ceil a b * b < a + b" using eq assms unfolding div_ceil_def by linarith
qed

lemma div_ceil_pos: "0 < b \<Longrightarrow> 0 < a \<Longrightarrow> 0 < div_ceil a b"
  using div_ceil_bounds(1) [of b a] by (cases "div_ceil a b") auto

section \<open>Hash maps\<close>

text \<open>
  A \<open>HashMap\<close> is an association list with distinct keys, listed in the order an iteration
  visits them. Rust leaves that order unspecified, so a theorem that holds for every list
  holds for every iteration order.
\<close>

type_synonym 'v hmap = "(string \<times> 'v) list"

abbreviation hm_get :: "('k \<times> 'v) list \<Rightarrow> 'k \<Rightarrow> 'v option" where
  "hm_get m k \<equiv> map_of m k"

abbreviation hm_insert :: "'k \<Rightarrow> 'v \<Rightarrow> ('k \<times> 'v) list \<Rightarrow> ('k \<times> 'v) list" where
  "hm_insert k v m \<equiv> AList.update k v m"

abbreviation hm_remove :: "'k \<Rightarrow> ('k \<times> 'v) list \<Rightarrow> ('k \<times> 'v) list" where
  "hm_remove k m \<equiv> AList.delete k m"

definition hm_keys :: "('k \<times> 'v) list \<Rightarrow> 'k list" where
  "hm_keys m = map fst m"

definition hm_wf :: "('k \<times> 'v) list \<Rightarrow> bool" where
  "hm_wf m \<longleftrightarrow> distinct (map fst m)"

lemma hm_get_insert [hmap_simps, simp]:
  "hm_get (hm_insert k v m) k' = (if k' = k then Some v else hm_get m k')"
  by (simp add: update_conv')

lemma hm_get_remove [hmap_simps, simp]:
  "hm_get (hm_remove k m) k' = (if k' = k then None else hm_get m k')"
  by (simp add: delete_conv')

lemma hm_wf_Nil [simp, intro!]: "hm_wf []"
  by (simp add: hm_wf_def)

lemma hm_wf_insert [simp, intro]: "hm_wf m \<Longrightarrow> hm_wf (hm_insert k v m)"
  by (simp add: hm_wf_def distinct_update)

lemma hm_wf_remove [simp, intro]: "hm_wf m \<Longrightarrow> hm_wf (hm_remove k m)"
  by (simp add: hm_wf_def distinct_delete)

lemma hm_wf_filter [simp, intro]: "hm_wf m \<Longrightarrow> hm_wf (filter P m)"
  by (auto simp: hm_wf_def distinct_map_filter)

lemma hm_get_in_set: "hm_get m k = Some v \<Longrightarrow> (k, v) \<in> set m"
  by (rule map_of_SomeD)

lemma hm_get_Some_iff: "hm_wf m \<Longrightarrow> hm_get m k = Some v \<longleftrightarrow> (k, v) \<in> set m"
  by (simp add: hm_wf_def)

lemma hm_get_None_iff: "hm_get m k = None \<longleftrightarrow> k \<notin> fst ` set m"
  by (simp add: map_of_eq_None_iff)

lemma hm_get_filter_eq:
  assumes "hm_wf m"
  shows "hm_get (filter P m) k = (case hm_get m k of None \<Rightarrow> None | Some v \<Rightarrow> if P (k, v) then Some v else None)"
proof (cases "hm_get m k")
  case None
  then have "k \<notin> fst ` set (filter P m)" by (auto simp: hm_get_None_iff)
  then have "hm_get (filter P m) k = None" by (simp only: hm_get_None_iff not_False_eq_True)
  with None show ?thesis by simp
next
  case (Some v)
  then have kv: "(k, v) \<in> set m" by (rule hm_get_in_set)
  show ?thesis
  proof (cases "P (k, v)")
    case True
    with kv have "(k, v) \<in> set (filter P m)" by simp
    with assms have "hm_get (filter P m) k = Some v" by (simp add: hm_get_Some_iff)
    with True Some show ?thesis by simp
  next
    case False
    have "k \<notin> fst ` set (filter P m)"
    proof
      assume "k \<in> fst ` set (filter P m)"
      then obtain w where w: "(k, w) \<in> set m" "P (k, w)" by auto
      with assms have "hm_get m k = Some w" by (simp add: hm_get_Some_iff)
      with Some w False show False by simp
    qed
    then have "hm_get (filter P m) k = None" by (simp only: hm_get_None_iff not_False_eq_True)
    with False Some show ?thesis by simp
  qed
qed

lemma hm_remove_filter: "hm_remove k m = filter (\<lambda>(k', _). k' \<noteq> k) m"
  by (auto simp: AList.delete_eq intro: filter_cong)

lemma in_hm_remove: "x \<in> set (hm_remove k m) \<Longrightarrow> x \<in> set m"
  by (auto simp: hm_remove_filter)

lemma length_hm_insert: "length (hm_insert k v m) = (if k \<in> fst ` set m then length m else Suc (length m))"
  by (induction m) auto

lemma set_hm_insert: "set (hm_insert k v m) \<subseteq> insert (k, v) (set m)"
  by (induction m) auto

lemma hm_insert_split:
  "k \<notin> fst ` set m \<Longrightarrow> hm_insert k v m = m @ [(k, v)]"
  by (induction m) auto

lemma sum_hm_insert_remove:
  fixes f :: "'k \<times> 'v \<Rightarrow> nat"
  assumes "hm_wf m"
  shows "sum_list (map f (hm_insert k v m)) = f (k, v) + sum_list (map f (hm_remove k m))"
  using assms
proof (induction m)
  case Nil
  then show ?case by simp
next
  case (Cons x m)
  from Cons show ?case by (cases x) (auto simp: hm_wf_def image_iff)
qed

lemma sum_filter_le:
  fixes f :: "'a \<Rightarrow> nat"
  shows "sum_list (map f (filter P xs)) \<le> sum_list (map f xs)"
  by (induction xs) auto

lemma length_hm_insert_remove: "hm_wf m \<Longrightarrow> length (hm_insert k v m) = Suc (length (hm_remove k m))"
  using sum_hm_insert_remove [of m "\<lambda>_. 1" k v] by (simp add: sum_list_triv)

section \<open>Ordered maps\<close>

text \<open>A \<open>BTreeMap\<close> iterates in key order: its association list is kept sorted.\<close>

fun bt_insert :: "'k::linorder \<Rightarrow> 'v \<Rightarrow> ('k \<times> 'v) list \<Rightarrow> ('k \<times> 'v) list" where
  "bt_insert k v [] = [(k, v)]"
| "bt_insert k v ((k', v') # m) =
     (if k < k' then (k, v) # (k', v') # m
      else if k = k' then (k, v) # m
      else (k', v') # bt_insert k v m)"

definition bt_wf :: "('k::linorder \<times> 'v) list \<Rightarrow> bool" where
  "bt_wf m \<longleftrightarrow> sorted_wrt (<) (map fst m)"

lemma set_fst_bt_insert: "fst ` set (bt_insert k v m) = insert k (fst ` set m)"
  by (induction k v m rule: bt_insert.induct) auto

lemma bt_wf_Nil [simp, intro!]: "bt_wf []"
  by (simp add: bt_wf_def)

lemma bt_wf_insert [simp, intro]: "bt_wf m \<Longrightarrow> bt_wf (bt_insert k v m)"
proof (induction k v m rule: bt_insert.induct)
  case (1 k v)
  then show ?case by (simp add: bt_wf_def)
next
  case (2 k v k' v' m)
  then show ?case
    using set_fst_bt_insert [of k v m] by (auto simp: bt_wf_def image_def)
qed

lemma map_of_bt_insert [hmap_simps, simp]:
  "bt_wf m \<Longrightarrow> map_of (bt_insert k v m) k' = (if k' = k then Some v else map_of m k')"
proof (induction k v m rule: bt_insert.induct)
  case (1 k v)
  then show ?case by simp
next
  case (2 k v k0 v0 m)
  then show ?case by (auto simp: bt_wf_def)
qed

lemma sorted_wrt_less_distinct: "sorted_wrt (<) (xs :: 'a::linorder list) \<Longrightarrow> distinct xs"
  by (induction xs) auto

lemma bt_wf_distinct: "bt_wf m \<Longrightarrow> hm_wf m"
  by (simp add: bt_wf_def hm_wf_def sorted_wrt_less_distinct)

lemma bt_wf_filter [simp, intro]: "bt_wf m \<Longrightarrow> bt_wf (filter P m)"
  by (induction m) (auto simp: bt_wf_def)

section \<open>Iterators\<close>

text \<open>\<open>Iterator::min_by\<close>: the first of the least elements.\<close>

definition min_by :: "('a \<Rightarrow> 'a \<Rightarrow> bool) \<Rightarrow> 'a list \<Rightarrow> 'a option" where
  "min_by lt xs =
     (case xs of [] \<Rightarrow> None
      | x # xs \<Rightarrow> Some (fold (\<lambda>y acc. if lt y acc then y else acc) xs x))"

lemma fold_min_in: "fold (\<lambda>y acc. if lt y acc then y else acc) xs x \<in> insert x (set xs)"
  by (induction xs arbitrary: x) force+

lemma min_by_None [simp]: "min_by lt xs = None \<longleftrightarrow> xs = []"
  by (simp add: min_by_def split: list.splits)

lemma min_by_in: "min_by lt xs = Some x \<Longrightarrow> x \<in> set xs"
  using fold_min_in by (fastforce simp: min_by_def split: list.splits)

lemma fold_min_least:
  assumes "\<And>a b c. \<not> lt b a \<Longrightarrow> \<not> lt c b \<Longrightarrow> \<not> lt c a" "\<And>a b. lt a b \<Longrightarrow> \<not> lt b a"
    and "y \<in> insert x (set xs)"
  shows "\<not> lt y (fold (\<lambda>y acc. if lt y acc then y else acc) xs x)"
  using assms(3)
proof (induction xs arbitrary: x y)
  case Nil
  then show ?case using assms(2) by auto
next
  case (Cons z xs)
  let ?F = "fold (\<lambda>y acc. if lt y acc then y else acc) xs"
  show ?case
  proof (cases "lt z x")
    case True
    then have "\<not> lt x (?F z)" using Cons.IH [of z z] assms(1) [where a = "?F z" and b = z and c = x] assms(2) by auto
    with True Cons show ?thesis by auto
  next
    case False
    then have "\<not> lt z (?F x)" using Cons.IH [of x x] assms(1) [where a = "?F x" and b = x and c = z] by auto
    with False Cons show ?thesis by auto
  qed
qed

text \<open>With a comparison that is a strict weak order, nothing in the list is below the result.\<close>

lemma min_by_least:
  assumes "min_by lt xs = Some m" "y \<in> set xs"
    and "\<And>a b c. \<not> lt b a \<Longrightarrow> \<not> lt c b \<Longrightarrow> \<not> lt c a" "\<And>a b. lt a b \<Longrightarrow> \<not> lt b a"
  shows "\<not> lt y m"
proof -
  from assms(1) obtain x zs where xs: "xs = x # zs"
    and m: "m = fold (\<lambda>y acc. if lt y acc then y else acc) zs x"
    by (auto simp: min_by_def split: list.splits)
  from assms(2) xs have "y \<in> insert x (set zs)" by simp
  from fold_min_least [of lt, OF assms(3,4) this] m show ?thesis by simp
qed

lemma find_app: "find P (xs @ ys) = (case find P xs of Some x \<Rightarrow> Some x | None \<Rightarrow> find P ys)"
  by (induction xs) auto

text \<open>\<open>Iterator::max\<close> of unsigned integers.\<close>

definition iter_max :: "nat list \<Rightarrow> nat option" where
  "iter_max xs = (case xs of [] \<Rightarrow> None | x # xs \<Rightarrow> Some (fold max xs x))"

lemma iter_max_None [simp]: "iter_max xs = None \<longleftrightarrow> xs = []"
  by (simp add: iter_max_def split: list.splits)

lemma iter_max_Max: "xs \<noteq> [] \<Longrightarrow> iter_max xs = Some (Max (set xs))"
  by (cases xs) (simp_all add: iter_max_def Max.set_eq_fold [symmetric])

section \<open>Strings\<close>

text \<open>
  The UTF-8 encodings of the characters with Unicode property \<open>White_Space\<close>, which
  \<open>str::trim\<close> removes from both ends.
\<close>

definition white_space :: "string list" where
  "white_space =
     [
      [CHR 0x09], [CHR 0x0A], [CHR 0x0B],
      [CHR 0x0C], [CHR 0x0D], [CHR 0x20],
      [CHR 0xC2, CHR 0x85], [CHR 0xC2, CHR 0xA0], [CHR 0xE1, CHR 0x9A, CHR 0x80],
      [CHR 0xE2, CHR 0x80, CHR 0xA8], [CHR 0xE2, CHR 0x80, CHR 0xA9], [CHR 0xE2, CHR 0x80, CHR 0xAF],
      [CHR 0xE2, CHR 0x81, CHR 0x9F], [CHR 0xE3, CHR 0x80, CHR 0x80], [CHR 0xE2, CHR 0x80, CHR 0x80],
      [CHR 0xE2, CHR 0x80, CHR 0x81], [CHR 0xE2, CHR 0x80, CHR 0x82], [CHR 0xE2, CHR 0x80, CHR 0x83],
      [CHR 0xE2, CHR 0x80, CHR 0x84], [CHR 0xE2, CHR 0x80, CHR 0x85], [CHR 0xE2, CHR 0x80, CHR 0x86],
      [CHR 0xE2, CHR 0x80, CHR 0x87], [CHR 0xE2, CHR 0x80, CHR 0x88], [CHR 0xE2, CHR 0x80, CHR 0x89],
      [CHR 0xE2, CHR 0x80, CHR 0x8A]]"

definition starts_with :: "string \<Rightarrow> string \<Rightarrow> bool" where
  "starts_with p s \<longleftrightarrow> take (length p) s = p"

definition strip_prefix :: "string \<Rightarrow> string \<Rightarrow> string option" where
  "strip_prefix p s = (if starts_with p s then Some (drop (length p) s) else None)"

text \<open>\<open>str::split\<close> at a character: there is always a first part.\<close>

fun split_on :: "char \<Rightarrow> string \<Rightarrow> string list" where
  "split_on d [] = [[]]"
| "split_on d (c # s) =
     (if c = d then [] # split_on d s else case split_on d s of [] \<Rightarrow> [[c]] | part # parts \<Rightarrow> (c # part) # parts)"

lemma split_on_nonempty [simp]: "split_on d s \<noteq> []"
  by (cases s) (simp_all split: list.split)

lemma white_space_nonempty: "w \<in> set white_space \<Longrightarrow> w \<noteq> []"
  by (auto simp: white_space_def)

function trim_start :: "string \<Rightarrow> string" where
  "trim_start s =
     (case find (\<lambda>w. starts_with w s) white_space of
        None \<Rightarrow> s
      | Some w \<Rightarrow> if s = [] then s else trim_start (drop (length w) s))"
  by pat_completeness auto
termination
proof (relation "measure length")
  fix s w
  assume "find (\<lambda>w. starts_with w s) white_space = Some w" "s \<noteq> []"
  then have "w \<noteq> []" using white_space_nonempty by (auto simp: find_Some_iff)
  with \<open>s \<noteq> []\<close> show "(drop (length w) s, s) \<in> measure length" by simp
qed simp

declare trim_start.simps [simp del]

function trim_end :: "string \<Rightarrow> string" where
  "trim_end s =
     (case find (\<lambda>w. starts_with (rev w) (rev s)) white_space of
        None \<Rightarrow> s
      | Some w \<Rightarrow> if s = [] then s else trim_end (take (length s - length w) s))"
  by pat_completeness auto
termination
proof (relation "measure length")
  fix s w
  assume "find (\<lambda>w. starts_with (rev w) (rev s)) white_space = Some w" "s \<noteq> []"
  then have "w \<noteq> []" using white_space_nonempty by (auto simp: find_Some_iff)
  with \<open>s \<noteq> []\<close> show "(take (length s - length w) s, s) \<in> measure length" by simp
qed simp

declare trim_end.simps [simp del]

definition trim :: "string \<Rightarrow> string" where
  "trim s = trim_end (trim_start s)"

lemma trim_start_noop: "\<forall>w \<in> set white_space. \<not> starts_with w s \<Longrightarrow> trim_start s = s"
  by (subst trim_start.simps) (auto simp: find_Some_iff split: option.splits)

lemma trim_end_noop: "\<forall>w \<in> set white_space. \<not> starts_with (rev w) (rev s) \<Longrightarrow> trim_end s = s"
  by (subst trim_end.simps) (auto simp: find_Some_iff split: option.splits)

text \<open>A string whose ends are visible ASCII characters is left as it is.\<close>

definition visible :: "char \<Rightarrow> bool" where
  "visible c \<longleftrightarrow> (let n = of_char c :: nat in 33 \<le> n \<and> n < 127)"

lemma white_space_invisible: "w \<in> set white_space \<Longrightarrow> \<not> visible (hd w) \<and> \<not> visible (last w)"
  by (auto simp: white_space_def visible_def)

lemma starts_with_hd: "starts_with w s \<Longrightarrow> w \<noteq> [] \<Longrightarrow> s \<noteq> [] \<and> hd w = hd s"
  by (cases w; cases s) (auto simp: starts_with_def)

lemma trim_visible:
  assumes "s \<noteq> []" "visible (hd s)" "visible (last s)"
  shows "trim s = s"
proof -
  have "\<forall>w \<in> set white_space. \<not> starts_with w s"
    using assms white_space_invisible white_space_nonempty starts_with_hd by metis
  moreover have "\<forall>w \<in> set white_space. \<not> starts_with (rev w) (rev s)"
    using assms white_space_invisible white_space_nonempty starts_with_hd [of "rev w" "rev s" for w]
    by (metis hd_rev rev_is_Nil_conv)
  ultimately show ?thesis by (simp add: trim_def trim_start_noop trim_end_noop)
qed

text \<open>A string between apostrophes, as in the messages.\<close>

definition quoted :: "string \<Rightarrow> string" where
  "quoted s = CHR 0x27 # s @ [CHR 0x27]"

text \<open>\<open>str::to_ascii_lowercase\<close> and \<open>str::eq_ignore_ascii_case\<close>.\<close>

definition ascii_lower :: "char \<Rightarrow> char" where
  "ascii_lower c =
     (let n = of_char c :: nat in if 65 \<le> n \<and> n \<le> 90 then char_of (n + 32) else c)"

definition to_ascii_lowercase :: "string \<Rightarrow> string" where
  "to_ascii_lowercase s = map ascii_lower s"

definition is_ascii_digit :: "char \<Rightarrow> bool" where
  "is_ascii_digit c \<longleftrightarrow> (let n = of_char c :: nat in 48 \<le> n \<and> n \<le> 57)"

definition is_ascii_alphabetic :: "char \<Rightarrow> bool" where
  "is_ascii_alphabetic c \<longleftrightarrow>
     (let n = of_char c :: nat in (65 \<le> n \<and> n \<le> 90) \<or> (97 \<le> n \<and> n \<le> 122))"

definition is_ascii_alphanumeric :: "char \<Rightarrow> bool" where
  "is_ascii_alphanumeric c \<longleftrightarrow> is_ascii_alphabetic c \<or> is_ascii_digit c"

text \<open>A byte of the form \<open>10xxxxxx\<close> continues a character: a slice may not start there.\<close>

definition is_continuation_byte :: "char \<Rightarrow> bool" where
  "is_continuation_byte c \<longleftrightarrow> (let n = of_char c :: nat in 128 \<le> n \<and> n < 192)"

text \<open>\<open>str::find\<close> with a string, \<open>str::contains\<close> and \<open>str::replace\<close> (the pattern is never empty).\<close>

fun find_sub :: "string \<Rightarrow> string \<Rightarrow> nat option" where
  "find_sub pat [] = (if pat = [] then Some 0 else None)"
| "find_sub pat (c # cs) =
     (if starts_with pat (c # cs) then Some 0 else map_option Suc (find_sub pat cs))"

definition contains :: "string \<Rightarrow> string \<Rightarrow> bool" where
  "contains s pat \<longleftrightarrow> find_sub pat s \<noteq> None"

function str_replace :: "string \<Rightarrow> string \<Rightarrow> string \<Rightarrow> string" where
  "str_replace pat to [] = []"
| "str_replace pat to (c # cs) =
     (if pat \<noteq> [] \<and> starts_with pat (c # cs) then to @ str_replace pat to (drop (length pat) (c # cs))
      else c # str_replace pat to cs)"
  by pat_completeness auto
termination
  by (relation "measure (\<lambda>(_, _, s). length s)") (auto simp: neq_Nil_conv)

lemma starts_with_append: "starts_with p s \<longleftrightarrow> (\<exists>t. s = p @ t)"
  by (auto simp: starts_with_def) (metis append_take_drop_id)

lemma find_sub_Some: "find_sub pat s = Some n \<Longrightarrow> \<exists>t. s = take n s @ pat @ t \<and> n \<le> length s"
proof (induction pat s arbitrary: n rule: find_sub.induct)
  case (1 pat)
  then show ?case by (auto split: if_splits)
next
  case (2 pat c cs)
  then show ?case by (fastforce simp: starts_with_append split: if_splits)
qed

lemma find_sub_None: "find_sub pat s = None \<longleftrightarrow> (\<forall>u t. s \<noteq> u @ pat @ t)"
proof (induction s)
  case Nil
  then show ?case by simp
next
  case (Cons c cs)
  have "(\<forall>u t. c # cs \<noteq> u @ pat @ t) \<longleftrightarrow> (\<forall>t. c # cs \<noteq> pat @ t) \<and> (\<forall>u t. cs \<noteq> u @ pat @ t)"
    by (metis append_Cons append_Nil list.exhaust list.inject)
  with Cons show ?case by (auto simp: starts_with_append)
qed

lemma contains_iff: "contains s pat \<longleftrightarrow> (\<exists>u t. s = u @ pat @ t)"
  by (auto simp: contains_def find_sub_None)

lemma str_replace_absent: "\<not> contains s pat \<Longrightarrow> str_replace pat to s = s"
proof (induction pat to s rule: str_replace.induct)
  case (1 pat to)
  then show ?case by simp
next
  case (2 pat to c cs)
  have "\<not> starts_with pat (c # cs)" using 2(3) by (auto simp: contains_def)
  moreover have "\<not> contains cs pat" using 2(3) by (auto simp: contains_def split: if_splits)
  ultimately show ?case using 2(2) by simp
qed

subsection \<open>Decimal numbers\<close>

definition digit_value :: "char \<Rightarrow> nat" where
  "digit_value c = of_char c - 48"

definition digit_char :: "nat \<Rightarrow> char" where
  "digit_char d = char_of (48 + d)"

definition digits_value :: "string \<Rightarrow> nat" where
  "digits_value s = fold (\<lambda>c acc. acc * 10 + digit_value c) s 0"

text \<open>\<open>u64::from_str\<close>: an optional \<open>+\<close>, then at least one digit and nothing else, in range.\<close>

definition parse_u64 :: "string \<Rightarrow> nat option" where
  "parse_u64 s =
     (let ds = (case s of [] \<Rightarrow> [] | c # cs \<Rightarrow> if c = CHR ''+'' then cs else s)
      in if ds \<noteq> [] \<and> list_all is_ascii_digit ds \<and> digits_value ds \<le> u64_max
         then Some (digits_value ds) else None)"

fun show_nat :: "nat \<Rightarrow> string" where
  "show_nat n = (if n < 10 then [digit_char n] else show_nat (n div 10) @ [digit_char (n mod 10)])"

declare show_nat.simps [simp del]

lemma digit_char_props:
  "d < 10 \<Longrightarrow> is_ascii_digit (digit_char d)" "d < 10 \<Longrightarrow> digit_value (digit_char d) = d"
  by (auto simp: is_ascii_digit_def digit_char_def digit_value_def)

lemma digits_value_snoc: "digits_value (s @ [c]) = digits_value s * 10 + digit_value c"
  by (simp add: digits_value_def)

lemma show_nat_props:
  "show_nat n \<noteq> [] \<and> list_all is_ascii_digit (show_nat n) \<and> digits_value (show_nat n) = n"
proof (induction n rule: show_nat.induct)
  case (1 n)
  show ?case
  proof (cases "n < 10")
    case True
    then show ?thesis
      by (subst (1 2 3) show_nat.simps) (simp add: digit_char_props digits_value_def)
  next
    case False
    with 1 have IH: "list_all is_ascii_digit (show_nat (n div 10))"
      "digits_value (show_nat (n div 10)) = n div 10" by auto
    from False have "show_nat n = show_nat (n div 10) @ [digit_char (n mod 10)]"
      by (subst show_nat.simps) simp
    with IH show ?thesis by (simp add: digit_char_props digits_value_snoc)
  qed
qed

lemma hd_show_nat: "is_ascii_digit (hd (show_nat n))"
  using show_nat_props [of n] by (cases "show_nat n") auto

lemma parse_show_nat: "n \<le> u64_max \<Longrightarrow> parse_u64 (show_nat n) = Some n"
proof -
  assume n: "n \<le> u64_max"
  have "hd (show_nat n) \<noteq> CHR ''+''"
    using hd_show_nat [of n] by (auto simp: is_ascii_digit_def)
  with n show_nat_props [of n] show ?thesis
    by (cases "show_nat n") (auto simp: parse_u64_def Let_def)
qed

end
