(* ===== verification/Flow_Config.thy ===== *)
theory Flow_Config
  imports Prelude
begin

text \<open>
  The flow manifest (\<open>crates/jaiba-core/src/config/flow.rs\<close>): one record per configuration
  struct, the defaults that deserialisation fills in, the effective worker limits and the
  validation of a schedule. Paths are strings; a JSON number is represented by its
  canonical text, so that \<open>Display\<close> of a number is the stored text.
\<close>

section \<open>JSON values\<close>

datatype json =
    JNull
  | JBool bool
  | JNumber string
  | JString string
  | JArray "json list"
  | JObject "(string \<times> json) list"

fun json_is_null :: "json \<Rightarrow> bool" where
  "json_is_null JNull = True"
| "json_is_null _ = False"

fun json_is_object :: "json \<Rightarrow> bool" where
  "json_is_object (JObject _) = True"
| "json_is_object _ = False"

fun json_as_str :: "json \<Rightarrow> string option" where
  "json_as_str (JString s) = Some s"
| "json_as_str _ = None"

fun json_as_array :: "json \<Rightarrow> json list option" where
  "json_as_array (JArray xs) = Some xs"
| "json_as_array _ = None"

text \<open>\<open>Value::get\<close> with a string key: \<open>None\<close> on anything that is not an object.\<close>

fun json_get :: "json \<Rightarrow> string \<Rightarrow> json option" where
  "json_get (JObject kvs) k = map_of kvs k"
| "json_get _ k = None"

section \<open>Schedules\<close>

datatype schedule_trigger =
    Interval (every_seconds: nat)
  | Cron (cron_expression: string)
  | Webhook

datatype overlap_policy = OverlapSkip | OverlapQueue | OverlapReplace
datatype catch_up_policy = CatchUpNone | CatchUpOne

record schedule_config =
  sch_enabled :: bool
  sch_trigger :: schedule_trigger
  sch_timezone :: "string option"
  sch_overlap :: overlap_policy
  sch_catch_up :: catch_up_policy

datatype schedule_error =
    IntervalZero
  | CronEmpty
  | CronInvalid string
  | UnknownTimezone string

text \<open>
  The parsers of cron expressions and of IANA time zones are third-party crates: they are
  the parameters \<open>parse_cron\<close> (the error text, or success) and \<open>known_tz\<close>.
\<close>

definition schedule_validate ::
  "(string \<Rightarrow> (string, unit) result) \<Rightarrow> (string \<Rightarrow> bool) \<Rightarrow> schedule_config \<Rightarrow> (schedule_error, unit) result" where
  "schedule_validate parse_cron known_tz sch =
     (if \<not> sch_enabled sch then Inr ()
      else case sch_trigger sch of
        Interval s \<Rightarrow> if s = 0 then Inl IntervalZero else Inr ()
      | Cron expression \<Rightarrow>
          (let trimmed = trim expression
           in if trimmed = [] then Inl CronEmpty
              else case parse_cron trimmed of
                Inl e \<Rightarrow> Inl (CronInvalid e)
              | Inr _ \<Rightarrow>
                  (let tz = (case map_option trim (sch_timezone sch) of
                               None \<Rightarrow> ''UTC''
                             | Some t \<Rightarrow> if t = [] then ''UTC'' else t)
                   in if known_tz tz then Inr () else Inl (UnknownTimezone tz)))
      | Webhook \<Rightarrow> Inr ())"

section \<open>Connections\<close>

record kafka_connection_config =
  kc_brokers_env :: string
  kc_client_id :: string
  kc_security_protocol :: string
  kc_sasl_mechanism :: "string option"
  kc_sasl_username_env :: "string option"
  kc_sasl_password_env :: "string option"
  kc_message_timeout_ms :: nat

definition default_kafka_client_id :: string where "default_kafka_client_id = ''jaiva''"
definition default_kafka_security_protocol :: string where "default_kafka_security_protocol = ''PLAINTEXT''"
definition default_kafka_message_timeout :: nat where "default_kafka_message_timeout = 30000"

record database_connection_config =
  dc_connection_type :: string
  dc_url_env :: string
  dc_max_connections :: nat

definition default_max_connections :: nat where "default_max_connections = 5"

section \<open>Engine\<close>

record worker_config =
  wc_cpu_threads :: nat
  wc_blocking_threads :: nat

record resolved_worker_config =
  rw_available_parallelism :: nat
  rw_cpu_threads :: nat
  rw_blocking_threads :: nat

text \<open>\<open>parallelism\<close> is what \<open>available_parallelism\<close> reports, \<open>None\<close> when it fails.\<close>

definition resolved :: "nat option \<Rightarrow> worker_config \<Rightarrow> resolved_worker_config" where
  "resolved parallelism wc =
     (let available = (case parallelism of None \<Rightarrow> 1 | Some n \<Rightarrow> n)
      in \<lparr> rw_available_parallelism = available,
           rw_cpu_threads = (if wc_cpu_threads wc = 0 then max (available div 2) 1 else wc_cpu_threads wc),
           rw_blocking_threads =
             (if wc_blocking_threads wc = 0 then min (max (available div 4) 2) (max available 1)
              else wc_blocking_threads wc) \<rparr>)"

record shutdown_config =
  sc_drain_timeout_seconds :: nat
  sc_force_after_timeout :: bool

definition default_drain_timeout :: nat where "default_drain_timeout = 60"

definition shutdown_default :: shutdown_config where
  "shutdown_default = \<lparr> sc_drain_timeout_seconds = default_drain_timeout, sc_force_after_timeout = True \<rparr>"

record circuit_breaker_config =
  cb_enabled :: bool
  cb_failure_threshold :: nat
  cb_open_seconds :: nat
  cb_half_open_requests :: nat

definition default_failure_threshold :: nat where "default_failure_threshold = 5"
definition default_circuit_open_seconds :: nat where "default_circuit_open_seconds = 30"
definition default_half_open_requests :: nat where "default_half_open_requests = 1"

definition circuit_breaker_default :: circuit_breaker_config where
  "circuit_breaker_default =
     \<lparr> cb_enabled = True, cb_failure_threshold = default_failure_threshold,
       cb_open_seconds = default_circuit_open_seconds,
       cb_half_open_requests = default_half_open_requests \<rparr>"

datatype admin_authentication = AuthNone | AuthBearer

record admin_config =
  ac_enabled :: bool
  ac_authentication :: admin_authentication
  ac_token_env :: string
  ac_max_request_body_bytes :: nat

definition default_admin_token_env :: string where "default_admin_token_env = ''JAIBA_ADMIN_TOKEN''"
definition default_request_limit :: nat where "default_request_limit = 1024 * 1024"

definition admin_default :: admin_config where
  "admin_default =
     \<lparr> ac_enabled = True, ac_authentication = AuthBearer, ac_token_env = default_admin_token_env,
       ac_max_request_body_bytes = default_request_limit \<rparr>"

datatype log_rotation = Hourly | Daily | Never

record logging_config =
  lc_enabled :: bool
  lc_directory :: string
  lc_rotation :: log_rotation
  lc_retention_hours :: nat
  lc_cleanup_interval_seconds :: nat

definition default_log_retention :: nat where "default_log_retention = 24 * 30"
definition default_log_cleanup_interval :: nat where "default_log_cleanup_interval = 3600"

definition logging_default :: logging_config where
  "logging_default =
     \<lparr> lc_enabled = True, lc_directory = ''.jaiva/logs'', lc_rotation = Daily,
       lc_retention_hours = default_log_retention,
       lc_cleanup_interval_seconds = default_log_cleanup_interval \<rparr>"

record repository_config =
  rc_enabled :: bool
  rc_database_path :: string
  rc_content_path :: string
  rc_abandoned_after_seconds :: nat
  rc_completed_retention_hours :: nat
  rc_provenance_retention_hours :: nat

definition default_abandoned_seconds :: nat where "default_abandoned_seconds = 0"
definition default_completed_retention :: nat where "default_completed_retention = 24"
definition default_provenance_retention :: nat where "default_provenance_retention = 24 * 90"

definition repository_default :: repository_config where
  "repository_default =
     \<lparr> rc_enabled = False, rc_database_path = ''.jaiva/repository.db'',
       rc_content_path = ''.jaiva/content'', rc_abandoned_after_seconds = default_abandoned_seconds,
       rc_completed_retention_hours = default_completed_retention,
       rc_provenance_retention_hours = default_provenance_retention \<rparr>"

record memory_config =
  mc_maximum_percent :: nat

definition default_memory_percent :: nat where "default_memory_percent = 42"

definition memory_default :: memory_config where
  "memory_default = \<lparr> mc_maximum_percent = default_memory_percent \<rparr>"

record domain_memory_config =
  dm_enabled :: bool
  dm_policy :: "json option"
  dm_policy_file :: "string option"

definition domain_memory_default :: domain_memory_config where
  "domain_memory_default = \<lparr> dm_enabled = False, dm_policy = None, dm_policy_file = None \<rparr>"

record engine_config =
  ec_queue_capacity :: nat
  ec_max_concurrency :: nat
  ec_state_file :: string
  ec_memory :: memory_config
  ec_domain_memory :: domain_memory_config
  ec_repository :: repository_config
  ec_logging :: logging_config
  ec_shutdown :: shutdown_config
  ec_circuit_breaker :: circuit_breaker_config
  ec_admin :: admin_config
  ec_workers :: worker_config

definition default_queue_capacity :: nat where "default_queue_capacity = 100"
definition default_concurrency :: nat where "default_concurrency = 4"
definition default_state_file :: string where "default_state_file = ''.jaiva/state.json''"

definition engine_default :: engine_config where
  "engine_default =
     \<lparr> ec_queue_capacity = default_queue_capacity, ec_max_concurrency = default_concurrency,
       ec_state_file = default_state_file, ec_memory = memory_default,
       ec_domain_memory = domain_memory_default, ec_repository = repository_default,
       ec_logging = logging_default, ec_shutdown = shutdown_default,
       ec_circuit_breaker = circuit_breaker_default, ec_admin = admin_default,
       ec_workers = \<lparr> wc_cpu_threads = 0, wc_blocking_threads = 0 \<rparr> \<rparr>"

section \<open>Processors and connections of the graph\<close>

datatype data_execution_mode = Real | Mock | Replay

record simulation_config =
  sim_mode :: data_execution_mode
  sim_options :: json

definition simulation_default :: simulation_config where
  "simulation_default = \<lparr> sim_mode = Real, sim_options = JObject [] \<rparr>"

record retry_config =
  rt_maximum_attempts :: nat
  rt_initial_delay_ms :: nat
  rt_maximum_delay_ms :: nat

definition default_retry_delay :: nat where "default_retry_delay = 250"
definition default_retry_max_delay :: nat where "default_retry_max_delay = 30000"

definition retry_default :: retry_config where
  "retry_default =
     \<lparr> rt_maximum_attempts = 0, rt_initial_delay_ms = default_retry_delay,
       rt_maximum_delay_ms = default_retry_max_delay \<rparr>"

datatype execution_mode = Auto | AsyncIo | BlockingIo | Cpu
datatype ordering_mode = Unordered | Preserve | Partitioned

record scheduling_config =
  sd_concurrent_tasks :: nat
  sd_maximum_in_flight :: "nat option"
  sd_timeout_ms :: "nat option"
  sd_execution_mode :: execution_mode
  sd_ordering :: ordering_mode
  sd_partition_by :: "string option"

definition default_concurrent_tasks :: nat where "default_concurrent_tasks = 1"

definition scheduling_default :: scheduling_config where
  "scheduling_default =
     \<lparr> sd_concurrent_tasks = default_concurrent_tasks, sd_maximum_in_flight = None,
       sd_timeout_ms = None, sd_execution_mode = Auto, sd_ordering = Unordered,
       sd_partition_by = None \<rparr>"

record processor_config =
  pc_id :: string
  pc_processor_type :: string
  pc_config :: json
  pc_retry :: retry_config
  pc_scheduling :: scheduling_config
  pc_simulation :: simulation_config

record connection_config =
  cn_from :: string
  cn_relationship :: string
  cn_to :: string
  cn_queue_capacity :: nat

record flow_config =
  fc_id :: string
  fc_parameters :: "string hmap"
  fc_database_connections :: "database_connection_config hmap"
  fc_kafka_connections :: "kafka_connection_config hmap"
  fc_schedule :: "schedule_config option"
  fc_engine :: engine_config
  fc_processors :: "processor_config list"
  fc_connections :: "connection_config list"

text \<open>\<open>collect\<close> into a \<open>HashMap\<close>: the last processor with an id wins.\<close>

definition processor_map :: "flow_config \<Rightarrow> processor_config hmap" where
  "processor_map fc = fold (\<lambda>p m. hm_insert (pc_id p) p m) (fc_processors fc) []"

section \<open>Lemmas\<close>

lemma resolved_workers_positive:
  "0 < rw_cpu_threads (resolved par wc)" "0 < rw_blocking_threads (resolved par wc)"
  by (auto simp: resolved_def Let_def split: option.splits)

lemma resolved_blocking_within_parallelism:
  "wc_blocking_threads wc = 0 \<Longrightarrow>
   rw_blocking_threads (resolved par wc) \<le> max (rw_available_parallelism (resolved par wc)) 1"
  by (auto simp: resolved_def Let_def split: option.splits)

lemma fold_insert_processors:
  "hm_get (fold (\<lambda>p m. hm_insert (pc_id p) p m) ps m) k =
     (case find (\<lambda>p. pc_id p = k) (rev ps) of Some p \<Rightarrow> Some p | None \<Rightarrow> hm_get m k)"
proof (induction ps arbitrary: m)
  case Nil
  then show ?case by simp
next
  case (Cons p ps)
  then show ?case by (auto simp: find_app split: option.splits)
qed

end
