(* ===== verification/Flow_Graph.thy ===== *)
theory Flow_Graph
  imports Flow_Config
begin

text \<open>
  \<open>FlowGraph::build\<close> (\<open>crates/jaiba-core/src/graph.rs\<close>): the checks on processor ids and
  connections, and Kahn's algorithm for the topological order. Results are
  \<open>option\<close>: \<open>None\<close> is a panic (an \<open>expect\<close> on a missing entry, or the decrement of a
  degree that is already zero), which the lemmas below show never to happen. The first
  pending nodes come in the iteration order of a hash map; the parameter \<open>ord\<close> is that
  order, any rearrangement of the ids.
\<close>

section \<open>Model\<close>

datatype graph_error =
    Empty
  | DuplicateProcessor string
  | UnknownProcessor string string
  | Cycle

record graph_node =
  gn_id :: string
  gn_processor_type :: string

record graph_edge =
  ge_from :: string
  ge_relationship :: string
  ge_to :: string

record flow_graph =
  fg_nodes :: "graph_node list"
  fg_edges :: "graph_edge list"
  fg_topological_order :: "string list"

fun collect_nodes ::
  "string list \<Rightarrow> processor_config list \<Rightarrow> (graph_error, graph_node list \<times> string list) result" where
  "collect_nodes ids [] = Inr ([], ids)"
| "collect_nodes ids (p # ps) =
     (if pc_id p \<in> set ids then Inl (DuplicateProcessor (pc_id p))
      else case collect_nodes (ids @ [pc_id p]) ps of
        Inl e \<Rightarrow> Inl e
      | Inr (ns, ids') \<Rightarrow>
          Inr (\<lparr> gn_id = pc_id p, gn_processor_type = pc_processor_type p \<rparr> # ns, ids'))"

fun collect_edges ::
  "string list \<Rightarrow> nat hmap \<Rightarrow> string list hmap \<Rightarrow> connection_config list \<Rightarrow>
   (graph_error, graph_edge list \<times> nat hmap \<times> string list hmap) result option" where
  "collect_edges ids indegree outgoing [] = Some (Inr ([], indegree, outgoing))"
| "collect_edges ids indegree outgoing (c # cs) =
     (if cn_from c \<notin> set ids \<or> cn_to c \<notin> set ids
      then Some (Inl (UnknownProcessor (cn_from c) (cn_to c)))
      else case hm_get indegree (cn_to c) of
        None \<Rightarrow> None
      | Some degree \<Rightarrow>
          (let targets = (case hm_get outgoing (cn_from c) of None \<Rightarrow> [] | Some ts \<Rightarrow> ts)
           in case collect_edges ids (hm_insert (cn_to c) (degree + 1) indegree)
                     (hm_insert (cn_from c) (targets @ [cn_to c]) outgoing) cs of
             None \<Rightarrow> None
           | Some (Inl e) \<Rightarrow> Some (Inl e)
           | Some (Inr (es, indegree', outgoing')) \<Rightarrow>
               Some (Inr (\<lparr> ge_from = cn_from c, ge_relationship = cn_relationship c, ge_to = cn_to c \<rparr> # es,
                          indegree', outgoing'))))"

text \<open>The inner \<open>for\<close> loop: one decrement per outgoing edge, nodes that reach zero join the queue.\<close>

fun relax :: "string list \<Rightarrow> nat hmap \<Rightarrow> string list \<Rightarrow> (nat hmap \<times> string list) option" where
  "relax [] indegree pending = Some (indegree, pending)"
| "relax (d # ds) indegree pending =
     (case hm_get indegree d of
        None \<Rightarrow> None
      | Some 0 \<Rightarrow> None
      | Some (Suc n) \<Rightarrow>
          relax ds (hm_insert d n indegree) (if n = 0 then pending @ [d] else pending))"

definition positive_degrees :: "nat hmap \<Rightarrow> nat" where
  "positive_degrees m = length (filter (\<lambda>(_, d). 0 < d) m)"

lemma positive_degrees_insert:
  "hm_get m d = Some (Suc n) \<Longrightarrow>
   positive_degrees (hm_insert d n m) + (if n = 0 then 1 else 0) = positive_degrees m"
  by (induction m) (auto simp: positive_degrees_def split: if_splits)

lemma relax_measure:
  "relax ds indegree pending = Some (indegree', pending') \<Longrightarrow>
   length pending' + positive_degrees indegree' = length pending + positive_degrees indegree"
proof (induction ds indegree pending rule: relax.induct)
  case (1 indegree pending)
  then show ?case by simp
next
  case (2 d ds indegree pending)
  then obtain n where n: "hm_get indegree d = Some (Suc n)"
    by (auto split: option.splits nat.splits)
  from positive_degrees_insert [OF n] 2 n show ?case by (auto split: if_splits)
qed

function kahn :: "string list hmap \<Rightarrow> string list \<Rightarrow> nat hmap \<Rightarrow> string list \<Rightarrow> string list option" where
  "kahn outgoing [] indegree order = Some order"
| "kahn outgoing (v # pending) indegree order =
     (case relax (case hm_get outgoing v of None \<Rightarrow> [] | Some ds \<Rightarrow> ds) indegree pending of
        None \<Rightarrow> None
      | Some (indegree', pending') \<Rightarrow> kahn outgoing pending' indegree' (order @ [v]))"
  by pat_completeness auto
termination
  by (relation "measure (\<lambda>(_, pending, indegree, _). length pending + positive_degrees indegree)")
    (auto dest: relax_measure)

definition build :: "(string list \<Rightarrow> string list) \<Rightarrow> flow_config \<Rightarrow> (graph_error, flow_graph) result option" where
  "build ord fc =
     (if fc_processors fc = [] then Some (Inl Empty)
      else case collect_nodes [] (fc_processors fc) of
        Inl e \<Rightarrow> Some (Inl e)
      | Inr (nodes, ids) \<Rightarrow>
          (case collect_edges ids (map (\<lambda>id. (id, 0)) (ord ids)) [] (fc_connections fc) of
             None \<Rightarrow> None
           | Some (Inl e) \<Rightarrow> Some (Inl e)
           | Some (Inr (edges, indegree, outgoing)) \<Rightarrow>
               (case kahn outgoing (map fst (filter (\<lambda>(_, degree). degree = 0) indegree)) indegree [] of
                  None \<Rightarrow> None
                | Some order \<Rightarrow>
                    if length order \<noteq> length nodes then Some (Inl Cycle)
                    else Some (Inr \<lparr> fg_nodes = nodes, fg_edges = edges,
                                     fg_topological_order = order \<rparr>))))"

section \<open>Specification\<close>

text \<open>Any iteration order of a hash set of ids: a rearrangement of its elements.\<close>

definition hash_order :: "(string list \<Rightarrow> string list) \<Rightarrow> bool" where
  "hash_order ord \<longleftrightarrow> (\<forall>xs. distinct xs \<longrightarrow> distinct (ord xs) \<and> set (ord xs) = set xs)"

definition processor_ids :: "flow_config \<Rightarrow> string list" where
  "processor_ids fc = map pc_id (fc_processors fc)"

definition edge_list :: "flow_config \<Rightarrow> (string \<times> string) list" where
  "edge_list fc = map (\<lambda>c. (cn_from c, cn_to c)) (fc_connections fc)"

text \<open>Both ends of every connection name a processor.\<close>

definition edges_known :: "flow_config \<Rightarrow> bool" where
  "edges_known fc \<longleftrightarrow>
     (\<forall>(a, b) \<in> set (edge_list fc). a \<in> set (processor_ids fc) \<and> b \<in> set (processor_ids fc))"

text \<open>Every source of an edge occurs in the list before its target.\<close>

definition topological :: "(string \<times> string) list \<Rightarrow> string list \<Rightarrow> bool" where
  "topological es xs \<longleftrightarrow> (\<forall>ys v zs. xs = ys @ v # zs \<longrightarrow> (\<forall>u. (u, v) \<in> set es \<longrightarrow> u \<in> set ys))"

section \<open>Lemmas\<close>

lemma topological_Nil [simp]: "topological es []"
  by (simp add: topological_def)

lemma topological_snoc:
  "topological es (xs @ [v]) \<longleftrightarrow> topological es xs \<and> (\<forall>u. (u, v) \<in> set es \<longrightarrow> u \<in> set xs)"
proof
  assume L: "topological es (xs @ [v])"
  have "topological es xs"
    unfolding topological_def
  proof (intro allI impI)
    fix ys w zs u
    assume "xs = ys @ w # zs" "(u, w) \<in> set es"
    with L show "u \<in> set ys" unfolding topological_def by (metis append_Cons append_assoc)
  qed
  with L show "topological es xs \<and> (\<forall>u. (u, v) \<in> set es \<longrightarrow> u \<in> set xs)"
    by (auto simp: topological_def)
next
  assume R: "topological es xs \<and> (\<forall>u. (u, v) \<in> set es \<longrightarrow> u \<in> set xs)"
  show "topological es (xs @ [v])"
    unfolding topological_def
  proof (intro allI impI)
    fix ys w zs u
    assume "xs @ [v] = ys @ w # zs" "(u, w) \<in> set es"
    with R show "u \<in> set ys"
      unfolding topological_def by (cases zs rule: rev_cases) auto
  qed
qed

lemma topological_acyclic:
  assumes "topological es xs" "\<And>a b. (a, b) \<in> set es \<Longrightarrow> b \<in> set xs"
  shows "acyclic (set es)"
proof -
  let ?pos = "\<lambda>v. length (takeWhile (\<lambda>x. x \<noteq> v) xs)"
  have "set es \<subseteq> measure ?pos"
  proof clarify
    fix a b assume ab: "(a, b) \<in> set es"
    with assms(2) obtain ys zs where xs: "xs = ys @ b # zs" "b \<notin> set ys"
      by (metis split_list_first)
    with assms(1) ab have a: "a \<in> set ys" by (auto simp: topological_def)
    from xs have "?pos b = length ys" by (simp add: takeWhile_append)
    moreover from a obtain us vs where "ys = us @ a # vs" "a \<notin> set us"
      by (metis split_list_first)
    then have "?pos a < length ys" using xs by (simp add: takeWhile_append)
    ultimately show "(a, b) \<in> measure ?pos" by simp
  qed
  then have "wf (set es)" by (rule wf_subset [OF wf_measure])
  then show ?thesis by (rule wf_acyclic)
qed

lemma collect_nodes_ok:
  "distinct (ids @ map pc_id ps) \<Longrightarrow>
   collect_nodes ids ps =
     Inr (map (\<lambda>p. \<lparr> gn_id = pc_id p, gn_processor_type = pc_processor_type p \<rparr>) ps, ids @ map pc_id ps)"
  by (induction ps arbitrary: ids) auto

text \<open>Otherwise the error names the first id that occurred before.\<close>

lemma collect_nodes_duplicate:
  "distinct ids \<Longrightarrow> \<not> distinct (ids @ map pc_id ps) \<Longrightarrow>
   \<exists>ps1 p ps2. ps = ps1 @ p # ps2 \<and> distinct (ids @ map pc_id ps1) \<and>
     pc_id p \<in> set (ids @ map pc_id ps1) \<and>
     collect_nodes ids ps = Inl (DuplicateProcessor (pc_id p))"
proof (induction ps arbitrary: ids)
  case Nil
  then show ?case by simp
next
  case (Cons p ps)
  show ?case
  proof (cases "pc_id p \<in> set ids")
    case True
    with Cons.prems show ?thesis by (intro exI [of _ "[]"]) auto
  next
    case False
    with Cons.prems have "distinct (ids @ [pc_id p])" "\<not> distinct ((ids @ [pc_id p]) @ map pc_id ps)"
      by auto
    from Cons.IH [OF this] obtain ps1 q ps2 where
      "ps = ps1 @ q # ps2" "distinct ((ids @ [pc_id p]) @ map pc_id ps1)"
      "pc_id q \<in> set ((ids @ [pc_id p]) @ map pc_id ps1)"
      "collect_nodes (ids @ [pc_id p]) ps = Inl (DuplicateProcessor (pc_id q))" by blast
    with False show ?thesis by (intro exI [of _ "p # ps1"]) auto
  qed
qed

text \<open>Degrees and adjacency after the connections have been read.\<close>

definition succs :: "(string \<times> string) list \<Rightarrow> string \<Rightarrow> string list" where
  "succs es u = map snd (filter (\<lambda>e. fst e = u) es)"

definition adj_get :: "string list hmap \<Rightarrow> string \<Rightarrow> string list" where
  "adj_get m u = (case hm_get m u of None \<Rightarrow> [] | Some ts \<Rightarrow> ts)"

definition known :: "string list \<Rightarrow> connection_config list \<Rightarrow> bool" where
  "known ids cs \<longleftrightarrow> (\<forall>c \<in> set cs. cn_from c \<in> set ids \<and> cn_to c \<in> set ids)"

abbreviation edge_pairs :: "connection_config list \<Rightarrow> (string \<times> string) list" where
  "edge_pairs cs \<equiv> map (\<lambda>c. (cn_from c, cn_to c)) cs"

lemma keys_insert_existing: "hm_get m k = Some v \<Longrightarrow> map fst (hm_insert k w m) = map fst m"
  by (induction m) (auto split: if_splits)

lemma collect_edges_ok:
  assumes "known ids cs" "\<forall>v \<in> set ids. hm_get indegree v \<noteq> None"
  shows "\<exists>indegree' outgoing'.
    collect_edges ids indegree outgoing cs =
      Some (Inr (map (\<lambda>c. \<lparr> ge_from = cn_from c, ge_relationship = cn_relationship c, ge_to = cn_to c \<rparr>) cs,
                 indegree', outgoing')) \<and>
    map fst indegree' = map fst indegree \<and>
    (\<forall>v. hm_get indegree' v =
       map_option (\<lambda>n. n + length (filter (\<lambda>e. snd e = v) (edge_pairs cs))) (hm_get indegree v)) \<and>
    (\<forall>u. adj_get outgoing' u = adj_get outgoing u @ succs (edge_pairs cs) u)"
  using assms
proof (induction cs arbitrary: indegree outgoing)
  case Nil
  then show ?case by (simp add: succs_def option.map_ident)
next
  case (Cons c cs)
  from Cons.prems obtain degree where d: "hm_get indegree (cn_to c) = Some degree"
    by (fastforce simp: known_def)
  let ?in = "hm_insert (cn_to c) (degree + 1) indegree"
  let ?out = "hm_insert (cn_from c) (adj_get outgoing (cn_from c) @ [cn_to c]) outgoing"
  from Cons.prems have "known ids cs" "\<forall>v \<in> set ids. hm_get ?in v \<noteq> None"
    by (auto simp: known_def)
  from Cons.IH [OF this, where outgoing = ?out] obtain in' out' where
    IH: "collect_edges ids ?in ?out cs =
      Some (Inr (map (\<lambda>c. \<lparr> ge_from = cn_from c, ge_relationship = cn_relationship c, ge_to = cn_to c \<rparr>) cs, in', out'))"
    "map fst in' = map fst ?in"
    "\<And>v. hm_get in' v = map_option (\<lambda>n. n + length (filter (\<lambda>e. snd e = v) (edge_pairs cs))) (hm_get ?in v)"
    "\<And>u. adj_get out' u = adj_get ?out u @ succs (edge_pairs cs) u" by blast
  have "collect_edges ids indegree outgoing (c # cs) =
      Some (Inr (map (\<lambda>c. \<lparr> ge_from = cn_from c, ge_relationship = cn_relationship c, ge_to = cn_to c \<rparr>) (c # cs), in', out'))"
    using Cons.prems(1) d IH(1) by (simp add: known_def adj_get_def)
  moreover have "map fst in' = map fst indegree"
    using IH(2) d by (simp add: keys_insert_existing)
  moreover have "hm_get in' v =
      map_option (\<lambda>n. n + length (filter (\<lambda>e. snd e = v) (edge_pairs (c # cs)))) (hm_get indegree v)" for v
    using IH(3) [of v] d by (cases "hm_get indegree v") auto
  moreover have "adj_get out' u = adj_get outgoing u @ succs (edge_pairs (c # cs)) u" for u
    using IH(4) [of u] by (auto simp: adj_get_def succs_def)
  ultimately show ?case by blast
qed

lemma collect_edges_unknown:
  assumes "\<not> known ids cs" "\<forall>v \<in> set ids. hm_get indegree v \<noteq> None"
  shows "\<exists>cs1 c cs2. cs = cs1 @ c # cs2 \<and> known ids cs1 \<and> \<not> known ids [c] \<and>
    collect_edges ids indegree outgoing cs = Some (Inl (UnknownProcessor (cn_from c) (cn_to c)))"
  using assms
proof (induction cs arbitrary: indegree outgoing)
  case Nil
  then show ?case by (simp add: known_def)
next
  case (Cons c cs)
  show ?case
  proof (cases "known ids [c]")
    case False
    then show ?thesis by (intro exI [of _ "[]"]) (auto simp: known_def)
  next
    case True
    with Cons.prems obtain degree where d: "hm_get indegree (cn_to c) = Some degree"
      by (fastforce simp: known_def)
    let ?in = "hm_insert (cn_to c) (degree + 1) indegree"
    let ?out = "hm_insert (cn_from c) (adj_get outgoing (cn_from c) @ [cn_to c]) outgoing"
    from Cons.prems True have "\<not> known ids cs" "\<forall>v \<in> set ids. hm_get ?in v \<noteq> None"
      by (auto simp: known_def)
    from Cons.IH [OF this, where outgoing = ?out] obtain cs1 b cs2 where
      "cs = cs1 @ b # cs2" "known ids cs1" "\<not> known ids [b]"
      "collect_edges ids ?in ?out cs = Some (Inl (UnknownProcessor (cn_from b) (cn_to b)))" by blast
    with True d show ?thesis
      by (intro exI [of _ "c # cs1"] exI [of _ b] exI [of _ cs2]) (auto simp: known_def adj_get_def)
  qed
qed

text \<open>One round of decrements: enough degree everywhere, and the new nodes are those that reach zero.\<close>

lemma relax_spec:
  assumes "\<And>d. d \<in> set ds \<Longrightarrow> \<exists>n. hm_get indegree d = Some n \<and> count_list ds d \<le> n"
  shows "\<exists>indegree' new. relax ds indegree pending = Some (indegree', pending @ new) \<and>
    (\<forall>v. hm_get indegree' v = map_option (\<lambda>n. n - count_list ds v) (hm_get indegree v)) \<and>
    distinct new \<and> set new = {d \<in> set ds. hm_get indegree d = Some (count_list ds d)}"
  using assms
proof (induction ds arbitrary: indegree pending)
  case Nil
  then show ?case by (simp add: option.map_ident)
next
  case (Cons d ds)
  from Cons.prems [of d] obtain n where d: "hm_get indegree d = Some (Suc n)" "count_list ds d \<le> n"
    by (auto dest: Suc_le_D)
  let ?in = "hm_insert d n indegree" and ?pending = "if n = 0 then pending @ [d] else pending"
  have pre: "\<exists>m. hm_get ?in x = Some m \<and> count_list ds x \<le> m" if "x \<in> set ds" for x
    using Cons.prems [of x] that d by (auto split: if_splits)
  obtain in' new where IH: "relax ds ?in ?pending = Some (in', ?pending @ new)"
    "\<And>v. hm_get in' v = map_option (\<lambda>k. k - count_list ds v) (hm_get ?in v)"
    "distinct new" "set new = {x \<in> set ds. hm_get ?in x = Some (count_list ds x)}"
    using Cons.IH [OF pre, where pending = ?pending] by blast
  let ?new = "if n = 0 then d # new else new"
  have "relax (d # ds) indegree pending = Some (in', pending @ ?new)"
    using d(1) IH(1) by auto
  moreover have "hm_get in' v = map_option (\<lambda>k. k - count_list (d # ds) v) (hm_get indegree v)" for v
    using IH(2) [of v] d(1) by (cases "hm_get indegree v") auto
  moreover have "distinct ?new"
    using IH(3,4) d(2) by (auto simp: count_list_0_iff)
  moreover have "x \<in> set ?new \<longleftrightarrow> x \<in> set (d # ds) \<and> hm_get indegree x = Some (count_list (d # ds) x)" for x
  proof (cases "x = d")
    case True
    have "d \<in> set new \<longleftrightarrow> d \<in> set ds \<and> n = count_list ds d" unfolding IH(4) by simp
    moreover have "d \<notin> set ds \<Longrightarrow> count_list ds d = 0" by (simp add: count_list_0_iff)
    ultimately show ?thesis using True d by (cases "n = 0") (auto simp: count_list_0_iff)
  next
    case False
    with IH(4) d(1) show ?thesis by simp
  qed
  then have "set ?new = {x \<in> set (d # ds). hm_get indegree x = Some (count_list (d # ds) x)}" by blast
  ultimately show ?case by blast
qed

subsection \<open>The loop invariant of Kahn's algorithm\<close>

definition open_degree :: "(string \<times> string) list \<Rightarrow> string list \<Rightarrow> string \<Rightarrow> nat" where
  "open_degree es order v = length (filter (\<lambda>e. snd e = v \<and> fst e \<notin> set order) es)"

definition kahn_inv ::
  "string set \<Rightarrow> (string \<times> string) list \<Rightarrow> string list \<Rightarrow> string list \<Rightarrow> nat hmap \<Rightarrow> bool" where
  "kahn_inv N es order pending indegree \<longleftrightarrow>
     (\<forall>v \<in> N. hm_get indegree v = Some (open_degree es order v)) \<and>
     distinct (order @ pending) \<and>
     set (order @ pending) = {v \<in> N. open_degree es order v = 0} \<and>
     topological es order"

lemma open_degree_0: "open_degree es order v = 0 \<longleftrightarrow> (\<forall>u. (u, v) \<in> set es \<longrightarrow> u \<in> set order)"
  by (auto simp: open_degree_def filter_empty_conv)

lemma count_succs: "count_list (succs es u) v = length (filter (\<lambda>e. snd e = v \<and> fst e = u) es)"
  by (induction es) (auto simp: succs_def)

lemma open_degree_snoc:
  "u \<notin> set order \<Longrightarrow>
   open_degree es order v = open_degree es (order @ [u]) v + count_list (succs es u) v"
  unfolding open_degree_def count_succs by (induction es) auto

lemma set_succs: "v \<in> set (succs es u) \<longleftrightarrow> (u, v) \<in> set es"
  by (force simp: succs_def)

lemma kahn_inv_step:
  assumes inv: "kahn_inv N es order (u # pending) indegree"
    and adj: "\<And>v. adj_get outgoing v = succs es v"
    and es: "snd ` set es \<subseteq> N"
  shows "\<exists>indegree' pending'.
    relax (succs es u) indegree pending = Some (indegree', pending') \<and>
    kahn_inv N es (order @ [u]) pending' indegree'"
proof -
  let ?ds = "succs es u"
  from inv have deg: "\<And>v. v \<in> N \<Longrightarrow> hm_get indegree v = Some (open_degree es order v)"
    and dist: "distinct (order @ u # pending)"
    and nodes: "set (order @ u # pending) = {v \<in> N. open_degree es order v = 0}"
    and topo: "topological es order"
    by (auto simp: kahn_inv_def)
  from dist have u: "u \<notin> set order" by auto
  have u0: "open_degree es order u = 0" using nodes by auto
  have pre: "\<exists>n. hm_get indegree d = Some n \<and> count_list ?ds d \<le> n" if "d \<in> set ?ds" for d
  proof -
    have "d \<in> N" using that es by (force simp: set_succs)
    with deg [of d] open_degree_snoc [OF u, of es d] show ?thesis by simp
  qed
  obtain in' new where R: "relax ?ds indegree pending = Some (in', pending @ new)"
    "\<And>v. hm_get in' v = map_option (\<lambda>n. n - count_list ?ds v) (hm_get indegree v)"
    "distinct new" "set new = {d \<in> set ?ds. hm_get indegree d = Some (count_list ?ds d)}"
    using relax_spec [of ?ds indegree pending] pre by blast
  have in': "hm_get in' v = Some (open_degree es (order @ [u]) v)" if "v \<in> N" for v
    using R(2) [of v] deg [OF that] open_degree_snoc [OF u, of es v] by simp
  have new: "d \<in> set new \<longleftrightarrow> d \<in> N \<and> open_degree es order d \<noteq> 0 \<and> open_degree es (order @ [u]) d = 0" for d
  proof
    assume "d \<in> set new"
    then have d: "d \<in> set ?ds" "hm_get indegree d = Some (count_list ?ds d)" using R(4) by auto
    then have "d \<in> N" using es by (force simp: set_succs)
    moreover have "count_list ?ds d \<noteq> 0" using d(1) by (simp add: count_list_0_iff)
    ultimately show "d \<in> N \<and> open_degree es order d \<noteq> 0 \<and> open_degree es (order @ [u]) d = 0"
      using d deg [of d] open_degree_snoc [OF u, of es d] by simp
  next
    assume d: "d \<in> N \<and> open_degree es order d \<noteq> 0 \<and> open_degree es (order @ [u]) d = 0"
    then have "count_list ?ds d \<noteq> 0" "hm_get indegree d = Some (count_list ?ds d)"
      using deg [of d] open_degree_snoc [OF u, of es d] by auto
    moreover from this(1) have "d \<in> set ?ds" by (simp add: count_list_0_iff)
    ultimately show "d \<in> set new" unfolding R(4) by blast
  qed
  have mono: "open_degree es (order @ [u]) v = 0" if "open_degree es order v = 0" for v
    using open_degree_snoc [OF u, of es v] that by simp
  have "set new \<inter> {v \<in> N. open_degree es order v = 0} = {}" using new by blast
  then have "set new \<inter> set (order @ u # pending) = {}" by (simp only: nodes)
  then have "distinct ((order @ [u]) @ pending @ new)"
    using dist R(3) by auto
  moreover have "set ((order @ [u]) @ pending @ new) = {v \<in> N. open_degree es (order @ [u]) v = 0}"
  proof -
    have "set ((order @ [u]) @ pending @ new) = set (order @ u # pending) \<union> set new" by auto
    also have "\<dots> = {v \<in> N. open_degree es (order @ [u]) v = 0}"
      unfolding nodes using new mono by auto
    finally show ?thesis .
  qed
  moreover have "topological es (order @ [u])"
    using topo u0 by (simp add: topological_snoc open_degree_0)
  ultimately show ?thesis using R(1) in' unfolding kahn_inv_def by blast
qed

lemma kahn_result:
  assumes "kahn_inv N es order pending indegree"
    and "\<And>v. adj_get outgoing v = succs es v" "snd ` set es \<subseteq> N"
  shows "\<exists>order' indegree'. kahn outgoing pending indegree order = Some order' \<and>
    kahn_inv N es order' [] indegree'"
  using assms
proof (induction outgoing pending indegree order rule: kahn.induct)
  case (1 outgoing indegree order)
  then show ?case by auto
next
  case (2 outgoing u pending indegree order)
  from kahn_inv_step [OF 2(2-4)] obtain in' pending' where
    R: "relax (succs es u) indegree pending = Some (in', pending')"
    "kahn_inv N es (order @ [u]) pending' in'" by blast
  have adj: "(case hm_get outgoing u of None \<Rightarrow> [] | Some ds \<Rightarrow> ds) = succs es u"
    using 2(3) [of u] by (simp add: adj_get_def)
  from R(1) have "relax (case hm_get outgoing u of None \<Rightarrow> [] | Some ds \<Rightarrow> ds) indegree pending = Some (in', pending')"
    by (simp only: adj)
  from 2(1) [OF this refl R(2) 2(3,4)] this show ?case by simp
qed

text \<open>The order holds every node exactly when the edges have no cycle.\<close>

lemma kahn_final:
  assumes "kahn_inv N es order [] indegree" "finite N"
    and es: "\<And>a b. (a, b) \<in> set es \<Longrightarrow> a \<in> N \<and> b \<in> N"
  shows "set order \<subseteq> N" "distinct order" "length order = card N \<longleftrightarrow> acyclic (set es)"
proof -
  from assms(1) have dist: "distinct order"
    and nodes: "set order = {v \<in> N. open_degree es order v = 0}" and topo: "topological es order"
    by (auto simp: kahn_inv_def)
  show sub: "set order \<subseteq> N" using nodes by auto
  show "distinct order" by (rule dist)
  have card: "length order = card N \<longleftrightarrow> set order = N"
    using dist sub \<open>finite N\<close> by (metis card_subset_eq distinct_card)
  show "length order = card N \<longleftrightarrow> acyclic (set es)"
    unfolding card
  proof
    assume "set order = N"
    with topo es show "acyclic (set es)" by (intro topological_acyclic) auto
  next
    assume "acyclic (set es)"
    then have wf: "wf (set es)" by (intro finite_acyclic_wf) auto
    show "set order = N"
    proof (rule ccontr)
      assume "set order \<noteq> N"
      with sub obtain w where "w \<in> N - set order" by blast
      then obtain v where v: "v \<in> N - set order" "\<And>u. (u, v) \<in> set es \<Longrightarrow> u \<notin> N - set order"
        using wfE_min [OF wf] by metis
      then have "\<forall>u. (u, v) \<in> set es \<longrightarrow> u \<in> set order" using es by blast
      then have "open_degree es order v = 0" by (simp add: open_degree_0)
      with v(1) nodes show False by auto
    qed
  qed
qed

subsection \<open>The whole of \<open>build\<close>\<close>

lemma known_iff_edges_known:
  "known (processor_ids fc) (fc_connections fc) \<longleftrightarrow> edges_known fc"
  by (auto simp: known_def edges_known_def edge_list_def)

lemma zero_degrees_defined: "v \<in> set ids \<Longrightarrow> hm_get (map (\<lambda>id. (id, 0::nat)) ids) v \<noteq> None"
  by (induction ids) auto

lemma kahn_inv_initial:
  assumes "distinct ids" "map fst indegree = ids"
    and "\<And>v. hm_get indegree v =
      map_option (\<lambda>n. n + length (filter (\<lambda>e. snd e = v) es)) (hm_get (map (\<lambda>id. (id, 0)) ids) v)"
  shows "kahn_inv (set ids) es [] (map fst (filter (\<lambda>(_, degree). degree = 0) indegree)) indegree"
proof -
  have wf: "hm_wf indegree" using assms(1,2) by (simp add: hm_wf_def)
  have deg: "hm_get indegree v = Some (open_degree es [] v)" if "v \<in> set ids" for v
  proof -
    have "hm_get (map (\<lambda>id. (id, 0::nat)) ids) v = Some 0" using that by (induction ids) auto
    with assms(3) [of v] show ?thesis by (simp add: open_degree_def)
  qed
  let ?pending = "map fst (filter (\<lambda>(_, degree). degree = 0) indegree)"
  have "distinct ?pending" using wf by (auto simp: hm_wf_def distinct_map_filter)
  moreover have "v \<in> set ?pending \<longleftrightarrow> v \<in> set ids \<and> open_degree es [] v = 0" for v
  proof -
    have "v \<in> set ?pending \<longleftrightarrow> (v, 0) \<in> set indegree" by force
    also have "\<dots> \<longleftrightarrow> hm_get indegree v = Some 0" by (simp add: hm_get_Some_iff [OF wf])
    also have "\<dots> \<longleftrightarrow> v \<in> set ids \<and> open_degree es [] v = 0"
    proof (cases "v \<in> set ids")
      case True
      then show ?thesis using deg by auto
    next
      case False
      then have "v \<notin> fst ` set indegree" using assms(2) by (metis set_map)
      then have "hm_get indegree v = None" by (simp only: hm_get_None_iff not_False_eq_True)
      with False show ?thesis by simp
    qed
    finally show ?thesis .
  qed
  then have "set ?pending = {v \<in> set ids. open_degree es [] v = 0}" by blast
  ultimately show ?thesis using deg unfolding kahn_inv_def by simp
qed

lemma build_sorted:
  assumes ord: "hash_order ord"
    and ok: "fc_processors fc \<noteq> []" "distinct (processor_ids fc)" "edges_known fc"
  shows "\<exists>order indegree. kahn_inv (set (processor_ids fc)) (edge_list fc) order [] indegree \<and>
    build ord fc = Some (if length order = length (processor_ids fc)
      then Inr \<lparr> fg_nodes = map (\<lambda>p. \<lparr> gn_id = pc_id p, gn_processor_type = pc_processor_type p \<rparr>) (fc_processors fc),
                 fg_edges = map (\<lambda>c. \<lparr> ge_from = cn_from c, ge_relationship = cn_relationship c, ge_to = cn_to c \<rparr>) (fc_connections fc),
                 fg_topological_order = order \<rparr>
      else Inl Cycle)"
proof -
  let ?ids = "processor_ids fc" and ?es = "edge_list fc" and ?cs = "fc_connections fc"
  have nodes: "collect_nodes [] (fc_processors fc) =
      Inr (map (\<lambda>p. \<lparr> gn_id = pc_id p, gn_processor_type = pc_processor_type p \<rparr>) (fc_processors fc), ?ids)"
    using collect_nodes_ok [of "[]" "fc_processors fc"] ok(2) by (simp add: processor_ids_def)
  have ords: "distinct (ord ?ids)" "set (ord ?ids) = set ?ids"
    using ord ok(2) by (auto simp: hash_order_def)
  have kn: "known ?ids ?cs" using ok(3) by (simp only: known_iff_edges_known)
  have start: "\<forall>v \<in> set ?ids. hm_get (map (\<lambda>id. (id, 0::nat)) (ord ?ids)) v \<noteq> None"
    using ords(2) by (intro ballI zero_degrees_defined) simp
  obtain indegree outgoing where E:
    "collect_edges ?ids (map (\<lambda>id. (id, 0)) (ord ?ids)) [] ?cs =
      Some (Inr (map (\<lambda>c. \<lparr> ge_from = cn_from c, ge_relationship = cn_relationship c, ge_to = cn_to c \<rparr>) ?cs,
                 indegree, outgoing))"
    "map fst indegree = map fst (map (\<lambda>id. (id, 0::nat)) (ord ?ids))"
    "\<forall>v. hm_get indegree v =
       map_option (\<lambda>n. n + length (filter (\<lambda>e. snd e = v) (edge_pairs ?cs))) (hm_get (map (\<lambda>id. (id, 0)) (ord ?ids)) v)"
    "\<forall>u. adj_get outgoing u = adj_get [] u @ succs (edge_pairs ?cs) u"
    using collect_edges_ok [OF kn start, where outgoing = "[]"] by - (elim exE conjE, rule that)
  have keys: "map fst indegree = ord ?ids" using E(2) by (simp add: comp_def)
  have "kahn_inv (set (ord ?ids)) ?es [] (map fst (filter (\<lambda>(_, degree). degree = 0) indegree)) indegree"
    by (rule kahn_inv_initial [OF ords(1) keys]) (use E(3) in \<open>simp add: edge_list_def\<close>)
  then have inv: "kahn_inv (set ?ids) ?es [] (map fst (filter (\<lambda>(_, degree). degree = 0) indegree)) indegree"
    by (simp only: ords)
  have adj: "adj_get outgoing u = succs ?es u" for u
    using E(4) by (simp add: adj_get_def edge_list_def)
  have es: "snd ` set ?es \<subseteq> set ?ids" using ok(3) by (auto simp: edges_known_def)
  obtain order in' where K:
    "kahn outgoing (map fst (filter (\<lambda>(_, degree). degree = 0) indegree)) indegree [] = Some order"
    "kahn_inv (set ?ids) ?es order [] in'"
    using kahn_result [OF inv adj es] by blast
  have "build ord fc = Some (if length order = length ?ids
      then Inr \<lparr> fg_nodes = map (\<lambda>p. \<lparr> gn_id = pc_id p, gn_processor_type = pc_processor_type p \<rparr>) (fc_processors fc),
                 fg_edges = map (\<lambda>c. \<lparr> ge_from = cn_from c, ge_relationship = cn_relationship c, ge_to = cn_to c \<rparr>) ?cs,
                 fg_topological_order = order \<rparr>
      else Inl Cycle)"
    using ok(1) nodes E(1) K(1) by (simp add: build_def processor_ids_def)
  with K(2) show ?thesis by blast
qed

lemma build_valid:
  assumes "hash_order ord" "fc_processors fc \<noteq> []" "distinct (processor_ids fc)" "edges_known fc"
  shows "if acyclic (set (edge_list fc))
    then \<exists>order. build ord fc = Some (Inr
        \<lparr> fg_nodes = map (\<lambda>p. \<lparr> gn_id = pc_id p, gn_processor_type = pc_processor_type p \<rparr>) (fc_processors fc),
          fg_edges = map (\<lambda>c. \<lparr> ge_from = cn_from c, ge_relationship = cn_relationship c, ge_to = cn_to c \<rparr>) (fc_connections fc),
          fg_topological_order = order \<rparr>) \<and>
      distinct order \<and> set order = set (processor_ids fc) \<and> topological (edge_list fc) order
    else build ord fc = Some (Inl Cycle)"
proof -
  from build_sorted [OF assms] obtain order indegree where
    inv: "kahn_inv (set (processor_ids fc)) (edge_list fc) order [] indegree"
    and b: "build ord fc = Some (if length order = length (processor_ids fc)
      then Inr \<lparr> fg_nodes = map (\<lambda>p. \<lparr> gn_id = pc_id p, gn_processor_type = pc_processor_type p \<rparr>) (fc_processors fc),
                 fg_edges = map (\<lambda>c. \<lparr> ge_from = cn_from c, ge_relationship = cn_relationship c, ge_to = cn_to c \<rparr>) (fc_connections fc),
                 fg_topological_order = order \<rparr>
      else Inl Cycle)" by blast
  have es: "(a, b) \<in> set (edge_list fc) \<Longrightarrow> a \<in> set (processor_ids fc) \<and> b \<in> set (processor_ids fc)" for a b
    using assms(4) by (auto simp: edges_known_def)
  note fin = kahn_final [OF inv finite_set es]
  have card: "card (set (processor_ids fc)) = length (processor_ids fc)"
    using assms(3) by (simp add: distinct_card)
  show ?thesis
  proof (cases "acyclic (set (edge_list fc))")
    case True
    then have len: "length order = length (processor_ids fc)" using fin(3) card by simp
    then have "set order = set (processor_ids fc)"
      using fin(1,2) card by (metis card_subset_eq distinct_card finite_set)
    with True len b fin(2) inv show ?thesis by (auto simp: kahn_inv_def)
  next
    case False
    then show ?thesis using fin(3) card b by simp
  qed
qed

lemma build_invalid:
  assumes "hash_order ord"
  shows "fc_processors fc = [] \<Longrightarrow> build ord fc = Some (Inl Empty)"
    and "\<not> distinct (processor_ids fc) \<Longrightarrow>
      \<exists>ps1 p ps2. fc_processors fc = ps1 @ p # ps2 \<and> distinct (map pc_id ps1) \<and>
        pc_id p \<in> set (map pc_id ps1) \<and> build ord fc = Some (Inl (DuplicateProcessor (pc_id p)))"
    and "fc_processors fc \<noteq> [] \<Longrightarrow> distinct (processor_ids fc) \<Longrightarrow> \<not> edges_known fc \<Longrightarrow>
      \<exists>cs1 c cs2. fc_connections fc = cs1 @ c # cs2 \<and> known (processor_ids fc) cs1 \<and>
        \<not> known (processor_ids fc) [c] \<and> build ord fc = Some (Inl (UnknownProcessor (cn_from c) (cn_to c)))"
proof -
  show "fc_processors fc = [] \<Longrightarrow> build ord fc = Some (Inl Empty)" by (simp add: build_def)
next
  assume "\<not> distinct (processor_ids fc)"
  with collect_nodes_duplicate [of "[]" "fc_processors fc"] obtain ps1 p ps2 where
    D: "fc_processors fc = ps1 @ p # ps2" "distinct (map pc_id ps1)" "pc_id p \<in> set (map pc_id ps1)"
       "collect_nodes [] (fc_processors fc) = Inl (DuplicateProcessor (pc_id p))"
    by (auto simp: processor_ids_def)
  then have "build ord fc = Some (Inl (DuplicateProcessor (pc_id p)))" by (simp add: build_def)
  with D show "\<exists>ps1 p ps2. fc_processors fc = ps1 @ p # ps2 \<and> distinct (map pc_id ps1) \<and>
      pc_id p \<in> set (map pc_id ps1) \<and> build ord fc = Some (Inl (DuplicateProcessor (pc_id p)))" by blast
next
  assume ok: "fc_processors fc \<noteq> []" "distinct (processor_ids fc)" and "\<not> edges_known fc"
  then have unk: "\<not> known (processor_ids fc) (fc_connections fc)" by (simp add: known_iff_edges_known)
  have "\<forall>v \<in> set (processor_ids fc). hm_get (map (\<lambda>id. (id, 0::nat)) (ord (processor_ids fc))) v \<noteq> None"
    using ok(2) assms by (intro ballI zero_degrees_defined) (simp add: hash_order_def)
  from collect_edges_unknown [OF unk this, where outgoing = "[]"] obtain cs1 c cs2 where
    U: "fc_connections fc = cs1 @ c # cs2" "known (processor_ids fc) cs1" "\<not> known (processor_ids fc) [c]"
       "collect_edges (processor_ids fc) (map (\<lambda>id. (id, 0)) (ord (processor_ids fc))) [] (fc_connections fc) =
        Some (Inl (UnknownProcessor (cn_from c) (cn_to c)))" by blast
  then have "build ord fc = Some (Inl (UnknownProcessor (cn_from c) (cn_to c)))"
    using ok collect_nodes_ok [of "[]" "fc_processors fc"] by (simp add: build_def processor_ids_def)
  with U show "\<exists>cs1 c cs2. fc_connections fc = cs1 @ c # cs2 \<and> known (processor_ids fc) cs1 \<and>
      \<not> known (processor_ids fc) [c] \<and> build ord fc = Some (Inl (UnknownProcessor (cn_from c) (cn_to c)))" by blast
qed


section \<open>Properties\<close>

lemma build_cases:
  assumes "hash_order ord"
  obtains (Empty) "fc_processors fc = []" "build ord fc = Some (Inl Empty)"
  | (Duplicate) ps1 p ps2 where "fc_processors fc = ps1 @ p # ps2" "distinct (map pc_id ps1)"
      "pc_id p \<in> set (map pc_id ps1)" "build ord fc = Some (Inl (DuplicateProcessor (pc_id p)))"
  | (Unknown) cs1 c cs2 where "distinct (processor_ids fc)" "fc_connections fc = cs1 @ c # cs2"
      "known (processor_ids fc) cs1" "\<not> known (processor_ids fc) [c]"
      "build ord fc = Some (Inl (UnknownProcessor (cn_from c) (cn_to c)))"
  | (Cycle) "fc_processors fc \<noteq> []" "distinct (processor_ids fc)" "edges_known fc"
      "\<not> acyclic (set (edge_list fc))" "build ord fc = Some (Inl Cycle)"
  | (Ok) order where "fc_processors fc \<noteq> []" "distinct (processor_ids fc)" "edges_known fc"
      "acyclic (set (edge_list fc))" "distinct order" "set order = set (processor_ids fc)"
      "topological (edge_list fc) order"
      "build ord fc = Some (Inr
        \<lparr> fg_nodes = map (\<lambda>p. \<lparr> gn_id = pc_id p, gn_processor_type = pc_processor_type p \<rparr>) (fc_processors fc),
          fg_edges = map (\<lambda>c. \<lparr> ge_from = cn_from c, ge_relationship = cn_relationship c, ge_to = cn_to c \<rparr>) (fc_connections fc),
          fg_topological_order = order \<rparr>)"
proof (cases "fc_processors fc = []")
  case True
  then show ?thesis using build_invalid(1) [OF assms] that(1) by blast
next
  case nonempty: False
  show ?thesis
  proof (cases "distinct (processor_ids fc)")
    case False
    then show ?thesis using build_invalid(2) [OF assms] that(2) by blast
  next
    case dist: True
    show ?thesis
    proof (cases "edges_known fc")
      case False
      then show ?thesis using build_invalid(3) [OF assms nonempty dist] dist that(3) by blast
    next
      case True
      show ?thesis
      proof (cases "acyclic (set (edge_list fc))")
        case acyc: True
        with build_valid [OF assms nonempty dist True] show ?thesis
          using that(5) [OF nonempty dist True acyc] by auto
      next
        case False
        with build_valid [OF assms nonempty dist True] show ?thesis
          using that(4) [OF nonempty dist True False] by simp
      qed
    qed
  qed
qed

text \<open>
  C1. Whatever the iteration order of the hash map, \<open>build\<close> returns without a panic, and it
  succeeds exactly on the configurations with at least one processor, distinct processor
  ids, connections between known processors and no cycle.
\<close>

theorem build_succeeds_iff:
  assumes "hash_order ord"
  shows "build ord fc \<noteq> None \<and>
    ((\<exists>g. build ord fc = Some (Inr g)) \<longleftrightarrow>
      fc_processors fc \<noteq> [] \<and> distinct (processor_ids fc) \<and> edges_known fc \<and>
      acyclic (set (edge_list fc)))"
  using assms
proof (cases rule: build_cases [where fc = fc])
  case (Duplicate ps1 p ps2)
  then have "\<not> distinct (processor_ids fc)" by (auto simp: processor_ids_def)
  with Duplicate show ?thesis by simp
next
  case (Unknown cs1 c cs2)
  then have "\<not> edges_known fc" by (auto simp: known_def simp flip: known_iff_edges_known)
  with Unknown show ?thesis by simp
qed simp_all

text \<open>
  A successful \<open>build\<close> lists every processor and every connection in the order of the
  configuration, and its topological order holds every processor exactly once, the source of
  each connection before its target.
\<close>

theorem build_topological:
  assumes "hash_order ord" "build ord fc = Some (Inr g)"
  shows "map gn_id (fg_nodes g) = processor_ids fc \<and>
    map gn_processor_type (fg_nodes g) = map pc_processor_type (fc_processors fc) \<and>
    map (\<lambda>e. (ge_from e, ge_relationship e, ge_to e)) (fg_edges g) =
      map (\<lambda>c. (cn_from c, cn_relationship c, cn_to c)) (fc_connections fc) \<and>
    distinct (fg_topological_order g) \<and> set (fg_topological_order g) = set (processor_ids fc) \<and>
    topological (edge_list fc) (fg_topological_order g)"
  using assms(1)
proof (cases rule: build_cases [where fc = fc])
  case (Ok order)
  with assms(2) show ?thesis by (auto simp: processor_ids_def)
qed (use assms(2) in simp_all)

text \<open>
  On failure the error is the first problem in the order of the checks: no processors,
  then the first repeated id, then the first connection with an unknown end, then a cycle.
\<close>

theorem build_error:
  assumes "hash_order ord" "build ord fc = Some (Inl e)"
  shows "case e of
      Empty \<Rightarrow> fc_processors fc = []
    | DuplicateProcessor i \<Rightarrow>
        (\<exists>ps1 p ps2. fc_processors fc = ps1 @ p # ps2 \<and> pc_id p = i \<and>
           distinct (map pc_id ps1) \<and> i \<in> pc_id ` set ps1)
    | UnknownProcessor a b \<Rightarrow>
        distinct (processor_ids fc) \<and>
        (\<exists>cs1 c cs2. fc_connections fc = cs1 @ c # cs2 \<and> cn_from c = a \<and> cn_to c = b \<and>
           known (processor_ids fc) cs1 \<and>
           (a \<notin> set (processor_ids fc) \<or> b \<notin> set (processor_ids fc)))
    | Cycle \<Rightarrow>
        distinct (processor_ids fc) \<and> edges_known fc \<and> \<not> acyclic (set (edge_list fc))"
  using assms(1)
proof (cases rule: build_cases [where fc = fc])
  case (Duplicate ps1 p ps2)
  with assms(2) have "e = DuplicateProcessor (pc_id p)" by simp
  with Duplicate show ?thesis by auto
next
  case (Unknown cs1 c cs2)
  with assms(2) have "e = UnknownProcessor (cn_from c) (cn_to c)" by simp
  with Unknown show ?thesis by (auto simp: known_def)
qed (use assms(2) in simp_all)

subsection \<open>Witnesses\<close>

text \<open>Two stages of a small flow, with an edge from \<open>a\<close> to \<open>b\<close>.\<close>

definition example_processor :: "string \<Rightarrow> processor_config" where
  "example_processor i =
     \<lparr> pc_id = i, pc_processor_type = ''t'', pc_config = JNull, pc_retry = retry_default,
       pc_scheduling = scheduling_default, pc_simulation = simulation_default \<rparr>"

definition example_connection :: "string \<Rightarrow> string \<Rightarrow> connection_config" where
  "example_connection a b =
     \<lparr> cn_from = a, cn_relationship = ''success'', cn_to = b, cn_queue_capacity = 2 \<rparr>"

definition example_flow :: "processor_config list \<Rightarrow> connection_config list \<Rightarrow> flow_config" where
  "example_flow ps cs =
     \<lparr> fc_id = ''f'', fc_parameters = [], fc_database_connections = [],
       fc_kafka_connections = [], fc_schedule = None, fc_engine = engine_default,
       fc_processors = ps, fc_connections = cs \<rparr>"

lemma hash_order_rev: "hash_order rev"
  by (simp add: hash_order_def)

lemma example_build:
  "build rev (example_flow [example_processor ''b'', example_processor ''a''] [example_connection ''a'' ''b'']) =
    Some (Inr \<lparr> fg_nodes = [\<lparr> gn_id = ''b'', gn_processor_type = ''t'' \<rparr>, \<lparr> gn_id = ''a'', gn_processor_type = ''t'' \<rparr>],
                fg_edges = [\<lparr> ge_from = ''a'', ge_relationship = ''success'', ge_to = ''b'' \<rparr>],
                fg_topological_order = [''a'', ''b''] \<rparr>)"
  "build rev (example_flow [example_processor ''b'', example_processor ''a'']
     [example_connection ''a'' ''b'', example_connection ''b'' ''a'']) = Some (Inl Cycle)"
  by (simp_all add: build_def example_flow_def example_processor_def example_connection_def Let_def)

lemma build_succeeds_iff_witness:
  "\<not> acyclic (set (edge_list (example_flow [example_processor ''b'', example_processor ''a'']
     [example_connection ''a'' ''b'', example_connection ''b'' ''a''])))"
  using build_succeeds_iff [OF hash_order_rev, of "example_flow [example_processor ''b'', example_processor ''a'']
     [example_connection ''a'' ''b'', example_connection ''b'' ''a'']"] example_build(2)
  by (simp add: edges_known_def processor_ids_def edge_list_def example_flow_def example_processor_def
      example_connection_def)

lemma build_topological_witness:
  "topological (edge_list (example_flow [example_processor ''b'', example_processor ''a''] [example_connection ''a'' ''b'']))
     [''a'', ''b'']"
  using build_topological [OF hash_order_rev example_build(1)] by simp

lemma build_error_witness:
  "\<not> acyclic (set (edge_list (example_flow [example_processor ''b'', example_processor ''a'']
     [example_connection ''a'' ''b'', example_connection ''b'' ''a'']))) \<and>
   build rev (example_flow [example_processor ''b'', example_processor ''a'']
     [example_connection ''a'' ''b'', example_connection ''b'' ''a'']) = Some (Inl Cycle)"
  using build_error [OF hash_order_rev example_build(2)] example_build(2) by simp

end
