(* ===== verification/Flow_Error.thy ===== *)
theory Flow_Error
  imports Flow_Graph
begin

text \<open>
  The error type of the runtime (\<open>crates/jaiba-runtime/src/error.rs\<close>). The text of a
  \<open>Configuration\<close> error is a constructor of \<open>config_error\<close>, one for each message that the
  code formats, with the values that the message shows.
\<close>

datatype config_error =
    InvalidGraph graph_error
  | UnresolvedParameter string
  | InvalidEnvironmentPlaceholder string
  | EnvironmentVariableMissing string
  | NoProcessors
  | EngineCapacitiesZero
  | QueueCapacityBelowFanout nat nat
  | DrainTimeoutZero
  | RequestBodyLimitZero
  | AdminTokenEnvEmpty
  | WorkerLimitsTooLarge
  | ResolvedWorkersZero
  | NotRealDataMode string data_execution_mode
  | NoConcurrentTask string
  | MaximumInFlightZero string
  | MaximumInFlightBelowConcurrentTasks string
  | NoPartitionSelector string
  | DuplicateProcessorId string
  | ConnectionCapacityZero
  | ConnectionToUnknownProcessor string string
  | NoStartingProcessor
  | ConcurrencyBelowLongestPath nat
  | CircuitBreakerZero
  | MemoryPercentOutOfRange
  | MemoryUndetected
  | MemoryBudgetZero
  | MemoryBudgetTooLarge
  | UnknownProcessorType string
  | FlowIdEmpty
  | ScheduleInvalid schedule_error
  | DatabaseConnectionIncomplete string
  | UnsupportedConnectionType string
  | KafkaConnectionIncomplete string
  | UnknownConnection string string
  | WrongConnectionKind string
  | RegistryUnreadable
  | RegistryCorrupt
  | FlowNotLoaded string

datatype flow_error =
    Configuration config_error
  | ProcessorError (pe_processor_id: string) (pe_message: string)
  | IoError string
  | YamlError string
  | DatabaseError string
  | Backpressure (bp_capacity: nat)
  | ServerError string
  | ChannelClosed
  | PacketTooLarge (ptl_packet_bytes: nat) (ptl_budget_bytes: nat)
  | MemoryCapacity (mcp_packet_bytes: nat)
  | RepositoryError string
  | DatabaseConnector string
  | DatabaseRejected string
  | MessageConnector string
  | MessageRejected string
  | CircuitOpen (co_connection: string)

fun is_retryable :: "flow_error \<Rightarrow> bool" where
  "is_retryable (PacketTooLarge _ _) = False"
| "is_retryable (DatabaseRejected _) = False"
| "is_retryable (MessageRejected _) = False"
| "is_retryable _ = True"

end
