(* ===== verification/Circuit_Breaker.thy ===== *)
theory Circuit_Breaker
  imports Flow_Error
begin

text \<open>
  The circuit breakers shared by the processors of a flow
  (\<open>crates/jaiba-runtime/src/engine/circuit.rs\<close>). Every operation holds the mutex for its
  whole body, so concurrent calls are a sequence of atomic steps. \<open>now\<close> is the monotonic
  clock in nanoseconds, read by the operation.
\<close>

section \<open>Model\<close>

record circuit_state =
  cs_failures :: nat
  cs_opened_at :: "nat option"
  cs_half_open_in_flight :: nat

definition circuit_initial :: circuit_state where
  "circuit_initial = \<lparr> cs_failures = 0, cs_opened_at = None, cs_half_open_in_flight = 0 \<rparr>"

record circuit_breakers =
  cbs_config :: circuit_breaker_config
  cbs_states :: "circuit_state hmap"

definition from_secs :: "nat \<Rightarrow> nat" where
  "from_secs s = s * 1000000000"

definition circuit_breakers_new :: "circuit_breaker_config \<Rightarrow> (flow_error, circuit_breakers) result" where
  "circuit_breakers_new config =
     (if cb_failure_threshold config = 0 \<or> cb_open_seconds config = 0 \<or> cb_half_open_requests config = 0
      then Inl (Configuration CircuitBreakerZero)
      else Inr \<lparr> cbs_config = config, cbs_states = [] \<rparr>)"

definition circuit_entry :: "circuit_breakers \<Rightarrow> string \<Rightarrow> circuit_state" where
  "circuit_entry b connection =
     (case hm_get (cbs_states b) connection of None \<Rightarrow> circuit_initial | Some s \<Rightarrow> s)"

definition circuit_store :: "string \<Rightarrow> circuit_state \<Rightarrow> circuit_breakers \<Rightarrow> circuit_breakers" where
  "circuit_store connection s b = b\<lparr>cbs_states := hm_insert connection s (cbs_states b)\<rparr>"

definition permit :: "nat \<Rightarrow> string \<Rightarrow> circuit_breakers \<Rightarrow> (flow_error, unit) result \<times> circuit_breakers" where
  "permit now connection b =
     (if \<not> cb_enabled (cbs_config b) then (Inr (), b)
      else (let s = circuit_entry b connection; b = circuit_store connection s b
            in case cs_opened_at s of
                 None \<Rightarrow> (Inr (), b)
               | Some opened_at \<Rightarrow>
                   if now - opened_at < from_secs (cb_open_seconds (cbs_config b))
                   then (Inl (CircuitOpen connection), b)
                   else if cs_half_open_in_flight s \<ge> cb_half_open_requests (cbs_config b)
                   then (Inl (CircuitOpen connection), b)
                   else (Inr (), circuit_store connection
                     (s\<lparr>cs_half_open_in_flight := cs_half_open_in_flight s + 1\<rparr>) b)))"

definition circuit_success :: "string \<Rightarrow> circuit_breakers \<Rightarrow> circuit_breakers" where
  "circuit_success connection b =
     (case hm_get (cbs_states b) connection of
        None \<Rightarrow> b
      | Some s \<Rightarrow> circuit_store connection
          (s\<lparr>cs_failures := 0, cs_opened_at := None, cs_half_open_in_flight := 0\<rparr>) b)"

definition circuit_failure :: "nat \<Rightarrow> string \<Rightarrow> circuit_breakers \<Rightarrow> circuit_breakers" where
  "circuit_failure now connection b =
     (if \<not> cb_enabled (cbs_config b) then b
      else (let s = circuit_entry b connection;
                s = s\<lparr>cs_half_open_in_flight := 0, cs_failures := sat_add32 (cs_failures s) 1\<rparr>;
                s = (if cs_failures s \<ge> cb_failure_threshold (cbs_config b)
                     then s\<lparr>cs_opened_at := Some now\<rparr> else s)
            in circuit_store connection s b))"

definition open_count :: "circuit_breakers \<Rightarrow> nat" where
  "open_count b = length (filter (\<lambda>s. cs_opened_at s \<noteq> None) (map snd (cbs_states b)))"

section \<open>Steps\<close>

datatype circuit_event =
    Permit nat string
  | Success string
  | Failure nat string

fun circuit_step :: "circuit_event \<Rightarrow> circuit_breakers \<Rightarrow> circuit_breakers" where
  "circuit_step (Permit now c) b = snd (permit now c b)"
| "circuit_step (Success c) b = circuit_success c b"
| "circuit_step (Failure now c) b = circuit_failure now c b"

inductive circuit_reachable :: "circuit_breaker_config \<Rightarrow> circuit_breakers \<Rightarrow> bool" for config where
  start: "circuit_breakers_new config = Inr b \<Longrightarrow> circuit_reachable config b"
| step: "circuit_reachable config b \<Longrightarrow> circuit_reachable config (circuit_step e b)"

text \<open>The answers that a sequence of permits gets.\<close>

fun permits :: "nat list \<Rightarrow> string \<Rightarrow> circuit_breakers \<Rightarrow> (flow_error, unit) result list" where
  "permits [] c b = []"
| "permits (now # ts) c b =
     (case permit now c b of (r, b') \<Rightarrow> r # permits ts c b')"

section \<open>Lemmas\<close>

named_theorems circuit_simps \<open>what the operations do to one connection\<close>

lemma entry_store [circuit_simps]:
  "circuit_entry (circuit_store c s b) c' = (if c' = c then s else circuit_entry b c')"
  by (simp add: circuit_entry_def circuit_store_def)

lemma config_store [circuit_simps]: "cbs_config (circuit_store c s b) = cbs_config b"
  by (simp add: circuit_store_def)

lemma config_step [circuit_simps]: "cbs_config (circuit_step e b) = cbs_config b"
  by (cases e)
    (auto simp: permit_def circuit_success_def circuit_failure_def Let_def circuit_simps split: option.splits)

lemma permit_other: "c' \<noteq> c \<Longrightarrow> circuit_entry (snd (permit now c b)) c' = circuit_entry b c'"
  by (simp add: permit_def Let_def circuit_simps split: option.splits)

lemma permit_entry [circuit_simps]:
  "cb_enabled (cbs_config b) \<Longrightarrow> circuit_entry (snd (permit now c b)) c =
     (if fst (permit now c b) = Inr () \<and> cs_opened_at (circuit_entry b c) \<noteq> None
      then (circuit_entry b c)\<lparr>cs_half_open_in_flight := cs_half_open_in_flight (circuit_entry b c) + 1\<rparr>
      else circuit_entry b c)"
  by (auto simp: permit_def Let_def circuit_simps split: option.splits)

lemma permit_answer:
  "cb_enabled (cbs_config b) \<Longrightarrow> fst (permit now c b) =
     (case cs_opened_at (circuit_entry b c) of
        None \<Rightarrow> Inr ()
      | Some t \<Rightarrow> if from_secs (cb_open_seconds (cbs_config b)) \<le> now - t \<and>
                    cs_half_open_in_flight (circuit_entry b c) < cb_half_open_requests (cbs_config b)
                 then Inr () else Inl (CircuitOpen c))"
  by (auto simp: permit_def Let_def circuit_simps split: option.splits)

lemma success_entry [circuit_simps]:
  "circuit_entry (circuit_success c b) c' =
     (if c' = c then circuit_initial else circuit_entry b c')"
  by (cases "hm_get (cbs_states b) c")
    (auto simp: circuit_success_def circuit_initial_def circuit_simps circuit_entry_def circuit_store_def)

lemma failure_entry [circuit_simps]:
  "cb_enabled (cbs_config b) \<Longrightarrow> circuit_entry (circuit_failure now c b) c' =
     (if c' = c then \<lparr> cs_failures = sat_add32 (cs_failures (circuit_entry b c)) 1,
          cs_opened_at = (if sat_add32 (cs_failures (circuit_entry b c)) 1 \<ge> cb_failure_threshold (cbs_config b)
            then Some now else cs_opened_at (circuit_entry b c)),
          cs_half_open_in_flight = 0 \<rparr>
      else circuit_entry b c')"
  by (auto simp: circuit_failure_def Let_def circuit_simps)

text \<open>What always holds of a circuit.\<close>

definition circuit_inv :: "circuit_breaker_config \<Rightarrow> circuit_state \<Rightarrow> bool" where
  "circuit_inv config s \<longleftrightarrow>
     cs_half_open_in_flight s \<le> cb_half_open_requests config \<and>
     (cs_opened_at s = None \<longrightarrow> cs_half_open_in_flight s = 0 \<and> cs_failures s < cb_failure_threshold config) \<and>
     (cs_opened_at s \<noteq> None \<longrightarrow> cb_failure_threshold config \<le> cs_failures s)"

lemma circuit_inv_initial: "0 < cb_failure_threshold config \<Longrightarrow> circuit_inv config circuit_initial"
  by (simp add: circuit_inv_def circuit_initial_def)

lemma circuit_inv_step:
  assumes "cb_enabled (cbs_config b)" "0 < cb_failure_threshold (cbs_config b)"
    "cb_failure_threshold (cbs_config b) \<le> u32_max"
    and inv: "\<And>c. circuit_inv (cbs_config b) (circuit_entry b c)"
  shows "circuit_inv (cbs_config b) (circuit_entry (circuit_step e b) c)"
proof (cases e)
  case (Permit now c1)
  show ?thesis
  proof (cases "c = c1")
    case True
    have e: "circuit_entry (circuit_step e b) c =
      (if fst (permit now c b) = Inr () \<and> cs_opened_at (circuit_entry b c) \<noteq> None
       then (circuit_entry b c)\<lparr>cs_half_open_in_flight := cs_half_open_in_flight (circuit_entry b c) + 1\<rparr>
       else circuit_entry b c)"
      using permit_entry [OF assms(1), of now c] Permit True by simp
    show ?thesis
    proof (cases "fst (permit now c b) = Inr () \<and> cs_opened_at (circuit_entry b c) \<noteq> None")
      case granted: True
      then obtain t where t: "cs_opened_at (circuit_entry b c) = Some t" by blast
      with granted have "cs_half_open_in_flight (circuit_entry b c) < cb_half_open_requests (cbs_config b)"
        by (simp add: permit_answer [OF assms(1)] split: if_splits)
      with e granted t inv [of c] show ?thesis by (simp add: circuit_inv_def)
    next
      case False
      show ?thesis using inv [of c] unfolding e if_not_P [OF False] .
    qed
  next
    case False
    with inv [of c] Permit show ?thesis by (simp add: permit_other)
  qed
next
  case (Success c1)
  with inv [of c] assms(2) show ?thesis by (simp add: circuit_simps circuit_inv_initial)
next
  case (Failure now c1)
  show ?thesis
  proof (cases "c = c1")
    case True
    with inv [of c] Failure assms(1,3) show ?thesis
      by (auto simp: circuit_simps circuit_inv_def sat_add32_def)
  next
    case False
    with inv [of c] Failure assms(1) show ?thesis by (simp add: circuit_simps)
  qed
qed

lemma circuit_reachable_inv:
  assumes "circuit_reachable config b" "cb_enabled config" "cb_failure_threshold config \<le> u32_max"
  shows "cbs_config b = config \<and> 0 < cb_failure_threshold config \<and> 0 < cb_half_open_requests config \<and>
    (\<forall>c. circuit_inv config (circuit_entry b c))"
  using assms
proof (induction rule: circuit_reachable.induct)
  case (start b)
  then show ?case
    by (auto simp: circuit_breakers_new_def circuit_entry_def circuit_inv_initial split: if_splits)
next
  case (step b e)
  then have IH: "cbs_config b = config" "0 < cb_failure_threshold config" "0 < cb_half_open_requests config"
    "\<And>c. circuit_inv config (circuit_entry b c)" by auto
  have "circuit_inv config (circuit_entry (circuit_step e b) c)" for c
    using circuit_inv_step [of b e c] IH step.prems by simp
  with IH show ?case by (simp add: circuit_simps)
qed

text \<open>Once the window has passed, permits are granted until the slots are used up.\<close>

lemma permits_half_open:
  assumes "cb_enabled (cbs_config b)" "cs_opened_at (circuit_entry b c) = Some t"
    "\<forall>now \<in> set ts. from_secs (cb_open_seconds (cbs_config b)) \<le> now - t"
    "cs_half_open_in_flight (circuit_entry b c) \<le> cb_half_open_requests (cbs_config b)"
  shows "permits ts c b =
    (let free = cb_half_open_requests (cbs_config b) - cs_half_open_in_flight (circuit_entry b c) in
     replicate (min (length ts) free) (Inr ()) @
     replicate (length ts - free) (Inl (CircuitOpen c)))"
  using assms
proof (induction ts arbitrary: b)
  case Nil
  then show ?case by (simp add: Let_def)
next
  case (Cons now ts)
  let ?b = "snd (permit now c b)" and ?max = "cb_half_open_requests (cbs_config b)"
  have config: "cbs_config ?b = cbs_config b" using config_step [of "Permit now c" b] by simp
  show ?case
  proof (cases "cs_half_open_in_flight (circuit_entry b c) < ?max")
    case True
    have granted: "fst (permit now c b) = Inr ()" using Cons.prems True by (simp add: permit_answer)
    have entry: "circuit_entry ?b c = (circuit_entry b c)\<lparr>cs_half_open_in_flight :=
        cs_half_open_in_flight (circuit_entry b c) + 1\<rparr>"
      using Cons.prems granted by (simp add: circuit_simps)
    have IH: "permits ts c ?b =
      (let free = ?max - (cs_half_open_in_flight (circuit_entry b c) + 1) in
       replicate (min (length ts) free) (Inr ()) @ replicate (length ts - free) (Inl (CircuitOpen c)))"
      using Cons.IH [of ?b] Cons.prems True by (simp add: config entry)
    obtain free where free: "?max - cs_half_open_in_flight (circuit_entry b c) = Suc free"
      using True by (metis Suc_diff_Suc)
    then have "?max - (cs_half_open_in_flight (circuit_entry b c) + 1) = free" by simp
    with IH free granted show ?thesis by (simp add: split_beta Let_def)
  next
    case False
    have rejected: "fst (permit now c b) = Inl (CircuitOpen c)" using Cons.prems False by (simp add: permit_answer)
    have entry: "circuit_entry ?b c = circuit_entry b c" using Cons.prems rejected by (simp add: circuit_simps)
    have "permits ts c ?b = replicate (length ts) (Inl (CircuitOpen c))"
      using Cons.IH [of ?b] Cons.prems False by (simp add: config entry)
    with False rejected show ?thesis by (simp add: split_beta Let_def)
  qed
qed

lemma permits_open:
  assumes "cb_enabled (cbs_config b)" "cs_opened_at (circuit_entry b c) = Some t"
    "\<forall>now \<in> set ts. now - t < from_secs (cb_open_seconds (cbs_config b)) \<or>
      cb_half_open_requests (cbs_config b) \<le> cs_half_open_in_flight (circuit_entry b c)"
  shows "permits ts c b = replicate (length ts) (Inl (CircuitOpen c))"
  using assms
proof (induction ts arbitrary: b)
  case Nil
  then show ?case by simp
next
  case (Cons now ts)
  let ?b = "snd (permit now c b)"
  have config: "cbs_config ?b = cbs_config b" using config_step [of "Permit now c" b] by simp
  have rejected: "fst (permit now c b) = Inl (CircuitOpen c)" using Cons.prems by (auto simp: permit_answer)
  have entry: "circuit_entry ?b c = circuit_entry b c" using Cons.prems rejected by (simp add: circuit_simps)
  have "permits ts c ?b = replicate (length ts) (Inl (CircuitOpen c))"
    using Cons.IH [of ?b] Cons.prems by (simp add: config entry)
  with rejected show ?case by (simp add: split_beta)
qed


lemma failures_entry:
  assumes "cb_enabled (cbs_config b)" "0 < cb_failure_threshold (cbs_config b)"
    "cb_failure_threshold (cbs_config b) \<le> u32_max" "circuit_entry b c = circuit_initial"
  shows "circuit_entry (fold (\<lambda>now. circuit_failure now c) ts b) c =
      \<lparr> cs_failures = min (length ts) u32_max,
        cs_opened_at = (if length ts < cb_failure_threshold (cbs_config b) then None else Some (last ts)),
        cs_half_open_in_flight = 0 \<rparr> \<and>
    cbs_config (fold (\<lambda>now. circuit_failure now c) ts b) = cbs_config b"
proof (induction ts rule: rev_induct)
  case Nil
  with assms show ?case by (simp add: circuit_initial_def)
next
  case (snoc now ts)
  let ?b = "fold (\<lambda>now. circuit_failure now c) ts b"
  have config: "cbs_config (circuit_failure now c ?b) = cbs_config b"
    using snoc config_step [of "Failure now c" ?b] by simp
  have "cb_enabled (cbs_config ?b)" using snoc assms(1) by simp
  from failure_entry [OF this, of now c c] snoc assms(2,3) config show ?case
    by (auto simp: sat_add32_def min_def)
qed

section \<open>Properties\<close>

text \<open>
  C3. A breaker whose last report was a success opens with the \<open>failure_threshold\<close>-th
  consecutive failure, at the time of the last failure, and not earlier; until
  \<open>open_seconds\<close> have passed since then, every call is rejected, however many arrive.
\<close>

theorem circuit_opens_at_threshold:
  assumes "circuit_reachable config b" "cb_enabled config" "cb_failure_threshold config \<le> u32_max"
    and after: "after = fold (\<lambda>now. circuit_failure now c) ts (circuit_success c b)"
  shows "cs_opened_at (circuit_entry after c) =
      (if length ts < cb_failure_threshold config then None else Some (last ts)) \<and>
    (cb_failure_threshold config \<le> length ts \<longrightarrow>
       (\<forall>now \<in> set later. now - last ts < from_secs (cb_open_seconds config)) \<longrightarrow>
       permits later c after = replicate (length later) (Inl (CircuitOpen c)))"
proof -
  from circuit_reachable_inv [OF assms(1-3)] have config: "cbs_config b = config" "0 < cb_failure_threshold config" by auto
  have "cbs_config (circuit_success c b) = config" using config_step [of "Success c" b] config by simp
  with failures_entry [of "circuit_success c b" c ts] assms(2,3) config
  have e: "circuit_entry after c =
      \<lparr> cs_failures = min (length ts) u32_max,
        cs_opened_at = (if length ts < cb_failure_threshold config then None else Some (last ts)),
        cs_half_open_in_flight = 0 \<rparr>" "cbs_config after = config"
    unfolding after by (simp_all add: circuit_simps)
  have "permits later c after = replicate (length later) (Inl (CircuitOpen c))"
    if "cb_failure_threshold config \<le> length ts" "\<forall>now \<in> set later. now - last ts < from_secs (cb_open_seconds config)"
    using permits_open [of after c "last ts" later] that assms(2) e by simp
  with e show ?thesis by simp
qed

text \<open>
  When the window has passed, an open breaker grants calls only up to
  \<open>half_open_requests\<close> unreported ones, and no more, at any later time. A granted call that
  never reports an outcome therefore keeps its slot for good.
\<close>

theorem circuit_half_open_quota:
  assumes "circuit_reachable config b" "cb_enabled config" "cb_failure_threshold config \<le> u32_max"
    and opened: "cs_opened_at (circuit_entry b c) = Some t"
    and elapsed: "\<forall>now \<in> set ts. from_secs (cb_open_seconds config) \<le> now - t"
  shows "cs_half_open_in_flight (circuit_entry b c) \<le> cb_half_open_requests config \<and>
    permits ts c b =
      (let free = cb_half_open_requests config - cs_half_open_in_flight (circuit_entry b c) in
       replicate (min (length ts) free) (Inr ()) @ replicate (length ts - free) (Inl (CircuitOpen c)))"
proof -
  from circuit_reachable_inv [OF assms(1-3)] have
    inv: "cbs_config b = config" "circuit_inv config (circuit_entry b c)" by auto
  then have q: "cs_half_open_in_flight (circuit_entry b c) \<le> cb_half_open_requests config"
    by (simp add: circuit_inv_def)
  with permits_half_open [of b c t ts] inv(1) assms(2) opened elapsed show ?thesis by simp
qed

subsection \<open>Witnesses\<close>

definition example_breakers :: circuit_breakers where
  "example_breakers = circuit_failure 7 ''db'' \<lparr> cbs_config = circuit_breaker_default\<lparr>cb_failure_threshold := 1\<rparr>, cbs_states = [] \<rparr>"

lemma example_breakers_reachable:
  "circuit_reachable (circuit_breaker_default\<lparr>cb_failure_threshold := 1\<rparr>) example_breakers"
proof -
  have "circuit_reachable (circuit_breaker_default\<lparr>cb_failure_threshold := 1\<rparr>)
      \<lparr> cbs_config = circuit_breaker_default\<lparr>cb_failure_threshold := 1\<rparr>, cbs_states = [] \<rparr>"
    by (rule circuit_reachable.start)
      (simp add: circuit_breakers_new_def circuit_breaker_default_def default_circuit_open_seconds_def
        default_half_open_requests_def)
  from circuit_reachable.step [OF this, of "Failure 7 ''db''"] show ?thesis
    by (simp add: example_breakers_def)
qed

lemma circuit_opens_at_threshold_witness:
  "permits [5, 9, 9] ''db'' (fold (\<lambda>now. circuit_failure now ''db'') [3] (circuit_success ''db'' example_breakers)) =
     replicate 3 (Inl (CircuitOpen ''db''))"
  using circuit_opens_at_threshold [OF example_breakers_reachable _ _ refl, of "''db''" "[3]" "[5, 9, 9]"]
  by (simp add: circuit_breaker_default_def u32_max_def from_secs_def default_circuit_open_seconds_def numeral_3_eq_3)

lemma circuit_half_open_quota_witness:
  "permits [30000000007, 40000000000, 99000000000] ''db'' example_breakers =
     [Inr (), Inl (CircuitOpen ''db''), Inl (CircuitOpen ''db'')]"
proof -
  have "cs_opened_at (circuit_entry example_breakers ''db'') = Some 7"
    "cs_half_open_in_flight (circuit_entry example_breakers ''db'') = 0"
    by (simp_all add: example_breakers_def circuit_failure_def circuit_store_def Let_def
        circuit_breaker_default_def circuit_entry_def circuit_initial_def sat_add32_def u32_max_def)
  then show ?thesis
    using circuit_half_open_quota [OF example_breakers_reachable, of "''db''" 7 "[30000000007, 40000000000, 99000000000]"]
    by (simp add: circuit_breaker_default_def u32_max_def from_secs_def default_circuit_open_seconds_def
        default_half_open_requests_def)
qed

end
