(* ===== verification/Memory_Limiter.thy ===== *)
theory Memory_Limiter
  imports Flow_Error "HOL-Library.Multiset"
begin

text \<open>
  The byte budget of packets (\<open>crates/jaiba-runtime/src/engine/memory.rs\<close>). A semaphore is
  the number of its free permits; the semaphore of the process, shared by all flows, is a
  separate argument. A waiting \<open>reserve\<close> takes the permits it was promised in one step, when
  enough are free. The counters of the flow's metrics that the limiter writes are part of
  the limiter.
\<close>

section \<open>Model\<close>

definition unit_bytes :: nat where "unit_bytes = 64 * 1024"

record memory_limiter =
  ml_semaphore :: nat
  ml_shared :: bool
  ml_total_units :: nat
  ml_budget_bytes :: nat
  ml_used_bytes :: nat
  ml_backpressure :: nat

record memory_reservation =
  rv_units :: nat
  rv_shared :: bool
  rv_bytes :: nat

definition from_budget :: "nat \<Rightarrow> memory_limiter" where
  "from_budget budget_bytes =
     (let total_units = min (max (budget_bytes div unit_bytes) 1) u32_max
      in \<lparr> ml_semaphore = total_units, ml_shared = False, ml_total_units = total_units,
           ml_budget_bytes = budget_bytes, ml_used_bytes = 0, ml_backpressure = 0 \<rparr>)"

text \<open>
  \<open>detect\<close>: \<open>available\<close> is the detected limit, \<open>max_bytes\<close> the environment override
  (\<open>None\<close> when absent, \<open>Some (Inl ())\<close> when not Unicode), \<open>process\<close> the budget and the free
  permits of the process when it is already initialised.
\<close>

definition process_budget ::
  "nat \<Rightarrow> (unit, string) result option \<Rightarrow> (flow_error, nat) result" where
  "process_budget available max_bytes =
     (case (case max_bytes of
              Some (Inr v) \<Rightarrow>
                (case parse_u64 v of None \<Rightarrow> Inl (Configuration MemoryBudgetZero) | Some n \<Rightarrow> Inr n)
            | None \<Rightarrow> Inr (sat_mul available (mc_maximum_percent memory_default) div 100)
            | Some (Inl _) \<Rightarrow> Inl (Configuration MemoryBudgetZero)) of
        Inl e \<Rightarrow> Inl e
      | Inr bytes \<Rightarrow>
          if bytes < unit_bytes \<or> bytes div unit_bytes > u32_max
          then Inl (Configuration MemoryBudgetTooLarge) else Inr bytes)"

definition detect ::
  "memory_config \<Rightarrow> (flow_error, nat) result \<Rightarrow> (unit, string) result option \<Rightarrow> (nat \<times> nat) option \<Rightarrow>
   (flow_error, memory_limiter) result \<times> (nat \<times> nat) option" where
  "detect config available max_bytes process =
     (if \<not> (1 \<le> mc_maximum_percent config \<and> mc_maximum_percent config \<le> 90)
      then (Inl (Configuration MemoryPercentOutOfRange), process)
      else case available of
        Inl e \<Rightarrow> (Inl e, process)
      | Inr available \<Rightarrow>
          (let budget = sat_mul available (mc_maximum_percent config) div 100
           in case (case process of
                      Some p \<Rightarrow> Inr p
                    | None \<Rightarrow>
                        (case process_budget available max_bytes of
                           Inl e \<Rightarrow> Inl e
                         | Inr bytes \<Rightarrow> Inr (bytes, bytes div unit_bytes))) of
                Inl e \<Rightarrow> (Inl e, process)
              | Inr (global_bytes, free) \<Rightarrow>
                  (Inr ((from_budget (min budget global_bytes))\<lparr>ml_shared := True\<rparr>),
                   Some (global_bytes, free))))"

text \<open>The detected limit: physical memory, lowered by the limit of the control group.\<close>

definition detected_memory_limit :: "(flow_error, nat) result \<Rightarrow> nat option \<Rightarrow> (flow_error, nat) result" where
  "detected_memory_limit physical cgroup =
     (case physical of
        Inl e \<Rightarrow> Inl e
      | Inr p \<Rightarrow> Inr (case cgroup of None \<Rightarrow> p | Some limit \<Rightarrow> min limit p))"

definition take_permits :: "nat \<Rightarrow> memory_limiter \<Rightarrow> memory_limiter" where
  "take_permits units ml = ml\<lparr>ml_semaphore := ml_semaphore ml - units\<rparr>"

definition note_backpressure :: "memory_limiter \<Rightarrow> memory_limiter" where
  "note_backpressure ml = ml\<lparr>ml_backpressure := ml_backpressure ml + 1\<rparr>"

definition grant :: "nat \<Rightarrow> nat \<Rightarrow> memory_limiter \<Rightarrow> memory_reservation \<times> memory_limiter" where
  "grant units bytes ml =
     (\<lparr> rv_units = units, rv_shared = ml_shared ml, rv_bytes = bytes \<rparr>,
      ml\<lparr>ml_used_bytes := ml_used_bytes ml + bytes\<rparr>)"

definition try_reserve ::
  "nat \<Rightarrow> memory_limiter \<Rightarrow> nat \<Rightarrow> (flow_error, memory_reservation) result \<times> memory_limiter \<times> nat" where
  "try_reserve bytes ml shared =
     (let reserved_bytes = max bytes 1; units = div_ceil reserved_bytes unit_bytes
      in if reserved_bytes > ml_budget_bytes ml \<or> units > ml_total_units ml
         then (Inl (PacketTooLarge reserved_bytes (ml_budget_bytes ml)), ml, shared)
         else if ml_semaphore ml < units
         then (Inl (MemoryCapacity reserved_bytes), note_backpressure ml, shared)
         else if ml_shared ml \<and> shared < units
         then (Inl (MemoryCapacity reserved_bytes), note_backpressure ml, shared)
         else (case grant units reserved_bytes (take_permits units ml) of
                 (r, ml) \<Rightarrow> (Inr r, ml, if ml_shared ml then shared - units else shared)))"

text \<open>The size check that \<open>reserve\<close> makes before it takes any permit.\<close>

definition reserve_check :: "nat \<Rightarrow> memory_limiter \<Rightarrow> (flow_error, nat \<times> nat) result" where
  "reserve_check bytes ml =
     (let reserved_bytes = max bytes 1
      in if reserved_bytes > ml_budget_bytes ml
         then Inl (PacketTooLarge reserved_bytes (ml_budget_bytes ml))
         else let units = div_ceil reserved_bytes unit_bytes
              in if units > ml_total_units ml
                 then Inl (PacketTooLarge reserved_bytes (ml_total_units ml * unit_bytes))
                 else Inr (units, reserved_bytes))"

text \<open>\<open>Drop\<close> of the last clone of a reservation.\<close>

definition release :: "memory_reservation \<Rightarrow> memory_limiter \<Rightarrow> nat \<Rightarrow> memory_limiter \<times> nat" where
  "release r ml shared =
     (ml\<lparr>ml_semaphore := ml_semaphore ml + rv_units r, ml_used_bytes := ml_used_bytes ml - rv_bytes r\<rparr>,
      if rv_shared r then shared + rv_units r else shared)"

section \<open>Steps of a flow\<close>

text \<open>
  The reservations of a flow that are alive, the calls of \<open>reserve\<close> that wait for permits of
  the flow, and those that hold them and wait for permits of the process, each as its units
  and bytes.
\<close>

record flow_memory =
  fm_limiter :: memory_limiter
  fm_held :: "memory_reservation multiset"
  fm_waiting :: "(nat \<times> nat) multiset"
  fm_half :: "(nat \<times> nat) multiset"

text \<open>The rest of \<open>reserve\<close> once the flow's permits are taken: the shared ones, or a wait.\<close>

definition reserve_shared :: "nat \<Rightarrow> nat \<Rightarrow> flow_memory \<Rightarrow> nat \<Rightarrow> flow_memory \<times> nat" where
  "reserve_shared units bytes fm shared =
     (let ml = fm_limiter fm
      in if ml_shared ml \<and> shared < units
         then (fm\<lparr>fm_limiter := note_backpressure ml, fm_half := add_mset (units, bytes) (fm_half fm)\<rparr>, shared)
         else (case grant units bytes ml of
                 (r, ml) \<Rightarrow> (fm\<lparr>fm_limiter := ml, fm_held := add_mset r (fm_held fm)\<rparr>,
                   if ml_shared ml then shared - units else shared)))"

definition reserve_start :: "nat \<Rightarrow> nat \<Rightarrow> flow_memory \<Rightarrow> nat \<Rightarrow> flow_memory \<times> nat" where
  "reserve_start units bytes fm shared =
     (let ml = fm_limiter fm
      in if ml_semaphore ml < units
         then (fm\<lparr>fm_limiter := note_backpressure ml, fm_waiting := add_mset (units, bytes) (fm_waiting fm)\<rparr>, shared)
         else reserve_shared units bytes (fm\<lparr>fm_limiter := take_permits units ml\<rparr>) shared)"

inductive memory_step :: "flow_memory \<Rightarrow> nat \<Rightarrow> flow_memory \<Rightarrow> nat \<Rightarrow> bool" where
  try_ok: "try_reserve bytes (fm_limiter fm) shared = (Inr r, ml, shared') \<Longrightarrow>
    memory_step fm shared (fm\<lparr>fm_limiter := ml, fm_held := add_mset r (fm_held fm)\<rparr>) shared'"
| try_failed: "try_reserve bytes (fm_limiter fm) shared = (Inl e, ml, shared') \<Longrightarrow>
    memory_step fm shared (fm\<lparr>fm_limiter := ml\<rparr>) shared'"
| start: "reserve_check bytes (fm_limiter fm) = Inr (units, n) \<Longrightarrow>
    reserve_start units n fm shared = (fm', shared') \<Longrightarrow> memory_step fm shared fm' shared'"
| permits: "(units, n) \<in># fm_waiting fm \<Longrightarrow> units \<le> ml_semaphore (fm_limiter fm) \<Longrightarrow>
    reserve_shared units n (fm\<lparr>fm_waiting := fm_waiting fm - {#(units, n)#},
      fm_limiter := take_permits units (fm_limiter fm)\<rparr>) shared = (fm', shared') \<Longrightarrow>
    memory_step fm shared fm' shared'"
| shared_permits: "(units, n) \<in># fm_half fm \<Longrightarrow> units \<le> shared \<Longrightarrow>
    reserve_shared units n (fm\<lparr>fm_half := fm_half fm - {#(units, n)#}\<rparr>) shared = (fm', shared') \<Longrightarrow>
    memory_step fm shared fm' shared'"
| cancel_waiting: "w \<in># fm_waiting fm \<Longrightarrow>
    memory_step fm shared (fm\<lparr>fm_waiting := fm_waiting fm - {#w#}\<rparr>) shared"
| cancel_half: "(units, n) \<in># fm_half fm \<Longrightarrow>
    memory_step fm shared (fm\<lparr>fm_half := fm_half fm - {#(units, n)#},
      fm_limiter := (fm_limiter fm)\<lparr>ml_semaphore := ml_semaphore (fm_limiter fm) + units\<rparr>\<rparr>) shared"
| release: "r \<in># fm_held fm \<Longrightarrow> release r (fm_limiter fm) shared = (ml, shared') \<Longrightarrow>
    memory_step fm shared (fm\<lparr>fm_limiter := ml, fm_held := fm_held fm - {#r#}\<rparr>) shared'"

inductive_cases memory_stepE: "memory_step fm shared fm' shared'"

section \<open>Steps of the process\<close>

text \<open>A flow starts with its own budget; every flow of the process shares one semaphore.\<close>

record process_memory =
  pm_free :: nat
  pm_flows :: "flow_memory list"

definition flow_memory_new :: "nat \<Rightarrow> flow_memory" where
  "flow_memory_new budget =
     \<lparr> fm_limiter = (from_budget budget)\<lparr>ml_shared := True\<rparr>, fm_held = {#}, fm_waiting = {#}, fm_half = {#} \<rparr>"

inductive process_reachable :: "nat \<Rightarrow> process_memory \<Rightarrow> bool" for global_bytes where
  init: "process_reachable global_bytes \<lparr> pm_free = global_bytes div unit_bytes, pm_flows = [] \<rparr>"
| new_flow: "process_reachable global_bytes pm \<Longrightarrow> 0 < budget \<Longrightarrow> budget \<le> global_bytes \<Longrightarrow>
    process_reachable global_bytes (pm\<lparr>pm_flows := pm_flows pm @ [flow_memory_new budget]\<rparr>)"
| step: "process_reachable global_bytes pm \<Longrightarrow> i < length (pm_flows pm) \<Longrightarrow>
    memory_step (pm_flows pm ! i) (pm_free pm) fm' shared' \<Longrightarrow>
    process_reachable global_bytes \<lparr> pm_free = shared', pm_flows = (pm_flows pm)[i := fm'] \<rparr>"

section \<open>Lemmas\<close>

lemmas memory_defs = take_permits_def note_backpressure_def grant_def

definition units_of :: "memory_reservation multiset \<Rightarrow> nat" where
  "units_of M = sum_mset (image_mset rv_units M)"

definition bytes_of :: "memory_reservation multiset \<Rightarrow> nat" where
  "bytes_of M = sum_mset (image_mset rv_bytes M)"

definition half_units :: "(nat \<times> nat) multiset \<Rightarrow> nat" where
  "half_units M = sum_mset (image_mset fst M)"

lemma units_of_simps [simp]:
  "units_of {#} = 0" "units_of (add_mset r M) = rv_units r + units_of M"
  "bytes_of {#} = 0" "bytes_of (add_mset r M) = rv_bytes r + bytes_of M"
  "half_units {#} = 0" "half_units (add_mset w W) = fst w + half_units W"
  by (simp_all add: units_of_def bytes_of_def half_units_def)

lemma units_of_remove:
  "r \<in># M \<Longrightarrow> units_of M = rv_units r + units_of (M - {#r#})"
  "r \<in># M \<Longrightarrow> bytes_of M = rv_bytes r + bytes_of (M - {#r#})"
  "w \<in># W \<Longrightarrow> half_units W = fst w + half_units (W - {#w#})"
  by (metis insert_DiffM units_of_simps(2), metis insert_DiffM units_of_simps(4),
      metis insert_DiffM units_of_simps(6))

text \<open>The size of a request that passed the checks of the limiter.\<close>

definition request_ok :: "memory_limiter \<Rightarrow> nat \<Rightarrow> nat \<Rightarrow> bool" where
  "request_ok ml units bytes \<longleftrightarrow>
     0 < bytes \<and> bytes \<le> ml_budget_bytes ml \<and> units \<le> ml_total_units ml \<and>
     0 < units \<and> bytes \<le> units * unit_bytes"

lemma request_units:
  "0 < bytes \<Longrightarrow> 0 < div_ceil bytes unit_bytes \<and> bytes \<le> div_ceil bytes unit_bytes * unit_bytes"
  using div_ceil_pos [of unit_bytes bytes] div_ceil_bounds(1) [of unit_bytes bytes] by (simp add: unit_bytes_def)

lemma reserve_check_ok: "reserve_check bytes ml = Inr (units, n) \<Longrightarrow> request_ok ml units n"
  using request_units [of "max bytes 1"]
  by (auto simp: reserve_check_def request_ok_def Let_def split: if_splits)

definition total_ok :: "memory_limiter \<Rightarrow> bool" where
  "total_ok ml \<longleftrightarrow> ml_total_units ml = min (max (ml_budget_bytes ml div unit_bytes) 1) u32_max"

text \<open>The limiter of a flow agrees with what is held.\<close>

definition limiter_ok :: "flow_memory \<Rightarrow> bool" where
  "limiter_ok fm \<longleftrightarrow>
     ml_shared (fm_limiter fm) \<and>
     total_ok (fm_limiter fm) \<and>
     ml_semaphore (fm_limiter fm) + units_of (fm_held fm) + half_units (fm_half fm) = ml_total_units (fm_limiter fm) \<and>
     ml_used_bytes (fm_limiter fm) = bytes_of (fm_held fm) \<and>
     (\<forall>r \<in># fm_held fm. rv_shared r \<and> request_ok (fm_limiter fm) (rv_units r) (rv_bytes r)) \<and>
     (\<forall>u n. (u, n) \<in># fm_waiting fm \<or> (u, n) \<in># fm_half fm \<longrightarrow> request_ok (fm_limiter fm) u n)"

lemma limiter_updates [simp]:
  "request_ok (ml\<lparr>ml_semaphore := n\<rparr>) = request_ok ml"
  "request_ok (ml\<lparr>ml_used_bytes := n\<rparr>) = request_ok ml"
  "request_ok (ml\<lparr>ml_backpressure := n\<rparr>) = request_ok ml"
  "total_ok (ml\<lparr>ml_semaphore := n\<rparr>) = total_ok ml"
  "total_ok (ml\<lparr>ml_used_bytes := n\<rparr>) = total_ok ml"
  "total_ok (ml\<lparr>ml_backpressure := n\<rparr>) = total_ok ml"
  by (simp_all add: request_ok_def total_ok_def fun_eq_iff)

lemma try_reserve_Inr:
  assumes "try_reserve bytes ml shared = (Inr r, ml', shared')" "ml_shared ml"
  shows "request_ok ml (rv_units r) (rv_bytes r) \<and> rv_shared r \<and>
    rv_units r \<le> ml_semaphore ml \<and> rv_units r \<le> shared \<and> shared' = shared - rv_units r \<and>
    ml' = ml\<lparr>ml_semaphore := ml_semaphore ml - rv_units r, ml_used_bytes := ml_used_bytes ml + rv_bytes r\<rparr>"
  using assms request_units [of "max bytes 1"]
  by (auto simp: try_reserve_def memory_defs request_ok_def Let_def split: if_splits)

lemma try_reserve_Inl:
  "try_reserve bytes ml shared = (Inl e, ml', shared') \<Longrightarrow>
   shared' = shared \<and> (ml' = ml \<or> ml' = note_backpressure ml)"
  by (auto simp: try_reserve_def Let_def split: if_splits prod.splits)

lemma reserve_shared_ok:
  assumes "reserve_shared units bytes fm shared = (fm', shared')"
    and "limiter_ok (fm\<lparr>fm_half := add_mset (units, bytes) (fm_half fm)\<rparr>)"
  shows "limiter_ok fm' \<and> shared + units_of (fm_held fm) = shared' + units_of (fm_held fm') \<and>
    ml_budget_bytes (fm_limiter fm') = ml_budget_bytes (fm_limiter fm)"
  using assms by (auto simp: reserve_shared_def limiter_ok_def memory_defs Let_def split: if_splits)

lemma memory_step_ok:
  assumes "memory_step fm shared fm' shared'" "limiter_ok fm"
  shows "limiter_ok fm' \<and> shared + units_of (fm_held fm) = shared' + units_of (fm_held fm') \<and>
    ml_budget_bytes (fm_limiter fm') = ml_budget_bytes (fm_limiter fm)"
  using assms
proof (induction rule: memory_step.induct)
  case (try_ok bytes fm shared r ml shared')
  then have "ml_shared (fm_limiter fm)" by (simp add: limiter_ok_def)
  from try_reserve_Inr [OF try_ok(1) this] try_ok(2) show ?case
    by (auto simp: limiter_ok_def)
next
  case (try_failed bytes fm shared e ml shared')
  from try_reserve_Inl [OF try_failed(1)] try_failed(2) show ?case
    by (auto simp: limiter_ok_def note_backpressure_def)
next
  case (start bytes fm units n shared fm' shared')
  from reserve_check_ok [OF start(1)] have ok: "request_ok (fm_limiter fm) units n" .
  show ?case
  proof (cases "ml_semaphore (fm_limiter fm) < units")
    case True
    with start(2,3) ok show ?thesis
      by (auto simp: reserve_start_def limiter_ok_def note_backpressure_def Let_def)
  next
    case False
    with start(2) have "reserve_shared units n (fm\<lparr>fm_limiter := take_permits units (fm_limiter fm)\<rparr>) shared = (fm', shared')"
      by (simp add: reserve_start_def Let_def)
    moreover have "limiter_ok ((fm\<lparr>fm_limiter := take_permits units (fm_limiter fm)\<rparr>)\<lparr>fm_half := add_mset (units, n) (fm_half fm)\<rparr>)"
      using start(3) ok False by (auto simp: limiter_ok_def memory_defs)
    ultimately show ?thesis using reserve_shared_ok by (fastforce simp: memory_defs)
  qed
next
  case (permits units n fm shared fm' shared')
  have "limiter_ok ((fm\<lparr>fm_waiting := fm_waiting fm - {#(units, n)#},
      fm_limiter := take_permits units (fm_limiter fm)\<rparr>)\<lparr>fm_half := add_mset (units, n) (fm_half fm)\<rparr>)"
    using permits(1,2,4) by (auto simp: limiter_ok_def memory_defs dest: in_diffD)
  with reserve_shared_ok [OF permits(3)] show ?case by (simp add: memory_defs)
next
  case (shared_permits units n fm shared fm' shared')
  have "limiter_ok ((fm\<lparr>fm_half := fm_half fm - {#(units, n)#}\<rparr>)\<lparr>fm_half := add_mset (units, n) (fm_half fm - {#(units, n)#})\<rparr>)"
    using shared_permits(1,4) by (simp add: insert_DiffM)
  with reserve_shared_ok [OF shared_permits(3)] show ?case by simp
next
  case (cancel_waiting w fm shared)
  then show ?case by (auto simp: limiter_ok_def dest: in_diffD)
next
  case (cancel_half units n fm shared)
  from units_of_remove(3) [OF cancel_half(1)] cancel_half show ?case
    by (auto simp: limiter_ok_def dest: in_diffD)
next
  case (release r fm shared ml shared')
  from units_of_remove(1,2) [OF release(1)] release show ?case
    by (auto simp: release_def limiter_ok_def dest: in_diffD)
qed

lemma bytes_units: "\<forall>r \<in># M. rv_bytes r \<le> rv_units r * unit_bytes \<Longrightarrow> bytes_of M \<le> units_of M * unit_bytes"
  by (induction M) (auto simp: algebra_simps)

lemma single_unit:
  "units_of M \<le> 1 \<Longrightarrow> \<forall>r \<in># M. 0 < rv_units r \<and> rv_bytes r \<le> b \<Longrightarrow> bytes_of M \<le> b"
proof (induction M)
  case empty
  then show ?case by simp
next
  case (add r M)
  then have "units_of M = 0" by auto
  moreover have "M = {#}"
  proof (rule ccontr)
    assume "M \<noteq> {#}"
    then obtain x N where "M = add_mset x N" by (metis multi_nonempty_split)
    with add.prems(2) \<open>units_of M = 0\<close> show False by auto
  qed
  ultimately show ?case using add.prems by simp
qed

lemma limiter_ok_used: "limiter_ok fm \<Longrightarrow> ml_used_bytes (fm_limiter fm) \<le> ml_budget_bytes (fm_limiter fm)"
proof -
  assume ok: "limiter_ok fm"
  let ?ml = "fm_limiter fm"
  have used: "ml_used_bytes ?ml = bytes_of (fm_held fm)" and units: "units_of (fm_held fm) \<le> ml_total_units ?ml"
    and req: "\<forall>r \<in># fm_held fm. request_ok ?ml (rv_units r) (rv_bytes r)"
    and total: "ml_total_units ?ml = min (max (ml_budget_bytes ?ml div unit_bytes) 1) u32_max"
    using ok by (auto simp: limiter_ok_def total_ok_def)
  show ?thesis
  proof (cases "ml_budget_bytes ?ml < unit_bytes")
    case True
    then have "ml_total_units ?ml \<le> 1" using total by simp
    then have "units_of (fm_held fm) \<le> 1" using units by simp
    from single_unit [OF this, of "ml_budget_bytes ?ml"] req used show ?thesis by (auto simp: request_ok_def)
  next
    case False
    then have "ml_total_units ?ml \<le> ml_budget_bytes ?ml div unit_bytes"
      using total by (simp add: unit_bytes_def)
    then have "ml_total_units ?ml * unit_bytes \<le> ml_budget_bytes ?ml"
      by (metis div_times_less_eq_dividend le_trans mult_le_mono1)
    moreover have "bytes_of (fm_held fm) \<le> units_of (fm_held fm) * unit_bytes"
      using req by (intro bytes_units) (auto simp: request_ok_def)
    ultimately show ?thesis using used units by (metis le_trans mult_le_mono1)
  qed
qed

text \<open>The whole process.\<close>

definition process_ok :: "nat \<Rightarrow> process_memory \<Rightarrow> bool" where
  "process_ok global_bytes pm \<longleftrightarrow>
     (\<forall>fm \<in> set (pm_flows pm). limiter_ok fm) \<and>
     pm_free pm + sum_list (map (\<lambda>fm. units_of (fm_held fm)) (pm_flows pm)) = global_bytes div unit_bytes"

lemma limiter_ok_new: "limiter_ok (flow_memory_new budget)"
  by (simp add: limiter_ok_def total_ok_def flow_memory_new_def from_budget_def Let_def)

lemma sum_list_replace:
  fixes f :: "'a \<Rightarrow> nat"
  shows "i < length xs \<Longrightarrow> sum_list (map f (xs[i := y])) + f (xs ! i) = sum_list (map f xs) + f y"
  by (induction xs arbitrary: i) (auto split: nat.splits)

lemma process_reachable_ok: "process_reachable global_bytes pm \<Longrightarrow> process_ok global_bytes pm"
proof (induction rule: process_reachable.induct)
  case init
  then show ?case by (simp add: process_ok_def)
next
  case (new_flow pm budget)
  then show ?case
    by (auto simp: process_ok_def limiter_ok_new) (simp add: flow_memory_new_def)
next
  case (step pm i fm' shared')
  then have "limiter_ok (pm_flows pm ! i)" by (auto simp: process_ok_def)
  from memory_step_ok [OF step(3) this] step(2,4)
    sum_list_replace [OF step(2), of "\<lambda>fm. units_of (fm_held fm)" fm']
  show ?case by (auto simp: process_ok_def dest: set_update_subset_insert [THEN subsetD])
qed

lemma used_within_units:
  assumes "\<forall>fm \<in> set fms. limiter_ok fm"
  shows "sum_list (map (\<lambda>fm. ml_used_bytes (fm_limiter fm)) fms) \<le>
    sum_list (map (\<lambda>fm. units_of (fm_held fm)) fms) * unit_bytes"
  using assms
proof (induction fms)
  case Nil
  then show ?case by simp
next
  case (Cons fm fms)
  then have "ml_used_bytes (fm_limiter fm) \<le> units_of (fm_held fm) * unit_bytes"
    using bytes_units [of "fm_held fm"] by (auto simp: limiter_ok_def request_ok_def)
  with Cons show ?case by (simp add: algebra_simps)
qed

section \<open>Properties\<close>

text \<open>
  C5. Whatever the interleaving of reservations, waits, cancellations and releases of all the
  flows of the process, the bytes reserved by a flow stay within its budget, and those of all
  flows together within the budget of the process.
\<close>

theorem reserved_within_budget:
  assumes "process_reachable global_bytes pm"
  shows "(\<forall>fm \<in> set (pm_flows pm). ml_used_bytes (fm_limiter fm) \<le> ml_budget_bytes (fm_limiter fm)) \<and>
    sum_list (map (\<lambda>fm. ml_used_bytes (fm_limiter fm)) (pm_flows pm)) \<le> global_bytes"
proof -
  from process_reachable_ok [OF assms] have ok: "process_ok global_bytes pm" .
  then have "sum_list (map (\<lambda>fm. units_of (fm_held fm)) (pm_flows pm)) \<le> global_bytes div unit_bytes"
    by (auto simp: process_ok_def)
  then have "sum_list (map (\<lambda>fm. units_of (fm_held fm)) (pm_flows pm)) * unit_bytes \<le> global_bytes"
    by (metis div_times_less_eq_dividend le_trans mult_le_mono1)
  with used_within_units [of "pm_flows pm"] ok limiter_ok_used show ?thesis
    by (auto simp: process_ok_def intro: le_trans)
qed

text \<open>
  No permit is lost: when nothing is reserved and no call holds permits, each flow and
  the process have all of them back, and the metric of used bytes is zero.
\<close>

theorem permits_returned:
  assumes "process_reachable global_bytes pm"
    and "\<forall>fm \<in> set (pm_flows pm). fm_held fm = {#} \<and> fm_half fm = {#}"
  shows "pm_free pm = global_bytes div unit_bytes \<and>
    (\<forall>fm \<in> set (pm_flows pm). ml_semaphore (fm_limiter fm) = ml_total_units (fm_limiter fm) \<and>
       ml_used_bytes (fm_limiter fm) = 0)"
proof -
  from process_reachable_ok [OF assms(1)] have ok: "process_ok global_bytes pm" .
  have "sum_list (map (\<lambda>fm. units_of (fm_held fm)) (pm_flows pm)) = 0" using assms(2) by simp
  with ok assms(2) show ?thesis by (auto simp: process_ok_def limiter_ok_def)
qed

subsection \<open>Witnesses\<close>

text \<open>One flow of a process with two units, which holds a reservation of one unit.\<close>

definition example_limiter :: memory_limiter where
  "example_limiter = \<lparr> ml_semaphore = 1, ml_shared = True, ml_total_units = 2, ml_budget_bytes = 131072,
     ml_used_bytes = 100, ml_backpressure = 0 \<rparr>"

definition example_process :: process_memory where
  "example_process = \<lparr> pm_free = 1, pm_flows = [\<lparr> fm_limiter = example_limiter,
     fm_held = {#\<lparr> rv_units = 1, rv_shared = True, rv_bytes = 100 \<rparr>#}, fm_waiting = {#}, fm_half = {#} \<rparr>] \<rparr>"

lemma example_process_reachable: "process_reachable 131072 example_process"
proof -
  have start: "process_reachable 131072 \<lparr> pm_free = 2, pm_flows = [flow_memory_new 131072] \<rparr>"
    using process_reachable.new_flow [OF process_reachable.init [of 131072], of 131072]
    by (simp add: unit_bytes_def)
  have "memory_step (flow_memory_new 131072) 2
    \<lparr> fm_limiter = example_limiter, fm_held = {#\<lparr> rv_units = 1, rv_shared = True, rv_bytes = 100 \<rparr>#},
      fm_waiting = {#}, fm_half = {#} \<rparr> 1"
    using memory_step.try_ok [of 100 "flow_memory_new 131072" 2 "\<lparr> rv_units = 1, rv_shared = True, rv_bytes = 100 \<rparr>" example_limiter 1]
    by (simp add: flow_memory_new_def from_budget_def example_limiter_def try_reserve_def memory_defs
        unit_bytes_def div_ceil_def u32_max_def Let_def)
  with process_reachable.step [OF start, of 0] show ?thesis by (simp add: example_process_def)
qed

lemma reserved_within_budget_witness:
  "sum_list (map (\<lambda>fm. ml_used_bytes (fm_limiter fm)) (pm_flows example_process)) \<le> 131072"
  using reserved_within_budget [OF example_process_reachable] by simp

lemma permits_returned_witness:
  "pm_free \<lparr> pm_free = 131072 div unit_bytes, pm_flows = [] \<rparr> = 2"
  using permits_returned [OF process_reachable.init [of 131072]] by (simp add: unit_bytes_def)

end
