(* ===== verification/Packet.thy ===== *)
theory Packet
  imports Flow_Error
begin

text \<open>
  Packets (\<open>crates/jaiba-runtime/src/engine/packet.rs\<close>, \<open>engine/schema.rs\<close>) and the partition
  key of a packet (\<open>engine/executor/partition.rs\<close>). The JSON text of a value is made and read
  by \<open>serde_json\<close>: the record \<open>codec\<close> stands for it. \<open>struct_size\<close> is
  \<open>size_of::<DataPacket>()\<close>.
\<close>

section \<open>Model\<close>

datatype data_type =
    TBoolean | TInt64 | TFloat64 | TDecimal nat nat | TString | TDate | TTimestamp
  | TTimestampWithTimezone | TUuid | TBinary | TJson

record field_schema =
  sf_name :: string
  sf_data_type :: data_type
  sf_nullable :: bool

record record_schema =
  rs_name :: "string option"
  rs_fields :: "field_schema list"

datatype packet_content =
    Records "json list"
  | Encoded (media_type: string) (encoded_bytes: string)

record data_packet =
  dp_id :: string
  dp_attributes :: "string hmap"
  dp_content :: packet_content
  dp_schema :: "record_schema option"
  dp_attempt :: nat

record codec =
  encode_value :: "json \<Rightarrow> string"
  encode_records :: "json list \<Rightarrow> string"
  decode_records :: "string \<Rightarrow> json list option"
  encode_attributes :: "string hmap \<Rightarrow> string"
  decode_attributes :: "string \<Rightarrow> string hmap option"
  encode_schema :: "record_schema \<Rightarrow> string"
  decode_schema :: "string \<Rightarrow> record_schema option"
  struct_size :: nat

definition packet_empty :: "string \<Rightarrow> data_packet" where
  "packet_empty uuid =
     \<lparr> dp_id = uuid, dp_attributes = [], dp_content = Records [], dp_schema = None, dp_attempt = 0 \<rparr>"

definition packet_with_records :: "string \<Rightarrow> json list \<Rightarrow> data_packet" where
  "packet_with_records uuid rs = (packet_empty uuid)\<lparr>dp_content := Records rs\<rparr>"

definition packet_records :: "data_packet \<Rightarrow> (string, json list) result" where
  "packet_records p =
     (case dp_content p of
        Records rs \<Rightarrow> Inr rs
      | Encoded m _ \<Rightarrow> Inl (''expected records, found encoded '' @ m))"

definition packet_set_records :: "json list \<Rightarrow> data_packet \<Rightarrow> (string, data_packet) result" where
  "packet_set_records rs p =
     (case dp_content p of
        Records _ \<Rightarrow> Inr (p\<lparr>dp_content := Records rs\<rparr>)
      | Encoded m _ \<Rightarrow> Inl (''expected records, found encoded '' @ m))"

definition estimated_size :: "codec \<Rightarrow> data_packet \<Rightarrow> nat" where
  "estimated_size cd p =
     (let attributes = sum_list (map (\<lambda>(k, v). sat_add (length k) (length v)) (dp_attributes p));
          content = (case dp_content p of
                       Records rs \<Rightarrow> length (encode_records cd rs)
                     | Encoded m bytes \<Rightarrow> sat_add (length m) (length bytes));
          schema = (case dp_schema p of None \<Rightarrow> 0 | Some s \<Rightarrow> length (encode_schema cd s))
      in sat_add (sat_add (sat_add attributes content) schema) (struct_size cd))"

text \<open>The count of records that metrics use: an encoded packet counts as one.\<close>

definition record_count :: "data_packet \<Rightarrow> nat" where
  "record_count p = (case packet_records p of Inr rs \<Rightarrow> length rs | Inl _ \<Rightarrow> 1)"

section \<open>Partition keys\<close>

fun canonical_partition_value :: "codec \<Rightarrow> json \<Rightarrow> string" where
  "canonical_partition_value cd (JString s) = s"
| "canonical_partition_value cd v = encode_value cd v"

definition partition_value :: "codec \<Rightarrow> string \<Rightarrow> string \<Rightarrow> json \<Rightarrow> (flow_error, string) result" where
  "partition_value cd selector processor_id record =
     (case json_get record selector of
        None \<Rightarrow> Inl (ProcessorError processor_id (''partition field '' @ quoted selector @ '' is missing''))
      | Some v \<Rightarrow> Inr (canonical_partition_value cd v))"

fun same_partition ::
  "codec \<Rightarrow> string \<Rightarrow> string \<Rightarrow> string \<Rightarrow> json list \<Rightarrow> (flow_error, string) result" where
  "same_partition cd selector processor_id first [] = Inr first"
| "same_partition cd selector processor_id first (r # rs) =
     (case partition_value cd selector processor_id r of
        Inl e \<Rightarrow> Inl e
      | Inr v \<Rightarrow>
          if v \<noteq> first
          then Inl (ProcessorError processor_id (''packet contains multiple values for partition field '' @ quoted selector @
            ''; split it before this processor''))
          else same_partition cd selector processor_id first rs)"

definition packet_partition_key ::
  "codec \<Rightarrow> data_packet \<Rightarrow> string \<Rightarrow> string \<Rightarrow> (flow_error, string) result" where
  "packet_partition_key cd packet selector processor_id =
     (let attribute = (case strip_prefix ''attribute.'' selector of None \<Rightarrow> selector | Some a \<Rightarrow> a)
      in case hm_get (dp_attributes packet) attribute of
           Some v \<Rightarrow> Inr v
         | None \<Rightarrow>
             (case packet_records packet of
                Inl message \<Rightarrow>
                  Inl (ProcessorError processor_id (''cannot resolve partition '' @ quoted selector @ '': '' @ message))
              | Inr [] \<Rightarrow>
                  Inl (ProcessorError processor_id (''cannot partition an empty packet by '' @ quoted selector))
              | Inr (r # rs) \<Rightarrow>
                  (case partition_value cd selector processor_id r of
                     Inl e \<Rightarrow> Inl e
                   | Inr first \<Rightarrow> same_partition cd selector processor_id first rs)))"

section \<open>Lemmas\<close>

lemma struct_size_le: "struct_size cd \<le> u64_max \<Longrightarrow> struct_size cd \<le> estimated_size cd p"
  by (simp add: estimated_size_def sat_add_def Let_def)

lemma estimated_size_bound: "estimated_size cd p \<le> u64_max"
  by (simp add: estimated_size_def Let_def sat_add_le(2))

lemma same_partition_ok:
  "same_partition cd selector pid first rs = Inr key \<longleftrightarrow>
   key = first \<and> (\<forall>r \<in> set rs. partition_value cd selector pid r = Inr first)"
  by (induction rs) (auto split: sum.splits)

lemma partition_key_uniform:
  assumes "packet_partition_key cd p selector pid = Inr key"
    "hm_get (dp_attributes p) (case strip_prefix ''attribute.'' selector of None \<Rightarrow> selector | Some a \<Rightarrow> a) = None"
  shows "\<exists>rs. dp_content p = Records rs \<and> rs \<noteq> [] \<and> (\<forall>r \<in> set rs. partition_value cd selector pid r = Inr key)"
  using assms
  by (auto simp: packet_partition_key_def packet_records_def Let_def same_partition_ok
      split: packet_content.splits list.splits sum.splits)

end
