(* ===== verification/Packet_Repository.thy ===== *)
theory Packet_Repository
  imports Packet "HOL-Library.Product_Lexorder" "HOL-Library.Sublist"
begin

text \<open>
  The local repository of packets (\<open>crates/jaiba-runtime/src/engine/repository.rs\<close>): the
  content store addressed by hash, the queue and provenance tables, and the statements that
  change them. A table is the list of its rows in the order of their row ids, a transaction is
  a function that either returns the changed tables or leaves them. \<open>digest\<close> is the SHA-256
  digest in hexadecimal, \<open>now\<close> the time in seconds, \<open>uuid\<close> a fresh identifier; \<open>io\<close> is the
  outcome of the file operations of a call.
\<close>

section \<open>Content\<close>

record content_reference =
  cr_key :: string
  cr_size :: nat

type_synonym content_store = "string hmap"

definition content_put ::
  "(string \<Rightarrow> string) \<Rightarrow> (string, unit) result \<Rightarrow> string \<Rightarrow> content_store \<Rightarrow>
   (flow_error, content_reference) result \<times> content_store" where
  "content_put digest io bytes store =
     (let key = digest bytes; reference = \<lparr> cr_key = key, cr_size = length bytes \<rparr>
      in if hm_get store key \<noteq> None then (Inr reference, store)
         else case io of
           Inl e \<Rightarrow> (Inl (IoError e), store)
         | Inr _ \<Rightarrow> (Inr reference, hm_insert key bytes store))"

definition content_get ::
  "(string \<Rightarrow> string) \<Rightarrow> content_reference \<Rightarrow> content_store \<Rightarrow> (flow_error, string) result" where
  "content_get digest reference store =
     (case hm_get store (cr_key reference) of
        None \<Rightarrow> Inl (IoError (cr_key reference))
      | Some bytes \<Rightarrow>
          if digest bytes \<noteq> cr_key reference
          then Inl (RepositoryError (''content checksum mismatch for '' @ quoted (cr_key reference)))
          else Inr bytes)"

definition content_delete :: "string \<Rightarrow> content_store \<Rightarrow> content_store" where
  "content_delete key store = hm_remove key store"

definition serialize_content :: "codec \<Rightarrow> packet_content \<Rightarrow> string \<times> string option \<times> string" where
  "serialize_content cd content =
     (case content of
        Records rs \<Rightarrow> (''records'', Some ''application/json'', encode_records cd rs)
      | Encoded m bytes \<Rightarrow> (''encoded'', Some m, bytes))"

definition deserialize_content ::
  "codec \<Rightarrow> string \<Rightarrow> string option \<Rightarrow> string \<Rightarrow> (flow_error, packet_content) result" where
  "deserialize_content cd kind media bytes =
     (if kind = ''records''
      then case decode_records cd bytes of
             None \<Rightarrow> Inl (RepositoryError ''invalid records'')
           | Some rs \<Rightarrow> Inr (Records rs)
      else if kind = ''encoded''
      then Inr (Encoded (case media of None \<Rightarrow> ''application/octet-stream'' | Some m \<Rightarrow> m) bytes)
      else Inl (RepositoryError (''unknown content kind '' @ quoted kind)))"

section \<open>Tables\<close>

datatype queue_status = QPending | QRunning | QCompleted | QDeadLetter

record queue_row =
  qr_queue_id :: string
  qr_packet_id :: string
  qr_flow_id :: string
  qr_processor_id :: string
  qr_relationship :: string
  qr_status :: queue_status
  qr_attempt :: nat
  qr_attributes_json :: string
  qr_schema_json :: "string option"
  qr_content_key :: string
  qr_content_kind :: string
  qr_media_type :: "string option"
  qr_content_size :: nat
  qr_created_at :: int
  qr_claimed_at :: "int option"
  qr_completed_at :: "int option"
  qr_error :: "string option"

datatype provenance_event =
    Enqueued | Claimed | Completed | PFailed | Recovered | Requeued
  | ProcessingStarted | Retried | Processed | Routed

record provenance_row =
  pr_id :: nat
  pr_queue_id :: string
  pr_packet_id :: string
  pr_flow_id :: string
  pr_processor_id :: string
  pr_event :: provenance_event
  pr_created_at :: int

record packet_repository =
  rp_queue :: "queue_row list"
  rp_provenance :: "provenance_row list"
  rp_next_id :: nat
  rp_content :: content_store

definition repository_empty :: packet_repository where
  "repository_empty = \<lparr> rp_queue = [], rp_provenance = [], rp_next_id = 1, rp_content = [] \<rparr>"

text \<open>\<open>UPDATE \<dots> WHERE queue_id = ? AND status = ?\<close> and the number of rows it changes.\<close>

definition update_rows ::
  "string \<Rightarrow> queue_status \<Rightarrow> (queue_row \<Rightarrow> queue_row) \<Rightarrow> queue_row list \<Rightarrow> nat \<times> queue_row list" where
  "update_rows queue_id status f rows =
     (length (filter (\<lambda>r. qr_queue_id r = queue_id \<and> qr_status r = status) rows),
      map (\<lambda>r. if qr_queue_id r = queue_id \<and> qr_status r = status then f r else r) rows)"

definition add_provenance ::
  "int \<Rightarrow> provenance_event \<Rightarrow> queue_row \<Rightarrow> packet_repository \<Rightarrow> packet_repository" where
  "add_provenance now event r rp =
     rp\<lparr>rp_provenance := rp_provenance rp @
          [\<lparr> pr_id = rp_next_id rp, pr_queue_id = qr_queue_id r, pr_packet_id = qr_packet_id r,
             pr_flow_id = qr_flow_id r, pr_processor_id = qr_processor_id r, pr_event = event,
             pr_created_at = now \<rparr>],
        rp_next_id := rp_next_id rp + 1\<rparr>"

text \<open>\<open>INSERT \<dots> SELECT \<dots> FROM jaiva_packet_queue WHERE queue_id = ?\<close>.\<close>

definition insert_provenance ::
  "int \<Rightarrow> string \<Rightarrow> provenance_event \<Rightarrow> packet_repository \<Rightarrow> packet_repository" where
  "insert_provenance now queue_id event rp =
     fold (add_provenance now event) (filter (\<lambda>r. qr_queue_id r = queue_id) (rp_queue rp)) rp"

section \<open>Operations\<close>

text \<open>\<open>enqueue\<close> writes the content first, then both rows in one transaction.\<close>

definition enqueue_put ::
  "codec \<Rightarrow> (string \<Rightarrow> string) \<Rightarrow> (string, unit) result \<Rightarrow> data_packet \<Rightarrow> packet_repository \<Rightarrow>
   (flow_error, content_reference) result \<times> packet_repository" where
  "enqueue_put cd digest io packet rp =
     (case serialize_content cd (dp_content packet) of
        (_, _, bytes) \<Rightarrow>
          (case content_put digest io bytes (rp_content rp) of
             (r, store) \<Rightarrow> (r, rp\<lparr>rp_content := store\<rparr>)))"

definition enqueue_row ::
  "codec \<Rightarrow> int \<Rightarrow> string \<Rightarrow> string \<Rightarrow> string \<Rightarrow> string \<Rightarrow> data_packet \<Rightarrow> content_reference \<Rightarrow> queue_row" where
  "enqueue_row cd now uuid flow_id processor_id relationship packet reference =
     (case serialize_content cd (dp_content packet) of
        (kind, media, _) \<Rightarrow>
          \<lparr> qr_queue_id = uuid, qr_packet_id = dp_id packet, qr_flow_id = flow_id,
            qr_processor_id = processor_id, qr_relationship = relationship, qr_status = QPending,
            qr_attempt = dp_attempt packet, qr_attributes_json = encode_attributes cd (dp_attributes packet),
            qr_schema_json = map_option (encode_schema cd) (dp_schema packet),
            qr_content_key = cr_key reference, qr_content_kind = kind, qr_media_type = media,
            qr_content_size = cr_size reference, qr_created_at = now, qr_claimed_at = None,
            qr_completed_at = None, qr_error = None \<rparr>)"

definition enqueue_insert :: "int \<Rightarrow> queue_row \<Rightarrow> packet_repository \<Rightarrow> (flow_error, string) result \<times> packet_repository" where
  "enqueue_insert now row rp =
     (if qr_queue_id row \<in> qr_queue_id ` set (rp_queue rp)
      then (Inl (DatabaseError ''UNIQUE constraint failed: jaiva_packet_queue.queue_id''), rp)
      else (Inr (qr_queue_id row), add_provenance now Enqueued row (rp\<lparr>rp_queue := rp_queue rp @ [row]\<rparr>)))"

definition enqueue ::
  "codec \<Rightarrow> (string \<Rightarrow> string) \<Rightarrow> (string, unit) result \<Rightarrow> int \<Rightarrow> string \<Rightarrow>
   string \<Rightarrow> string \<Rightarrow> string \<Rightarrow> data_packet \<Rightarrow> packet_repository \<Rightarrow>
   (flow_error, string) result \<times> packet_repository" where
  "enqueue cd digest io now uuid flow_id processor_id relationship packet rp =
     (case enqueue_put cd digest io packet rp of
        (Inl e, rp) \<Rightarrow> (Inl e, rp)
      | (Inr reference, rp) \<Rightarrow>
          enqueue_insert now (enqueue_row cd now uuid flow_id processor_id relationship packet reference) rp)"

definition claim :: "int \<Rightarrow> string \<Rightarrow> packet_repository \<Rightarrow> bool \<times> packet_repository" where
  "claim now queue_id rp =
     (case update_rows queue_id QPending
             (\<lambda>r. r\<lparr>qr_status := QRunning, qr_claimed_at := Some now\<rparr>) (rp_queue rp) of
        (affected, rows) \<Rightarrow>
          if affected \<noteq> 1 then (False, rp)
          else (True, insert_provenance now queue_id Claimed (rp\<lparr>rp_queue := rows\<rparr>)))"

definition complete :: "int \<Rightarrow> string \<Rightarrow> provenance_event \<Rightarrow> packet_repository \<Rightarrow> packet_repository" where
  "complete now queue_id event rp =
     (let status = (case event of PFailed \<Rightarrow> QDeadLetter | _ \<Rightarrow> QCompleted)
      in case update_rows queue_id QRunning
             (\<lambda>r. r\<lparr>qr_status := status, qr_completed_at := Some now\<rparr>) (rp_queue rp) of
        (affected, rows) \<Rightarrow>
          if affected \<noteq> 1 then rp
          else insert_provenance now queue_id event (rp\<lparr>rp_queue := rows\<rparr>))"

definition fail :: "int \<Rightarrow> string \<Rightarrow> string \<Rightarrow> nat \<Rightarrow> packet_repository \<Rightarrow> packet_repository" where
  "fail now queue_id error attempt rp =
     (case update_rows queue_id QRunning
             (\<lambda>r. r\<lparr>qr_status := QDeadLetter, qr_attempt := attempt, qr_error := Some error,
                    qr_completed_at := Some now\<rparr>) (rp_queue rp) of
        (affected, rows) \<Rightarrow>
          if affected \<noteq> 1 then rp
          else insert_provenance now queue_id PFailed (rp\<lparr>rp_queue := rows\<rparr>))"

definition requeue_dead_letter :: "int \<Rightarrow> string \<Rightarrow> packet_repository \<Rightarrow> bool \<times> packet_repository" where
  "requeue_dead_letter now queue_id rp =
     (case update_rows queue_id QDeadLetter
             (\<lambda>r. r\<lparr>qr_status := QPending, qr_attempt := 0, qr_error := None,
                    qr_claimed_at := None, qr_completed_at := None\<rparr>) (rp_queue rp) of
        (affected, rows) \<Rightarrow>
          if affected \<noteq> 1 then (False, rp)
          else (True, insert_provenance now queue_id Requeued (rp\<lparr>rp_queue := rows\<rparr>)))"

definition record_event :: "int \<Rightarrow> string \<Rightarrow> provenance_event \<Rightarrow> packet_repository \<Rightarrow> packet_repository" where
  "record_event now queue_id event rp = insert_provenance now queue_id event rp"

text \<open>\<open>as i64\<close> of an unsigned 64-bit number, and \<open>i64::saturating_sub\<close>.\<close>

definition as_i64 :: "nat \<Rightarrow> int" where
  "as_i64 n = (if n < 2 ^ 63 then int n else int n - 2 ^ 64)"

definition i64_saturating_sub :: "int \<Rightarrow> int \<Rightarrow> int" where
  "i64_saturating_sub a b = max (- (2 ^ 63)) (min (2 ^ 63 - 1) (a - b))"

fun recover_rows :: "int \<Rightarrow> string list \<Rightarrow> nat \<times> packet_repository \<Rightarrow> nat \<times> packet_repository" where
  "recover_rows now [] (recovered, rp) = (recovered, rp)"
| "recover_rows now (queue_id # ids) (recovered, rp) =
     (case update_rows queue_id QRunning (\<lambda>r. r\<lparr>qr_status := QPending, qr_claimed_at := None\<rparr>) (rp_queue rp) of
        (affected, rows) \<Rightarrow>
          if affected \<noteq> 1 then recover_rows now ids (recovered, rp)
          else recover_rows now ids
                 (recovered + 1, insert_provenance now queue_id Recovered (rp\<lparr>rp_queue := rows\<rparr>)))"

definition recover_abandoned :: "int \<Rightarrow> string \<Rightarrow> nat \<Rightarrow> packet_repository \<Rightarrow> nat \<times> packet_repository" where
  "recover_abandoned now flow_id abandoned_after_seconds rp =
     (let cutoff = i64_saturating_sub now (as_i64 abandoned_after_seconds);
          ids = map qr_queue_id (filter (\<lambda>r. qr_flow_id r = flow_id \<and> qr_status r = QRunning \<and>
                  (case qr_claimed_at r of None \<Rightarrow> False | Some t \<Rightarrow> t \<le> cutoff)) (rp_queue rp))
      in recover_rows now ids (0, rp))"

text \<open>\<open>cleanup_completed\<close>: the rows first, then the content that no row refers to any more.\<close>

definition completed_before :: "int \<Rightarrow> queue_row \<Rightarrow> bool" where
  "completed_before cutoff r \<longleftrightarrow>
     qr_status r = QCompleted \<and> (case qr_completed_at r of None \<Rightarrow> False | Some t \<Rightarrow> t \<le> cutoff)"

definition cleanup_rows :: "int \<Rightarrow> nat \<Rightarrow> packet_repository \<Rightarrow> nat \<times> string list \<times> packet_repository" where
  "cleanup_rows now retention_hours rp =
     (let cutoff = i64_saturating_sub now (as_i64 (sat_mul retention_hours 3600));
          gone = filter (completed_before cutoff) (rp_queue rp)
      in (length gone, remdups (map qr_content_key gone),
          rp\<lparr>rp_queue := filter (\<lambda>r. \<not> completed_before cutoff r) (rp_queue rp)\<rparr>))"

definition cleanup_content :: "string \<Rightarrow> packet_repository \<Rightarrow> packet_repository" where
  "cleanup_content key rp =
     (if length (filter (\<lambda>r. qr_content_key r = key) (rp_queue rp)) = 0
      then rp\<lparr>rp_content := content_delete key (rp_content rp)\<rparr> else rp)"

definition cleanup_completed :: "int \<Rightarrow> nat \<Rightarrow> packet_repository \<Rightarrow> nat \<times> packet_repository" where
  "cleanup_completed now retention_hours rp =
     (case cleanup_rows now retention_hours rp of
        (affected, keys, rp) \<Rightarrow> (affected, fold cleanup_content keys rp))"

definition provenance_cutoff :: "int \<Rightarrow> nat \<Rightarrow> int" where
  "provenance_cutoff now retention_hours = i64_saturating_sub now (as_i64 (sat_mul retention_hours 3600))"

definition cleanup_provenance :: "int \<Rightarrow> nat \<Rightarrow> packet_repository \<Rightarrow> nat \<times> packet_repository" where
  "cleanup_provenance now retention_hours rp =
     (let cutoff = provenance_cutoff now retention_hours
      in (length (filter (\<lambda>p. pr_created_at p \<le> cutoff) (rp_provenance rp)),
          rp\<lparr>rp_provenance := filter (\<lambda>p. \<not> pr_created_at p \<le> cutoff) (rp_provenance rp)\<rparr>))"

text \<open>\<open>reconcile_orphans\<close> on the blobs: those that no queue row refers to are removed.\<close>

definition reconcile_orphans :: "packet_repository \<Rightarrow> nat \<times> packet_repository" where
  "reconcile_orphans rp =
     (let referenced = qr_content_key ` set (rp_queue rp)
      in (length (filter (\<lambda>(key, _). key \<notin> referenced) (rp_content rp)),
          rp\<lparr>rp_content := filter (\<lambda>(key, _). key \<in> referenced) (rp_content rp)\<rparr>))"


section \<open>Queries\<close>

record stored_work =
  sw_queue_id :: string
  sw_flow_id :: string
  sw_processor_id :: string
  sw_relationship :: string
  sw_packet :: data_packet

definition row_work ::
  "codec \<Rightarrow> (string \<Rightarrow> string) \<Rightarrow> content_store \<Rightarrow> queue_row \<Rightarrow> (flow_error, stored_work) result" where
  "row_work cd digest store r =
     (case content_get digest \<lparr> cr_key = qr_content_key r, cr_size = qr_content_size r \<rparr> store of
        Inl e \<Rightarrow> Inl e
      | Inr bytes \<Rightarrow>
          (case deserialize_content cd (qr_content_kind r) (qr_media_type r) bytes of
             Inl e \<Rightarrow> Inl e
           | Inr content \<Rightarrow>
               (case decode_attributes cd (qr_attributes_json r) of
                  None \<Rightarrow> Inl (RepositoryError ''invalid attributes'')
                | Some attributes \<Rightarrow>
                    (case (case qr_schema_json r of
                             None \<Rightarrow> Some None
                           | Some j \<Rightarrow> map_option Some (decode_schema cd j)) of
                       None \<Rightarrow> Inl (RepositoryError ''invalid schema'')
                     | Some schema \<Rightarrow>
                         Inr \<lparr> sw_queue_id = qr_queue_id r, sw_flow_id = qr_flow_id r,
                               sw_processor_id = qr_processor_id r, sw_relationship = qr_relationship r,
                               sw_packet = \<lparr> dp_id = qr_packet_id r, dp_attributes = attributes,
                                 dp_content = content, dp_schema = schema, dp_attempt = qr_attempt r \<rparr> \<rparr>))))"

fun collect_results :: "('e, 'a) result list \<Rightarrow> ('e, 'a list) result" where
  "collect_results [] = Inr []"
| "collect_results (Inl e # rs) = Inl e"
| "collect_results (Inr a # rs) =
     (case collect_results rs of Inl e \<Rightarrow> Inl e | Inr as \<Rightarrow> Inr (a # as))"

definition pending_rows :: "string \<Rightarrow> packet_repository \<Rightarrow> queue_row list" where
  "pending_rows flow_id rp =
     sort_key (\<lambda>r. (qr_created_at r, qr_queue_id r))
       (filter (\<lambda>r. qr_flow_id r = flow_id \<and> qr_status r = QPending) (rp_queue rp))"

definition pending_work ::
  "codec \<Rightarrow> (string \<Rightarrow> string) \<Rightarrow> string \<Rightarrow> packet_repository \<Rightarrow> (flow_error, stored_work list) result" where
  "pending_work cd digest flow_id rp =
     collect_results (map (row_work cd digest (rp_content rp)) (pending_rows flow_id rp))"

record dead_letter_entry =
  dl_queue_id :: string
  dl_packet_id :: string
  dl_flow_id :: string
  dl_processor_id :: string
  dl_relationship :: string
  dl_attempt :: nat
  dl_error :: "string option"
  dl_content_size :: nat
  dl_created_at :: int
  dl_failed_at :: int

definition dead_letters :: "string \<Rightarrow> nat \<Rightarrow> packet_repository \<Rightarrow> dead_letter_entry list" where
  "dead_letters flow_id limit rp =
     map (\<lambda>r. \<lparr> dl_queue_id = qr_queue_id r, dl_packet_id = qr_packet_id r, dl_flow_id = qr_flow_id r,
                dl_processor_id = qr_processor_id r, dl_relationship = qr_relationship r,
                dl_attempt = qr_attempt r, dl_error = qr_error r, dl_content_size = qr_content_size r,
                dl_created_at = qr_created_at r, dl_failed_at = the (qr_completed_at r) \<rparr>)
       (take (min (max limit 1) 1000)
          (sort_key (\<lambda>r. (- the (qr_completed_at r), qr_queue_id r))
             (filter (\<lambda>r. qr_flow_id r = flow_id \<and> qr_status r = QDeadLetter) (rp_queue rp))))"

definition provenance_for_packet :: "string \<Rightarrow> string \<Rightarrow> nat \<Rightarrow> packet_repository \<Rightarrow> provenance_row list" where
  "provenance_for_packet flow_id packet_id limit rp =
     take (min (max limit 1) 5000)
       (sort_key (\<lambda>p. (pr_created_at p, pr_id p))
          (filter (\<lambda>p. pr_flow_id p = flow_id \<and> pr_packet_id p = packet_id) (rp_provenance rp)))"

definition recent_provenance :: "string \<Rightarrow> nat \<Rightarrow> packet_repository \<Rightarrow> provenance_row list" where
  "recent_provenance flow_id limit rp =
     take (min (max limit 1) 5000)
       (sort_key (\<lambda>p. (- pr_created_at p, - int (pr_id p)))
          (filter (\<lambda>p. pr_flow_id p = flow_id) (rp_provenance rp)))"

record repository_stats =
  st_pending :: nat
  st_running :: nat
  st_dead_letter :: nat
  st_content_bytes :: nat

definition stats :: "packet_repository \<Rightarrow> repository_stats" where
  "stats rp =
     \<lparr> st_pending = length (filter (\<lambda>r. qr_status r = QPending) (rp_queue rp)),
       st_running = length (filter (\<lambda>r. qr_status r = QRunning) (rp_queue rp)),
       st_dead_letter = length (filter (\<lambda>r. qr_status r = QDeadLetter) (rp_queue rp)),
       st_content_bytes = sum_list (map qr_content_size (rp_queue rp)) \<rparr>"

section \<open>The audit trail\<close>

definition events :: "packet_repository \<Rightarrow> string \<Rightarrow> provenance_event list" where
  "events rp queue_id = map pr_event (filter (\<lambda>p. pr_queue_id p = queue_id) (rp_provenance rp))"

text \<open>The status that an event leads to; \<open>None\<close> when the event is not allowed there.\<close>

fun status_after :: "queue_status option \<Rightarrow> provenance_event \<Rightarrow> queue_status option" where
  "status_after (Some QPending) Claimed = Some QRunning"
| "status_after (Some QRunning) Completed = Some QCompleted"
| "status_after (Some QRunning) PFailed = Some QDeadLetter"
| "status_after (Some QRunning) Recovered = Some QPending"
| "status_after (Some QDeadLetter) Requeued = Some QPending"
| "status_after (Some s) e = (if e \<in> {ProcessingStarted, Retried, Processed, Routed} then Some s else None)"
| "status_after None e = None"

fun replay :: "provenance_event list \<Rightarrow> queue_status option" where
  "replay (Enqueued # es) = foldl status_after (Some QPending) es"
| "replay _ = None"

lemma replay_snoc: "es \<noteq> [] \<Longrightarrow> replay (es @ [e]) = status_after (replay es) e"
  by (cases es rule: replay.cases) auto

text \<open>
  The queue statements agree with the trail, and every row has its content, with the digest
  that names it.
\<close>

definition repo_inv :: "(string \<Rightarrow> string) \<Rightarrow> packet_repository \<Rightarrow> bool" where
  "repo_inv digest rp \<longleftrightarrow>
     distinct (map qr_queue_id (rp_queue rp)) \<and>
     (\<forall>r \<in> set (rp_queue rp). replay (events rp (qr_queue_id r)) = Some (qr_status r)) \<and>
     (\<forall>r \<in> set (rp_queue rp). hm_get (rp_content rp) (qr_content_key r) \<noteq> None) \<and>
     hm_wf (rp_content rp) \<and> (\<forall>(k, b) \<in> set (rp_content rp). digest b = k)"

text \<open>
  The operations that write rows. \<open>used\<close> are the identifiers that were ever given to a row: a
  new one is a fresh UUID.
\<close>

inductive write_step ::
  "codec \<Rightarrow> (string \<Rightarrow> string) \<Rightarrow> string set \<Rightarrow> packet_repository \<Rightarrow> packet_repository \<Rightarrow> bool"
  for cd digest used where
  enqueue: "uuid \<notin> used \<Longrightarrow>
    write_step cd digest used rp (snd (enqueue cd digest io now uuid flow_id processor_id relationship packet rp))"
| claim: "write_step cd digest used rp (snd (claim now queue_id rp))"
| complete: "event \<in> {Completed, PFailed} \<Longrightarrow> write_step cd digest used rp (complete now queue_id event rp)"
| fail: "write_step cd digest used rp (fail now queue_id error attempt rp)"
| requeue: "write_step cd digest used rp (snd (requeue_dead_letter now queue_id rp))"
| record_event: "event \<in> {ProcessingStarted, Retried, Processed, Routed} \<Longrightarrow>
    write_step cd digest used rp (record_event now queue_id event rp)"
| recover: "write_step cd digest used rp (snd (recover_abandoned now flow_id after rp))"
| cleanup: "write_step cd digest used rp (snd (cleanup_completed now hours rp))"
| reconcile: "write_step cd digest used rp (snd (reconcile_orphans rp))"

abbreviation trail_ids :: "packet_repository \<Rightarrow> string set" where
  "trail_ids rp \<equiv> pr_queue_id ` set (rp_provenance rp)"

inductive write_reachable :: "codec \<Rightarrow> (string \<Rightarrow> string) \<Rightarrow> packet_repository \<Rightarrow> bool" for cd digest where
  empty: "write_reachable cd digest repository_empty"
| step: "write_reachable cd digest rp \<Longrightarrow> write_step cd digest (trail_ids rp) rp rp' \<Longrightarrow> write_reachable cd digest rp'"

text \<open>
  \<open>cleanup_provenance\<close>, which every run does at its end, deletes rows of the trail. To say what is
  left, the repository is observed together with two things it does not hold itself: the log of
  every provenance row ever written, and the cutoffs of the cleanups so far.
\<close>

record audited_repository =
  au_repository :: packet_repository
  au_log :: "provenance_row list"
  au_cutoffs :: "int list"

definition audited :: "packet_repository \<Rightarrow> audited_repository" where
  "audited rp = \<lparr> au_repository = rp, au_log = rp_provenance rp, au_cutoffs = [] \<rparr>"

definition audit_write :: "packet_repository \<Rightarrow> audited_repository \<Rightarrow> audited_repository" where
  "audit_write rp' a =
     a\<lparr>au_repository := rp',
       au_log := au_log a @ drop (length (rp_provenance (au_repository a))) (rp_provenance rp')\<rparr>"

inductive repo_step :: "codec \<Rightarrow> (string \<Rightarrow> string) \<Rightarrow> audited_repository \<Rightarrow> audited_repository \<Rightarrow> bool"
  for cd digest where
  update: "write_step cd digest (pr_queue_id ` set (au_log a)) (au_repository a) rp' \<Longrightarrow>
    repo_step cd digest a (audit_write rp' a)"
| cleanup_provenance: "repo_step cd digest a
    (a\<lparr>au_repository := snd (cleanup_provenance now hours (au_repository a)),
       au_cutoffs := provenance_cutoff now hours # au_cutoffs a\<rparr>)"

inductive repo_reachable :: "codec \<Rightarrow> (string \<Rightarrow> string) \<Rightarrow> audited_repository \<Rightarrow> bool" for cd digest where
  empty: "repo_reachable cd digest (audited repository_empty)"
| step: "repo_reachable cd digest a \<Longrightarrow> repo_step cd digest a a' \<Longrightarrow> repo_reachable cd digest a'"

definition logged :: "audited_repository \<Rightarrow> string \<Rightarrow> provenance_event list" where
  "logged a queue_id = map pr_event (filter (\<lambda>p. pr_queue_id p = queue_id) (au_log a))"

definition young :: "int list \<Rightarrow> provenance_row \<Rightarrow> bool" where
  "young cutoffs p \<longleftrightarrow> (\<forall>c \<in> set cutoffs. c < pr_created_at p)"

section \<open>Lemmas\<close>

named_theorems repo_simps \<open>projections of the repository operations\<close>

lemma add_provenance_simps [repo_simps, simp]:
  "rp_queue (add_provenance now ev r rp) = rp_queue rp"
  "rp_content (add_provenance now ev r rp) = rp_content rp"
  "events (add_provenance now ev r rp) q = events rp q @ (if qr_queue_id r = q then [ev] else [])"
  by (simp_all add: add_provenance_def events_def)

lemma insert_provenance_none:
  "queue_id \<notin> qr_queue_id ` set (rp_queue rp) \<Longrightarrow> insert_provenance now queue_id ev rp = rp"
proof -
  assume "queue_id \<notin> qr_queue_id ` set (rp_queue rp)"
  then have "filter (\<lambda>r. qr_queue_id r = queue_id) (rp_queue rp) = []" by (auto simp: filter_empty_conv)
  then show ?thesis by (simp add: insert_provenance_def)
qed

lemma distinct_filter_single:
  "distinct (map f xs) \<Longrightarrow> x \<in> set xs \<Longrightarrow> filter (\<lambda>y. f y = f x) xs = [x]"
  by (induction xs) (auto simp: filter_empty_conv image_iff)

lemma insert_provenance_one:
  "distinct (map qr_queue_id (rp_queue rp)) \<Longrightarrow> r \<in> set (rp_queue rp) \<Longrightarrow>
   insert_provenance now (qr_queue_id r) ev rp = add_provenance now ev r rp"
  using distinct_filter_single [of qr_queue_id "rp_queue rp" r] by (simp add: insert_provenance_def)

lemma update_rows_one:
  assumes "update_rows queue_id s f rows = (1, rows')"
  shows "\<exists>r \<in> set rows. qr_queue_id r = queue_id \<and> qr_status r = s"
proof -
  from assms have "length (filter (\<lambda>r. qr_queue_id r = queue_id \<and> qr_status r = s) rows) = Suc 0"
    by (simp add: update_rows_def)
  then obtain r where "r \<in> set (filter (\<lambda>r. qr_queue_id r = queue_id \<and> qr_status r = s) rows)"
    by (metis length_greater_0_conv nth_mem zero_less_Suc)
  then show ?thesis by auto
qed

text \<open>Every status change of the code goes through this lemma.\<close>

lemma repo_inv_change:
  assumes inv: "repo_inv digest rp"
    and upd: "update_rows queue_id s f (rp_queue rp) = (1, rows)"
    and f: "\<And>r. qr_queue_id (f r) = qr_queue_id r" "\<And>r. qr_content_key (f r) = qr_content_key r"
      "\<And>r. qr_status (f r) = s'"
    and legal: "status_after (Some s) ev = Some s'"
  shows "repo_inv digest (insert_provenance now queue_id ev (rp\<lparr>rp_queue := rows\<rparr>))"
proof -
  let ?rp = "rp\<lparr>rp_queue := rows\<rparr>" and ?hit = "\<lambda>r. qr_queue_id r = queue_id \<and> qr_status r = s"
  from update_rows_one [OF upd] obtain r where r: "r \<in> set (rp_queue rp)" "qr_queue_id r = queue_id" "qr_status r = s"
    by blast
  have rows: "rows = map (\<lambda>r. if ?hit r then f r else r) (rp_queue rp)" using upd by (simp add: update_rows_def)
  have ids: "map qr_queue_id rows = map qr_queue_id (rp_queue rp)" unfolding rows by (simp add: f)
  have dist: "distinct (map qr_queue_id rows)" using inv ids by (simp add: repo_inv_def)
  have fr: "f r \<in> set rows" "qr_queue_id (f r) = queue_id" using r unfolding rows by (auto simp: f)
  from insert_provenance_one [of ?rp "f r" now ev] dist fr
  have ins: "insert_provenance now queue_id ev ?rp = add_provenance now ev (f r) ?rp" by simp
  have ev0: "events ?rp q = events rp q" for q by (simp add: events_def)
  have uniq: "x = r" if "x \<in> set (rp_queue rp)" "qr_queue_id x = queue_id" for x
    using inv that r by (auto simp: repo_inv_def distinct_map inj_on_def)
  have "replay (events (add_provenance now ev (f r) ?rp) (qr_queue_id y)) = Some (qr_status y) \<and>
      hm_get (rp_content rp) (qr_content_key y) \<noteq> None" if "y \<in> set rows" for y
  proof -
    from that obtain x where x: "x \<in> set (rp_queue rp)" "y = (if ?hit x then f x else x)" unfolding rows by auto
    have x_inv: "replay (events rp (qr_queue_id x)) = Some (qr_status x)" "hm_get (rp_content rp) (qr_content_key x) \<noteq> None"
      using inv x(1) by (auto simp: repo_inv_def)
    show ?thesis
    proof (cases "qr_queue_id x = queue_id")
      case True
      then have "y = f x" "qr_status x = s" using uniq [OF x(1)] r x(2) by auto
      moreover have "events rp queue_id \<noteq> []" using x_inv(1) True by (auto simp del: not_None_eq)
      ultimately show ?thesis using True x_inv fr legal by (simp add: ev0 f replay_snoc)
    next
      case False
      with x x_inv fr show ?thesis by (simp add: ev0 f)
    qed
  qed
  then show ?thesis unfolding ins using inv dist by (simp add: repo_inv_def)
qed


lemma repo_inv_record:
  assumes inv: "repo_inv digest rp" and ev: "ev \<in> {ProcessingStarted, Retried, Processed, Routed}"
  shows "repo_inv digest (insert_provenance now queue_id ev rp)"
proof (cases "queue_id \<in> qr_queue_id ` set (rp_queue rp)")
  case False
  with inv show ?thesis by (simp add: insert_provenance_none)
next
  case True
  then obtain r where r: "r \<in> set (rp_queue rp)" "queue_id = qr_queue_id r" by blast
  have "status_after (Some s) ev = Some s" for s using ev by (cases s) auto
  moreover have "events rp (qr_queue_id r) \<noteq> []" using inv r(1) by (fastforce simp: repo_inv_def)
  ultimately show ?thesis
    using inv r insert_provenance_one [of rp r now ev]
    by (auto simp: repo_inv_def replay_snoc)
qed

lemma repo_inv_insert:
  assumes inv: "repo_inv digest rp"
    and fresh: "qr_queue_id row \<notin> pr_queue_id ` set (rp_provenance rp)"
    and row: "qr_status row = QPending" "hm_get (rp_content rp) (qr_content_key row) \<noteq> None"
  shows "repo_inv digest (snd (enqueue_insert now row rp))"
proof -
  have none: "events rp (qr_queue_id row) = []"
    using fresh by (auto simp: events_def filter_empty_conv intro: rev_image_eqI)
  have "qr_queue_id row \<notin> qr_queue_id ` set (rp_queue rp)"
  proof
    assume "qr_queue_id row \<in> qr_queue_id ` set (rp_queue rp)"
    then obtain r where "r \<in> set (rp_queue rp)" "qr_queue_id r = qr_queue_id row" by force
    with inv have "replay (events rp (qr_queue_id row)) = Some (qr_status r)"
      unfolding repo_inv_def by metis
    with none show False by simp
  qed
  moreover have "events (rp\<lparr>rp_queue := q\<rparr>) i = events rp i" for q i by (simp add: events_def)
  ultimately show ?thesis
    using inv none row by (auto simp: enqueue_insert_def repo_inv_def)
qed

lemma repo_inv_put:
  assumes "repo_inv digest rp"
  shows "repo_inv digest (snd (enqueue_put cd digest io packet rp))"
    and "fst (enqueue_put cd digest io packet rp) = Inr reference \<Longrightarrow>
      hm_get (rp_content (snd (enqueue_put cd digest io packet rp))) (cr_key reference) \<noteq> None"
proof -
  obtain kind media bytes where s: "serialize_content cd (dp_content packet) = (kind, media, bytes)"
    by (metis prod_cases3)
  have ins: "set (hm_insert (digest bytes) bytes (rp_content rp)) \<subseteq> insert (digest bytes, bytes) (set (rp_content rp))"
    by (rule set_hm_insert)
  show "repo_inv digest (snd (enqueue_put cd digest io packet rp))"
    using assms ins
    by (auto simp: enqueue_put_def s content_put_def repo_inv_def events_def Let_def split: sum.splits)
  show "hm_get (rp_content (snd (enqueue_put cd digest io packet rp))) (cr_key reference) \<noteq> None"
    if "fst (enqueue_put cd digest io packet rp) = Inr reference"
    using that by (auto simp: enqueue_put_def s content_put_def Let_def split: sum.splits if_splits)
qed


lemma repo_inv_queue_filter:
  assumes "repo_inv digest rp"
  shows "repo_inv digest (rp\<lparr>rp_queue := filter P (rp_queue rp)\<rparr>)"
proof -
  have "distinct (map qr_queue_id (filter P (rp_queue rp)))"
    using assms by (auto simp: repo_inv_def distinct_map_filter)
  with assms show ?thesis by (auto simp: repo_inv_def events_def)
qed

lemma repo_inv_cleanup_content: "repo_inv digest rp \<Longrightarrow> repo_inv digest (cleanup_content key rp)"
  by (auto simp: cleanup_content_def content_delete_def repo_inv_def events_def filter_empty_conv dest!: in_hm_remove)

lemma repo_inv_fold_cleanup: "repo_inv digest rp \<Longrightarrow> repo_inv digest (fold cleanup_content keys rp)"
  by (induction keys arbitrary: rp) (auto intro: repo_inv_cleanup_content)

lemma repo_inv_recover_rows:
  "repo_inv digest rp \<Longrightarrow> repo_inv digest (snd (recover_rows now ids (n, rp)))"
proof (induction ids arbitrary: n rp)
  case Nil
  then show ?case by simp
next
  case (Cons q ids)
  obtain affected rows where u: "update_rows q QRunning (\<lambda>r. r\<lparr>qr_status := QPending, qr_claimed_at := None\<rparr>) (rp_queue rp)
      = (affected, rows)" by fastforce
  show ?case
  proof (cases "affected = 1")
    case True
    with u have "repo_inv digest (insert_provenance now q Recovered (rp\<lparr>rp_queue := rows\<rparr>))"
      using repo_inv_change [OF Cons.prems, of q QRunning "\<lambda>r. r\<lparr>qr_status := QPending, qr_claimed_at := None\<rparr>" rows QPending Recovered]
      by simp
    from Cons.IH [OF this] u True show ?thesis by simp
  next
    case False
    with u Cons show ?thesis by simp
  qed
qed

lemma repo_inv_change_or_not:
  assumes "repo_inv digest rp"
    "\<And>r. qr_queue_id (f r) = qr_queue_id r" "\<And>r. qr_content_key (f r) = qr_content_key r" "\<And>r. qr_status (f r) = s'"
    "status_after (Some s) ev = Some s'"
  shows "repo_inv digest (case update_rows queue_id s f (rp_queue rp) of
    (affected, rows) \<Rightarrow> if affected \<noteq> 1 then rp else insert_provenance now queue_id ev (rp\<lparr>rp_queue := rows\<rparr>))"
proof (cases "update_rows queue_id s f (rp_queue rp)")
  case (Pair affected rows)
  then show ?thesis using assms repo_inv_change [OF assms(1), of queue_id s f rows s' ev] by simp
qed

lemma repo_inv_step:
  assumes "write_step cd digest used rp rp'" "repo_inv digest rp" "trail_ids rp \<subseteq> used"
  shows "repo_inv digest rp'"
  using assms
proof (induction rule: write_step.induct)
  case (enqueue uuid rp io now flow_id processor_id relationship packet)
  note put = repo_inv_put [OF enqueue(2), of cd io packet]
  show ?case
  proof (cases "enqueue_put cd digest io packet rp")
    case (Pair r rp1)
    show ?thesis
    proof (cases r)
      case (Inl e)
      with Pair put(1) show ?thesis by (simp add: enqueue_def)
    next
      case (Inr reference)
      have same: "rp_provenance rp1 = rp_provenance rp"
        using Pair by (auto simp: enqueue_put_def split: prod.splits)
      let ?row = "enqueue_row cd now uuid flow_id processor_id relationship packet reference"
      have row: "qr_queue_id ?row = uuid" "qr_status ?row = QPending" "qr_content_key ?row = cr_key reference"
        by (simp_all add: enqueue_row_def split: prod.splits)
      have "repo_inv digest (snd (enqueue_insert now ?row rp1))"
        using put Pair Inr enqueue(1,3) same row by (intro repo_inv_insert) auto
      with Pair Inr show ?thesis by (simp add: enqueue_def)
    qed
  qed
next
  case (claim rp now queue_id)
  then show ?case
    using repo_inv_change_or_not [OF claim(1), where f = "\<lambda>r. r\<lparr>qr_status := QRunning, qr_claimed_at := Some now\<rparr>"
        and s' = QRunning and s = QPending and ev = Claimed and queue_id = queue_id and now = now]
    by (simp add: claim_def split_beta split: if_splits)
next
  case (complete event rp now queue_id)
  then show ?case
    using repo_inv_change_or_not [OF complete(2), where s = QRunning and ev = event and queue_id = queue_id and now = now
        and f = "\<lambda>r. r\<lparr>qr_status := case event of PFailed \<Rightarrow> QDeadLetter | _ \<Rightarrow> QCompleted, qr_completed_at := Some now\<rparr>"
        and s' = "case event of PFailed \<Rightarrow> QDeadLetter | _ \<Rightarrow> QCompleted"]
    by (auto simp: complete_def Let_def)
next
  case (fail rp now queue_id error attempt)
  then show ?case
    using repo_inv_change_or_not [OF fail(1), where s = QRunning and s' = QDeadLetter and ev = PFailed
        and queue_id = queue_id and now = now and f = "\<lambda>r. r\<lparr>qr_status := QDeadLetter, qr_attempt := attempt,
          qr_error := Some error, qr_completed_at := Some now\<rparr>"]
    by (simp add: fail_def)
next
  case (requeue rp now queue_id)
  then show ?case
    using repo_inv_change_or_not [OF requeue(1), where s = QDeadLetter and s' = QPending and ev = Requeued
        and queue_id = queue_id and now = now and f = "\<lambda>r. r\<lparr>qr_status := QPending, qr_attempt := 0,
          qr_error := None, qr_claimed_at := None, qr_completed_at := None\<rparr>"]
    by (simp add: requeue_dead_letter_def split_beta split: if_splits)
next
  case (record_event event rp now queue_id)
  then show ?case by (simp add: record_event_def repo_inv_record)
next
  case (recover rp now flow_id after)
  then show ?case by (simp add: recover_abandoned_def Let_def repo_inv_recover_rows)
next
  case (cleanup rp now hours)
  then show ?case
    by (simp add: cleanup_completed_def cleanup_rows_def Let_def repo_inv_fold_cleanup repo_inv_queue_filter)
next
  case (reconcile rp)
  then show ?case
    by (auto simp: reconcile_orphans_def Let_def repo_inv_def events_def hm_get_filter_eq)
qed

lemma repo_inv_write_reachable: "write_reachable cd digest rp \<Longrightarrow> repo_inv digest rp"
proof (induction rule: write_reachable.induct)
  case empty
  then show ?case by (simp add: repo_inv_def repository_empty_def)
next
  case (step rp rp')
  then show ?case using repo_inv_step [OF step.hyps(2) step.IH] by simp
qed


subsection \<open>Reading back what was written\<close>

text \<open>What \<open>serde_json\<close> promises for one packet: its texts read back as the values.\<close>

definition codec_reads_back :: "codec \<Rightarrow> data_packet \<Rightarrow> bool" where
  "codec_reads_back cd p \<longleftrightarrow>
     (case dp_content p of Records rs \<Rightarrow> decode_records cd (encode_records cd rs) = Some rs | Encoded _ _ \<Rightarrow> True) \<and>
     decode_attributes cd (encode_attributes cd (dp_attributes p)) = Some (dp_attributes p) \<and>
     (case dp_schema p of None \<Rightarrow> True | Some s \<Rightarrow> decode_schema cd (encode_schema cd s) = Some s)"

lemma row_work_enqueued:
  assumes cd: "codec_reads_back cd packet"
    and content: "serialize_content cd (dp_content packet) = (kind, media, bytes)"
    and store: "hm_get store (digest bytes) = Some bytes"
  shows "row_work cd digest store
      (enqueue_row cd now uuid flow_id processor_id relationship packet \<lparr> cr_key = digest bytes, cr_size = length bytes \<rparr>) =
    Inr \<lparr> sw_queue_id = uuid, sw_flow_id = flow_id, sw_processor_id = processor_id,
          sw_relationship = relationship, sw_packet = packet \<rparr>"
proof -
  have "deserialize_content cd kind media bytes = Inr (dp_content packet)"
    using cd content
    by (cases "dp_content packet") (auto simp: serialize_content_def deserialize_content_def codec_reads_back_def)
  with assms show ?thesis
    by (auto simp: row_work_def enqueue_row_def content_get_def codec_reads_back_def split: option.splits)
qed

lemma content_put_stored:
  assumes "content_put digest io bytes store = (Inr reference, store')" "hm_wf store"
    and "\<forall>b. (digest bytes, b) \<in> set store \<longrightarrow> b = bytes"
  shows "reference = \<lparr> cr_key = digest bytes, cr_size = length bytes \<rparr> \<and> hm_get store' (digest bytes) = Some bytes \<and>
    (\<forall>k b. hm_get store k = Some b \<longrightarrow> hm_get store' k = Some b)"
proof (cases "hm_get store (digest bytes)")
  case None
  with assms(1) show ?thesis
    by (auto simp: content_put_def Let_def split: sum.splits)
next
  case (Some b)
  then have "b = bytes" using assms(3) map_of_SomeD by fastforce
  with Some assms(1) show ?thesis by (auto simp: content_put_def Let_def)
qed

lemma collect_results_Inr: "collect_results rs = Inr as \<longleftrightarrow> rs = map Inr as"
proof (induction rs arbitrary: as rule: collect_results.induct)
  case (3 a rs)
  show ?case
  proof (cases as)
    case (Cons b bs)
    then show ?thesis using 3 [of bs] 3 by (cases "collect_results rs") auto
  qed (auto split: sum.splits)
qed auto

lemma claim_true:
  assumes "repo_inv digest rp" "fst (claim now queue_id rp)"
  shows "\<exists>r \<in> set (rp_queue rp). qr_queue_id r = queue_id \<and> qr_status r = QPending"
  using assms(2) update_rows_one by (fastforce simp: claim_def split: prod.splits if_splits)

subsection \<open>Histories only grow\<close>

definition extends :: "packet_repository \<Rightarrow> packet_repository \<Rightarrow> string \<Rightarrow> bool" where
  "extends rp rp' q \<longleftrightarrow> (\<exists>later. events rp' q = events rp q @ later)"

lemma extends_refl [simp, intro!]: "extends rp rp q"
  by (simp add: extends_def)

lemma extends_trans: "extends rp rp1 q \<Longrightarrow> extends rp1 rp2 q \<Longrightarrow> extends rp rp2 q"
  by (auto simp: extends_def)

lemma extends_same: "rp_provenance rp' = rp_provenance rp \<Longrightarrow> extends rp rp' q"
  by (simp add: extends_def events_def)

lemma extends_fold_add: "extends rp (fold (add_provenance now ev) rs rp) q"
proof (induction rs arbitrary: rp)
  case (Cons r rs)
  have "extends rp (add_provenance now ev r rp) q" by (auto simp: extends_def)
  from extends_trans [OF this Cons.IH] show ?case by simp
qed simp

lemma extends_insert: "extends rp (insert_provenance now i ev (rp\<lparr>rp_queue := rows\<rparr>)) q"
  by (rule extends_trans [of _ "rp\<lparr>rp_queue := rows\<rparr>"])
    (simp_all add: extends_same insert_provenance_def extends_fold_add)

lemma extends_add: "extends rp (add_provenance now ev r (rp\<lparr>rp_queue := rows\<rparr>)) q"
  by (simp add: extends_def add_provenance_def events_def)

lemma extends_recover_rows: "extends rp (snd (recover_rows now ids (n, rp))) q"
proof (induction ids arbitrary: n rp)
  case (Cons i ids)
  show ?case
    by (auto split: prod.splits intro: extends_trans [OF extends_insert Cons.IH] Cons.IH)
qed simp

lemma provenance_cleanup: "rp_provenance (fold cleanup_content keys rp) = rp_provenance rp"
  by (induction keys arbitrary: rp) (auto simp: cleanup_content_def)

lemma extends_step:
  assumes "write_step cd digest used rp rp'"
  shows "extends rp rp' q"
  using assms
proof (induction rule: write_step.induct)
  case (enqueue uuid rp io now flow_id processor_id relationship packet)
  obtain r rp1 where put: "enqueue_put cd digest io packet rp = (r, rp1)" by fastforce
  then have "extends rp rp1 q"
    by (intro extends_same) (auto simp: enqueue_put_def split: prod.splits)
  then show ?case
    by (cases r) (auto simp: enqueue_def put enqueue_insert_def intro: extends_trans [OF _ extends_add])
next
  case (record_event event rp now queue_id)
  then show ?case using extends_insert [of rp now queue_id event "rp_queue rp" q] by (simp add: record_event_def)
next
  case (recover rp now flow_id after)
  then show ?case by (simp add: recover_abandoned_def Let_def extends_recover_rows)
next
  case (cleanup rp now hours)
  then show ?case
    by (intro extends_same) (simp add: cleanup_completed_def cleanup_rows_def Let_def provenance_cleanup)
next
  case (reconcile rp)
  then show ?case by (intro extends_same) (simp add: reconcile_orphans_def Let_def)
qed (auto simp: claim_def complete_def fail_def requeue_dead_letter_def Let_def extends_insert split: prod.splits)

lemma claim_events:
  assumes "repo_inv digest rp" "fst (claim now queue_id rp)"
  shows "replay (events rp queue_id) = Some QPending"
    and "events (snd (claim now queue_id rp)) queue_id = events rp queue_id @ [Claimed]"
proof -
  from claim_true [OF assms] obtain r where
    r: "r \<in> set (rp_queue rp)" "qr_queue_id r = queue_id" "qr_status r = QPending" by blast
  show "replay (events rp queue_id) = Some QPending" using assms(1) r by (force simp: repo_inv_def)
  let ?f = "\<lambda>r. r\<lparr>qr_status := QRunning, qr_claimed_at := Some now\<rparr>"
  obtain n rows where u: "update_rows queue_id QPending ?f (rp_queue rp) = (n, rows)" by fastforce
  have "n = 1" using assms(2) u by (auto simp: claim_def split: if_splits)
  then have c: "snd (claim now queue_id rp) = insert_provenance now queue_id Claimed (rp\<lparr>rp_queue := rows\<rparr>)"
    using u by (simp add: claim_def)
  have rows: "rows = map (\<lambda>r. if qr_queue_id r = queue_id \<and> qr_status r = QPending then ?f r else r) (rp_queue rp)"
    using u by (simp add: update_rows_def)
  then have "map qr_queue_id rows = map qr_queue_id (rp_queue rp)" by (simp add: comp_def)
  then have "distinct (map qr_queue_id rows)" using assms(1) by (simp add: repo_inv_def)
  moreover have "?f r \<in> set rows" using r unfolding rows by auto
  ultimately have "insert_provenance now queue_id Claimed (rp\<lparr>rp_queue := rows\<rparr>) =
      add_provenance now Claimed (?f r) (rp\<lparr>rp_queue := rows\<rparr>)"
    using insert_provenance_one [of "rp\<lparr>rp_queue := rows\<rparr>" "?f r" now Claimed] r(2) by simp
  then show "events (snd (claim now queue_id rp)) queue_id = events rp queue_id @ [Claimed]"
    unfolding c using r(2) by (simp add: events_def add_provenance_def)
qed

lemma replay_not_pending:
  assumes "es \<noteq> []" "replay es \<noteq> Some QPending" "Recovered \<notin> set later" "Requeued \<notin> set later"
  shows "replay (es @ later) \<noteq> Some QPending"
  using assms(3,4)
proof (induction later rule: rev_induct)
  case Nil
  with assms(2) show ?case by simp
next
  case (snoc e later)
  then have IH: "replay (es @ later) \<noteq> Some QPending" by simp
  have "replay (es @ later @ [e]) = status_after (replay (es @ later)) e"
    using replay_snoc [of "es @ later" e] assms(1) by simp
  also have "\<dots> \<noteq> Some QPending"
  proof (cases "replay (es @ later)")
    case (Some s)
    with IH snoc.prems show ?thesis by (cases s; cases e) auto
  qed simp
  finally show ?case .
qed

subsection \<open>The trail is only written\<close>

text \<open>
  No operation reads the trail. Two repositories that differ only in what stood there before,
  \<open>P\<close> in one and \<open>L\<close> in the other, go on alike: this is how a repository whose trail was cleaned
  is compared with one that has kept everything.
\<close>

definition alike :: "provenance_row list \<Rightarrow> provenance_row list \<Rightarrow> packet_repository \<Rightarrow> packet_repository \<Rightarrow> bool" where
  "alike P L rp rp2 \<longleftrightarrow> (\<exists>new. rp_provenance rp = P @ new \<and> rp2 = rp\<lparr>rp_provenance := L @ new\<rparr>)"

lemma alike_start: "alike (rp_provenance rp) L rp (rp\<lparr>rp_provenance := L\<rparr>)"
  by (simp add: alike_def)

lemma alike_same: "alike P L rp rp2 \<Longrightarrow>
    rp_queue rp2 = rp_queue rp \<and> rp_content rp2 = rp_content rp \<and> rp_next_id rp2 = rp_next_id rp"
  by (auto simp: alike_def)

lemma alike_queue: "alike P L rp rp2 \<Longrightarrow> alike P L (rp\<lparr>rp_queue := q\<rparr>) (rp2\<lparr>rp_queue := q\<rparr>)"
  by (auto simp: alike_def)

lemma alike_content: "alike P L rp rp2 \<Longrightarrow> alike P L (rp\<lparr>rp_content := c\<rparr>) (rp2\<lparr>rp_content := c\<rparr>)"
  by (auto simp: alike_def)

lemma alike_add: "alike P L rp rp2 \<Longrightarrow> alike P L (add_provenance now ev r rp) (add_provenance now ev r rp2)"
  by (auto simp: alike_def add_provenance_def)

lemma alike_fold_add: "alike P L rp rp2 \<Longrightarrow> alike P L (fold (add_provenance now ev) rs rp) (fold (add_provenance now ev) rs rp2)"
  by (induction rs arbitrary: rp rp2) (simp_all add: alike_add)

lemma alike_insert: "alike P L rp rp2 \<Longrightarrow> alike P L (insert_provenance now i ev rp) (insert_provenance now i ev rp2)"
  using alike_same [of P L rp rp2] by (simp add: insert_provenance_def alike_fold_add)

lemma alike_recover_rows:
  "alike P L rp rp2 \<Longrightarrow> alike P L (snd (recover_rows now ids (n, rp))) (snd (recover_rows now ids (n, rp2)))"
proof (induction ids arbitrary: n rp rp2)
  case (Cons i ids)
  then show ?case
    using alike_same [OF Cons.prems]
    by (auto split: prod.splits intro!: Cons.IH alike_insert alike_queue)
qed simp

lemma alike_cleanup_content: "alike P L rp rp2 \<Longrightarrow> alike P L (cleanup_content key rp) (cleanup_content key rp2)"
  using alike_same [of P L rp rp2] by (auto simp: cleanup_content_def intro: alike_content)

lemma alike_fold_cleanup: "alike P L rp rp2 \<Longrightarrow> alike P L (fold cleanup_content keys rp) (fold cleanup_content keys rp2)"
  by (induction keys arbitrary: rp rp2) (simp_all add: alike_cleanup_content)

lemma alike_enqueue_put:
  assumes "alike P L rp rp2" "enqueue_put cd digest io packet rp = (r, rp')"
  shows "\<exists>rp2'. enqueue_put cd digest io packet rp2 = (r, rp2') \<and> alike P L rp' rp2'"
proof -
  obtain kind media bytes where ser: "serialize_content cd (dp_content packet) = (kind, media, bytes)"
    by (metis prod_cases3)
  obtain r' store where put: "content_put digest io bytes (rp_content rp) = (r', store)" by fastforce
  from assms(2) have "r = r'" "rp' = rp\<lparr>rp_content := store\<rparr>" by (simp_all add: enqueue_put_def ser put)
  moreover have "enqueue_put cd digest io packet rp2 = (r', rp2\<lparr>rp_content := store\<rparr>)"
    by (simp add: enqueue_put_def ser put alike_same [OF assms(1)])
  ultimately show ?thesis using alike_content [OF assms(1), of store] by blast
qed

lemma alike_enqueue:
  assumes "alike P L rp rp2"
  shows "alike P L (snd (enqueue cd digest io now uuid flow_id processor_id relationship packet rp))
    (snd (enqueue cd digest io now uuid flow_id processor_id relationship packet rp2))"
proof -
  obtain r rp' where put: "enqueue_put cd digest io packet rp = (r, rp')" by fastforce
  from alike_enqueue_put [OF assms this] obtain rp2' where
    put2: "enqueue_put cd digest io packet rp2 = (r, rp2')" and a: "alike P L rp' rp2'" by blast
  from a put put2 alike_same [OF a] show ?thesis
    by (cases r) (simp_all add: enqueue_def enqueue_insert_def alike_add alike_queue)
qed

lemmas alike_intros = alike_insert alike_queue alike_content alike_recover_rows alike_fold_cleanup

text \<open>Hence a step of the cleaned repository is a step of the one that has kept the log.\<close>

lemma alike_write_step:
  assumes "write_step cd digest used rp rp'" "alike P L rp rp2"
  shows "\<exists>rp2'. write_step cd digest used rp2 rp2' \<and> alike P L rp' rp2'"
  using assms
proof (induction rule: write_step.induct)
  case (enqueue uuid rp io now flow_id processor_id relationship packet)
  then show ?case
    by (intro exI conjI) (rule write_step.enqueue [OF enqueue(1)], rule alike_enqueue [OF enqueue(2)])
next
  case (claim rp now queue_id)
  then have "alike P L (snd (claim now queue_id rp)) (snd (claim now queue_id rp2))"
    using alike_same [OF claim] by (auto simp: claim_def split: prod.splits intro!: alike_intros)
  then show ?case using write_step.claim by blast
next
  case (complete event rp now queue_id)
  then have "alike P L (complete now queue_id event rp) (complete now queue_id event rp2)"
    using alike_same [OF complete(2)] by (auto simp: complete_def Let_def split: prod.splits intro!: alike_intros)
  then show ?case using write_step.complete [OF complete(1)] by blast
next
  case (fail rp now queue_id error attempt)
  then have "alike P L (fail now queue_id error attempt rp) (fail now queue_id error attempt rp2)"
    using alike_same [OF fail] by (auto simp: fail_def split: prod.splits intro!: alike_intros)
  then show ?case using write_step.fail by blast
next
  case (requeue rp now queue_id)
  then have "alike P L (snd (requeue_dead_letter now queue_id rp)) (snd (requeue_dead_letter now queue_id rp2))"
    using alike_same [OF requeue] by (auto simp: requeue_dead_letter_def split: prod.splits intro!: alike_intros)
  then show ?case using write_step.requeue by blast
next
  case (record_event event rp now queue_id)
  then have "alike P L (record_event now queue_id event rp) (record_event now queue_id event rp2)"
    by (simp add: record_event_def alike_insert)
  then show ?case using write_step.record_event [OF record_event(1)] by blast
next
  case (recover rp now flow_id after)
  then have "alike P L (snd (recover_abandoned now flow_id after rp)) (snd (recover_abandoned now flow_id after rp2))"
    using alike_same [OF recover] by (simp add: recover_abandoned_def Let_def alike_recover_rows)
  then show ?case using write_step.recover by blast
next
  case (cleanup rp now hours)
  then have "alike P L (snd (cleanup_completed now hours rp)) (snd (cleanup_completed now hours rp2))"
    using alike_same [OF cleanup]
    by (auto simp: cleanup_completed_def cleanup_rows_def Let_def intro!: alike_fold_cleanup alike_queue)
  then show ?case using write_step.cleanup by blast
next
  case (reconcile rp)
  then have "alike P L (snd (reconcile_orphans rp)) (snd (reconcile_orphans rp2))"
    using alike_same [OF reconcile] by (auto simp: reconcile_orphans_def Let_def intro!: alike_content)
  then show ?case using write_step.reconcile by blast
qed

text \<open>The repository as it would be had its trail never been cleaned.\<close>

definition uncleaned :: "audited_repository \<Rightarrow> packet_repository" where
  "uncleaned a = (au_repository a)\<lparr>rp_provenance := au_log a\<rparr>"

lemma uncleaned_simps [simp]:
  "rp_queue (uncleaned a) = rp_queue (au_repository a)" "rp_content (uncleaned a) = rp_content (au_repository a)"
  "rp_provenance (uncleaned a) = au_log a" "events (uncleaned a) q = logged a q" "uncleaned (audited rp) = rp"
  by (simp_all add: uncleaned_def events_def logged_def audited_def)

lemma uncleaned_write:
  assumes "write_step cd digest (pr_queue_id ` set (au_log a)) (au_repository a) rp'"
  shows "write_step cd digest (trail_ids (uncleaned a)) (uncleaned a) (uncleaned (audit_write rp' a))"
    and "\<exists>new. rp_provenance rp' = rp_provenance (au_repository a) @ new \<and> au_log (audit_write rp' a) = au_log a @ new"
proof -
  let ?P = "rp_provenance (au_repository a)"
  have "alike ?P (au_log a) (au_repository a) (uncleaned a)" unfolding uncleaned_def by (rule alike_start)
  from alike_write_step [OF assms this] obtain rp2 new where
    step: "write_step cd digest (pr_queue_id ` set (au_log a)) (uncleaned a) rp2"
    and new: "rp_provenance rp' = ?P @ new" "rp2 = rp'\<lparr>rp_provenance := au_log a @ new\<rparr>"
    by (auto simp: alike_def)
  then have "rp2 = uncleaned (audit_write rp' a)" by (simp add: uncleaned_def audit_write_def)
  with step show "write_step cd digest (trail_ids (uncleaned a)) (uncleaned a) (uncleaned (audit_write rp' a))" by simp
  show "\<exists>new. rp_provenance rp' = ?P @ new \<and> au_log (audit_write rp' a) = au_log a @ new"
    using new by (simp add: audit_write_def)
qed

lemma uncleaned_cleanup:
  "uncleaned (a\<lparr>au_repository := (au_repository a)\<lparr>rp_provenance := ps\<rparr>, au_cutoffs := cs\<rparr>) = uncleaned a"
  by (simp add: uncleaned_def)

text \<open>What holds of the uncleaned repository and of the two trails, and is kept by every step.\<close>

definition audit_inv :: "(string \<Rightarrow> string) \<Rightarrow> audited_repository \<Rightarrow> bool" where
  "audit_inv digest a \<longleftrightarrow>
     repo_inv digest (uncleaned a) \<and> subseq (rp_provenance (au_repository a)) (au_log a) \<and>
     filter (young (au_cutoffs a)) (rp_provenance (au_repository a)) = filter (young (au_cutoffs a)) (au_log a)"

lemma young_Cons: "young (c # cs) = (\<lambda>p. c < pr_created_at p \<and> young cs p)"
  by (auto simp: young_def)

lemma audit_step:
  assumes "repo_step cd digest a a'" "audit_inv digest a"
  shows "audit_inv digest a' \<and> (\<exists>later. logged a' q = logged a q @ later)"
  using assms
proof (induction rule: repo_step.induct)
  case (update a rp')
  from uncleaned_write(2) [OF update(1)] obtain new where
    new: "rp_provenance rp' = rp_provenance (au_repository a) @ new" "au_log (audit_write rp' a) = au_log a @ new" by blast
  have "repo_inv digest (uncleaned (audit_write rp' a))"
    using repo_inv_step [OF uncleaned_write(1) [OF update(1)]] update(2) by (simp add: audit_inv_def)
  moreover have "au_repository (audit_write rp' a) = rp'" "au_cutoffs (audit_write rp' a) = au_cutoffs a"
    by (simp_all add: audit_write_def)
  ultimately show ?case
    using update(2) new by (auto simp: audit_inv_def logged_def intro: list_emb_append_mono)
next
  case (cleanup_provenance a now hours)
  let ?c = "provenance_cutoff now hours" and ?P = "rp_provenance (au_repository a)"
  have cut: "filter (young (?c # au_cutoffs a)) xs = filter (\<lambda>p. ?c < pr_created_at p) (filter (young (au_cutoffs a)) xs)" for xs
    by (simp add: young_Cons conj_commute)
  have "filter (young (?c # au_cutoffs a)) ?P = filter (young (?c # au_cutoffs a)) (au_log a)"
    using cleanup_provenance unfolding cut audit_inv_def by metis
  moreover have "filter (young (?c # au_cutoffs a)) (filter (\<lambda>p. \<not> pr_created_at p \<le> ?c) ?P) =
      filter (young (?c # au_cutoffs a)) ?P"
    by (simp add: young_Cons conj_commute cong: filter_cong) (metis linorder_not_le)
  moreover have "subseq (filter (\<lambda>p. \<not> pr_created_at p \<le> ?c) ?P) (au_log a)"
    using cleanup_provenance subseq_filter_left subseq_order.order_trans unfolding audit_inv_def by blast
  ultimately show ?case
    using cleanup_provenance
    by (simp add: audit_inv_def uncleaned_cleanup logged_def cleanup_provenance_def Let_def)
qed

lemma audit_inv_reachable: "repo_reachable cd digest a \<Longrightarrow> audit_inv digest a"
proof (induction rule: repo_reachable.induct)
  case empty
  have "repo_inv digest repository_empty" by (simp add: repo_inv_def repository_empty_def)
  then show ?case by (simp add: audit_inv_def) (simp add: audited_def)
next
  case (step a a')
  then show ?case using audit_step by blast
qed

lemma repo_inv_reachable: "repo_reachable cd digest a \<Longrightarrow> repo_inv digest (uncleaned a)"
  using audit_inv_reachable by (simp add: audit_inv_def)

lemma audit_steps:
  assumes "(repo_step cd digest)\<^sup>*\<^sup>* a a'" "audit_inv digest a"
  shows "audit_inv digest a' \<and> (\<exists>later. logged a' q = logged a q @ later)"
  using assms
proof (induction rule: rtranclp_induct)
  case base
  then show ?case by simp
next
  case (step a1 a2)
  from step.IH [OF step.prems] obtain l1 where l1: "audit_inv digest a1" "logged a1 q = logged a q @ l1" by blast
  from audit_step [OF step.hyps(2) l1(1), of q] l1(2) show ?case by auto
qed

lemma claim_uncleaned:
  "fst (claim now queue_id (uncleaned a)) = fst (claim now queue_id (au_repository a))"
  by (simp add: claim_def split: prod.split)

lemma claim_audited:
  "uncleaned (audit_write (snd (claim now queue_id (au_repository a))) a) = snd (claim now queue_id (uncleaned a))"
proof -
  let ?P = "rp_provenance (au_repository a)"
  have a: "alike ?P (au_log a) (au_repository a) (uncleaned a)" unfolding uncleaned_def by (rule alike_start)
  have "alike ?P (au_log a) (snd (claim now queue_id (au_repository a))) (snd (claim now queue_id (uncleaned a)))"
    using a alike_same [OF a] by (auto simp: claim_def split: prod.splits intro!: alike_intros)
  then show ?thesis by (auto simp: alike_def uncleaned_def audit_write_def)
qed

text \<open>A repository whose trail was never cleaned is its own uncleaned version.\<close>

lemma write_reachable_audited: "write_reachable cd digest rp \<Longrightarrow> repo_reachable cd digest (audited rp)"
proof (induction rule: write_reachable.induct)
  case empty
  show ?case by (rule repo_reachable.empty)
next
  case (step rp rp')
  have step': "write_step cd digest (pr_queue_id ` set (au_log (audited rp))) (au_repository (audited rp)) rp'"
    using step.hyps by (simp add: audited_def)
  from uncleaned_write(2) [OF step'] have "audit_write rp' (audited rp) = audited rp'"
    by (auto simp: audited_def audit_write_def)
  with repo_reachable.step [OF step.IH repo_step.update [OF step']] show ?case by simp
qed

section \<open>Properties\<close>

text \<open>
  C6. Queue row and history change together, through every operation and whatever cleanups of the
  provenance run in between. The events ever written about a row are a legal history that ends in
  the status of the row: it starts with \<open>Enqueued\<close>, a claim only follows a pending status, a
  completion or a failure only a claim, a requeue only a failure. Of these events the provenance
  table holds the ones that no \<open>cleanup_provenance\<close> has removed: the table is the log with rows
  left out, and no row is missing that is younger than the cutoff of every cleanup so far. Identifiers
  of rows are not used twice (they are fresh UUIDs).
\<close>

theorem provenance_replays_status:
  assumes "repo_reachable cd digest a" "r \<in> set (rp_queue (au_repository a))"
  shows "replay (logged a (qr_queue_id r)) = Some (qr_status r) \<and>
    subseq (rp_provenance (au_repository a)) (au_log a) \<and>
    filter (young (au_cutoffs a)) (rp_provenance (au_repository a)) = filter (young (au_cutoffs a)) (au_log a)"
  using audit_inv_reachable [OF assms(1)] assms(2) by (auto simp: audit_inv_def repo_inv_def)

text \<open>
  C7. Only one of any number of workers gets a packet: after a claim succeeds, no other claim
  of the packet does, whatever steps follow, cleanups of rows, content and provenance among them,
  until an event that recovers or requeues the packet has been written.
\<close>

theorem claim_exclusive:
  assumes "repo_reachable cd digest a" "fst (claim now queue_id (au_repository a))"
    and "(repo_step cd digest)\<^sup>*\<^sup>* (audit_write (snd (claim now queue_id (au_repository a))) a) a'"
    and "\<forall>e \<in> set (drop (length (logged a queue_id)) (logged a' queue_id)). e \<notin> {Recovered, Requeued}"
  shows "\<not> fst (claim now' queue_id (au_repository a'))"
proof
  assume second: "fst (claim now' queue_id (au_repository a'))"
  let ?a1 = "audit_write (snd (claim now queue_id (au_repository a))) a"
  have inv: "audit_inv digest a" by (rule audit_inv_reachable [OF assms(1)])
  have first: "fst (claim now queue_id (uncleaned a))" using assms(2) by (simp add: claim_uncleaned)
  have rinv: "repo_inv digest (uncleaned a)" using inv by (simp add: audit_inv_def)
  note claimed = claim_events [OF rinv first]
  have a1: "logged ?a1 queue_id = logged a queue_id @ [Claimed]"
    using claimed(2) by (simp only: claim_audited [symmetric] uncleaned_simps)
  have "audit_inv digest ?a1" using audit_step [OF repo_step.update [OF write_step.claim] inv] by blast
  from audit_steps [OF assms(3) this, of queue_id] obtain later where
    inv': "audit_inv digest a'" and later: "logged a' queue_id = (logged a queue_id @ [Claimed]) @ later"
    by (auto simp: a1)
  have "replay (logged a queue_id @ [Claimed]) \<noteq> Some QPending"
    using replay_snoc [of "logged a queue_id" Claimed] claimed(1) by (cases "logged a queue_id") auto
  moreover have "drop (length (logged a queue_id)) (logged a' queue_id) = Claimed # later"
    unfolding later by simp
  with assms(4) have "Recovered \<notin> set later" "Requeued \<notin> set later" by auto
  ultimately have "replay (logged a' queue_id) \<noteq> Some QPending"
    unfolding later using replay_not_pending [of "logged a queue_id @ [Claimed]" later] by simp
  moreover have "fst (claim now' queue_id (uncleaned a'))" using second by (simp add: claim_uncleaned)
  ultimately show False using claim_events(1) [of digest "uncleaned a'"] inv' by (simp add: audit_inv_def)
qed


text \<open>
  What is enqueued is what a later start finds: a row enqueued under a fresh identifier is
  pending, and the work read back from it is the same packet for the same processor. The
  texts that \<open>serde_json\<close> writes read back, and no other stored content has the digest of the
  content of the packet.
\<close>

theorem enqueue_pending:
  assumes "repo_reachable cd digest a" "au_repository a = rp"
    and "codec_reads_back cd packet"
    and "serialize_content cd (dp_content packet) = (kind, media, bytes)"
    and "\<forall>b. (digest bytes, b) \<in> set (rp_content rp) \<longrightarrow> b = bytes"
    and "enqueue cd digest io now uuid flow_id processor_id relationship packet rp = (Inr q, rp')"
    and "pending_work cd digest flow_id rp' = Inr work"
  shows "\<lparr> sw_queue_id = uuid, sw_flow_id = flow_id, sw_processor_id = processor_id,
      sw_relationship = relationship, sw_packet = packet \<rparr> \<in> set work \<and> q = uuid"
proof -
  have wf: "hm_wf (rp_content rp)" using repo_inv_reachable [OF assms(1)] assms(2) by (simp add: repo_inv_def)
  obtain r store where put: "content_put digest io bytes (rp_content rp) = (r, store)" by fastforce
  then obtain reference where r: "r = Inr reference"
    using assms(4,6) by (cases r) (auto simp: enqueue_def enqueue_put_def)
  from content_put_stored [OF put [unfolded r] wf assms(5)]
  have ref: "reference = \<lparr> cr_key = digest bytes, cr_size = length bytes \<rparr>"
    and stored: "hm_get store (digest bytes) = Some bytes" by auto
  let ?row = "enqueue_row cd now uuid flow_id processor_id relationship packet reference"
  have row: "qr_queue_id ?row = uuid" "qr_status ?row = QPending" "qr_flow_id ?row = flow_id"
    by (simp_all add: enqueue_row_def assms(4))
  have "enqueue_insert now ?row (rp\<lparr>rp_content := store\<rparr>) = (Inr q, rp')"
    using assms(6) put r by (simp add: enqueue_def enqueue_put_def assms(4))
  then have q: "q = uuid" and rp': "?row \<in> set (rp_queue rp')" "rp_content rp' = store"
    using row by (auto simp: enqueue_insert_def split: if_splits)
  have "?row \<in> set (pending_rows flow_id rp')" using rp'(1) row by (simp add: pending_rows_def)
  moreover have "map (row_work cd digest store) (pending_rows flow_id rp') = map Inr work"
    using assms(7) rp'(2) by (simp add: pending_work_def collect_results_Inr)
  ultimately have "row_work cd digest store ?row \<in> set (map Inr work)" by (metis imageI set_map)
  with row_work_enqueued [where digest = digest and store = store, OF assms(3,4) stored] ref q
  show ?thesis by auto
qed


text \<open>
  While an \<open>enqueue\<close> does not overlap a cleanup or a reconciliation, no step loses
  content: every row that is still queued has its content in the store, with the right digest.
\<close>

theorem content_available:
  assumes "repo_reachable cd digest a" "r \<in> set (rp_queue (au_repository a))"
  shows "\<exists>bytes. content_get digest \<lparr> cr_key = qr_content_key r, cr_size = qr_content_size r \<rparr>
      (rp_content (au_repository a)) = Inr bytes \<and>
    digest bytes = qr_content_key r"
proof -
  have inv: "repo_inv digest (uncleaned a)" by (rule repo_inv_reachable [OF assms(1)])
  then obtain b where "hm_get (rp_content (au_repository a)) (qr_content_key r) = Some b" using assms(2) by (auto simp: repo_inv_def)
  moreover from this have "digest b = qr_content_key r"
    using inv map_of_SomeD unfolding repo_inv_def by fastforce
  ultimately show ?thesis by (simp add: content_get_def)
qed

text \<open>A row that is completed, and a packet with the same content on its way into the queue.\<close>

definition example_codec :: codec where
  "example_codec = \<lparr> encode_value = (\<lambda>_. ''v''), encode_records = (\<lambda>_. ''[]''), decode_records = (\<lambda>_. Some []),
     encode_attributes = (\<lambda>_. ''{}''), decode_attributes = (\<lambda>_. Some []), encode_schema = (\<lambda>_. ''s''),
     decode_schema = (\<lambda>_. None), struct_size = 136 \<rparr>"

definition example_packet :: data_packet where
  "example_packet = packet_empty ''p''"

lemma example_codec_reads_back: "codec_reads_back example_codec example_packet"
  by (simp add: codec_reads_back_def example_codec_def example_packet_def packet_empty_def)

definition example_pending :: packet_repository where
  "example_pending = snd (enqueue example_codec (\<lambda>b. b) (Inr ()) 1 ''q1'' ''f'' ''a'' ''success'' example_packet repository_empty)"

lemma example_pending_reachable: "write_reachable example_codec (\<lambda>b. b) example_pending"
  unfolding example_pending_def
  by (intro write_reachable.step [OF write_reachable.empty] write_step.enqueue) (simp add: repository_empty_def)

definition example_repository :: packet_repository where
  "example_repository = complete 3 ''q1'' Completed (snd (claim 2 ''q1'' example_pending))"

lemma example_repository_reachable: "write_reachable example_codec (\<lambda>b. b) example_repository"
  unfolding example_repository_def
  by (rule write_reachable.step [OF write_reachable.step [OF example_pending_reachable write_step.claim] write_step.complete])
    simp

lemma example_repository_eq:
  "rp_queue example_repository = [\<lparr> qr_queue_id = ''q1'', qr_packet_id = ''p'', qr_flow_id = ''f'', qr_processor_id = ''a'',
     qr_relationship = ''success'', qr_status = QCompleted, qr_attempt = 0, qr_attributes_json = ''{}'',
     qr_schema_json = None, qr_content_key = ''[]'', qr_content_kind = ''records'',
     qr_media_type = Some ''application/json'', qr_content_size = 2, qr_created_at = 1, qr_claimed_at = Some 2,
     qr_completed_at = Some 3, qr_error = None \<rparr>]"
  "rp_content example_repository = [(''[]'', ''[]'')]"
  "map pr_event (rp_provenance example_repository) = [Enqueued, Claimed, Completed]"
  "pr_queue_id ` set (rp_provenance example_repository) = {''q1''}"
  by (simp_all add: example_repository_def example_pending_def enqueue_def enqueue_put_def enqueue_insert_def enqueue_row_def
      serialize_content_def content_put_def example_codec_def example_packet_def packet_empty_def repository_empty_def
      claim_def complete_def update_rows_def insert_provenance_def add_provenance_def Let_def)

text \<open>
  The content of a packet can be lost when its \<open>enqueue\<close> overlaps a cleanup: the blob it
  found in the store belongs to a completed row, the cleanup removes row and blob, and the
  transaction then inserts a pending row that can never be read.
\<close>

theorem enqueue_during_cleanup_loses_content:
  "\<exists>rp reference rp1 rp2 rp3. write_reachable example_codec (\<lambda>b. b) rp \<and>
     enqueue_put example_codec (\<lambda>b. b) (Inr ()) example_packet rp = (Inr reference, rp1) \<and>
     rp2 = snd (cleanup_completed 9 0 rp1) \<and>
     enqueue_insert 9 (enqueue_row example_codec 9 ''q2'' ''f'' ''a'' ''success'' example_packet reference) rp2 =
       (Inr ''q2'', rp3) \<and>
     (\<exists>e. pending_work example_codec (\<lambda>b. b) ''f'' rp3 = Inl e)"
proof -
  obtain reference rp1 where put: "enqueue_put example_codec (\<lambda>b. b) (Inr ()) example_packet example_repository = (Inr reference, rp1)"
    and ref: "reference = \<lparr> cr_key = ''[]'', cr_size = 2 \<rparr>" and rp1: "rp1 = example_repository"
    by (simp add: enqueue_put_def serialize_content_def content_put_def example_packet_def packet_empty_def
        example_codec_def example_repository_eq Let_def)
  let ?rp2 = "snd (cleanup_completed 9 0 rp1)"
  have rp2: "rp_queue ?rp2 = []" "rp_content ?rp2 = []"
    by (simp_all add: rp1 cleanup_completed_def cleanup_rows_def completed_before_def example_repository_eq
        cleanup_content_def content_delete_def as_i64_def i64_saturating_sub_def sat_mul_def Let_def)
  let ?row = "enqueue_row example_codec 9 ''q2'' ''f'' ''a'' ''success'' example_packet reference"
  obtain rp3 where ins: "enqueue_insert 9 ?row ?rp2 = (Inr ''q2'', rp3)"
    and rp3: "rp_queue rp3 = [?row]" "rp_content rp3 = []"
    by (simp add: enqueue_insert_def rp2 enqueue_row_def example_packet_def packet_empty_def serialize_content_def)
  have "pending_work example_codec (\<lambda>b. b) ''f'' rp3 = Inl (IoError ''[]'')"
    by (simp add: pending_work_def pending_rows_def rp3 enqueue_row_def example_packet_def packet_empty_def
        serialize_content_def row_work_def content_get_def ref)
  with put ins example_repository_reachable show ?thesis by blast
qed

text \<open>
  The largest retention period removes everything at once: the product of hours and
  seconds saturates at \<open>u64::MAX\<close>, its cast to \<open>i64\<close> is \<open>-1\<close>, and the cutoff lies in the
  future.
\<close>

theorem cleanup_retention_wraps:
  assumes "u64_max div 3600 < hours" "0 \<le> now" "now < 2 ^ 62"
  shows "rp_queue (snd (cleanup_completed now hours rp)) =
    filter (\<lambda>r. \<not> completed_before (now + 1) r) (rp_queue rp)"
proof -
  have "u64_max < hours * 3600" using assms(1) by (simp add: div_less_iff_less_mult)
  then have "sat_mul hours 3600 = u64_max" by (simp add: sat_mul_def)
  then have "as_i64 (sat_mul hours 3600) = -1" by (simp add: as_i64_def u64_max_def)
  then have c: "i64_saturating_sub now (as_i64 (sat_mul hours 3600)) = now + 1"
    using assms by (simp add: i64_saturating_sub_def)
  have "rp_queue (fold cleanup_content keys rp) = rp_queue rp" for keys rp
    by (induction keys arbitrary: rp) (auto simp: cleanup_content_def)
  then show ?thesis by (simp add: cleanup_completed_def cleanup_rows_def c Let_def)
qed

subsection \<open>Witnesses\<close>

text \<open>The completed row an hour later, when a cleanup has removed its whole trail.\<close>

definition example_cleaned :: audited_repository where
  "example_cleaned =
     (audited example_repository)\<lparr>au_repository := snd (cleanup_provenance 3603 1 example_repository),
       au_cutoffs := [provenance_cutoff 3603 1]\<rparr>"

lemma example_cleaned_reachable: "repo_reachable example_codec (\<lambda>b. b) example_cleaned"
  using repo_reachable.step [OF write_reachable_audited [OF example_repository_reachable] repo_step.cleanup_provenance, of 3603 1]
  by (simp add: example_cleaned_def audited_def)

lemma example_cleaned_eq:
  "rp_queue (au_repository example_cleaned) = rp_queue example_repository"
  "rp_provenance (au_repository example_cleaned) = []"
  by (simp_all add: example_cleaned_def cleanup_provenance_def provenance_cutoff_def i64_saturating_sub_def as_i64_def
      sat_mul_def u64_max_def Let_def filter_empty_conv example_repository_def example_pending_def enqueue_def enqueue_put_def
      enqueue_insert_def enqueue_row_def serialize_content_def content_put_def example_codec_def example_packet_def
      packet_empty_def repository_empty_def claim_def complete_def update_rows_def insert_provenance_def add_provenance_def)

lemma provenance_replays_status_witness:
  "rp_provenance (au_repository example_cleaned) = [] \<and> replay (logged example_cleaned ''q1'') = Some QCompleted"
  using provenance_replays_status [OF example_cleaned_reachable, of "hd (rp_queue example_repository)"]
  by (simp add: example_cleaned_eq example_repository_eq)

lemmas enqueue_defs = enqueue_def enqueue_put_def enqueue_insert_def enqueue_row_def serialize_content_def
  content_put_def example_codec_def example_packet_def packet_empty_def repository_empty_def add_provenance_def

lemma example_pending_claim:
  "fst (claim 2 ''q1'' example_pending)" "events example_pending ''q1'' = [Enqueued]"
  "events (snd (claim 2 ''q1'' example_pending)) ''q1'' = [Enqueued, Claimed]"
  by (simp_all add: example_pending_def enqueue_defs claim_def update_rows_def insert_provenance_def events_def Let_def)

lemma claim_exclusive_witness: "\<not> fst (claim 5 ''q1'' (snd (claim 2 ''q1'' example_pending)))"
proof -
  let ?a = "audited example_pending" and ?rp = "snd (claim 2 ''q1'' example_pending)"
  let ?a1 = "audit_write ?rp ?a"
  have a: "au_repository ?a = example_pending" "logged ?a ''q1'' = [Enqueued]"
    using example_pending_claim(2) by (simp_all add: audited_def logged_def events_def)
  have "events (uncleaned ?a1) ''q1'' = [Enqueued, Claimed]"
    using claim_audited [of 2 "''q1''" ?a] example_pending_claim(3) by (simp add: a(1))
  then have "logged ?a1 ''q1'' = [Enqueued, Claimed]" by simp
  moreover have "au_repository ?a1 = ?rp" by (simp add: audit_write_def)
  ultimately show ?thesis
    using claim_exclusive [OF write_reachable_audited [OF example_pending_reachable], of 2 "''q1''" ?a1 5] a example_pending_claim(1)
    by simp
qed

lemma enqueue_pending_witness:
  "\<exists>work. pending_work example_codec (\<lambda>b. b) ''f'' example_pending = Inr work \<and>
     \<lparr> sw_queue_id = ''q1'', sw_flow_id = ''f'', sw_processor_id = ''a'', sw_relationship = ''success'',
       sw_packet = example_packet \<rparr> \<in> set work"
proof -
  have ser: "serialize_content example_codec (dp_content example_packet) = (''records'', Some ''application/json'', ''[]'')"
    by (simp add: serialize_content_def example_packet_def packet_empty_def example_codec_def)
  obtain work where work: "pending_work example_codec (\<lambda>b. b) ''f'' example_pending = Inr work"
    by (simp add: pending_work_def pending_rows_def example_pending_def enqueue_defs row_work_def content_get_def
        deserialize_content_def Let_def)
  have "enqueue example_codec (\<lambda>b. b) (Inr ()) 1 ''q1'' ''f'' ''a'' ''success'' example_packet repository_empty =
      (Inr ''q1'', example_pending)"
    by (simp add: example_pending_def enqueue_defs Let_def)
  from enqueue_pending [OF repo_reachable.empty _ example_codec_reads_back ser _ this work] work show ?thesis
    by (simp add: repository_empty_def audited_def)
qed

lemma content_available_witness:
  "\<exists>bytes. content_get (\<lambda>b. b) \<lparr> cr_key = ''[]'', cr_size = 2 \<rparr> (rp_content example_repository) = Inr bytes"
  using content_available [OF write_reachable_audited [OF example_repository_reachable], of "hd (rp_queue example_repository)"]
  by (simp add: example_repository_eq audited_def)

lemma cleanup_retention_wraps_witness:
  "rp_queue (snd (cleanup_completed 3 u64_max example_repository)) = []"
  using cleanup_retention_wraps [of u64_max 3 example_repository]
  by (simp add: u64_max_def example_repository_eq completed_before_def)

end
