(* ===== verification/Flow_Router.thy ===== *)
theory Flow_Router
  imports Memory_Limiter Packet_Repository
begin

text \<open>
  Routing of an emission to the queues of the connections
  (\<open>crates/jaiba-runtime/src/engine/executor/routing.rs\<close>, with \<open>WorkItem\<close>,
  \<open>is_source_seed\<close> and \<open>hold_unrouted\<close> of \<open>executor/mod.rs\<close> and
  \<open>ProcessorEmission\<close> of \<open>engine/processor.rs\<close>). The state that routing changes is the
  record \<open>router\<close>; the identifiers, times and file outcomes that the repository draws during
  the call are the argument \<open>draws\<close>, one for each connection.
\<close>

section \<open>Model\<close>

record work_item =
  wi_processor_id :: string
  wi_packet :: data_packet
  wi_connection :: "string option"
  wi_reservation :: "memory_reservation option"
  wi_queue_id :: "string option"

record processor_emission =
  em_processor_id :: string
  em_relationship :: string
  em_packet :: data_packet
  em_reservation :: memory_reservation

datatype route_outcome = OutRouted | OutQueueFull | OutMemoryFull flow_error

record router =
  ro_pending :: "work_item list"
  ro_limiter :: memory_limiter
  ro_shared :: nat
  ro_repository :: "packet_repository option"
  ro_emitted :: nat

record draw =
  dw_uuid :: string
  dw_now :: int
  dw_io :: "(string, unit) result"

definition connection_id :: "connection_config \<Rightarrow> string" where
  "connection_id c = cn_from c @ ''.'' @ cn_relationship c @ ''.'' @ cn_to c"

definition is_source_seed :: "work_item \<Rightarrow> bool" where
  "is_source_seed item \<longleftrightarrow> wi_connection item = None \<and> wi_queue_id item = None"

definition outgoing :: "connection_config list \<Rightarrow> string \<Rightarrow> string \<Rightarrow> connection_config list" where
  "outgoing cs processor_id relationship =
     filter (\<lambda>c. cn_from c = processor_id \<and> cn_relationship c = relationship) cs"

definition edge_size :: "work_item list \<Rightarrow> connection_config \<Rightarrow> nat" where
  "edge_size pending c = length (filter (\<lambda>item. wi_connection item = Some (connection_id c)) pending)"

definition queued_for :: "work_item list \<Rightarrow> string \<Rightarrow> nat" where
  "queued_for pending p = length (filter (\<lambda>item. wi_processor_id item = p) pending)"

definition active_of :: "nat hmap \<Rightarrow> string \<Rightarrow> nat" where
  "active_of active p = (case hm_get active p of None \<Rightarrow> 0 | Some n \<Rightarrow> n)"

text \<open>The check of one connection: its own capacity, then \<open>maximum_in_flight\<close> of its target.\<close>

definition connection_full ::
  "work_item list \<Rightarrow> processor_config hmap \<Rightarrow> nat hmap \<Rightarrow> connection_config list \<Rightarrow> connection_config \<Rightarrow> bool" where
  "connection_full pending definitions active next c \<longleftrightarrow>
     edge_size pending c \<ge> cn_queue_capacity c \<or>
     (case (case hm_get definitions (cn_to c) of None \<Rightarrow> None
            | Some d \<Rightarrow> sd_maximum_in_flight (pc_scheduling d)) of
        None \<Rightarrow> False
      | Some maximum \<Rightarrow>
          sat_add (sat_add (queued_for pending (cn_to c)) (active_of active (cn_to c)))
            (length (filter (\<lambda>candidate. cn_to candidate = cn_to c) next)) > maximum)"

text \<open>One reservation per branch; those already made are dropped when one fails.\<close>

fun reserve_branches ::
  "nat \<Rightarrow> nat \<Rightarrow> memory_limiter \<Rightarrow> nat \<Rightarrow>
   (flow_error, memory_reservation list) result \<times> memory_limiter \<times> nat" where
  "reserve_branches bytes 0 ml shared = (Inr [], ml, shared)"
| "reserve_branches bytes (Suc n) ml shared =
     (case try_reserve bytes ml shared of
        (Inl e, ml, shared) \<Rightarrow> (Inl e, ml, shared)
      | (Inr r, ml, shared) \<Rightarrow>
          (case reserve_branches bytes n ml shared of
             (Inl e, ml, shared) \<Rightarrow> (case release r ml shared of (ml, shared) \<Rightarrow> (Inl e, ml, shared))
           | (Inr rs, ml, shared) \<Rightarrow> (Inr (r # rs), ml, shared)))"

text \<open>The publication of the branches. When the repository fails, the reservations left are dropped.\<close>

definition branch_item ::
  "processor_emission \<Rightarrow> connection_config \<Rightarrow> memory_reservation \<Rightarrow> string option \<Rightarrow> work_item" where
  "branch_item emission c reservation queue_id =
     \<lparr> wi_processor_id = cn_to c, wi_packet = em_packet emission, wi_connection = Some (connection_id c),
       wi_reservation = Some reservation, wi_queue_id = queue_id \<rparr>"

definition drop_reservation :: "memory_reservation \<Rightarrow> router \<Rightarrow> router" where
  "drop_reservation r s =
     (case release r (ro_limiter s) (ro_shared s) of (ml, shared) \<Rightarrow> s\<lparr>ro_limiter := ml, ro_shared := shared\<rparr>)"

fun publish_branches ::
  "codec \<Rightarrow> (string \<Rightarrow> string) \<Rightarrow> string \<Rightarrow> processor_emission \<Rightarrow>
   (connection_config \<times> memory_reservation) list \<Rightarrow> draw list \<Rightarrow> router \<Rightarrow> (flow_error, unit) result \<times> router" where
  "publish_branches cd digest flow_id emission ((c, reservation) # branches) (d # draws) s =
     (case ro_repository s of
        None \<Rightarrow>
          publish_branches cd digest flow_id emission branches draws
            (s\<lparr>ro_pending := ro_pending s @ [branch_item emission c reservation None],
               ro_emitted := ro_emitted s + 1\<rparr>)
      | Some rp \<Rightarrow>
          (case enqueue cd digest (dw_io d) (dw_now d) (dw_uuid d) flow_id (cn_to c)
                  (em_relationship emission) (em_packet emission) rp of
             (Inl e, rp) \<Rightarrow>
               (Inl e, fold drop_reservation (reservation # map snd branches) (s\<lparr>ro_repository := Some rp\<rparr>))
           | (Inr queue_id, rp) \<Rightarrow>
               publish_branches cd digest flow_id emission branches draws
                 (s\<lparr>ro_repository := Some (record_event (dw_now d) queue_id Routed rp),
                    ro_pending := ro_pending s @ [branch_item emission c reservation (Some queue_id)],
                    ro_emitted := ro_emitted s + 1\<rparr>)))"
| "publish_branches cd digest flow_id emission _ _ s = (Inr (), s)"

definition route_emission ::
  "codec \<Rightarrow> (string \<Rightarrow> string) \<Rightarrow> string \<Rightarrow> connection_config list \<Rightarrow> nat \<Rightarrow> processor_config hmap \<Rightarrow> nat hmap \<Rightarrow>
   draw list \<Rightarrow> processor_emission \<Rightarrow> router \<Rightarrow> (flow_error, route_outcome) result \<times> router" where
  "route_emission cd digest flow_id connections global_capacity definitions active draws emission s =
     (let next = outgoing connections (em_processor_id emission) (em_relationship emission)
      in if next = [] then (Inr OutRouted, s)
         else if sat_add (length (filter (\<lambda>item. \<not> is_source_seed item) (ro_pending s))) (length next) > global_capacity
         then (Inr OutQueueFull, s)
         else if list_ex (connection_full (ro_pending s) definitions active next) next
         then (Inr OutQueueFull, s)
         else case reserve_branches (estimated_size cd (em_packet emission)) (length next) (ro_limiter s) (ro_shared s) of
           (Inl e, ml, shared) \<Rightarrow>
             (case e of MemoryCapacity _ \<Rightarrow> Inr (OutMemoryFull e) | _ \<Rightarrow> Inl e,
              s\<lparr>ro_limiter := ml, ro_shared := shared\<rparr>)
         | (Inr reservations, ml, shared) \<Rightarrow>
             (case publish_branches cd digest flow_id emission (zip next reservations) draws
                     (s\<lparr>ro_limiter := ml, ro_shared := shared\<rparr>) of
                (Inl e, s) \<Rightarrow> (Inl e, s)
              | (Inr _, s) \<Rightarrow> (Inr OutRouted, s)))"

text \<open>\<open>MemoryStall\<close> and what the loop does with the outcome; times are nanoseconds.\<close>

record memory_stall =
  ms_error :: flow_error
  ms_deadline :: nat

definition memory_stall_timeout :: nat where "memory_stall_timeout = 30 * 1000000000"

definition hold_unrouted ::
  "nat \<Rightarrow> route_outcome \<Rightarrow> processor_emission \<Rightarrow> processor_emission option \<times> memory_stall option \<Rightarrow>
   processor_emission option \<times> memory_stall option" where
  "hold_unrouted now outcome emission held =
     (case outcome of
        OutRouted \<Rightarrow> (fst held, None)
      | OutQueueFull \<Rightarrow> (Some emission, None)
      | OutMemoryFull error \<Rightarrow>
          (Some emission,
           case snd held of
             Some stall \<Rightarrow> Some stall
           | None \<Rightarrow> Some \<lparr> ms_error = error, ms_deadline = now + memory_stall_timeout \<rparr>))"

section \<open>Lemmas\<close>

text \<open>A failed attempt leaves the limiter as it was, but for the count of backpressure.\<close>

definition same_memory :: "memory_limiter \<Rightarrow> memory_limiter \<Rightarrow> bool" where
  "same_memory ml ml' \<longleftrightarrow> ml'\<lparr>ml_backpressure := ml_backpressure ml\<rparr> = ml"

lemma same_memory_iff:
  "same_memory ml ml' \<longleftrightarrow> ml_semaphore ml' = ml_semaphore ml \<and> ml_shared ml' = ml_shared ml \<and>
     ml_total_units ml' = ml_total_units ml \<and> ml_budget_bytes ml' = ml_budget_bytes ml \<and>
     ml_used_bytes ml' = ml_used_bytes ml"
  by (cases ml; cases ml') (auto simp: same_memory_def)

lemma try_reserve_shape:
  "try_reserve bytes ml shared = (Inr r, ml', shared') \<Longrightarrow>
   rv_units r \<le> ml_semaphore ml \<and> rv_shared r = ml_shared ml \<and> (ml_shared ml \<longrightarrow> rv_units r \<le> shared) \<and>
   shared' = (if ml_shared ml then shared - rv_units r else shared) \<and>
   ml' = ml\<lparr>ml_semaphore := ml_semaphore ml - rv_units r, ml_used_bytes := ml_used_bytes ml + rv_bytes r\<rparr>"
  by (auto simp: try_reserve_def memory_defs Let_def split: if_splits)

lemma reserve_branches_Inl:
  "reserve_branches bytes n ml shared = (Inl e, ml', shared') \<Longrightarrow> same_memory ml ml' \<and> shared' = shared"
proof (induction n arbitrary: ml shared ml' shared' e)
  case 0
  then show ?case by simp
next
  case (Suc n)
  obtain r ml1 shared1 where t: "try_reserve bytes ml shared = (r, ml1, shared1)" by (metis prod_cases3)
  show ?case
  proof (cases r)
    case (Inl e1)
    with Suc.prems t try_reserve_Inl [of bytes ml shared e1 ml1 shared1] show ?thesis
      by (auto simp: same_memory_iff note_backpressure_def)
  next
    case (Inr res)
    obtain r2 ml2 shared2 where b: "reserve_branches bytes n ml1 shared1 = (r2, ml2, shared2)" by (metis prod_cases3)
    with Suc.prems t Inr obtain e2 where "r2 = Inl e2" by (cases r2) auto
    with Suc.IH [of ml1 shared1 e2 ml2 shared2] b have "same_memory ml1 ml2" "shared2 = shared1" by auto
    moreover have "release res ml2 shared2 = (ml', shared')"
      using Suc.prems t Inr b \<open>r2 = Inl e2\<close> by (auto split: prod.splits)
    ultimately show ?thesis
      using try_reserve_shape [OF t [unfolded Inr]]
      by (auto simp: same_memory_iff release_def)
  qed
qed

lemma reserve_branches_length: "reserve_branches bytes n ml shared = (Inr rs, ml', shared') \<Longrightarrow> length rs = n"
  by (induction n arbitrary: ml shared ml' shared' rs) (auto split: prod.splits sum.splits)

text \<open>What a publication that succeeds appends.\<close>

definition branch_of :: "processor_emission \<Rightarrow> connection_config \<Rightarrow> work_item \<Rightarrow> bool" where
  "branch_of emission c item \<longleftrightarrow>
     wi_processor_id item = cn_to c \<and> wi_packet item = em_packet emission \<and>
     wi_connection item = Some (connection_id c) \<and> wi_reservation item \<noteq> None"

lemma branch_of_item [simp]:
  "branch_of emission c (branch_item emission c r q)" "wi_reservation (branch_item emission c r q) = Some r"
  by (simp_all add: branch_of_def branch_item_def)

lemma publish_branches_ok:
  assumes "publish_branches cd digest flow_id emission branches draws s = (Inr u, s')"
    and "length branches \<le> length draws"
  shows "\<exists>items. ro_pending s' = ro_pending s @ items \<and> list_all2 (branch_of emission) (map fst branches) items \<and>
    ro_emitted s' = ro_emitted s + length branches \<and> map wi_reservation items = map (Some \<circ> snd) branches \<and>
    ro_limiter s' = ro_limiter s \<and> ro_shared s' = ro_shared s"
  using assms
proof (induction cd digest flow_id emission branches draws s rule: publish_branches.induct)
  case (1 cd digest flow_id emission c reservation branches d draws s)
  show ?case
  proof (cases "ro_repository s")
    case None
    with 1(1) [OF None] 1(3,4) obtain items where
      "ro_pending s' = (ro_pending s @ [branch_item emission c reservation None]) @ items"
      "list_all2 (branch_of emission) (map fst branches) items"
      "ro_emitted s' = ro_emitted s + 1 + length branches" "map wi_reservation items = map (Some \<circ> snd) branches"
      "ro_limiter s' = ro_limiter s \<and> ro_shared s' = ro_shared s" by auto
    then show ?thesis
      by (intro exI [of _ "branch_item emission c reservation None # items"])
        auto
  next
    case (Some rp)
    obtain q rp1 where q: "enqueue cd digest (dw_io d) (dw_now d) (dw_uuid d) flow_id (cn_to c)
        (em_relationship emission) (em_packet emission) rp = (q, rp1)" by fastforce
    with Some 1(3) obtain queue_id where queue_id: "q = Inr queue_id" by (cases q) auto
    with 1(2) [OF Some q [symmetric], of queue_id] 1(3,4) Some q obtain items where
      "ro_pending s' = (ro_pending s @ [branch_item emission c reservation (Some queue_id)]) @ items"
      "list_all2 (branch_of emission) (map fst branches) items"
      "ro_emitted s' = ro_emitted s + 1 + length branches" "map wi_reservation items = map (Some \<circ> snd) branches"
      "ro_limiter s' = ro_limiter s \<and> ro_shared s' = ro_shared s" by auto
    then show ?thesis
      by (intro exI [of _ "branch_item emission c reservation (Some queue_id) # items"])
        auto
  qed
qed auto


lemma route_emission_cases:
  assumes "route_emission cd digest flow_id cs capacity definitions active draws emission s = (Inr outcome, s')"
    and "length (outgoing cs (em_processor_id emission) (em_relationship emission)) \<le> length draws"
  obtains (None) "outgoing cs (em_processor_id emission) (em_relationship emission) = []" "outcome = OutRouted" "s' = s"
  | (Full) "outcome = OutQueueFull" "s' = s"
  | (Memory) e where "outcome = OutMemoryFull e" "ro_pending s' = ro_pending s" "ro_repository s' = ro_repository s"
      "ro_emitted s' = ro_emitted s" "same_memory (ro_limiter s) (ro_limiter s')" "ro_shared s' = ro_shared s"
  | (Routed) items rs where "outcome = OutRouted" "ro_pending s' = ro_pending s @ items"
      "list_all2 (branch_of emission) (outgoing cs (em_processor_id emission) (em_relationship emission)) items"
      "ro_emitted s' = ro_emitted s + length items" "map wi_reservation items = map Some rs"
      "reserve_branches (estimated_size cd (em_packet emission)) (length items) (ro_limiter s) (ro_shared s) =
         (Inr rs, ro_limiter s', ro_shared s')"
      "sat_add (length (filter (\<lambda>item. \<not> is_source_seed item) (ro_pending s))) (length items) \<le> capacity"
      "list_all (\<lambda>c. \<not> connection_full (ro_pending s) definitions active
         (outgoing cs (em_processor_id emission) (em_relationship emission)) c)
         (outgoing cs (em_processor_id emission) (em_relationship emission))"
proof -
  let ?next = "outgoing cs (em_processor_id emission) (em_relationship emission)"
  let ?bytes = "estimated_size cd (em_packet emission)"
  consider (no) "?next = []"
    | (full) "?next \<noteq> []" "sat_add (length (filter (\<lambda>item. \<not> is_source_seed item) (ro_pending s))) (length ?next) > capacity \<or>
        list_ex (connection_full (ro_pending s) definitions active ?next) ?next"
    | (room) "?next \<noteq> []" "\<not> sat_add (length (filter (\<lambda>item. \<not> is_source_seed item) (ro_pending s))) (length ?next) > capacity"
        "\<not> list_ex (connection_full (ro_pending s) definitions active ?next) ?next" by blast
  then show thesis
  proof cases
    case no
    with assms(1) that(1) show thesis by (simp add: route_emission_def)
  next
    case full
    with assms(1) that(2) show thesis by (auto simp: route_emission_def Let_def split: if_splits)
  next
    case room
    obtain r ml shared where b: "reserve_branches ?bytes (length ?next) (ro_limiter s) (ro_shared s) = (r, ml, shared)"
      by (metis prod_cases3)
    show thesis
    proof (cases r)
      case (Inl e)
      with assms(1) room b have "outcome = OutMemoryFull e" "s' = s\<lparr>ro_limiter := ml, ro_shared := shared\<rparr>"
        by (auto simp: route_emission_def Let_def split: flow_error.splits)
      with reserve_branches_Inl [OF b [unfolded Inl]] that(3) show thesis by simp
    next
      case (Inr rs)
      let ?s = "s\<lparr>ro_limiter := ml, ro_shared := shared\<rparr>"
      have len: "length rs = length ?next" by (rule reserve_branches_length [OF b [unfolded Inr]])
      obtain u s1 where p: "publish_branches cd digest flow_id emission (zip ?next rs) draws ?s = (u, s1)" by fastforce
      with assms(1) room b Inr have out: "outcome = OutRouted" "s' = s1" and "\<exists>x. u = Inr x"
        by (auto simp: route_emission_def Let_def split: sum.splits)
      then obtain x where "u = Inr x" by blast
      with publish_branches_ok [of cd digest flow_id emission "zip ?next rs" draws ?s x s1] p assms(2) len
      obtain items where items: "ro_pending s1 = ro_pending s @ items" "list_all2 (branch_of emission) ?next items"
        "ro_emitted s1 = ro_emitted s + length ?next" "map wi_reservation items = map (Some \<circ> snd) (zip ?next rs)"
        "ro_limiter s1 = ml" "ro_shared s1 = shared" by auto
      have n: "length items = length ?next" using items(2) by (simp add: list_all2_lengthD)
      have "map wi_reservation items = map Some rs" using items(4) len by (metis map_map map_snd_zip)
      then show thesis
        using that(4) [OF out(1) _ items(2)] items out(2) room b Inr n
        by (simp add: list_ex_iff list_all_iff)
    qed
  qed
qed

section \<open>Bounds of the queues\<close>

definition limits_small :: "nat \<Rightarrow> processor_config hmap \<Rightarrow> bool" where
  "limits_small capacity definitions \<longleftrightarrow>
     capacity < u64_max \<and>
     (\<forall>p d m. hm_get definitions p = Some d \<longrightarrow> sd_maximum_in_flight (pc_scheduling d) = Some m \<longrightarrow> m < u64_max)"

definition queues_ok ::
  "connection_config list \<Rightarrow> nat \<Rightarrow> processor_config hmap \<Rightarrow> nat hmap \<Rightarrow> work_item list \<Rightarrow> bool" where
  "queues_ok cs capacity definitions active pending \<longleftrightarrow>
     length (filter (\<lambda>item. \<not> is_source_seed item) pending) \<le> capacity \<and>
     (\<forall>c \<in> set cs. edge_size pending c \<le> cn_queue_capacity c) \<and>
     (\<forall>p d m. hm_get definitions p = Some d \<longrightarrow> sd_maximum_in_flight (pc_scheduling d) = Some m \<longrightarrow>
        queued_for pending p + active_of active p \<le> m)"

lemma branches_edge:
  assumes "list_all2 (branch_of emission) next items"
  shows "edge_size items c = length (filter (\<lambda>x. connection_id x = connection_id c) next)"
    and "queued_for items p = length (filter (\<lambda>x. cn_to x = p) next)"
    and "filter (\<lambda>item. \<not> is_source_seed item) items = items"
  using assms
proof (induction rule: list_all2_induct)
  case (Cons x xs item items)
  { case 1 show ?case using Cons by (auto simp: edge_size_def branch_of_def) }
  { case 2 show ?case using Cons by (auto simp: queued_for_def branch_of_def) }
  { case 3 show ?case using Cons by (auto simp: is_source_seed_def branch_of_def) }
qed (simp_all add: edge_size_def queued_for_def)

lemma distinct_one:
  "distinct (map f xs) \<Longrightarrow> length (filter (\<lambda>x. f x = y) xs) \<le> 1"
  by (induction xs) (auto simp: filter_empty_conv image_iff)

lemma queues_append:
  "edge_size (xs @ ys) c = edge_size xs c + edge_size ys c"
  "queued_for (xs @ ys) p = queued_for xs p + queued_for ys p"
  by (simp_all add: edge_size_def queued_for_def)

lemma distinct_outgoing: "distinct (map connection_id cs) \<Longrightarrow> distinct (map connection_id (outgoing cs p r))"
  by (auto simp: outgoing_def distinct_map_filter)

lemma queues_ok_routed:
  assumes ok: "queues_ok cs capacity definitions active pending"
    and small: "limits_small capacity definitions"
    and dist: "distinct (map connection_id cs)"
    and branches: "list_all2 (branch_of emission) (outgoing cs p rel) items"
    and room: "sat_add (length (filter (\<lambda>item. \<not> is_source_seed item) pending)) (length items) \<le> capacity"
    and free: "list_all (\<lambda>c. \<not> connection_full pending definitions active (outgoing cs p rel) c) (outgoing cs p rel)"
  shows "queues_ok cs capacity definitions active (pending @ items)"
  unfolding queues_ok_def
proof (intro conjI ballI allI impI)
  show "length (filter (\<lambda>item. \<not> is_source_seed item) (pending @ items)) \<le> capacity"
    using room small branches_edge(3) [OF branches] by (simp add: limits_small_def sat_add_le_iff)
next
  fix c assume c: "c \<in> set cs"
  show "edge_size (pending @ items) c \<le> cn_queue_capacity c"
  proof (cases "edge_size items c = 0")
    case True
    with ok c show ?thesis by (simp add: queues_append queues_ok_def)
  next
    case False
    then obtain x where x: "x \<in> set (outgoing cs p rel)" "connection_id x = connection_id c"
      unfolding branches_edge(1) [OF branches] by (auto simp: filter_empty_conv)
    then have "x = c" using dist c by (auto simp: outgoing_def distinct_map inj_on_def)
    with x free have "edge_size pending c < cn_queue_capacity c"
      by (auto simp: list_all_iff connection_full_def not_le)
    moreover have "edge_size items c \<le> 1"
      unfolding branches_edge(1) [OF branches] by (rule distinct_one [OF distinct_outgoing [OF dist]])
    ultimately show ?thesis by (simp add: queues_append)
  qed
next
  fix q d m assume d: "hm_get definitions q = Some d" "sd_maximum_in_flight (pc_scheduling d) = Some m"
  show "queued_for (pending @ items) q + active_of active q \<le> m"
  proof (cases "queued_for items q = 0")
    case True
    with ok d show ?thesis by (simp add: queues_append queues_ok_def)
  next
    case False
    then obtain x where x: "x \<in> set (outgoing cs p rel)" "cn_to x = q"
      unfolding branches_edge(2) [OF branches] by (auto simp: filter_empty_conv)
    have "m < u64_max" using small d by (auto simp: limits_small_def)
    with x free d have "queued_for pending q + active_of active q + length (filter (\<lambda>c. cn_to c = q) (outgoing cs p rel)) \<le> m"
      by (auto simp: list_all_iff connection_full_def not_less sat_add_def min_def split: if_splits)
    then show ?thesis by (simp add: queues_append branches_edge(2) [OF branches])
  qed
qed


section \<open>Properties\<close>

text \<open>
  Routing is all or nothing. When a queue or the memory is full, the queues, the
  repository and the memory in use stay as they were; when the emission is routed, every
  connection of its relationship gets exactly one copy of the packet, in the order of the
  configuration, each with a reservation of its own.
\<close>

theorem route_all_or_nothing:
  assumes "route_emission cd digest flow_id cs capacity definitions active draws emission s = (Inr outcome, s')"
    and "length (outgoing cs (em_processor_id emission) (em_relationship emission)) \<le> length draws"
  shows "case outcome of
      OutRouted \<Rightarrow> \<exists>items. ro_pending s' = ro_pending s @ items \<and>
        list_all2 (branch_of emission) (outgoing cs (em_processor_id emission) (em_relationship emission)) items \<and>
        ro_emitted s' = ro_emitted s + length items
    | OutQueueFull \<Rightarrow> s' = s
    | OutMemoryFull e \<Rightarrow> ro_pending s' = ro_pending s \<and> ro_repository s' = ro_repository s \<and>
        ro_emitted s' = ro_emitted s \<and> same_memory (ro_limiter s) (ro_limiter s') \<and> ro_shared s' = ro_shared s"
  using assms
proof (cases rule: route_emission_cases)
  case None
  then show ?thesis by simp
next
  case (Routed items rs)
  then show ?thesis by auto
qed simp_all

text \<open>
  Routing keeps the bounds of the queues: the packets queued in the flow, on each
  connection, and queued or running for each processor with \<open>maximum_in_flight\<close> stay within
  their limits, when no two connections have the same source, relationship and target.
\<close>

theorem route_keeps_bounds:
  assumes "route_emission cd digest flow_id cs capacity definitions active draws emission s = (Inr outcome, s')"
    and "length (outgoing cs (em_processor_id emission) (em_relationship emission)) \<le> length draws"
    and "distinct (map connection_id cs)" "limits_small capacity definitions"
    and "queues_ok cs capacity definitions active (ro_pending s)"
  shows "queues_ok cs capacity definitions active (ro_pending s')"
  using assms(1,2)
proof (cases rule: route_emission_cases)
  case (Routed items rs)
  from queues_ok_routed [OF assms(5,4,3) Routed(3,7,8)] Routed(2) show ?thesis by simp
qed (use assms(5) in simp_all)

subsection \<open>An example\<close>

definition example_emission :: processor_emission where
  "example_emission = \<lparr> em_processor_id = ''a'', em_relationship = ''success'', em_packet = example_packet,
     em_reservation = \<lparr> rv_units = 1, rv_shared = True, rv_bytes = 200 \<rparr> \<rparr>"

definition example_limit :: "nat \<Rightarrow> memory_limiter" where
  "example_limit n = \<lparr> ml_semaphore = 15 - n, ml_shared = True, ml_total_units = 15, ml_budget_bytes = 1000000,
     ml_used_bytes = n * 138, ml_backpressure = 0 \<rparr>"

definition example_router :: router where
  "example_router = \<lparr> ro_pending = [], ro_limiter = example_limit 0, ro_shared = 15,
     ro_repository = None, ro_emitted = 0 \<rparr>"

definition example_draw :: draw where
  "example_draw = \<lparr> dw_uuid = ''u'', dw_now = 1, dw_io = Inr () \<rparr>"

definition example_edge :: connection_config where
  "example_edge = (example_connection ''a'' ''b'')\<lparr>cn_queue_capacity := 1\<rparr>"

lemma example_reserve:
  "n < 15 \<Longrightarrow> try_reserve 138 (example_limit n) (15 - n) =
     (Inr \<lparr> rv_units = 1, rv_shared = True, rv_bytes = 138 \<rparr>, example_limit (Suc n), 15 - Suc n)"
  by (simp add: try_reserve_def memory_defs example_limit_def unit_bytes_def div_ceil_def)

lemma example_branches:
  "reserve_branches 138 (Suc 0) (example_limit 0) 15 =
     (Inr [\<lparr> rv_units = 1, rv_shared = True, rv_bytes = 138 \<rparr>], example_limit 1, 14)"
  "reserve_branches 138 (Suc (Suc 0)) (example_limit 0) 15 =
     (Inr [\<lparr> rv_units = 1, rv_shared = True, rv_bytes = 138 \<rparr>, \<lparr> rv_units = 1, rv_shared = True, rv_bytes = 138 \<rparr>],
      example_limit 2, 13)"
  using example_reserve [of 0] example_reserve [of 1] by (simp_all add: numeral_2_eq_2)

lemma example_fields:
  "em_processor_id example_emission = ''a''" "em_relationship example_emission = ''success''"
  "em_packet example_emission = example_packet" "estimated_size example_codec example_packet = 138"
  by (simp_all add: estimated_size_def example_codec_def example_emission_def example_packet_def packet_empty_def
      sat_add_def u64_max_def Let_def)

lemma example_outgoing: "outgoing [example_edge] ''a'' ''success'' = [example_edge]"
  "outgoing [example_edge, example_edge] ''a'' ''success'' = [example_edge, example_edge]"
  by (simp_all add: outgoing_def example_edge_def example_connection_def)

lemma example_free: "\<not> connection_full [] [] [] next example_edge"
  by (simp add: connection_full_def edge_size_def example_edge_def)

definition example_item :: work_item where
  "example_item = branch_item example_emission example_edge \<lparr> rv_units = 1, rv_shared = True, rv_bytes = 138 \<rparr> None"

lemma example_routed:
  "route_emission example_codec (\<lambda>b. b) ''f'' [example_edge] 10 [] [] [example_draw] example_emission example_router =
     (Inr OutRouted, \<lparr> ro_pending = [example_item], ro_limiter = example_limit 1, ro_shared = 14,
       ro_repository = None, ro_emitted = 1 \<rparr>)"
  "route_emission example_codec (\<lambda>b. b) ''f'' [example_edge, example_edge] 10 [] [] [example_draw, example_draw]
     example_emission example_router =
     (Inr OutRouted, \<lparr> ro_pending = [example_item, example_item], ro_limiter = example_limit 2, ro_shared = 13,
       ro_repository = None, ro_emitted = 2 \<rparr>)"
  by (simp_all add: route_emission_def example_fields example_outgoing example_free example_branches example_router_def
      example_item_def sat_add_def u64_max_def del: reserve_branches.simps)

text \<open>
  The hypothesis on the connections is needed: a connection that is listed twice passes
  the check of its capacity once for both copies, and its queue of one packet gets two.
\<close>

theorem duplicate_connection_overfills:
  "\<exists>c s'. cn_queue_capacity c = 1 \<and>
     route_emission example_codec (\<lambda>b. b) ''f'' [c, c] 10 [] [] [example_draw, example_draw] example_emission example_router =
       (Inr OutRouted, s') \<and> edge_size (ro_pending s') c = 2"
proof (intro exI conjI)
  show "cn_queue_capacity example_edge = 1" by (simp add: example_edge_def)
  show "route_emission example_codec (\<lambda>b. b) ''f'' [example_edge, example_edge] 10 [] [] [example_draw, example_draw]
     example_emission example_router =
     (Inr OutRouted, \<lparr> ro_pending = [example_item, example_item], ro_limiter = example_limit 2, ro_shared = 13,
       ro_repository = None, ro_emitted = 2 \<rparr>)" by (rule example_routed(2))
  show "edge_size (ro_pending \<lparr> ro_pending = [example_item, example_item], ro_limiter = example_limit 2, ro_shared = 13,
       ro_repository = None, ro_emitted = 2 \<rparr>) example_edge = 2"
    by (simp add: edge_size_def example_item_def branch_item_def)
qed

subsection \<open>Witnesses\<close>

lemma route_all_or_nothing_witness:
  "\<exists>items. [example_item] = [] @ items \<and> list_all2 (branch_of example_emission) [example_edge] items"
  using route_all_or_nothing [OF example_routed(1)]
  by (simp add: example_fields example_outgoing example_router_def)

lemma route_keeps_bounds_witness: "queues_ok [example_edge] 10 [] [] [example_item]"
  using route_keeps_bounds [OF example_routed(1)]
  by (simp add: example_fields example_outgoing example_router_def limits_small_def queues_ok_def edge_size_def u64_max_def)

end
