(* ===== verification/Flow_Control.thy ===== *)
theory Flow_Control
  imports Flow_Error
begin

text \<open>
  Lifecycle of a flow: \<open>FlowControl\<close> (\<open>crates/jaiba-runtime/src/engine/control.rs\<close>) and the
  supervisor that owns the running task (\<open>engine/supervisor.rs\<close>). A supervisor call that
  awaits is split at its await points into steps; between them other calls and the task
  itself make steps. Task handles are positions in the list of tasks spawned so far.
\<close>

section \<open>Control\<close>

datatype flow_lifecycle = Stopped | Starting | Running | Paused | Draining | Failed

record flow_control =
  ctl_state :: flow_lifecycle
  ctl_last_error :: "string option"
  ctl_changed_at :: nat

definition control_default :: "nat \<Rightarrow> flow_control" where
  "control_default now = \<lparr> ctl_state = Stopped, ctl_last_error = None, ctl_changed_at = now \<rparr>"

definition transition :: "nat \<Rightarrow> flow_lifecycle \<Rightarrow> string option \<Rightarrow> flow_control \<Rightarrow> flow_control" where
  "transition now st error c =
     \<lparr> ctl_state = st,
       ctl_last_error = (if error \<noteq> None then error
                         else if st = Starting \<or> st = Running then None
                         else ctl_last_error c),
       ctl_changed_at = now \<rparr>"

definition ctl_starting :: "nat \<Rightarrow> flow_control \<Rightarrow> flow_control" where
  "ctl_starting now = transition now Starting None"

definition ctl_running :: "nat \<Rightarrow> flow_control \<Rightarrow> flow_control" where
  "ctl_running now = transition now Running None"

definition ctl_pause :: "nat \<Rightarrow> flow_control \<Rightarrow> bool \<times> flow_control" where
  "ctl_pause now c = (if ctl_state c = Running then (True, transition now Paused None c) else (False, c))"

definition ctl_resume :: "nat \<Rightarrow> flow_control \<Rightarrow> bool \<times> flow_control" where
  "ctl_resume now c = (if ctl_state c = Paused then (True, transition now Running None c) else (False, c))"

definition ctl_drain :: "nat \<Rightarrow> flow_control \<Rightarrow> bool \<times> flow_control" where
  "ctl_drain now c =
     (if ctl_state c \<in> {Running, Paused, Starting} then (True, transition now Draining None c) else (False, c))"

definition ctl_stopped :: "nat \<Rightarrow> flow_control \<Rightarrow> flow_control" where
  "ctl_stopped now = transition now Stopped None"

definition ctl_failed :: "nat \<Rightarrow> string \<Rightarrow> flow_control \<Rightarrow> flow_control" where
  "ctl_failed now error = transition now Failed (Some error)"

section \<open>Supervisor\<close>

text \<open>
  What the spawned task (\<open>run_started\<close>) has done so far. \<open>Ending\<close>: \<open>run_inner\<close> has returned before its
  loop, so the ready signal is dropped, and \<open>run_started\<close> has yet to write the outcome and to end.
\<close>

datatype run_phase =
    Spawned
  | Initialising
  | Ending
  | InLoop
  | Finished "flow_error option"
  | Aborted

fun is_finished :: "run_phase \<Rightarrow> bool" where
  "is_finished (Finished _) = True"
| "is_finished Aborted = True"
| "is_finished _ = False"

text \<open>
  \<open>sv_task\<close> is the slot under the task lock. The other two lists hold the handles that a call has
  taken out of the slot and awaits: \<open>sv_stopping\<close> by a \<open>stop_gracefully\<close>, \<open>sv_joining\<close> by a \<open>start\<close>
  whose task ended before it was ready.
\<close>

record supervisor =
  sv_control :: flow_control
  sv_status :: nat
  sv_task :: "nat option"
  sv_tasks :: "run_phase list"
  sv_stopping :: "nat list"
  sv_joining :: "nat list"

definition supervisor_new :: "nat \<Rightarrow> supervisor" where
  "supervisor_new now =
     \<lparr> sv_control = control_default now, sv_status = 0, sv_task = None, sv_tasks = [], sv_stopping = [],
       sv_joining = [] \<rparr>"

datatype start_outcome = AlreadyRunning | StartFailed flow_error | StartedTask nat

text \<open>
  \<open>start\<close> under the task lock; \<open>engine\<close> is the result of \<open>FlowEngine::new\<close>. A finished task
  is taken out of the slot before the engine is made.
\<close>

definition sv_start :: "nat \<Rightarrow> (flow_error, unit) result \<Rightarrow> supervisor \<Rightarrow> start_outcome \<times> supervisor" where
  "sv_start now engine sv =
     (if (case sv_task sv of None \<Rightarrow> False | Some i \<Rightarrow> \<not> is_finished (sv_tasks sv ! i))
      then (AlreadyRunning, sv)
      else (let sv = sv\<lparr>sv_task := None\<rparr>
            in case engine of
                 Inl e \<Rightarrow> (StartFailed e, sv)
               | Inr _ \<Rightarrow>
                   (StartedTask (length (sv_tasks sv)),
                    sv\<lparr>sv_control := ctl_starting now (sv_control sv), sv_status := 1,
                       sv_task := Some (length (sv_tasks sv)),
                       sv_tasks := sv_tasks sv @ [Spawned]\<rparr>)))"

text \<open>
  The rest of \<open>start\<close> when the task dropped the ready signal. Under the lock it takes the handle,
  if the slot still holds that of its task; it then awaits the task without the lock, and returns
  the task's error.
\<close>

definition sv_start_take :: "nat \<Rightarrow> supervisor \<Rightarrow> (flow_error, nat) result \<times> supervisor" where
  "sv_start_take i sv =
     (if sv_task sv = Some i
      then (Inr i, sv\<lparr>sv_task := None, sv_joining := i # sv_joining sv\<rparr>)
      else (Inl (ServerError ''flow stopped before initialization completed''), sv))"

definition sv_start_join :: "nat \<Rightarrow> supervisor \<Rightarrow> flow_error \<times> supervisor" where
  "sv_start_join i sv =
     (case sv_tasks sv ! i of
        Finished (Some e) \<Rightarrow> e
      | _ \<Rightarrow> ServerError ''flow terminated before initialization completed'',
      sv\<lparr>sv_joining := remove1 i (sv_joining sv)\<rparr>)"

text \<open>Both, when nothing comes between them.\<close>

definition sv_start_lost :: "nat \<Rightarrow> supervisor \<Rightarrow> flow_error \<times> supervisor" where
  "sv_start_lost i sv =
     (case sv_start_take i sv of
        (Inl e, sv) \<Rightarrow> (e, sv)
      | (Inr j, sv) \<Rightarrow> sv_start_join j sv)"

definition sv_pause :: "nat \<Rightarrow> supervisor \<Rightarrow> bool \<times> supervisor" where
  "sv_pause now sv =
     (case ctl_pause now (sv_control sv) of (changed, c) \<Rightarrow>
        (changed, sv\<lparr>sv_control := c, sv_status := (if changed then 3 else sv_status sv)\<rparr>))"

definition sv_resume :: "nat \<Rightarrow> supervisor \<Rightarrow> bool \<times> supervisor" where
  "sv_resume now sv =
     (case ctl_resume now (sv_control sv) of (changed, c) \<Rightarrow>
        (changed, sv\<lparr>sv_control := c, sv_status := (if changed then 2 else sv_status sv)\<rparr>))"

definition sv_drain :: "nat \<Rightarrow> supervisor \<Rightarrow> bool \<times> supervisor" where
  "sv_drain now sv =
     (case ctl_drain now (sv_control sv) of (changed, c) \<Rightarrow>
        (changed, sv\<lparr>sv_control := c, sv_status := (if changed then 4 else sv_status sv)\<rparr>))"

text \<open>
  The first part of \<open>stop_gracefully\<close>: drain, then take the handle out of the slot under the lock,
  which may have to be waited for.
\<close>

definition sv_stop_take :: "nat \<Rightarrow> supervisor \<Rightarrow> nat option \<times> supervisor" where
  "sv_stop_take now sv =
     (case sv_task sv of
        None \<Rightarrow> (None, sv\<lparr>sv_control := ctl_stopped now (sv_control sv), sv_status := 0\<rparr>)
      | Some i \<Rightarrow> (Some i, sv\<lparr>sv_task := None, sv_stopping := i # sv_stopping sv\<rparr>))"

definition sv_stop_begin :: "nat \<Rightarrow> supervisor \<Rightarrow> nat option \<times> supervisor" where
  "sv_stop_begin now sv = sv_stop_take now (snd (sv_drain now sv))"

text \<open>The task ended in time: \<open>stop_gracefully\<close> returns its result.\<close>

definition sv_stop_joined :: "nat \<Rightarrow> supervisor \<Rightarrow> (flow_error, unit) result \<times> supervisor" where
  "sv_stop_joined i sv =
     (case sv_tasks sv ! i of Finished (Some e) \<Rightarrow> Inl e | _ \<Rightarrow> Inr (),
      sv\<lparr>sv_stopping := remove1 i (sv_stopping sv)\<rparr>)"

text \<open>The drain timed out: abort the task, or put the handle back.\<close>

definition sv_stop_timeout :: "nat \<Rightarrow> bool \<Rightarrow> nat \<Rightarrow> supervisor \<Rightarrow> (flow_error, unit) result \<times> supervisor" where
  "sv_stop_timeout now force_after_timeout i sv =
     (if force_after_timeout
      then (Inr (),
        sv\<lparr>sv_stopping := remove1 i (sv_stopping sv),
           sv_tasks := (if is_finished (sv_tasks sv ! i) then sv_tasks sv else (sv_tasks sv)[i := Aborted]),
           sv_control := ctl_stopped now (sv_control sv), sv_status := 0\<rparr>)
      else (Inl (ServerError ''flow drain timed out and force_after_timeout is false''),
        sv\<lparr>sv_stopping := remove1 i (sv_stopping sv), sv_task := Some i\<rparr>))"

text \<open>The task: \<open>run_started\<close> begins, \<open>run_inner\<close> enters its loop, the run ends.\<close>

definition run_begin :: "nat \<Rightarrow> nat \<Rightarrow> supervisor \<Rightarrow> supervisor" where
  "run_begin now i sv =
     sv\<lparr>sv_tasks := (sv_tasks sv)[i := Initialising], sv_status := 1,
        sv_control := ctl_starting now (sv_control sv)\<rparr>"

definition run_ready :: "nat \<Rightarrow> nat \<Rightarrow> supervisor \<Rightarrow> supervisor" where
  "run_ready now i sv =
     sv\<lparr>sv_tasks := (sv_tasks sv)[i := InLoop], sv_status := 2,
        sv_control := ctl_running now (sv_control sv)\<rparr>"

definition run_dropped :: "nat \<Rightarrow> supervisor \<Rightarrow> supervisor" where
  "run_dropped i sv = sv\<lparr>sv_tasks := (sv_tasks sv)[i := Ending]\<rparr>"

text \<open>\<open>display\<close> is \<open>Display\<close> of the error.\<close>

definition run_end :: "(flow_error \<Rightarrow> string) \<Rightarrow> nat \<Rightarrow> nat \<Rightarrow> flow_error option \<Rightarrow> supervisor \<Rightarrow> supervisor" where
  "run_end display now i error sv =
     (case error of
        None \<Rightarrow> sv\<lparr>sv_tasks := (sv_tasks sv)[i := Finished None], sv_status := 0,
                   sv_control := ctl_stopped now (sv_control sv)\<rparr>
      | Some e \<Rightarrow> sv\<lparr>sv_tasks := (sv_tasks sv)[i := Finished (Some e)], sv_status := 5,
                   sv_control := ctl_failed now (display e) (sv_control sv)\<rparr>)"

section \<open>Steps\<close>

text \<open>
  All interleavings of supervisor calls and task steps; a call that awaits is split where it
  does. With \<open>serial\<close> a flow is started only while no \<open>stop_gracefully\<close> and no failed \<open>start\<close> is
  waiting for the task it took.
\<close>

inductive sv_step :: "bool \<Rightarrow> supervisor \<Rightarrow> supervisor \<Rightarrow> bool" for serial where
  start: "\<lbrakk> serial \<longrightarrow> sv_stopping sv = [] \<and> sv_joining sv = [] \<rbrakk> \<Longrightarrow>
    sv_step serial sv (snd (sv_start now engine sv))"
| start_take: "\<lbrakk> i < length (sv_tasks sv); sv_tasks sv ! i = Ending \<or> is_finished (sv_tasks sv ! i) \<rbrakk> \<Longrightarrow>
    sv_step serial sv (snd (sv_start_take i sv))"
| start_join: "\<lbrakk> i \<in> set (sv_joining sv); is_finished (sv_tasks sv ! i) \<rbrakk> \<Longrightarrow>
    sv_step serial sv (snd (sv_start_join i sv))"
| pause: "sv_step serial sv (snd (sv_pause now sv))"
| resume: "sv_step serial sv (snd (sv_resume now sv))"
| drain: "sv_step serial sv (snd (sv_drain now sv))"
| stop_take: "sv_step serial sv (snd (sv_stop_take now sv))"
| stop_joined: "\<lbrakk> i \<in> set (sv_stopping sv); is_finished (sv_tasks sv ! i) \<rbrakk> \<Longrightarrow>
    sv_step serial sv (snd (sv_stop_joined i sv))"
| stop_timeout: "\<lbrakk> i \<in> set (sv_stopping sv) \<rbrakk> \<Longrightarrow>
    sv_step serial sv (snd (sv_stop_timeout now force i sv))"
| run_begin: "\<lbrakk> i < length (sv_tasks sv); sv_tasks sv ! i = Spawned \<rbrakk> \<Longrightarrow> sv_step serial sv (run_begin now i sv)"
| run_ready: "\<lbrakk> i < length (sv_tasks sv); sv_tasks sv ! i = Initialising \<rbrakk> \<Longrightarrow> sv_step serial sv (run_ready now i sv)"
| run_dropped: "\<lbrakk> i < length (sv_tasks sv); sv_tasks sv ! i = Initialising \<rbrakk> \<Longrightarrow> sv_step serial sv (run_dropped i sv)"
| run_end: "\<lbrakk> i < length (sv_tasks sv); sv_tasks sv ! i \<in> {Ending, InLoop} \<rbrakk> \<Longrightarrow>
    sv_step serial sv (run_end display now i error sv)"

inductive_cases sv_stepE: "sv_step serial sv sv'"

inductive sv_reachable :: "bool \<Rightarrow> supervisor \<Rightarrow> bool" for serial where
  init: "sv_reachable serial (supervisor_new now)"
| step: "sv_reachable serial sv \<Longrightarrow> sv_step serial sv sv' \<Longrightarrow> sv_reachable serial sv'"

definition live :: "supervisor \<Rightarrow> nat set" where
  "live sv = {i. i < length (sv_tasks sv) \<and> \<not> is_finished (sv_tasks sv ! i)}"

section \<open>Lemmas\<close>

text \<open>Every live task is owned: by the slot, or by the one call that waits for it.\<close>

definition sv_owned :: "supervisor \<Rightarrow> nat set" where
  "sv_owned sv = set_option (sv_task sv) \<union> set (sv_stopping sv) \<union> set (sv_joining sv)"

definition sv_inv :: "supervisor \<Rightarrow> bool" where
  "sv_inv sv \<longleftrightarrow>
     live sv \<subseteq> sv_owned sv \<and> sv_owned sv \<subseteq> {..<length (sv_tasks sv)} \<and>
     length (sv_stopping sv) + length (sv_joining sv) \<le> 1 \<and>
     (sv_stopping sv \<noteq> [] \<or> sv_joining sv \<noteq> [] \<longrightarrow> sv_task sv = None)"

lemma sv_inv_cong:
  assumes "sv_inv sv" "sv_task sv' = sv_task sv" "sv_stopping sv' = sv_stopping sv" "sv_joining sv' = sv_joining sv"
    "length (sv_tasks sv') = length (sv_tasks sv)" "live sv' \<subseteq> live sv"
  shows "sv_inv sv'"
  using assms unfolding sv_inv_def sv_owned_def by auto

lemma live_update: "\<lbrakk> i < length (sv_tasks sv); \<not> is_finished (sv_tasks sv ! i) \<rbrakk> \<Longrightarrow>
    live (sv\<lparr>sv_tasks := (sv_tasks sv)[i := p]\<rparr>) \<subseteq> live sv"
  by (auto simp: live_def nth_list_update split: if_splits)

lemma live_cong: "sv_tasks sv' = sv_tasks sv \<Longrightarrow> live sv' = live sv"
  by (simp add: live_def)

lemma sv_inv_step:
  assumes "sv_step True sv sv'" "sv_inv sv"
  shows "sv_inv sv'"
  using assms
proof (induction rule: sv_step.induct)
  case (start sv now engine)
  then have stopping: "sv_stopping sv = []" "sv_joining sv = []" by simp_all
  show ?case
  proof (cases "\<exists>i. sv_task sv = Some i \<and> \<not> is_finished (sv_tasks sv ! i)")
    case True
    with start show ?thesis by (auto simp: sv_start_def)
  next
    case False
    then have dead: "live sv = {}" using start stopping by (auto simp: sv_inv_def sv_owned_def live_def split: option.splits)
    have "live (sv\<lparr>sv_task := t, sv_tasks := sv_tasks sv @ [Spawned], sv_control := c, sv_status := n\<rparr>) \<subseteq> {length (sv_tasks sv)}" for t c n
      using dead by (auto simp: live_def nth_append split: if_splits)
    with dead False stopping show ?thesis
      by (auto simp: sv_start_def Let_def sv_inv_def sv_owned_def live_def nth_append split: option.splits sum.splits if_splits)
  qed
next
  case (start_take i sv)
  then show ?case by (auto simp: sv_start_take_def sv_inv_def sv_owned_def live_def)
next
  case (start_join i sv)
  then show ?case
    by (cases "sv_joining sv") (auto simp: sv_start_join_def sv_inv_def sv_owned_def live_def)
next
  case (stop_take sv now)
  then show ?case
    by (cases "sv_task sv") (auto simp: sv_stop_take_def sv_inv_def sv_owned_def live_def)
next
  case (stop_joined i sv)
  then show ?case
    by (cases "sv_stopping sv") (auto simp: sv_stop_joined_def sv_inv_def sv_owned_def live_def)
next
  case (stop_timeout i sv now force)
  then show ?case
    by (cases "sv_stopping sv")
      (auto simp: sv_stop_timeout_def sv_inv_def sv_owned_def live_def nth_list_update split: if_splits)
next
  case (run_begin i sv now)
  then show ?case
    by (intro sv_inv_cong [OF run_begin.prems]) (auto simp: run_begin_def live_def nth_list_update split: if_splits)
next
  case (run_ready i sv now)
  then show ?case
    by (intro sv_inv_cong [OF run_ready.prems]) (auto simp: run_ready_def live_def nth_list_update split: if_splits)
next
  case (run_dropped i sv)
  then show ?case
    by (intro sv_inv_cong [OF run_dropped.prems]) (auto simp: run_dropped_def live_def nth_list_update split: if_splits)
next
  case (run_end i sv display now error)
  then show ?case
    by (intro sv_inv_cong [OF run_end.prems])
      (auto simp: run_end_def live_def nth_list_update split: if_splits option.splits)
qed (auto simp: sv_pause_def sv_resume_def sv_drain_def sv_inv_def sv_owned_def live_def split: prod.splits)

lemma sv_inv_reachable: "sv_reachable True sv \<Longrightarrow> sv_inv sv"
proof (induction rule: sv_reachable.induct)
  case (init now)
  then show ?case by (simp add: supervisor_new_def sv_inv_def sv_owned_def live_def)
next
  case (step sv sv')
  then show ?case using sv_inv_step by blast
qed


lemma sv_reachable_step: "sv_reachable serial sv \<Longrightarrow> sv_step serial sv sv1 \<Longrightarrow> sv1 = sv' \<Longrightarrow> sv_reachable serial sv'"
  using sv_reachable.step by blast

text \<open>A started flow whose task is in its loop.\<close>

definition example_running :: supervisor where
  "example_running =
     \<lparr> sv_control = \<lparr> ctl_state = Running, ctl_last_error = None, ctl_changed_at = 3 \<rparr>, sv_status = 2,
       sv_task = Some 0, sv_tasks = [InLoop], sv_stopping = [], sv_joining = [] \<rparr>"

definition example_initialising :: supervisor where
  "example_initialising =
     \<lparr> sv_control = \<lparr> ctl_state = Starting, ctl_last_error = None, ctl_changed_at = 2 \<rparr>, sv_status = 1,
       sv_task = Some 0, sv_tasks = [Initialising], sv_stopping = [], sv_joining = [] \<rparr>"

lemmas control_defs = transition_def ctl_starting_def ctl_running_def ctl_stopped_def ctl_failed_def
  ctl_drain_def ctl_pause_def ctl_resume_def

lemma example_initialising_reachable: "sv_reachable serial example_initialising"
proof -
  have "sv_reachable serial (snd (sv_start 1 (Inr ()) (supervisor_new 0)))"
    by (intro sv_reachable.step [OF sv_reachable.init [of serial 0]] sv_step.start) (simp add: supervisor_new_def)
  from sv_reachable_step [OF this sv_step.run_begin [of 0 _ serial 2]] show ?thesis
    by (simp add: sv_start_def supervisor_new_def run_begin_def control_default_def control_defs
        example_initialising_def)
qed

lemma example_running_reachable: "sv_reachable serial example_running"
  using sv_reachable_step [OF example_initialising_reachable sv_step.run_ready [of 0 _ serial 3]]
  by (simp add: example_initialising_def example_running_def run_ready_def control_defs)

section \<open>Properties\<close>

text \<open>
  C4. Supervisor calls and the steps of the flow's tasks interleave freely, each call split where
  it awaits, except that a flow is not started while a \<open>stop_gracefully\<close>, or a \<open>start\<close> whose task
  ended before it was ready, still awaits the task it took, and no call is abandoned while it awaits
  (that would let go of the handle). Then at most one task of the flow is alive, and its handle is in the supervisor's slot or in the hands of the one call that awaits it.
  The two theorems after it show what happens without that exception.
\<close>

theorem one_live_task:
  assumes "sv_reachable True sv"
  shows "card (live sv) \<le> 1 \<and> live sv \<subseteq> sv_owned sv \<and> length (sv_stopping sv) + length (sv_joining sv) \<le> 1"
proof -
  from sv_inv_reachable [OF assms] have inv: "sv_inv sv" .
  then have "card (sv_owned sv) \<le> 1"
    unfolding sv_owned_def by (cases "sv_task sv"; cases "sv_stopping sv"; cases "sv_joining sv") (auto simp: sv_inv_def)
  moreover have "card (live sv) \<le> card (sv_owned sv)"
    using inv by (intro card_mono) (auto simp: sv_inv_def sv_owned_def)
  ultimately show ?thesis using inv by (auto simp: sv_inv_def)
qed

text \<open>
  A \<open>start\<close> during a \<open>stop_gracefully\<close> that still waits for the old task finds the slot
  empty and spawns a second task: two runs of the flow are alive, and the state that the old
  one watches is no longer \<open>Draining\<close>.
\<close>

theorem start_during_stop_runs_twice:
  "\<exists>sv. sv_reachable False sv \<and> live sv = {0, 1} \<and> ctl_state (sv_control sv) = Starting"
proof -
  let ?stop = "snd (sv_stop_take 4 (snd (sv_drain 4 example_running)))" and ?engine = "Inr () :: (flow_error, unit) result"
  let ?sv = "snd (sv_start 5 ?engine ?stop)"
  have "sv_reachable False ?stop"
    by (rule sv_reachable.step [OF sv_reachable.step [OF example_running_reachable sv_step.drain] sv_step.stop_take])
  then have "sv_reachable False ?sv"
    by (rule sv_reachable.step) (rule sv_step.start, simp)
  moreover have "sv_tasks ?sv = [InLoop, Spawned]" "ctl_state (sv_control ?sv) = Starting"
    by (simp_all add: sv_stop_take_def sv_drain_def sv_start_def example_running_def control_defs)
  then have "live ?sv = {0, 1} \<and> ctl_state (sv_control ?sv) = Starting"
    by (auto simp: live_def less_Suc_eq)
  ultimately show ?thesis by blast
qed

text \<open>
  So does a \<open>start\<close> while an earlier one, whose task ended before it was ready, awaits that task:
  two tasks are alive, and the first one, ending, then sets the state of the flow to \<open>Failed\<close>
  while the second is about to run.
\<close>

theorem start_during_failed_start:
  "\<exists>sv sv'. sv_reachable False sv \<and> live sv = {0, 1} \<and>
     sv_step False sv sv' \<and> live sv' = {1} \<and> ctl_state (sv_control sv') = Failed"
proof -
  let ?take = "snd (sv_start_take 0 (run_dropped 0 example_initialising))" and ?engine = "Inr () :: (flow_error, unit) result"
  let ?sv = "snd (sv_start 5 ?engine ?take)" and ?e = "Some (ServerError ''no database'')"
  let ?sv' = "run_end (\<lambda>_. ''no database'') 6 0 ?e ?sv"
  have "sv_reachable False (run_dropped 0 example_initialising)"
    by (rule sv_reachable.step [OF example_initialising_reachable sv_step.run_dropped]) (simp_all add: example_initialising_def)
  then have "sv_reachable False ?take"
    by (rule sv_reachable.step) (rule sv_step.start_take, simp_all add: example_initialising_def run_dropped_def)
  then have "sv_reachable False ?sv"
    by (rule sv_reachable.step) (rule sv_step.start, simp)
  moreover have tasks: "sv_tasks ?sv = [Ending, Spawned]"
    by (simp add: sv_start_take_def run_dropped_def sv_start_def example_initialising_def control_defs)
  then have "live ?sv = {0, 1}" by (auto simp: live_def less_Suc_eq)
  moreover have "sv_step False ?sv ?sv'" by (rule sv_step.run_end) (use tasks in simp_all)
  moreover have "sv_tasks ?sv' = [Finished ?e, Spawned]" "ctl_state (sv_control ?sv') = Failed"
    by (simp_all add: run_end_def tasks control_defs)
  then have "live ?sv' = {1} \<and> ctl_state (sv_control ?sv') = Failed"
    by (auto simp: live_def less_Suc_eq)
  ultimately show ?thesis by blast
qed

text \<open>
  A drain that is accepted while the flow initialises is lost: the step in which the task
  enters its loop sets the state to \<open>Running\<close> again.
\<close>

theorem drain_while_starting_lost:
  assumes "i < length (sv_tasks sv)" "sv_tasks sv ! i = Initialising" "ctl_state (sv_control sv) = Starting"
  shows "fst (sv_drain now sv) \<and> ctl_state (sv_control (snd (sv_drain now sv))) = Draining \<and>
    sv_step serial (snd (sv_drain now sv)) (run_ready later i (snd (sv_drain now sv))) \<and>
    ctl_state (sv_control (run_ready later i (snd (sv_drain now sv)))) = Running"
proof -
  have "sv_tasks (snd (sv_drain now sv)) = sv_tasks sv" by (simp add: sv_drain_def split: prod.splits)
  with assms have "sv_step serial (snd (sv_drain now sv)) (run_ready later i (snd (sv_drain now sv)))"
    by (intro sv_step.run_ready) simp_all
  with assms show ?thesis by (simp add: sv_drain_def run_ready_def control_defs)
qed

lemma one_live_task_witness: "card (live example_running) \<le> 1"
  using one_live_task [OF example_running_reachable] by simp

lemma drain_while_starting_lost_witness:
  "ctl_state (sv_control (run_ready 6 0 (snd (sv_drain 5 example_initialising)))) = Running"
  using drain_while_starting_lost [of 0 example_initialising 5 False 6] by (simp add: example_initialising_def)

end
