(* ===== verification/Flow_Scheduler.thy ===== *)
theory Flow_Scheduler
  imports Flow_Router Flow_Control
begin

text \<open>
  The choice of the work that starts in a round of the run loop
  (\<open>crates/jaiba-runtime/src/engine/executor/scheduler.rs\<close>). The tables that do not change
  during a run are the record \<open>schedule_env\<close>; \<open>unread\<close> is the number of emissions in the
  channel. A panic of an \<open>expect\<close> is \<open>None\<close>.
\<close>

section \<open>Model\<close>

record running_task =
  tk_processor_id :: string
  tk_packet :: data_packet
  tk_reservation :: "memory_reservation option"
  tk_partition_key :: "string option"
  tk_queue_id :: "string option"

record schedule_env =
  se_codec :: codec
  se_definitions :: "processor_config hmap"
  se_depths :: "nat hmap"
  se_limit :: nat
  se_queue_capacity :: nat

record schedule_state =
  sl_pending :: "work_item list"
  sl_running :: "running_task list"
  sl_active :: "nat hmap"
  sl_partitions :: "string list hmap"
  sl_repository :: "packet_repository option"

datatype decision = Wait | Start "string option" | Reject flow_error

definition processor_limit :: "processor_config \<Rightarrow> nat" where
  "processor_limit d =
     (case sd_ordering (pc_scheduling d) of
        Preserve \<Rightarrow> 1
      | _ \<Rightarrow> sd_concurrent_tasks (pc_scheduling d))"

definition depth_of :: "schedule_env \<Rightarrow> string \<Rightarrow> nat" where
  "depth_of env p = (case hm_get (se_depths env) p of None \<Rightarrow> 0 | Some d \<Rightarrow> d)"

definition partitions_of :: "string list hmap \<Rightarrow> string \<Rightarrow> string list" where
  "partitions_of m p = (case hm_get m p of None \<Rightarrow> [] | Some ks \<Rightarrow> ks)"

text \<open>The partition key of an item: \<open>None\<close> is the panic on a missing selector.\<close>

definition item_key :: "schedule_env \<Rightarrow> processor_config \<Rightarrow> work_item \<Rightarrow> (flow_error, string option) result option" where
  "item_key env d item =
     (if sd_ordering (pc_scheduling d) = Partitioned
      then case sd_partition_by (pc_scheduling d) of
             None \<Rightarrow> None
           | Some selector \<Rightarrow>
               (case packet_partition_key (se_codec env) (wi_packet item) selector (wi_processor_id item) of
                  Inl e \<Rightarrow> Some (Inl e)
                | Inr key \<Rightarrow> Some (Inr (Some key)))
      else Some (Inr None))"

text \<open>Everything that is checked before an item is claimed.\<close>

definition decide ::
  "schedule_env \<Rightarrow> nat \<Rightarrow> running_task list \<Rightarrow> nat hmap \<Rightarrow> string list hmap \<Rightarrow> work_item \<Rightarrow> decision option" where
  "decide env routed_backlog running active partitions item =
     (if is_source_seed item \<and> sat_add routed_backlog (length running) \<ge> se_queue_capacity env
      then Some Wait
      else case hm_get (se_definitions env) (wi_processor_id item) of
        None \<Rightarrow> None
      | Some d \<Rightarrow>
          if sat_add (sat_add (length running) 1) (depth_of env (wi_processor_id item)) > se_limit env
          then Some Wait
          else if active_of active (wi_processor_id item) \<ge> processor_limit d
          then Some Wait
          else case item_key env d item of
            None \<Rightarrow> None
          | Some (Inl e) \<Rightarrow> Some (Reject e)
          | Some (Inr None) \<Rightarrow> Some (Start None)
          | Some (Inr (Some key)) \<Rightarrow>
              if key \<in> set (partitions_of partitions (wi_processor_id item))
              then Some Wait else Some (Start (Some key)))"

definition task_of :: "work_item \<Rightarrow> string option \<Rightarrow> running_task" where
  "task_of item key =
     \<lparr> tk_processor_id = wi_processor_id item, tk_packet = wi_packet item,
       tk_reservation = wi_reservation item, tk_partition_key = key, tk_queue_id = wi_queue_id item \<rparr>"

definition start_task :: "work_item \<Rightarrow> string option \<Rightarrow> schedule_state \<Rightarrow> schedule_state" where
  "start_task item key s =
     s\<lparr>sl_active := hm_insert (wi_processor_id item) (active_of (sl_active s) (wi_processor_id item) + 1) (sl_active s),
       sl_partitions :=
         (case key of
            None \<Rightarrow> sl_partitions s
          | Some k \<Rightarrow> hm_insert (wi_processor_id item)
              (List.insert k (partitions_of (sl_partitions s) (wi_processor_id item))) (sl_partitions s)),
       sl_running := sl_running s @ [task_of item key]\<rparr>"

text \<open>The claim in the repository, when the item has a queue row.\<close>

definition claim_item :: "int \<Rightarrow> work_item \<Rightarrow> packet_repository option \<Rightarrow> bool \<times> packet_repository option" where
  "claim_item now item repository =
     (case (repository, wi_queue_id item) of
        (Some rp, Some queue_id) \<Rightarrow> (case claim now queue_id rp of (won, rp) \<Rightarrow> (won, Some rp))
      | _ \<Rightarrow> (True, repository))"

function schedule_loop ::
  "schedule_env \<Rightarrow> int \<Rightarrow> nat \<Rightarrow> nat \<Rightarrow> schedule_state \<Rightarrow> ((flow_error, unit) result \<times> schedule_state) option" where
  "schedule_loop env now routed_backlog inspected s =
     (if length (sl_running s) < se_limit env \<and> inspected < length (sl_pending s)
      then case sl_pending s of
        [] \<Rightarrow> None
      | item # rest \<Rightarrow>
          (case decide env routed_backlog (sl_running s) (sl_active s) (sl_partitions s) item of
             None \<Rightarrow> None
           | Some Wait \<Rightarrow>
               schedule_loop env now routed_backlog (inspected + 1) (s\<lparr>sl_pending := rest @ [item]\<rparr>)
           | Some (Reject e) \<Rightarrow> Some (Inl e, s\<lparr>sl_pending := rest\<rparr>)
           | Some (Start key) \<Rightarrow>
               (case claim_item now item (sl_repository s) of
                  (False, repository) \<Rightarrow>
                    schedule_loop env now routed_backlog inspected (s\<lparr>sl_pending := rest, sl_repository := repository\<rparr>)
                | (True, repository) \<Rightarrow>
                    schedule_loop env now routed_backlog 0
                      (start_task item key (s\<lparr>sl_pending := rest, sl_repository := repository\<rparr>))))
      else Some (Inr (), s))"
  by pat_completeness auto
termination
  by (relation "measures [\<lambda>(_, _, _, _, s). length (sl_pending s), \<lambda>(_, _, _, inspected, s). length (sl_pending s) - inspected]")
    (auto simp: start_task_def)

declare schedule_loop.simps [simp del]

definition schedule_available ::
  "schedule_env \<Rightarrow> int \<Rightarrow> flow_lifecycle \<Rightarrow> nat \<Rightarrow> schedule_state \<Rightarrow> ((flow_error, unit) result \<times> schedule_state) option" where
  "schedule_available env now lifecycle unread s =
     (if lifecycle \<noteq> Running then Some (Inr (), s)
      else schedule_loop env now
        (sat_add (length (filter (\<lambda>item. \<not> is_source_seed item) (sl_pending s))) unread) 0 s)"

section \<open>What holds of the running tasks\<close>

definition running_of :: "running_task list \<Rightarrow> string \<Rightarrow> nat" where
  "running_of running p = length (filter (\<lambda>t. tk_processor_id t = p) running)"

text \<open>The tasks that have at least \<open>k\<close> stages below them.\<close>

definition deep :: "schedule_env \<Rightarrow> nat \<Rightarrow> running_task list \<Rightarrow> nat" where
  "deep env k running = length (filter (\<lambda>t. k \<le> depth_of env (tk_processor_id t)) running)"

definition keyed :: "running_task list \<Rightarrow> (string \<times> string) list" where
  "keyed running =
     map (\<lambda>t. (tk_processor_id t, the (tk_partition_key t))) (filter (\<lambda>t. tk_partition_key t \<noteq> None) running)"

definition running_ok :: "schedule_env \<Rightarrow> running_task list \<Rightarrow> nat hmap \<Rightarrow> string list hmap \<Rightarrow> bool" where
  "running_ok env running active partitions \<longleftrightarrow>
     length running \<le> se_limit env \<and>
     (\<forall>p. active_of active p = running_of running p) \<and>
     (\<forall>t \<in> set running. \<exists>d. hm_get (se_definitions env) (tk_processor_id t) = Some d \<and>
        running_of running (tk_processor_id t) \<le> processor_limit d \<and>
        (sd_ordering (pc_scheduling d) = Partitioned \<longrightarrow> tk_partition_key t \<noteq> None)) \<and>
     distinct (keyed running) \<and>
     (\<forall>p k. k \<in> set (partitions_of partitions p) \<longleftrightarrow> (p, k) \<in> set (keyed running)) \<and>
     (\<forall>k. deep env k running = 0 \<or> deep env k running + k \<le> se_limit env)"

section \<open>Lemmas\<close>

lemma running_of_snoc: "running_of (running @ [t]) p = running_of running p + (if tk_processor_id t = p then 1 else 0)"
  by (simp add: running_of_def)

lemma deep_snoc: "deep env k (running @ [t]) = deep env k running + (if k \<le> depth_of env (tk_processor_id t) then 1 else 0)"
  by (simp add: deep_def)

lemma deep_le: "deep env k running \<le> length running"
  by (simp add: deep_def)

lemma keyed_snoc:
  "keyed (running @ [t]) = keyed running @
     (case tk_partition_key t of None \<Rightarrow> [] | Some k \<Rightarrow> [(tk_processor_id t, k)])"
  by (simp add: keyed_def split: option.splits)

lemma task_of_fields [simp]:
  "tk_processor_id (task_of item key) = wi_processor_id item" "tk_partition_key (task_of item key) = key"
  "tk_packet (task_of item key) = wi_packet item"
  by (simp_all add: task_of_def)

lemma decide_Start:
  assumes "decide env backlog running active partitions item = Some (Start key)" "se_limit env < u64_max"
  obtains d where "hm_get (se_definitions env) (wi_processor_id item) = Some d"
    "length running + 1 + depth_of env (wi_processor_id item) \<le> se_limit env"
    "active_of active (wi_processor_id item) < processor_limit d"
    "\<forall>k. key = Some k \<longrightarrow> k \<notin> set (partitions_of partitions (wi_processor_id item))"
    "sd_ordering (pc_scheduling d) = Partitioned \<longrightarrow> key \<noteq> None"
proof -
  from assms(1) obtain d where d: "hm_get (se_definitions env) (wi_processor_id item) = Some d"
    and depth: "\<not> sat_add (sat_add (length running) 1) (depth_of env (wi_processor_id item)) > se_limit env"
    and act: "\<not> active_of active (wi_processor_id item) \<ge> processor_limit d"
    and key: "(case item_key env d item of
            None \<Rightarrow> None
          | Some (Inl e) \<Rightarrow> Some (Reject e)
          | Some (Inr None) \<Rightarrow> Some (Start None)
          | Some (Inr (Some key)) \<Rightarrow>
              if key \<in> set (partitions_of partitions (wi_processor_id item))
              then Some Wait else Some (Start (Some key))) = Some (Start key)"
    by (auto simp: decide_def split: if_splits option.splits)
  have "length running + 1 + depth_of env (wi_processor_id item) \<le> se_limit env"
    using depth assms(2) by (auto simp: sat_add_def min_def split: if_splits)
  moreover have "\<forall>k. key = Some k \<longrightarrow> k \<notin> set (partitions_of partitions (wi_processor_id item))"
    using key by (auto split: option.splits sum.splits if_splits)
  moreover have "sd_ordering (pc_scheduling d) = Partitioned \<longrightarrow> key \<noteq> None"
    using key by (auto simp: item_key_def split: option.splits sum.splits if_splits)
  ultimately show thesis using that [OF d] act by auto
qed

lemma running_ok_start:
  assumes ok: "running_ok env (sl_running s) (sl_active s) (sl_partitions s)"
    and start: "decide env backlog (sl_running s) (sl_active s) (sl_partitions s) item = Some (Start key)"
    and limit: "se_limit env < u64_max"
  shows "running_ok env (sl_running (start_task item key s)) (sl_active (start_task item key s))
    (sl_partitions (start_task item key s))"
proof -
  let ?p = "wi_processor_id item" and ?R = "sl_running s"
  from decide_Start [OF start limit] obtain d where d: "hm_get (se_definitions env) ?p = Some d"
    and depth: "length ?R + 1 + depth_of env ?p \<le> se_limit env"
    and act: "active_of (sl_active s) ?p < processor_limit d"
    and fresh: "\<forall>k. key = Some k \<longrightarrow> k \<notin> set (partitions_of (sl_partitions s) ?p)"
    and part: "sd_ordering (pc_scheduling d) = Partitioned \<longrightarrow> key \<noteq> None" .
  note t = task_of_fields
  have R: "sl_running (start_task item key s) = ?R @ [task_of item key]" by (simp add: start_task_def)
  show ?thesis
    unfolding running_ok_def R
  proof (intro conjI allI ballI)
    show "length (?R @ [task_of item key]) \<le> se_limit env" using depth by simp
    show "active_of (sl_active (start_task item key s)) p = running_of (?R @ [task_of item key]) p" for p
      using ok by (auto simp: running_ok_def start_task_def active_of_def running_of_snoc t split: option.splits)
    show "\<exists>d. hm_get (se_definitions env) (tk_processor_id u) = Some d \<and>
        running_of (?R @ [task_of item key]) (tk_processor_id u) \<le> processor_limit d \<and>
        (sd_ordering (pc_scheduling d) = Partitioned \<longrightarrow> tk_partition_key u \<noteq> None)"
      if "u \<in> set (?R @ [task_of item key])" for u
    proof (cases "tk_processor_id u = ?p")
      case True
      have "running_of ?R ?p < processor_limit d" using ok act by (simp add: running_ok_def)
      moreover have "sd_ordering (pc_scheduling d) = Partitioned \<longrightarrow> tk_partition_key u \<noteq> None"
        using that part ok True d by (auto simp: t running_ok_def)
      ultimately show ?thesis using d True by (simp add: running_of_snoc t)
    next
      case False
      with that t have "u \<in> set ?R" by auto
      with ok False show ?thesis by (auto simp: running_ok_def running_of_snoc t)
    qed
    show "distinct (keyed (?R @ [task_of item key]))"
      using ok fresh by (auto simp: running_ok_def keyed_snoc t split: option.splits)
    show "k \<in> set (partitions_of (sl_partitions (start_task item key s)) p) \<longleftrightarrow>
        (p, k) \<in> set (keyed (?R @ [task_of item key]))" for p k
      using ok by (auto simp: running_ok_def keyed_snoc t start_task_def partitions_of_def split: option.splits)
    show "deep env k (?R @ [task_of item key]) = 0 \<or> deep env k (?R @ [task_of item key]) + k \<le> se_limit env" for k
    proof (cases "k \<le> depth_of env ?p")
      case True
      with depth deep_le [of env k ?R] show ?thesis by (simp add: deep_snoc t)
    next
      case False
      with ok show ?thesis by (simp add: deep_snoc t running_ok_def)
    qed
  qed
qed


text \<open>Induction over the loop, with the cases in which it goes on.\<close>

lemma schedule_loop_induct [consumes 1, case_names stop wait lost start]:
  assumes result: "schedule_loop env now backlog inspected s = Some (Inr (), s')"
    and stop: "\<And>inspected s. \<not> (length (sl_running s) < se_limit env \<and> inspected < length (sl_pending s)) \<Longrightarrow> P inspected s s"
    and wait: "\<And>inspected s item rest s'. sl_pending s = item # rest \<Longrightarrow> length (sl_running s) < se_limit env \<Longrightarrow>
      inspected < length (sl_pending s) \<Longrightarrow>
      decide env backlog (sl_running s) (sl_active s) (sl_partitions s) item = Some Wait \<Longrightarrow>
      P (inspected + 1) (s\<lparr>sl_pending := rest @ [item]\<rparr>) s' \<Longrightarrow> P inspected s s'"
    and lost: "\<And>inspected s item rest rp s'. sl_pending s = item # rest \<Longrightarrow> inspected < length (sl_pending s) \<Longrightarrow>
      claim_item now item (sl_repository s) = (False, rp) \<Longrightarrow>
      P inspected (s\<lparr>sl_pending := rest, sl_repository := rp\<rparr>) s' \<Longrightarrow> P inspected s s'"
    and start: "\<And>inspected s item rest key rp s'. sl_pending s = item # rest \<Longrightarrow>
      decide env backlog (sl_running s) (sl_active s) (sl_partitions s) item = Some (Start key) \<Longrightarrow>
      claim_item now item (sl_repository s) = (True, rp) \<Longrightarrow>
      P 0 (start_task item key (s\<lparr>sl_pending := rest, sl_repository := rp\<rparr>)) s' \<Longrightarrow> P inspected s s'"
  shows "P inspected s s'"
proof -
  have "env' = env \<Longrightarrow> now' = now \<Longrightarrow> backlog' = backlog \<Longrightarrow>
      schedule_loop env' now' backlog' inspected s = Some (Inr (), s') \<Longrightarrow> P inspected s s'" for env' now' backlog'
  proof (induction env' now' backlog' inspected s rule: schedule_loop.induct)
    case (1 env' now' backlog' inspected s)
    note eqs = 1(4-6)
    let ?go = "length (sl_running s) < se_limit env \<and> inspected < length (sl_pending s)"
    show ?case
    proof (cases ?go)
      case False
      with 1(7) have "s' = s" unfolding eqs by (subst (asm) schedule_loop.simps) (simp only: if_False option.inject prod.inject simp_thms)
      with stop [OF False] show ?thesis by simp
    next
      case True
      then obtain item rest where p: "sl_pending s = item # rest" by (cases "sl_pending s") auto
      let ?d = "decide env backlog (sl_running s) (sl_active s) (sl_partitions s) item"
      have loop: "(case ?d of
             None \<Rightarrow> None
           | Some Wait \<Rightarrow> schedule_loop env now backlog (inspected + 1) (s\<lparr>sl_pending := rest @ [item]\<rparr>)
           | Some (Reject e) \<Rightarrow> Some (Inl e, s\<lparr>sl_pending := rest\<rparr>)
           | Some (Start key) \<Rightarrow>
               (case claim_item now item (sl_repository s) of
                  (False, rp) \<Rightarrow> schedule_loop env now backlog inspected (s\<lparr>sl_pending := rest, sl_repository := rp\<rparr>)
                | (True, rp) \<Rightarrow>
                    schedule_loop env now backlog 0 (start_task item key (s\<lparr>sl_pending := rest, sl_repository := rp\<rparr>))))
          = Some (Inr (), s')"
        using 1(7) True p unfolding eqs by (subst (asm) schedule_loop.simps) simp
      then obtain dec where dec: "?d = Some dec" by (cases ?d) auto
      show ?thesis
      proof (cases dec)
        case Wait
        with 1(1) eqs True p dec loop show ?thesis by (intro wait [OF p]) auto
      next
        case (Start key)
        obtain won rp where c: "claim_item now item (sl_repository s) = (won, rp)" by fastforce
        show ?thesis
        proof (cases won)
          case True
          with 1(2) eqs \<open>?go\<close> p dec loop Start c show ?thesis by (intro start [OF p]) auto
        next
          case False
          with 1(3) eqs \<open>?go\<close> p dec loop Start c show ?thesis by (intro lost [OF p]) auto
        qed
      next
        case (Reject e)
        with loop dec show ?thesis by simp
      qed
    qed
  qed
  from this [OF refl refl refl result] show ?thesis .
qed

lemma schedule_loop_running_ok:
  assumes "schedule_loop env now backlog inspected s = Some (Inr (), s')" "se_limit env < u64_max"
  shows "running_ok env (sl_running s) (sl_active s) (sl_partitions s) \<Longrightarrow>
    running_ok env (sl_running s') (sl_active s') (sl_partitions s')"
  using assms(1)
proof (induction rule: schedule_loop_induct)
  case (start inspected s item rest key rp s')
  let ?s = "s\<lparr>sl_pending := rest, sl_repository := rp\<rparr>"
  from running_ok_start [of env ?s backlog item key] start(2,5) assms(2)
  have "running_ok env (sl_running (start_task item key ?s)) (sl_active (start_task item key ?s))
    (sl_partitions (start_task item key ?s))" by simp
  from start(4) [OF this] show ?case .
qed simp_all

text \<open>The items at the back of the queue that have been passed over in this round.\<close>

definition passed_over :: "schedule_env \<Rightarrow> nat \<Rightarrow> nat \<Rightarrow> schedule_state \<Rightarrow> bool" where
  "passed_over env backlog inspected s \<longleftrightarrow>
     inspected \<le> length (sl_pending s) \<and>
     (\<forall>item \<in> set (drop (length (sl_pending s) - inspected) (sl_pending s)).
        decide env backlog (sl_running s) (sl_active s) (sl_partitions s) item = Some Wait)"

lemma passed_over_0 [simp]: "passed_over env backlog 0 s"
  by (simp add: passed_over_def)

lemma passed_over_wait:
  assumes "passed_over env backlog inspected s" "sl_pending s = item # rest" "inspected < length (sl_pending s)"
    and "decide env backlog (sl_running s) (sl_active s) (sl_partitions s) item = Some Wait"
  shows "passed_over env backlog (inspected + 1) (s\<lparr>sl_pending := rest @ [item]\<rparr>)"
proof -
  have "Suc (length rest) - inspected = Suc (length rest - inspected)" using assms(2,3) by simp
  with assms show ?thesis by (simp add: passed_over_def)
qed

lemma schedule_loop_conserving:
  assumes "schedule_loop env now backlog inspected s = Some (Inr (), s')"
  shows "passed_over env backlog inspected s \<Longrightarrow> length (sl_running s') < se_limit env \<Longrightarrow> item \<in> set (sl_pending s') \<Longrightarrow>
    decide env backlog (sl_running s') (sl_active s') (sl_partitions s') item = Some Wait"
  using assms
proof (induction rule: schedule_loop_induct)
  case (stop inspected s)
  then show ?case by (auto simp: passed_over_def not_less)
next
  case (wait inspected s item' rest s')
  from wait(5) [OF passed_over_wait [OF wait(6,1,3,4)] wait(7,8)] show ?case .
next
  case (lost inspected s item' rest rp s')
  then have "passed_over env backlog inspected (s\<lparr>sl_pending := rest, sl_repository := rp\<rparr>)"
    by (auto simp: passed_over_def Suc_diff_le)
  from lost(4) [OF this lost(6,7)] show ?case .
next
  case (start inspected s item' rest key rp s')
  from start(4) [OF passed_over_0 start(6,7)] show ?case .
qed

definition packets_of :: "schedule_state \<Rightarrow> data_packet multiset" where
  "packets_of s = image_mset wi_packet (mset (sl_pending s)) + image_mset tk_packet (mset (sl_running s))"

lemma claim_item_no_repository: "claim_item now item None = (True, None)"
  by (simp add: claim_item_def)

lemma schedule_loop_packets:
  assumes "schedule_loop env now backlog inspected s = Some (Inr (), s')"
  shows "sl_repository s = None \<Longrightarrow> packets_of s' = packets_of s"
  using assms
proof (induction rule: schedule_loop_induct)
  case (lost inspected s item rest rp s')
  then show ?case by (simp add: claim_item_no_repository)
next
  case (start inspected s item rest key rp s')
  then show ?case by (simp add: claim_item_no_repository packets_of_def start_task_def)
qed (simp_all add: packets_of_def)

section \<open>Properties\<close>

definition routed_backlog :: "schedule_state \<Rightarrow> nat \<Rightarrow> nat" where
  "routed_backlog s unread = sat_add (length (filter (\<lambda>item. \<not> is_source_seed item) (sl_pending s))) unread"

lemma schedule_available_running:
  "schedule_available env now Running unread s = schedule_loop env now (routed_backlog s unread) 0 s"
  by (simp add: schedule_available_def routed_backlog_def)

text \<open>
  A round of scheduling keeps the limits of the running tasks: at most
  \<open>max_concurrency\<close> in all, at most \<open>concurrent_tasks\<close> of each processor (one with
  \<open>ordering: preserve\<close>), no two of a processor with the same partition key, and for every
  \<open>k\<close> a free slot for each of the \<open>k\<close> stages below any task that has that many below it.
\<close>

theorem schedule_keeps_limits:
  assumes "schedule_available env now lifecycle unread s = Some (Inr (), s')" "se_limit env < u64_max"
    and "running_ok env (sl_running s) (sl_active s) (sl_partitions s)"
  shows "running_ok env (sl_running s') (sl_active s') (sl_partitions s')"
  using assms schedule_loop_running_ok [OF _ assms(2)]
  by (auto simp: schedule_available_def split: if_splits)

text \<open>
  A round of scheduling leaves no work behind: while a slot is free after it, every item
  that is still pending has to wait for its output, its stages, its processor or its
  partition. Without a repository no packet is lost or duplicated by it.
\<close>

theorem schedule_conserves_work:
  assumes "schedule_available env now Running unread s = Some (Inr (), s')"
  shows "(length (sl_running s') < se_limit env \<longrightarrow>
      (\<forall>item \<in> set (sl_pending s'). decide env (routed_backlog s unread) (sl_running s') (sl_active s') (sl_partitions s') item
         = Some Wait)) \<and>
    (sl_repository s = None \<longrightarrow> packets_of s' = packets_of s)"
  using schedule_loop_conserving [OF assms [unfolded schedule_available_running] passed_over_0]
    schedule_loop_packets [OF assms [unfolded schedule_available_running]] by blast

subsection \<open>An example\<close>

definition example_schedule_env :: schedule_env where
  "example_schedule_env =
     \<lparr> se_codec = example_codec,
       se_definitions =
         [(''x'', example_processor ''x''),
          (''p'', (example_processor ''p'')\<lparr>pc_scheduling := scheduling_default\<lparr>sd_ordering := Preserve\<rparr>\<rparr>)],
       se_depths = [], se_limit = 2, se_queue_capacity = 10 \<rparr>"

definition example_work :: "string \<Rightarrow> string \<Rightarrow> work_item" where
  "example_work p packet =
     \<lparr> wi_processor_id = p, wi_packet = example_packet\<lparr>dp_id := packet\<rparr>, wi_connection = Some (''a.success.'' @ p),
       wi_reservation = None, wi_queue_id = None \<rparr>"

definition example_schedule :: "work_item list \<Rightarrow> work_item list \<Rightarrow> schedule_state" where
  "example_schedule queue running =
     \<lparr> sl_pending = queue, sl_running = map (\<lambda>item. task_of item None) running,
       sl_active = fold (\<lambda>item m. hm_insert (wi_processor_id item) (active_of m (wi_processor_id item) + 1) m) running [],
       sl_partitions = [], sl_repository = None \<rparr>"

lemma example_work_processor: "wi_processor_id (example_work p i) = p"
  by (simp add: example_work_def)

lemma example_decide:
  "decide example_schedule_env n [t] [(''p'', Suc 0)] [] (example_work ''p'' i) = Some Wait"
  "decide example_schedule_env n [t] [(''p'', Suc 0)] [] (example_work ''x'' i) = Some (Start None)"
  "decide example_schedule_env n [t] [(''x'', Suc 0)] [] (example_work ''p'' i) = Some (Start None)"
  by (simp_all add: decide_def example_schedule_env_def example_work_def is_source_seed_def depth_of_def
      active_of_def processor_limit_def scheduling_default_def example_processor_def sat_add_def u64_max_def item_key_def
      default_concurrent_tasks_def)

lemma example_round:
  "schedule_available example_schedule_env now Running n
     (example_schedule [example_work ''p'' ''1'', example_work ''x'' ''2'', example_work ''p'' ''3''] [example_work ''p'' ''0'']) =
     Some (Inr (), example_schedule [example_work ''p'' ''3'', example_work ''p'' ''1'']
       [example_work ''p'' ''0'', example_work ''x'' ''2''])" (is ?first)
  "schedule_available example_schedule_env now Running n
     (example_schedule [example_work ''p'' ''3'', example_work ''p'' ''1''] [example_work ''x'' ''2'']) =
     Some (Inr (), example_schedule [example_work ''p'' ''1''] [example_work ''x'' ''2'', example_work ''p'' ''3''])" (is ?second)
proof -
  have limit: "se_limit example_schedule_env = 2" by (simp add: example_schedule_env_def)
  note eval = example_schedule_def limit example_decide start_task_def claim_item_no_repository example_work_processor active_of_def
  show ?first
    unfolding schedule_available_running
    by (simp add: schedule_loop.simps eval)
  show ?second
    unfolding schedule_available_running
    by (simp add: schedule_loop.simps eval)
qed

text \<open>
  \<open>ordering: preserve\<close> keeps one task at a time but not the order of arrival: an item
  that waits is put behind the others, and when the round then stops at the limit of tasks the
  queue stays rotated. Here packet 3 of processor p starts before packet 1, which came first.
\<close>

theorem preserve_reorders:
  "\<exists>s t. schedule_available example_schedule_env now Running 0
       (example_schedule [example_work ''p'' ''1'', example_work ''x'' ''2'', example_work ''p'' ''3'']
          [example_work ''p'' ''0'']) = Some (Inr (), s) \<and>
     s = example_schedule [example_work ''p'' ''3'', example_work ''p'' ''1''] [example_work ''p'' ''0'', example_work ''x'' ''2''] \<and>
     schedule_available example_schedule_env now Running 0
       (example_schedule (sl_pending s) [example_work ''x'' ''2'']) = Some (Inr (), t) \<and>
     t = example_schedule [example_work ''p'' ''1''] [example_work ''x'' ''2'', example_work ''p'' ''3'']"
  using example_round [of now 0] by (simp add: example_schedule_def)

subsection \<open>Witnesses\<close>

lemma schedule_keeps_limits_witness:
  "running_ok example_schedule_env [task_of (example_work ''x'' ''2'') None, task_of (example_work ''p'' ''3'') None]
     [(''x'', 1), (''p'', 1)] []"
proof -
  have "running_ok example_schedule_env [task_of (example_work ''x'' ''2'') None] [(''x'', 1)] []"
    by (auto simp: running_ok_def running_of_def deep_def keyed_def partitions_of_def example_schedule_env_def
        depth_of_def active_of_def processor_limit_def example_work_processor scheduling_default_def
        example_processor_def default_concurrent_tasks_def)
  moreover have "se_limit example_schedule_env < u64_max" by (simp add: example_schedule_env_def u64_max_def)
  ultimately show ?thesis
    using schedule_keeps_limits [OF example_round(2)]
    by (simp add: example_schedule_def active_of_def example_work_processor)
qed

lemma schedule_conserves_work_witness:
  "packets_of (example_schedule [example_work ''p'' ''1''] [example_work ''x'' ''2'', example_work ''p'' ''3'']) =
     packets_of (example_schedule [example_work ''p'' ''3'', example_work ''p'' ''1''] [example_work ''x'' ''2''])"
  using schedule_conserves_work [OF example_round(2)] by (simp add: example_schedule_def)

end
