(* ===== verification/Flow_Retry.thy ===== *)
theory Flow_Retry
  imports Flow_Router
begin

text \<open>
  The output channel of a processor (\<open>OutputSender\<close> of
  \<open>crates/jaiba-runtime/src/engine/processor.rs\<close>), the worker permits
  (\<open>engine/workers.rs\<close>) and the execution of a processor with a timeout and retries
  (\<open>executor/retry.rs\<close>). A processor is any function on the output it is given; where the
  code waits for memory or for room in the channel, the argument \<open>awaits\<close> says in which state
  the wait ends.
\<close>

section \<open>Output of a processor\<close>

record output_sender =
  ou_processor_id :: string
  ou_routed :: "string list option"
  ou_holds_input :: bool
  ou_emitted_records :: nat
  ou_metric_records :: nat
  ou_channel :: "processor_emission list"
  ou_capacity :: nat
  ou_closed :: bool
  ou_limiter :: memory_limiter
  ou_shared :: nat

text \<open>
  The two waits of an emission. \<open>aw_reserve\<close> is \<open>memory.reserve\<close> past its checks: \<open>None\<close> when the
  memory is never granted, else the reservation or the error. \<open>aw_send\<close> is the output after the wait
  for room in the channel.
\<close>

record awaits =
  aw_reserve :: "nat \<Rightarrow> nat \<Rightarrow> output_sender \<Rightarrow>
    ((flow_error, memory_reservation) result \<times> output_sender) option"
  aw_send :: "output_sender \<Rightarrow> output_sender"

text \<open>\<open>OutputSender::new\<close> and its two setters, as the scheduler calls them for an item.\<close>

definition routed_relationships :: "connection_config list \<Rightarrow> string \<Rightarrow> string list" where
  "routed_relationships connections processor_id =
     remdups (map cn_relationship (filter (\<lambda>c. cn_from c = processor_id) connections))"

definition output_new :: "string \<Rightarrow> processor_emission list \<Rightarrow> nat \<Rightarrow> memory_limiter \<Rightarrow> nat \<Rightarrow> output_sender" where
  "output_new processor_id channel capacity limiter shared =
     \<lparr> ou_processor_id = processor_id, ou_routed = None, ou_holds_input = False, ou_emitted_records = 0,
       ou_metric_records = 0, ou_channel = channel, ou_capacity = capacity, ou_closed = False,
       ou_limiter = limiter, ou_shared = shared \<rparr>"

definition with_routed_relationships :: "string list \<Rightarrow> output_sender \<Rightarrow> output_sender" where
  "with_routed_relationships relationships out = out\<lparr>ou_routed := Some relationships\<rparr>"

definition with_input_reservation :: "bool \<Rightarrow> output_sender \<Rightarrow> output_sender" where
  "with_input_reservation holds_input out = out\<lparr>ou_holds_input := holds_input\<rparr>"

definition output_for :: "connection_config list \<Rightarrow> work_item \<Rightarrow> output_sender \<Rightarrow> output_sender" where
  "output_for connections item out =
     with_input_reservation (wi_reservation item \<noteq> None)
       (with_routed_relationships (routed_relationships connections (wi_processor_id item)) out)"

definition drop_output :: "memory_reservation \<Rightarrow> output_sender \<Rightarrow> output_sender" where
  "drop_output r out =
     (case release r (ou_limiter out) (ou_shared out) of
        (ml, shared) \<Rightarrow> out\<lparr>ou_limiter := ml, ou_shared := shared\<rparr>)"

definition try_reserve_output :: "nat \<Rightarrow> output_sender \<Rightarrow> (flow_error, memory_reservation) result \<times> output_sender" where
  "try_reserve_output bytes out =
     (case try_reserve bytes (ou_limiter out) (ou_shared out) of
        (r, ml, shared) \<Rightarrow> (r, out\<lparr>ou_limiter := ml, ou_shared := shared\<rparr>))"

definition reserve_working_copy ::
  "codec \<Rightarrow> data_packet \<Rightarrow> output_sender \<Rightarrow> (flow_error, memory_reservation option) result \<times> output_sender" where
  "reserve_working_copy cd packet out =
     (if ou_holds_input out
      then case try_reserve_output (estimated_size cd packet) out of
             (Inl e, out) \<Rightarrow> (Inl e, out)
           | (Inr r, out) \<Rightarrow> (Inr (Some r), out)
      else (Inr None, out))"

definition count_records :: "string \<Rightarrow> nat \<Rightarrow> output_sender \<Rightarrow> output_sender" where
  "count_records relationship records out =
     (if relationship \<noteq> ''failure''
      then out\<lparr>ou_emitted_records := (ou_emitted_records out + records) mod 2 ^ 64,
               ou_metric_records := ou_metric_records out + records\<rparr>
      else out)"

text \<open>\<open>sender.send\<close>: it waits for room, and fails when the receiver is gone.\<close>

definition send :: "awaits \<Rightarrow> processor_emission \<Rightarrow> output_sender \<Rightarrow> ((flow_error, unit) result \<times> output_sender) option" where
  "send aw emission out =
     (let out = (if ou_closed out \<or> length (ou_channel out) < ou_capacity out then out else aw_send aw out)
      in if ou_closed out then Some (Inl ChannelClosed, drop_output (em_reservation emission) out)
         else if length (ou_channel out) < ou_capacity out
         then Some (Inr (), out\<lparr>ou_channel := ou_channel out @ [emission]\<rparr>)
         else None)"

definition emit ::
  "codec \<Rightarrow> awaits \<Rightarrow> string \<Rightarrow> data_packet \<Rightarrow> output_sender \<Rightarrow> ((flow_error, unit) result \<times> output_sender) option" where
  "emit cd aw relationship packet out =
     (let records = record_count packet
      in if (case ou_routed out of None \<Rightarrow> False | Some rs \<Rightarrow> relationship \<notin> set rs)
         then Some (Inr (), count_records relationship records out)
         else case (if ou_holds_input out then Some (try_reserve_output (estimated_size cd packet) out)
                    else case reserve_check (estimated_size cd packet) (ou_limiter out) of
                           Inl e \<Rightarrow> Some (Inl e, out)
                         | Inr (units, bytes) \<Rightarrow> aw_reserve aw units bytes out) of
           None \<Rightarrow> None
         | Some (Inl e, out) \<Rightarrow> Some (Inl e, out)
         | Some (Inr reservation, out) \<Rightarrow>
             (case send aw \<lparr> em_processor_id = ou_processor_id out, em_relationship = relationship,
                             em_packet = packet, em_reservation = reservation \<rparr> out of
                None \<Rightarrow> None
              | Some (Inl e, out) \<Rightarrow> Some (Inl e, out)
              | Some (Inr _, out) \<Rightarrow> Some (Inr (), count_records relationship records out)))"

section \<open>Worker permits\<close>

record worker_pools =
  wk_resolved :: resolved_worker_config
  wk_cpu :: nat
  wk_blocking :: nat

datatype pool = CpuPool | BlockingPool

definition worker_pools_new :: "nat option \<Rightarrow> worker_config \<Rightarrow> (flow_error, worker_pools) result" where
  "worker_pools_new parallelism config =
     (let limits = resolved parallelism config
      in if rw_cpu_threads limits = 0 \<or> rw_blocking_threads limits = 0
         then Inl (Configuration ResolvedWorkersZero)
         else Inr \<lparr> wk_resolved = limits, wk_cpu = rw_cpu_threads limits, wk_blocking = rw_blocking_threads limits \<rparr>)"

text \<open>\<open>acquire\<close> when the permit is free: \<open>None\<close> is a wait, \<open>Some None\<close> no permit needed.\<close>

definition pool_of :: "execution_mode \<Rightarrow> pool option" where
  "pool_of mode = (case mode of Cpu \<Rightarrow> Some CpuPool | BlockingIo \<Rightarrow> Some BlockingPool | _ \<Rightarrow> None)"

definition acquire :: "execution_mode \<Rightarrow> worker_pools \<Rightarrow> (pool option \<times> worker_pools) option" where
  "acquire mode pools =
     (case pool_of mode of
        None \<Rightarrow> Some (None, pools)
      | Some CpuPool \<Rightarrow>
          if wk_cpu pools = 0 then None else Some (Some CpuPool, pools\<lparr>wk_cpu := wk_cpu pools - 1\<rparr>)
      | Some BlockingPool \<Rightarrow>
          if wk_blocking pools = 0 then None else Some (Some BlockingPool, pools\<lparr>wk_blocking := wk_blocking pools - 1\<rparr>))"

definition drop_worker_permit :: "pool option \<Rightarrow> worker_pools \<Rightarrow> worker_pools" where
  "drop_worker_permit permit pools =
     (case permit of
        None \<Rightarrow> pools
      | Some CpuPool \<Rightarrow> pools\<lparr>wk_cpu := wk_cpu pools + 1\<rparr>
      | Some BlockingPool \<Rightarrow> pools\<lparr>wk_blocking := wk_blocking pools + 1\<rparr>)"

section \<open>Execution with retries\<close>

text \<open>
  \<open>re_execute\<close> is the processor: the outcome of one execution and the output it leaves, \<open>None\<close>
  when it has not ended at the timeout or never ends; \<open>re_display\<close> is the text of an error.
\<close>

record retry_env =
  re_codec :: codec
  re_display :: "flow_error \<Rightarrow> string"
  re_awaits :: awaits
  re_execute :: "data_packet \<Rightarrow> output_sender \<Rightarrow> (flow_error, unit) result option \<times> output_sender"
  re_processor_id :: string
  re_retry :: retry_config
  re_timeout_ms :: "nat option"
  re_queue_id :: "string option"
  re_now :: int

record retry_state =
  rs_packet :: data_packet
  rs_output :: output_sender
  rs_repository :: "packet_repository option"
  rs_sleeps :: "nat list"
  rs_processed :: nat
  rs_retried :: nat
  rs_failed :: nat

definition note_event :: "retry_env \<Rightarrow> provenance_event \<Rightarrow> retry_state \<Rightarrow> retry_state" where
  "note_event env event s =
     (case (rs_repository s, re_queue_id env) of
        (Some rp, Some queue_id) \<Rightarrow> s\<lparr>rs_repository := Some (record_event (re_now env) queue_id event rp)\<rparr>
      | _ \<Rightarrow> s)"

text \<open>One execution under its working copy; \<open>None\<close> when it never ends.\<close>

definition run_attempt :: "retry_env \<Rightarrow> retry_state \<Rightarrow> ((flow_error, unit) result \<times> retry_state) option" where
  "run_attempt env s =
     (case reserve_working_copy (re_codec env) (rs_packet s) (rs_output s) of
        (Inl e, out) \<Rightarrow> Some (Inl e, s\<lparr>rs_output := out\<rparr>)
      | (Inr working_copy, out) \<Rightarrow>
          (case re_execute env (rs_packet s) out of
             (ended, out) \<Rightarrow>
               (case (case (ended, re_timeout_ms env) of
                        (Some result, _) \<Rightarrow> Some result
                      | (None, Some milliseconds) \<Rightarrow>
                          Some (Inl (ProcessorError (re_processor_id env)
                            (''execution exceeded timeout of '' @ show_nat milliseconds @ '' ms'')))
                      | (None, None) \<Rightarrow> None) of
                  None \<Rightarrow> None
                | Some outcome \<Rightarrow>
                    Some (outcome,
                      s\<lparr>rs_output := (case working_copy of None \<Rightarrow> out | Some r \<Rightarrow> drop_output r out)\<rparr>))))"

definition backoff :: "retry_config \<Rightarrow> nat \<Rightarrow> nat" where
  "backoff retry attempt =
     min (sat_mul (rt_initial_delay_ms retry) (sat_pow 2 (attempt - 1))) (rt_maximum_delay_ms retry)"

definition finish_ok :: "retry_env \<Rightarrow> nat \<Rightarrow> retry_state \<Rightarrow> retry_state" where
  "finish_ok env input_records s =
     (let out = rs_output s;
          s = (if ou_emitted_records out = 0
               then s\<lparr>rs_output := out\<lparr>ou_metric_records := ou_metric_records out + input_records\<rparr>\<rparr> else s)
      in note_event env Processed (s\<lparr>rs_processed := rs_processed s + 1\<rparr>))"

definition next_attempt :: "retry_env \<Rightarrow> retry_state \<Rightarrow> retry_state" where
  "next_attempt env s =
     (let packet = (rs_packet s)\<lparr>dp_attempt := dp_attempt (rs_packet s) + 1\<rparr>
      in (note_event env Retried (s\<lparr>rs_packet := packet, rs_retried := rs_retried s + 1\<rparr>))
           \<lparr>rs_sleeps := rs_sleeps s @ [backoff (re_retry env) (dp_attempt packet)]\<rparr>)"

definition failed_packet :: "retry_env \<Rightarrow> string \<Rightarrow> data_packet \<Rightarrow> data_packet" where
  "failed_packet env message packet =
     packet\<lparr>dp_attributes := hm_insert ''error.message'' message
       (hm_insert ''error.processor'' (re_processor_id env) (dp_attributes packet))\<rparr>"

text \<open>The failed packet leaves by \<open>failure\<close>; when that fails too, the error is only logged.\<close>

definition finish_failed :: "retry_env \<Rightarrow> flow_error \<Rightarrow> retry_state \<Rightarrow> ((string \<times> nat) \<times> retry_state) option" where
  "finish_failed env error s =
     (let message = re_display env error; packet = failed_packet env message (rs_packet s)
      in case emit (re_codec env) (re_awaits env) ''failure'' packet (rs_output s) of
           None \<Rightarrow> None
         | Some (_, out) \<Rightarrow>
             Some ((message, dp_attempt packet), s\<lparr>rs_packet := packet, rs_output := out, rs_failed := rs_failed s + 1\<rparr>))"

lemma run_attempt_packet: "run_attempt env s = Some (outcome, s') \<Longrightarrow> rs_packet s' = rs_packet s"
  by (auto simp: run_attempt_def split: prod.splits sum.splits option.splits)

lemma note_event_packet [simp]: "rs_packet (note_event env event s) = rs_packet s"
  by (simp add: note_event_def split: option.splits)

function execute_with_retry ::
  "retry_env \<Rightarrow> retry_state \<Rightarrow> ((flow_error, (string \<times> nat) option) result \<times> retry_state) option" where
  "execute_with_retry env s =
     (case run_attempt env (note_event env ProcessingStarted s) of
        None \<Rightarrow> None
      | Some (Inr _, s') \<Rightarrow> Some (Inr None, finish_ok env (record_count (rs_packet s)) s')
      | Some (Inl error, s') \<Rightarrow>
          if is_PacketTooLarge error then Some (Inl error, s')
          else if dp_attempt (rs_packet s) < rt_maximum_attempts (re_retry env) \<and> is_retryable error
          then execute_with_retry env (next_attempt env s')
          else (case finish_failed env error s' of
                  None \<Rightarrow> None
                | Some (failure, s') \<Rightarrow> Some (Inr (Some failure), s')))"
  by pat_completeness auto

termination
  by (relation "measure (\<lambda>(env, s). rt_maximum_attempts (re_retry env) - dp_attempt (rs_packet s))")
    (auto simp: next_attempt_def Let_def dest!: run_attempt_packet)

declare execute_with_retry.simps [simp del]

section \<open>Lemmas\<close>

lemma backoff_exact:
  "rt_maximum_delay_ms retry \<le> u64_max \<Longrightarrow>
    backoff retry (Suc k) = min (rt_initial_delay_ms retry * 2 ^ k) (rt_maximum_delay_ms retry)"
proof (cases "2 ^ k \<le> u64_max")
  case True
  then show "rt_maximum_delay_ms retry \<le> u64_max \<Longrightarrow> ?thesis" by (simp add: backoff_def sat_mul_def sat_pow_def)
next
  case False
  assume m: "rt_maximum_delay_ms retry \<le> u64_max"
  show ?thesis
  proof (cases "rt_initial_delay_ms retry")
    case 0
    then show ?thesis by (simp add: backoff_def sat_mul_def)
  next
    case (Suc n)
    have "u64_max \<le> rt_initial_delay_ms retry * u64_max" "u64_max \<le> rt_initial_delay_ms retry * 2 ^ k"
      using False Suc by simp_all
    with False m Suc show ?thesis by (simp add: backoff_def sat_mul_def sat_pow_def min_def)
  qed
qed

lemma note_event_fields [simp]:
  "rs_output (note_event env event s) = rs_output s" "rs_sleeps (note_event env event s) = rs_sleeps s"
  "rs_processed (note_event env event s) = rs_processed s" "rs_retried (note_event env event s) = rs_retried s"
  "rs_failed (note_event env event s) = rs_failed s"
  by (simp_all add: note_event_def split: option.splits)

lemma next_attempt_fields [simp]:
  "rs_packet (next_attempt env s) = (rs_packet s)\<lparr>dp_attempt := dp_attempt (rs_packet s) + 1\<rparr>"
  "rs_sleeps (next_attempt env s) = rs_sleeps s @ [backoff (re_retry env) (Suc (dp_attempt (rs_packet s)))]"
  "rs_processed (next_attempt env s) = rs_processed s" "rs_retried (next_attempt env s) = rs_retried s + 1"
  "rs_failed (next_attempt env s) = rs_failed s"
  by (simp_all add: next_attempt_def Let_def)

lemma finish_ok_fields [simp]:
  "rs_packet (finish_ok env n s) = rs_packet s" "rs_sleeps (finish_ok env n s) = rs_sleeps s"
  "rs_processed (finish_ok env n s) = rs_processed s + 1" "rs_retried (finish_ok env n s) = rs_retried s"
  "rs_failed (finish_ok env n s) = rs_failed s"
  by (simp_all add: finish_ok_def Let_def)

lemma run_attempt_fields:
  assumes "run_attempt env s = Some (outcome, s')"
  shows "rs_packet s' = rs_packet s" "rs_sleeps s' = rs_sleeps s" "rs_processed s' = rs_processed s"
    "rs_retried s' = rs_retried s" "rs_failed s' = rs_failed s"
  using assms by (auto simp: run_attempt_def split: prod.splits sum.splits option.splits)

lemma finish_failed_fields:
  assumes "finish_failed env error s = Some ((message, attempt), s')"
  shows "rs_packet s' = failed_packet env message (rs_packet s)" "rs_sleeps s' = rs_sleeps s"
    "rs_processed s' = rs_processed s" "rs_retried s' = rs_retried s" "rs_failed s' = rs_failed s + 1"
    "attempt = dp_attempt (rs_packet s)" "message = re_display env error"
  using assms by (auto simp: finish_failed_def failed_packet_def Let_def split: option.splits)

lemma failed_packet_attempt [simp]: "dp_attempt (failed_packet env message p) = dp_attempt p"
  by (simp add: failed_packet_def)

lemma is_PacketTooLarge_iff: "is_PacketTooLarge e \<longleftrightarrow> (\<exists>b c. e = PacketTooLarge b c)"
  by (cases e) auto

lemma retryable_not_too_large: "is_retryable e \<Longrightarrow> \<not> is_PacketTooLarge e"
  by (cases e) auto

text \<open>The step of the loop as a case rule.\<close>

lemma execute_with_retry_cases [consumes 1, case_names ok too_large retry failed]:
  assumes "execute_with_retry env s = Some (r, s')"
  obtains (ok) s1 where "run_attempt env (note_event env ProcessingStarted s) = Some (Inr (), s1)" "r = Inr None"
      "s' = finish_ok env (record_count (rs_packet s)) s1"
  | (too_large) b c where "run_attempt env (note_event env ProcessingStarted s) = Some (Inl (PacketTooLarge b c), s')"
      "r = Inl (PacketTooLarge b c)"
  | (retry) e s1 where "run_attempt env (note_event env ProcessingStarted s) = Some (Inl e, s1)" "is_retryable e"
      "dp_attempt (rs_packet s) < rt_maximum_attempts (re_retry env)"
      "execute_with_retry env (next_attempt env s1) = Some (r, s')"
  | (failed) e s1 f where "run_attempt env (note_event env ProcessingStarted s) = Some (Inl e, s1)"
      "\<not> (is_retryable e \<and> dp_attempt (rs_packet s) < rt_maximum_attempts (re_retry env))"
      "finish_failed env e s1 = Some (f, s')" "r = Inr (Some f)"
proof -
  from assms obtain outcome s1 where run: "run_attempt env (note_event env ProcessingStarted s) = Some (outcome, s1)"
    by (subst (asm) execute_with_retry.simps) (auto split: option.splits)
  show thesis
  proof (cases outcome)
    case (Inr u)
    with assms run ok show ?thesis by (subst (asm) execute_with_retry.simps) auto
  next
    case (Inl e)
    note step = assms [unfolded execute_with_retry.simps [of env s] run Inl, simplified]
    show ?thesis
    proof (cases "is_PacketTooLarge e")
      case True
      with step run Inl too_large show ?thesis by (auto simp: is_PacketTooLarge_iff)
    next
      case False
      show ?thesis
      proof (cases "dp_attempt (rs_packet s) < rt_maximum_attempts (re_retry env) \<and> is_retryable e")
        case True
        with step False run Inl retry show ?thesis by auto
      next
        case not: False
        with step False obtain f where f: "finish_failed env e s1 = Some (f, s')" "r = Inr (Some f)"
          by (auto split: option.splits if_splits)
        have "\<not> (is_retryable e \<and> dp_attempt (rs_packet s) < rt_maximum_attempts (re_retry env))" using not by blast
        then show ?thesis by (rule failed [OF run [unfolded Inl] _ f])
      qed
    qed
  qed
qed

text \<open>What an execution with retries did: \<open>n\<close> retries, with their waits, and one end.\<close>

definition retried_by :: "retry_env \<Rightarrow> nat \<Rightarrow> retry_state \<Rightarrow> (flow_error, (string \<times> nat) option) result \<Rightarrow> retry_state \<Rightarrow> bool" where
  "retried_by env n s r s' \<longleftrightarrow>
     (n = 0 \<or> dp_attempt (rs_packet s) + n \<le> rt_maximum_attempts (re_retry env)) \<and>
     dp_attempt (rs_packet s') = dp_attempt (rs_packet s) + n \<and>
     rs_retried s' = rs_retried s + n \<and>
     rs_sleeps s' = rs_sleeps s @
       map (\<lambda>k. min (rt_initial_delay_ms (re_retry env) * 2 ^ k) (rt_maximum_delay_ms (re_retry env)))
         [dp_attempt (rs_packet s) ..< dp_attempt (rs_packet s) + n] \<and>
     (case r of
        Inl e \<Rightarrow> (\<exists>b c. e = PacketTooLarge b c) \<and> rs_processed s' = rs_processed s \<and> rs_failed s' = rs_failed s
      | Inr None \<Rightarrow> rs_processed s' = rs_processed s + 1 \<and> rs_failed s' = rs_failed s
      | Inr (Some (message, attempt)) \<Rightarrow>
          rs_processed s' = rs_processed s \<and> rs_failed s' = rs_failed s + 1 \<and>
          attempt = dp_attempt (rs_packet s') \<and>
          hm_get (dp_attributes (rs_packet s')) ''error.processor'' = Some (re_processor_id env) \<and>
          hm_get (dp_attributes (rs_packet s')) ''error.message'' = Some message \<and>
          (\<exists>e. message = re_display env e \<and>
             (\<not> is_retryable e \<or> rt_maximum_attempts (re_retry env) \<le> attempt)))"

lemma retried_by_step:
  assumes "retried_by env n (next_attempt env s1) r s'" "rt_maximum_delay_ms (re_retry env) \<le> u64_max"
    and "dp_attempt (rs_packet s) < rt_maximum_attempts (re_retry env)"
    and "rs_packet s1 = rs_packet s" "rs_sleeps s1 = rs_sleeps s" "rs_processed s1 = rs_processed s"
      "rs_retried s1 = rs_retried s" "rs_failed s1 = rs_failed s"
  shows "retried_by env (Suc n) s r s'"
proof -
  let ?a = "dp_attempt (rs_packet s)"
  have "[?a ..< ?a + Suc n] = ?a # [Suc ?a ..< Suc ?a + n]" by (simp add: upt_conv_Cons)
  with assms show ?thesis
    by (auto simp: retried_by_def backoff_exact split: sum.splits option.splits)
qed

lemma retried_by_end:
  assumes "dp_attempt (rs_packet s') = dp_attempt (rs_packet s)" "rs_sleeps s' = rs_sleeps s" "rs_retried s' = rs_retried s"
    and "case r of
        Inl e \<Rightarrow> (\<exists>b c. e = PacketTooLarge b c) \<and> rs_processed s' = rs_processed s \<and> rs_failed s' = rs_failed s
      | Inr None \<Rightarrow> rs_processed s' = rs_processed s + 1 \<and> rs_failed s' = rs_failed s
      | Inr (Some (message, attempt)) \<Rightarrow>
          rs_processed s' = rs_processed s \<and> rs_failed s' = rs_failed s + 1 \<and>
          attempt = dp_attempt (rs_packet s') \<and>
          hm_get (dp_attributes (rs_packet s')) ''error.processor'' = Some (re_processor_id env) \<and>
          hm_get (dp_attributes (rs_packet s')) ''error.message'' = Some message \<and>
          (\<exists>e. message = re_display env e \<and>
             (\<not> is_retryable e \<or> rt_maximum_attempts (re_retry env) \<le> attempt))"
  shows "retried_by env 0 s r s'"
  unfolding retried_by_def using assms by simp

lemma execute_with_retry_retried:
  assumes "rt_maximum_delay_ms (re_retry env) \<le> u64_max"
  shows "execute_with_retry env s = Some (r, s') \<Longrightarrow> \<exists>n. retried_by env n s r s'"
  using assms
proof (induction env s rule: execute_with_retry.induct)
  case (1 env s)
  from 1(2) show ?case
  proof (cases rule: execute_with_retry_cases)
    case (ok s1)
    note f = run_attempt_fields [OF ok(1)]
    have "retried_by env 0 s r s'" by (rule retried_by_end) (simp_all add: ok f)
    then show ?thesis ..
  next
    case (too_large b c)
    note f = run_attempt_fields [OF too_large(1)]
    have "retried_by env 0 s r s'" by (rule retried_by_end) (simp_all add: too_large f)
    then show ?thesis ..
  next
    case (retry e s1)
    then have "\<exists>n. retried_by env n (next_attempt env s1) r s'"
      using 1(1) [OF retry(1) refl refl] 1(3) retryable_not_too_large by simp
    then obtain n where n: "retried_by env n (next_attempt env s1) r s'" ..
    have "retried_by env (Suc n) s r s'"
      by (rule retried_by_step [OF n 1(3) retry(3)]) (simp_all add: run_attempt_fields [OF retry(1)])
    then show ?thesis ..
  next
    case (failed e s1 f)
    obtain message attempt where f: "f = (message, attempt)" by fastforce
    note a = run_attempt_fields [OF failed(1)] and b = finish_failed_fields [OF failed(3) [unfolded f]]
    have "retried_by env 0 s r s'"
      using failed(2) by (intro retried_by_end) (auto simp: failed(4) f a b failed_packet_def)
    then show ?thesis ..
  qed
qed

lemma emit_returns:
  assumes "\<And>units bytes out. aw_reserve aw units bytes out \<noteq> None"
    and "\<And>out. ou_closed (aw_send aw out) \<or> length (ou_channel (aw_send aw out)) < ou_capacity (aw_send aw out)"
  shows "\<exists>y. emit cd aw relationship packet out = Some y"
proof -
  have never: "aw_reserve aw units bytes o' = None \<longleftrightarrow> False" for units bytes o' using assms(1) by simp
  show ?thesis
    using assms(2) by (auto simp: emit_def send_def Let_def never split: prod.splits sum.splits option.splits)
qed

lemma run_attempt_returns:
  assumes "\<And>p out. fst (re_execute env p out) = None \<Longrightarrow> re_timeout_ms env \<noteq> None"
  shows "\<exists>y. run_attempt env s = Some y"
proof (cases "reserve_working_copy (re_codec env) (rs_packet s) (rs_output s)")
  case (Pair r out)
  obtain ended out' where "re_execute env (rs_packet s) out = (ended, out')" by fastforce
  with Pair assms [of "rs_packet s" out] show ?thesis
    by (auto simp: run_attempt_def split: sum.splits option.splits)
qed

lemma execute_with_retry_returns:
  assumes ends: "\<And>p out. fst (re_execute env p out) = None \<Longrightarrow> re_timeout_ms env \<noteq> None"
    and reserves: "\<And>units bytes out. aw_reserve (re_awaits env) units bytes out \<noteq> None"
    and sends: "\<And>out. ou_closed (aw_send (re_awaits env) out) \<or>
      length (ou_channel (aw_send (re_awaits env) out)) < ou_capacity (aw_send (re_awaits env) out)"
  shows "\<exists>y. execute_with_retry env s = Some y"
  using assms
proof (induction env s rule: execute_with_retry.induct)
  case (1 env s)
  from run_attempt_returns [OF 1(2)] have "\<exists>y. run_attempt env (note_event env ProcessingStarted s) = Some y" .
  then obtain outcome s1 where run: "run_attempt env (note_event env ProcessingStarted s) = Some (outcome, s1)" by auto
  have fin: "\<exists>y. finish_failed env e s1 = Some y" for e
    using emit_returns [OF 1(3,4)] by (fastforce simp: finish_failed_def Let_def split: option.splits prod.splits)
  show ?case
  proof (cases outcome)
    case (Inr u)
    then show ?thesis using run by (subst execute_with_retry.simps) simp
  next
    case (Inl e)
    show ?thesis
    proof (cases "\<not> is_PacketTooLarge e \<and> dp_attempt (rs_packet s) < rt_maximum_attempts (re_retry env) \<and> is_retryable e")
      case True
      then have "\<exists>y. execute_with_retry env (next_attempt env s1) = Some y"
        using 1(1) [OF run refl Inl] 1(2-4) by blast
      then show ?thesis using True run Inl by (subst execute_with_retry.simps) simp
    next
      case False
      from fin [of e] obtain y where "finish_failed env e s1 = Some y" ..
      with False run Inl show ?thesis by (subst execute_with_retry.simps) (cases y; auto)
    qed
  qed
qed

section \<open>Properties\<close>

text \<open>
  C8. An execution with retries ends in one of three ways: it succeeds and counts one
  processed packet; it fails for good, after a non-retryable error or with the attempts used up,
  counts one failure and leaves the packet with the error in its attributes; or it stops the
  flow, for a packet beyond the memory budget only. Before that it retries as often as the
  attempt of the packet grows, never beyond \<open>maximum_attempts\<close>, and the wait after attempt
  \<open>k\<close> is \<open>initial_delay_ms * 2 ^ k\<close>, capped by \<open>maximum_delay_ms\<close>, without overflow.
\<close>

theorem retry_schedule:
  assumes "execute_with_retry env s = Some (r, s')" "rt_maximum_delay_ms (re_retry env) \<le> u64_max"
  shows "\<exists>n. retried_by env n s r s'"
  by (rule execute_with_retry_retried [OF assms(2,1)])

text \<open>
  C9. An execution with retries returns when everything it waits for comes to an end: every
  execution of the processor ends or has a timeout, every wait for packet memory is answered (granted
  or refused), and the output channel gets room again or is closed.
\<close>

theorem retry_returns:
  assumes "\<And>p out. fst (re_execute env p out) = None \<Longrightarrow> re_timeout_ms env \<noteq> None"
    and "\<And>units bytes out. aw_reserve (re_awaits env) units bytes out \<noteq> None"
    and "\<And>out. ou_closed (aw_send (re_awaits env) out) \<or>
      length (ou_channel (aw_send (re_awaits env) out)) < ou_capacity (aw_send (re_awaits env) out)"
  shows "\<exists>r s'. execute_with_retry env s = Some (r, s')"
  using execute_with_retry_returns [OF assms, where s = s] by auto

text \<open>
  The attempts are those of the packet and not of the stage: a packet that is routed on
  with its attempts used up is executed once by the next processor, whatever the error.
\<close>

theorem retry_budget_shared:
  assumes "execute_with_retry env s = Some (r, s')" "rt_maximum_delay_ms (re_retry env) \<le> u64_max"
    and "rs_packet s = wi_packet (branch_item emission c reservation queue_id)"
    and "rt_maximum_attempts (re_retry env) \<le> dp_attempt (em_packet emission)"
  shows "rs_retried s' = rs_retried s \<and> rs_sleeps s' = rs_sleeps s"
  using execute_with_retry_retried [OF assms(2,1)] assms(3,4)
  by (auto simp: retried_by_def branch_item_def)

subsection \<open>Witnesses\<close>

definition example_output :: output_sender where
  "example_output = with_routed_relationships [] (output_new ''a'' [] 1 (from_budget 1000000) 0)"

text \<open>A processor that fails for the first time and a wait that ends with an empty channel.\<close>

definition example_retry :: retry_env where
  "example_retry =
     \<lparr> re_codec = example_codec, re_display = (\<lambda>_. ''boom''),
       re_awaits = \<lparr> aw_reserve = (\<lambda>units bytes out. Some (Inr \<lparr> rv_units = units, rv_shared = False, rv_bytes = bytes \<rparr>, out)),
                    aw_send = (\<lambda>out. out\<lparr>ou_channel := [], ou_capacity := 1\<rparr>) \<rparr>,
       re_execute = (\<lambda>p out. (Some (if dp_attempt p = 0 then Inl (ServerError ''x'') else Inr ()), out)),
       re_processor_id = ''a'',
       re_retry = \<lparr> rt_maximum_attempts = 1, rt_initial_delay_ms = 250, rt_maximum_delay_ms = 30000 \<rparr>,
       re_timeout_ms = None, re_queue_id = None, re_now = 0 \<rparr>"

definition example_attempt :: "nat \<Rightarrow> retry_state" where
  "example_attempt n =
     \<lparr> rs_packet = example_packet\<lparr>dp_attempt := n\<rparr>, rs_output = example_output, rs_repository = None,
       rs_sleeps = [], rs_processed = 0, rs_retried = 0, rs_failed = 0 \<rparr>"

lemma example_retry_run:
  "run_attempt example_retry s =
     (if ou_holds_input (rs_output s) then run_attempt example_retry s
      else Some (if dp_attempt (rs_packet s) = 0 then Inl (ServerError ''x'') else Inr (), s))"
  by (simp add: run_attempt_def reserve_working_copy_def example_retry_def)

lemma example_retried:
  "\<exists>s'. execute_with_retry example_retry (example_attempt 0) = Some (Inr None, s') \<and> rs_sleeps s' = [250]"
proof -
  have input: "\<not> ou_holds_input (rs_output (example_attempt 0))"
    by (simp add: example_attempt_def example_output_def with_routed_relationships_def output_new_def)
  have fields: "rs_output (next_attempt example_retry s) = rs_output s" for s
    by (simp add: next_attempt_def Let_def)
  show ?thesis
    using input
    by (subst execute_with_retry.simps, subst example_retry_run)
      (simp add: fields execute_with_retry.simps [of _ "next_attempt _ _"] example_retry_run [of "note_event _ _ (next_attempt _ _)"],
        simp add: example_attempt_def example_retry_def backoff_def sat_mul_def sat_pow_def u64_max_def)
qed

lemma retry_schedule_witness:
  "\<exists>n s'. retried_by example_retry n (example_attempt 0) (Inr None) s' \<and> rs_sleeps s' = [250]"
proof -
  obtain s' where run: "execute_with_retry example_retry (example_attempt 0) = Some (Inr None, s')"
    and "rs_sleeps s' = [250]" using example_retried by blast
  moreover have "rt_maximum_delay_ms (re_retry example_retry) \<le> u64_max" by (simp add: example_retry_def u64_max_def)
  ultimately show ?thesis using retry_schedule [OF run] by blast
qed

lemma retry_returns_witness: "\<exists>r s'. execute_with_retry example_retry (example_attempt 0) = Some (r, s')"
  by (rule retry_returns) (simp_all add: example_retry_def)

definition example_no_retry :: retry_env where
  "example_no_retry = example_retry\<lparr>re_retry := retry_default\<rparr>"

lemma example_failed:
  "\<exists>s'. execute_with_retry example_no_retry (example_attempt 0) = Some (Inr (Some (''boom'', 0)), s')"
proof -
  have input: "\<not> ou_holds_input (rs_output (example_attempt 0))"
    by (simp add: example_attempt_def example_output_def with_routed_relationships_def output_new_def)
  have run: "run_attempt example_no_retry s =
     (if ou_holds_input (rs_output s) then run_attempt example_no_retry s
      else Some (if dp_attempt (rs_packet s) = 0 then Inl (ServerError ''x'') else Inr (), s))" for s
    by (simp add: run_attempt_def reserve_working_copy_def example_no_retry_def example_retry_def)
  have routed: "ou_routed (rs_output (example_attempt 0)) = Some []"
    by (simp add: example_attempt_def example_output_def with_routed_relationships_def output_new_def)
  show ?thesis
    using input
    by (subst execute_with_retry.simps, subst run)
      (simp add: example_attempt_def [THEN arg_cong [where f = rs_packet]] finish_failed_def emit_def routed
        failed_packet_def Let_def example_no_retry_def example_retry_def retry_default_def)
qed

lemma retry_budget_shared_witness:
  "\<exists>s'. execute_with_retry example_no_retry (example_attempt 0) = Some (Inr (Some (''boom'', 0)), s') \<and> rs_sleeps s' = []"
proof -
  obtain s' where run: "execute_with_retry example_no_retry (example_attempt 0) = Some (Inr (Some (''boom'', 0)), s')"
    using example_failed by blast
  have "rs_packet (example_attempt 0) = wi_packet (branch_item (example_emission\<lparr>em_packet := example_packet\<lparr>dp_attempt := 0\<rparr>\<rparr>)
      example_edge undefined None)"
    by (simp add: example_attempt_def branch_item_def)
  from retry_budget_shared [OF run _ this] have "rs_sleeps s' = rs_sleeps (example_attempt 0)"
    by (simp add: example_no_retry_def retry_default_def default_retry_max_delay_def u64_max_def)
  with run show ?thesis by (auto simp: example_attempt_def)
qed

end
