(* ===== verification/Flow_Validation.thy ===== *)
theory Flow_Validation
  imports Flow_Error
begin

text \<open>
  Preparation of a configuration before the engine is built
  (\<open>crates/jaiba-runtime/src/engine/executor/validation.rs\<close> and \<open>FlowEngine::new\<close> in
  \<open>executor/mod.rs\<close>): the longest path from each processor, the interpolation of
  \<open>${\<dots>}\<close> parameters, and the checks of \<open>validate\<close>.
\<close>

section \<open>Downstream depths\<close>

text \<open>
  The depth-first search threads its memo table; \<open>visiting\<close> is the stack of processors
  whose visit has not returned. A call leaves \<open>visiting\<close> as it found it (it inserts its
  processor, which was absent, and removes it at the end), so the stack is an argument
  only. \<open>visit_all\<close> is the iteration over the outgoing connections.
\<close>

definition targets :: "connection_config list \<Rightarrow> string \<Rightarrow> string list" where
  "targets cs p = map cn_to (filter (\<lambda>c. cn_from c = p) cs)"

definition max_or_default :: "nat list \<Rightarrow> nat" where
  "max_or_default ds = (case iter_max ds of None \<Rightarrow> 0 | Some d \<Rightarrow> d)"

lemma visit_measure:
  assumes "p \<notin> set visiting"
  shows "card ((cn_to ` set cs \<union> set (targets cs p)) - set (p # visiting))
    < card (insert p (cn_to ` set cs) - set visiting)"
proof (rule psubset_card_mono)
  have "set (targets cs p) \<subseteq> cn_to ` set cs" by (auto simp: targets_def)
  then show "(cn_to ` set cs \<union> set (targets cs p)) - set (p # visiting)
      \<subset> insert p (cn_to ` set cs) - set visiting"
    using assms by auto
qed simp

lemma visit_all_measure:
  "card (insert t (cn_to ` set cs) - set visiting) \<le> card (cn_to ` set cs \<union> set (t # ts) - set visiting)"
  "card (cn_to ` set cs \<union> set ts - set visiting) \<le> card (cn_to ` set cs \<union> set (t # ts) - set visiting)"
  by (rule card_mono; auto)+

function
  visit :: "connection_config list \<Rightarrow> nat hmap \<Rightarrow> string list \<Rightarrow> string \<Rightarrow> nat \<times> nat hmap" and
  visit_all :: "connection_config list \<Rightarrow> nat hmap \<Rightarrow> string list \<Rightarrow> string list \<Rightarrow> nat list \<times> nat hmap"
where
  "visit cs memo visiting p =
     (case hm_get memo p of
        Some depth \<Rightarrow> (depth, memo)
      | None \<Rightarrow>
          if p \<in> set visiting then (0, memo)
          else (let (ds, memo') = visit_all cs memo (p # visiting) (targets cs p);
                    depth = max_or_default ds
                in (depth, hm_insert p depth memo')))"
| "visit_all cs memo visiting [] = ([], memo)"
| "visit_all cs memo visiting (t # ts) =
     (let (d, memo') = visit cs memo visiting t;
          (ds, memo'') = visit_all cs memo' visiting ts
      in (sat_add 1 d # ds, memo''))"
  by pat_completeness auto

termination
proof (relation "measures
    [\<lambda>x. case x of Inl (cs, _, visiting, p) \<Rightarrow> card (insert p (cn_to ` set cs) - set visiting)
      | Inr (cs, _, visiting, ts) \<Rightarrow> card ((cn_to ` set cs \<union> set ts) - set visiting),
     \<lambda>x. case x of Inl _ \<Rightarrow> 0 | Inr (_, _, _, ts) \<Rightarrow> length ts + 1]", goal_cases)
  case 1
  then show ?case by simp
next
  case (2 cs memo visiting p)
  from visit_measure [OF this(2), of cs] show ?case by simp
next
  case (3 cs memo visiting t ts)
  from visit_all_measure(1) [of t cs visiting ts] show ?case by (auto simp: le_less)
next
  case (4 cs memo visiting t ts x xa y)
  from visit_all_measure(2) [of cs ts visiting t] show ?case by (auto simp: le_less)
qed


declare visit.simps [simp del]

definition processor_downstream_depths :: "flow_config \<Rightarrow> nat hmap" where
  "processor_downstream_depths fc =
     fold (\<lambda>p depths. snd (visit (fc_connections fc) depths [] (pc_id p))) (fc_processors fc) []"

section \<open>Parameters\<close>

text \<open>
  The environment is the parameter \<open>env\<close>. The loop need not end (a variable may hold its own
  placeholder), so its result is an \<open>option\<close>, \<open>None\<close> when it runs forever.
\<close>

partial_function (option) resolve_environment_placeholders ::
  "(string \<Rightarrow> string option) \<Rightarrow> string \<Rightarrow> (flow_error, string) result option" where
  "resolve_environment_placeholders env text =
     (case find_sub ''${env:'' text of
        None \<Rightarrow> Some (Inr text)
      | Some start \<Rightarrow>
          (let name_start = start + length ''${env:''
           in case find_sub ''}'' (drop name_start text) of
             None \<Rightarrow> Some (Inl (Configuration (InvalidEnvironmentPlaceholder text)))
           | Some relative_end \<Rightarrow>
               (let name = take relative_end (drop name_start text)
                in case env name of
                  None \<Rightarrow> Some (Inl (Configuration (EnvironmentVariableMissing name)))
                | Some v \<Rightarrow>
                    resolve_environment_placeholders env
                      (take start text @ v @ drop (name_start + relative_end + 1) text))))"

definition interpolate_text ::
  "(string \<Rightarrow> string option) \<Rightarrow> string hmap \<Rightarrow> string \<Rightarrow> (flow_error, string) result option" where
  "interpolate_text env parameters text =
     (let text = fold (\<lambda>(name, replacement) text. str_replace (''${'' @ name @ ''}'') replacement text)
                   parameters text
      in case resolve_environment_placeholders env text of
        None \<Rightarrow> None
      | Some (Inl e) \<Rightarrow> Some (Inl e)
      | Some (Inr text) \<Rightarrow>
          if contains text ''${'' then Some (Inl (Configuration (UnresolvedParameter text)))
          else Some (Inr text))"

fun interpolate_value ::
      "(string \<Rightarrow> string option) \<Rightarrow> string hmap \<Rightarrow> json \<Rightarrow> (flow_error, json) result option" and
    interpolate_items ::
      "(string \<Rightarrow> string option) \<Rightarrow> string hmap \<Rightarrow> json list \<Rightarrow> (flow_error, json list) result option" and
    interpolate_members ::
      "(string \<Rightarrow> string option) \<Rightarrow> string hmap \<Rightarrow> (string \<times> json) list \<Rightarrow>
       (flow_error, (string \<times> json) list) result option"
where
  "interpolate_value env parameters (JString text) =
     (case interpolate_text env parameters text of
        None \<Rightarrow> None
      | Some (Inl e) \<Rightarrow> Some (Inl e)
      | Some (Inr text) \<Rightarrow> Some (Inr (JString text)))"
| "interpolate_value env parameters (JArray items) =
     (case interpolate_items env parameters items of
        None \<Rightarrow> None
      | Some (Inl e) \<Rightarrow> Some (Inl e)
      | Some (Inr items) \<Rightarrow> Some (Inr (JArray items)))"
| "interpolate_value env parameters (JObject members) =
     (case interpolate_members env parameters members of
        None \<Rightarrow> None
      | Some (Inl e) \<Rightarrow> Some (Inl e)
      | Some (Inr members) \<Rightarrow> Some (Inr (JObject members)))"
| "interpolate_value env parameters JNull = Some (Inr JNull)"
| "interpolate_value env parameters (JBool b) = Some (Inr (JBool b))"
| "interpolate_value env parameters (JNumber n) = Some (Inr (JNumber n))"
| "interpolate_items env parameters [] = Some (Inr [])"
| "interpolate_items env parameters (item # items) =
     (case interpolate_value env parameters item of
        None \<Rightarrow> None
      | Some (Inl e) \<Rightarrow> Some (Inl e)
      | Some (Inr item) \<Rightarrow>
          (case interpolate_items env parameters items of
             None \<Rightarrow> None
           | Some (Inl e) \<Rightarrow> Some (Inl e)
           | Some (Inr items) \<Rightarrow> Some (Inr (item # items))))"
| "interpolate_members env parameters [] = Some (Inr [])"
| "interpolate_members env parameters ((key, item) # members) =
     (case interpolate_value env parameters item of
        None \<Rightarrow> None
      | Some (Inl e) \<Rightarrow> Some (Inl e)
      | Some (Inr item) \<Rightarrow>
          (case interpolate_members env parameters members of
             None \<Rightarrow> None
           | Some (Inl e) \<Rightarrow> Some (Inl e)
           | Some (Inr members) \<Rightarrow> Some (Inr ((key, item) # members))))"

fun resolve_processors ::
  "(string \<Rightarrow> string option) \<Rightarrow> string hmap \<Rightarrow> processor_config list \<Rightarrow>
   (flow_error, processor_config list) result option" where
  "resolve_processors env parameters [] = Some (Inr [])"
| "resolve_processors env parameters (p # ps) =
     (case interpolate_value env parameters (pc_config p) of
        None \<Rightarrow> None
      | Some (Inl e) \<Rightarrow> Some (Inl e)
      | Some (Inr config) \<Rightarrow>
          (case resolve_processors env parameters ps of
             None \<Rightarrow> None
           | Some (Inl e) \<Rightarrow> Some (Inl e)
           | Some (Inr ps) \<Rightarrow> Some (Inr (p\<lparr>pc_config := config\<rparr> # ps))))"

definition resolve_processor_parameters ::
  "(string \<Rightarrow> string option) \<Rightarrow> flow_config \<Rightarrow> (flow_error, flow_config) result option" where
  "resolve_processor_parameters env fc =
     (case resolve_processors env (fc_parameters fc) (fc_processors fc) of
        None \<Rightarrow> None
      | Some (Inl e) \<Rightarrow> Some (Inl e)
      | Some (Inr ps) \<Rightarrow> Some (Inr (fc\<lparr>fc_processors := ps\<rparr>)))"

section \<open>The checks\<close>

definition fanout :: "connection_config list \<Rightarrow> ((string \<times> string) \<times> nat) list" where
  "fanout cs =
     fold (\<lambda>c m. let key = (cn_from c, cn_relationship c)
                 in hm_insert key ((case hm_get m key of None \<Rightarrow> 0 | Some n \<Rightarrow> n) + 1) m) cs []"

text \<open>The largest fan-out, when it exceeds the capacity.\<close>

definition fanout_excess :: "nat \<Rightarrow> connection_config list \<Rightarrow> nat option" where
  "fanout_excess capacity cs =
     (case iter_max (map snd (fanout cs)) of
        None \<Rightarrow> None
      | Some max_fanout \<Rightarrow> if capacity < max_fanout then Some max_fanout else None)"

fun validate_processors :: "string list \<Rightarrow> processor_config list \<Rightarrow> (config_error, string list) result" where
  "validate_processors ids [] = Inr ids"
| "validate_processors ids (p # ps) =
     (if sim_mode (pc_simulation p) \<noteq> Real
      then Inl (NotRealDataMode (pc_id p) (sim_mode (pc_simulation p)))
      else if sd_concurrent_tasks (pc_scheduling p) = 0 then Inl (NoConcurrentTask (pc_id p))
      else if sd_maximum_in_flight (pc_scheduling p) = Some 0 then Inl (MaximumInFlightZero (pc_id p))
      else if (case sd_maximum_in_flight (pc_scheduling p) of None \<Rightarrow> False
               | Some maximum \<Rightarrow> maximum < sd_concurrent_tasks (pc_scheduling p))
      then Inl (MaximumInFlightBelowConcurrentTasks (pc_id p))
      else if sd_ordering (pc_scheduling p) = Partitioned \<and>
              (case sd_partition_by (pc_scheduling p) of None \<Rightarrow> True | Some selector \<Rightarrow> selector = [])
      then Inl (NoPartitionSelector (pc_id p))
      else if pc_id p \<in> set ids then Inl (DuplicateProcessorId (pc_id p))
      else validate_processors (ids @ [pc_id p]) ps)"

fun validate_connections :: "string list \<Rightarrow> connection_config list \<Rightarrow> (config_error, unit) result" where
  "validate_connections ids [] = Inr ()"
| "validate_connections ids (c # cs) =
     (if cn_queue_capacity c = 0 then Inl ConnectionCapacityZero
      else if cn_from c \<notin> set ids \<or> cn_to c \<notin> set ids
      then Inl (ConnectionToUnknownProcessor (cn_from c) (cn_to c))
      else validate_connections ids cs)"

definition required_pipeline_slots :: "flow_config \<Rightarrow> nat" where
  "required_pipeline_slots fc = sat_add (max_or_default (map snd (processor_downstream_depths fc))) 1"

definition validate_config :: "flow_config \<Rightarrow> (config_error, unit) result" where
  "validate_config fc =
     (let engine = fc_engine fc; capacity = ec_queue_capacity engine; admin = ec_admin engine
      in if fc_processors fc = [] then Inl NoProcessors
      else if capacity = 0 \<or> ec_max_concurrency engine = 0 then Inl EngineCapacitiesZero
      else case fanout_excess capacity (fc_connections fc) of
        Some max_fanout \<Rightarrow> Inl (QueueCapacityBelowFanout capacity max_fanout)
      | None \<Rightarrow>
          if sc_drain_timeout_seconds (ec_shutdown engine) = 0 then Inl DrainTimeoutZero
          else if ac_max_request_body_bytes admin = 0 then Inl RequestBodyLimitZero
          else if ac_enabled admin \<and> ac_authentication admin = AuthBearer \<and> trim (ac_token_env admin) = []
          then Inl AdminTokenEnvEmpty
          else if wc_cpu_threads (ec_workers engine) > 1024 \<or> wc_blocking_threads (ec_workers engine) > 1024
          then Inl WorkerLimitsTooLarge
          else case validate_processors [] (fc_processors fc) of
            Inl e \<Rightarrow> Inl e
          | Inr ids \<Rightarrow>
              (case validate_connections ids (fc_connections fc) of
                 Inl e \<Rightarrow> Inl e
               | Inr _ \<Rightarrow>
                   if list_all (\<lambda>p. pc_id p \<in> set (map cn_to (fc_connections fc))) (fc_processors fc)
                   then Inl NoStartingProcessor
                   else if ec_max_concurrency engine < required_pipeline_slots fc
                   then Inl (ConcurrencyBelowLongestPath (required_pipeline_slots fc))
                   else Inr ()))"

definition validate :: "flow_config \<Rightarrow> (flow_error, unit) result" where
  "validate fc = (case validate_config fc of Inl e \<Rightarrow> Inl (Configuration e) | Inr _ \<Rightarrow> Inr ())"

text \<open>
  The configuration part of \<open>FlowEngine::new\<close>: the resolved configuration that the engine
  keeps. The outer \<open>option\<close> is \<open>None\<close> when it panics or does not return.
\<close>

definition flow_engine_new ::
  "(string list \<Rightarrow> string list) \<Rightarrow> (string \<Rightarrow> string option) \<Rightarrow> flow_config \<Rightarrow>
   (flow_error, flow_config) result option" where
  "flow_engine_new ord env fc =
     (case build ord fc of
        None \<Rightarrow> None
      | Some (Inl e) \<Rightarrow> Some (Inl (Configuration (InvalidGraph e)))
      | Some (Inr _) \<Rightarrow>
          (case resolve_processor_parameters env fc of
             None \<Rightarrow> None
           | Some (Inl e) \<Rightarrow> Some (Inl e)
           | Some (Inr fc) \<Rightarrow>
               (case validate fc of Inl e \<Rightarrow> Some (Inl e) | Inr _ \<Rightarrow> Some (Inr fc))))"


section \<open>Depths are longest paths\<close>

fun is_walk :: "(string \<times> string) list \<Rightarrow> string list \<Rightarrow> bool" where
  "is_walk es [] = False"
| "is_walk es [a] = True"
| "is_walk es (a # b # ps) = ((a, b) \<in> set es \<and> is_walk es (b # ps))"

text \<open>\<open>d\<close> is the number of hops of a longest walk from \<open>p\<close> (capped at \<open>usize::MAX\<close>).\<close>

definition is_depth :: "(string \<times> string) list \<Rightarrow> string \<Rightarrow> nat \<Rightarrow> bool" where
  "is_depth es p d \<longleftrightarrow>
     (\<exists>ps. is_walk es (p # ps) \<and> min (length ps) u64_max = d) \<and>
     (\<forall>ps. is_walk es (p # ps) \<longrightarrow> min (length ps) u64_max \<le> d)"

definition memo_ok :: "(string \<times> string) list \<Rightarrow> nat hmap \<Rightarrow> bool" where
  "memo_ok es memo \<longleftrightarrow> (\<forall>q d. hm_get memo q = Some d \<longrightarrow> is_depth es q d)"

lemma set_targets: "t \<in> set (targets cs p) \<longleftrightarrow> (p, t) \<in> set (edge_pairs cs)"
  by (force simp: targets_def)

lemma max_or_default_Nil [simp]: "max_or_default [] = 0"
  by (simp add: max_or_default_def iter_max_def)

lemma max_or_default_ge: "d \<in> set ds \<Longrightarrow> d \<le> max_or_default ds"
  using iter_max_Max [of ds] by (cases "ds = []") (auto simp: max_or_default_def)

lemma max_or_default_in: "ds \<noteq> [] \<Longrightarrow> max_or_default ds \<in> set ds"
  using iter_max_Max [of ds] Max_in [of "set ds"] by (simp add: max_or_default_def)

lemma max_or_default_le: "(\<And>d. d \<in> set ds \<Longrightarrow> d \<le> n) \<Longrightarrow> max_or_default ds \<le> n"
  using max_or_default_in [of ds] by (cases "ds = []") auto

lemma sat_add_1_min: "sat_add 1 (min n u64_max) = min (Suc n) u64_max"
  by (auto simp: sat_add_def u64_max_def min_def)

lemma sat_add_mono: "a \<le> b \<Longrightarrow> sat_add 1 a \<le> sat_add 1 b"
  by (simp add: sat_add_def min_def)

lemma is_depth_step:
  assumes "list_all2 (\<lambda>t d. \<exists>d0. is_depth (edge_pairs cs) t d0 \<and> d = sat_add 1 d0) (targets cs p) ds"
  shows "is_depth (edge_pairs cs) p (max_or_default ds)"
  unfolding is_depth_def
proof (intro conjI allI impI)
  show "\<exists>ps. is_walk (edge_pairs cs) (p # ps) \<and> min (length ps) u64_max = max_or_default ds"
  proof (cases "ds = []")
    case True
    then show ?thesis by (intro exI [of _ "[]"]) simp
  next
    case False
    from max_or_default_in [OF this] obtain i where i: "i < length ds" "ds ! i = max_or_default ds"
      by (auto simp: in_set_conv_nth)
    with assms obtain d0 where d0: "is_depth (edge_pairs cs) (targets cs p ! i) d0" "max_or_default ds = sat_add 1 d0"
      by (auto simp: list_all2_conv_all_nth)
    then obtain ps where ps: "is_walk (edge_pairs cs) (targets cs p ! i # ps)" "min (length ps) u64_max = d0"
      by (auto simp: is_depth_def)
    have "(p, targets cs p ! i) \<in> set (edge_pairs cs)"
      using i assms by (simp only: set_targets [symmetric] list_all2_lengthD nth_mem)
    moreover have "max_or_default ds = min (Suc (length ps)) u64_max"
      unfolding d0(2) ps(2) [symmetric] by (rule sat_add_1_min)
    ultimately show ?thesis using ps(1)
      by (intro exI [of _ "targets cs p ! i # ps"]) (simp del: set_map)
  qed
next
  fix ps
  assume walk: "is_walk (edge_pairs cs) (p # ps)"
  show "min (length ps) u64_max \<le> max_or_default ds"
  proof (cases ps)
    case Nil
    then show ?thesis by simp
  next
    case (Cons t qs)
    with walk have "t \<in> set (targets cs p)" "is_walk (edge_pairs cs) (t # qs)"
      by (simp_all add: set_targets)
    then obtain i where i: "i < length (targets cs p)" "targets cs p ! i = t" by (auto simp: in_set_conv_nth)
    with list_all2_nthD [OF assms i(1)]
    obtain d0 where d0: "is_depth (edge_pairs cs) t d0" "ds ! i = sat_add 1 d0" by auto
    have "ds ! i \<in> set ds" using i(1) list_all2_lengthD [OF assms] by simp
    then have in_ds: "sat_add 1 d0 \<in> set ds" by (simp only: d0(2))
    then have "min (length qs) u64_max \<le> d0" using d0(1) \<open>is_walk (edge_pairs cs) (t # qs)\<close>
      unfolding is_depth_def by blast
    then have "min (length ps) u64_max \<le> sat_add 1 d0"
      using sat_add_mono Cons by (metis length_Cons sat_add_1_min)
    also have "\<dots> \<le> max_or_default ds" by (rule max_or_default_ge [OF in_ds])
    finally show ?thesis .
  qed
qed

lemma visit_correct:
  assumes "acyclic (set (edge_pairs cs))"
  shows "memo_ok (edge_pairs cs) memo \<Longrightarrow> (\<And>v. v \<in> set visiting \<Longrightarrow> (v, p) \<in> (set (edge_pairs cs))\<^sup>+) \<Longrightarrow>
      is_depth (edge_pairs cs) p (fst (visit cs memo visiting p)) \<and>
      memo_ok (edge_pairs cs) (snd (visit cs memo visiting p)) \<and>
      dom (map_of memo) \<union> {p} \<subseteq> dom (map_of (snd (visit cs memo visiting p)))"
    and "memo_ok (edge_pairs cs) memo \<Longrightarrow>
      (\<And>v t. v \<in> set visiting \<Longrightarrow> t \<in> set ts \<Longrightarrow> (v, t) \<in> (set (edge_pairs cs))\<^sup>+) \<Longrightarrow>
      list_all2 (\<lambda>t d. \<exists>d0. is_depth (edge_pairs cs) t d0 \<and> d = sat_add 1 d0) ts (fst (visit_all cs memo visiting ts)) \<and>
      memo_ok (edge_pairs cs) (snd (visit_all cs memo visiting ts)) \<and>
      dom (map_of memo) \<subseteq> dom (map_of (snd (visit_all cs memo visiting ts)))"
  using assms
proof (induction cs memo visiting p and cs memo visiting ts rule: visit_visit_all.induct)
  case (1 cs memo visiting p)
  show ?case
  proof (cases "hm_get memo p")
    case (Some d)
    with 1 show ?thesis by (auto simp: memo_ok_def visit.simps)
  next
    case None
    have fresh: "p \<notin> set visiting" using 1(3,4) by (auto simp: acyclic_def)
    have "(v, t) \<in> (set (edge_pairs cs))\<^sup>+" if "v \<in> set (p # visiting)" "t \<in> set (targets cs p)" for v t
    proof -
      have "(p, t) \<in> set (edge_pairs cs)" using that(2) by (simp only: set_targets)
      with 1(3) [of v] that(1) show ?thesis
        by (cases "v = p") (auto simp del: set_map intro: trancl_into_trancl)
    qed
    from 1(1) [OF None fresh 1(2) this 1(4)]
    have IH: "list_all2 (\<lambda>t d. \<exists>d0. is_depth (edge_pairs cs) t d0 \<and> d = sat_add 1 d0) (targets cs p)
        (fst (visit_all cs memo (p # visiting) (targets cs p)))"
      "memo_ok (edge_pairs cs) (snd (visit_all cs memo (p # visiting) (targets cs p)))"
      "dom (map_of memo) \<subseteq> dom (map_of (snd (visit_all cs memo (p # visiting) (targets cs p))))"
      by blast+
    from is_depth_step [OF IH(1)] IH(2,3) None fresh show ?thesis
      by (auto simp: visit.simps Let_def split_beta memo_ok_def dom_def subset_iff)
  qed
next
  case (2 cs memo visiting)
  then show ?case by simp
next
  case (3 cs memo visiting t ts)
  from 3(1) [OF 3(3) _ 3(5)] 3(4)
  have A: "is_depth (edge_pairs cs) t (fst (visit cs memo visiting t))"
      "memo_ok (edge_pairs cs) (snd (visit cs memo visiting t))"
      "dom (map_of memo) \<subseteq> dom (map_of (snd (visit cs memo visiting t)))" by auto
  from 3(2) [OF refl prod.collapse A(2) _ 3(5)] 3(4)
  have B: "list_all2 (\<lambda>t d. \<exists>d0. is_depth (edge_pairs cs) t d0 \<and> d = sat_add 1 d0) ts
        (fst (visit_all cs (snd (visit cs memo visiting t)) visiting ts))"
      "memo_ok (edge_pairs cs) (snd (visit_all cs (snd (visit cs memo visiting t)) visiting ts))"
      "dom (map_of (snd (visit cs memo visiting t))) \<subseteq>
        dom (map_of (snd (visit_all cs (snd (visit cs memo visiting t)) visiting ts)))" by auto
  from A B show ?case by (auto simp: Let_def split_beta)
qed


lemma depths_correct:
  assumes "acyclic (set (edge_pairs (fc_connections fc)))"
  shows "memo_ok (edge_pairs (fc_connections fc)) (processor_downstream_depths fc)"
    and "p \<in> set (fc_processors fc) \<Longrightarrow> \<exists>d. hm_get (processor_downstream_depths fc) (pc_id p) = Some d"
proof -
  let ?cs = "fc_connections fc"
  have step: "memo_ok (edge_pairs ?cs) memo \<Longrightarrow>
      memo_ok (edge_pairs ?cs) (snd (visit ?cs memo [] q)) \<and>
      dom (map_of memo) \<union> {q} \<subseteq> dom (map_of (snd (visit ?cs memo [] q)))" for memo q
    using visit_correct(1) [OF assms, where visiting = "[]"] by simp
  have "memo_ok (edge_pairs ?cs) memo \<Longrightarrow>
      memo_ok (edge_pairs ?cs) (fold (\<lambda>p depths. snd (visit ?cs depths [] (pc_id p))) ps memo) \<and>
      dom (map_of memo) \<union> pc_id ` set ps \<subseteq>
        dom (map_of (fold (\<lambda>p depths. snd (visit ?cs depths [] (pc_id p))) ps memo))" for ps memo
  proof (induction ps arbitrary: memo)
    case Nil
    then show ?case by simp
  next
    case (Cons p ps)
    let ?memo = "snd (visit ?cs memo [] (pc_id p))"
    from step [OF Cons.prems, of "pc_id p"] have "memo_ok (edge_pairs ?cs) ?memo"
      and sub: "dom (map_of memo) \<union> {pc_id p} \<subseteq> dom (map_of ?memo)" by blast+
    from Cons.IH [OF this(1)] sub show ?case by (simp del: fun_upd_apply) blast
  qed
  from this [of "[]" "fc_processors fc"]
  show "memo_ok (edge_pairs ?cs) (processor_downstream_depths fc)"
    and "p \<in> set (fc_processors fc) \<Longrightarrow> \<exists>d. hm_get (processor_downstream_depths fc) (pc_id p) = Some d"
    by (auto simp: processor_downstream_depths_def memo_ok_def)
qed

lemma required_slots_bound:
  assumes "acyclic (set (edge_pairs (fc_connections fc)))" "p \<in> set (fc_processors fc)"
    "is_walk (edge_pairs (fc_connections fc)) (pc_id p # ps)"
  shows "min (length (pc_id p # ps)) u64_max \<le> required_pipeline_slots fc"
proof -
  from depths_correct(2) [OF assms(1,2)] obtain d where
    d1: "hm_get (processor_downstream_depths fc) (pc_id p) = Some d" by blast
  with depths_correct(1) [OF assms(1)]
  have d: "hm_get (processor_downstream_depths fc) (pc_id p) = Some d"
    "is_depth (edge_pairs (fc_connections fc)) (pc_id p) d"
    by (auto simp: memo_ok_def)
  have "d \<in> set (map snd (processor_downstream_depths fc))" using map_of_SomeD [OF d(1)] by force
  from max_or_default_ge [OF this] d(2) assms(3)
  have "min (length ps) u64_max \<le> max_or_default (map snd (processor_downstream_depths fc))"
    unfolding is_depth_def by (meson le_trans)
  then show ?thesis by (auto simp: required_pipeline_slots_def sat_add_def min_def split: if_splits)
qed

section \<open>Placeholders\<close>

text \<open>Each round takes one dollar sign away when no value brings a new one.\<close>

lemma resolve_environment_returns:
  assumes "\<And>n v. env n = Some v \<Longrightarrow> CHR ''$'' \<notin> set v"
  shows "resolve_environment_placeholders env s \<noteq> None"
proof (induction "count_list s CHR ''$''" arbitrary: s rule: less_induct)
  case less
  show ?case
  proof (cases "find_sub ''${env:'' s")
    case None
    then show ?thesis by (subst resolve_environment_placeholders.simps) simp
  next
    case (Some start)
    then obtain t where t: "s = take start s @ ''${env:'' @ t" "start \<le> length s"
      using find_sub_Some by blast
    have drop: "drop (start + 6) s = t"
      using arg_cong [OF t(1), of "drop (start + 6)"] t(2) by (simp add: eval_nat_numeral)
    show ?thesis
    proof (cases "find_sub ''}'' t")
      case None
      with Some drop show ?thesis
        by (subst resolve_environment_placeholders.simps) (simp add: eval_nat_numeral)
    next
      case (Some e)
      show ?thesis
      proof (cases "env (take e t)")
        case None
        with Some \<open>find_sub ''${env:'' s = Some start\<close> drop show ?thesis
          by (subst resolve_environment_placeholders.simps) (simp add: eval_nat_numeral)
      next
        case (Some v)
        have d: "drop (start + 6 + e + 1) s = drop (e + 1) t"
          using drop by (metis add.assoc add.commute drop_drop)
        have "count_list (drop (e + 1) t) CHR ''$'' \<le> count_list t CHR ''$''"
          by (metis append_take_drop_id count_list_append le_add2)
        moreover have "count_list v CHR ''$'' = 0" using assms [OF Some] by (simp add: count_list_0_iff)
        moreover have "count_list s CHR ''$'' = count_list (take start s) CHR ''$'' + Suc (count_list t CHR ''$'')"
          by (subst t) simp
        ultimately have "count_list (take start s @ v @ drop (e + 1) t) CHR ''$'' < count_list s CHR ''$''"
          by simp
        from less [OF this] Some \<open>find_sub ''}'' t = Some e\<close> \<open>find_sub ''${env:'' s = Some start\<close> drop d
        show ?thesis
          by (subst resolve_environment_placeholders.simps) (simp add: eval_nat_numeral)
      qed
    qed
  qed
qed


lemma resolve_environment_loops:
  assumes "resolve_environment_placeholders env s = Some r"
    and "env = (\<lambda>name. if name = ''A'' then Some ''${env:A}'' else None)"
  shows "s \<noteq> ''${env:A}''"
  using assms
proof (induction rule: resolve_environment_placeholders.raw_induct [rotated, consumes 1, case_names step])
  case (step rec env s r)
  show ?case
  proof
    assume s: "s = ''${env:A}''"
    with step(2,3) have "rec env ''${env:A}'' = Some r"
      by (simp add: starts_with_def eval_nat_numeral)
    from step(1) [OF this step(3)] show False by simp
  qed
qed

subsection \<open>Interpolation of a configuration value\<close>

text \<open>The string leaves of a JSON value.\<close>

fun json_texts :: "json \<Rightarrow> string list" where
  "json_texts (JString s) = [s]"
| "json_texts (JArray items) = concat (map json_texts items)"
| "json_texts (JObject members) = concat (map (\<lambda>member. json_texts (snd member)) members)"
| "json_texts _ = []"

lemma interpolate_text_result:
  "interpolate_text env parameters s = Some (Inr s') \<Longrightarrow> \<not> contains s' ''${''"
  by (auto simp: interpolate_text_def Let_def split: option.splits sum.splits if_splits)

lemma interpolate_leaves:
  "interpolate_value env parameters v = Some (Inr v') \<Longrightarrow> \<forall>s \<in> set (json_texts v'). \<not> contains s ''${''"
  "interpolate_items env parameters vs = Some (Inr vs') \<Longrightarrow>
     \<forall>v' \<in> set vs'. \<forall>s \<in> set (json_texts v'). \<not> contains s ''${''"
  "interpolate_members env parameters ms = Some (Inr ms') \<Longrightarrow>
     \<forall>m' \<in> set ms'. \<forall>s \<in> set (json_texts (snd m')). \<not> contains s ''${''"
proof (induction env parameters v and env parameters vs and env parameters ms
    arbitrary: v' and vs' and ms' rule: interpolate_value_interpolate_items_interpolate_members.induct)
qed (fastforce split: option.splits sum.splits dest: interpolate_text_result)+

lemma interpolate_returns:
  assumes "\<And>n v. env n = Some v \<Longrightarrow> CHR ''$'' \<notin> set v"
  shows "interpolate_value env parameters v \<noteq> None" "interpolate_items env parameters vs \<noteq> None"
    "interpolate_members env parameters ms \<noteq> None"
  using assms
proof (induction env parameters v and env parameters vs and env parameters ms
    rule: interpolate_value_interpolate_items_interpolate_members.induct)
  case (1 env parameters s)
  then show ?case
    using resolve_environment_returns [of env] by (auto simp: interpolate_text_def Let_def split: option.splits sum.splits)
qed (auto split: option.splits sum.splits)

lemma not_contains_prefix: "\<not> contains s p \<Longrightarrow> \<not> contains s (p @ q)"
  by (auto simp: contains_iff)

lemma interpolate_text_plain:
  assumes "\<not> contains s ''${''"
  shows "interpolate_text env parameters s = Some (Inr s)"
proof -
  have "fold (\<lambda>(name, replacement) s. str_replace (''${'' @ name @ ''}'') replacement s) parameters s = s"
  proof (induction parameters)
    case Nil
    then show ?case by simp
  next
    case (Cons p parameters)
    have "str_replace (''${'' @ fst p @ ''}'') (snd p) s = s"
      by (intro str_replace_absent not_contains_prefix assms)
    with Cons show ?case by (simp add: split_beta)
  qed
  moreover have "find_sub ''${env:'' s = None"
    using not_contains_prefix [OF assms, of "''env:''"] by (simp add: contains_def)
  ultimately show ?thesis using assms
    by (simp add: interpolate_text_def Let_def resolve_environment_placeholders.simps)
qed

lemma interpolate_plain:
  "\<forall>s \<in> set (json_texts v). \<not> contains s ''${'' \<Longrightarrow> interpolate_value env parameters v = Some (Inr v)"
  "\<forall>v \<in> set vs. \<forall>s \<in> set (json_texts v). \<not> contains s ''${'' \<Longrightarrow> interpolate_items env parameters vs = Some (Inr vs)"
  "\<forall>m \<in> set ms. \<forall>s \<in> set (json_texts (snd m)). \<not> contains s ''${'' \<Longrightarrow>
     interpolate_members env parameters ms = Some (Inr ms)"
  by (induction env parameters v and env parameters vs and env parameters ms
    rule: interpolate_value_interpolate_items_interpolate_members.induct)
    (auto simp: interpolate_text_plain)


lemma resolve_processors_shape:
  "resolve_processors env parameters ps = Some (Inr ps') \<Longrightarrow>
     list_all2 (\<lambda>p p'. p' = p\<lparr>pc_config := pc_config p'\<rparr> \<and>
       interpolate_value env parameters (pc_config p) = Some (Inr (pc_config p'))) ps ps'"
  by (induction ps arbitrary: ps') (auto split: option.splits sum.splits)

lemma resolve_processors_returns:
  assumes "\<And>n v. env n = Some v \<Longrightarrow> CHR ''$'' \<notin> set v"
  shows "resolve_processors env parameters ps \<noteq> None"
  using interpolate_returns(1) [of env, OF assms] by (induction ps) (auto split: option.splits sum.splits)

section \<open>What \<open>validate\<close> establishes\<close>

definition fanout_count :: "connection_config list \<Rightarrow> string \<times> string \<Rightarrow> nat" where
  "fanout_count cs key = length (filter (\<lambda>c. (cn_from c, cn_relationship c) = key) cs)"

lemma fanout_get:
  "hm_get (fanout cs) key = (if fanout_count cs key = 0 then None else Some (fanout_count cs key))"
proof -
  let ?step = "\<lambda>c m. let key = (cn_from c, cn_relationship c)
      in hm_insert key ((case hm_get m key of None \<Rightarrow> 0 | Some n \<Rightarrow> n) + 1) m"
  have "hm_get (fold ?step cs m) key =
      (if fanout_count cs key = 0 then hm_get m key
       else Some ((case hm_get m key of None \<Rightarrow> 0 | Some n \<Rightarrow> n) + fanout_count cs key))" for m
    by (induction cs arbitrary: m) (auto simp: fanout_count_def Let_def)
  from this [of "[]"] show ?thesis by (simp add: fanout_def)
qed

lemma fanout_wf: "hm_wf (fanout cs)"
proof -
  have "hm_wf m \<Longrightarrow> hm_wf (fold (\<lambda>c m. let key = (cn_from c, cn_relationship c)
      in hm_insert key ((case hm_get m key of None \<Rightarrow> 0 | Some n \<Rightarrow> n) + 1) m) cs m)"
    for m :: "((string \<times> string) \<times> nat) list"
    by (induction cs arbitrary: m) (auto simp: Let_def)
  then show ?thesis by (simp add: fanout_def)
qed

lemma fanout_check:
  "fanout_excess capacity cs = None \<longleftrightarrow> (\<forall>key. fanout_count cs key \<le> capacity)"
proof -
  have vals: "n \<in> set (map snd (fanout cs)) \<longleftrightarrow> (\<exists>key. fanout_count cs key = n \<and> n \<noteq> 0)" for n
  proof -
    have "n \<in> set (map snd (fanout cs)) \<longleftrightarrow> (\<exists>key. (key, n) \<in> set (fanout cs))" by force
    also have "\<dots> \<longleftrightarrow> (\<exists>key. hm_get (fanout cs) key = Some n)"
      by (simp only: hm_get_Some_iff [OF fanout_wf])
    also have "\<dots> \<longleftrightarrow> (\<exists>key. fanout_count cs key = n \<and> n \<noteq> 0)"
      by (rule iff_exI) (auto simp: fanout_get)
    finally show ?thesis .
  qed
  show ?thesis
  proof (cases "fanout cs = []")
    case True
    then have "fanout_count cs key = 0" for key using fanout_get [of cs key] by (auto split: if_splits)
    with True show ?thesis by (simp add: fanout_excess_def iter_max_def)
  next
    case False
    let ?ns = "map snd (fanout cs)"
    have m: "iter_max ?ns = Some (Max (set ?ns))" using False by (intro iter_max_Max) simp
    have "Max (set ?ns) \<le> capacity \<longleftrightarrow> (\<forall>n \<in> set ?ns. n \<le> capacity)" using False by simp
    also have "\<dots> \<longleftrightarrow> (\<forall>key. fanout_count cs key \<le> capacity)" unfolding Ball_def vals by (metis le0 neq0_conv)
    finally show ?thesis using m by (auto simp: fanout_excess_def not_less)
  qed
qed

text \<open>What the loop over the processors asks of each of them.\<close>

definition processor_valid :: "processor_config \<Rightarrow> bool" where
  "processor_valid p \<longleftrightarrow>
     sim_mode (pc_simulation p) = Real \<and>
     0 < sd_concurrent_tasks (pc_scheduling p) \<and>
     (\<forall>m. sd_maximum_in_flight (pc_scheduling p) = Some m \<longrightarrow> sd_concurrent_tasks (pc_scheduling p) \<le> m) \<and>
     (sd_ordering (pc_scheduling p) = Partitioned \<longrightarrow>
       (\<exists>selector. sd_partition_by (pc_scheduling p) = Some selector \<and> selector \<noteq> []))"

lemma validate_processors_iff:
  "(\<exists>ids'. validate_processors ids ps = Inr ids') \<longleftrightarrow>
     (\<forall>p \<in> set ps. processor_valid p) \<and> distinct (map pc_id ps) \<and> set ids \<inter> pc_id ` set ps = {}"
proof (induction ps arbitrary: ids)
  case Nil
  then show ?case by simp
next
  case (Cons p ps)
  have "processor_valid p \<longleftrightarrow>
      sim_mode (pc_simulation p) = Real \<and> sd_concurrent_tasks (pc_scheduling p) \<noteq> 0 \<and>
      sd_maximum_in_flight (pc_scheduling p) \<noteq> Some 0 \<and>
      \<not> (case sd_maximum_in_flight (pc_scheduling p) of None \<Rightarrow> False
         | Some maximum \<Rightarrow> maximum < sd_concurrent_tasks (pc_scheduling p)) \<and>
      \<not> (sd_ordering (pc_scheduling p) = Partitioned \<and>
         (case sd_partition_by (pc_scheduling p) of None \<Rightarrow> True | Some selector \<Rightarrow> selector = []))"
    by (auto simp: processor_valid_def split: option.splits)
  with Cons.IH [of "ids @ [pc_id p]"] show ?case by auto
qed

lemma validate_processors_ids: "validate_processors ids ps = Inr ids' \<Longrightarrow> ids' = ids @ map pc_id ps"
  by (induction ps arbitrary: ids) (fastforce split: if_splits)+

lemma validate_connections_iff:
  "validate_connections ids cs = Inr () \<longleftrightarrow>
     (\<forall>c \<in> set cs. 0 < cn_queue_capacity c \<and> cn_from c \<in> set ids \<and> cn_to c \<in> set ids)"
  by (induction cs) auto

lemma unit_ok: "(r :: ('e, unit) result) = Inr () \<longleftrightarrow> is_ok r"
  by (cases r) auto

text \<open>What the checks on the engine section ask.\<close>

definition engine_valid :: "engine_config \<Rightarrow> bool" where
  "engine_valid e \<longleftrightarrow>
     0 < ec_queue_capacity e \<and> 0 < ec_max_concurrency e \<and>
     0 < sc_drain_timeout_seconds (ec_shutdown e) \<and>
     0 < ac_max_request_body_bytes (ec_admin e) \<and>
     (ac_enabled (ec_admin e) \<and> ac_authentication (ec_admin e) = AuthBearer \<longrightarrow>
        trim (ac_token_env (ec_admin e)) \<noteq> []) \<and>
     wc_cpu_threads (ec_workers e) \<le> 1024 \<and> wc_blocking_threads (ec_workers e) \<le> 1024"


lemma validate_accepts:
  "validate fc = Inr () \<longleftrightarrow>
     fc_processors fc \<noteq> [] \<and> engine_valid (fc_engine fc) \<and>
     (\<forall>key. fanout_count (fc_connections fc) key \<le> ec_queue_capacity (fc_engine fc)) \<and>
     list_all processor_valid (fc_processors fc) \<and> distinct (processor_ids fc) \<and>
     list_all (\<lambda>c. 0 < cn_queue_capacity c \<and> cn_from c \<in> set (processor_ids fc) \<and>
       cn_to c \<in> set (processor_ids fc)) (fc_connections fc) \<and>
     \<not> set (processor_ids fc) \<subseteq> cn_to ` set (fc_connections fc) \<and>
     required_pipeline_slots fc \<le> ec_max_concurrency (fc_engine fc)"
proof -
  let ?e = "fc_engine fc" and ?cs = "fc_connections fc"
  have procs: "(\<exists>ids. validate_processors [] (fc_processors fc) = Inr ids) \<longleftrightarrow>
      list_all processor_valid (fc_processors fc) \<and> distinct (processor_ids fc)"
    using validate_processors_iff [of "[]" "fc_processors fc"] by (simp add: processor_ids_def list_all_iff)
  have conns: "validate_connections (processor_ids fc) ?cs = Inr () \<longleftrightarrow>
      list_all (\<lambda>c. 0 < cn_queue_capacity c \<and> cn_from c \<in> set (processor_ids fc) \<and>
        cn_to c \<in> set (processor_ids fc)) ?cs"
    by (simp add: validate_connections_iff list_all_iff)
  have start: "list_all (\<lambda>p. pc_id p \<in> set (map cn_to ?cs)) (fc_processors fc) \<longleftrightarrow>
      set (processor_ids fc) \<subseteq> cn_to ` set ?cs"
    by (auto simp: list_all_iff processor_ids_def)
  have "validate fc = Inr () \<longleftrightarrow> validate_config fc = Inr ()"
    by (simp add: validate_def split: sum.splits)
  also have "\<dots> \<longleftrightarrow> fc_processors fc \<noteq> [] \<and> engine_valid ?e \<and>
      (\<forall>key. fanout_count ?cs key \<le> ec_queue_capacity ?e) \<and>
      (\<exists>ids. validate_processors [] (fc_processors fc) = Inr ids) \<and>
      validate_connections (processor_ids fc) ?cs = Inr () \<and>
      \<not> set (processor_ids fc) \<subseteq> cn_to ` set ?cs \<and>
      required_pipeline_slots fc \<le> ec_max_concurrency ?e"
    (is "?L \<longleftrightarrow> ?R")
  proof
    assume ?L
    then show ?R
      using validate_processors_ids [of "[]" "fc_processors fc"] start
      unfolding validate_config_def Let_def engine_valid_def fanout_check [symmetric]
      by (auto simp: processor_ids_def not_less split: if_splits option.splits sum.splits)
  next
    assume ?R
    then obtain ids where "validate_processors [] (fc_processors fc) = Inr ids" by blast
    with validate_processors_ids [OF this] \<open>?R\<close> start show ?L
      unfolding validate_config_def Let_def engine_valid_def fanout_check [symmetric]
      by (auto simp: processor_ids_def not_less split: if_splits option.splits sum.splits)
  qed
  finally show ?thesis unfolding procs conns by blast
qed


section \<open>Properties\<close>

text \<open>
  \<open>validate\<close> accepts a configuration exactly when the engine limits are sensible, every
  relationship fans out to at most \<open>queue_capacity\<close> connections, every processor is executable
  with a distinct id, every connection has capacity and known ends, some processor has no
  incoming connection, and \<open>max_concurrency\<close> covers the longest streaming path.
\<close>

theorem validate_iff:
  "validate fc = Inr () \<longleftrightarrow>
     fc_processors fc \<noteq> [] \<and> engine_valid (fc_engine fc) \<and>
     (\<forall>key. fanout_count (fc_connections fc) key \<le> ec_queue_capacity (fc_engine fc)) \<and>
     list_all processor_valid (fc_processors fc) \<and> distinct (processor_ids fc) \<and>
     list_all (\<lambda>c. 0 < cn_queue_capacity c \<and> cn_from c \<in> set (processor_ids fc) \<and>
       cn_to c \<in> set (processor_ids fc)) (fc_connections fc) \<and>
     \<not> set (processor_ids fc) \<subseteq> cn_to ` set (fc_connections fc) \<and>
     required_pipeline_slots fc \<le> ec_max_concurrency (fc_engine fc)"
  by (rule validate_accepts)

lemma flow_engine_new_Inr:
  assumes "flow_engine_new ord env fc = Some (Inr fc')"
  obtains g where "build ord fc = Some (Inr g)"
    "list_all2 (\<lambda>p p'. p' = p\<lparr>pc_config := pc_config p'\<rparr> \<and>
       interpolate_value env (fc_parameters fc) (pc_config p) = Some (Inr (pc_config p')))
       (fc_processors fc) (fc_processors fc')"
    "fc' = fc\<lparr>fc_processors := fc_processors fc'\<rparr>" "validate fc' = Inr ()"
proof -
  from assms obtain g where g: "build ord fc = Some (Inr g)"
    by (simp add: flow_engine_new_def split: option.splits sum.splits)
  with assms have r: "resolve_processor_parameters env fc = Some (Inr fc')" and v: "validate fc' = Inr ()"
    by (simp_all add: flow_engine_new_def split: option.splits sum.splits)
  from r obtain ps where ps: "resolve_processors env (fc_parameters fc) (fc_processors fc) = Some (Inr ps)"
    "fc' = fc\<lparr>fc_processors := ps\<rparr>"
    by (auto simp: resolve_processor_parameters_def split: option.splits sum.splits)
  have fp: "fc_processors fc' = ps" by (simp add: ps(2))
  show thesis
    by (rule that [OF g _ _ v], unfold fp, rule resolve_processors_shape [OF ps(1)], rule ps(2))
qed

lemma same_ids:
  assumes "list_all2 (\<lambda>p p'. p' = p\<lparr>pc_config := pc_config p'\<rparr> \<and> Q p p') ps ps'"
  shows "map pc_id ps' = map pc_id ps"
  using assms
proof (induction rule: list_all2_induct)
  case (Cons p ps p' ps')
  from arg_cong [OF conjunct1 [OF Cons(1)], of pc_id] have "pc_id p' = pc_id p" by simp
  with Cons(3) show ?case by simp
qed simp

text \<open>
  C2. An engine is only made for a flow that it can run to completion: the graph is acyclic,
  every walk along connections, from any processor, visits no more processors than
  \<open>max_concurrency\<close>, so that a slot is left for each stage of the longest streaming path, no
  emission fans out to more connections than the run queue holds, and each connection has
  room for a packet.
\<close>

theorem flow_engine_new_runnable:
  assumes "hash_order ord" "flow_engine_new ord env fc = Some (Inr fc')"
  shows "acyclic (set (edge_list fc')) \<and> distinct (processor_ids fc') \<and>
    (\<forall>key. fanout_count (fc_connections fc') key \<le> ec_queue_capacity (fc_engine fc')) \<and>
    (\<forall>c \<in> set (fc_connections fc'). 0 < cn_queue_capacity c) \<and>
    (\<forall>p \<in> set (fc_processors fc'). \<forall>ps. is_walk (edge_list fc') (pc_id p # ps) \<longrightarrow>
       min (length (pc_id p # ps)) u64_max \<le> ec_max_concurrency (fc_engine fc'))"
proof -
  from flow_engine_new_Inr [OF assms(2)] obtain g where g: "build ord fc = Some (Inr g)"
    and ps: "list_all2 (\<lambda>p p'. p' = p\<lparr>pc_config := pc_config p'\<rparr> \<and>
       interpolate_value env (fc_parameters fc) (pc_config p) = Some (Inr (pc_config p')))
       (fc_processors fc) (fc_processors fc')"
    and fc': "fc' = fc\<lparr>fc_processors := fc_processors fc'\<rparr>" and v: "validate fc' = Inr ()" .
  have "fc_connections fc' = fc_connections (fc\<lparr>fc_processors := fc_processors fc'\<rparr>)"
    using fc' by (rule arg_cong)
  then have cs: "fc_connections fc' = fc_connections fc" by simp
  from assms(1) g have "acyclic (set (edge_list fc))"
  proof (cases rule: build_cases [where fc = fc])
  qed simp_all
  then have acyc: "acyclic (set (edge_pairs (fc_connections fc')))"
    unfolding cs edge_list_def .
  from v have ok: "distinct (processor_ids fc')"
    "\<forall>key. fanout_count (fc_connections fc') key \<le> ec_queue_capacity (fc_engine fc')"
    "\<forall>c \<in> set (fc_connections fc'). 0 < cn_queue_capacity c"
    "required_pipeline_slots fc' \<le> ec_max_concurrency (fc_engine fc')"
    by (simp_all add: validate_accepts list_all_iff)
  have "min (length (pc_id p # ps)) u64_max \<le> ec_max_concurrency (fc_engine fc')"
    if "p \<in> set (fc_processors fc')" "is_walk (edge_list fc') (pc_id p # ps)" for p ps
    using required_slots_bound [OF acyc that(1) that(2) [unfolded edge_list_def]] ok(4) by (rule le_trans)
  with ok acyc show ?thesis by (simp add: edge_list_def)
qed


text \<open>
  Construction of an engine returns, with a value or an error, whenever no environment
  variable holds a dollar sign.
\<close>

theorem flow_engine_new_returns:
  assumes "hash_order ord" "\<And>name v. env name = Some v \<Longrightarrow> CHR ''$'' \<notin> set v"
  shows "\<exists>r. flow_engine_new ord env fc = Some r"
proof -
  have "build ord fc \<noteq> None" by (cases rule: build_cases [OF assms(1), where fc = fc]) simp_all
  moreover have "resolve_processor_parameters env fc \<noteq> None"
    using resolve_processors_returns [of env, OF assms(2)]
    by (auto simp: resolve_processor_parameters_def split: option.splits sum.splits)
  ultimately show ?thesis
    by (auto simp: flow_engine_new_def split: option.splits sum.splits)
qed

text \<open>
  The assumption is needed: with a variable that holds its own placeholder, the
  substitution of \<open>${env:A}\<close> never returns.
\<close>

theorem resolve_environment_diverges:
  "resolve_environment_placeholders (\<lambda>name. if name = ''A'' then Some ''${env:A}'' else None) ''${env:A}'' = None"
proof (rule ccontr)
  let ?env = "\<lambda>name. if name = ''A'' then Some ''${env:A}'' else None"
  assume "resolve_environment_placeholders ?env ''${env:A}'' \<noteq> None"
  then obtain r where "resolve_environment_placeholders ?env ''${env:A}'' = Some r" by blast
  from resolve_environment_loops [OF this refl] show False by simp
qed

text \<open>
  The processor configurations of an engine hold no \<open>${\<close> any more; only those
  configurations differ from the manifest, and one without placeholders is kept as it is.
\<close>

theorem flow_engine_new_resolved:
  assumes "flow_engine_new ord env fc = Some (Inr fc')"
  shows "fc' = fc\<lparr>fc_processors := fc_processors fc'\<rparr> \<and>
    list_all2 (\<lambda>p p'. p' = p\<lparr>pc_config := pc_config p'\<rparr> \<and>
        (\<forall>s \<in> set (json_texts (pc_config p')). \<not> contains s ''${'') \<and>
        ((\<forall>s \<in> set (json_texts (pc_config p)). \<not> contains s ''${'') \<longrightarrow> p' = p))
      (fc_processors fc) (fc_processors fc')"
proof -
  from flow_engine_new_Inr [OF assms] have
    ps: "list_all2 (\<lambda>p p'. p' = p\<lparr>pc_config := pc_config p'\<rparr> \<and>
       interpolate_value env (fc_parameters fc) (pc_config p) = Some (Inr (pc_config p')))
       (fc_processors fc) (fc_processors fc')"
    and fc': "fc' = fc\<lparr>fc_processors := fc_processors fc'\<rparr>" by blast+
  have "list_all2 (\<lambda>p p'. p' = p\<lparr>pc_config := pc_config p'\<rparr> \<and>
        (\<forall>s \<in> set (json_texts (pc_config p')). \<not> contains s ''${'') \<and>
        ((\<forall>s \<in> set (json_texts (pc_config p)). \<not> contains s ''${'') \<longrightarrow> p' = p))
      (fc_processors fc) (fc_processors fc')"
    using ps
  proof (rule list_all2_mono, elim conjE, intro conjI impI)
    fix p p' assume p': "p' = p\<lparr>pc_config := pc_config p'\<rparr>"
      and i: "interpolate_value env (fc_parameters fc) (pc_config p) = Some (Inr (pc_config p'))"
    show "p' = p\<lparr>pc_config := pc_config p'\<rparr>" by (rule p')
    show "\<forall>s \<in> set (json_texts (pc_config p')). \<not> contains s ''${''" by (rule interpolate_leaves(1) [OF i])
    assume "\<forall>s \<in> set (json_texts (pc_config p)). \<not> contains s ''${''"
    from interpolate_plain(1) [OF this, of env "fc_parameters fc"] i
    have "pc_config p' = pc_config p" by simp
    with p' show "p' = p" by simp
  qed
  with fc' show ?thesis by blast
qed

subsection \<open>Witnesses\<close>

definition example_fc :: flow_config where
  "example_fc = example_flow
     [(example_processor ''a'')\<lparr>pc_config := JObject [(''path'', JString ''${env:HOME}/x'')]\<rparr>,
      example_processor ''b''] [example_connection ''a'' ''b'']"

definition example_env :: "string \<Rightarrow> string option" where
  "example_env name = (if name = ''HOME'' then Some ''/h'' else None)"

definition example_resolved :: flow_config where
  "example_resolved = example_flow
     [(example_processor ''a'')\<lparr>pc_config := JObject [(''path'', JString ''/h/x'')]\<rparr>,
      example_processor ''b''] [example_connection ''a'' ''b'']"

lemmas example_defs = example_fc_def example_resolved_def example_flow_def example_processor_def
  example_connection_def example_env_def

lemma example_resolve: "resolve_processor_parameters example_env example_fc = Some (Inr example_resolved)"
  by (simp add: resolve_processor_parameters_def example_defs interpolate_text_def
      resolve_environment_placeholders.simps contains_def starts_with_def eval_nat_numeral)

lemma trim_token_env: "trim default_admin_token_env = default_admin_token_env"
  unfolding trim_def
  by (simp add: trim_start_noop trim_end_noop white_space_def starts_with_def default_admin_token_env_def)

lemmas example_validate_defs =
  trim_token_env [unfolded default_admin_token_env_def] default_admin_token_env_def validate_def validate_config_def
  example_defs engine_default_def default_queue_capacity_def default_concurrency_def shutdown_default_def
  default_drain_timeout_def admin_default_def default_request_limit_def fanout_excess_def fanout_def iter_max_def
  simulation_default_def scheduling_default_def default_concurrent_tasks_def required_pipeline_slots_def
  processor_downstream_depths_def visit.simps targets_def max_or_default_def sat_add_def u64_max_def

lemma example_validate: "validate example_resolved = Inr ()"
  by (simp add: example_validate_defs)

lemma example_new: "flow_engine_new rev example_env example_fc = Some (Inr example_resolved)"
proof -
  have "build rev example_fc \<noteq> None" "is_ok (the (build rev example_fc))"
    by (simp_all add: build_def example_defs)
  then show ?thesis
    using example_resolve example_validate
    by (auto simp: flow_engine_new_def is_ok_iff)
qed

lemma example_id: "pc_id (example_processor ''a''\<lparr>pc_config := v\<rparr>) = ''a''"
  by (simp add: example_processor_def)

lemma flow_engine_new_runnable_witness:
  "min (length [''a'', ''b'']) u64_max \<le> ec_max_concurrency (fc_engine example_resolved)"
proof -
  have "example_processor ''a''\<lparr>pc_config := JObject [(''path'', JString ''/h/x'')]\<rparr> \<in> set (fc_processors example_resolved)"
    "is_walk (edge_list example_resolved) [''a'', ''b'']"
    by (simp_all add: example_defs edge_list_def)
  with flow_engine_new_runnable [OF hash_order_rev example_new]
  have "min (length (pc_id (example_processor ''a''\<lparr>pc_config := JObject [(''path'', JString ''/h/x'')]\<rparr>) # [''b''])) u64_max
    \<le> ec_max_concurrency (fc_engine example_resolved)"
    by (metis example_id)
  then show ?thesis by (simp only: example_id)
qed

lemma flow_engine_new_returns_witness:
  "\<exists>r. flow_engine_new rev example_env example_fc = Some r"
  by (rule flow_engine_new_returns [OF hash_order_rev]) (auto simp: example_env_def split: if_splits)

lemma flow_engine_new_resolved_witness:
  "list_all (\<lambda>s. \<not> contains s ''${'') (json_texts (JObject [(''path'', JString ''/h/x'')]))"
  using flow_engine_new_resolved [OF example_new] by (simp add: example_defs)

end
