(* ===== verification/Flow_Executor.thy ===== *)
theory Flow_Executor
  imports Flow_Scheduler Flow_Retry Flow_Validation
begin

text \<open>
  The run loop of a flow (\<open>run_inner\<close> of \<open>crates/jaiba-runtime/src/engine/executor/mod.rs\<close>)
  as a step relation: the top of the loop with the routing of a deferred emission is one step,
  scheduling up to the \<open>select!\<close> the next, each branch of the \<open>select!\<close> another; between them
  the tasks emit packets and the control changes the lifecycle. The end of a task and its join
  are one step.
\<close>

section \<open>State\<close>

datatype phase = AtTop | AtSchedule | AtSelect | Ended "flow_error option"

record engine_env =
  en_schedule :: schedule_env
  en_digest :: "string \<Rightarrow> string"
  en_flow_id :: string
  en_connections :: "connection_config list"
  en_domain_memory :: bool

record engine =
  eg_phase :: phase
  eg_control :: flow_control
  eg_pending :: "work_item list"
  eg_running :: "running_task list"
  eg_active :: "nat hmap"
  eg_partitions :: "string list hmap"
  eg_channel :: "processor_emission list"
  eg_deferred :: "processor_emission option"
  eg_stall :: "memory_stall option"
  eg_limiter :: memory_limiter
  eg_shared :: nat
  eg_repository :: "packet_repository option"
  eg_emitted :: nat

abbreviation "en_capacity env \<equiv> se_queue_capacity (en_schedule env)"
abbreviation "en_definitions env \<equiv> se_definitions (en_schedule env)"
abbreviation "en_codec env \<equiv> se_codec (en_schedule env)"

text \<open>The parts of the state that routing and scheduling work on.\<close>

definition router_of :: "engine \<Rightarrow> router" where
  "router_of eg =
     \<lparr> ro_pending = eg_pending eg, ro_limiter = eg_limiter eg, ro_shared = eg_shared eg,
       ro_repository = eg_repository eg, ro_emitted = eg_emitted eg \<rparr>"

definition put_router :: "router \<Rightarrow> engine \<Rightarrow> engine" where
  "put_router r eg =
     eg\<lparr>eg_pending := ro_pending r, eg_limiter := ro_limiter r, eg_shared := ro_shared r,
        eg_repository := ro_repository r, eg_emitted := ro_emitted r\<rparr>"

definition schedule_of :: "engine \<Rightarrow> schedule_state" where
  "schedule_of eg =
     \<lparr> sl_pending = eg_pending eg, sl_running = eg_running eg, sl_active = eg_active eg,
       sl_partitions = eg_partitions eg, sl_repository = eg_repository eg \<rparr>"

definition put_schedule :: "schedule_state \<Rightarrow> engine \<Rightarrow> engine" where
  "put_schedule s eg =
     eg\<lparr>eg_pending := sl_pending s, eg_running := sl_running s, eg_active := sl_active s,
        eg_partitions := sl_partitions s, eg_repository := sl_repository s\<rparr>"

section \<open>The start of a run\<close>

text \<open>The work found in the repository, with its memory; what was reserved is dropped on an error.\<close>

fun recover_backlog ::
  "codec \<Rightarrow> stored_work list \<Rightarrow> memory_limiter \<Rightarrow> nat \<Rightarrow>
   (flow_error, work_item list) result \<times> memory_limiter \<times> nat" where
  "recover_backlog cd [] ml shared = (Inr [], ml, shared)"
| "recover_backlog cd (stored # rest) ml shared =
     (case try_reserve (estimated_size cd (sw_packet stored)) ml shared of
        (Inl e, ml, shared) \<Rightarrow> (Inl e, ml, shared)
      | (Inr r, ml, shared) \<Rightarrow>
          (case recover_backlog cd rest ml shared of
             (Inl e, ml, shared) \<Rightarrow> (case release r ml shared of (ml, shared) \<Rightarrow> (Inl e, ml, shared))
           | (Inr items, ml, shared) \<Rightarrow>
               (Inr (\<lparr> wi_processor_id = sw_processor_id stored, wi_packet = sw_packet stored, wi_connection = None,
                       wi_reservation = Some r, wi_queue_id = Some (sw_queue_id stored) \<rparr> # items), ml, shared)))"

definition seed :: "processor_config \<Rightarrow> string \<Rightarrow> work_item" where
  "seed p packet_id =
     \<lparr> wi_processor_id = pc_id p, wi_packet = packet_empty packet_id, wi_connection = None,
       wi_reservation = None, wi_queue_id = None \<rparr>"

definition source_seeds :: "(string \<Rightarrow> string) \<Rightarrow> flow_config \<Rightarrow> work_item list" where
  "source_seeds uuid fc =
     map (\<lambda>p. seed p (uuid (pc_id p)))
       (filter (\<lambda>p. pc_id p \<notin> cn_to ` set (fc_connections fc)) (fc_processors fc))"

definition engine_env_of :: "codec \<Rightarrow> (string \<Rightarrow> string) \<Rightarrow> flow_config \<Rightarrow> engine_env" where
  "engine_env_of cd digest fc =
     \<lparr> en_schedule =
         \<lparr> se_codec = cd, se_definitions = processor_map fc, se_depths = processor_downstream_depths fc,
           se_limit = ec_max_concurrency (fc_engine fc), se_queue_capacity = ec_queue_capacity (fc_engine fc) \<rparr>,
       en_digest = digest, en_flow_id = fc_id fc, en_connections = fc_connections fc,
       en_domain_memory = dm_enabled (ec_domain_memory (fc_engine fc)) \<rparr>"

text \<open>The state in which the loop is entered; \<open>uuid\<close> draws the packet ids of the seeds.\<close>

definition engine_start ::
  "codec \<Rightarrow> (string \<Rightarrow> string) \<Rightarrow> flow_config \<Rightarrow> int \<Rightarrow> nat \<Rightarrow> (string \<Rightarrow> string) \<Rightarrow> flow_control \<Rightarrow>
   memory_limiter \<Rightarrow> nat \<Rightarrow> packet_repository option \<Rightarrow> (flow_error, engine) result" where
  "engine_start cd digest fc secs now uuid control ml shared repository =
     (case (case repository of
              None \<Rightarrow> Inr ([], ml, shared, None)
            | Some rp \<Rightarrow>
                (let rp = snd (recover_abandoned secs (fc_id fc)
                            (rc_abandoned_after_seconds (ec_repository (fc_engine fc))) rp)
                 in case pending_work cd digest (fc_id fc) rp of
                      Inl e \<Rightarrow> Inl e
                    | Inr stored \<Rightarrow>
                        (case recover_backlog cd stored ml shared of
                           (Inl e, _) \<Rightarrow> Inl e
                         | (Inr items, ml, shared) \<Rightarrow> Inr (items, ml, shared, Some rp)))) of
        Inl e \<Rightarrow> Inl e
      | Inr (backlog, ml, shared, rp) \<Rightarrow>
          Inr \<lparr> eg_phase = AtTop, eg_control = ctl_running now control,
                eg_pending = (if backlog = [] then source_seeds uuid fc else backlog),
                eg_running = [], eg_active = [], eg_partitions = [], eg_channel = [], eg_deferred = None,
                eg_stall = None, eg_limiter = ml, eg_shared = shared, eg_repository = rp, eg_emitted = 0 \<rparr>)"

section \<open>The top of the loop\<close>

text \<open>Routing one emission; a routed one is dropped together with its own reservation.\<close>

definition drop_emission :: "processor_emission \<Rightarrow> engine \<Rightarrow> engine" where
  "drop_emission emission eg =
     (case release (em_reservation emission) (eg_limiter eg) (eg_shared eg) of
        (ml, shared) \<Rightarrow> eg\<lparr>eg_limiter := ml, eg_shared := shared\<rparr>)"

definition route_held ::
  "engine_env \<Rightarrow> nat \<Rightarrow> draw list \<Rightarrow> processor_emission \<Rightarrow> engine \<Rightarrow> engine" where
  "route_held env now draws emission eg =
     (case route_emission (en_codec env) (en_digest env) (en_flow_id env) (en_connections env) (en_capacity env)
             (en_definitions env) (eg_active eg) draws emission (router_of eg) of
        (Inl e, r) \<Rightarrow> (put_router r eg)\<lparr>eg_phase := Ended (Some e)\<rparr>
      | (Inr outcome, r) \<Rightarrow>
          (case hold_unrouted now outcome emission (eg_deferred eg, eg_stall eg) of
             (deferred, stall) \<Rightarrow>
               (if outcome = OutRouted then drop_emission emission else (\<lambda>eg. eg))
                 ((put_router r eg)\<lparr>eg_deferred := deferred, eg_stall := stall\<rparr>)))"

definition take_deferred :: "engine_env \<Rightarrow> nat \<Rightarrow> draw list \<Rightarrow> engine \<Rightarrow> engine" where
  "take_deferred env now draws eg =
     (case eg_deferred eg of
        None \<Rightarrow> eg
      | Some emission \<Rightarrow> route_held env now draws emission (eg\<lparr>eg_deferred := None\<rparr>))"

definition schedule_turn :: "engine_env \<Rightarrow> int \<Rightarrow> engine \<Rightarrow> engine option" where
  "schedule_turn env secs eg =
     (case schedule_available (en_schedule env) secs (ctl_state (eg_control eg)) (length (eg_channel eg)) (schedule_of eg) of
        None \<Rightarrow> None
      | Some (Inl e, s) \<Rightarrow> Some ((put_schedule s eg)\<lparr>eg_phase := Ended (Some e)\<rparr>)
      | Some (Inr _, s) \<Rightarrow> Some (put_schedule s eg))"

text \<open>After scheduling: the run ends, takes an emission that is left, or waits in \<open>select!\<close>.\<close>

definition settle :: "engine \<Rightarrow> engine" where
  "settle eg =
     (if eg_pending eg = [] \<and> eg_running eg = [] \<and> eg_deferred eg = None
      then case eg_channel eg of
             emission # rest \<Rightarrow> eg\<lparr>eg_deferred := Some emission, eg_channel := rest, eg_phase := AtTop\<rparr>
           | [] \<Rightarrow> eg\<lparr>eg_phase := Ended None\<rparr>
      else case (eg_running eg, eg_stall eg) of
             ([], Some stall) \<Rightarrow> eg\<lparr>eg_stall := None, eg_phase := Ended (Some (ms_error stall))\<rparr>
           | _ \<Rightarrow> eg\<lparr>eg_phase := AtSelect\<rparr>)"

text \<open>The two halves of the loop body; the lifecycle is read in each.\<close>

definition top :: "engine_env \<Rightarrow> nat \<Rightarrow> draw list \<Rightarrow> engine \<Rightarrow> engine" where
  "top env now draws eg =
     (if ctl_state (eg_control eg) \<in> {Draining, Stopped} \<and> eg_running eg = []
      then eg\<lparr>eg_phase := Ended None\<rparr>
      else if ctl_state (eg_control eg) = Paused \<and> eg_running eg = [] then eg
      else take_deferred env now draws (eg\<lparr>eg_phase := AtSchedule\<rparr>))"

definition plan :: "engine_env \<Rightarrow> int \<Rightarrow> engine \<Rightarrow> engine option" where
  "plan env secs eg =
     (case schedule_turn env secs eg of
        None \<Rightarrow> None
      | Some eg' \<Rightarrow> if eg_phase eg' \<noteq> eg_phase eg then Some eg' else Some (settle eg'))"

section \<open>The branches of the select\<close>

record completion =
  cp_failure :: "(string \<times> nat) option"
  cp_fatal :: "flow_error option"

text \<open>How the spawned task reports the end of \<open>execute_with_retry\<close>.\<close>

definition completion_of :: "(flow_error, (string \<times> nat) option) result \<Rightarrow> completion" where
  "completion_of outcome =
     (case outcome of
        Inr failure \<Rightarrow> \<lparr> cp_failure = failure, cp_fatal = None \<rparr>
      | Inl error \<Rightarrow> \<lparr> cp_failure = None, cp_fatal = Some error \<rparr>)"

definition end_task :: "nat \<Rightarrow> engine \<Rightarrow> engine" where
  "end_task i eg =
     (let t = eg_running eg ! i;
          eg = eg\<lparr>eg_running := take i (eg_running eg) @ drop (Suc i) (eg_running eg)\<rparr>
      in case tk_reservation t of
           None \<Rightarrow> eg
         | Some r \<Rightarrow>
             (case release r (eg_limiter eg) (eg_shared eg) of
                (ml, shared) \<Rightarrow> eg\<lparr>eg_limiter := ml, eg_shared := shared\<rparr>))"

definition free_slot :: "running_task \<Rightarrow> nat hmap \<times> string list hmap \<Rightarrow> nat hmap \<times> string list hmap" where
  "free_slot t tables =
     (case tables of (active, partitions) \<Rightarrow>
        (case hm_get active (tk_processor_id t) of
           None \<Rightarrow> active
         | Some n \<Rightarrow> hm_insert (tk_processor_id t) (n - 1) active,
         case (tk_partition_key t, hm_get partitions (tk_processor_id t)) of
           (Some key, Some keys) \<Rightarrow> hm_insert (tk_processor_id t) (removeAll key keys) partitions
         | _ \<Rightarrow> partitions))"

definition record_completion :: "int \<Rightarrow> running_task \<Rightarrow> completion \<Rightarrow> packet_repository option \<Rightarrow> packet_repository option" where
  "record_completion secs t completion repository =
     (case (repository, tk_queue_id t) of
        (Some rp, Some queue_id) \<Rightarrow>
          (case cp_failure completion of
             Some (error, attempt) \<Rightarrow> Some (fail secs queue_id error attempt rp)
           | None \<Rightarrow> Some (complete secs queue_id Completed rp))
      | _ \<Rightarrow> repository)"

definition join_task :: "int \<Rightarrow> nat \<Rightarrow> completion \<Rightarrow> engine \<Rightarrow> engine" where
  "join_task secs i completion eg =
     (let t = eg_running eg ! i; eg = end_task i eg
      in case cp_fatal completion of
           Some error \<Rightarrow> eg\<lparr>eg_phase := Ended (Some error)\<rparr>
         | None \<Rightarrow>
             (case free_slot t (eg_active eg, eg_partitions eg) of
                (active, partitions) \<Rightarrow>
                  eg\<lparr>eg_stall := None, eg_active := active, eg_partitions := partitions,
                     eg_repository := record_completion secs t completion (eg_repository eg), eg_phase := AtTop\<rparr>))"

definition receive :: "engine_env \<Rightarrow> nat \<Rightarrow> draw list \<Rightarrow> engine \<Rightarrow> engine" where
  "receive env now draws eg =
     (case eg_channel eg of
        [] \<Rightarrow> eg
      | emission # rest \<Rightarrow> route_held env now draws emission (eg\<lparr>eg_channel := rest, eg_phase := AtTop\<rparr>))"

definition deadlock_error :: flow_error where
  "deadlock_error = ServerError ''flow deadlocked: deferred emission exceeds engine.queue_capacity''"

text \<open>The end of a run that does not fail, and the metrics of its queues.\<close>

definition finish_run :: "flow_config \<Rightarrow> int \<Rightarrow> packet_repository \<Rightarrow> packet_repository" where
  "finish_run fc secs rp =
     (let repository = ec_repository (fc_engine fc);
          rp = snd (cleanup_completed secs (rc_completed_retention_hours repository) rp)
      in snd (cleanup_provenance secs (rc_provenance_retention_hours repository) rp))"

section \<open>Steps\<close>

text \<open>
  What a running task can do: an emission. A wait for memory or for room in the channel is a
  step that is not possible yet, so the waits of \<open>emit\<close> end at once.
\<close>

definition output_of :: "engine_env \<Rightarrow> engine \<Rightarrow> running_task \<Rightarrow> output_sender" where
  "output_of env eg t =
     with_input_reservation (tk_reservation t \<noteq> None)
       (with_routed_relationships (routed_relationships (en_connections env) (tk_processor_id t))
         (output_new (tk_processor_id t) (eg_channel eg) (en_capacity env) (eg_limiter eg) (eg_shared eg)))"

definition immediate :: awaits where
  "immediate =
     \<lparr> aw_reserve = (\<lambda>units bytes out.
         case grant units bytes (take_permits units (ou_limiter out)) of
           (r, ml) \<Rightarrow> Some (Inr r, out\<lparr>ou_limiter := ml,
             ou_shared := (if ml_shared ml then ou_shared out - units else ou_shared out)\<rparr>)),
       aw_send = (\<lambda>out. out) \<rparr>"

definition memory_ready :: "codec \<Rightarrow> data_packet \<Rightarrow> output_sender \<Rightarrow> bool" where
  "memory_ready cd packet out \<longleftrightarrow>
     (case reserve_check (estimated_size cd packet) (ou_limiter out) of
        Inl _ \<Rightarrow> True
      | Inr (units, _) \<Rightarrow>
          units \<le> ml_semaphore (ou_limiter out) \<and> (ml_shared (ou_limiter out) \<longrightarrow> units \<le> ou_shared out))"

definition put_output :: "output_sender \<Rightarrow> engine \<Rightarrow> engine" where
  "put_output out eg =
     eg\<lparr>eg_channel := ou_channel out, eg_limiter := ou_limiter out, eg_shared := ou_shared out\<rparr>"

text \<open>
  With \<open>calm\<close> the lifecycle does not change between the two reads of one round of the loop.
\<close>

inductive engine_step :: "engine_env \<Rightarrow> bool \<Rightarrow> engine \<Rightarrow> engine \<Rightarrow> bool" for env calm where
  top: "eg_phase eg = AtTop \<Longrightarrow> length (en_connections env) \<le> length draws \<Longrightarrow>
    engine_step env calm eg (top env now draws eg)"
| plan: "eg_phase eg = AtSchedule \<Longrightarrow> plan env secs eg = Some eg' \<Longrightarrow> engine_step env calm eg eg'"
| join: "eg_phase eg = AtSelect \<Longrightarrow> i < length (eg_running eg) \<Longrightarrow>
    engine_step env calm eg (join_task secs i completion eg)"
| receive: "eg_phase eg = AtSelect \<Longrightarrow> eg_deferred eg = None \<Longrightarrow> eg_channel eg \<noteq> [] \<Longrightarrow>
    length (en_connections env) \<le> length draws \<Longrightarrow> engine_step env calm eg (receive env now draws eg)"
| expire: "eg_phase eg = AtSelect \<Longrightarrow> eg_stall eg = Some stall \<Longrightarrow> ms_deadline stall \<le> now \<Longrightarrow>
    engine_step env calm eg (eg\<lparr>eg_stall := None, eg_phase := Ended (Some (ms_error stall))\<rparr>)"
| tick: "eg_phase eg = AtSelect \<Longrightarrow> en_domain_memory env \<Longrightarrow>
    engine_step env calm eg (eg\<lparr>eg_phase := (case failed of None \<Rightarrow> AtTop | Some e \<Rightarrow> Ended (Some e))\<rparr>)"
| deadlock: "eg_phase eg = AtSelect \<Longrightarrow> eg_running eg = [] \<Longrightarrow> eg_deferred eg \<noteq> None \<Longrightarrow> eg_stall eg = None \<Longrightarrow>
    \<not> en_domain_memory env \<Longrightarrow> engine_step env calm eg (eg\<lparr>eg_phase := Ended (Some deadlock_error)\<rparr>)"
| emits: "eg_phase eg \<in> {AtTop, AtSchedule, AtSelect} \<Longrightarrow> t \<in> set (eg_running eg) \<Longrightarrow> out = output_of env eg t \<Longrightarrow>
    ou_holds_input out \<or> memory_ready (en_codec env) packet out \<Longrightarrow>
    emit (en_codec env) immediate relationship packet out = Some (r, out') \<Longrightarrow>
    engine_step env calm eg (put_output out' eg)"
| control: "eg_phase eg \<in> {AtTop, AtSchedule, AtSelect} \<Longrightarrow> calm \<longrightarrow> eg_phase eg \<noteq> AtSchedule \<Longrightarrow>
    c \<in> {ctl_pause now (eg_control eg), ctl_resume now (eg_control eg), ctl_drain now (eg_control eg)} \<Longrightarrow>
    engine_step env calm eg (eg\<lparr>eg_control := snd c\<rparr>)"

inductive_cases engine_stepE: "engine_step env calm eg eg'"

inductive engine_steps :: "engine_env \<Rightarrow> bool \<Rightarrow> engine \<Rightarrow> engine \<Rightarrow> bool" for env calm where
  here: "engine_steps env calm eg eg"
| step: "engine_steps env calm eg eg' \<Longrightarrow> engine_step env calm eg' eg'' \<Longrightarrow> engine_steps env calm eg eg''"

section \<open>The invariant of the loop\<close>

definition item_known :: "engine_env \<Rightarrow> work_item \<Rightarrow> bool" where
  "item_known env item \<longleftrightarrow>
     hm_get (en_definitions env) (wi_processor_id item) \<noteq> None \<and>
     (is_source_seed item \<longrightarrow> wi_processor_id item \<notin> cn_to ` set (en_connections env))"

definition engine_ok :: "engine_env \<Rightarrow> engine \<Rightarrow> bool" where
  "engine_ok env eg \<longleftrightarrow>
     running_ok (en_schedule env) (eg_running eg) (eg_active eg) (eg_partitions eg) \<and>
     queues_ok (en_connections env) (en_capacity env) (en_definitions env) (eg_active eg) (eg_pending eg) \<and>
     list_all (item_known env) (eg_pending eg) \<and>
     length (eg_channel eg) \<le> en_capacity env"

text \<open>What the proofs use of a validated configuration.\<close>

definition env_ok :: "engine_env \<Rightarrow> bool" where
  "env_ok env \<longleftrightarrow>
     se_limit (en_schedule env) < u64_max \<and> limits_small (en_capacity env) (en_definitions env) \<and>
     distinct (map connection_id (en_connections env)) \<and>
     (\<forall>c \<in> set (en_connections env). hm_get (en_definitions env) (cn_to c) \<noteq> None)"

subsection \<open>Scheduling\<close>

lemma queues_ok_mono:
  assumes "queues_ok cs capacity definitions active pending"
    and "length (filter (\<lambda>item. \<not> is_source_seed item) pending') \<le> length (filter (\<lambda>item. \<not> is_source_seed item) pending)"
    and "\<And>c. edge_size pending' c \<le> edge_size pending c"
    and "\<And>p. queued_for pending' p + active_of active' p \<le> queued_for pending p + active_of active p"
  shows "queues_ok cs capacity definitions active' pending'"
  unfolding queues_ok_def
proof (intro conjI ballI allI impI)
  show "length (filter (\<lambda>item. \<not> is_source_seed item) pending') \<le> capacity"
    using assms(1,2) unfolding queues_ok_def by linarith
  show "edge_size pending' c \<le> cn_queue_capacity c" if "c \<in> set cs" for c
    using assms(1) assms(3) [of c] that unfolding queues_ok_def by (meson le_trans)
  show "queued_for pending' p + active_of active' p \<le> m"
    if "hm_get definitions p = Some d" "sd_maximum_in_flight (pc_scheduling d) = Some m" for p d m
    using assms(1) assms(4) [of p] that unfolding queues_ok_def by (meson le_trans)
qed

lemma queues_ok_tail: "queues_ok cs capacity definitions active (item # rest) \<Longrightarrow> queues_ok cs capacity definitions active rest"
  by (erule queues_ok_mono) (simp_all add: edge_size_def queued_for_def)

lemma queues_ok_start:
  assumes "queues_ok cs capacity definitions (sl_active s) (item # rest)"
  shows "queues_ok cs capacity definitions (sl_active (start_task item key s)) rest"
  using assms by (rule queues_ok_mono) (simp_all add: edge_size_def queued_for_def start_task_def active_of_def)

lemma queues_ok_rotate:
  "queues_ok cs capacity definitions active (item # rest) \<Longrightarrow> queues_ok cs capacity definitions active (rest @ [item])"
  by (erule queues_ok_mono) (simp_all add: edge_size_def queued_for_def)

lemma schedule_loop_queues:
  assumes "schedule_loop env now backlog inspected s = Some (Inr (), s')"
  shows "queues_ok cs capacity definitions (sl_active s) (sl_pending s) \<Longrightarrow> list_all Q (sl_pending s) \<Longrightarrow>
    queues_ok cs capacity definitions (sl_active s') (sl_pending s') \<and> list_all Q (sl_pending s')"
  using assms
proof (induction rule: schedule_loop_induct)
  case (wait inspected s item rest s')
  then show ?case by (simp add: queues_ok_rotate)
next
  case (lost inspected s item rest rp s')
  then show ?case by (simp add: queues_ok_tail)
next
  case (start inspected s item rest key rp s')
  have p: "sl_pending (start_task item key (s\<lparr>sl_pending := rest, sl_repository := rp\<rparr>)) = rest"
    by (simp add: start_task_def)
  have "queues_ok cs capacity definitions (sl_active (s\<lparr>sl_pending := rest, sl_repository := rp\<rparr>)) (item # rest)"
    using start(1,5) by simp
  from start(4) [unfolded p, OF queues_ok_start [OF this]] start(1,6) show ?case by simp
qed simp

subsection \<open>Joins\<close>

lemma running_of_split: "running_of (xs @ t # ys) p = running_of (xs @ ys) p + (if tk_processor_id t = p then 1 else 0)"
  by (simp add: running_of_def)

lemma deep_split: "deep env k (xs @ t # ys) = deep env k (xs @ ys) + (if k \<le> depth_of env (tk_processor_id t) then 1 else 0)"
  by (simp add: deep_def)

lemma set_keyed_split:
  "distinct (keyed (xs @ t # ys)) \<Longrightarrow>
    (p, k) \<in> set (keyed (xs @ ys)) \<longleftrightarrow>
      (p, k) \<in> set (keyed (xs @ t # ys)) \<and> \<not> (tk_processor_id t = p \<and> tk_partition_key t = Some k)"
  by (cases "tk_partition_key t") (auto simp: keyed_def)

lemma distinct_keyed_split: "distinct (keyed (xs @ t # ys)) \<Longrightarrow> distinct (keyed (xs @ ys))"
  by (auto simp: keyed_def split: if_splits)

lemma free_slot_tables:
  assumes "free_slot t (active, partitions) = (active', partitions')"
  shows "active_of active' p = active_of active p - (if tk_processor_id t = p then 1 else 0)"
    and "k \<in> set (partitions_of partitions' p) \<longleftrightarrow>
      k \<in> set (partitions_of partitions p) \<and> \<not> (tk_processor_id t = p \<and> tk_partition_key t = Some k)"
  using assms by (auto simp: free_slot_def active_of_def partitions_of_def split: option.splits if_splits)

lemma running_ok_join:
  assumes ok: "running_ok env (xs @ t # ys) active partitions"
    and free: "free_slot t (active, partitions) = (active', partitions')"
  shows "running_ok env (xs @ ys) active' partitions'"
  unfolding running_ok_def
proof (intro conjI allI ballI)
  note ok' = ok [unfolded running_ok_def]
  show "length (xs @ ys) \<le> se_limit env" using ok' by simp
  show "active_of active' p = running_of (xs @ ys) p" for p
    using ok' by (simp add: free_slot_tables(1) [OF free] running_of_split)
  show "distinct (keyed (xs @ ys))" using ok' distinct_keyed_split by blast
  show "k \<in> set (partitions_of partitions' p) \<longleftrightarrow> (p, k) \<in> set (keyed (xs @ ys))" for p k
    using ok' by (auto simp: free_slot_tables(2) [OF free] set_keyed_split)
  show "deep env k (xs @ ys) = 0 \<or> deep env k (xs @ ys) + k \<le> se_limit env" for k
    using ok' by (auto simp: deep_split dest!: spec [where x = k])
  show "\<exists>d. hm_get (se_definitions env) (tk_processor_id u) = Some d \<and>
        running_of (xs @ ys) (tk_processor_id u) \<le> processor_limit d \<and>
        (sd_ordering (pc_scheduling d) = Partitioned \<longrightarrow> tk_partition_key u \<noteq> None)"
    if "u \<in> set (xs @ ys)" for u
  proof -
    from that ok' obtain d where "hm_get (se_definitions env) (tk_processor_id u) = Some d"
      "running_of (xs @ t # ys) (tk_processor_id u) \<le> processor_limit d"
      "sd_ordering (pc_scheduling d) = Partitioned \<longrightarrow> tk_partition_key u \<noteq> None"
      by fastforce
    then show ?thesis by (auto simp: running_of_split split: if_splits)
  qed
qed

subsection \<open>Steps keep the invariant\<close>

definition engine_inv :: "engine_env \<Rightarrow> engine \<Rightarrow> bool" where
  "engine_inv env eg \<longleftrightarrow> (\<exists>e. eg_phase eg = Ended (Some e)) \<or> engine_ok env eg"

lemma engine_ok_cong:
  "engine_ok env eg \<Longrightarrow> eg_running eg' = eg_running eg \<Longrightarrow> eg_active eg' = eg_active eg \<Longrightarrow>
    eg_partitions eg' = eg_partitions eg \<Longrightarrow> eg_pending eg' = eg_pending eg \<Longrightarrow>
    length (eg_channel eg') \<le> en_capacity env \<Longrightarrow> engine_ok env eg'"
  by (simp add: engine_ok_def)

lemma engine_ok_channel: "engine_ok env eg \<Longrightarrow> length (eg_channel eg) \<le> en_capacity env"
  by (simp add: engine_ok_def)

lemma drop_emission_fields [simp]:
  "eg_running (drop_emission em eg) = eg_running eg" "eg_active (drop_emission em eg) = eg_active eg"
  "eg_partitions (drop_emission em eg) = eg_partitions eg" "eg_pending (drop_emission em eg) = eg_pending eg"
  "eg_channel (drop_emission em eg) = eg_channel eg" "eg_phase (drop_emission em eg) = eg_phase eg"
  "eg_deferred (drop_emission em eg) = eg_deferred eg" "eg_stall (drop_emission em eg) = eg_stall eg"
  "eg_control (drop_emission em eg) = eg_control eg"
  by (simp_all add: drop_emission_def split: prod.splits)

lemma branch_known:
  assumes "env_ok env" "list_all2 (branch_of emission) (outgoing (en_connections env) p rel) items"
  shows "list_all (item_known env) items"
proof -
  have "list_all2 (\<lambda>c item. item_known env item) (outgoing (en_connections env) p rel) items"
    using assms(2)
  proof (rule list.rel_mono_strong)
    fix c item assume "c \<in> set (outgoing (en_connections env) p rel)" "branch_of emission c item"
    with assms(1) show "item_known env item"
      by (auto simp: item_known_def branch_of_def env_ok_def outgoing_def is_source_seed_def)
  qed
  then show ?thesis by (auto simp: list_all2_conv_all_nth list_all_length)
qed

lemma outgoing_length: "length (outgoing cs p rel) \<le> length cs"
  by (simp add: outgoing_def)

lemma route_held_keeps:
  assumes env: "env_ok env" and ok: "engine_ok env eg" and draws: "length (en_connections env) \<le> length draws"
  shows "engine_inv env (route_held env now draws emission eg)"
proof -
  obtain o' r where r: "route_emission (en_codec env) (en_digest env) (en_flow_id env) (en_connections env) (en_capacity env)
             (en_definitions env) (eg_active eg) draws emission (router_of eg) = (o', r)" by fastforce
  show ?thesis
  proof (cases o')
    case (Inl e)
    then show ?thesis using r by (simp add: route_held_def engine_inv_def)
  next
    case (Inr outcome)
    let ?next = "outgoing (en_connections env) (em_processor_id emission) (em_relationship emission)"
    have len: "length ?next \<le> length draws" using outgoing_length draws by (rule le_trans)
    have "queues_ok (en_connections env) (en_capacity env) (en_definitions env) (eg_active eg) (ro_pending r) \<and>
        list_all (item_known env) (ro_pending r)"
      using r [unfolded Inr] len
    proof (cases rule: route_emission_cases)
      case (Routed items rs)
      have ok': "queues_ok (en_connections env) (en_capacity env) (en_definitions env) (eg_active eg) (eg_pending eg)"
        "list_all (item_known env) (eg_pending eg)" using ok by (simp_all add: engine_ok_def)
      have p: "ro_pending (router_of eg) = eg_pending eg" by (simp add: router_of_def)
      from queues_ok_routed [OF ok'(1) _ _ Routed(3,7,8) [unfolded p]] env ok'(2) branch_known [OF env Routed(3)] Routed(2)
      show ?thesis by (simp add: env_ok_def p)
    qed (use ok in \<open>simp_all add: engine_ok_def router_of_def\<close>)
    then have "engine_ok env (route_held env now draws emission eg)"
      using r [unfolded Inr] ok by (simp add: route_held_def engine_ok_def put_router_def split: prod.splits)
    then show ?thesis by (simp add: engine_inv_def)
  qed
qed

lemma engine_inv_cases: "engine_inv env eg \<Longrightarrow> eg_phase eg \<in> {AtTop, AtSchedule, AtSelect} \<Longrightarrow> engine_ok env eg"
  by (auto simp: engine_inv_def)

lemma settle_keeps: "engine_ok env eg \<Longrightarrow> engine_inv env (settle eg)"
  by (auto simp: settle_def engine_inv_def engine_ok_def split: list.splits option.splits)

lemma schedule_turn_keeps:
  assumes "env_ok env" "engine_ok env eg" "schedule_turn env secs eg = Some eg'"
  shows "engine_inv env eg'"
proof -
  let ?sch = "schedule_available (en_schedule env) secs (ctl_state (eg_control eg)) (length (eg_channel eg)) (schedule_of eg)"
  from assms(3) obtain r s where s: "?sch = Some (r, s)" by (auto simp: schedule_turn_def split: option.splits)
  show ?thesis
  proof (cases r)
    case (Inl e)
    with s assms(3) show ?thesis by (auto simp: schedule_turn_def engine_inv_def)
  next
    case (Inr u)
    have ok: "running_ok (en_schedule env) (sl_running (schedule_of eg)) (sl_active (schedule_of eg)) (sl_partitions (schedule_of eg))"
      "queues_ok (en_connections env) (en_capacity env) (en_definitions env) (sl_active (schedule_of eg)) (sl_pending (schedule_of eg))"
      "list_all (item_known env) (sl_pending (schedule_of eg))"
      using assms(2) by (simp_all add: engine_ok_def schedule_of_def)
    have lim: "se_limit (en_schedule env) < u64_max" using assms(1) by (simp add: env_ok_def)
    have keep: "running_ok (en_schedule env) (sl_running s) (sl_active s) (sl_partitions s) \<and>
        queues_ok (en_connections env) (en_capacity env) (en_definitions env) (sl_active s) (sl_pending s) \<and>
        list_all (item_known env) (sl_pending s)"
    proof (cases "ctl_state (eg_control eg) = Running")
      case True
      with s Inr have loop: "schedule_loop (en_schedule env) secs (routed_backlog (schedule_of eg) (length (eg_channel eg))) 0
          (schedule_of eg) = Some (Inr (), s)" by (simp add: schedule_available_running)
      from schedule_loop_running_ok [OF this lim ok(1)] schedule_loop_queues [OF this ok(2,3)] show ?thesis by blast
    next
      case False
      with s ok show ?thesis by (auto simp: schedule_available_def)
    qed
    with s Inr assms(2,3) show ?thesis
      by (auto simp: schedule_turn_def engine_inv_def engine_ok_def put_schedule_def)
  qed
qed

lemma schedule_turn_phase:
  "schedule_turn env secs eg = Some eg' \<Longrightarrow> eg_phase eg' \<noteq> eg_phase eg \<Longrightarrow> \<exists>e. eg_phase eg' = Ended (Some e)"
  by (auto simp: schedule_turn_def put_schedule_def split: option.splits sum.splits)

lemma route_held_phase:
  "eg_phase (route_held env now draws em eg) \<noteq> eg_phase eg \<Longrightarrow> \<exists>e. eg_phase (route_held env now draws em eg) = Ended (Some e)"
  by (auto simp: route_held_def put_router_def split: prod.splits sum.splits if_splits)

lemma take_deferred_keeps:
  assumes "env_ok env" "engine_ok env eg" "length (en_connections env) \<le> length draws"
  shows "engine_inv env (take_deferred env now draws eg)"
proof (cases "eg_deferred eg")
  case None
  with assms(2) show ?thesis by (simp add: take_deferred_def engine_inv_def)
next
  case (Some em)
  have "engine_ok env (eg\<lparr>eg_deferred := None\<rparr>)" using assms(2) by (simp add: engine_ok_def)
  from route_held_keeps [OF assms(1) this assms(3)] Some show ?thesis by (simp add: take_deferred_def)
qed

lemma top_keeps:
  assumes "env_ok env" "engine_ok env eg" "length (en_connections env) \<le> length draws"
  shows "engine_inv env (top env now draws eg)"
proof -
  have ok: "engine_ok env (eg\<lparr>eg_phase := p\<rparr>)" for p using assms(2) by (simp add: engine_ok_def)
  show ?thesis
    using take_deferred_keeps [OF assms(1) ok assms(3)] ok assms(2) by (simp add: top_def engine_inv_def)
qed

lemma plan_keeps:
  assumes "env_ok env" "engine_ok env eg" "eg_phase eg = AtSchedule" "plan env secs eg = Some eg'"
  shows "engine_inv env eg'"
proof -
  from assms(4) obtain eg1 where t: "schedule_turn env secs eg = Some eg1"
    by (auto simp: plan_def split: option.splits)
  from schedule_turn_keeps [OF assms(1,2) t] have inv: "engine_inv env eg1" .
  show ?thesis
  proof (cases "eg_phase eg1 = eg_phase eg")
    case True
    with inv assms(3) have "engine_ok env eg1" using engine_inv_cases by simp
    from settle_keeps [OF this] True t assms(4) show ?thesis by (simp add: plan_def)
  next
    case False
    with inv t assms(4) show ?thesis by (simp add: plan_def)
  qed
qed

lemma join_task_keeps:
  assumes "engine_ok env eg" "i < length (eg_running eg)"
  shows "engine_inv env (join_task secs i completion eg)"
proof (cases "cp_fatal completion")
  case (Some e)
  then show ?thesis by (simp add: join_task_def engine_inv_def Let_def)
next
  case None
  let ?t = "eg_running eg ! i" and ?xs = "take i (eg_running eg)" and ?ys = "drop (Suc i) (eg_running eg)"
  obtain active partitions where f: "free_slot ?t (eg_active eg, eg_partitions eg) = (active, partitions)" by fastforce
  have split: "eg_running eg = ?xs @ ?t # ?ys" using assms(2) by (simp add: id_take_nth_drop)
  have e: "eg_running (end_task i eg) = ?xs @ ?ys" "eg_active (end_task i eg) = eg_active eg"
    "eg_partitions (end_task i eg) = eg_partitions eg" "eg_pending (end_task i eg) = eg_pending eg"
    "eg_channel (end_task i eg) = eg_channel eg"
    by (simp_all add: end_task_def Let_def split: option.splits prod.splits)
  have "running_ok (en_schedule env) (?xs @ ?t # ?ys) (eg_active eg) (eg_partitions eg)"
    using assms(1) split by (simp add: engine_ok_def)
  from running_ok_join [OF this f] have run: "running_ok (en_schedule env) (?xs @ ?ys) active partitions" .
  have queues: "queues_ok (en_connections env) (en_capacity env) (en_definitions env) active (eg_pending eg)"
    by (rule queues_ok_mono [where pending = "eg_pending eg" and active = "eg_active eg"])
      (use assms(1) in \<open>simp_all add: engine_ok_def free_slot_tables(1) [OF f]\<close>)
  show ?thesis
    using None f run queues assms(1) by (simp add: join_task_def engine_inv_def engine_ok_def Let_def e)
qed

lemma send_channel:
  "send immediate em out = Some (r, out') \<Longrightarrow> length (ou_channel out) \<le> ou_capacity out \<Longrightarrow>
    length (ou_channel out') \<le> ou_capacity out"
  by (auto simp: send_def Let_def immediate_def drop_output_def split: if_splits prod.splits)

lemma emit_channel:
  assumes "emit cd immediate rel p out = Some (r, out')" "length (ou_channel out) \<le> ou_capacity out"
  shows "length (ou_channel out') \<le> ou_capacity out"
proof -
  have count: "ou_channel (count_records rel n o') = ou_channel o'" for n o' by (simp add: count_records_def)
  have attempt: "ou_channel o' = ou_channel out \<and> ou_capacity o' = ou_capacity out"
    if "try_reserve_output b out = (x, o')" for b x o'
    using that by (auto simp: try_reserve_output_def split: prod.splits)
  have reserve: "ou_channel o' = ou_channel out \<and> ou_capacity o' = ou_capacity out"
    if "aw_reserve immediate units b out = Some (x, o')" for units b x o'
    using that by (auto simp: immediate_def split: prod.splits)
  show ?thesis
    using assms
    by (auto simp: emit_def Let_def count split: if_splits sum.splits prod.splits option.splits
        dest!: send_channel attempt reserve)
qed

lemma engine_step_keeps:
  assumes "engine_step env calm eg eg'" "env_ok env" "engine_inv env eg"
  shows "engine_inv env eg'"
  using assms(1)
proof cases
  case (top draws now)
  with assms engine_inv_cases top_keeps show ?thesis by simp
next
  case (plan secs)
  have "engine_ok env eg" using engine_inv_cases [OF assms(3)] plan(1) by simp
  from plan_keeps [OF assms(2) this plan] show ?thesis .
next
  case (join i secs completion)
  with assms engine_inv_cases join_task_keeps show ?thesis by simp
next
  case (receive draws now)
  then obtain em rest where c: "eg_channel eg = em # rest" by (cases "eg_channel eg") auto
  have "engine_ok env eg" using engine_inv_cases [OF assms(3)] receive(2) by simp
  then have "engine_ok env (eg\<lparr>eg_channel := rest, eg_phase := AtTop\<rparr>)" using c by (simp add: engine_ok_def)
  from route_held_keeps [OF assms(2) this receive(5)] show ?thesis using c receive(1) by (simp add: receive_def)
next
  case (emits t out packet relationship r out')
  have ok: "engine_ok env eg" using engine_inv_cases [OF assms(3)] emits(2) by auto
  have out: "ou_channel out = eg_channel eg" "ou_capacity out = en_capacity env"
    using emits(4) by (simp_all add: output_of_def with_input_reservation_def with_routed_relationships_def output_new_def)
  have "length (ou_channel out') \<le> en_capacity env"
    using emit_channel [OF emits(6)] out engine_ok_channel [OF ok] by simp
  then show ?thesis using ok emits(1) by (simp add: engine_inv_def put_output_def engine_ok_def)
next
  case (tick failed)
  have "engine_ok env eg" using engine_inv_cases [OF assms(3)] tick(2) by simp
  then show ?thesis using tick(1) by (simp add: engine_inv_def engine_ok_def split: option.split)
next
  case (control c now)
  have "engine_ok env eg" using engine_inv_cases [OF assms(3)] control(2) by auto
  then show ?thesis using control(1) by (simp add: engine_inv_def engine_ok_def)
qed (simp_all add: engine_inv_def)

lemma engine_steps_inv: "engine_steps env calm eg eg' \<Longrightarrow> env_ok env \<Longrightarrow> engine_inv env eg \<Longrightarrow> engine_inv env eg'"
  by (induction rule: engine_steps.induct) (auto intro: engine_step_keeps)

subsection \<open>The start\<close>

text \<open>Sizes for which the saturating sums of the checks are exact.\<close>

definition sizes_fit :: "flow_config \<Rightarrow> bool" where
  "sizes_fit fc \<longleftrightarrow>
     ec_max_concurrency (fc_engine fc) < u64_max \<and> ec_queue_capacity (fc_engine fc) < u64_max \<and>
     (\<forall>p \<in> set (fc_processors fc). \<forall>m. sd_maximum_in_flight (pc_scheduling p) = Some m \<longrightarrow> m < u64_max)"

lemma processor_map_fold:
  "hm_get (fold (\<lambda>p m. hm_insert (pc_id p) p m) ps m) i = Some d \<Longrightarrow>
    (d \<in> set ps \<and> pc_id d = i) \<or> hm_get m i = Some d"
proof (induction ps arbitrary: m)
  case (Cons p ps)
  then have "hm_get (fold (\<lambda>p m. hm_insert (pc_id p) p m) ps (hm_insert (pc_id p) p m)) i = Some d" by simp
  from Cons.IH [OF this] show ?case by (auto split: if_splits)
qed simp

lemma processor_map_get: "hm_get (processor_map fc) i = Some d \<Longrightarrow> d \<in> set (fc_processors fc) \<and> pc_id d = i"
  unfolding processor_map_def using processor_map_fold [of "fc_processors fc" "[]" i d] by simp

lemma processor_map_dom:
  "i \<in> pc_id ` set ps \<or> hm_get m i \<noteq> None \<Longrightarrow> hm_get (fold (\<lambda>p m. hm_insert (pc_id p) p m) ps m) i \<noteq> None"
proof (induction ps arbitrary: m)
  case (Cons p ps)
  then have "i \<in> pc_id ` set ps \<or> hm_get (hm_insert (pc_id p) p m) i \<noteq> None" by auto
  from Cons.IH [OF this] show ?case by simp
qed simp

lemma processor_map_known: "i \<in> set (processor_ids fc) \<Longrightarrow> hm_get (processor_map fc) i \<noteq> None"
  using processor_map_dom [of i "fc_processors fc" "[]"] by (simp add: processor_map_def processor_ids_def)

lemma env_ok_of:
  assumes "validate fc = Inr ()" "sizes_fit fc" "distinct (map connection_id (fc_connections fc))"
  shows "env_ok (engine_env_of cd digest fc)"
proof -
  have "hm_get (processor_map fc) (cn_to c) \<noteq> None" if "c \<in> set (fc_connections fc)" for c
    using assms(1) that unfolding validate_accepts by (intro processor_map_known) (simp add: list_all_iff)
  moreover have "m < u64_max" if "hm_get (processor_map fc) p = Some d" "sd_maximum_in_flight (pc_scheduling d) = Some m" for p d m
    using processor_map_get [OF that(1)] that(2) assms(2) by (auto simp: sizes_fit_def)
  ultimately show ?thesis
    using assms(2,3) by (auto simp: env_ok_def engine_env_of_def limits_small_def sizes_fit_def)
qed

lemma recover_backlog_ids:
  "recover_backlog cd stored ml shared = (Inr items, ml', shared') \<Longrightarrow>
    map wi_queue_id items = map (Some \<circ> sw_queue_id) stored \<and> map wi_packet items = map sw_packet stored \<and>
    map wi_processor_id items = map sw_processor_id stored \<and>
    list_all (\<lambda>item. wi_connection item = None \<and> wi_reservation item \<noteq> None \<and> wi_queue_id item \<noteq> None) items"
proof (induction stored arbitrary: items ml shared ml' shared')
  case (Cons s stored)
  obtain r ml1 sh1 where t: "try_reserve (estimated_size cd (sw_packet s)) ml shared = (r, ml1, sh1)" by (metis prod_cases3)
  obtain b ml2 sh2 where b: "recover_backlog cd stored ml1 sh1 = (b, ml2, sh2)" by (metis prod_cases3)
  show ?case
    using Cons.prems t b Cons.IH [of ml1 sh1 _ ml2 sh2] by (auto split: sum.splits prod.splits)
qed simp

lemma engine_start_seeds:
  assumes "engine_start cd digest fc secs now uuid control ml shared rp = Inr eg" "list_all is_source_seed (eg_pending eg)"
  shows "eg_pending eg = source_seeds uuid fc"
proof -
  from assms(1) obtain backlog where p: "eg_pending eg = (if backlog = [] then source_seeds uuid fc else backlog)"
    and b: "list_all (\<lambda>item. wi_queue_id item \<noteq> None) backlog"
  proof (cases rp)
    case None
    with assms(1) that [of "[]"] show thesis by (auto simp: engine_start_def)
  next
    case (Some r)
    let ?r = "snd (recover_abandoned secs (fc_id fc) (rc_abandoned_after_seconds (ec_repository (fc_engine fc))) r)"
    from Some assms(1) obtain stored where w: "pending_work cd digest (fc_id fc) ?r = Inr stored"
      by (auto simp: engine_start_def Let_def split: sum.splits)
    obtain items ml' sh' where rb: "recover_backlog cd stored ml shared = (Inr items, ml', sh')"
      using assms(1) Some w by (auto simp: engine_start_def Let_def split: sum.splits prod.splits)
    have "list_all (\<lambda>item. wi_queue_id item \<noteq> None) items"
      using recover_backlog_ids [OF rb] by (simp add: list_all_iff)
    moreover have "eg_pending eg = (if items = [] then source_seeds uuid fc else items)"
      using assms(1) Some w rb by (auto simp: engine_start_def Let_def)
    ultimately show thesis using that by blast
  qed
  show ?thesis
  proof (cases backlog)
    case (Cons x xs)
    with p b assms(2) show ?thesis by (simp add: is_source_seed_def)
  qed (use p in simp)
qed

lemma seeds_queued:
  assumes "distinct (processor_ids fc)"
  shows "queued_for (source_seeds uuid fc) p \<le> 1"
proof -
  let ?ps = "filter (\<lambda>p. pc_id p \<notin> cn_to ` set (fc_connections fc)) (fc_processors fc)"
  have "distinct (map pc_id ?ps)" using assms by (simp add: processor_ids_def distinct_map_filter)
  from distinct_one [OF this, of p] show ?thesis
    by (simp add: queued_for_def source_seeds_def filter_map comp_def seed_def)
qed

lemma seeds_are_seeds: "list_all is_source_seed (source_seeds uuid fc)"
  by (simp add: source_seeds_def list_all_iff is_source_seed_def seed_def)

lemma seeds_ok:
  assumes "validate fc = Inr ()"
  shows "queues_ok (fc_connections fc) capacity (processor_map fc) [] (source_seeds uuid fc)"
    and "list_all (item_known (engine_env_of cd digest fc)) (source_seeds uuid fc)"
proof -
  have v: "distinct (processor_ids fc)" "list_all processor_valid (fc_processors fc)"
    using assms unfolding validate_accepts by blast+
  have none: "filter (\<lambda>item. \<not> is_source_seed item) (source_seeds uuid fc) = []"
    using seeds_are_seeds by (auto simp: filter_empty_conv list_all_iff)
  have edge: "edge_size (source_seeds uuid fc) c = 0" for c
    by (simp add: edge_size_def source_seeds_def filter_map comp_def seed_def)
  have room: "queued_for (source_seeds uuid fc) p + active_of [] p \<le> m"
    if "hm_get (processor_map fc) p = Some d" "sd_maximum_in_flight (pc_scheduling d) = Some m" for p d m
  proof -
    have "processor_valid d" using processor_map_get [OF that(1)] v(2) by (auto simp: list_all_iff)
    with that(2) have "1 \<le> m" by (auto simp: processor_valid_def)
    with seeds_queued [OF v(1), of uuid p] show ?thesis by (simp add: active_of_def)
  qed
  show "queues_ok (fc_connections fc) capacity (processor_map fc) [] (source_seeds uuid fc)"
    unfolding queues_ok_def none edge using room by auto
  show "list_all (item_known (engine_env_of cd digest fc)) (source_seeds uuid fc)"
    using processor_map_known
    by (auto simp: list_all_iff source_seeds_def item_known_def engine_env_of_def seed_def processor_ids_def)
qed

lemma engine_start_fields:
  assumes "engine_start cd digest fc secs now uuid control ml shared rp = Inr eg"
  shows "eg_phase eg = AtTop" "eg_running eg = []" "eg_active eg = []" "eg_partitions eg = []" "eg_channel eg = []"
    "eg_deferred eg = None" "eg_stall eg = None" "ctl_state (eg_control eg) = Running" "rp = None \<Longrightarrow> eg_repository eg = None"
  using assms by (auto simp: engine_start_def ctl_running_def transition_def split: sum.splits)

lemma engine_start_ok:
  assumes "validate fc = Inr ()" "list_all is_source_seed (eg_pending eg)"
    and start: "engine_start cd digest fc secs now uuid control ml shared rp = Inr eg"
  shows "engine_ok (engine_env_of cd digest fc) eg"
proof -
  note f = engine_start_fields [OF start]
  have run: "running_ok env [] [] []" for env
    by (simp add: running_ok_def running_of_def active_of_def keyed_def partitions_of_def deep_def)
  show ?thesis
    using run seeds_ok [OF assms(1)]
    by (simp add: engine_ok_def f engine_start_seeds [OF start assms(2)] engine_env_of_def)
qed

section \<open>Properties\<close>

text \<open>
  C10. A validated flow in which no connection is listed twice starts from its seeds. Then in every
  state that the run reaches, whatever the tasks do and whenever the flow is paused, resumed or
  drained, until it ends with an error, the limits hold: those of the running tasks (\<open>running_ok\<close>),
  the capacity of every connection and of the flow and \<open>maximum_in_flight\<close> (\<open>queues_ok\<close>), and the
  channel holds at most \<open>queue_capacity\<close> emissions. \<open>validate\<close> does not refuse a connection that is
  listed twice (same ends and relationship); \<open>Flow_Router.duplicate_connection_overfills\<close> shows the
  limit exceeded then. The sizes of the configuration fit the integers that hold them (\<open>sizes_fit\<close>).
\<close>

theorem engine_limits:
  assumes "validate fc = Inr ()" "sizes_fit fc" "distinct (map connection_id (fc_connections fc))"
    and "engine_start cd digest fc secs now uuid control ml shared rp = Inr eg0" "list_all is_source_seed (eg_pending eg0)"
    and "engine_steps (engine_env_of cd digest fc) calm eg0 eg" "\<nexists>e. eg_phase eg = Ended (Some e)"
  shows "engine_ok (engine_env_of cd digest fc) eg"
proof -
  have "engine_inv (engine_env_of cd digest fc) eg0"
    using engine_start_ok [OF assms(1,5,4)] by (simp add: engine_inv_def)
  from engine_steps_inv [OF assms(6) env_ok_of [OF assms(1-3)] this] assms(7) show ?thesis
    by (auto simp: engine_inv_def)
qed

text \<open>
  A restart resumes the persisted work and nothing else: the pending packets of the
  repository in their order, each with memory reserved, or the seeds of the sources when there
  are none; and when the memory does not suffice for all of them, the run does not start.
\<close>

theorem restart_resumes:
  assumes "engine_start cd digest fc secs now uuid control ml shared (Some rp) = r"
    and "pending_work cd digest (fc_id fc)
      (snd (recover_abandoned secs (fc_id fc) (rc_abandoned_after_seconds (ec_repository (fc_engine fc))) rp)) = Inr stored"
  shows "case r of
      Inr eg \<Rightarrow> (if stored = [] then eg_pending eg = source_seeds uuid fc
         else map wi_queue_id (eg_pending eg) = map (Some \<circ> sw_queue_id) stored \<and>
           map wi_packet (eg_pending eg) = map sw_packet stored \<and>
           map wi_processor_id (eg_pending eg) = map sw_processor_id stored \<and>
           list_all (\<lambda>item. wi_reservation item \<noteq> None) (eg_pending eg))
    | Inl e \<Rightarrow> (\<exists>ml' shared'. recover_backlog cd stored ml shared = (Inl e, ml', shared'))"
proof -
  obtain b ml' shared' where b: "recover_backlog cd stored ml shared = (b, ml', shared')" by (metis prod_cases3)
  show ?thesis
  proof (cases b)
    case (Inl e)
    with b assms show ?thesis by (auto simp: engine_start_def Let_def)
  next
    case (Inr items)
    note ids = recover_backlog_ids [OF b [unfolded Inr]]
    then have "items = [] \<longleftrightarrow> stored = []" by auto
    with b Inr assms ids show ?thesis by (auto simp: engine_start_def Let_def list_all_iff)
  qed
qed

end
