(* ===== verification/Flow_Progress.thy ===== *)
theory Flow_Progress
  imports Flow_Executor
begin

text \<open>
  Progress of the run loop: without a repository, and when the lifecycle does not change in the
  middle of a round, the loop never waits for a task when none runs, so the error for a
  deadlock is not reached; and what is lost when a run stops early.
\<close>

section \<open>Scheduling makes progress\<close>

text \<open>A round only adds tasks, and one that adds none without a repository keeps the queue.\<close>

lemma schedule_loop_grows:
  assumes "schedule_loop env now backlog inspected s = Some (Inr (), s')"
  shows "\<exists>ts. sl_running s' = sl_running s @ ts \<and>
    (sl_repository s = None \<longrightarrow> sl_repository s' = None \<and> (ts = [] \<longrightarrow> set (sl_pending s') = set (sl_pending s)))"
  using assms
proof (induction rule: schedule_loop_induct)
  case (start inspected s item rest key rp s')
  then show ?case by (auto simp: start_task_def claim_item_no_repository)
qed (auto simp: claim_item_no_repository)

text \<open>What a validated configuration gives beyond \<open>env_ok\<close>.\<close>

definition env_live :: "engine_env \<Rightarrow> bool" where
  "env_live env \<longleftrightarrow>
     env_ok env \<and>
     (\<forall>c \<in> set (en_connections env). 0 < cn_queue_capacity c) \<and>
     (\<forall>p rel. length (outgoing (en_connections env) p rel) \<le> en_capacity env) \<and>
     (\<forall>p d. hm_get (en_definitions env) p = Some d \<longrightarrow>
        0 < processor_limit d \<and> (\<forall>m. sd_maximum_in_flight (pc_scheduling d) = Some m \<longrightarrow> 0 < m)) \<and>
     (\<forall>p. depth_of (en_schedule env) p + 1 \<le> se_limit (en_schedule env))"

lemma idle_decides:
  assumes "env_live env" "item_known env item" "\<not> is_source_seed item"
    and idle: "running_ok (en_schedule env) [] active partitions"
  shows "decide (en_schedule env) backlog [] active partitions item \<noteq> Some Wait"
proof -
  let ?p = "wi_processor_id item"
  from assms(2) obtain d where d: "hm_get (en_definitions env) ?p = Some d" by (auto simp: item_known_def)
  have "active_of active ?p = 0" "partitions_of partitions ?p = []"
    using idle by (auto simp: running_ok_def running_of_def keyed_def dest: equals0I [where A = "set (partitions_of partitions ?p)"])
  moreover have "0 < processor_limit d" "depth_of (en_schedule env) ?p + 1 \<le> se_limit (en_schedule env)"
    "se_limit (en_schedule env) < u64_max"
    using assms(1) d by (auto simp: env_live_def env_ok_def)
  moreover from this have "\<not> sat_add (sat_add 0 1) (depth_of (en_schedule env) ?p) > se_limit (en_schedule env)"
    by (simp add: sat_add_def min_def)
  ultimately show ?thesis
    using assms(3) d by (auto simp: decide_def split: option.splits sum.splits)
qed

text \<open>A queue that is full while nothing runs holds a routed packet.\<close>

definition blocked :: "engine_env \<Rightarrow> nat hmap \<Rightarrow> work_item list \<Rightarrow> processor_emission \<Rightarrow> bool" where
  "blocked env active pending emission \<longleftrightarrow>
     (let next = outgoing (en_connections env) (em_processor_id emission) (em_relationship emission)
      in sat_add (length (filter (\<lambda>item. \<not> is_source_seed item) pending)) (length next) > en_capacity env \<or>
         list_ex (connection_full pending (en_definitions env) active next) next)"

lemma length_filter_mono: "(\<And>x. x \<in> set xs \<Longrightarrow> P x \<Longrightarrow> Q x) \<Longrightarrow> length (filter P xs) \<le> length (filter Q xs)"
  by (induction xs) (auto simp: le_SucI)

lemma blocked_has_work:
  assumes live: "env_live env" and known: "list_all (item_known env) pending"
    and idle: "running_ok (en_schedule env) [] active partitions" and full: "blocked env active pending emission"
  shows "\<exists>item \<in> set pending. \<not> is_source_seed item"
proof (rule ccontr)
  assume none: "\<not> (\<exists>item \<in> set pending. \<not> is_source_seed item)"
  let ?next = "outgoing (en_connections env) (em_processor_id emission) (em_relationship emission)"
  have "filter (\<lambda>item. \<not> is_source_seed item) pending = []" using none by (auto simp: filter_empty_conv)
  moreover have "length ?next \<le> en_capacity env" using live by (auto simp: env_live_def)
  moreover have "\<not> connection_full pending (en_definitions env) active ?next c" if c: "c \<in> set ?next" for c
  proof -
    from c have cs: "c \<in> set (en_connections env)" by (simp add: outgoing_def)
    have edge: "edge_size pending c = 0" using none by (auto simp: edge_size_def filter_empty_conv is_source_seed_def)
    have queued: "queued_for pending (cn_to c) = 0"
      using none known cs by (auto simp: queued_for_def filter_empty_conv list_all_iff item_known_def)
    have act: "active_of active (cn_to c) = 0" using idle by (simp add: running_ok_def running_of_def)
    have dist: "distinct (map connection_id ?next)"
      using live by (intro distinct_outgoing) (simp add: env_live_def env_ok_def)
    have "length (filter (\<lambda>x. cn_to x = cn_to c) ?next) \<le> length (filter (\<lambda>x. connection_id x = connection_id c) ?next)"
      using c by (intro length_filter_mono) (auto simp: outgoing_def connection_id_def)
    also have "\<dots> \<le> 1" by (rule distinct_one [OF dist])
    finally have one: "length (filter (\<lambda>x. cn_to x = cn_to c) ?next) \<le> 1" .
    have lim: "0 < m" if "hm_get (en_definitions env) (cn_to c) = Some d" "sd_maximum_in_flight (pc_scheduling d) = Some m" for d m
      using live that by (auto simp: env_live_def)
    have cap: "0 < cn_queue_capacity c" using live cs by (auto simp: env_live_def)
    show ?thesis
      using one edge queued act cap
      by (auto simp: connection_full_def sat_add_def split: option.splits dest!: lim)
  qed
  ultimately show False using full by (auto simp: blocked_def Let_def list_ex_iff sat_add_def)
qed

section \<open>The loop does not deadlock\<close>

text \<open>
  At the top of the loop anything can be deferred. Between the halves of a round, when nothing
  runs, the flow is running and a deferred emission that waits for a queue is blocked. In the
  \<open>select!\<close>, when nothing runs, nothing is deferred.
\<close>

definition progress_inv :: "engine_env \<Rightarrow> engine \<Rightarrow> bool" where
  "progress_inv env eg \<longleftrightarrow>
     eg_repository eg = None \<and> ctl_state (eg_control eg) \<in> {Running, Paused, Draining} \<and>
     (eg_phase eg = AtSchedule \<and> eg_running eg = [] \<longrightarrow>
        ctl_state (eg_control eg) = Running \<and>
        (\<forall>em. eg_deferred eg = Some em \<and> eg_stall eg = None \<longrightarrow> blocked env (eg_active eg) (eg_pending eg) em)) \<and>
     (eg_phase eg = AtSelect \<and> eg_running eg = [] \<longrightarrow> eg_deferred eg = None)"

lemma route_emission_full:
  assumes "route_emission (en_codec env) digest flow (en_connections env) (en_capacity env) (en_definitions env) active draws
      emission s = (Inr OutQueueFull, s')"
  shows "blocked env active (ro_pending s) emission" "s' = s"
  using assms by (auto simp: route_emission_def blocked_def Let_def split: if_splits sum.splits prod.splits flow_error.splits)

lemma publish_no_repository:
  "ro_repository s = None \<Longrightarrow> publish_branches cd digest flow emission bs draws s = (r, s') \<Longrightarrow> ro_repository s' = None"
proof (induction cd digest flow emission bs draws s rule: publish_branches.induct)
  case (1 cd digest flow emission c reservation branches d draws s)
  from 1(3,4) show ?case by (intro 1(1) [OF 1(3)]) simp_all
qed auto

lemma route_no_repository:
  assumes "route_emission cd digest flow cs capacity defs active draws emission s = (r, s')" "ro_repository s = None"
  shows "ro_repository s' = None"
proof -
  let ?next = "outgoing cs (em_processor_id emission) (em_relationship emission)"
  obtain b ml shared where br: "reserve_branches (estimated_size cd (em_packet emission)) (length ?next) (ro_limiter s)
      (ro_shared s) = (b, ml, shared)" by (metis prod_cases3)
  show ?thesis
  proof (cases b)
    case (Inl e)
    with assms br show ?thesis by (auto simp: route_emission_def Let_def split: if_splits)
  next
    case (Inr rs)
    obtain u s1 where p: "publish_branches cd digest flow emission (zip ?next rs) draws
        (s\<lparr>ro_limiter := ml, ro_shared := shared\<rparr>) = (u, s1)" by fastforce
    have "ro_repository s1 = None" by (rule publish_no_repository [OF _ p]) (simp add: assms(2))
    with assms br Inr p show ?thesis by (auto simp: route_emission_def Let_def split: if_splits sum.splits)
  qed
qed

lemma route_held_progress:
  assumes "eg_repository eg = None" "eg_deferred eg = None" "\<nexists>e. eg_phase eg = Ended (Some e)"
    and held: "eg' = route_held env now draws emission eg" and phase: "eg_phase eg' = eg_phase eg"
  shows "eg_repository eg' = None \<and> eg_running eg' = eg_running eg \<and> eg_control eg' = eg_control eg \<and>
    (\<forall>em. eg_deferred eg' = Some em \<and> eg_stall eg' = None \<longrightarrow> blocked env (eg_active eg') (eg_pending eg') em)"
proof -
  obtain o' r where r: "route_emission (en_codec env) (en_digest env) (en_flow_id env) (en_connections env) (en_capacity env)
             (en_definitions env) (eg_active eg) draws emission (router_of eg) = (o', r)" by fastforce
  have rep: "ro_repository r = None" using route_no_repository [OF r] assms(1) by (simp add: router_of_def)
  show ?thesis
  proof (cases o')
    case (Inl e)
    with r held have "eg_phase eg' = Ended (Some e)" by (simp add: route_held_def)
    with phase assms(3) show ?thesis by metis
  next
    case (Inr outcome)
    show ?thesis
    proof (cases outcome)
      case OutQueueFull
      from route_emission_full [OF r [unfolded Inr OutQueueFull]] r Inr OutQueueFull held assms(1,2) show ?thesis
        by (simp add: route_held_def hold_unrouted_def put_router_def router_of_def)
    next
      case OutRouted
      with r Inr held rep assms(2) show ?thesis
        by (simp add: route_held_def hold_unrouted_def put_router_def drop_emission_def split: prod.splits)
    next
      case (OutMemoryFull e)
      with r Inr held rep assms(2) show ?thesis
        by (auto simp: route_held_def hold_unrouted_def put_router_def split: option.splits)
    qed
  qed
qed

lemma top_progress:
  assumes "progress_inv env eg" "eg_phase eg = AtTop"
  shows "(\<exists>e. eg_phase (top env now draws eg) = Ended e) \<or> progress_inv env (top env now draws eg)"
proof -
  let ?eg = "eg\<lparr>eg_phase := AtSchedule\<rparr>"
  from assms(1) have inv: "eg_repository eg = None" "ctl_state (eg_control eg) \<in> {Running, Paused, Draining}"
    by (simp_all add: progress_inv_def)
  consider (ends) "ctl_state (eg_control eg) \<in> {Draining, Stopped}" "eg_running eg = []"
    | (paused) "ctl_state (eg_control eg) = Paused" "eg_running eg = []"
    | (go) "\<not> (ctl_state (eg_control eg) \<in> {Draining, Stopped} \<and> eg_running eg = [])"
        "\<not> (ctl_state (eg_control eg) = Paused \<and> eg_running eg = [])" by blast
  then show ?thesis
  proof cases
    case ends
    then show ?thesis by (simp add: top_def)
  next
    case paused
    then show ?thesis using assms by (simp add: top_def)
  next
    case go
    then have top: "top env now draws eg = take_deferred env now draws ?eg" unfolding top_def by (simp only: if_False)
    have runs: "eg_running eg = [] \<longrightarrow> ctl_state (eg_control eg) = Running" using go inv(2) by auto
    show ?thesis
    proof (cases "eg_deferred eg")
      case None
      with runs inv show ?thesis by (simp add: top take_deferred_def progress_inv_def)
    next
      case (Some em)
      let ?in = "?eg\<lparr>eg_deferred := None\<rparr>" and ?out = "route_held env now draws em (?eg\<lparr>eg_deferred := None\<rparr>)"
      have out: "top env now draws eg = ?out" using Some by (simp add: top take_deferred_def)
      show ?thesis
      proof (cases "eg_phase ?out = eg_phase ?in")
        case True
        from route_held_progress [OF _ _ _ refl True] runs inv True show ?thesis
          by (simp add: out progress_inv_def)
      next
        case False
        from route_held_phase [OF False] show ?thesis by (auto simp: out)
      qed
    qed
  qed
qed

lemma plan_progress:
  assumes live: "env_live env" and ok: "engine_ok env eg" and inv: "progress_inv env eg"
    and phase: "eg_phase eg = AtSchedule" and plan: "plan env secs eg = Some eg'"
  shows "(\<exists>e. eg_phase eg' = Ended e) \<or> progress_inv env eg'"
proof -
  from plan obtain eg1 where t: "schedule_turn env secs eg = Some eg1" by (auto simp: plan_def split: option.splits)
  show ?thesis
  proof (cases "eg_phase eg1 = eg_phase eg")
    case False
    from schedule_turn_phase [OF t False] t plan False show ?thesis by (auto simp: plan_def)
  next
    case True
    with t plan have eg': "eg' = settle eg1" by (simp add: plan_def)
    from t True phase obtain s where s: "schedule_available (en_schedule env) secs (ctl_state (eg_control eg))
        (length (eg_channel eg)) (schedule_of eg) = Some (Inr (), s)" "eg1 = put_schedule s eg"
      by (auto simp: schedule_turn_def split: option.splits sum.splits)
    have fields: "eg_control eg1 = eg_control eg" "eg_deferred eg1 = eg_deferred eg" "eg_stall eg1 = eg_stall eg"
      "eg_running eg1 = sl_running s" "eg_pending eg1 = sl_pending s" "eg_repository eg1 = sl_repository s"
      using s(2) by (simp_all add: put_schedule_def)
    have ends: "\<exists>ts. sl_running s = eg_running eg @ ts \<and>
      (sl_repository s = None \<and> (ts = [] \<longrightarrow> set (sl_pending s) = set (eg_pending eg)))"
    proof (cases "ctl_state (eg_control eg) = Running")
      case True
      from schedule_loop_grows [OF s(1) [unfolded True schedule_available_running]] inv show ?thesis
        by (auto simp: schedule_of_def progress_inv_def)
    next
      case False
      with s(1) inv show ?thesis by (auto simp: schedule_available_def schedule_of_def progress_inv_def)
    qed
    have none: "eg_deferred eg = None" if idle: "sl_running s = []" and stall: "eg_stall eg = None"
    proof (rule ccontr)
      assume "eg_deferred eg \<noteq> None"
      then obtain em where em: "eg_deferred eg = Some em" by auto
      have run: "eg_running eg = []" and same: "set (sl_pending s) = set (eg_pending eg)" using ends idle by auto
      from inv phase run em stall have ctl: "ctl_state (eg_control eg) = Running"
        and full: "blocked env (eg_active eg) (eg_pending eg) em" by (simp_all add: progress_inv_def)
      from ok run have r0: "running_ok (en_schedule env) [] (eg_active eg) (eg_partitions eg)"
        and known: "list_all (item_known env) (eg_pending eg)" by (simp_all add: engine_ok_def)
      from blocked_has_work [OF live known r0 full] obtain item where
        item: "item \<in> set (eg_pending eg)" "\<not> is_source_seed item" by blast
      note loop = s(1) [unfolded ctl schedule_available_running]
      have small: "se_limit (en_schedule env) < u64_max" "0 < se_limit (en_schedule env)"
        using live by (auto simp: env_live_def env_ok_def dest: spec)
      have "running_ok (en_schedule env) (sl_running (schedule_of eg)) (sl_active (schedule_of eg)) (sl_partitions (schedule_of eg))"
        using ok by (simp add: engine_ok_def schedule_of_def)
      from schedule_loop_running_ok [OF loop small(1) this] idle
      have r1: "running_ok (en_schedule env) [] (sl_active s) (sl_partitions s)" by simp
      from schedule_loop_conserving [OF loop passed_over_0, of item] idle small(2) item(1) same
      have "decide (en_schedule env) (routed_backlog (schedule_of eg) (length (eg_channel eg))) [] (sl_active s) (sl_partitions s)
          item = Some Wait" by simp
      with idle_decides [OF live _ item(2) r1] known item(1) show False by (auto simp: list_all_iff)
    qed
    from inv have ctl: "ctl_state (eg_control eg) \<in> {Running, Paused, Draining}" by (simp add: progress_inv_def)
    from none ends ctl show ?thesis
      unfolding eg' settle_def progress_inv_def
      by (auto simp: fields split: list.splits option.splits)
  qed
qed

lemma progress_inv_top:
  "eg_repository eg = None \<Longrightarrow> ctl_state (eg_control eg) \<in> {Running, Paused, Draining} \<Longrightarrow> eg_phase eg = AtTop \<Longrightarrow>
    progress_inv env eg"
  by (simp add: progress_inv_def)

lemma record_completion_none [simp]: "record_completion secs t completion None = None"
  by (simp add: record_completion_def)

lemma end_task_progress [simp]:
  "eg_control (end_task i eg) = eg_control eg" "eg_repository (end_task i eg) = eg_repository eg"
  by (simp_all add: end_task_def Let_def split: option.splits prod.splits)

lemma join_progress:
  "progress_inv env eg \<Longrightarrow> (\<exists>e. eg_phase (join_task secs i completion eg) = Ended e) \<or> progress_inv env (join_task secs i completion eg)"
  by (auto simp: join_task_def Let_def progress_inv_def split: option.splits prod.splits)

lemma receive_progress:
  assumes "progress_inv env eg" "eg_deferred eg = None" "eg_channel eg \<noteq> []"
  shows "(\<exists>e. eg_phase (receive env now draws eg) = Ended e) \<or> progress_inv env (receive env now draws eg)"
proof -
  from assms(3) obtain em rest where c: "eg_channel eg = em # rest" by (cases "eg_channel eg") auto
  let ?in = "eg\<lparr>eg_channel := rest, eg_phase := AtTop\<rparr>"
  show ?thesis
  proof (cases "eg_phase (route_held env now draws em ?in) = eg_phase ?in")
    case True
    from route_held_progress [OF _ _ _ refl True] assms True c show ?thesis
      by (intro disjI2 progress_inv_top) (auto simp: receive_def progress_inv_def)
  next
    case False
    from route_held_phase [OF False] c show ?thesis by (auto simp: receive_def)
  qed
qed

lemma engine_step_progress:
  assumes step: "engine_step env True eg eg'" and live: "env_live env" and "engine_inv env eg"
    and inv: "progress_inv env eg"
  shows "(\<exists>e. eg_phase eg' = Ended e) \<or> progress_inv env eg'"
  using step
proof cases
  case (top draws now)
  with top_progress [OF inv] show ?thesis by simp
next
  case (plan secs)
  have "engine_ok env eg" using engine_inv_cases [OF assms(3)] plan(1) by simp
  from plan_progress [OF live this inv plan] show ?thesis .
next
  case (join i secs completion)
  with join_progress [OF inv] show ?thesis by simp
next
  case (receive draws now)
  with receive_progress [OF inv] show ?thesis by simp
next
  case (tick failed)
  with inv show ?thesis by (auto simp: progress_inv_def split: option.splits)
next
  case (emits t out packet relationship r out')
  then have "eg_running eg \<noteq> []" by auto
  with inv emits(1) show ?thesis by (auto simp: progress_inv_def put_output_def)
next
  case (control c now)
  from inv have "ctl_state (eg_control eg) \<in> {Running, Paused, Draining}" by (simp add: progress_inv_def)
  then have "ctl_state (snd c) \<in> {Running, Paused, Draining}"
    using control(4) by (auto simp: ctl_pause_def ctl_resume_def ctl_drain_def transition_def)
  with inv control show ?thesis by (simp add: progress_inv_def)
qed auto

lemma engine_steps_progress:
  assumes "engine_steps env True eg0 eg" "env_live env" "engine_inv env eg0" "progress_inv env eg0"
  shows "engine_inv env eg \<and> ((\<exists>e. eg_phase eg = Ended e) \<or> progress_inv env eg)"
  using assms(1,3,4)
proof induction
  case (here eg)
  then show ?case by simp
next
  case (step eg eg' eg'')
  then have IH: "engine_inv env eg'" "(\<exists>e. eg_phase eg' = Ended e) \<or> progress_inv env eg'" by blast+
  have ok: "env_ok env" using assms(2) by (simp add: env_live_def)
  have "engine_inv env eg''" using engine_step_keeps [OF step(2) ok] IH by blast
  moreover have "(\<exists>e. eg_phase eg'' = Ended e) \<or> progress_inv env eg''"
  proof (cases "\<exists>e. eg_phase eg' = Ended e")
    case True
    with step(2) show ?thesis by (auto elim: engine_stepE)
  next
    case False
    with IH engine_step_progress [OF step(2) assms(2)] show ?thesis by blast
  qed
  ultimately show ?case by blast
qed

lemma depth_fits:
  assumes "required_pipeline_slots fc \<le> limit" "limit < u64_max"
  shows "(case hm_get (processor_downstream_depths fc) p of None \<Rightarrow> 0 | Some d \<Rightarrow> d) + 1 \<le> limit"
proof (cases "hm_get (processor_downstream_depths fc) p")
  case None
  have "1 \<le> required_pipeline_slots fc" by (simp add: required_pipeline_slots_def sat_add_def u64_max_def)
  with None assms show ?thesis by simp
next
  case (Some d)
  then have "d \<in> set (map snd (processor_downstream_depths fc))" using map_of_SomeD by force
  from max_or_default_ge [OF this] assms Some show ?thesis
    by (simp add: required_pipeline_slots_def sat_add_def min_def split: if_splits)
qed

lemma env_live_of:
  assumes v: "validate fc = Inr ()" and fit: "sizes_fit fc" and dist: "distinct (map connection_id (fc_connections fc))"
  shows "env_live (engine_env_of cd digest fc)"
proof -
  let ?env = "engine_env_of cd digest fc"
  note valid = v [unfolded validate_accepts]
  have cap: "\<forall>c \<in> set (fc_connections fc). 0 < cn_queue_capacity c" using valid by (simp add: list_all_iff)
  have out: "length (outgoing (fc_connections fc) p rel) \<le> ec_queue_capacity (fc_engine fc)" for p rel
    using valid by (simp add: fanout_count_def outgoing_def conj_commute)
  have procs: "0 < processor_limit d \<and> (\<forall>m. sd_maximum_in_flight (pc_scheduling d) = Some m \<longrightarrow> 0 < m)"
    if "hm_get (processor_map fc) p = Some d" for p d
  proof -
    have "processor_valid d" using processor_map_get [OF that] valid by (auto simp: list_all_iff)
    then show ?thesis
      by (auto simp: processor_valid_def processor_limit_def split: ordering_mode.splits)
  qed
  have "depth_of (en_schedule ?env) p + 1 \<le> se_limit (en_schedule ?env)" for p
    using depth_fits [of fc "ec_max_concurrency (fc_engine fc)" p] valid fit
    by (simp add: depth_of_def engine_env_of_def sizes_fit_def)
  then show ?thesis
    using env_ok_of [OF assms] cap out procs
    by (simp add: env_live_def engine_env_of_def)
qed

section \<open>Properties\<close>

text \<open>
  C11. A validated flow in which no connection is listed twice, whose sizes fit the integers that
  hold them, starts from its seeds and keeps no repository. Then the run never waits in the loop with
  a deferred emission while no task runs, so it never fails with the deadlock error, as long as the
  lifecycle does not change in the middle of a round: the validated limits leave room for every packet
  that is queued. A flow that lists a connection twice passes \<open>validate\<close> and can deadlock: each of its
  packets takes two places where one was counted.
\<close>

theorem no_deadlock:
  assumes "validate fc = Inr ()" "sizes_fit fc" "distinct (map connection_id (fc_connections fc))"
    and "engine_start cd digest fc secs now uuid control ml shared None = Inr eg0"
    and "engine_steps (engine_env_of cd digest fc) True eg0 eg"
  shows "\<not> (eg_phase eg = AtSelect \<and> eg_running eg = [] \<and> eg_deferred eg \<noteq> None)"
proof -
  note f = engine_start_fields [OF assms(4)]
  have seeds: "list_all is_source_seed (eg_pending eg0)"
    using assms(4) seeds_are_seeds [of uuid fc] by (simp add: engine_start_def split: prod.splits) auto
  have "engine_inv (engine_env_of cd digest fc) eg0"
    using engine_start_ok [OF assms(1) seeds assms(4)] by (simp add: engine_inv_def)
  moreover have "progress_inv (engine_env_of cd digest fc) eg0" using f by (intro progress_inv_top) simp_all
  ultimately have "(\<exists>e. eg_phase eg = Ended e) \<or> progress_inv (engine_env_of cd digest fc) eg"
    using engine_steps_progress [OF assms(5) env_live_of [OF assms(1-3)]] by blast
  then show ?thesis by (auto simp: progress_inv_def)
qed

text \<open>
  C12. A run that ends by itself leaves nothing behind: when a running flow finishes without an
  error, no packet is queued, running, deferred or in the channel.
\<close>

theorem finish_leaves_nothing:
  assumes "engine_step env calm eg eg'" "eg_phase eg' = Ended None" "ctl_state (eg_control eg) \<notin> {Draining, Stopped}"
  shows "eg_pending eg' = [] \<and> eg_running eg' = [] \<and> eg_deferred eg' = None \<and> eg_channel eg' = []"
  using assms(1)
proof cases
  case (top draws now)
  have "eg_phase (take_deferred env now draws (eg\<lparr>eg_phase := AtSchedule\<rparr>)) \<noteq> Ended None"
    by (auto simp: take_deferred_def route_held_def put_router_def hold_unrouted_def drop_emission_def
        split: option.splits prod.splits sum.splits if_splits)
  with top assms(2,3) show ?thesis by (auto simp: top_def split: if_splits)
next
  case (plan secs)
  from plan(2) obtain eg1 where t: "schedule_turn env secs eg = Some eg1" by (auto simp: plan_def split: option.splits)
  show ?thesis
  proof (cases "eg_phase eg1 = eg_phase eg")
    case True
    with t plan have "eg' = settle eg1" by (simp add: plan_def)
    with assms(2) show ?thesis by (auto simp: settle_def split: if_splits list.splits option.splits)
  next
    case False
    from schedule_turn_phase [OF t False] t plan False assms(2) show ?thesis by (auto simp: plan_def)
  qed
next
  case (join i secs completion)
  with assms(2) show ?thesis by (auto simp: join_task_def Let_def split: option.splits prod.splits)
next
  case (receive draws now)
  with assms(2) show ?thesis
    by (auto simp: receive_def route_held_def put_router_def hold_unrouted_def drop_emission_def
        split: list.splits option.splits prod.splits sum.splits if_splits)
qed (use assms(2) in \<open>auto simp: put_output_def split: option.splits\<close>)

text \<open>Steps from one state to the next, and the two halves of a round on a blocked emission.\<close>

lemma engine_steps_trans_step:
  "engine_step env calm eg eg' \<Longrightarrow> engine_steps env calm eg eg'"
  by (rule engine_steps.step [OF engine_steps.here])

lemma route_blocked:
  assumes "blocked env active (ro_pending s) em"
    and "outgoing (en_connections env) (em_processor_id em) (em_relationship em) \<noteq> []"
  shows "route_emission (en_codec env) digest flow (en_connections env) (en_capacity env) (en_definitions env) active draws em s =
    (Inr OutQueueFull, s)"
  using assms by (auto simp: route_emission_def blocked_def Let_def)

lemma top_blocked:
  assumes "eg_deferred eg = Some em" "blocked env (eg_active eg) (eg_pending eg) em"
    and "outgoing (en_connections env) (em_processor_id em) (em_relationship em) \<noteq> []"
    and "ctl_state (eg_control eg) = Running" "eg_stall eg = None"
  shows "top env now draws eg = eg\<lparr>eg_phase := AtSchedule\<rparr>"
proof -
  have s: "ro_pending (router_of (eg\<lparr>eg_phase := AtSchedule, eg_deferred := None\<rparr>)) = eg_pending eg" by (simp add: router_of_def)
  have "put_router (router_of (eg\<lparr>eg_phase := AtSchedule, eg_deferred := None\<rparr>)) (eg\<lparr>eg_phase := AtSchedule, eg_deferred := None\<rparr>) =
      eg\<lparr>eg_phase := AtSchedule, eg_deferred := None\<rparr>"
    by (simp add: put_router_def router_of_def)
  with route_blocked [of env "eg_active eg", OF assms(2) [folded s] assms(3)] assms show ?thesis
    by (simp add: top_def take_deferred_def route_held_def hold_unrouted_def)
qed

lemma plan_paused:
  assumes "ctl_state (eg_control eg) = Paused" "eg_running eg = []" "eg_deferred eg \<noteq> None" "eg_stall eg = None"
  shows "plan env secs eg = Some (eg\<lparr>eg_phase := AtSelect\<rparr>)"
  using assms
  by (auto simp: plan_def schedule_turn_def schedule_available_def put_schedule_def schedule_of_def settle_def)

text \<open>
  The exception of the last property is real: a pause that arrives between the two reads
  of the lifecycle in one round, while an emission waits for a full queue and no task runs,
  makes the flow fail with the deadlock error.
\<close>

theorem pause_race_fails:
  assumes "eg_phase eg = AtTop" "ctl_state (eg_control eg) = Running" "eg_running eg = []" "eg_stall eg = None"
    and "eg_deferred eg = Some em" "blocked env (eg_active eg) (eg_pending eg) em"
    and "outgoing (en_connections env) (em_processor_id em) (em_relationship em) \<noteq> []" "\<not> en_domain_memory env"
  shows "\<exists>eg'. engine_steps env False eg eg' \<and> eg_phase eg' = Ended (Some deadlock_error)"
proof -
  let ?top = "eg\<lparr>eg_phase := AtSchedule\<rparr>"
  let ?c = "snd (ctl_pause 0 (eg_control eg))"
  let ?paused = "?top\<lparr>eg_control := ?c\<rparr>"
  let ?select = "?paused\<lparr>eg_phase := AtSelect\<rparr>"
  have paused: "ctl_state ?c = Paused" using assms(2) by (simp add: ctl_pause_def transition_def)
  have "engine_step env False eg ?top"
    using engine_step.top [where env = env and calm = False and eg = eg and now = 0 and draws = "replicate (length (en_connections env)) undefined"]
      top_blocked [OF assms(5,6,7,2,4)] assms(1) by simp
  moreover have "engine_step env False ?top ?paused"
    by (rule engine_step.control [where c = "ctl_pause 0 (eg_control eg)" and now = 0]) simp_all
  moreover have "engine_step env False ?paused ?select"
    using plan_paused [of ?paused env 0] paused assms(3,4,5) by (intro engine_step.plan [where secs = 0]) simp_all
  moreover have "engine_step env False ?select (?select\<lparr>eg_phase := Ended (Some deadlock_error)\<rparr>)"
    using assms(3,4,5,8) by (intro engine_step.deadlock) simp_all
  ultimately have "engine_steps env False eg (?select\<lparr>eg_phase := Ended (Some deadlock_error)\<rparr>)"
    by (meson engine_steps.here engine_steps.step)
  then show ?thesis by (intro exI [where x = "?select\<lparr>eg_phase := Ended (Some deadlock_error)\<rparr>"] conjI) simp_all
qed

text \<open>
  A drain can lose a packet although the repository is enabled: when the last task ends
  while its emission is still in the channel, its row is completed and the run ends without
  routing the emission, so no row of the repository stands for it.
\<close>

theorem drain_loses_emission:
  assumes "eg_phase eg = AtSelect" "ctl_state (eg_control eg) = Running" "eg_running eg = [t]" "eg_channel eg = emissions"
    and "eg_repository eg = Some rp" "tk_queue_id t = Some queue_id"
  shows "\<exists>eg'. engine_steps env calm eg eg' \<and> eg_phase eg' = Ended None \<and> eg_channel eg' = emissions \<and>
    eg_repository eg' = Some (complete secs queue_id Completed rp)"
proof -
  let ?drain = "eg\<lparr>eg_control := snd (ctl_drain 0 (eg_control eg))\<rparr>"
  let ?join = "join_task secs 0 \<lparr> cp_failure = None, cp_fatal = None \<rparr> ?drain"
  have drain: "engine_step env calm eg ?drain"
    using assms(1) by (intro engine_step.control [where c = "ctl_drain 0 (eg_control eg)" and now = 0]) simp_all
  have join: "engine_step env calm ?drain ?join" using assms(1,3) by (intro engine_step.join) simp_all
  have fields: "eg_phase ?join = AtTop" "eg_running ?join = []" "ctl_state (eg_control ?join) = Draining"
    "eg_channel ?join = emissions" "eg_repository ?join = Some (complete secs queue_id Completed rp)"
    using assms
    by (simp_all add: join_task_def end_task_def Let_def record_completion_def ctl_drain_def transition_def
        split: prod.splits option.splits)
  have "top env 0 draws ?join = ?join\<lparr>eg_phase := Ended None\<rparr>" for draws
    using fields by (simp add: top_def)
  then have "engine_step env calm ?join (?join\<lparr>eg_phase := Ended None\<rparr>)"
    using engine_step.top [OF fields(1), where calm = calm and now = 0 and draws = "replicate (length (en_connections env)) undefined" and env = env]
    by simp
  with drain join have "engine_steps env calm eg (?join\<lparr>eg_phase := Ended None\<rparr>)"
    by (meson engine_steps.here engine_steps.step)
  then show ?thesis by (intro exI [where x = "?join\<lparr>eg_phase := Ended None\<rparr>"] conjI) (simp_all add: fields)
qed

section \<open>Witnesses\<close>

text \<open>The run of a flow with one source, up to the first wait in the \<open>select!\<close>.\<close>

definition example_engine_env :: engine_env where
  "example_engine_env = engine_env_of example_codec (\<lambda>b. b) example_resolved"

definition example_seed :: work_item where
  "example_seed =
     \<lparr> wi_processor_id = ''a'', wi_packet = packet_empty ''a'', wi_connection = None, wi_reservation = None, wi_queue_id = None \<rparr>"

definition example_start :: engine where
  "example_start =
     \<lparr> eg_phase = AtTop, eg_control = ctl_running 0 (control_default 0), eg_pending = [example_seed],
       eg_running = [], eg_active = [], eg_partitions = [], eg_channel = [], eg_deferred = None, eg_stall = None,
       eg_limiter = from_budget 1000000, eg_shared = 0, eg_repository = None, eg_emitted = 0 \<rparr>"

definition example_waiting :: engine where
  "example_waiting = example_start\<lparr>eg_phase := AtSelect, eg_pending := [], eg_running := [task_of example_seed None],
     eg_active := [(''a'', 1)]\<rparr>"

lemma example_engine_start:
  "engine_start example_codec (\<lambda>b. b) example_resolved 0 0 (\<lambda>i. i) (control_default 0) (from_budget 1000000) 0 None =
     Inr example_start"
  by (simp add: engine_start_def source_seeds_def example_defs seed_def example_start_def example_seed_def)

lemma example_sizes: "sizes_fit example_resolved" "distinct (map connection_id (fc_connections example_resolved))"
  by (simp_all add: sizes_fit_def example_defs engine_default_def default_queue_capacity_def default_concurrency_def
      u64_max_def scheduling_default_def)

lemma example_depth: "hm_get (processor_downstream_depths example_resolved) ''a'' = Some 1"
  by (simp add: processor_downstream_depths_def visit.simps targets_def max_or_default_def iter_max_def
      example_defs sat_add_def u64_max_def)

lemma example_engine_fields:
  "ec_max_concurrency (fc_engine example_resolved) = 4" "ec_queue_capacity (fc_engine example_resolved) = 100"
  "hm_get (processor_map example_resolved) ''a'' =
     Some ((example_processor ''a'')\<lparr>pc_config := JObject [(''path'', JString ''/h/x'')]\<rparr>)"
  "pc_scheduling (example_processor ''a'') = scheduling_default"
  by (simp_all add: example_defs engine_default_def default_concurrency_def default_queue_capacity_def processor_map_def)

lemma example_a_starts: "decide (en_schedule example_engine_env) 0 [] [] [] example_seed = Some (Start None)"
  by (simp add: decide_def example_engine_env_def engine_env_of_def example_seed_def is_source_seed_def sat_add_def
      u64_max_def example_engine_fields depth_of_def example_depth active_of_def
      processor_limit_def scheduling_default_def default_concurrent_tasks_def item_key_def)

lemma example_limit_of: "se_limit (en_schedule example_engine_env) = 4"
  by (simp add: example_engine_env_def engine_env_of_def example_defs engine_default_def default_concurrency_def)

lemma example_plan: "plan example_engine_env 0 (example_start\<lparr>eg_phase := AtSchedule\<rparr>) = Some example_waiting"
proof -
  have "schedule_available (en_schedule example_engine_env) 0 Running 0 (schedule_of example_start) =
      Some (Inr (), start_task example_seed None (schedule_of (example_start\<lparr>eg_pending := []\<rparr>)))"
    by (simp add: schedule_available_def schedule_of_def example_start_def is_source_seed_def example_seed_def [THEN arg_cong [where f = wi_connection]]
        example_seed_def [THEN arg_cong [where f = wi_queue_id]] sat_add_def schedule_loop.simps example_limit_of example_a_starts
        claim_item_no_repository start_task_def)
  moreover have "schedule_of (example_start\<lparr>eg_phase := AtSchedule\<rparr>) = schedule_of example_start" by (simp add: schedule_of_def)
  ultimately show ?thesis
    by (simp add: plan_def schedule_turn_def put_schedule_def settle_def example_waiting_def example_start_def
        ctl_running_def transition_def start_task_def schedule_of_def active_of_def
        example_seed_def [THEN arg_cong [where f = wi_processor_id]])
qed

lemma example_run: "engine_steps example_engine_env True example_start example_waiting"
proof -
  have top: "top example_engine_env 0 [undefined] example_start = example_start\<lparr>eg_phase := AtSchedule\<rparr>"
    by (simp add: top_def example_start_def ctl_running_def transition_def take_deferred_def)
  have "engine_step example_engine_env True example_start (example_start\<lparr>eg_phase := AtSchedule\<rparr>)"
    by (rule engine_step.top [where env = example_engine_env and calm = True and eg = example_start and now = 0 and draws = "[undefined]",
          unfolded top])
      (simp_all add: example_start_def example_engine_env_def engine_env_of_def example_defs)
  moreover have "engine_step example_engine_env True (example_start\<lparr>eg_phase := AtSchedule\<rparr>) example_waiting"
    by (rule engine_step.plan [OF _ example_plan]) simp
  ultimately show ?thesis by (meson engine_steps.here engine_steps.step)
qed

lemma engine_limits_witness: "engine_ok example_engine_env example_waiting"
  unfolding example_engine_env_def
  by (rule engine_limits [OF example_validate example_sizes example_engine_start _ example_run [unfolded example_engine_env_def]])
    (simp_all add: example_start_def example_seed_def is_source_seed_def example_waiting_def)

lemma no_deadlock_witness:
  "\<not> (eg_phase example_waiting = AtSelect \<and> eg_running example_waiting = [] \<and> eg_deferred example_waiting \<noteq> None)"
  by (rule no_deadlock [OF example_validate example_sizes example_engine_start example_run [unfolded example_engine_env_def]])

definition example_idle :: engine where
  "example_idle = example_start\<lparr>eg_phase := AtSchedule, eg_pending := []\<rparr>"

lemma example_idle_ends: "engine_step example_engine_env True example_idle (example_idle\<lparr>eg_phase := Ended None\<rparr>)"
proof (rule engine_step.plan [where secs = 0])
  show "plan example_engine_env 0 example_idle = Some (example_idle\<lparr>eg_phase := Ended None\<rparr>)"
    by (simp add: plan_def schedule_turn_def schedule_available_def schedule_loop.simps schedule_of_def put_schedule_def
        settle_def example_idle_def example_start_def ctl_running_def transition_def)
qed (simp add: example_idle_def)

lemma finish_leaves_nothing_witness:
  "eg_pending (example_idle\<lparr>eg_phase := Ended None\<rparr>) = [] \<and> eg_running (example_idle\<lparr>eg_phase := Ended None\<rparr>) = [] \<and>
   eg_deferred (example_idle\<lparr>eg_phase := Ended None\<rparr>) = None \<and> eg_channel (example_idle\<lparr>eg_phase := Ended None\<rparr>) = []"
  by (rule finish_leaves_nothing [OF example_idle_ends])
    (simp_all add: example_idle_def example_start_def ctl_running_def transition_def)

definition example_stuck :: engine where
  "example_stuck = example_start\<lparr>eg_pending := replicate 2 (branch_item example_emission (example_connection ''a'' ''b'') undefined None),
     eg_deferred := Some example_emission\<rparr>"

lemma example_edge_known:
  "en_connections example_engine_env = [example_connection ''a'' ''b'']"
  by (simp add: example_engine_env_def engine_env_of_def example_resolved_def example_flow_def)

lemma pause_race_fails_witness:
  "\<exists>eg'. engine_steps example_engine_env False example_stuck eg' \<and> eg_phase eg' = Ended (Some deadlock_error)"
proof (rule pause_race_fails)
  show "blocked example_engine_env (eg_active example_stuck) (eg_pending example_stuck) example_emission"
    by (simp add: blocked_def Let_def example_edge_known outgoing_def example_fields example_connection_def
        connection_full_def edge_size_def example_stuck_def branch_item_def numeral_2_eq_2)
  show "outgoing (en_connections example_engine_env) (em_processor_id example_emission) (em_relationship example_emission) \<noteq> []"
    by (simp add: example_edge_known outgoing_def example_fields example_connection_def)
  show "\<not> en_domain_memory example_engine_env"
    by (simp add: example_engine_env_def engine_env_of_def example_defs engine_default_def domain_memory_default_def)
qed (simp_all add: example_stuck_def example_start_def ctl_running_def transition_def)

definition example_last_task :: engine where
  "example_last_task = example_start\<lparr>eg_phase := AtSelect, eg_pending := [],
     eg_running := [task_of (example_seed\<lparr>wi_queue_id := Some ''q1''\<rparr>) None], eg_channel := [example_emission],
     eg_repository := Some (snd (claim 2 ''q1'' example_pending))\<rparr>"

lemma drain_loses_emission_witness:
  "\<exists>eg' rp. engine_steps example_engine_env True example_last_task eg' \<and> eg_phase eg' = Ended None \<and>
     eg_channel eg' = [example_emission] \<and> eg_repository eg' = Some rp \<and>
     map qr_status (rp_queue rp) = [QCompleted] \<and> map qr_processor_id (rp_queue rp) = [''a'']"
proof -
  have "\<exists>eg'. engine_steps example_engine_env True example_last_task eg' \<and> eg_phase eg' = Ended None \<and>
     eg_channel eg' = [example_emission] \<and>
     eg_repository eg' = Some (complete 3 ''q1'' Completed (snd (claim 2 ''q1'' example_pending)))"
    by (rule drain_loses_emission [where t = "task_of (example_seed\<lparr>wi_queue_id := Some ''q1''\<rparr>) None"])
      (simp_all add: example_last_task_def example_start_def ctl_running_def transition_def task_of_def)
  then show ?thesis using example_repository_eq(1) by (force simp: example_repository_def)
qed

definition example_stored :: stored_work where
  "example_stored = \<lparr> sw_queue_id = ''q1'', sw_flow_id = ''f'', sw_processor_id = ''a'', sw_relationship = ''success'',
     sw_packet = example_packet \<rparr>"

lemma example_backlog:
  "pending_work example_codec (\<lambda>b. b) ''f'' (snd (recover_abandoned 5 ''f'' 0 example_pending)) = Inr [example_stored]"
  by (simp add: pending_work_def pending_rows_def example_pending_def enqueue_defs row_work_def content_get_def
      deserialize_content_def Let_def recover_abandoned_def example_stored_def repository_empty_def serialize_content_def
      content_put_def example_codec_def example_packet_def packet_empty_def add_provenance_def insert_provenance_def)

lemma restart_resumes_witness:
  "case engine_start example_codec (\<lambda>b. b) example_resolved 5 0 (\<lambda>i. i) (control_default 0) (from_budget 1000000) 0
       (Some example_pending) of
     Inr eg \<Rightarrow> map wi_packet (eg_pending eg) = [example_packet]
   | Inl e \<Rightarrow> \<exists>ml' shared'. recover_backlog example_codec [example_stored] (from_budget 1000000) 0 = (Inl e, ml', shared')"
proof -
  have f: "fc_id example_resolved = ''f''" "rc_abandoned_after_seconds (ec_repository (fc_engine example_resolved)) = 0"
    by (simp_all add: example_defs engine_default_def repository_default_def default_abandoned_seconds_def)
  show ?thesis
    using restart_resumes [OF refl, where fc = example_resolved and cd = example_codec and digest = "\<lambda>b. b" and secs = 5
        and rp = example_pending and now = 0 and uuid = "\<lambda>i. i" and control = "control_default 0"
        and ml = "from_budget 1000000" and shared = 0 and stored = "[example_stored]"] example_backlog
    by (auto simp: f example_stored_def split: sum.splits)
qed

end
