(* ===== verification/Jme_Policy.thy ===== *)
theory Jme_Policy
  imports Prelude
begin

text \<open>
  The policy of the domain memory (\<open>crates/jaiba-memory/src/policy.rs\<close>, \<open>duration.rs\<close> and
  \<open>error.rs\<close>): the data of the YAML block, its defaults and its validation. serde's reading of
  YAML and JSON is not modelled; the fields it fills in are. Durations are seconds; a panic is
  \<open>None\<close>. The text of a configuration error is a constructor of \<open>policy_error\<close>.
\<close>

section \<open>Errors\<close>

datatype policy_error =
    EmptyDuration
  | InvalidDuration string
  | UnknownDurationUnit string
  | ZeroDuration
  | UnsupportedVersion nat
  | UnsupportedWarmBackend string
  | UnsupportedFrozenBackend string
  | UnsupportedColdBackend string
  | UnsupportedCompression string
  | SegmentTooSmall
  | DiskBelowSegment
  | NoHotBytes
  | DeferredWithoutFlush string
  | FlushNotDeferred string
  | NoTtl string string
  | FrozenWithoutBackend string
  | ColdWithoutBackend string
  | DemoteNotApplicable string
  | EmptyRebuild string
  | RebuildNotCache string
  | NoClasses
  | FrozenPathMissing
  | ColdPathMissing

datatype memory_error =
    MemoryConfiguration policy_error
  | UnknownClass string
  | UnsupportedPolicy string
  | RebuildError string
  | Persistence string
  | WarmError string
  | ColdError string
  | FrozenError string
  | CriticalCapacity nat
  | MissingImmediateSink
  | HotByteCapacity nat nat
  | RedisFeatureDisabled

type_synonym 'a fallible = "(memory_error, 'a) result option"

definition and_then :: "'a fallible \<Rightarrow> ('a \<Rightarrow> 'b fallible) \<Rightarrow> 'b fallible" where
  "and_then m f =
     (case m of
        None \<Rightarrow> None
      | Some (Inl e) \<Rightarrow> Some (Inl e)
      | Some (Inr x) \<Rightarrow> f x)"

definition reject :: "policy_error \<Rightarrow> 'a fallible" where
  "reject e = Some (Inl (MemoryConfiguration e))"

definition require :: "bool \<Rightarrow> policy_error \<Rightarrow> unit fallible" where
  "require b e = (if b then Some (Inr ()) else reject e)"

section \<open>Durations\<close>

text \<open>\<open>split_at\<close> panics when the last byte is not the first one of a character.\<close>

definition char_boundary :: "char \<Rightarrow> bool" where
  "char_boundary c \<longleftrightarrow> (let n = of_char c :: nat in \<not> (128 \<le> n \<and> n < 192))"

text \<open>The seconds of a unit.\<close>

definition unit_seconds :: "char \<Rightarrow> nat option" where
  "unit_seconds u =
     (if u = CHR ''s'' then Some 1
      else if u = CHR ''m'' then Some 60
      else if u = CHR ''h'' then Some 3600
      else if u = CHR ''d'' then Some 86400
      else None)"

definition parse_duration :: "string \<Rightarrow> nat fallible" where
  "parse_duration text =
     (let value = trim text
      in if value = [] then reject EmptyDuration
         else if \<not> char_boundary (last value) then None
         else case parse_u64 (butlast value) of
           None \<Rightarrow> reject (InvalidDuration value)
         | Some amount \<Rightarrow>
             (let unit = last value;
                  secs = (if unit = CHR ''s'' then Some amount
                          else if unit = CHR ''m'' then Some (sat_mul amount 60)
                          else if unit = CHR ''h'' then Some (sat_mul amount 3600)
                          else if unit = CHR ''d'' then Some (sat_mul amount 86400)
                          else None)
              in case secs of
                   None \<Rightarrow> reject (UnknownDurationUnit value)
                 | Some s \<Rightarrow> if s = 0 then reject ZeroDuration else Some (Inr s)))"

fun parse_optional :: "string option \<Rightarrow> nat option fallible" where
  "parse_optional None = Some (Inr None)"
| "parse_optional (Some raw) = and_then (parse_duration raw) (\<lambda>d. Some (Inr (Some d)))"

section \<open>Policies\<close>

datatype policy = Volatile | Cache | Deferred | Immediate | Persistent
datatype temperature = Hot | Warm | Cold | Frozen
datatype warm_backend = NoWarm | RedisWarm
datatype cold_backend = NoCold | SegmentedCold
datatype frozen_backend = NoFrozen | FileFrozen
datatype priority = Low | Normal | High | Critical

fun policy_as_str :: "policy \<Rightarrow> string" where
  "policy_as_str Volatile = ''volatile''"
| "policy_as_str Cache = ''cache''"
| "policy_as_str Deferred = ''deferred''"
| "policy_as_str Immediate = ''immediate''"
| "policy_as_str Persistent = ''persistent''"

definition supported_now :: "policy \<Rightarrow> bool" where
  "supported_now p \<longleftrightarrow> p \<in> {Volatile, Cache, Immediate, Persistent, Deferred}"

definition requires_persist_sink :: "policy \<Rightarrow> bool" where
  "requires_persist_sink p \<longleftrightarrow> p \<in> {Immediate, Persistent, Deferred}"

text \<open>The derived order of \<open>Priority\<close>, by its discriminants.\<close>

fun rank :: "priority \<Rightarrow> nat" where
  "rank Low = 0"
| "rank Normal = 1"
| "rank High = 2"
| "rank Critical = 3"

lemma rank_inject: "rank p = rank q \<longleftrightarrow> p = q"
  by (cases p; cases q) simp_all

instantiation priority :: linorder
begin

definition less_eq_priority :: "priority \<Rightarrow> priority \<Rightarrow> bool" where
  "p \<le> q \<longleftrightarrow> rank p \<le> rank q"

definition less_priority :: "priority \<Rightarrow> priority \<Rightarrow> bool" where
  "p < q \<longleftrightarrow> rank p < rank q"

instance
  by standard (auto simp: less_eq_priority_def less_priority_def rank_inject)

end

lemma less_Critical: "p < Critical \<longleftrightarrow> p \<noteq> Critical"
  by (cases p) (simp_all add: less_priority_def)

record class_policy =
  cp_name :: string
  cp_policy :: policy
  cp_temperature :: temperature
  cp_ttl :: "nat option"
  cp_flush :: "nat option"
  cp_priority :: priority
  cp_demote_after :: "nat option"
  cp_rebuild :: "string option"

record memory_policy =
  mp_max_entries :: nat
  mp_max_hot_bytes :: nat
  mp_max_pending_deferred :: nat
  mp_default_priority :: priority
  mp_warm_backend :: warm_backend
  mp_warm_url_env :: string
  mp_warm_key_prefix :: string
  mp_cold_backend :: cold_backend
  mp_cold_path :: "string option"
  mp_cold_segment_max_bytes :: nat
  mp_cold_max_disk_bytes :: "nat option"
  mp_cold_mmap :: bool
  mp_frozen_backend :: frozen_backend
  mp_frozen_path :: "string option"
  mp_classes :: "(string \<times> class_policy) list"

section \<open>The YAML block\<close>

record file_class =
  fl_policy :: policy
  fl_temperature :: "temperature option"
  fl_ttl :: "string option"
  fl_priority :: "priority option"
  fl_flush :: "string option"
  fl_demote_after :: "string option"
  fl_rebuild :: "string option"

record file_warm =
  fw_backend :: string
  fw_url_env :: "string option"
  fw_key_prefix :: "string option"

record file_cold =
  fo_backend :: string
  fo_path :: "string option"
  fo_segment_max_bytes :: "nat option"
  fo_max_disk_bytes :: "nat option"
  fo_mmap :: bool
  fo_compression :: string

record file_frozen =
  fz_backend :: string
  fz_path :: "string option"

record file_memory =
  fm_version :: "nat option"
  fm_max_entries :: "nat option"
  fm_max_hot_bytes :: "nat option"
  fm_max_pending_deferred :: "nat option"
  fm_default_priority :: "priority option"
  fm_classes :: "(string \<times> file_class) list"
  fm_warm :: "file_warm option"
  fm_cold :: "file_cold option"
  fm_frozen :: "file_frozen option"

definition policy_version :: nat where "policy_version = 1"
definition default_warm_backend :: string where "default_warm_backend = ''none''"
definition default_cold_backend :: string where "default_cold_backend = ''none''"
definition default_cold_compression :: string where "default_cold_compression = ''lz4''"
definition default_frozen_backend :: string where "default_frozen_backend = ''none''"
definition default_segment_max_bytes :: nat where "default_segment_max_bytes = 64 * 1024 * 1024"

definition or_default :: "'a option \<Rightarrow> 'a \<Rightarrow> 'a" where
  "or_default opt d = (case opt of None \<Rightarrow> d | Some x \<Rightarrow> x)"

definition warm_of :: "file_warm option \<Rightarrow> (warm_backend \<times> string \<times> string) fallible" where
  "warm_of file =
     (case file of
        None \<Rightarrow> Some (Inr (NoWarm, ''REDIS_URL'', ''jaiba:jme:''))
      | Some warm \<Rightarrow>
          (let backend = to_ascii_lowercase (trim (fw_backend warm));
               rest = (trim (or_default (fw_url_env warm) ''REDIS_URL''), or_default (fw_key_prefix warm) ''jaiba:jme:'')
           in if backend = [] \<or> backend = ''none'' then Some (Inr (NoWarm, rest))
              else if backend = ''redis'' then Some (Inr (RedisWarm, rest))
              else reject (UnsupportedWarmBackend backend)))"

text \<open>A path that is blank counts as absent.\<close>

definition path_of :: "string option \<Rightarrow> string option" where
  "path_of path =
     (case path of
        None \<Rightarrow> None
      | Some p \<Rightarrow> if trim p = [] then None else Some (trim p))"

definition frozen_of :: "file_frozen option \<Rightarrow> (frozen_backend \<times> string option) fallible" where
  "frozen_of file =
     (case file of
        None \<Rightarrow> Some (Inr (NoFrozen, None))
      | Some frozen \<Rightarrow>
          (let backend = to_ascii_lowercase (trim (fz_backend frozen))
           in if backend = [] \<or> backend = ''none'' then Some (Inr (NoFrozen, None))
              else if backend = ''file'' then Some (Inr (FileFrozen, path_of (fz_path frozen)))
              else reject (UnsupportedFrozenBackend backend)))"

definition cold_of :: "file_cold option \<Rightarrow> (cold_backend \<times> string option \<times> nat \<times> nat option \<times> bool) fallible" where
  "cold_of file =
     (case file of
        None \<Rightarrow> Some (Inr (NoCold, None, default_segment_max_bytes, None, True))
      | Some cold \<Rightarrow>
          (let backend = to_ascii_lowercase (trim (fo_backend cold))
           in if backend = [] \<or> backend = ''none''
              then Some (Inr (NoCold, None, default_segment_max_bytes, None, fo_mmap cold))
              else if backend = ''segmented'' \<or> backend = ''file''
              then (let segment = or_default (fo_segment_max_bytes cold) default_segment_max_bytes
                    in and_then (require (to_ascii_lowercase (trim (fo_compression cold)) = ''lz4'')
                                  (UnsupportedCompression (fo_compression cold))) (\<lambda>_.
                       and_then (require (\<not> segment < 4096) SegmentTooSmall) (\<lambda>_.
                       and_then (require (\<not> (case fo_max_disk_bytes cold of None \<Rightarrow> False | Some limit \<Rightarrow> limit < segment))
                                  DiskBelowSegment) (\<lambda>_.
                       Some (Inr (SegmentedCold, path_of (fo_path cold), segment, fo_max_disk_bytes cold, fo_mmap cold))))))
              else reject (UnsupportedColdBackend backend)))"

section \<open>Classes\<close>

definition rebuild_of :: "string \<Rightarrow> file_class \<Rightarrow> string option fallible" where
  "rebuild_of name c =
     (case fl_rebuild c of
        None \<Rightarrow> Some (Inr None)
      | Some token \<Rightarrow>
          and_then (require (trim token \<noteq> []) (EmptyRebuild name)) (\<lambda>_.
          and_then (require (fl_policy c = Cache) (RebuildNotCache name)) (\<lambda>_.
          Some (Inr (Some (trim token))))))"

definition default_temperature :: "policy \<Rightarrow> temperature" where
  "default_temperature p = (if p \<in> {Immediate, Persistent, Deferred} then Cold else Hot)"

fun implied_priority :: "priority \<Rightarrow> policy \<Rightarrow> priority" where
  "implied_priority d Immediate = Critical"
| "implied_priority d Persistent = Critical"
| "implied_priority d Deferred = High"
| "implied_priority d Volatile = d"
| "implied_priority d Cache = d"

definition class_of ::
  "priority \<Rightarrow> cold_backend \<Rightarrow> frozen_backend \<Rightarrow> string \<Rightarrow> file_class \<Rightarrow> class_policy fallible" where
  "class_of default_priority cold_backend frozen_backend name c =
     (if \<not> supported_now (fl_policy c) then Some (Inl (UnsupportedPolicy (policy_as_str (fl_policy c))))
      else and_then (parse_optional (fl_flush c)) (\<lambda>flush.
        and_then (require (fl_policy c = Deferred \<longrightarrow> flush \<noteq> None) (DeferredWithoutFlush name)) (\<lambda>_.
        and_then (require (fl_policy c \<noteq> Deferred \<longrightarrow> flush = None) (FlushNotDeferred name)) (\<lambda>_.
        and_then (parse_optional (fl_ttl c)) (\<lambda>ttl.
        and_then (parse_optional (fl_demote_after c)) (\<lambda>demote_after.
        and_then (require (\<not> (fl_policy c \<in> {Volatile, Cache} \<and> ttl = None)) (NoTtl name (policy_as_str (fl_policy c)))) (\<lambda>_.
        (let temperature = or_default (fl_temperature c) (default_temperature (fl_policy c))
         in and_then (require (\<not> (temperature = Frozen \<and> frozen_backend = NoFrozen)) (FrozenWithoutBackend name)) (\<lambda>_.
            and_then (require (\<not> (fl_policy c = Cache \<and> temperature = Cold \<and> cold_backend = NoCold)) (ColdWithoutBackend name)) (\<lambda>_.
            and_then (require (\<not> (demote_after \<noteq> None \<and> (fl_policy c \<noteq> Cache \<or> temperature = Hot))) (DemoteNotApplicable name)) (\<lambda>_.
            and_then (rebuild_of name c) (\<lambda>rebuild.
              Some (Inr \<lparr> cp_name = name, cp_policy = fl_policy c, cp_temperature = temperature, cp_ttl = ttl,
                cp_flush = flush,
                cp_priority = or_default (fl_priority c) (implied_priority default_priority (fl_policy c)),
                cp_demote_after = demote_after, cp_rebuild = rebuild \<rparr>)))))))))))))"

fun classes_of ::
  "priority \<Rightarrow> cold_backend \<Rightarrow> frozen_backend \<Rightarrow> (string \<times> file_class) list \<Rightarrow> (string \<times> class_policy) list fallible" where
  "classes_of p cold frozen [] = Some (Inr [])"
| "classes_of p cold frozen ((name, c) # cs) =
     and_then (class_of p cold frozen name c) (\<lambda>k.
     and_then (classes_of p cold frozen cs) (\<lambda>ks. Some (Inr ((name, k) # ks))))"

text \<open>The classes of the YAML block come from a \<open>BTreeMap\<close>: in the order of their names.\<close>

definition from_file :: "file_memory \<Rightarrow> memory_policy fallible" where
  "from_file file =
     and_then (case fm_version file of
                 None \<Rightarrow> Some (Inr ())
               | Some v \<Rightarrow> require (v = policy_version) (UnsupportedVersion v)) (\<lambda>_.
     and_then (warm_of (fm_warm file)) (\<lambda>(warm, url_env, key_prefix).
     and_then (frozen_of (fm_frozen file)) (\<lambda>(frozen, frozen_path).
     and_then (cold_of (fm_cold file)) (\<lambda>(cold, cold_path, segment, disk, mmap).
     (let default_priority = or_default (fm_default_priority file) Normal;
          max_hot_bytes = or_default (fm_max_hot_bytes file) (64 * 1024 * 1024)
      in and_then (require (max_hot_bytes \<noteq> 0) NoHotBytes) (\<lambda>_.
         and_then (classes_of default_priority cold frozen (fm_classes file)) (\<lambda>classes.
         and_then (require (classes \<noteq> []) NoClasses) (\<lambda>_.
           Some (Inr \<lparr> mp_max_entries = max (or_default (fm_max_entries file) 10000) 1, mp_max_hot_bytes = max_hot_bytes,
             mp_max_pending_deferred = max (or_default (fm_max_pending_deferred file) 1024) 1,
             mp_default_priority = default_priority, mp_warm_backend = warm, mp_warm_url_env = url_env,
             mp_warm_key_prefix = key_prefix, mp_cold_backend = cold, mp_cold_path = cold_path,
             mp_cold_segment_max_bytes = segment, mp_cold_max_disk_bytes = disk, mp_cold_mmap = mmap,
             mp_frozen_backend = frozen, mp_frozen_path = frozen_path, mp_classes = classes \<rparr>)))))))))"

definition class_named :: "memory_policy \<Rightarrow> string \<Rightarrow> (memory_error, class_policy) result" where
  "class_named p name = (case hm_get (mp_classes p) name of None \<Rightarrow> Inl (UnknownClass name) | Some c \<Rightarrow> Inr c)"

definition policy_requires_sink :: "memory_policy \<Rightarrow> bool" where
  "policy_requires_sink p \<longleftrightarrow> list_ex (\<lambda>(_, c). requires_persist_sink (cp_policy c)) (mp_classes p)"

section \<open>What an accepted policy guarantees\<close>

lemma and_then_ok [simp]:
  "and_then m f = Some (Inr y) \<longleftrightarrow> (\<exists>x. m = Some (Inr x) \<and> f x = Some (Inr y))"
  by (simp add: and_then_def split: option.splits sum.splits)

lemma and_then_panic [simp]:
  "and_then m f = None \<longleftrightarrow> m = None \<or> (\<exists>x. m = Some (Inr x) \<and> f x = None)"
  by (simp add: and_then_def split: option.splits sum.splits)

lemma reject_simps [simp]: "reject e \<noteq> Some (Inr x)" "reject e \<noteq> None" "\<exists>y. reject e = Some y"
  by (simp_all add: reject_def)

lemma require_simps [simp]: "require b e = Some (Inr u) \<longleftrightarrow> b" "require b e \<noteq> None"
  by (simp_all add: require_def)

definition duration_ok :: "nat \<Rightarrow> bool" where
  "duration_ok d \<longleftrightarrow> 0 < d \<and> d \<le> u64_max"

lemma parse_u64_le: "parse_u64 s = Some n \<Longrightarrow> n \<le> u64_max"
  by (auto simp: parse_u64_def Let_def split: if_splits)

lemma parse_duration_ok: "parse_duration raw = Some (Inr d) \<Longrightarrow> duration_ok d"
  by (auto simp: parse_duration_def duration_ok_def Let_def sat_mul_def
      split: if_splits option.splits dest: parse_u64_le)

lemma parse_optional_ok: "parse_optional raw = Some (Inr d) \<Longrightarrow> pred_option duration_ok d"
  by (cases raw) (auto dest: parse_duration_ok)

lemma parse_duration_None:
  "parse_duration raw = None \<longleftrightarrow> trim raw \<noteq> [] \<and> \<not> char_boundary (last (trim raw))"
  by (simp add: parse_duration_def Let_def split: option.splits)

lemma parse_duration_unit:
  assumes "0 < n" "n \<le> u64_max" "unit_seconds u = Some f"
  shows "parse_duration (show_nat n @ [u]) = Some (Inr (sat_mul n f))"
proof -
  have u: "u \<in> {CHR ''s'', CHR ''m'', CHR ''h'', CHR ''d''}"
    using assms(3) by (auto simp: unit_seconds_def split: if_splits)
  then have u': "visible u" "char_boundary u" by (auto simp: visible_def char_boundary_def)
  have "visible (hd (show_nat n))"
    using hd_show_nat [of n] by (auto simp: visible_def is_ascii_digit_def Let_def)
  moreover have "show_nat n \<noteq> []" using show_nat_props by simp
  ultimately have "trim (show_nat n @ [u]) = show_nat n @ [u]"
    using u' by (intro trim_visible) simp_all
  moreover have "sat_mul n f \<noteq> 0" "f = 1 \<Longrightarrow> sat_mul n f = n"
    using assms by (auto simp: sat_mul_def unit_seconds_def u64_max_def split: if_splits)
  moreover have "parse_u64 (show_nat n) = Some n" using assms(2) by (rule parse_show_nat)
  ultimately show ?thesis
    using u u'(2) assms(3) unfolding parse_duration_def Let_def
    by (elim insertE emptyE) (simp_all add: unit_seconds_def)
qed

definition class_wf :: "cold_backend \<Rightarrow> frozen_backend \<Rightarrow> string \<Rightarrow> class_policy \<Rightarrow> bool" where
  "class_wf cold frozen name c \<longleftrightarrow>
     cp_name c = name \<and>
     pred_option duration_ok (cp_ttl c) \<and> pred_option duration_ok (cp_flush c) \<and>
     pred_option duration_ok (cp_demote_after c) \<and>
     (cp_flush c \<noteq> None \<longleftrightarrow> cp_policy c = Deferred) \<and>
     (cp_policy c \<in> {Volatile, Cache} \<longrightarrow> cp_ttl c \<noteq> None) \<and>
     (cp_temperature c = Frozen \<longrightarrow> frozen \<noteq> NoFrozen) \<and>
     (cp_policy c = Cache \<and> cp_temperature c = Cold \<longrightarrow> cold \<noteq> NoCold) \<and>
     (cp_demote_after c \<noteq> None \<longrightarrow> cp_policy c = Cache \<and> cp_temperature c \<noteq> Hot) \<and>
     (cp_rebuild c \<noteq> None \<longrightarrow> cp_policy c = Cache \<and> cp_rebuild c \<noteq> Some [])"

lemma rebuild_of_ok:
  "rebuild_of name c = Some (Inr r) \<Longrightarrow> r \<noteq> None \<longrightarrow> fl_policy c = Cache \<and> r \<noteq> Some []"
  by (auto simp: rebuild_of_def split: option.splits)

lemma supported_now_all [simp]: "supported_now p"
  by (cases p) (simp_all add: supported_now_def)

lemma class_of_wf:
  assumes "class_of p cold frozen name c = Some (Inr k)"
  shows "class_wf cold frozen name k"
proof -
  let ?t = "or_default (fl_temperature c) (default_temperature (fl_policy c))"
  from assms obtain flush ttl idle rebuild where
    parsed: "parse_optional (fl_flush c) = Some (Inr flush)" "parse_optional (fl_ttl c) = Some (Inr ttl)"
      "parse_optional (fl_demote_after c) = Some (Inr idle)" "rebuild_of name c = Some (Inr rebuild)"
    and checks: "fl_policy c = Deferred \<longleftrightarrow> flush \<noteq> None" "fl_policy c \<in> {Volatile, Cache} \<Longrightarrow> ttl \<noteq> None"
      "?t = Frozen \<Longrightarrow> frozen \<noteq> NoFrozen" "fl_policy c = Cache \<Longrightarrow> ?t = Cold \<Longrightarrow> cold \<noteq> NoCold"
      "idle \<noteq> None \<Longrightarrow> fl_policy c = Cache \<and> ?t \<noteq> Hot"
    and k: "k = \<lparr> cp_name = name, cp_policy = fl_policy c, cp_temperature = ?t, cp_ttl = ttl, cp_flush = flush,
      cp_priority = or_default (fl_priority c) (implied_priority p (fl_policy c)),
      cp_demote_after = idle, cp_rebuild = rebuild \<rparr>"
    by (simp add: class_of_def Let_def del: not_None_eq) (elim exE conjE, rule that, assumption+, blast+)
  from parsed(1-3) have "pred_option duration_ok flush" "pred_option duration_ok ttl" "pred_option duration_ok idle"
    by (auto dest!: parse_optional_ok)
  moreover define t where "t = ?t"
  note checks [folded t_def] rebuild_of_ok [OF parsed(4)]
  ultimately show ?thesis
    unfolding class_wf_def k t_def [symmetric] class_policy.simps by blast
qed

lemma classes_of_wf:
  "classes_of p cold frozen cs = Some (Inr ks) \<Longrightarrow>
     list_all (\<lambda>(name, k). class_wf cold frozen name k) ks \<and> map fst ks = map fst cs"
  by (induction cs arbitrary: ks) (simp_all add: class_of_wf, force simp: class_of_wf)

definition policy_wf :: "memory_policy \<Rightarrow> bool" where
  "policy_wf p \<longleftrightarrow>
     1 \<le> mp_max_entries p \<and> 0 < mp_max_hot_bytes p \<and> 1 \<le> mp_max_pending_deferred p \<and>
     mp_classes p \<noteq> [] \<and>
     list_all (\<lambda>(name, c). class_wf (mp_cold_backend p) (mp_frozen_backend p) name c) (mp_classes p) \<and>
     (mp_cold_backend p = SegmentedCold \<longrightarrow>
        4096 \<le> mp_cold_segment_max_bytes p \<and>
        pred_option (\<lambda>limit. mp_cold_segment_max_bytes p \<le> limit) (mp_cold_max_disk_bytes p))"

lemma cold_of_wf:
  "cold_of file = Some (Inr (cold, path, segment, disk, mmap)) \<Longrightarrow> cold = SegmentedCold \<Longrightarrow>
     4096 \<le> segment \<and> pred_option (\<lambda>limit. segment \<le> limit) disk"
  by (auto simp: cold_of_def Let_def split: if_splits option.splits)

lemma class_named_wf:
  "policy_wf p \<Longrightarrow> class_named p name = Inr c \<Longrightarrow>
     class_wf (mp_cold_backend p) (mp_frozen_backend p) name c"
  by (auto simp: policy_wf_def class_named_def list_all_iff split: option.splits dest!: map_of_SomeD)

section \<open>Properties\<close>

text \<open>
  C13. Every policy that \<open>from_file\<close> accepts is well formed, and it has exactly the classes of the
  block: limits are positive, durations in range, a flush is given exactly for the deferred classes, a
  time to live for the volatile and the cached ones, and a class that is kept in Frozen, or cached in
  Cold, has that store configured. The other temperatures need no store: a policy whose classes are
  Warm is accepted without a Warm file, and the level is then skipped.
\<close>

theorem from_file_wf:
  assumes "from_file file = Some (Inr p)"
  shows "policy_wf p \<and> map fst (mp_classes p) = map fst (fm_classes file)"
  using assms unfolding from_file_def Let_def
  by (auto simp: policy_wf_def dest!: classes_of_wf dest: cold_of_wf split: prod.splits)

definition example_class :: file_class where
  "example_class = \<lparr> fl_policy = Cache, fl_temperature = Some Cold, fl_ttl = Some ''5m'', fl_priority = None,
     fl_flush = None, fl_demote_after = Some ''30s'', fl_rebuild = None \<rparr>"

definition example_file :: "string \<Rightarrow> file_memory" where
  "example_file ttl = \<lparr> fm_version = Some 1, fm_max_entries = Some 0, fm_max_hot_bytes = None,
     fm_max_pending_deferred = None, fm_default_priority = Some High,
     fm_classes = [(''lane'', example_class\<lparr>fl_ttl := Some ttl\<rparr>)], fm_warm = None,
     fm_cold = Some \<lparr> fo_backend = ''Segmented'', fo_path = Some ''cold'', fo_segment_max_bytes = Some 8192,
       fo_max_disk_bytes = Some 8192, fo_mmap = True, fo_compression = ''LZ4'' \<rparr>, fm_frozen = None \<rparr>"

lemma digit_chars:
  "digit_char 0 = CHR ''0''" "digit_char 3 = CHR ''3''" "digit_char 5 = CHR ''5''"
  by (simp_all add: digit_char_def char_of_eq_iff)

lemma parse_example: "parse_duration ''5m'' = Some (Inr 300)" "parse_duration ''30s'' = Some (Inr 30)"
  using parse_duration_unit [of 5 "CHR ''m''" 60] parse_duration_unit [of 30 "CHR ''s''" 1]
  by (simp_all add: show_nat.simps digit_chars unit_seconds_def sat_mul_def u64_max_def)

lemma from_file_example: "is_ok (the (from_file (example_file ''5m'')))" "from_file (example_file ''5m'') \<noteq> None"
  by (simp_all add: from_file_def example_file_def example_class_def class_of_def rebuild_of_def warm_of_def cold_of_def
      frozen_of_def path_of_def and_then_def require_def or_default_def to_ascii_lowercase_def ascii_lower_def
      trim_visible visible_def supported_now_def char_of_eq_iff parse_example policy_version_def)

theorem from_file_wf_witness: "policy_wf (projr (the (from_file (example_file ''5m''))))"
proof -
  from from_file_example obtain p where p: "from_file (example_file ''5m'') = Some (Inr p)" by (auto simp: is_ok_iff)
  with from_file_wf [OF p] show ?thesis by simp
qed

text \<open>
  Every amount of a known unit is read back as its number of seconds, saturated at 64
  bits, and reading panics exactly when the last byte of the text continues a character.
\<close>

theorem duration_text:
  "0 < n \<and> n \<le> u64_max \<and> unit_seconds u = Some f \<Longrightarrow>
     parse_duration (show_nat n @ [u]) = Some (Inr (sat_mul n f)) \<and>
     (parse_duration raw = None \<longleftrightarrow> trim raw \<noteq> [] \<and> \<not> char_boundary (last (trim raw)))"
  by (simp add: parse_duration_unit parse_duration_None)

lemma trim_example: "trim [CHR ''5'', CHR 0xC3, CHR 0xB1] = [CHR ''5'', CHR 0xC3, CHR 0xB1]"
  by (simp add: trim_def trim_start_noop trim_end_noop white_space_def starts_with_def)

theorem duration_text_witness:
  "parse_duration (show_nat 90 @ ''m'') = Some (Inr 5400) \<and> parse_duration [CHR ''5'', CHR 0xC3, CHR 0xB1] = None"
  using duration_text [of 90 "CHR ''m''" 60 "[CHR ''5'', CHR 0xC3, CHR 0xB1]"]
  by (simp add: unit_seconds_def sat_mul_def u64_max_def char_boundary_def trim_example)

end
