(* ===== verification/Jme_Hot.thy ===== *)
theory Jme_Hot
  imports Jme_Policy Flow_Config "HOL-Library.Product_Lexorder"
begin

text \<open>
  The Hot level of the domain memory (\<open>crates/jaiba-memory/src/hot.rs\<close>): admission by count
  and by bytes, eviction by priority and use, expiry. Instants are nanoseconds of the clock,
  durations seconds. \<open>to_vec\<close> stands for \<open>serde_json::to_vec\<close>. The map is an association list
  in its iteration order. Sums of sizes of resident data stay below 64 bits and are written
  as sums of natural numbers.
\<close>

section \<open>Model\<close>

record hot_entry =
  he_class :: string
  he_value :: json
  he_priority :: priority
  he_expires_at :: "nat option"
  he_last_access :: nat
  he_access_count :: nat
  he_demote_after :: "nat option"
  he_size :: nat

record hot_metrics =
  hx_objects :: nat
  hx_bytes :: nat
  hx_evictions :: nat
  hx_expired_removals :: nat

record hot_store =
  hs_entries :: "hot_entry hmap"
  hs_max_entries :: nat
  hs_max_bytes :: nat
  hs_evictions :: nat
  hs_expired_removals :: nat

record prepared_upsert =
  pu_key :: string
  pu_entry :: hot_entry
  pu_now :: nat
  pu_victims :: "(string \<times> hot_entry) list"

definition hot_new :: "nat \<Rightarrow> hot_store" where
  "hot_new max_entries =
     \<lparr> hs_entries = [], hs_max_entries = max max_entries 1, hs_max_bytes = 64 * 1024 * 1024,
       hs_evictions = 0, hs_expired_removals = 0 \<rparr>"

definition with_max_bytes :: "nat \<Rightarrow> hot_store \<Rightarrow> hot_store" where
  "with_max_bytes max_bytes h = h\<lparr>hs_max_bytes := max_bytes\<rparr>"

definition nanos :: nat where "nanos = 1000000000"

definition expired :: "nat \<Rightarrow> hot_entry \<Rightarrow> bool" where
  "expired now e \<longleftrightarrow> (case he_expires_at e of None \<Rightarrow> False | Some deadline \<Rightarrow> deadline \<le> now)"

text \<open>\<open>Instant + Duration\<close>: the seconds of an instant are a signed 64-bit integer.\<close>

definition instant_add :: "nat \<Rightarrow> nat \<Rightarrow> nat option" where
  "instant_add now secs = (if now div nanos + secs < 2 ^ 63 then Some (now + secs * nanos) else None)"

definition entry_bytes :: "string \<times> hot_entry \<Rightarrow> nat" where
  "entry_bytes x = sat_add (length (fst x)) (he_size (snd x))"

definition total_bytes :: "hot_entry hmap \<Rightarrow> nat" where
  "total_bytes es = sum_list (map entry_bytes es)"

definition hot_metrics_of :: "hot_store \<Rightarrow> hot_metrics" where
  "hot_metrics_of h =
     \<lparr> hx_objects = length (hs_entries h), hx_bytes = total_bytes (hs_entries h),
       hx_evictions = hs_evictions h, hx_expired_removals = hs_expired_removals h \<rparr>"

text \<open>
  The comparison of candidates: priority, then accesses, then size downwards, then last
  access; as the lexicographic order of a key.
\<close>

definition victim_key :: "string \<times> hot_entry \<Rightarrow> nat \<times> nat \<times> int \<times> nat" where
  "victim_key x =
     (rank (he_priority (snd x)), he_access_count (snd x), - int (he_size (snd x)), he_last_access (snd x))"

definition victim_before :: "string \<times> hot_entry \<Rightarrow> string \<times> hot_entry \<Rightarrow> bool" where
  "victim_before x y \<longleftrightarrow> victim_key x < victim_key y"

definition candidate :: "string \<Rightarrow> nat \<Rightarrow> (string \<times> hot_entry) list \<Rightarrow> string \<times> hot_entry \<Rightarrow> bool" where
  "candidate key now victims x \<longleftrightarrow>
     fst x \<noteq> key \<and> \<not> expired now (snd x) \<and> he_priority (snd x) < Critical \<and> fst x \<notin> fst ` set victims"

definition over_limit :: "hot_store \<Rightarrow> nat \<Rightarrow> nat \<Rightarrow> nat \<Rightarrow> (string \<times> hot_entry) list \<Rightarrow> bool" where
  "over_limit h needed incoming resident victims \<longleftrightarrow>
     length victims < needed \<or> hs_max_bytes h < sat_add resident incoming"

lemma candidates_shrink:
  assumes "v \<in> set (filter (candidate key now vs) es)"
  shows "length (filter (candidate key now (vs @ [v])) es) < length (filter (candidate key now vs) es)"
proof -
  have "filter (candidate key now (vs @ [v])) es = filter (\<lambda>x. fst x \<noteq> fst v) (filter (candidate key now vs) es)"
    unfolding filter_filter by (rule filter_cong) (auto simp: candidate_def)
  with assms show ?thesis by (simp only: length_filter_less)
qed

function select_victims ::
  "hot_store \<Rightarrow> string \<Rightarrow> nat \<Rightarrow> nat \<Rightarrow> nat \<Rightarrow> nat \<Rightarrow> (string \<times> hot_entry) list
    \<Rightarrow> (memory_error, (string \<times> hot_entry) list) result" where
  "select_victims h key now needed incoming resident victims =
     (if \<not> over_limit h needed incoming resident victims then Inr victims
      else case min_by victim_before (filter (candidate key now victims) (hs_entries h)) of
        None \<Rightarrow>
          Inl (if length victims < needed then CriticalCapacity (hs_max_entries h)
               else HotByteCapacity (sat_add resident incoming) (hs_max_bytes h))
      | Some v \<Rightarrow> select_victims h key now needed incoming (resident - entry_bytes v) (victims @ [v]))"
  by pat_completeness auto
termination
  by (relation "measure (\<lambda>(h, key, now, _, _, _, victims). length (filter (candidate key now victims) (hs_entries h)))")
    (auto intro: candidates_shrink dest!: min_by_in simp del: set_filter)

declare select_victims.simps [simp del]

definition live_entries :: "nat \<Rightarrow> hot_entry hmap \<Rightarrow> hot_entry hmap" where
  "live_entries now es = filter (\<lambda>x. \<not> expired now (snd x)) es"

definition slots_needed :: "hot_store \<Rightarrow> string \<Rightarrow> nat \<Rightarrow> nat" where
  "slots_needed h key now =
     (if (case hm_get (hs_entries h) key of None \<Rightarrow> False | Some e \<Rightarrow> \<not> expired now e) then 0
      else length (live_entries now (hs_entries h)) + 1 - hs_max_entries h)"

definition resident_bytes :: "hot_store \<Rightarrow> string \<Rightarrow> nat \<Rightarrow> nat" where
  "resident_bytes h key now = total_bytes (filter (\<lambda>x. fst x \<noteq> key) (live_entries now (hs_entries h)))"

definition prepare_upsert ::
  "(json \<Rightarrow> string) \<Rightarrow> hot_store \<Rightarrow> string \<Rightarrow> json \<Rightarrow> class_policy \<Rightarrow> nat \<Rightarrow> prepared_upsert fallible" where
  "prepare_upsert to_vec h key v c now =
     (let size_bytes = length (to_vec v);
          incoming = sat_add (length key) size_bytes
      in if hs_max_bytes h < incoming then Some (Inl (HotByteCapacity incoming (hs_max_bytes h)))
         else case select_victims h key now (slots_needed h key now) incoming (resident_bytes h key now) [] of
           Inl e \<Rightarrow> Some (Inl e)
         | Inr victims \<Rightarrow>
             (let prepared = (\<lambda>expires_at.
                    \<lparr> pu_key = key,
                      pu_entry = \<lparr> he_class = cp_name c, he_value = v, he_priority = cp_priority c,
                        he_expires_at = expires_at, he_last_access = now, he_access_count = 1,
                        he_demote_after = cp_demote_after c, he_size = size_bytes \<rparr>,
                      pu_now = now, pu_victims = victims \<rparr>)
              in case cp_ttl c of
                   None \<Rightarrow> Some (Inr (prepared None))
                 | Some ttl \<Rightarrow>
                     (case instant_add now ttl of
                        None \<Rightarrow> None
                      | Some deadline \<Rightarrow> Some (Inr (prepared (Some deadline))))))"

definition purge_expired :: "nat \<Rightarrow> hot_store \<Rightarrow> hot_store" where
  "purge_expired now h =
     (let kept = live_entries now (hs_entries h)
      in h\<lparr>hs_entries := kept,
           hs_expired_removals := hs_expired_removals h + (length (hs_entries h) - length kept)\<rparr>)"

definition drop_victim :: "string \<times> hot_entry \<Rightarrow> hot_store \<Rightarrow> hot_store" where
  "drop_victim x h = h\<lparr>hs_entries := hm_remove (fst x) (hs_entries h), hs_evictions := hs_evictions h + 1\<rparr>"

definition commit_upsert :: "prepared_upsert \<Rightarrow> hot_store \<Rightarrow> (string \<times> hot_entry) list \<times> hot_store" where
  "commit_upsert p h =
     (let h = fold drop_victim (pu_victims p) (purge_expired (pu_now p) h)
      in (pu_victims p, h\<lparr>hs_entries := hm_insert (pu_key p) (pu_entry p) (hs_entries h)\<rparr>))"

definition hot_upsert ::
  "(json \<Rightarrow> string) \<Rightarrow> hot_store \<Rightarrow> string \<Rightarrow> json \<Rightarrow> class_policy \<Rightarrow> nat
    \<Rightarrow> ((string \<times> hot_entry) list \<times> hot_store) fallible" where
  "hot_upsert to_vec h key v c now =
     and_then (prepare_upsert to_vec h key v c now) (\<lambda>p. Some (Inr (commit_upsert p h)))"

definition hot_get :: "hot_store \<Rightarrow> string \<Rightarrow> nat \<Rightarrow> json option \<times> hot_store" where
  "hot_get h key now =
     (let h = purge_expired now h
      in case hm_get (hs_entries h) key of
           None \<Rightarrow> (None, h)
         | Some e \<Rightarrow>
             if expired now e
             then (None, h\<lparr>hs_entries := hm_remove key (hs_entries h), hs_expired_removals := hs_expired_removals h + 1\<rparr>)
             else (Some (he_value e),
                   h\<lparr>hs_entries := hm_insert key
                      (e\<lparr>he_last_access := now, he_access_count := sat_add (he_access_count e) 1\<rparr>) (hs_entries h)\<rparr>))"

definition hot_remove :: "hot_store \<Rightarrow> string \<Rightarrow> bool \<times> hot_store" where
  "hot_remove h key = (hm_get (hs_entries h) key \<noteq> None, h\<lparr>hs_entries := hm_remove key (hs_entries h)\<rparr>)"

definition restore :: "string \<Rightarrow> hot_entry \<Rightarrow> hot_store \<Rightarrow> hot_store" where
  "restore key e h = h\<lparr>hs_entries := hm_insert key e (hs_entries h)\<rparr>"

definition evict_one :: "hot_store \<Rightarrow> (string \<times> hot_entry) option \<times> hot_store" where
  "evict_one h =
     (case min_by victim_before (filter (\<lambda>x. he_priority (snd x) < Critical) (hs_entries h)) of
        None \<Rightarrow> (None, h)
      | Some (k, _) \<Rightarrow>
          (case hm_get (hs_entries h) k of
             None \<Rightarrow> (None, h)
           | Some e \<Rightarrow> (Some (k, e), drop_victim (k, e) h)))"

definition reclaim_one :: "hot_store \<Rightarrow> nat \<Rightarrow> (string \<times> hot_entry) option \<times> hot_store" where
  "reclaim_one h now = evict_one (purge_expired now h)"

definition idle :: "nat \<Rightarrow> hot_entry \<Rightarrow> bool" where
  "idle now e \<longleftrightarrow>
     he_priority e < Critical \<and>
     (case he_demote_after e of
        None \<Rightarrow> False
      | Some d \<Rightarrow> he_last_access e \<le> now \<and> d * nanos \<le> now - he_last_access e)"

fun take_out :: "string list \<Rightarrow> hot_store \<Rightarrow> (string \<times> hot_entry) list \<times> hot_store" where
  "take_out [] h = ([], h)"
| "take_out (k # ks) h =
     (case hm_get (hs_entries h) k of
        None \<Rightarrow> take_out ks h
      | Some e \<Rightarrow> (case take_out ks (drop_victim (k, e) h) of (out, h) \<Rightarrow> ((k, e) # out, h)))"

definition reclaim_idle :: "hot_store \<Rightarrow> nat \<Rightarrow> nat \<Rightarrow> (string \<times> hot_entry) list \<times> hot_store" where
  "reclaim_idle h now limit =
     (let h = purge_expired now h;
          candidates = filter (\<lambda>x. idle now (snd x)) (hs_entries h)
      in take_out (map fst (take limit (sort_key victim_key candidates))) h)"

section \<open>Removing entries\<close>

lemma sum_filter_split:
  fixes f :: "'a \<Rightarrow> nat"
  shows "sum_list (map f (filter P xs)) + sum_list (map f (filter (\<lambda>x. \<not> P x) xs)) = sum_list (map f xs)"
  by (induction xs) auto

lemma sum_list_same_set:
  fixes f :: "'a \<Rightarrow> nat"
  assumes "distinct xs" "distinct ys" "set xs = set ys"
  shows "sum_list (map f xs) = sum_list (map f ys)"
  using assms by (metis sum_list_distinct_conv_sum_set)

lemma hm_wf_same_key: "hm_wf m \<Longrightarrow> x \<in> set m \<Longrightarrow> y \<in> set m \<Longrightarrow> fst x = fst y \<Longrightarrow> x = y"
  by (metis eq_key_imp_eq_value hm_wf_def prod.collapse)

lemma set_filter_keys:
  assumes "hm_wf es" "set vs \<subseteq> set es"
  shows "set (filter (\<lambda>x. fst x \<in> fst ` set vs) es) = set vs"
proof (intro equalityI subsetI)
  fix x assume "x \<in> set (filter (\<lambda>x. fst x \<in> fst ` set vs) es)"
  then obtain v where "x \<in> set es" "v \<in> set vs" "fst x = fst v" by auto
  with assms hm_wf_same_key [of es x v] show "x \<in> set vs" by auto
qed (use assms in auto)

lemma sum_without:
  fixes f :: "string \<times> 'v \<Rightarrow> nat"
  assumes "hm_wf es" "set vs \<subseteq> set es" "distinct (map fst vs)"
  shows "sum_list (map f (filter (\<lambda>x. fst x \<notin> fst ` set vs) es)) + sum_list (map f vs) = sum_list (map f es)"
proof -
  have "sum_list (map f (filter (\<lambda>x. fst x \<in> fst ` set vs) es)) = sum_list (map f vs)"
    using assms set_filter_keys [OF assms(1,2)]
    by (intro sum_list_same_set) (simp_all add: hm_wf_def distinct_map)
  with sum_filter_split [of f "\<lambda>x. fst x \<in> fst ` set vs" es] show ?thesis by simp
qed

lemma fold_drop_victim:
  "hs_entries (fold drop_victim vs h) = filter (\<lambda>x. fst x \<notin> fst ` set vs) (hs_entries h)"
  "hs_max_entries (fold drop_victim vs h) = hs_max_entries h"
  "hs_max_bytes (fold drop_victim vs h) = hs_max_bytes h"
  "hs_evictions (fold drop_victim vs h) = hs_evictions h + length vs"
  by (induction vs arbitrary: h) (auto simp: drop_victim_def hm_remove_filter split_def intro: filter_cong)

lemma purge_expired_simps [simp]:
  "hs_entries (purge_expired now h) = live_entries now (hs_entries h)"
  "hs_max_entries (purge_expired now h) = hs_max_entries h"
  "hs_max_bytes (purge_expired now h) = hs_max_bytes h"
  "hs_evictions (purge_expired now h) = hs_evictions h"
  by (simp_all add: purge_expired_def Let_def)

section \<open>Choice of the victims\<close>

lemma total_bytes_simps [simp]:
  "total_bytes [] = 0" "total_bytes (x # xs) = entry_bytes x + total_bytes xs"
  "total_bytes (xs @ ys) = total_bytes xs + total_bytes ys"
  by (simp_all add: total_bytes_def)

text \<open>Victims are distinct evictable entries, and nothing left over was before one of them.\<close>

definition chosen :: "hot_store \<Rightarrow> string \<Rightarrow> nat \<Rightarrow> (string \<times> hot_entry) list \<Rightarrow> bool" where
  "chosen h key now vs \<longleftrightarrow>
     distinct (map fst vs) \<and> set vs \<subseteq> set (filter (candidate key now []) (hs_entries h)) \<and>
     (\<forall>v\<in>set vs. \<forall>x\<in>set (filter (candidate key now vs) (hs_entries h)). \<not> victim_before x v)"

lemma candidate_mono: "candidate key now (vs @ ws) x \<Longrightarrow> candidate key now vs x"
  by (auto simp: candidate_def)

lemma chosen_Nil [simp]: "chosen h key now []"
  by (simp add: chosen_def)

lemma chosen_snoc:
  assumes "chosen h key now vs" "min_by victim_before (filter (candidate key now vs) (hs_entries h)) = Some v"
  shows "chosen h key now (vs @ [v])"
proof -
  have v: "v \<in> set (filter (candidate key now vs) (hs_entries h))" using assms(2) by (rule min_by_in)
  have "\<not> victim_before x v" if "x \<in> set (filter (candidate key now vs) (hs_entries h))" for x
    using that assms(2) by (elim min_by_least) (auto simp: victim_before_def)
  with v assms(1) show ?thesis
    unfolding chosen_def by (auto simp: candidate_def)
qed

lemma select_victims_Inr:
  "select_victims h key now needed incoming (R - total_bytes vs) vs = Inr ws \<Longrightarrow> chosen h key now vs \<Longrightarrow>
     chosen h key now ws \<and> \<not> over_limit h needed incoming (R - total_bytes ws) ws \<and> (\<exists>us. ws = vs @ us) \<and>
     (length vs < length ws \<longrightarrow> over_limit h needed incoming (R - total_bytes (butlast ws)) (butlast ws))"
proof (induction "length (filter (candidate key now vs) (hs_entries h))" arbitrary: vs rule: less_induct)
  case less
  show ?case
  proof (cases "over_limit h needed incoming (R - total_bytes vs) vs")
    case False
    then show ?thesis using less.prems by (simp add: select_victims.simps)
  next
    case True
    with less.prems(1) obtain v where
      v: "min_by victim_before (filter (candidate key now vs) (hs_entries h)) = Some v"
      and r: "select_victims h key now needed incoming (R - total_bytes (vs @ [v])) (vs @ [v]) = Inr ws"
      by (subst (asm) select_victims.simps) (auto split: option.splits)
    from less.hyps [OF candidates_shrink [OF min_by_in [OF v]] r chosen_snoc [OF less.prems(2) v]] obtain us where
      ws: "chosen h key now ws" "\<not> over_limit h needed incoming (R - total_bytes ws) ws" "ws = (vs @ [v]) @ us"
        "length (vs @ [v]) < length ws \<longrightarrow> over_limit h needed incoming (R - total_bytes (butlast ws)) (butlast ws)"
      by blast
    then show ?thesis using True by (cases us rule: rev_cases) auto
  qed
qed

text \<open>An error means that all that can be evicted is not enough.\<close>

lemma select_victims_Inl:
  "select_victims h key now needed incoming (R - total_bytes vs) vs = Inl e \<Longrightarrow> chosen h key now vs \<Longrightarrow>
     \<exists>ws. chosen h key now ws \<and> over_limit h needed incoming (R - total_bytes ws) ws \<and>
       filter (candidate key now ws) (hs_entries h) = []"
proof (induction "length (filter (candidate key now vs) (hs_entries h))" arbitrary: vs rule: less_induct)
  case less
  from less.prems(1) have over: "over_limit h needed incoming (R - total_bytes vs) vs"
    by (subst (asm) select_victims.simps) (auto split: if_splits)
  show ?case
  proof (cases "min_by victim_before (filter (candidate key now vs) (hs_entries h))")
    case None
    with over less.prems(2) show ?thesis by auto
  next
    case (Some v)
    with less.prems(1) over have r: "select_victims h key now needed incoming (R - total_bytes (vs @ [v])) (vs @ [v]) = Inl e"
      by (subst (asm) select_victims.simps) simp
    from less.hyps [OF candidates_shrink [OF min_by_in [OF Some]] r chosen_snoc [OF less.prems(2) Some]] show ?thesis .
  qed
qed

section \<open>Admission\<close>

text \<open>What has to stay when \<open>key\<close> is written: the live critical entries of other keys.\<close>

definition kept_anyway :: "hot_store \<Rightarrow> string \<Rightarrow> nat \<Rightarrow> hot_entry hmap" where
  "kept_anyway h key now =
     filter (\<lambda>x. fst x \<noteq> key \<and> \<not> expired now (snd x) \<and> he_priority (snd x) = Critical) (hs_entries h)"

definition hot_ok :: "hot_store \<Rightarrow> bool" where
  "hot_ok h \<longleftrightarrow>
     hm_wf (hs_entries h) \<and> length (hs_entries h) \<le> hs_max_entries h \<and>
     total_bytes (hs_entries h) \<le> hs_max_bytes h \<and> 0 < hs_max_entries h \<and> hs_max_bytes h < u64_max"

abbreviation others :: "hot_store \<Rightarrow> string \<Rightarrow> nat \<Rightarrow> hot_entry hmap" where
  "others h key now \<equiv> filter (\<lambda>x. fst x \<noteq> key) (live_entries now (hs_entries h))"

lemma hm_wf_live [simp]: "hm_wf es \<Longrightarrow> hm_wf (live_entries now es)"
  by (simp add: live_entries_def)

lemma live_entries_le: "length (live_entries now es) \<le> length es" "total_bytes (live_entries now es) \<le> total_bytes es"
  by (simp_all add: live_entries_def total_bytes_def sum_filter_le)

lemma length_others:
  assumes "hm_wf (hs_entries h)"
  shows "length (others h key now) =
    (if (case hm_get (hs_entries h) key of None \<Rightarrow> False | Some e \<Rightarrow> \<not> expired now e)
     then length (live_entries now (hs_entries h)) - 1 else length (live_entries now (hs_entries h)))"
    (is "_ = (if ?live then _ else _)")
proof -
  let ?L = "live_entries now (hs_entries h)"
  have eq: "others h key now = hm_remove key ?L" by (simp add: hm_remove_filter split_def)
  have get: "hm_get ?L key \<noteq> None \<longleftrightarrow> ?live"
    using assms by (simp add: live_entries_def hm_get_filter_eq split: option.splits)
  show ?thesis
  proof (cases "hm_get ?L key")
    case None
    then have "key \<notin> fst ` set ?L" by (simp add: hm_get_None_iff)
    then have "hm_remove key ?L = ?L" by (simp add: delete_id)
    with None get eq show ?thesis by simp
  next
    case (Some e)
    then have "key \<in> fst ` set ?L" by (auto dest!: hm_get_in_set intro!: image_eqI)
    then have "length (hm_insert key e ?L) = length ?L" by (simp add: length_hm_insert)
    moreover have "length (hm_insert key e ?L) = Suc (length (hm_remove key ?L))"
      using assms by (intro length_hm_insert_remove) simp
    ultimately show ?thesis using Some get eq by simp
  qed
qed

lemma chosen_subset: "chosen h key now vs \<Longrightarrow> set vs \<subseteq> set (others h key now)"
  by (auto simp: chosen_def candidate_def live_entries_def)

lemma chosen_sums:
  assumes "hm_wf (hs_entries h)" "chosen h key now vs"
  defines "rest \<equiv> filter (\<lambda>x. fst x \<notin> fst ` set vs) (others h key now)"
  shows "total_bytes rest = resident_bytes h key now - total_bytes vs"
    "length rest = length (others h key now) - length vs"
    "total_bytes vs \<le> resident_bytes h key now" "length vs \<le> length (others h key now)"
proof -
  have "distinct (map fst vs)" using assms(2) by (simp add: chosen_def)
  note sum_without [OF _ chosen_subset [OF assms(2)] this]
  from this [of entry_bytes] this [of "\<lambda>_. 1"] assms(1)
  show "total_bytes rest = resident_bytes h key now - total_bytes vs"
    "length rest = length (others h key now) - length vs"
    "total_bytes vs \<le> resident_bytes h key now" "length vs \<le> length (others h key now)"
    by (simp_all add: rest_def total_bytes_def resident_bytes_def sum_list_triv)
qed

lemma prepare_upsert_cases:
  "prepare_upsert to_vec h key v c now = None \<longleftrightarrow>
     sat_add (length key) (length (to_vec v)) \<le> hs_max_bytes h \<and>
     is_ok (select_victims h key now (slots_needed h key now) (sat_add (length key) (length (to_vec v)))
       (resident_bytes h key now) []) \<and>
     (\<exists>ttl. cp_ttl c = Some ttl \<and> instant_add now ttl = None)"
  by (auto simp: prepare_upsert_def Let_def is_ok_iff split: option.splits sum.splits)

lemma prepare_upsert_Inr:
  assumes "prepare_upsert to_vec h key v c now = Some (Inr p)"
  shows "pu_key p = key" "pu_now p = now" "he_value (pu_entry p) = v" "he_size (pu_entry p) = length (to_vec v)"
    "he_class (pu_entry p) = cp_name c" "he_priority (pu_entry p) = cp_priority c" "he_last_access (pu_entry p) = now"
    "he_access_count (pu_entry p) = 1" "he_demote_after (pu_entry p) = cp_demote_after c"
    "he_expires_at (pu_entry p) = (case cp_ttl c of None \<Rightarrow> None | Some ttl \<Rightarrow> instant_add now ttl)"
    "chosen h key now (pu_victims p)"
    "\<not> over_limit h (slots_needed h key now) (sat_add (length key) (length (to_vec v)))
       (resident_bytes h key now - total_bytes (pu_victims p)) (pu_victims p)"
    "pu_victims p \<noteq> [] \<longrightarrow>
       over_limit h (slots_needed h key now) (sat_add (length key) (length (to_vec v)))
         (resident_bytes h key now - total_bytes (butlast (pu_victims p))) (butlast (pu_victims p))"
proof -
  from assms have sel: "select_victims h key now (slots_needed h key now) (sat_add (length key) (length (to_vec v)))
      (resident_bytes h key now - total_bytes []) [] = Inr (pu_victims p)"
    by (auto simp: prepare_upsert_def Let_def split: if_splits sum.splits option.splits)
  from select_victims_Inr [OF sel chosen_Nil]
  show "chosen h key now (pu_victims p)"
    "\<not> over_limit h (slots_needed h key now) (sat_add (length key) (length (to_vec v)))
       (resident_bytes h key now - total_bytes (pu_victims p)) (pu_victims p)"
    "pu_victims p \<noteq> [] \<longrightarrow>
       over_limit h (slots_needed h key now) (sat_add (length key) (length (to_vec v)))
         (resident_bytes h key now - total_bytes (butlast (pu_victims p))) (butlast (pu_victims p))"
    by simp_all
qed (use assms in \<open>auto simp: prepare_upsert_def Let_def split: if_splits sum.splits option.splits\<close>)

lemma commit_entries:
  "hs_entries (snd (commit_upsert p h)) =
     hm_insert (pu_key p) (pu_entry p)
       (filter (\<lambda>x. fst x \<notin> fst ` set (pu_victims p)) (live_entries (pu_now p) (hs_entries h)))"
  "hs_max_entries (snd (commit_upsert p h)) = hs_max_entries h"
  "hs_max_bytes (snd (commit_upsert p h)) = hs_max_bytes h"
  "fst (commit_upsert p h) = pu_victims p"
  by (simp_all add: commit_upsert_def Let_def fold_drop_victim)

lemma commit_get:
  "hm_wf (hs_entries h) \<Longrightarrow>
   hm_get (hs_entries (snd (commit_upsert p h))) k =
     (if k = pu_key p then Some (pu_entry p)
      else case hm_get (hs_entries h) k of
        None \<Rightarrow> None
      | Some e \<Rightarrow> if expired (pu_now p) e \<or> k \<in> fst ` set (pu_victims p) then None else Some e)"
  by (simp add: commit_entries live_entries_def hm_get_filter_eq split: option.splits)

text \<open>What stays beside a new entry when \<open>vs\<close> have been chosen.\<close>

lemma committed_sums:
  assumes "hm_wf (hs_entries h)" "prepare_upsert to_vec h key v c now = Some (Inr p)"
  shows "total_bytes (hs_entries (snd (commit_upsert p h))) =
      sat_add (length key) (length (to_vec v)) + (resident_bytes h key now - total_bytes (pu_victims p))"
    "length (hs_entries (snd (commit_upsert p h))) = Suc (length (others h key now) - length (pu_victims p))"
proof -
  note p = prepare_upsert_Inr [OF assms(2)]
  let ?L = "live_entries now (hs_entries h)"
  let ?F = "filter (\<lambda>x. fst x \<notin> fst ` set (pu_victims p)) ?L"
  have wf: "hm_wf ?F" using assms(1) by simp
  have rest: "hm_remove key ?F = filter (\<lambda>x. fst x \<notin> fst ` set (pu_victims p)) (others h key now)"
    by (auto simp: hm_remove_filter split_def intro: filter_cong)
  have e: "entry_bytes (key, pu_entry p) = sat_add (length key) (length (to_vec v))"
    using p by (simp add: entry_bytes_def)
  note sums = chosen_sums [OF assms(1) p(11), folded rest]
  show "total_bytes (hs_entries (snd (commit_upsert p h))) =
      sat_add (length key) (length (to_vec v)) + (resident_bytes h key now - total_bytes (pu_victims p))"
    using sum_hm_insert_remove [OF wf, of entry_bytes key "pu_entry p"] sums(1)
    by (simp add: commit_entries p(1,2) e total_bytes_def)
  show "length (hs_entries (snd (commit_upsert p h))) = Suc (length (others h key now) - length (pu_victims p))"
    using length_hm_insert_remove [OF wf, of key "pu_entry p"] sums(2) by (simp add: commit_entries p(1,2))
qed

lemma commit_hot_ok:
  assumes ok: "hot_ok h" and p: "prepare_upsert to_vec h key v c now = Some (Inr p)"
  shows "hot_ok (snd (commit_upsert p h))"
proof -
  let ?R = "resident_bytes h key now - total_bytes (pu_victims p)"
  let ?n = "length (others h key now) - length (pu_victims p)"
  have wf: "hm_wf (hs_entries h)" and max: "length (hs_entries h) \<le> hs_max_entries h"
    "0 < hs_max_entries h" "hs_max_bytes h < u64_max"
    using ok by (simp_all add: hot_ok_def)
  note p' = prepare_upsert_Inr [OF p]
  have "length (pu_victims p) \<ge> slots_needed h key now"
    and bytes: "sat_add ?R (sat_add (length key) (length (to_vec v))) \<le> hs_max_bytes h"
    using p'(12) by (simp_all add: over_limit_def not_less)
  moreover have "length (live_entries now (hs_entries h)) \<le> hs_max_entries h"
    using live_entries_le(1) [of now "hs_entries h"] max by simp
  ultimately have "Suc ?n \<le> hs_max_entries h"
    using max chosen_sums(4) [OF wf p'(11)] by (auto simp: slots_needed_def length_others [OF wf] split: if_splits)
  moreover have "hm_wf (hs_entries (snd (commit_upsert p h)))" using wf by (simp add: commit_entries)
  ultimately show ?thesis
    using bytes max committed_sums [OF wf p]
    by (simp add: hot_ok_def commit_entries sat_add_le_iff)
qed

lemma hot_upsert_Inr:
  "hot_upsert to_vec h key v c now = Some (Inr (vs, h')) \<longleftrightarrow>
     (\<exists>p. prepare_upsert to_vec h key v c now = Some (Inr p) \<and> vs = pu_victims p \<and> h' = snd (commit_upsert p h))"
  by (auto simp: hot_upsert_def prod_eq_iff commit_entries(4))

text \<open>
  An accepted write keeps Hot within its entries and bytes and makes the value readable;
  of the other entries only expired ones and the victims leave, and the victims are live, not
  critical and chosen in order: no evictable entry that stays comes before one of them. Without
  the last of them the limits would be exceeded.
\<close>

theorem hot_upsert_limits:
  assumes "hot_ok h" "hot_upsert to_vec h key v c now = Some (Inr (vs, h'))"
  shows "hot_ok h' \<and>
    map_option he_value (hm_get (hs_entries h') key) = Some v \<and>
    (\<forall>k. hm_get (hs_entries h') k =
       (if k = key then hm_get (hs_entries h') k
        else case hm_get (hs_entries h) k of
          None \<Rightarrow> None
        | Some e \<Rightarrow> if expired now e \<or> k \<in> fst ` set vs then None else Some e)) \<and>
    set vs \<subseteq> {x \<in> set (hs_entries h). fst x \<noteq> key \<and> \<not> expired now (snd x) \<and> he_priority (snd x) \<noteq> Critical} \<and>
    {(x, w). x \<in> set (hs_entries h') \<and> fst x \<noteq> key \<and> he_priority (snd x) \<noteq> Critical \<and> w \<in> set vs \<and> victim_before x w} = {} \<and>
    (vs = [] \<or>
     over_limit h (slots_needed h key now) (sat_add (length key) (length (to_vec v)))
       (resident_bytes h key now - total_bytes (butlast vs)) (butlast vs))"
proof -
  from assms(2) obtain p where p: "prepare_upsert to_vec h key v c now = Some (Inr p)"
    and vs: "vs = pu_victims p" and h': "h' = snd (commit_upsert p h)"
    by (auto simp: hot_upsert_Inr)
  have wf: "hm_wf (hs_entries h)" using assms(1) by (simp add: hot_ok_def)
  note p' = prepare_upsert_Inr [OF p]
  note get = commit_get [OF wf, of p, unfolded p'(1,2), folded vs h']
  have chosen: "chosen h key now vs" using p'(11) by (simp add: vs)
  then have sub: "set vs \<subseteq> {x \<in> set (hs_entries h). fst x \<noteq> key \<and> \<not> expired now (snd x) \<and> he_priority (snd x) \<noteq> Critical}"
    by (auto simp: chosen_def candidate_def less_Critical)
  have "candidate key now vs x \<and> x \<in> set (hs_entries h)"
    if "x \<in> set (hs_entries h')" "fst x \<noteq> key" "he_priority (snd x) \<noteq> Critical" for x
  proof -
    have "hm_wf (hs_entries h')" using wf by (simp add: h' commit_entries)
    with that(1) have "hm_get (hs_entries h') (fst x) = Some (snd x)" by (simp add: hm_get_Some_iff)
    with that get show ?thesis
      by (auto simp: candidate_def less_Critical split: option.splits if_splits dest!: hm_get_in_set)
  qed
  with chosen have order: "{(x, w). x \<in> set (hs_entries h') \<and> fst x \<noteq> key \<and> he_priority (snd x) \<noteq> Critical \<and>
      w \<in> set vs \<and> victim_before x w} = {}"
    by (auto simp: chosen_def)
  show ?thesis
    using commit_hot_ok [OF assms(1) p] sub order get p'(3) p'(13) [folded vs] by (simp add: h' [symmetric]) blast
qed

text \<open>The entries that stay when all that can be evicted is gone.\<close>

lemma critical_not_chosen:
  assumes "hm_wf (hs_entries h)" "chosen h key now vs" "x \<in> set (hs_entries h)" "he_priority (snd x) = Critical"
  shows "fst x \<notin> fst ` set vs"
proof
  assume "fst x \<in> fst ` set vs"
  then obtain w where w: "w \<in> set vs" "fst w = fst x" by auto
  with assms(2) have "w \<in> set (hs_entries h)" "he_priority (snd w) \<noteq> Critical"
    by (auto simp: chosen_def candidate_def less_Critical)
  with w assms(3,4) hm_wf_same_key [OF assms(1,3), of w] show False by simp
qed

lemma kept_in_rest:
  assumes "hm_wf (hs_entries h)" "chosen h key now vs"
  shows "kept_anyway h key now =
    filter (\<lambda>x. he_priority (snd x) = Critical) (filter (\<lambda>x. fst x \<notin> fst ` set vs) (others h key now))"
  using critical_not_chosen [OF assms]
  by (auto simp: kept_anyway_def live_entries_def intro!: filter_cong)

lemma rest_is_kept:
  assumes "hm_wf (hs_entries h)" "chosen h key now vs" "filter (candidate key now vs) (hs_entries h) = []"
  shows "filter (\<lambda>x. fst x \<notin> fst ` set vs) (others h key now) = kept_anyway h key now"
proof -
  have "he_priority (snd x) = Critical" if "x \<in> set (filter (\<lambda>x. fst x \<notin> fst ` set vs) (others h key now))" for x
    using assms(3) that by (auto simp: filter_empty_conv candidate_def less_Critical live_entries_def)
  then show ?thesis unfolding kept_in_rest [OF assms(1,2)] by (simp add: filter_True del: filter_filter)
qed

text \<open>Whether the new entry fits beside them.\<close>

definition fits_beside_critical :: "(json \<Rightarrow> string) \<Rightarrow> hot_store \<Rightarrow> string \<Rightarrow> json \<Rightarrow> nat \<Rightarrow> bool" where
  "fits_beside_critical to_vec h key v now \<longleftrightarrow>
     length (kept_anyway h key now) < hs_max_entries h \<and>
     sat_add (length key) (length (to_vec v)) + total_bytes (kept_anyway h key now) \<le> hs_max_bytes h"

lemma select_victims_fits:
  assumes ok: "hot_ok h"
    and "sat_add (length key) (length (to_vec v)) \<le> hs_max_bytes h"
  shows "is_ok (select_victims h key now (slots_needed h key now) (sat_add (length key) (length (to_vec v)))
      (resident_bytes h key now) []) \<longleftrightarrow> fits_beside_critical to_vec h key v now"
    (is "is_ok ?r \<longleftrightarrow> _")
proof -
  let ?b = "sat_add (length key) (length (to_vec v))"
  let ?R = "resident_bytes h key now"
  have wf: "hm_wf (hs_entries h)" and max: "length (live_entries now (hs_entries h)) \<le> hs_max_entries h"
    "0 < hs_max_entries h" "hs_max_bytes h < u64_max"
    using ok live_entries_le(1) [of now "hs_entries h"] by (auto simp: hot_ok_def)
  have enough: "\<not> over_limit h (slots_needed h key now) ?b (?R - total_bytes vs) vs \<longleftrightarrow>
      length (filter (\<lambda>x. fst x \<notin> fst ` set vs) (others h key now)) < hs_max_entries h \<and>
      ?b + total_bytes (filter (\<lambda>x. fst x \<notin> fst ` set vs) (others h key now)) \<le> hs_max_bytes h"
    if "chosen h key now vs" for vs
    using chosen_sums [OF wf that] max
    by (auto simp: over_limit_def not_less sat_add_le_iff slots_needed_def length_others [OF wf] split: if_splits)
  show ?thesis
  proof (cases ?r)
    case (Inl e)
    with select_victims_Inl [of h key now _ ?b ?R "[]" e] obtain ws where
      ws: "chosen h key now ws" "over_limit h (slots_needed h key now) ?b (?R - total_bytes ws) ws"
        "filter (candidate key now ws) (hs_entries h) = []" by auto
    with enough [OF ws(1)] have "\<not> fits_beside_critical to_vec h key v now"
      by (simp add: rest_is_kept [OF wf ws(1,3)] fits_beside_critical_def del: filter_filter)
    with Inl show ?thesis by simp
  next
    case (Inr ws)
    with select_victims_Inr [of h key now _ ?b ?R "[]" ws] have
      ws: "chosen h key now ws" "\<not> over_limit h (slots_needed h key now) ?b (?R - total_bytes ws) ws" by auto
    let ?rest = "filter (\<lambda>x. fst x \<notin> fst ` set ws) (others h key now)"
    have "length (kept_anyway h key now) \<le> length ?rest" "total_bytes (kept_anyway h key now) \<le> total_bytes ?rest"
      unfolding kept_in_rest [OF wf ws(1)] total_bytes_def by (simp_all only: length_filter_le sum_filter_le)
    with enough [OF ws(1)] ws(2) have "fits_beside_critical to_vec h key v now"
      by (simp add: fits_beside_critical_def del: filter_filter)
    with Inr show ?thesis by simp
  qed
qed

text \<open>
  A write is refused exactly when the entry does not fit beside the live critical entries
  of the other keys, and it panics exactly when it fits but its deadline is no instant.
\<close>

theorem hot_upsert_refused:
  assumes "hot_ok h"
  shows "((\<exists>e. hot_upsert to_vec h key v c now = Some (Inl e)) \<longleftrightarrow> \<not> fits_beside_critical to_vec h key v now) \<and>
    (hot_upsert to_vec h key v c now = None \<longleftrightarrow>
       fits_beside_critical to_vec h key v now \<and> (\<exists>ttl. cp_ttl c = Some ttl \<and> instant_add now ttl = None))"
proof -
  let ?b = "sat_add (length key) (length (to_vec v))"
  have small: "\<not> ?b \<le> hs_max_bytes h \<Longrightarrow> \<not> fits_beside_critical to_vec h key v now"
    by (simp add: fits_beside_critical_def)
  note fits = select_victims_fits [of h key to_vec v now, OF assms]
  have "hot_upsert to_vec h key v c now = None \<longleftrightarrow>
      fits_beside_critical to_vec h key v now \<and> (\<exists>ttl. cp_ttl c = Some ttl \<and> instant_add now ttl = None)"
    using fits small by (auto simp: hot_upsert_def prepare_upsert_cases)
  moreover have "(\<exists>e. hot_upsert to_vec h key v c now = Some (Inl e)) \<longleftrightarrow> \<not> fits_beside_critical to_vec h key v now"
  proof (cases "?b \<le> hs_max_bytes h")
    case False
    with small show ?thesis by (simp add: hot_upsert_def prepare_upsert_def and_then_def Let_def)
  next
    case True
    with fits show ?thesis
      by (auto simp: hot_upsert_def prepare_upsert_def and_then_def Let_def is_ok_iff
          split: sum.splits option.splits)
  qed
  ultimately show ?thesis by blast
qed

definition example_entry :: hot_entry where
  "example_entry = \<lparr> he_class = ''lane'', he_value = JNull, he_priority = Normal, he_expires_at = Some 9,
     he_last_access = 0, he_access_count = 1, he_demote_after = None, he_size = 6 \<rparr>"

definition example_hot :: hot_store where
  "example_hot = \<lparr> hs_entries = [(''a'', example_entry), (''s'', example_entry\<lparr>he_priority := Critical, he_size := 1\<rparr>)],
     hs_max_entries = 4, hs_max_bytes = 10, hs_evictions = 0, hs_expired_removals = 0 \<rparr>"

definition example_lane :: class_policy where
  "example_lane = \<lparr> cp_name = ''lane'', cp_policy = Volatile, cp_temperature = Hot, cp_ttl = Some 300,
     cp_flush = None, cp_priority = Normal, cp_demote_after = None, cp_rebuild = None \<rparr>"

lemma example_hot_ok: "hot_ok example_hot"
  by (simp add: hot_ok_def example_hot_def example_entry_def hm_wf_def entry_bytes_def sat_add_def u64_max_def)

lemmas example_hot_simps = example_hot_def example_entry_def over_limit_def candidate_def expired_def min_by_def
  less_Critical entry_bytes_def sat_add_def u64_max_def

lemma example_select: "select_victims example_hot ''b'' 0 0 5 9 [] = Inr [(''a'', example_entry)]"
proof -
  have "select_victims example_hot ''b'' 0 0 5 2 [(''a'', example_entry)] = Inr [(''a'', example_entry)]"
    by (subst select_victims.simps) (simp add: example_hot_simps)
  then show ?thesis by (subst select_victims.simps) (simp add: example_hot_simps)
qed

lemma example_upsert:
  "\<exists>p. hot_upsert (\<lambda>_. ''null'') example_hot ''b'' JNull example_lane 0 = Some (Inr ([(''a'', example_entry)], p))"
proof -
  have "sat_add (length ''b'') (length ''null'') = 5" by (simp add: sat_add_def u64_max_def)
  moreover have "slots_needed example_hot ''b'' 0 = 0" "resident_bytes example_hot ''b'' 0 = 9" "hs_max_bytes example_hot = 10"
    by (simp_all add: slots_needed_def resident_bytes_def example_hot_def example_entry_def live_entries_def expired_def
        entry_bytes_def sat_add_def u64_max_def)
  ultimately have "\<exists>p. prepare_upsert (\<lambda>_. ''null'') example_hot ''b'' JNull example_lane 0 = Some (Inr p) \<and>
      pu_victims p = [(''a'', example_entry)]"
    unfolding prepare_upsert_def Let_def
    by (simp only: example_select) (simp add: example_lane_def instant_add_def)
  then show ?thesis by (auto simp: hot_upsert_Inr)
qed

theorem hot_upsert_limits_witness:
  "\<exists>h'. hot_upsert (\<lambda>_. ''null'') example_hot ''b'' JNull example_lane 0 = Some (Inr ([(''a'', example_entry)], h')) \<and>
     hot_ok h' \<and> hm_get (hs_entries h') ''a'' = None \<and> hm_get (hs_entries h') ''s'' \<noteq> None"
proof -
  from example_upsert obtain h' where
    up: "hot_upsert (\<lambda>_. ''null'') example_hot ''b'' JNull example_lane 0 = Some (Inr ([(''a'', example_entry)], h'))" ..
  note limits = hot_upsert_limits [OF example_hot_ok up, THEN conjunct2, THEN conjunct2, THEN conjunct1, rule_format]
  have "hot_ok h'" using hot_upsert_limits [OF example_hot_ok up] by simp
  moreover have "hm_get (hs_entries h') ''a'' = None" using limits [of "''a''"] by (simp split: option.splits)
  moreover have "hm_get (hs_entries h') ''s'' \<noteq> None"
    using limits [of "''s''"] by (simp add: example_hot_def example_entry_def expired_def)
  ultimately show ?thesis using up by blast
qed

theorem hot_upsert_refused_witness:
  "\<exists>e. hot_upsert (\<lambda>_. ''12345678'') example_hot ''b'' JNull example_lane 0 = Some (Inl e)"
proof -
  have "\<not> fits_beside_critical (\<lambda>_. ''12345678'') example_hot ''b'' JNull 0"
    by (simp add: fits_beside_critical_def kept_anyway_def example_hot_simps)
  then show ?thesis
    using hot_upsert_refused [OF example_hot_ok, of "\<lambda>_. ''12345678''" "''b''" JNull example_lane 0] by simp
qed

section \<open>The other operations keep the limits\<close>

lemma hot_ok_sub:
  assumes "hot_ok h" "hm_wf (hs_entries h')" "set (hs_entries h') \<subseteq> set (hs_entries h)"
    and "hs_max_entries h' = hs_max_entries h" "hs_max_bytes h' = hs_max_bytes h"
  shows "hot_ok h'"
proof -
  have "hm_wf (hs_entries h)" "distinct (map fst (hs_entries h'))" using assms by (simp_all add: hot_ok_def hm_wf_def)
  note sum_without [OF this(1) assms(3) this(2)]
  from this [of entry_bytes] this [of "\<lambda>_. 1"] assms show ?thesis
    by (simp add: hot_ok_def total_bytes_def sum_list_triv)
qed

lemma hot_ok_purge [simp]: "hot_ok h \<Longrightarrow> hot_ok (purge_expired now h)"
  by (rule hot_ok_sub) (auto simp: hot_ok_def live_entries_def)

lemma hot_ok_remove: "hot_ok h \<Longrightarrow> hot_ok (snd (hot_remove h key))"
  by (rule hot_ok_sub) (auto simp: hot_ok_def hot_remove_def dest: in_hm_remove)

lemma hot_ok_touch:
  assumes "hot_ok h" "hm_get (hs_entries h) key = Some e" "he_size e' = he_size e"
  shows "hot_ok (h\<lparr>hs_entries := hm_insert key e' (hs_entries h)\<rparr>)"
proof -
  have wf: "hm_wf (hs_entries h)" using assms(1) by (simp add: hot_ok_def)
  have same: "hm_insert key e (hs_entries h) = hs_entries h" using assms(2) by (rule update_triv)
  have "total_bytes (hm_insert key e' (hs_entries h)) = total_bytes (hs_entries h)"
    using sum_hm_insert_remove [OF wf, of entry_bytes key e'] sum_hm_insert_remove [OF wf, of entry_bytes key e]
    by (simp add: total_bytes_def same entry_bytes_def assms(3))
  moreover have "length (hm_insert key e' (hs_entries h)) = length (hs_entries h)"
    using length_hm_insert_remove [OF wf, of key e'] length_hm_insert_remove [OF wf, of key e] by (simp add: same)
  ultimately show ?thesis using assms(1) by (simp add: hot_ok_def)
qed

lemma hot_ok_counter [simp]: "hot_ok (h\<lparr>hs_expired_removals := n\<rparr>) = hot_ok h" "hot_ok (h\<lparr>hs_evictions := n\<rparr>) = hot_ok h"
  by (simp_all add: hot_ok_def)

lemma hot_ok_get:
  assumes "hot_ok h" "hot_get h key now = (r, h')"
  shows "hot_ok h'"
proof -
  let ?p = "purge_expired now h"
  have ok: "hot_ok ?p" using assms(1) by simp
  show ?thesis
  proof (cases "hm_get (hs_entries ?p) key")
    case None
    with assms(2) ok show ?thesis by (simp add: hot_get_def Let_def)
  next
    case (Some e)
    with assms(2) hot_ok_remove [OF ok, of key] hot_ok_touch [OF ok Some] show ?thesis
      by (simp add: hot_get_def hot_remove_def Let_def split: if_splits) fastforce+
  qed
qed

text \<open>What a get returns, and the entries it leaves.\<close>

lemma hot_get_result:
  assumes "hm_wf (hs_entries h)" "hot_get h key now = (r, h')"
  shows "r = (case hm_get (hs_entries h) key of None \<Rightarrow> None | Some e \<Rightarrow> if expired now e then None else Some (he_value e))"
    "map_option he_value (hm_get (hs_entries h') k) =
      (case hm_get (hs_entries h) k of None \<Rightarrow> None | Some e \<Rightarrow> if expired now e then None else Some (he_value e))"
  using assms
  by (auto simp: hot_get_def Let_def live_entries_def hm_get_filter_eq split: option.splits if_splits)

lemma take_out_props:
  "hm_wf (hs_entries h) \<Longrightarrow> take_out ks h = (out, h') \<Longrightarrow>
     set out \<subseteq> set (hs_entries h) \<and> distinct (map fst out) \<and>
     hs_entries h' = filter (\<lambda>x. fst x \<notin> fst ` set out) (hs_entries h) \<and>
     hs_max_entries h' = hs_max_entries h \<and> hs_max_bytes h' = hs_max_bytes h \<and> fst ` set out \<subseteq> set ks"
proof (induction ks arbitrary: h out h')
  case Nil
  then show ?case by simp
next
  case (Cons k ks)
  show ?case
  proof (cases "hm_get (hs_entries h) k")
    case None
    with Cons.prems have "take_out ks h = (out, h')" by simp
    from Cons.IH [OF Cons.prems(1) this] show ?thesis by auto
  next
    case (Some e)
    obtain out1 h1 where rest: "take_out ks (drop_victim (k, e) h) = (out1, h1)" by fastforce
    with Cons.prems(2) Some have out: "out = (k, e) # out1" "h' = h1" by simp_all
    have wf: "hm_wf (hs_entries (drop_victim (k, e) h))" using Cons.prems(1) by (simp add: drop_victim_def)
    note IH = Cons.IH [OF wf rest]
    have "hs_entries h1 = filter (\<lambda>x. fst x \<notin> fst ` set out) (hs_entries h)"
      using IH by (auto simp: drop_victim_def hm_remove_filter split_def out intro: filter_cong)
    moreover have "k \<notin> fst ` set out1" "set out1 \<subseteq> set (hs_entries h)"
      using IH by (auto simp: drop_victim_def hm_remove_filter)
    ultimately show ?thesis using IH hm_get_in_set [OF Some] by (auto simp: out drop_victim_def)
  qed
qed

definition taken_from :: "hot_store \<Rightarrow> (string \<times> hot_entry) list \<Rightarrow> hot_store \<Rightarrow> bool" where
  "taken_from h vs h' \<longleftrightarrow>
     set vs \<subseteq> set (hs_entries h) \<and> distinct (map fst vs) \<and>
     hm_wf (hs_entries h') \<and> set (hs_entries h') \<subseteq> set (hs_entries h) \<and>
     hs_max_entries h' = hs_max_entries h \<and> hs_max_bytes h' = hs_max_bytes h"

lemma taken_hot_ok: "hot_ok h \<Longrightarrow> taken_from h vs h' \<Longrightarrow> hot_ok h'"
  by (auto simp: taken_from_def intro: hot_ok_sub)

lemma taken_Cons: "taken_from h (v # vs) h' \<Longrightarrow> taken_from h vs h'"
  by (auto simp: taken_from_def)

lemma reclaim_idle_taken: "hot_ok h \<Longrightarrow> reclaim_idle h now limit = (vs, h') \<Longrightarrow> taken_from h vs h'"
  using take_out_props [of "purge_expired now h" _ vs h']
  by (auto simp: reclaim_idle_def taken_from_def hot_ok_def Let_def live_entries_def)

lemma reclaim_one_taken:
  assumes "hot_ok h" "reclaim_one h now = (v, h')"
  shows "taken_from h (case v of None \<Rightarrow> [] | Some x \<Rightarrow> [x]) h'"
  using assms
  by (auto simp: reclaim_one_def evict_one_def taken_from_def hot_ok_def drop_victim_def live_entries_def hm_remove_filter
      split: option.splits prod.splits dest!: hm_get_in_set)

lemma fold_restore:
  "hm_wf (hs_entries h) \<Longrightarrow>
     hm_wf (hs_entries (fold (\<lambda>(k, e). restore k e) vs h)) \<and>
     set (hs_entries (fold (\<lambda>(k, e). restore k e) vs h)) \<subseteq> set vs \<union> set (hs_entries h) \<and>
     hs_max_entries (fold (\<lambda>(k, e). restore k e) vs h) = hs_max_entries h \<and>
     hs_max_bytes (fold (\<lambda>(k, e). restore k e) vs h) = hs_max_bytes h"
proof (induction vs arbitrary: h)
  case Nil
  then show ?case by simp
next
  case (Cons v vs)
  obtain k e where v: "v = (k, e)" by fastforce
  have "hm_wf (hs_entries (restore k e h))" using Cons.prems by (simp add: restore_def)
  note IH = Cons.IH [OF this]
  with set_hm_insert [of k e "hs_entries h"] show ?case by (auto simp: v restore_def)
qed

lemma restored_hot_ok:
  assumes "hot_ok h" "taken_from h vs h'"
  shows "hot_ok (fold (\<lambda>(k, e). restore k e) vs h')"
proof (rule hot_ok_sub [OF assms(1)])
  have "hm_wf (hs_entries h')" using assms(2) by (simp add: taken_from_def)
  note r = fold_restore [OF this, of vs]
  show "hm_wf (hs_entries (fold (\<lambda>(k, e). restore k e) vs h'))"
    "set (hs_entries (fold (\<lambda>(k, e). restore k e) vs h')) \<subseteq> set (hs_entries h)"
    "hs_max_entries (fold (\<lambda>(k, e). restore k e) vs h') = hs_max_entries h"
    "hs_max_bytes (fold (\<lambda>(k, e). restore k e) vs h') = hs_max_bytes h"
    using r assms(2) by (auto simp: taken_from_def)
qed

text \<open>What every change of Hot amounts to for the rest of the memory.\<close>

definition hot_keeps :: "hot_store \<Rightarrow> hot_store \<Rightarrow> bool" where
  "hot_keeps h h' \<longleftrightarrow>
     (hot_ok h \<longrightarrow> hot_ok h') \<and> hs_max_entries h' = hs_max_entries h \<and> hs_max_bytes h' = hs_max_bytes h"

lemma hot_keeps_refl [simp]: "hot_keeps h h"
  by (simp add: hot_keeps_def)

lemma hot_keeps_commit:
  "prepare_upsert to_vec h key v c now = Some (Inr p) \<Longrightarrow> hot_keeps h (snd (commit_upsert p h))"
  by (simp add: hot_keeps_def commit_hot_ok commit_entries)

lemma hot_keeps_get: "hot_get h key now = (r, h') \<Longrightarrow> hot_keeps h h'"
  by (auto simp: hot_keeps_def hot_ok_get)
    (auto simp: hot_get_def Let_def split: option.splits if_splits)

lemma hot_keeps_remove: "hot_keeps h (snd (hot_remove h key))"
  using hot_ok_remove [of h key] by (simp add: hot_keeps_def) (simp add: hot_remove_def)

lemma take_out_max: "take_out ks h = (vs, h') \<Longrightarrow> hs_max_entries h' = hs_max_entries h \<and> hs_max_bytes h' = hs_max_bytes h"
  by (induction ks arbitrary: h vs) (auto simp: drop_victim_def split: option.splits prod.splits)

lemma fold_restore_max:
  "hs_max_entries (fold (\<lambda>(k, e). restore k e) vs h) = hs_max_entries h"
  "hs_max_bytes (fold (\<lambda>(k, e). restore k e) vs h) = hs_max_bytes h"
  by (induction vs arbitrary: h) (auto simp: restore_def split_def)

lemma hot_keeps_reclaim_idle:
  assumes "reclaim_idle h now limit = (pre @ us, h')"
  shows "hot_keeps h (fold (\<lambda>(k, e). restore k e) us h')"
proof -
  have "hs_max_entries h' = hs_max_entries h \<and> hs_max_bytes h' = hs_max_bytes h"
    using assms take_out_max by (fastforce simp: reclaim_idle_def Let_def)
  moreover have "hot_ok h \<Longrightarrow> taken_from h us h'"
    using reclaim_idle_taken [OF _ assms] by (simp add: taken_from_def)
  ultimately show ?thesis using restored_hot_ok by (auto simp: hot_keeps_def fold_restore_max)
qed

lemma hot_keeps_reclaim_one:
  assumes "reclaim_one h now = (v, h')"
  shows "hot_keeps h h'" "v = Some (k, e) \<Longrightarrow> hot_keeps h (restore k e h')"
proof -
  have max: "hs_max_entries h' = hs_max_entries h \<and> hs_max_bytes h' = hs_max_bytes h"
    using assms by (auto simp: reclaim_one_def evict_one_def drop_victim_def split: option.splits)
  then show "hot_keeps h h'" using taken_hot_ok [OF _ reclaim_one_taken [OF _ assms]] by (simp add: hot_keeps_def)
  show "hot_keeps h (restore k e h')" if "v = Some (k, e)"
    using max restored_hot_ok [OF _ reclaim_one_taken [OF _ assms]] that
    by (simp add: hot_keeps_def) (simp add: restore_def)
qed

end
