(* ===== verification/Jme_Stores.thy ===== *)
theory Jme_Stores
  imports Jme_Hot "HOL-Library.Countable"
begin

text \<open>
  The levels below Hot: the traits \<open>WarmStore\<close>, \<open>ColdStore\<close> and \<open>FrozenStore\<close>
  (\<open>crates/jaiba-memory/src/warm.rs\<close>, \<open>cold.rs\<close>, \<open>frozen.rs\<close>), the stores that keep nothing, the
  stores in memory, and the Frozen store in files. A trait object is a record of its
  operations over a type of states. What the manager relies on is the locale \<open>tier_store\<close>;
  a store that keeps what it is given is a \<open>retaining_store\<close>.

  A disk is a map from a directory and a file name to the bytes, with the outcome of each
  writing call to come: \<open>None\<close> succeeds, \<open>Some n\<close> fails after \<open>n - 1\<close> bytes, with \<open>Some 0\<close> before
  the file is touched. SHA-256 and the JSON of a Frozen file are parameters.
\<close>

section \<open>The store traits\<close>

record tier_entry =
  te_class :: string
  te_value :: json

record 's store_ops =
  so_get :: "'s \<Rightarrow> string \<Rightarrow> (memory_error, tier_entry option) result"
  so_put :: "'s \<Rightarrow> string \<Rightarrow> tier_entry \<Rightarrow> (memory_error, unit) result \<times> 's"
  so_remove :: "'s \<Rightarrow> string \<Rightarrow> (memory_error, bool) result \<times> 's"
  so_len :: "'s \<Rightarrow> nat"
  so_name :: string

text \<open>The further operations of a Cold store.\<close>

record 's cold_ops = "'s store_ops" +
  co_bytes_on_disk :: "'s \<Rightarrow> nat"
  co_max_disk_bytes :: "'s \<Rightarrow> nat option"
  co_quota_rejections :: "'s \<Rightarrow> nat"
  co_salvaged_segments :: "'s \<Rightarrow> nat"

definition store_is_empty :: "('s, 'x) store_ops_scheme \<Rightarrow> 's \<Rightarrow> bool" where
  "store_is_empty ops s \<longleftrightarrow> so_len ops s = 0"

text \<open>
  The laws, for the keys in use. An operation that fails leaves what is held; a put that
  succeeds may forget the entry, as the stores without a backend do.
\<close>

locale tier_store =
  fixes ops :: "('s, 'x) store_ops_scheme"
    and inv :: "'s \<Rightarrow> bool"
    and holds :: "'s \<Rightarrow> string \<Rightarrow> tier_entry option"
    and keys :: "string set"
  assumes get_holds: "inv s \<Longrightarrow> k \<in> keys \<Longrightarrow> so_get ops s k = Inr r \<Longrightarrow> r = holds s k"
    and put_ok: "inv s \<Longrightarrow> k \<in> keys \<Longrightarrow> so_put ops s k e = (Inr u, s') \<Longrightarrow>
      inv s' \<and> (holds s' k = Some e \<or> holds s' k = None) \<and> (\<forall>j\<in>keys. j \<noteq> k \<longrightarrow> holds s' j = holds s j)"
    and put_error: "inv s \<Longrightarrow> k \<in> keys \<Longrightarrow> so_put ops s k e = (Inl x, s') \<Longrightarrow>
      inv s' \<and> (\<forall>j\<in>keys. holds s' j = holds s j)"
    and remove_ok: "inv s \<Longrightarrow> k \<in> keys \<Longrightarrow> so_remove ops s k = (Inr b, s') \<Longrightarrow>
      inv s' \<and> (b \<longleftrightarrow> holds s k \<noteq> None) \<and> holds s' k = None \<and> (\<forall>j\<in>keys. j \<noteq> k \<longrightarrow> holds s' j = holds s j)"
    and remove_error: "inv s \<Longrightarrow> k \<in> keys \<Longrightarrow> so_remove ops s k = (Inl x, s') \<Longrightarrow>
      inv s' \<and> (\<forall>j\<in>keys. holds s' j = holds s j)"
begin

lemma put_inv: "inv s \<Longrightarrow> k \<in> keys \<Longrightarrow> so_put ops s k e = (r, s') \<Longrightarrow> inv s'"
  using put_ok put_error by (cases r) blast+

lemma remove_inv: "inv s \<Longrightarrow> k \<in> keys \<Longrightarrow> so_remove ops s k = (r, s') \<Longrightarrow> inv s'"
  using remove_ok remove_error by (cases r) blast+

lemma put_others:
  "inv s \<Longrightarrow> k \<in> keys \<Longrightarrow> so_put ops s k e = (r, s') \<Longrightarrow> j \<in> keys \<Longrightarrow> j \<noteq> k \<Longrightarrow> holds s' j = holds s j"
  using put_ok put_error by (cases r) blast+

lemma remove_others:
  "inv s \<Longrightarrow> k \<in> keys \<Longrightarrow> so_remove ops s k = (r, s') \<Longrightarrow> j \<in> keys \<Longrightarrow> j \<noteq> k \<Longrightarrow> holds s' j = holds s j"
  using remove_ok remove_error by (cases r) blast+

end

locale retaining_store = tier_store +
  assumes put_retains: "inv s \<Longrightarrow> k \<in> keys \<Longrightarrow> so_put ops s k e = (Inr u, s') \<Longrightarrow> holds s' k = Some e"
    and get_returns: "inv s \<Longrightarrow> k \<in> keys \<Longrightarrow> \<exists>r. so_get ops s k = Inr r"
begin

lemma get_eq: "inv s \<Longrightarrow> k \<in> keys \<Longrightarrow> so_get ops s k = Inr (holds s k)"
  using get_holds get_returns by blast

lemma get_after_put:
  "inv s \<Longrightarrow> k \<in> keys \<Longrightarrow> so_put ops s k e = (Inr u, s') \<Longrightarrow> so_get ops s' k = Inr (Some e)"
  using get_eq put_retains put_inv by metis

end

section \<open>Stores without a backend and stores in memory\<close>

definition noop_get :: "unit \<Rightarrow> string \<Rightarrow> (memory_error, tier_entry option) result" where
  "noop_get s k = Inr None"

definition noop_put :: "unit \<Rightarrow> string \<Rightarrow> tier_entry \<Rightarrow> (memory_error, unit) result \<times> unit" where
  "noop_put s k e = (Inr (), s)"

definition noop_remove :: "unit \<Rightarrow> string \<Rightarrow> (memory_error, bool) result \<times> unit" where
  "noop_remove s k = (Inr False, s)"

definition noop_store :: "unit store_ops" where
  "noop_store = \<lparr> so_get = noop_get, so_put = noop_put, so_remove = noop_remove, so_len = (\<lambda>_. 0), so_name = ''none'' \<rparr>"

record recording_store =
  rc_entries :: "tier_entry hmap"
  rc_puts :: nat
  rc_removes :: nat

definition recording_get :: "recording_store \<Rightarrow> string \<Rightarrow> (memory_error, tier_entry option) result" where
  "recording_get s k = Inr (hm_get (rc_entries s) k)"

definition recording_put :: "recording_store \<Rightarrow> string \<Rightarrow> tier_entry \<Rightarrow> (memory_error, unit) result \<times> recording_store" where
  "recording_put s k e = (Inr (), s\<lparr>rc_entries := hm_insert k e (rc_entries s), rc_puts := rc_puts s + 1\<rparr>)"

definition recording_remove :: "recording_store \<Rightarrow> string \<Rightarrow> (memory_error, bool) result \<times> recording_store" where
  "recording_remove s k =
     (Inr (hm_get (rc_entries s) k \<noteq> None),
      s\<lparr>rc_entries := hm_remove k (rc_entries s), rc_removes := rc_removes s + 1\<rparr>)"

definition recording_ops :: "recording_store store_ops" where
  "recording_ops =
     \<lparr> so_get = recording_get, so_put = recording_put, so_remove = recording_remove,
       so_len = (\<lambda>s. length (rc_entries s)), so_name = ''recording'' \<rparr>"

definition noop_cold :: "unit cold_ops" where
  "noop_cold =
     \<lparr> so_get = noop_get, so_put = noop_put, so_remove = noop_remove, so_len = (\<lambda>_. 0), so_name = ''none'',
       co_bytes_on_disk = (\<lambda>_. 0), co_max_disk_bytes = (\<lambda>_. None), co_quota_rejections = (\<lambda>_. 0),
       co_salvaged_segments = (\<lambda>_. 0) \<rparr>"

text \<open>The Cold and Frozen stores in memory do not count removals.\<close>

definition recording_take :: "recording_store \<Rightarrow> string \<Rightarrow> (memory_error, bool) result \<times> recording_store" where
  "recording_take s k =
     (Inr (hm_get (rc_entries s) k \<noteq> None), s\<lparr>rc_entries := hm_remove k (rc_entries s)\<rparr>)"

definition recording_frozen :: "recording_store store_ops" where
  "recording_frozen =
     \<lparr> so_get = recording_get, so_put = recording_put, so_remove = recording_take,
       so_len = (\<lambda>s. length (rc_entries s)), so_name = ''recording'' \<rparr>"

definition recording_cold :: "recording_store cold_ops" where
  "recording_cold =
     \<lparr> so_get = recording_get, so_put = recording_put, so_remove = recording_take,
       so_len = (\<lambda>s. length (rc_entries s)), so_name = ''recording'',
       co_bytes_on_disk = (\<lambda>_. 0), co_max_disk_bytes = (\<lambda>_. None), co_quota_rejections = (\<lambda>_. 0),
       co_salvaged_segments = (\<lambda>_. 0) \<rparr>"

lemmas noop_defs = noop_store_def noop_cold_def noop_get_def noop_put_def noop_remove_def
lemmas recording_defs = recording_ops_def recording_frozen_def recording_cold_def recording_get_def
  recording_put_def recording_remove_def recording_take_def

interpretation noop: tier_store noop_store "\<lambda>_. True" "\<lambda>_ _. None" UNIV
  by unfold_locales (simp_all add: noop_defs)

interpretation noop_cold: tier_store noop_cold "\<lambda>_. True" "\<lambda>_ _. None" UNIV
  by unfold_locales (simp_all add: noop_defs)

interpretation recording: retaining_store recording_ops "\<lambda>_. True" "\<lambda>s. hm_get (rc_entries s)" UNIV
  by unfold_locales (auto simp: recording_defs)

interpretation recording_frozen: retaining_store recording_frozen "\<lambda>_. True" "\<lambda>s. hm_get (rc_entries s)" UNIV
  by unfold_locales (auto simp: recording_defs)

interpretation recording_cold: retaining_store recording_cold "\<lambda>_. True" "\<lambda>s. hm_get (rc_entries s)" UNIV
  by unfold_locales (auto simp: recording_defs)

section \<open>Disks\<close>

type_synonym path = "string \<times> string"

record disk =
  dk_files :: "(path \<times> string) list"
  dk_unreadable :: "path \<Rightarrow> bool"
  dk_faults :: "nat \<Rightarrow> nat option"
  dk_calls :: nat

text \<open>The outcome of the next writing call, and the disk after it if it does nothing.\<close>

definition io_call :: "disk \<Rightarrow> nat option \<times> disk" where
  "io_call d = (dk_faults d (dk_calls d), d\<lparr>dk_calls := dk_calls d + 1\<rparr>)"

definition io_exists :: "disk \<Rightarrow> path \<Rightarrow> bool" where
  "io_exists d p \<longleftrightarrow> hm_get (dk_files d) p \<noteq> None"

definition io_read :: "disk \<Rightarrow> path \<Rightarrow> string option" where
  "io_read d p = (if dk_unreadable d p then None else hm_get (dk_files d) p)"

text \<open>A call that touches no data, such as \<open>sync_all\<close>.\<close>

definition io_plain :: "disk \<Rightarrow> bool \<times> disk" where
  "io_plain d = (case io_call d of (f, d) \<Rightarrow> (f = None, d))"

definition io_write :: "disk \<Rightarrow> path \<Rightarrow> string \<Rightarrow> bool \<times> disk" where
  "io_write d p bytes =
     (case io_call d of
        (None, d) \<Rightarrow> (True, d\<lparr>dk_files := hm_insert p bytes (dk_files d)\<rparr>)
      | (Some 0, d) \<Rightarrow> (False, d)
      | (Some (Suc n), d) \<Rightarrow> (False, d\<lparr>dk_files := hm_insert p (take n bytes) (dk_files d)\<rparr>))"

definition io_append :: "disk \<Rightarrow> path \<Rightarrow> string \<Rightarrow> bool \<times> disk" where
  "io_append d p bytes =
     (let old = (case hm_get (dk_files d) p of None \<Rightarrow> [] | Some b \<Rightarrow> b)
      in case io_call d of
           (None, d) \<Rightarrow> (True, d\<lparr>dk_files := hm_insert p (old @ bytes) (dk_files d)\<rparr>)
         | (Some 0, d) \<Rightarrow> (False, d)
         | (Some (Suc n), d) \<Rightarrow> (False, d\<lparr>dk_files := hm_insert p (old @ take n bytes) (dk_files d)\<rparr>))"

definition io_rename :: "disk \<Rightarrow> path \<Rightarrow> path \<Rightarrow> bool \<times> disk" where
  "io_rename d p q =
     (case io_call d of
        (None, d) \<Rightarrow>
          (case hm_get (dk_files d) p of
             None \<Rightarrow> (False, d)
           | Some bytes \<Rightarrow> (True, d\<lparr>dk_files := hm_insert q bytes (hm_remove p (dk_files d))\<rparr>))
      | (Some _, d) \<Rightarrow> (False, d))"

definition io_remove_file :: "disk \<Rightarrow> path \<Rightarrow> bool \<times> disk" where
  "io_remove_file d p =
     (case io_call d of
        (None, d) \<Rightarrow> (io_exists d p, d\<lparr>dk_files := hm_remove p (dk_files d)\<rparr>)
      | (Some _, d) \<Rightarrow> (False, d))"

section \<open>The Frozen store in files\<close>

record frozen_codec =
  fc_sha256 :: "string \<Rightarrow> string"
  fc_encode :: "string \<Rightarrow> tier_entry \<Rightarrow> string"
  fc_decode :: "string \<Rightarrow> (string \<times> tier_entry) option"
  fc_pid :: string

record file_frozen_store =
  ff_root :: string
  ff_objects :: nat
  ff_disk :: disk

definition hex_digit :: "nat \<Rightarrow> char" where
  "hex_digit n = char_of (if n < 10 then 48 + n else 87 + n)"

text \<open>\<open>{b:02x}\<close> of every byte.\<close>

definition hex :: "string \<Rightarrow> string" where
  "hex bytes = concat (map (\<lambda>b. let n = of_char b in [hex_digit (n div 16), hex_digit (n mod 16)]) bytes)"

definition frozen_path :: "frozen_codec \<Rightarrow> file_frozen_store \<Rightarrow> string \<Rightarrow> path" where
  "frozen_path c s key = (ff_root s, hex (fc_sha256 c key) @ ''.json'')"

text \<open>\<open>Path::extension\<close> of a file name.\<close>

definition extension :: "string \<Rightarrow> string option" where
  "extension name =
     (let after = rev (takeWhile (\<lambda>c. c \<noteq> CHR ''.'') (rev name))
      in if length after + 1 < length name \<and> name \<noteq> ''..'' then Some after else None)"

definition count_json_files :: "disk \<Rightarrow> string \<Rightarrow> (memory_error, nat) result" where
  "count_json_files d root =
     (if dk_unreadable d (root, []) then Inl (FrozenError ''listar'')
      else Inr (length (filter (\<lambda>x. fst (fst x) = root \<and> extension (snd (fst x)) = Some ''json'') (dk_files d))))"

definition file_frozen_new :: "string \<Rightarrow> disk \<Rightarrow> (memory_error, file_frozen_store) result \<times> disk" where
  "file_frozen_new root d =
     (case io_plain d of
        (False, d) \<Rightarrow> (Inl (FrozenError ''crear directorio''), d)
      | (True, d) \<Rightarrow>
          (case count_json_files d root of
             Inl e \<Rightarrow> (Inl e, d)
           | Inr n \<Rightarrow> (Inr \<lparr> ff_root = root, ff_objects = n, ff_disk = d \<rparr>, d)))"

definition frozen_get :: "frozen_codec \<Rightarrow> file_frozen_store \<Rightarrow> string \<Rightarrow> (memory_error, tier_entry option) result" where
  "frozen_get c s key =
     (let path = frozen_path c s key
      in if \<not> io_exists (ff_disk s) path then Inr None
         else case io_read (ff_disk s) path of
           None \<Rightarrow> Inl (FrozenError ''lectura'')
         | Some bytes \<Rightarrow>
             (case fc_decode c bytes of
                None \<Rightarrow> Inl (FrozenError ''json'')
              | Some (_, e) \<Rightarrow> Inr (Some e)))"

definition frozen_put ::
  "frozen_codec \<Rightarrow> file_frozen_store \<Rightarrow> string \<Rightarrow> tier_entry \<Rightarrow> (memory_error, unit) result \<times> file_frozen_store" where
  "frozen_put c s key e =
     (let path = frozen_path c s key;
          existed = io_exists (ff_disk s) path;
          temp = (fst path, snd path @ ''.tmp-'' @ fc_pid c)
      in case io_write (ff_disk s) temp (fc_encode c key e) of
           (False, d) \<Rightarrow> (Inl (FrozenError ''escritura''), s\<lparr>ff_disk := d\<rparr>)
         | (True, d) \<Rightarrow>
             (case io_plain d of
                (False, d) \<Rightarrow> (Inl (FrozenError ''abrir temporal''), s\<lparr>ff_disk := d\<rparr>)
              | (True, d) \<Rightarrow>
                  (case io_plain d of
                     (False, d) \<Rightarrow> (Inl (FrozenError ''fsync''), s\<lparr>ff_disk := d\<rparr>)
                   | (True, d) \<Rightarrow>
                       (case io_rename d temp path of
                          (False, d) \<Rightarrow> (Inl (FrozenError ''renombrar''), s\<lparr>ff_disk := d\<rparr>)
                        | (True, d) \<Rightarrow>
                            (Inr (), s\<lparr>ff_disk := d, ff_objects := ff_objects s + (if existed then 0 else 1)\<rparr>)))))"

definition frozen_remove ::
  "frozen_codec \<Rightarrow> file_frozen_store \<Rightarrow> string \<Rightarrow> (memory_error, bool) result \<times> file_frozen_store" where
  "frozen_remove c s key =
     (let path = frozen_path c s key
      in if \<not> io_exists (ff_disk s) path then (Inr False, s)
         else case io_remove_file (ff_disk s) path of
           (False, d) \<Rightarrow> (Inl (FrozenError ''borrar''), s\<lparr>ff_disk := d\<rparr>)
         | (True, d) \<Rightarrow> (Inr True, s\<lparr>ff_disk := d, ff_objects := ff_objects s - 1\<rparr>))"

definition frozen_ops :: "frozen_codec \<Rightarrow> file_frozen_store store_ops" where
  "frozen_ops c =
     \<lparr> so_get = frozen_get c, so_put = frozen_put c, so_remove = frozen_remove c,
       so_len = ff_objects, so_name = ''file'' \<rparr>"

subsection \<open>It is a store that retains\<close>

lemma hex_simps [simp]:
  "hex [] = []"
  "hex (b # bs) = hex_digit (of_char b div 16) # hex_digit (of_char b mod 16) # hex bs"
  by (simp_all add: hex_def Let_def)

lemma hex_digit_inject: "m < 16 \<Longrightarrow> n < 16 \<Longrightarrow> hex_digit m = hex_digit n \<longleftrightarrow> m = n"
  by (auto simp: hex_digit_def)

lemma hex_digit_not_dot: "n < 16 \<Longrightarrow> hex_digit n \<noteq> CHR ''.''"
  by (auto simp: hex_digit_def char_of_eq_iff take_bit_eq_mod)

lemma nibbles: "(of_char (b :: char) :: nat) div 16 < 16" "(of_char b :: nat) mod 16 < 16"
  using nat_of_char_less_256 [of b] by (simp_all add: div_less_iff_less_mult)

lemma hex_inject: "hex a = hex b \<longleftrightarrow> a = b"
proof (induction a arbitrary: b)
  case Nil
  then show ?case by (cases b) simp_all
next
  case (Cons x a)
  show ?case
  proof (cases b)
    case Nil
    then show ?thesis by simp
  next
    case (Cons y b')
    have "x = y" if "of_char x div 16 = (of_char y div 16 :: nat)" "of_char x mod 16 = (of_char y mod 16 :: nat)"
      using that by (metis div_mult_mod_eq of_char_eq_iff)
    then show ?thesis using Cons.IH [of b'] Cons
      by (auto simp: hex_digit_inject nibbles)
  qed
qed

lemma hex_no_dot: "CHR ''.'' \<notin> set (hex bs)"
  by (induction bs) (auto simp: hex_digit_not_dot [OF nibbles(1)] hex_digit_not_dot [OF nibbles(2)] dest: sym)

lemma temp_not_json: "hex bs @ ''.json.tmp-'' @ pid \<noteq> hex bs' @ ''.json''"
proof
  assume eq: "hex bs @ ''.json.tmp-'' @ pid = hex bs' @ ''.json''"
  have "dropWhile (\<lambda>c. c \<noteq> CHR ''.'') (hex bs @ r) = dropWhile (\<lambda>c. c \<noteq> CHR ''.'') r" for bs r
    using hex_no_dot [of bs] by (intro dropWhile_append2) metis
  with arg_cong [OF eq, of "dropWhile (\<lambda>c. c \<noteq> CHR ''.'')"] show False by simp
qed

definition frozen_holds :: "frozen_codec \<Rightarrow> file_frozen_store \<Rightarrow> string \<Rightarrow> tier_entry option" where
  "frozen_holds c s k =
     (case hm_get (dk_files (ff_disk s)) (frozen_path c s k) of
        None \<Rightarrow> None
      | Some bytes \<Rightarrow> map_option snd (fc_decode c bytes))"

definition frozen_inv :: "frozen_codec \<Rightarrow> string set \<Rightarrow> file_frozen_store \<Rightarrow> bool" where
  "frozen_inv c keys s \<longleftrightarrow>
     (\<forall>k\<in>keys. \<forall>bytes. hm_get (dk_files (ff_disk s)) (frozen_path c s k) = Some bytes \<longrightarrow> fc_decode c bytes \<noteq> None)"

text \<open>SHA-256 tells the keys in use apart, and serde reads back what it writes.\<close>

definition frozen_codec_ok :: "frozen_codec \<Rightarrow> string set \<Rightarrow> bool" where
  "frozen_codec_ok c keys \<longleftrightarrow> inj_on (fc_sha256 c) keys \<and> (\<forall>k\<in>keys. \<forall>e. fc_decode c (fc_encode c k e) = Some (k, e))"

lemma frozen_path_inject:
  "frozen_codec_ok c keys \<Longrightarrow> j \<in> keys \<Longrightarrow> k \<in> keys \<Longrightarrow> frozen_path c s j = frozen_path c s k \<longleftrightarrow> j = k"
  by (auto simp: frozen_codec_ok_def frozen_path_def hex_inject dest: inj_onD)

text \<open>What a put leaves on the disk, seen through the paths of the keys.\<close>

lemma frozen_put_files:
  assumes "frozen_put c s k e = (r, s')"
  shows "ff_root s' = ff_root s"
    "hm_get (dk_files (ff_disk s')) (frozen_path c s j) =
      (if r = Inr () \<and> frozen_path c s j = frozen_path c s k then Some (fc_encode c k e)
       else hm_get (dk_files (ff_disk s)) (frozen_path c s j))"
    "dk_unreadable (ff_disk s') = dk_unreadable (ff_disk s)"
  using assms temp_not_json [of "fc_sha256 c k" "fc_pid c" "fc_sha256 c j"]
  by (auto simp: frozen_put_def io_write_def io_plain_def io_rename_def io_call_def frozen_path_def Let_def
      split: option.splits nat.splits prod.splits bool.splits if_splits)

lemma frozen_remove_files:
  assumes "frozen_remove c s k = (r, s')"
  shows "ff_root s' = ff_root s"
    "hm_get (dk_files (ff_disk s')) (frozen_path c s j) =
      (if is_ok r \<and> frozen_path c s j = frozen_path c s k then None
       else hm_get (dk_files (ff_disk s)) (frozen_path c s j))"
    "dk_unreadable (ff_disk s') = dk_unreadable (ff_disk s)"
    "r = Inr b \<Longrightarrow> b \<longleftrightarrow> hm_get (dk_files (ff_disk s)) (frozen_path c s k) \<noteq> None"
  using assms
  by (auto simp: frozen_remove_def io_remove_file_def io_exists_def io_call_def Let_def
      split: option.splits prod.splits bool.splits if_splits)

text \<open>As long as no file is unreadable, every get returns.\<close>

definition readable :: "disk \<Rightarrow> bool" where
  "readable d \<longleftrightarrow> dk_unreadable d = (\<lambda>_. False)"

lemma frozen_get_holds:
  "frozen_inv c keys s \<Longrightarrow> k \<in> keys \<Longrightarrow> frozen_get c s k = Inr r \<Longrightarrow> r = frozen_holds c s k"
  "frozen_inv c keys s \<Longrightarrow> k \<in> keys \<Longrightarrow> readable (ff_disk s) \<Longrightarrow> frozen_get c s k = Inr (frozen_holds c s k)"
  by (auto simp: frozen_get_def frozen_holds_def io_exists_def io_read_def readable_def frozen_inv_def Let_def
      split: option.splits if_splits)

lemma frozen_put_holds:
  assumes "frozen_codec_ok c keys" "frozen_inv c keys s" "k \<in> keys" "frozen_put c s k e = (r, s')"
  shows "frozen_inv c keys s'" "readable (ff_disk s') \<longleftrightarrow> readable (ff_disk s)"
    "j \<in> keys \<Longrightarrow> frozen_holds c s' j = (if r = Inr () \<and> j = k then Some e else frozen_holds c s j)"
proof -
  note files = frozen_put_files [OF assms(4)]
  have path: "frozen_path c s' = frozen_path c s" by (simp add: fun_eq_iff frozen_path_def files(1))
  show "frozen_inv c keys s'"
    using assms(1-3) frozen_path_inject [OF assms(1)]
    by (auto simp: frozen_inv_def path files(2) frozen_codec_ok_def)
  show "readable (ff_disk s') \<longleftrightarrow> readable (ff_disk s)" by (simp add: readable_def files(3))
  show "j \<in> keys \<Longrightarrow> frozen_holds c s' j = (if r = Inr () \<and> j = k then Some e else frozen_holds c s j)"
    using assms(1-3) frozen_path_inject [OF assms(1)]
    by (auto simp: frozen_holds_def path files(2) frozen_codec_ok_def)
qed

lemma frozen_remove_holds:
  assumes "frozen_codec_ok c keys" "frozen_inv c keys s" "k \<in> keys" "frozen_remove c s k = (r, s')"
  shows "frozen_inv c keys s'" "readable (ff_disk s') \<longleftrightarrow> readable (ff_disk s)"
    "j \<in> keys \<Longrightarrow> frozen_holds c s' j = (if is_ok r \<and> j = k then None else frozen_holds c s j)"
    "r = Inr b \<Longrightarrow> b \<longleftrightarrow> frozen_holds c s k \<noteq> None"
proof -
  note files = frozen_remove_files [OF assms(4)]
  have path: "frozen_path c s' = frozen_path c s" by (simp add: fun_eq_iff frozen_path_def files(1))
  show "frozen_inv c keys s'"
    using assms(2) by (auto simp: frozen_inv_def path files(2))
  show "readable (ff_disk s') \<longleftrightarrow> readable (ff_disk s)" by (simp add: readable_def files(3))
  show "j \<in> keys \<Longrightarrow> frozen_holds c s' j = (if is_ok r \<and> j = k then None else frozen_holds c s j)"
    using assms(3) frozen_path_inject [OF assms(1)] by (simp add: frozen_holds_def path files(2))
  show "r = Inr b \<Longrightarrow> b \<longleftrightarrow> frozen_holds c s k \<noteq> None"
    using assms(2,3) files(4) by (cases "hm_get (dk_files (ff_disk s)) (frozen_path c s k)")
      (auto simp: frozen_holds_def frozen_inv_def)
qed

lemma frozen_tier_store:
  assumes "frozen_codec_ok c keys"
  shows "tier_store (frozen_ops c) (frozen_inv c keys) (frozen_holds c) keys"
proof (unfold_locales, goal_cases)
  case (1 s k r)
  then show ?case using frozen_get_holds(1) [of c keys s k r] by (simp add: frozen_ops_def)
next
  case (2 s k e u s')
  then show ?case using frozen_put_holds [OF assms, of s k e "Inr u" s'] by (simp add: frozen_ops_def)
next
  case (3 s k e x s')
  then show ?case using frozen_put_holds [OF assms, of s k e "Inl x" s'] by (simp add: frozen_ops_def)
next
  case (4 s k b s')
  then show ?case using frozen_remove_holds [OF assms, of s k "Inr b" s'] by (simp add: frozen_ops_def)
next
  case (5 s k x s')
  then show ?case using frozen_remove_holds [OF assms, of s k "Inl x" s'] by (simp add: frozen_ops_def)
qed

lemma frozen_retaining_store:
  assumes "frozen_codec_ok c keys"
  shows "retaining_store (frozen_ops c) (\<lambda>s. frozen_inv c keys s \<and> readable (ff_disk s)) (frozen_holds c) keys"
proof (unfold_locales, goal_cases)
  case (1 s k r)
  then show ?case using frozen_get_holds(1) [of c keys s k r] by (simp add: frozen_ops_def)
next
  case (2 s k e u s')
  then show ?case using frozen_put_holds [OF assms, of s k e "Inr u" s'] by (simp add: frozen_ops_def)
next
  case (3 s k e x s')
  then show ?case using frozen_put_holds [OF assms, of s k e "Inl x" s'] by (simp add: frozen_ops_def)
next
  case (4 s k b s')
  then show ?case using frozen_remove_holds [OF assms, of s k "Inr b" s'] by (simp add: frozen_ops_def)
next
  case (5 s k x s')
  then show ?case using frozen_remove_holds [OF assms, of s k "Inl x" s'] by (simp add: frozen_ops_def)
next
  case (6 s k e u s')
  then show ?case using frozen_put_holds [OF assms, of s k e "Inr u" s'] by (simp add: frozen_ops_def)
next
  case (7 s k)
  then show ?case using frozen_get_holds(2) [of c keys s k] by (simp add: frozen_ops_def)
qed

text \<open>
  C14. The Frozen store in files is a map from keys to entries, whatever write, sync or rename
  fails in between: a put or a removal either happens or leaves every entry as it was, and a
  get that returns gives the entry.
\<close>

theorem frozen_refines_map:
  assumes "frozen_codec_ok c keys" "frozen_inv c keys s" "k \<in> keys"
  shows "(case frozen_put c s k e of (r, s') \<Rightarrow>
      frozen_inv c keys s' \<and>
      frozen_holds c s' |` keys = (if r = Inr () then (frozen_holds c s |` keys)(k \<mapsto> e) else frozen_holds c s |` keys)) \<and>
    (case frozen_remove c s k of (r, s') \<Rightarrow>
      frozen_inv c keys s' \<and>
      frozen_holds c s' |` keys = (if is_ok r then (frozen_holds c s |` keys)(k := None) else frozen_holds c s |` keys) \<and>
      r \<in> {Inr (frozen_holds c s k \<noteq> None), Inl (FrozenError ''borrar'')}) \<and>
    frozen_get c s k \<in> {Inr (frozen_holds c s k), Inl (FrozenError ''lectura'')}"
proof -
  obtain r s' where put: "frozen_put c s k e = (r, s')" by fastforce
  obtain q t where rem: "frozen_remove c s k = (q, t)" by fastforce
  note put' = frozen_put_holds [OF assms put] and rem' = frozen_remove_holds [OF assms rem]
  have "frozen_holds c s' |` keys = (if r = Inr () then (frozen_holds c s |` keys)(k \<mapsto> e) else frozen_holds c s |` keys)"
    using assms(3) put'(3) by (auto simp: fun_eq_iff restrict_map_def)
  moreover have "frozen_holds c t |` keys = (if is_ok q then (frozen_holds c s |` keys)(k := None) else frozen_holds c s |` keys)"
    using assms(3) rem'(3) by (auto simp: fun_eq_iff restrict_map_def)
  moreover have "q \<in> {Inr (frozen_holds c s k \<noteq> None), Inl (FrozenError ''borrar'')}"
    using rem rem'(4) by (cases q) (auto simp: frozen_remove_def Let_def split: if_splits prod.splits bool.splits)
  moreover have "frozen_get c s k \<in> {Inr (frozen_holds c s k), Inl (FrozenError ''lectura'')}"
    using frozen_get_holds(1) [OF assms(2,3)] assms(2,3)
    by (auto simp: frozen_get_def frozen_inv_def frozen_holds_def io_exists_def io_read_def Let_def
        split: option.splits if_splits)
  ultimately show ?thesis using put'(1) rem'(1) by (simp add: put rem)
qed

instance json :: countable
  by countable_datatype

definition example_codec_of :: frozen_codec where
  "example_codec_of =
     \<lparr> fc_sha256 = (\<lambda>k. k), fc_encode = (\<lambda>k e. show_nat (to_nat (k, te_class e, te_value e))),
       fc_decode = (\<lambda>s. Some (case from_nat (digits_value s) of (k, c, v) \<Rightarrow> (k, \<lparr> te_class = c, te_value = v \<rparr>))),
       fc_pid = ''7'' \<rparr>"

definition example_frozen :: file_frozen_store where
  "example_frozen = \<lparr> ff_root = ''frozen'', ff_objects = 0,
     ff_disk = \<lparr> dk_files = [], dk_unreadable = (\<lambda>_. False),
       dk_faults = (\<lambda>n. if n = 4 then Some 3 else None), dk_calls = 0 \<rparr> \<rparr>"

lemma example_codec_ok: "frozen_codec_ok example_codec_of UNIV"
  by (simp add: frozen_codec_ok_def example_codec_of_def show_nat_props)

text \<open>The second put fails while it writes; the first value stays.\<close>

theorem frozen_refines_map_witness:
  "\<exists>s s'. frozen_put example_codec_of example_frozen ''k'' \<lparr> te_class = ''c'', te_value = JNull \<rparr> = (Inr (), s) \<and>
     frozen_put example_codec_of s ''k'' \<lparr> te_class = ''c'', te_value = JBool True \<rparr> = (Inl (FrozenError ''escritura''), s') \<and>
     frozen_holds example_codec_of s' ''k'' = Some \<lparr> te_class = ''c'', te_value = JNull \<rparr>"
proof -
  let ?e = "\<lparr> te_class = ''c'', te_value = JNull \<rparr>" and ?e' = "\<lparr> te_class = ''c'', te_value = JBool True \<rparr>"
  have inv: "frozen_inv example_codec_of UNIV example_frozen"
    by (simp add: frozen_inv_def example_frozen_def)
  obtain r s where put: "frozen_put example_codec_of example_frozen ''k'' ?e = (r, s)" by fastforce
  have r: "r = Inr ()" "dk_calls (ff_disk s) = 4" "dk_faults (ff_disk s) 4 = Some 3"
    using put by (auto simp: frozen_put_def example_frozen_def io_write_def io_plain_def io_rename_def io_call_def Let_def)
  note first = frozen_refines_map [OF example_codec_ok inv, of "''k''" ?e, unfolded put]
  then have inv': "frozen_inv example_codec_of UNIV s"
    and all: "frozen_holds example_codec_of s |` UNIV = (frozen_holds example_codec_of example_frozen |` UNIV)(''k'' \<mapsto> ?e)"
    using r(1) by simp_all
  from fun_cong [OF all, of "''k''"] have held: "frozen_holds example_codec_of s ''k'' = Some ?e"
    by (simp add: restrict_map_def)
  obtain q s' where put': "frozen_put example_codec_of s ''k'' ?e' = (q, s')" by fastforce
  have q: "q = Inl (FrozenError ''escritura'')"
    using put' r(2,3) by (auto simp: frozen_put_def io_write_def io_call_def Let_def eval_nat_numeral split: prod.splits)
  have "frozen_holds example_codec_of s' |` UNIV = frozen_holds example_codec_of s |` UNIV"
    using frozen_refines_map [OF example_codec_ok inv', of "''k''" ?e', unfolded put'] q by simp
  from fun_cong [OF this, of "''k''"] held have "frozen_holds example_codec_of s' ''k'' = Some ?e"
    by (simp add: restrict_map_def)
  with put r(1) put' q show ?thesis by blast
qed

end
