(* ===== verification/Jme_Deferred.thy ===== *)
theory Jme_Deferred
  imports Jme_Stores
begin

text \<open>
  Persistence of the domain memory: the sinks (\<open>crates/jaiba-memory/src/sink.rs\<close>), the queue
  of deferred writes (\<open>deferred.rs\<close>) and the rebuild hook (\<open>rebuild.rs\<close>). A \<open>dyn ImmediateSink\<close>
  is its operation over a type of states; what a flush relies on is the locale
  \<open>persist_sink\<close>. The text of a JSON line is a parameter.
\<close>

section \<open>Sinks\<close>

record persist_record =
  pr_key :: string
  pr_class :: string
  pr_value :: json
  pr_policy :: policy
  pr_priority :: priority

type_synonym 'k sink = "'k \<Rightarrow> persist_record \<Rightarrow> (memory_error, unit) result \<times> 'k"

record recording_sink =
  sk_records :: "persist_record list"
  sk_fail_next :: bool

definition recording_persist :: "recording_sink sink" where
  "recording_persist s r =
     (if sk_fail_next s then (Inl (Persistence ''recording sink forced failure''), s\<lparr>sk_fail_next := False\<rparr>)
      else (Inr (), s\<lparr>sk_records := sk_records s @ [r]\<rparr>))"

record jsonl_sink =
  jl_path :: path
  jl_disk :: disk

definition newline :: char where "newline = CHR 0x0A"

definition jsonl_persist :: "(persist_record \<Rightarrow> string) \<Rightarrow> jsonl_sink sink" where
  "jsonl_persist line s r =
     (case io_plain (jl_disk s) of
        (False, d) \<Rightarrow> (Inl (Persistence ''crear directorio''), s\<lparr>jl_disk := d\<rparr>)
      | (True, d) \<Rightarrow>
          (case io_append d (jl_path s) [] of
             (False, d) \<Rightarrow> (Inl (Persistence ''abrir''), s\<lparr>jl_disk := d\<rparr>)
           | (True, d) \<Rightarrow>
               (case io_append d (jl_path s) (line r @ [newline]) of
                  (False, d) \<Rightarrow> (Inl (Persistence ''escribir''), s\<lparr>jl_disk := d\<rparr>)
                | (True, d) \<Rightarrow>
                    (case io_plain d of
                       (False, d) \<Rightarrow> (Inl (Persistence ''fsync''), s\<lparr>jl_disk := d\<rparr>)
                     | (True, d) \<Rightarrow> (Inr (), s\<lparr>jl_disk := d\<rparr>)))))"

text \<open>
  What the manager relies on: a write that returns is the last of the log, one that fails may
  be there or not.
\<close>

locale persist_sink =
  fixes persist :: "'k sink"
    and log_is :: "'k \<Rightarrow> persist_record list \<Rightarrow> bool"
  assumes persist_ok: "log_is s l \<Longrightarrow> persist s r = (Inr u, s') \<Longrightarrow> log_is s' (l @ [r])"
    and persist_error: "log_is s l \<Longrightarrow> persist s r = (Inl e, s') \<Longrightarrow> log_is s' l \<or> log_is s' (l @ [r])"

text \<open>The loop of a flush: the number written, and the failure with the records left.\<close>

fun persist_batch :: "'k sink \<Rightarrow> 'k \<Rightarrow> persist_record list \<Rightarrow> nat \<times> (memory_error \<times> persist_record list) option \<times> 'k" where
  "persist_batch persist s [] = (0, None, s)"
| "persist_batch persist s (r # rs) =
     (case persist s r of
        (Inl e, s) \<Rightarrow> (0, Some (e, r # rs), s)
      | (Inr _, s) \<Rightarrow> (case persist_batch persist s rs of (n, f, s) \<Rightarrow> (Suc n, f, s)))"

context persist_sink
begin

lemma persist_batch_log:
  "log_is s l \<Longrightarrow> persist_batch persist s rs = (n, f, s') \<Longrightarrow>
     n \<le> length rs \<and>
     (case f of
        None \<Rightarrow> n = length rs \<and> log_is s' (l @ rs)
      | Some (e, rest) \<Rightarrow> rest = drop n rs \<and> rest \<noteq> [] \<and>
          (log_is s' (l @ take n rs) \<or> log_is s' (l @ take (Suc n) rs)))"
proof (induction rs arbitrary: s l n)
  case Nil
  then show ?case by simp
next
  case (Cons r rs)
  show ?case
  proof (cases "persist s r")
    case (Pair q s1)
    show ?thesis
    proof (cases q)
      case (Inl e)
      with Pair Cons.prems persist_error [of s l r e s1] show ?thesis by auto
    next
      case (Inr u)
      with Pair Cons.prems(1) have "log_is s1 (l @ [r])" using persist_ok by blast
      moreover obtain m f' s2 where rest: "persist_batch persist s1 rs = (m, f', s2)" by (rule prod_cases3)
      moreover from rest Cons.prems(2) Pair Inr have "n = Suc m" "f' = f" "s2 = s'" by simp_all
      ultimately show ?thesis using Cons.IH [of s1 "l @ [r]" m] by (auto split: option.splits)
    qed
  qed
qed

end

interpretation recording_sink: persist_sink recording_persist "\<lambda>s l. sk_records s = l"
  by unfold_locales (auto simp: recording_persist_def split: if_splits)

text \<open>
  The sink in a file keeps to it as long as a call that fails writes nothing: the file is the
  lines of the log.
\<close>

definition whole_writes :: "disk \<Rightarrow> bool" where
  "whole_writes d \<longleftrightarrow> (\<forall>n m. dk_faults d n \<noteq> Some (Suc m))"

definition file_content :: "disk \<Rightarrow> path \<Rightarrow> string" where
  "file_content d p = (case hm_get (dk_files d) p of None \<Rightarrow> [] | Some b \<Rightarrow> b)"

definition jsonl_log :: "(persist_record \<Rightarrow> string) \<Rightarrow> jsonl_sink \<Rightarrow> persist_record list \<Rightarrow> bool" where
  "jsonl_log line s l \<longleftrightarrow>
     whole_writes (jl_disk s) \<and>
     file_content (jl_disk s) (jl_path s) = concat (map (\<lambda>r. line r @ [newline]) l)"

lemma whole_writes_update [simp]:
  "whole_writes (d\<lparr>dk_calls := n\<rparr>) = whole_writes d" "whole_writes (d\<lparr>dk_files := fs\<rparr>) = whole_writes d"
  by (simp_all add: whole_writes_def)

lemma io_append_whole:
  "whole_writes d \<Longrightarrow> io_append d p bytes =
     (let d' = d\<lparr>dk_calls := dk_calls d + 1\<rparr>
      in if dk_faults d (dk_calls d) = None
         then (True, d'\<lparr>dk_files := hm_insert p (file_content d p @ bytes) (dk_files d)\<rparr>)
         else (False, d'))"
  by (auto simp: io_append_def io_call_def file_content_def whole_writes_def Let_def split: option.splits nat.splits)

lemma io_plain_eq:
  "io_plain d =
     (let d' = d\<lparr>dk_calls := dk_calls d + 1\<rparr> in if dk_faults d (dk_calls d) = None then (True, d') else (False, d'))"
  by (simp add: io_plain_def io_call_def Let_def)

lemma file_content_insert [simp]: "file_content (d\<lparr>dk_files := hm_insert p b fs\<rparr>) p = b"
  "file_content (d\<lparr>dk_calls := n\<rparr>) p = file_content d p"
  by (simp_all add: file_content_def)

lemma jsonl_persist_content:
  assumes "whole_writes (jl_disk s)" "jsonl_persist line s r = (q, s')"
  shows "whole_writes (jl_disk s') \<and> jl_path s' = jl_path s \<and>
    (if q = Inr () then file_content (jl_disk s') (jl_path s) = file_content (jl_disk s) (jl_path s) @ line r @ [newline]
     else file_content (jl_disk s') (jl_path s)
       \<in> {file_content (jl_disk s) (jl_path s), file_content (jl_disk s) (jl_path s) @ line r @ [newline]})"
  using assms
  by (auto simp: jsonl_persist_def io_plain_eq io_append_whole Let_def split: if_splits)

interpretation jsonl: persist_sink "jsonl_persist line" "jsonl_log line" for line
proof
  fix s l r u s' assume "jsonl_log line s l" "jsonl_persist line s r = (Inr u, s')"
  with jsonl_persist_content [of s line r "Inr u" s'] show "jsonl_log line s' (l @ [r])"
    by (auto simp: jsonl_log_def)
next
  fix s l r e s' assume "jsonl_log line s l" "jsonl_persist line s r = (Inl e, s')"
  with jsonl_persist_content [of s line r "Inl e" s'] show "jsonl_log line s' l \<or> jsonl_log line s' (l @ [r])"
    by (auto simp: jsonl_log_def)
qed

section \<open>The deferred queue\<close>

record deferred_item =
  di_record :: persist_record
  di_enqueued_at :: nat
  di_flush_after :: nat

record deferred_queue =
  dq_items :: "(string \<times> deferred_item) list"
  dq_max_pending :: nat
  dq_flushes :: nat
  dq_enqueued :: nat

definition deferred_new :: "nat \<Rightarrow> deferred_queue" where
  "deferred_new max_pending = \<lparr> dq_items = [], dq_max_pending = max max_pending 1, dq_flushes = 0, dq_enqueued = 0 \<rparr>"

definition deferred_enqueue :: "persist_record \<Rightarrow> nat \<Rightarrow> nat \<Rightarrow> deferred_queue \<Rightarrow> bool \<times> deferred_queue" where
  "deferred_enqueue r flush_after now q =
     (let items = bt_insert (pr_key r) \<lparr> di_record = r, di_enqueued_at = now, di_flush_after = flush_after \<rparr> (dq_items q)
      in (dq_max_pending q \<le> length items, q\<lparr>dq_items := items, dq_enqueued := dq_enqueued q + 1\<rparr>))"

definition drain_all :: "deferred_queue \<Rightarrow> persist_record list \<times> deferred_queue" where
  "drain_all q =
     (if dq_items q = [] then ([], q)
      else (map (di_record \<circ> snd) (dq_items q), q\<lparr>dq_items := [], dq_flushes := dq_flushes q + 1\<rparr>))"

text \<open>\<open>duration_since\<close> is zero for an instant in the future.\<close>

definition due :: "nat \<Rightarrow> deferred_item \<Rightarrow> bool" where
  "due now i \<longleftrightarrow> di_flush_after i * nanos \<le> now - di_enqueued_at i"

fun take_items :: "string list \<Rightarrow> (string \<times> deferred_item) list \<Rightarrow> persist_record list \<times> (string \<times> deferred_item) list" where
  "take_items [] items = ([], items)"
| "take_items (k # ks) items =
     (case map_of items k of
        None \<Rightarrow> take_items ks items
      | Some i \<Rightarrow> (case take_items ks (hm_remove k items) of (out, items) \<Rightarrow> (di_record i # out, items)))"

definition take_ready :: "nat \<Rightarrow> bool \<Rightarrow> deferred_queue \<Rightarrow> persist_record list \<times> deferred_queue" where
  "take_ready now force q =
     (if force then drain_all q
      else case take_items (map fst (filter (\<lambda>x. due now (snd x)) (dq_items q))) (dq_items q) of
        (out, items) \<Rightarrow>
          (out, q\<lparr>dq_items := items, dq_flushes := dq_flushes q + (if out = [] then 0 else 1)\<rparr>))"

definition requeue_failed :: "persist_record list \<Rightarrow> nat \<Rightarrow> deferred_queue \<Rightarrow> deferred_queue" where
  "requeue_failed rs now q =
     q\<lparr>dq_items :=
        fold (\<lambda>r. bt_insert (pr_key r) \<lparr> di_record = r, di_enqueued_at = now, di_flush_after = 0 \<rparr>) rs (dq_items q)\<rparr>"

section \<open>The rebuild hook\<close>

type_synonym 'r rebuild_hook = "'r \<Rightarrow> string \<Rightarrow> string \<Rightarrow> string \<Rightarrow> (memory_error, json option) result \<times> 'r"

record map_rebuild_hook =
  rh_values :: "json hmap"
  rh_calls :: "(string \<times> string \<times> string) list"

definition map_rebuild :: "map_rebuild_hook rebuild_hook" where
  "map_rebuild h class_name key rebuild_ref =
     (Inr (hm_get (rh_values h) key), h\<lparr>rh_calls := rh_calls h @ [(class_name, key, rebuild_ref)]\<rparr>)"

section \<open>What a queue holds\<close>

text \<open>Items are filed under the key of their record, each key once, in the order of the keys.\<close>

definition queue_wf :: "deferred_queue \<Rightarrow> bool" where
  "queue_wf q \<longleftrightarrow> bt_wf (dq_items q) \<and> (\<forall>(k, i) \<in> set (dq_items q). pr_key (di_record i) = k)"

text \<open>The last of the records of a key.\<close>

definition last_of :: "persist_record list \<Rightarrow> string \<Rightarrow> persist_record option" where
  "last_of l k = find (\<lambda>r. pr_key r = k) (rev l)"

text \<open>The write of a key that a restart after a flush would see: the one queued, else the last in the log.\<close>

definition durable :: "deferred_queue \<Rightarrow> persist_record list \<Rightarrow> string \<Rightarrow> persist_record option" where
  "durable q l k =
     (case map_of (dq_items q) k of Some i \<Rightarrow> Some (di_record i) | None \<Rightarrow> last_of l k)"

abbreviation find_key :: "string \<Rightarrow> persist_record list \<Rightarrow> persist_record option" where
  "find_key k \<equiv> find (\<lambda>r. pr_key r = k)"

abbreviation records_of :: "(string \<times> deferred_item) list \<Rightarrow> persist_record list" where
  "records_of items \<equiv> map (di_record \<circ> snd) items"

lemma find_key_None: "find_key k rs = None \<longleftrightarrow> k \<notin> pr_key ` set rs"
  by (auto simp: find_None_iff)

lemma find_key_SomeD: "find_key k rs = Some r \<Longrightarrow> r \<in> set rs \<and> pr_key r = k"
  by (auto simp: find_Some_iff)

lemma find_key_Some:
  "distinct (map pr_key rs) \<Longrightarrow> find_key k rs = Some r \<longleftrightarrow> r \<in> set rs \<and> pr_key r = k"
  by (induction rs) (auto simp: image_iff)

lemma find_key_rev:
  assumes "distinct (map pr_key rs)" shows "find_key k (rev rs) = find_key k rs"
proof -
  have "find_key k (rev rs) = Some r \<longleftrightarrow> find_key k rs = Some r" for r
    using find_key_Some [of "rev rs" k r] find_key_Some [of rs k r] assms by (simp flip: rev_map)
  then show ?thesis by (metis option.exhaust)
qed

lemma last_of_append:
  "distinct (map pr_key rs) \<Longrightarrow> last_of (l @ rs) k = (case find_key k rs of Some r \<Rightarrow> Some r | None \<Rightarrow> last_of l k)"
  by (simp add: last_of_def find_app find_key_rev split: option.splits)

lemma take_items_eq:
  "hm_wf items \<Longrightarrow> distinct ks \<Longrightarrow> set ks \<subseteq> fst ` set items \<Longrightarrow>
     take_items ks items = (map (\<lambda>k. di_record (the (map_of items k))) ks, filter (\<lambda>x. fst x \<notin> set ks) items)"
proof (induction ks arbitrary: items)
  case Nil
  then show ?case by simp
next
  case (Cons k ks)
  then obtain i where i: "map_of items k = Some i"
    by (metis hm_get_None_iff insert_subset list.simps(15) option.exhaust)
  have sub: "set ks \<subseteq> fst ` set (hm_remove k items)"
    using Cons.prems by (auto simp: hm_remove_filter image_iff) fastforce
  have "map (\<lambda>k'. di_record (the (map_of (hm_remove k items) k'))) ks = map (\<lambda>k'. di_record (the (map_of items k'))) ks"
    using Cons.prems(2) by auto
  moreover have "filter (\<lambda>x. fst x \<notin> set ks) (hm_remove k items) = filter (\<lambda>x. fst x \<notin> set (k # ks)) items"
    by (auto simp: hm_remove_filter split_def intro: filter_cong)
  moreover note Cons.IH [of "hm_remove k items"]
  ultimately show ?case using Cons.prems sub i by simp
qed

lemma take_ready_split:
  assumes "queue_wf q" "take_ready now force q = (batch, q1)"
  defines "P \<equiv> \<lambda>x. force \<or> due now (snd x)"
  shows "batch = records_of (filter P (dq_items q))" "dq_items q1 = filter (\<lambda>x. \<not> P x) (dq_items q)"
    "dq_max_pending q1 = dq_max_pending q"
proof -
  have wf: "hm_wf (dq_items q)" using assms(1) by (simp add: queue_wf_def bt_wf_distinct)
  let ?ks = "map fst (filter (\<lambda>x. due now (snd x)) (dq_items q))"
  have ks: "distinct ?ks" "set ?ks \<subseteq> fst ` set (dq_items q)"
    using wf by (auto simp: hm_wf_def distinct_map_filter)
  have "map (\<lambda>k. di_record (the (map_of (dq_items q) k))) ?ks = records_of (filter (\<lambda>x. due now (snd x)) (dq_items q))"
    using wf by (auto simp: hm_wf_def)
  moreover have "filter (\<lambda>x. fst x \<notin> set ?ks) (dq_items q) = filter (\<lambda>x. \<not> due now (snd x)) (dq_items q)"
    using wf by (intro filter_cong) (auto dest: hm_wf_same_key)
  ultimately have
    "batch = records_of (filter P (dq_items q)) \<and> dq_items q1 = filter (\<lambda>x. \<not> P x) (dq_items q) \<and>
     dq_max_pending q1 = dq_max_pending q"
    using assms(2) take_items_eq [OF wf ks]
    by (auto simp: take_ready_def drain_all_def P_def split: if_splits)
  then show "batch = records_of (filter P (dq_items q))" "dq_items q1 = filter (\<lambda>x. \<not> P x) (dq_items q)"
    "dq_max_pending q1 = dq_max_pending q" by simp_all
qed

lemma requeue_items:
  assumes "bt_wf items" "distinct (map pr_key rs)"
  shows "map_of (fold (\<lambda>r. bt_insert (pr_key r) (f r)) rs items) k =
      (case find_key k rs of Some r \<Rightarrow> Some (f r) | None \<Rightarrow> map_of items k)"
    "bt_wf (fold (\<lambda>r. bt_insert (pr_key r) (f r)) rs items)"
    "fst ` set (fold (\<lambda>r. bt_insert (pr_key r) (f r)) rs items) = pr_key ` set rs \<union> fst ` set items"
  using assms
  by (induction rs arbitrary: items)
    (auto simp: find_key_None find_key_None [THEN iffD2] set_fst_bt_insert split: option.splits dest: find_key_SomeD)

lemma map_of_filter_split:
  assumes "hm_wf items"
  shows "map_of items k = (case map_of (filter (\<lambda>x. \<not> P x) items) k of Some i \<Rightarrow> Some i | None \<Rightarrow> map_of (filter P items) k)"
  using assms by (simp add: hm_get_filter_eq split: option.splits)

lemma find_records_of:
  assumes "\<forall>(k, i) \<in> set items. pr_key (di_record i) = k"
  shows "find_key k (records_of items) = map_option di_record (map_of items k)"
  using assms by (induction items) auto

lemma queue_wf_mem:
  assumes "bt_wf items" "\<And>k i. map_of items k = Some i \<Longrightarrow> pr_key (di_record i) = k"
  shows "\<forall>(k, i) \<in> set items. pr_key (di_record i) = k"
  using assms by (auto simp: bt_wf_distinct hm_get_Some_iff)

lemma queue_wf_get: "queue_wf q \<Longrightarrow> map_of (dq_items q) k = Some i \<Longrightarrow> pr_key (di_record i) = k"
  by (auto simp: queue_wf_def dest!: map_of_SomeD)

lemma queue_wf_enqueue:
  assumes "queue_wf q" "deferred_enqueue r d now q = (full, q')"
  shows "queue_wf q'" "durable q' l = (durable q l)(pr_key r \<mapsto> r)"
    "full \<longleftrightarrow> dq_max_pending q \<le> length (dq_items q')"
proof -
  have wf: "bt_wf (dq_items q)" using assms(1) by (simp add: queue_wf_def)
  have items: "dq_items q' = bt_insert (pr_key r) \<lparr> di_record = r, di_enqueued_at = now, di_flush_after = d \<rparr> (dq_items q)"
    and "full \<longleftrightarrow> dq_max_pending q \<le> length (dq_items q')"
    using assms(2) by (auto simp: deferred_enqueue_def Let_def)
  then show "full \<longleftrightarrow> dq_max_pending q \<le> length (dq_items q')" by simp
  show "durable q' l = (durable q l)(pr_key r \<mapsto> r)"
    using wf by (auto simp: durable_def items fun_eq_iff)
  show "queue_wf q'"
    unfolding queue_wf_def
    using wf assms(1) by (intro conjI queue_wf_mem) (auto simp: items queue_wf_get split: if_splits)
qed

lemma durable_alt:
  "durable q l k =
     (case map_option di_record (map_of (dq_items q) k) of Some r \<Rightarrow> Some r | None \<Rightarrow> last_of l k)"
  by (simp add: durable_def split: option.splits)

text \<open>A flush, whatever it fails at, loses no write: what is written leaves the queue, the rest goes back.\<close>

context persist_sink
begin

lemma flush_durable:
  assumes q: "queue_wf q" and log: "log_is s l"
    and take: "take_ready now force q = (batch, q1)"
    and run: "persist_batch persist s batch = (n, f, s')"
  defines "q' \<equiv> (case f of None \<Rightarrow> q1 | Some (e, rest) \<Rightarrow> requeue_failed rest now q1)"
  shows "queue_wf q' \<and> (\<exists>m. log_is s' (l @ take m batch) \<and> durable q' (l @ take m batch) = durable q l)"
proof -
  let ?P = "\<lambda>x. force \<or> due now (snd x)"
  note split = take_ready_split [OF q take]
  have wf: "hm_wf (dq_items q)" and keyed: "\<forall>(k, i) \<in> set (dq_items q). pr_key (di_record i) = k"
    using q by (simp_all add: queue_wf_def bt_wf_distinct)
  have wf1: "bt_wf (dq_items q1)" using q by (simp add: queue_wf_def split)
  have batch: "find_key k batch = map_option di_record (map_of (filter ?P (dq_items q)) k)" for k
    unfolding split(1) using keyed by (intro find_records_of) auto
  have "map pr_key batch = map fst (filter ?P (dq_items q))"
    using keyed by (auto simp: split(1))
  then have dist: "distinct (map pr_key batch)" using wf by (simp add: hm_wf_def distinct_map_filter)
  have whole: "map_option di_record (map_of (dq_items q) k) =
      (case map_of (dq_items q1) k of Some i \<Rightarrow> Some (di_record i) | None \<Rightarrow> find_key k batch)" for k
    using map_of_filter_split [OF wf, of k ?P] by (simp add: split(2) batch split: option.splits)
  have log_ok: "durable q' (l @ take m batch) k =
        (case map_of (dq_items q') k of Some i \<Rightarrow> Some (di_record i)
         | None \<Rightarrow> (case find_key k (take m batch) of Some r \<Rightarrow> Some r | None \<Rightarrow> last_of l k))" for m k
  proof -
    have "distinct (map pr_key (take m batch))" using dist by (simp flip: take_map)
    then show ?thesis by (simp add: durable_def last_of_append split: option.splits)
  qed
  note runs = persist_batch_log [OF log run]
  show ?thesis
  proof (cases f)
    case None
    with runs have "log_is s' (l @ take n batch)" "take n batch = batch" by simp_all
    moreover have "queue_wf q1"
      unfolding queue_wf_def using keyed by (intro conjI wf1) (auto simp: split(2))
    moreover have "durable q' (l @ take n batch) = durable q l"
    proof
      fix k
      show "durable q' (l @ take n batch) k = durable q l k"
        unfolding durable_alt [of q] whole using log_ok [of n k] calculation(2) None
        by (simp add: q'_def split: option.splits)
    qed
    ultimately show ?thesis using None by (intro conjI exI [where x = n]) (simp_all add: q'_def)
  next
    case (Some p)
    then obtain e rest where f: "f = Some (e, rest)" by (cases p) simp
    with runs obtain m where m: "n \<le> m" "log_is s' (l @ take m batch)" and rest: "rest = drop n batch"
      by (auto intro: that [of n] that [of "Suc n"])
    have dist': "distinct (map pr_key rest)" using dist by (simp add: rest drop_map [symmetric])
    let ?f = "\<lambda>r. \<lparr> di_record = r, di_enqueued_at = now, di_flush_after = 0 \<rparr>"
    have items: "dq_items q' = fold (\<lambda>r. bt_insert (pr_key r) (?f r)) rest (dq_items q1)"
      by (simp add: q'_def f requeue_failed_def)
    note re = requeue_items [OF wf1 dist', where f = ?f, folded items]
    have keyed1: "pr_key (di_record i) = k" if "map_of (dq_items q1) k = Some i" for k i
      using that keyed by (auto simp: split(2) dest!: map_of_SomeD)
    have "pr_key (di_record i) = k" if i: "map_of (dq_items q') k = Some i" for k i
    proof (cases "find_key k rest")
      case None
      with i have "map_of (dq_items q1) k = Some i" by (simp only: re(1) option.case)
      then show ?thesis by (rule keyed1)
    next
      case (Some r)
      with i have "i = ?f r" by (simp only: re(1) option.case option.inject)
      with find_key_SomeD [OF Some] show ?thesis by simp
    qed
    then have "queue_wf q'" unfolding queue_wf_def by (intro conjI queue_wf_mem re(2))
    moreover have "durable q' (l @ take m batch) = durable q l"
    proof
      fix k
      have all: "find_key k batch = (case find_key k (take n batch) of Some r \<Rightarrow> Some r | None \<Rightarrow> find_key k rest)"
        using find_app [of "\<lambda>r. pr_key r = k" "take n batch" "drop n batch"] by (simp add: rest split: option.splits)
      have more: "find_key k batch = (case find_key k (take m batch) of Some r \<Rightarrow> Some r | None \<Rightarrow> find_key k (drop m batch))"
        using find_app [of "\<lambda>r. pr_key r = k" "take m batch" "drop m batch"] by (simp split: option.splits)
      have none: "find_key k rest = None \<Longrightarrow> find_key k (drop m batch) = None"
        using m(1) set_drop_subset_set_drop [of n m batch] by (auto simp: find_None_iff rest)
      have once: "find_key k rest = Some r \<Longrightarrow> find_key k batch = Some r" for r
        using dist dist' by (auto simp: find_key_Some rest dest: in_set_dropD)
      have apart: "find_key k batch = Some r \<Longrightarrow> map_of (dq_items q1) k = None" for r
        using wf by (auto simp: batch split(2) hm_get_filter_eq split: option.splits if_splits)
      show "durable q' (l @ take m batch) k = durable q l k"
        unfolding durable_alt [of q] whole log_ok re(1) using all more none once apart
        by (auto split: option.splits)
    qed
    ultimately show ?thesis using m(2) by blast
  qed
qed

end

end
