(* ===== verification/Jme_Manager.thy ===== *)
theory Jme_Manager
  imports Jme_Deferred
begin

text \<open>
  The memory manager (\<open>crates/jaiba-memory/src/manager.rs\<close>): writes by the policy of their
  class, reads through the levels with promotion to Hot, demotion of what leaves Hot, deferred
  writes and removal. The trait objects are the fields of \<open>backends\<close>; their states are in the
  manager. An operation that can panic is an option, with \<open>None\<close> the panic.
\<close>

section \<open>State\<close>

record ('w, 'c, 'f, 'k, 'r) backends =
  bk_warm :: "'w store_ops"
  bk_cold :: "'c cold_ops"
  bk_frozen :: "'f store_ops"
  bk_persist :: "'k sink"
  bk_rebuild :: "'r rebuild_hook"
  bk_to_vec :: "json \<Rightarrow> string"

record ('w, 'c, 'f, 'k, 'r) manager =
  mm_policy :: memory_policy
  mm_hot :: hot_store
  mm_warm :: 'w
  mm_cold :: 'c
  mm_frozen :: 'f
  mm_persist :: "'k option"
  mm_rebuild :: "'r option"
  mm_deferred :: deferred_queue
  mm_immediate_failures :: nat
  mm_immediate_writes :: nat
  mm_deferred_writes :: nat
  mm_deferred_failures :: nat
  mm_warm_puts :: nat
  mm_warm_hits :: nat
  mm_warm_misses :: nat
  mm_cold_puts :: nat
  mm_cold_hits :: nat
  mm_cold_misses :: nat
  mm_cold_read_failures :: nat
  mm_frozen_puts :: nat
  mm_frozen_hits :: nat
  mm_frozen_misses :: nat
  mm_promotions :: nat
  mm_demotions :: nat
  mm_demotion_failures :: nat
  mm_freezes :: nat
  mm_rebuilds :: nat
  mm_rebuild_misses :: nat
  mm_rebuild_failures :: nat

definition manager_build ::
  "memory_policy \<Rightarrow> 'k option \<Rightarrow> 'w \<Rightarrow> 'c \<Rightarrow> 'r option \<Rightarrow> 'f \<Rightarrow> ('w, 'c, 'f, 'k, 'r) manager" where
  "manager_build policy sink warm cold hook frozen =
     \<lparr> mm_policy = policy, mm_hot = with_max_bytes (mp_max_hot_bytes policy) (hot_new (mp_max_entries policy)),
       mm_warm = warm, mm_cold = cold, mm_frozen = frozen, mm_persist = sink, mm_rebuild = hook,
       mm_deferred = deferred_new (mp_max_pending_deferred policy), mm_immediate_failures = 0,
       mm_immediate_writes = 0, mm_deferred_writes = 0, mm_deferred_failures = 0, mm_warm_puts = 0, mm_warm_hits = 0,
       mm_warm_misses = 0, mm_cold_puts = 0, mm_cold_hits = 0, mm_cold_misses = 0, mm_cold_read_failures = 0,
       mm_frozen_puts = 0, mm_frozen_hits = 0, mm_frozen_misses = 0, mm_promotions = 0, mm_demotions = 0,
       mm_demotion_failures = 0, mm_freezes = 0, mm_rebuilds = 0, mm_rebuild_misses = 0, mm_rebuild_failures = 0 \<rparr>"

text \<open>The constructors without a sink refuse a policy that needs one.\<close>

definition manager_with_stores ::
  "memory_policy \<Rightarrow> 'w \<Rightarrow> 'c \<Rightarrow> 'r option \<Rightarrow> 'f \<Rightarrow> (memory_error, ('w, 'c, 'f, 'k, 'r) manager) result" where
  "manager_with_stores policy warm cold hook frozen =
     (if policy_requires_sink policy then Inl MissingImmediateSink
      else Inr (manager_build policy None warm cold hook frozen))"

section \<open>Deferred writes\<close>

definition flush_deferred_at ::
  "('w, 'c, 'f, 'k, 'r) backends \<Rightarrow> nat \<Rightarrow> bool \<Rightarrow> ('w, 'c, 'f, 'k, 'r) manager
    \<Rightarrow> (memory_error, nat) result \<times> ('w, 'c, 'f, 'k, 'r) manager" where
  "flush_deferred_at B now force m =
     (case take_ready now force (mm_deferred m) of
        (batch, q) \<Rightarrow>
          (let m = m\<lparr>mm_deferred := q\<rparr>
           in if batch = [] then (Inr 0, m)
              else case mm_persist m of
                None \<Rightarrow> (Inl MissingImmediateSink, m)
              | Some sink \<Rightarrow>
                  (case persist_batch (bk_persist B) sink batch of
                     (written, None, sink) \<Rightarrow>
                       (Inr written, m\<lparr>mm_persist := Some sink, mm_deferred_writes := mm_deferred_writes m + written\<rparr>)
                   | (written, Some (e, rest), sink) \<Rightarrow>
                       (Inl e,
                        m\<lparr>mm_persist := Some sink, mm_deferred_writes := mm_deferred_writes m + written,
                          mm_deferred_failures := mm_deferred_failures m + 1,
                          mm_deferred := requeue_failed rest now q\<rparr>))))"

definition persist_now ::
  "('w, 'c, 'f, 'k, 'r) backends \<Rightarrow> persist_record \<Rightarrow> ('w, 'c, 'f, 'k, 'r) manager
    \<Rightarrow> (memory_error, unit) result \<times> ('w, 'c, 'f, 'k, 'r) manager" where
  "persist_now B r m =
     (case mm_persist m of
        None \<Rightarrow> (Inl MissingImmediateSink, m)
      | Some sink \<Rightarrow>
          (case bk_persist B sink r of
             (Inl e, sink) \<Rightarrow> (Inl e, m\<lparr>mm_persist := Some sink, mm_immediate_failures := mm_immediate_failures m + 1\<rparr>)
           | (Inr _, sink) \<Rightarrow> (Inr (), m\<lparr>mm_persist := Some sink, mm_immediate_writes := mm_immediate_writes m + 1\<rparr>)))"

section \<open>Demotion\<close>

definition should_mirror_warm :: "class_policy \<Rightarrow> bool" where
  "should_mirror_warm c \<longleftrightarrow> cp_policy c = Cache \<and> cp_temperature c = Warm"

definition should_archive_frozen :: "class_policy \<Rightarrow> bool" where
  "should_archive_frozen c \<longleftrightarrow> cp_temperature c = Frozen"

definition should_archive_cold :: "class_policy \<Rightarrow> bool" where
  "should_archive_cold c \<longleftrightarrow> cp_policy c = Cache \<and> cp_temperature c = Cold"

definition demote_or_drop ::
  "('w, 'c, 'f, 'k, 'r) backends \<Rightarrow> string \<Rightarrow> hot_entry \<Rightarrow> ('w, 'c, 'f, 'k, 'r) manager
    \<Rightarrow> (memory_error, unit) result \<times> ('w, 'c, 'f, 'k, 'r) manager" where
  "demote_or_drop B key entry m =
     (case class_named (mm_policy m) (he_class entry) of
        Inl _ \<Rightarrow> (Inr (), m)
      | Inr c \<Rightarrow>
          (let e = \<lparr> te_class = he_class entry, te_value = he_value entry \<rparr>
           in if should_archive_frozen c
              then (case so_put (bk_frozen B) (mm_frozen m) key e of
                  (Inr _, s) \<Rightarrow>
                    (Inr (), m\<lparr>mm_frozen := s, mm_frozen_puts := mm_frozen_puts m + 1, mm_freezes := mm_freezes m + 1,
                       mm_demotions := mm_demotions m + 1\<rparr>)
                | (Inl x, s) \<Rightarrow> (Inl x, m\<lparr>mm_frozen := s, mm_demotion_failures := mm_demotion_failures m + 1\<rparr>))
              else if should_archive_cold c
              then (case so_put (bk_cold B) (mm_cold m) key e of
                  (Inr _, s) \<Rightarrow>
                    (Inr (), m\<lparr>mm_cold := s, mm_cold_puts := mm_cold_puts m + 1, mm_demotions := mm_demotions m + 1\<rparr>)
                | (Inl x, s) \<Rightarrow> (Inl x, m\<lparr>mm_cold := s, mm_demotion_failures := mm_demotion_failures m + 1\<rparr>))
              else if \<not> should_mirror_warm c then (Inr (), m)
              else (case so_put (bk_warm B) (mm_warm m) key e of
                  (Inr _, s) \<Rightarrow>
                    (Inr (), m\<lparr>mm_warm := s, mm_warm_puts := mm_warm_puts m + 1, mm_demotions := mm_demotions m + 1\<rparr>)
                | (Inl x, s) \<Rightarrow> (Inl x, m\<lparr>mm_warm := s, mm_demotion_failures := mm_demotion_failures m + 1\<rparr>))))"

text \<open>The victims of an admission, one after the other, up to the first failure.\<close>

fun demote_victims ::
  "('w, 'c, 'f, 'k, 'r) backends \<Rightarrow> (string \<times> hot_entry) list \<Rightarrow> ('w, 'c, 'f, 'k, 'r) manager
    \<Rightarrow> (memory_error, unit) result \<times> ('w, 'c, 'f, 'k, 'r) manager" where
  "demote_victims B [] m = (Inr (), m)"
| "demote_victims B ((k, e) # vs) m =
     (case demote_or_drop B k e m of
        (Inl x, m) \<Rightarrow> (Inl x, m)
      | (Inr _, m) \<Rightarrow> demote_victims B vs m)"

text \<open>The entries taken out of Hot: on a failure the rest goes back.\<close>

fun apply_demotions ::
  "('w, 'c, 'f, 'k, 'r) backends \<Rightarrow> (string \<times> hot_entry) list \<Rightarrow> ('w, 'c, 'f, 'k, 'r) manager
    \<Rightarrow> (memory_error, unit) result \<times> ('w, 'c, 'f, 'k, 'r) manager" where
  "apply_demotions B [] m = (Inr (), m)"
| "apply_demotions B ((k, e) # vs) m =
     (case demote_or_drop B k e m of
        (Inl x, m) \<Rightarrow> (Inl x, m\<lparr>mm_hot := fold (\<lambda>(k, e). restore k e) ((k, e) # vs) (mm_hot m)\<rparr>)
      | (Inr _, m) \<Rightarrow> apply_demotions B vs m)"

definition demote_idle_at ::
  "('w, 'c, 'f, 'k, 'r) backends \<Rightarrow> nat \<Rightarrow> nat \<Rightarrow> ('w, 'c, 'f, 'k, 'r) manager
    \<Rightarrow> (memory_error, nat) result \<times> ('w, 'c, 'f, 'k, 'r) manager" where
  "demote_idle_at B now limit m =
     (case reclaim_idle (mm_hot m) now limit of
        (victims, h) \<Rightarrow>
          (case apply_demotions B victims (m\<lparr>mm_hot := h\<rparr>) of
             (Inl x, m) \<Rightarrow> (Inl x, m)
           | (Inr _, m) \<Rightarrow> (Inr (length victims), m)))"

section \<open>Writing\<close>

definition manager_hot_upsert ::
  "('w, 'c, 'f, 'k, 'r) backends \<Rightarrow> string \<Rightarrow> json \<Rightarrow> class_policy \<Rightarrow> nat \<Rightarrow> ('w, 'c, 'f, 'k, 'r) manager
    \<Rightarrow> ((memory_error, unit) result \<times> ('w, 'c, 'f, 'k, 'r) manager) option" where
  "manager_hot_upsert B key v c now m =
     (case prepare_upsert (bk_to_vec B) (mm_hot m) key v c now of
        None \<Rightarrow> None
      | Some (Inl x) \<Rightarrow> Some (Inl x, m)
      | Some (Inr p) \<Rightarrow>
          (case demote_victims B (pu_victims p) m of
             (Inl x, m) \<Rightarrow> Some (Inl x, m)
           | (Inr _, m) \<Rightarrow> Some (Inr (), m\<lparr>mm_hot := snd (commit_upsert p (mm_hot m))\<rparr>)))"

definition warm_put ::
  "('w, 'c, 'f, 'k, 'r) backends \<Rightarrow> string \<Rightarrow> tier_entry \<Rightarrow> ('w, 'c, 'f, 'k, 'r) manager
    \<Rightarrow> (memory_error, unit) result \<times> ('w, 'c, 'f, 'k, 'r) manager" where
  "warm_put B key e m =
     (case so_put (bk_warm B) (mm_warm m) key e of
        (Inl x, s) \<Rightarrow> (Inl x, m\<lparr>mm_warm := s\<rparr>)
      | (Inr _, s) \<Rightarrow> (Inr (), m\<lparr>mm_warm := s, mm_warm_puts := mm_warm_puts m + 1\<rparr>))"

definition archive_put ::
  "('w, 'c, 'f, 'k, 'r) backends \<Rightarrow> string \<Rightarrow> tier_entry \<Rightarrow> ('w, 'c, 'f, 'k, 'r) manager
    \<Rightarrow> (memory_error, unit) result \<times> ('w, 'c, 'f, 'k, 'r) manager" where
  "archive_put B key e m =
     (case so_put (bk_frozen B) (mm_frozen m) key e of
        (Inl x, s) \<Rightarrow> (Inl x, m\<lparr>mm_frozen := s\<rparr>)
      | (Inr _, s) \<Rightarrow> (Inr (), m\<lparr>mm_frozen := s, mm_frozen_puts := mm_frozen_puts m + 1\<rparr>))"

text \<open>An action of the manager that may panic or fail, and what follows it when it does neither.\<close>

type_synonym ('m, 'a) action = "'m \<Rightarrow> ((memory_error, 'a) result \<times> 'm) option"

definition seq :: "('m, 'a) action \<Rightarrow> ('m, 'b) action \<Rightarrow> ('m, 'b) action" where
  "seq f g m =
     (case f m of
        None \<Rightarrow> None
      | Some (Inl x, m) \<Rightarrow> Some (Inl x, m)
      | Some (Inr _, m) \<Rightarrow> g m)"

definition record_for :: "string \<Rightarrow> json \<Rightarrow> class_policy \<Rightarrow> persist_record" where
  "record_for key v c =
     \<lparr> pr_key = key, pr_class = cp_name c, pr_value = v, pr_policy = cp_policy c, pr_priority = cp_priority c \<rparr>"

definition upsert_immediate ::
  "('w, 'c, 'f, 'k, 'r) backends \<Rightarrow> string \<Rightarrow> json \<Rightarrow> class_policy \<Rightarrow> nat \<Rightarrow> (('w, 'c, 'f, 'k, 'r) manager, unit) action" where
  "upsert_immediate B key v c now m =
     (case prepare_upsert (bk_to_vec B) (mm_hot m) key v c now of
        None \<Rightarrow> None
      | Some (Inl x) \<Rightarrow> Some (Inl x, m)
      | Some (Inr p) \<Rightarrow>
          (case demote_victims B (pu_victims p) m of
             (Inl x, m) \<Rightarrow> Some (Inl x, m)
           | (Inr _, m) \<Rightarrow>
               (case persist_now B (record_for key v c) m of
                  (Inl x, m) \<Rightarrow> Some (Inl x, m)
                | (Inr _, m) \<Rightarrow> Some (Inr (), m\<lparr>mm_hot := snd (commit_upsert p (mm_hot m))\<rparr>))))"

definition upsert_deferred ::
  "('w, 'c, 'f, 'k, 'r) backends \<Rightarrow> string \<Rightarrow> json \<Rightarrow> class_policy \<Rightarrow> nat \<Rightarrow> (('w, 'c, 'f, 'k, 'r) manager, nat) action" where
  "upsert_deferred B key v c now =
     seq (manager_hot_upsert B key v c now)
       (\<lambda>m. case cp_flush c of
          None \<Rightarrow> None
        | Some flush_after \<Rightarrow>
            (case deferred_enqueue (record_for key v c) flush_after now (mm_deferred m) of
               (force, q) \<Rightarrow> Some (flush_deferred_at B now force (m\<lparr>mm_deferred := q\<rparr>))))"

definition upsert_cache ::
  "('w, 'c, 'f, 'k, 'r) backends \<Rightarrow> string \<Rightarrow> json \<Rightarrow> class_policy \<Rightarrow> nat \<Rightarrow> (('w, 'c, 'f, 'k, 'r) manager, nat) action" where
  "upsert_cache B key v c now =
     seq (manager_hot_upsert B key v c now)
       (seq (\<lambda>m. if should_mirror_warm c
                 then Some (warm_put B key \<lparr> te_class = cp_name c, te_value = v \<rparr> m) else Some (Inr (), m))
          (\<lambda>m. Some (flush_deferred_at B now False m)))"

definition upsert_volatile ::
  "('w, 'c, 'f, 'k, 'r) backends \<Rightarrow> string \<Rightarrow> json \<Rightarrow> class_policy \<Rightarrow> nat \<Rightarrow> (('w, 'c, 'f, 'k, 'r) manager, nat) action" where
  "upsert_volatile B key v c now =
     seq (manager_hot_upsert B key v c now) (\<lambda>m. Some (flush_deferred_at B now False m))"

definition upsert_by_policy ::
  "('w, 'c, 'f, 'k, 'r) backends \<Rightarrow> string \<Rightarrow> json \<Rightarrow> class_policy \<Rightarrow> nat \<Rightarrow> (('w, 'c, 'f, 'k, 'r) manager, unit) action" where
  "upsert_by_policy B key v c now =
     (case cp_policy c of
        Immediate \<Rightarrow> upsert_immediate B key v c now
      | Persistent \<Rightarrow> upsert_immediate B key v c now
      | Deferred \<Rightarrow> seq (upsert_deferred B key v c now) (\<lambda>m. Some (Inr (), m))
      | Volatile \<Rightarrow> seq (upsert_volatile B key v c now) (\<lambda>m. Some (Inr (), m))
      | Cache \<Rightarrow> seq (upsert_cache B key v c now) (\<lambda>m. Some (Inr (), m)))"

definition upsert_at ::
  "('w, 'c, 'f, 'k, 'r) backends \<Rightarrow> string \<Rightarrow> json \<Rightarrow> string \<Rightarrow> nat \<Rightarrow> (('w, 'c, 'f, 'k, 'r) manager, unit) action" where
  "upsert_at B key v class_name now m =
     (case class_named (mm_policy m) class_name of
        Inl x \<Rightarrow> Some (Inl x, m)
      | Inr c \<Rightarrow>
          seq (upsert_by_policy B key v c now)
            (\<lambda>m. if cp_temperature c = Frozen
                 then Some (archive_put B key \<lparr> te_class = cp_name c, te_value = v \<rparr> m) else Some (Inr (), m))
            m)"

section \<open>Reading\<close>

text \<open>An entry found below Hot goes back to Hot if its class is known and it is admitted.\<close>

definition promote ::
  "('w, 'c, 'f, 'k, 'r) backends \<Rightarrow> string \<Rightarrow> tier_entry \<Rightarrow> nat \<Rightarrow> ('w, 'c, 'f, 'k, 'r) manager
    \<Rightarrow> ('w, 'c, 'f, 'k, 'r) manager option" where
  "promote B key e now m =
     (case class_named (mm_policy m) (te_class e) of
        Inl _ \<Rightarrow> Some m
      | Inr c \<Rightarrow>
          (case manager_hot_upsert B key (te_value e) c now m of
             None \<Rightarrow> None
           | Some (Inl _, m) \<Rightarrow> Some m
           | Some (Inr _, m) \<Rightarrow> Some (m\<lparr>mm_promotions := mm_promotions m + 1\<rparr>)))"

definition promote_from_warm ::
  "('w, 'c, 'f, 'k, 'r) backends \<Rightarrow> string \<Rightarrow> nat \<Rightarrow> ('w, 'c, 'f, 'k, 'r) manager
    \<Rightarrow> (json option \<times> ('w, 'c, 'f, 'k, 'r) manager) option" where
  "promote_from_warm B key now m =
     (case so_get (bk_warm B) (mm_warm m) key of
        Inr (Some e) \<Rightarrow> map_option (Pair (Some (te_value e))) (promote B key e now (m\<lparr>mm_warm_hits := mm_warm_hits m + 1\<rparr>))
      | Inr None \<Rightarrow> Some (None, m\<lparr>mm_warm_misses := mm_warm_misses m + 1\<rparr>)
      | Inl _ \<Rightarrow> Some (None, m\<lparr>mm_warm_misses := mm_warm_misses m + 1\<rparr>))"

definition promote_from_cold ::
  "('w, 'c, 'f, 'k, 'r) backends \<Rightarrow> string \<Rightarrow> nat \<Rightarrow> ('w, 'c, 'f, 'k, 'r) manager
    \<Rightarrow> (json option \<times> ('w, 'c, 'f, 'k, 'r) manager) option" where
  "promote_from_cold B key now m =
     (case so_get (bk_cold B) (mm_cold m) key of
        Inr (Some e) \<Rightarrow> map_option (Pair (Some (te_value e))) (promote B key e now (m\<lparr>mm_cold_hits := mm_cold_hits m + 1\<rparr>))
      | Inr None \<Rightarrow> Some (None, m\<lparr>mm_cold_misses := mm_cold_misses m + 1\<rparr>)
      | Inl _ \<Rightarrow> Some (None, m\<lparr>mm_cold_read_failures := mm_cold_read_failures m + 1\<rparr>))"

definition promote_from_frozen ::
  "('w, 'c, 'f, 'k, 'r) backends \<Rightarrow> string \<Rightarrow> nat \<Rightarrow> ('w, 'c, 'f, 'k, 'r) manager
    \<Rightarrow> (json option \<times> ('w, 'c, 'f, 'k, 'r) manager) option" where
  "promote_from_frozen B key now m =
     (case so_get (bk_frozen B) (mm_frozen m) key of
        Inr (Some e) \<Rightarrow> map_option (Pair (Some (te_value e))) (promote B key e now (m\<lparr>mm_frozen_hits := mm_frozen_hits m + 1\<rparr>))
      | Inr None \<Rightarrow> Some (None, m\<lparr>mm_frozen_misses := mm_frozen_misses m + 1\<rparr>)
      | Inl _ \<Rightarrow> Some (None, m\<lparr>mm_frozen_misses := mm_frozen_misses m + 1\<rparr>))"

text \<open>\<open>split_once(':')\<close>.\<close>

definition class_of_key :: "string \<Rightarrow> string option" where
  "class_of_key key = (if CHR '':'' \<in> set key then Some (takeWhile (\<lambda>c. c \<noteq> CHR '':'') key) else None)"

definition rebuild_from_hook ::
  "('w, 'c, 'f, 'k, 'r) backends \<Rightarrow> string \<Rightarrow> nat \<Rightarrow> ('w, 'c, 'f, 'k, 'r) manager
    \<Rightarrow> (json option \<times> ('w, 'c, 'f, 'k, 'r) manager) option" where
  "rebuild_from_hook B key now m =
     (case class_of_key key of
        None \<Rightarrow> Some (None, m)
      | Some class_name \<Rightarrow>
          (case class_named (mm_policy m) class_name of
             Inl _ \<Rightarrow> Some (None, m)
           | Inr c \<Rightarrow>
               (case (cp_rebuild c, mm_rebuild m) of
                  (Some rebuild_ref, Some hook) \<Rightarrow>
                    (case bk_rebuild B hook class_name key rebuild_ref of
                       (Inr (Some v), hook) \<Rightarrow>
                         (case upsert_at B key v class_name now
                                 (m\<lparr>mm_rebuild := Some hook, mm_rebuilds := mm_rebuilds m + 1\<rparr>) of
                            None \<Rightarrow> None
                          | Some (_, m) \<Rightarrow> Some (Some v, m))
                     | (Inr None, hook) \<Rightarrow>
                         Some (None, m\<lparr>mm_rebuild := Some hook, mm_rebuild_misses := mm_rebuild_misses m + 1\<rparr>)
                     | (Inl _, hook) \<Rightarrow>
                         Some (None, m\<lparr>mm_rebuild := Some hook, mm_rebuild_failures := mm_rebuild_failures m + 1\<rparr>))
                | _ \<Rightarrow> Some (None, m))))"

text \<open>A level is asked only when the ones before it had nothing.\<close>

definition or_else ::
  "('m \<Rightarrow> (json option \<times> 'm) option) \<Rightarrow> ('m \<Rightarrow> (json option \<times> 'm) option) \<Rightarrow> 'm \<Rightarrow> (json option \<times> 'm) option" where
  "or_else f g m =
     (case f m of
        None \<Rightarrow> None
      | Some (Some v, m) \<Rightarrow> Some (Some v, m)
      | Some (None, m) \<Rightarrow> g m)"

definition get_from_hot ::
  "string \<Rightarrow> nat \<Rightarrow> ('w, 'c, 'f, 'k, 'r) manager \<Rightarrow> (json option \<times> ('w, 'c, 'f, 'k, 'r) manager) option" where
  "get_from_hot key now m = (case hot_get (mm_hot m) key now of (r, h) \<Rightarrow> Some (r, m\<lparr>mm_hot := h\<rparr>))"

definition get_at ::
  "('w, 'c, 'f, 'k, 'r) backends \<Rightarrow> string \<Rightarrow> nat \<Rightarrow> ('w, 'c, 'f, 'k, 'r) manager
    \<Rightarrow> (json option \<times> ('w, 'c, 'f, 'k, 'r) manager) option" where
  "get_at B key now m =
     or_else (get_from_hot key now)
       (or_else (promote_from_warm B key now)
          (or_else (promote_from_cold B key now)
             (or_else (promote_from_frozen B key now) (rebuild_from_hook B key now))))
       (snd (flush_deferred_at B now False m))"

section \<open>Removal, pressure and maintenance\<close>

definition unwrap_or_false :: "(memory_error, bool) result \<Rightarrow> bool" where
  "unwrap_or_false r = (case r of Inl _ \<Rightarrow> False | Inr b \<Rightarrow> b)"

definition manager_remove ::
  "('w, 'c, 'f, 'k, 'r) backends \<Rightarrow> string \<Rightarrow> ('w, 'c, 'f, 'k, 'r) manager \<Rightarrow> bool \<times> ('w, 'c, 'f, 'k, 'r) manager" where
  "manager_remove B key m =
     (case hot_remove (mm_hot m) key of (hot, h) \<Rightarrow>
      case so_remove (bk_warm B) (mm_warm m) key of (warm, w) \<Rightarrow>
      case so_remove (bk_cold B) (mm_cold m) key of (cold, c) \<Rightarrow>
      case so_remove (bk_frozen B) (mm_frozen m) key of (frozen, f) \<Rightarrow>
        (hot \<or> unwrap_or_false warm \<or> unwrap_or_false cold \<or> unwrap_or_false frozen,
         m\<lparr>mm_hot := h, mm_warm := w, mm_cold := c, mm_frozen := f\<rparr>))"

definition keyed :: "string \<Rightarrow> string \<Rightarrow> string" where
  "keyed class_name key = class_name @ '':'' @ key"

definition upsert_keyed ::
  "('w, 'c, 'f, 'k, 'r) backends \<Rightarrow> string \<Rightarrow> string \<Rightarrow> json \<Rightarrow> nat \<Rightarrow> (('w, 'c, 'f, 'k, 'r) manager, unit) action" where
  "upsert_keyed B class_name key v now = upsert_at B (keyed class_name key) v class_name now"

definition get_keyed ::
  "('w, 'c, 'f, 'k, 'r) backends \<Rightarrow> string \<Rightarrow> string \<Rightarrow> nat \<Rightarrow> ('w, 'c, 'f, 'k, 'r) manager
    \<Rightarrow> (json option \<times> ('w, 'c, 'f, 'k, 'r) manager) option" where
  "get_keyed B class_name key now = get_at B (keyed class_name key) now"

definition notify_pressure ::
  "('w, 'c, 'f, 'k, 'r) backends \<Rightarrow> nat \<Rightarrow> ('w, 'c, 'f, 'k, 'r) manager
    \<Rightarrow> (memory_error, bool) result \<times> ('w, 'c, 'f, 'k, 'r) manager" where
  "notify_pressure B now m =
     (case flush_deferred_at B now True m of
        (Inl x, m) \<Rightarrow> (Inl x, m)
      | (Inr _, m) \<Rightarrow>
          (case reclaim_one (mm_hot m) now of
             (None, h) \<Rightarrow> (Inr False, m\<lparr>mm_hot := h\<rparr>)
           | (Some (k, e), h) \<Rightarrow>
               (case demote_or_drop B k e (m\<lparr>mm_hot := h\<rparr>) of
                  (Inl x, m) \<Rightarrow> (Inl x, m\<lparr>mm_hot := restore k e (mm_hot m)\<rparr>)
                | (Inr _, m) \<Rightarrow> (Inr True, m))))"

definition manager_flush ::
  "('w, 'c, 'f, 'k, 'r) backends \<Rightarrow> nat \<Rightarrow> ('w, 'c, 'f, 'k, 'r) manager
    \<Rightarrow> (memory_error, nat) result \<times> ('w, 'c, 'f, 'k, 'r) manager" where
  "manager_flush B now m = flush_deferred_at B now True m"

definition manager_poll ::
  "('w, 'c, 'f, 'k, 'r) backends \<Rightarrow> nat \<Rightarrow> ('w, 'c, 'f, 'k, 'r) manager
    \<Rightarrow> (memory_error, nat) result \<times> ('w, 'c, 'f, 'k, 'r) manager" where
  "manager_poll B now m =
     (case flush_deferred_at B now False m of
        (Inl x, m) \<Rightarrow> (Inl x, m)
      | (Inr written, m) \<Rightarrow> (Inr written, snd (demote_idle_at B now 64 m)))"

definition manager_drop ::
  "('w, 'c, 'f, 'k, 'r) backends \<Rightarrow> nat \<Rightarrow> ('w, 'c, 'f, 'k, 'r) manager \<Rightarrow> ('w, 'c, 'f, 'k, 'r) manager" where
  "manager_drop B now m = snd (flush_deferred_at B now True m)"

record memory_snapshot =
  ms_hot_objects :: nat
  ms_hot_bytes :: nat
  ms_warm_objects :: nat
  ms_cold_objects :: nat
  ms_frozen_objects :: nat
  ms_warm_backend :: string
  ms_cold_backend :: string
  ms_frozen_backend :: string
  ms_cold_bytes :: nat
  ms_cold_max_disk_bytes :: nat
  ms_cold_quota_rejections :: nat
  ms_cold_salvaged_segments :: nat
  ms_evictions :: nat
  ms_expired_removals :: nat
  ms_max_entries :: nat
  ms_max_hot_bytes :: nat
  ms_persist_queue :: nat
  ms_deferred_flushes :: nat
  ms_deferred_enqueued :: nat

text \<open>The snapshot, without the counters that it copies from the manager.\<close>

definition manager_snapshot :: "('w, 'c, 'f, 'k, 'r) backends \<Rightarrow> ('w, 'c, 'f, 'k, 'r) manager \<Rightarrow> memory_snapshot" where
  "manager_snapshot B m =
     (let x = hot_metrics_of (mm_hot m)
      in \<lparr> ms_hot_objects = hx_objects x, ms_hot_bytes = hx_bytes x, ms_warm_objects = so_len (bk_warm B) (mm_warm m),
           ms_cold_objects = so_len (bk_cold B) (mm_cold m), ms_frozen_objects = so_len (bk_frozen B) (mm_frozen m),
           ms_warm_backend = so_name (bk_warm B), ms_cold_backend = so_name (bk_cold B),
           ms_frozen_backend = so_name (bk_frozen B), ms_cold_bytes = co_bytes_on_disk (bk_cold B) (mm_cold m),
           ms_cold_max_disk_bytes = or_default (co_max_disk_bytes (bk_cold B) (mm_cold m)) 0,
           ms_cold_quota_rejections = co_quota_rejections (bk_cold B) (mm_cold m),
           ms_cold_salvaged_segments = co_salvaged_segments (bk_cold B) (mm_cold m), ms_evictions = hx_evictions x,
           ms_expired_removals = hx_expired_removals x, ms_max_entries = mp_max_entries (mm_policy m),
           ms_max_hot_bytes = mp_max_hot_bytes (mm_policy m), ms_persist_queue = length (dq_items (mm_deferred m)),
           ms_deferred_flushes = dq_flushes (mm_deferred m), ms_deferred_enqueued = dq_enqueued (mm_deferred m) \<rparr>)"

section \<open>What each operation leaves alone\<close>

text \<open>Two managers that agree on all but the levels below Hot, the hook and the counters.\<close>

definition same_core :: "('w, 'c, 'f, 'k, 'r) manager \<Rightarrow> ('w, 'c, 'f, 'k, 'r) manager \<Rightarrow> bool" where
  "same_core m m' \<longleftrightarrow>
     mm_policy m' = mm_policy m \<and> mm_hot m' = mm_hot m \<and> mm_persist m' = mm_persist m \<and>
     mm_deferred m' = mm_deferred m"

lemma same_core_refl [simp]: "same_core m m"
  by (simp add: same_core_def)

lemma same_core_trans: "same_core m m' \<Longrightarrow> same_core m' m'' \<Longrightarrow> same_core m m''"
  by (simp add: same_core_def)

lemma demote_or_drop_core: "demote_or_drop B k e m = (r, m') \<Longrightarrow> same_core m m'"
  by (auto simp: demote_or_drop_def same_core_def Let_def split: sum.splits prod.splits if_splits)

lemma demote_victims_core: "demote_victims B vs m = (r, m') \<Longrightarrow> same_core m m'"
proof (induction B vs m rule: demote_victims.induct)
  case (1 B m)
  then show ?case by simp
next
  case (2 B k e vs m)
  then show ?case by (auto split: prod.splits sum.splits dest: demote_or_drop_core intro: same_core_trans)
qed

lemma warm_put_core: "warm_put B k e m = (r, m') \<Longrightarrow> same_core m m'"
  by (auto simp: warm_put_def same_core_def split: sum.splits prod.splits)

lemma archive_put_core: "archive_put B k e m = (r, m') \<Longrightarrow> same_core m m'"
  by (auto simp: archive_put_def same_core_def split: sum.splits prod.splits)

text \<open>A flush touches the queue, the sink and counters.\<close>

lemma flush_deferred_frame:
  assumes "flush_deferred_at B now force m = (r, m')"
  shows "mm_policy m' = mm_policy m" "mm_hot m' = mm_hot m" "mm_warm m' = mm_warm m" "mm_cold m' = mm_cold m"
    "mm_frozen m' = mm_frozen m" "mm_rebuild m' = mm_rebuild m" "mm_persist m' = None \<longleftrightarrow> mm_persist m = None"
  using assms
  by (auto simp: flush_deferred_at_def Let_def split: prod.splits option.splits if_splits)

lemma persist_now_frame:
  assumes "persist_now B r m = (q, m')"
  shows "mm_policy m' = mm_policy m" "mm_hot m' = mm_hot m" "mm_warm m' = mm_warm m" "mm_cold m' = mm_cold m"
    "mm_frozen m' = mm_frozen m" "mm_rebuild m' = mm_rebuild m" "mm_deferred m' = mm_deferred m"
    "mm_persist m' = None \<longleftrightarrow> mm_persist m = None"
  using assms by (auto simp: persist_now_def split: prod.splits option.splits sum.splits)

lemma manager_hot_upsert_cases:
  assumes "manager_hot_upsert B key v c now m = Some (r, m')"
  obtains (refused) x where "prepare_upsert (bk_to_vec B) (mm_hot m) key v c now = Some (Inl x)" "r = Inl x" "m' = m"
  | (kept) p x where "prepare_upsert (bk_to_vec B) (mm_hot m) key v c now = Some (Inr p)"
      "demote_victims B (pu_victims p) m = (Inl x, m')" "r = Inl x"
  | (admitted) p m1 where "prepare_upsert (bk_to_vec B) (mm_hot m) key v c now = Some (Inr p)"
      "demote_victims B (pu_victims p) m = (Inr (), m1)" "r = Inr ()"
      "m' = m1\<lparr>mm_hot := snd (commit_upsert p (mm_hot m))\<rparr>"
proof -
  consider x where "prepare_upsert (bk_to_vec B) (mm_hot m) key v c now = Some (Inl x)"
    | p where "prepare_upsert (bk_to_vec B) (mm_hot m) key v c now = Some (Inr p)"
    using assms by (auto simp: manager_hot_upsert_def split: option.splits sum.splits)
  then show thesis
  proof cases
    case 1
    show thesis by (rule refused [OF 1]) (use assms 1 in \<open>simp_all add: manager_hot_upsert_def\<close>)
  next
    case (2 p)
    obtain q m1 where dem: "demote_victims B (pu_victims p) m = (q, m1)" by fastforce
    note core = demote_victims_core [OF dem]
    show thesis
    proof (cases q)
      case (Inl x)
      show thesis by (rule kept [OF 2, of x]) (use 2 dem Inl assms in \<open>simp_all add: manager_hot_upsert_def\<close>)
    next
      case (Inr u)
      show thesis
        by (rule admitted [OF 2, of m1]) (use 2 dem Inr assms core in \<open>simp_all add: manager_hot_upsert_def same_core_def\<close>)
    qed
  qed
qed

lemma manager_hot_upsert_frame:
  assumes "manager_hot_upsert B key v c now m = Some (r, m')"
  shows "mm_policy m' = mm_policy m" "mm_persist m' = mm_persist m"
    "mm_deferred m' = mm_deferred m" "hot_ok (mm_hot m) \<Longrightarrow> hot_ok (mm_hot m')" "is_ok r \<or> mm_hot m' = mm_hot m"
  using assms
  by (auto elim!: manager_hot_upsert_cases dest!: demote_victims_core simp: same_core_def commit_hot_ok)

lemma upsert_immediate_cases:
  assumes "upsert_immediate B key v c now m = Some (r, m')"
  obtains (refused) x where "prepare_upsert (bk_to_vec B) (mm_hot m) key v c now = Some (Inl x)" "r = Inl x" "m' = m"
  | (kept) p x where "prepare_upsert (bk_to_vec B) (mm_hot m) key v c now = Some (Inr p)"
      "demote_victims B (pu_victims p) m = (Inl x, m')" "r = Inl x"
  | (failed) p m1 x where "prepare_upsert (bk_to_vec B) (mm_hot m) key v c now = Some (Inr p)"
      "demote_victims B (pu_victims p) m = (Inr (), m1)" "persist_now B (record_for key v c) m1 = (Inl x, m')" "r = Inl x"
  | (written) p m1 m2 where "prepare_upsert (bk_to_vec B) (mm_hot m) key v c now = Some (Inr p)"
      "demote_victims B (pu_victims p) m = (Inr (), m1)" "persist_now B (record_for key v c) m1 = (Inr (), m2)"
      "r = Inr ()" "m' = m2\<lparr>mm_hot := snd (commit_upsert p (mm_hot m))\<rparr>"
proof -
  consider x where "prepare_upsert (bk_to_vec B) (mm_hot m) key v c now = Some (Inl x)"
    | p where "prepare_upsert (bk_to_vec B) (mm_hot m) key v c now = Some (Inr p)"
    using assms by (auto simp: upsert_immediate_def split: option.splits sum.splits)
  then show thesis
  proof cases
    case 1
    show thesis by (rule refused [OF 1]) (use assms 1 in \<open>simp_all add: upsert_immediate_def\<close>)
  next
    case (2 p)
    obtain q m1 where dem: "demote_victims B (pu_victims p) m = (q, m1)" by fastforce
    obtain t m2 where per: "persist_now B (record_for key v c) m1 = (t, m2)" by fastforce
    have hot: "mm_hot m2 = mm_hot m"
      using demote_victims_core [OF dem] persist_now_frame [OF per] by (simp add: same_core_def)
    show thesis
    proof (cases q)
      case (Inl x)
      show thesis by (rule kept [OF 2, of x]) (use 2 dem Inl assms in \<open>simp_all add: upsert_immediate_def\<close>)
    next
      case q: (Inr u)
      show thesis
      proof (cases t)
        case (Inl x)
        show thesis
          by (rule failed [OF 2, of m1 x]) (use 2 dem per q Inl assms in \<open>simp_all add: upsert_immediate_def\<close>)
      next
        case (Inr u')
        show thesis
          by (rule written [OF 2, of m1 m2]) (use 2 dem per q Inr assms hot in \<open>simp_all add: upsert_immediate_def\<close>)
      qed
    qed
  qed
qed

section \<open>Invariants of a manager\<close>

text \<open>
  A predicate that looks at the policy, Hot, the sink and the queue only, that flushes keep,
  and that does not care how Hot changes within its limits, is kept by every operation other
  than a durable write.
\<close>

definition keeps :: "('m \<Rightarrow> bool) \<Rightarrow> ('m \<Rightarrow> ('x \<times> 'm) option) \<Rightarrow> bool" where
  "keeps P f \<longleftrightarrow> (\<forall>m x m'. P m \<longrightarrow> f m = Some (x, m') \<longrightarrow> P m')"

lemma keepsI: "(\<And>m x m'. P m \<Longrightarrow> f m = Some (x, m') \<Longrightarrow> P m') \<Longrightarrow> keeps P f"
  by (auto simp: keeps_def)

lemma keepsD: "keeps P f \<Longrightarrow> P m \<Longrightarrow> f m = Some (x, m') \<Longrightarrow> P m'"
  by (auto simp: keeps_def)

lemma seq_Some:
  "seq f g m = Some (r, m') \<longleftrightarrow>
     (\<exists>x. f m = Some (Inl x, m') \<and> r = Inl x) \<or> (\<exists>a m1. f m = Some (Inr a, m1) \<and> g m1 = Some (r, m'))"
  by (auto simp: seq_def split: option.splits sum.splits)

lemma or_else_Some:
  "or_else f g m = Some (r, m') \<longleftrightarrow>
     (\<exists>v. f m = Some (Some v, m') \<and> r = Some v) \<or> (\<exists>m1. f m = Some (None, m1) \<and> g m1 = Some (r, m'))"
  by (auto simp: or_else_def split: option.splits)

lemma keeps_seq: "keeps P f \<Longrightarrow> keeps P g \<Longrightarrow> keeps P (seq f g)"
  unfolding keeps_def seq_Some by blast

lemma keeps_or_else: "keeps P f \<Longrightarrow> keeps P g \<Longrightarrow> keeps P (or_else f g)"
  unfolding keeps_def or_else_Some by blast

lemma keeps_pass [simp]: "keeps P (\<lambda>m. Some (x, m))"
  by (simp add: keeps_def)

lemma keeps_total: "(\<And>m. P m \<Longrightarrow> P (snd (f m))) \<Longrightarrow> keeps P (\<lambda>m. Some (f m))"
  by (auto simp: keeps_def) (metis snd_conv)

lemma apply_demotions_core:
  "apply_demotions B vs m = (t, m') \<Longrightarrow>
     \<exists>pre us. vs = pre @ us \<and> same_core (m\<lparr>mm_hot := fold (\<lambda>(k, e). restore k e) us (mm_hot m)\<rparr>) m' \<and>
       (is_ok t \<longrightarrow> us = [])"
proof (induction B vs m rule: apply_demotions.induct)
  case (1 B m)
  then show ?case by (intro exI [where x = "[]"]) simp
next
  case (2 B k e vs m)
  obtain q m1 where dem: "demote_or_drop B k e m = (q, m1)" by fastforce
  note core = demote_or_drop_core [OF dem]
  show ?case
  proof (cases q)
    case (Inl x)
    with 2(2) dem core show ?thesis
      by (intro exI [where x = "[]"] exI [where x = "(k, e) # vs"]) (auto simp: same_core_def)
  next
    case (Inr u)
    with 2(2) dem have "apply_demotions B vs m1 = (t, m')" by simp
    from 2(1) [OF dem [symmetric] Inr this] obtain pre us where us: "vs = pre @ us"
      "same_core (m1\<lparr>mm_hot := fold (\<lambda>(k, e). restore k e) us (mm_hot m1)\<rparr>) m'" "is_ok t \<longrightarrow> us = []" by blast
    with core show ?thesis
      by (intro exI [where x = "(k, e) # pre"] exI [where x = us]) (auto simp: same_core_def)
  qed
qed

locale manager_invariant =
  fixes B :: "('w, 'c, 'f, 'k, 'r) backends"
    and P :: "('w, 'c, 'f, 'k, 'r) manager \<Rightarrow> bool"
  assumes wf: "P m \<Longrightarrow> policy_wf (mm_policy m)"
    and core: "P m \<Longrightarrow> same_core m m' \<Longrightarrow> P m'"
    and hot: "P m \<Longrightarrow> hot_keeps (mm_hot m) h \<Longrightarrow> P (m\<lparr>mm_hot := h\<rparr>)"
    and flush: "P m \<Longrightarrow> P (snd (flush_deferred_at B now force m))"
begin

lemma demote: "P m \<Longrightarrow> P (snd (demote_or_drop B k e m))"
  by (cases "demote_or_drop B k e m") (auto intro: core demote_or_drop_core)

lemma hot_upsert: "keeps P (manager_hot_upsert B key v c now)"
proof (rule keepsI)
  fix m r m' assume P: "P m" and "manager_hot_upsert B key v c now m = Some (r, m')"
  from this(2) show "P m'"
  proof (cases rule: manager_hot_upsert_cases)
    case refused
    with P show ?thesis by simp
  next
    case (kept p x)
    with P show ?thesis by (blast intro: core demote_victims_core)
  next
    case (admitted p m1)
    then have "P m1" "mm_hot m1 = mm_hot m" using P demote_victims_core [OF admitted(2)] core by (auto simp: same_core_def)
    with admitted show ?thesis by (auto intro!: hot hot_keeps_commit)
  qed
qed

lemma volatile: "keeps P (upsert_volatile B key v c now)"
  unfolding upsert_volatile_def by (intro keeps_seq hot_upsert keeps_total flush)

lemma warm: "P m \<Longrightarrow> P (snd (warm_put B k e m))"
  by (cases "warm_put B k e m") (auto intro: core warm_put_core)

lemma archive: "P m \<Longrightarrow> P (snd (archive_put B k e m))"
  by (cases "archive_put B k e m") (auto intro: core archive_put_core)

lemma cache: "keeps P (upsert_cache B key v c now)"
proof -
  have "keeps P (\<lambda>m. if should_mirror_warm c then Some (warm_put B key \<lparr> te_class = cp_name c, te_value = v \<rparr> m)
      else Some (Inr (), m))"
    by (cases "should_mirror_warm c") (simp_all add: keeps_total warm)
  then show ?thesis unfolding upsert_cache_def by (intro keeps_seq hot_upsert keeps_total flush)
qed

lemma upsert:
  assumes "P m" "class_named (mm_policy m) cn = Inr c" "cp_policy c \<in> {Volatile, Cache} \<or> keeps P (upsert_by_policy B key v c now)"
    and "upsert_at B key v cn now m = Some (r, m')"
  shows "P m'"
proof -
  have "keeps P (upsert_by_policy B key v c now)" if "cp_policy c \<in> {Volatile, Cache}"
    using that by (auto simp: upsert_by_policy_def intro!: keeps_seq volatile cache)
  with assms(3) have "keeps P (upsert_by_policy B key v c now)" by blast
  moreover have "keeps P (\<lambda>m. if cp_temperature c = Frozen
      then Some (archive_put B key \<lparr> te_class = cp_name c, te_value = v \<rparr> m) else Some (Inr (), m))"
    by (cases "cp_temperature c = Frozen") (simp_all add: keeps_total archive)
  ultimately have "keeps P (seq (upsert_by_policy B key v c now) (\<lambda>m. if cp_temperature c = Frozen
      then Some (archive_put B key \<lparr> te_class = cp_name c, te_value = v \<rparr> m) else Some (Inr (), m)))"
    by (rule keeps_seq)
  from keepsD [OF this assms(1)] assms(2,4) show ?thesis by (simp add: upsert_at_def)
qed

lemma promote: "P m \<Longrightarrow> Jme_Manager.promote B key e now m = Some m' \<Longrightarrow> P m'"
proof -
  assume P: "P m" and run: "Jme_Manager.promote B key e now m = Some m'"
  show "P m'"
  proof (cases "class_named (mm_policy m) (te_class e)")
    case (Inl x)
    with P run show ?thesis by (simp add: promote_def)
  next
    case (Inr c)
    with run obtain r m1 where up: "manager_hot_upsert B key (te_value e) c now m = Some (r, m1)"
      and m': "m' = m1 \<or> m' = m1\<lparr>mm_promotions := mm_promotions m1 + 1\<rparr>"
      by (auto simp: promote_def split: option.splits sum.splits)
    from keepsD [OF hot_upsert P up] have "P m1" .
    moreover from m' have "same_core m1 m'" by (auto simp: same_core_def)
    ultimately show ?thesis by (rule core)
  qed
qed

lemma promote_from_warm: "keeps P (promote_from_warm B key now)"
  by (rule keepsI)
    (auto simp: promote_from_warm_def same_core_def split: sum.splits option.splits elim!: promote [rotated] elim: core)

lemma promote_from_cold: "keeps P (promote_from_cold B key now)"
  by (rule keepsI)
    (auto simp: promote_from_cold_def same_core_def split: sum.splits option.splits elim!: promote [rotated] elim: core)

lemma promote_from_frozen: "keeps P (promote_from_frozen B key now)"
  by (rule keepsI)
    (auto simp: promote_from_frozen_def same_core_def split: sum.splits option.splits elim!: promote [rotated] elim: core)

text \<open>Only cache classes have a hook, and writing one is no durable write.\<close>

lemma rebuild: "keeps P (rebuild_from_hook B key now)"
proof (rule keepsI)
  fix m x m' assume P: "P m" and run: "rebuild_from_hook B key now m = Some (x, m')"
  show "P m'"
  proof (cases "\<exists>cn c hook v hook' m1 r. class_of_key key = Some cn \<and> class_named (mm_policy m) cn = Inr c \<and>
      cp_rebuild c \<noteq> None \<and> m1 = m\<lparr>mm_rebuild := hook', mm_rebuilds := mm_rebuilds m + 1\<rparr> \<and>
      upsert_at B key v cn now m1 = Some (r, m')")
    case True
    then obtain cn c hook' v m1 r where c: "class_named (mm_policy m) cn = Inr c" "cp_rebuild c \<noteq> None"
      and m1: "m1 = m\<lparr>mm_rebuild := hook', mm_rebuilds := mm_rebuilds m + 1\<rparr>"
      and up: "upsert_at B key v cn now m1 = Some (r, m')" by blast
    have "cp_policy c = Cache" using class_named_wf [OF wf [OF P] c(1)] c(2) by (simp add: class_wf_def)
    moreover have "P m1" using P by (rule core) (simp add: m1 same_core_def)
    ultimately show ?thesis using upsert [of m1 cn c key v now r m'] c(1) up by (simp add: m1)
  next
    case False
    with run have "same_core m m'"
      by (auto simp: rebuild_from_hook_def same_core_def split: option.splits sum.splits prod.splits)
    with P show ?thesis by (rule core)
  qed
qed

lemma get_from_hot: "keeps P (get_from_hot key now)"
  by (rule keepsI) (auto simp: get_from_hot_def split: prod.splits intro: hot hot_keeps_get)

lemma get: "P m \<Longrightarrow> get_at B key now m = Some (x, m') \<Longrightarrow> P m'"
  unfolding get_at_def
  by (rule keepsD [OF keeps_or_else [OF get_from_hot keeps_or_else [OF promote_from_warm
      keeps_or_else [OF promote_from_cold keeps_or_else [OF promote_from_frozen rebuild]]]] flush])

lemma remove: "P m \<Longrightarrow> manager_remove B key m = (b, m') \<Longrightarrow> P m'"
proof -
  assume P: "P m" and run: "manager_remove B key m = (b, m')"
  have "P (m\<lparr>mm_hot := snd (hot_remove (mm_hot m) key)\<rparr>)" using P by (rule hot) (rule hot_keeps_remove)
  moreover have "same_core (m\<lparr>mm_hot := snd (hot_remove (mm_hot m) key)\<rparr>) m'"
    using run by (auto simp: manager_remove_def same_core_def split: prod.splits)
  ultimately show "P m'" by (rule core)
qed

lemma pressure: "P m \<Longrightarrow> notify_pressure B now m = (r, m') \<Longrightarrow> P m'"
proof -
  assume P: "P m" and run: "notify_pressure B now m = (r, m')"
  obtain q m1 where fl: "flush_deferred_at B now True m = (q, m1)" by fastforce
  obtain v h where rec: "reclaim_one (mm_hot m1) now = (v, h)" by fastforce
  have P1: "P m1" using flush [OF P, of now True] fl by simp
  have P2: "P (m1\<lparr>mm_hot := h\<rparr>)" using P1 hot_keeps_reclaim_one(1) [OF rec] by (rule hot)
  show "P m'"
  proof (cases v)
    case None
    with run fl rec P1 P2 show ?thesis by (auto simp: notify_pressure_def split: sum.splits)
  next
    case (Some x)
    obtain k e where v: "v = Some (k, e)" using Some by (cases x) simp
    obtain t m2 where dem: "demote_or_drop B k e (m1\<lparr>mm_hot := h\<rparr>) = (t, m2)" by fastforce
    have P3: "P m2" "mm_hot m2 = h"
      using core [OF P2 demote_or_drop_core [OF dem]] demote_or_drop_core [OF dem] by (simp_all add: same_core_def)
    have "P (m1\<lparr>mm_hot := restore k e h\<rparr>)"
      using P1 hot_keeps_reclaim_one(2) [OF rec v] by (rule hot)
    moreover have "same_core (m1\<lparr>mm_hot := restore k e h\<rparr>) (m2\<lparr>mm_hot := restore k e (mm_hot m2)\<rparr>)"
      using demote_or_drop_core [OF dem] P3(2) by (simp add: same_core_def)
    ultimately have "P (m2\<lparr>mm_hot := restore k e (mm_hot m2)\<rparr>)" by (rule core)
    with run fl rec P1 P3(1) v dem show ?thesis by (auto simp: notify_pressure_def split: sum.splits)
  qed
qed

lemma poll: "P m \<Longrightarrow> manager_poll B now m = (r, m') \<Longrightarrow> P m'"
proof -
  assume P: "P m" and run: "manager_poll B now m = (r, m')"
  obtain q m1 where fl: "flush_deferred_at B now False m = (q, m1)" by fastforce
  have P1: "P m1" using flush [OF P, of now False] fl by simp
  obtain vs h where rec: "reclaim_idle (mm_hot m1) now 64 = (vs, h)" by fastforce
  obtain t m2 where dem: "apply_demotions B vs (m1\<lparr>mm_hot := h\<rparr>) = (t, m2)" by fastforce
  obtain pre us where us: "vs = pre @ us" and same: "same_core (m1\<lparr>mm_hot := fold (\<lambda>(k, e). restore k e) us h\<rparr>) m2"
    using apply_demotions_core [OF dem] by auto
  have "P (m1\<lparr>mm_hot := fold (\<lambda>(k, e). restore k e) us h\<rparr>)"
    using P1 hot_keeps_reclaim_idle [OF rec [unfolded us]] by (rule hot)
  from core [OF this same] have "P m2" .
  with run fl rec dem P1 show "P m'"
    by (auto simp: manager_poll_def demote_idle_at_def split: sum.splits)
qed

end

section \<open>Reachable managers\<close>

text \<open>
  The operations of a manager, at any instants, in any order; the Warm store may be shared with
  other instances, which write to it in between.
\<close>

inductive manager_step ::
  "('w, 'c, 'f, 'k, 'r) backends \<Rightarrow> ('w, 'c, 'f, 'k, 'r) manager \<Rightarrow> ('w, 'c, 'f, 'k, 'r) manager \<Rightarrow> bool"
  for B where
    step_upsert: "upsert_at B key v cn now m = Some (r, m') \<Longrightarrow> manager_step B m m'"
  | step_get: "get_at B key now m = Some (x, m') \<Longrightarrow> manager_step B m m'"
  | step_remove: "manager_remove B key m = (b, m') \<Longrightarrow> manager_step B m m'"
  | step_pressure: "notify_pressure B now m = (q, m') \<Longrightarrow> manager_step B m m'"
  | step_flush: "manager_flush B now m = (n, m') \<Longrightarrow> manager_step B m m'"
  | step_poll: "manager_poll B now m = (n, m') \<Longrightarrow> manager_step B m m'"
  | step_shared: "manager_step B m (m\<lparr>mm_warm := w\<rparr>)"

inductive_cases manager_stepE: "manager_step B m m'"

inductive manager_reachable ::
  "('w, 'c, 'f, 'k, 'r) backends \<Rightarrow> ('w, 'c, 'f, 'k, 'r) manager \<Rightarrow> ('w, 'c, 'f, 'k, 'r) manager \<Rightarrow> bool"
  for B m where
    reach_start: "manager_reachable B m m"
  | reach_step: "manager_reachable B m m' \<Longrightarrow> manager_step B m' m'' \<Longrightarrow> manager_reachable B m m''"

text \<open>Hot within its limits, which are those of the policy.\<close>

definition manager_ok :: "memory_policy \<Rightarrow> ('w, 'c, 'f, 'k, 'r) manager \<Rightarrow> bool" where
  "manager_ok policy m \<longleftrightarrow>
     mm_policy m = policy \<and> policy_wf policy \<and> hot_ok (mm_hot m) \<and>
     hs_max_entries (mm_hot m) = mp_max_entries policy \<and> hs_max_bytes (mm_hot m) = mp_max_hot_bytes policy"

interpretation hot_limits: manager_invariant B "manager_ok policy" for B policy
  by unfold_locales
    (auto simp: manager_ok_def same_core_def hot_keeps_def flush_deferred_frame [OF surjective_pairing])

lemma flush_same: "flush_deferred_at B now force m = (r, m') \<Longrightarrow> mm_policy m' = mm_policy m \<and> mm_hot m' = mm_hot m"
  by (simp add: flush_deferred_frame)

lemma persist_same: "persist_now B r m = (q, m') \<Longrightarrow> mm_policy m' = mm_policy m \<and> mm_hot m' = mm_hot m"
  by (simp add: persist_now_frame)

lemma upsert_immediate_ok: "keeps (manager_ok policy) (upsert_immediate B key v c now)"
proof (rule keepsI)
  fix m r m' assume ok: "manager_ok policy m" and "upsert_immediate B key v c now m = Some (r, m')"
  from this(2) show "manager_ok policy m'"
    using ok
    by (cases rule: upsert_immediate_cases)
      (auto simp: manager_ok_def same_core_def commit_hot_ok commit_entries dest!: demote_victims_core persist_same)
qed

lemma upsert_deferred_ok: "keeps (manager_ok policy) (upsert_deferred B key v c now)"
  unfolding upsert_deferred_def
proof (rule keeps_seq [OF hot_limits.hot_upsert], rule keepsI)
  fix m r m'
  assume ok: "manager_ok policy m" and "(case cp_flush c of None \<Rightarrow> None
    | Some flush_after \<Rightarrow>
        (case deferred_enqueue (record_for key v c) flush_after now (mm_deferred m) of
           (force, q) \<Rightarrow> Some (flush_deferred_at B now force (m\<lparr>mm_deferred := q\<rparr>)))) = Some (r, m')"
  then show "manager_ok policy m'"
    by (auto simp: manager_ok_def split: option.splits prod.splits dest!: flush_same)
qed

lemma manager_step_ok: "manager_step B m m' \<Longrightarrow> manager_ok policy m \<Longrightarrow> manager_ok policy m'"
proof (induction rule: manager_step.induct)
  case (step_upsert key v cn now m r m')
  show ?case
  proof (cases "class_named (mm_policy m) cn")
    case (Inl x)
    with step_upsert show ?thesis by (simp add: upsert_at_def)
  next
    case (Inr c)
    have "keeps (manager_ok policy) (upsert_by_policy B key v c now)"
      by (cases "cp_policy c")
        (auto simp: upsert_by_policy_def intro!: keeps_seq upsert_immediate_ok upsert_deferred_ok
          hot_limits.volatile hot_limits.cache)
    with hot_limits.upsert [OF step_upsert(2) Inr _ step_upsert(1)] show ?thesis by blast
  qed
next
  case (step_get key now m x m')
  then show ?case by (blast intro: hot_limits.get)
next
  case (step_remove key m b m')
  then show ?case by (blast intro: hot_limits.remove)
next
  case (step_pressure now m q m')
  then show ?case by (blast intro: hot_limits.pressure)
next
  case (step_flush now m n m')
  then show ?case using hot_limits.flush [where policy = policy and B = B and m = m and now = now and force = True] by (simp add: manager_flush_def)
next
  case (step_poll now m n m')
  then show ?case by (blast intro: hot_limits.poll)
next
  case (step_shared m w)
  then show ?case by (simp add: manager_ok_def)
qed

lemma manager_reachable_ok: "manager_reachable B m m' \<Longrightarrow> manager_ok policy m \<Longrightarrow> manager_ok policy m'"
  by (induction rule: manager_reachable.induct) (blast intro: manager_step_ok)+

lemma manager_build_ok:
  assumes "policy_wf policy" "mp_max_hot_bytes policy < u64_max"
  shows "manager_ok policy (manager_build policy sink warm cold hook frozen)"
  using assms by (simp add: manager_ok_def manager_build_def hot_ok_def with_max_bytes_def hot_new_def policy_wf_def)

text \<open>
  C15. Whatever operations run, at whatever instants, whichever of them fail, and whatever other
  instances write to the Warm store: Hot never holds more entries or bytes than the policy
  allows.
\<close>

theorem hot_bounds_hold:
  assumes "policy_wf policy" "mp_max_hot_bytes policy < u64_max"
    and "manager_reachable B (manager_build policy sink warm cold hook frozen) m"
  shows "length (hs_entries (mm_hot m)) \<le> mp_max_entries policy \<and>
    hx_bytes (hot_metrics_of (mm_hot m)) \<le> mp_max_hot_bytes policy \<and> mm_policy m = policy"
  using manager_reachable_ok [OF assms(3) manager_build_ok [OF assms(1,2)]]
  by (simp add: manager_ok_def hot_ok_def hot_metrics_of_def)

end
