(* ===== verification/Jme_Levels.thy ===== *)
theory Jme_Levels
  imports Jme_Manager
begin

text \<open>
  What the levels of the memory hold together: which copy a get answers with, what a removal
  forgets, and that no value that has a level below Hot is lost when Hot is full. The stores
  are any that satisfy the contracts of \<open>Jme_Stores\<close>.
\<close>

section \<open>The levels through their contracts\<close>

definition live_value :: "hot_store \<Rightarrow> string \<Rightarrow> nat \<Rightarrow> json option" where
  "live_value h key now =
     (case hm_get (hs_entries h) key of
        None \<Rightarrow> None
      | Some e \<Rightarrow> if expired now e then None else Some (he_value e))"

definition first_copy :: "tier_entry option \<Rightarrow> tier_entry option \<Rightarrow> tier_entry option \<Rightarrow> tier_entry option" where
  "first_copy warm cold frozen =
     (case warm of Some e \<Rightarrow> Some e | None \<Rightarrow> (case cold of Some e \<Rightarrow> Some e | None \<Rightarrow> frozen))"

text \<open>A level that cannot be read counts as one that has nothing.\<close>

definition readable :: "('s, 'x) store_ops_scheme \<Rightarrow> 's \<Rightarrow> string \<Rightarrow> tier_entry option \<Rightarrow> tier_entry option" where
  "readable ops s key copy = (if is_ok (so_get ops s key) then copy else None)"

text \<open>What the rebuild hook makes for a key whose class names one, when there is a hook.\<close>

definition rebuilt_value ::
  "('w, 'c, 'f, 'k, 'r) backends \<Rightarrow> string \<Rightarrow> ('w, 'c, 'f, 'k, 'r) manager \<Rightarrow> json option" where
  "rebuilt_value B key m =
     (case class_of_key key of
        None \<Rightarrow> None
      | Some class_name \<Rightarrow>
          (case class_named (mm_policy m) class_name of
             Inl _ \<Rightarrow> None
           | Inr c \<Rightarrow>
               (case (cp_rebuild c, mm_rebuild m) of
                  (Some rebuild_ref, Some hook) \<Rightarrow>
                    (case fst (bk_rebuild B hook class_name key rebuild_ref) of Inr v \<Rightarrow> v | Inl _ \<Rightarrow> None)
                | _ \<Rightarrow> None)))"

lemma rebuild_from_hook_value: "rebuild_from_hook B key now m = Some (x, m') \<Longrightarrow> x = rebuilt_value B key m"
  by (auto simp: rebuild_from_hook_def rebuilt_value_def split: option.splits sum.splits prod.splits)

lemma rebuilt_value_cong:
  assumes "mm_policy m' = mm_policy m" "mm_rebuild m' = mm_rebuild m"
  shows "rebuilt_value B key m' = rebuilt_value B key m"
  unfolding rebuilt_value_def assms ..

locale jme_levels =
  warm: tier_store "bk_warm B" w_inv warm_at keys +
  cold: tier_store "bk_cold B" c_inv cold_at keys +
  frozen: tier_store "bk_frozen B" f_inv frozen_at keys
  for B :: "('w, 'c, 'f, 'k, 'r) backends"
    and w_inv warm_at c_inv cold_at f_inv frozen_at keys
begin

lemma demote_others:
  assumes "w_inv (mm_warm m)" "c_inv (mm_cold m)" "f_inv (mm_frozen m)" "k \<in> keys"
    and "demote_or_drop B k e m = (r, m')"
  shows "w_inv (mm_warm m') \<and> c_inv (mm_cold m') \<and> f_inv (mm_frozen m') \<and>
    (\<forall>j\<in>keys. j \<noteq> k \<longrightarrow> warm_at (mm_warm m') j = warm_at (mm_warm m) j \<and>
      cold_at (mm_cold m') j = cold_at (mm_cold m) j \<and> frozen_at (mm_frozen m') j = frozen_at (mm_frozen m) j)"
  using assms
  by (auto simp: demote_or_drop_def Let_def warm.put_others cold.put_others frozen.put_others
      split: sum.splits prod.splits if_splits
      dest: warm.put_inv cold.put_inv frozen.put_inv)

text \<open>Each level is asked in turn; a promotion happens only when the level has answered.\<close>

lemma promote_answers:
  "w_inv (mm_warm m) \<Longrightarrow> key \<in> keys \<Longrightarrow> promote_from_warm B key now m = Some (x, m') \<Longrightarrow>
     x = map_option te_value (readable (bk_warm B) (mm_warm m) key (warm_at (mm_warm m) key)) \<and>
     (x = None \<longrightarrow> mm_cold m' = mm_cold m \<and> mm_frozen m' = mm_frozen m \<and> mm_policy m' = mm_policy m \<and> mm_rebuild m' = mm_rebuild m)"
  "c_inv (mm_cold m) \<Longrightarrow> key \<in> keys \<Longrightarrow> promote_from_cold B key now m = Some (x, m') \<Longrightarrow>
     x = map_option te_value (readable (bk_cold B) (mm_cold m) key (cold_at (mm_cold m) key)) \<and>
     (x = None \<longrightarrow> mm_frozen m' = mm_frozen m \<and> mm_policy m' = mm_policy m \<and> mm_rebuild m' = mm_rebuild m)"
  "f_inv (mm_frozen m) \<Longrightarrow> key \<in> keys \<Longrightarrow> promote_from_frozen B key now m = Some (x, m') \<Longrightarrow>
     x = map_option te_value (readable (bk_frozen B) (mm_frozen m) key (frozen_at (mm_frozen m) key)) \<and>
     (x = None \<longrightarrow> mm_policy m' = mm_policy m \<and> mm_rebuild m' = mm_rebuild m)"
  using warm.get_holds [of "mm_warm m" key] cold.get_holds [of "mm_cold m" key] frozen.get_holds [of "mm_frozen m" key]
  by (auto simp: promote_from_warm_def promote_from_cold_def promote_from_frozen_def readable_def is_ok_iff
      split: sum.splits option.splits)

text \<open>A get answers from the first level that has the key.\<close>

lemma get_first:
  assumes inv: "w_inv (mm_warm m)" "c_inv (mm_cold m)" "f_inv (mm_frozen m)" "key \<in> keys"
    and hot: "hm_wf (hs_entries (mm_hot m))"
    and run: "get_at B key now m = Some (x, m')"
  shows "x =
    (case live_value (mm_hot m) key now of
       Some v \<Rightarrow> Some v
     | None \<Rightarrow>
         (case first_copy (readable (bk_warm B) (mm_warm m) key (warm_at (mm_warm m) key))
                 (readable (bk_cold B) (mm_cold m) key (cold_at (mm_cold m) key))
                 (readable (bk_frozen B) (mm_frozen m) key (frozen_at (mm_frozen m) key)) of
            Some e \<Rightarrow> Some (te_value e)
          | None \<Rightarrow> rebuilt_value B key m))"
proof -
  obtain q m0 where fl: "flush_deferred_at B now False m = (q, m0)" by fastforce
  note frame = flush_deferred_frame [OF fl]
  obtain y h where g: "hot_get (mm_hot m) key now = (y, h)" by fastforce
  have y: "y = live_value (mm_hot m) key now" using hot_get_result(1) [OF hot g] by (simp add: live_value_def)
  show ?thesis
  proof (cases y)
    case (Some v)
    with run fl g have "x = Some v" by (simp add: get_at_def or_else_def get_from_hot_def frame)
    moreover have "live_value (mm_hot m) key now = Some v" using Some y by simp
    ultimately show ?thesis by simp
  next
    case None
    let ?m1 = "m0\<lparr>mm_hot := h\<rparr>"
    let ?w = "readable (bk_warm B) (mm_warm m) key (warm_at (mm_warm m) key)"
    let ?c = "readable (bk_cold B) (mm_cold m) key (cold_at (mm_cold m) key)"
    let ?f = "readable (bk_frozen B) (mm_frozen m) key (frozen_at (mm_frozen m) key)"
    from None run fl g obtain xw m2 where w: "promote_from_warm B key now ?m1 = Some (xw, m2)"
      and rest: "case xw of Some v \<Rightarrow> x = Some v
        | None \<Rightarrow> or_else (promote_from_cold B key now) (or_else (promote_from_frozen B key now) (rebuild_from_hook B key now)) m2
            = Some (x, m')"
      by (auto simp: get_at_def or_else_def get_from_hot_def frame split: option.splits prod.splits)
    have pw: "xw = map_option te_value ?w"
      "xw = None \<Longrightarrow> mm_cold m2 = mm_cold m \<and> mm_frozen m2 = mm_frozen m \<and> mm_policy m2 = mm_policy m \<and> mm_rebuild m2 = mm_rebuild m"
      using promote_answers(1) [OF _ inv(4) w] inv(1) by (simp_all add: frame)
    have "x = (case first_copy ?w ?c ?f of Some e \<Rightarrow> Some (te_value e) | None \<Rightarrow> rebuilt_value B key m)"
    proof (cases xw)
      case (Some v)
      with pw(1) obtain e where "?w = Some e" "te_value e = v" by (cases ?w) simp_all
      with rest Some show ?thesis by (simp add: first_copy_def)
    next
      case warm_miss: None
      note m2 = pw(2) [OF warm_miss]
      from rest warm_miss obtain xc m3 where c: "promote_from_cold B key now m2 = Some (xc, m3)"
        and rest: "case xc of Some v \<Rightarrow> x = Some v
          | None \<Rightarrow> or_else (promote_from_frozen B key now) (rebuild_from_hook B key now) m3 = Some (x, m')"
        by (auto simp: or_else_def split: option.splits prod.splits)
      have pc: "xc = map_option te_value ?c"
        "xc = None \<Longrightarrow> mm_frozen m3 = mm_frozen m \<and> mm_policy m3 = mm_policy m \<and> mm_rebuild m3 = mm_rebuild m"
        using promote_answers(2) [OF _ inv(4) c] inv(2) m2 by simp_all
      show ?thesis
      proof (cases xc)
        case (Some v)
        with pc(1) obtain e where "?c = Some e" "te_value e = v" by (cases ?c) simp_all
        with rest Some warm_miss pw(1) show ?thesis by (simp add: first_copy_def)
      next
        case cold_miss: None
        note m3 = pc(2) [OF cold_miss]
        from rest cold_miss obtain xf m4 where f: "promote_from_frozen B key now m3 = Some (xf, m4)"
          and rest: "case xf of Some v \<Rightarrow> x = Some v | None \<Rightarrow> rebuild_from_hook B key now m4 = Some (x, m')"
          by (auto simp: or_else_def split: option.splits prod.splits)
        have pf: "xf = map_option te_value ?f" "xf = None \<Longrightarrow> mm_policy m4 = mm_policy m \<and> mm_rebuild m4 = mm_rebuild m"
          using promote_answers(3) [OF _ inv(4) f] inv(3) m3 by simp_all
        show ?thesis
        proof (cases xf)
          case (Some v)
          with pf(1) obtain e where "?f = Some e" "te_value e = v" by (cases ?f) simp_all
          with rest Some warm_miss cold_miss pw(1) pc(1) show ?thesis by (simp add: first_copy_def)
        next
          case frozen_miss: None
          with rest have "x = rebuilt_value B key m4" using rebuild_from_hook_value by simp
          also have "\<dots> = rebuilt_value B key m" using pf(2) [OF frozen_miss] by (intro rebuilt_value_cong) simp_all
          finally show ?thesis using warm_miss cold_miss frozen_miss pw(1) pc(1) pf(1) by (simp add: first_copy_def)
        qed
      qed
    qed
    with None y [symmetric] show ?thesis by simp
  qed
qed

text \<open>A removal in which no store fails leaves the key nowhere.\<close>

lemma remove_all:
  assumes inv: "w_inv (mm_warm m)" "c_inv (mm_cold m)" "f_inv (mm_frozen m)" "key \<in> keys"
    and ok: "is_ok (fst (so_remove (bk_warm B) (mm_warm m) key))" "is_ok (fst (so_remove (bk_cold B) (mm_cold m) key))"
      "is_ok (fst (so_remove (bk_frozen B) (mm_frozen m) key))"
    and run: "manager_remove B key m = (b, m')"
  shows "w_inv (mm_warm m') \<and> c_inv (mm_cold m') \<and> f_inv (mm_frozen m') \<and>
    hm_get (hs_entries (mm_hot m')) key = None \<and> warm_at (mm_warm m') key = None \<and>
    cold_at (mm_cold m') key = None \<and> frozen_at (mm_frozen m') key = None \<and>
    (b \<longleftrightarrow> hm_get (hs_entries (mm_hot m)) key \<noteq> None \<or> warm_at (mm_warm m) key \<noteq> None \<or>
       cold_at (mm_cold m) key \<noteq> None \<or> frozen_at (mm_frozen m) key \<noteq> None)"
proof -
  obtain bw w where rw: "so_remove (bk_warm B) (mm_warm m) key = (Inr bw, w)"
    using ok(1) by (cases "so_remove (bk_warm B) (mm_warm m) key") (auto simp: is_ok_iff)
  obtain bc c where rc: "so_remove (bk_cold B) (mm_cold m) key = (Inr bc, c)"
    using ok(2) by (cases "so_remove (bk_cold B) (mm_cold m) key") (auto simp: is_ok_iff)
  obtain bf f where rf: "so_remove (bk_frozen B) (mm_frozen m) key = (Inr bf, f)"
    using ok(3) by (cases "so_remove (bk_frozen B) (mm_frozen m) key") (auto simp: is_ok_iff)
  have m': "m' = m\<lparr>mm_hot := snd (hot_remove (mm_hot m) key), mm_warm := w, mm_cold := c, mm_frozen := f\<rparr>"
    and b: "b \<longleftrightarrow> hm_get (hs_entries (mm_hot m)) key \<noteq> None \<or> bw \<or> bc \<or> bf"
    using run rw rc rf by (simp_all add: manager_remove_def hot_remove_def unwrap_or_false_def)
  have "hm_get (hs_entries (mm_hot m')) key = None" by (simp add: m' hot_remove_def)
  then show ?thesis
    using warm.remove_ok [OF inv(1,4) rw] cold.remove_ok [OF inv(2,4) rc] frozen.remove_ok [OF inv(3,4) rf]
    unfolding b by (simp add: m')
qed

end

section \<open>Copies of what leaves Hot\<close>

text \<open>The level below Hot that keeps the entry of a class has it; a class without one is dropped.\<close>

definition safe_below ::
  "('w \<Rightarrow> string \<Rightarrow> tier_entry option) \<Rightarrow> ('c \<Rightarrow> string \<Rightarrow> tier_entry option) \<Rightarrow> ('f \<Rightarrow> string \<Rightarrow> tier_entry option)
    \<Rightarrow> ('w, 'c, 'f, 'k, 'r) manager \<Rightarrow> string \<Rightarrow> hot_entry \<Rightarrow> bool" where
  "safe_below warm_at cold_at frozen_at m k e \<longleftrightarrow>
     (case class_named (mm_policy m) (he_class e) of
        Inl _ \<Rightarrow> True
      | Inr c \<Rightarrow>
          (let copy = Some \<lparr> te_class = he_class e, te_value = he_value e \<rparr>
           in if should_archive_frozen c then frozen_at (mm_frozen m) k = copy
              else if should_archive_cold c then cold_at (mm_cold m) k = copy
              else if should_mirror_warm c then warm_at (mm_warm m) k = copy
              else True))"

lemma safe_below_cong:
  "mm_policy m' = mm_policy m \<Longrightarrow> warm_at (mm_warm m') k = warm_at (mm_warm m) k \<Longrightarrow>
   cold_at (mm_cold m') k = cold_at (mm_cold m) k \<Longrightarrow> frozen_at (mm_frozen m') k = frozen_at (mm_frozen m) k \<Longrightarrow>
     safe_below warm_at cold_at frozen_at m' k e \<longleftrightarrow> safe_below warm_at cold_at frozen_at m k e"
  by (simp add: safe_below_def Let_def split: sum.split)

text \<open>All other live entries of \<open>m\<close>'s Hot are still in that of \<open>m'\<close>, or have their copy below.\<close>

definition others_safe ::
  "('w \<Rightarrow> string \<Rightarrow> tier_entry option) \<Rightarrow> ('c \<Rightarrow> string \<Rightarrow> tier_entry option) \<Rightarrow> ('f \<Rightarrow> string \<Rightarrow> tier_entry option)
    \<Rightarrow> string \<Rightarrow> nat \<Rightarrow> ('w, 'c, 'f, 'k, 'r) manager \<Rightarrow> ('w, 'c, 'f, 'k, 'r) manager \<Rightarrow> bool" where
  "others_safe warm_at cold_at frozen_at key now m m' \<longleftrightarrow>
     mm_policy m' = mm_policy m \<and>
     (\<forall>k e. hm_get (hs_entries (mm_hot m)) k = Some e \<longrightarrow> k \<noteq> key \<longrightarrow> \<not> expired now e \<longrightarrow>
        hm_get (hs_entries (mm_hot m')) k = Some e \<or> safe_below warm_at cold_at frozen_at m' k e)"

locale jme_retaining =
  warm: retaining_store "bk_warm B" w_inv warm_at keys +
  cold: retaining_store "bk_cold B" c_inv cold_at keys +
  frozen: retaining_store "bk_frozen B" f_inv frozen_at keys
  for B :: "('w, 'c, 'f, 'k, 'r) backends"
    and w_inv warm_at c_inv cold_at f_inv frozen_at keys

sublocale jme_retaining \<subseteq> levels: jme_levels B w_inv warm_at c_inv cold_at f_inv frozen_at keys
  by unfold_locales

context jme_retaining
begin

lemma demote_safe:
  assumes inv: "w_inv (mm_warm m)" "c_inv (mm_cold m)" "f_inv (mm_frozen m)" "k \<in> keys"
    and run: "demote_or_drop B k e m = (Inr u, m')"
  shows "safe_below warm_at cold_at frozen_at m' k e"
  using run inv warm.put_retains cold.put_retains frozen.put_retains
  by (auto simp: demote_or_drop_def safe_below_def Let_def split: sum.splits prod.splits if_splits)

lemma demote_victims_safe:
  "w_inv (mm_warm m) \<Longrightarrow> c_inv (mm_cold m) \<Longrightarrow> f_inv (mm_frozen m) \<Longrightarrow>
   distinct (map fst vs) \<Longrightarrow> fst ` set vs \<subseteq> keys \<Longrightarrow> demote_victims B vs m = (Inr u, m') \<Longrightarrow>
     (\<forall>(k, e)\<in>set vs. safe_below warm_at cold_at frozen_at m' k e) \<and>
     (\<forall>j\<in>keys - fst ` set vs. warm_at (mm_warm m') j = warm_at (mm_warm m) j \<and>
        cold_at (mm_cold m') j = cold_at (mm_cold m) j \<and> frozen_at (mm_frozen m') j = frozen_at (mm_frozen m) j)"
proof (induction vs arbitrary: m)
  case Nil
  then show ?case by simp
next
  case (Cons v vs)
  obtain k e where v: "v = (k, e)" by fastforce
  obtain q m1 where dem: "demote_or_drop B k e m = (q, m1)" by fastforce
  with Cons.prems(6) v obtain w where q: "q = Inr w" by (cases q) simp_all
  have k: "k \<in> keys" "k \<notin> fst ` set vs" using Cons.prems(4,5) v by simp_all
  note others = levels.demote_others [OF Cons.prems(1-3) k(1) dem]
  have run: "demote_victims B vs m1 = (Inr u, m')" using Cons.prems(6) v dem q by simp
  have IH: "(\<forall>(k, e)\<in>set vs. safe_below warm_at cold_at frozen_at m' k e) \<and>
     (\<forall>j\<in>keys - fst ` set vs. warm_at (mm_warm m') j = warm_at (mm_warm m1) j \<and>
        cold_at (mm_cold m') j = cold_at (mm_cold m1) j \<and> frozen_at (mm_frozen m') j = frozen_at (mm_frozen m1) j)"
    using Cons.IH [OF _ _ _ _ _ run] others Cons.prems(4,5) by simp
  have "mm_policy m' = mm_policy m1" using demote_victims_core [OF run] by (simp add: same_core_def)
  moreover have "safe_below warm_at cold_at frozen_at m1 k e"
    using demote_safe [OF Cons.prems(1-3) k(1)] dem q by simp
  moreover have "k \<in> keys - fst ` set vs" using k by simp
  ultimately have "safe_below warm_at cold_at frozen_at m' k e"
    using IH safe_below_cong [of m' m1 warm_at k cold_at frozen_at e] by blast
  with IH others v show ?case by auto
qed

text \<open>The entries of the other keys after an admission.\<close>

lemma admission_safe:
  assumes inv: "w_inv (mm_warm m)" "c_inv (mm_cold m)" "f_inv (mm_frozen m)" "hm_wf (hs_entries (mm_hot m))"
    and keys: "fst ` set (hs_entries (mm_hot m)) \<subseteq> keys"
    and prep: "prepare_upsert to_vec (mm_hot m) key v c now = Some (Inr p)"
    and dem: "demote_victims B (pu_victims p) m = (r, m1)"
  shows "w_inv (mm_warm m1) \<and> c_inv (mm_cold m1) \<and> f_inv (mm_frozen m1)"
    "is_ok r \<Longrightarrow> hm_get (hs_entries (mm_hot m)) k = Some e \<Longrightarrow> k \<noteq> key \<Longrightarrow> \<not> expired now e \<Longrightarrow>
      hm_get (hs_entries (snd (commit_upsert p (mm_hot m)))) k = Some e \<or> safe_below warm_at cold_at frozen_at m1 k e"
proof -
  note p = prepare_upsert_Inr [OF prep]
  have vs: "distinct (map fst (pu_victims p))" "set (pu_victims p) \<subseteq> set (hs_entries (mm_hot m))"
    using p(11) by (auto simp: chosen_def)
  then have vkeys: "fst ` set (pu_victims p) \<subseteq> keys" using keys by auto
  have "w_inv (mm_warm m1) \<and> c_inv (mm_cold m1) \<and> f_inv (mm_frozen m1)"
    if "demote_victims B us m0 = (r, m1)" "fst ` set us \<subseteq> keys" "w_inv (mm_warm m0)" "c_inv (mm_cold m0)" "f_inv (mm_frozen m0)"
    for us m0
    using that
  proof (induction us arbitrary: m0)
    case Nil
    then show ?case by simp
  next
    case (Cons u us)
    obtain k e where u: "u = (k, e)" by fastforce
    obtain q m2 where d: "demote_or_drop B k e m0 = (q, m2)" by fastforce
    note o = levels.demote_others [OF Cons.prems(3-5) _ d]
    show ?case
    proof (cases q)
      case (Inl x)
      with Cons.prems(1) u d o Cons.prems(2) show ?thesis by simp
    next
      case (Inr w)
      with Cons.prems(1) u d have "demote_victims B us m2 = (r, m1)" by simp
      from Cons.IH [OF this] o Cons.prems(2) u show ?thesis by simp
    qed
  qed
  from this [OF dem vkeys inv(1-3)] show "w_inv (mm_warm m1) \<and> c_inv (mm_cold m1) \<and> f_inv (mm_frozen m1)" .
  assume r: "is_ok r" and k: "hm_get (hs_entries (mm_hot m)) k = Some e" "k \<noteq> key" "\<not> expired now e"
  show "hm_get (hs_entries (snd (commit_upsert p (mm_hot m)))) k = Some e \<or> safe_below warm_at cold_at frozen_at m1 k e"
  proof (cases "k \<in> fst ` set (pu_victims p)")
    case False
    with k p(1,2) show ?thesis by (simp add: commit_get [OF inv(4)])
  next
    case True
    then obtain e' where e': "(k, e') \<in> set (pu_victims p)" by auto
    with vs(2) inv(4) k(1) have "e' = e" by (metis hm_get_Some_iff option.inject subsetD)
    moreover obtain w where "demote_victims B (pu_victims p) m = (Inr w, m1)" using dem r by (auto simp: is_ok_iff)
    note demote_victims_safe [OF inv(1-3) vs(1) vkeys this]
    ultimately show ?thesis using e' by auto
  qed
qed

text \<open>All other live entries of Hot are still there, or have their copy.\<close>

lemma others_safe_keeps:
  fixes now :: nat
  assumes keys: "fst ` set (hs_entries (mm_hot m)) \<subseteq> keys" "key \<in> keys"
  defines "P \<equiv> \<lambda>m'. w_inv (mm_warm m') \<and> c_inv (mm_cold m') \<and> f_inv (mm_frozen m') \<and>
    others_safe warm_at cold_at frozen_at key now m m'"
  shows "keeps P (\<lambda>m. Some (flush_deferred_at B t force m))"
    "keeps P (\<lambda>m. Some (warm_put B key x m))" "keeps P (\<lambda>m. Some (archive_put B key x m))"
    "P m1 \<Longrightarrow> P (m1\<lparr>mm_deferred := q\<rparr>)"
proof -
  have move: "P m2" if P1: "P m1" and policy: "mm_policy m2 = mm_policy m1" and hot: "mm_hot m2 = mm_hot m1"
    and inv: "w_inv (mm_warm m2)" "c_inv (mm_cold m2)" "f_inv (mm_frozen m2)"
    and holds: "\<And>j. j \<in> keys \<Longrightarrow> j \<noteq> key \<Longrightarrow> warm_at (mm_warm m2) j = warm_at (mm_warm m1) j \<and>
      cold_at (mm_cold m2) j = cold_at (mm_cold m1) j \<and> frozen_at (mm_frozen m2) j = frozen_at (mm_frozen m1) j" for m1 m2
  proof -
    have "safe_below warm_at cold_at frozen_at m2 k e \<longleftrightarrow> safe_below warm_at cold_at frozen_at m1 k e"
      if "hm_get (hs_entries (mm_hot m)) k = Some e" "k \<noteq> key" for k e
    proof -
      have "k \<in> keys" using keys(1) that(1) by (auto dest!: hm_get_in_set)
      with holds that(2) policy show ?thesis by (intro safe_below_cong) simp_all
    qed
    with P1 policy hot inv show ?thesis unfolding P_def others_safe_def by simp
  qed
  show "keeps P (\<lambda>m. Some (flush_deferred_at B t force m))"
  proof (rule keepsI)
    fix m1 y m2 assume P1: "P m1" and "Some (flush_deferred_at B t force m1) = Some (y, m2)"
    then have "flush_deferred_at B t force m1 = (y, m2)" by simp
    note f = flush_deferred_frame [OF this]
    show "P m2" by (rule move [OF P1]) (use P1 in \<open>simp_all add: f P_def\<close>)
  qed
  show "keeps P (\<lambda>m. Some (warm_put B key x m))"
  proof (rule keepsI)
    fix m1 y m2 assume P1: "P m1" and "Some (warm_put B key x m1) = Some (y, m2)"
    then obtain z w where put: "so_put (bk_warm B) (mm_warm m1) key x = (z, w)" and m2: "mm_warm m2 = w"
      "mm_policy m2 = mm_policy m1" "mm_hot m2 = mm_hot m1" "mm_cold m2 = mm_cold m1" "mm_frozen m2 = mm_frozen m1"
      by (auto simp: warm_put_def split: sum.splits prod.splits)
    have i: "w_inv (mm_warm m1)" using P1 by (simp add: P_def)
    show "P m2"
      by (rule move [OF P1]) (use P1 in \<open>simp_all add: m2 P_def warm.put_inv [OF i keys(2) put] warm.put_others [OF i keys(2) put]\<close>)
  qed
  show "keeps P (\<lambda>m. Some (archive_put B key x m))"
  proof (rule keepsI)
    fix m1 y m2 assume P1: "P m1" and "Some (archive_put B key x m1) = Some (y, m2)"
    then obtain z w where put: "so_put (bk_frozen B) (mm_frozen m1) key x = (z, w)" and m2: "mm_frozen m2 = w"
      "mm_policy m2 = mm_policy m1" "mm_hot m2 = mm_hot m1" "mm_cold m2 = mm_cold m1" "mm_warm m2 = mm_warm m1"
      by (auto simp: archive_put_def split: sum.splits prod.splits)
    have i: "f_inv (mm_frozen m1)" using P1 by (simp add: P_def)
    show "P m2"
      by (rule move [OF P1]) (use P1 in \<open>simp_all add: m2 P_def frozen.put_inv [OF i keys(2) put] frozen.put_others [OF i keys(2) put]\<close>)
  qed
  show "P m1 \<Longrightarrow> P (m1\<lparr>mm_deferred := q\<rparr>)" by (rule move) (simp_all add: P_def)
qed

lemma upsert_others_safe:
  fixes now :: nat
  assumes inv: "w_inv (mm_warm m)" "c_inv (mm_cold m)" "f_inv (mm_frozen m)" "hm_wf (hs_entries (mm_hot m))"
    and keys: "fst ` set (hs_entries (mm_hot m)) \<subseteq> keys" "key \<in> keys"
    and run: "upsert_at B key v cn now m = Some (r, m')"
  shows "others_safe warm_at cold_at frozen_at key now m m'"
proof -
  let ?P = "\<lambda>m'. w_inv (mm_warm m') \<and> c_inv (mm_cold m') \<and> f_inv (mm_frozen m') \<and>
    others_safe warm_at cold_at frozen_at key now m m'"
  note ks = others_safe_keeps [OF keys, where now = now]
  have start: "?P m" using inv by (simp add: others_safe_def)
  have stay: "?P m1" if "prepare_upsert to_vec (mm_hot m) key v c now = Some (Inr p)"
    "demote_victims B (pu_victims p) m = (q, m1)" for to_vec c p q m1
    using admission_safe(1) [OF inv keys(1) that] demote_victims_core [OF that(2)]
    by (simp add: others_safe_def same_core_def)
  have enter: "?P (m2\<lparr>mm_hot := snd (commit_upsert p (mm_hot m))\<rparr>)"
    if "prepare_upsert to_vec (mm_hot m) key v c now = Some (Inr p)" "demote_victims B (pu_victims p) m = (Inr (), m1)"
      "mm_warm m2 = mm_warm m1" "mm_cold m2 = mm_cold m1" "mm_frozen m2 = mm_frozen m1" "mm_policy m2 = mm_policy m1"
    for to_vec c p m1 m2
  proof -
    have "safe_below warm_at cold_at frozen_at (m2\<lparr>mm_hot := snd (commit_upsert p (mm_hot m))\<rparr>) k e
        \<longleftrightarrow> safe_below warm_at cold_at frozen_at m1 k e" for k e
      by (rule safe_below_cong) (simp_all add: that(3-6))
    with admission_safe [OF inv keys(1) that(1,2)] demote_victims_core [OF that(2)] show ?thesis
      by (auto simp: others_safe_def same_core_def that(3-6))
  qed
  have hot: "?P m1" if "manager_hot_upsert B key v c now m = Some (q, m1)" for c q m1
    using that
  proof (cases rule: manager_hot_upsert_cases)
    case (admitted p m0)
    from enter [OF admitted(1,2) refl refl refl refl] admitted(4) show ?thesis by simp
  qed (use start stay in blast)+
  show ?thesis
  proof (cases "class_named (mm_policy m) cn")
    case (Inl x)
    with run start show ?thesis by (simp add: upsert_at_def)
  next
    case (Inr c)
    have first: "?P m1" if "upsert_by_policy B key v c now m = Some (q, m1)" for q m1
    proof -
      have imm: "?P m1" if "upsert_immediate B key v c now m = Some (q, m1)"
        using that
      proof (cases rule: upsert_immediate_cases)
        case (failed p m0 x)
        have "safe_below warm_at cold_at frozen_at m1 k e \<longleftrightarrow> safe_below warm_at cold_at frozen_at m0 k e" for k e
          by (rule safe_below_cong) (simp_all add: persist_now_frame [OF failed(3)])
        with stay [OF failed(1,2)] persist_now_frame [OF failed(3)] show ?thesis
          by (simp add: others_safe_def)
      next
        case (written p m0 m2)
        from enter [OF written(1,2) persist_now_frame(3-5) [OF written(3)] persist_now_frame(1) [OF written(3)]] written(5)
        show ?thesis by simp
      qed (use start stay in blast)+
      have tail: "?P m1" if "seq (seq (manager_hot_upsert B key v c now) g) (\<lambda>m. Some (Inr (), m)) m = Some (q, m1)"
        "keeps ?P g" for g :: "(('w, 'c, 'f, 'k, 'r) manager, nat) action"
      proof -
        from that(1) obtain q' where "seq (manager_hot_upsert B key v c now) g m = Some (q', m1)"
          by (auto simp: seq_Some)
        then show ?thesis
          unfolding seq_Some by (elim disjE exE conjE) (rule hot, assumption, rule keepsD [OF that(2) hot])
      qed
      have deferred: "keeps ?P (\<lambda>m. case cp_flush c of None \<Rightarrow> None
        | Some flush_after \<Rightarrow>
            (case deferred_enqueue (record_for key v c) flush_after now (mm_deferred m) of
               (force, q) \<Rightarrow> Some (flush_deferred_at B now force (m\<lparr>mm_deferred := q\<rparr>))))"
      proof (rule keepsI)
        fix m1 y m2 assume P1: "?P m1" and "(case cp_flush c of None \<Rightarrow> None
          | Some flush_after \<Rightarrow>
              (case deferred_enqueue (record_for key v c) flush_after now (mm_deferred m1) of
                 (force, q) \<Rightarrow> Some (flush_deferred_at B now force (m1\<lparr>mm_deferred := q\<rparr>)))) = Some (y, m2)"
        then obtain force q where "Some (flush_deferred_at B now force (m1\<lparr>mm_deferred := q\<rparr>)) = Some (y, m2)"
          by (auto split: option.splits prod.splits)
        with keepsD [OF ks(1) ks(4) [OF P1]] show "?P m2" by blast
      qed
      have mirror: "keeps ?P (\<lambda>m. if should_mirror_warm c
          then Some (warm_put B key \<lparr> te_class = cp_name c, te_value = v \<rparr> m) else Some (Inr (), m))"
        using ks(2) by (cases "should_mirror_warm c") simp_all
      from that show ?thesis
        using imm tail [OF _ deferred] tail [OF _ ks(1) [of now False]] tail [OF _ keeps_seq [OF mirror ks(1) [of now False]]]
        by (cases "cp_policy c")
          (simp_all add: upsert_by_policy_def upsert_volatile_def upsert_cache_def upsert_deferred_def)
    qed
    have last: "keeps ?P (\<lambda>m. if cp_temperature c = Frozen
        then Some (archive_put B key \<lparr> te_class = cp_name c, te_value = v \<rparr> m) else Some (Inr (), m))"
      using ks(3) by (cases "cp_temperature c = Frozen") simp_all
    from run Inr have "seq (upsert_by_policy B key v c now) (\<lambda>m. if cp_temperature c = Frozen
        then Some (archive_put B key \<lparr> te_class = cp_name c, te_value = v \<rparr> m) else Some (Inr (), m)) m = Some (r, m')"
      by (simp add: upsert_at_def)
    then have "?P m'"
      unfolding seq_Some by (elim disjE exE conjE) (rule first, assumption, rule keepsD [OF last first])
    then show ?thesis by simp
  qed
qed

end

section \<open>The stores of the crate\<close>

definition noop_backends ::
  "'k sink \<Rightarrow> 'r rebuild_hook \<Rightarrow> (json \<Rightarrow> string) \<Rightarrow> (unit, unit, unit, 'k, 'r) backends" where
  "noop_backends sink hook to_vec =
     \<lparr> bk_warm = noop_store, bk_cold = noop_cold, bk_frozen = noop_store, bk_persist = sink,
       bk_rebuild = hook, bk_to_vec = to_vec \<rparr>"

definition recording_backends ::
  "(json \<Rightarrow> string) \<Rightarrow> (recording_store, recording_store, recording_store, recording_sink, map_rebuild_hook) backends" where
  "recording_backends to_vec =
     \<lparr> bk_warm = recording_ops, bk_cold = recording_cold, bk_frozen = recording_frozen,
       bk_persist = recording_persist, bk_rebuild = map_rebuild, bk_to_vec = to_vec \<rparr>"

abbreviation recorded :: "recording_store \<Rightarrow> string \<Rightarrow> tier_entry option" where
  "recorded \<equiv> \<lambda>s. hm_get (rc_entries s)"

lemma recording_backends_simps [simp]:
  "bk_warm (recording_backends to_vec) = recording_ops" "bk_cold (recording_backends to_vec) = recording_cold"
  "bk_frozen (recording_backends to_vec) = recording_frozen" "bk_persist (recording_backends to_vec) = recording_persist"
  "bk_rebuild (recording_backends to_vec) = map_rebuild" "bk_to_vec (recording_backends to_vec) = to_vec"
  by (simp_all add: recording_backends_def)

lemma noop_backends_simps [simp]:
  "bk_warm (noop_backends sink hook to_vec) = noop_store" "bk_cold (noop_backends sink hook to_vec) = noop_cold"
  "bk_frozen (noop_backends sink hook to_vec) = noop_store"
  by (simp_all add: noop_backends_def)

interpretation recorded: jme_retaining "recording_backends to_vec"
    "\<lambda>_. True" recorded "\<lambda>_. True" recorded "\<lambda>_. True" recorded UNIV for to_vec
  by unfold_locales (auto simp: recording_defs)

interpretation no_levels: jme_levels "noop_backends sink hook to_vec"
    "\<lambda>_. True" "\<lambda>_ _. None" "\<lambda>_. True" "\<lambda>_ _. None" "\<lambda>_. True" "\<lambda>_ _. None" UNIV for sink hook to_vec
  by unfold_locales (auto simp: noop_defs)

section \<open>Properties\<close>

text \<open>
  C16. A get answers with the live value in Hot, else with the copy of the first level below that
  can be read and has one, in the order Warm, Cold, Frozen and however old that copy is; a level
  whose read fails is passed over as if it had none. When no level has one, the answer is what the
  rebuild hook makes for a key whose class names it, and otherwise nothing. The stores are any that
  satisfy the contract \<open>tier_store\<close>; their reads may fail.
\<close>

theorem get_answers_first_level:
  assumes "jme_levels B w_inv warm_at c_inv cold_at f_inv frozen_at keys"
    and "w_inv (mm_warm m)" "c_inv (mm_cold m)" "f_inv (mm_frozen m)" "key \<in> keys" "hm_wf (hs_entries (mm_hot m))"
    and "get_at B key now m = Some (x, m')"
  shows "x =
    (case live_value (mm_hot m) key now of
       Some v \<Rightarrow> Some v
     | None \<Rightarrow>
         (case first_copy (readable (bk_warm B) (mm_warm m) key (warm_at (mm_warm m) key))
                 (readable (bk_cold B) (mm_cold m) key (cold_at (mm_cold m) key))
                 (readable (bk_frozen B) (mm_frozen m) key (frozen_at (mm_frozen m) key)) of
            Some e \<Rightarrow> Some (te_value e)
          | None \<Rightarrow> rebuilt_value B key m))"
  using assms by (rule jme_levels.get_first)

definition example_cold_class :: class_policy where
  "example_cold_class = \<lparr> cp_name = ''c'', cp_policy = Cache, cp_temperature = Cold, cp_ttl = Some 5, cp_flush = None,
     cp_priority = Normal, cp_demote_after = None, cp_rebuild = None \<rparr>"

definition example_policy :: "(string \<times> class_policy) list \<Rightarrow> memory_policy" where
  "example_policy classes = \<lparr> mp_max_entries = 1, mp_max_hot_bytes = 100, mp_max_pending_deferred = 2,
     mp_default_priority = Normal, mp_warm_backend = NoWarm, mp_warm_url_env = [], mp_warm_key_prefix = [],
     mp_cold_backend = SegmentedCold, mp_cold_path = Some ''cold'', mp_cold_segment_max_bytes = 4096,
     mp_cold_max_disk_bytes = None, mp_cold_mmap = True, mp_frozen_backend = NoFrozen, mp_frozen_path = None,
     mp_classes = classes \<rparr>"

definition example_manager ::
  "recording_sink option \<Rightarrow> (string \<times> class_policy) list
    \<Rightarrow> (recording_store, recording_store, recording_store, recording_sink, map_rebuild_hook) manager" where
  "example_manager sink classes =
     (let none = \<lparr> rc_entries = [], rc_puts = 0, rc_removes = 0 \<rparr>
      in manager_build (example_policy classes) sink none none None none)"

abbreviation example_backends where
  "example_backends \<equiv> recording_backends (\<lambda>_. ''value'')"

section \<open>A run over the stores in memory\<close>

definition first_write :: hot_entry where
  "first_write = \<lparr> he_class = ''c'', he_value = JBool True, he_priority = Normal, he_expires_at = Some (5 * nanos),
     he_last_access = 0, he_access_count = 1, he_demote_after = None, he_size = 5 \<rparr>"

definition second_write :: hot_entry where
  "second_write = first_write\<lparr>he_value := JBool False, he_expires_at := Some (6 * nanos), he_last_access := nanos\<rparr>"

definition hot_with :: "(string \<times> hot_entry) list \<Rightarrow> nat \<Rightarrow> hot_store" where
  "hot_with es evictions =
     \<lparr> hs_entries = es, hs_max_entries = 1, hs_max_bytes = 100, hs_evictions = evictions, hs_expired_removals = 0 \<rparr>"

definition cold_first :: recording_store where
  "cold_first = \<lparr> rc_entries = [(''k'', \<lparr> te_class = ''c'', te_value = JBool True \<rparr>)], rc_puts = 1, rc_removes = 0 \<rparr>"

definition at_start where
  "at_start = example_manager None [(''c'', example_cold_class)]"

definition after_first where
  "after_first = at_start\<lparr>mm_hot := hot_with [(''k'', first_write)] 0\<rparr>"

definition after_pressure where
  "after_pressure = at_start\<lparr>mm_hot := hot_with [] 1, mm_cold := cold_first, mm_cold_puts := 1, mm_demotions := 1\<rparr>"

definition after_second where
  "after_second = after_pressure\<lparr>mm_hot := hot_with [(''k'', second_write)] 1\<rparr>"

lemmas manager_defs = Let_def example_manager_def example_policy_def example_cold_class_def manager_build_def hot_new_def
  with_max_bytes_def deferred_new_def hot_with_def cold_first_def
lemmas hot_defs = prepare_upsert_def purge_expired_def sat_add_def u64_max_def nanos_def instant_add_def over_limit_def
  slots_needed_def resident_bytes_def live_entries_def total_bytes_def expired_def select_victims.simps commit_upsert_def
  reclaim_one_def evict_one_def min_by_def victim_before_def victim_key_def candidate_def drop_victim_def hot_get_def entry_bytes_def
lemmas deferred_defs = flush_deferred_at_def take_ready_def drain_all_def deferred_enqueue_def due_def
lemmas manager_op_defs = upsert_at_def upsert_by_policy_def upsert_cache_def upsert_deferred_def seq_def should_mirror_warm_def
  should_archive_frozen_def should_archive_cold_def class_named_def Let_def manager_hot_upsert_def
  demote_or_drop_def notify_pressure_def get_at_def or_else_def get_from_hot_def promote_def
  promote_from_warm_def promote_from_cold_def
lemmas run_defs = less_priority_def hot_defs deferred_defs manager_op_defs manager_defs recording_defs
  at_start_def after_first_def after_pressure_def after_second_def first_write_def second_write_def

lemma first_run:
  "upsert_at example_backends ''k'' (JBool True) ''c'' 0 at_start = Some (Inr (), after_first)"
  by (simp add: run_defs)

lemma pressure_run: "notify_pressure example_backends 0 after_first = (Inr True, after_pressure)"
  by (simp add: run_defs)

lemma second_run:
  "upsert_at example_backends ''k'' (JBool False) ''c'' nanos after_pressure = Some (Inr (), after_second)"
  by (simp add: run_defs)

lemma late_read: "\<exists>x m'. get_at example_backends ''k'' (100 * nanos) after_second = Some (x, m')"
  by (simp add: run_defs)

text \<open>
  A value is written at 0 with five seconds to live and demoted to Cold; another is written at one
  second. A hundred seconds later the get answers with the first.
\<close>

theorem get_answers_first_level_witness:
  "upsert_at example_backends ''k'' (JBool True) ''c'' 0 at_start = Some (Inr (), after_first) \<and>
   notify_pressure example_backends 0 after_first = (Inr True, after_pressure) \<and>
   upsert_at example_backends ''k'' (JBool False) ''c'' nanos after_pressure = Some (Inr (), after_second) \<and>
   (\<exists>m'. get_at example_backends ''k'' (100 * nanos) after_second = Some (Some (JBool True), m'))"
proof -
  obtain x m' where get: "get_at example_backends ''k'' (100 * nanos) after_second = Some (x, m')"
    using late_read by blast
  have "x = Some (JBool True)"
    using get_answers_first_level [OF recorded.levels.jme_levels_axioms _ _ _ _ _ get]
    by (simp add: readable_def hm_wf_def recording_defs live_value_def first_copy_def expired_def
        after_second_def second_write_def first_write_def after_pressure_def at_start_def manager_defs nanos_def)
  with get first_run pressure_run second_run show ?thesis by blast
qed

text \<open>
  C17. A removal that no store refuses leaves no copy of the key in any level and says whether there
  was one. A get afterwards finds nothing in the levels, readable or not: it answers with what the
  rebuild hook makes for a key whose class names it, and with nothing when there is no hook.
\<close>

theorem remove_forgets:
  assumes levels: "jme_levels B w_inv warm_at c_inv cold_at f_inv frozen_at keys"
    and "w_inv (mm_warm m)" "c_inv (mm_cold m)" "f_inv (mm_frozen m)" "key \<in> keys" "hm_wf (hs_entries (mm_hot m))"
    and "is_ok (fst (so_remove (bk_warm B) (mm_warm m) key))" "is_ok (fst (so_remove (bk_cold B) (mm_cold m) key))"
      "is_ok (fst (so_remove (bk_frozen B) (mm_frozen m) key))"
    and run: "manager_remove B key m = (b, m')"
    and get: "get_at B key now m' = Some (x, m2)"
  shows "hm_get (hs_entries (mm_hot m')) key = None \<and> warm_at (mm_warm m') key = None \<and>
    cold_at (mm_cold m') key = None \<and> frozen_at (mm_frozen m') key = None \<and>
    (b \<longleftrightarrow> hm_get (hs_entries (mm_hot m)) key \<noteq> None \<or> warm_at (mm_warm m) key \<noteq> None \<or>
       cold_at (mm_cold m) key \<noteq> None \<or> frozen_at (mm_frozen m) key \<noteq> None) \<and>
    x = rebuilt_value B key m \<and> (mm_rebuild m = None \<longrightarrow> x = None)"
proof -
  note gone = jme_levels.remove_all [OF levels assms(2-5) assms(7-9) run]
  have m': "hm_wf (hs_entries (mm_hot m'))" "mm_rebuild m' = mm_rebuild m" "mm_policy m' = mm_policy m"
    using run assms(6) by (auto simp: manager_remove_def hot_remove_def split: prod.splits)
  with jme_levels.get_first [OF levels _ _ _ assms(5) _ get] gone
  have "x = rebuilt_value B key m'" by (simp add: live_value_def first_copy_def readable_def)
  then have x: "x = rebuilt_value B key m" using m' rebuilt_value_cong by metis
  then have "x = None" if "mm_rebuild m = None"
    using that by (simp add: rebuilt_value_def split: option.split sum.split)
  with gone x show ?thesis by simp
qed

definition after_remove where
  "after_remove = after_second\<lparr>mm_hot := hot_with [] 1, mm_cold := cold_first\<lparr>rc_entries := []\<rparr>,
     mm_warm := \<lparr> rc_entries = [], rc_puts = 0, rc_removes = 1 \<rparr>\<rparr>"

lemma remove_run: "manager_remove example_backends ''k'' after_second = (True, after_remove)"
  by (simp add: run_defs after_remove_def manager_remove_def hot_remove_def unwrap_or_false_def)

lemma read_removed: "\<exists>x m'. get_at example_backends ''k'' (2 * nanos) after_remove = Some (x, m')"
  by (simp add: run_defs after_remove_def promote_from_frozen_def rebuild_from_hook_def class_of_key_def)

theorem remove_forgets_witness:
  "manager_remove example_backends ''k'' after_second = (True, after_remove) \<and>
   (\<exists>m'. get_at example_backends ''k'' (2 * nanos) after_remove = Some (None, m'))"
proof -
  obtain x m' where get: "get_at example_backends ''k'' (2 * nanos) after_remove = Some (x, m')"
    using read_removed by blast
  have "x = None"
    using remove_forgets [OF recorded.levels.jme_levels_axioms _ _ _ _ _ _ _ _ remove_run get]
    by (simp add: rebuilt_value_def class_of_key_def hm_wf_def recording_defs after_second_def after_pressure_def at_start_def
        second_write_def first_write_def manager_defs)
  with get remove_run show ?thesis by blast
qed

text \<open>
  C18. A write, even one that fails, loses no live entry of another key whose class has a level below
  Hot to go to: it is still in Hot, or that level holds a copy of its value. The level is Frozen for the
  classes that are archived there, Cold for the cached ones that name it, Warm for those that are
  mirrored there (\<open>safe_below\<close>); the stores keep what they accept (\<open>retaining_store\<close>, which the
  stand-in of a level that is not configured is not). The live entries of every other class, the
  volatile ones and the cached ones that stay in Hot among them, are dropped when Hot is full, and so
  is one whose class is not of the policy; what sinks hold of them is C19.
\<close>

theorem eviction_keeps_copies:
  assumes levels: "jme_retaining B w_inv warm_at c_inv cold_at f_inv frozen_at keys"
    and "w_inv (mm_warm m)" "c_inv (mm_cold m)" "f_inv (mm_frozen m)" "hm_wf (hs_entries (mm_hot m))"
    and "fst ` set (hs_entries (mm_hot m)) \<subseteq> keys" "key \<in> keys"
    and run: "upsert_at B key v cn now m = Some (r, m')"
    and entry: "hm_get (hs_entries (mm_hot m)) k = Some e" "k \<noteq> key" "\<not> expired now e"
  shows "hm_get (hs_entries (mm_hot m')) k = Some e \<or> safe_below warm_at cold_at frozen_at m' k e"
  using jme_retaining.upsert_others_safe [OF levels assms(2-7) run] entry by (auto simp: others_safe_def)

lemma crowded_run: "\<exists>m'. upsert_at example_backends ''j'' JNull ''c'' 0 after_first = Some (Inr (), m') \<and>
    hm_get (hs_entries (mm_hot m')) ''k'' = None"
  by (simp add: run_defs)

theorem eviction_keeps_copies_witness:
  "\<exists>m'. upsert_at example_backends ''j'' JNull ''c'' 0 after_first = Some (Inr (), m') \<and>
     hm_get (hs_entries (mm_hot m')) ''k'' = None \<and>
     safe_below recorded recorded recorded m' ''k'' first_write"
proof -
  obtain m' where run: "upsert_at example_backends ''j'' JNull ''c'' 0 after_first = Some (Inr (), m')"
    and gone: "hm_get (hs_entries (mm_hot m')) ''k'' = None"
    using crowded_run by blast
  have "hm_get (hs_entries (mm_hot m')) ''k'' = Some first_write \<or> safe_below recorded recorded recorded m' ''k'' first_write"
    by (rule eviction_keeps_copies [OF recorded.jme_retaining_axioms _ _ _ _ _ _ run])
      (simp_all add: hm_wf_def after_first_def at_start_def manager_defs first_write_def expired_def nanos_def)
  with run gone show ?thesis by auto
qed

end
