(* ===== verification/Jme_Durability.thy ===== *)
theory Jme_Durability
  imports Jme_Levels
begin

text \<open>
  What the domain memory persists. The abstract state is the durable write of each key: the one
  that waits in the queue of deferred writes, else the last in the log of the sink. A write adds
  its record to it as its policy says; no other operation changes it.
\<close>

section \<open>The durable writes of a manager\<close>

definition durable_is ::
  "('k \<Rightarrow> persist_record list \<Rightarrow> bool) \<Rightarrow> (string \<Rightarrow> persist_record option) \<Rightarrow> ('w, 'c, 'f, 'k, 'r) manager \<Rightarrow> bool" where
  "durable_is log_is D m \<longleftrightarrow>
     policy_wf (mm_policy m) \<and> queue_wf (mm_deferred m) \<and>
     (\<exists>s l. mm_persist m = Some s \<and> log_is s l \<and> durable (mm_deferred m) l = D)"

locale durable_sinks = persist_sink "bk_persist B" log_is
  for B :: "('w, 'c, 'f, 'k, 'r) backends" and log_is
begin

lemma flush_durable_is:
  assumes "durable_is log_is D m"
  shows "durable_is log_is D (snd (flush_deferred_at B now force m))"
proof -
  obtain s l where m: "mm_persist m = Some s" "log_is s l" "durable (mm_deferred m) l = D"
      "queue_wf (mm_deferred m)" "policy_wf (mm_policy m)"
    using assms by (auto simp: durable_is_def)
  obtain batch q where take: "take_ready now force (mm_deferred m) = (batch, q)" by fastforce
  obtain n f s' where run: "persist_batch (bk_persist B) s batch = (n, f, s')" by (rule prod_cases3)
  note flushed = flush_durable [OF m(4,2) take run]
  show ?thesis
  proof (cases "batch = []")
    case True
    with run have "f = None" by simp
    with flushed True have "queue_wf q" "durable q l = D" using m(3) by auto
    then show ?thesis using take True m by (auto simp: flush_deferred_at_def durable_is_def)
  next
    case False
    then show ?thesis
      using take m run flushed
      by (cases f) (auto simp: flush_deferred_at_def durable_is_def Let_def)
  qed
qed

end

sublocale durable_sinks \<subseteq> view: manager_invariant B "durable_is log_is D" for D
  by unfold_locales (simp_all add: flush_durable_is, simp_all add: durable_is_def same_core_def)

lemma persist_batch_works:
  assumes "\<And>s r. good s \<Longrightarrow> \<exists>s'. persist s r = (Inr (), s') \<and> good s'" and "good s"
  shows "\<exists>s'. persist_batch persist s rs = (length rs, None, s') \<and> good s'"
  using assms(2)
proof (induction rs arbitrary: s)
  case Nil
  then show ?case by simp
next
  case (Cons r rs)
  from assms(1) [OF Cons.prems] obtain s1 where s1: "persist s r = (Inr (), s1)" "good s1" by blast
  from Cons.IH [OF s1(2)] s1(1) show ?case by auto
qed

lemma last_of_snoc: "last_of (l @ [r]) k = (if pr_key r = k then Some r else last_of l k)"
  by (simp add: last_of_def)

lemma durable_snoc:
  "durable q (l @ [r]) =
     (if map_of (dq_items q) (pr_key r) = None then (durable q l)(pr_key r \<mapsto> r) else durable q l)"
  by (auto simp: durable_def last_of_snoc fun_eq_iff split: option.splits)

lemma record_for_key [simp]: "pr_key (record_for key v c) = key"
  by (simp add: record_for_def)

context durable_sinks
begin

lemma persist_now_log:
  assumes "mm_persist m = Some s" "log_is s l" "persist_now B r m = (q, m')"
  shows "\<exists>s' l'. mm_persist m' = Some s' \<and> log_is s' l' \<and> (l' = l \<or> l' = l @ [r]) \<and> (is_ok q \<longrightarrow> l' = l @ [r])"
  using assms persist_ok [OF assms(2)] persist_error [OF assms(2)]
  by (fastforce simp: persist_now_def split: prod.splits sum.splits)

lemma immediate_log:
  assumes "mm_persist m = Some s" "log_is s l" "upsert_immediate B key v c now m = Some (r, m')"
  shows "\<exists>s' l'. mm_persist m' = Some s' \<and> log_is s' l' \<and>
    mm_policy m' = mm_policy m \<and> mm_deferred m' = mm_deferred m \<and>
    (l' = l \<or> l' = l @ [record_for key v c]) \<and>
    (is_ok r \<or> mm_hot m' \<noteq> mm_hot m \<longrightarrow> l' = l @ [record_for key v c])"
  using assms(3)
proof (cases rule: upsert_immediate_cases)
  case (refused x)
  with assms show ?thesis by auto
next
  case (kept p x)
  with assms demote_victims_core [OF kept(2)] show ?thesis by (auto simp: same_core_def)
next
  case (failed p m1 x)
  note core = demote_victims_core [OF failed(2)] and frame = persist_now_frame [OF failed(3)]
  have "mm_persist m1 = Some s" using core assms(1) by (simp add: same_core_def)
  from persist_now_log [OF this assms(2) failed(3)] core frame failed(4) show ?thesis by (auto simp: same_core_def)
next
  case (written p m1 m2)
  note core = demote_victims_core [OF written(2)] and frame = persist_now_frame [OF written(3)]
  have "mm_persist m1 = Some s" using core assms(1) by (simp add: same_core_def)
  from persist_now_log [OF this assms(2) written(3)] core frame written(5) show ?thesis by (auto simp: same_core_def)
qed

lemma deferred_durable:
  assumes D: "durable_is log_is D m" and run: "upsert_deferred B key v c now m = Some (r, m')"
  shows "\<exists>D'. durable_is log_is D' m' \<and> (D' = D \<or> D' = D(key \<mapsto> record_for key v c)) \<and>
    (is_ok r \<longrightarrow> D' = D(key \<mapsto> record_for key v c))"
proof -
  from run consider x where "manager_hot_upsert B key v c now m = Some (Inl x, m')" "r = Inl x"
    | a m1 where "manager_hot_upsert B key v c now m = Some (Inr a, m1)"
        "(case cp_flush c of
          None \<Rightarrow> None
        | Some flush_after \<Rightarrow>
            (case deferred_enqueue (record_for key v c) flush_after now (mm_deferred m1) of
               (force, q) \<Rightarrow> Some (flush_deferred_at B now force (m1\<lparr>mm_deferred := q\<rparr>)))) = Some (r, m')"
    unfolding upsert_deferred_def seq_Some by blast
  then show ?thesis
  proof cases
    case (1 x)
    with keepsD [OF view.hot_upsert D 1(1)] show ?thesis by auto
  next
    case (2 a m1)
    have D1: "durable_is log_is D m1" by (rule keepsD [OF view.hot_upsert D 2(1)])
    obtain d force q where q: "deferred_enqueue (record_for key v c) d now (mm_deferred m1) = (force, q)"
      and m': "m' = snd (flush_deferred_at B now force (m1\<lparr>mm_deferred := q\<rparr>))"
      using 2(2) by (auto split: option.splits prod.splits dest: arg_cong [of _ _ snd])
    have "durable_is log_is (D(key \<mapsto> record_for key v c)) (m1\<lparr>mm_deferred := q\<rparr>)"
      using D1 queue_wf_enqueue [OF _ q] by (auto simp: durable_is_def)
    from flush_durable_is [OF this] have "durable_is log_is (D(key \<mapsto> record_for key v c)) m'" by (simp add: m')
    then show ?thesis by blast
  qed
qed

text \<open>Every policy: what a write does to the durable writes.\<close>

lemma by_policy_durable:
  assumes D: "policy_wf (mm_policy m)" "queue_wf (mm_deferred m)" "mm_persist m = Some s" "log_is s l"
    and run: "upsert_by_policy B key v c now m = Some (r, m')"
  shows "\<exists>s' l'. mm_persist m' = Some s' \<and> log_is s' l' \<and> policy_wf (mm_policy m') \<and> queue_wf (mm_deferred m') \<and>
    (let D = durable (mm_deferred m) l; D' = durable (mm_deferred m') l'; r' = record_for key v c
     in (case cp_policy c of
           Deferred \<Rightarrow> D' = D \<and> \<not> is_ok r \<or> D' = D(key \<mapsto> r')
         | Volatile \<Rightarrow> D' = D
         | Cache \<Rightarrow> D' = D
         | _ \<Rightarrow> mm_deferred m' = mm_deferred m \<and>
             (l' = l \<and> mm_hot m' = mm_hot m \<and> \<not> is_ok r \<or> l' = l @ [r'])))"
proof -
  let ?D = "durable (mm_deferred m) l"
  have view: "durable_is log_is ?D m" using D by (auto simp: durable_is_def)
  show ?thesis
  proof (cases "cp_policy c \<in> {Immediate, Persistent}")
    case True
    with run have "upsert_immediate B key v c now m = Some (r, m')" by (auto simp: upsert_by_policy_def)
    from immediate_log [OF D(3,4) this] True D show ?thesis
      by (auto simp: Let_def)
  next
    case False
    show ?thesis
    proof (cases "cp_policy c = Deferred")
      case deferred: True
      then obtain q where up: "upsert_deferred B key v c now m = Some (q, m')" "is_ok q \<longleftrightarrow> is_ok r"
        using run by (auto simp: upsert_by_policy_def seq_Some)
      from deferred_durable [OF view up(1)] up(2) deferred show ?thesis by (auto simp: durable_is_def Let_def)
    next
      case False
      with \<open>cp_policy c \<notin> _\<close> have c: "cp_policy c = Volatile \<or> cp_policy c = Cache" by (cases "cp_policy c") auto
      then have "keeps (durable_is log_is ?D) (upsert_by_policy B key v c now)"
        by (auto simp: upsert_by_policy_def intro!: keeps_seq view.volatile view.cache)
      from keepsD [OF this view run] c show ?thesis by (auto simp: durable_is_def Let_def)
    qed
  qed
qed

text \<open>What is not a write keeps the durable writes.\<close>

lemma upkeep_view:
  assumes "durable_is log_is D m"
    and "get_at B key now m = Some (x, m') \<or> manager_remove B key m = (b, m') \<or>
      notify_pressure B now m = (p, m') \<or> manager_flush B now m = (n, m') \<or> manager_poll B now m = (n, m')"
  shows "durable_is log_is D m'"
  using assms(2) flush_durable_is [OF assms(1), of now True]
  by (auto simp: manager_flush_def
      intro: view.get [OF assms(1)] view.remove [OF assms(1)] view.pressure [OF assms(1)] view.poll [OF assms(1)])

end

interpretation recorded_sinks: durable_sinks "recording_backends to_vec" "\<lambda>s l. sk_records s = l" for to_vec
  by unfold_locales (auto simp: recording_persist_def split: if_splits)

interpretation file_sinks: durable_sinks "noop_backends (jsonl_persist line) hook to_vec" "jsonl_log line" for line hook to_vec
  by (simp add: durable_sinks_def noop_backends_def jsonl.persist_sink_axioms)

section \<open>Properties\<close>

text \<open>
  C19. What a write makes durable, on every policy and whatever fails: an immediate or persistent
  write reaches the sink before Hot changes and before it is acknowledged; a deferred one that is
  acknowledged is in the log or waits in the queue, and supersedes the write that waited there;
  a volatile one and a cached one leave the durable writes as they were. No write touches those
  of another key. An immediate write does not replace the one that waits for the same key.
\<close>

theorem upsert_durable:
  assumes "durable_sinks B log_is"
    and m: "policy_wf (mm_policy m)" "queue_wf (mm_deferred m)" "mm_persist m = Some s" "log_is s l"
    and c: "class_named (mm_policy m) cn = Inr c" and run: "upsert_at B key v cn now m = Some (r, m')"
  shows "\<exists>s' l'. mm_persist m' = Some s' \<and> log_is s' l' \<and> queue_wf (mm_deferred m') \<and>
    (let D = durable (mm_deferred m) l; D' = durable (mm_deferred m') l'; r' = record_for key v c
     in (case cp_policy c of
           Deferred \<Rightarrow> D' = D(key \<mapsto> r') \<or> D' = D \<and> \<not> is_ok r
         | Volatile \<Rightarrow> D' = D
         | Cache \<Rightarrow> D' = D
         | _ \<Rightarrow> mm_deferred m' = mm_deferred m \<and>
             (l' = l @ [r'] \<or> l' = l \<and> mm_hot m' = mm_hot m \<and> \<not> is_ok r)))"
proof -
  let ?archive = "\<lambda>m. if cp_temperature c = Frozen
    then Some (archive_put B key \<lparr> te_class = cp_name c, te_value = v \<rparr> m) else Some (Inr (), m)"
  have archive: "?archive m1 = Some (r, m') \<Longrightarrow> same_core m1 m'" for m1
    by (auto split: if_splits dest: archive_put_core)
  from run c obtain q m1 where up: "upsert_by_policy B key v c now m = Some (q, m1)"
    and core: "same_core m1 m'" and ok: "is_ok r \<Longrightarrow> is_ok q"
    using archive by (fastforce simp: upsert_at_def seq_Some)
  from durable_sinks.by_policy_durable [OF assms(1) m up] core ok show ?thesis
    by (cases "cp_policy c") (auto simp: same_core_def Let_def)
qed

text \<open>
  Reads, removals, memory pressure, flushes and upkeep neither lose nor add a durable write,
  whatever fails while they run. In particular the write that waits for a key that is removed
  still reaches the sink.
\<close>

theorem upkeep_durable:
  assumes "durable_sinks B log_is"
    and m: "policy_wf (mm_policy m)" "queue_wf (mm_deferred m)" "mm_persist m = Some s" "log_is s l"
    and run: "get_at B key now m = Some (x, m') \<or> manager_remove B key m = (b, m') \<or>
      notify_pressure B now m = (p, m') \<or> manager_flush B now m = (n, m') \<or> manager_poll B now m = (n, m')"
  shows "\<exists>s' l'. mm_persist m' = Some s' \<and> log_is s' l' \<and> queue_wf (mm_deferred m') \<and>
    durable (mm_deferred m') l' = durable (mm_deferred m) l"
proof -
  have "durable_is log_is (durable (mm_deferred m) l) m" using m by (auto simp: durable_is_def)
  from durable_sinks.upkeep_view [OF assms(1) this run] show ?thesis by (auto simp: durable_is_def)
qed

text \<open>
  A forced flush completes when the sink works: it reports as many records as waited, leaves
  the queue empty, and the log has them, in the order of their keys, after what it had.
\<close>

theorem flush_completes:
  assumes "durable_sinks B log_is"
    and works: "\<And>s r. good s \<Longrightarrow> \<exists>s'. bk_persist B s r = (Inr (), s') \<and> good s'"
    and m: "mm_persist m = Some s" "log_is s l" "good s"
  shows "\<exists>m' s'. manager_flush B now m = (Inr (length (dq_items (mm_deferred m))), m') \<and>
    dq_items (mm_deferred m') = [] \<and> mm_persist m' = Some s' \<and>
    log_is s' (l @ map (di_record \<circ> snd) (dq_items (mm_deferred m)))"
proof -
  let ?rs = "map (di_record \<circ> snd) (dq_items (mm_deferred m))"
  from persist_batch_works [of good "bk_persist B", OF works m(3)]
  obtain s' where run: "persist_batch (bk_persist B) s ?rs = (length ?rs, None, s')" by blast
  from persist_sink.persist_batch_log [OF durable_sinks.axioms [OF assms(1)] m(2) run]
  have "log_is s' (l @ ?rs)" by simp
  with m run show ?thesis
    by (cases "dq_items (mm_deferred m) = []")
      (auto simp: manager_flush_def flush_deferred_at_def take_ready_def drain_all_def Let_def)
qed

section \<open>Runs over the stores in memory\<close>

definition example_deferred_class :: class_policy where
  "example_deferred_class = \<lparr> cp_name = ''d'', cp_policy = Deferred, cp_temperature = Hot, cp_ttl = None,
     cp_flush = Some 60, cp_priority = Normal, cp_demote_after = None, cp_rebuild = None \<rparr>"

definition example_immediate_class :: class_policy where
  "example_immediate_class = example_deferred_class\<lparr>cp_name := ''i'', cp_policy := Immediate, cp_flush := None\<rparr>"

definition working_sink :: recording_sink where
  "working_sink = \<lparr> sk_records = [], sk_fail_next = False \<rparr>"

definition sink_start where
  "sink_start = example_manager (Some working_sink) [(''d'', example_deferred_class), (''i'', example_immediate_class)]"

abbreviation waiting_record where "waiting_record \<equiv> record_for ''k'' (JBool True) example_deferred_class"
abbreviation immediate_record where "immediate_record \<equiv> record_for ''k'' (JBool False) example_immediate_class"

definition waiting_entry :: hot_entry where
  "waiting_entry = first_write\<lparr>he_class := ''d'', he_expires_at := None\<rparr>"

definition waiting where
  "waiting = sink_start\<lparr>mm_hot := hot_with [(''k'', waiting_entry)] 0,
     mm_deferred := \<lparr> dq_items = [(''k'', \<lparr> di_record = waiting_record, di_enqueued_at = 0, di_flush_after = 60 \<rparr>)],
       dq_max_pending = 2, dq_flushes = 0, dq_enqueued = 1 \<rparr>\<rparr>"

definition overtaken where
  "overtaken = waiting\<lparr>mm_hot := hot_with [(''k'', waiting_entry\<lparr>he_class := ''i'', he_value := JBool False\<rparr>)] 0,
     mm_persist := Some (working_sink\<lparr>sk_records := [immediate_record]\<rparr>), mm_immediate_writes := 1\<rparr>"

definition forgotten where
  "forgotten = waiting\<lparr>mm_hot := hot_with [] 0, mm_warm := \<lparr> rc_entries = [], rc_puts = 0, rc_removes = 1 \<rparr>\<rparr>"

lemmas sink_defs = run_defs sink_start_def example_deferred_class_def example_immediate_class_def working_sink_def
  waiting_def waiting_entry_def overtaken_def forgotten_def record_for_def recording_persist_def

lemma waiting_run: "upsert_at example_backends ''k'' (JBool True) ''d'' 0 sink_start = Some (Inr (), waiting)"
  by (simp add: sink_defs)

lemma overtaken_run: "upsert_at example_backends ''k'' (JBool False) ''i'' 0 waiting = Some (Inr (), overtaken)"
  by (simp add: sink_defs upsert_immediate_def persist_now_def)

lemma forgotten_run: "manager_remove example_backends ''k'' waiting = (True, forgotten)"
  by (simp add: sink_defs manager_remove_def hot_remove_def unwrap_or_false_def)

lemma waiting_ok: "policy_wf (mm_policy waiting)" "queue_wf (mm_deferred waiting)"
   "mm_persist waiting = Some working_sink" "class_named (mm_policy waiting) ''i'' = Inr example_immediate_class"
   "durable (mm_deferred waiting) [] ''k'' = Some waiting_record"
  by (simp_all add: waiting_def sink_start_def policy_wf_def class_wf_def queue_wf_def bt_wf_def manager_defs
      example_deferred_class_def example_immediate_class_def class_named_def record_for_def durable_def duration_ok_def u64_max_def)

lemma overtaken_sink: "mm_persist overtaken = Some (working_sink\<lparr>sk_records := [immediate_record]\<rparr>)"
  by (simp add: overtaken_def)

lemma recording_works:
  "\<not> sk_fail_next s \<Longrightarrow>
     \<exists>s'. bk_persist (recording_backends to_vec) s r = (Inr (), s') \<and> \<not> sk_fail_next s'"
  by (simp add: recording_persist_def)

text \<open>The immediate write is acknowledged and in the log, and the older one waits behind it.\<close>

theorem upsert_durable_witness:
  "upsert_at example_backends ''k'' (JBool False) ''i'' 0 waiting = Some (Inr (), overtaken) \<and>
   mm_deferred overtaken = mm_deferred waiting \<and>
   (\<exists>s. mm_persist overtaken = Some s \<and> sk_records s = [immediate_record])"
proof -
  have log: "sk_records working_sink = []" by (simp add: working_sink_def)
  from upsert_durable [OF recorded_sinks.durable_sinks_axioms waiting_ok(1-3) log waiting_ok(4) overtaken_run]
  have "mm_deferred overtaken = mm_deferred waiting \<and> (\<exists>s. mm_persist overtaken = Some s \<and> sk_records s = [immediate_record])"
    by (auto simp: example_immediate_class_def)
  with overtaken_run show ?thesis by blast
qed

text \<open>The key is removed and its write still waits.\<close>

theorem upkeep_durable_witness:
  "manager_remove example_backends ''k'' waiting = (True, forgotten) \<and>
   (\<exists>s. mm_persist forgotten = Some s \<and>
      durable (mm_deferred forgotten) (sk_records s) ''k'' = Some waiting_record)"
proof -
  have log: "sk_records working_sink = []" by (simp add: working_sink_def)
  have "\<exists>s' l'. mm_persist forgotten = Some s' \<and> sk_records s' = l' \<and> queue_wf (mm_deferred forgotten) \<and>
      durable (mm_deferred forgotten) l' = durable (mm_deferred waiting) []"
    by (rule upkeep_durable [OF recorded_sinks.durable_sinks_axioms waiting_ok(1-3) log])
      (use forgotten_run in blast)
  with forgotten_run waiting_ok(5) show ?thesis by auto
qed

text \<open>The flush puts the older write after the newer one, so that a restart sees the older.\<close>

theorem flush_completes_witness:
  "\<exists>m' s'. manager_flush example_backends 0 overtaken = (Inr 1, m') \<and> mm_persist m' = Some s' \<and>
     sk_records s' = [immediate_record, waiting_record]"
  using flush_completes [OF recorded_sinks.durable_sinks_axioms [of "\<lambda>_. ''value''"] recording_works overtaken_sink refl,
      where now = 0]
  by (auto simp: overtaken_def waiting_def working_sink_def)

text \<open>\<open>Jme_Manager.hot_bounds_hold\<close> on the run of \<open>Jme_Levels\<close>, in which Hot has one place.\<close>

theorem hot_bounds_hold_witness:
  "manager_reachable example_backends at_start after_second \<and>
   length (hs_entries (mm_hot after_second)) \<le> 1 \<and> hx_bytes (hot_metrics_of (mm_hot after_second)) \<le> 100"
proof -
  let ?policy = "example_policy [(''c'', example_cold_class)]"
  have reach: "manager_reachable example_backends at_start after_second"
    by (blast intro: manager_reachable.intros step_upsert [OF first_run] step_pressure [OF pressure_run]
        step_upsert [OF second_run])
  have "policy_wf ?policy" "mp_max_hot_bytes ?policy < u64_max"
    by (simp_all add: example_policy_def example_cold_class_def policy_wf_def class_wf_def duration_ok_def u64_max_def)
  from hot_bounds_hold [OF this reach [unfolded at_start_def example_manager_def Let_def]] reach
  show ?thesis by (simp add: example_policy_def)
qed

end
