(* ===== verification/Jme_Cold_Format.thy ===== *)
theory Jme_Cold_Format
  imports Jme_Stores
begin

text \<open>
  The segment format of the Cold store (\<open>crates/jaiba-memory/src/cold.rs\<close>): records with a
  header, a key, a class and a compressed value, their parsing, the scan of a segment and the
  rescue of a damaged one, on the bytes of a file. LZ4, SHA-256 and serde are parameters.
\<close>

section \<open>Records\<close>

definition cold_magic :: string where "cold_magic = ''JMC1''"
definition flag_value :: nat where "flag_value = 1"
definition flag_tombstone :: nat where "flag_tombstone = 2"
definition header_len :: nat where "header_len = 4 + 1 + (4 * 4) + 32"
definition max_field_bytes :: nat where "max_field_bytes = 16 * 1024 * 1024"
definition max_payload_bytes :: nat where "max_payload_bytes = 1024 * 1024 * 1024"

record cold_codec =
  cc_compress :: "string \<Rightarrow> string"
  cc_decompress :: "string \<Rightarrow> nat \<Rightarrow> string option"
  cc_sha256 :: "string \<Rightarrow> string"
  cc_to_vec :: "json \<Rightarrow> string"
  cc_from_slice :: "string \<Rightarrow> json option"

record cold_header =
  hd_flag :: nat
  hd_key_len :: nat
  hd_class_len :: nat
  hd_raw_len :: nat
  hd_payload_len :: nat
  hd_checksum :: string

text \<open>\<open>u32::to_le_bytes\<close> of a length, and \<open>u32::from_le_bytes\<close>.\<close>

definition u32_le :: "nat \<Rightarrow> string" where
  "u32_le n = map (\<lambda>i. char_of (n div 256 ^ i)) [0..<4]"

definition u32_of :: "string \<Rightarrow> nat" where
  "u32_of bytes = foldr (\<lambda>b n. of_char b + 256 * n) bytes 0"

definition slice :: "nat \<Rightarrow> nat \<Rightarrow> string \<Rightarrow> string" where
  "slice a b bytes = take (b - a) (drop a bytes)"

definition validate_len :: "string \<Rightarrow> nat \<Rightarrow> nat \<Rightarrow> (memory_error, unit) result" where
  "validate_len label n maximum = (if maximum < n \<or> u32_max < n then Inl (ColdError label) else Inr ())"

text \<open>\<open>str::from_utf8\<close>: whether the bytes are well formed.\<close>

definition cont_byte :: "char \<Rightarrow> bool" where
  "cont_byte b \<longleftrightarrow> (0x80 :: nat) \<le> of_char b \<and> of_char b < (0xC0 :: nat)"

definition byte_in :: "nat \<Rightarrow> nat \<Rightarrow> char \<Rightarrow> bool" where
  "byte_in lo hi b \<longleftrightarrow> lo \<le> of_char b \<and> of_char b \<le> hi"

fun utf8_valid :: "string \<Rightarrow> bool" where
  "utf8_valid [] = True"
| "utf8_valid (a # r) =
     (if byte_in 0 0x7F a then utf8_valid r
      else case r of
        b # r \<Rightarrow>
          if byte_in 0xC2 0xDF a then cont_byte b \<and> utf8_valid r
          else (case r of
            c # r \<Rightarrow>
              if byte_in 0xE0 0xEF a
              then byte_in (if of_char a = (0xE0 :: nat) then 0xA0 else 0x80) (if of_char a = (0xED :: nat) then 0x9F else 0xBF) b \<and>
                cont_byte c \<and> utf8_valid r
              else (case r of
                d # r \<Rightarrow>
                  byte_in 0xF0 0xF4 a \<and>
                  byte_in (if of_char a = (0xF0 :: nat) then 0x90 else 0x80) (if of_char a = (0xF4 :: nat) then 0x8F else 0xBF) b \<and>
                  cont_byte c \<and> cont_byte d \<and> utf8_valid r
              | [] \<Rightarrow> False)
          | [] \<Rightarrow> False)
      | [] \<Rightarrow> False)"

definition validate_header :: "cold_header \<Rightarrow> (memory_error, unit) result" where
  "validate_header h =
     (case validate_len ''key'' (hd_key_len h) max_field_bytes of
        Inl e \<Rightarrow> Inl e
      | Inr _ \<Rightarrow>
          (case validate_len ''class'' (hd_class_len h) max_field_bytes of
             Inl e \<Rightarrow> Inl e
           | Inr _ \<Rightarrow>
               (case validate_len ''raw'' (hd_raw_len h) max_payload_bytes of
                  Inl e \<Rightarrow> Inl e
                | Inr _ \<Rightarrow> validate_len ''payload'' (hd_payload_len h) max_payload_bytes)))"

definition parse_header :: "string \<Rightarrow> (memory_error, cold_header) result" where
  "parse_header bytes =
     (if length bytes < header_len \<or> take 4 bytes \<noteq> cold_magic then Inl (ColdError ''magic'')
      else
        (let h = \<lparr> hd_flag = of_char (bytes ! 4), hd_key_len = u32_of (slice 5 9 bytes),
                   hd_class_len = u32_of (slice 9 13 bytes), hd_raw_len = u32_of (slice 13 17 bytes),
                   hd_payload_len = u32_of (slice 17 21 bytes), hd_checksum = slice 21 53 bytes \<rparr>
         in case validate_header h of Inl e \<Rightarrow> Inl e | Inr _ \<Rightarrow> Inr h))"

definition decode_value_record :: "cold_codec \<Rightarrow> string \<Rightarrow> string \<Rightarrow> (memory_error, tier_entry) result" where
  "decode_value_record c bytes expected =
     (case parse_header bytes of
        Inl e \<Rightarrow> Inl e
      | Inr h \<Rightarrow>
          (let class_start = header_len + hd_key_len h;
               payload_start = class_start + hd_class_len h;
               payload_end = payload_start + hd_payload_len h
           in if hd_flag h \<noteq> flag_value then Inl (ColdError ''tombstone'')
              else if length bytes < payload_end then Inl (ColdError ''truncado'')
              else if \<not> utf8_valid (slice header_len class_start bytes) then Inl (ColdError ''key UTF-8'')
              else if slice header_len class_start bytes \<noteq> expected then Inl (ColdError ''inconsistente'')
              else if \<not> utf8_valid (slice class_start payload_start bytes) then Inl (ColdError ''class UTF-8'')
              else case cc_decompress c (slice payload_start payload_end bytes) (hd_raw_len h) of
                None \<Rightarrow> Inl (ColdError ''LZ4'')
              | Some raw \<Rightarrow>
                  if cc_sha256 c raw \<noteq> hd_checksum h then Inl (ColdError ''checksum'')
                  else (case cc_from_slice c raw of
                    None \<Rightarrow> Inl (ColdError ''JSON'')
                  | Some v \<Rightarrow> Inr \<lparr> te_class = slice class_start payload_start bytes, te_value = v \<rparr>)))"

section \<open>Writing a record\<close>

text \<open>The flag, the raw and compressed value and its checksum; a removal writes none of them.\<close>

record record_parts =
  rp_flag :: nat
  rp_raw :: string
  rp_payload :: string
  rp_checksum :: string

definition parts_of :: "cold_codec \<Rightarrow> json option \<Rightarrow> record_parts" where
  "parts_of c v =
     (case v of
        Some v \<Rightarrow>
          (let raw = cc_to_vec c v
           in \<lparr> rp_flag = flag_value, rp_raw = raw, rp_payload = cc_compress c raw, rp_checksum = cc_sha256 c raw \<rparr>)
      | None \<Rightarrow> \<lparr> rp_flag = flag_tombstone, rp_raw = [], rp_payload = [], rp_checksum = replicate 32 (char_of (0 :: nat)) \<rparr>)"

text \<open>The calls of \<open>write_all\<close> of \<open>write_header\<close>, in their order.\<close>

definition header_chunks :: "nat \<Rightarrow> nat \<Rightarrow> nat \<Rightarrow> nat \<Rightarrow> nat \<Rightarrow> string \<Rightarrow> string list" where
  "header_chunks flag key_len class_len raw_len payload_len checksum =
     [cold_magic, [char_of flag], u32_le key_len, u32_le class_len, u32_le raw_len, u32_le payload_len, checksum]"

definition record_header :: "string \<Rightarrow> string \<Rightarrow> record_parts \<Rightarrow> string list" where
  "record_header key class_name p =
     header_chunks (rp_flag p) (length key) (length class_name) (length (rp_raw p)) (length (rp_payload p)) (rp_checksum p)"

abbreviation record_chunks :: "string \<Rightarrow> string \<Rightarrow> record_parts \<Rightarrow> string list" where
  "record_chunks key class_name p \<equiv> record_header key class_name p @ [key, class_name, rp_payload p]"

definition record_total :: "string \<Rightarrow> string \<Rightarrow> record_parts \<Rightarrow> nat" where
  "record_total key class_name p = header_len + length key + length class_name + length (rp_payload p)"

text \<open>The checks of \<open>append_record\<close> on the sizes.\<close>

definition validate_record :: "string \<Rightarrow> string \<Rightarrow> json option \<Rightarrow> record_parts \<Rightarrow> (memory_error, unit) result" where
  "validate_record key class_name v p =
     (case validate_len ''key'' (length key) max_field_bytes of
        Inl e \<Rightarrow> Inl e
      | Inr _ \<Rightarrow>
          (case validate_len ''class'' (length class_name) max_field_bytes of
             Inl e \<Rightarrow> Inl e
           | Inr _ \<Rightarrow>
               (case (if v = None then Inr () else validate_len ''value'' (length (rp_raw p)) max_payload_bytes) of
                  Inl e \<Rightarrow> Inl e
                | Inr _ \<Rightarrow> validate_len ''payload comprimido'' (length (rp_payload p)) max_payload_bytes)))"

section \<open>Finding records in damaged bytes\<close>

definition record_len :: "string \<Rightarrow> nat option" where
  "record_len bytes =
     (if length bytes < header_len then None
      else case parse_header (take header_len bytes) of
        Inl _ \<Rightarrow> None
      | Inr h \<Rightarrow>
          (let key_end = header_len + hd_key_len h;
               class_end = key_end + hd_class_len h;
               total = class_end + hd_payload_len h
           in if hd_flag h \<noteq> flag_value \<and> hd_flag h \<noteq> flag_tombstone then None
              else if length bytes < total then None
              else if \<not> utf8_valid (slice header_len key_end bytes) then None
              else if \<not> utf8_valid (slice key_end class_end bytes) then None
              else Some total))"

definition find_record :: "string \<Rightarrow> nat \<Rightarrow> nat option" where
  "find_record bytes start =
     find (\<lambda>i. starts_with cold_magic (drop i bytes) \<and> record_len (drop i bytes) \<noteq> None)
       [start..<length bytes - (header_len - 1)]"

lemma record_len_bounds: "record_len bytes = Some n \<Longrightarrow> header_len \<le> n \<and> n \<le> length bytes"
  by (auto simp: record_len_def Let_def split: if_splits sum.splits)

lemma find_record_bounds: "find_record bytes start = Some i \<Longrightarrow> start \<le> i \<and> i < length bytes"
  by (auto simp: find_record_def find_Some_iff)

text \<open>The bytes that \<open>salvage_segment\<close> keeps.\<close>

function salvage_bytes :: "string \<Rightarrow> nat \<Rightarrow> string" where
  "salvage_bytes bytes offset =
     (if length bytes \<le> offset then []
      else case record_len (drop offset bytes) of
        Some n \<Rightarrow> take n (drop offset bytes) @ salvage_bytes bytes (offset + n)
      | None \<Rightarrow>
          salvage_bytes bytes
            (case find_record bytes (offset + 1) of None \<Rightarrow> length bytes | Some i \<Rightarrow> i))"
  by pat_completeness auto
termination
  by (relation "measure (\<lambda>(bytes, offset). length bytes - offset)")
    (auto dest!: record_len_bounds find_record_bounds simp: header_len_def split: option.split)

declare salvage_bytes.simps [simp del]

section \<open>The scan of a segment\<close>

record record_location =
  rl_path :: path
  rl_offset :: nat
  rl_total_len :: nat
  rl_class :: string

datatype scan_result = Scanned nat | Corrupt | Fatal memory_error

type_synonym cold_index = "(string \<times> record_location) list"

definition tail_or_corrupt :: "string \<Rightarrow> nat \<Rightarrow> scan_result" where
  "tail_or_corrupt bytes offset =
     (if find_record (drop offset bytes) 1 \<noteq> None then Corrupt else Scanned offset)"

function scan_from :: "path \<Rightarrow> string \<Rightarrow> nat \<Rightarrow> cold_index \<Rightarrow> scan_result \<times> cold_index" where
  "scan_from path bytes offset index =
     (if length bytes \<le> offset then (Scanned offset, index)
      else if length bytes - offset < header_len then (tail_or_corrupt bytes offset, index)
      else case parse_header (take header_len (drop offset bytes)) of
        Inl _ \<Rightarrow> (tail_or_corrupt bytes offset, index)
      | Inr h \<Rightarrow>
          (let total = header_len + hd_key_len h + hd_class_len h + hd_payload_len h;
               key_start = offset + header_len;
               key = slice key_start (key_start + hd_key_len h) bytes;
               class_name = slice (key_start + hd_key_len h) (key_start + hd_key_len h + hd_class_len h) bytes
           in if length bytes < sat_add offset total then (tail_or_corrupt bytes offset, index)
              else if \<not> utf8_valid key \<or> \<not> utf8_valid class_name then (Corrupt, index)
              else if hd_flag h = flag_value then
                (if (case hm_get index key of None \<Rightarrow> False | Some l \<Rightarrow> rl_class l \<noteq> class_name)
                 then (Fatal (ColdError ''duplicada''), index)
                 else scan_from path bytes (offset + total)
                   (hm_insert key \<lparr> rl_path = path, rl_offset = offset, rl_total_len = total, rl_class = class_name \<rparr> index))
              else if hd_flag h = flag_tombstone then scan_from path bytes (offset + total) (hm_remove key index)
              else (Corrupt, index)))"
  by pat_completeness auto
termination
  by (relation "measure (\<lambda>(path, bytes, offset, index). length bytes - offset)")
    (auto simp: header_len_def Let_def)

declare scan_from.simps [simp del]

section \<open>What is written is read back\<close>

record cold_record =
  cr_key :: string
  cr_class :: string
  cr_value :: "json option"

definition encode_record :: "cold_codec \<Rightarrow> cold_record \<Rightarrow> string" where
  "encode_record c r = concat (record_chunks (cr_key r) (cr_class r) (parts_of c (cr_value r)))"

text \<open>Checksums have 32 bytes, and LZ4 and serde read back what they write.\<close>

definition cold_codec_ok :: "cold_codec \<Rightarrow> bool" where
  "cold_codec_ok c \<longleftrightarrow>
     (\<forall>raw. length (cc_sha256 c raw) = 32) \<and>
     (\<forall>raw. cc_decompress c (cc_compress c raw) (length raw) = Some raw) \<and>
     (\<forall>v. cc_from_slice c (cc_to_vec c v) = Some v)"

definition record_ok :: "cold_codec \<Rightarrow> cold_record \<Rightarrow> bool" where
  "record_ok c r \<longleftrightarrow>
     utf8_valid (cr_key r) \<and> utf8_valid (cr_class r) \<and>
     validate_record (cr_key r) (cr_class r) (cr_value r) (parts_of c (cr_value r)) = Inr ()"

lemma length_u32_le [simp]: "length (u32_le n) = 4"
  by (simp add: u32_le_def)

lemma u32_le_bytes:
  "u32_le n = [char_of n, char_of (n div 256), char_of (n div 256 div 256), char_of (n div 256 div 256 div 256)]"
proof -
  have "[0..<4::nat] = [0, 1, 2, 3]" by (simp add: upt_rec)
  then show ?thesis by (simp add: u32_le_def power_numeral_reduce flip: div_mult2_eq)
qed

lemma byte_mod: "n mod 256 + 256 * (n div 256 mod m) = n mod (256 * m)" for n m :: nat
  by (simp add: mod_mult2_eq)

lemma u32_of_le: "u32_of (u32_le n) = n mod 2 ^ 32"
proof -
  have "u32_of (u32_le n) = n mod (256 * (256 * (256 * 256)))"
    unfolding u32_le_bytes u32_of_def
    by (simp only: foldr.simps o_apply of_char_of byte_mod mult_0_right add_0_right id_apply)
  then show ?thesis by simp
qed

lemma u32_round: "n \<le> u32_max \<Longrightarrow> u32_of (u32_le n) = n"
  by (simp add: u32_of_le u32_max_def)

lemma validate_len_ok [simp]: "validate_len l n m = Inr u \<longleftrightarrow> n \<le> m \<and> n \<le> u32_max"
  by (auto simp: validate_len_def)

lemma length_header [simp]:
  "length cs = 32 \<Longrightarrow> length (concat (header_chunks f k cl r p cs)) = header_len"
  by (simp add: header_chunks_def cold_magic_def header_len_def)

lemma slice_append:
  "length xs = a \<Longrightarrow> slice a b (xs @ ys) = take (b - a) ys"
  "length xs = a \<Longrightarrow> b = a + length ys \<Longrightarrow> slice a b (xs @ ys @ zs) = ys"
  by (simp_all add: slice_def)

lemma header_slices:
  fixes b :: char and tail :: string
  assumes "length m = 4" "length k = 4" "length cl = 4" "length r = 4" "length p = 4" "length cs = 32"
  defines "bytes \<equiv> m @ [b] @ k @ cl @ r @ p @ cs @ tail"
  shows "slice 5 9 bytes = k" "slice 9 13 bytes = cl" "slice 13 17 bytes = r" "slice 17 21 bytes = p"
    "slice 21 53 bytes = cs" "bytes ! 4 = b" "take 4 bytes = m"
  using assms by (simp_all add: slice_def nth_append)

lemma parse_header_chunks:
  assumes "f < 256" "k \<le> max_field_bytes" "cl \<le> max_field_bytes" "r \<le> max_payload_bytes" "p \<le> max_payload_bytes"
    "length cs = 32"
  shows "parse_header (concat (header_chunks f k cl r p cs) @ tail) =
    Inr \<lparr> hd_flag = f, hd_key_len = k, hd_class_len = cl, hd_raw_len = r, hd_payload_len = p, hd_checksum = cs \<rparr>"
proof -
  let ?bytes = "cold_magic @ [char_of f] @ u32_le k @ u32_le cl @ u32_le r @ u32_le p @ cs @ tail"
  have bytes: "concat (header_chunks f k cl r p cs) @ tail = ?bytes" by (simp add: header_chunks_def)
  have u32: "k \<le> u32_max" "cl \<le> u32_max" "r \<le> u32_max" "p \<le> u32_max"
    using assms by (simp_all add: max_field_bytes_def max_payload_bytes_def u32_max_def)
  have four: "length cold_magic = 4" by (simp add: cold_magic_def)
  note slices = header_slices [OF four length_u32_le length_u32_le length_u32_le length_u32_le assms(6),
      of "char_of f" k cl r p tail]
  have "length ?bytes \<ge> header_len" using assms(6) by (simp add: four header_len_def)
  then show ?thesis
    unfolding bytes parse_header_def Let_def slices
    using assms u32 by (auto simp: u32_round validate_header_def validate_len_def)
qed

definition header_of :: "cold_codec \<Rightarrow> cold_record \<Rightarrow> cold_header" where
  "header_of c r =
     (let p = parts_of c (cr_value r)
      in \<lparr> hd_flag = rp_flag p, hd_key_len = length (cr_key r), hd_class_len = length (cr_class r),
           hd_raw_len = length (rp_raw p), hd_payload_len = length (rp_payload p), hd_checksum = rp_checksum p \<rparr>)"

definition body_of :: "cold_codec \<Rightarrow> cold_record \<Rightarrow> string" where
  "body_of c r = cr_key r @ cr_class r @ rp_payload (parts_of c (cr_value r))"

definition head_of :: "cold_codec \<Rightarrow> cold_record \<Rightarrow> string" where
  "head_of c r =
     (let p = parts_of c (cr_value r)
      in concat (header_chunks (rp_flag p) (length (cr_key r)) (length (cr_class r)) (length (rp_raw p))
           (length (rp_payload p)) (rp_checksum p)))"

lemma encode_split: "encode_record c r = head_of c r @ body_of c r"
  by (simp add: encode_record_def record_header_def head_of_def body_of_def Let_def)

lemma parts_checksum: "cold_codec_ok c \<Longrightarrow> length (rp_checksum (parts_of c v)) = 32"
  by (simp add: cold_codec_ok_def parts_of_def Let_def split: option.split)

lemma length_head: "cold_codec_ok c \<Longrightarrow> length (head_of c r) = header_len"
  by (simp add: head_of_def Let_def parts_checksum)

lemma length_encode:
  "cold_codec_ok c \<Longrightarrow> length (encode_record c r) = record_total (cr_key r) (cr_class r) (parts_of c (cr_value r))"
  by (simp add: encode_split length_head body_of_def record_total_def)

lemma record_ok_lengths:
  assumes "record_ok c r"
  shows "length (cr_key r) \<le> max_field_bytes" "length (cr_class r) \<le> max_field_bytes"
    "length (rp_raw (parts_of c (cr_value r))) \<le> max_payload_bytes"
    "length (rp_payload (parts_of c (cr_value r))) \<le> max_payload_bytes"
    "rp_flag (parts_of c (cr_value r)) < 256"
proof -
  let ?p = "parts_of c (cr_value r)"
  have ok: "validate_record (cr_key r) (cr_class r) (cr_value r) ?p = Inr ()"
    using assms by (simp add: record_ok_def)
  show "length (cr_key r) \<le> max_field_bytes" "length (cr_class r) \<le> max_field_bytes"
    "length (rp_payload ?p) \<le> max_payload_bytes"
    using ok by (auto simp: validate_record_def split: sum.splits)
  show "length (rp_raw ?p) \<le> max_payload_bytes"
    using ok by (cases "cr_value r") (auto simp: validate_record_def parts_of_def Let_def split: sum.splits)
  show "rp_flag ?p < 256"
    by (simp add: parts_of_def Let_def flag_value_def flag_tombstone_def split: option.split)
qed

lemma parse_encode:
  assumes "cold_codec_ok c" "record_ok c r"
  shows "parse_header (head_of c r @ tail) = Inr (header_of c r)"
  unfolding head_of_def header_of_def Let_def
  using record_ok_lengths [OF assms(2)] parts_checksum [OF assms(1)] by (intro parse_header_chunks) simp_all

lemma parse_head: "cold_codec_ok c \<Longrightarrow> record_ok c r \<Longrightarrow> parse_header (head_of c r) = Inr (header_of c r)"
  using parse_encode [of c r "[]"] by simp

lemma slice_inner: "slice (length pre + a) (length pre + b) (pre @ xs) = slice a b xs"
  by (simp add: slice_def)

lemma record_slices:
  fixes r :: cold_record and post :: string
  assumes "cold_codec_ok c"
  defines "h \<equiv> header_of c r" and "bytes \<equiv> encode_record c r @ post"
  shows "slice header_len (header_len + hd_key_len h) bytes = cr_key r"
    "slice (header_len + hd_key_len h) (header_len + hd_key_len h + hd_class_len h) bytes = cr_class r"
    "slice (header_len + hd_key_len h + hd_class_len h) (header_len + hd_key_len h + hd_class_len h + hd_payload_len h) bytes
      = rp_payload (parts_of c (cr_value r))"
  using length_head [OF assms(1), of r]
  by (simp_all add: h_def bytes_def encode_split body_of_def header_of_def Let_def slice_def)

lemma decode_encode:
  assumes "cold_codec_ok c" "record_ok c \<lparr> cr_key = key, cr_class = class_name, cr_value = Some v \<rparr>"
  shows "decode_value_record c (encode_record c \<lparr> cr_key = key, cr_class = class_name, cr_value = Some v \<rparr> @ post) key =
    Inr \<lparr> te_class = class_name, te_value = v \<rparr>"
proof -
  let ?r = "\<lparr> cr_key = key, cr_class = class_name, cr_value = Some v \<rparr>"
  let ?raw = "cc_to_vec c v"
  define bytes where "bytes = encode_record c ?r @ post"
  have h: "parse_header bytes = Inr (header_of c ?r)"
    using parse_encode [OF assms] by (simp add: bytes_def encode_split)
  have head: "header_of c ?r = \<lparr> hd_flag = flag_value, hd_key_len = length key, hd_class_len = length class_name,
      hd_raw_len = length ?raw, hd_payload_len = length (cc_compress c ?raw), hd_checksum = cc_sha256 c ?raw \<rparr>"
    by (simp add: header_of_def parts_of_def Let_def)
  have slices: "slice header_len (header_len + length key) bytes = key"
    "slice (header_len + length key) (header_len + length key + length class_name) bytes = class_name"
    "slice (header_len + length key + length class_name)
      (header_len + length key + length class_name + length (cc_compress c ?raw)) bytes = cc_compress c ?raw"
    using record_slices [OF assms(1), of ?r post] by (simp_all add: bytes_def head parts_of_def Let_def)
  have "\<not> length bytes < header_len + length key + length class_name + length (cc_compress c ?raw)"
    by (simp add: bytes_def length_encode [OF assms(1)] record_total_def parts_of_def Let_def)
  moreover have "utf8_valid key" "utf8_valid class_name" using assms(2) by (simp_all add: record_ok_def)
  ultimately have "decode_value_record c bytes key = Inr \<lparr> te_class = class_name, te_value = v \<rparr>"
    using assms(1) unfolding decode_value_record_def h
    by (simp add: head slices Let_def cold_codec_ok_def)
  then show ?thesis by (simp add: bytes_def)
qed

text \<open>
  The record that a put appends decodes, whatever follows it in the segment, to the class
  and the value that were put.
\<close>

theorem cold_record_round_trip:
  assumes "cold_codec_ok c" "record_ok c \<lparr> cr_key = key, cr_class = class_name, cr_value = Some v \<rparr>"
  shows "decode_value_record c (encode_record c \<lparr> cr_key = key, cr_class = class_name, cr_value = Some v \<rparr> @ post) key =
    Inr \<lparr> te_class = class_name, te_value = v \<rparr>"
  using assms by (rule decode_encode)

text \<open>A codec for examples: it compresses nothing, and its checksum is the same for all values.\<close>

definition example_cold_codec :: cold_codec where
  "example_cold_codec =
     \<lparr> cc_compress = (\<lambda>raw. raw), cc_decompress = (\<lambda>raw n. Some raw), cc_sha256 = (\<lambda>_. replicate 32 (CHR ''h'')),
       cc_to_vec = (\<lambda>v. if v = JNull then ''null'' else CHR ''x'' # show_nat (to_nat v)),
       cc_from_slice = (\<lambda>s. Some (if s = ''null'' then JNull else from_nat (digits_value (tl s)))) \<rparr>"

lemma example_cold_codec_ok [simp]: "cold_codec_ok example_cold_codec"
  by (simp add: cold_codec_ok_def example_cold_codec_def show_nat_props)

lemmas example_cold_defs = example_cold_codec_def parts_of_def validate_record_def validate_len_def max_field_bytes_def
  max_payload_bytes_def u32_max_def u64_max_def

theorem cold_record_round_trip_witness:
  "decode_value_record example_cold_codec
     (encode_record example_cold_codec \<lparr> cr_key = ''k'', cr_class = ''c'', cr_value = Some JNull \<rparr> @ ''rest'') ''k'' =
   Inr \<lparr> te_class = ''c'', te_value = JNull \<rparr>"
  by (rule cold_record_round_trip [OF example_cold_codec_ok]) (simp add: record_ok_def byte_in_def example_cold_defs Let_def)

section \<open>Scanning intact and torn segments\<close>

definition apply_record :: "cold_codec \<Rightarrow> path \<Rightarrow> nat \<Rightarrow> cold_record \<Rightarrow> cold_index \<Rightarrow> cold_index" where
  "apply_record c path offset r index =
     (case cr_value r of
        Some _ \<Rightarrow> hm_insert (cr_key r)
          \<lparr> rl_path = path, rl_offset = offset, rl_total_len = length (encode_record c r), rl_class = cr_class r \<rparr> index
      | None \<Rightarrow> hm_remove (cr_key r) index)"

fun index_records :: "cold_codec \<Rightarrow> path \<Rightarrow> nat \<Rightarrow> cold_record list \<Rightarrow> cold_index \<Rightarrow> cold_index" where
  "index_records c path offset [] index = index"
| "index_records c path offset (r # rs) index =
     index_records c path (offset + length (encode_record c r)) rs (apply_record c path offset r index)"

abbreviation encode_all :: "cold_codec \<Rightarrow> cold_record list \<Rightarrow> string" where
  "encode_all c rs \<equiv> concat (map (encode_record c) rs)"

text \<open>Every key has one class.\<close>

definition classes_fixed :: "(string \<Rightarrow> string) \<Rightarrow> cold_index \<Rightarrow> bool" where
  "classes_fixed cls index \<longleftrightarrow> (\<forall>k l. hm_get index k = Some l \<longrightarrow> rl_class l = cls k)"

definition records_ok :: "cold_codec \<Rightarrow> (string \<Rightarrow> string) \<Rightarrow> cold_record list \<Rightarrow> bool" where
  "records_ok c cls rs \<longleftrightarrow> (\<forall>r\<in>set rs. record_ok c r \<and> cr_class r = cls (cr_key r))"

lemma records_ok_simps [simp]:
  "records_ok c cls []"
  "records_ok c cls (r # rs) \<longleftrightarrow> record_ok c r \<and> cr_class r = cls (cr_key r) \<and> records_ok c cls rs"
  "records_ok c cls (rs @ us) \<longleftrightarrow> records_ok c cls rs \<and> records_ok c cls us"
  by (auto simp: records_ok_def)

lemma classes_fixed_apply:
  "classes_fixed cls index \<Longrightarrow> cr_class r = cls (cr_key r) \<Longrightarrow> classes_fixed cls (apply_record c path offset r index)"
  by (auto simp: classes_fixed_def apply_record_def split: option.splits if_splits)

lemma classes_fixed_index:
  "classes_fixed cls index \<Longrightarrow> records_ok c cls rs \<Longrightarrow> classes_fixed cls (index_records c path offset rs index)"
  by (induction rs arbitrary: offset index) (simp_all add: classes_fixed_apply)

lemma encode_pos: "cold_codec_ok c \<Longrightarrow> 0 < length (encode_record c r)"
  by (simp add: length_encode record_total_def header_len_def)

lemma flag_of_parts: "rp_flag (parts_of c v) = (if v = None then flag_tombstone else flag_value)"
  by (simp add: parts_of_def Let_def split: option.split)

lemma scan_record:
  assumes c: "cold_codec_ok c" "record_ok c r" "cr_class r = cls (cr_key r)" "classes_fixed cls index"
    and len: "length (pre @ encode_record c r @ post) \<le> u64_max"
  shows "scan_from path (pre @ encode_record c r @ post) (length pre) index =
    scan_from path (pre @ encode_record c r @ post) (length pre + length (encode_record c r))
      (apply_record c path (length pre) r index)"
proof -
  let ?bytes = "pre @ encode_record c r @ post" and ?h = "header_of c r" and ?o = "length pre"
  define total where "total = length (encode_record c r)"
  have total: "total = header_len + hd_key_len ?h + hd_class_len ?h + hd_payload_len ?h"
    by (simp add: total_def length_encode [OF c(1)] record_total_def header_of_def Let_def)
  have head: "take header_len (drop ?o ?bytes) = head_of c r"
    by (simp add: encode_split length_head [OF c(1)])
  have key: "slice (?o + header_len) (?o + header_len + hd_key_len ?h) ?bytes = cr_key r"
    and cname: "slice (?o + header_len + hd_key_len ?h) (?o + header_len + hd_key_len ?h + hd_class_len ?h) ?bytes = cr_class r"
    using record_slices(1,2) [OF c(1), of r post] slice_inner [of pre _ _ "encode_record c r @ post"]
    by (simp_all add: add.assoc)
  have bounds: "\<not> length ?bytes \<le> ?o" "\<not> length ?bytes - ?o < header_len" "\<not> length ?bytes < sat_add ?o total"
    using encode_pos [OF c(1), of r] total by (auto simp: total_def sat_add_def)
  have clash: "\<not> (case hm_get index (cr_key r) of None \<Rightarrow> False | Some l \<Rightarrow> rl_class l \<noteq> cr_class r)"
    using c(3,4) by (auto simp: classes_fixed_def split: option.splits)
  have utf: "utf8_valid (cr_key r)" "utf8_valid (cr_class r)" using c(2) by (simp_all add: record_ok_def)
  have flag: "hd_flag ?h = (if cr_value r = None then flag_tombstone else flag_value)"
    by (simp add: header_of_def Let_def flag_of_parts)
  show ?thesis
    unfolding scan_from.simps [of path ?bytes ?o index] head
    using bounds clash utf flag
    by (simp add: parse_head [OF c(1,2)] Let_def key cname flip: total)
      (auto simp: apply_record_def total_def flag_value_def flag_tombstone_def cname split: option.splits)
qed

text \<open>What a write that was cut short leaves; a payload could itself look like a record.\<close>

definition torn_record :: "cold_codec \<Rightarrow> string \<Rightarrow> bool" where
  "torn_record c torn \<longleftrightarrow>
     find_record torn 1 = None \<and>
     (torn = [] \<or> (\<exists>r n. record_ok c r \<and> n < length (encode_record c r) \<and> torn = take n (encode_record c r)))"

lemma torn_record_Nil [simp]: "torn_record c []"
  by (simp add: torn_record_def find_record_def)

lemma scan_torn:
  assumes "cold_codec_ok c" "torn_record c torn" "length (pre @ torn) < u64_max"
  shows "scan_from path (pre @ torn) (length pre) index = (Scanned (length pre), index)"
proof (cases "torn = []")
  case True
  then show ?thesis by (simp add: scan_from.simps)
next
  case False
  then obtain r n where r: "record_ok c r" "n < length (encode_record c r)" "torn = take n (encode_record c r)"
    and none: "find_record torn 1 = None"
    using assms(2) by (auto simp: torn_record_def)
  have tail: "tail_or_corrupt (pre @ torn) (length pre) = Scanned (length pre)"
    using none by (simp add: tail_or_corrupt_def)
  show ?thesis
  proof (cases "n < header_len")
    case True
    then show ?thesis using False tail r(2,3) by (simp add: scan_from.simps)
  next
    case long: False
    let ?total = "header_len + hd_key_len (header_of c r) + hd_class_len (header_of c r) + hd_payload_len (header_of c r)"
    have "take header_len (drop (length pre) (pre @ torn)) = head_of c r"
      using long by (simp add: r(3) encode_split length_head [OF assms(1)])
    moreover have "length torn < ?total"
      using r(2,3) by (simp add: length_encode [OF assms(1)] record_total_def header_of_def Let_def)
    then have "length (pre @ torn) < sat_add (length pre) ?total"
      using assms(3) by (simp add: sat_add_def)
    moreover have "\<not> length torn < header_len" using long r(2,3) by simp
    ultimately show ?thesis
      using False tail by (simp add: scan_from.simps parse_head [OF assms(1) r(1)] Let_def)
  qed
qed

text \<open>A segment of intact records and perhaps a torn one: the scan ends where the intact ones end.\<close>

lemma scan_records:
  assumes "cold_codec_ok c" "torn_record c torn"
  shows "records_ok c cls rs \<Longrightarrow> classes_fixed cls index \<Longrightarrow> length (pre @ encode_all c rs @ torn) < u64_max \<Longrightarrow>
    scan_from path (pre @ encode_all c rs @ torn) (length pre) index =
      (Scanned (length pre + length (encode_all c rs)), index_records c path (length pre) rs index)"
proof (induction rs arbitrary: pre index)
  case Nil
  then show ?case using scan_torn [OF assms, of pre path index] by simp
next
  case (Cons r rs)
  let ?pre = "pre @ encode_record c r"
  have "scan_from path (pre @ encode_record c r @ encode_all c rs @ torn) (length pre) index =
      scan_from path (pre @ encode_record c r @ encode_all c rs @ torn) (length ?pre) (apply_record c path (length pre) r index)"
    using Cons.prems by (subst scan_record [where cls = cls]) (auto simp: assms(1))
  also have "\<dots> = (Scanned (length ?pre + length (encode_all c rs)),
      index_records c path (length ?pre) rs (apply_record c path (length pre) r index))"
    using Cons.IH [of "apply_record c path (length pre) r index" ?pre] Cons.prems
    by (simp add: classes_fixed_apply)
  finally show ?case by (simp add: add.assoc)
qed

section \<open>Rescue\<close>

lemma record_len_take:
  assumes "record_len bytes = Some n"
  shows "record_len (take n bytes @ post) = Some n"
proof -
  have n: "header_len \<le> n" "n \<le> length bytes" using record_len_bounds [OF assms] by simp_all
  have "take header_len (take n bytes @ post) = take header_len bytes" using n by simp
  moreover have "slice a b (take n bytes @ post) = slice a b bytes" if "b \<le> n" for a b
    using n that by (cases "a \<le> b") (simp_all add: slice_def drop_take min_def)
  ultimately show ?thesis
    using assms n by (auto simp: record_len_def Let_def split: if_splits sum.splits)
qed

lemma scan_chunk:
  assumes "record_len (drop offset bytes) = Some n" "length bytes \<le> u64_max"
  shows "\<exists>index'. scan_from path bytes offset index = scan_from path bytes (offset + n) index' \<or>
    (\<exists>e. scan_from path bytes offset index = (Fatal e, index))"
proof -
  have n: "header_len \<le> n" "n \<le> length bytes - offset" using record_len_bounds [OF assms(1)] by simp_all
  obtain h where h: "parse_header (take header_len (drop offset bytes)) = Inr h"
    and total: "n = header_len + hd_key_len h + hd_class_len h + hd_payload_len h"
    and flag: "hd_flag h = flag_value \<or> hd_flag h = flag_tombstone"
    and utf: "utf8_valid (slice header_len (header_len + hd_key_len h) (drop offset bytes))"
      "utf8_valid (slice (header_len + hd_key_len h) (header_len + hd_key_len h + hd_class_len h) (drop offset bytes))"
    using assms(1) by (auto simp: record_len_def Let_def split: if_splits sum.splits)
  have at: "slice (offset + a) (offset + b) bytes = slice a b (drop offset bytes)" for a b
    by (simp add: slice_def add.commute)
  have utf': "utf8_valid (slice (offset + header_len) (offset + header_len + hd_key_len h) bytes)"
    "utf8_valid (slice (offset + header_len + hd_key_len h) (offset + header_len + hd_key_len h + hd_class_len h) bytes)"
    using utf by (simp_all add: at add.assoc)
  have bounds: "\<not> length bytes \<le> offset" "\<not> length bytes - offset < header_len" "\<not> length bytes < sat_add offset n"
    using n by (auto simp: sat_add_def header_len_def)
  let ?key = "slice (offset + header_len) (offset + header_len + hd_key_len h) bytes"
  let ?class_name = "slice (offset + header_len + hd_key_len h) (offset + header_len + hd_key_len h + hd_class_len h) bytes"
  have "scan_from path bytes offset index =
    (if hd_flag h = flag_value then
       (if (case hm_get index ?key of None \<Rightarrow> False | Some l \<Rightarrow> rl_class l \<noteq> ?class_name)
        then (Fatal (ColdError ''duplicada''), index)
        else scan_from path bytes (offset + n)
          (hm_insert ?key \<lparr> rl_path = path, rl_offset = offset, rl_total_len = n, rl_class = ?class_name \<rparr> index))
     else scan_from path bytes (offset + n) (hm_remove ?key index))"
    by (subst scan_from.simps) (use flag bounds utf' in \<open>auto simp: h Let_def simp flip: total\<close>)
  then show ?thesis by metis
qed

lemma scan_chunks:
  "\<forall>x\<in>set xs. record_len x = Some (length x) \<Longrightarrow> length (pre @ concat xs) \<le> u64_max \<Longrightarrow>
     fst (scan_from path (pre @ concat xs) (length pre) index) \<in> insert (Scanned (length (pre @ concat xs))) (range Fatal)"
proof (induction xs arbitrary: pre index)
  case Nil
  then show ?case by (simp add: scan_from.simps)
next
  case (Cons x xs)
  have "record_len (x @ concat xs) = Some (length x)"
    using record_len_take [of x "length x" "concat xs"] Cons.prems(1) by simp
  then have "record_len (drop (length pre) (pre @ concat (x # xs))) = Some (length x)" by simp
  from scan_chunk [OF this Cons.prems(2), of path index] obtain index' where
    "scan_from path (pre @ concat (x # xs)) (length pre) index =
        scan_from path (pre @ concat (x # xs)) (length pre + length x) index' \<or>
     (\<exists>e. scan_from path (pre @ concat (x # xs)) (length pre) index = (Fatal e, index))" by blast
  then show ?case
    using Cons.IH [of "pre @ x" index'] Cons.prems by auto
qed

lemma salvage_chunks:
  "\<exists>xs. salvage_bytes bytes offset = concat xs \<and> (\<forall>x\<in>set xs. record_len x = Some (length x))"
proof (induction bytes offset rule: salvage_bytes.induct)
  case (1 bytes offset)
  show ?case
  proof (cases "length bytes \<le> offset")
    case True
    then show ?thesis by (intro exI [where x = "[]"]) (simp add: salvage_bytes.simps)
  next
    case False
    show ?thesis
    proof (cases "record_len (drop offset bytes)")
      case None
      with 1(1) [OF False None] False show ?thesis by (simp add: salvage_bytes.simps [of bytes offset])
    next
      case (Some n)
      from 1(2) [OF False Some] obtain xs where xs: "salvage_bytes bytes (offset + n) = concat xs"
        "\<forall>x\<in>set xs. record_len x = Some (length x)" by blast
      have "record_len (take n (drop offset bytes)) = Some (length (take n (drop offset bytes)))"
        using record_len_take [OF Some, of "[]"] record_len_bounds [OF Some] by simp
      with xs False Some show ?thesis
        by (intro exI [where x = "take n (drop offset bytes) # xs"]) (simp add: salvage_bytes.simps [of bytes offset])
    qed
  qed
qed

lemma length_salvage: "length (salvage_bytes bytes offset) \<le> length bytes - offset"
proof (induction bytes offset rule: salvage_bytes.induct)
  case (1 bytes offset)
  show ?case
  proof (cases "length bytes \<le> offset")
    case True
    then show ?thesis by (simp add: salvage_bytes.simps)
  next
    case False
    show ?thesis
    proof (cases "record_len (drop offset bytes)")
      case None
      have "salvage_bytes bytes offset =
          salvage_bytes bytes (case find_record bytes (offset + 1) of None \<Rightarrow> length bytes | Some i \<Rightarrow> i)"
        using False None by (simp add: salvage_bytes.simps [of bytes offset])
      moreover have "offset \<le> (case find_record bytes (offset + 1) of None \<Rightarrow> length bytes | Some i \<Rightarrow> i)"
        using False by (auto dest!: find_record_bounds split: option.split)
      ultimately show ?thesis using 1(1) [OF False None] diff_le_mono2 order_trans by metis
    next
      case (Some n)
      then have "n + (length bytes - (offset + n)) = length bytes - offset"
        using record_len_bounds [OF Some] False by auto
      with 1(2) [OF False Some] False Some record_len_bounds [OF Some] show ?thesis
        by (simp add: salvage_bytes.simps [of bytes offset])
    qed
  qed
qed

text \<open>
  A segment that was rescued is not found damaged again, whatever bytes it had: its scan
  ends at its end, or fails because a key has two classes.
\<close>

theorem salvage_is_conclusive:
  assumes "length bytes \<le> u64_max"
  shows "fst (scan_from path (salvage_bytes bytes 0) 0 index) \<in>
    insert (Scanned (length (salvage_bytes bytes 0))) (range Fatal)"
proof -
  obtain xs where xs: "salvage_bytes bytes 0 = concat xs" "\<forall>x\<in>set xs. record_len x = Some (length x)"
    using salvage_chunks by blast
  from scan_chunks [OF xs(2), of "[]" path index] length_salvage [of bytes 0] assms xs(1)
  show ?thesis by simp
qed

theorem salvage_is_conclusive_witness:
  "fst (scan_from (''d'', ''s'') (salvage_bytes ''xyz'' 0) 0 []) \<in> insert (Scanned (length (salvage_bytes ''xyz'' 0))) (range Fatal)"
  by (rule salvage_is_conclusive) (simp add: u64_max_def)

end
