(* ===== verification/Jme_Cold.thy ===== *)
theory Jme_Cold
  imports Jme_Cold_Format "HOL-Library.Product_Lexorder"
begin

text \<open>
  The Cold store on disk (\<open>SegmentedColdStore\<close> of \<open>crates/jaiba-memory/src/cold.rs\<close>): one
  directory per class, segments to which records are appended, an index in memory that is
  rebuilt from the segments when the store is opened. Reads through a map of the file and
  through the file give the same bytes, so the cache of maps is left out.
\<close>

section \<open>Paths\<close>

definition join :: "string \<Rightarrow> string \<Rightarrow> string" where
  "join root name = root @ ''/'' @ name"

definition class_directory :: "cold_codec \<Rightarrow> string \<Rightarrow> string" where
  "class_directory c class_name = ''class-'' @ hex (take 12 (cc_sha256 c class_name))"

text \<open>\<open>{id:020}\<close>.\<close>

definition zero_padded :: "nat \<Rightarrow> string" where
  "zero_padded n = replicate (20 - length (show_nat n)) (CHR ''0'') @ show_nat n"

definition segment_path :: "string \<Rightarrow> nat \<Rightarrow> path" where
  "segment_path dir n = (dir, ''segment-'' @ zero_padded n @ ''.jmc'')"

definition segment_files :: "disk \<Rightarrow> string \<Rightarrow> (memory_error, path list) result" where
  "segment_files d dir =
     (if dk_unreadable d (dir, []) then Inl (ColdError ''listar segmentos'')
      else Inr (filter (\<lambda>p. fst p = dir \<and> extension (snd p) = Some ''jmc'') (map fst (dk_files d))))"

definition file_stem :: "string \<Rightarrow> string" where
  "file_stem name = (case extension name of None \<Rightarrow> name | Some e \<Rightarrow> take (length name - length e - 1) name)"

definition segment_id :: "path \<Rightarrow> nat option" where
  "segment_id p =
     (let stem = file_stem (snd p)
      in if starts_with ''segment-'' stem then parse_u64 (drop 8 stem) else None)"

text \<open>The directories in \<open>root\<close> are those that have a file below them.\<close>

definition child_dir :: "string \<Rightarrow> string \<Rightarrow> string option" where
  "child_dir root dir =
     (if starts_with (root @ ''/'') dir
      then Some (join root (takeWhile (\<lambda>ch. ch \<noteq> CHR ''/'') (drop (length root + 1) dir)))
      else None)"

definition class_dirs :: "disk \<Rightarrow> string \<Rightarrow> (memory_error, string list) result" where
  "class_dirs d root =
     (if dk_unreadable d (root, []) then Inl (ColdError ''listar cold root'')
      else Inr (sort (remdups (List.map_filter (\<lambda>x. child_dir root (fst (fst x))) (dk_files d)))))"

section \<open>The store\<close>

record segment_writer =
  sw_id :: nat
  sw_path :: path
  sw_size :: nat

record segmented_cold =
  sc_root :: string
  sc_segment_max_bytes :: nat
  sc_mmap_reads :: bool
  sc_index :: cold_index
  sc_writers :: "(string \<times> segment_writer) list"
  sc_bytes_on_disk :: nat
  sc_max_disk_bytes :: "nat option"
  sc_quota_rejections :: nat
  sc_salvaged_segments :: nat
  sc_disk :: disk

definition writer_for_class ::
  "cold_codec \<Rightarrow> string \<Rightarrow> segmented_cold \<Rightarrow> (memory_error, segment_writer) result \<times> segmented_cold" where
  "writer_for_class c class_name s =
     (case hm_get (sc_writers s) class_name of
        Some w \<Rightarrow> (Inr w, s)
      | None \<Rightarrow>
          (let dir = join (sc_root s) (class_directory c class_name)
           in case io_plain (sc_disk s) of
                (False, d) \<Rightarrow> (Inl (ColdError ''crear clase''), s\<lparr>sc_disk := d\<rparr>)
              | (True, d) \<Rightarrow>
                  (case segment_files d dir of
                     Inl e \<Rightarrow> (Inl e, s\<lparr>sc_disk := d\<rparr>)
                   | Inr segments \<Rightarrow>
                       (case sort_key snd segments of
                          [] \<Rightarrow>
                            (let w = \<lparr> sw_id = 0, sw_path = segment_path dir 0, sw_size = 0 \<rparr>
                             in (Inr w, s\<lparr>sc_disk := d, sc_writers := hm_insert class_name w (sc_writers s)\<rparr>))
                        | p # ps \<Rightarrow>
                            (let path = last (p # ps)
                             in case hm_get (dk_files d) path of
                                  None \<Rightarrow> (Inl (ColdError ''metadata segmento''), s\<lparr>sc_disk := d\<rparr>)
                                | Some bytes \<Rightarrow>
                                    (let w = \<lparr> sw_id = or_default (segment_id path) 0, sw_path = path,
                                               sw_size = length bytes \<rparr>
                                     in (Inr w, s\<lparr>sc_disk := d, sc_writers := hm_insert class_name w (sc_writers s)\<rparr>)))))))"

text \<open>The calls of \<open>write_all\<close>, up to the first that fails.\<close>

fun write_chunks :: "path \<Rightarrow> string list \<Rightarrow> disk \<Rightarrow> bool \<times> disk" where
  "write_chunks p [] d = (True, d)"
| "write_chunks p (x # xs) d =
     (case io_append d p x of
        (False, d) \<Rightarrow> (False, d)
      | (True, d) \<Rightarrow> write_chunks p xs d)"

text \<open>A writer whose segment has no room for the record goes on to the next one.\<close>

definition rotate_writer :: "nat \<Rightarrow> nat \<Rightarrow> segment_writer \<Rightarrow> segment_writer" where
  "rotate_writer segment_max_bytes total_len w =
     (if 0 < sw_size w \<and> segment_max_bytes < sat_add (sw_size w) total_len
      then \<lparr> sw_id = sw_id w + 1, sw_path = segment_path (fst (sw_path w)) (sw_id w + 1), sw_size = 0 \<rparr>
      else w)"

definition over_quota :: "segmented_cold \<Rightarrow> nat \<Rightarrow> bool" where
  "over_quota s total_len \<longleftrightarrow>
     (case sc_max_disk_bytes s of None \<Rightarrow> False | Some limit \<Rightarrow> limit < sat_add (sc_bytes_on_disk s) total_len)"

definition write_record ::
  "cold_codec \<Rightarrow> string \<Rightarrow> string \<Rightarrow> record_parts \<Rightarrow> segment_writer \<Rightarrow> segmented_cold
    \<Rightarrow> (memory_error, record_location) result \<times> segmented_cold" where
  "write_record c key class_name p w s =
     (let total_len = record_total key class_name p;
          w = rotate_writer (sc_segment_max_bytes s) total_len w;
          s = s\<lparr>sc_writers := hm_insert class_name w (sc_writers s)\<rparr>
      in case io_append (sc_disk s) (sw_path w) [] of
           (False, d) \<Rightarrow> (Inl (ColdError ''abrir segmento''), s\<lparr>sc_disk := d\<rparr>)
         | (True, d) \<Rightarrow>
             (case write_chunks (sw_path w) (record_header key class_name p) d of
                (False, d) \<Rightarrow> (Inl (ColdError ''escribir header''), s\<lparr>sc_disk := d\<rparr>)
              | (True, d) \<Rightarrow>
                  (case write_chunks (sw_path w) [key, class_name, rp_payload p] d of
                     (False, d) \<Rightarrow> (Inl (ColdError ''escribir segmento''), s\<lparr>sc_disk := d\<rparr>)
                   | (True, d) \<Rightarrow>
                       (case io_plain d of
                          (False, d) \<Rightarrow> (Inl (ColdError ''fsync segmento''), s\<lparr>sc_disk := d\<rparr>)
                        | (True, d) \<Rightarrow>
                            (Inr \<lparr> rl_path = sw_path w, rl_offset = sw_size w, rl_total_len = total_len, rl_class = class_name \<rparr>,
                             s\<lparr>sc_disk := d,
                               sc_writers := hm_insert class_name (w\<lparr>sw_size := sw_size w + total_len\<rparr>) (sc_writers s),
                               sc_bytes_on_disk := sc_bytes_on_disk s + total_len\<rparr>)))))"

definition append_record ::
  "cold_codec \<Rightarrow> string \<Rightarrow> string \<Rightarrow> json option \<Rightarrow> segmented_cold
    \<Rightarrow> (memory_error, record_location) result \<times> segmented_cold" where
  "append_record c key class_name v s =
     (let p = parts_of c v
      in case validate_record key class_name v p of
           Inl e \<Rightarrow> (Inl e, s)
         | Inr _ \<Rightarrow>
             if v \<noteq> None \<and> over_quota s (record_total key class_name p)
             then (Inl (ColdError ''cuota''), s\<lparr>sc_quota_rejections := sat_add (sc_quota_rejections s) 1\<rparr>)
             else (case writer_for_class c class_name s of
               (Inl e, s) \<Rightarrow> (Inl e, s)
             | (Inr w, s) \<Rightarrow> write_record c key class_name p w s))"

definition read_location ::
  "cold_codec \<Rightarrow> segmented_cold \<Rightarrow> string \<Rightarrow> record_location \<Rightarrow> (memory_error, tier_entry) result" where
  "read_location c s key l =
     (case io_read (sc_disk s) (rl_path l) of
        None \<Rightarrow> Inl (ColdError ''abrir lectura'')
      | Some bytes \<Rightarrow>
          if length bytes < rl_offset l + rl_total_len l then Inl (ColdError ''leer segmento'')
          else decode_value_record c (slice (rl_offset l) (rl_offset l + rl_total_len l) bytes) key)"

definition cold_get :: "cold_codec \<Rightarrow> segmented_cold \<Rightarrow> string \<Rightarrow> (memory_error, tier_entry option) result" where
  "cold_get c s key =
     (case hm_get (sc_index s) key of
        None \<Rightarrow> Inr None
      | Some l \<Rightarrow> map_sum id Some (read_location c s key l))"

definition cold_put ::
  "cold_codec \<Rightarrow> segmented_cold \<Rightarrow> string \<Rightarrow> tier_entry \<Rightarrow> (memory_error, unit) result \<times> segmented_cold" where
  "cold_put c s key e =
     (if (case hm_get (sc_index s) key of None \<Rightarrow> False | Some l \<Rightarrow> rl_class l \<noteq> te_class e)
      then (Inl (ColdError ''ya pertenece''), s)
      else (case append_record c key (te_class e) (Some (te_value e)) s of
          (Inl x, s) \<Rightarrow> (Inl x, s)
        | (Inr l, s) \<Rightarrow> (Inr (), s\<lparr>sc_index := hm_insert key l (sc_index s)\<rparr>)))"

definition cold_remove ::
  "cold_codec \<Rightarrow> segmented_cold \<Rightarrow> string \<Rightarrow> (memory_error, bool) result \<times> segmented_cold" where
  "cold_remove c s key =
     (case hm_get (sc_index s) key of
        None \<Rightarrow> (Inr False, s)
      | Some l \<Rightarrow>
          (case append_record c key (rl_class l) None s of
             (Inl x, s) \<Rightarrow> (Inl x, s)
           | (Inr _, s) \<Rightarrow> (Inr True, s\<lparr>sc_index := hm_remove key (sc_index s)\<rparr>)))"

definition segmented_ops :: "cold_codec \<Rightarrow> segmented_cold cold_ops" where
  "segmented_ops c =
     \<lparr> so_get = cold_get c, so_put = cold_put c, so_remove = cold_remove c, so_len = (\<lambda>s. length (sc_index s)),
       so_name = ''segmented_lz4'', co_bytes_on_disk = sc_bytes_on_disk, co_max_disk_bytes = sc_max_disk_bytes,
       co_quota_rejections = sc_quota_rejections, co_salvaged_segments = sc_salvaged_segments \<rparr>"

section \<open>Opening a store\<close>

text \<open>\<open>set_len\<close>.\<close>

definition io_set_len :: "disk \<Rightarrow> path \<Rightarrow> nat \<Rightarrow> bool \<times> disk" where
  "io_set_len d p n =
     (case io_call d of
        (None, d) \<Rightarrow>
          (case hm_get (dk_files d) p of
             None \<Rightarrow> (False, d)
           | Some bytes \<Rightarrow> (True, d\<lparr>dk_files := hm_insert p (take n bytes) (dk_files d)\<rparr>))
      | (Some _, d) \<Rightarrow> (False, d))"

text \<open>The first name that no file has: one more than there are files is enough to try.\<close>

definition quarantine_path :: "disk \<Rightarrow> path \<Rightarrow> path" where
  "quarantine_path d p =
     (let at = (\<lambda>n. (fst p, snd p @ ''.corrupt'' @ (if n = 0 then [] else ''.'' @ show_nat n)))
      in case find (\<lambda>n. \<not> io_exists d (at n)) [0..<length (dk_files d) + 1] of
           None \<Rightarrow> at (length (dk_files d) + 1)
         | Some n \<Rightarrow> at n)"

definition salvage_segment :: "path \<Rightarrow> disk \<Rightarrow> (memory_error, unit) result \<times> disk" where
  "salvage_segment path d =
     (case io_read d path of
        None \<Rightarrow> (Inl (ColdError ''leer para rescate''), d)
      | Some bytes \<Rightarrow>
          (let staging = (fst path, snd path @ ''.salvage'')
           in case io_write d (quarantine_path d path) bytes of
                (False, d) \<Rightarrow> (Inl (ColdError ''copiar a cuarentena''), d)
              | (True, d) \<Rightarrow>
                  (case io_write d staging [] of
                     (False, d) \<Rightarrow> (Inl (ColdError ''crear rescate''), d)
                   | (True, d) \<Rightarrow>
                       (case io_append d staging (salvage_bytes bytes 0) of
                          (False, d) \<Rightarrow> (Inl (ColdError ''escribir rescate''), d)
                        | (True, d) \<Rightarrow>
                            (case io_plain d of
                               (False, d) \<Rightarrow> (Inl (ColdError ''escribir rescate''), d)
                             | (True, d) \<Rightarrow>
                                 (case io_rename d staging path of
                                    (False, d) \<Rightarrow> (Inl (ColdError ''publicar rescate''), d)
                                  | (True, d) \<Rightarrow> (Inr (), snd (io_plain d))))))))"

text \<open>The bytes after the last record are cut off; \<open>salvaged\<close> counts the rescue before.\<close>

definition cut_tail ::
  "path \<Rightarrow> nat \<Rightarrow> nat \<Rightarrow> cold_index \<Rightarrow> disk \<Rightarrow> (memory_error, cold_index \<times> nat \<times> nat) result \<times> disk" where
  "cut_tail path valid_len salvaged index d =
     (case hm_get (dk_files d) path of
        None \<Rightarrow> (Inl (ColdError ''metadata segmento''), d)
      | Some bytes \<Rightarrow>
          if length bytes \<le> valid_len then (Inr (index, valid_len, salvaged), d)
          else (case io_set_len d path valid_len of
            (False, d) \<Rightarrow> (Inl (ColdError ''recuperar cola parcial''), d)
          | (True, d) \<Rightarrow> (Inr (index, valid_len, salvaged), d)))"

definition scan_segment :: "path \<Rightarrow> disk \<Rightarrow> cold_index \<Rightarrow> scan_result \<times> cold_index" where
  "scan_segment path d index =
     (case io_read d path of
        None \<Rightarrow> (Fatal (ColdError ''abrir indice''), index)
      | Some bytes \<Rightarrow> scan_from path bytes 0 index)"

definition rebuild_segment ::
  "path \<Rightarrow> cold_index \<Rightarrow> disk \<Rightarrow> (memory_error, cold_index \<times> nat \<times> nat) result \<times> disk" where
  "rebuild_segment path index d =
     (case scan_segment path d index of
        (Scanned n, index) \<Rightarrow> cut_tail path n 0 index d
      | (Fatal e, _) \<Rightarrow> (Inl e, d)
      | (Corrupt, index) \<Rightarrow>
          (case salvage_segment path d of
             (Inl e, d) \<Rightarrow> (Inl e, d)
           | (Inr _, d) \<Rightarrow>
               (case scan_segment path d index of
                  (Scanned n, index) \<Rightarrow> cut_tail path n 1 index d
                | (Fatal e, _) \<Rightarrow> (Inl e, d)
                | (Corrupt, _) \<Rightarrow> (Inl (ColdError ''sigue danado tras el rescate''), d))))"

fun rebuild_files ::
  "path list \<Rightarrow> cold_index \<times> nat \<times> nat \<Rightarrow> disk \<Rightarrow> (memory_error, cold_index \<times> nat \<times> nat) result \<times> disk" where
  "rebuild_files [] acc d = (Inr acc, d)"
| "rebuild_files (p # ps) (index, bytes, salvaged) d =
     (case rebuild_segment p index d of
        (Inl e, d) \<Rightarrow> (Inl e, d)
      | (Inr (index, n, k), d) \<Rightarrow> rebuild_files ps (index, bytes + n, salvaged + k) d)"

fun rebuild_dirs ::
  "string list \<Rightarrow> cold_index \<times> nat \<times> nat \<Rightarrow> disk \<Rightarrow> (memory_error, cold_index \<times> nat \<times> nat) result \<times> disk" where
  "rebuild_dirs [] acc d = (Inr acc, d)"
| "rebuild_dirs (dir # dirs) acc d =
     (case segment_files d dir of
        Inl e \<Rightarrow> (Inl e, d)
      | Inr files \<Rightarrow>
          (case rebuild_files (sort_key snd files) acc d of
             (Inl e, d) \<Rightarrow> (Inl e, d)
           | (Inr acc, d) \<Rightarrow> rebuild_dirs dirs acc d))"

definition rebuild_index :: "string \<Rightarrow> disk \<Rightarrow> (memory_error, cold_index \<times> nat \<times> nat) result \<times> disk" where
  "rebuild_index root d =
     (case class_dirs d root of
        Inl e \<Rightarrow> (Inl e, d)
      | Inr dirs \<Rightarrow> rebuild_dirs dirs ([], 0, 0) d)"

definition open_with_limit ::
  "string \<Rightarrow> nat \<Rightarrow> bool \<Rightarrow> nat option \<Rightarrow> disk \<Rightarrow> (memory_error, segmented_cold) result \<times> disk" where
  "open_with_limit root segment_max_bytes mmap_reads max_disk_bytes d =
     (case io_plain d of
        (False, d) \<Rightarrow> (Inl (ColdError ''crear directorio''), d)
      | (True, d) \<Rightarrow>
          (case rebuild_index root d of
             (Inl e, d) \<Rightarrow> (Inl e, d)
           | (Inr (index, bytes, salvaged), d) \<Rightarrow>
               (Inr \<lparr> sc_root = root, sc_segment_max_bytes = max segment_max_bytes 4096, sc_mmap_reads = mmap_reads,
                      sc_index = index, sc_writers = [], sc_bytes_on_disk = bytes, sc_max_disk_bytes = max_disk_bytes,
                      sc_quota_rejections = 0, sc_salvaged_segments = salvaged, sc_disk = d \<rparr>, d)))"

end
