(* ===== verification/Jme_Cold_Index.thy ===== *)
theory Jme_Cold_Index
  imports Jme_Cold
begin

text \<open>
  What a scan of the Cold store finds: the segments in the order of their directories and
  numbers, and the location of a key as the last of its records.
\<close>

section \<open>The order of a scan\<close>

definition content :: "disk \<Rightarrow> path \<Rightarrow> string" where
  "content d p = (case hm_get (dk_files d) p of None \<Rightarrow> [] | Some b \<Rightarrow> b)"

text \<open>The segments below \<open>root\<close>.\<close>

definition segments :: "disk \<Rightarrow> string \<Rightarrow> path set" where
  "segments d root =
     {p \<in> fst ` set (dk_files d). child_dir root (fst p) = Some (fst p) \<and> extension (snd p) = Some ''jmc''}"

definition files_in :: "disk \<Rightarrow> string \<Rightarrow> path list" where
  "files_in d dir = filter (\<lambda>p. fst p = dir \<and> extension (snd p) = Some ''jmc'') (map fst (dk_files d))"

definition dirs_in :: "disk \<Rightarrow> string \<Rightarrow> string list" where
  "dirs_in d root = sort (remdups (List.map_filter (\<lambda>x. child_dir root (fst (fst x))) (dk_files d)))"

lemma finite_segments [simp, intro!]: "finite (segments d root)"
  by (simp add: segments_def)

lemma segment_files_readable: "readable d \<Longrightarrow> segment_files d dir = Inr (files_in d dir)"
  by (simp add: segment_files_def files_in_def readable_def)

lemma class_dirs_readable: "readable d \<Longrightarrow> class_dirs d root = Inr (dirs_in d root)"
  by (simp add: class_dirs_def dirs_in_def readable_def)

lemma takeWhile_no_sep: "takeWhile P (takeWhile P xs) = takeWhile P xs"
  by (auto simp: takeWhile_eq_all_conv dest: set_takeWhileD)

lemma child_dir_idem: "child_dir root dir = Some dir' \<Longrightarrow> child_dir root dir' = Some dir'"
  by (auto simp: child_dir_def join_def starts_with_append takeWhile_no_sep split: if_splits)

lemma child_dir_self: "child_dir root dir = Some dir \<Longrightarrow> \<exists>name. dir = join root name"
  by (metis child_dir_def option.distinct(1) option.inject)

lemma set_dirs_in: "set (dirs_in d root) = {dir. \<exists>p \<in> fst ` set (dk_files d). child_dir root (fst p) = Some dir}"
  by (force simp: dirs_in_def List.map_filter_def image_iff)

lemma set_concat_files: "set (concat (map (files_in d) (dirs_in d root))) = segments d root"
proof -
  have "p \<in> set (concat (map (files_in d) (dirs_in d root))) \<longleftrightarrow>
      p \<in> fst ` set (dk_files d) \<and> extension (snd p) = Some ''jmc'' \<and> fst p \<in> set (dirs_in d root)" for p
    by (auto simp: files_in_def)
  moreover have "fst p \<in> set (dirs_in d root) \<longleftrightarrow> child_dir root (fst p) = Some (fst p)"
    if "p \<in> fst ` set (dk_files d)" for p
    using that child_dir_idem unfolding set_dirs_in by blast
  ultimately show ?thesis unfolding segments_def set_eq_iff mem_Collect_eq by blast
qed

lemma path_less: "fst p < fst q \<or> fst p = fst q \<and> snd p < snd q \<Longrightarrow> (p :: path) < q"
  by (auto simp: less_prod_def')

lemma sorted_wrt_files:
  assumes "hm_wf (dk_files d)"
  shows "sorted_wrt (<) (sort_key snd (files_in d dir))"
proof -
  let ?xs = "sort_key snd (files_in d dir)"
  have dir: "\<forall>p\<in>set ?xs. fst p = dir" by (simp add: files_in_def)
  have "distinct ?xs" using assms by (simp add: files_in_def hm_wf_def)
  moreover from dir have "inj_on snd (set ?xs)" by (auto simp: inj_on_def prod_eq_iff)
  ultimately have "distinct (map snd ?xs)" by (simp add: distinct_map)
  then have "sorted_wrt (<) (map snd ?xs)" by (simp add: strict_sorted_iff)
  then have "sorted_wrt (\<lambda>p q. snd p < snd q) ?xs" by (simp add: sorted_wrt_map)
  moreover have "p < q" if "p \<in> set ?xs" "q \<in> set ?xs" "snd p < snd q" for p q
  proof -
    have "fst p = fst q" using that(1,2) dir by metis
    with that(3) show ?thesis by (intro path_less) simp
  qed
  ultimately show ?thesis using sorted_wrt_mono_rel [of ?xs "\<lambda>p q. snd p < snd q" "(<)"] by blast
qed

lemma sorted_wrt_concat:
  assumes "\<And>x. x \<in> set xs \<Longrightarrow> sorted_wrt R (f x)" "sorted_wrt (\<lambda>x y. \<forall>a\<in>set (f x). \<forall>b\<in>set (f y). R a b) xs"
  shows "sorted_wrt R (concat (map f xs))"
  using assms by (induction xs) (auto simp: sorted_wrt_append)

lemma scan_order:
  assumes "hm_wf (dk_files d)"
  shows "concat (map (\<lambda>dir. sort_key snd (files_in d dir)) (dirs_in d root)) = sorted_list_of_set (segments d root)"
    (is "?xs = _")
proof -
  have "sorted_wrt (<) (dirs_in d root)" by (simp add: dirs_in_def strict_sorted_iff)
  then have "sorted_wrt (<) ?xs"
    by (intro sorted_wrt_concat sorted_wrt_files [OF assms])
      (auto simp: files_in_def intro!: path_less elim!: sorted_wrt_mono_rel [rotated])
  moreover have "set ?xs = segments d root" using set_concat_files [of d root] by simp
  ultimately show ?thesis
    using sorted_list_of_set.idem_if_sorted_distinct [of ?xs] by (simp add: strict_sorted_iff)
qed

lemma insort_eq: "insort p xs = takeWhile (\<lambda>q. q < p) xs @ p # dropWhile (\<lambda>q. q < p) xs"
  for p :: "'a::linorder"
  by (induction xs) auto

lemma dropWhile_ge: "sorted xs \<Longrightarrow> q \<in> set (dropWhile (\<lambda>q. q < p) xs) \<Longrightarrow> p \<le> q" for p :: "'a::linorder"
  by (induction xs) (auto split: if_splits)

lemma insort_split:
  fixes p :: path
  assumes "finite A" "p \<notin> A"
  shows "\<exists>xs ys. sorted_list_of_set A = xs @ ys \<and> sorted_list_of_set (insert p A) = xs @ p # ys \<and> (\<forall>q\<in>set ys. p < q)"
proof -
  let ?l = "sorted_list_of_set A"
  have "sorted_list_of_set (insert p A) = takeWhile (\<lambda>q. q < p) ?l @ p # dropWhile (\<lambda>q. q < p) ?l"
    using assms by (simp add: insort_eq)
  moreover have "p < q" if "q \<in> set (dropWhile (\<lambda>q. q < p) ?l)" for q
  proof -
    have "p \<le> q" using that by (intro dropWhile_ge [of ?l]) simp_all
    moreover have "q \<in> A" using that assms(1) set_dropWhileD [of q "\<lambda>q. q < p" ?l] by simp
    ultimately show ?thesis using assms(2) by (metis order_le_imp_less_or_eq)
  qed
  ultimately show ?thesis by (metis takeWhile_dropWhile_id)
qed

text \<open>The segment that comes last in its directory is followed by those of other directories.\<close>

lemma order_around:
  fixes p :: path
  assumes "finite A" "\<And>q. q \<in> A \<Longrightarrow> fst q = fst p \<Longrightarrow> snd q \<le> snd p"
  obtains xs ys where "sorted_list_of_set (insert p A) = xs @ p # ys" "sorted_list_of_set (A - {p}) = xs @ ys"
    "\<forall>q\<in>set ys. fst q \<noteq> fst p" "p \<notin> set xs" "p \<notin> set ys"
proof -
  obtain xs ys where l: "sorted_list_of_set (A - {p}) = xs @ ys" "sorted_list_of_set (insert p (A - {p})) = xs @ p # ys"
    and after: "\<forall>q\<in>set ys. p < q"
    using insort_split [of "A - {p}" p] assms(1) by auto
  have "set (xs @ ys) = A - {p}" using assms(1) by (simp flip: l(1))
  then have "fst q \<noteq> fst p" if "q \<in> set ys" for q
    using that after assms(2) [of q] by (force simp: less_prod_def')
  moreover have "p \<notin> set xs" "p \<notin> set ys" using \<open>set (xs @ ys) = A - {p}\<close> by auto
  ultimately show thesis using that l by simp
qed

section \<open>The names of segments\<close>

lemma digits_value_Cons: "digits_value (ch # s) = digit_value ch * 10 ^ length s + digits_value s"
proof (induction s rule: rev_induct)
  case Nil
  then show ?case by (simp add: digits_value_def)
next
  case (snoc x xs)
  have "digits_value (ch # xs @ [x]) = digits_value (ch # xs) * 10 + digit_value x"
    using digits_value_snoc [of "ch # xs" x] by simp
  with snoc show ?case by (simp add: digits_value_snoc algebra_simps)
qed

lemma digit_value_less: "is_ascii_digit ch \<Longrightarrow> digit_value ch < 10"
  by (auto simp: is_ascii_digit_def digit_value_def Let_def)

lemma digits_value_less: "list_all is_ascii_digit s \<Longrightarrow> digits_value s < 10 ^ length s"
proof (induction s)
  case Nil
  then show ?case by (simp add: digits_value_def)
next
  case (Cons ch s)
  then have "digit_value ch * 10 ^ length s + digits_value s < 9 * 10 ^ length s + 10 ^ length s"
    using digit_value_less [of ch] by (intro add_le_less_mono mult_right_mono) simp_all
  then show ?case by (simp add: digits_value_Cons)
qed

lemma digit_order: "is_ascii_digit a \<Longrightarrow> is_ascii_digit b \<Longrightarrow> a < b \<longleftrightarrow> digit_value a < digit_value b"
  by (auto simp: is_ascii_digit_def digit_value_def less_char_def Let_def)

lemma digit_eq: "is_ascii_digit a \<Longrightarrow> is_ascii_digit b \<Longrightarrow> a = b \<longleftrightarrow> digit_value a = digit_value b"
  by (metis digit_order less_irrefl neqE)

lemma digits_order:
  "length s = length t \<Longrightarrow> list_all is_ascii_digit s \<Longrightarrow> list_all is_ascii_digit t \<Longrightarrow>
     s < t \<longleftrightarrow> digits_value s < digits_value t"
proof (induction s t rule: list_induct2)
  case Nil
  then show ?case by simp
next
  case (Cons a s b t)
  let ?k = "10 ^ length t :: nat"
  have less: "digits_value s < ?k" "digits_value t < ?k"
    using digits_value_less [of s] digits_value_less [of t] Cons by simp_all
  have val: "digits_value (a # s) = digit_value a * ?k + digits_value s"
    "digits_value (b # t) = digit_value b * ?k + digits_value t"
    using Cons.hyps by (simp_all add: digits_value_Cons)
  consider "digit_value a < digit_value b" | "digit_value a = digit_value b" | "digit_value b < digit_value a"
    by linarith
  then show ?case
  proof cases
    case 1
    then have "Suc (digit_value a) * ?k \<le> digit_value b * ?k" by (intro mult_right_mono) simp_all
    then show ?thesis using 1 less val Cons.prems by (simp add: digit_order [of a b])
  next
    case 2
    then show ?thesis using less val Cons digit_eq [of a b] by simp
  next
    case 3
    then have "Suc (digit_value b) * ?k \<le> digit_value a * ?k" by (intro mult_right_mono) simp_all
    then show ?thesis using 3 less val Cons.prems digit_order [of b a] by auto
  qed
qed

lemma length_show_nat: "n < 10 ^ k \<Longrightarrow> 0 < k \<Longrightarrow> length (show_nat n) \<le> k"
proof (induction n arbitrary: k rule: show_nat.induct)
  case (1 n)
  show ?case
  proof (cases "n < 10")
    case True
    with 1 show ?thesis by (subst show_nat.simps) simp
  next
    case False
    then obtain j where j: "k = Suc j" "0 < j"
      using 1(2,3) by (cases k; cases "k = 1") auto
    then have "n div 10 < 10 ^ j" using 1(2) by (simp add: less_mult_imp_div_less mult.commute)
    from 1(1) [OF False this j(2)] show ?thesis using False j by (subst show_nat.simps) simp
  qed
qed

lemma zero_padded_props:
  assumes "n \<le> u64_max"
  shows "length (zero_padded n) = 20" "list_all is_ascii_digit (zero_padded n)" "digits_value (zero_padded n) = n"
proof -
  have "n < 10 ^ 20" using assms by (simp add: u64_max_def)
  from length_show_nat [OF this] show "length (zero_padded n) = 20" by (simp add: zero_padded_def)
  have zero: "is_ascii_digit (CHR ''0'')" "digit_value (CHR ''0'') = 0" by (simp_all add: is_ascii_digit_def digit_value_def)
  show "list_all is_ascii_digit (zero_padded n)"
    using show_nat_props [of n] zero(1) by (auto simp: zero_padded_def list_all_iff)
  have "digits_value (replicate m (CHR ''0'') @ s) = digits_value s" for m s
    by (induction m) (simp_all add: digits_value_Cons zero(2))
  then show "digits_value (zero_padded n) = n" using show_nat_props [of n] by (simp add: zero_padded_def)
qed

lemma append_less_left: "p @ s < p @ t \<longleftrightarrow> s < (t :: string)"
  by (induction p) simp_all

lemma append_less_right: "length s = length t \<Longrightarrow> s @ x < t @ x \<longleftrightarrow> s < (t :: string)"
  by (induction s t rule: list_induct2) simp_all

lemma segment_name_less:
  "i \<le> u64_max \<Longrightarrow> j \<le> u64_max \<Longrightarrow> snd (segment_path dir i) < snd (segment_path dir' j) \<longleftrightarrow> i < j"
  by (simp only: segment_path_def snd_conv append_less_left append_less_right zero_padded_props digits_order)

lemma extension_jmc: "x \<noteq> [] \<Longrightarrow> extension (x @ ''.jmc'') = Some ''jmc''"
  by (auto simp: extension_def Let_def)

lemma segment_extension [simp]: "extension (snd (segment_path dir i)) = Some ''jmc''" "fst (segment_path dir i) = dir"
  using extension_jmc [of "''segment-'' @ zero_padded i"] by (simp_all add: segment_path_def)

lemma segment_id_path: "i \<le> u64_max \<Longrightarrow> segment_id (segment_path dir i) = Some i"
proof -
  assume i: "i \<le> u64_max"
  note z = zero_padded_props [OF i]
  have "file_stem (snd (segment_path dir i)) = ''segment-'' @ zero_padded i"
    using segment_extension(1) [of dir i] z(1) by (simp add: file_stem_def segment_path_def)
  moreover have "parse_u64 (zero_padded i) = Some i"
    using z i by (cases "zero_padded i") (auto simp: parse_u64_def Let_def is_ascii_digit_def)
  ultimately show ?thesis by (simp add: segment_id_def Let_def starts_with_def)
qed

section \<open>The index as a function of the segments\<close>

definition location_of :: "cold_codec \<Rightarrow> path \<Rightarrow> nat \<Rightarrow> cold_record \<Rightarrow> record_location option" where
  "location_of c p offset r =
     (case cr_value r of
        None \<Rightarrow> None
      | Some _ \<Rightarrow> Some \<lparr> rl_path = p, rl_offset = offset, rl_total_len = length (encode_record c r), rl_class = cr_class r \<rparr>)"

text \<open>What a segment makes of the location of a key.\<close>

fun track :: "cold_codec \<Rightarrow> path \<Rightarrow> nat \<Rightarrow> cold_record list \<Rightarrow> string \<Rightarrow> record_location option \<Rightarrow> record_location option" where
  "track c p offset [] k l = l"
| "track c p offset (r # rs) k l =
     track c p (offset + length (encode_record c r)) rs k (if cr_key r = k then location_of c p offset r else l)"

definition track_all ::
  "cold_codec \<Rightarrow> (path \<Rightarrow> cold_record list) \<Rightarrow> path list \<Rightarrow> string \<Rightarrow> record_location option" where
  "track_all c recs ps k = fold (\<lambda>p. track c p 0 (recs p) k) ps None"

lemma index_records_get: "hm_get (index_records c p offset rs index) k = track c p offset rs k (hm_get index k)"
  by (induction rs arbitrary: offset index) (auto simp: apply_record_def location_of_def split: option.split)

lemma index_all_get:
  "hm_get (fold (\<lambda>p. index_records c p 0 (recs p)) ps index) k = fold (\<lambda>p. track c p 0 (recs p) k) ps (hm_get index k)"
  by (induction ps arbitrary: index) (simp_all add: index_records_get)

lemma track_snoc:
  "track c p offset (rs @ [r]) k l =
     (if cr_key r = k then location_of c p (offset + length (encode_all c rs)) r else track c p offset rs k l)"
  by (induction rs arbitrary: offset l) (simp_all add: add.assoc)

lemma track_other: "\<forall>r\<in>set rs. cr_key r \<noteq> k \<Longrightarrow> track c p offset rs k l = l"
  by (induction rs arbitrary: offset l) simp_all

lemma fold_track_other: "\<forall>p\<in>set ps. \<forall>r\<in>set (recs p). cr_key r \<noteq> k \<Longrightarrow> fold (\<lambda>p. track c p 0 (recs p) k) ps l = l"
  by (induction ps arbitrary: l) (simp_all add: track_other)

lemma fold_track_cong:
  "\<forall>p\<in>set ps. recs p = recs' p \<Longrightarrow> fold (\<lambda>p. track c p 0 (recs p) k) ps l = fold (\<lambda>p. track c p 0 (recs' p) k) ps l"
  by (induction ps arbitrary: l) simp_all

text \<open>A record appended to a segment that no later one follows in its directory.\<close>

lemma track_all_append:
  assumes "finite A" "\<And>q. q \<in> A \<Longrightarrow> fst q = fst p \<Longrightarrow> snd q \<le> snd p" "p \<notin> A \<Longrightarrow> recs p = []"
    and others: "\<And>q r'. q \<in> A \<Longrightarrow> fst q \<noteq> fst p \<Longrightarrow> r' \<in> set (recs q) \<Longrightarrow> cr_key r' \<noteq> cr_key r"
  defines "recs' \<equiv> recs(p := recs p @ [r])"
  shows "track_all c recs' (sorted_list_of_set (insert p A)) k =
    (if k = cr_key r then location_of c p (length (encode_all c (recs p))) r
     else track_all c recs (sorted_list_of_set A) k)"
proof -
  obtain xs ys where l: "sorted_list_of_set (insert p A) = xs @ p # ys" "sorted_list_of_set (A - {p}) = xs @ ys"
    and after: "\<forall>q\<in>set ys. fst q \<noteq> fst p" and p: "p \<notin> set xs" "p \<notin> set ys"
    using order_around [OF assms(1,2)] by blast
  have A: "set xs \<union> set ys = A - {p}" using assms(1) l(2) by (metis set_append finite_Diff set_sorted_list_of_set)
  have same: "\<forall>q\<in>set xs. recs' q = recs q" "\<forall>q\<in>set ys. recs' q = recs q" using p by (auto simp: recs'_def)
  show ?thesis
  proof (cases "k = cr_key r")
    case True
    have "\<forall>q\<in>set ys. \<forall>r'\<in>set (recs' q). cr_key r' \<noteq> k"
      using after others A same(2) True by fastforce
    then show ?thesis using True l(1)
      by (simp add: track_all_def fold_track_other) (simp add: recs'_def track_snoc)
  next
    case False
    have "track_all c recs (sorted_list_of_set A) k = track_all c recs (xs @ p # ys) k"
    proof (cases "p \<in> A")
      case True
      then show ?thesis using l(1) by (simp add: insert_absorb)
    next
      case p': False
      then show ?thesis using l(2) assms(3) by (simp add: track_all_def)
    qed
    then show ?thesis
      using False l(1) fold_track_cong [OF same(1), of c k] fold_track_cong [OF same(2), of c k]
      by (simp add: track_all_def recs'_def track_snoc)
  qed
qed

section \<open>Opening a store with intact segments\<close>

definition intact :: "cold_codec \<Rightarrow> (string \<Rightarrow> string) \<Rightarrow> disk \<Rightarrow> path \<Rightarrow> cold_record list \<Rightarrow> bool" where
  "intact c cls d p rs \<longleftrightarrow>
     hm_get (dk_files d) p = Some (encode_all c rs) \<and> records_ok c cls rs \<and> length (encode_all c rs) < u64_max"

lemma rebuild_segment_intact:
  assumes "cold_codec_ok c" "readable d" "intact c cls d p rs" "classes_fixed cls index"
  shows "rebuild_segment p index d = (Inr (index_records c p 0 rs index, length (encode_all c rs), 0), d)"
proof -
  have "scan_from p (encode_all c rs) 0 index = (Scanned (length (encode_all c rs)), index_records c p 0 rs index)"
    using scan_records [OF assms(1) torn_record_Nil, of cls rs index "[]" p] assms(3,4) by (simp add: intact_def)
  then show ?thesis
    using assms(2,3) by (simp add: rebuild_segment_def scan_segment_def io_read_def readable_def intact_def cut_tail_def)
qed

lemma rebuild_files_intact:
  assumes "cold_codec_ok c" "readable d"
  shows "\<forall>p\<in>set ps. intact c cls d p (recs p) \<Longrightarrow> classes_fixed cls index \<Longrightarrow>
    rebuild_files ps (index, bytes, salvaged) d =
      (Inr (fold (\<lambda>p. index_records c p 0 (recs p)) ps index,
         bytes + sum_list (map (\<lambda>p. length (encode_all c (recs p))) ps), salvaged), d) \<and>
    classes_fixed cls (fold (\<lambda>p. index_records c p 0 (recs p)) ps index)"
proof (induction ps arbitrary: index bytes)
  case Nil
  then show ?case by simp
next
  case (Cons p ps)
  have "rebuild_segment p index d = (Inr (index_records c p 0 (recs p) index, length (encode_all c (recs p)), 0), d)"
    using Cons.prems by (intro rebuild_segment_intact [OF assms]) simp_all
  moreover have "classes_fixed cls (index_records c p 0 (recs p) index)"
    using Cons.prems by (intro classes_fixed_index) (auto simp: intact_def)
  ultimately show ?case using Cons.IH [of "index_records c p 0 (recs p) index"] Cons.prems by (simp add: add.assoc)
qed

lemma rebuild_dirs_intact:
  assumes "cold_codec_ok c" "readable d"
  defines "files \<equiv> \<lambda>dir. sort_key snd (files_in d dir)"
  shows "\<forall>p\<in>set (concat (map files dirs)). intact c cls d p (recs p) \<Longrightarrow> classes_fixed cls index \<Longrightarrow>
    rebuild_dirs dirs (index, bytes, salvaged) d =
      (Inr (fold (\<lambda>p. index_records c p 0 (recs p)) (concat (map files dirs)) index,
         bytes + sum_list (map (\<lambda>p. length (encode_all c (recs p))) (concat (map files dirs))), salvaged), d)"
proof (induction dirs arbitrary: index bytes)
  case Nil
  then show ?case by simp
next
  case (Cons dir dirs)
  have "\<forall>p\<in>set (files dir). intact c cls d p (recs p)" using Cons.prems(1) by simp
  from rebuild_files_intact [OF assms(1,2) this Cons.prems(2), of bytes salvaged] Cons.IH Cons.prems(1)
  show ?case by (simp add: segment_files_readable [OF assms(2)] files_def add.assoc)
qed

lemma sum_list_sorted: "finite A \<Longrightarrow> sum_list (map f (sorted_list_of_set A)) = (\<Sum>p\<in>A. f p)"
  for f :: "path \<Rightarrow> nat"
  by (simp add: sum.distinct_set_conv_list [symmetric])

lemma rebuild_index_intact:
  assumes "cold_codec_ok c" "readable d" "hm_wf (dk_files d)" "\<forall>p\<in>segments d root. intact c cls d p (recs p)"
  shows "\<exists>index. rebuild_index root d = (Inr (index, \<Sum>p\<in>segments d root. length (encode_all c (recs p)), 0), d) \<and>
    (\<forall>k. hm_get index k = track_all c recs (sorted_list_of_set (segments d root)) k)"
proof -
  have "classes_fixed cls []" by (simp add: classes_fixed_def)
  from rebuild_dirs_intact [OF assms(1,2), of "dirs_in d root" cls recs, OF _ this, of 0 0] assms(4)
  show ?thesis
    by (simp add: rebuild_index_def class_dirs_readable [OF assms(2)] scan_order [OF assms(3)] sum_list_sorted
        index_all_get track_all_def)
qed


end
