(* ===== verification/Jme_Cold_Store.thy ===== *)
theory Jme_Cold_Store
  imports Jme_Cold_Index
begin

text \<open>
  The Cold store in use: its invariant, and what each operation does to the entries it holds.
\<close>

section \<open>The invariant of an open store\<close>

text \<open>No call on the disk fails from here on.\<close>

definition faultless :: "disk \<Rightarrow> bool" where
  "faultless d \<longleftrightarrow> (\<forall>n\<ge>dk_calls d. dk_faults d n = None)"

definition class_root :: "cold_codec \<Rightarrow> segmented_cold \<Rightarrow> string \<Rightarrow> string" where
  "class_root c s class_name = join (sc_root s) (class_directory c class_name)"

abbreviation cold_segments :: "segmented_cold \<Rightarrow> path set" where
  "cold_segments s \<equiv> segments (sc_disk s) (sc_root s)"

text \<open>
  \<open>recs\<close> are the records of each segment: whole, of one class per key, in the directory of their
  class, with numbers up to \<open>n\<close>. The classes in use have directories of their own.
\<close>

definition segment_inv ::
  "cold_codec \<Rightarrow> (string \<Rightarrow> string) \<Rightarrow> string set \<Rightarrow> nat \<Rightarrow> (path \<Rightarrow> cold_record list) \<Rightarrow> segmented_cold \<Rightarrow> path \<Rightarrow> bool" where
  "segment_inv c cls classes n recs s p \<longleftrightarrow>
     hm_get (dk_files (sc_disk s)) p = Some (encode_all c (recs p)) \<and> records_ok c cls (recs p) \<and>
     (\<forall>r\<in>set (recs p). cr_class r \<in> classes \<and> fst p = class_root c s (cr_class r)) \<and>
     (\<exists>i\<le>n. p = segment_path (fst p) i)"

definition writer_inv ::
  "cold_codec \<Rightarrow> nat \<Rightarrow> (path \<Rightarrow> cold_record list) \<Rightarrow> segmented_cold \<Rightarrow> string \<Rightarrow> segment_writer \<Rightarrow> bool" where
  "writer_inv c n recs s dir w \<longleftrightarrow>
     sw_id w \<le> n \<and> sw_path w = segment_path dir (sw_id w) \<and>
     (\<forall>p\<in>cold_segments s. fst p = dir \<longrightarrow> snd p \<le> snd (sw_path w)) \<and>
     sw_size w = length (encode_all c (recs (sw_path w)))"

definition disk_ok :: "disk \<Rightarrow> bool" where
  "disk_ok d \<longleftrightarrow> readable d \<and> faultless d \<and> hm_wf (dk_files d)"

definition cold_base ::
  "cold_codec \<Rightarrow> (string \<Rightarrow> string) \<Rightarrow> string set \<Rightarrow> nat \<Rightarrow> (path \<Rightarrow> cold_record list) \<Rightarrow> segmented_cold \<Rightarrow> bool" where
  "cold_base c cls classes n recs s \<longleftrightarrow>
     disk_ok (sc_disk s) \<and>
     (\<forall>p\<in>cold_segments s. segment_inv c cls classes n recs s p) \<and>
     (\<forall>p. p \<notin> cold_segments s \<longrightarrow> recs p = []) \<and>
     sc_bytes_on_disk s = (\<Sum>p\<in>cold_segments s. length (encode_all c (recs p))) \<and>
     (\<forall>class_name w. hm_get (sc_writers s) class_name = Some w \<longrightarrow>
        class_name \<in> classes \<and> writer_inv c n recs s (class_root c s class_name) w)"

definition cold_inv ::
  "cold_codec \<Rightarrow> (string \<Rightarrow> string) \<Rightarrow> string set \<Rightarrow> nat \<Rightarrow> (path \<Rightarrow> cold_record list) \<Rightarrow> segmented_cold \<Rightarrow> bool" where
  "cold_inv c cls classes n recs s \<longleftrightarrow>
     cold_base c cls classes n recs s \<and>
     (\<forall>k. hm_get (sc_index s) k = track_all c recs (sorted_list_of_set (cold_segments s)) k)"

lemma io_plain_ok:
  "disk_ok d \<Longrightarrow> io_plain d = (True, d\<lparr>dk_calls := dk_calls d + 1\<rparr>)"
  "disk_ok d \<Longrightarrow> disk_ok (d\<lparr>dk_calls := dk_calls d + 1\<rparr>)"
  by (simp_all add: io_plain_def io_call_def disk_ok_def faultless_def readable_def)

lemma segments_calls [simp]: "segments (d\<lparr>dk_calls := n\<rparr>) root = segments d root"
  by (simp add: segments_def)

lemma files_in_calls [simp]: "files_in (d\<lparr>dk_calls := n\<rparr>) dir = files_in d dir"
  by (simp add: files_in_def)

lemma segments_dom:
  "segments d root = {p. hm_get (dk_files d) p \<noteq> None \<and> child_dir root (fst p) = Some (fst p) \<and> extension (snd p) = Some ''jmc''}"
  by (auto simp: segments_def map_of_eq_None_iff)

lemma io_append_ok:
  assumes "disk_ok d"
  shows "\<exists>d'. io_append d p x = (True, d') \<and> disk_ok d' \<and>
    (\<forall>q. hm_get (dk_files d') q = (if q = p then Some (content d p @ x) else hm_get (dk_files d) q))"
  using assms by (auto simp: io_append_def io_call_def disk_ok_def faultless_def readable_def content_def Let_def)

lemma write_chunks_ok:
  "disk_ok d \<Longrightarrow> hm_get (dk_files d) p \<noteq> None \<Longrightarrow>
     \<exists>d'. write_chunks p xs d = (True, d') \<and> disk_ok d' \<and>
       (\<forall>q. hm_get (dk_files d') q = (if q = p then Some (content d p @ concat xs) else hm_get (dk_files d) q))"
proof (induction xs arbitrary: d)
  case Nil
  then show ?case by (auto simp: content_def split: option.splits)
next
  case (Cons x xs)
  obtain d1 where d1: "io_append d p x = (True, d1)" "disk_ok d1"
    "\<forall>q. hm_get (dk_files d1) q = (if q = p then Some (content d p @ x) else hm_get (dk_files d) q)"
    using io_append_ok [OF Cons.prems(1)] by blast
  have "hm_get (dk_files d1) p \<noteq> None" using spec [OF d1(3), of p] by simp
  from Cons.IH [OF d1(2) this] d1 show ?case by (auto simp: content_def)
qed

lemma class_root_props:
  "child_dir (sc_root s) (class_root c s class_name) = Some (class_root c s class_name)"
proof -
  have hex: "CHR ''/'' \<notin> set (hex bs)" for bs
  proof -
    have "hex_digit n \<noteq> CHR ''/''" if "n < 16" for n
      using that by (auto simp: hex_digit_def char_of_eq_iff take_bit_eq_mod)
    from this [OF nibbles(1)] this [OF nibbles(2)] show ?thesis
      by (induction bs) (auto simp: eq_commute [of "CHR ''/''"])
  qed
  then have "takeWhile (\<lambda>ch. ch \<noteq> CHR ''/'') (class_directory c class_name) = class_directory c class_name"
    by (auto simp: takeWhile_eq_all_conv class_directory_def)
  then show ?thesis
    by (auto simp: child_dir_def class_root_def join_def starts_with_append)
qed

lemma write_chunks_append:
  "write_chunks p (xs @ ys) d =
     (case write_chunks p xs d of (False, d) \<Rightarrow> (False, d) | (True, d) \<Rightarrow> write_chunks p ys d)"
  by (induction xs arbitrary: d) (auto split: prod.split bool.split)

lemma write_chunks_split:
  "write_chunks p (xs @ ys) d = (True, d2) \<Longrightarrow>
     \<exists>d1. write_chunks p xs d = (True, d1) \<and> write_chunks p ys d1 = (True, d2)"
  by (simp only: write_chunks_append split: prod.splits bool.splits) auto

text \<open>The writer of a class.\<close>

lemma in_files_in: "p \<in> set (files_in d dir) \<longleftrightarrow> p \<in> fst ` set (dk_files d) \<and> fst p = dir \<and> extension (snd p) = Some ''jmc''"
  by (auto simp: files_in_def)

lemma files_in_segments:
  "p \<in> set (files_in (sc_disk s) (class_root c s class_name)) \<longleftrightarrow>
     p \<in> cold_segments s \<and> fst p = class_root c s class_name"
  unfolding in_files_in segments_def using class_root_props [of s c class_name] by auto

lemma last_sort_key:
  assumes "xs \<noteq> []"
  shows "last (sort_key f xs) \<in> set xs" "x \<in> set xs \<Longrightarrow> f x \<le> f (last (sort_key f xs))"
proof -
  let ?l = "sort_key f xs"
  have ne: "?l \<noteq> []" using assms by (metis length_sort length_0_conv)
  then show "last ?l \<in> set xs" using last_in_set [of ?l] by simp
  obtain ys z where l: "?l = ys @ [z]" using ne by (metis rev_exhaust)
  have "sorted (map f ?l)" by simp
  then have "\<forall>y\<in>set ys. f y \<le> f z" by (simp add: l sorted_append)
  moreover assume "x \<in> set xs"
  then have "x \<in> set ?l" by simp
  ultimately show "f x \<le> f (last ?l)" by (auto simp: l)
qed

text \<open>The invariant looks at the root and the files only.\<close>

lemma base_cong:
  assumes "sc_root s' = sc_root s" "dk_files (sc_disk s') = dk_files (sc_disk s)"
  shows "segment_inv c cls classes n recs s' = segment_inv c cls classes n recs s"
    "writer_inv c n recs s' = writer_inv c n recs s" "class_root c s' = class_root c s" "cold_segments s' = cold_segments s"
proof -
  show root: "class_root c s' = class_root c s" by (simp add: fun_eq_iff class_root_def assms)
  show segs: "cold_segments s' = cold_segments s" by (simp add: segments_def assms)
  show "segment_inv c cls classes n recs s' = segment_inv c cls classes n recs s"
    by (simp add: fun_eq_iff segment_inv_def root assms)
  show "writer_inv c n recs s' = writer_inv c n recs s" by (simp add: fun_eq_iff writer_inv_def segs)
qed

lemma base_unused: "cold_base c cls classes n recs s \<Longrightarrow> p \<notin> cold_segments s \<Longrightarrow> recs p = []"
  unfolding cold_base_def by blast

lemma base_segment: "cold_base c cls classes n recs s \<Longrightarrow> p \<in> cold_segments s \<Longrightarrow> segment_inv c cls classes n recs s p"
  by (simp add: cold_base_def)

lemma base_writer:
  "cold_base c cls classes n recs s \<Longrightarrow> hm_get (sc_writers s) class_name = Some w \<Longrightarrow>
     class_name \<in> classes \<and> writer_inv c n recs s (class_root c s class_name) w"
  by (simp add: cold_base_def)

lemma with_writer:
  assumes "cold_base c cls classes n recs s" "class_name \<in> classes" "writer_inv c n recs s (class_root c s class_name) w"
    and "disk_ok d" "dk_files d = dk_files (sc_disk s)"
  shows "cold_base c cls classes n recs (s\<lparr>sc_disk := d, sc_writers := hm_insert class_name w (sc_writers s)\<rparr>)"
proof -
  let ?s = "s\<lparr>sc_disk := d, sc_writers := hm_insert class_name w (sc_writers s)\<rparr>"
  have "sc_root ?s = sc_root s" "dk_files (sc_disk ?s) = dk_files (sc_disk s)" using assms(5) by simp_all
  note cong = base_cong [OF this]
  from assms(1-4) show ?thesis unfolding cold_base_def cong by simp
qed

lemma writer_for_class_ok:
  assumes base: "cold_base c cls classes n recs s" and class_in: "class_name \<in> classes" and n: "n \<le> u64_max"
  shows "\<exists>w s'. writer_for_class c class_name s = (Inr w, s') \<and> cold_base c cls classes n recs s' \<and>
    hm_get (sc_writers s') class_name = Some w \<and> cold_segments s' = cold_segments s \<and>
    sc_index s' = sc_index s \<and> sc_root s' = sc_root s \<and> sc_segment_max_bytes s' = sc_segment_max_bytes s \<and>
    sc_bytes_on_disk s' = sc_bytes_on_disk s \<and> sc_max_disk_bytes s' = sc_max_disk_bytes s"
proof (cases "hm_get (sc_writers s) class_name")
  case (Some w)
  then show ?thesis using base by (auto simp: writer_for_class_def)
next
  case None
  let ?dir = "class_root c s class_name" and ?d = "sc_disk s"
  define d where "d = ?d\<lparr>dk_calls := dk_calls ?d + 1\<rparr>"
  have ok: "disk_ok ?d" using base by (simp add: cold_base_def)
  note plain = io_plain_ok [OF ok, folded d_def]
  have files: "segment_files d ?dir = Inr (files_in ?d ?dir)"
    using plain(2) by (simp add: segment_files_readable disk_ok_def) (simp add: d_def)
  have same: "dk_files d = dk_files ?d" "segments d (sc_root s) = cold_segments s" by (simp_all add: d_def)
  note keep = with_writer [OF base class_in _ plain(2) same(1)]
  show ?thesis
  proof (cases "sort_key snd (files_in ?d ?dir)")
    case Nil
    then have none: "files_in ?d ?dir = []" by (metis length_sort length_0_conv)
    have empty: "p \<notin> cold_segments s" if "fst p = ?dir" for p
      using files_in_segments [of p s c class_name] none that by simp
    have "writer_inv c n recs s ?dir \<lparr> sw_id = 0, sw_path = segment_path ?dir 0, sw_size = 0 \<rparr>"
      using base_unused [OF base empty [of "segment_path ?dir 0"]] empty by (simp add: writer_inv_def) blast
    from keep [OF this] None plain(1) files Nil same show ?thesis
      by (auto simp: writer_for_class_def class_root_def Let_def)
  next
    case (Cons p ps)
    define q where "q = last (p # ps)"
    have ne: "files_in ?d ?dir \<noteq> []" using Cons by auto
    note lst = last_sort_key [OF ne, where f = snd, unfolded Cons, folded q_def]
    have q: "q \<in> cold_segments s" "fst q = ?dir"
      using iffD1 [OF files_in_segments lst(1)] by blast+
    with base_segment [OF base q(1)] obtain i where i: "i \<le> n" "q = segment_path ?dir i"
      and bytes: "hm_get (dk_files ?d) q = Some (encode_all c (recs q))"
      unfolding segment_inv_def by metis
    have name: "segment_id q = Some i" unfolding i(2) by (rule segment_id_path) (use i(1) n in simp)
    have "writer_inv c n recs s ?dir \<lparr> sw_id = i, sw_path = q, sw_size = length (encode_all c (recs q)) \<rparr>"
      using i lst(2) iffD2 [OF files_in_segments, of _ s c class_name] unfolding writer_inv_def by simp
    from keep [OF this] None plain(1) files Cons bytes name same show ?thesis
      by (simp add: writer_for_class_def class_root_def Let_def or_default_def q_def [symmetric] del: last.simps)
  qed
qed


section \<open>Appending a record\<close>

lemma sum_grow:
  fixes f g :: "path \<Rightarrow> nat"
  assumes "finite A" "g p = f p + t" "\<And>q. q \<noteq> p \<Longrightarrow> g q = f q" "p \<notin> A \<Longrightarrow> f p = 0"
  shows "(\<Sum>q\<in>insert p A. g q) = (\<Sum>q\<in>A. f q) + t"
proof -
  have "(\<Sum>q\<in>A - {p}. g q) = (\<Sum>q\<in>A - {p}. f q)" using assms(3) by (intro sum.cong) auto
  then have "(\<Sum>q\<in>insert p A. g q) = f p + t + (\<Sum>q\<in>A - {p}. f q)"
    using assms(1,2) by (simp add: sum.insert_remove)
  moreover have "f p + (\<Sum>q\<in>A - {p}. f q) = (\<Sum>q\<in>A. f q)"
    using assms(1,4) by (cases "p \<in> A") (simp_all add: sum.remove)
  ultimately show ?thesis by simp
qed

lemma class_root_inject:
  "inj_on (class_directory c) classes \<Longrightarrow> a \<in> classes \<Longrightarrow> b \<in> classes \<Longrightarrow>
     class_root c s a = class_root c s b \<longleftrightarrow> a = b"
  by (auto simp: class_root_def join_def dest: inj_onD)

lemma rotate_writer_inv:
  assumes base: "cold_base c cls classes n recs s" and w: "writer_inv c n recs s dir w" and n: "n < u64_max"
  shows "writer_inv c (n + 1) recs s dir (rotate_writer m t w)"
proof (cases "0 < sw_size w \<and> m < sat_add (sw_size w) t")
  case False
  with w show ?thesis by (auto simp: rotate_writer_def writer_inv_def)
next
  case True
  let ?p = "segment_path dir (sw_id w + 1)"
  have less: "snd (sw_path w) < snd ?p"
    using w n by (auto simp: writer_inv_def segment_name_less)
  then have "?p \<notin> cold_segments s" using w by (force simp: writer_inv_def)
  then have "recs ?p = []" by (rule base_unused [OF base])
  moreover have "fst (sw_path w) = dir" using w by (metis writer_inv_def segment_extension(2))
  ultimately show ?thesis
    using w True less by (auto simp: rotate_writer_def writer_inv_def intro: order_trans less_imp_le)
qed

lemma write_record_ok:
  assumes c: "cold_codec_ok c" "inj_on (class_directory c) classes"
    and base: "cold_base c cls classes n recs s" and n: "n < u64_max"
    and w: "hm_get (sc_writers s) class_name = Some w"
    and r: "record_ok c r" "cr_key r = key" "cr_class r = class_name" "cr_value r = v" "class_name = cls key"
  shows "\<exists>p s'. write_record c key class_name (parts_of c v) w s =
      (Inr \<lparr> rl_path = p, rl_offset = length (encode_all c (recs p)), rl_total_len = length (encode_record c r),
             rl_class = class_name \<rparr>, s') \<and>
    cold_base c cls classes (n + 1) (recs(p := recs p @ [r])) s' \<and> cold_segments s' = insert p (cold_segments s) \<and>
    fst p = class_root c s class_name \<and> (\<forall>q\<in>cold_segments s. fst q = fst p \<longrightarrow> snd q \<le> snd p) \<and>
    sc_index s' = sc_index s \<and> sc_root s' = sc_root s \<and> sc_max_disk_bytes s' = sc_max_disk_bytes s \<and>
    sc_bytes_on_disk s' = sc_bytes_on_disk s + length (encode_record c r)"
proof -
  let ?dir = "class_root c s class_name" and ?total = "record_total key class_name (parts_of c v)"
  have total: "?total = length (encode_record c r)" using length_encode [OF c(1), of r] r by simp
  have in_classes: "class_name \<in> classes" and winv: "writer_inv c n recs s ?dir w"
    using base_writer [OF base w] by simp_all
  define w1 where "w1 = rotate_writer (sc_segment_max_bytes s) ?total w"
  define p where "p = sw_path w1"
  have w1: "writer_inv c (n + 1) recs s ?dir w1" unfolding w1_def by (rule rotate_writer_inv [OF base winv n])
  then have p: "p = segment_path ?dir (sw_id w1)" "sw_id w1 \<le> n + 1" "sw_size w1 = length (encode_all c (recs p))"
    "\<forall>q\<in>cold_segments s. fst q = ?dir \<longrightarrow> snd q \<le> snd p"
    unfolding writer_inv_def p_def by blast+
  have dir: "fst p = ?dir" "extension (snd p) = Some ''jmc''" by (simp_all add: p(1))
  have old: "content (sc_disk s) p = encode_all c (recs p)"
  proof (cases "p \<in> cold_segments s")
    case True
    from base_segment [OF base True] show ?thesis by (simp add: segment_inv_def content_def)
  next
    case False
    with base_unused [OF base False] dir class_root_props show ?thesis
      by (auto simp: segments_dom content_def split: option.split)
  qed
  have ok: "disk_ok (sc_disk s)" using base by (simp add: cold_base_def)
  from io_append_ok [OF ok, of p "[]"] obtain d1 where d1: "io_append (sc_disk s) p [] = (True, d1)" "disk_ok d1"
    "\<forall>q. hm_get (dk_files d1) q = (if q = p then Some (encode_all c (recs p)) else hm_get (dk_files (sc_disk s)) q)"
    by (auto simp: old)
  have "hm_get (dk_files d1) p \<noteq> None" using spec [OF d1(3), of p] by simp
  from write_chunks_ok [OF d1(2) this, of "record_chunks key class_name (parts_of c v)"] obtain d2 where
    d2: "write_chunks p (record_chunks key class_name (parts_of c v)) d1 = (True, d2)" "disk_ok d2"
    "\<forall>q. hm_get (dk_files d2) q =
       (if q = p then Some (content d1 p @ concat (record_chunks key class_name (parts_of c v))) else hm_get (dk_files d1) q)"
    by blast
  note sync = io_plain_ok [OF d2(2)]
  obtain dh where dh: "write_chunks p (record_header key class_name (parts_of c v)) d1 = (True, dh)"
    "write_chunks p [key, class_name, rp_payload (parts_of c v)] dh = (True, d2)"
    using write_chunks_split [OF d2(1)] by blast
  define d3 where "d3 = d2\<lparr>dk_calls := dk_calls d2 + 1\<rparr>"
  have d3: "hm_get (dk_files d3) q =
      (if q = p then Some (encode_all c (recs p @ [r])) else hm_get (dk_files (sc_disk s)) q)" for q
    using spec [OF d2(3), of q] spec [OF d1(3), of q] spec [OF d1(3), of p] r(2-4)
    by (auto simp: d3_def content_def encode_record_def)
  define s' where "s' = s\<lparr>sc_disk := d3, sc_writers := hm_insert class_name (w1\<lparr>sw_size := sw_size w1 + ?total\<rparr>)
      (hm_insert class_name w1 (sc_writers s)), sc_bytes_on_disk := sc_bytes_on_disk s + ?total\<rparr>"
  let ?recs = "recs(p := recs p @ [r])"
  have run: "write_record c key class_name (parts_of c v) w s =
      (Inr \<lparr> rl_path = p, rl_offset = length (encode_all c (recs p)), rl_total_len = length (encode_record c r),
             rl_class = class_name \<rparr>, s')"
    using d1(1) dh sync(1) p(3)
    by (simp add: write_record_def Let_def w1_def [symmetric, unfolded total] p_def [symmetric] d3_def s'_def total
        del: write_chunks.simps)
  have files: "hm_get (dk_files (sc_disk s')) q =
      (if q = p then Some (encode_all c (recs p @ [r])) else hm_get (dk_files (sc_disk s)) q)" for q
    by (simp add: s'_def d3)
  have root: "class_root c s' = class_root c s" by (simp add: s'_def class_root_def fun_eq_iff)
  have segs: "cold_segments s' = insert p (cold_segments s)"
    using dir class_root_props [of s c class_name] by (auto simp: segments_dom s'_def d3 split: if_splits)
  have "cold_base c cls classes (n + 1) ?recs s'"
    unfolding cold_base_def segs
  proof (intro conjI ballI allI impI)
    show "disk_ok (sc_disk s')" using sync(2) by (simp add: s'_def d3_def)
  next
    fix q assume q: "q \<in> insert p (cold_segments s)"
    have old_inv: "segment_inv c cls classes n recs s q" if "q \<in> cold_segments s" by (rule base_segment [OF base that])
    show "segment_inv c cls classes (n + 1) ?recs s' q"
    proof (cases "q = p")
      case True
      have "records_ok c cls (recs p) \<and> (\<forall>r\<in>set (recs p). cr_class r \<in> classes \<and> fst p = class_root c s (cr_class r))"
      proof (cases "p \<in> cold_segments s")
        case True
        from base_segment [OF base True] show ?thesis by (simp add: segment_inv_def)
      next
        case False
        from base_unused [OF base False] show ?thesis by simp
      qed
      moreover have "\<exists>i\<le>n + 1. p = segment_path (fst p) i" using p(1,2) dir(1) by metis
      ultimately show ?thesis
        using True r in_classes dir by (auto simp: segment_inv_def root files)
    next
      case False
      with q old_inv have "segment_inv c cls classes n recs s q" by simp
      with False show ?thesis
        by (auto simp: segment_inv_def root files intro: le_SucI)
    qed
  next
    fix q assume "q \<notin> insert p (cold_segments s)"
    with base_unused [OF base] show "?recs q = []" by simp
  next
    have "sc_bytes_on_disk s = (\<Sum>q\<in>cold_segments s. length (encode_all c (recs q)))" using base by (simp add: cold_base_def)
    moreover have "length (encode_all c (?recs p)) = length (encode_all c (recs p)) + ?total" by (simp add: total)
    ultimately show "sc_bytes_on_disk s' = (\<Sum>q\<in>insert p (cold_segments s). length (encode_all c (?recs q)))"
      using base_unused [OF base, of p]
      by (subst sum_grow [where f = "\<lambda>q. length (encode_all c (recs q))" and t = ?total]) (auto simp: s'_def)
  next
    fix name w' assume w': "hm_get (sc_writers s') name = Some w'"
    show "name \<in> classes"
      using w' in_classes base_writer [OF base] by (auto simp: s'_def split: if_splits)
    show "writer_inv c (n + 1) ?recs s' (class_root c s' name) w'"
    proof (cases "name = class_name")
      case True
      with w' have "w' = w1\<lparr>sw_size := sw_size w1 + ?total\<rparr>" by (simp add: s'_def)
      then show ?thesis using True p by (auto simp: writer_inv_def root segs p_def [symmetric] total)
    next
      case False
      with w' have "hm_get (sc_writers s) name = Some w'" by (simp add: s'_def)
      from base_writer [OF base this] have name: "name \<in> classes" and inv: "writer_inv c n recs s (class_root c s name) w'"
        by simp_all
      have ne: "class_root c s name \<noteq> fst p"
        using class_root_inject [OF c(2) name in_classes, of s] False dir(1) by metis
      moreover have "fst (sw_path w') = class_root c s name" using inv by (metis writer_inv_def segment_extension(2))
      ultimately show ?thesis using inv by (auto simp: writer_inv_def root segs)
    qed
  qed
  with run segs dir p(4) total show ?thesis
    by (intro exI [where x = p] exI [where x = s']) (simp add: s'_def)
qed

section \<open>Reading\<close>

text \<open>The location of a key is that of one of its records that has a value.\<close>

lemma track_located:
  "track c p offset rs k a = Some l \<Longrightarrow>
     a = Some l \<or> (\<exists>pre r post. rs = pre @ r # post \<and> cr_key r = k \<and>
       location_of c p (offset + length (encode_all c pre)) r = Some l)"
proof (induction rs arbitrary: offset a)
  case Nil
  then show ?case by simp
next
  case (Cons r rs)
  from Cons.IH [of "offset + length (encode_record c r)"] Cons.prems
  have "(if cr_key r = k then location_of c p offset r else a) = Some l \<or>
    (\<exists>pre r' post. rs = pre @ r' # post \<and> cr_key r' = k \<and>
       location_of c p (offset + length (encode_record c r) + length (encode_all c pre)) r' = Some l)" by simp
  then show ?case
  proof
    assume "(if cr_key r = k then location_of c p offset r else a) = Some l"
    then show ?thesis by (cases "cr_key r = k") (force intro: exI [where x = "[]"])+
  next
    assume "\<exists>pre r' post. rs = pre @ r' # post \<and> cr_key r' = k \<and>
       location_of c p (offset + length (encode_record c r) + length (encode_all c pre)) r' = Some l"
    then obtain pre r' post where "rs = pre @ r' # post" "cr_key r' = k"
      "location_of c p (offset + length (encode_record c r) + length (encode_all c pre)) r' = Some l" by blast
    then show ?thesis
      by (intro disjI2 exI [where x = "r # pre"] exI [where x = r'] exI [where x = post]) (simp add: add.assoc)
  qed
qed

lemma fold_track_located:
  "fold (\<lambda>p. track c p 0 (recs p) k) ps a = Some l \<Longrightarrow>
     a = Some l \<or> (\<exists>p\<in>set ps. \<exists>pre r post. recs p = pre @ r # post \<and> cr_key r = k \<and>
       location_of c p (length (encode_all c pre)) r = Some l)"
proof (induction ps arbitrary: a)
  case Nil
  then show ?case by simp
next
  case (Cons p ps)
  from Cons.IH [of "track c p 0 (recs p) k a"] Cons.prems show ?case
    using track_located [of c p 0 "recs p" k a l] by fastforce
qed

lemma location_value: "location_of c p i r = Some l \<Longrightarrow> \<exists>v. cr_value r = Some v"
  by (auto simp: location_of_def split: option.splits)

lemma index_located:
  assumes "cold_inv c cls classes n recs s" "hm_get (sc_index s) k = Some l"
  obtains p pre r post v where "p \<in> cold_segments s" "recs p = pre @ r # post" "cr_key r = k" "cr_value r = Some v"
    "location_of c p (length (encode_all c pre)) r = Some l"
proof -
  have "fold (\<lambda>p. track c p 0 (recs p) k) (sorted_list_of_set (cold_segments s)) None = Some l"
    using assms by (simp add: cold_inv_def track_all_def)
  from fold_track_located [OF this] obtain p pre r post where "p \<in> cold_segments s" "recs p = pre @ r # post" "cr_key r = k"
    "location_of c p (length (encode_all c pre)) r = Some l" by auto
  with location_value that show thesis by blast
qed

lemma cold_get_at:
  assumes "cold_codec_ok c" "cold_base c cls classes n recs s"
    and p: "p \<in> cold_segments s" "recs p = pre @ r # post" "cr_key r = k" "cr_value r = Some v"
    and index: "hm_get (sc_index s) k = location_of c p (length (encode_all c pre)) r"
  shows "cold_get c s k = Inr (Some \<lparr> te_class = cr_class r, te_value = v \<rparr>)"
proof -
  have inv: "hm_get (dk_files (sc_disk s)) p = Some (encode_all c (recs p))" "records_ok c cls (recs p)"
    using base_segment [OF assms(2) p(1)] by (simp_all add: segment_inv_def)
  have "record_ok c r" using inv(2) p(2) by simp
  moreover have "r = \<lparr> cr_key = k, cr_class = cr_class r, cr_value = Some v \<rparr>" using p(3,4) by simp
  ultimately have decode: "decode_value_record c (encode_record c r) k = Inr \<lparr> te_class = cr_class r, te_value = v \<rparr>"
    using decode_encode [OF assms(1), of k "cr_class r" v "[]"] by (metis append_Nil2)
  have "readable (sc_disk s)" using assms(2) by (simp add: cold_base_def disk_ok_def)
  then show ?thesis
    using index p(2,4) inv(1) decode
    by (simp add: cold_get_def location_of_def read_location_def io_read_def readable_def slice_def)
qed

lemma cold_get_cases:
  assumes "cold_codec_ok c" "cold_inv c cls classes n recs s"
  obtains (absent) "hm_get (sc_index s) k = None" "cold_get c s k = Inr None"
  | (there) p pre r post v where "p \<in> cold_segments s" "recs p = pre @ r # post" "cr_key r = k" "cr_value r = Some v"
      "hm_get (sc_index s) k = location_of c p (length (encode_all c pre)) r"
      "cold_get c s k = Inr (Some \<lparr> te_class = cr_class r, te_value = v \<rparr>)"
proof (cases "hm_get (sc_index s) k")
  case None
  then show thesis by (intro absent) (simp_all add: cold_get_def)
next
  case (Some l)
  from index_located [OF assms(2) Some] obtain p pre r post v where
    at: "p \<in> cold_segments s" "recs p = pre @ r # post" "cr_key r = k" "cr_value r = Some v"
      "location_of c p (length (encode_all c pre)) r = Some l" by blast
  have "cold_base c cls classes n recs s" using assms(2) by (simp add: cold_inv_def)
  from cold_get_at [OF assms(1) this at(1-4)] at(5) Some have "cold_get c s k = Inr (Some \<lparr> te_class = cr_class r, te_value = v \<rparr>)"
    by simp
  with there at Some show thesis by metis
qed

section \<open>Every operation\<close>

text \<open>What the classes in use and the keys are.\<close>

definition cold_env :: "cold_codec \<Rightarrow> (string \<Rightarrow> string) \<Rightarrow> string set \<Rightarrow> bool" where
  "cold_env c cls classes \<longleftrightarrow>
     cold_codec_ok c \<and> inj_on (class_directory c) classes \<and> (\<forall>name\<in>classes. utf8_valid name)"

definition same_cold :: "segmented_cold \<Rightarrow> segmented_cold \<Rightarrow> bool" where
  "same_cold s s' \<longleftrightarrow> (\<exists>n. s' = s\<lparr>sc_quota_rejections := n\<rparr>)"

lemma same_cold_inv: "same_cold s s' \<Longrightarrow> cold_inv c cls classes n recs s \<Longrightarrow> cold_inv c cls classes n recs s'"
  by (auto simp: same_cold_def cold_inv_def cold_base_def base_cong [of "s\<lparr>sc_quota_rejections := _\<rparr>" s])

lemma same_cold_get: "same_cold s s' \<Longrightarrow> cold_get c s' k = cold_get c s k"
  by (auto simp: same_cold_def cold_get_def read_location_def fun_eq_iff split: option.split)

lemma same_cold_refl: "same_cold s s"
  unfolding same_cold_def by (rule exI [where x = "sc_quota_rejections s"]) simp

lemma same_cold_rejected: "same_cold s (s\<lparr>sc_quota_rejections := m\<rparr>)"
  unfolding same_cold_def by (rule exI [where x = m]) simp

text \<open>What the checks of \<open>append_record\<close> let through.\<close>

definition accepts :: "cold_codec \<Rightarrow> segmented_cold \<Rightarrow> string \<Rightarrow> string \<Rightarrow> json option \<Rightarrow> bool" where
  "accepts c s key class_name v \<longleftrightarrow>
     validate_record key class_name v (parts_of c v) = Inr () \<and>
     \<not> (v \<noteq> None \<and> over_quota s (record_total key class_name (parts_of c v)))"

lemma append_record_cases:
  assumes env: "cold_env c cls classes" and inv: "cold_inv c cls classes n recs s" and n: "n < u64_max"
    and key: "utf8_valid key" "cls key \<in> classes" and run: "append_record c key (cls key) v s = (q, s')"
  obtains (refused) e where "q = Inl e" "same_cold s s'" "\<not> accepts c s key (cls key) v"
  | (written) l recs' p r where "q = Inr l" "cold_base c cls classes (n + 1) recs' s'" "sc_index s' = sc_index s"
      "\<And>k. track_all c recs' (sorted_list_of_set (cold_segments s')) k =
         (if k = key then (if v = None then None else Some l) else hm_get (sc_index s) k)"
      "p \<in> cold_segments s'" "recs' = recs(p := recs p @ [r])" "cold_segments s \<subseteq> cold_segments s'"
      "cr_key r = key" "cr_class r = cls key" "cr_value r = v" "v \<noteq> None \<Longrightarrow> Some l = location_of c p (length (encode_all c (recs p))) r"
      "accepts c s key (cls key) v"
proof -
  let ?r = "\<lparr> cr_key = key, cr_class = cls key, cr_value = v \<rparr>" and ?p = "parts_of c v"
  have base: "cold_base c cls classes n recs s" using inv by (simp add: cold_inv_def)
  have c: "cold_codec_ok c" "inj_on (class_directory c) classes" and utf: "utf8_valid (cls key)"
    using env key(2) by (simp_all add: cold_env_def)
  show thesis
  proof (cases "validate_record key (cls key) v ?p")
    case (Inl e)
    show thesis by (rule refused [of e]) (use run Inl in \<open>auto simp: append_record_def Let_def accepts_def intro: same_cold_refl same_cold_rejected\<close>)
  next
    case (Inr u)
    show thesis
    proof (cases "v \<noteq> None \<and> over_quota s (record_total key (cls key) ?p)")
      case True
      show thesis
        by (rule refused [of "ColdError ''cuota''"])
          (use run Inr True in \<open>auto simp: append_record_def Let_def accepts_def intro: same_cold_refl same_cold_rejected\<close>)
    next
      case False
      from writer_for_class_ok [OF base key(2)] n obtain w s1 where w: "writer_for_class c (cls key) s = (Inr w, s1)"
        "cold_base c cls classes n recs s1" "hm_get (sc_writers s1) (cls key) = Some w" "cold_segments s1 = cold_segments s"
        "sc_index s1 = sc_index s" "sc_root s1 = sc_root s" by auto
      have r: "record_ok c ?r" using Inr key(1) utf by (simp add: record_ok_def)
      from write_record_ok [OF c w(2) n w(3) r, where key = key and v = v] obtain p s2 where
        wr: "write_record c key (cls key) ?p w s1 =
          (Inr \<lparr> rl_path = p, rl_offset = length (encode_all c (recs p)), rl_total_len = length (encode_record c ?r),
                 rl_class = cls key \<rparr>, s2)"
        and s2: "cold_base c cls classes (n + 1) (recs(p := recs p @ [?r])) s2" "cold_segments s2 = insert p (cold_segments s1)"
          "fst p = class_root c s1 (cls key)" "\<forall>q\<in>cold_segments s1. fst q = fst p \<longrightarrow> snd q \<le> snd p"
          "sc_index s2 = sc_index s1" by auto
      let ?l = "\<lparr> rl_path = p, rl_offset = length (encode_all c (recs p)), rl_total_len = length (encode_record c ?r),
                 rl_class = cls key \<rparr>"
      have q: "q = Inr ?l" "s' = s2" using run Inr False w(1) wr by (auto simp: append_record_def Let_def)
      have other: "cr_key r' \<noteq> key" if "q \<in> cold_segments s1" "fst q \<noteq> fst p" "r' \<in> set (recs q)" for q r'
        using base_segment [OF w(2) that(1)] that s2(3) by (auto simp: segment_inv_def records_ok_def)
      have track: "track_all c (recs(p := recs p @ [?r])) (sorted_list_of_set (cold_segments s2)) k =
          (if k = key then location_of c p (length (encode_all c (recs p))) ?r else hm_get (sc_index s) k)" for k
        using track_all_append [of "cold_segments s1" p recs ?r c k] s2(4) base_unused [OF w(2), of p] other
          inv w(4) by (auto simp: s2(2) cold_inv_def)
      have loc: "location_of c p (length (encode_all c (recs p))) ?r = (if v = None then None else Some ?l)"
        by (simp add: location_of_def split: option.split)
      show thesis
        by (rule written [of ?l "recs(p := recs p @ [?r])" p ?r])
          (use q s2 w(4,5) track loc Inr False in \<open>simp_all add: subset_insertI accepts_def split: if_splits\<close>)
    qed
  qed
qed

lemma base_index [simp]: "cold_base c cls classes n recs (s\<lparr>sc_index := i\<rparr>) = cold_base c cls classes n recs s"
proof -
  have "sc_root (s\<lparr>sc_index := i\<rparr>) = sc_root s" "dk_files (sc_disk (s\<lparr>sc_index := i\<rparr>)) = dk_files (sc_disk s)" by simp_all
  note cong = base_cong [OF this]
  show ?thesis unfolding cold_base_def cong by simp
qed

lemma cold_base_mono: "cold_base c cls classes n recs s \<Longrightarrow> n \<le> m \<Longrightarrow> cold_base c cls classes m recs s"
  unfolding cold_base_def segment_inv_def writer_inv_def by (meson order_trans)

lemma cold_inv_mono: "cold_inv c cls classes n recs s \<Longrightarrow> n \<le> m \<Longrightarrow> cold_inv c cls classes m recs s"
  by (auto simp: cold_inv_def intro: cold_base_mono)

lemma appended:
  assumes c: "cold_codec_ok c" and inv: "cold_inv c cls classes n recs s"
    and base: "cold_base c cls classes m recs' s'" and p: "p \<in> cold_segments s'" "recs' = recs(p := recs p @ [r])"
    and more: "cold_segments s \<subseteq> cold_segments s'"
    and track: "\<And>k. track_all c recs' (sorted_list_of_set (cold_segments s')) k =
      (if k = cr_key r then new else hm_get (sc_index s) k)"
    and index: "\<And>k. hm_get i k = (if k = cr_key r then new else hm_get (sc_index s) k)"
    and new: "new = location_of c p (length (encode_all c (recs p))) r"
  shows "cold_inv c cls classes m recs' (s'\<lparr>sc_index := i\<rparr>)" (is ?inv)
    and "cold_get c (s'\<lparr>sc_index := i\<rparr>) k =
      (if k = cr_key r then Inr (map_option (\<lambda>v. \<lparr> te_class = cr_class r, te_value = v \<rparr>) (cr_value r))
       else cold_get c s k)" (is "cold_get c ?s k = ?q")
proof -
  show ?inv using base track index by (simp add: cold_inv_def)
  show "cold_get c ?s k = ?q"
  proof (cases "k = cr_key r")
    case True
    show ?thesis
    proof (cases "cr_value r")
      case None
      then show ?thesis using True index [of k] new by (simp add: cold_get_def location_of_def)
    next
      case (Some v)
      have "recs' p = recs p @ r # []" by (simp add: p(2))
      with cold_get_at [OF c, of cls classes m recs' ?s p "recs p" r "[]" k v] base p(1) True Some index [of k] new
      show ?thesis by simp
    qed
  next
    case False
    then have ix: "hm_get i k = hm_get (sc_index s) k" by (simp add: index)
    from c inv show ?thesis
    proof (cases rule: cold_get_cases [where k = k])
      case absent
      then show ?thesis using False ix by (simp add: cold_get_def)
    next
      case (there q pre r' post v)
      have "recs' q = pre @ r' # (if q = p then post @ [r] else post)" using there(2) by (cases "q = p") (simp_all add: p(2))
      then obtain post' where "recs' q = pre @ r' # post'" by blast
      with cold_get_at [OF c, of cls classes m recs' ?s q pre r' post' k v] base more there ix False
      show ?thesis by auto
    qed
  qed
qed

lemma index_class:
  assumes "cold_inv c cls classes n recs s" "hm_get (sc_index s) k = Some l"
  shows "rl_class l = cls k" "cls k \<in> classes"
proof -
  from assms obtain p pre r post v where at: "p \<in> cold_segments s" "recs p = pre @ r # post" "cr_key r = k"
    "location_of c p (length (encode_all c pre)) r = Some l"
    by (rule index_located)
  have "cold_base c cls classes n recs s" using assms(1) by (simp add: cold_inv_def)
  from base_segment [OF this at(1)] at(2,3) have "cr_class r = cls k" "cr_class r \<in> classes"
    by (auto simp: segment_inv_def records_ok_def classes_fixed_def)
  then show "rl_class l = cls k" "cls k \<in> classes" using at(4) by (auto simp: location_of_def split: option.splits)
qed

lemma cold_get_index:
  assumes "cold_codec_ok c" "cold_inv c cls classes n recs s"
  shows "cold_get c s k \<noteq> Inr None \<longleftrightarrow> hm_get (sc_index s) k \<noteq> None"
  using assms by (cases rule: cold_get_cases [where k = k]) (auto simp: location_of_def)

lemma put_result:
  assumes env: "cold_env c cls classes" and inv: "cold_inv c cls classes n recs s" and n: "n < u64_max"
    and key: "utf8_valid key" "cls key \<in> classes" "te_class e = cls key"
  shows "fst (cold_put c s key e) = Inr () \<longleftrightarrow> accepts c s key (cls key) (Some (te_value e))"
proof -
  have ok: "\<not> (case hm_get (sc_index s) key of None \<Rightarrow> False | Some l \<Rightarrow> rl_class l \<noteq> te_class e)"
    using index_class [OF inv, of key] key(3) by (auto split: option.splits)
  obtain q1 s1 where app: "append_record c key (cls key) (Some (te_value e)) s = (q1, s1)" by fastforce
  from env inv n key(1,2) app show ?thesis
  proof (cases rule: append_record_cases)
    case (refused x)
    then show ?thesis using ok app key(3) unfolding cold_put_def by simp
  next
    case (written l recs' p r)
    then show ?thesis using ok app key(3) unfolding cold_put_def by simp
  qed
qed

lemma put_step:
  assumes env: "cold_env c cls classes" and inv: "cold_inv c cls classes n recs s" and n: "n < u64_max"
    and key: "utf8_valid key" "cls key \<in> classes" "te_class e = cls key" and run: "cold_put c s key e = (q, s')"
  shows "\<exists>recs'. cold_inv c cls classes (n + 1) recs' s'"
    and "cold_get c s' k = (if q = Inr () \<and> k = key then Inr (Some e) else cold_get c s k)"
proof -
  have c: "cold_codec_ok c" using env by (simp add: cold_env_def)
  have "(\<exists>recs'. cold_inv c cls classes (n + 1) recs' s') \<and>
    (\<forall>k. cold_get c s' k = (if q = Inr () \<and> k = key then Inr (Some e) else cold_get c s k))"
  proof (cases "q = Inr ()")
    case False
    have "same_cold s s'"
    proof (cases "case hm_get (sc_index s) key of None \<Rightarrow> False | Some l \<Rightarrow> rl_class l \<noteq> te_class e")
      case True
      then show ?thesis using run by (auto simp: cold_put_def intro: same_cold_refl)
    next
      case ok: False
      obtain q1 s1 where app: "append_record c key (cls key) (Some (te_value e)) s = (q1, s1)" by fastforce
      from env inv n key(1,2) app show ?thesis
      proof (cases rule: append_record_cases)
        case (refused x)
        then show ?thesis using run ok app key(3) unfolding cold_put_def by simp
      next
        case (written l recs' p r)
        then show ?thesis using run ok app key(3) False unfolding cold_put_def by simp
      qed
    qed
    then show ?thesis using False inv same_cold_inv same_cold_get cold_inv_mono [of c cls classes n recs s' "n + 1"] by auto
  next
    case True
    from True run have ok: "\<not> (case hm_get (sc_index s) key of None \<Rightarrow> False | Some l \<Rightarrow> rl_class l \<noteq> te_class e)"
      by (auto simp: cold_put_def split: if_splits)
    obtain q1 s1 where app: "append_record c key (cls key) (Some (te_value e)) s = (q1, s1)" by fastforce
    from env inv n key(1,2) app show ?thesis
    proof (cases rule: append_record_cases)
      case (refused x)
      then show ?thesis using run ok app key(3) True unfolding cold_put_def by simp
    next
      case (written l recs' p r)
      have s': "s' = s1\<lparr>sc_index := hm_insert key l (sc_index s)\<rparr>"
        using run ok app key(3) written unfolding cold_put_def by simp
      have e: "\<lparr> te_class = cls key, te_value = te_value e \<rparr> = e" using key(3) by (simp add: tier_entry.equality)
      have new: "Some l = location_of c p (length (encode_all c (recs p))) r" using written(11) by simp
      have track: "track_all c recs' (sorted_list_of_set (cold_segments s1)) k =
          (if k = cr_key r then Some l else hm_get (sc_index s) k)" for k
        using written(4) [of k] written(8) by simp
      have "hm_get (hm_insert key l (sc_index s)) k = (if k = cr_key r then Some l else hm_get (sc_index s) k)" for k
        using written(8) by simp
      note res = appended [OF c inv written(2,5-7) track this new]
      show ?thesis using res True e written(8-10) unfolding s' by auto
    qed
  qed
  then show "\<exists>recs'. cold_inv c cls classes (n + 1) recs' s'"
    "cold_get c s' k = (if q = Inr () \<and> k = key then Inr (Some e) else cold_get c s k)" by simp_all
qed


text \<open>A key that is stored can be removed: the sizes of its name and class were checked before.\<close>

lemma remove_accepted:
  assumes "cold_inv c cls classes n recs s" "hm_get (sc_index s) k = Some l"
  shows "accepts c s k (cls k) None"
proof -
  from assms obtain p pre r post where at: "p \<in> cold_segments s" "recs p = pre @ r # post" "cr_key r = k"
    by (rule index_located)
  have "cold_base c cls classes n recs s" using assms(1) by (simp add: cold_inv_def)
  from base_segment [OF this at(1)] at(2,3) have "record_ok c r" "cr_class r = cls k"
    by (auto simp: segment_inv_def)
  with at(3) show ?thesis
    by (auto simp: accepts_def record_ok_def validate_record_def parts_of_def validate_len_def split: sum.splits if_splits)
qed

lemma remove_step:
  assumes env: "cold_env c cls classes" and inv: "cold_inv c cls classes n recs s" and n: "n < u64_max"
    and key: "utf8_valid key" and run: "cold_remove c s key = (q, s')"
  shows "\<exists>recs'. cold_inv c cls classes (n + 1) recs' s'"
    and "cold_get c s' k = (if q = Inr True \<and> k = key then Inr None else cold_get c s k)"
    and "q = Inr (cold_get c s key \<noteq> Inr None)"
proof -
  have c: "cold_codec_ok c" using env by (simp add: cold_env_def)
  note mono = cold_inv_mono [of c cls classes n _ _ "n + 1"]
  have "(\<exists>recs'. cold_inv c cls classes (n + 1) recs' s') \<and>
    (\<forall>k. cold_get c s' k = (if q = Inr True \<and> k = key then Inr None else cold_get c s k)) \<and>
    q = Inr (hm_get (sc_index s) key \<noteq> None)"
  proof (cases "hm_get (sc_index s) key")
    case None
    then show ?thesis using run mono [OF inv] by (auto simp: cold_remove_def)
  next
    case (Some l)
    note l = index_class [OF inv Some]
    obtain q1 s1 where app: "append_record c key (cls key) None s = (q1, s1)" by fastforce
    from env inv n key l(2) app show ?thesis
    proof (cases rule: append_record_cases)
      case (refused x)
      with remove_accepted [OF inv Some] show ?thesis by simp
    next
      case (written l' recs' p r)
      have s': "s' = s1\<lparr>sc_index := hm_remove key (sc_index s)\<rparr>" "q = Inr True"
        using run Some l app written unfolding cold_remove_def by simp_all
      have new: "None = location_of c p (length (encode_all c (recs p))) r" using written(10) by (simp add: location_of_def)
      have track: "track_all c recs' (sorted_list_of_set (cold_segments s1)) k =
          (if k = cr_key r then None else hm_get (sc_index s) k)" for k
        using written(4) [of k] written(8) by simp
      have "hm_get (hm_remove key (sc_index s)) k = (if k = cr_key r then None else hm_get (sc_index s) k)" for k
        using written(8) by simp
      note res = appended [OF c inv written(2,5-7) track this new]
      show ?thesis using res s' Some written(8-10) unfolding s' by auto
    qed
  qed
  then show "\<exists>recs'. cold_inv c cls classes (n + 1) recs' s'"
    "cold_get c s' k = (if q = Inr True \<and> k = key then Inr None else cold_get c s k)"
    "q = Inr (cold_get c s key \<noteq> Inr None)"
    using cold_get_index [OF c inv] by simp_all
qed

end
