(* ===== verification/Jme_Cold_Reopen.thy ===== *)
theory Jme_Cold_Reopen
  imports Jme_Cold_Store
begin

text \<open>
  The Cold store in use, as a map; that a store opened again on its disk is the same store; what
  is left of a record that was only written in part; and the quota.
\<close>

section \<open>A store in use and opened again\<close>

datatype cold_act = ColdPut string json | ColdRemove string

fun cold_step :: "cold_codec \<Rightarrow> (string \<Rightarrow> string) \<Rightarrow> cold_act \<Rightarrow> segmented_cold \<Rightarrow> segmented_cold" where
  "cold_step c cls (ColdPut k v) s = snd (cold_put c s k \<lparr> te_class = cls k, te_value = v \<rparr>)"
| "cold_step c cls (ColdRemove k) s = snd (cold_remove c s k)"

fun step_key :: "cold_act \<Rightarrow> string" where
  "step_key (ColdPut k v) = k"
| "step_key (ColdRemove k) = k"

text \<open>The same on a map: a put that the sizes or the quota do not admit leaves it alone.\<close>

fun map_step ::
  "cold_codec \<Rightarrow> (string \<Rightarrow> string) \<Rightarrow> cold_act \<Rightarrow> segmented_cold
    \<Rightarrow> (string \<Rightarrow> tier_entry option) \<Rightarrow> (string \<Rightarrow> tier_entry option)" where
  "map_step c cls (ColdPut k v) s m =
     (if accepts c s k (cls k) (Some v) then m(k := Some \<lparr> te_class = cls k, te_value = v \<rparr>) else m)"
| "map_step c cls (ColdRemove k) s m = m(k := None)"

fun run_cold :: "cold_codec \<Rightarrow> (string \<Rightarrow> string) \<Rightarrow> cold_act list \<Rightarrow> segmented_cold \<Rightarrow> segmented_cold" where
  "run_cold c cls [] s = s"
| "run_cold c cls (x # xs) s = run_cold c cls xs (cold_step c cls x s)"

fun run_map ::
  "cold_codec \<Rightarrow> (string \<Rightarrow> string) \<Rightarrow> cold_act list \<Rightarrow> segmented_cold
    \<Rightarrow> (string \<Rightarrow> tier_entry option) \<Rightarrow> (string \<Rightarrow> tier_entry option)" where
  "run_map c cls [] s m = m"
| "run_map c cls (x # xs) s m = run_map c cls xs (cold_step c cls x s) (map_step c cls x s m)"

lemma cold_step_ok:
  assumes "cold_env c cls classes" "cold_inv c cls classes n recs s" "n < u64_max"
    and "utf8_valid (step_key x)" "cls (step_key x) \<in> classes"
    and m: "\<forall>k. cold_get c s k = Inr (m k)"
  shows "\<exists>recs'. cold_inv c cls classes (n + 1) recs' (cold_step c cls x s)"
    and "cold_get c (cold_step c cls x s) k = Inr (map_step c cls x s m k)"
proof -
  have "(\<exists>recs'. cold_inv c cls classes (n + 1) recs' (cold_step c cls x s)) \<and>
      cold_get c (cold_step c cls x s) k = Inr (map_step c cls x s m k)"
  proof (cases x)
    case (ColdPut key v)
    obtain q s' where run: "cold_put c s key \<lparr> te_class = cls key, te_value = v \<rparr> = (q, s')" by fastforce
    from put_step [OF assms(1-3) _ _ _ run] put_result [OF assms(1-3), of key "\<lparr> te_class = cls key, te_value = v \<rparr>"]
      assms(4,5) m show ?thesis by (simp add: ColdPut run)
  next
    case (ColdRemove key)
    obtain q s' where run: "cold_remove c s key = (q, s')" by fastforce
    from remove_step [OF assms(1-3) _ run] assms(4) m show ?thesis
      by (auto simp: ColdRemove run)
  qed
  then show "\<exists>recs'. cold_inv c cls classes (n + 1) recs' (cold_step c cls x s)"
    "cold_get c (cold_step c cls x s) k = Inr (map_step c cls x s m k)" by simp_all
qed

lemma run_cold_ok:
  assumes "cold_env c cls classes"
  shows "cold_inv c cls classes n recs s \<Longrightarrow> n + length xs \<le> u64_max \<Longrightarrow>
      (\<forall>x\<in>set xs. utf8_valid (step_key x) \<and> cls (step_key x) \<in> classes) \<Longrightarrow> \<forall>k. cold_get c s k = Inr (m k) \<Longrightarrow>
    (\<exists>recs'. cold_inv c cls classes (n + length xs) recs' (run_cold c cls xs s)) \<and>
    (\<forall>k. cold_get c (run_cold c cls xs s) k = Inr (run_map c cls xs s m k))"
proof (induction xs arbitrary: n recs s m)
  case Nil
  then show ?case by auto
next
  case (Cons x xs)
  then have "n < u64_max" "utf8_valid (step_key x)" "cls (step_key x) \<in> classes" by simp_all
  note x = cold_step_ok [OF assms Cons.prems(1) this Cons.prems(4)]
  from x(1) obtain recs' where "cold_inv c cls classes (n + 1) recs' (cold_step c cls x s)" by blast
  from Cons.IH [OF this, of "map_step c cls x s m"] Cons.prems(2,3) x(2) show ?case by simp
qed


lemma opened_fresh:
  assumes c: "cold_codec_ok c" and d: "disk_ok d" "segments d root = {}"
    and run: "open_with_limit root m mmap limit d = (Inr s, d')"
  shows "cold_inv c cls classes 0 (\<lambda>_. []) s" "cold_get c s k = Inr None"
proof -
  define d1 where "d1 = d\<lparr>dk_calls := dk_calls d + 1\<rparr>"
  note plain = io_plain_ok [OF d(1), folded d1_def]
  have segs: "segments d1 root = {}" using d(2) by (simp add: d1_def)
  have d1: "readable d1" "hm_wf (dk_files d1)" using plain(2) by (simp_all add: disk_ok_def)
  from rebuild_index_intact [OF c d1, of root cls "\<lambda>_. []"] segs obtain index where
    index: "rebuild_index root d1 = (Inr (index, 0, 0), d1)" "\<forall>k. hm_get index k = None"
    by (auto simp: track_all_def)
  have s: "sc_root s = root" "sc_disk s = d1" "sc_writers s = []" "sc_bytes_on_disk s = 0" "sc_index s = index"
    using run plain(1) index(1) by (auto simp: open_with_limit_def)
  show "cold_inv c cls classes 0 (\<lambda>_. []) s"
    using plain(2) segs index(2) by (simp add: cold_inv_def cold_base_def s track_all_def)
  show "cold_get c s k = Inr None" using index(2) by (simp add: cold_get_def s)
qed

lemma reopened:
  assumes c: "cold_codec_ok c" and inv: "cold_inv c cls classes n recs s" and size: "sc_bytes_on_disk s < u64_max"
  shows "\<exists>t d. open_with_limit (sc_root s) m mmap limit (sc_disk s) = (Inr t, d) \<and>
    (\<forall>k. hm_get (sc_index t) k = hm_get (sc_index s) k) \<and> dk_files (sc_disk t) = dk_files (sc_disk s) \<and>
    dk_unreadable (sc_disk t) = dk_unreadable (sc_disk s) \<and>
    sc_bytes_on_disk t = sc_bytes_on_disk s \<and> sc_salvaged_segments t = 0 \<and> cold_inv c cls classes n recs t"
proof -
  let ?d = "sc_disk s" and ?root = "sc_root s"
  define d1 where "d1 = ?d\<lparr>dk_calls := dk_calls ?d + 1\<rparr>"
  have base: "cold_base c cls classes n recs s" and index_s: "\<forall>k. hm_get (sc_index s) k = track_all c recs (sorted_list_of_set (cold_segments s)) k"
    using inv by (simp_all add: cold_inv_def)
  have ok: "disk_ok ?d" and bytes: "sc_bytes_on_disk s = (\<Sum>p\<in>cold_segments s. length (encode_all c (recs p)))"
    using base by (simp_all add: cold_base_def)
  note plain = io_plain_ok [OF ok, folded d1_def]
  have same: "dk_files d1 = dk_files ?d" "segments d1 ?root = cold_segments s" "dk_unreadable d1 = dk_unreadable ?d"
    by (simp_all add: d1_def)
  have d1: "readable d1" "hm_wf (dk_files d1)" using plain(2) by (simp_all add: disk_ok_def)
  have "intact c cls d1 p (recs p)" if p: "p \<in> segments d1 ?root" for p
  proof -
    have "length (encode_all c (recs p)) \<le> sc_bytes_on_disk s"
      unfolding bytes using p same(2) by (intro member_le_sum) simp_all
    then show ?thesis using base_segment [OF base, of p] p size same by (simp add: intact_def segment_inv_def)
  qed
  with rebuild_index_intact [OF c d1, of ?root cls recs] obtain index where
    index: "rebuild_index ?root d1 = (Inr (index, sc_bytes_on_disk s, 0), d1)"
      "\<forall>k. hm_get index k = hm_get (sc_index s) k"
    by (auto simp: same(2) bytes index_s)
  define t where "t = \<lparr> sc_root = ?root, sc_segment_max_bytes = max m 4096, sc_mmap_reads = mmap,
      sc_index = index, sc_writers = [], sc_bytes_on_disk = sc_bytes_on_disk s, sc_max_disk_bytes = limit,
      sc_quota_rejections = 0, sc_salvaged_segments = 0, sc_disk = d1 \<rparr>"
  have t: "open_with_limit ?root m mmap limit ?d = (Inr t, d1)"
    using plain(1) index(1) by (simp add: open_with_limit_def t_def)
  have tt: "sc_root t = sc_root s" "dk_files (sc_disk t) = dk_files (sc_disk s)" by (simp_all add: t_def same)
  note cong = base_cong [OF tt]
  have "cold_base c cls classes n recs t"
    using base plain(2) unfolding cold_base_def cong by (simp add: t_def)
  then have "cold_inv c cls classes n recs t" using index_s index(2) by (simp add: cold_inv_def cong) (simp add: t_def)
  with t tt index(2) show ?thesis by (intro exI [where x = t] exI [where x = d1]) (simp add: t_def same)
qed

lemma same_index_get:
  assumes "\<forall>k. hm_get (sc_index t) k = hm_get (sc_index s) k" "dk_files (sc_disk t) = dk_files (sc_disk s)"
    and "dk_unreadable (sc_disk t) = dk_unreadable (sc_disk s)"
  shows "cold_get c t k = cold_get c s k"
  using assms by (auto simp: cold_get_def read_location_def io_read_def split: option.split)

lemma append_record_root: "append_record c key class_name v s = (q, s') \<Longrightarrow> sc_root s' = sc_root s"
  by (auto simp: append_record_def writer_for_class_def write_record_def Let_def
      split: option.splits prod.splits bool.splits sum.splits list.splits if_splits)

lemma run_cold_root: "sc_root (run_cold c cls xs s) = sc_root s"
proof (induction xs arbitrary: s)
  case Nil
  then show ?case by simp
next
  case (Cons x xs)
  have "sc_root (cold_step c cls x s) = sc_root s"
    by (cases x) (auto simp: cold_put_def cold_remove_def dest: append_record_root
        split: option.splits prod.splits sum.splits if_splits)
  with Cons show ?case by simp
qed

text \<open>
  C20. A Cold store opened on a directory with no segments behaves as a map from keys to
  entries, as long as its disk carries out every operation and each key is always put under one and
  the same class (\<open>cls\<close>): after any puts and removes, a key reads as the last value put for it that the
  limits on sizes and the quota let in, and as absent after a remove, whatever segments and offsets
  its records went to. A put of a key that is there under another class is refused, whatever the
  limits; what failing writes do is in the section on damage.
\<close>

theorem cold_refines_map:
  assumes "cold_env c cls classes" "disk_ok d" "segments d root = {}"
    and "open_with_limit root m mmap limit d = (Inr s, d')"
    and "\<forall>x\<in>set xs. utf8_valid (step_key x) \<and> cls (step_key x) \<in> classes" "length xs \<le> u64_max"
  shows "cold_get c (run_cold c cls xs s) k = Inr (run_map c cls xs s (\<lambda>_. None) k)"
proof -
  have "cold_codec_ok c" using assms(1) by (simp add: cold_env_def)
  note s = opened_fresh [OF this assms(2-4)]
  from run_cold_ok [OF assms(1) s(1), of xs "\<lambda>_. None"] s(2) assms(5,6) show ?thesis by simp
qed

text \<open>
  C21. Under the same two conditions, a disk that carries out every operation and one class for each
  key, a Cold store opened again on the disk that the store in use left has the same entries, the same
  bytes on disk and rescues nothing: the index rebuilt from the segments is the one that puts and
  removes had kept in memory. Without the second it can fail to open: a key that was removed and put
  again under a class whose directory is scanned first is met twice.
\<close>

theorem cold_reopen_equivalent:
  assumes "cold_env c cls classes" "disk_ok d" "segments d root = {}"
    and "open_with_limit root m mmap limit d = (Inr s, d')"
    and "\<forall>x\<in>set xs. utf8_valid (step_key x) \<and> cls (step_key x) \<in> classes" "length xs \<le> u64_max"
    and "run_cold c cls xs s = s'" "sc_bytes_on_disk s' < u64_max"
  shows "\<exists>t d2. open_with_limit root m' mmap' limit' (sc_disk s') = (Inr t, d2) \<and>
    (\<forall>k. cold_get c t k = cold_get c s' k) \<and> sc_bytes_on_disk t = sc_bytes_on_disk s' \<and> sc_salvaged_segments t = 0"
proof -
  have c: "cold_codec_ok c" using assms(1) by (simp add: cold_env_def)
  note s = opened_fresh [OF c assms(2-4)]
  from run_cold_ok [OF assms(1) s(1), of xs "\<lambda>_. None"] s(2) assms(5-7) obtain recs where
    "cold_inv c cls classes (0 + length xs) recs s'" by auto
  moreover have "sc_root s = root"
    using assms(4) by (auto simp: open_with_limit_def split: prod.splits bool.splits sum.splits)
  then have "sc_root s' = root" using run_cold_root [of c cls xs s] assms(7) by simp
  ultimately show ?thesis
    using reopened [OF c _ assms(8), of cls classes _ _ m' mmap' limit'] by (metis same_index_get)
qed

section \<open>Damage\<close>

text \<open>
  C22. A segment whose last append was cut short opens with every record before it: the torn bytes
  are cut off the file and nothing is rescued. (A torn payload that itself looks like a record is
  the exception, which the scan takes for damage.)
\<close>

theorem torn_tail_is_cut:
  assumes "cold_codec_ok c" "disk_ok d" "records_ok c cls rs" "classes_fixed cls index" "torn_record c torn"
    and "hm_get (dk_files d) p = Some (encode_all c rs @ torn)" "length (encode_all c rs @ torn) < u64_max"
  shows "\<exists>d'. rebuild_segment p index d = (Inr (index_records c p 0 rs index, length (encode_all c rs), 0), d') \<and>
    hm_get (dk_files d') q = (if q = p then Some (encode_all c rs) else hm_get (dk_files d) q)"
proof -
  have "scan_from p (encode_all c rs @ torn) 0 index = (Scanned (length (encode_all c rs)), index_records c p 0 rs index)"
    using scan_records [OF assms(1,5,3,4), of "[]" p] assms(7) by simp
  then have scan: "scan_segment p d index = (Scanned (length (encode_all c rs)), index_records c p 0 rs index)"
    using assms(2,6) by (simp add: scan_segment_def io_read_def disk_ok_def readable_def)
  show ?thesis
  proof (cases "torn = []")
    case True
    then show ?thesis using assms(6) by (auto simp: rebuild_segment_def scan cut_tail_def)
  next
    case False
    moreover have "dk_faults d (dk_calls d) = None" using assms(2) by (simp add: disk_ok_def faultless_def)
    ultimately show ?thesis
      using assms(6) by (auto simp: rebuild_segment_def scan cut_tail_def io_set_len_def io_call_def)
  qed
qed

section \<open>The quota\<close>

lemma writer_for_class_bytes:
  "writer_for_class c class_name s = (q, s') \<Longrightarrow> sc_bytes_on_disk s' = sc_bytes_on_disk s"
  by (auto simp: writer_for_class_def Let_def split: option.splits prod.splits bool.splits sum.splits list.splits)

lemma write_record_bytes:
  "write_record c key class_name p w s = (q, s') \<Longrightarrow>
     sc_bytes_on_disk s' = sc_bytes_on_disk s + (if isl q then 0 else record_total key class_name p)"
  by (auto simp: write_record_def Let_def split: prod.splits bool.splits)

lemma errors_of_append:
  "writer_for_class c class_name s = (q, s') \<Longrightarrow> q \<noteq> Inl (ColdError ''cuota'')"
  "write_record c key class_name p w s = (r, s') \<Longrightarrow> r \<noteq> Inl (ColdError ''cuota'')"
  "validate_record key class_name v p \<noteq> Inl (ColdError ''cuota'')"
  by (auto simp: writer_for_class_def write_record_def validate_record_def validate_len_def segment_files_def Let_def
      split: option.splits prod.splits bool.splits sum.splits list.splits if_splits)

lemma append_record_bytes:
  assumes "append_record c key class_name v s = (q, s')"
  shows "sc_bytes_on_disk s' = sc_bytes_on_disk s + (if isl q then 0 else record_total key class_name (parts_of c v))"
    and "q = Inl (ColdError ''cuota'') \<Longrightarrow> v \<noteq> None \<and> sc_disk s' = sc_disk s"
    and "\<not> isl q \<Longrightarrow> v \<noteq> None \<Longrightarrow> \<not> over_quota s (record_total key class_name (parts_of c v))"
proof -
  let ?t = "record_total key class_name (parts_of c v)"
  have "sc_bytes_on_disk s' = sc_bytes_on_disk s + (if isl q then 0 else ?t) \<and>
    (q = Inl (ColdError ''cuota'') \<longrightarrow> v \<noteq> None \<and> sc_disk s' = sc_disk s) \<and>
    (\<not> isl q \<longrightarrow> v \<noteq> None \<longrightarrow> \<not> over_quota s ?t)"
  proof (cases "validate_record key class_name v (parts_of c v)")
    case (Inl e)
    then show ?thesis using assms errors_of_append(3) [of key class_name v "parts_of c v"] by (auto simp: append_record_def Let_def)
  next
    case (Inr u)
    show ?thesis
    proof (cases "v \<noteq> None \<and> over_quota s ?t")
      case True
      then show ?thesis using assms Inr by (auto simp: append_record_def Let_def)
    next
      case False
      obtain q1 s1 where w: "writer_for_class c class_name s = (q1, s1)" by fastforce
      note bytes = writer_for_class_bytes [OF w]
      show ?thesis
      proof (cases q1)
        case (Inl e)
        then show ?thesis using assms Inr False w bytes errors_of_append(1) [OF w] by (auto simp: append_record_def Let_def)
      next
        case (Inr wr)
        then have "write_record c key class_name (parts_of c v) wr s1 = (q, s')"
          using assms False w \<open>validate_record key class_name v (parts_of c v) = Inr u\<close>
          by (auto simp: append_record_def Let_def)
        from write_record_bytes [OF this] errors_of_append(2) [OF this] bytes False show ?thesis by auto
      qed
    qed
  qed
  then show "sc_bytes_on_disk s' = sc_bytes_on_disk s + (if isl q then 0 else record_total key class_name (parts_of c v))"
    "q = Inl (ColdError ''cuota'') \<Longrightarrow> v \<noteq> None \<and> sc_disk s' = sc_disk s"
    "\<not> isl q \<Longrightarrow> v \<noteq> None \<Longrightarrow> \<not> over_quota s (record_total key class_name (parts_of c v))" by simp_all
qed

text \<open>
  A put that succeeds leaves the bytes on disk within the quota, and one that would exceed it
  is refused before any call on the disk, whatever the disk does; a removal is never refused for
  the quota and its record is added to the bytes on disk, which no operation reduces.
\<close>

theorem cold_quota:
  assumes "sc_max_disk_bytes s = Some limit" "limit < u64_max"
    and "cold_put c s key e = (q, s')" "cold_remove c s key = (r, s2)"
  shows "(q = Inr () \<longrightarrow> sc_bytes_on_disk s' \<le> limit) \<and> (isl q \<longrightarrow> sc_bytes_on_disk s' = sc_bytes_on_disk s) \<and>
    (q = Inl (ColdError ''cuota'') \<longrightarrow> sc_disk s' = sc_disk s) \<and> r \<noteq> Inl (ColdError ''cuota'') \<and>
    sc_bytes_on_disk s2 = sc_bytes_on_disk s + (if r = Inr True then header_len + length key + length (rl_class (the (hm_get (sc_index s) key))) else 0)"
proof -
  have "(q = Inr () \<longrightarrow> sc_bytes_on_disk s' \<le> limit) \<and> (isl q \<longrightarrow> sc_bytes_on_disk s' = sc_bytes_on_disk s) \<and>
      (q = Inl (ColdError ''cuota'') \<longrightarrow> sc_disk s' = sc_disk s)"
  proof (cases "case hm_get (sc_index s) key of None \<Rightarrow> False | Some l \<Rightarrow> rl_class l \<noteq> te_class e")
    case True
    then show ?thesis using assms(3) by (auto simp: cold_put_def)
  next
    case False
    obtain q1 s1 where app: "append_record c key (te_class e) (Some (te_value e)) s = (q1, s1)" by fastforce
    have q: "q = map_sum id (\<lambda>_. ()) q1" "sc_bytes_on_disk s' = sc_bytes_on_disk s1" "sc_disk s' = sc_disk s1"
      using assms(3) False app unfolding cold_put_def by (cases q1; auto)+
    have "sc_bytes_on_disk s1 \<le> limit" if "\<not> isl q1"
      using append_record_bytes(1,3) [OF app] that assms(1,2) by (auto simp: over_quota_def sat_add_def)
    then show ?thesis using q append_record_bytes(1,2) [OF app] by (cases q1) auto
  qed
  moreover have "r \<noteq> Inl (ColdError ''cuota'') \<and> sc_bytes_on_disk s2 = sc_bytes_on_disk s +
      (if r = Inr True then header_len + length key + length (rl_class (the (hm_get (sc_index s) key))) else 0)"
  proof (cases "hm_get (sc_index s) key")
    case None
    then show ?thesis using assms(4) by (auto simp: cold_remove_def)
  next
    case (Some l)
    obtain q1 s1 where app: "append_record c key (rl_class l) None s = (q1, s1)" by fastforce
    note app_bytes = append_record_bytes(1,2) [OF app]
    show ?thesis
      using assms(4) Some app app_bytes unfolding cold_remove_def
      by (cases q1) (auto simp: record_total_def parts_of_def)
  qed
  ultimately show ?thesis by blast
qed

section \<open>After an append that failed\<close>

lemma io_append_at:
  assumes "disk_ok d"
  shows "\<exists>d'. io_append d p x = (True, d') \<and> disk_ok d' \<and> hm_get (dk_files d') p = Some (content d p @ x)"
proof -
  obtain d' where d': "io_append d p x = (True, d')" "disk_ok d'"
    "\<forall>q. hm_get (dk_files d') q = (if q = p then Some (content d p @ x) else hm_get (dk_files d) q)"
    using io_append_ok [OF assms] by blast
  from d'(1,2) spec [OF d'(3), of p] show ?thesis by simp
qed

lemma write_chunks_at:
  assumes "disk_ok d" "hm_get (dk_files d) p = Some old"
  shows "\<exists>d'. write_chunks p xs d = (True, d') \<and> disk_ok d' \<and> hm_get (dk_files d') p = Some (old @ concat xs)"
proof -
  have old: "content d p = old" using assms(2) by (simp add: content_def)
  obtain d' where d': "write_chunks p xs d = (True, d')" "disk_ok d'"
    "\<forall>q. hm_get (dk_files d') q = (if q = p then Some (content d p @ concat xs) else hm_get (dk_files d) q)"
    using write_chunks_ok [OF assms(1), of p xs] assms(2) by blast
  from d'(1,2) spec [OF d'(3), of p] old show ?thesis by simp
qed

lemma write_record_run:
  assumes ok: "disk_ok (sc_disk s)" and room: "sw_size w + record_total key cn p \<le> sc_segment_max_bytes s"
  shows "\<exists>s'. write_record c key cn p w s =
      (Inr \<lparr> rl_path = sw_path w, rl_offset = sw_size w, rl_total_len = record_total key cn p, rl_class = cn \<rparr>, s') \<and>
    disk_ok (sc_disk s') \<and> sc_index s' = sc_index s \<and>
    hm_get (dk_files (sc_disk s')) (sw_path w) = Some (content (sc_disk s) (sw_path w) @ concat (record_chunks key cn p))"
proof -
  have rot: "rotate_writer (sc_segment_max_bytes s) (record_total key cn p) w = w"
    using room by (auto simp: rotate_writer_def sat_add_def)
  from io_append_at [OF ok, of "sw_path w" "[]"] obtain d1 where d1: "io_append (sc_disk s) (sw_path w) [] = (True, d1)"
    "disk_ok d1" "hm_get (dk_files d1) (sw_path w) = Some (content (sc_disk s) (sw_path w))" by auto
  from write_chunks_at [OF d1(2,3), of "record_chunks key cn p"] obtain d2 where
    d2: "write_chunks (sw_path w) (record_chunks key cn p) d1 = (True, d2)" "disk_ok d2"
      "hm_get (dk_files d2) (sw_path w) = Some (content (sc_disk s) (sw_path w) @ concat (record_chunks key cn p))"
    by blast
  obtain dh where dh: "write_chunks (sw_path w) (record_header key cn p) d1 = (True, dh)"
    "write_chunks (sw_path w) [key, cn, rp_payload p] dh = (True, d2)"
    using write_chunks_split [OF d2(1)] by blast
  show ?thesis
    using d1(1) d2(3) dh io_plain_ok [OF d2(2)] by (simp add: write_record_def rot Let_def del: write_chunks.simps)
qed

lemma writer_kept: "hm_get (sc_writers s) cn = Some w \<Longrightarrow> writer_for_class c cn s = (Inr w, s)"
  by (simp add: writer_for_class_def)

lemma record_header_head: "record_header key cn p = cold_magic # tl (record_header key cn p)"
  by (simp add: record_header_def header_chunks_def)

lemma header_len_total: "header_len \<le> record_total key cn p"
  by (simp add: record_total_def)

lemma failed_append:
  assumes w: "hm_get (sc_writers s) cn = Some w" "hm_get (dk_files (sc_disk s)) (sw_path w) = Some bytes" "sw_size w = length bytes"
    and disk: "readable (sc_disk s)" "hm_wf (dk_files (sc_disk s))"
      "dk_faults (sc_disk s) = (\<lambda>n. if n = dk_calls (sc_disk s) + 1 then Some 2 else None)"
    and acc: "accepts c s key cn (Some v)" and new: "hm_get (sc_index s) key = None"
    and room: "length bytes + record_total key cn (parts_of c (Some v)) \<le> sc_segment_max_bytes s"
  shows "\<exists>d. cold_put c s key \<lparr> te_class = cn, te_value = v \<rparr> =
      (Inl (ColdError ''escribir header''), s\<lparr>sc_writers := hm_insert cn w (sc_writers s), sc_disk := d\<rparr>) \<and>
    disk_ok d \<and> content d (sw_path w) = bytes @ ''J''"
proof -
  let ?p = "sw_path w" and ?d = "sc_disk s" and ?p1 = "parts_of c (Some v)"
  have rot: "rotate_writer (sc_segment_max_bytes s) (record_total key cn ?p1) w = w"
    using room w(3) by (auto simp: rotate_writer_def sat_add_def)
  define d1 where "d1 = ?d\<lparr>dk_calls := dk_calls ?d + 1, dk_files := hm_insert ?p bytes (dk_files ?d)\<rparr>"
  define d2 where "d2 = d1\<lparr>dk_calls := dk_calls ?d + 2, dk_files := hm_insert ?p (bytes @ ''J'') (dk_files d1)\<rparr>"
  have "io_append ?d ?p [] = (True, d1)"
    by (simp add: io_append_def io_call_def d1_def w(2) disk(3))
  moreover have "io_append d1 ?p cold_magic = (False, d2)"
    by (simp add: io_append_def io_call_def d2_def d1_def disk(3) cold_magic_def numeral_2_eq_2)
  then have "write_chunks ?p (record_header key cn ?p1) d1 = (False, d2)"
    by (subst record_header_head) simp
  ultimately have "write_record c key cn ?p1 w s =
      (Inl (ColdError ''escribir header''), s\<lparr>sc_writers := hm_insert cn w (sc_writers s), sc_disk := d2\<rparr>)"
    by (simp add: write_record_def rot Let_def)
  with acc new have "cold_put c s key \<lparr> te_class = cn, te_value = v \<rparr> =
      (Inl (ColdError ''escribir header''), s\<lparr>sc_writers := hm_insert cn w (sc_writers s), sc_disk := d2\<rparr>)"
    by (simp add: accepts_def cold_put_def append_record_def writer_kept [OF w(1)] Let_def)
  moreover have "disk_ok d2" using disk by (simp add: disk_ok_def faultless_def readable_def d2_def d1_def)
  moreover have "content d2 ?p = bytes @ ''J''" by (simp add: d2_def content_def)
  ultimately show ?thesis by blast
qed

text \<open>A record that lies one byte after the offset it is read from.\<close>

lemma misread_record:
  assumes c: "cold_codec_ok c" and p: "p = parts_of c v"
  shows "\<not> length (bytes @ ''J'' @ concat (record_chunks key cn p)) < length bytes + record_total key cn p"
    and "decode_value_record c
      (slice (length bytes) (length bytes + record_total key cn p) (bytes @ ''J'' @ concat (record_chunks key cn p))) key =
      Inl (ColdError ''magic'')"
proof -
  let ?t = "record_total key cn p"
  define tail where "tail = concat (tl (record_header key cn p) @ [key, cn, rp_payload p])"
  have tail: "concat (record_chunks key cn p) = cold_magic @ tail"
    unfolding tail_def by (subst record_header_head) simp
  have "4 \<le> ?t" using header_len_total [of key cn p] by (simp add: header_len_def)
  then have "take 4 (slice (length bytes) (length bytes + ?t) (bytes @ ''J'' @ cold_magic @ tail)) = ''JJMC''"
    by (simp add: slice_def cold_magic_def min_def)
  then show "decode_value_record c
      (slice (length bytes) (length bytes + ?t) (bytes @ ''J'' @ concat (record_chunks key cn p))) key = Inl (ColdError ''magic'')"
    unfolding tail by (simp add: decode_value_record_def parse_header_def cold_magic_def)
  show "\<not> length (bytes @ ''J'' @ concat (record_chunks key cn p)) < length bytes + ?t"
    using parts_checksum [OF c, of v] p
    by (simp add: record_header_def header_chunks_def record_total_def header_len_def cold_magic_def)
qed

text \<open>
  A put whose append fails after one byte was written leaves the size of the writer behind
  the file, so the next put of the class succeeds but records an offset one byte short, and a get
  of its key fails.
\<close>

theorem short_append_hides_next:
  assumes c: "cold_codec_ok c"
    and w: "hm_get (sc_writers s) cn = Some w" "hm_get (dk_files (sc_disk s)) (sw_path w) = Some bytes" "sw_size w = length bytes"
    and disk: "readable (sc_disk s)" "hm_wf (dk_files (sc_disk s))"
      "dk_faults (sc_disk s) = (\<lambda>n. if n = dk_calls (sc_disk s) + 1 then Some 2 else None)"
    and acc: "accepts c s k1 cn (Some v1)" "accepts c s k2 cn (Some v2)"
    and new: "hm_get (sc_index s) k1 = None" "hm_get (sc_index s) k2 = None"
    and room: "length bytes + record_total k1 cn (parts_of c (Some v1)) \<le> sc_segment_max_bytes s"
      "length bytes + record_total k2 cn (parts_of c (Some v2)) \<le> sc_segment_max_bytes s"
    and run: "cold_put c s k1 \<lparr> te_class = cn, te_value = v1 \<rparr> = (q1, s1)"
      "cold_put c s1 k2 \<lparr> te_class = cn, te_value = v2 \<rparr> = (q2, s2)"
  shows "q1 = Inl (ColdError ''escribir header'') \<and> q2 = Inr () \<and> cold_get c s2 k2 = Inl (ColdError ''magic'')"
proof -
  let ?p = "sw_path w" and ?p2 = "parts_of c (Some v2)"
  from failed_append [OF w disk acc(1) new(1) room(1)] run(1) obtain d where
    q1: "q1 = Inl (ColdError ''escribir header'')" and s1: "s1 = s\<lparr>sc_writers := hm_insert cn w (sc_writers s), sc_disk := d\<rparr>"
    and d: "disk_ok d" "content d ?p = bytes @ ''J''" by auto
  have s1_facts: "disk_ok (sc_disk s1)" "sw_size w + record_total k2 cn ?p2 \<le> sc_segment_max_bytes s1"
    "hm_get (sc_writers s1) cn = Some w" "sc_index s1 = sc_index s" "over_quota s1 = over_quota s"
    using d room(2) w(3) by (auto simp: s1 over_quota_def fun_eq_iff split: option.split)
  from write_record_run [OF s1_facts(1,2), of c] obtain s' where
    wr: "write_record c k2 cn ?p2 w s1 =
      (Inr \<lparr> rl_path = ?p, rl_offset = sw_size w, rl_total_len = record_total k2 cn ?p2, rl_class = cn \<rparr>, s')"
    and s': "disk_ok (sc_disk s')" "sc_index s' = sc_index s1"
      "hm_get (dk_files (sc_disk s')) ?p = Some (bytes @ ''J'' @ concat (record_chunks k2 cn ?p2))"
    using d(2) by (auto simp: s1)
  have "append_record c k2 cn (Some v2) s1 =
      (Inr \<lparr> rl_path = ?p, rl_offset = length bytes, rl_total_len = record_total k2 cn ?p2, rl_class = cn \<rparr>, s')"
    using acc(2) wr w(3) s1_facts(5) by (simp add: accepts_def append_record_def writer_kept [OF s1_facts(3)] Let_def)
  then have s2: "q2 = Inr ()" "s2 = s'\<lparr>sc_index := hm_insert k2 \<lparr> rl_path = ?p, rl_offset = length bytes,
      rl_total_len = record_total k2 cn ?p2, rl_class = cn \<rparr> (sc_index s)\<rparr>"
    using run(2) new(2) s'(2) s1_facts(4) by (simp_all add: cold_put_def)
  have "io_read (sc_disk s2) ?p = Some (bytes @ ''J'' @ concat (record_chunks k2 cn ?p2))"
    using s' by (simp add: s2 io_read_def disk_ok_def readable_def)
  then have "cold_get c s2 k2 = Inl (ColdError ''magic'')"
    using misread_record [OF c refl, of bytes k2 cn "Some v2"] by (simp add: cold_get_def s2(2) read_location_def)
  then show ?thesis using q1 s2(1) by simp
qed

section \<open>Examples\<close>

abbreviation example_cls :: "string \<Rightarrow> string" where
  "example_cls \<equiv> (\<lambda>_. ''c'')"

definition example_cold_disk :: disk where
  "example_cold_disk = \<lparr> dk_files = [], dk_unreadable = (\<lambda>_. False), dk_faults = (\<lambda>_. None), dk_calls = 0 \<rparr>"

definition example_cold :: "nat option \<Rightarrow> segmented_cold" where
  "example_cold limit =
     \<lparr> sc_root = ''r'', sc_segment_max_bytes = 4096, sc_mmap_reads = True, sc_index = [], sc_writers = [],
       sc_bytes_on_disk = 0, sc_max_disk_bytes = limit, sc_quota_rejections = 0, sc_salvaged_segments = 0,
       sc_disk = example_cold_disk\<lparr>dk_calls := 1\<rparr> \<rparr>"

lemma example_cold_open:
  "open_with_limit ''r'' 4096 True limit example_cold_disk = (Inr (example_cold limit), sc_disk (example_cold limit))"
  by (simp add: open_with_limit_def io_plain_def io_call_def rebuild_index_def class_dirs_def example_cold_disk_def
      example_cold_def List.map_filter_def)

lemma example_cold_facts:
  "cold_env example_cold_codec example_cls {''c''}" "disk_ok example_cold_disk" "segments example_cold_disk ''r'' = {}"
  by (simp_all add: cold_env_def byte_in_def disk_ok_def example_cold_disk_def readable_def faultless_def segments_def)

lemma example_accepts:
  "sc_max_disk_bytes s = None \<Longrightarrow> accepts example_cold_codec s [ch] ''c'' (Some JNull)"
  by (simp add: accepts_def over_quota_def example_cold_defs Let_def)

theorem cold_refines_map_witness:
  "cold_get example_cold_codec (run_cold example_cold_codec example_cls [ColdPut ''k'' JNull] (example_cold None)) ''k'' =
     Inr (Some \<lparr> te_class = ''c'', te_value = JNull \<rparr>) \<and>
   cold_get example_cold_codec (run_cold example_cold_codec example_cls [ColdPut ''k'' JNull, ColdRemove ''k''] (example_cold None)) ''k'' =
     Inr None"
proof -
  have acc: "accepts example_cold_codec (example_cold None) ''k'' ''c'' (Some JNull)"
    by (rule example_accepts) (simp add: example_cold_def)
  note run = cold_refines_map [OF example_cold_facts example_cold_open [of None]]
  show ?thesis
    using run [of "[ColdPut ''k'' JNull]" "''k''"] run [of "[ColdPut ''k'' JNull, ColdRemove ''k'']" "''k''"] acc
    by (simp add: byte_in_def u64_max_def)
qed

theorem cold_reopen_equivalent_witness:
  "\<exists>t d2. open_with_limit ''r'' 4096 False None
      (sc_disk (run_cold example_cold_codec example_cls [ColdPut ''k'' JNull] (example_cold None))) = (Inr t, d2) \<and>
    cold_get example_cold_codec t ''k'' =
      cold_get example_cold_codec (run_cold example_cold_codec example_cls [ColdPut ''k'' JNull] (example_cold None)) ''k''"
proof -
  let ?xs = "[ColdPut ''k'' JNull]"
  define s' where "s' = run_cold example_cold_codec example_cls ?xs (example_cold None)"
  have put: "s' = snd (cold_put example_cold_codec (example_cold None) ''k'' \<lparr> te_class = ''c'', te_value = JNull \<rparr>)"
    by (simp add: s'_def)
  obtain q s1 where app: "append_record example_cold_codec ''k'' ''c'' (Some JNull) (example_cold None) = (q, s1)" by fastforce
  have "sc_bytes_on_disk s' = sc_bytes_on_disk s1"
    unfolding put cold_put_def by (simp add: app split: sum.split) (simp add: example_cold_def)
  moreover have "sc_bytes_on_disk s1 \<le> 59"
    using append_record_bytes(1) [OF app] by (simp add: example_cold_def record_total_def header_len_def example_cold_defs Let_def)
  ultimately have size: "sc_bytes_on_disk s' < u64_max" by (simp add: u64_max_def)
  from cold_reopen_equivalent [OF example_cold_facts example_cold_open [of None], where xs = ?xs and s' = s' and m' = 4096 and mmap' = False and limit' = None] size
  show ?thesis by (simp add: s'_def byte_in_def u64_max_def) blast
qed

theorem torn_tail_is_cut_witness:
  "\<exists>d'. rebuild_segment (''d'', ''s'') []
      (example_cold_disk\<lparr>dk_files := [((''d'', ''s''), encode_record example_cold_codec \<lparr> cr_key = ''k'', cr_class = ''c'', cr_value = Some JNull \<rparr> @ ''JM'')]\<rparr>) =
    (Inr (index_records example_cold_codec (''d'', ''s'') 0 [\<lparr> cr_key = ''k'', cr_class = ''c'', cr_value = Some JNull \<rparr>] [], 59, 0), d') \<and>
    hm_get (dk_files d') (''d'', ''s'') = Some (encode_record example_cold_codec \<lparr> cr_key = ''k'', cr_class = ''c'', cr_value = Some JNull \<rparr>)"
proof -
  let ?r = "\<lparr> cr_key = ''k'', cr_class = ''c'', cr_value = Some JNull \<rparr>" and ?p = "(''d'', ''s'')"
  let ?d = "example_cold_disk\<lparr>dk_files := [(?p, encode_record example_cold_codec ?r @ ''JM'')]\<rparr>"
  have len: "length (encode_record example_cold_codec ?r) = 59"
    unfolding length_encode [OF example_cold_codec_ok] by (simp add: record_total_def header_len_def example_cold_defs Let_def)
  have r: "record_ok example_cold_codec ?r" by (simp add: record_ok_def byte_in_def example_cold_defs Let_def)
  have "take 2 (encode_record example_cold_codec ?r) = ''JM''"
    by (simp add: encode_record_def record_header_def header_chunks_def cold_magic_def)
  then have torn: "torn_record example_cold_codec ''JM''"
    using r len unfolding torn_record_def
    by (intro conjI disjI2 exI [where x = ?r] exI [where x = 2]) (simp_all add: find_record_def header_len_def upt_rec)
  have d: "disk_ok ?d" by (simp add: disk_ok_def example_cold_disk_def readable_def faultless_def hm_wf_def)
  have "hm_get (dk_files ?d) ?p = Some (encode_all example_cold_codec [?r] @ ''JM'')" by simp
  from torn_tail_is_cut [OF example_cold_codec_ok d _ _ torn this, of example_cls "[]" ?p] r len
  show ?thesis by (simp add: classes_fixed_def u64_max_def)
qed

theorem cold_quota_witness:
  "fst (cold_put example_cold_codec (example_cold (Some 60)) ''k'' \<lparr> te_class = ''c'', te_value = JNull \<rparr>) = Inr () \<and>
   sc_bytes_on_disk (snd (cold_put example_cold_codec (example_cold (Some 60)) ''k'' \<lparr> te_class = ''c'', te_value = JNull \<rparr>)) \<le> 60"
proof -
  let ?s = "example_cold (Some 60)" and ?e = "\<lparr> te_class = ''c'', te_value = JNull \<rparr>"
  have inv: "cold_inv example_cold_codec example_cls {''c''} 0 (\<lambda>_. []) ?s"
    by (rule opened_fresh [OF example_cold_codec_ok example_cold_facts(2,3) example_cold_open])
  have "accepts example_cold_codec ?s ''k'' ''c'' (Some JNull)"
    by (simp add: accepts_def over_quota_def example_cold_def record_total_def header_len_def sat_add_def example_cold_defs Let_def)
  then have ok: "fst (cold_put example_cold_codec ?s ''k'' ?e) = Inr ()"
    using put_result [OF example_cold_facts(1) inv, of "''k''" ?e] by (simp add: byte_in_def u64_max_def)
  obtain q s' where run: "cold_put example_cold_codec ?s ''k'' ?e = (q, s')" by fastforce
  obtain r s2 where rem: "cold_remove example_cold_codec ?s ''k'' = (r, s2)" by fastforce
  from cold_quota [OF _ _ run rem, of 60] ok show ?thesis by (simp add: run) (simp add: example_cold_def u64_max_def)
qed

definition example_short :: segmented_cold where
  "example_short = (example_cold None)
     \<lparr>sc_writers := [(''c'', \<lparr> sw_id = 0, sw_path = (''d'', ''s''), sw_size = 0 \<rparr>)],
      sc_disk := \<lparr> dk_files = [((''d'', ''s''), [])], dk_unreadable = (\<lambda>_. False),
                   dk_faults = (\<lambda>n. if n = 1 then Some 2 else None), dk_calls = 0 \<rparr>\<rparr>"

theorem short_append_hides_next_witness:
  "\<exists>s1 s2. cold_put example_cold_codec example_short ''k'' \<lparr> te_class = ''c'', te_value = JNull \<rparr> =
      (Inl (ColdError ''escribir header''), s1) \<and>
    cold_put example_cold_codec s1 ''j'' \<lparr> te_class = ''c'', te_value = JNull \<rparr> = (Inr (), s2) \<and>
    cold_get example_cold_codec s2 ''j'' = Inl (ColdError ''magic'')"
proof -
  let ?e = "\<lparr> te_class = ''c'', te_value = JNull \<rparr>"
  obtain q1 s1 where run1: "cold_put example_cold_codec example_short ''k'' ?e = (q1, s1)" by fastforce
  obtain q2 s2 where run2: "cold_put example_cold_codec s1 ''j'' ?e = (q2, s2)" by fastforce
  have acc: "accepts example_cold_codec example_short [ch] ''c'' (Some JNull)" for ch
    by (rule example_accepts) (simp add: example_short_def example_cold_def)
  have "q1 = Inl (ColdError ''escribir header'') \<and> q2 = Inr () \<and> cold_get example_cold_codec s2 ''j'' = Inl (ColdError ''magic'')"
    by (rule short_append_hides_next [OF example_cold_codec_ok _ _ _ _ _ _ acc acc _ _ _ _ run1 run2, where bytes = "[]" and w = "\<lparr> sw_id = 0, sw_path = (''d'', ''s''), sw_size = 0 \<rparr>"])
      (simp_all add: example_short_def example_cold_def readable_def hm_wf_def record_total_def header_len_def
        example_cold_defs Let_def)
  with run1 run2 show ?thesis by blast
qed

end
