(* ===== verification/Server_Document.thy ===== *)
theory Server_Document
  imports Flow_Validation
begin

text \<open>
  What the server requires of a flow document before it is validated or deployed
  (\<open>parse_and_validate\<close> of \<open>crates/jaiba-server/src/observability.rs\<close>). The YAML parser, the cron
  and time zone parsers and the constructors of the processors are parameters.
\<close>

record document_env =
  dv_yaml :: "string \<Rightarrow> (flow_error, flow_config) result"
  dv_parse_cron :: "string \<Rightarrow> (string, unit) result"
  dv_known_tz :: "string \<Rightarrow> bool"
  dv_order :: "string list \<Rightarrow> string list"
  dv_env :: "string \<Rightarrow> string option"
  dv_build :: "string \<Rightarrow> json \<Rightarrow> (flow_error, unit) result"

definition database_types :: "string list" where
  "database_types =
     [''postgres'', ''mysql'', ''mariadb'', ''mongodb'', ''mongo'', ''oracle'', ''sqlserver'', ''mssql'', ''clickhouse'']"

fun check_databases :: "(string \<times> database_connection_config) list \<Rightarrow> (flow_error, unit) result" where
  "check_databases [] = Inr ()"
| "check_databases ((name, c) # cs) =
     (if trim (dc_url_env c) = [] \<or> dc_max_connections c = 0
      then Inl (Configuration (DatabaseConnectionIncomplete name))
      else if dc_connection_type c \<notin> set database_types
      then Inl (Configuration (UnsupportedConnectionType (dc_connection_type c)))
      else check_databases cs)"

fun check_kafka :: "(string \<times> kafka_connection_config) list \<Rightarrow> (flow_error, unit) result" where
  "check_kafka [] = Inr ()"
| "check_kafka ((name, c) # cs) =
     (if trim (kc_brokers_env c) = [] then Inl (Configuration (KafkaConnectionIncomplete name)) else check_kafka cs)"

text \<open>The kind of connection that a processor of a type requires.\<close>

definition requires_kind :: "flow_config \<Rightarrow> processor_config \<Rightarrow> string \<Rightarrow> string list \<Rightarrow> (flow_error, unit) result" where
  "requires_kind fc p name kinds =
     (case hm_get (fc_database_connections fc) name of
        None \<Rightarrow> Inl (Configuration (UnknownConnection (pc_id p) name))
      | Some c \<Rightarrow>
          if dc_connection_type c \<in> set kinds then Inr () else Inl (Configuration (WrongConnectionKind (pc_id p))))"

definition check_connection :: "flow_config \<Rightarrow> processor_config \<Rightarrow> (flow_error, unit) result" where
  "check_connection fc p =
     (let ty = pc_processor_type p
      in case (case json_get (pc_config p) ''connection'' of None \<Rightarrow> None | Some v \<Rightarrow> json_as_str v) of
           None \<Rightarrow> Inr ()
         | Some name \<Rightarrow>
             if ty = ''query_postgres'' then requires_kind fc p name [''postgres'']
             else if ty = ''query_mysql'' then requires_kind fc p name [''mysql'', ''mariadb'']
             else if ty = ''query_sqlserver'' then requires_kind fc p name [''sqlserver'', ''mssql'']
             else if ty = ''query_mongodb'' \<or> ty = ''put_mongodb'' then requires_kind fc p name [''mongodb'', ''mongo'']
             else if ty = ''put_database'' \<and> hm_get (fc_database_connections fc) name = None
             then Inl (Configuration (UnknownConnection (pc_id p) name))
             else if (ty = ''publish_kafka'' \<or> ty = ''consume_kafka'') \<and> hm_get (fc_kafka_connections fc) name = None
             then Inl (Configuration (UnknownConnection (pc_id p) name))
             else Inr ())"

fun check_processors ::
  "(string \<Rightarrow> json \<Rightarrow> (flow_error, unit) result) \<Rightarrow> flow_config \<Rightarrow> processor_config list \<Rightarrow> (flow_error, unit) result" where
  "check_processors mk fc [] = Inr ()"
| "check_processors mk fc (p # ps) =
     (case mk (pc_processor_type p) (pc_config p) of
        Inl e \<Rightarrow> Inl e
      | Inr _ \<Rightarrow> (case check_connection fc p of Inl e \<Rightarrow> Inl e | Inr _ \<Rightarrow> check_processors mk fc ps))"

text \<open>\<open>FlowEngine::new\<close> for a configuration; \<open>None\<close> when it does not return.\<close>

definition engine_for :: "document_env \<Rightarrow> flow_config \<Rightarrow> (flow_error, unit) result option" where
  "engine_for D fc =
     (case flow_engine_new (dv_order D) (dv_env D) fc of
        None \<Rightarrow> None
      | Some (Inl e) \<Rightarrow> Some (Inl e)
      | Some (Inr _) \<Rightarrow> Some (Inr ()))"

definition document_checks :: "document_env \<Rightarrow> flow_config \<Rightarrow> (flow_error, unit) result option" where
  "document_checks D fc =
     (if trim (fc_id fc) = [] then Some (Inl (Configuration FlowIdEmpty))
      else case (case fc_schedule fc of None \<Rightarrow> Inr () | Some sch \<Rightarrow> schedule_validate (dv_parse_cron D) (dv_known_tz D) sch) of
        Inl e \<Rightarrow> Some (Inl (Configuration (ScheduleInvalid e)))
      | Inr _ \<Rightarrow>
          if mc_maximum_percent (ec_memory (fc_engine fc)) < 1 \<or> 90 < mc_maximum_percent (ec_memory (fc_engine fc))
          then Some (Inl (Configuration MemoryPercentOutOfRange))
          else case check_databases (fc_database_connections fc) of
            Inl e \<Rightarrow> Some (Inl e)
          | Inr _ \<Rightarrow>
              (case check_kafka (fc_kafka_connections fc) of
                 Inl e \<Rightarrow> Some (Inl e)
               | Inr _ \<Rightarrow>
                   (case engine_for D fc of
                      None \<Rightarrow> None
                    | Some (Inl e) \<Rightarrow> Some (Inl e)
                    | Some (Inr _) \<Rightarrow> Some (check_processors (dv_build D) fc (fc_processors fc)))))"

definition parse_and_validate :: "document_env \<Rightarrow> string \<Rightarrow> (flow_error, flow_config) result option" where
  "parse_and_validate D body =
     (case dv_yaml D body of
        Inl e \<Rightarrow> Some (Inl e)
      | Inr fc \<Rightarrow>
          (case document_checks D fc of
             None \<Rightarrow> None
           | Some (Inl e) \<Rightarrow> Some (Inl e)
           | Some (Inr _) \<Rightarrow> Some (Inr fc)))"

lemma parse_and_validate_engine:
  "parse_and_validate D body = Some (Inr fc) \<Longrightarrow> engine_for D fc = Some (Inr ())"
  by (auto simp: parse_and_validate_def document_checks_def split: sum.splits option.splits if_splits)

end
