(* ===== verification/Server_Registry.thy ===== *)
theory Server_Registry
  imports Server_Document Flow_Control
begin

text \<open>
  The registry of flows (\<open>crates/jaiba-server/src/flow_registry.rs\<close>): versioned documents, their
  lifecycle, deployment with rollback, and the supervisors that run. Supervisors are shared
  between the registry and those that asked for one, so they live in a table and are referred to
  by position. Calls that await are split at the points where other calls may come in; what the
  environment decides (how a task ends, whether a file can be written) is an argument.
\<close>

section \<open>Supervisors as the registry uses them\<close>

text \<open>
  \<open>stop_gracefully\<close> from its call to its return: \<open>drained\<close> is how the task ends before the drain
  times out, \<open>None\<close> when it does not.
\<close>

definition sv_stop_gracefully ::
  "(flow_error \<Rightarrow> string) \<Rightarrow> nat \<Rightarrow> bool \<Rightarrow> flow_error option option \<Rightarrow> supervisor \<Rightarrow> (flow_error, unit) result \<times> supervisor" where
  "sv_stop_gracefully display now force drained sv =
     (case sv_stop_begin now sv of
        (None, sv) \<Rightarrow> (Inr (), sv)
      | (Some i, sv) \<Rightarrow>
          if is_finished (sv_tasks sv ! i) then sv_stop_joined i sv
          else (case drained of
            Some e \<Rightarrow> sv_stop_joined i (run_end display now i e sv)
          | None \<Rightarrow> sv_stop_timeout now force i sv))"

text \<open>\<open>start\<close> likewise: \<open>init\<close> is the error that ends the task before it is ready, if any.\<close>

definition sv_start_flow ::
  "(flow_error \<Rightarrow> string) \<Rightarrow> nat \<Rightarrow> (flow_error, unit) result \<Rightarrow> flow_error option \<Rightarrow> supervisor
    \<Rightarrow> (flow_error, bool) result \<times> supervisor" where
  "sv_start_flow display now engine init sv =
     (case sv_start now engine sv of
        (AlreadyRunning, sv) \<Rightarrow> (Inr False, sv)
      | (StartFailed e, sv) \<Rightarrow> (Inl e, sv)
      | (StartedTask i, sv) \<Rightarrow>
          (let sv = run_begin now i sv
           in case init of
                None \<Rightarrow> (Inr True, run_ready now i sv)
              | Some e \<Rightarrow>
                  (case sv_start_lost i (run_end display now i (Some e) (run_dropped i sv)) of (e, sv) \<Rightarrow> (Inl e, sv))))"

record supervised =
  su_config :: flow_config
  su_supervisor :: supervisor

section \<open>Records\<close>

datatype flow_version_state = Draft | Validated | Deployed | Archived

record flow_version =
  fv_version :: nat
  fv_state :: flow_version_state
  fv_source :: string
  fv_checksum :: string
  fv_created_at :: nat
  fv_validated_at :: "nat option"
  fv_deployed_at :: "nat option"
  fv_archived_at :: "nat option"
  fv_note :: "string option"

record flow_record =
  fr_id :: string
  fr_versions :: "flow_version list"
  fr_active_version :: "nat option"
  fr_created_at :: nat
  fr_updated_at :: nat

datatype registry_error =
    NotFound string
  | InvalidState string
  | LimitExceeded nat
  | Validation flow_error
  | Internal flow_error

definition next_version :: "flow_record \<Rightarrow> nat" where
  "next_version r = foldr max (map fv_version (fr_versions r)) 0 + 1"

definition record_version :: "flow_record \<Rightarrow> nat \<Rightarrow> flow_version option" where
  "record_version r version = find (\<lambda>v. fv_version v = version) (fr_versions r)"

fun update_first :: "('a \<Rightarrow> bool) \<Rightarrow> ('a \<Rightarrow> 'a) \<Rightarrow> 'a list \<Rightarrow> 'a list" where
  "update_first P f [] = []"
| "update_first P f (x # xs) = (if P x then f x # xs else x # update_first P f xs)"

text \<open>A change of the version that \<open>version_mut\<close> finds.\<close>

definition with_version :: "nat \<Rightarrow> (flow_version \<Rightarrow> flow_version) \<Rightarrow> flow_record \<Rightarrow> flow_record" where
  "with_version version f r = r\<lparr>fr_versions := update_first (\<lambda>v. fv_version v = version) f (fr_versions r)\<rparr>"

definition new_record :: "string \<Rightarrow> nat \<Rightarrow> flow_record" where
  "new_record flow_id now =
     \<lparr> fr_id = flow_id, fr_versions = [], fr_active_version = None, fr_created_at = now, fr_updated_at = now \<rparr>"

definition draft_version :: "nat \<Rightarrow> nat \<Rightarrow> string \<Rightarrow> string \<Rightarrow> string option \<Rightarrow> flow_version" where
  "draft_version version now source digest note =
     \<lparr> fv_version = version, fv_state = Draft, fv_source = source, fv_checksum = digest, fv_created_at = now,
       fv_validated_at = None, fv_deployed_at = None, fv_archived_at = None, fv_note = note \<rparr>"

definition served_version :: "nat \<Rightarrow> nat \<Rightarrow> string \<Rightarrow> string \<Rightarrow> flow_version" where
  "served_version version now source digest =
     \<lparr> fv_version = version, fv_state = Deployed, fv_source = source, fv_checksum = digest, fv_created_at = now,
       fv_validated_at = Some now, fv_deployed_at = Some now, fv_archived_at = None,
       fv_note = Some ''servido por CLI'' \<rparr>"

definition push_version :: "nat \<Rightarrow> flow_version \<Rightarrow> flow_record \<Rightarrow> flow_record" where
  "push_version now v r = r\<lparr>fr_versions := fr_versions r @ [v], fr_updated_at := now\<rparr>"

definition mark_validated :: "nat \<Rightarrow> nat \<Rightarrow> flow_record \<Rightarrow> flow_record" where
  "mark_validated now version r =
     (with_version version (\<lambda>v. v\<lparr>fv_state := Validated, fv_validated_at := Some now\<rparr>) r)\<lparr>fr_updated_at := now\<rparr>"

definition archived_version :: "nat \<Rightarrow> flow_version \<Rightarrow> flow_version" where
  "archived_version now v = v\<lparr>fv_state := Archived, fv_archived_at := Some now\<rparr>"

definition mark_archived :: "nat \<Rightarrow> nat \<Rightarrow> flow_record \<Rightarrow> flow_record" where
  "mark_archived now version r =
     (let r = with_version version (archived_version now) r
      in r\<lparr>fr_active_version := (if fr_active_version r = Some version then None else fr_active_version r),
           fr_updated_at := now\<rparr>)"

definition mark_served :: "nat \<Rightarrow> string \<Rightarrow> string \<Rightarrow> flow_record \<Rightarrow> flow_record" where
  "mark_served now source digest r =
     (let version = next_version r;
          r = push_version now (served_version version now source digest) r;
          r = (case fr_active_version r of None \<Rightarrow> r | Some previous \<Rightarrow> with_version previous (archived_version now) r)
      in r\<lparr>fr_active_version := Some version\<rparr>)"

definition mark_deployed :: "nat \<Rightarrow> nat \<Rightarrow> flow_record \<Rightarrow> flow_record" where
  "mark_deployed now version r =
     (let r = (case fr_active_version r of
                 None \<Rightarrow> r
               | Some previous \<Rightarrow> if previous \<noteq> version then with_version previous (archived_version now) r else r);
          r = with_version version (\<lambda>v. v\<lparr>fv_state := Deployed, fv_deployed_at := Some now\<rparr>) r
      in r\<lparr>fr_active_version := Some version, fr_updated_at := now\<rparr>)"

section \<open>The registry\<close>

record running_flow =
  rf_version :: nat
  rf_source :: string
  rf_supervisor :: nat
  rf_repository :: bool

record server =
  sr_dir :: bool
  sr_max_concurrent :: nat
  sr_records :: "flow_record hmap"
  sr_running :: "running_flow hmap"
  sr_supervisors :: "supervised list"
  sr_file :: "string option"

text \<open>The document parameters, the text of an error, SHA-256 in hexadecimal, and the JSON of the records.\<close>

record registry_env =
  ev_document :: document_env
  ev_display :: "flow_error \<Rightarrow> string"
  ev_checksum :: "string \<Rightarrow> string"
  ev_to_vec :: "flow_record list \<Rightarrow> string"
  ev_from_slice :: "string \<Rightarrow> flow_record list option"

definition registry_new :: "bool \<Rightarrow> nat \<Rightarrow> string option \<Rightarrow> server" where
  "registry_new dir max_concurrent data_file =
     \<lparr> sr_dir = dir, sr_max_concurrent = max max_concurrent 1, sr_records = [], sr_running = [],
       sr_supervisors = [], sr_file = data_file \<rparr>"

definition list_records :: "server \<Rightarrow> flow_record list" where
  "list_records s = sort_key fr_id (map snd (sr_records s))"

definition get_record :: "string \<Rightarrow> server \<Rightarrow> flow_record option" where
  "get_record flow_id s = hm_get (sr_records s) flow_id"

definition load :: "registry_env \<Rightarrow> bool \<Rightarrow> server \<Rightarrow> (flow_error, nat) result \<times> server" where
  "load E readable s =
     (if \<not> sr_dir s then (Inr 0, s)
      else case sr_file s of
        None \<Rightarrow> (Inr 0, s)
      | Some bytes \<Rightarrow>
          if \<not> readable then (Inl (Configuration RegistryUnreadable), s)
          else (case ev_from_slice E bytes of
             None \<Rightarrow> (Inl (Configuration RegistryCorrupt), s)
           | Some records \<Rightarrow>
               (Inr (length records),
                s\<lparr>sr_records := fold (\<lambda>r. hm_insert (fr_id r) r) records (sr_records s)\<rparr>)))"

text \<open>\<open>write_atomic\<close> replaces the file or leaves it: \<open>ok\<close> says which.\<close>

definition persist :: "registry_env \<Rightarrow> bool \<Rightarrow> server \<Rightarrow> (registry_error, unit) result \<times> server" where
  "persist E ok s =
     (if \<not> sr_dir s then (Inr (), s)
      else if ok then (Inr (), s\<lparr>sr_file := Some (ev_to_vec E (list_records s))\<rparr>)
      else (Inl (Internal (ServerError ''no se pudo persistir el registro de flujos'')), s))"

definition export_version :: "string \<Rightarrow> nat \<Rightarrow> server \<Rightarrow> string option" where
  "export_version flow_id version s =
     (case hm_get (sr_records s) flow_id of
        None \<Rightarrow> None
      | Some r \<Rightarrow> map_option fv_source (record_version r version))"

definition version_source :: "string \<Rightarrow> nat \<Rightarrow> server \<Rightarrow> (registry_error, string) result" where
  "version_source flow_id version s =
     (case hm_get (sr_records s) flow_id of
        None \<Rightarrow> Inl (NotFound ''flujo'')
      | Some r \<Rightarrow> (case record_version r version of None \<Rightarrow> Inl (NotFound ''version'') | Some v \<Rightarrow> Inr (fv_source v)))"

definition create_draft ::
  "registry_env \<Rightarrow> nat \<Rightarrow> bool \<Rightarrow> string \<Rightarrow> string option \<Rightarrow> server \<Rightarrow> (registry_error, string \<times> nat) result \<times> server" where
  "create_draft E now ok source note s =
     (case dv_yaml (ev_document E) source of
        Inl e \<Rightarrow> (Inl (Validation e), s)
      | Inr fc \<Rightarrow>
          (let flow_id = trim (fc_id fc)
           in if flow_id = [] then (Inl (Validation (Configuration FlowIdEmpty)), s)
              else (let r = (case hm_get (sr_records s) flow_id of None \<Rightarrow> new_record flow_id now | Some r \<Rightarrow> r);
                        version = next_version r;
                        r = push_version now (draft_version version now source (ev_checksum E source) note) r
                    in case persist E ok (s\<lparr>sr_records := hm_insert flow_id r (sr_records s)\<rparr>) of
                         (Inl e, s) \<Rightarrow> (Inl e, s)
                       | (Inr _, s) \<Rightarrow> (Inr (flow_id, version), s))))"

text \<open>The part of \<open>validate_version\<close> under the lock on the records.\<close>

definition validate_entry :: "nat \<Rightarrow> string \<Rightarrow> nat \<Rightarrow> server \<Rightarrow> (registry_error, unit) result \<times> server" where
  "validate_entry now flow_id version s =
     (case hm_get (sr_records s) flow_id of
        None \<Rightarrow> (Inl (NotFound ''flujo''), s)
      | Some r \<Rightarrow>
          (case record_version r version of
             None \<Rightarrow> (Inl (NotFound ''version''), s)
           | Some v \<Rightarrow>
               if fv_state v = Archived then (Inl (InvalidState ''no se puede validar una version archivada''), s)
               else (Inr (), s\<lparr>sr_records := hm_insert flow_id (mark_validated now version r) (sr_records s)\<rparr>)))"

definition validate_version ::
  "registry_env \<Rightarrow> nat \<Rightarrow> bool \<Rightarrow> string \<Rightarrow> nat \<Rightarrow> server \<Rightarrow> ((registry_error, unit) result \<times> server) option" where
  "validate_version E now ok flow_id version s =
     (case version_source flow_id version s of
        Inl e \<Rightarrow> Some (Inl e, s)
      | Inr source \<Rightarrow>
          (case parse_and_validate (ev_document E) source of
             None \<Rightarrow> None
           | Some (Inl e) \<Rightarrow> Some (Inl (Validation e), s)
           | Some (Inr _) \<Rightarrow>
               (case validate_entry now flow_id version s of
                  (Inl e, s) \<Rightarrow> Some (Inl e, s)
                | (Inr _, s) \<Rightarrow> Some (persist E ok s))))"

text \<open>\<open>archive_version\<close>: the look at what runs, and the change of the record.\<close>

definition archive_check :: "string \<Rightarrow> nat \<Rightarrow> server \<Rightarrow> (registry_error, unit) result" where
  "archive_check flow_id version s =
     (if map_option rf_version (hm_get (sr_running s) flow_id) = Some version
      then Inl (InvalidState ''no se puede archivar la version en ejecucion'') else Inr ())"

definition archive_apply :: "registry_env \<Rightarrow> nat \<Rightarrow> bool \<Rightarrow> string \<Rightarrow> nat \<Rightarrow> server \<Rightarrow> (registry_error, unit) result \<times> server" where
  "archive_apply E now ok flow_id version s =
     (case hm_get (sr_records s) flow_id of
        None \<Rightarrow> (Inl (NotFound ''flujo''), s)
      | Some r \<Rightarrow>
          (case record_version r version of
             None \<Rightarrow> (Inl (NotFound ''version''), s)
           | Some _ \<Rightarrow> persist E ok (s\<lparr>sr_records := hm_insert flow_id (mark_archived now version r) (sr_records s)\<rparr>)))"

definition archive_version :: "registry_env \<Rightarrow> nat \<Rightarrow> bool \<Rightarrow> string \<Rightarrow> nat \<Rightarrow> server \<Rightarrow> (registry_error, unit) result \<times> server" where
  "archive_version E now ok flow_id version s =
     (case archive_check flow_id version s of Inl e \<Rightarrow> (Inl e, s) | Inr _ \<Rightarrow> archive_apply E now ok flow_id version s)"

section \<open>Deployment\<close>

text \<open>Calls on the supervisor at a position of the table.\<close>

definition stop_at ::
  "registry_env \<Rightarrow> nat \<Rightarrow> flow_error option option \<Rightarrow> nat \<Rightarrow> server \<Rightarrow> (flow_error, unit) result \<times> server" where
  "stop_at E now drained k s =
     (let su = sr_supervisors s ! k
      in case sv_stop_gracefully (ev_display E) now (sc_force_after_timeout (ec_shutdown (fc_engine (su_config su))))
                drained (su_supervisor su) of
           (r, sv) \<Rightarrow> (r, s\<lparr>sr_supervisors := (sr_supervisors s)[k := su\<lparr>su_supervisor := sv\<rparr>]\<rparr>))"

definition start_at ::
  "registry_env \<Rightarrow> nat \<Rightarrow> flow_error option \<Rightarrow> nat \<Rightarrow> server \<Rightarrow> ((flow_error, bool) result \<times> server) option" where
  "start_at E now init k s =
     (let su = sr_supervisors s ! k
      in case engine_for (ev_document E) (su_config su) of
           None \<Rightarrow> None
         | Some engine \<Rightarrow>
             (case sv_start_flow (ev_display E) now engine init (su_supervisor su) of
                (r, sv) \<Rightarrow> Some (r, s\<lparr>sr_supervisors := (sr_supervisors s)[k := su\<lparr>su_supervisor := sv\<rparr>]\<rparr>)))"

text \<open>\<open>FlowSupervisor::new\<close>: a new row of the table.\<close>

definition new_supervisor :: "nat \<Rightarrow> flow_config \<Rightarrow> server \<Rightarrow> nat \<times> server" where
  "new_supervisor now fc s =
     (length (sr_supervisors s),
      s\<lparr>sr_supervisors := sr_supervisors s @ [\<lparr> su_config = fc, su_supervisor = supervisor_new now \<rparr>]\<rparr>)"

definition set_running :: "string \<Rightarrow> running_flow \<Rightarrow> server \<Rightarrow> server" where
  "set_running flow_id p s = s\<lparr>sr_running := hm_insert flow_id p (sr_running s)\<rparr>"

text \<open>What the environment decides during a deployment.\<close>

record deploy_call =
  oc_now :: nat
  oc_repository :: "(flow_error, unit) result"
  oc_drained :: "flow_error option option"
  oc_init :: "flow_error option"
  oc_restart :: "flow_error option"
  oc_persist :: bool

definition restore_previous ::
  "registry_env \<Rightarrow> deploy_call \<Rightarrow> string \<Rightarrow> running_flow \<Rightarrow> server \<Rightarrow> server option" where
  "restore_previous E oc flow_id previous s =
     (case parse_and_validate (ev_document E) (rf_source previous) of
        None \<Rightarrow> None
      | Some (Inl _) \<Rightarrow> Some (set_running flow_id previous s)
      | Some (Inr fc) \<Rightarrow>
          (case new_supervisor (oc_now oc) fc s of
             (k, s) \<Rightarrow>
               (case start_at E (oc_now oc) (oc_restart oc) k s of
                  None \<Rightarrow> None
                | Some (_, s) \<Rightarrow> Some (set_running flow_id (previous\<lparr>rf_supervisor := k\<rparr>) s))))"

text \<open>Drain what runs under the id, out of the map; back into it when the drain fails.\<close>

definition take_previous ::
  "registry_env \<Rightarrow> deploy_call \<Rightarrow> string \<Rightarrow> server \<Rightarrow> (registry_error, running_flow option) result \<times> server" where
  "take_previous E oc flow_id s =
     (case hm_get (sr_running s) flow_id of
        None \<Rightarrow> (Inr None, s)
      | Some p \<Rightarrow>
          (case stop_at E (oc_now oc) (oc_drained oc) (rf_supervisor p) (s\<lparr>sr_running := hm_remove flow_id (sr_running s)\<rparr>) of
             (Inl e, s) \<Rightarrow> (Inl (Internal e), set_running flow_id p s)
           | (Inr _, s) \<Rightarrow> (Inr (Some p), s)))"

definition start_new ::
  "registry_env \<Rightarrow> deploy_call \<Rightarrow> string \<Rightarrow> running_flow \<Rightarrow> running_flow option \<Rightarrow> server
    \<Rightarrow> ((registry_error, unit) result \<times> server) option" where
  "start_new E oc flow_id newer previous s =
     (case start_at E (oc_now oc) (oc_init oc) (rf_supervisor newer) s of
        None \<Rightarrow> None
      | Some (Inr _, s) \<Rightarrow> Some (Inr (), set_running flow_id newer s)
      | Some (Inl e, s) \<Rightarrow>
          (case previous of
             None \<Rightarrow> Some (Inl (Internal e), s)
           | Some p \<Rightarrow>
               (case restore_previous E oc flow_id p s of
                  None \<Rightarrow> None
                | Some s \<Rightarrow> Some (Inl (Internal e), s))))"

definition deploy_entry :: "nat \<Rightarrow> string \<Rightarrow> nat \<Rightarrow> server \<Rightarrow> (registry_error, unit) result \<times> server" where
  "deploy_entry now flow_id version s =
     (case hm_get (sr_records s) flow_id of
        None \<Rightarrow> (Inl (Internal (ServerError ''registro del flujo desaparecido'')), s)
      | Some r \<Rightarrow> (Inr (), s\<lparr>sr_records := hm_insert flow_id (mark_deployed now version r) (sr_records s)\<rparr>))"

text \<open>Steps 1 to 4 of \<open>activate\<close>; they change nothing.\<close>

definition activate_checks ::
  "registry_env \<Rightarrow> deploy_call \<Rightarrow> string \<Rightarrow> nat \<Rightarrow> bool \<Rightarrow> bool \<Rightarrow> server
    \<Rightarrow> (registry_error, string \<times> flow_config) result option" where
  "activate_checks E oc flow_id version start allow_archived s =
     (case hm_get (sr_records s) flow_id of
        None \<Rightarrow> Some (Inl (NotFound ''flujo''))
      | Some r \<Rightarrow>
          (case record_version r version of
             None \<Rightarrow> Some (Inl (NotFound ''version''))
           | Some v \<Rightarrow>
               if fv_state v = Draft then Some (Inl (InvalidState ''la version debe validarse antes de desplegar''))
               else if fv_state v = Archived \<and> \<not> allow_archived
               then Some (Inl (InvalidState ''no se puede desplegar una version archivada''))
               else (case parse_and_validate (ev_document E) (fv_source v) of
                 None \<Rightarrow> None
               | Some (Inl e) \<Rightarrow> Some (Inl (Validation e))
               | Some (Inr fc) \<Rightarrow>
                   if start \<and> hm_get (sr_running s) flow_id = None \<and> sr_max_concurrent s \<le> length (sr_running s)
                   then Some (Inl (LimitExceeded (sr_max_concurrent s)))
                   else if rc_enabled (ec_repository (fc_engine fc))
                   then Some (map_sum Internal (\<lambda>_. (fv_source v, fc)) (oc_repository oc))
                   else Some (Inr (fv_source v, fc)))))"

definition activate ::
  "registry_env \<Rightarrow> deploy_call \<Rightarrow> string \<Rightarrow> nat \<Rightarrow> bool \<Rightarrow> bool \<Rightarrow> server
    \<Rightarrow> ((registry_error, nat) result \<times> server) option" where
  "activate E oc flow_id version start allow_archived s =
     (case activate_checks E oc flow_id version start allow_archived s of
        None \<Rightarrow> None
      | Some (Inl e) \<Rightarrow> Some (Inl e, s)
      | Some (Inr (source, fc)) \<Rightarrow>
          (case new_supervisor (oc_now oc) fc s of
             (k, s) \<Rightarrow>
               (let newer = \<lparr> rf_version = version, rf_source = source, rf_supervisor = k,
                             rf_repository = rc_enabled (ec_repository (fc_engine fc)) \<rparr>
                in case take_previous E oc flow_id s of
                     (Inl e, s) \<Rightarrow> Some (Inl e, s)
                   | (Inr previous, s) \<Rightarrow>
                       (case (if start then start_new E oc flow_id newer previous s else Some (Inr (), s)) of
                          None \<Rightarrow> None
                        | Some (Inl e, s) \<Rightarrow> Some (Inl e, s)
                        | Some (Inr _, s) \<Rightarrow>
                            (case deploy_entry (oc_now oc) flow_id version s of
                               (Inl e, s) \<Rightarrow> Some (Inl e, s)
                             | (Inr _, s) \<Rightarrow> Some (Inr k, snd (persist E (oc_persist oc) s)))))))"

definition deploy_version ::
  "registry_env \<Rightarrow> deploy_call \<Rightarrow> string \<Rightarrow> nat \<Rightarrow> bool \<Rightarrow> server \<Rightarrow> ((registry_error, nat) result \<times> server) option" where
  "deploy_version E oc flow_id version start s = activate E oc flow_id version start False s"

definition rollback_candidate :: "flow_record \<Rightarrow> flow_version \<Rightarrow> bool" where
  "rollback_candidate r v \<longleftrightarrow>
     fv_deployed_at v \<noteq> None \<and> fr_active_version r \<noteq> Some (fv_version v) \<and> fv_state v \<in> {Archived, Deployed}"

definition rollback_target :: "flow_record \<Rightarrow> nat option" where
  "rollback_target r =
     (case map fv_version (filter (rollback_candidate r) (fr_versions r)) of
        [] \<Rightarrow> None
      | v # vs \<Rightarrow> Some (foldr max vs v))"

definition rollback ::
  "registry_env \<Rightarrow> deploy_call \<Rightarrow> string \<Rightarrow> bool \<Rightarrow> server \<Rightarrow> ((registry_error, nat) result \<times> server) option" where
  "rollback E oc flow_id start s =
     (case hm_get (sr_records s) flow_id of
        None \<Rightarrow> Some (Inl (NotFound ''flujo''), s)
      | Some r \<Rightarrow>
          (case rollback_target r of
             None \<Rightarrow> Some (Inl (InvalidState ''no hay una version previa desplegada''), s)
           | Some target \<Rightarrow> activate E oc flow_id target start True s))"

section \<open>What runs\<close>

text \<open>\<open>stop_and_unload\<close>: the entry leaves the map; it comes back when the drain fails.\<close>

definition unload_take :: "string \<Rightarrow> server \<Rightarrow> (registry_error, running_flow) result \<times> server" where
  "unload_take flow_id s =
     (case hm_get (sr_running s) flow_id of
        None \<Rightarrow> (Inl (NotFound ''flujo''), s)
      | Some p \<Rightarrow> (Inr p, s\<lparr>sr_running := hm_remove flow_id (sr_running s)\<rparr>))"

definition unload_finish ::
  "registry_env \<Rightarrow> nat \<Rightarrow> flow_error option option \<Rightarrow> string \<Rightarrow> running_flow \<Rightarrow> server \<Rightarrow> (registry_error, unit) result \<times> server" where
  "unload_finish E now drained flow_id p s =
     (case stop_at E now drained (rf_supervisor p) s of
        (Inl e, s) \<Rightarrow> (Inl (Internal e), set_running flow_id p s)
      | (Inr _, s) \<Rightarrow> (Inr (), s))"

definition stop_and_unload ::
  "registry_env \<Rightarrow> nat \<Rightarrow> flow_error option option \<Rightarrow> string \<Rightarrow> server \<Rightarrow> (registry_error, unit) result \<times> server" where
  "stop_and_unload E now drained flow_id s =
     (case unload_take flow_id s of
        (Inl e, s) \<Rightarrow> (Inl e, s)
      | (Inr p, s) \<Rightarrow> unload_finish E now drained flow_id p s)"

text \<open>\<open>seed_running\<close> for a supervisor that the command line started: the one at position \<open>k\<close>.\<close>

definition seed_running ::
  "registry_env \<Rightarrow> nat \<Rightarrow> bool \<Rightarrow> string \<Rightarrow> nat \<Rightarrow> bool \<Rightarrow> server \<Rightarrow> (registry_error, unit) result \<times> server" where
  "seed_running E now ok source k repository s =
     (let flow_id = fc_id (su_config (sr_supervisors s ! k));
          r = (case hm_get (sr_records s) flow_id of None \<Rightarrow> new_record flow_id now | Some r \<Rightarrow> r);
          version = next_version r;
          s = s\<lparr>sr_records := hm_insert flow_id (mark_served now source (ev_checksum E source) r) (sr_records s)\<rparr>
      in persist E ok (set_running flow_id
           \<lparr> rf_version = version, rf_source = source, rf_supervisor = k, rf_repository = repository \<rparr> s))"

definition supervisor_of :: "string \<Rightarrow> server \<Rightarrow> nat option" where
  "supervisor_of flow_id s = map_option rf_supervisor (hm_get (sr_running s) flow_id)"

definition has_repository :: "string \<Rightarrow> server \<Rightarrow> bool" where
  "has_repository flow_id s =
     (case hm_get (sr_running s) flow_id of None \<Rightarrow> False | Some p \<Rightarrow> rf_repository p)"

definition sole_running_id :: "server \<Rightarrow> string option" where
  "sole_running_id s = (case sr_running s of [(flow_id, p)] \<Rightarrow> Some flow_id | _ \<Rightarrow> None)"

text \<open>A process that starts: \<open>serve\<close> makes the registry and loads it, and goes on when that fails.\<close>

definition serve_registry :: "registry_env \<Rightarrow> bool \<Rightarrow> bool \<Rightarrow> nat \<Rightarrow> string option \<Rightarrow> server" where
  "serve_registry E readable dir max_concurrent data_file = snd (load E readable (registry_new dir max_concurrent data_file))"

text \<open>\<open>stop_all\<close>: every supervisor in turn, whatever each answers; \<open>drained\<close> is asked for each position.\<close>

definition stop_all :: "registry_env \<Rightarrow> nat \<Rightarrow> (nat \<Rightarrow> flow_error option option) \<Rightarrow> server \<Rightarrow> server" where
  "stop_all E now drained s =
     fold (\<lambda>(_, p) s. snd (stop_at E now (drained (rf_supervisor p)) (rf_supervisor p) s)) (sr_running s) s"

text \<open>Prometheus text of several flows: a line of metadata appears once.\<close>

definition is_meta :: "string \<Rightarrow> bool" where
  "is_meta line \<longleftrightarrow> starts_with ''# HELP '' line \<or> starts_with ''# TYPE '' line"

fun merge_lines :: "string set \<Rightarrow> string list \<Rightarrow> string list" where
  "merge_lines seen [] = []"
| "merge_lines seen (line # lines) =
     (if is_meta line
      then (if line \<in> seen then merge_lines seen lines else line # merge_lines (insert line seen) lines)
      else line # merge_lines seen lines)"

text \<open>\<open>str::lines\<close>: a final newline ends the last line, and a carriage return before a newline is dropped.\<close>

fun str_lines_from :: "string \<Rightarrow> string \<Rightarrow> string list" where
  "str_lines_from acc [] = (if acc = [] then [] else [rev acc])"
| "str_lines_from acc (ch # s) =
     (if ch = CHR 0x0A
      then (case acc of c # cs \<Rightarrow> (if c = CHR 0x0D then rev cs else rev acc) | [] \<Rightarrow> []) # str_lines_from [] s
      else str_lines_from (ch # acc) s)"

definition str_lines :: "string \<Rightarrow> string list" where
  "str_lines s = str_lines_from [] s"

definition merge_prometheus :: "string list \<Rightarrow> string" where
  "merge_prometheus bodies =
     concat (map (\<lambda>line. line @ [CHR 0x0A]) (merge_lines {} (concat (map str_lines bodies))))"

end
