(* ===== verification/Server_History.thy ===== *)
theory Server_History
  imports Server_Registry
begin

text \<open>
  What the registry keeps whatever is called: the history of each flow only grows, at most one
  version is deployed, and what runs is in the map of running flows.
\<close>

section \<open>Histories\<close>

definition history_ok :: "flow_record \<Rightarrow> bool" where
  "history_ok r \<longleftrightarrow>
     distinct (map fv_version (fr_versions r)) \<and>
     (\<forall>v\<in>set (fr_versions r).
        (fv_state v = Deployed \<longrightarrow> fr_active_version r = Some (fv_version v)) \<and>
        (fv_state v \<in> {Validated, Deployed} \<or> fv_deployed_at v \<noteq> None \<longrightarrow> fv_validated_at v \<noteq> None)) \<and>
     (\<forall>a. fr_active_version r = Some a \<longrightarrow> a \<in> fv_version ` set (fr_versions r))"

lemma history_okI:
  assumes "distinct (map fv_version (fr_versions r))"
    and "\<And>v. v \<in> set (fr_versions r) \<Longrightarrow> (fv_state v = Deployed \<longrightarrow> fr_active_version r = Some (fv_version v)) \<and>
      (fv_state v \<in> {Validated, Deployed} \<or> fv_deployed_at v \<noteq> None \<longrightarrow> fv_validated_at v \<noteq> None)"
    and "\<And>a. fr_active_version r = Some a \<Longrightarrow> a \<in> fv_version ` set (fr_versions r)"
  shows "history_ok r"
  using assms unfolding history_ok_def by blast

lemma history_okD:
  assumes "history_ok r"
  shows "distinct (map fv_version (fr_versions r))"
    and "v \<in> set (fr_versions r) \<Longrightarrow> (fv_state v = Deployed \<longrightarrow> fr_active_version r = Some (fv_version v)) \<and>
      (fv_state v \<in> {Validated, Deployed} \<or> fv_deployed_at v \<noteq> None \<longrightarrow> fv_validated_at v \<noteq> None)"
    and "fr_active_version r = Some a \<Longrightarrow> a \<in> fv_version ` set (fr_versions r)"
  using assms unfolding history_ok_def by blast+

text \<open>What a version is made of for good.\<close>

definition imprint :: "flow_version \<Rightarrow> nat \<times> string \<times> string \<times> nat \<times> string option" where
  "imprint v = (fv_version v, fv_source v, fv_checksum v, fv_created_at v, fv_note v)"

definition grows :: "flow_record \<Rightarrow> flow_record \<Rightarrow> bool" where
  "grows r r' \<longleftrightarrow> (\<exists>new. map imprint (fr_versions r') = map imprint (fr_versions r) @ new)"

lemma grows_refl [simp]: "grows r r"
  by (simp add: grows_def)

lemma grows_trans: "grows r r' \<Longrightarrow> grows r' r'' \<Longrightarrow> grows r r''"
  by (auto simp: grows_def)

lemma update_first_map:
  "distinct (map g xs) \<Longrightarrow> update_first (\<lambda>x. g x = a) f xs = map (\<lambda>x. if g x = a then f x else x) xs"
proof (induction xs)
  case Nil
  then show ?case by simp
next
  case (Cons x xs)
  show ?case
  proof (cases "g x = a")
    case True
    have "g y \<noteq> a" if "y \<in> set xs" for y
    proof -
      have "g y \<in> g ` set xs" using that by simp
      with Cons.prems True show ?thesis by auto
    qed
    then have "map (\<lambda>y. if g y = a then f y else y) xs = xs" by (intro map_idI) simp
    with True show ?thesis by simp
  next
    case False
    with Cons show ?thesis by simp
  qed
qed

lemma map_update_first: "(\<And>x. g (f x) = g x) \<Longrightarrow> map g (update_first P f xs) = map g xs"
  by (induction xs) auto

text \<open>The fields that no change of a version touches.\<close>

lemma imprints:
  "imprint (v\<lparr>fv_state := st, fv_validated_at := t\<rparr>) = imprint v"
  "imprint (v\<lparr>fv_state := st, fv_deployed_at := t\<rparr>) = imprint v"
  "imprint (archived_version now v) = imprint v"
  by (simp_all add: imprint_def archived_version_def)

lemma archived_version_fields [simp]:
  "fv_version (archived_version now v) = fv_version v" "fv_state (archived_version now v) = Archived"
  "fv_validated_at (archived_version now v) = fv_validated_at v" "fv_deployed_at (archived_version now v) = fv_deployed_at v"
  by (simp_all add: archived_version_def)

lemma with_version_grows: "(\<And>v. imprint (f v) = imprint v) \<Longrightarrow> grows r (with_version n f r)"
  by (simp add: grows_def with_version_def map_update_first)

lemma grows_cong: "fr_versions r' = fr_versions r'' \<Longrightarrow> grows r r' = grows r r''"
  by (simp add: grows_def)

lemma foldr_max_ge: "(x :: nat) \<in> set xs \<Longrightarrow> x \<le> foldr max xs y"
  by (induction xs) (auto simp: le_max_iff_disj)

lemma next_version_new: "v \<in> set (fr_versions r) \<Longrightarrow> fv_version v < next_version r"
  using foldr_max_ge [of "fv_version v" "map fv_version (fr_versions r)" 0] by (simp add: next_version_def)

lemma history_ok_new [simp]: "history_ok (new_record flow_id now)"
  by (simp add: history_ok_def new_record_def)

lemma push_ok:
  assumes "history_ok r" "fv_version v = next_version r" "fv_state v = Draft" "fv_deployed_at v = None"
  shows "history_ok (push_version now v r)" "grows r (push_version now v r)"
  using assms next_version_new [of _ r] by (auto simp: history_ok_def push_version_def grows_def) (metis less_irrefl)?

lemma versions_with_version:
  assumes f: "\<And>v. fv_version (f v) = fv_version v"
  shows "map fv_version (fr_versions (with_version n f r)) = map fv_version (fr_versions r)"
    "fr_active_version (with_version n f r) = fr_active_version r" "fr_id (with_version n f r) = fr_id r"
  using map_update_first [of fv_version f] f by (simp_all add: with_version_def)

lemma numbers_with_version:
  assumes "\<And>v. fv_version (f v) = fv_version v"
  shows "distinct (map fv_version (fr_versions (with_version n f r))) = distinct (map fv_version (fr_versions r))"
    "fv_version ` set (fr_versions (with_version n f r)) = fv_version ` set (fr_versions r)"
  using versions_with_version(1) [of f n r, OF assms] by (metis, metis list.set_map)

lemma set_with_version:
  "history_ok r \<Longrightarrow> set (fr_versions (with_version n f r)) = (\<lambda>v. if fv_version v = n then f v else v) ` set (fr_versions r)"
  by (simp add: history_ok_def with_version_def update_first_map)

lemma mark_validated_ok:
  assumes "history_ok r"
  shows "history_ok (mark_validated now n r)" "grows r (mark_validated now n r)" "fr_id (mark_validated now n r) = fr_id r"
proof -
  let ?f = "\<lambda>v. v\<lparr>fv_state := Validated, fv_validated_at := Some now\<rparr>"
  define w where "w = with_version n ?f r"
  have f: "fv_version (?f v) = fv_version v" for v by simp
  note same = versions_with_version(2,3) [of ?f n r, OF f, folded w_def]
    numbers_with_version [of ?f n r, OF f, folded w_def]
  have r: "mark_validated now n r = w\<lparr>fr_updated_at := now\<rparr>" by (simp add: mark_validated_def w_def)
  have ws: "set (fr_versions w) = (\<lambda>v. if fv_version v = n then ?f v else v) ` set (fr_versions r)"
    by (simp add: w_def set_with_version [OF assms])
  show "fr_id (mark_validated now n r) = fr_id r" by (simp add: r same)
  show "history_ok (mark_validated now n r)"
  proof (rule history_okI)
    show "distinct (map fv_version (fr_versions (mark_validated now n r)))"
      using history_okD(1) [OF assms] by (simp add: r same)
    show "a \<in> fv_version ` set (fr_versions (mark_validated now n r))"
      if "fr_active_version (mark_validated now n r) = Some a" for a
      using history_okD(3) [OF assms] that by (simp add: r same)
    show "(fv_state v = Deployed \<longrightarrow> fr_active_version (mark_validated now n r) = Some (fv_version v)) \<and>
        (fv_state v \<in> {Validated, Deployed} \<or> fv_deployed_at v \<noteq> None \<longrightarrow> fv_validated_at v \<noteq> None)"
      if "v \<in> set (fr_versions (mark_validated now n r))" for v
      using history_okD(2) [OF assms] that by (auto simp: r same ws split: if_splits)
  qed
  have "grows r w" unfolding w_def by (rule with_version_grows) (rule imprints)
  then show "grows r (mark_validated now n r)" by (simp add: r grows_def)
qed

lemma archived_with_version:
  assumes "history_ok r"
  defines "w \<equiv> \<lambda>now n. with_version n (archived_version now) r"
  shows "fr_active_version (w now n) = fr_active_version r" "fr_id (w now n) = fr_id r"
    "distinct (map fv_version (fr_versions (w now n)))"
    "fv_version ` set (fr_versions (w now n)) = fv_version ` set (fr_versions r)" "grows r (w now n)"
    and "v \<in> set (fr_versions (w now n)) \<Longrightarrow>
      (fv_state v = Deployed \<longrightarrow> fr_active_version r = Some (fv_version v) \<and> fv_version v \<noteq> n) \<and>
      (fv_state v \<in> {Validated, Deployed} \<or> fv_deployed_at v \<noteq> None \<longrightarrow> fv_validated_at v \<noteq> None)"
proof -
  show "fr_active_version (w now n) = fr_active_version r" "fr_id (w now n) = fr_id r"
    by (simp_all add: w_def versions_with_version)
  show "distinct (map fv_version (fr_versions (w now n)))"
    "fv_version ` set (fr_versions (w now n)) = fv_version ` set (fr_versions r)"
    using history_okD(1) [OF assms(1)] by (simp_all add: w_def numbers_with_version del: set_map)
  show "grows r (w now n)" unfolding w_def by (rule with_version_grows) (rule imprints)
  show "v \<in> set (fr_versions (w now n)) \<Longrightarrow>
      (fv_state v = Deployed \<longrightarrow> fr_active_version r = Some (fv_version v) \<and> fv_version v \<noteq> n) \<and>
      (fv_state v \<in> {Validated, Deployed} \<or> fv_deployed_at v \<noteq> None \<longrightarrow> fv_validated_at v \<noteq> None)"
    using history_okD(2) [OF assms(1)] by (auto simp: w_def set_with_version [OF assms(1)] split: if_splits)
qed

lemma mark_archived_ok:
  assumes "history_ok r"
  shows "history_ok (mark_archived now n r)" "grows r (mark_archived now n r)" "fr_id (mark_archived now n r) = fr_id r"
proof -
  note w = archived_with_version [OF assms, where now = now and n = n]
  define w1 where "w1 = with_version n (archived_version now) r"
  note w = w [folded w1_def]
  have r: "mark_archived now n r = w1\<lparr>fr_active_version := (if fr_active_version r = Some n then None else fr_active_version r),
      fr_updated_at := now\<rparr>"
    by (simp add: mark_archived_def w1_def Let_def w(1) [unfolded w1_def])
  show "fr_id (mark_archived now n r) = fr_id r" by (simp add: r w)
  show "history_ok (mark_archived now n r)"
  proof (rule history_okI)
    show "distinct (map fv_version (fr_versions (mark_archived now n r)))" by (simp add: r w)
    show "a \<in> fv_version ` set (fr_versions (mark_archived now n r))"
      if "fr_active_version (mark_archived now n r) = Some a" for a
      using history_okD(3) [OF assms] that by (simp add: r w split: if_splits)
    show "(fv_state v = Deployed \<longrightarrow> fr_active_version (mark_archived now n r) = Some (fv_version v)) \<and>
        (fv_state v \<in> {Validated, Deployed} \<or> fv_deployed_at v \<noteq> None \<longrightarrow> fv_validated_at v \<noteq> None)"
      if "v \<in> set (fr_versions (mark_archived now n r))" for v
      using w(6) [of v] that by (auto simp: r)
  qed
  show "grows r (mark_archived now n r)" using w(5) by (simp add: r grows_def)
qed

text \<open>The archival of the active version that comes with a new one.\<close>

definition archive_active :: "nat \<Rightarrow> nat \<Rightarrow> flow_record \<Rightarrow> flow_record" where
  "archive_active now n r =
     (case fr_active_version r of
        None \<Rightarrow> r
      | Some a \<Rightarrow> if a \<noteq> n then with_version a (archived_version now) r else r)"

lemma archive_active_ok:
  assumes "history_ok r"
  shows "distinct (map fv_version (fr_versions (archive_active now n r)))" "grows r (archive_active now n r)"
    "fr_id (archive_active now n r) = fr_id r"
    and "v \<in> set (fr_versions (archive_active now n r)) \<Longrightarrow> (fv_state v = Deployed \<longrightarrow> fv_version v = n) \<and>
      (fv_state v \<in> {Validated, Deployed} \<or> fv_deployed_at v \<noteq> None \<longrightarrow> fv_validated_at v \<noteq> None)"
    and "fv_version ` set (fr_versions (archive_active now n r)) = fv_version ` set (fr_versions r)"
    and "history_ok (archive_active now n r)"
proof -
  let ?r = "archive_active now n r"
  consider (same) "?r = r" "\<And>v. v \<in> set (fr_versions r) \<Longrightarrow> fv_state v = Deployed \<Longrightarrow> fv_version v = n"
    | (other) a where "fr_active_version r = Some a" "a \<noteq> n" "?r = with_version a (archived_version now) r"
    using history_okD(2) [OF assms] by (fastforce simp: archive_active_def split: option.splits if_splits)
  then have "distinct (map fv_version (fr_versions ?r)) \<and> grows r ?r \<and> fr_id ?r = fr_id r \<and>
    (\<forall>v\<in>set (fr_versions ?r). (fv_state v = Deployed \<longrightarrow> fv_version v = n) \<and>
      (fv_state v \<in> {Validated, Deployed} \<or> fv_deployed_at v \<noteq> None \<longrightarrow> fv_validated_at v \<noteq> None)) \<and>
    fv_version ` set (fr_versions ?r) = fv_version ` set (fr_versions r) \<and> history_ok ?r"
  proof cases
    case same
    show ?thesis unfolding same(1) using history_okD [OF assms] same(2) assms by simp
  next
    case (other a)
    note w = archived_with_version [OF assms, where now = now and n = a]
    have "history_ok ?r" unfolding other(3)
      by (rule history_okI) (use w history_okD(3) [OF assms] in auto)
    moreover have "(fv_state v = Deployed \<longrightarrow> fv_version v = n) \<and>
      (fv_state v \<in> {Validated, Deployed} \<or> fv_deployed_at v \<noteq> None \<longrightarrow> fv_validated_at v \<noteq> None)"
      if "v \<in> set (fr_versions ?r)" for v
      using w(6) [of v] that other by auto
    ultimately show ?thesis using w(2-5) unfolding other(3) by blast
  qed
  then show "distinct (map fv_version (fr_versions ?r))" "grows r ?r" "fr_id ?r = fr_id r"
    "v \<in> set (fr_versions ?r) \<Longrightarrow> (fv_state v = Deployed \<longrightarrow> fv_version v = n) \<and>
      (fv_state v \<in> {Validated, Deployed} \<or> fv_deployed_at v \<noteq> None \<longrightarrow> fv_validated_at v \<noteq> None)"
    "fv_version ` set (fr_versions ?r) = fv_version ` set (fr_versions r)" "history_ok ?r" by blast+
qed

lemma mark_deployed_ok:
  assumes "history_ok r" "v \<in> set (fr_versions r)" "fv_version v = n" "fv_validated_at v \<noteq> None"
  shows "history_ok (mark_deployed now n r)" "grows r (mark_deployed now n r)" "fr_id (mark_deployed now n r) = fr_id r"
proof -
  let ?f = "\<lambda>v. v\<lparr>fv_state := Deployed, fv_deployed_at := Some now\<rparr>"
  define r1 where "r1 = archive_active now n r"
  note a = archive_active_ok [OF assms(1), where now = now and n = n, folded r1_def]
  define w where "w = with_version n ?f r1"
  have f: "fv_version (?f v) = fv_version v" for v by simp
  note same = versions_with_version(2,3) [of ?f n r1, OF f, folded w_def]
    numbers_with_version [of ?f n r1, OF f, folded w_def]
  have r: "mark_deployed now n r = w\<lparr>fr_active_version := Some n, fr_updated_at := now\<rparr>"
    by (simp add: mark_deployed_def w_def r1_def archive_active_def Let_def)
  have validated: "fv_validated_at u \<noteq> None" if "u \<in> set (fr_versions r1)" "fv_version u = n" for u
  proof -
    have "\<forall>u\<in>set (fr_versions r). fv_version u = n \<longrightarrow> fv_validated_at u \<noteq> None"
      using history_okD(1) [OF assms(1)] assms(2-4) by (auto simp: distinct_map inj_on_def)
    with that show ?thesis
      by (auto simp: r1_def archive_active_def set_with_version [OF assms(1)] split: option.splits if_splits)
  qed
  show "fr_id (mark_deployed now n r) = fr_id r" by (simp add: r same a)
  show "history_ok (mark_deployed now n r)"
  proof (rule history_okI)
    show "distinct (map fv_version (fr_versions (mark_deployed now n r)))" using a(1) by (simp add: r same)
    have "fv_version ` set (fr_versions (mark_deployed now n r)) = fv_version ` set (fr_versions r)"
      by (simp add: r same a(5))
    moreover have "n \<in> fv_version ` set (fr_versions r)" using assms(2,3) by blast
    ultimately have n: "n \<in> fv_version ` set (fr_versions (mark_deployed now n r))" by blast
    show "x \<in> fv_version ` set (fr_versions (mark_deployed now n r))"
      if "fr_active_version (mark_deployed now n r) = Some x" for x
    proof -
      have "x = n" using that by (simp add: r)
      with n show ?thesis by blast
    qed
    show "(fv_state u = Deployed \<longrightarrow> fr_active_version (mark_deployed now n r) = Some (fv_version u)) \<and>
        (fv_state u \<in> {Validated, Deployed} \<or> fv_deployed_at u \<noteq> None \<longrightarrow> fv_validated_at u \<noteq> None)"
      if "u \<in> set (fr_versions (mark_deployed now n r))" for u
    proof -
      from that obtain u1 where "u1 \<in> set (fr_versions r1)" "u = (if fv_version u1 = n then ?f u1 else u1)"
        by (auto simp: r w_def set_with_version [OF a(6)])
      then show ?thesis using a(4) [of u1] validated [of u1] by (auto simp: r)
    qed
  qed
  have "grows r1 w" unfolding w_def by (rule with_version_grows) (rule imprints)
  with a(2) have "grows r w" by (rule grows_trans)
  then show "grows r (mark_deployed now n r)" by (simp add: r grows_def)
qed

lemma update_first_append: "\<exists>x\<in>set xs. P x \<Longrightarrow> update_first P f (xs @ ys) = update_first P f xs @ ys"
  by (induction xs) auto

lemma mark_served_ok:
  assumes "history_ok r"
  shows "history_ok (mark_served now source digest r)" "grows r (mark_served now source digest r)"
    "fr_id (mark_served now source digest r) = fr_id r"
proof -
  define n where "n = next_version r"
  define v where "v = served_version n now source digest"
  define r1 where "r1 = archive_active now n r"
  note a = archive_active_ok [OF assms, where now = now and n = n, folded r1_def]
  have less: "u < n" if "u \<in> fv_version ` set (fr_versions r)" for u
    using that next_version_new by (auto simp: n_def)
  have versions: "fr_versions (mark_served now source digest r) = fr_versions r1 @ [v]"
    and fields: "fr_active_version (mark_served now source digest r) = Some n" "fr_id (mark_served now source digest r) = fr_id r"
  proof -
    have "\<exists>u\<in>set (fr_versions r). fv_version u = p" "p \<noteq> n" if "fr_active_version r = Some p" for p
      using history_okD(3) [OF assms that] less [of p] by auto
    then show "fr_versions (mark_served now source digest r) = fr_versions r1 @ [v]"
      by (auto simp: mark_served_def Let_def push_version_def with_version_def r1_def archive_active_def v_def n_def
          update_first_append split: option.splits)
    show "fr_active_version (mark_served now source digest r) = Some n" "fr_id (mark_served now source digest r) = fr_id r"
      by (simp_all add: mark_served_def Let_def n_def push_version_def with_version_def split: option.splits)
  qed
  have v: "fv_version v = n" "fv_validated_at v \<noteq> None" by (simp_all add: v_def served_version_def)
  show "fr_id (mark_served now source digest r) = fr_id r" by (rule fields)
  show "history_ok (mark_served now source digest r)"
  proof (rule history_okI)
    show "distinct (map fv_version (fr_versions (mark_served now source digest r)))"
      using a(1,5) less v(1) by (auto simp: versions)
    show "x \<in> fv_version ` set (fr_versions (mark_served now source digest r))"
      if "fr_active_version (mark_served now source digest r) = Some x" for x
      using that v(1) by (simp add: versions fields)
    show "(fv_state u = Deployed \<longrightarrow> fr_active_version (mark_served now source digest r) = Some (fv_version u)) \<and>
        (fv_state u \<in> {Validated, Deployed} \<or> fv_deployed_at u \<noteq> None \<longrightarrow> fv_validated_at u \<noteq> None)"
      if "u \<in> set (fr_versions (mark_served now source digest r))" for u
      using that a(4) [of u] v by (auto simp: versions fields)
  qed
  show "grows r (mark_served now source digest r)" using a(2) by (auto simp: grows_def versions)
qed

section \<open>Supervisors\<close>

text \<open>A supervisor between calls: no stop and no failed start waits, and a live task is the one in its slot.\<close>

definition sv_quiet :: "supervisor \<Rightarrow> bool" where
  "sv_quiet sv \<longleftrightarrow> sv_inv sv \<and> sv_stopping sv = [] \<and> sv_joining sv = []"

lemma sv_quiet_new [simp]: "sv_quiet (supervisor_new now)" "live (supervisor_new now) = {}"
  by (simp_all add: sv_quiet_def sv_inv_def sv_owned_def supervisor_new_def live_def)

lemma sv_quietD:
  assumes "sv_quiet sv"
  shows "live sv \<subseteq> set_option (sv_task sv)" "sv_task sv = Some i \<Longrightarrow> i < length (sv_tasks sv)" "sv_stopping sv = []"
    "sv_joining sv = []"
  using assms by (auto simp: sv_quiet_def sv_inv_def sv_owned_def)

lemma sv_quietI:
  "live sv \<subseteq> set_option (sv_task sv) \<Longrightarrow> set_option (sv_task sv) \<subseteq> {..<length (sv_tasks sv)} \<Longrightarrow> sv_stopping sv = [] \<Longrightarrow>
    sv_joining sv = [] \<Longrightarrow> sv_quiet sv"
  by (auto simp: sv_quiet_def sv_inv_def sv_owned_def)

lemma live_single:
  "live sv \<subseteq> {i} \<Longrightarrow> is_finished (sv_tasks sv ! i) \<Longrightarrow> live sv = {}"
  by (auto simp: live_def)

lemma stop_quiet:
  assumes quiet: "sv_quiet sv" and run: "sv_stop_gracefully display now force drained sv = (r, sv')"
  shows "sv_quiet sv'" "live sv' \<subseteq> live sv" "r = Inr () \<Longrightarrow> live sv' = {}"
proof -
  note q = sv_quietD [OF quiet]
  have "sv_quiet sv' \<and> live sv' \<subseteq> live sv \<and> (r = Inr () \<longrightarrow> live sv' = {})"
  proof (cases "sv_task sv")
    case None
    then have "live sv = {}" using q(1) by simp
    with None q(3,4) run show ?thesis
      by (auto simp: sv_stop_gracefully_def sv_stop_begin_def sv_stop_take_def sv_drain_def Let_def sv_quiet_def sv_inv_def sv_owned_def live_def split: prod.splits)
  next
    case (Some i)
    define sv1 where "sv1 = (snd (sv_drain now sv))\<lparr>sv_task := None, sv_stopping := [i]\<rparr>"
    have sv1: "sv_tasks sv1 = sv_tasks sv" "sv_task sv1 = None" "sv_stopping sv1 = [i]" "sv_joining sv1 = []"
      using q(4) by (simp_all add: sv1_def sv_drain_def split: prod.split)
    have first: "sv_stop_begin now sv = (Some i, sv1)"
      using Some q(3) by (simp add: sv_stop_begin_def sv_stop_take_def sv1_def sv_drain_def Let_def split: prod.split)
    have i: "i < length (sv_tasks sv)" "live sv \<subseteq> {i}" using q Some by auto
    then have rest: "\<forall>x<length (sv_tasks sv). x \<noteq> i \<longrightarrow> is_finished (sv_tasks sv ! x)" by (auto simp: live_def)
    show ?thesis
    proof (cases "is_finished (sv_tasks sv ! i)")
      case True
      with i(2) have "live sv = {}" by (intro live_single)
      with True sv1 run first show ?thesis
        by (auto simp: sv_stop_gracefully_def sv_stop_joined_def sv_quiet_def sv_inv_def sv_owned_def live_def)
    next
      case alive: False
      show ?thesis
      proof (cases drained)
        case (Some e)
        have "sv_tasks (run_end display now i e sv1) = (sv_tasks sv)[i := Finished e]"
          "sv_task (run_end display now i e sv1) = None" "sv_stopping (run_end display now i e sv1) = [i]"
          "sv_joining (run_end display now i e sv1) = []"
          by (simp_all add: run_end_def sv1 split: option.split)
        with Some alive run first sv1 i(1) rest show ?thesis
          by (auto simp: sv_stop_gracefully_def sv_stop_joined_def sv_quiet_def sv_inv_def sv_owned_def live_def nth_list_update
              split: if_splits)
      next
        case None
        with alive run first sv1 i(1) rest show ?thesis
          by (auto simp: sv_stop_gracefully_def sv_stop_timeout_def sv_quiet_def sv_inv_def sv_owned_def live_def nth_list_update
              split: if_splits)
      qed
    qed
  qed
  then show "sv_quiet sv'" "live sv' \<subseteq> live sv" "r = Inr () \<Longrightarrow> live sv' = {}" by simp_all
qed

lemma start_quiet:
  assumes quiet: "sv_quiet sv" and run: "sv_start_flow display now engine init sv = (r, sv')"
  shows "sv_quiet sv'" "isl r \<Longrightarrow> live sv' = {}"
proof -
  note q = sv_quietD [OF quiet]
  have "sv_quiet sv' \<and> (isl r \<longrightarrow> live sv' = {})"
  proof (cases "\<exists>i. sv_task sv = Some i \<and> \<not> is_finished (sv_tasks sv ! i)")
    case True
    with run quiet show ?thesis by (auto simp: sv_start_flow_def sv_start_def)
  next
    case False
    then have dead: "live sv = {}" using q(1) by (fastforce simp: live_def)
    have guard: "(case sv_task sv of None \<Rightarrow> False | Some i \<Rightarrow> \<not> is_finished (sv_tasks sv ! i)) = False"
      using False by (auto split: option.splits)
    show ?thesis
    proof (cases engine)
      case (Inl e)
      with run dead q(3,4) show ?thesis
        by (auto simp: sv_start_flow_def sv_start_def guard sv_quiet_def sv_inv_def sv_owned_def live_def)
    next
      case (Inr u)
      let ?n = "length (sv_tasks sv)"
      have old: "is_finished (sv_tasks sv ! j)" if "j < ?n" for j using dead that by (auto simp: live_def)
      show ?thesis
      proof (cases init)
        case None
        with Inr run q(3,4) old show ?thesis
          by (auto simp: sv_start_flow_def sv_start_def guard Let_def run_begin_def run_ready_def sv_quiet_def sv_inv_def sv_owned_def
              live_def nth_append less_Suc_eq)
      next
        case (Some e)
        with Inr run q(3,4) old show ?thesis
          by (auto simp: sv_start_flow_def sv_start_def guard Let_def run_begin_def run_end_def sv_start_lost_def sv_start_take_def sv_start_join_def run_dropped_def
              sv_quiet_def sv_inv_def sv_owned_def live_def nth_append less_Suc_eq)
      qed
    qed
  qed
  then show "sv_quiet sv'" "isl r \<Longrightarrow> live sv' = {}" by simp_all
qed

end
