(* ===== verification/Server_Reach.thy ===== *)
theory Server_Reach
  imports Server_History
begin

text \<open>
  The calls on the registry as steps, and what holds in every state they reach: the history of
  each flow, the limit on running flows, and that every live task belongs to a registered flow.
\<close>

section \<open>What runs\<close>

definition registered :: "nat \<Rightarrow> server \<Rightarrow> bool" where
  "registered k s \<longleftrightarrow> (\<exists>flow_id p. hm_get (sr_running s) flow_id = Some p \<and> rf_supervisor p = k)"

abbreviation supervisor_at :: "server \<Rightarrow> nat \<Rightarrow> supervisor" where
  "supervisor_at s k \<equiv> su_supervisor (sr_supervisors s ! k)"

definition running_ids :: "server \<Rightarrow> string set" where
  "running_ids s = fst ` set (sr_running s)"

text \<open>Every supervisor is between calls, and those outside \<open>X\<close> are registered if a task is alive.\<close>

definition runtime_ok :: "nat set \<Rightarrow> server \<Rightarrow> bool" where
  "runtime_ok X s \<longleftrightarrow>
     hm_wf (sr_running s) \<and>
     (\<forall>flow_id p. hm_get (sr_running s) flow_id = Some p \<longrightarrow> rf_supervisor p < length (sr_supervisors s)) \<and>
     (\<forall>a b p q. hm_get (sr_running s) a = Some p \<longrightarrow> hm_get (sr_running s) b = Some q \<longrightarrow>
        rf_supervisor p = rf_supervisor q \<longrightarrow> a = b) \<and>
     (\<forall>k<length (sr_supervisors s). sv_quiet (supervisor_at s k) \<and>
        (k \<notin> X \<longrightarrow> live (supervisor_at s k) \<noteq> {} \<longrightarrow> registered k s))"

lemma runtime_okD:
  assumes "runtime_ok X s"
  shows "hm_wf (sr_running s)" "hm_get (sr_running s) flow_id = Some p \<Longrightarrow> rf_supervisor p < length (sr_supervisors s)"
    "hm_get (sr_running s) a = Some p \<Longrightarrow> hm_get (sr_running s) b = Some q \<Longrightarrow> rf_supervisor p = rf_supervisor q \<Longrightarrow> a = b"
    "k < length (sr_supervisors s) \<Longrightarrow> sv_quiet (supervisor_at s k)"
    "k < length (sr_supervisors s) \<Longrightarrow> k \<notin> X \<Longrightarrow> live (supervisor_at s k) \<noteq> {} \<Longrightarrow> registered k s"
  using assms unfolding runtime_ok_def by blast+

lemma runtime_ok_cong:
  "runtime_ok X s \<Longrightarrow> sr_running s' = sr_running s \<Longrightarrow> sr_supervisors s' = sr_supervisors s \<Longrightarrow> runtime_ok X s'"
  by (simp add: runtime_ok_def registered_def)

text \<open>A supervisor that is exchanged for a quiet one.\<close>

lemma runtime_ok_update:
  assumes "runtime_ok X s" "sv_quiet sv" "sr_running s' = sr_running s"
    "sr_supervisors s' = (sr_supervisors s)[k := su\<lparr>su_supervisor := sv\<rparr>]"
    and "live sv = {} \<or> registered k s \<or> k \<in> Y" "X \<subseteq> insert k Y"
  shows "runtime_ok Y s'"
proof -
  note ok = runtime_okD [OF assms(1)]
  have reg: "registered j s' = registered j s" for j by (simp add: registered_def assms(3))
  have "sv_quiet (supervisor_at s' j) \<and> (j \<notin> Y \<longrightarrow> live (supervisor_at s' j) \<noteq> {} \<longrightarrow> registered j s')"
    if "j < length (sr_supervisors s)" for j
  proof (cases "j = k")
    case True
    then show ?thesis using that assms(2,5) by (auto simp: assms(4) reg)
  next
    case False
    then show ?thesis using ok(4,5) [OF that] assms(6) by (auto simp: assms(4) reg)
  qed
  then show ?thesis
    unfolding runtime_ok_def using ok(1-3) assms(3,4) by auto
qed

lemma runtime_ok_remove:
  assumes "runtime_ok X s" "hm_get (sr_running s) flow_id = Some p"
  shows "runtime_ok (insert (rf_supervisor p) X) (s\<lparr>sr_running := hm_remove flow_id (sr_running s)\<rparr>)"
proof -
  note ok = runtime_okD [OF assms(1)]
  let ?s = "s\<lparr>sr_running := hm_remove flow_id (sr_running s)\<rparr>"
  have reg: "registered k ?s" if "registered k s" "k \<noteq> rf_supervisor p" for k
  proof -
    from that(1) obtain a q where "hm_get (sr_running s) a = Some q" "rf_supervisor q = k"
      unfolding registered_def by blast
    with that(2) assms(2) show ?thesis unfolding registered_def by (intro exI [where x = a] exI [where x = q]) auto
  qed
  have "hm_wf (sr_running ?s)" using ok(1) by simp
  moreover have "rf_supervisor q < length (sr_supervisors ?s)" if "hm_get (sr_running ?s) a = Some q" for a q
    using that ok(2) [of a q] by (simp split: if_splits)
  moreover have "a = b"
    if "hm_get (sr_running ?s) a = Some q" "hm_get (sr_running ?s) b = Some q'" "rf_supervisor q = rf_supervisor q'" for a b q q'
    using that ok(3) [of a q b q'] by (simp split: if_splits)
  moreover have "sv_quiet (supervisor_at ?s k) \<and>
      (k \<notin> insert (rf_supervisor p) X \<longrightarrow> live (supervisor_at ?s k) \<noteq> {} \<longrightarrow> registered k ?s)"
    if "k < length (sr_supervisors ?s)" for k
    using that ok(4,5) [of k] reg [of k] by simp
  ultimately show ?thesis unfolding runtime_ok_def by blast
qed

lemma runtime_ok_set:
  assumes "runtime_ok X s" "rf_supervisor p < length (sr_supervisors s)"
    and "\<And>a q. hm_get (sr_running s) a = Some q \<Longrightarrow> rf_supervisor q = rf_supervisor p \<Longrightarrow> a = flow_id"
    and "\<And>q. hm_get (sr_running s) flow_id = Some q \<Longrightarrow>
      rf_supervisor q = rf_supervisor p \<or> live (supervisor_at s (rf_supervisor q)) = {}"
  shows "runtime_ok (X - {rf_supervisor p}) (set_running flow_id p s)"
proof -
  let ?s = "set_running flow_id p s"
  note ok = runtime_okD [OF assms(1)]
  have new: "registered (rf_supervisor p) ?s" by (auto simp: registered_def set_running_def)
  have reg: "registered k ?s" if k: "registered k s" "live (supervisor_at s k) \<noteq> {}" for k
  proof -
    from k(1) obtain a q where q: "hm_get (sr_running s) a = Some q" "rf_supervisor q = k"
      unfolding registered_def by blast
    show ?thesis
    proof (cases "a = flow_id")
      case True
      with q assms(4) [of q] k(2) new show ?thesis by auto
    next
      case False
      with q show ?thesis unfolding registered_def set_running_def
        by (intro exI [where x = a] exI [where x = q]) simp
    qed
  qed
  have "sv_quiet (supervisor_at ?s k) \<and> (k \<notin> X - {rf_supervisor p} \<longrightarrow> live (supervisor_at ?s k) \<noteq> {} \<longrightarrow> registered k ?s)"
    if "k < length (sr_supervisors ?s)" for k
    using that ok(4,5) [of k] reg [of k] new by (cases "k = rf_supervisor p") (auto simp: set_running_def)
  moreover have "a = b"
    if "hm_get (sr_running ?s) a = Some q" "hm_get (sr_running ?s) b = Some q'" "rf_supervisor q = rf_supervisor q'" for a b q q'
    using that assms(3) [of a q] assms(3) [of b q'] ok(3) [of a q b q'] by (auto simp: set_running_def split: if_splits)
  moreover have "hm_wf (sr_running ?s)" using ok(1) by (simp add: set_running_def)
  moreover have "rf_supervisor q < length (sr_supervisors ?s)" if "hm_get (sr_running ?s) a = Some q" for a q
    using that ok(2) assms(2) by (auto simp: set_running_def split: if_splits)
  ultimately show ?thesis unfolding runtime_ok_def by blast
qed

lemma runtime_ok_new:
  assumes "runtime_ok X s" "new_supervisor now fc s = (k, s')"
  shows "runtime_ok X s'" "k = length (sr_supervisors s)" "sr_running s' = sr_running s" "sr_records s' = sr_records s"
    "length (sr_supervisors s') = Suc k" "live (supervisor_at s' k) = {}" "sr_file s' = sr_file s" "sr_max_concurrent s' = sr_max_concurrent s"
    "\<And>j. j < k \<Longrightarrow> sr_supervisors s' ! j = sr_supervisors s ! j" "sr_dir s' = sr_dir s"
proof -
  have s': "s' = s\<lparr>sr_supervisors := sr_supervisors s @ [\<lparr> su_config = fc, su_supervisor = supervisor_new now \<rparr>]\<rparr>"
    and k: "k = length (sr_supervisors s)"
    using assms(2) by (simp_all add: new_supervisor_def)
  show "k = length (sr_supervisors s)" by (rule k)
  show "runtime_ok X s'"
    using runtime_okD [OF assms(1)] unfolding runtime_ok_def
    by (auto simp: s' registered_def nth_append less_Suc_eq intro: less_SucI)
  show "sr_running s' = sr_running s" "sr_records s' = sr_records s" "length (sr_supervisors s') = Suc k"
    "live (supervisor_at s' k) = {}" "sr_file s' = sr_file s" "sr_max_concurrent s' = sr_max_concurrent s" "sr_dir s' = sr_dir s"
    "\<And>j. j < k \<Longrightarrow> sr_supervisors s' ! j = sr_supervisors s ! j"
    by (simp_all add: s' k nth_append)
qed

lemma stop_at_ok:
  assumes "runtime_ok X s" "k < length (sr_supervisors s)" "stop_at E now drained k s = (r, s')"
  shows "runtime_ok X s'" "r = Inr () \<Longrightarrow> live (supervisor_at s' k) = {}" "r = Inr () \<Longrightarrow> runtime_ok (X - {k}) s'"
    and "s' = s\<lparr>sr_supervisors := sr_supervisors s'\<rparr>" "length (sr_supervisors s') = length (sr_supervisors s)"
    and "map su_config (sr_supervisors s') = map su_config (sr_supervisors s)"
    and "\<And>j. j \<noteq> k \<Longrightarrow> sr_supervisors s' ! j = sr_supervisors s ! j"
proof -
  let ?su = "sr_supervisors s ! k"
  obtain sv where sv: "sv_stop_gracefully (ev_display E) now (sc_force_after_timeout (ec_shutdown (fc_engine (su_config ?su))))
      drained (su_supervisor ?su) = (r, sv)" and s': "s' = s\<lparr>sr_supervisors := (sr_supervisors s)[k := ?su\<lparr>su_supervisor := sv\<rparr>]\<rparr>"
    using assms(3) by (auto simp: stop_at_def Let_def split: prod.splits)
  note q = stop_quiet [OF runtime_okD(4) [OF assms(1,2)] sv]
  have keep: "live sv = {} \<or> registered k s \<or> k \<in> X" using q(2) runtime_okD(5) [OF assms(1,2)] by blast
  show "runtime_ok X s'"
    by (rule runtime_ok_update [OF assms(1) q(1) _ _ keep]) (auto simp: s')
  show "r = Inr () \<Longrightarrow> runtime_ok (X - {k}) s'"
    by (rule runtime_ok_update [OF assms(1) q(1)]) (use q(3) in \<open>auto simp: s'\<close>)
  show "r = Inr () \<Longrightarrow> live (supervisor_at s' k) = {}" using q(3) assms(2) by (simp add: s')
  show "s' = s\<lparr>sr_supervisors := sr_supervisors s'\<rparr>" "length (sr_supervisors s') = length (sr_supervisors s)"
    "\<And>j. j \<noteq> k \<Longrightarrow> sr_supervisors s' ! j = sr_supervisors s ! j" by (simp_all add: s')
  show "map su_config (sr_supervisors s') = map su_config (sr_supervisors s)"
    by (simp add: s' map_update list_update_same_conv assms(2))
qed

lemma start_at_ok:
  assumes "runtime_ok X s" "k < length (sr_supervisors s)" "start_at E now init k s = Some (r, s')"
  shows "runtime_ok (insert k X) s'" "isl r \<or> registered k s \<Longrightarrow> runtime_ok X s'" "isl r \<Longrightarrow> live (supervisor_at s' k) = {}"
    and "s' = s\<lparr>sr_supervisors := sr_supervisors s'\<rparr>" "length (sr_supervisors s') = length (sr_supervisors s)"
    and "\<And>j. j \<noteq> k \<Longrightarrow> sr_supervisors s' ! j = sr_supervisors s ! j"
proof -
  let ?su = "sr_supervisors s ! k"
  obtain engine sv where sv: "sv_start_flow (ev_display E) now engine init (su_supervisor ?su) = (r, sv)"
    and s': "s' = s\<lparr>sr_supervisors := (sr_supervisors s)[k := ?su\<lparr>su_supervisor := sv\<rparr>]\<rparr>"
    using assms(3) by (auto simp: start_at_def Let_def split: prod.splits option.splits)
  note q = start_quiet [OF runtime_okD(4) [OF assms(1,2)] sv]
  show "runtime_ok (insert k X) s'"
    by (rule runtime_ok_update [OF assms(1) q(1)]) (auto simp: s')
  show "isl r \<or> registered k s \<Longrightarrow> runtime_ok X s'"
    by (rule runtime_ok_update [OF assms(1) q(1)]) (use q(2) in \<open>auto simp: s'\<close>)
  show "isl r \<Longrightarrow> live (supervisor_at s' k) = {}" using q(2) assms(2) by (simp add: s')
  show "s' = s\<lparr>sr_supervisors := sr_supervisors s'\<rparr>" "length (sr_supervisors s') = length (sr_supervisors s)"
    "\<And>j. j \<noteq> k \<Longrightarrow> sr_supervisors s' ! j = sr_supervisors s ! j" by (simp_all add: s')
qed

section \<open>A deployment\<close>

lemma runtime_ok_mono: "runtime_ok X s \<Longrightarrow> X \<subseteq> Y \<Longrightarrow> runtime_ok Y s"
  unfolding runtime_ok_def by blast

text \<open>What a flow runs, but for the supervisor.\<close>

definition runs :: "string \<Rightarrow> server \<Rightarrow> (nat \<times> string) option" where
  "runs flow_id s = map_option (\<lambda>p. (rf_version p, rf_source p)) (hm_get (sr_running s) flow_id)"

lemma runs_set_running [simp]:
  "runs a (set_running flow_id p s) = (if a = flow_id then Some (rf_version p, rf_source p) else runs a s)"
  by (simp add: runs_def set_running_def)

text \<open>What a call on the running flows leaves alone.\<close>

definition same_rest :: "server \<Rightarrow> server \<Rightarrow> bool" where
  "same_rest s s' \<longleftrightarrow>
     sr_records s' = sr_records s \<and> sr_file s' = sr_file s \<and> sr_dir s' = sr_dir s \<and>
     sr_max_concurrent s' = sr_max_concurrent s \<and> length (sr_supervisors s) \<le> length (sr_supervisors s')"

lemma same_rest_refl [simp]: "same_rest s s"
  by (simp add: same_rest_def)

lemma same_rest_trans: "same_rest s s1 \<Longrightarrow> same_rest s1 s2 \<Longrightarrow> same_rest s s2"
  by (simp add: same_rest_def)

lemma same_rest_set [simp]: "same_rest s (set_running flow_id p s') = same_rest s s'"
  by (simp add: same_rest_def set_running_def)

lemma stop_at_frame:
  assumes "stop_at E now drained k s = (r, s')"
  shows "same_rest s s'" "sr_running s' = sr_running s"
  using assms by (auto simp: stop_at_def Let_def same_rest_def split: prod.splits)

lemma start_at_frame:
  assumes "start_at E now init k s = Some (r, s')"
  shows "same_rest s s'" "sr_running s' = sr_running s"
  using assms by (auto simp: start_at_def Let_def same_rest_def split: prod.splits option.splits)

lemma take_previous_ok:
  assumes ok: "runtime_ok {} s" and run: "take_previous E oc flow_id s = (r, s')"
  shows "runtime_ok {} s'" "same_rest s s'"
    and "r = Inl e \<Longrightarrow> sr_running s' = hm_insert flow_id (the (hm_get (sr_running s) flow_id)) (hm_remove flow_id (sr_running s)) \<and>
      hm_get (sr_running s) flow_id \<noteq> None"
    and "r = Inr q \<Longrightarrow> sr_running s' = hm_remove flow_id (sr_running s) \<and> q = hm_get (sr_running s) flow_id"
    and "r = Inr (Some p) \<Longrightarrow> live (supervisor_at s' (rf_supervisor p)) = {}"
proof -
  have "runtime_ok {} s' \<and> same_rest s s' \<and>
    (\<forall>e. r = Inl e \<longrightarrow> sr_running s' = hm_insert flow_id (the (hm_get (sr_running s) flow_id)) (hm_remove flow_id (sr_running s)) \<and>
      hm_get (sr_running s) flow_id \<noteq> None) \<and>
    (\<forall>q. r = Inr q \<longrightarrow> sr_running s' = hm_remove flow_id (sr_running s) \<and> q = hm_get (sr_running s) flow_id) \<and>
    (\<forall>p. r = Inr (Some p) \<longrightarrow> live (supervisor_at s' (rf_supervisor p)) = {})"
  proof (cases "hm_get (sr_running s) flow_id")
    case None
    moreover from None have "hm_remove flow_id (sr_running s) = sr_running s"
      by (intro delete_id) (simp add: hm_get_None_iff)
    ultimately show ?thesis using ok run by (auto simp: take_previous_def)
  next
    case (Some p)
    let ?k = "rf_supervisor p"
    define s0 where "s0 = s\<lparr>sr_running := hm_remove flow_id (sr_running s)\<rparr>"
    note ok0 = runtime_ok_remove [OF ok Some, folded s0_def]
    have k: "?k < length (sr_supervisors s0)" using runtime_okD(2) [OF ok Some] by (simp add: s0_def)
    obtain r1 s1 where stop: "stop_at E (oc_now oc) (oc_drained oc) ?k s0 = (r1, s1)" by fastforce
    note st = stop_at_ok [OF ok0 k stop] and fr = stop_at_frame [OF stop]
    have gone: "same_rest s s1" "sr_running s1 = hm_remove flow_id (sr_running s)"
      using fr by (simp_all add: same_rest_def s0_def)
    show ?thesis
    proof (cases r1)
      case (Inl e)
      with run Some stop have r: "r = Inl (Internal e)" "s' = set_running flow_id p s1"
        by (simp_all add: take_previous_def s0_def)
      have "runtime_ok (insert ?k {} - {?k}) (set_running flow_id p s1)"
      proof (rule runtime_ok_set [OF st(1)])
        show "?k < length (sr_supervisors s1)" using k st(5) by simp
        show "a = flow_id" if "hm_get (sr_running s1) a = Some q" "rf_supervisor q = ?k" for a q
          using that runtime_okD(3) [OF ok _ Some, of a q] by (simp add: gone split: if_splits)
      qed (simp add: gone)
      moreover have "same_rest s s'" using r gone by simp
      ultimately show ?thesis using r gone Some by (simp add: set_running_def)
    next
      case (Inr u)
      with run Some stop have r: "r = Inr (Some p)" "s' = s1" by (simp_all add: take_previous_def s0_def)
      have u: "r1 = Inr ()" using Inr by simp
      show ?thesis using r st(2,3) [OF u] gone Some by simp
    qed
  qed
  then show "runtime_ok {} s'" "same_rest s s'"
    "r = Inl e \<Longrightarrow> sr_running s' = hm_insert flow_id (the (hm_get (sr_running s) flow_id)) (hm_remove flow_id (sr_running s)) \<and>
      hm_get (sr_running s) flow_id \<noteq> None"
    "r = Inr q \<Longrightarrow> sr_running s' = hm_remove flow_id (sr_running s) \<and> q = hm_get (sr_running s) flow_id"
    "r = Inr (Some p) \<Longrightarrow> live (supervisor_at s' (rf_supervisor p)) = {}" by blast+
qed

text \<open>A flow set to run on a supervisor that nothing else uses.\<close>

lemma set_fresh_ok:
  assumes "runtime_ok {rf_supervisor p} s" "rf_supervisor p < length (sr_supervisors s)"
    and "hm_get (sr_running s) flow_id = None" "\<not> registered (rf_supervisor p) s"
  shows "runtime_ok {} (set_running flow_id p s)"
  using runtime_ok_set [OF assms(1,2), of flow_id] assms(3,4) by (auto simp: registered_def)

lemma restore_previous_ok:
  assumes ok: "runtime_ok {} s" and run: "restore_previous E oc flow_id p s = Some s'"
    and free: "hm_get (sr_running s) flow_id = None" "rf_supervisor p < length (sr_supervisors s)" "\<not> registered (rf_supervisor p) s"
  shows "runtime_ok {} s'" "same_rest s s'" "\<exists>q. sr_running s' = hm_insert flow_id q (sr_running s) \<and>
    rf_version q = rf_version p \<and> rf_source q = rf_source p"
proof -
  have "runtime_ok {} s' \<and> same_rest s s' \<and> (\<exists>q. sr_running s' = hm_insert flow_id q (sr_running s) \<and>
    rf_version q = rf_version p \<and> rf_source q = rf_source p)"
  proof (cases "\<exists>e. parse_and_validate (ev_document E) (rf_source p) = Some (Inl e)")
    case True
    with run have s': "s' = set_running flow_id p s" by (auto simp: restore_previous_def)
    have "runtime_ok {} s'" unfolding s'
      by (rule set_fresh_ok [OF runtime_ok_mono [OF ok] free(2,1,3)]) simp
    then show ?thesis by (auto simp: s' set_running_def same_rest_def)
  next
    case False
    with run obtain fc k s1 r s2 where new: "new_supervisor (oc_now oc) fc s = (k, s1)"
      and start: "start_at E (oc_now oc) (oc_restart oc) k s1 = Some (r, s2)"
      and s': "s' = set_running flow_id (p\<lparr>rf_supervisor := k\<rparr>) s2"
      by (auto simp: restore_previous_def split: option.splits sum.splits prod.splits)
    note n = runtime_ok_new [OF ok new] and fr = start_at_frame [OF start]
    have k: "k < length (sr_supervisors s1)" using n(5) by simp
    note st = start_at_ok [OF n(1) k start]
    have unreg: "\<not> registered k s2"
      using runtime_okD(2) [OF ok] n(2,3) fr(2) unfolding registered_def by (metis less_irrefl)
    have "runtime_ok {} s'" unfolding s'
      by (rule set_fresh_ok) (use st(1,5) k free(1) unreg n fr in auto)
    then show ?thesis using n fr by (auto simp: s' set_running_def same_rest_def)
  qed
  then show "runtime_ok {} s'" "same_rest s s'" "\<exists>q. sr_running s' = hm_insert flow_id q (sr_running s) \<and>
    rf_version q = rf_version p \<and> rf_source q = rf_source p" by blast+
qed

lemma start_new_ok:
  assumes ok: "runtime_ok {} s" and run: "start_new E oc flow_id newer previous s = Some (r, s')"
    and newer: "rf_supervisor newer < length (sr_supervisors s)" "\<not> registered (rf_supervisor newer) s"
    and free: "hm_get (sr_running s) flow_id = None"
    and previous: "\<And>p. previous = Some p \<Longrightarrow> rf_supervisor p < length (sr_supervisors s) \<and> \<not> registered (rf_supervisor p) s"
  shows "runtime_ok {} s'" "same_rest s s'"
    and "r = Inr () \<Longrightarrow> sr_running s' = hm_insert flow_id newer (sr_running s)"
    and "r = Inl e \<Longrightarrow> previous = None \<Longrightarrow> sr_running s' = sr_running s"
    and "r = Inl e \<Longrightarrow> previous = Some p \<Longrightarrow> \<exists>q. sr_running s' = hm_insert flow_id q (sr_running s) \<and>
      rf_version q = rf_version p \<and> rf_source q = rf_source p"
    and "r = Inr () \<Longrightarrow> k \<noteq> rf_supervisor newer \<Longrightarrow> sr_supervisors s' ! k = sr_supervisors s ! k"
proof -
  obtain r1 s1 where start: "start_at E (oc_now oc) (oc_init oc) (rf_supervisor newer) s = Some (r1, s1)"
    using run by (auto simp: start_new_def split: option.splits)
  note st = start_at_ok [OF ok newer(1) start] and fr = start_at_frame [OF start]
  have unreg: "\<not> registered j s \<Longrightarrow> \<not> registered j s1" for j using fr(2) by (simp add: registered_def)
  have "runtime_ok {} s' \<and> same_rest s s' \<and>
    (r = Inr () \<longrightarrow> sr_running s' = hm_insert flow_id newer (sr_running s)) \<and>
    (\<forall>e. r = Inl e \<longrightarrow> previous = None \<longrightarrow> sr_running s' = sr_running s) \<and>
    (\<forall>e p. r = Inl e \<longrightarrow> previous = Some p \<longrightarrow> (\<exists>q. sr_running s' = hm_insert flow_id q (sr_running s) \<and>
      rf_version q = rf_version p \<and> rf_source q = rf_source p)) \<and>
    (r = Inr () \<longrightarrow> (\<forall>k. k \<noteq> rf_supervisor newer \<longrightarrow> sr_supervisors s' ! k = sr_supervisors s ! k))"
  proof (cases r1)
    case (Inr b)
    with run start have s': "r = Inr ()" "s' = set_running flow_id newer s1" by (simp_all add: start_new_def)
    have "runtime_ok {} s'" unfolding s'
      by (rule set_fresh_ok) (use st(1,5) newer unreg free fr(2) in auto)
    moreover have "same_rest s s'" using fr(1) s'(2) by simp
    moreover have "sr_supervisors s' = sr_supervisors s1" "sr_running s' = hm_insert flow_id newer (sr_running s)"
      using fr(2) by (simp_all add: s' set_running_def)
    ultimately show ?thesis using st(6) s'(1) by simp
  next
    case (Inl e)
    note ok1 = st(2) [of, OF disjI1, simplified Inl isl_def, simplified]
    show ?thesis
    proof (cases previous)
      case None
      with run start Inl have "r = Inl (Internal e)" "s' = s1" by (simp_all add: start_new_def)
      then show ?thesis using ok1 fr None by simp
    next
      case (Some p)
      with run start Inl obtain s2 where s2: "restore_previous E oc flow_id p s1 = Some s2" "r = Inl (Internal e)" "s' = s2"
        by (auto simp: start_new_def split: option.splits)
      note p = previous [OF Some]
      have "hm_get (sr_running s1) flow_id = None" "rf_supervisor p < length (sr_supervisors s1)" "\<not> registered (rf_supervisor p) s1"
        using p free fr(2) st(5) unreg by simp_all
      note re = restore_previous_ok [OF ok1 s2(1) this]
      show ?thesis using re s2 fr Some same_rest_trans by auto
    qed
  qed
  then show "runtime_ok {} s'" "same_rest s s'"
    "r = Inr () \<Longrightarrow> sr_running s' = hm_insert flow_id newer (sr_running s)"
    "r = Inl e \<Longrightarrow> previous = None \<Longrightarrow> sr_running s' = sr_running s"
    "r = Inl e \<Longrightarrow> previous = Some p \<Longrightarrow> \<exists>q. sr_running s' = hm_insert flow_id q (sr_running s) \<and>
      rf_version q = rf_version p \<and> rf_source q = rf_source p"
    "r = Inr () \<Longrightarrow> k \<noteq> rf_supervisor newer \<Longrightarrow> sr_supervisors s' ! k = sr_supervisors s ! k" by blast+
qed

text \<open>The checks before a deployment.\<close>

lemma activate_checks_Inr:
  assumes "activate_checks E oc flow_id version start allow s = Some (Inr (source, fc))"
  obtains r v where "hm_get (sr_records s) flow_id = Some r" "record_version r version = Some v" "fv_state v \<noteq> Draft"
    "fv_state v = Archived \<Longrightarrow> allow" "source = fv_source v" "parse_and_validate (ev_document E) source = Some (Inr fc)"
    "start \<Longrightarrow> hm_get (sr_running s) flow_id \<noteq> None \<or> length (sr_running s) < sr_max_concurrent s"
proof -
  from assms obtain r where r: "hm_get (sr_records s) flow_id = Some r"
    by (auto simp: activate_checks_def split: option.splits)
  with assms obtain v where v: "record_version r version = Some v"
    by (auto simp: activate_checks_def split: option.splits)
  with r assms have st: "fv_state v \<noteq> Draft" "fv_state v = Archived \<Longrightarrow> allow"
    by (auto simp: activate_checks_def split: if_splits)
  with r v assms obtain fc' where fc': "parse_and_validate (ev_document E) (fv_source v) = Some (Inr fc')"
    by (auto simp: activate_checks_def split: if_splits option.splits sum.splits)
  from r v st fc' assms have "source = fv_source v" "fc = fc'"
    "start \<Longrightarrow> hm_get (sr_running s) flow_id \<noteq> None \<or> length (sr_running s) < sr_max_concurrent s"
    by (auto simp: activate_checks_def split: if_splits, (cases "oc_repository oc", auto)+)
  with r v st fc' show ?thesis by (intro that) auto
qed

text \<open>The stages of a deployment.\<close>

definition newer_flow :: "nat \<Rightarrow> string \<Rightarrow> nat \<Rightarrow> flow_config \<Rightarrow> running_flow" where
  "newer_flow version source k fc =
     \<lparr> rf_version = version, rf_source = source, rf_supervisor = k, rf_repository = rc_enabled (ec_repository (fc_engine fc)) \<rparr>"

lemma activate_stages:
  assumes "activate E oc flow_id version start allow s = Some (q, s')"
  obtains (refused) e where "activate_checks E oc flow_id version start allow s = Some (Inl e)" "q = Inl e" "s' = s"
  | (drain) source fc k s1 e where "activate_checks E oc flow_id version start allow s = Some (Inr (source, fc))"
      "new_supervisor (oc_now oc) fc s = (k, s1)" "take_previous E oc flow_id s1 = (Inl e, s')" "q = Inl e"
  | (start) source fc k s1 previous s2 e where "activate_checks E oc flow_id version start allow s = Some (Inr (source, fc))"
      "new_supervisor (oc_now oc) fc s = (k, s1)" "take_previous E oc flow_id s1 = (Inr previous, s2)" start
      "start_new E oc flow_id (newer_flow version source k fc) previous s2 = Some (Inl e, s')" "q = Inl e"
  | (entry) source fc k s1 previous s2 s3 where "activate_checks E oc flow_id version start allow s = Some (Inr (source, fc))"
      "new_supervisor (oc_now oc) fc s = (k, s1)" "take_previous E oc flow_id s1 = (Inr previous, s2)"
      "(if start then start_new E oc flow_id (newer_flow version source k fc) previous s2 else Some (Inr (), s2)) = Some (Inr (), s3)"
      "(case deploy_entry (oc_now oc) flow_id version s3 of
          (Inl e, s) \<Rightarrow> (Inl e, s) | (Inr _, s) \<Rightarrow> (Inr k, snd (persist E (oc_persist oc) s))) = (q, s')"
proof (cases "activate_checks E oc flow_id version start allow s")
  case None
  with assms show ?thesis by (simp add: activate_def)
next
  case (Some c)
  show ?thesis
  proof (cases c)
    case (Inl e)
    with Some assms show ?thesis by (intro refused [of e]) (simp_all add: activate_def)
  next
    case (Inr sf)
    obtain source fc where c: "activate_checks E oc flow_id version start allow s = Some (Inr (source, fc))"
      using Some Inr by (cases sf) simp
    obtain k s1 where new: "new_supervisor (oc_now oc) fc s = (k, s1)" by fastforce
    obtain t s2 where take: "take_previous E oc flow_id s1 = (t, s2)" by fastforce
    have run: "(case t of Inl e \<Rightarrow> Some (Inl e, s2)
      | Inr previous \<Rightarrow>
          (case (if start then start_new E oc flow_id (newer_flow version source k fc) previous s2 else Some (Inr (), s2)) of
             None \<Rightarrow> None
           | Some (Inl e, s) \<Rightarrow> Some (Inl e, s)
           | Some (Inr _, s) \<Rightarrow>
               (case deploy_entry (oc_now oc) flow_id version s of
                  (Inl e, s) \<Rightarrow> Some (Inl e, s)
                | (Inr _, s) \<Rightarrow> Some (Inr k, snd (persist E (oc_persist oc) s))))) = Some (q, s')"
      using assms unfolding newer_flow_def by (simp add: activate_def c new take Let_def)
    show ?thesis
    proof (cases t)
      case (Inl e)
      with run take show ?thesis by (intro drain [OF c new]) auto
    next
      case (Inr previous)
      define st where "st = (if start then start_new E oc flow_id (newer_flow version source k fc) previous s2 else Some (Inr (), s2))"
      note run = run [unfolded Inr, simplified, folded st_def]
        and take = take [unfolded Inr]
      from run obtain r s3 where st: "st = Some (r, s3)" by (auto split: option.splits)
      show ?thesis
      proof (cases r)
        case (Inl e)
        moreover with st have start by (simp add: st_def split: if_splits)
        ultimately show ?thesis using run st by (intro start [OF c new take]) (auto simp: st_def)
      next
        case (Inr u)
        with run st show ?thesis
          by (intro entry [OF c new take, of s3]) (auto simp: st_def split: prod.splits sum.splits)
      qed
    qed
  qed
qed

lemma activate_before:
  assumes ok: "runtime_ok {} s" and new: "new_supervisor now fc s = (k, s1)"
    and take: "take_previous E oc flow_id s1 = (Inr previous, s2)"
  shows "runtime_ok {} s2" "same_rest s s2" "sr_running s2 = hm_remove flow_id (sr_running s)"
    "previous = hm_get (sr_running s) flow_id" "k < length (sr_supervisors s2)" "\<not> registered k s2"
    and "previous = Some p \<Longrightarrow> rf_supervisor p < length (sr_supervisors s2) \<and> \<not> registered (rf_supervisor p) s2"
    and "previous = Some p \<Longrightarrow> live (supervisor_at s2 (rf_supervisor p)) = {} \<and> rf_supervisor p \<noteq> k"
proof -
  note n = runtime_ok_new [OF ok new]
  note t = take_previous_ok [OF n(1) take]
  show "runtime_ok {} s2" by (rule t(1))
  show rest: "same_rest s s2" using t(2) n by (simp add: same_rest_def)
  show run: "sr_running s2 = hm_remove flow_id (sr_running s)" using t(4) [OF refl] n(3) by simp
  show prev: "previous = hm_get (sr_running s) flow_id" using t(4) [OF refl] n(3) by simp
  show "k < length (sr_supervisors s2)" using t(2) n(5) by (simp add: same_rest_def)
  have less: "rf_supervisor q < k" if "hm_get (sr_running s) a = Some q" for a q
    using runtime_okD(2) [OF ok that] n(2) by simp
  show "\<not> registered k s2" using less by (force simp: registered_def run split: if_splits)
  show "rf_supervisor p < length (sr_supervisors s2) \<and> \<not> registered (rf_supervisor p) s2" if "previous = Some p"
  proof -
    have p: "hm_get (sr_running s) flow_id = Some p" using that prev by simp
    have "\<not> registered (rf_supervisor p) s2"
      using runtime_okD(3) [OF ok _ p] by (force simp: registered_def run split: if_splits)
    then show ?thesis using less [OF p] t(2) n(5) by (simp add: same_rest_def)
  qed
  show "live (supervisor_at s2 (rf_supervisor p)) = {} \<and> rf_supervisor p \<noteq> k" if "previous = Some p"
  proof -
    have "hm_get (sr_running s) flow_id = Some p" using that prev by simp
    from less [OF this] show ?thesis using t(5) [of p] that by auto
  qed
qed

lemma runs_fun_eq:
  assumes "sr_running s' = hm_insert a q (hm_remove a (sr_running s))" "hm_get (sr_running s) a = Some p"
    "rf_version q = rf_version p" "rf_source q = rf_source p"
  shows "runs b s' = runs b s" "length (sr_running s') = length (sr_running s) \<or> \<not> hm_wf (sr_running s)"
proof -
  show "runs b s' = runs b s" using assms by (simp add: runs_def)
  show "length (sr_running s') = length (sr_running s) \<or> \<not> hm_wf (sr_running s)"
  proof (cases "hm_wf (sr_running s)")
    case True
    have "a \<in> fst ` set (sr_running s)" using assms(2) by (metis hm_get_None_iff option.distinct(1))
    then have "length (sr_running s) = Suc (length (hm_remove a (sr_running s)))"
      using length_hm_insert_remove [OF True, of a p] by (simp add: length_hm_insert)
    moreover have "a \<notin> fst ` set (hm_remove a (sr_running s))" by (simp add: hm_get_None_iff [symmetric])
    ultimately show ?thesis by (simp add: assms(1) length_hm_insert)
  qed simp
qed

lemma activate_failed:
  assumes ok: "runtime_ok {} s" and run: "activate E oc flow_id version start allow s = Some (Inl e, s')"
  shows "runtime_ok {} s'" "same_rest s s'" "runs a s' = runs a s" "length (sr_running s') = length (sr_running s)"
proof -
  have wf: "hm_wf (sr_running s)" by (rule runtime_okD(1) [OF ok])
  have "runtime_ok {} s' \<and> same_rest s s' \<and> (\<forall>a. runs a s' = runs a s) \<and> length (sr_running s') = length (sr_running s)"
    using run
  proof (cases rule: activate_stages)
    case (refused e)
    then show ?thesis using ok by simp
  next
    case (drain source fc k s1 e)
    note n = runtime_ok_new [OF ok drain(2)]
    note t = take_previous_ok [OF n(1) drain(3)]
    obtain p where p: "hm_get (sr_running s) flow_id = Some p" using t(3) [OF refl] n(3) by auto
    have r: "sr_running s' = hm_insert flow_id p (hm_remove flow_id (sr_running s))" using t(3) [OF refl] n(3) p by simp
    have "same_rest s s'" using t(2) n by (simp add: same_rest_def)
    then show ?thesis using t(1) runs_fun_eq [OF r p refl refl] wf by simp
  next
    case (start source fc k s1 previous s2 e)
    note b = activate_before [OF ok start(2,3)]
    have k: "rf_supervisor (newer_flow version source k fc) = k" by (simp add: newer_flow_def)
    note n = start_new_ok [OF b(1) start(5), unfolded k, OF b(5,6) _ b(7)]
    have free: "hm_get (sr_running s2) flow_id = None" by (simp add: b(3))
    note n = n [OF free]
    have rest: "same_rest s s'" by (rule same_rest_trans [OF b(2) n(2)]) simp_all
    show ?thesis
    proof (cases previous)
      case None
      then have "hm_remove flow_id (sr_running s) = sr_running s"
        using b(4) by (intro delete_id) (simp add: hm_get_None_iff)
      then have "sr_running s' = sr_running s" using n(4) None b(3) by simp
      then show ?thesis using n(1) rest by (simp add: runs_def)
    next
      case (Some p)
      then have p: "hm_get (sr_running s) flow_id = Some p" using b(4) by simp
      obtain q where q: "sr_running s' = hm_insert flow_id q (sr_running s2)" "rf_version q = rf_version p" "rf_source q = rf_source p"
        using n(5) [OF _ refl Some] by blast
      show ?thesis using n(1) rest runs_fun_eq [OF q(1) [unfolded b(3)] p q(2,3)] wf by simp
    qed
  next
    case (entry source fc k s1 previous s2 s3)
    note b = activate_before [OF ok entry(2,3)]
    have k: "rf_supervisor (newer_flow version source k fc) = k" by (simp add: newer_flow_def)
    have "sr_records s3 = sr_records s"
    proof (cases start)
      case True
      have free: "hm_get (sr_running s2) flow_id = None" by (simp add: b(3))
      have "start_new E oc flow_id (newer_flow version source k fc) previous s2 = Some (Inr (), s3)"
        using entry(4) True by simp
      from start_new_ok(2) [OF b(1) this, unfolded k, OF b(5,6) free b(7)] b(2) show ?thesis by (simp add: same_rest_def)
    next
      case False
      then show ?thesis using entry(4) b(2) by (simp add: same_rest_def)
    qed
    moreover obtain r where "hm_get (sr_records s) flow_id = Some r"
      using activate_checks_Inr [OF entry(1)] by metis
    ultimately show ?thesis using entry(5) by (simp add: deploy_entry_def)
  qed
  then show "runtime_ok {} s'" "same_rest s s'" "runs a s' = runs a s" "length (sr_running s') = length (sr_running s)" by simp_all
qed

lemma persist_frame:
  assumes "persist E ok s = (r, s')"
  shows "sr_records s' = sr_records s" "sr_running s' = sr_running s" "sr_supervisors s' = sr_supervisors s"
    "sr_dir s' = sr_dir s" "sr_max_concurrent s' = sr_max_concurrent s"
    "sr_file s' = sr_file s \<or> sr_file s' = Some (ev_to_vec E (list_records s))"
  using assms by (auto simp: persist_def split: if_splits)

lemma activate_deployed:
  assumes ok: "runtime_ok {} s" and run: "activate E oc flow_id version start allow s = Some (Inr k, s')"
  obtains r v fc where "hm_get (sr_records s) flow_id = Some r" "record_version r version = Some v" "fv_state v \<noteq> Draft"
    "fv_state v = Archived \<Longrightarrow> allow" "parse_and_validate (ev_document E) (fv_source v) = Some (Inr fc)"
    "start \<Longrightarrow> hm_get (sr_running s) flow_id \<noteq> None \<or> length (sr_running s) < sr_max_concurrent s"
    "sr_records s' = hm_insert flow_id (mark_deployed (oc_now oc) version r) (sr_records s)"
    "sr_running s' = (if start then hm_insert flow_id (newer_flow version (fv_source v) k fc) (hm_remove flow_id (sr_running s))
      else hm_remove flow_id (sr_running s))"
    "runtime_ok {} s'" "sr_dir s' = sr_dir s" "sr_max_concurrent s' = sr_max_concurrent s"
    "\<And>old. hm_get (sr_running s) flow_id = Some old \<Longrightarrow> live (supervisor_at s' (rf_supervisor old)) = {}"
    "sr_file s' = sr_file s \<or> sr_file s' = Some (ev_to_vec E (list_records s'))" "k = length (sr_supervisors s)"
    "length (sr_supervisors s) \<le> length (sr_supervisors s')"
proof -
  have sups: "sr_records s1 = sr_records s2 \<Longrightarrow> list_records s1 = list_records s2" for s1 s2 by (simp add: list_records_def)
  from run show thesis
  proof (cases rule: activate_stages)
    case (entry source fc k1 s1 previous s2 s3)
    obtain r v where c: "hm_get (sr_records s) flow_id = Some r" "record_version r version = Some v" "fv_state v \<noteq> Draft"
      "fv_state v = Archived \<Longrightarrow> allow" "source = fv_source v" "parse_and_validate (ev_document E) source = Some (Inr fc)"
      "start \<Longrightarrow> hm_get (sr_running s) flow_id \<noteq> None \<or> length (sr_running s) < sr_max_concurrent s"
      using activate_checks_Inr [OF entry(1)] by metis
    note b = activate_before [OF ok entry(2,3)]
    have j: "rf_supervisor (newer_flow version source k1 fc) = k1" by (simp add: newer_flow_def)
    have free: "hm_get (sr_running s2) flow_id = None" by (simp add: b(3))
    have s3: "runtime_ok {} s3 \<and> same_rest s s3 \<and> sr_running s3 = (if start
        then hm_insert flow_id (newer_flow version source k1 fc) (hm_remove flow_id (sr_running s)) else hm_remove flow_id (sr_running s)) \<and>
      (\<forall>i. i \<noteq> k1 \<longrightarrow> sr_supervisors s3 ! i = sr_supervisors s2 ! i)"
    proof (cases start)
      case True
      have st: "start_new E oc flow_id (newer_flow version source k1 fc) previous s2 = Some (Inr (), s3)"
        using entry(4) True by simp
      note n = start_new_ok [OF b(1) st, unfolded j, OF b(5,6) free b(7)]
      have "same_rest s s3" by (rule same_rest_trans [OF b(2) n(2)]) simp_all
      then show ?thesis using n(1,3,6) True b(3) by simp
    next
      case False
      then show ?thesis using entry(4) b(1,2,3) by simp
    qed
    then have rec: "sr_records s3 = sr_records s" by (simp add: same_rest_def)
    define s4 where "s4 = s3\<lparr>sr_records := hm_insert flow_id (mark_deployed (oc_now oc) version r) (sr_records s3)\<rparr>"
    have fin: "k1 = k" "s' = snd (persist E (oc_persist oc) s4)"
      using entry(5) c(1) by (simp_all add: deploy_entry_def rec s4_def)
    obtain q where q: "persist E (oc_persist oc) s4 = (q, s')" using fin(2) by (metis prod.collapse)
    note p = persist_frame [OF q]
    show thesis
    proof (rule that [OF c(1-4) c(6) [unfolded c(5)] c(7)])
      show "sr_records s' = hm_insert flow_id (mark_deployed (oc_now oc) version r) (sr_records s)"
        by (simp add: p(1) s4_def rec)
      show "sr_running s' = (if start then hm_insert flow_id (newer_flow version (fv_source v) k fc) (hm_remove flow_id (sr_running s))
          else hm_remove flow_id (sr_running s))"
        using s3 by (simp add: p(2) s4_def fin(1) c(5) [symmetric])
      show "runtime_ok {} s'" by (rule runtime_ok_cong [of "{}" s3]) (use s3 in \<open>simp_all add: p(2,3) s4_def\<close>)
      show "sr_dir s' = sr_dir s" "sr_max_concurrent s' = sr_max_concurrent s"
        using s3 by (simp_all add: p(4,5) s4_def same_rest_def)
      show "live (supervisor_at s' (rf_supervisor old)) = {}" if "hm_get (sr_running s) flow_id = Some old" for old
        using b(8) [of old] b(4) that s3 by (simp add: p(3) s4_def)
      show "sr_file s' = sr_file s \<or> sr_file s' = Some (ev_to_vec E (list_records s'))"
        using p(6) s3 sups [OF p(1)] by (simp add: s4_def same_rest_def)
      show "length (sr_supervisors s) \<le> length (sr_supervisors s')" using s3 by (simp add: p(3) s4_def same_rest_def)
      show "k = length (sr_supervisors s)" using runtime_ok_new(2) [OF ok entry(2)] fin(1) by simp
    qed simp_all
  qed simp_all
qed

end
