(* ===== verification/Server_Steps.thy ===== *)
theory Server_Steps
  imports Server_Reach
begin

text \<open>
  The calls on the registry as steps, and the invariant of every state they reach. A call that
  awaits runs to its end before the next one; the races that this leaves out are stated over the
  parts of the calls.
\<close>

section \<open>The invariant\<close>

definition records_ok :: "flow_record hmap \<Rightarrow> bool" where
  "records_ok m \<longleftrightarrow> hm_wf m \<and> (\<forall>flow_id r. hm_get m flow_id = Some r \<longrightarrow> fr_id r = flow_id \<and> history_ok r)"

text \<open>What runs under an id is the active version of its history.\<close>

definition runs_ok :: "server \<Rightarrow> bool" where
  "runs_ok s \<longleftrightarrow> (\<forall>flow_id v src. runs flow_id s = Some (v, src) \<longrightarrow>
     (\<exists>r u. hm_get (sr_records s) flow_id = Some r \<and> fr_active_version r = Some v \<and>
        u \<in> set (fr_versions r) \<and> fv_version u = v \<and> fv_source u = src))"

definition file_ok :: "registry_env \<Rightarrow> server \<Rightarrow> bool" where
  "file_ok E s \<longleftrightarrow> (\<forall>bytes rs. sr_file s = Some bytes \<longrightarrow> ev_from_slice E bytes = Some rs \<longrightarrow>
     distinct (map fr_id rs) \<and> (\<forall>r\<in>set rs. history_ok r))"

definition server_ok :: "registry_env \<Rightarrow> server \<Rightarrow> bool" where
  "server_ok E s \<longleftrightarrow> records_ok (sr_records s) \<and> runtime_ok {} s \<and> runs_ok s \<and> file_ok E s \<and>
     length (sr_running s) \<le> sr_max_concurrent s \<and> 1 \<le> sr_max_concurrent s"

lemma server_okD:
  assumes "server_ok E s"
  shows "records_ok (sr_records s)" "runtime_ok {} s" "runs_ok s" "file_ok E s"
    "length (sr_running s) \<le> sr_max_concurrent s" "1 \<le> sr_max_concurrent s"
  using assms by (simp_all add: server_ok_def)

lemma server_okI:
  "\<lbrakk> records_ok (sr_records s); runtime_ok {} s; runs_ok s; file_ok E s; length (sr_running s) \<le> sr_max_concurrent s;
     1 \<le> sr_max_concurrent s \<rbrakk> \<Longrightarrow> server_ok E s"
  by (simp add: server_ok_def)

text \<open>The JSON of the records is read back as it was written.\<close>

definition codec_ok :: "registry_env \<Rightarrow> bool" where
  "codec_ok E \<longleftrightarrow> (\<forall>rs. ev_from_slice E (ev_to_vec E rs) = Some rs)"

lemma records_okD:
  assumes "records_ok m"
  shows "hm_wf m" "hm_get m flow_id = Some r \<Longrightarrow> fr_id r = flow_id" "hm_get m flow_id = Some r \<Longrightarrow> history_ok r"
  using assms by (auto simp: records_ok_def)

lemma records_ok_insert:
  "records_ok m \<Longrightarrow> history_ok r \<Longrightarrow> fr_id r = flow_id \<Longrightarrow> records_ok (hm_insert flow_id r m)"
  by (auto simp: records_ok_def)

lemma list_records_ok:
  assumes "records_ok (sr_records s)"
  shows "distinct (map fr_id (list_records s))" "r \<in> set (list_records s) \<Longrightarrow> history_ok r"
    "r \<in> set (list_records s) \<longleftrightarrow> hm_get (sr_records s) (fr_id r) = Some r"
proof -
  note ok = records_okD [OF assms]
  have ids: "map fr_id (map snd (sr_records s)) = map fst (sr_records s)"
  proof -
    have "fr_id (snd x) = fst x" if "x \<in> set (sr_records s)" for x
    proof -
      have "hm_get (sr_records s) (fst x) = Some (snd x)" using ok(1) that by (simp add: hm_get_Some_iff)
      then show ?thesis by (rule ok(2))
    qed
    then show ?thesis by simp
  qed
  have "distinct (map fr_id (map snd (sr_records s)))" using ok(1) unfolding ids hm_wf_def .
  then show "distinct (map fr_id (list_records s))"
    unfolding list_records_def
    by (auto simp: distinct_map intro: inj_on_imageI elim: inj_on_imageI2)
  show iff: "r \<in> set (list_records s) \<longleftrightarrow> hm_get (sr_records s) (fr_id r) = Some r" for r
  proof
    assume "r \<in> set (list_records s)"
    then obtain a where "(a, r) \<in> set (sr_records s)" by (auto simp: list_records_def)
    then have "hm_get (sr_records s) a = Some r" using ok(1) by (simp add: hm_get_Some_iff)
    then show "hm_get (sr_records s) (fr_id r) = Some r" using ok(2) by simp
  next
    assume "hm_get (sr_records s) (fr_id r) = Some r"
    then have "(fr_id r, r) \<in> set (sr_records s)" by (rule hm_get_in_set)
    then show "r \<in> set (list_records s)" by (force simp: list_records_def)
  qed
  then show "r \<in> set (list_records s) \<Longrightarrow> history_ok r" using ok(3) by blast
qed

text \<open>A state that differs from one that is in order in its records, its file, or both.\<close>

lemma file_ok_persisted:
  assumes "codec_ok E" "records_ok (sr_records s)" "file_ok E s0"
    "sr_file s' = sr_file s0 \<or> sr_file s' = Some (ev_to_vec E (list_records s))"
  shows "file_ok E s'"
  using assms list_records_ok(1,2) [OF assms(2)] by (auto simp: file_ok_def codec_ok_def)

lemma persist_ok:
  assumes "codec_ok E" "server_ok E s" "persist E ok s = (r, s')"
  shows "server_ok E s'"
proof (rule server_okI)
  note s = server_okD [OF assms(2)] and p = persist_frame [OF assms(3)]
  show "records_ok (sr_records s')" using s(1) p(1) by simp
  show "runtime_ok {} s'" by (rule runtime_ok_cong [OF s(2) p(2,3)])
  show "runs_ok s'" using s(3) by (simp add: runs_ok_def runs_def p)
  show "file_ok E s'" by (rule file_ok_persisted [OF assms(1) s(1,4) p(6)])
  show "length (sr_running s') \<le> sr_max_concurrent s'" "1 \<le> sr_max_concurrent s'" using s(5,6) by (simp_all add: p)
qed

text \<open>The record of one flow grows.\<close>

lemma change_record_ok:
  assumes ok: "server_ok E s" and s': "s' = s\<lparr>sr_records := hm_insert flow_id r' (sr_records s)\<rparr>"
    and r': "history_ok r'" "fr_id r' = flow_id"
    and same: "\<And>r v src. hm_get (sr_records s) flow_id = Some r \<Longrightarrow> runs flow_id s = Some (v, src) \<Longrightarrow>
      grows r r' \<and> fr_active_version r' = fr_active_version r"
  shows "server_ok E s'"
proof (rule server_okI)
  note o = server_okD [OF ok]
  show "records_ok (sr_records s')" using records_ok_insert [OF o(1) r'] by (simp add: s')
  show "runtime_ok {} s'" by (rule runtime_ok_cong [OF o(2)]) (simp_all add: s')
  show "file_ok E s'" using o(4) by (simp add: file_ok_def s')
  show "length (sr_running s') \<le> sr_max_concurrent s'" "1 \<le> sr_max_concurrent s'" using o(5,6) by (simp_all add: s')
  show "runs_ok s'" unfolding runs_ok_def
  proof (intro allI impI)
    fix a v src
    assume "runs a s' = Some (v, src)"
    then have run: "runs a s = Some (v, src)" by (simp add: runs_def s')
    then obtain r u where r: "hm_get (sr_records s) a = Some r" "fr_active_version r = Some v"
      "u \<in> set (fr_versions r)" "fv_version u = v" "fv_source u = src"
      using o(3) unfolding runs_ok_def by blast
    show "\<exists>r u. hm_get (sr_records s') a = Some r \<and> fr_active_version r = Some v \<and>
      u \<in> set (fr_versions r) \<and> fv_version u = v \<and> fv_source u = src"
    proof (cases "a = flow_id")
      case True
      with same run r(1) have g: "grows r r'" "fr_active_version r' = Some v" using r(2) by auto
      from g(1) r(3) have "imprint u \<in> imprint ` set (fr_versions r')"
        by (metis grows_def UnI1 imageI list.set_map set_append)
      then obtain u' where "u' \<in> set (fr_versions r')" "imprint u' = imprint u" by auto
      then show ?thesis using True g(2) r(4,5) by (intro exI [of _ r'] exI [of _ u']) (auto simp: s' imprint_def)
    next
      case False
      with r show ?thesis by (auto simp: s')
    qed
  qed
qed

section \<open>Calls on the records\<close>

definition record_or_new :: "nat \<Rightarrow> string \<Rightarrow> server \<Rightarrow> flow_record" where
  "record_or_new now flow_id s = (case hm_get (sr_records s) flow_id of None \<Rightarrow> new_record flow_id now | Some r \<Rightarrow> r)"

lemma record_or_new_ok:
  assumes "server_ok E s"
  shows "history_ok (record_or_new now flow_id s)" "fr_id (record_or_new now flow_id s) = flow_id"
  using records_okD(2,3) [OF server_okD(1) [OF assms], of flow_id]
  by (auto simp: record_or_new_def new_record_def history_ok_def split: option.splits)

lemma create_draft_cases:
  assumes "create_draft E now ok source remark s = (r, s')"
  obtains (rejected) e where "s' = s" "r = Inl (Validation e)"
  | (stored) flow_id old v t where "old = record_or_new now flow_id s"
      "v = draft_version (next_version old) now source (ev_checksum E source) remark"
      "persist E ok (s\<lparr>sr_records := hm_insert flow_id (push_version now v old) (sr_records s)\<rparr>) = (t, s')"
      "r = map_sum id (\<lambda>_. (flow_id, next_version old)) t"
proof (cases "dv_yaml (ev_document E) source")
  case (Inl e)
  with assms show ?thesis by (intro rejected [of e]) (simp_all add: create_draft_def)
next
  case (Inr fc)
  show ?thesis
  proof (cases "trim (fc_id fc) = []")
    case True
    with Inr assms show ?thesis by (intro rejected [of "Configuration FlowIdEmpty"]) (simp_all add: create_draft_def)
  next
    case False
    define old where "old = record_or_new now (trim (fc_id fc)) s"
    define v where "v = draft_version (next_version old) now source (ev_checksum E source) remark"
    obtain t s1 where p: "persist E ok (s\<lparr>sr_records := hm_insert (trim (fc_id fc)) (push_version now v old) (sr_records s)\<rparr>) = (t, s1)"
      by fastforce
    have "s1 = s' \<and> r = map_sum id (\<lambda>_. (trim (fc_id fc), next_version old)) t"
      using assms Inr False p
      by (cases t) (auto simp: create_draft_def Let_def record_or_new_def [symmetric] old_def [symmetric] v_def [symmetric])
    with p stored [OF old_def v_def, of t] show ?thesis by simp
  qed
qed

lemma create_draft_ok:
  assumes "codec_ok E" "server_ok E s" "create_draft E now ok source remark s = (r, s')"
  shows "server_ok E s'"
  using assms(3)
proof (cases rule: create_draft_cases)
  case (rejected e)
  with assms(2) show ?thesis by simp
next
  case (stored flow_id old v t)
  define s1 where "s1 = s\<lparr>sr_records := hm_insert flow_id (push_version now v old) (sr_records s)\<rparr>"
  note old = record_or_new_ok [OF assms(2), of now flow_id, folded stored(1)]
  have push: "history_ok (push_version now v old)" "grows old (push_version now v old)"
    by (rule push_ok, use old in \<open>simp_all add: stored(2) draft_version_def\<close>)+
  have same: "fr_id (push_version now v old) = flow_id" "fr_active_version (push_version now v old) = fr_active_version old"
    using old(2) by (simp_all add: push_version_def)
  have "server_ok E s1"
    by (rule change_record_ok [OF assms(2) s1_def push(1) same(1)])
      (use push(2) same(2) in \<open>simp_all add: stored(1) record_or_new_def\<close>)
  from persist_ok [OF assms(1) this stored(3) [folded s1_def]] show ?thesis .
qed

lemma record_version_in: "record_version r n = Some v \<Longrightarrow> v \<in> set (fr_versions r) \<and> fv_version v = n"
  by (auto simp: record_version_def find_Some_iff)

lemma mark_active:
  "fr_active_version (mark_validated now n r) = fr_active_version r"
  "fr_active_version (mark_archived now n r) = (if fr_active_version r = Some n then None else fr_active_version r)"
  "fr_active_version (mark_deployed now n r) = Some n" "fr_active_version (mark_served now source digest r) = Some (next_version r)"
  by (simp_all add: mark_validated_def mark_archived_def mark_deployed_def mark_served_def with_version_def Let_def)

lemma validate_version_ok:
  assumes "codec_ok E" "server_ok E s" "validate_version E now ok flow_id version s = Some (q, s')"
  shows "server_ok E s'"
proof -
  from assms(3) consider "s' = s"
    | s1 where "validate_entry now flow_id version s = (Inr (), s1)" "persist E ok s1 = (q, s')"
    by (auto simp: validate_version_def validate_entry_def split: sum.splits option.splits prod.splits if_splits)
  then show ?thesis
  proof cases
    case 1
    with assms(2) show ?thesis by simp
  next
    case (2 s1)
    then obtain r where r: "hm_get (sr_records s) flow_id = Some r"
      "s1 = s\<lparr>sr_records := hm_insert flow_id (mark_validated now version r) (sr_records s)\<rparr>"
      by (auto simp: validate_entry_def split: option.splits if_splits)
    note o = records_okD [OF server_okD(1) [OF assms(2)]]
    note m = mark_validated_ok [OF o(3) [OF r(1)]]
    have "server_ok E s1"
      by (rule change_record_ok [OF assms(2) r(2) m(1)]) (use m(2,3) o(2) [OF r(1)] r(1) in \<open>simp_all add: mark_active\<close>)
    from persist_ok [OF assms(1) this 2(2)] show ?thesis .
  qed
qed

lemma archive_version_ok:
  assumes "codec_ok E" "server_ok E s" "archive_version E now ok flow_id version s = (q, s')"
  shows "server_ok E s'"
proof -
  from assms(3) consider "s' = s"
    | r where "archive_check flow_id version s = Inr ()" "hm_get (sr_records s) flow_id = Some r"
      "persist E ok (s\<lparr>sr_records := hm_insert flow_id (mark_archived now version r) (sr_records s)\<rparr>) = (q, s')"
    by (auto simp: archive_version_def archive_apply_def split: sum.splits option.splits prod.splits)
  then show ?thesis
  proof cases
    case 1
    with assms(2) show ?thesis by simp
  next
    case (2 r)
    define s1 where "s1 = s\<lparr>sr_records := hm_insert flow_id (mark_archived now version r) (sr_records s)\<rparr>"
    note o = server_okD [OF assms(2)] and rec = records_okD [OF server_okD(1) [OF assms(2)]]
    note m = mark_archived_ok [OF rec(3) [OF 2(2)]]
    have "server_ok E s1"
    proof (rule change_record_ok [OF assms(2) s1_def m(1)])
      show "fr_id (mark_archived now version r) = flow_id" using m(3) rec(2) [OF 2(2)] by simp
      fix r0 v src
      assume r0: "hm_get (sr_records s) flow_id = Some r0" and run: "runs flow_id s = Some (v, src)"
      have "fr_active_version r0 = Some v" using o(3) run r0 unfolding runs_ok_def by fastforce
      moreover have "v \<noteq> version" using 2(1) run by (auto simp: archive_check_def runs_def split: if_splits)
      ultimately show "grows r0 (mark_archived now version r) \<and> fr_active_version (mark_archived now version r) = fr_active_version r0"
        using r0 2(2) m(2) by (simp add: mark_active)
    qed
    from persist_ok [OF assms(1) this 2(3) [folded s1_def]] show ?thesis .
  qed
qed

section \<open>Calls on what runs\<close>

lemma same_rest_ok:
  assumes "server_ok E s" "same_rest s s'" "runtime_ok {} s'" "length (sr_running s') \<le> length (sr_running s)"
    "\<And>a v src. runs a s' = Some (v, src) \<Longrightarrow> runs a s = Some (v, src)"
  shows "server_ok E s'"
  using server_okD [OF assms(1)] assms(2-) unfolding server_ok_def same_rest_def runs_ok_def file_ok_def
  by (auto dest: order_trans)

lemma length_hm_remove: "length (hm_remove k m) \<le> length m"
  by (induction m) auto

lemma grows_version:
  assumes "grows r r'" "u \<in> set (fr_versions r)"
  obtains u' where "u' \<in> set (fr_versions r')" "fv_version u' = fv_version u" "fv_source u' = fv_source u"
proof -
  from assms have "imprint u \<in> imprint ` set (fr_versions r')"
    by (metis grows_def UnI1 imageI list.set_map set_append)
  with that show thesis by (auto simp: imprint_def)
qed

text \<open>A version is made the active one, and what runs under the id is that version or nothing.\<close>

lemma deployed_ok:
  assumes ok: "server_ok E s" and r: "history_ok r" "fr_id r = flow_id" "fr_active_version r = Some n"
    and u: "u \<in> set (fr_versions r)" "fv_version u = n"
    and s': "sr_records s' = hm_insert flow_id r (sr_records s)" "runtime_ok {} s'" "file_ok E s'"
      "sr_max_concurrent s' = sr_max_concurrent s" "length (sr_running s') \<le> sr_max_concurrent s"
    and runs: "\<And>a. a \<noteq> flow_id \<Longrightarrow> runs a s' = runs a s" "runs flow_id s' \<in> {None, Some (n, fv_source u)}"
  shows "server_ok E s'"
proof (rule server_okI)
  note o = server_okD [OF ok]
  show "records_ok (sr_records s')" using records_ok_insert [OF o(1) r(1,2)] by (simp add: s'(1))
  show "runtime_ok {} s'" "file_ok E s'" by (rule s')+
  show "length (sr_running s') \<le> sr_max_concurrent s'" "1 \<le> sr_max_concurrent s'" using o(6) s' by simp_all
  show "runs_ok s'" unfolding runs_ok_def
  proof (intro allI impI)
    fix a v src
    assume run: "runs a s' = Some (v, src)"
    show "\<exists>r u. hm_get (sr_records s') a = Some r \<and> fr_active_version r = Some v \<and>
        u \<in> set (fr_versions r) \<and> fv_version u = v \<and> fv_source u = src"
    proof (cases "a = flow_id")
      case True
      with runs(2) run have "v = n" "src = fv_source u" by auto
      with True r(3) u show ?thesis by (auto simp: s'(1))
    next
      case False
      with runs(1) run have "runs a s = Some (v, src)" by simp
      with o(3) False show ?thesis unfolding runs_ok_def by (simp add: s'(1))
    qed
  qed
qed

lemma activate_ok:
  assumes codec: "codec_ok E" and ok: "server_ok E s" and run: "activate E oc flow_id version start allow s = Some (q, s')"
    and deployed: "\<And>r v. hm_get (sr_records s) flow_id = Some r \<Longrightarrow> record_version r version = Some v \<Longrightarrow> allow \<Longrightarrow>
      fv_deployed_at v \<noteq> None"
  shows "server_ok E s'"
proof (cases q)
  case (Inl e)
  note f = activate_failed [OF server_okD(2) [OF ok] run [unfolded Inl]]
  show ?thesis by (rule same_rest_ok [OF ok f(2,1)]) (use f(3,4) in simp_all)
next
  case (Inr k)
  note o = server_okD [OF ok] and rec = records_okD [OF server_okD(1) [OF ok]]
  from o(2) run [unfolded Inr] show ?thesis
  proof (cases rule: activate_deployed)
    case (1 r v fc)
    have v: "v \<in> set (fr_versions r)" "fv_version v = version" using record_version_in [OF 1(2)] by simp_all
    have "fv_validated_at v \<noteq> None"
      using 1(3) deployed [OF 1(1,2)] 1(4) history_okD(2) [OF rec(3) [OF 1(1)] v(1)] by (cases "fv_state v") auto
    note m = mark_deployed_ok [OF rec(3) [OF 1(1)] v this, where now = "oc_now oc"]
    obtain u where u: "u \<in> set (fr_versions (mark_deployed (oc_now oc) version r))" "fv_version u = version" "fv_source u = fv_source v"
      using grows_version [OF m(2) v(1)] v(2) by metis
    have "records_ok (sr_records s')"
      using records_ok_insert [OF o(1) m(1)] m(3) rec(2) [OF 1(1)] by (simp add: 1(7))
    then have on_disk: "file_ok E s'" by (rule file_ok_persisted [OF codec _ o(4) 1(13)])
    have len: "length (sr_running s') \<le> sr_max_concurrent s"
    proof (cases start)
      case True
      have new: "length (sr_running s') = Suc (length (hm_remove flow_id (sr_running s)))"
      proof -
        have "flow_id \<notin> fst ` set (hm_remove flow_id (sr_running s))" by (simp add: hm_get_None_iff [symmetric])
        then show ?thesis using True 1(8) by (simp add: length_hm_insert)
      qed
      show ?thesis
      proof (cases "hm_get (sr_running s) flow_id")
        case None
        then have "hm_remove flow_id (sr_running s) = sr_running s" by (intro delete_id) (simp add: hm_get_None_iff)
        then show ?thesis using new 1(6) [OF True] None by simp
      next
        case (Some p)
        then have "flow_id \<in> fst ` set (sr_running s)" by (metis hm_get_None_iff option.distinct(1))
        then have "length (sr_running s) = Suc (length (hm_remove flow_id (sr_running s)))"
          using length_hm_insert_remove [OF runtime_okD(1) [OF o(2)], of flow_id p] by (simp add: length_hm_insert)
        then show ?thesis using new o(5) by simp
      qed
    next
      case False
      then show ?thesis using 1(8) o(5) length_hm_remove [of flow_id "sr_running s"] by simp
    qed
    show ?thesis
    proof (rule deployed_ok [OF ok m(1) _ mark_active(3) u(1,2) 1(7,9) on_disk 1(11) len])
      show "fr_id (mark_deployed (oc_now oc) version r) = flow_id" using m(3) rec(2) [OF 1(1)] by simp
      show "runs a s' = runs a s" if "a \<noteq> flow_id" for a using that by (simp add: runs_def 1(8))
      show "runs flow_id s' \<in> {None, Some (version, fv_source u)}"
        by (simp add: runs_def 1(8) newer_flow_def u(3))
    qed
  qed
qed

lemma foldr_max_in: "foldr max xs x \<in> insert (x :: nat) (set xs)"
  by (induction xs) (auto simp: max_def)

lemma rollback_target_candidate:
  assumes "rollback_target r = Some n"
  obtains v where "v \<in> set (fr_versions r)" "rollback_candidate r v" "fv_version v = n"
proof -
  from assms obtain x xs where xs: "map fv_version (filter (rollback_candidate r) (fr_versions r)) = x # xs" "n = foldr max xs x"
    by (auto simp: rollback_target_def split: list.splits)
  have "n \<in> set (map fv_version (filter (rollback_candidate r) (fr_versions r)))"
    unfolding xs(1) using foldr_max_in [of xs x] xs(2) by simp
  with that show thesis by auto
qed

lemma rollback_cases:
  assumes "server_ok E s" "rollback E oc flow_id start s = Some (q, s')"
  obtains (refused) "s' = s"
  | (target) n where "activate E oc flow_id n start True s = Some (q, s')"
      "\<And>r v. hm_get (sr_records s) flow_id = Some r \<Longrightarrow> record_version r n = Some v \<Longrightarrow> fv_deployed_at v \<noteq> None"
proof (cases "\<exists>r n. hm_get (sr_records s) flow_id = Some r \<and> rollback_target r = Some n")
  case True
  then obtain r n where r: "hm_get (sr_records s) flow_id = Some r" and n: "rollback_target r = Some n" by blast
  obtain v where v: "v \<in> set (fr_versions r)" "rollback_candidate r v" "fv_version v = n"
    using rollback_target_candidate [OF n] by blast
  have "distinct (map fv_version (fr_versions r))"
    using records_okD(3) [OF server_okD(1) [OF assms(1)] r] by (rule history_okD)
  then have same: "u = v" if "record_version r n = Some u" for u
    using record_version_in [OF that] v(1,3) by (auto simp: distinct_map inj_on_def)
  show ?thesis
  proof (rule target)
    show "activate E oc flow_id n start True s = Some (q, s')" using assms(2) r n by (simp add: rollback_def)
    show "fv_deployed_at u \<noteq> None" if "hm_get (sr_records s) flow_id = Some r'" "record_version r' n = Some u" for r' u
      using that r same v(2) by (auto simp: rollback_candidate_def)
  qed
next
  case False
  with assms(2) refused show ?thesis by (auto simp: rollback_def split: option.splits)
qed

lemma rollback_ok:
  assumes "codec_ok E" "server_ok E s" "rollback E oc flow_id start s = Some (q, s')"
  shows "server_ok E s'"
  using assms(2,3)
proof (cases rule: rollback_cases)
  case refused
  with assms(2) show ?thesis by simp
next
  case (target n)
  then show ?thesis by (intro activate_ok [OF assms(1,2)])
qed

lemma stop_at_keeps:
  assumes "server_ok E s" "k < length (sr_supervisors s)" "stop_at E now drained k s = (r, s')"
  shows "server_ok E s'"
proof -
  note st = stop_at_ok(1) [OF server_okD(2) [OF assms(1)] assms(2,3)] and fr = stop_at_frame [OF assms(3)]
  show ?thesis by (rule same_rest_ok [OF assms(1) fr(1) st]) (simp_all add: fr(2) runs_def)
qed

lemma start_at_keeps:
  assumes "server_ok E s" "supervisor_of flow_id s = Some k" "start_at E now init k s = Some (r, s')"
  shows "server_ok E s'"
proof -
  note o = server_okD(2) [OF assms(1)]
  from assms(2) have k: "registered k s" "k < length (sr_supervisors s)"
    using runtime_okD(2) [OF o] by (auto simp: supervisor_of_def registered_def)
  note st = start_at_ok(2) [OF o k(2) assms(3)] and fr = start_at_frame [OF assms(3)]
  show ?thesis by (rule same_rest_ok [OF assms(1) fr(1)]) (use st k(1) fr(2) in \<open>simp_all add: runs_def\<close>)
qed

lemma stop_and_unload_ok:
  assumes ok: "server_ok E s" and run: "stop_and_unload E now drained flow_id s = (q, s')"
  shows "server_ok E s'"
proof (cases "hm_get (sr_running s) flow_id")
  case None
  with ok run show ?thesis by (simp add: stop_and_unload_def unload_take_def)
next
  case (Some p)
  note o = server_okD(2) [OF ok]
  define oc where "oc = \<lparr> oc_now = now, oc_repository = Inr (), oc_drained = drained, oc_init = None, oc_restart = None, oc_persist = True \<rparr>"
  obtain t s2 where t: "take_previous E oc flow_id s = (t, s2)" by fastforce
  have s': "s' = s2"
    using run t Some by (auto simp: stop_and_unload_def unload_take_def unload_finish_def take_previous_def oc_def
      split: prod.splits sum.splits)
  note tk = take_previous_ok [OF o t]
  show ?thesis
  proof (cases t)
    case (Inl e)
    then have r: "sr_running s2 = hm_insert flow_id p (hm_remove flow_id (sr_running s))" using tk(3) Some by simp
    show ?thesis unfolding s'
      by (rule same_rest_ok [OF ok tk(2,1)]) (use runs_fun_eq [OF r Some refl refl] runtime_okD(1) [OF o] in auto)
  next
    case (Inr u)
    then have r: "sr_running s2 = hm_remove flow_id (sr_running s)" using tk(4) by simp
    show ?thesis unfolding s'
      by (rule same_rest_ok [OF ok tk(2,1)]) (auto simp: r runs_def length_hm_remove split: if_splits)
  qed
qed

text \<open>A change of a supervisor that keeps it quiet and starts no task.\<close>

definition on_supervisor :: "nat \<Rightarrow> (supervisor \<Rightarrow> supervisor) \<Rightarrow> server \<Rightarrow> server" where
  "on_supervisor k f s =
     (let su = sr_supervisors s ! k
      in s\<lparr>sr_supervisors := (sr_supervisors s)[k := su\<lparr>su_supervisor := f (su_supervisor su)\<rparr>]\<rparr>)"

lemma on_supervisor_ok:
  assumes "server_ok E s" "k < length (sr_supervisors s)"
    and f: "\<And>sv. sv_quiet sv \<Longrightarrow> sv_quiet (f sv) \<and> live (f sv) \<subseteq> live sv"
  shows "server_ok E (on_supervisor k f s)"
proof -
  note o = server_okD(2) [OF assms(1)]
  note q = f [OF runtime_okD(4) [OF o assms(2)]]
  have run: "runtime_ok {} (on_supervisor k f s)"
  proof (rule runtime_ok_update [OF o])
    show "sv_quiet (f (supervisor_at s k))" using q by simp
    show "live (f (supervisor_at s k)) = {} \<or> registered k s \<or> k \<in> {}"
      using q runtime_okD(5) [OF o assms(2)] by blast
  qed (simp_all add: on_supervisor_def Let_def)
  have "same_rest s (on_supervisor k f s)" by (simp add: same_rest_def on_supervisor_def Let_def)
  then show ?thesis by (rule same_rest_ok [OF assms(1) _ run]) (simp_all add: on_supervisor_def runs_def Let_def)
qed

lemma control_quiet:
  assumes "sv_quiet sv"
  shows "sv_quiet (snd (sv_pause now sv)) \<and> live (snd (sv_pause now sv)) \<subseteq> live sv"
    "sv_quiet (snd (sv_resume now sv)) \<and> live (snd (sv_resume now sv)) \<subseteq> live sv"
    "sv_quiet (snd (sv_drain now sv)) \<and> live (snd (sv_drain now sv)) \<subseteq> live sv"
  using assms
  by (auto simp: sv_quiet_def sv_inv_def sv_owned_def sv_pause_def sv_resume_def sv_drain_def live_def split: prod.split)

lemma run_end_quiet:
  assumes "sv_quiet sv"
  shows "sv_quiet (run_end display now i error sv) \<and> live (run_end display now i error sv) \<subseteq> live sv"
proof -
  have tasks: "sv_tasks (run_end display now i error sv) = (sv_tasks sv)[i := Finished error]"
    "sv_task (run_end display now i error sv) = sv_task sv" "sv_stopping (run_end display now i error sv) = sv_stopping sv"
    "sv_joining (run_end display now i error sv) = sv_joining sv"
    by (simp_all add: run_end_def split: option.split)
  have "x \<in> live sv" if "x \<in> live (run_end display now i error sv)" for x
    using that tasks by (cases "x = i") (auto simp: live_def)
  then have "live (run_end display now i error sv) \<subseteq> live sv" by blast
  with assms tasks show ?thesis by (auto simp: sv_quiet_def sv_inv_def sv_owned_def)
qed

text \<open>The flow that the command line serves.\<close>

lemma seed_ok:
  assumes codec: "codec_ok E" and ok: "server_ok E s" and empty: "sr_running s = []"
    and new: "new_supervisor now fc s = (k, s1)" and start: "start_at E now init k s1 = Some (t, s2)"
    and seed: "seed_running E now ok source k repository s2 = (q, s')"
  shows "server_ok E s'"
proof -
  note o = server_okD [OF ok]
  note n = runtime_ok_new [OF o(2) new] and fr = start_at_frame [OF start]
  have k: "k < length (sr_supervisors s1)" using n(5) by simp
  note st = start_at_ok [OF n(1) k start]
  have s2: "sr_running s2 = []" "sr_records s2 = sr_records s" "sr_file s2 = sr_file s" "sr_max_concurrent s2 = sr_max_concurrent s"
    using fr n empty by (simp_all add: same_rest_def)
  define flow_id where "flow_id = fc_id (su_config (sr_supervisors s2 ! k))"
  define old where "old = record_or_new now flow_id s"
  define r where "r = mark_served now source (ev_checksum E source) old"
  define p where "p = \<lparr> rf_version = next_version old, rf_source = source, rf_supervisor = k, rf_repository = repository \<rparr>"
  define s3 where "s3 = s2\<lparr>sr_records := hm_insert flow_id r (sr_records s)\<rparr>"
  define s4 where "s4 = set_running flow_id p s3"
  note old = record_or_new_ok [OF ok, of now flow_id, folded old_def]
  note m = mark_served_ok [OF old(1), where now = now and source = source and digest = "ev_checksum E source", folded r_def]
  have u: "served_version (next_version old) now source (ev_checksum E source) \<in> set (fr_versions r)"
  proof -
    have "\<exists>v\<in>set (fr_versions old). fv_version v = a \<and> a < next_version old" if "fr_active_version old = Some a" for a
      using history_okD(3) [OF old(1) that] next_version_new by fastforce
    then show ?thesis
      by (auto simp: r_def mark_served_def Let_def push_version_def with_version_def update_first_append
          split: option.splits)
  qed
  have fin: "persist E ok s4 = (q, s')"
    using seed by (simp add: seed_running_def Let_def flow_id_def [symmetric] s2 record_or_new_def [symmetric] old_def [symmetric] r_def [symmetric]
        p_def [symmetric] s3_def [symmetric] s4_def [symmetric])
  have "runtime_ok {} s4" unfolding s4_def
  proof (rule set_fresh_ok)
    show "runtime_ok {rf_supervisor p} s3"
      using runtime_ok_cong [OF st(1), of s3] by (simp add: s3_def p_def)
    show "rf_supervisor p < length (sr_supervisors s3)" using k st(5) by (simp add: s3_def p_def)
    show "hm_get (sr_running s3) flow_id = None" "\<not> registered (rf_supervisor p) s3"
      using s2(1) by (simp_all add: s3_def registered_def)
  qed
  have "server_ok E s4"
  proof (rule deployed_ok [OF ok m(1) _ _ u])
    show "fr_id r = flow_id" using m(3) old(2) by simp
    show "fr_active_version r = Some (next_version old)" by (simp add: r_def mark_active)
    show "sr_records s4 = hm_insert flow_id r (sr_records s)" "sr_max_concurrent s4 = sr_max_concurrent s"
      by (simp_all add: s4_def set_running_def s3_def s2)
    show "file_ok E s4" using o(4) by (simp add: s4_def set_running_def s3_def s2 file_ok_def)
    show "length (sr_running s4) \<le> sr_max_concurrent s" using o(6) by (simp add: s4_def set_running_def s3_def s2)
    show "runs a s4 = runs a s" if "a \<noteq> flow_id" for a using that empty s2(1) by (simp add: s4_def s3_def) (simp add: runs_def)
    show "runs flow_id s4 \<in> {None, Some (next_version old, fv_source (served_version (next_version old) now source (ev_checksum E source)))}"
      by (simp add: s4_def p_def served_version_def)
  qed (fact | simp add: served_version_def)+
  from persist_ok [OF codec this fin] show ?thesis .
qed

text \<open>A process that starts anew from what is on disk.\<close>

lemma fold_insert_records:
  assumes "distinct (map fr_id rs)" "records_ok m" "\<And>r. r \<in> set rs \<Longrightarrow> history_ok r"
  shows "records_ok (fold (\<lambda>r. hm_insert (fr_id r) r) rs m)"
    "hm_get (fold (\<lambda>r. hm_insert (fr_id r) r) rs m) a =
      (case find (\<lambda>r. fr_id r = a) rs of None \<Rightarrow> hm_get m a | Some r \<Rightarrow> Some r)"
  using assms
proof (induction rs arbitrary: m)
  case Nil
  { case 1 then show ?case by simp next case 2 then show ?case by simp }
next
  case (Cons r rs)
  { case 1
    then have "history_ok r" by simp
    then have "records_ok (hm_insert (fr_id r) r m)" using 1(2) records_ok_insert by blast
    with 1 Cons.IH(1) [of "hm_insert (fr_id r) r m"] show ?case by simp
  next
    case 2
    then have "history_ok r" by simp
    then have "records_ok (hm_insert (fr_id r) r m)" using 2(2) records_ok_insert by blast
    moreover have "find (\<lambda>x. fr_id x = fr_id r) rs = None" using 2(1) by (simp add: find_None_iff) (metis imageI)
    ultimately show ?case using 2 Cons.IH(2) [of "hm_insert (fr_id r) r m"] by (auto split: option.split)
  }
qed

lemma registry_new_ok [simp]: "1 \<le> sr_max_concurrent (registry_new dir m data_file)" "sr_records (registry_new dir m data_file) = []"
  "sr_running (registry_new dir m data_file) = []" "sr_file (registry_new dir m data_file) = data_file"
  by (simp_all add: registry_new_def)

lemma serve_registry_ok:
  assumes "file_ok E (registry_new dir m data_file)"
  shows "server_ok E (serve_registry E readable dir m data_file)"
proof -
  define s where "s = serve_registry E readable dir m data_file"
  have empty: "records_ok []" by (simp add: records_ok_def)
  have "s = (registry_new dir m data_file)\<lparr>sr_records := sr_records s\<rparr>"
    by (auto simp: s_def serve_registry_def load_def split: option.split)
  then have keep: "sr_running s = []" "sr_supervisors s = []" "sr_file s = data_file" "1 \<le> sr_max_concurrent s"
    by (metis registry_new_ok server.select_convs server.update_convs registry_new_def)+
  have "records_ok (sr_records s)"
  proof (cases "\<exists>bytes rs. data_file = Some bytes \<and> readable \<and> dir \<and> ev_from_slice E bytes = Some rs")
    case True
    then obtain bytes rs where b: "data_file = Some bytes" "readable" dir "ev_from_slice E bytes = Some rs" by blast
    then have "sr_records s = fold (\<lambda>r. hm_insert (fr_id r) r) rs []"
      by (simp add: s_def serve_registry_def load_def registry_new_def)
    with assms b fold_insert_records(1) [of rs "[]"] empty show ?thesis by (simp add: file_ok_def)
  next
    case False
    then have "sr_records s = []"
      by (auto simp: s_def serve_registry_def load_def registry_new_def split: option.splits)
    then show ?thesis using empty by simp
  qed
  moreover have "runtime_ok {} s" "runs_ok s" by (simp_all add: runtime_ok_def runs_ok_def runs_def keep)
  moreover have "file_ok E s" using assms by (simp add: file_ok_def keep)
  ultimately have "server_ok E s" using keep by (simp add: server_ok_def)
  then show ?thesis by (simp add: s_def)
qed

section \<open>Steps\<close>

lemma stop_all_ok:
  assumes "server_ok E s"
  shows "server_ok E (stop_all E now drained s) \<and> same_rest s (stop_all E now drained s)"
proof -
  have "server_ok E t \<and> same_rest s t \<Longrightarrow>
      \<forall>x\<in>set ps. rf_supervisor (snd x) < length (sr_supervisors s) \<Longrightarrow>
      server_ok E (fold (\<lambda>(_, p) s. snd (stop_at E now (drained (rf_supervisor p)) (rf_supervisor p) s)) ps t) \<and>
      same_rest s (fold (\<lambda>(_, p) s. snd (stop_at E now (drained (rf_supervisor p)) (rf_supervisor p) s)) ps t)" for t and ps :: "running_flow hmap"
  proof (induction ps arbitrary: t)
    case Nil
    then show ?case by simp
  next
    case (Cons x ps)
    obtain a p where x: "x = (a, p)" by (cases x)
    obtain r t' where st: "stop_at E now (drained (rf_supervisor p)) (rf_supervisor p) t = (r, t')" by fastforce
    have "rf_supervisor p < length (sr_supervisors t)" using Cons.prems x by (auto simp: same_rest_def)
    with Cons.prems st have "server_ok E t'" by (auto intro: stop_at_keeps)
    moreover have "same_rest s t'" using Cons.prems(1) stop_at_frame(1) [OF st] same_rest_trans by blast
    ultimately show ?case using Cons.IH [of t'] Cons.prems(2) by (simp add: x st)
  qed
  moreover have "rf_supervisor (snd x) < length (sr_supervisors s)" if "x \<in> set (sr_running s)" for x
  proof -
    have "hm_get (sr_running s) (fst x) = Some (snd x)"
      using that runtime_okD(1) [OF server_okD(2) [OF assms]] by (simp add: hm_get_Some_iff)
    then show ?thesis by (rule runtime_okD(2) [OF server_okD(2) [OF assms]])
  qed
  ultimately show ?thesis using assms by (simp add: stop_all_def)
qed

text \<open>A call of the running server, or the end of a task.\<close>

inductive server_call :: "registry_env \<Rightarrow> server \<Rightarrow> server \<Rightarrow> bool" for E where
  create: "create_draft E now ok source note s = (r, s') \<Longrightarrow> server_call E s s'"
| validate: "validate_version E now ok flow_id version s = Some (r, s') \<Longrightarrow> server_call E s s'"
| archive: "archive_version E now ok flow_id version s = (r, s') \<Longrightarrow> server_call E s s'"
| deploy: "deploy_version E oc flow_id version start s = Some (q, s') \<Longrightarrow> server_call E s s'"
| rollback: "rollback E oc flow_id start s = Some (q, s') \<Longrightarrow> server_call E s s'"
| unload: "stop_and_unload E now drained flow_id s = (r, s') \<Longrightarrow> server_call E s s'"
| seed: "\<lbrakk> sr_running s = []; new_supervisor now fc s = (k, s1); start_at E now init k s1 = Some (t, s2);
    seed_running E now ok source k repository s2 = (r, s') \<rbrakk> \<Longrightarrow> server_call E s s'"
| start: "\<lbrakk> supervisor_of flow_id s = Some k; start_at E now init k s = Some (t, s') \<rbrakk> \<Longrightarrow> server_call E s s'"
| stop: "\<lbrakk> supervisor_of flow_id s = Some k; stop_at E now drained k s = (r, s') \<rbrakk> \<Longrightarrow> server_call E s s'"
| pause: "supervisor_of flow_id s = Some k \<Longrightarrow> server_call E s (on_supervisor k (\<lambda>sv. snd (sv_pause now sv)) s)"
| resume: "supervisor_of flow_id s = Some k \<Longrightarrow> server_call E s (on_supervisor k (\<lambda>sv. snd (sv_resume now sv)) s)"
| drain: "supervisor_of flow_id s = Some k \<Longrightarrow> server_call E s (on_supervisor k (\<lambda>sv. snd (sv_drain now sv)) s)"
| task_end: "\<lbrakk> k < length (sr_supervisors s); i \<in> live (supervisor_at s k) \<rbrakk> \<Longrightarrow>
    server_call E s (on_supervisor k (run_end (ev_display E) now i error) s)"
| stop_all: "server_call E s (stop_all E now drained s)"

inductive_cases server_callE: "server_call E s s'"

inductive server_reachable :: "registry_env \<Rightarrow> server \<Rightarrow> bool" for E where
  init: "server_reachable E (serve_registry E readable dir m None)"
| call: "server_reachable E s \<Longrightarrow> server_call E s s' \<Longrightarrow> server_reachable E s'"
| restart: "server_reachable E s \<Longrightarrow> server_reachable E (serve_registry E readable (sr_dir s) m (sr_file s))"

lemma supervisor_of_less: "server_ok E s \<Longrightarrow> supervisor_of flow_id s = Some k \<Longrightarrow> k < length (sr_supervisors s)"
  using runtime_okD(2) [OF server_okD(2)] by (auto simp: supervisor_of_def)

lemma server_call_ok:
  assumes "codec_ok E" "server_ok E s" "server_call E s s'"
  shows "server_ok E s'"
  using assms(3)
proof (cases rule: server_call.cases)
  case (create now ok source remark r)
  then show ?thesis by (rule create_draft_ok [OF assms(1,2)])
next
  case (validate now ok flow_id version r)
  then show ?thesis by (rule validate_version_ok [OF assms(1,2)])
next
  case (archive now ok flow_id version r)
  then show ?thesis by (rule archive_version_ok [OF assms(1,2)])
next
  case (deploy oc flow_id version start q)
  then show ?thesis by (intro activate_ok [OF assms(1,2)]) (auto simp: deploy_version_def)
next
  case (rollback oc flow_id start q)
  then show ?thesis by (rule rollback_ok [OF assms(1,2)])
next
  case (unload now drained flow_id r)
  then show ?thesis by (rule stop_and_unload_ok [OF assms(2)])
next
  case (seed now fc k s1 init t s2 ok source repository r)
  then show ?thesis by (rule seed_ok [OF assms(1,2)])
next
  case (start flow_id k now init t)
  then show ?thesis by (rule start_at_keeps [OF assms(2)])
next
  case (stop flow_id k now drained r)
  then show ?thesis using stop_at_keeps [OF assms(2) supervisor_of_less [OF assms(2)]] by blast
next
  case (pause flow_id k now)
  then show ?thesis using on_supervisor_ok [OF assms(2) supervisor_of_less [OF assms(2)] control_quiet(1)] by simp
next
  case (resume flow_id k now)
  then show ?thesis using on_supervisor_ok [OF assms(2) supervisor_of_less [OF assms(2)] control_quiet(2)] by simp
next
  case (drain flow_id k now)
  then show ?thesis using on_supervisor_ok [OF assms(2) supervisor_of_less [OF assms(2)] control_quiet(3)] by simp
next
  case (task_end k i now error)
  then show ?thesis using on_supervisor_ok [OF assms(2) _ run_end_quiet] by simp
next
  case (stop_all now drained)
  then show ?thesis using stop_all_ok [OF assms(2)] by simp
qed

lemma server_reachable_ok: "server_reachable E s \<Longrightarrow> codec_ok E \<Longrightarrow> server_ok E s"
proof (induction rule: server_reachable.induct)
  case (init readable dir m)
  then show ?case by (intro serve_registry_ok) (simp add: file_ok_def)
next
  case (call s s')
  then show ?case using server_call_ok by blast
next
  case (restart s readable m)
  then have "file_ok E (registry_new (sr_dir s) m (sr_file s))" by (simp add: server_ok_def file_ok_def)
  then show ?case by (rule serve_registry_ok)
qed

end
