(* ===== verification/Server_Lifecycle.thy ===== *)
theory Server_Lifecycle
  imports Server_Steps "HOL-Library.Countable"
begin

text \<open>What the registry promises, over all sequences of calls and restarts.\<close>

section \<open>An environment to evaluate in\<close>

text \<open>A document is its flow id; the flow is a small one that validates.\<close>

definition example_document :: document_env where
  "example_document =
     \<lparr> dv_yaml = (\<lambda>source. Inr (example_fc\<lparr>fc_id := source\<rparr>)), dv_parse_cron = (\<lambda>_. Inr ()), dv_known_tz = (\<lambda>_. True),
       dv_order = rev, dv_env = example_env, dv_build = (\<lambda>_ _. Inr ()) \<rparr>"

definition version_parts :: "flow_version \<Rightarrow> nat \<times> nat \<times> string \<times> string \<times> nat \<times> nat option \<times> nat option \<times> nat option \<times> string option" where
  "version_parts v =
     (fv_version v, (case fv_state v of Draft \<Rightarrow> 0 | Validated \<Rightarrow> 1 | Deployed \<Rightarrow> 2 | Archived \<Rightarrow> 3), fv_source v, fv_checksum v,
      fv_created_at v, fv_validated_at v, fv_deployed_at v, fv_archived_at v, fv_note v)"

definition version_of_parts :: "nat \<times> nat \<times> string \<times> string \<times> nat \<times> nat option \<times> nat option \<times> nat option \<times> string option \<Rightarrow> flow_version" where
  "version_of_parts = (\<lambda>(n, st, source, digest, created, validated, deployed, archived, remark).
     \<lparr> fv_version = n, fv_state = (if st = 0 then Draft else if st = 1 then Validated else if st = 2 then Deployed else Archived),
       fv_source = source, fv_checksum = digest, fv_created_at = created, fv_validated_at = validated,
       fv_deployed_at = deployed, fv_archived_at = archived, fv_note = remark \<rparr>)"

definition record_parts where
  "record_parts r = (fr_id r, map version_parts (fr_versions r), fr_active_version r, fr_created_at r, fr_updated_at r)"

definition record_of_parts where
  "record_of_parts = (\<lambda>(i, vs, active, created, updated).
     \<lparr> fr_id = i, fr_versions = map version_of_parts vs, fr_active_version = active, fr_created_at = created, fr_updated_at = updated \<rparr>)"

definition example_registry :: registry_env where
  "example_registry =
     \<lparr> ev_document = example_document, ev_display = (\<lambda>_. []), ev_checksum = (\<lambda>_. ''sha''),
       ev_to_vec = (\<lambda>rs. show_nat (to_nat (map record_parts rs))),
       ev_from_slice = (\<lambda>bytes. Some (map record_of_parts (from_nat (digits_value bytes)))) \<rparr>"

lemma version_of_parts: "version_of_parts (version_parts v) = v"
  by (cases v) (auto simp: version_of_parts_def version_parts_def split: flow_version_state.split)

lemma record_of_parts: "record_of_parts (record_parts r) = r"
proof -
  have "map version_of_parts (map version_parts vs) = vs" for vs by (induction vs) (simp_all add: version_of_parts)
  then show ?thesis by (cases r) (simp add: record_of_parts_def record_parts_def)
qed

lemma registry_codec_ok: "codec_ok example_registry"
proof -
  have "map record_of_parts (map record_parts rs) = rs" for rs by (induction rs) (simp_all add: record_of_parts)
  then show ?thesis by (simp add: codec_ok_def example_registry_def show_nat_props)
qed

lemma example_new_id:
  "flow_engine_new rev example_env (example_fc\<lparr>fc_id := i\<rparr>) = Some (Inr (example_resolved\<lparr>fc_id := i\<rparr>))"
proof -
  have "build rev (example_fc\<lparr>fc_id := i\<rparr>) \<noteq> None" "is_ok (the (build rev (example_fc\<lparr>fc_id := i\<rparr>)))"
    by (simp_all add: build_def example_defs)
  moreover have "resolve_processor_parameters example_env (example_fc\<lparr>fc_id := i\<rparr>) = Some (Inr (example_resolved\<lparr>fc_id := i\<rparr>))"
    using example_resolve by (simp add: resolve_processor_parameters_def example_defs split: option.splits sum.splits)
  moreover have "validate (example_resolved\<lparr>fc_id := i\<rparr>) = Inr ()"
    by (simp add: example_validate_defs)
  ultimately show ?thesis by (auto simp: flow_engine_new_def is_ok_iff)
qed

lemma example_checks:
  "fc_schedule (example_fc\<lparr>fc_id := i\<rparr>) = None" "fc_database_connections (example_fc\<lparr>fc_id := i\<rparr>) = []"
  "fc_kafka_connections (example_fc\<lparr>fc_id := i\<rparr>) = []" "mc_maximum_percent (ec_memory (fc_engine (example_fc\<lparr>fc_id := i\<rparr>))) = 42"
  "check_processors (\<lambda>_ _. Inr ()) (example_fc\<lparr>fc_id := i\<rparr>) (fc_processors (example_fc\<lparr>fc_id := i\<rparr>)) = Inr ()"
  by (simp_all add: example_defs engine_default_def memory_default_def default_memory_percent_def check_connection_def)

lemma example_parse:
  "trim source \<noteq> [] \<Longrightarrow> parse_and_validate example_document source = Some (Inr (example_fc\<lparr>fc_id := source\<rparr>))"
  unfolding parse_and_validate_def document_checks_def engine_for_def
  by (simp add: example_document_def example_new_id example_checks [simplified])

text \<open>A registry without a directory, room for one flow: a version is created, validated, deployed.\<close>

definition example_validated :: "nat \<Rightarrow> string \<Rightarrow> flow_version" where
  "example_validated n source = (draft_version n 1 source ''sha'' None)\<lparr>fv_state := Validated, fv_validated_at := Some 2\<rparr>"

definition example_record :: "string \<Rightarrow> flow_version list \<Rightarrow> nat option \<Rightarrow> nat \<Rightarrow> flow_record" where
  "example_record flow_id vs active now =
     \<lparr> fr_id = flow_id, fr_versions = vs, fr_active_version = active, fr_created_at = 1, fr_updated_at = now \<rparr>"

definition example_running_sv :: "nat \<Rightarrow> supervisor" where
  "example_running_sv now = snd (sv_start_flow (\<lambda>_. []) now (Inr ()) None (supervisor_new now))"

definition example_empty :: server where
  "example_empty = registry_new False 1 None"

definition example_draft :: server where
  "example_draft = example_empty\<lparr>sr_records := [(''f'', example_record ''f'' [draft_version 1 1 ''f'' ''sha'' None] None 1)]\<rparr>"

definition example_idle :: server where
  "example_idle = example_empty\<lparr>sr_records := [(''f'', example_record ''f'' [example_validated 1 ''f''] None 2)]\<rparr>"

definition example_call :: deploy_call where
  "example_call =
     \<lparr> oc_now = 3, oc_repository = Inr (), oc_drained = Some None, oc_init = None, oc_restart = None, oc_persist = True \<rparr>"

definition example_server :: server where
  "example_server = example_empty
     \<lparr>sr_records := [(''f'', example_record ''f'' [(example_validated 1 ''f'')\<lparr>fv_state := Deployed, fv_deployed_at := Some 3\<rparr>] (Some 1) 3)],
      sr_running := [(''f'', newer_flow 1 ''f'' 0 (example_fc\<lparr>fc_id := ''f''\<rparr>))],
      sr_supervisors := [\<lparr> su_config = example_fc\<lparr>fc_id := ''f''\<rparr>, su_supervisor = example_running_sv 3 \<rparr>]\<rparr>"

lemma trim_flow_ids [simp]: "trim ''f'' = ''f''" "trim ''g'' = ''g''"
  unfolding trim_def by (simp_all add: trim_start_noop trim_end_noop white_space_def starts_with_def)

lemma registry_example_fields [simp]:
  "ev_document example_registry = example_document" "dv_yaml example_document source = Inr (example_fc\<lparr>fc_id := source\<rparr>)"
  "ev_display example_registry = (\<lambda>_. [])" "ev_checksum example_registry source = ''sha''"
  by (simp_all add: example_registry_def example_document_def)

lemma example_engine: "engine_for example_document (example_fc\<lparr>fc_id := i\<rparr>) = Some (Inr ())"
  unfolding engine_for_def by (simp add: example_document_def example_new_id)

lemma example_repository: "rc_enabled (ec_repository (fc_engine (example_fc\<lparr>fc_id := i\<rparr>))) = False"
  by (simp add: example_defs engine_default_def repository_default_def)

lemmas registry_defs = registry_new_def persist_def new_record_def draft_version_def push_version_def next_version_def
  record_version_def with_version_def version_source_def

lemmas deploy_defs = deploy_version_def activate_def activate_checks_def take_previous_def start_new_def deploy_entry_def
  new_supervisor_def set_running_def start_at_def stop_at_def mark_deployed_def

lemma example_created:
  "create_draft example_registry 1 True ''f'' None example_empty = (Inr (''f'', 1), example_draft)"
  by (simp add: create_draft_def registry_defs Let_def example_draft_def example_record_def example_empty_def)

lemma example_validated_step: "validate_version example_registry 2 True ''f'' 1 example_draft = Some (Inr (), example_idle)"
  by (simp add: validate_version_def validate_entry_def example_parse mark_validated_def registry_defs
      example_idle_def example_draft_def example_record_def example_validated_def example_empty_def)

lemma example_deployed:
  "deploy_version example_registry example_call ''f'' 1 True example_idle = Some (Inr 0, example_server)"
  unfolding deploy_defs Let_def
  by (simp add: example_idle_def example_record_def example_validated_def example_empty_def example_parse example_call_def
      example_repository [simplified] example_engine [simplified] registry_defs example_server_def example_running_sv_def
      newer_flow_def sv_start_flow_def sv_start_def supervisor_new_def Let_def)

lemma example_reachable:
  "server_reachable example_registry example_empty" "server_reachable example_registry example_idle"
  "server_reachable example_registry example_server"
proof -
  have "serve_registry example_registry True False 1 None = example_empty"
    by (simp add: serve_registry_def load_def example_empty_def registry_new_def)
  then show e: "server_reachable example_registry example_empty" using server_reachable.init by metis
  have "server_reachable example_registry example_draft"
    by (rule server_reachable.call [OF e server_call.create [OF example_created]])
  then show i: "server_reachable example_registry example_idle"
    by (rule server_reachable.call [OF _ server_call.validate [OF example_validated_step]])
  show "server_reachable example_registry example_server"
    by (rule server_reachable.call [OF i server_call.deploy [OF example_deployed]])
qed

section \<open>Histories\<close>

text \<open>
  C23. In every state that calls and restarts reach, the record of a flow has its id, its version
  numbers are distinct, at most one version is deployed and that one is the active version, and
  a version that was ever deployed was validated before.
\<close>

theorem registry_history:
  assumes "server_reachable E s" "codec_ok E" "get_record flow_id s = Some r"
  shows "fr_id r = flow_id \<and> distinct (map fv_version (fr_versions r)) \<and>
    card {v \<in> set (fr_versions r). fv_state v = Deployed} \<le> 1 \<and>
    (\<forall>v\<in>set (fr_versions r). (fv_state v = Deployed \<longrightarrow> fr_active_version r = Some (fv_version v)) \<and>
      (fv_deployed_at v \<noteq> None \<longrightarrow> fv_validated_at v \<noteq> None))"
proof -
  have r: "hm_get (sr_records s) flow_id = Some r" using assms(3) by (simp add: get_record_def)
  note o = records_okD [OF server_okD(1) [OF server_reachable_ok [OF assms(1,2)]]]
  note h = history_okD [OF o(3) [OF r]]
  have same: "v = w" if "v \<in> set (fr_versions r)" "w \<in> set (fr_versions r)" "fv_state v = Deployed" "fv_state w = Deployed" for v w
    using that h(2) [OF that(1)] h(2) [OF that(2)] h(1) by (auto simp: distinct_map inj_on_def)
  have "card {v \<in> set (fr_versions r). fv_state v = Deployed} \<le> 1"
  proof (cases "\<exists>v\<in>set (fr_versions r). fv_state v = Deployed")
    case True
    then obtain v where "v \<in> set (fr_versions r)" "fv_state v = Deployed" by blast
    then have "{v \<in> set (fr_versions r). fv_state v = Deployed} \<subseteq> {v}" using same by blast
    from card_mono [OF _ this] show ?thesis by simp
  next
    case False
    then have "{v \<in> set (fr_versions r). fv_state v = Deployed} = {}" by blast
    then show ?thesis by (metis card.empty le0)
  qed
  then show ?thesis using o(2) [OF r] h(1,2) by blast
qed

lemma registry_history_witness:
  "card {v \<in> set (fr_versions (example_record ''f'' [(example_validated 1 ''f'')\<lparr>fv_state := Deployed, fv_deployed_at := Some 3\<rparr>] (Some 1) 3)).
     fv_state v = Deployed} \<le> 1"
  using registry_history [OF example_reachable(3) registry_codec_ok, of "''f''"]
  by (simp add: get_record_def example_server_def)

text \<open>A call only appends to histories.\<close>

definition records_grow :: "server \<Rightarrow> server \<Rightarrow> bool" where
  "records_grow s s' \<longleftrightarrow> (\<forall>flow_id r. hm_get (sr_records s) flow_id = Some r \<longrightarrow>
     (\<exists>r'. hm_get (sr_records s') flow_id = Some r' \<and> grows r r'))"

lemma records_grow_same: "sr_records s' = sr_records s \<Longrightarrow> records_grow s s'"
  by (simp add: records_grow_def)

lemma records_grow_insert:
  assumes "sr_records s' = hm_insert flow_id r' (sr_records s)"
    and "\<And>r. hm_get (sr_records s) flow_id = Some r \<Longrightarrow> grows r r'"
  shows "records_grow s s'"
  using assms by (auto simp: records_grow_def)

lemma records_grow_change:
  "s' = s \<or> (\<exists>r r'. hm_get (sr_records s) flow_id = Some r \<and> grows r r' \<and> sr_records s' = hm_insert flow_id r' (sr_records s)) \<Longrightarrow>
    records_grow s s'"
  by (auto simp: records_grow_def)

lemma records_grow_activate:
  assumes "server_ok E s" "activate E oc flow_id version start allow s = Some (q, s')"
    and "\<And>r v. hm_get (sr_records s) flow_id = Some r \<Longrightarrow> record_version r version = Some v \<Longrightarrow> allow \<Longrightarrow>
      fv_deployed_at v \<noteq> None"
  shows "records_grow s s'"
proof (cases q)
  case (Inl e)
  then show ?thesis
    using activate_failed(2) [OF server_okD(2) [OF assms(1)]] assms(2) by (auto simp: same_rest_def intro!: records_grow_same)
next
  case (Inr k)
  note rec = records_okD [OF server_okD(1) [OF assms(1)]]
  from server_okD(2) [OF assms(1)] assms(2) [unfolded Inr] show ?thesis
  proof (cases rule: activate_deployed)
    case (1 r v fc)
    have v: "v \<in> set (fr_versions r)" "fv_version v = version" using record_version_in [OF 1(2)] by simp_all
    have "fv_validated_at v \<noteq> None"
      using 1(3) assms(3) [OF 1(1,2)] 1(4) history_okD(2) [OF rec(3) [OF 1(1)] v(1)] by (cases "fv_state v") auto
    from mark_deployed_ok(2) [OF rec(3) [OF 1(1)] v this] 1(1) show ?thesis by (intro records_grow_insert [OF 1(7)]) simp
  qed
qed

lemma records_grow_call:
  assumes "server_ok E s" "server_call E s s'"
  shows "records_grow s s'"
  using assms(2)
proof (cases rule: server_call.cases)
  case (create now ok source remark r)
  from create show ?thesis
  proof (cases rule: create_draft_cases)
    case (rejected e)
    then show ?thesis by (intro records_grow_same) simp
  next
    case (stored flow_id old v t)
    show ?thesis
      by (rule records_grow_insert [where flow_id = flow_id and r' = "push_version now v old"])
        (simp_all add: persist_frame(1) [OF stored(3)] stored(1) record_or_new_def push_version_def grows_def)
  qed
next
  case (validate now ok flow_id version r)
  then have "s' = s \<or> (\<exists>r. hm_get (sr_records s) flow_id = Some r \<and> sr_records s' = hm_insert flow_id (mark_validated now version r) (sr_records s))"
    by (auto simp: validate_version_def validate_entry_def dest!: persist_frame(1)
        split: sum.splits option.splits prod.splits if_splits)
  then show ?thesis
    using mark_validated_ok(2) [OF records_okD(3) [OF server_okD(1) [OF assms(1)]]]
    by (intro records_grow_change [of _ _ flow_id]) blast
next
  case (archive now ok flow_id version r)
  then have "s' = s \<or> (\<exists>r. hm_get (sr_records s) flow_id = Some r \<and> sr_records s' = hm_insert flow_id (mark_archived now version r) (sr_records s))"
    by (auto simp: archive_version_def archive_apply_def dest!: persist_frame(1) split: sum.splits option.splits prod.splits)
  then show ?thesis
    using mark_archived_ok(2) [OF records_okD(3) [OF server_okD(1) [OF assms(1)]]]
    by (intro records_grow_change [of _ _ flow_id]) blast
next
  case (deploy oc flow_id version start q)
  then show ?thesis by (intro records_grow_activate [OF assms(1)]) (auto simp: deploy_version_def)
next
  case (rollback oc flow_id start q)
  from assms(1) rollback show ?thesis
  proof (cases rule: rollback_cases)
    case refused
    then show ?thesis by (intro records_grow_same) simp
  next
    case (target n)
    then show ?thesis by (intro records_grow_activate [OF assms(1)])
  qed
next
  case (unload now drained flow_id r)
  then show ?thesis
    by (intro records_grow_same) (auto simp: stop_and_unload_def unload_take_def unload_finish_def set_running_def same_rest_def
        dest!: stop_at_frame(1) split: option.splits prod.splits sum.splits)
next
  case (seed now fc k s1 init t s2 ok source repository r)
  define flow_id where "flow_id = fc_id (su_config (sr_supervisors s2 ! k))"
  have rec: "sr_records s2 = sr_records s"
    using start_at_frame(1) [OF seed(3)] runtime_ok_new(4) [OF server_okD(2) [OF assms(1)] seed(2)] by (simp add: same_rest_def)
  have "sr_records s' = hm_insert flow_id (mark_served now source (ev_checksum E source) (record_or_new now flow_id s)) (sr_records s)"
    using persist_frame(1) [OF seed(4) [unfolded seed_running_def Let_def]]
    by (simp add: set_running_def rec record_or_new_def flow_id_def)
  then show ?thesis
    by (rule records_grow_insert)
      (use mark_served_ok(2) [OF record_or_new_ok(1) [OF assms(1), of now flow_id]] in \<open>simp add: record_or_new_def\<close>)
next
  case (start flow_id k now init t)
  then show ?thesis using start_at_frame(1) by (intro records_grow_same) (auto simp: same_rest_def)
next
  case (stop flow_id k now drained r)
  then show ?thesis using stop_at_frame(1) by (intro records_grow_same) (auto simp: same_rest_def)
next
  case (stop_all now drained)
  then show ?thesis using stop_all_ok [OF assms(1)] by (intro records_grow_same) (simp add: same_rest_def)
qed (auto intro!: records_grow_same simp: on_supervisor_def Let_def)

lemma find_imprint:
  assumes "map imprint ys = map imprint xs @ new" "find (\<lambda>v. fv_version v = n) xs = Some v"
  shows "\<exists>w. find (\<lambda>v. fv_version v = n) ys = Some w \<and> imprint w = imprint v"
  using assms
proof (induction xs arbitrary: ys)
  case Nil
  then show ?case by simp
next
  case (Cons x xs)
  then obtain y ys' where ys: "ys = y # ys'" "imprint y = imprint x" "map imprint ys' = map imprint xs @ new" by auto
  then have "fv_version y = fv_version x" by (simp add: imprint_def)
  then show ?case using Cons.IH [OF ys(3)] Cons.prems(2) ys(1,2) by (simp split: if_splits)
qed

text \<open>
  C24. A version is immutable: whatever is called, the version that a number of a flow names keeps
  its source, its checksum, its time of creation and its note, and is never removed.
\<close>

theorem versions_immutable:
  assumes "server_reachable E s" "codec_ok E" "server_call E s s'"
    and "get_record flow_id s = Some r" "record_version r n = Some v"
  shows "\<exists>r' v'. get_record flow_id s' = Some r' \<and> record_version r' n = Some v' \<and>
    fv_source v' = fv_source v \<and> fv_checksum v' = fv_checksum v \<and> fv_created_at v' = fv_created_at v \<and> fv_note v' = fv_note v"
proof -
  from records_grow_call [OF server_reachable_ok [OF assms(1,2)] assms(3)] assms(4)
  obtain r' where r': "get_record flow_id s' = Some r'" "grows r r'"
    unfolding records_grow_def get_record_def by blast
  from r'(2) assms(5) obtain v' where "record_version r' n = Some v'" "imprint v' = imprint v"
    unfolding grows_def record_version_def using find_imprint by metis
  with r'(1) show ?thesis by (auto simp: imprint_def)
qed

lemma versions_immutable_witness:
  "\<exists>r' v'. get_record ''f'' example_server = Some r' \<and> record_version r' 1 = Some v' \<and> fv_source v' = ''f''"
proof -
  have "get_record ''f'' example_idle = Some (example_record ''f'' [example_validated 1 ''f''] None 2)"
    "record_version (example_record ''f'' [example_validated 1 ''f''] None 2) 1 = Some (example_validated 1 ''f'')"
    by (simp_all add: get_record_def example_idle_def record_version_def example_record_def example_validated_def draft_version_def)
  from versions_immutable [OF example_reachable(2) registry_codec_ok server_call.deploy [OF example_deployed] this]
  show ?thesis by (auto simp: example_validated_def draft_version_def)
qed

section \<open>What runs\<close>

text \<open>
  C25. When the calls of the registry run to their end one after another, tasks ending in between, and
  every start acts on the supervisor that is registered then: a live task belongs to the supervisor
  that is registered under some id; no two flows share one; what is registered under an id is the
  active version of its history with the document that was stored for it; and at most
  \<open>max_concurrent\<close> supervisors have a live task. Calls that overlap at their waits, and scheduler
  fires that still hold a supervisor that has been replaced, break these facts:
  \<open>Server_Deploy.archive_race\<close>, \<open>Server_Deploy.unload_race_exceeds_limit\<close> and
  \<open>Server_Calendar.queued_fire_revives_old_version\<close>.
\<close>

theorem running_flows:
  assumes "server_reachable E s" "codec_ok E"
  shows "(\<forall>k<length (sr_supervisors s). live (supervisor_at s k) = {} \<or> (\<exists>!flow_id. supervisor_of flow_id s = Some k)) \<and>
    (\<forall>flow_id p. hm_get (sr_running s) flow_id = Some p \<longrightarrow>
      map_option fr_active_version (get_record flow_id s) = Some (Some (rf_version p)) \<and>
      export_version flow_id (rf_version p) s = Some (rf_source p)) \<and>
    card {k. k < length (sr_supervisors s) \<and> live (supervisor_at s k) \<noteq> {}} \<le> sr_max_concurrent s"
proof -
  note o = server_okD [OF server_reachable_ok [OF assms]]
  note ok = runtime_okD [OF o(2)]
  have live: "\<exists>flow_id p. hm_get (sr_running s) flow_id = Some p \<and> rf_supervisor p = k"
    if "k < length (sr_supervisors s)" "live (supervisor_at s k) \<noteq> {}" for k
    using ok(5) [OF that(1)] that(2) by (simp add: registered_def)
  have "live (supervisor_at s k) = {} \<or> (\<exists>!flow_id. supervisor_of flow_id s = Some k)" if "k < length (sr_supervisors s)" for k
    using live [OF that] ok(3) by (auto simp: supervisor_of_def)
  moreover have "map_option fr_active_version (get_record flow_id s) = Some (Some (rf_version p)) \<and>
      export_version flow_id (rf_version p) s = Some (rf_source p)" if "hm_get (sr_running s) flow_id = Some p" for flow_id p
  proof -
    from that have "runs flow_id s = Some (rf_version p, rf_source p)" by (simp add: runs_def)
    then obtain r u where r: "hm_get (sr_records s) flow_id = Some r" "fr_active_version r = Some (rf_version p)"
      "u \<in> set (fr_versions r)" "fv_version u = rf_version p" "fv_source u = rf_source p"
      using o(3) unfolding runs_ok_def by blast
    have "distinct (map fv_version (fr_versions r))" using records_okD(3) [OF o(1) r(1)] by (rule history_okD)
    moreover obtain w where w: "record_version r (rf_version p) = Some w"
      using r(3,4) by (cases "record_version r (rf_version p)") (auto simp: record_version_def find_None_iff)
    ultimately have "w = u" using record_version_in [OF w] r(3,4) by (auto simp: distinct_map inj_on_def)
    with w r show ?thesis by (simp add: get_record_def export_version_def)
  qed
  moreover have "card {k. k < length (sr_supervisors s) \<and> live (supervisor_at s k) \<noteq> {}} \<le> sr_max_concurrent s"
  proof -
    have "{k. k < length (sr_supervisors s) \<and> live (supervisor_at s k) \<noteq> {}} \<subseteq> (rf_supervisor \<circ> snd) ` set (sr_running s)"
      using live hm_get_in_set by (fastforce simp: image_iff)
    then have "card {k. k < length (sr_supervisors s) \<and> live (supervisor_at s k) \<noteq> {}} \<le> card (set (sr_running s))"
      by (rule surj_card_le [rotated]) simp
    also have "\<dots> \<le> length (sr_running s)" by (rule card_length)
    finally show ?thesis using o(5) by simp
  qed
  ultimately show ?thesis by blast
qed

lemma running_flows_witness:
  "card {k. k < 1 \<and> live (su_supervisor (sr_supervisors example_server ! k)) \<noteq> {}} \<le> 1"
  using running_flows [OF example_reachable(3) registry_codec_ok] by (simp add: example_server_def example_empty_def registry_new_def)

end
