(* ===== verification/Server_Deploy.thy ===== *)
theory Server_Deploy
  imports Server_Lifecycle
begin

text \<open>
  Deployments and rollbacks: all or nothing for the records, what replaces what, and the races
  and sequences in which the registry does less than it says.
\<close>

section \<open>Deployment\<close>

text \<open>
  C26. A deployment that fails, at whatever stage, leaves every record and the file as they were,
  and under every id the same version with the same document is registered as before.
\<close>

theorem deploy_transactional:
  assumes "server_reachable E s" "codec_ok E" "deploy_version E oc flow_id version start s = Some (Inl e, s')"
  shows "sr_records s' = sr_records s \<and> sr_file s' = sr_file s \<and> length (sr_running s') = length (sr_running s) \<and>
    runs a s' = runs a s"
  using activate_failed [OF server_okD(2) [OF server_reachable_ok [OF assms(1,2)]] assms(3) [unfolded deploy_version_def]]
  by (simp add: same_rest_def)

definition example_crash :: deploy_call where
  "example_crash = example_call\<lparr>oc_drained := Some (Some (ServerError ''crash''))\<rparr>"

lemma example_redeploy_fails:
  "\<exists>s'. deploy_version example_registry example_crash ''f'' 1 True example_server = Some (Inl (Internal (ServerError ''crash'')), s')"
  unfolding deploy_defs Let_def
  by (simp add: example_server_def example_record_def example_validated_def example_empty_def example_parse example_crash_def
      example_call_def example_repository [simplified] registry_defs newer_flow_def example_running_sv_def
      sv_start_flow_def sv_start_def supervisor_new_def Let_def run_begin_def run_ready_def sv_stop_gracefully_def
      sv_stop_begin_def sv_stop_take_def sv_drain_def ctl_drain_def control_defs run_end_def sv_stop_joined_def)

lemma deploy_transactional_witness:
  "\<exists>s'. fst (the (deploy_version example_registry example_crash ''f'' 1 True example_server)) = Inl (Internal (ServerError ''crash'')) \<and>
    runs ''f'' s' = runs ''f'' example_server"
proof -
  obtain s' where "deploy_version example_registry example_crash ''f'' 1 True example_server =
      Some (Inl (Internal (ServerError ''crash'')), s')"
    using example_redeploy_fails by blast
  with deploy_transactional [OF example_reachable(3) registry_codec_ok this, of "''f''"] show ?thesis by auto
qed

lemma archive_active_archived:
  assumes "history_ok r" "u \<in> set (fr_versions (archive_active now n r))" "fr_active_version r = Some (fv_version u)" "fv_version u \<noteq> n"
  shows "fv_state u = Archived"
proof -
  have eq: "archive_active now n r = with_version (fv_version u) (archived_version now) r"
    using assms(3,4) by (simp add: archive_active_def)
  obtain v where v: "u = (if fv_version v = fv_version u then archived_version now v else v)"
    using assms(2) [unfolded eq set_with_version [OF assms(1)]] by blast
  show ?thesis
  proof (cases "fv_version v = fv_version u")
    case True
    with v have "u = archived_version now v" by simp
    then show ?thesis by simp
  next
    case False
    with v have "u = v" by simp
    with False show ?thesis by simp
  qed
qed

text \<open>
  A deployment that succeeds makes its version the active one and marks it deployed, archives
  the version that was active, ends every task of what ran under the id, registers the version
  with its document exactly when it was started, and leaves the entries of other flows alone.
\<close>

theorem deploy_replaces:
  assumes "server_reachable E s" "codec_ok E" "deploy_version E oc flow_id version start s = Some (Inr k, s')"
  shows "\<exists>r r' v. get_record flow_id s = Some r \<and> record_version r version = Some v \<and> fv_state v \<notin> {Draft, Archived} \<and>
    get_record flow_id s' = Some r' \<and> fr_active_version r' = Some version \<and>
    (\<forall>u\<in>set (fr_versions r'). (fv_version u = version \<longrightarrow> fv_state u = Deployed \<and> fv_deployed_at u = Some (oc_now oc)) \<and>
      (fv_version u \<noteq> version \<longrightarrow> fr_active_version r = Some (fv_version u) \<longrightarrow> fv_state u = Archived)) \<and>
    runs flow_id s' = (if start then Some (version, fv_source v) else None) \<and>
    (\<forall>p. hm_get (sr_running s) flow_id = Some p \<longrightarrow> live (supervisor_at s' (rf_supervisor p)) = {}) \<and>
    (\<forall>a. a \<noteq> flow_id \<longrightarrow> hm_get (sr_running s') a = hm_get (sr_running s) a)"
proof -
  note o = server_okD [OF server_reachable_ok [OF assms(1,2)]]
  from o(2) assms(3) [unfolded deploy_version_def] show ?thesis
  proof (cases rule: activate_deployed)
    case (1 r v fc)
    let ?r = "mark_deployed (oc_now oc) version r"
    have h: "history_ok r" using records_okD(3) [OF o(1) 1(1)] .
    note a = archive_active_ok [OF h, where now = "oc_now oc" and n = version]
    have r: "fr_versions ?r = fr_versions (with_version version (\<lambda>v. v\<lparr>fv_state := Deployed, fv_deployed_at := Some (oc_now oc)\<rparr>)
        (archive_active (oc_now oc) version r))"
      by (simp add: mark_deployed_def Let_def archive_active_def)
    have states: "\<forall>u\<in>set (fr_versions ?r). (fv_version u = version \<longrightarrow> fv_state u = Deployed \<and> fv_deployed_at u = Some (oc_now oc)) \<and>
      (fv_version u \<noteq> version \<longrightarrow> fr_active_version r = Some (fv_version u) \<longrightarrow> fv_state u = Archived)"
      using archive_active_archived [OF h, of _ "oc_now oc" version] unfolding r set_with_version [OF a(6)] by force
    have records: "get_record flow_id s = Some r" "get_record flow_id s' = Some ?r" "fr_active_version ?r = Some version"
      using 1(1) by (simp_all add: get_record_def 1(7) mark_active)
    have running: "runs flow_id s' = (if start then Some (version, fv_source v) else None)"
      "\<forall>a. a \<noteq> flow_id \<longrightarrow> hm_get (sr_running s') a = hm_get (sr_running s) a"
      by (simp_all add: runs_def 1(8) newer_flow_def)
    have old: "\<forall>p. hm_get (sr_running s) flow_id = Some p \<longrightarrow> live (supervisor_at s' (rf_supervisor p)) = {}" using 1(12) by simp
    have "fv_state v \<notin> {Draft, Archived}" using 1(3,4) by auto
    with records 1(2) states running old show ?thesis
      by (intro exI [where x = r] exI [where x = ?r] exI [where x = v] conjI)
  qed
qed

lemma deploy_replaces_witness: "runs ''f'' example_server = Some (1, ''f'')"
proof -
  from deploy_replaces [OF example_reachable(2) registry_codec_ok example_deployed]
  obtain r v where "get_record ''f'' example_idle = Some r" and v: "record_version r 1 = Some v"
    and runs: "runs ''f'' example_server = Some (1, fv_source v)" by auto
  then have "r = example_record ''f'' [example_validated 1 ''f''] None 2" by (simp add: get_record_def example_idle_def)
  with v have "v = example_validated 1 ''f''"
    by (simp add: record_version_def example_record_def example_validated_def draft_version_def)
  with runs show ?thesis by (simp add: example_validated_def draft_version_def)
qed

text \<open>
  A flow whose task crashed cannot be redeployed at once: the deployment reports the error of
  the old task, and the crashed version stays registered.
\<close>

theorem deploy_over_crashed:
  assumes "activate_checks E oc flow_id version start False s = Some (Inr c)"
    and "hm_get (sr_running s) flow_id = Some p" "rf_supervisor p < length (sr_supervisors s)"
    and "sv_task (supervisor_at s (rf_supervisor p)) = Some i"
    and "sv_tasks (supervisor_at s (rf_supervisor p)) ! i = Finished (Some e)"
  shows "\<exists>s'. deploy_version E oc flow_id version start s = Some (Inl (Internal e), s') \<and> hm_get (sr_running s') flow_id = Some p"
proof -
  obtain source fc where c: "c = (source, fc)" by (cases c)
  show ?thesis
    using assms unfolding deploy_defs Let_def
    by (simp add: c activate_checks_def [symmetric] nth_append sv_stop_gracefully_def sv_stop_begin_def sv_stop_take_def sv_drain_def
        sv_stop_joined_def Let_def split: prod.split)
qed

definition example_crashed :: server where
  "example_crashed = on_supervisor 0 (run_end (\<lambda>_. []) 4 0 (Some (ServerError ''crash''))) example_server"

lemma deploy_over_crashed_witness:
  "\<exists>s'. deploy_version example_registry example_call ''f'' 1 True example_crashed = Some (Inl (Internal (ServerError ''crash'')), s') \<and>
    hm_get (sr_running s') ''f'' = Some (newer_flow 1 ''f'' 0 (example_fc\<lparr>fc_id := ''f''\<rparr>))"
proof -
  have "activate_checks example_registry example_call ''f'' 1 True False example_crashed = Some (Inr (''f'', example_fc\<lparr>fc_id := ''f''\<rparr>))"
    by (simp add: activate_checks_def example_crashed_def on_supervisor_def Let_def example_server_def example_record_def
        example_validated_def draft_version_def record_version_def example_parse example_repository [simplified])
  then show ?thesis
  proof (rule deploy_over_crashed [where i = 0])
    show "hm_get (sr_running example_crashed) ''f'' = Some (newer_flow 1 ''f'' 0 (example_fc\<lparr>fc_id := ''f''\<rparr>))"
      by (simp add: example_crashed_def on_supervisor_def Let_def example_server_def)
  qed (simp_all add: example_crashed_def on_supervisor_def Let_def example_server_def newer_flow_def example_running_sv_def
      sv_start_flow_def sv_start_def supervisor_new_def run_begin_def run_ready_def run_end_def)
qed

section \<open>Rollback\<close>

text \<open>
  Rolling back twice goes forward: the version that was left is the newest of those deployed, so
  it is the target of the next rollback, and older ones are never reached.
\<close>

lemma foldr_max_eqI:
  assumes "(a :: nat) \<in> insert x (set xs)" "\<And>y. y \<in> insert x (set xs) \<Longrightarrow> y \<le> a"
  shows "foldr max xs x = a"
proof -
  have "foldr max xs x \<in> insert x (set xs)" by (rule foldr_max_in)
  then have "foldr max xs x \<le> a" by (rule assms(2))
  moreover have "a \<le> foldr max xs x"
  proof -
    have "x \<le> foldr max xs x" by (induction xs) auto
    then show ?thesis using assms(1) foldr_max_ge [of a xs x] by auto
  qed
  ultimately show ?thesis by simp
qed

lemma rollback_targetI:
  assumes "v \<in> set (fr_versions r)" "rollback_candidate r v" "\<And>u. u \<in> set (fr_versions r) \<Longrightarrow> rollback_candidate r u \<Longrightarrow> fv_version u \<le> fv_version v"
  shows "rollback_target r = Some (fv_version v)"
proof (cases "map fv_version (filter (rollback_candidate r) (fr_versions r))")
  case Nil
  with assms(1,2) show ?thesis by (auto simp: filter_empty_conv)
next
  case (Cons x xs)
  have candidates: "insert x (set xs) = fv_version ` {u \<in> set (fr_versions r). rollback_candidate r u}"
    using arg_cong [OF Cons, of set] by simp
  have "foldr max xs x = fv_version v"
    by (rule foldr_max_eqI, unfold candidates) (use assms in auto)
  with Cons show ?thesis by (simp add: rollback_target_def)
qed

text \<open>
  When the active version is the newest that was ever deployed, a rollback followed by a
  rollback ends at the active version again: no older version can be reached by rolling back.
\<close>

theorem rollback_alternates:
  assumes "history_ok r" "v \<in> set (fr_versions r)" "fr_active_version r = Some (fv_version v)" "fv_deployed_at v \<noteq> None"
    and "rollback_target r = Some n" "\<forall>u\<in>set (fr_versions r). fv_deployed_at u \<noteq> None \<longrightarrow> fv_version u \<le> fv_version v"
  shows "rollback_target (mark_deployed now n r) = Some (fv_version v)"
proof -
  obtain t where t: "t \<in> set (fr_versions r)" "rollback_candidate r t" "fv_version t = n"
    using rollback_target_candidate [OF assms(5)] by blast
  then have n: "n \<noteq> fv_version v" using assms(3) by (auto simp: rollback_candidate_def)
  let ?f = "\<lambda>v. v\<lparr>fv_state := Deployed, fv_deployed_at := Some now\<rparr>"
  note a = archive_active_ok [OF assms(1), where now = now and n = n]
  have aa: "archive_active now n r = with_version (fv_version v) (archived_version now) r"
    using assms(3) n by (simp add: archive_active_def)
  have versions: "set (fr_versions (mark_deployed now n r)) =
      (\<lambda>u. if fv_version u = n then ?f u else u) ` (\<lambda>u. if fv_version u = fv_version v then archived_version now u else u) ` set (fr_versions r)"
  proof -
    have eq: "fr_versions (mark_deployed now n r) = fr_versions (with_version n ?f (archive_active now n r))"
      by (simp add: mark_deployed_def Let_def archive_active_def)
    show ?thesis by (simp only: eq set_with_version [OF a(6)]) (simp only: aa set_with_version [OF assms(1)])
  qed
  have "rollback_target (mark_deployed now n r) = Some (fv_version (archived_version now v))"
  proof (rule rollback_targetI)
    have "archived_version now v = (if fv_version v = n then ?f v else (if fv_version v = fv_version v then archived_version now v else v))"
      using n by simp
    then show "archived_version now v \<in> set (fr_versions (mark_deployed now n r))"
      unfolding versions using assms(2) n by (auto intro!: image_eqI [where x = v])
    show "rollback_candidate (mark_deployed now n r) (archived_version now v)"
      using assms(4) n by (simp add: rollback_candidate_def mark_active)
    show "fv_version u \<le> fv_version (archived_version now v)"
      if "u \<in> set (fr_versions (mark_deployed now n r))" "rollback_candidate (mark_deployed now n r) u" for u
      using that assms(6) unfolding versions by (auto simp: rollback_candidate_def mark_active split: if_splits)
  qed
  then show ?thesis by simp
qed

definition example_deployed_version :: "nat \<Rightarrow> flow_version_state \<Rightarrow> flow_version" where
  "example_deployed_version n st = (example_validated n ''f'')\<lparr>fv_state := st, fv_deployed_at := Some 3\<rparr>"

lemma rollback_alternates_witness:
  "rollback_target (mark_deployed 9 2 (example_record ''f''
      [example_deployed_version 1 Archived, example_deployed_version 2 Archived, example_deployed_version 3 Deployed] (Some 3) 3)) = Some 3"
proof -
  define r where "r = example_record ''f''
      [example_deployed_version 1 Archived, example_deployed_version 2 Archived, example_deployed_version 3 Deployed] (Some 3) 3"
  have "rollback_target (mark_deployed 9 2 r) = Some (fv_version (example_deployed_version 3 Deployed))"
    by (rule rollback_alternates)
      (simp_all add: r_def history_ok_def example_record_def example_deployed_version_def example_validated_def draft_version_def
        rollback_target_def rollback_candidate_def)
  then show ?thesis by (simp add: r_def example_deployed_version_def example_validated_def draft_version_def)
qed

section \<open>The file\<close>

text \<open>
  C27. A process that starts on the file that the last successful write left has the records of
  the process that wrote it, flow by flow, and runs nothing.
\<close>

theorem registry_reload:
  assumes "server_reachable E s" "codec_ok E" "sr_dir s" "persist E True s = (Inr (), s1)"
  shows "get_record flow_id (serve_registry E True True m (sr_file s1)) = get_record flow_id s \<and>
    sr_running (serve_registry E True True m (sr_file s1)) = []"
proof -
  note o = server_okD [OF server_reachable_ok [OF assms(1,2)]]
  note l = list_records_ok [OF o(1)]
  have file1: "sr_file s1 = Some (ev_to_vec E (list_records s))" using assms(3,4) by (auto simp: persist_def)
  have decode: "ev_from_slice E (ev_to_vec E (list_records s)) = Some (list_records s)" using assms(2) by (simp add: codec_ok_def)
  have new: "serve_registry E True True m (sr_file s1) = (registry_new True m (sr_file s1))
      \<lparr>sr_records := fold (\<lambda>r. hm_insert (fr_id r) r) (list_records s) []\<rparr>"
    by (simp add: serve_registry_def load_def file1 decode registry_new_def)
  have "hm_get (fold (\<lambda>r. hm_insert (fr_id r) r) (list_records s) []) flow_id =
      (case find (\<lambda>r. fr_id r = flow_id) (list_records s) of None \<Rightarrow> hm_get [] flow_id | Some r \<Rightarrow> Some r)"
    using fold_insert_records(2) [OF l(1), of "[]" flow_id] l(2) by (simp add: records_ok_def)
  also have "\<dots> = hm_get (sr_records s) flow_id"
  proof (cases "hm_get (sr_records s) flow_id")
    case None
    then have "find (\<lambda>r. fr_id r = flow_id) (list_records s) = None" using l(3) by (auto simp: find_None_iff)
    with None show ?thesis by simp
  next
    case (Some r)
    then have id: "fr_id r = flow_id" by (rule records_okD(2) [OF o(1)])
    with Some l(3) have "r \<in> set (list_records s)" by simp
    then obtain w where w: "find (\<lambda>r. fr_id r = flow_id) (list_records s) = Some w"
      using id by (cases "find (\<lambda>r. fr_id r = flow_id) (list_records s)") (auto simp: find_None_iff)
    then have "w \<in> set (list_records s)" "fr_id w = flow_id" by (auto simp: find_Some_iff)
    with l(3) Some have "w = r" by simp
    with w Some show ?thesis by simp
  qed
  finally show ?thesis by (simp add: get_record_def new)
qed

definition example_on_disk :: server where
  "example_on_disk = snd (create_draft example_registry 1 True ''f'' None (serve_registry example_registry True True 1 None))"

lemma registry_reload_witness:
  "sr_running (serve_registry example_registry True True 5 (sr_file (snd (persist example_registry True example_on_disk)))) = [] \<and>
    get_record ''f'' example_on_disk \<noteq> None"
proof -
  obtain r where c: "create_draft example_registry 1 True ''f'' None (serve_registry example_registry True True 1 None) = (r, example_on_disk)"
    by (cases "create_draft example_registry 1 True ''f'' None (serve_registry example_registry True True 1 None)")
      (simp add: example_on_disk_def)
  have "server_reachable example_registry example_on_disk"
    by (rule server_reachable.call [OF server_reachable.init server_call.create [OF c]])
  moreover have "sr_dir example_on_disk" "get_record ''f'' example_on_disk \<noteq> None"
    by (simp_all add: example_on_disk_def create_draft_def registry_defs Let_def serve_registry_def load_def get_record_def)
  moreover from this obtain s1 where "persist example_registry True example_on_disk = (Inr (), s1)" by (simp add: persist_def)
  ultimately show ?thesis using registry_reload [OF _ registry_codec_ok, where flow_id = "''f''" and m = 5] by force
qed

text \<open>
  When the file is there but cannot be read at the start, the server runs with an empty
  registry and the next draft replaces the file by one that holds nothing else: the histories
  of all flows are lost.
\<close>

theorem load_failure_overwrites:
  assumes "load E readable (registry_new True m (Some bytes)) = (Inl e, s0)"
    and "create_draft E now True source remark (serve_registry E readable True m (Some bytes)) = (Inr (flow_id, version), s')"
  shows "version = 1 \<and> (\<exists>r. sr_file s' = Some (ev_to_vec E [r]) \<and> fr_id r = flow_id \<and> map fv_source (fr_versions r) = [source])"
proof -
  have s0: "serve_registry E readable True m (Some bytes) = registry_new True m (Some bytes)"
    using assms(1) by (auto simp: serve_registry_def load_def registry_new_def split: if_splits option.splits)
  from assms(2) show ?thesis unfolding s0
  proof (cases rule: create_draft_cases)
    case (rejected e)
    then show ?thesis by simp
  next
    case (stored i old v t)
    have old: "old = new_record i now" by (simp add: stored(1) record_or_new_def registry_new_def)
    have "t = Inr ()" using stored(4) by (cases t) auto
    with stored(3) have "sr_file s' = Some (ev_to_vec E [push_version now v old])"
      by (auto simp: persist_def registry_new_def list_records_def)
    with stored(4) show ?thesis
      by (cases t) (auto simp: old new_record_def push_version_def next_version_def stored(2) draft_version_def)
  qed
qed

lemma load_failure_overwrites_witness:
  "\<exists>s' r. create_draft example_registry 1 True ''f'' None (serve_registry example_registry False True 1 (Some ''{}'')) =
      (Inr (''f'', 1), s') \<and> sr_file s' = Some (ev_to_vec example_registry [r]) \<and> map fv_source (fr_versions r) = [''f'']"
proof -
  have "load example_registry False (registry_new True 1 (Some ''{}'')) = (Inl (Configuration RegistryUnreadable), registry_new True 1 (Some ''{}''))"
    by (simp add: load_def registry_new_def)
  note bad = this
  obtain s' where c: "create_draft example_registry 1 True ''f'' None (serve_registry example_registry False True 1 (Some ''{}'')) = (Inr (''f'', 1), s')"
    by (simp add: create_draft_def registry_defs Let_def serve_registry_def load_def)
  from load_failure_overwrites [OF bad c] obtain r where
    "sr_file s' = Some (ev_to_vec example_registry [r])" "map fv_source (fr_versions r) = [''f'']" by auto
  with c show ?thesis by (intro exI [where x = s'] exI [where x = r]) simp
qed

section \<open>Races\<close>

text \<open>A second flow that waits to be deployed beside the one that runs.\<close>

definition example_two :: server where
  "example_two = example_server\<lparr>sr_records := sr_records example_server @ [(''g'', example_record ''g'' [example_validated 1 ''g''] None 2)]\<rparr>"

lemma example_two_reachable: "server_reachable example_registry example_two"
proof -
  define s1 where "s1 = example_server\<lparr>sr_records := sr_records example_server @ [(''g'', example_record ''g'' [draft_version 1 1 ''g'' ''sha'' None] None 1)]\<rparr>"
  have "create_draft example_registry 1 True ''g'' None example_server = (Inr (''g'', 1), s1)"
    by (simp add: create_draft_def registry_defs Let_def s1_def example_server_def example_record_def example_empty_def)
  note c = server_reachable.call [OF example_reachable(3) server_call.create [OF this]]
  have "validate_version example_registry 2 True ''g'' 1 s1 = Some (Inr (), example_two)"
    by (simp add: validate_version_def validate_entry_def example_parse mark_validated_def registry_defs s1_def
        example_two_def example_server_def example_record_def example_validated_def example_empty_def)
  from server_reachable.call [OF c server_call.validate [OF this]] show ?thesis .
qed

text \<open>
  The limit on running flows is not kept across the wait of an unload: while the flow drains
  its place is free, another flow takes it, and when the drain fails the entry comes back.
\<close>

theorem unload_race_exceeds_limit:
  "\<exists>p s1 k s2 e s3.
     unload_take ''f'' example_two = (Inr p, s1) \<and>
     deploy_version example_registry example_call ''g'' 1 True s1 = Some (Inr k, s2) \<and>
     unload_finish example_registry 5 (Some (Some (ServerError ''crash''))) ''f'' p s2 = (Inl e, s3) \<and>
     sr_max_concurrent s3 < length (sr_running s3)"
proof -
  define s1 where "s1 = example_two\<lparr>sr_running := []\<rparr>"
  define p where "p = newer_flow 1 ''f'' 0 (example_fc\<lparr>fc_id := ''f''\<rparr>)"
  have take: "unload_take ''f'' example_two = (Inr p, s1)"
    by (simp add: unload_take_def s1_def p_def example_two_def example_server_def)
  define su where "su = \<lparr> su_config = example_fc\<lparr>fc_id := ''g''\<rparr>, su_supervisor = example_running_sv 3 \<rparr>"
  have dep: "\<exists>s2. deploy_version example_registry example_call ''g'' 1 True s1 = Some (Inr 1, s2) \<and>
      sr_running s2 = [(''g'', newer_flow 1 ''g'' 1 (example_fc\<lparr>fc_id := ''g''\<rparr>))] \<and> sr_max_concurrent s2 = 1 \<and>
      sr_supervisors s2 = sr_supervisors example_server @ [su]"
    unfolding deploy_defs Let_def
    by (simp add: s1_def example_two_def example_server_def example_record_def example_validated_def example_empty_def example_parse
        example_call_def example_repository [simplified] example_engine [simplified] registry_defs example_running_sv_def su_def
        newer_flow_def sv_start_flow_def sv_start_def supervisor_new_def Let_def)
  then obtain s2 where s2: "deploy_version example_registry example_call ''g'' 1 True s1 = Some (Inr 1, s2)"
      "sr_running s2 = [(''g'', newer_flow 1 ''g'' 1 (example_fc\<lparr>fc_id := ''g''\<rparr>))]" "sr_max_concurrent s2 = 1"
      "sr_supervisors s2 = sr_supervisors example_server @ [su]" by blast
  have "\<exists>e s3. unload_finish example_registry 5 (Some (Some (ServerError ''crash''))) ''f'' p s2 = (Inl e, s3) \<and>
      sr_max_concurrent s3 < length (sr_running s3)"
    by (simp add: unload_finish_def stop_at_def p_def newer_flow_def s2 example_server_def Let_def set_running_def
        example_running_sv_def sv_start_flow_def sv_start_def supervisor_new_def run_begin_def run_ready_def sv_stop_gracefully_def
        sv_stop_begin_def sv_stop_take_def sv_drain_def ctl_drain_def control_defs run_end_def sv_stop_joined_def)
  with take s2(1) show ?thesis by blast
qed

text \<open>
  A version can be archived while it is being deployed: the look at what runs and the change
  of the record are separate, and afterwards the archived version runs and no version is active.
\<close>

theorem archive_race:
  "archive_check ''f'' 1 example_idle = Inr () \<and>
   (\<exists>s2 s3. deploy_version example_registry example_call ''f'' 1 True example_idle = Some (Inr 0, s2) \<and>
     archive_apply example_registry 4 True ''f'' 1 s2 = (Inr (), s3) \<and>
     runs ''f'' s3 = Some (1, ''f'') \<and> map_option fr_active_version (get_record ''f'' s3) = Some None)"
proof -
  have "archive_check ''f'' 1 example_idle = Inr ()"
    by (simp add: archive_check_def example_idle_def example_empty_def registry_new_def)
  moreover have "\<exists>s3. archive_apply example_registry 4 True ''f'' 1 example_server = (Inr (), s3) \<and>
     runs ''f'' s3 = Some (1, ''f'') \<and> map_option fr_active_version (get_record ''f'' s3) = Some None"
    by (simp add: archive_apply_def example_empty_def registry_defs example_server_def example_record_def
      example_validated_def mark_archived_def get_record_def runs_def newer_flow_def Let_def)
  ultimately show ?thesis using example_deployed by blast
qed

end
