(* ===== verification/Server_Schedule.thy ===== *)
theory Server_Schedule
  imports Server_Deploy
begin

text \<open>
  The calendar of runs (\<open>crates/jaiba-server/src/scheduler.rs\<close>) and the file of its state
  (\<open>schedule_store.rs\<close>): what arms a flow, what a tick does for each overlap policy, and what is
  recorded of it. The cron parser is a parameter, as are the times of the calls, how the waits
  end, and whether a file can be written.
\<close>

section \<open>The store\<close>

record flow_schedule_state =
  ss_last_fire_at :: "nat option"
  ss_next_fire_at :: "nat option"
  ss_last_status :: "string option"
  ss_updated_at :: nat

definition flow_schedule_state_default :: flow_schedule_state where
  "flow_schedule_state_default =
     \<lparr> ss_last_fire_at = None, ss_next_fire_at = None, ss_last_status = None, ss_updated_at = 0 \<rparr>"

record schedule_store =
  st_path :: bool
  st_inner :: "flow_schedule_state hmap"
  st_file :: "flow_schedule_state hmap option"

text \<open>
  \<open>open\<close>: the flows of the file, nothing when it is missing, cannot be read or is not what it
  should be (\<open>readable\<close>). The file is kept as the map that its JSON stands for.
\<close>

definition store_open :: "bool \<Rightarrow> bool \<Rightarrow> flow_schedule_state hmap option \<Rightarrow> schedule_store" where
  "store_open path readable file_content =
     \<lparr> st_path = path,
       st_inner = (if path \<and> readable then (case file_content of None \<Rightarrow> [] | Some flows \<Rightarrow> flows) else []),
       st_file = file_content \<rparr>"

definition store_get :: "string \<Rightarrow> schedule_store \<Rightarrow> flow_schedule_state" where
  "store_get flow_id st = (case hm_get (st_inner st) flow_id of None \<Rightarrow> flow_schedule_state_default | Some x \<Rightarrow> x)"

definition store_put :: "bool \<Rightarrow> string \<Rightarrow> flow_schedule_state \<Rightarrow> schedule_store \<Rightarrow> (flow_error, unit) result \<times> schedule_store" where
  "store_put ok flow_id x st =
     (let st = st\<lparr>st_inner := hm_insert flow_id x (st_inner st)\<rparr>
      in if \<not> st_path st then (Inr (), st)
         else if ok then (Inr (), st\<lparr>st_file := Some (st_inner st)\<rparr>)
         else (Inl (ServerError ''no se pudo persistir agendas''), st))"

section \<open>The scheduler\<close>

text \<open>
  The spawned jobs live in a table; \<open>armed\<close> holds, for a flow, the handle of its job. A job that
  was aborted or has left its loop is not alive.
\<close>

record schedule_job =
  jb_flow :: string
  jb_trigger :: schedule_trigger
  jb_timezone :: string
  jb_overlap :: overlap_policy
  jb_alive :: bool

record flow_scheduler =
  sd_store :: schedule_store
  sd_jobs :: "schedule_job list"
  sd_armed :: "nat hmap"

record control_plane =
  cp_server :: server
  cp_scheduler :: flow_scheduler

text \<open>What the environment decides of a fire: the time, how a drain and a wait end, the start, the write.\<close>

record fire_call =
  fi_now :: nat
  fi_drained :: "flow_error option option"
  fi_waited :: "flow_error option option"
  fi_init :: "flow_error option"
  fi_put :: bool

definition scheduler_new :: "schedule_store \<Rightarrow> flow_scheduler" where
  "scheduler_new st = \<lparr> sd_store = st, sd_jobs = [], sd_armed = [] \<rparr>"

definition scheduler_record :: "nat \<Rightarrow> bool \<Rightarrow> string \<Rightarrow> string \<Rightarrow> flow_scheduler \<Rightarrow> flow_scheduler" where
  "scheduler_record now ok flow_id status sd =
     (let previous = store_get flow_id (sd_store sd)
      in sd\<lparr>sd_store := snd (store_put ok flow_id
           \<lparr> ss_last_fire_at = Some now, ss_next_fire_at = ss_next_fire_at previous,
             ss_last_status = Some status, ss_updated_at = now \<rparr> (sd_store sd))\<rparr>)"

definition is_idle :: "supervisor \<Rightarrow> bool" where
  "is_idle sv \<longleftrightarrow> ctl_state (sv_control sv) \<in> {Stopped, Failed}"

text \<open>What \<open>wait_for_terminal\<close> answers in a state; \<open>None\<close> when it goes on waiting.\<close>

definition wait_for_terminal :: "supervisor \<Rightarrow> (flow_error, unit) result option" where
  "wait_for_terminal sv =
     (case ctl_state (sv_control sv) of
        Stopped \<Rightarrow> Some (Inr ())
      | Failed \<Rightarrow> Some (Inl (ServerError (case ctl_last_error (sv_control sv) of None \<Rightarrow> ''flow failed'' | Some e \<Rightarrow> e)))
      | _ \<Rightarrow> None)"

text \<open>\<open>waited\<close>: how the task in the slot ends within the hour, if it does.\<close>

definition wait_until_idle ::
  "(flow_error \<Rightarrow> string) \<Rightarrow> nat \<Rightarrow> flow_error option option \<Rightarrow> supervisor \<Rightarrow> (flow_error, unit) result \<times> supervisor" where
  "wait_until_idle display now waited sv =
     (if is_idle sv then (Inr (), sv)
      else let sv = (case waited of
                       None \<Rightarrow> sv
                     | Some e \<Rightarrow> (case sv_task sv of
                         None \<Rightarrow> sv
                       | Some i \<Rightarrow> if is_finished (sv_tasks sv ! i) then sv else run_end display now i e sv))
           in case wait_for_terminal sv of
                Some r \<Rightarrow> (r, sv)
              | None \<Rightarrow> (Inl (ServerError ''timeout esperando fin de ejecucion (overlap=queue)''), sv))"

definition wait_at ::
  "registry_env \<Rightarrow> nat \<Rightarrow> flow_error option option \<Rightarrow> nat \<Rightarrow> server \<Rightarrow> (flow_error, unit) result \<times> server" where
  "wait_at E now waited k s =
     (fst (wait_until_idle (ev_display E) now waited (supervisor_at s k)),
      on_supervisor k (\<lambda>sv. snd (wait_until_idle (ev_display E) now waited sv)) s)"

text \<open>The part of \<open>fire\<close> before the start; it acts on the supervisor that was registered.\<close>

definition fire_prepare ::
  "registry_env \<Rightarrow> fire_call \<Rightarrow> overlap_policy \<Rightarrow> nat \<Rightarrow> server \<Rightarrow> (flow_error, unit) result \<times> server" where
  "fire_prepare E fi overlap k s =
     (case overlap of
        OverlapSkip \<Rightarrow> (Inr (), s)
      | OverlapQueue \<Rightarrow> wait_at E (fi_now fi) (fi_waited fi) k s
      | OverlapReplace \<Rightarrow>
          if is_idle (supervisor_at s k) then (Inr (), s) else stop_at E (fi_now fi) (fi_drained fi) k s)"

definition fire ::
  "registry_env \<Rightarrow> fire_call \<Rightarrow> string \<Rightarrow> overlap_policy \<Rightarrow> control_plane \<Rightarrow> ((flow_error, bool) result \<times> control_plane) option" where
  "fire E fi flow_id overlap cp =
     (case supervisor_of flow_id (cp_server cp) of
        None \<Rightarrow> Some (Inl (Configuration (FlowNotLoaded flow_id)), cp)
      | Some k \<Rightarrow>
          (case fire_prepare E fi overlap k (cp_server cp) of
             (Inl e, s) \<Rightarrow> Some (Inl e, cp\<lparr>cp_server := s\<rparr>)
           | (Inr _, s) \<Rightarrow>
               (case start_at E (fi_now fi) (fi_init fi) k s of
                  None \<Rightarrow> None
                | Some (Inl e, s) \<Rightarrow> Some (Inl e, cp\<lparr>cp_server := s\<rparr>)
                | Some (Inr started, s) \<Rightarrow>
                    Some (Inr started,
                      cp\<lparr>cp_server := s,
                         cp_scheduler := scheduler_record (fi_now fi) (fi_put fi) flow_id
                           (if started then ''started'' else ''skipped'') (cp_scheduler cp)\<rparr>))))"

definition trigger ::
  "registry_env \<Rightarrow> fire_call \<Rightarrow> string \<Rightarrow> control_plane \<Rightarrow> ((flow_error, bool) result \<times> control_plane) option" where
  "trigger E fi flow_id cp =
     (case supervisor_of flow_id (cp_server cp) of
        None \<Rightarrow> Some (Inl (Configuration (FlowNotLoaded flow_id)), cp)
      | Some k \<Rightarrow>
          fire E fi flow_id
            (case fc_schedule (su_config (sr_supervisors (cp_server cp) ! k)) of None \<Rightarrow> OverlapSkip | Some sch \<Rightarrow> sch_overlap sch) cp)"

section \<open>Time\<close>

text \<open>The milliseconds to the next cron time; \<open>upcoming\<close> fails for what does not parse.\<close>

definition delay_until_next_cron :: "(string \<Rightarrow> string \<Rightarrow> nat \<Rightarrow> nat option) \<Rightarrow> nat \<Rightarrow> string \<Rightarrow> string \<Rightarrow> nat option" where
  "delay_until_next_cron upcoming now expression tz = map_option (\<lambda>wait. max wait 50) (upcoming expression tz now)"

definition should_catch_up ::
  "(string \<Rightarrow> string \<Rightarrow> nat \<Rightarrow> nat option) \<Rightarrow> nat \<Rightarrow> schedule_config \<Rightarrow> flow_schedule_state \<Rightarrow> bool" where
  "should_catch_up upcoming now sch x =
     (case ss_last_fire_at x of
        None \<Rightarrow> False
      | Some fired \<Rightarrow>
          (case sch_trigger sch of
             Interval period \<Rightarrow> period \<le> now - fired
           | Cron expression \<Rightarrow>
               (case delay_until_next_cron upcoming now expression (case sch_timezone sch of None \<Rightarrow> ''UTC'' | Some tz \<Rightarrow> tz) of
                  None \<Rightarrow> False
                | Some delay \<Rightarrow> delay < 2000) \<or> 60 \<le> now - fired
           | Webhook \<Rightarrow> False))"

section \<open>Arming\<close>

datatype arm_decision = ArmReturn | ArmDisarm | ArmWith schedule_config

definition arm_decide :: "registry_env \<Rightarrow> string \<Rightarrow> server \<Rightarrow> arm_decision" where
  "arm_decide E flow_id s =
     (case supervisor_of flow_id s of
        None \<Rightarrow> ArmReturn
      | Some k \<Rightarrow>
          (case fc_schedule (su_config (sr_supervisors s ! k)) of
             None \<Rightarrow> ArmDisarm
           | Some sch \<Rightarrow>
               if \<not> sch_enabled sch then ArmDisarm
               else if isl (schedule_validate (dv_parse_cron (ev_document E)) (dv_known_tz (ev_document E)) sch) then ArmReturn
               else ArmWith sch))"

definition disarm :: "string \<Rightarrow> flow_scheduler \<Rightarrow> flow_scheduler" where
  "disarm flow_id sd =
     (case hm_get (sd_armed sd) flow_id of
        None \<Rightarrow> sd
      | Some j \<Rightarrow>
          sd\<lparr>sd_armed := hm_remove flow_id (sd_armed sd),
             sd_jobs := (sd_jobs sd)[j := (sd_jobs sd ! j)\<lparr>jb_alive := False\<rparr>]\<rparr>)"

text \<open>The job of an interval or cron trigger; the handle that was in the map is dropped, not aborted.\<close>

definition spawn_job :: "string \<Rightarrow> schedule_config \<Rightarrow> flow_scheduler \<Rightarrow> flow_scheduler" where
  "spawn_job flow_id sch sd =
     (case sch_trigger sch of
        Webhook \<Rightarrow> sd
      | kind \<Rightarrow>
          sd\<lparr>sd_jobs := sd_jobs sd @
               [\<lparr> jb_flow = flow_id, jb_trigger = kind,
                  jb_timezone = (case sch_timezone sch of None \<Rightarrow> ''UTC'' | Some tz \<Rightarrow> tz),
                  jb_overlap = sch_overlap sch, jb_alive = True \<rparr>],
             sd_armed := hm_insert flow_id (length (sd_jobs sd)) (sd_armed sd)\<rparr>)"

definition arm ::
  "registry_env \<Rightarrow> (string \<Rightarrow> string \<Rightarrow> nat \<Rightarrow> nat option) \<Rightarrow> fire_call \<Rightarrow> string \<Rightarrow> control_plane \<Rightarrow> control_plane option" where
  "arm E upcoming fi flow_id cp =
     (case arm_decide E flow_id (cp_server cp) of
        ArmReturn \<Rightarrow> Some cp
      | ArmDisarm \<Rightarrow> Some (cp\<lparr>cp_scheduler := disarm flow_id (cp_scheduler cp)\<rparr>)
      | ArmWith sch \<Rightarrow>
          (let cp = cp\<lparr>cp_scheduler := disarm flow_id (cp_scheduler cp)\<rparr>
           in case (if sch_catch_up sch = CatchUpOne
                       \<and> should_catch_up upcoming (fi_now fi) sch (store_get flow_id (sd_store (cp_scheduler cp)))
                    then map_option snd (fire E fi flow_id (sch_overlap sch) cp) else Some cp) of
                None \<Rightarrow> None
              | Some cp \<Rightarrow> Some (cp\<lparr>cp_scheduler := spawn_job flow_id sch (cp_scheduler cp)\<rparr>)))"

section \<open>Ticks\<close>

definition end_job :: "nat \<Rightarrow> flow_scheduler \<Rightarrow> flow_scheduler" where
  "end_job j sd = sd\<lparr>sd_jobs := (sd_jobs sd)[j := (sd_jobs sd ! j)\<lparr>jb_alive := False\<rparr>]\<rparr>"

text \<open>A cron job before it sleeps: the time it will fire is stored, or the job ends.\<close>

definition cron_plan ::
  "(string \<Rightarrow> string \<Rightarrow> nat \<Rightarrow> nat option) \<Rightarrow> nat \<Rightarrow> bool \<Rightarrow> nat \<Rightarrow> string \<Rightarrow> flow_scheduler \<Rightarrow> flow_scheduler" where
  "cron_plan upcoming now ok j expression sd =
     (let job = sd_jobs sd ! j
      in case delay_until_next_cron upcoming now expression (jb_timezone job) of
           None \<Rightarrow> end_job j sd
         | Some delay \<Rightarrow>
             (let previous = store_get (jb_flow job) (sd_store sd)
              in sd\<lparr>sd_store := snd (store_put ok (jb_flow job)
                   \<lparr> ss_last_fire_at = ss_last_fire_at previous, ss_next_fire_at = Some (sat_add now (delay div 1000)),
                     ss_last_status = ss_last_status previous, ss_updated_at = now \<rparr> (sd_store sd))\<rparr>))"

text \<open>A tick of a live job: it ends when the flow is gone, and ignores what \<open>fire\<close> answers.\<close>

definition job_tick :: "registry_env \<Rightarrow> fire_call \<Rightarrow> nat \<Rightarrow> control_plane \<Rightarrow> control_plane option" where
  "job_tick E fi j cp =
     (let job = sd_jobs (cp_scheduler cp) ! j
      in if supervisor_of (jb_flow job) (cp_server cp) = None
         then Some (cp\<lparr>cp_scheduler := end_job j (cp_scheduler cp)\<rparr>)
         else map_option snd (fire E fi (jb_flow job) (jb_overlap job) cp))"

end
