(* ===== verification/Server_Calendar.thy ===== *)
theory Server_Calendar
  imports Server_Schedule
begin

text \<open>
  What the calendar of runs promises: it only makes calls that the registry allows, it records
  what a fire did, it keeps one job per flow, and where a fire is lost or acts on a flow that was
  replaced meanwhile.
\<close>

section \<open>Calls on the registry\<close>

lemma on_supervisor_same:
  assumes "f (supervisor_at s k) = supervisor_at s k"
  shows "on_supervisor k f s = s"
proof -
  have "(sr_supervisors s ! k)\<lparr>su_supervisor := f (supervisor_at s k)\<rparr> = sr_supervisors s ! k"
    using assms by (cases "sr_supervisors s ! k") simp
  then show ?thesis by (simp add: on_supervisor_def Let_def)
qed

lemma on_supervisor_cong: "f (supervisor_at s k) = g (supervisor_at s k) \<Longrightarrow> on_supervisor k f s = on_supervisor k g s"
  by (simp add: on_supervisor_def Let_def)

lemma wait_at_step:
  assumes "server_ok E s" "supervisor_of flow_id s = Some k"
  shows "snd (wait_at E now waited k s) = s \<or> server_call E s (snd (wait_at E now waited k s))"
proof -
  let ?sv = "supervisor_at s k"
  note quiet = runtime_okD(4) [OF server_okD(2) [OF assms(1)] supervisor_of_less [OF assms]]
  have "snd (wait_until_idle (ev_display E) now waited ?sv) = ?sv \<or>
      (\<exists>e i. i \<in> live ?sv \<and> snd (wait_until_idle (ev_display E) now waited ?sv) = run_end (ev_display E) now i e ?sv)"
    using sv_quietD(2) [OF quiet] unfolding wait_until_idle_def Let_def live_def
    by (auto split: option.split)
  then show ?thesis
  proof (elim disjE exE conjE)
    assume "snd (wait_until_idle (ev_display E) now waited ?sv) = ?sv"
    then show ?thesis by (simp add: wait_at_def on_supervisor_same)
  next
    fix e i
    assume i: "i \<in> live ?sv" and eq: "snd (wait_until_idle (ev_display E) now waited ?sv) = run_end (ev_display E) now i e ?sv"
    have "snd (wait_at E now waited k s) = on_supervisor k (run_end (ev_display E) now i e) s"
      unfolding wait_at_def snd_conv by (rule on_supervisor_cong) (rule eq)
    then show ?thesis using server_call.task_end [OF supervisor_of_less [OF assms] i] by simp
  qed
qed

lemma wait_at_frame: "same_rest s (snd (wait_at E now waited k s))" "sr_running (snd (wait_at E now waited k s)) = sr_running s"
  by (simp_all add: wait_at_def on_supervisor_def Let_def same_rest_def)

text \<open>A fire makes at most two calls, on the supervisor that is registered.\<close>

lemma fire_prepare_reachable:
  assumes "server_reachable E s" "codec_ok E" "supervisor_of flow_id s = Some k" "fire_prepare E fi overlap k s = (r, s')"
  shows "server_reachable E s' \<and> same_rest s s' \<and> sr_running s' = sr_running s"
proof (cases overlap)
  case OverlapSkip
  with assms show ?thesis by (simp add: fire_prepare_def)
next
  case OverlapQueue
  then have s': "s' = snd (wait_at E (fi_now fi) (fi_waited fi) k s)"
    using assms(4) by (simp add: fire_prepare_def)
  then show ?thesis
    using wait_at_step [OF server_reachable_ok [OF assms(1,2)] assms(3)] wait_at_frame assms(1)
    by (metis server_reachable.call)
next
  case OverlapReplace
  then show ?thesis
    using assms server_reachable.call [OF assms(1) server_call.stop [OF assms(3)]] stop_at_frame
    by (auto simp: fire_prepare_def split: if_splits)
qed

lemma fire_reachable:
  assumes "server_reachable E (cp_server cp)" "codec_ok E" "fire E fi flow_id overlap cp = Some (r, cp')"
  shows "server_reachable E (cp_server cp') \<and> same_rest (cp_server cp) (cp_server cp') \<and>
    sr_running (cp_server cp') = sr_running (cp_server cp)"
proof (cases "supervisor_of flow_id (cp_server cp)")
  case None
  with assms show ?thesis by (simp add: fire_def)
next
  case (Some k)
  obtain t s where p: "fire_prepare E fi overlap k (cp_server cp) = (t, s)" by fastforce
  note prep = fire_prepare_reachable [OF assms(1,2) Some p]
  show ?thesis
  proof (cases t)
    case (Inl e)
    with assms(3) Some p prep show ?thesis by (auto simp: fire_def)
  next
    case (Inr u)
    obtain q s1 where st: "start_at E (fi_now fi) (fi_init fi) k s = Some (q, s1)"
      using assms(3) Some p Inr by (auto simp: fire_def split: option.splits)
    have "supervisor_of flow_id s = Some k" using Some prep by (simp add: supervisor_of_def)
    with prep st have "server_reachable E s1" by (blast intro: server_reachable.call server_call.start)
    moreover have "same_rest (cp_server cp) s1 \<and> sr_running s1 = sr_running (cp_server cp)"
      using prep start_at_frame [OF st] same_rest_trans by auto
    moreover have "cp_server cp' = s1" using assms(3) Some p Inr st by (auto simp: fire_def split: sum.splits)
    ultimately show ?thesis by simp
  qed
qed

lemma calendar_steps:
  assumes "server_reachable E (cp_server cp)" "codec_ok E"
  shows "trigger E fi flow_id cp = Some (r, cp') \<Longrightarrow> server_reachable E (cp_server cp') \<and>
      same_rest (cp_server cp) (cp_server cp') \<and> sr_running (cp_server cp') = sr_running (cp_server cp)"
    and "arm E upcoming fi flow_id cp = Some cp' \<Longrightarrow> server_reachable E (cp_server cp') \<and>
      same_rest (cp_server cp) (cp_server cp') \<and> sr_running (cp_server cp') = sr_running (cp_server cp)"
    and "job_tick E fi j cp = Some cp' \<Longrightarrow> server_reachable E (cp_server cp') \<and>
      same_rest (cp_server cp) (cp_server cp') \<and> sr_running (cp_server cp') = sr_running (cp_server cp)"
proof -
  have fires: "server_reachable E (cp_server cp2) \<and> same_rest (cp_server cp) (cp_server cp2) \<and>
      sr_running (cp_server cp2) = sr_running (cp_server cp)"
    if "fire E fi a overlap cp1 = Some (q, cp2)" "cp_server cp1 = cp_server cp" for a overlap cp1 q cp2
    using fire_reachable [of E cp1] assms that by auto
  show "server_reachable E (cp_server cp') \<and> same_rest (cp_server cp) (cp_server cp') \<and>
      sr_running (cp_server cp') = sr_running (cp_server cp)" if "trigger E fi flow_id cp = Some (r, cp')"
    using that fires [OF _ refl] assms(1) by (auto simp: trigger_def split: option.splits)
  show "server_reachable E (cp_server cp') \<and> same_rest (cp_server cp) (cp_server cp') \<and>
      sr_running (cp_server cp') = sr_running (cp_server cp)" if "job_tick E fi j cp = Some cp'"
    using that fires [OF _ refl] assms(1) by (auto simp: job_tick_def Let_def split: if_splits)
  show "server_reachable E (cp_server cp') \<and> same_rest (cp_server cp) (cp_server cp') \<and>
      sr_running (cp_server cp') = sr_running (cp_server cp)" if "arm E upcoming fi flow_id cp = Some cp'"
    using that fires assms(1)
    by (auto simp: arm_def Let_def split: arm_decision.splits option.splits if_splits)
qed

text \<open>
  Whatever a tick, a trigger or the arming of a flow does, the registry is left in a state
  that its own calls reach, so every invariant of the registry holds; records, file and the map
  of what runs are not touched.
\<close>

theorem calendar_keeps_registry:
  assumes "server_reachable E (cp_server cp)" "codec_ok E"
    and "trigger E fi flow_id cp = Some (r, cp') \<or> job_tick E fi j cp = Some cp' \<or> arm E upcoming fi flow_id cp = Some cp'"
  shows "server_reachable E (cp_server cp') \<and> sr_records (cp_server cp') = sr_records (cp_server cp) \<and>
    sr_file (cp_server cp') = sr_file (cp_server cp) \<and> sr_running (cp_server cp') = sr_running (cp_server cp)"
  using assms(3) calendar_steps [OF assms(1,2)] by (auto simp: same_rest_def)

definition example_plane :: control_plane where
  "example_plane = \<lparr> cp_server = example_server, cp_scheduler = scheduler_new (store_open False True None) \<rparr>"

definition example_fire :: fire_call where
  "example_fire = \<lparr> fi_now = 9, fi_drained = Some None, fi_waited = Some None, fi_init = None, fi_put = True \<rparr>"

lemma example_fires:
  "fire example_registry example_fire ''f'' OverlapSkip example_plane =
     Some (Inr False, example_plane\<lparr>cp_scheduler := scheduler_record 9 True ''f'' ''skipped'' (cp_scheduler example_plane)\<rparr>)"
  "trigger example_registry example_fire ''f'' example_plane =
     Some (Inr False, example_plane\<lparr>cp_scheduler := scheduler_record 9 True ''f'' ''skipped'' (cp_scheduler example_plane)\<rparr>)"
proof -
  have start: "start_at example_registry 9 None 0 example_server = Some (Inr False, example_server)"
    unfolding start_at_def Let_def
    by (simp add: example_server_def example_engine [simplified] example_running_sv_def sv_start_flow_def sv_start_def
        supervisor_new_def Let_def run_begin_def run_ready_def)
  have sup: "supervisor_of ''f'' example_server = Some 0" by (simp add: supervisor_of_def example_server_def newer_flow_def)
  have "fc_schedule (su_config (sr_supervisors example_server ! 0)) = None"
    by (simp add: example_server_def example_checks [simplified])
  with start sup show
    "fire example_registry example_fire ''f'' OverlapSkip example_plane =
     Some (Inr False, example_plane\<lparr>cp_scheduler := scheduler_record 9 True ''f'' ''skipped'' (cp_scheduler example_plane)\<rparr>)"
    "trigger example_registry example_fire ''f'' example_plane =
     Some (Inr False, example_plane\<lparr>cp_scheduler := scheduler_record 9 True ''f'' ''skipped'' (cp_scheduler example_plane)\<rparr>)"
    by (simp_all add: trigger_def fire_def example_plane_def fire_prepare_def example_fire_def)
qed

lemma calendar_keeps_registry_witness:
  "sr_running (cp_server (example_plane\<lparr>cp_scheduler := scheduler_record 9 True ''f'' ''skipped'' (cp_scheduler example_plane)\<rparr>)) =
    sr_running example_server \<and> supervisor_of ''f'' example_server = Some 0"
proof -
  have "server_reachable example_registry (cp_server example_plane)" using example_reachable(3) by (simp add: example_plane_def)
  from calendar_keeps_registry [OF this registry_codec_ok disjI1 [OF example_fires(2)]]
  show ?thesis by (simp add: example_plane_def supervisor_of_def example_server_def newer_flow_def)
qed

section \<open>What a fire records\<close>

lemma store_get_put: "store_get a (snd (store_put ok b x st)) = (if a = b then x else store_get a st)"
  by (auto simp: store_get_def store_put_def Let_def)

text \<open>A start that answers that it started has left a live task.\<close>

lemma start_live:
  assumes "start_at E now init k s = Some (Inr True, s')" "k < length (sr_supervisors s)"
  shows "live (supervisor_at s' k) \<noteq> {}"
proof -
  obtain engine sv where sv: "sv_start_flow (ev_display E) now engine init (supervisor_at s k) = (Inr True, sv)"
    and s': "supervisor_at s' k = sv"
    using assms by (auto simp: start_at_def Let_def split: prod.splits option.splits)
  have "length (sv_tasks (supervisor_at s k)) \<in> live sv"
    using sv by (auto simp: sv_start_flow_def sv_start_def Let_def run_begin_def run_ready_def run_end_def sv_start_lost_def
        sv_start_take_def sv_start_join_def run_dropped_def live_def
        split: if_splits sum.splits option.splits run_phase.splits)
  with s' show ?thesis by auto
qed

text \<open>
  A fire that fails records nothing. Otherwise the time and the outcome are stored for the
  flow, the planned time is kept, and no other flow is touched; when it answers that it started
  the flow, the registered supervisor has a live task.
\<close>

theorem fire_outcome:
  assumes "server_reachable E (cp_server cp)" "codec_ok E" "fire E fi flow_id overlap cp = Some (r, cp')"
  shows "(\<forall>e. r = Inl e \<longrightarrow> cp_scheduler cp' = cp_scheduler cp) \<and>
    (\<forall>started. r = Inr started \<longrightarrow>
      sd_jobs (cp_scheduler cp') = sd_jobs (cp_scheduler cp) \<and> sd_armed (cp_scheduler cp') = sd_armed (cp_scheduler cp) \<and>
      (\<forall>a. store_get a (sd_store (cp_scheduler cp')) =
        (if a = flow_id
         then \<lparr> ss_last_fire_at = Some (fi_now fi), ss_next_fire_at = ss_next_fire_at (store_get a (sd_store (cp_scheduler cp))),
                ss_last_status = Some (if started then ''started'' else ''skipped''), ss_updated_at = fi_now fi \<rparr>
         else store_get a (sd_store (cp_scheduler cp)))) \<and>
      (started \<longrightarrow> (\<exists>k. supervisor_of flow_id (cp_server cp') = Some k \<and> live (supervisor_at (cp_server cp') k) \<noteq> {})))"
proof (cases "supervisor_of flow_id (cp_server cp)")
  case None
  with assms(3) show ?thesis by (auto simp: fire_def)
next
  case (Some k)
  obtain t s where p: "fire_prepare E fi overlap k (cp_server cp) = (t, s)" by fastforce
  note prep = fire_prepare_reachable [OF assms(1,2) Some p]
  show ?thesis
  proof (cases t)
    case (Inl e)
    with assms(3) Some p show ?thesis by (auto simp: fire_def)
  next
    case (Inr u)
    obtain q s1 where st: "start_at E (fi_now fi) (fi_init fi) k s = Some (q, s1)"
      using assms(3) Some p Inr by (auto simp: fire_def split: option.splits)
    show ?thesis
    proof (cases q)
      case (Inl e)
      with assms(3) Some p Inr st show ?thesis by (auto simp: fire_def)
    next
      case started: (Inr started)
      have cp': "r = Inr started" "cp' = cp\<lparr>cp_server := s1, cp_scheduler := scheduler_record (fi_now fi) (fi_put fi) flow_id
          (if started then ''started'' else ''skipped'') (cp_scheduler cp)\<rparr>"
        using assms(3) Some p Inr st started by (auto simp: fire_def)
      have k: "supervisor_of flow_id s = Some k" using Some prep by (simp add: supervisor_of_def)
      have sup: "supervisor_of flow_id s1 = Some k" using k start_at_frame(2) [OF st] by (simp add: supervisor_of_def)
      have len: "k < length (sr_supervisors s)"
        using supervisor_of_less [OF server_reachable_ok k] prep assms(2) by blast
      have "live (supervisor_at s1 k) \<noteq> {}" if started
        using start_live [of E "fi_now fi" "fi_init fi" k s s1] st started that len by simp
      then show ?thesis using sup by (auto simp: cp' scheduler_record_def Let_def store_get_put)
    qed
  qed
qed

lemma fire_outcome_witness:
  "store_get ''f'' (sd_store (scheduler_record 9 True ''f'' ''skipped'' (cp_scheduler example_plane))) =
    \<lparr> ss_last_fire_at = Some 9, ss_next_fire_at = None, ss_last_status = Some ''skipped'', ss_updated_at = 9 \<rparr>"
proof -
  have "server_reachable example_registry (cp_server example_plane)" using example_reachable(3) by (simp add: example_plane_def)
  from fire_outcome [OF this registry_codec_ok example_fires(1)]
  have "store_get ''f'' (sd_store (scheduler_record 9 True ''f'' ''skipped'' (cp_scheduler example_plane))) =
    \<lparr> ss_last_fire_at = Some 9, ss_next_fire_at = ss_next_fire_at (store_get ''f'' (sd_store (cp_scheduler example_plane))),
      ss_last_status = Some ''skipped'', ss_updated_at = 9 \<rparr>" by (auto simp: example_fire_def)
  then show ?thesis
    by (simp add: example_fire_def example_plane_def scheduler_new_def store_get_def store_open_def flow_schedule_state_default_def)
qed

section \<open>Jobs\<close>

text \<open>A live job is the one whose handle is kept for its flow.\<close>

definition jobs_ok :: "flow_scheduler \<Rightarrow> bool" where
  "jobs_ok sd \<longleftrightarrow>
     (\<forall>j<length (sd_jobs sd). jb_alive (sd_jobs sd ! j) \<longrightarrow> hm_get (sd_armed sd) (jb_flow (sd_jobs sd ! j)) = Some j) \<and>
     (\<forall>a j. hm_get (sd_armed sd) a = Some j \<longrightarrow> j < length (sd_jobs sd) \<and> jb_flow (sd_jobs sd ! j) = a)"

lemma jobs_okD:
  assumes "jobs_ok sd"
  shows "j < length (sd_jobs sd) \<Longrightarrow> jb_alive (sd_jobs sd ! j) \<Longrightarrow> hm_get (sd_armed sd) (jb_flow (sd_jobs sd ! j)) = Some j"
    "hm_get (sd_armed sd) a = Some j \<Longrightarrow> j < length (sd_jobs sd) \<and> jb_flow (sd_jobs sd ! j) = a"
  using assms by (auto simp: jobs_ok_def)

lemma jobs_ok_cong: "jobs_ok sd \<Longrightarrow> sd_jobs sd' = sd_jobs sd \<Longrightarrow> sd_armed sd' = sd_armed sd \<Longrightarrow> jobs_ok sd'"
  by (simp add: jobs_ok_def)

lemma stopped_job [simp]:
  "jb_flow ((xs[j := (xs ! j)\<lparr>jb_alive := False\<rparr>]) ! i) = jb_flow (xs ! i)"
  "i < length xs \<Longrightarrow> jb_alive ((xs[j := (xs ! j)\<lparr>jb_alive := False\<rparr>]) ! i) = (i \<noteq> j \<and> jb_alive (xs ! i))"
  by (cases "j < length xs"; cases "i = j"; simp add: list_update_beyond)+

lemma end_job_ok: "jobs_ok sd \<Longrightarrow> jobs_ok (end_job j sd)"
  by (simp add: jobs_ok_def end_job_def)

lemma disarm_ok:
  assumes "jobs_ok sd"
  shows "jobs_ok (disarm a sd)" "hm_get (sd_armed (disarm a sd)) a = None"
proof -
  note ok = jobs_okD [OF assms]
  have "jobs_ok (disarm a sd) \<and> hm_get (sd_armed (disarm a sd)) a = None"
  proof (cases "hm_get (sd_armed sd) a")
    case None
    with assms show ?thesis by (simp add: disarm_def)
  next
    case (Some j)
    have "hm_get (hm_remove a (sd_armed sd)) (jb_flow (sd_jobs sd ! i)) = Some i"
      if "i < length (sd_jobs sd)" "jb_alive (sd_jobs sd ! i)" "i \<noteq> j" for i
      using ok(1) [OF that(1,2)] Some that(3) by auto
    then show ?thesis using Some ok(2) by (auto simp: jobs_ok_def disarm_def)
  qed
  then show "jobs_ok (disarm a sd)" "hm_get (sd_armed (disarm a sd)) a = None" by simp_all
qed

lemma spawned_job:
  assumes "sch_trigger sch \<noteq> Webhook"
  obtains x where "jb_flow x = a" "jb_alive x" "\<And>sd. sd_jobs (spawn_job a sch sd) = sd_jobs sd @ [x]"
    "\<And>sd. sd_armed (spawn_job a sch sd) = hm_insert a (length (sd_jobs sd)) (sd_armed sd)"
proof (rule that)
  define x where "x = \<lparr> jb_flow = a, jb_trigger = sch_trigger sch,
    jb_timezone = (case sch_timezone sch of None \<Rightarrow> ''UTC'' | Some tz \<Rightarrow> tz), jb_overlap = sch_overlap sch, jb_alive = True \<rparr>"
  show "jb_flow x = a" "jb_alive x" by (simp_all add: x_def)
  show "sd_jobs (spawn_job a sch sd) = sd_jobs sd @ [x]"
    "sd_armed (spawn_job a sch sd) = hm_insert a (length (sd_jobs sd)) (sd_armed sd)" for sd
    using assms by (simp_all add: spawn_job_def x_def split: schedule_trigger.split)
qed

lemma spawn_job_ok:
  assumes "jobs_ok sd" "hm_get (sd_armed sd) a = None"
  shows "jobs_ok (spawn_job a sch sd)"
proof (cases "sch_trigger sch = Webhook")
  case True
  with assms(1) show ?thesis by (simp add: spawn_job_def)
next
  case False
  note ok = jobs_okD [OF assms(1)]
  let ?n = "length (sd_jobs sd)"
  obtain x where x: "jb_flow x = a" "jb_alive x" "sd_jobs (spawn_job a sch sd) = sd_jobs sd @ [x]"
    "sd_armed (spawn_job a sch sd) = hm_insert a ?n (sd_armed sd)"
    using spawned_job [OF False, of a] by metis
  have "hm_get (hm_insert a ?n (sd_armed sd)) (jb_flow ((sd_jobs sd @ [x]) ! i)) = Some i"
    if "i < Suc ?n" "jb_alive ((sd_jobs sd @ [x]) ! i)" for i
  proof (cases "i < ?n")
    case True
    then have "hm_get (sd_armed sd) (jb_flow (sd_jobs sd ! i)) = Some i" using ok(1) [OF True] that(2) by (simp add: nth_append)
    then show ?thesis using True assms(2) by (auto simp: nth_append)
  next
    case False
    then have "i = ?n" using that(1) by simp
    then show ?thesis using x(1) by (simp add: nth_append)
  qed
  moreover have "i < Suc ?n \<and> jb_flow ((sd_jobs sd @ [x]) ! i) = b"
    if "hm_get (hm_insert a ?n (sd_armed sd)) b = Some i" for b i
  proof (cases "b = a")
    case True
    then show ?thesis using that x(1) by (simp add: nth_append)
  next
    case False
    then have "i < ?n \<and> jb_flow (sd_jobs sd ! i) = b" using that ok(2) by simp
    then show ?thesis by (simp add: nth_append)
  qed
  ultimately show ?thesis by (simp add: jobs_ok_def x(3,4))
qed

lemma record_jobs [simp]:
  "sd_jobs (scheduler_record now ok a status sd) = sd_jobs sd" "sd_armed (scheduler_record now ok a status sd) = sd_armed sd"
  by (simp_all add: scheduler_record_def Let_def)

lemma fire_jobs:
  assumes "fire E fi a overlap cp = Some (r, cp')"
  shows "jobs_ok (cp_scheduler cp') = jobs_ok (cp_scheduler cp)" "sd_armed (cp_scheduler cp') = sd_armed (cp_scheduler cp)"
proof -
  have "cp_scheduler cp' = cp_scheduler cp \<or> (\<exists>status. cp_scheduler cp' = scheduler_record (fi_now fi) (fi_put fi) a status (cp_scheduler cp))"
    using assms unfolding fire_def by (simp split: option.splits prod.splits sum.splits) auto?
  then show "jobs_ok (cp_scheduler cp') = jobs_ok (cp_scheduler cp)" "sd_armed (cp_scheduler cp') = sd_armed (cp_scheduler cp)"
    by (auto simp: jobs_ok_def)
qed

lemma calendar_jobs:
  assumes "jobs_ok (cp_scheduler cp)"
  shows "arm E upcoming fi a cp = Some cp' \<Longrightarrow> jobs_ok (cp_scheduler cp')"
    and "job_tick E fi j cp = Some cp' \<Longrightarrow> jobs_ok (cp_scheduler cp')"
    and "trigger E fi a cp = Some (r, cp') \<Longrightarrow> jobs_ok (cp_scheduler cp')"
proof -
  show "jobs_ok (cp_scheduler cp')" if "arm E upcoming fi a cp = Some cp'"
    using that assms disarm_ok [OF assms, of a]
    by (auto simp: arm_def Let_def fire_jobs intro!: spawn_job_ok split: arm_decision.splits option.splits if_splits)
  show "jobs_ok (cp_scheduler cp')" if "job_tick E fi j cp = Some cp'"
    using that assms end_job_ok [OF assms] by (auto simp: job_tick_def Let_def fire_jobs split: if_splits)
  show "jobs_ok (cp_scheduler cp')" if "trigger E fi a cp = Some (r, cp')"
    using that assms by (auto simp: trigger_def fire_jobs split: option.splits)
qed

text \<open>
  Called one after the other, arming, disarming, triggers, plans and ticks keep at most one
  live job for a flow, and it is the one that disarming the flow would abort.
\<close>

theorem one_job_per_flow:
  assumes "jobs_ok (cp_scheduler cp)"
  shows "jobs_ok (disarm a (cp_scheduler cp)) \<and> jobs_ok (cron_plan upcoming now ok j expression (cp_scheduler cp)) \<and>
    (\<forall>cp'. arm E upcoming fi a cp = Some cp' \<or> job_tick E fi j cp = Some cp' \<or> map_option snd (trigger E fi a cp) = Some cp' \<longrightarrow>
      jobs_ok (cp_scheduler cp')) \<and>
    card {i. i < length (sd_jobs (cp_scheduler cp)) \<and> jb_alive (sd_jobs (cp_scheduler cp) ! i) \<and> jb_flow (sd_jobs (cp_scheduler cp) ! i) = a} \<le> 1"
proof (intro conjI allI impI)
  show "jobs_ok (disarm a (cp_scheduler cp))" by (rule disarm_ok [OF assms])
  show "jobs_ok (cron_plan upcoming now ok j expression (cp_scheduler cp))"
    using assms end_job_ok [OF assms]
    by (auto simp: cron_plan_def Let_def jobs_ok_def split: option.split)
  show "jobs_ok (cp_scheduler cp')"
    if "arm E upcoming fi a cp = Some cp' \<or> job_tick E fi j cp = Some cp' \<or> map_option snd (trigger E fi a cp) = Some cp'" for cp'
    using that calendar_jobs [OF assms] by auto
  let ?J = "{i. i < length (sd_jobs (cp_scheduler cp)) \<and> jb_alive (sd_jobs (cp_scheduler cp) ! i) \<and> jb_flow (sd_jobs (cp_scheduler cp) ! i) = a}"
  have "hm_get (sd_armed (cp_scheduler cp)) a = Some i" if "i \<in> ?J" for i
    using jobs_okD(1) [OF assms, of i] that by (elim CollectE conjE) metis
  then have "?J \<subseteq> {the (hm_get (sd_armed (cp_scheduler cp)) a)}" by fastforce
  from card_mono [OF _ this] show "card ?J \<le> 1" by simp
qed

lemma one_job_per_flow_witness:
  "jobs_ok (disarm ''f'' (cp_scheduler example_plane))"
  using one_job_per_flow [of example_plane "''f''"] by (simp add: example_plane_def scheduler_new_def jobs_ok_def)

text \<open>
  Two calls of \<open>arm\<close> for a flow that interleave both disarm before either spawns its job: two
  jobs are alive, and disarming the flow aborts only one of them.
\<close>

theorem arm_race_leaks_job:
  assumes "jobs_ok sd" "sch_trigger sch \<noteq> Webhook"
  shows "\<exists>j. let sd' = disarm a (spawn_job a sch (spawn_job a sch (disarm a (disarm a sd))))
    in jb_alive (sd_jobs sd' ! j) \<and> jb_flow (sd_jobs sd' ! j) = a \<and> hm_get (sd_armed sd') a = None"
proof -
  define sd0 where "sd0 = disarm a (disarm a sd)"
  obtain x where x: "jb_flow x = a" "jb_alive x" "\<And>sd. sd_jobs (spawn_job a sch sd) = sd_jobs sd @ [x]"
    "\<And>sd. sd_armed (spawn_job a sch sd) = hm_insert a (length (sd_jobs sd)) (sd_armed sd)"
    using spawned_job [OF assms(2), of a] by metis
  define sd2 where "sd2 = spawn_job a sch (spawn_job a sch sd0)"
  have sd2: "sd_jobs sd2 = sd_jobs sd0 @ [x] @ [x]" "hm_get (sd_armed sd2) a = Some (Suc (length (sd_jobs sd0)))"
    by (simp_all add: sd2_def x(3,4))
  let ?n = "length (sd_jobs sd0)"
  have off: "sd_jobs (disarm a sd2) = (sd_jobs sd2)[Suc ?n := (sd_jobs sd2 ! Suc ?n)\<lparr>jb_alive := False\<rparr>]"
    "hm_get (sd_armed (disarm a sd2)) a = None" by (simp_all add: disarm_def sd2(2))
  have "sd_jobs sd2 ! ?n = x" "?n < length (sd_jobs sd2)" by (simp_all add: sd2(1) nth_append)
  then have "jb_alive (sd_jobs (disarm a sd2) ! ?n)" "jb_flow (sd_jobs (disarm a sd2) ! ?n) = a"
    using x(1,2) unfolding off(1) stopped_job(1) by (simp_all only: stopped_job(2) n_not_Suc_n simp_thms)
  with off(2) have "\<exists>j. jb_alive (sd_jobs (disarm a sd2) ! j) \<and> jb_flow (sd_jobs (disarm a sd2) ! j) = a \<and>
    hm_get (sd_armed (disarm a sd2)) a = None" by blast
  then show ?thesis unfolding sd0_def sd2_def Let_def .
qed

section \<open>Fires that are lost, or that act on a replaced flow\<close>

text \<open>
  With \<open>overlap: queue\<close> a fire keeps the supervisor it found while it waits. When the flow is
  redeployed meanwhile, the drain of the old version ends the wait, and the fire starts the old
  version again: it runs beside the new one, and no entry of the registry leads to it.
\<close>

theorem queued_fire_revives_old_version:
  assumes "server_reachable E s" "codec_ok E" "supervisor_of flow_id s = Some k"
    and "deploy_version E oc flow_id version start s = Some (Inr k', s')"
    and "start_at E now init k s' = Some (Inr True, s'')"
  shows "live (supervisor_at s'' k) \<noteq> {} \<and> (\<forall>a. supervisor_of a s'' \<noteq> Some k)"
proof -
  note o = server_okD(2) [OF server_reachable_ok [OF assms(1,2)]]
  from assms(3) obtain p where p: "hm_get (sr_running s) flow_id = Some p" "rf_supervisor p = k"
    by (auto simp: supervisor_of_def)
  have k: "k < length (sr_supervisors s)" using runtime_okD(2) [OF o p(1)] p(2) by simp
  from o assms(4) [unfolded deploy_version_def] show ?thesis
  proof (cases rule: activate_deployed)
    case (1 r v fc)
    have less: "k < length (sr_supervisors s')" using k 1(15) by simp
    have "supervisor_of a s'' \<noteq> Some k" for a
    proof
      assume "supervisor_of a s'' = Some k"
      then obtain q where q: "hm_get (sr_running s') a = Some q" "rf_supervisor q = k"
        using start_at_frame(2) [OF assms(5)] by (auto simp: supervisor_of_def)
      show False
      proof (cases "a = flow_id")
        case True
        with q(1) 1(8) have "q = newer_flow version (fv_source v) k' fc" by (simp split: if_splits)
        with q(2) 1(14) k show False by (simp add: newer_flow_def)
      next
        case False
        with q(1) 1(8) have "hm_get (sr_running s) a = Some q" by (simp split: if_splits)
        from runtime_okD(3) [OF o this p(1)] q(2) p(2) False show False by simp
      qed
    qed
    with start_live [OF assms(5) less] show ?thesis by blast
  qed
qed

lemma queued_fire_revives_old_version_witness:
  "\<exists>s' s''. deploy_version example_registry example_call ''f'' 1 True example_server = Some (Inr 1, s') \<and>
     start_at example_registry 9 None 0 s' = Some (Inr True, s'') \<and> live (supervisor_at s'' 0) \<noteq> {}"
proof -
  have sup: "supervisor_of ''f'' example_server = Some 0" by (simp add: supervisor_of_def example_server_def newer_flow_def)
  have "\<exists>s'. deploy_version example_registry example_call ''f'' 1 True example_server = Some (Inr 1, s') \<and>
      su_config (sr_supervisors s' ! 0) = example_fc\<lparr>fc_id := ''f''\<rparr> \<and> sv_tasks (supervisor_at s' 0) = [Finished None] \<and>
      sv_task (supervisor_at s' 0) = None"
    unfolding deploy_defs Let_def
    by (simp add: example_server_def example_record_def example_validated_def example_empty_def example_parse
        example_call_def example_repository [simplified] example_engine [simplified] registry_defs newer_flow_def example_running_sv_def
        sv_start_flow_def sv_start_def supervisor_new_def Let_def run_begin_def run_ready_def sv_stop_gracefully_def
        sv_stop_begin_def sv_stop_take_def sv_drain_def ctl_drain_def control_defs run_end_def sv_stop_joined_def)
  then obtain s' where d: "deploy_version example_registry example_call ''f'' 1 True example_server = Some (Inr 1, s')"
    and c: "su_config (sr_supervisors s' ! 0) = example_fc\<lparr>fc_id := ''f''\<rparr>" "sv_task (supervisor_at s' 0) = None" by blast
  obtain s'' where st: "start_at example_registry 9 None 0 s' = Some (Inr True, s'')"
    by (simp add: start_at_def Let_def c example_engine sv_start_flow_def sv_start_def)
  from queued_fire_revives_old_version [OF example_reachable(3) registry_codec_ok sup d st] d st show ?thesis by blast
qed

text \<open>
  With \<open>overlap: queue\<close> a fire that waits for a run that fails is lost: its error is the failure
  of the run before, nothing is started and nothing is recorded.
\<close>

theorem queued_fire_lost:
  assumes "supervisor_of flow_id (cp_server cp) = Some k"
    and "\<not> is_idle (supervisor_at (cp_server cp) k)" "sv_task (supervisor_at (cp_server cp) k) = Some i"
    and "\<not> is_finished (sv_tasks (supervisor_at (cp_server cp) k) ! i)" "fi_waited fi = Some (Some e)"
  shows "\<exists>cp'. fire E fi flow_id OverlapQueue cp = Some (Inl (ServerError (ev_display E e)), cp') \<and>
    cp_scheduler cp' = cp_scheduler cp"
  using assms
  by (simp add: fire_def fire_prepare_def wait_at_def wait_until_idle_def Let_def run_end_def wait_for_terminal_def control_defs)

text \<open>
  \<open>arm\<close> is called when the flow was just started, so with \<open>overlap: skip\<close> a missed run is never
  caught up: the fire finds the flow running and only the record of it changes.
\<close>

theorem catch_up_never_starts:
  assumes "arm_decide E flow_id (cp_server cp) = ArmWith sch" "sch_overlap sch = OverlapSkip"
    and "supervisor_of flow_id (cp_server cp) = Some k" "sv_task (supervisor_at (cp_server cp) k) = Some i"
    and "\<not> is_finished (sv_tasks (supervisor_at (cp_server cp) k) ! i)" "arm E upcoming fi flow_id cp = Some cp'"
  shows "cp_server cp' = cp_server cp"
proof -
  have "start_at E now init k (cp_server cp) \<in> {None, Some (Inr False, cp_server cp)}" for now init
    using assms(4,5) by (cases "sr_supervisors (cp_server cp) ! k")
      (auto simp: start_at_def Let_def sv_start_flow_def sv_start_def list_update_same_conv intro!: server.equality split: option.split,
       metis list_update_id)
  note start = this [of "fi_now fi" "fi_init fi"]
  have fires: "cp_server cp2 = cp_server cp1"
    if "fire E fi flow_id OverlapSkip cp1 = Some (r, cp2)" "cp_server cp1 = cp_server cp" for cp1 r cp2
  proof (cases "start_at E (fi_now fi) (fi_init fi) k (cp_server cp)")
    case None
    with that assms(3) show ?thesis by (simp add: fire_def fire_prepare_def)
  next
    case (Some x)
    with start have "start_at E (fi_now fi) (fi_init fi) k (cp_server cp) = Some (Inr False, cp_server cp)" by simp
    with that assms(3) show ?thesis by (auto simp: fire_def fire_prepare_def)
  qed
  show ?thesis
    using assms(1,2,6) fires by (auto simp: arm_def Let_def split: option.splits if_splits)
qed

end
