(* ===== verification/Server_Auth.thy ===== *)
theory Server_Auth
  imports Flow_Validation "HOL-Library.Word"
begin

text \<open>
  Who may do what on the control plane (\<open>crates/jaiba-server/src/auth.rs\<close> and the gate of
  \<open>observability.rs\<close>): roles, projects, tokens, the users file, and what the process decides once
  at its start. SHA-256 and the JSON of the users file are parameters.
\<close>

unbundle bit_operations_syntax

section \<open>Roles and permissions\<close>

datatype role = Viewer | Operator | Administrator

instantiation role :: linorder
begin

fun role_level :: "role \<Rightarrow> nat" where
  "role_level Viewer = 0"
| "role_level Operator = 1"
| "role_level Administrator = 2"

definition less_eq_role :: "role \<Rightarrow> role \<Rightarrow> bool" where
  "less_eq_role a b \<longleftrightarrow> role_level a \<le> role_level b"

definition less_role :: "role \<Rightarrow> role \<Rightarrow> bool" where
  "less_role a b \<longleftrightarrow> role_level a < role_level b"

instance
proof
  fix a b c :: role
  show "(a < b) = (a \<le> b \<and> \<not> b \<le> a)" by (auto simp: less_role_def less_eq_role_def)
  show "a \<le> a" by (simp add: less_eq_role_def)
  show "a \<le> b \<Longrightarrow> b \<le> c \<Longrightarrow> a \<le> c" by (simp add: less_eq_role_def)
  show "a \<le> b \<Longrightarrow> b \<le> a \<Longrightarrow> a = b" by (cases a; cases b; simp add: less_eq_role_def)
  show "a \<le> b \<or> b \<le> a" by (auto simp: less_eq_role_def)
qed

end

fun role_str :: "role \<Rightarrow> string" where
  "role_str Viewer = ''viewer''"
| "role_str Operator = ''operator''"
| "role_str Administrator = ''admin''"

definition role_parse :: "string \<Rightarrow> role option" where
  "role_parse value =
     (let v = to_ascii_lowercase (trim value)
      in if v = ''viewer'' \<or> v = ''read'' then Some Viewer
         else if v = ''operator'' \<or> v = ''ops'' then Some Operator
         else if v = ''admin'' then Some Administrator
         else None)"

datatype permission = PermRead | PermOperate | PermAdmin

fun min_role :: "permission \<Rightarrow> role" where
  "min_role PermRead = Viewer"
| "min_role PermOperate = Operator"
| "min_role PermAdmin = Administrator"

record auth_context =
  cx_actor :: string
  cx_role :: role
  cx_projects :: "string list"

definition allows_project :: "auth_context \<Rightarrow> string \<Rightarrow> bool" where
  "allows_project cx flow_id \<longleftrightarrow> list_ex (\<lambda>entry. entry = ''*'' \<or> entry = flow_id) (cx_projects cx)"

definition has_permission :: "auth_context \<Rightarrow> permission \<Rightarrow> bool" where
  "has_permission cx permission \<longleftrightarrow> min_role permission \<le> cx_role cx"

section \<open>Tokens\<close>

record principal =
  pn_id :: string
  pn_role :: role
  pn_projects :: "string list"
  pn_token_secret :: string

definition bytes_of :: "string \<Rightarrow> 8 word list" where
  "bytes_of s = map (\<lambda>c. word_of_nat (of_char c)) s"

text \<open>The differences of all bytes are or-ed together; no byte ends the loop early.\<close>

definition constant_time_eq :: "8 word list \<Rightarrow> 8 word list \<Rightarrow> bool" where
  "constant_time_eq left right =
     (if length left \<noteq> length right then False
      else fold (\<lambda>(a, b) diff. diff OR (a XOR b)) (zip left right) 0 = 0)"

definition hex_digit :: "8 word \<Rightarrow> char" where
  "hex_digit n = ''0123456789abcdef'' ! unat n"

definition to_hex :: "8 word list \<Rightarrow> string" where
  "to_hex bytes = concat (map (\<lambda>byte. [hex_digit (drop_bit 4 byte), hex_digit (byte AND 0xf)]) bytes)"

definition token_matches :: "(8 word list \<Rightarrow> 8 word list) \<Rightarrow> string \<Rightarrow> string \<Rightarrow> bool" where
  "token_matches sha256 secret presented =
     (case strip_prefix ''sha256:'' secret of
        Some expected_hex \<Rightarrow>
          constant_time_eq (bytes_of (to_hex (sha256 (bytes_of presented)))) (bytes_of (to_ascii_lowercase (trim expected_hex)))
      | None \<Rightarrow> constant_time_eq (bytes_of secret) (bytes_of presented))"

definition match_principal :: "(8 word list \<Rightarrow> 8 word list) \<Rightarrow> principal list \<Rightarrow> string \<Rightarrow> principal option" where
  "match_principal sha256 principals presented = find (\<lambda>p. token_matches sha256 (pn_token_secret p) presented) principals"

section \<open>The users file\<close>

text \<open>One user of the file; \<open>None\<close> where the field \<open>projects\<close> is absent.\<close>

record user_record =
  ur_id :: string
  ur_role :: string
  ur_token :: string
  ur_projects :: "string list option"

definition default_all_projects :: "string list" where
  "default_all_projects = [''*'']"

datatype auth_error =
    UsersFileUnreadable
  | UsersFileInvalid
  | UsersFileEmpty
  | UserWithoutId
  | UserRoleInvalid string string
  | UserWithoutToken string
  | AdminAuthInvalid string
  | AdminExposed
  | AdminTokenMissing string

fun load_users :: "user_record list \<Rightarrow> (auth_error, principal list) result" where
  "load_users [] = Inr []"
| "load_users (u # us) =
     (let i = trim (ur_id u); token = trim (ur_token u)
      in if i = [] then Inl UserWithoutId
         else case role_parse (ur_role u) of
           None \<Rightarrow> Inl (UserRoleInvalid (ur_role u) i)
         | Some r \<Rightarrow>
             if token = [] then Inl (UserWithoutToken i)
             else map_sum id (\<lambda>ps. \<lparr> pn_id = i, pn_role = r,
                    pn_projects = (case ur_projects u of None \<Rightarrow> default_all_projects | Some ps \<Rightarrow> ps), pn_token_secret = token \<rparr> # ps)
                  (load_users us))"

text \<open>\<open>content\<close> is the file, \<open>None\<close> when it cannot be read; \<open>users_json\<close> its users.\<close>

definition load_users_file :: "(string \<Rightarrow> user_record list option) \<Rightarrow> string option \<Rightarrow> (auth_error, principal list) result" where
  "load_users_file users_json content =
     (case content of
        None \<Rightarrow> Inl UsersFileUnreadable
      | Some raw \<Rightarrow>
          (case users_json raw of
             None \<Rightarrow> Inl UsersFileInvalid
           | Some users \<Rightarrow> if users = [] then Inl UsersFileEmpty else load_users users))"

section \<open>The gate of the process\<close>

record admin_access =
  aa_enabled :: bool
  aa_authentication :: admin_authentication
  aa_principals :: "principal list"

definition parse_env_bool :: "(string \<Rightarrow> string option) \<Rightarrow> string \<Rightarrow> bool option" where
  "parse_env_bool env name =
     (case env name of
        None \<Rightarrow> None
      | Some value \<Rightarrow>
          (let v = to_ascii_lowercase (trim value)
           in if v \<in> set [''1'', ''true'', ''yes'', ''on''] then Some True
              else if v \<in> set [''0'', ''false'', ''no'', ''off''] then Some False
              else None))"

definition env_flag_enabled :: "(string \<Rightarrow> string option) \<Rightarrow> string \<Rightarrow> bool" where
  "env_flag_enabled env name =
     (case env name of
        None \<Rightarrow> False
      | Some value \<Rightarrow> to_ascii_lowercase (trim value) \<in> set [''1'', ''true'', ''yes'', ''on''])"

definition master_key_required :: "(string \<Rightarrow> string option) \<Rightarrow> bool \<Rightarrow> bool" where
  "master_key_required env loopback =
     (if env_flag_enabled env ''JAIBA_REQUIRE_MASTER_KEY'' then True
      else \<not> loopback \<and> \<not> env_flag_enabled env ''JAIBA_ALLOW_INMEMORY_SECRETS'')"

definition validate_admin_exposure :: "bool \<Rightarrow> admin_authentication \<Rightarrow> bool \<Rightarrow> (auth_error, unit) result" where
  "validate_admin_exposure enabled authentication loopback =
     (if enabled \<and> authentication = AuthNone \<and> \<not> loopback then Inl AdminExposed else Inr ())"

definition resolve_admin_token :: "(string \<Rightarrow> string option) \<Rightarrow> string \<Rightarrow> string option" where
  "resolve_admin_token env variable =
     (case env variable of
        Some token \<Rightarrow> Some token
      | None \<Rightarrow> if variable = ''JAIBA_ADMIN_TOKEN'' then env ''JAIVA_ADMIN_TOKEN'' else None)"

definition admin_token_env :: "(string \<Rightarrow> string option) \<Rightarrow> admin_config option \<Rightarrow> string" where
  "admin_token_env env seed =
     (let requested =
        (case env ''JAIBA_ADMIN_TOKEN_ENV'' of
           Some value \<Rightarrow> if trim value \<noteq> [] then value
             else (case seed of Some admin \<Rightarrow> ac_token_env admin | None \<Rightarrow> ''JAIBA_ADMIN_TOKEN'')
         | None \<Rightarrow> (case seed of Some admin \<Rightarrow> ac_token_env admin | None \<Rightarrow> ''JAIBA_ADMIN_TOKEN''))
      in if requested \<in> set [''JAIBA_ADMIN_TOKEN'', ''JAIVA_ADMIN_TOKEN''] then requested else ''JAIBA_ADMIN_TOKEN'')"

definition resolve_authentication ::
  "(string \<Rightarrow> string option) \<Rightarrow> admin_config option \<Rightarrow> (auth_error, admin_authentication) result" where
  "resolve_authentication env seed =
     (case map_option (\<lambda>value. to_ascii_lowercase (trim value)) (env ''JAIBA_ADMIN_AUTH'') of
        None \<Rightarrow> Inr (case seed of Some admin \<Rightarrow> ac_authentication admin | None \<Rightarrow> AuthBearer)
      | Some value \<Rightarrow>
          if value = ''none'' then Inr AuthNone
          else if value = ''bearer'' then Inr AuthBearer
          else Inl (AdminAuthInvalid value))"

text \<open>The principals: the users of the file, then the token of the environment as an administrator.\<close>

definition resolve_principals ::
  "(string \<Rightarrow> string option) \<Rightarrow> (string \<Rightarrow> string option) \<Rightarrow> (string \<Rightarrow> user_record list option) \<Rightarrow> string
    \<Rightarrow> (auth_error, principal list) result" where
  "resolve_principals env files users_json token_env =
     (case (case env ''JAIBA_ADMIN_USERS_FILE'' of
              None \<Rightarrow> Inr []
            | Some path \<Rightarrow> if trim path = [] then Inr [] else load_users_file users_json (files (trim path))) of
        Inl e \<Rightarrow> Inl e
      | Inr users \<Rightarrow>
          (let principals = users @
             (case resolve_admin_token env token_env of
                None \<Rightarrow> []
              | Some token \<Rightarrow>
                  [\<lparr> pn_id = ''bearer'', pn_role = Administrator, pn_projects = [''*''], pn_token_secret = token \<rparr>])
           in if principals = [] then Inl (AdminTokenMissing token_env) else Inr principals))"

definition resolve_server_admin ::
  "(string \<Rightarrow> string option) \<Rightarrow> (string \<Rightarrow> string option) \<Rightarrow> (string \<Rightarrow> user_record list option) \<Rightarrow> bool \<Rightarrow> admin_config option
    \<Rightarrow> (auth_error, admin_access \<times> nat) result" where
  "resolve_server_admin env files users_json loopback seed =
     (let enabled = (case parse_env_bool env ''JAIBA_ADMIN_ENABLED'' of
                       Some b \<Rightarrow> b | None \<Rightarrow> (case seed of Some admin \<Rightarrow> ac_enabled admin | None \<Rightarrow> True))
      in case resolve_authentication env seed of
           Inl e \<Rightarrow> Inl e
         | Inr authentication \<Rightarrow>
             (case validate_admin_exposure enabled authentication loopback of
                Inl e \<Rightarrow> Inl e
              | Inr _ \<Rightarrow>
                  (case (if enabled \<and> authentication = AuthBearer
                         then resolve_principals env files users_json (admin_token_env env seed) else Inr []) of
                     Inl e \<Rightarrow> Inl e
                   | Inr principals \<Rightarrow>
                       (let body_limit = max 1 (case (case env ''JAIBA_ADMIN_MAX_BODY_BYTES'' of None \<Rightarrow> None | Some v \<Rightarrow> parse_u64 v) of
                          Some n \<Rightarrow> n
                        | None \<Rightarrow> (case seed of Some admin \<Rightarrow> ac_max_request_body_bytes admin | None \<Rightarrow> 1024 * 1024))
                        in Inr (\<lparr> aa_enabled = enabled, aa_authentication = authentication, aa_principals = principals \<rparr>, body_limit)))))"

section \<open>Requests\<close>

datatype http_status =
    HttpOk
  | HttpCreated
  | HttpUnauthorized
  | HttpForbidden
  | HttpNotFound
  | HttpConflict
  | HttpUnprocessable
  | HttpInternal
  | HttpUnavailable

text \<open>\<open>authorization\<close>: the value of the header, when it is text.\<close>

definition extract_bearer_token :: "string option \<Rightarrow> string option" where
  "extract_bearer_token authorization =
     (case authorization of None \<Rightarrow> None | Some value \<Rightarrow> strip_prefix ''Bearer '' value)"

definition authenticate ::
  "(8 word list \<Rightarrow> 8 word list) \<Rightarrow> admin_access \<Rightarrow> string option \<Rightarrow> string option \<Rightarrow> (http_status, auth_context) result" where
  "authenticate sha256 admin authorization query_token =
     (if \<not> aa_enabled admin then Inl HttpUnavailable
      else if aa_authentication admin = AuthNone
      then Inr \<lparr> cx_actor = ''none'', cx_role = Administrator, cx_projects = [''*''] \<rparr>
      else case (case extract_bearer_token authorization of Some t \<Rightarrow> Some t | None \<Rightarrow> query_token) of
             None \<Rightarrow> Inl HttpUnauthorized
           | Some token \<Rightarrow>
               (case match_principal sha256 (aa_principals admin) token of
                  None \<Rightarrow> Inl HttpUnauthorized
                | Some p \<Rightarrow> Inr \<lparr> cx_actor = pn_id p, cx_role = pn_role p, cx_projects = pn_projects p \<rparr>))"

definition authorize_perm ::
  "(8 word list \<Rightarrow> 8 word list) \<Rightarrow> admin_access \<Rightarrow> string option \<Rightarrow> permission \<Rightarrow> (http_status, auth_context) result" where
  "authorize_perm sha256 admin authorization permission =
     (case authenticate sha256 admin authorization None of
        Inl e \<Rightarrow> Inl e
      | Inr cx \<Rightarrow> if has_permission cx permission then Inr cx else Inl HttpForbidden)"

definition authorize_flow ::
  "(8 word list \<Rightarrow> 8 word list) \<Rightarrow> admin_access \<Rightarrow> string option \<Rightarrow> permission \<Rightarrow> string \<Rightarrow> (http_status, auth_context) result" where
  "authorize_flow sha256 admin authorization permission flow_id =
     (case authorize_perm sha256 admin authorization permission of
        Inl e \<Rightarrow> Inl e
      | Inr cx \<Rightarrow> if allows_project cx flow_id then Inr cx else Inl HttpForbidden)"

definition authorize_observability ::
  "(8 word list \<Rightarrow> 8 word list) \<Rightarrow> admin_access \<Rightarrow> string option \<Rightarrow> string option \<Rightarrow> (http_status, auth_context) result" where
  "authorize_observability sha256 admin authorization query_token =
     (case authenticate sha256 admin authorization query_token of
        Inl e \<Rightarrow> Inl e
      | Inr cx \<Rightarrow> if has_permission cx PermRead then Inr cx else Inl HttpForbidden)"

definition whoami ::
  "(8 word list \<Rightarrow> 8 word list) \<Rightarrow> admin_access \<Rightarrow> string option \<Rightarrow> (http_status, string \<times> string \<times> string list \<times> string) result" where
  "whoami sha256 admin authorization =
     (let label = (case aa_authentication admin of
                     AuthNone \<Rightarrow> ''none''
                   | AuthBearer \<Rightarrow> if list_ex (\<lambda>p. pn_id p \<noteq> ''bearer'') (aa_principals admin) then ''users'' else ''bearer'')
      in map_sum id (\<lambda>cx. (cx_actor cx, role_str (cx_role cx), cx_projects cx, label))
           (authorize_perm sha256 admin authorization PermRead))"

section \<open>Tokens are compared by value\<close>

lemma xor_zero_iff: "a XOR b = 0 \<longleftrightarrow> a = b" for a b :: "8 word"
  by (auto simp: bit_eq_iff bit_xor_iff)

lemma fold_diff_zero:
  "fold (\<lambda>(a, b) diff. diff OR (a XOR b)) xs d = 0 \<longleftrightarrow> d = 0 \<and> (\<forall>(a, b)\<in>set xs. a = b)" for d :: "8 word"
proof (induction xs arbitrary: d)
  case Nil
  then show ?case by simp
next
  case (Cons x xs)
  obtain a b where x: "x = (a, b)" by (cases x)
  have "(d OR (a XOR b) = 0) = (d = 0 \<and> a = b)"
    by (simp add: or_eq_0_iff xor_zero_iff)
  then show ?case by (simp add: x Cons.IH conj_assoc)
qed

text \<open>The comparison that does not stop at the first difference answers as equality does.\<close>

lemma constant_time_eq_iff: "constant_time_eq left right \<longleftrightarrow> left = right"
proof (cases "length left = length right")
  case True
  then have "(\<forall>(a, b)\<in>set (zip left right). a = b) \<longleftrightarrow> left = right"
    by (induction left right rule: list_induct2) auto
  with True show ?thesis by (simp add: constant_time_eq_def fold_diff_zero)
next
  case False
  then show ?thesis by (auto simp: constant_time_eq_def)
qed

lemma bytes_of_inj: "bytes_of s = bytes_of t \<longleftrightarrow> s = t"
proof -
  have "c = d" if "(word_of_nat (of_char c) :: 8 word) = word_of_nat (of_char d)" for c d :: char
  proof -
    have "unat (word_of_nat (of_char c) :: 8 word) = unat (word_of_nat (of_char d) :: 8 word)" using that by simp
    then have "(of_char c :: nat) mod 256 = of_char d mod 256" by (simp add: unat_of_nat)
    then have "(of_char c :: nat) = of_char d" using of_char_mod_256 by metis
    then show "c = d" by simp
  qed
  then have "inj (\<lambda>c. word_of_nat (of_char c) :: 8 word)" by (simp add: inj_def)
  then show ?thesis unfolding bytes_of_def by (simp add: inj_map_eq_map)
qed

text \<open>
  A token is accepted exactly when it is the secret, or, for a secret that holds a digest,
  when the digest of the token in lower-case hexadecimal is the one of the secret: the comparison
  that does not stop early answers as the plain comparison of strings.
\<close>

theorem token_matches_iff:
  "token_matches sha256 secret presented \<longleftrightarrow>
     (case strip_prefix ''sha256:'' secret of
        Some expected \<Rightarrow> to_hex (sha256 (bytes_of presented)) = to_ascii_lowercase (trim expected)
      | None \<Rightarrow> secret = presented)"
  by (simp add: token_matches_def constant_time_eq_iff bytes_of_inj split: option.split)

section \<open>The gate\<close>

lemma authenticate_Inr:
  assumes "authenticate sha256 admin authorization query_token = Inr cx"
  shows "aa_enabled admin"
    "aa_authentication admin = AuthNone \<or>
      (\<exists>token p. p \<in> set (aa_principals admin) \<and> token_matches sha256 (pn_token_secret p) token \<and>
        (extract_bearer_token authorization = Some token \<or> query_token = Some token) \<and>
        cx = \<lparr> cx_actor = pn_id p, cx_role = pn_role p, cx_projects = pn_projects p \<rparr>)"
  using assms
  by (auto simp: authenticate_def match_principal_def find_Some_iff in_set_conv_nth split: if_splits option.splits)

text \<open>
  C31. A server that starts on an address other than loopback, with the API enabled, refuses a
  request without a token; and whoever is let in presented the token of a principal, and acts
  with the role and the projects of that principal.
\<close>

theorem exposed_server_asks_for_token:
  assumes "resolve_server_admin env files users_json False seed = Inr (admin, body_limit)"
  shows "1 \<le> body_limit \<and>
    authenticate sha256 admin None None \<in> {Inl HttpUnauthorized, Inl HttpUnavailable} \<and>
    (\<forall>cx. authenticate sha256 admin authorization query_token = Inr cx \<longrightarrow>
      (\<exists>token p. p \<in> set (aa_principals admin) \<and> token_matches sha256 (pn_token_secret p) token \<and>
        (extract_bearer_token authorization = Some token \<or> query_token = Some token) \<and>
        cx_role cx = pn_role p \<and> cx_projects cx = pn_projects p))"
proof -
  from assms have limit: "1 \<le> body_limit"
    by (auto simp: resolve_server_admin_def Let_def split: sum.splits if_splits)
  from assms have gate: "\<not> aa_enabled admin \<or> aa_authentication admin = AuthBearer"
    by (auto simp: resolve_server_admin_def validate_admin_exposure_def Let_def
        split: sum.splits if_splits) (metis admin_authentication.exhaust)+
  have "authenticate sha256 admin None None \<in> {Inl HttpUnauthorized, Inl HttpUnavailable}"
    using gate by (auto simp: authenticate_def extract_bearer_token_def)
  moreover have "\<exists>token p. p \<in> set (aa_principals admin) \<and> token_matches sha256 (pn_token_secret p) token \<and>
        (extract_bearer_token authorization = Some token \<or> query_token = Some token) \<and>
        cx_role cx = pn_role p \<and> cx_projects cx = pn_projects p"
    if "authenticate sha256 admin authorization query_token = Inr cx" for cx
  proof -
    have "aa_authentication admin \<noteq> AuthNone" using authenticate_Inr(1) [OF that] gate by auto
    with authenticate_Inr(2) [OF that] obtain token p where p: "p \<in> set (aa_principals admin)"
      "token_matches sha256 (pn_token_secret p) token"
      "extract_bearer_token authorization = Some token \<or> query_token = Some token"
      "cx = \<lparr> cx_actor = pn_id p, cx_role = pn_role p, cx_projects = pn_projects p \<rparr>" by blast
    from p(4) have "cx_role cx = pn_role p" "cx_projects cx = pn_projects p" by simp_all
    with p(1-3) show ?thesis by blast
  qed
  ultimately show ?thesis using limit by blast
qed

definition example_admin_env :: "string \<Rightarrow> string option" where
  "example_admin_env name = (if name = ''JAIBA_ADMIN_TOKEN'' then Some ''secret'' else None)"

lemma exposed_server_asks_for_token_witness:
  "\<exists>admin n. resolve_server_admin example_admin_env (\<lambda>_. None) (\<lambda>_. None) False None = Inr (admin, n) \<and>
     authenticate (\<lambda>b. b) admin None None \<in> {Inl HttpUnauthorized, Inl HttpUnavailable}"
proof -
  obtain admin n where "resolve_server_admin example_admin_env (\<lambda>_. None) (\<lambda>_. None) False None = Inr (admin, n)"
    by (simp add: resolve_server_admin_def example_admin_env_def parse_env_bool_def resolve_authentication_def
        validate_admin_exposure_def resolve_principals_def admin_token_env_def resolve_admin_token_def Let_def)
  with exposed_server_asks_for_token [OF this, of "\<lambda>b. b" None None] show ?thesis by blast
qed

text \<open>
  An empty token in the environment is accepted at the start, unlike an empty token of a user,
  and then the empty token of a query lets anyone in as the administrator.
\<close>

definition empty_token_env :: "string \<Rightarrow> string option" where
  "empty_token_env name = (if name = ''JAIBA_ADMIN_TOKEN'' then Some [] else None)"

theorem empty_token_opens_observability:
  "\<exists>admin n cx. resolve_server_admin empty_token_env files users_json False None = Inr (admin, n) \<and>
     authorize_observability sha256 admin None (Some []) = Inr cx \<and> cx_role cx = Administrator \<and> allows_project cx a"
  by (simp add: resolve_server_admin_def empty_token_env_def parse_env_bool_def resolve_authentication_def
        validate_admin_exposure_def resolve_principals_def admin_token_env_def resolve_admin_token_def Let_def
        authorize_observability_def authenticate_def extract_bearer_token_def match_principal_def token_matches_def
        strip_prefix_def starts_with_def constant_time_eq_def has_permission_def allows_project_def less_eq_role_def bytes_of_def)

end
