(* ===== verification/Server_Api.thy ===== *)
theory Server_Api
  imports Server_Calendar Server_Auth
begin

text \<open>
  The administrative requests (\<open>crates/jaiba-server/src/observability.rs\<close>) that read or change
  flows: authorisation first, then the registry and the calendar. What each answers is its HTTP
  status; \<open>None\<close> where building an engine does not return.
\<close>

section \<open>Requests\<close>

text \<open>What does not change while the process runs; the gate is fixed at its start.\<close>

record api_env =
  ae_registry :: registry_env
  ae_sha256 :: "8 word list \<Rightarrow> 8 word list"
  ae_upcoming :: "string \<Rightarrow> string \<Rightarrow> nat \<Rightarrow> nat option"
  ae_admin :: admin_access

text \<open>A request: its authorisation, and what the environment decides while it is served.\<close>

record api_call =
  rq_authorization :: "string option"
  rq_now :: nat
  rq_ok :: bool
  rq_resolver :: "(flow_error, unit) result"
  rq_deploy :: deploy_call
  rq_fire :: fire_call

type_synonym api_answer = "(http_status \<times> control_plane) option"

fun registry_status :: "registry_error \<Rightarrow> http_status" where
  "registry_status (NotFound m) = HttpNotFound"
| "registry_status (InvalidState m) = HttpConflict"
| "registry_status (LimitExceeded n) = HttpConflict"
| "registry_status (Validation e) = HttpUnprocessable"
| "registry_status (Internal e) = HttpInternal"

text \<open>An answer of the registry: \<open>st\<close> when it succeeded.\<close>

definition registry_answer :: "http_status \<Rightarrow> control_plane \<Rightarrow> (registry_error, 'a) result \<times> server \<Rightarrow> http_status \<times> control_plane" where
  "registry_answer st cp a =
     (case a of
        (Inl e, s) \<Rightarrow> (registry_status e, cp\<lparr>cp_server := s\<rparr>)
      | (Inr _, s) \<Rightarrow> (st, cp\<lparr>cp_server := s\<rparr>))"

definition guarded ::
  "api_env \<Rightarrow> api_call \<Rightarrow> permission \<Rightarrow> string \<Rightarrow> control_plane \<Rightarrow> (unit \<Rightarrow> api_answer) \<Rightarrow> api_answer" where
  "guarded A rq permission flow_id cp act =
     (case authorize_flow (ae_sha256 A) (ae_admin A) (rq_authorization rq) permission flow_id of
        Inl st \<Rightarrow> Some (st, cp)
      | Inr _ \<Rightarrow> act ())"

section \<open>Documents and versions\<close>

definition draft_flow_id :: "registry_env \<Rightarrow> string \<Rightarrow> (flow_error, string) result" where
  "draft_flow_id E body =
     (case dv_yaml (ev_document E) body of
        Inl e \<Rightarrow> Inl e
      | Inr fc \<Rightarrow> if trim (fc_id fc) = [] then Inl (Configuration FlowIdEmpty) else Inr (trim (fc_id fc)))"

definition api_create_flow :: "api_env \<Rightarrow> api_call \<Rightarrow> string \<Rightarrow> control_plane \<Rightarrow> api_answer" where
  "api_create_flow A rq body cp =
     (case authorize_perm (ae_sha256 A) (ae_admin A) (rq_authorization rq) PermOperate of
        Inl st \<Rightarrow> Some (st, cp)
      | Inr cx \<Rightarrow>
          (case draft_flow_id (ae_registry A) body of
             Inl e \<Rightarrow> Some (HttpUnprocessable, cp)
           | Inr flow_id \<Rightarrow>
               if \<not> allows_project cx flow_id then Some (HttpForbidden, cp)
               else Some (registry_answer HttpCreated cp
                 (create_draft (ae_registry A) (rq_now rq) (rq_ok rq) body None (cp_server cp)))))"

definition sync_schedule :: "api_env \<Rightarrow> api_call \<Rightarrow> string \<Rightarrow> bool \<Rightarrow> control_plane \<Rightarrow> control_plane option" where
  "sync_schedule A rq flow_id started cp =
     (if started then arm (ae_registry A) (ae_upcoming A) (rq_fire rq) flow_id cp
      else Some (cp\<lparr>cp_scheduler := disarm flow_id (cp_scheduler cp)\<rparr>))"

text \<open>The answer to a deployment or rollback: when it succeeded the calendar follows.\<close>

definition deployed_answer ::
  "api_env \<Rightarrow> api_call \<Rightarrow> string \<Rightarrow> bool \<Rightarrow> control_plane \<Rightarrow> ((registry_error, nat) result \<times> server) option \<Rightarrow> api_answer" where
  "deployed_answer A rq flow_id start cp a =
     (case a of
        None \<Rightarrow> None
      | Some (Inl e, s) \<Rightarrow> Some (registry_status e, cp\<lparr>cp_server := s\<rparr>)
      | Some (Inr _, s) \<Rightarrow> map_option (\<lambda>cp. (HttpOk, cp)) (sync_schedule A rq flow_id start (cp\<lparr>cp_server := s\<rparr>)))"

definition api_validate_version :: "api_env \<Rightarrow> api_call \<Rightarrow> string \<Rightarrow> nat \<Rightarrow> control_plane \<Rightarrow> api_answer" where
  "api_validate_version A rq flow_id version cp = guarded A rq PermOperate flow_id cp (\<lambda>_.
     map_option (registry_answer HttpOk cp)
       (validate_version (ae_registry A) (rq_now rq) (rq_ok rq) flow_id version (cp_server cp)))"

definition api_deploy_version :: "api_env \<Rightarrow> api_call \<Rightarrow> string \<Rightarrow> nat \<Rightarrow> bool \<Rightarrow> control_plane \<Rightarrow> api_answer" where
  "api_deploy_version A rq flow_id version start cp = guarded A rq PermOperate flow_id cp (\<lambda>_.
     case rq_resolver rq of
       Inl e \<Rightarrow> Some (HttpUnprocessable, cp)
     | Inr _ \<Rightarrow> deployed_answer A rq flow_id start cp
         (deploy_version (ae_registry A) (rq_deploy rq) flow_id version start (cp_server cp)))"

definition api_deploy_flow :: "api_env \<Rightarrow> api_call \<Rightarrow> string \<Rightarrow> bool \<Rightarrow> string \<Rightarrow> control_plane \<Rightarrow> api_answer" where
  "api_deploy_flow A rq flow_id start body cp = guarded A rq PermOperate flow_id cp (\<lambda>_.
     case parse_and_validate (ev_document (ae_registry A)) body of
       None \<Rightarrow> None
     | Some (Inl e) \<Rightarrow> Some (HttpUnprocessable, cp)
     | Some (Inr fc) \<Rightarrow>
         if fc_id fc \<noteq> flow_id then Some (HttpUnprocessable, cp)
         else (case create_draft (ae_registry A) (rq_now rq) (rq_ok rq) body None (cp_server cp) of
           (Inl e, s) \<Rightarrow> Some (registry_status e, cp\<lparr>cp_server := s\<rparr>)
         | (Inr (_, version), s) \<Rightarrow>
             (case validate_version (ae_registry A) (rq_now rq) (rq_ok rq) flow_id version s of
                None \<Rightarrow> None
              | Some (Inl e, s) \<Rightarrow> Some (registry_status e, cp\<lparr>cp_server := s\<rparr>)
              | Some (Inr _, s) \<Rightarrow>
                  (case rq_resolver rq of
                     Inl e \<Rightarrow> Some (HttpUnprocessable, cp\<lparr>cp_server := s\<rparr>)
                   | Inr _ \<Rightarrow> deployed_answer A rq flow_id start (cp\<lparr>cp_server := s\<rparr>)
                       (deploy_version (ae_registry A) (rq_deploy rq) flow_id version start s)))))"

definition api_rollback_flow :: "api_env \<Rightarrow> api_call \<Rightarrow> string \<Rightarrow> bool \<Rightarrow> control_plane \<Rightarrow> api_answer" where
  "api_rollback_flow A rq flow_id start cp = guarded A rq PermOperate flow_id cp (\<lambda>_.
     case rq_resolver rq of
       Inl e \<Rightarrow> Some (HttpUnprocessable, cp)
     | Inr _ \<Rightarrow> deployed_answer A rq flow_id start cp
         (rollback (ae_registry A) (rq_deploy rq) flow_id start (cp_server cp)))"

definition api_archive_version :: "api_env \<Rightarrow> api_call \<Rightarrow> string \<Rightarrow> nat \<Rightarrow> control_plane \<Rightarrow> api_answer" where
  "api_archive_version A rq flow_id version cp = guarded A rq PermOperate flow_id cp (\<lambda>_.
     Some (registry_answer HttpOk cp
       (archive_version (ae_registry A) (rq_now rq) (rq_ok rq) flow_id version (cp_server cp))))"

section \<open>Running flows\<close>

definition api_start_flow :: "api_env \<Rightarrow> api_call \<Rightarrow> string \<Rightarrow> control_plane \<Rightarrow> api_answer" where
  "api_start_flow A rq flow_id cp = guarded A rq PermOperate flow_id cp (\<lambda>_.
     case supervisor_of flow_id (cp_server cp) of
       None \<Rightarrow> Some (HttpNotFound, cp)
     | Some k \<Rightarrow>
         (case start_at (ae_registry A) (rq_now rq) (fi_init (rq_fire rq)) k (cp_server cp) of
            None \<Rightarrow> None
          | Some (Inl e, s) \<Rightarrow> Some (HttpInternal, cp\<lparr>cp_server := s\<rparr>)
          | Some (Inr False, s) \<Rightarrow> Some (HttpConflict, cp\<lparr>cp_server := s\<rparr>)
          | Some (Inr True, s) \<Rightarrow>
              map_option (\<lambda>cp. (HttpOk, cp)) (arm (ae_registry A) (ae_upcoming A) (rq_fire rq) flow_id (cp\<lparr>cp_server := s\<rparr>))))"

definition api_trigger_flow :: "api_env \<Rightarrow> api_call \<Rightarrow> string \<Rightarrow> control_plane \<Rightarrow> api_answer" where
  "api_trigger_flow A rq flow_id cp = guarded A rq PermOperate flow_id cp (\<lambda>_.
     case trigger (ae_registry A) (rq_fire rq) flow_id cp of
       None \<Rightarrow> None
     | Some (Inr True, cp) \<Rightarrow> Some (if supervisor_of flow_id (cp_server cp) = None then HttpNotFound else HttpOk, cp)
     | Some (Inr False, cp) \<Rightarrow> Some (HttpConflict, cp)
     | Some (Inl e, cp) \<Rightarrow>
         Some (case e of Configuration (FlowNotLoaded _) \<Rightarrow> HttpNotFound | _ \<Rightarrow> HttpInternal, cp))"

definition mutate_sync ::
  "api_env \<Rightarrow> api_call \<Rightarrow> string \<Rightarrow> (supervisor \<Rightarrow> bool \<times> supervisor) \<Rightarrow> control_plane \<Rightarrow> api_answer" where
  "mutate_sync A rq flow_id operation cp = guarded A rq PermOperate flow_id cp (\<lambda>_.
     case supervisor_of flow_id (cp_server cp) of
       None \<Rightarrow> Some (HttpNotFound, cp)
     | Some k \<Rightarrow>
         Some (if fst (operation (supervisor_at (cp_server cp) k)) then HttpOk else HttpConflict,
           cp\<lparr>cp_server := on_supervisor k (\<lambda>sv. snd (operation sv)) (cp_server cp)\<rparr>))"

definition api_stop_flow :: "api_env \<Rightarrow> api_call \<Rightarrow> string \<Rightarrow> control_plane \<Rightarrow> api_answer" where
  "api_stop_flow A rq flow_id cp = guarded A rq PermOperate flow_id cp (\<lambda>_.
     let cp = cp\<lparr>cp_scheduler := disarm flow_id (cp_scheduler cp)\<rparr>
     in Some (registry_answer HttpOk cp
          (stop_and_unload (ae_registry A) (rq_now rq) (fi_drained (rq_fire rq)) flow_id (cp_server cp))))"

section \<open>Reading\<close>

definition api_list_flows :: "api_env \<Rightarrow> api_call \<Rightarrow> control_plane \<Rightarrow> (http_status, flow_record list) result" where
  "api_list_flows A rq cp =
     map_sum id (\<lambda>cx. filter (\<lambda>r. allows_project cx (fr_id r)) (list_records (cp_server cp)))
       (authorize_perm (ae_sha256 A) (ae_admin A) (rq_authorization rq) PermRead)"

definition api_get_flow :: "api_env \<Rightarrow> api_call \<Rightarrow> string \<Rightarrow> control_plane \<Rightarrow> (http_status, flow_record \<times> nat option) result" where
  "api_get_flow A rq flow_id cp =
     (case authorize_flow (ae_sha256 A) (ae_admin A) (rq_authorization rq) PermRead flow_id of
        Inl st \<Rightarrow> Inl st
      | Inr _ \<Rightarrow> (case get_record flow_id (cp_server cp) of
          None \<Rightarrow> Inl HttpNotFound
        | Some r \<Rightarrow> Inr (r, supervisor_of flow_id (cp_server cp))))"

definition api_list_versions :: "api_env \<Rightarrow> api_call \<Rightarrow> string \<Rightarrow> control_plane \<Rightarrow> (http_status, flow_version list) result" where
  "api_list_versions A rq flow_id cp =
     (case authorize_flow (ae_sha256 A) (ae_admin A) (rq_authorization rq) PermRead flow_id of
        Inl st \<Rightarrow> Inl st
      | Inr _ \<Rightarrow> (case get_record flow_id (cp_server cp) of None \<Rightarrow> Inl HttpNotFound | Some r \<Rightarrow> Inr (fr_versions r)))"

definition api_export_version :: "api_env \<Rightarrow> api_call \<Rightarrow> string \<Rightarrow> nat \<Rightarrow> control_plane \<Rightarrow> (http_status, string) result" where
  "api_export_version A rq flow_id version cp =
     (case authorize_flow (ae_sha256 A) (ae_admin A) (rq_authorization rq) PermRead flow_id of
        Inl st \<Rightarrow> Inl st
      | Inr _ \<Rightarrow> (case export_version flow_id version (cp_server cp) of None \<Rightarrow> Inl HttpNotFound | Some src \<Rightarrow> Inr src))"

section \<open>All changes\<close>

datatype api_request =
    CreateFlow string
  | DeployFlow string bool string
  | ValidateVersion string nat
  | DeployVersion string nat bool
  | RollbackFlow string bool
  | ArchiveVersion string nat
  | StartFlow string
  | TriggerFlow string
  | PauseFlow string
  | ResumeFlow string
  | DrainFlow string
  | StopFlow string

fun serve_request :: "api_env \<Rightarrow> api_call \<Rightarrow> api_request \<Rightarrow> control_plane \<Rightarrow> api_answer" where
  "serve_request A rq (CreateFlow body) cp = api_create_flow A rq body cp"
| "serve_request A rq (DeployFlow i start body) cp = api_deploy_flow A rq i start body cp"
| "serve_request A rq (ValidateVersion i n) cp = api_validate_version A rq i n cp"
| "serve_request A rq (DeployVersion i n start) cp = api_deploy_version A rq i n start cp"
| "serve_request A rq (RollbackFlow i start) cp = api_rollback_flow A rq i start cp"
| "serve_request A rq (ArchiveVersion i n) cp = api_archive_version A rq i n cp"
| "serve_request A rq (StartFlow i) cp = api_start_flow A rq i cp"
| "serve_request A rq (TriggerFlow i) cp = api_trigger_flow A rq i cp"
| "serve_request A rq (PauseFlow i) cp = mutate_sync A rq i (sv_pause (rq_now rq)) cp"
| "serve_request A rq (ResumeFlow i) cp = mutate_sync A rq i (sv_resume (rq_now rq)) cp"
| "serve_request A rq (DrainFlow i) cp = mutate_sync A rq i (sv_drain (rq_now rq)) cp"
| "serve_request A rq (StopFlow i) cp = api_stop_flow A rq i cp"

text \<open>The flow that a request names: the one of its path, or the one of its document.\<close>

fun request_flow :: "registry_env \<Rightarrow> api_request \<Rightarrow> string option" where
  "request_flow E (CreateFlow body) = (case draft_flow_id E body of Inl e \<Rightarrow> None | Inr i \<Rightarrow> Some i)"
| "request_flow E (DeployFlow i start body) = Some i"
| "request_flow E (ValidateVersion i n) = Some i"
| "request_flow E (DeployVersion i n start) = Some i"
| "request_flow E (RollbackFlow i start) = Some i"
| "request_flow E (ArchiveVersion i n) = Some i"
| "request_flow E (StartFlow i) = Some i"
| "request_flow E (TriggerFlow i) = Some i"
| "request_flow E (PauseFlow i) = Some i"
| "request_flow E (ResumeFlow i) = Some i"
| "request_flow E (DrainFlow i) = Some i"
| "request_flow E (StopFlow i) = Some i"

section \<open>Authorisation\<close>

lemma guarded_cases:
  assumes "guarded A rq permission flow_id cp act = Some (st, cp')"
  obtains (refused) "authorize_flow (ae_sha256 A) (ae_admin A) (rq_authorization rq) permission flow_id = Inl st" "cp' = cp"
  | (allowed) cx where "authorize_flow (ae_sha256 A) (ae_admin A) (rq_authorization rq) permission flow_id = Inr cx"
      "act () = Some (st, cp')"
  using assms by (auto simp: guarded_def split: sum.splits)

lemma authorize_flow_Inr:
  assumes "authorize_flow sha256 admin authorization permission flow_id = Inr cx"
  shows "authenticate sha256 admin authorization None = Inr cx" "min_role permission \<le> cx_role cx" "allows_project cx flow_id"
  using assms by (auto simp: authorize_flow_def authorize_perm_def has_permission_def split: sum.splits if_splits)

lemma authorize_status:
  "authenticate sha256 admin authorization q = Inl st \<Longrightarrow> st \<in> {HttpUnavailable, HttpUnauthorized}"
  "authorize_flow sha256 admin authorization permission flow_id = Inl st \<Longrightarrow> st \<in> {HttpUnavailable, HttpUnauthorized, HttpForbidden}"
  by (auto simp: authorize_flow_def authorize_perm_def authenticate_def split: sum.splits if_splits option.splits)

text \<open>
  C28. A request changes nothing unless the caller is authenticated, has at least the role of an
  operator, and the flow that the request names is among the caller's projects.
\<close>

theorem changes_are_authorized:
  assumes "serve_request A rq request cp = Some (st, cp')" "cp' \<noteq> cp"
  shows "\<exists>cx flow_id. authenticate (ae_sha256 A) (ae_admin A) (rq_authorization rq) None = Inr cx \<and>
    Operator \<le> cx_role cx \<and> request_flow (ae_registry A) request = Some flow_id \<and> allows_project cx flow_id"
proof -
  have guard: "\<exists>cx. authenticate (ae_sha256 A) (ae_admin A) (rq_authorization rq) None = Inr cx \<and>
      Operator \<le> cx_role cx \<and> allows_project cx flow_id"
    if "guarded A rq PermOperate flow_id cp act = Some (st, cp')" for flow_id act
    using that
  proof (cases rule: guarded_cases)
    case refused
    with assms(2) show ?thesis by simp
  next
    case (allowed cx)
    from authorize_flow_Inr [OF allowed(1)] show ?thesis by auto
  qed
  show ?thesis
  proof (cases request)
    case (CreateFlow body)
    with assms show ?thesis
      by (auto simp: api_create_flow_def authorize_perm_def has_permission_def split: sum.splits if_splits)
  qed (use assms(1) guard in \<open>auto simp: api_deploy_flow_def api_validate_version_def api_deploy_version_def
      api_rollback_flow_def api_archive_version_def api_start_flow_def api_trigger_flow_def mutate_sync_def api_stop_flow_def\<close>)
qed

text \<open>A principal who operates the flow \<open>f\<close> only.\<close>

definition example_api :: api_env where
  "example_api =
     \<lparr> ae_registry = example_registry, ae_sha256 = (\<lambda>b. b), ae_upcoming = (\<lambda>_ _ _. None),
       ae_admin = \<lparr> aa_enabled = True, aa_authentication = AuthBearer,
         aa_principals = [\<lparr> pn_id = ''ana'', pn_role = Operator, pn_projects = [''f''], pn_token_secret = ''t'' \<rparr>] \<rparr> \<rparr>"

definition example_request :: "string \<Rightarrow> api_call" where
  "example_request authorization =
     \<lparr> rq_authorization = Some authorization, rq_now = 9, rq_ok = True, rq_resolver = Inr (),
       rq_deploy = example_call, rq_fire = example_fire \<rparr>"

definition example_skipped :: control_plane where
  "example_skipped = example_plane\<lparr>cp_scheduler := scheduler_record 9 True ''f'' ''skipped'' (cp_scheduler example_plane)\<rparr>"

lemma example_login:
  "authenticate (ae_sha256 example_api) (ae_admin example_api) (rq_authorization (example_request ''Bearer t'')) None =
     Inr \<lparr> cx_actor = ''ana'', cx_role = Operator, cx_projects = [''f''] \<rparr>"
  by (simp add: authenticate_def example_api_def example_request_def extract_bearer_token_def strip_prefix_def starts_with_def
      match_principal_def token_matches_def constant_time_eq_iff)

lemma example_triggered:
  "serve_request example_api (example_request ''Bearer t'') (TriggerFlow ''f'') example_plane = Some (HttpConflict, example_skipped)"
proof -
  have "authorize_flow (ae_sha256 example_api) (ae_admin example_api) (rq_authorization (example_request ''Bearer t'')) PermOperate ''f'' =
      Inr \<lparr> cx_actor = ''ana'', cx_role = Operator, cx_projects = [''f''] \<rparr>"
    by (simp add: authorize_flow_def authorize_perm_def example_login has_permission_def allows_project_def)
  moreover have "ae_registry example_api = example_registry" "rq_fire (example_request ''Bearer t'') = example_fire"
    by (simp_all add: example_api_def example_request_def)
  ultimately show ?thesis by (simp add: api_trigger_flow_def guarded_def example_fires(2) example_skipped_def)
qed

lemma example_skipped_neq: "example_skipped \<noteq> example_plane"
proof
  assume "example_skipped = example_plane"
  then have "store_get ''f'' (sd_store (cp_scheduler example_skipped)) = store_get ''f'' (sd_store (cp_scheduler example_plane))"
    by simp
  then show False
    by (simp add: example_skipped_def example_plane_def scheduler_record_def Let_def store_get_put)
      (simp add: scheduler_new_def store_open_def store_get_def flow_schedule_state_default_def)
qed

lemma changes_are_authorized_witness:
  "\<exists>cx. authenticate (ae_sha256 example_api) (ae_admin example_api) (rq_authorization (example_request ''Bearer t'')) None = Inr cx \<and>
    Operator \<le> cx_role cx \<and> allows_project cx ''f''"
  using changes_are_authorized [OF example_triggered example_skipped_neq] by auto

section \<open>The registry and the calendar under requests\<close>

text \<open>A mutation that the API offers on a supervisor is a call of the registry.\<close>

lemma mutate_sync_steps:
  assumes "server_reachable E (cp_server cp)"
    and "mutate_sync A rq flow_id operation cp = Some (st, cp')"
    and "\<And>k. supervisor_of flow_id (cp_server cp) = Some k \<Longrightarrow>
      server_call E (cp_server cp) (on_supervisor k (\<lambda>sv. snd (operation sv)) (cp_server cp))"
  shows "server_reachable E (cp_server cp') \<and> cp_scheduler cp' = cp_scheduler cp"
  using assms(2) unfolding mutate_sync_def
proof (cases rule: guarded_cases)
  case refused
  with assms(1) show ?thesis by simp
next
  case (allowed cx)
  then show ?thesis using assms(1,3) server_reachable.call
    by (cases "supervisor_of flow_id (cp_server cp)") auto
qed

lemma sync_schedule_steps:
  assumes "server_reachable (ae_registry A) (cp_server cp)" "codec_ok (ae_registry A)" "jobs_ok (cp_scheduler cp)"
    and "sync_schedule A rq flow_id start cp = Some cp'"
  shows "server_reachable (ae_registry A) (cp_server cp') \<and> jobs_ok (cp_scheduler cp')"
proof (cases start)
  case True
  with assms show ?thesis using calendar_steps(2) [OF assms(1,2)] calendar_jobs(1) [OF assms(3)]
    by (auto simp: sync_schedule_def)
next
  case False
  with assms show ?thesis using disarm_ok(1) by (auto simp: sync_schedule_def)
qed

lemma deployed_answer_steps:
  assumes "deployed_answer A rq flow_id start cp q = Some (st, cp')"
    and "\<And>r s. q = Some (r, s) \<Longrightarrow> server_reachable (ae_registry A) s"
    and "codec_ok (ae_registry A)" "jobs_ok (cp_scheduler cp)"
  shows "server_reachable (ae_registry A) (cp_server cp') \<and> jobs_ok (cp_scheduler cp')"
proof (cases q)
  case None
  with assms(1) show ?thesis by (simp add: deployed_answer_def)
next
  case (Some x)
  obtain r s where x: "x = (r, s)" by (cases x)
  have s: "server_reachable (ae_registry A) s" using assms(2) Some x by simp
  show ?thesis
  proof (cases r)
    case (Inl e)
    with assms Some x s show ?thesis by (auto simp: deployed_answer_def)
  next
    case (Inr n)
    with assms(1) Some x obtain cp1 where "sync_schedule A rq flow_id start (cp\<lparr>cp_server := s\<rparr>) = Some cp1" "cp' = cp1"
      by (auto simp: deployed_answer_def)
    with sync_schedule_steps [OF _ assms(3), of "cp\<lparr>cp_server := s\<rparr>"] s assms(4) show ?thesis by simp
  qed
qed

lemma registry_answer_parts [simp]:
  "cp_server (snd (registry_answer st cp (r, s))) = s" "cp_scheduler (snd (registry_answer st cp (r, s))) = cp_scheduler cp"
  by (simp_all add: registry_answer_def split: sum.split)

end
