(* ===== verification/Server_Tenants.thy ===== *)
theory Server_Tenants
  imports Server_Api
begin

text \<open>
  What the administrative API promises as a whole: it only makes calls that the registry allows,
  in the order in which they were made, and a request for one flow leaves the others alone.
\<close>

section \<open>Every request is made of calls of the registry\<close>

text \<open>A request that is let in, for the flow of its path.\<close>

lemma guarded_steps:
  assumes "guarded A rq permission flow_id cp act = Some (st, cp')" "P cp"
    and "act () = Some (st, cp') \<Longrightarrow> P cp'"
  shows "P cp'"
  using assms(1)
proof (cases rule: guarded_cases)
  case refused
  with assms(2) show ?thesis by simp
next
  case (allowed cx)
  with assms(3) show ?thesis by simp
qed

definition plane_ok :: "registry_env \<Rightarrow> control_plane \<Rightarrow> bool" where
  "plane_ok E cp \<longleftrightarrow> server_reachable E (cp_server cp) \<and> jobs_ok (cp_scheduler cp)"

lemma plane_okD: "plane_ok E cp \<Longrightarrow> server_reachable E (cp_server cp)" "plane_ok E cp \<Longrightarrow> jobs_ok (cp_scheduler cp)"
  by (simp_all add: plane_ok_def)

lemma plane_call: "plane_ok E cp \<Longrightarrow> server_call E (cp_server cp) s \<Longrightarrow> plane_ok E (cp\<lparr>cp_server := s\<rparr>)"
  using server_reachable.call by (auto simp: plane_ok_def)

lemma plane_answer:
  assumes "plane_ok E cp" "registry_answer st cp (r, s) = (st', cp')" "server_call E (cp_server cp) s"
  shows "plane_ok E cp'"
proof -
  have "cp' = cp\<lparr>cp_server := s\<rparr>" using assms(2) by (auto simp: registry_answer_def split: sum.splits)
  with plane_call [OF assms(1,3)] show ?thesis by simp
qed

lemma api_create_flow_ok:
  assumes "plane_ok (ae_registry A) cp" "api_create_flow A rq body cp = Some (st, cp')"
  shows "plane_ok (ae_registry A) cp'"
proof -
  obtain r s where c: "create_draft (ae_registry A) (rq_now rq) (rq_ok rq) body None (cp_server cp) = (r, s)" by fastforce
  then have "server_call (ae_registry A) (cp_server cp) s" by (rule server_call.create)
  with assms c show ?thesis
    by (auto simp: api_create_flow_def split: sum.splits if_splits intro: plane_answer)
qed

lemma api_validate_version_ok:
  assumes "plane_ok (ae_registry A) cp" "api_validate_version A rq flow_id version cp = Some (st, cp')"
  shows "plane_ok (ae_registry A) cp'"
  using assms(2) unfolding api_validate_version_def
proof (rule guarded_steps)
  assume "map_option (registry_answer HttpOk cp)
       (validate_version (ae_registry A) (rq_now rq) (rq_ok rq) flow_id version (cp_server cp)) = Some (st, cp')"
  then obtain q where "validate_version (ae_registry A) (rq_now rq) (rq_ok rq) flow_id version (cp_server cp) = Some q"
    "registry_answer HttpOk cp q = (st, cp')" by auto
  then show "plane_ok (ae_registry A) cp'"
    by (cases q) (auto intro: plane_answer [OF assms(1)] server_call.validate)
qed (rule assms(1))

lemma deployed_answer_ok:
  assumes "plane_ok (ae_registry A) cp" "codec_ok (ae_registry A)" "deployed_answer A rq flow_id start cp q = Some (st, cp')"
    and "\<And>r s. q = Some (r, s) \<Longrightarrow> server_call (ae_registry A) (cp_server cp) s"
  shows "plane_ok (ae_registry A) cp'"
  unfolding plane_ok_def
  by (rule deployed_answer_steps [OF assms(3) _ assms(2) plane_okD(2) [OF assms(1)]])
    (rule server_reachable.call [OF plane_okD(1) [OF assms(1)] assms(4)])

lemma api_deploy_version_ok:
  assumes "plane_ok (ae_registry A) cp" "codec_ok (ae_registry A)" "api_deploy_version A rq flow_id version start cp = Some (st, cp')"
  shows "plane_ok (ae_registry A) cp'"
  using assms(3) unfolding api_deploy_version_def
  by (rule guarded_steps)
    (use assms(1) in \<open>auto split: sum.splits intro: deployed_answer_ok [OF assms(1,2)] server_call.deploy\<close>)

lemma api_rollback_flow_ok:
  assumes "plane_ok (ae_registry A) cp" "codec_ok (ae_registry A)" "api_rollback_flow A rq flow_id start cp = Some (st, cp')"
  shows "plane_ok (ae_registry A) cp'"
  using assms(3) unfolding api_rollback_flow_def
  by (rule guarded_steps)
    (use assms(1) in \<open>auto split: sum.splits intro: deployed_answer_ok [OF assms(1,2)] server_call.rollback\<close>)

lemma api_archive_version_ok:
  assumes "plane_ok (ae_registry A) cp" "api_archive_version A rq flow_id version cp = Some (st, cp')"
  shows "plane_ok (ae_registry A) cp'"
  using assms(2) unfolding api_archive_version_def
proof (rule guarded_steps)
  obtain r s where c: "archive_version (ae_registry A) (rq_now rq) (rq_ok rq) flow_id version (cp_server cp) = (r, s)" by fastforce
  assume "Some (registry_answer HttpOk cp
       (archive_version (ae_registry A) (rq_now rq) (rq_ok rq) flow_id version (cp_server cp))) = Some (st, cp')"
  then show "plane_ok (ae_registry A) cp'"
    using c by (auto intro: plane_answer [OF assms(1)] server_call.archive)
qed (rule assms(1))

text \<open>The upload of a document: up to three calls, and the calendar after the last.\<close>

lemma api_deploy_flow_cases:
  assumes "api_deploy_flow A rq flow_id start body cp = Some (st, cp')"
  obtains (unchanged) "cp' = cp"
  | (drafted) e s where "create_draft (ae_registry A) (rq_now rq) (rq_ok rq) body None (cp_server cp) = (Inl e, s)"
      "cp' = cp\<lparr>cp_server := s\<rparr>"
  | (checked) i version s r s' where
      "create_draft (ae_registry A) (rq_now rq) (rq_ok rq) body None (cp_server cp) = (Inr (i, version), s)"
      "validate_version (ae_registry A) (rq_now rq) (rq_ok rq) flow_id version s = Some (r, s')" "cp' = cp\<lparr>cp_server := s'\<rparr>"
  | (deployed) i version s r s' where
      "create_draft (ae_registry A) (rq_now rq) (rq_ok rq) body None (cp_server cp) = (Inr (i, version), s)"
      "validate_version (ae_registry A) (rq_now rq) (rq_ok rq) flow_id version s = Some (r, s')"
      "deployed_answer A rq flow_id start (cp\<lparr>cp_server := s'\<rparr>)
         (deploy_version (ae_registry A) (rq_deploy rq) flow_id version start s') = Some (st, cp')"
  using assms unfolding api_deploy_flow_def
proof (cases rule: guarded_cases)
  case refused
  then show ?thesis by (intro unchanged)
next
  case (allowed cx)
  obtain q s where c: "create_draft (ae_registry A) (rq_now rq) (rq_ok rq) body None (cp_server cp) = (q, s)" by fastforce
  show ?thesis
  proof (cases q)
    case (Inl e)
    with allowed(2) c show ?thesis by (auto split: option.splits sum.splits if_splits intro: unchanged drafted)
  next
    case (Inr iv)
    obtain i version where iv: "iv = (i, version)" by (cases iv)
    note c = c [unfolded Inr iv]
    show ?thesis
    proof (cases "validate_version (ae_registry A) (rq_now rq) (rq_ok rq) flow_id version s")
      case None
      with allowed(2) c show ?thesis by (auto split: option.splits sum.splits if_splits intro: unchanged)
    next
      case (Some x)
      obtain r s' where x: "x = (r, s')" by (cases x)
      note v = Some [unfolded x]
      from allowed(2) c v show ?thesis
        by (auto split: option.splits sum.splits if_splits intro: unchanged checked [OF c v] deployed [OF c v])
    qed
  qed
qed

lemma api_deploy_flow_ok:
  assumes "plane_ok (ae_registry A) cp" "codec_ok (ae_registry A)" "api_deploy_flow A rq flow_id start body cp = Some (st, cp')"
  shows "plane_ok (ae_registry A) cp'"
  using assms(3)
proof (cases rule: api_deploy_flow_cases)
  case unchanged
  with assms(1) show ?thesis by simp
next
  case (drafted e s)
  then show ?thesis using plane_call [OF assms(1) server_call.create] by simp
next
  case (checked i version s r s')
  then show ?thesis
    using plane_call [OF plane_call [OF assms(1) server_call.create [OF checked(1)]]] server_call.validate [OF checked(2)] by simp
next
  case (deployed i version s r s')
  have "plane_ok (ae_registry A) (cp\<lparr>cp_server := s'\<rparr>)"
    using plane_call [OF plane_call [OF assms(1) server_call.create [OF deployed(1)]]] server_call.validate [OF deployed(2)] by simp
  from deployed_answer_ok [OF this assms(2) deployed(3)] show ?thesis by (auto intro: server_call.deploy)
qed

lemma api_start_flow_ok:
  assumes "plane_ok (ae_registry A) cp" "codec_ok (ae_registry A)" "api_start_flow A rq flow_id cp = Some (st, cp')"
  shows "plane_ok (ae_registry A) cp'"
  using assms(3) unfolding api_start_flow_def
proof (rule guarded_steps)
  let ?start = "\<lambda>k. start_at (ae_registry A) (rq_now rq) (fi_init (rq_fire rq)) k (cp_server cp)"
  assume act: "(case supervisor_of flow_id (cp_server cp) of
       None \<Rightarrow> Some (HttpNotFound, cp)
     | Some k \<Rightarrow>
         (case ?start k of
            None \<Rightarrow> None
          | Some (Inl e, s) \<Rightarrow> Some (HttpInternal, cp\<lparr>cp_server := s\<rparr>)
          | Some (Inr False, s) \<Rightarrow> Some (HttpConflict, cp\<lparr>cp_server := s\<rparr>)
          | Some (Inr True, s) \<Rightarrow>
              map_option (\<lambda>cp. (HttpOk, cp)) (arm (ae_registry A) (ae_upcoming A) (rq_fire rq) flow_id (cp\<lparr>cp_server := s\<rparr>)))) =
      Some (st, cp')"
  show "plane_ok (ae_registry A) cp'"
  proof (cases "supervisor_of flow_id (cp_server cp)")
    case None
    with act assms(1) show ?thesis by simp
  next
    case (Some k)
    with act obtain r s where r: "?start k = Some (r, s)" by (auto split: option.splits)
    have ok: "plane_ok (ae_registry A) (cp\<lparr>cp_server := s\<rparr>)" by (rule plane_call [OF assms(1) server_call.start [OF Some r]])
    show ?thesis
    proof (cases "r = Inr True")
      case True
      with act Some r have "arm (ae_registry A) (ae_upcoming A) (rq_fire rq) flow_id (cp\<lparr>cp_server := s\<rparr>) = Some cp'" by auto
      then show ?thesis
        using calendar_steps(2) [OF plane_okD(1) [OF ok] assms(2)] calendar_jobs(1) [OF plane_okD(2) [OF ok]]
        by (simp add: plane_ok_def)
    next
      case False
      with act Some r have "cp' = cp\<lparr>cp_server := s\<rparr>" by (auto split: sum.splits bool.splits)
      with ok show ?thesis by simp
    qed
  qed
qed (rule assms(1))

lemma api_trigger_flow_ok:
  assumes "plane_ok (ae_registry A) cp" "codec_ok (ae_registry A)" "api_trigger_flow A rq flow_id cp = Some (st, cp')"
  shows "plane_ok (ae_registry A) cp'"
  using assms(3) unfolding api_trigger_flow_def
proof (rule guarded_steps)
  assume act: "(case trigger (ae_registry A) (rq_fire rq) flow_id cp of
       None \<Rightarrow> None
     | Some (Inr True, cp) \<Rightarrow> Some (if supervisor_of flow_id (cp_server cp) = None then HttpNotFound else HttpOk, cp)
     | Some (Inr False, cp) \<Rightarrow> Some (HttpConflict, cp)
     | Some (Inl e, cp) \<Rightarrow>
         Some (case e of Configuration (FlowNotLoaded _) \<Rightarrow> HttpNotFound | _ \<Rightarrow> HttpInternal, cp)) = Some (st, cp')"
  then obtain r where "trigger (ae_registry A) (rq_fire rq) flow_id cp = Some (r, cp')"
    by (auto split: option.splits sum.splits bool.splits)
  then show "plane_ok (ae_registry A) cp'"
    using calendar_steps(1) [OF plane_okD(1) [OF assms(1)] assms(2)] calendar_jobs(3) [OF plane_okD(2) [OF assms(1)]]
    by (simp add: plane_ok_def)
qed (rule assms(1))

lemma api_stop_flow_ok:
  assumes "plane_ok (ae_registry A) cp" "api_stop_flow A rq flow_id cp = Some (st, cp')"
  shows "plane_ok (ae_registry A) cp'"
  using assms(2) unfolding api_stop_flow_def
proof (rule guarded_steps)
  define cp1 where "cp1 = cp\<lparr>cp_scheduler := disarm flow_id (cp_scheduler cp)\<rparr>"
  have ok: "plane_ok (ae_registry A) cp1" using assms(1) disarm_ok(1) by (simp add: cp1_def plane_ok_def)
  obtain r s where c: "stop_and_unload (ae_registry A) (rq_now rq) (fi_drained (rq_fire rq)) flow_id (cp_server cp) = (r, s)" by fastforce
  assume "(let cp = cp\<lparr>cp_scheduler := disarm flow_id (cp_scheduler cp)\<rparr>
     in Some (registry_answer HttpOk cp
          (stop_and_unload (ae_registry A) (rq_now rq) (fi_drained (rq_fire rq)) flow_id (cp_server cp)))) = Some (st, cp')"
  then have "registry_answer HttpOk cp1 (r, s) = (st, cp')" by (simp add: Let_def cp1_def c)
  moreover have "server_call (ae_registry A) (cp_server cp1) s" using server_call.unload [OF c] by (simp add: cp1_def)
  ultimately show "plane_ok (ae_registry A) cp'" by (intro plane_answer [OF ok])
qed (rule assms(1))

lemma mutate_sync_ok:
  assumes "plane_ok (ae_registry A) cp" "mutate_sync A rq flow_id operation cp = Some (st, cp')"
    and "\<And>k. supervisor_of flow_id (cp_server cp) = Some k \<Longrightarrow>
      server_call (ae_registry A) (cp_server cp) (on_supervisor k (\<lambda>sv. snd (operation sv)) (cp_server cp))"
  shows "plane_ok (ae_registry A) cp'"
  using mutate_sync_steps [OF plane_okD(1) [OF assms(1)] assms(2,3)] assms(1) by (simp add: plane_ok_def)

text \<open>
  Whatever the requests and whatever fails while they are served, the registry stays in a
  state that its calls reach, so that every invariant of the registry holds, and no flow has two
  live jobs.
\<close>

theorem requests_keep_registry:
  assumes "server_reachable (ae_registry A) (cp_server cp)" "jobs_ok (cp_scheduler cp)" "codec_ok (ae_registry A)"
    and "serve_request A rq request cp = Some (st, cp')"
  shows "server_reachable (ae_registry A) (cp_server cp') \<and> jobs_ok (cp_scheduler cp')"
proof -
  have ok: "plane_ok (ae_registry A) cp" using assms(1,2) by (simp add: plane_ok_def)
  have "plane_ok (ae_registry A) cp'"
    using assms(4) ok assms(3)
    by (cases request)
      (auto intro: api_create_flow_ok api_validate_version_ok api_deploy_version_ok api_rollback_flow_ok api_archive_version_ok
        api_deploy_flow_ok api_start_flow_ok api_trigger_flow_ok api_stop_flow_ok mutate_sync_ok [OF ok]
        server_call.pause server_call.resume server_call.drain)
  then show ?thesis by (simp add: plane_ok_def)
qed

lemma requests_keep_registry_witness:
  "server_reachable example_registry (cp_server example_skipped) \<and> jobs_ok (cp_scheduler example_skipped)"
proof -
  have "server_reachable (ae_registry example_api) (cp_server example_plane)" "jobs_ok (cp_scheduler example_plane)"
    "codec_ok (ae_registry example_api)"
    using example_reachable(3) registry_codec_ok
    by (simp_all add: example_api_def example_plane_def jobs_ok_def scheduler_new_def)
  from requests_keep_registry [OF this example_triggered] show ?thesis by (simp add: example_api_def)
qed

section \<open>A request leaves the other flows alone\<close>

text \<open>
  Only the flows of \<open>F\<close> and the supervisors at the positions of \<open>X\<close> may have changed; new
  supervisors may have been added.
\<close>

definition isolated :: "string set \<Rightarrow> nat set \<Rightarrow> server \<Rightarrow> server \<Rightarrow> bool" where
  "isolated F X s s' \<longleftrightarrow>
     (\<forall>a. a \<notin> F \<longrightarrow> hm_get (sr_records s') a = hm_get (sr_records s) a \<and> hm_get (sr_running s') a = hm_get (sr_running s) a) \<and>
     length (sr_supervisors s) \<le> length (sr_supervisors s') \<and>
     (\<forall>k<length (sr_supervisors s). k \<notin> X \<longrightarrow> sr_supervisors s' ! k = sr_supervisors s ! k)"

named_theorems isolates

lemma isolated_refl [isolates]: "isolated F X s s"
  by (simp add: isolated_def)

lemma isolated_trans:
  assumes "isolated F X s s1" "isolated F Y s1 s2" "Y \<subseteq> X \<union> {length (sr_supervisors s)..}"
  shows "isolated F X s s2"
  unfolding isolated_def
proof (intro conjI allI impI)
  note i = assms(1,2) [unfolded isolated_def]
  show "hm_get (sr_records s2) a = hm_get (sr_records s) a" "hm_get (sr_running s2) a = hm_get (sr_running s) a" if "a \<notin> F" for a
    using i that by simp_all
  show "length (sr_supervisors s) \<le> length (sr_supervisors s2)" using i by simp
  show "sr_supervisors s2 ! k = sr_supervisors s ! k" if "k < length (sr_supervisors s)" "k \<notin> X" for k
  proof -
    from that assms(3) have "k \<notin> Y" by auto
    moreover from that(1) i have "k < length (sr_supervisors s1)" by simp
    ultimately show ?thesis using i that by simp
  qed
qed

lemma isolated_mono: "isolated F X s s' \<Longrightarrow> F \<subseteq> G \<Longrightarrow> X \<subseteq> Y \<Longrightarrow> isolated G Y s s'"
  unfolding isolated_def by blast

lemma isolated_records [isolates]: "f \<in> F \<Longrightarrow> isolated F X s (s\<lparr>sr_records := hm_insert f r (sr_records s)\<rparr>)"
  by (auto simp: isolated_def)

lemma isolated_running [isolates]:
  "f \<in> F \<Longrightarrow> isolated F X s (set_running f p s)" "f \<in> F \<Longrightarrow> isolated F X s (s\<lparr>sr_running := hm_remove f (sr_running s)\<rparr>)"
  by (auto simp: isolated_def set_running_def)

lemma isolated_persist: "persist E ok s = (r, s') \<Longrightarrow> isolated F X s s'"
  using persist_frame(1-3) by (simp add: isolated_def)

lemma isolated_update [isolates]: "k \<in> X \<Longrightarrow> isolated F X s (s\<lparr>sr_supervisors := (sr_supervisors s)[k := su]\<rparr>)"
  unfolding isolated_def by (intro conjI allI impI) (simp_all, metis nth_list_update_neq)

lemma isolated_stop: "stop_at E now drained k s = (r, s') \<Longrightarrow> k \<in> X \<Longrightarrow> isolated F X s s'"
  by (auto simp: stop_at_def Let_def isolates split: prod.splits)

lemma isolated_start: "start_at E now init k s = Some (r, s') \<Longrightarrow> k \<in> X \<Longrightarrow> isolated F X s s'"
  by (auto simp: start_at_def Let_def isolates split: prod.splits option.splits)

lemma isolated_on [isolates]: "k \<in> X \<Longrightarrow> isolated F X s (on_supervisor k g s)"
  by (simp add: on_supervisor_def Let_def isolates)

lemma isolated_new: "new_supervisor now fc s = (k, s') \<Longrightarrow> isolated F X s s' \<and> k = length (sr_supervisors s)"
  by (auto simp: isolated_def new_supervisor_def nth_append)

text \<open>The stages of a deployment.\<close>

lemma isolated_take:
  assumes "take_previous E oc f s = (r, s')"
  shows "isolated {f} (set_option (supervisor_of f s)) s s'"
proof (cases "hm_get (sr_running s) f")
  case None
  with assms show ?thesis by (simp add: take_previous_def isolates)
next
  case (Some p)
  define s0 where "s0 = s\<lparr>sr_running := hm_remove f (sr_running s)\<rparr>"
  let ?X = "set_option (supervisor_of f s)"
  obtain q s1 where st: "stop_at E (oc_now oc) (oc_drained oc) (rf_supervisor p) s0 = (q, s1)" by fastforce
  have "isolated {f} ?X s s0" unfolding s0_def by (intro isolates) simp
  moreover have "isolated {f} ?X s0 s1" by (rule isolated_stop [OF st]) (simp add: supervisor_of_def Some)
  ultimately have s1: "isolated {f} ?X s s1" by (rule isolated_trans) simp
  moreover have "isolated {f} ?X s (set_running f p s1)"
    by (rule isolated_trans [OF s1 isolated_running(1) [where X = "{}"]]) simp_all
  moreover have "s' = s1 \<or> s' = set_running f p s1"
    using assms Some st by (auto simp: take_previous_def s0_def split: sum.splits)
  ultimately show ?thesis by auto
qed

lemma isolated_restore:
  assumes "restore_previous E oc f p s = Some s'"
  shows "isolated {f} {} s s'"
proof (cases "\<exists>e. parse_and_validate (ev_document E) (rf_source p) = Some (Inl e)")
  case True
  with assms show ?thesis by (auto simp: restore_previous_def intro: isolates)
next
  case False
  with assms obtain fc k s1 r s2 where new: "new_supervisor (oc_now oc) fc s = (k, s1)"
    and start: "start_at E (oc_now oc) (oc_restart oc) k s1 = Some (r, s2)"
    and s': "s' = set_running f (p\<lparr>rf_supervisor := k\<rparr>) s2"
    by (auto simp: restore_previous_def split: option.splits sum.splits prod.splits)
  note n = isolated_new [OF new]
  have "isolated {f} {} s s2"
    by (rule isolated_trans [OF conjunct1 [OF n] isolated_start [OF start, of "{k}"]]) (simp_all add: n)
  then show ?thesis unfolding s' by (rule isolated_trans [where Y = "{}"]) (simp_all add: isolates)
qed

lemma isolated_start_new:
  assumes "start_new E oc f newer previous s = Some (r, s')"
  shows "isolated {f} {rf_supervisor newer} s s'"
proof -
  obtain q s1 where start: "start_at E (oc_now oc) (oc_init oc) (rf_supervisor newer) s = Some (q, s1)"
    using assms by (auto simp: start_new_def split: option.splits)
  have s1: "isolated {f} {rf_supervisor newer} s s1" by (rule isolated_start [OF start]) simp
  have "isolated {f} {} s1 s'"
  proof (cases q)
    case (Inl e)
    with assms start show ?thesis
      by (cases previous) (auto simp: start_new_def split: option.splits intro: isolates isolated_restore)
  next
    case (Inr b)
    with assms start show ?thesis by (auto simp: start_new_def intro: isolates)
  qed
  then show ?thesis by (rule isolated_trans [OF s1]) simp
qed

lemma isolated_activate:
  assumes "activate E oc f version start allow s = Some (q, s')"
  shows "isolated {f} (set_option (supervisor_of f s)) s s'"
proof -
  let ?X = "set_option (supervisor_of f s)"
  have before: "isolated {f} ?X s s2 \<and> k = length (sr_supervisors s)"
    if "new_supervisor (oc_now oc) fc s = (k, s1)" "take_previous E oc f s1 = (r, s2)" for fc k s1 r s2
  proof -
    note n = isolated_new [OF that(1), of "{f}" ?X]
    have "supervisor_of f s1 = supervisor_of f s" using that(1) by (auto simp: new_supervisor_def supervisor_of_def)
    then have "isolated {f} ?X s1 s2" using isolated_take [OF that(2)] by simp
    from isolated_trans [OF conjunct1 [OF n] this] n show ?thesis by simp
  qed
  have started: "isolated {f} ?X s s3"
    if "isolated {f} ?X s s2" "start_new E oc f (newer_flow version source (length (sr_supervisors s)) fc) previous s2 = Some (r, s3)"
    for source fc previous s2 r s3
    by (rule isolated_trans [OF that(1) isolated_start_new [OF that(2)]]) (simp add: newer_flow_def)
  from assms show ?thesis
  proof (cases rule: activate_stages)
    case (refused e)
    then show ?thesis by (simp add: isolates)
  next
    case (drain source fc k s1 e)
    then show ?thesis using before by blast
  next
    case (start source fc k s1 previous s2 e)
    have "isolated {f} ?X s s2" "k = length (sr_supervisors s)" using before [OF start(2,3)] by simp_all
    from started [OF this(1)] start(5) [unfolded this(2)] show ?thesis .
  next
    case (entry source fc k s1 previous s2 s3)
    have s2: "isolated {f} ?X s s2" "k = length (sr_supervisors s)" using before [OF entry(2,3)] by simp_all
    have s3: "isolated {f} ?X s s3"
    proof (cases start)
      case True
      then show ?thesis using entry(4) started [OF s2(1)] s2(2) by simp
    next
      case False
      then show ?thesis using entry(4) s2(1) by simp
    qed
    have "isolated {f} {} s3 s'"
    proof (cases "hm_get (sr_records s3) f")
      case None
      then show ?thesis using entry(5) by (simp add: deploy_entry_def isolates)
    next
      case (Some r)
      define s4 where "s4 = s3\<lparr>sr_records := hm_insert f (mark_deployed (oc_now oc) version r) (sr_records s3)\<rparr>"
      obtain t s5 where p: "persist E (oc_persist oc) s4 = (t, s5)" by fastforce
      then have "s' = s5" using entry(5) Some by (simp add: deploy_entry_def s4_def)
      moreover have "isolated {f} {} s3 s4" unfolding s4_def by (intro isolates) simp
      ultimately show ?thesis using isolated_trans [OF _ isolated_persist [OF p, of "{f}" "{}"]] by simp
    qed
    then show ?thesis by (rule isolated_trans [OF s3]) simp
  qed
qed


text \<open>The other calls of the registry.\<close>

lemma isolated_create:
  assumes "create_draft E now ok body remark s = (r, s')" "draft_flow_id E body = Inr f \<or> f = trim (fc_id fc) \<and> dv_yaml (ev_document E) body = Inr fc"
  shows "isolated {f} X s s'"
proof (cases "dv_yaml (ev_document E) body")
  case (Inl e)
  with assms(1) show ?thesis by (auto simp: create_draft_def isolates)
next
  case (Inr d)
  show ?thesis
  proof (cases "trim (fc_id d) = []")
    case True
    with Inr assms(1) show ?thesis by (auto simp: create_draft_def isolates)
  next
    case False
    with Inr assms(2) have f: "f = trim (fc_id d)" by (auto simp: draft_flow_id_def)
    define r0 where "r0 = (case hm_get (sr_records s) f of None \<Rightarrow> new_record f now | Some r \<Rightarrow> r)"
    define x where "x = push_version now (draft_version (next_version r0) now body (ev_checksum E body) remark) r0"
    obtain t s1 where p: "persist E ok (s\<lparr>sr_records := hm_insert f x (sr_records s)\<rparr>) = (t, s1)" by fastforce
    have "s' = s1" using assms(1) Inr False p
      by (simp add: create_draft_def Let_def f [symmetric] r0_def [symmetric] x_def [symmetric] split: sum.splits)
    moreover have "isolated {f} X s (s\<lparr>sr_records := hm_insert f x (sr_records s)\<rparr>)" by (intro isolates) simp
    ultimately show ?thesis using isolated_trans [OF _ isolated_persist [OF p]] by auto
  qed
qed

lemma isolated_change:
  assumes "s' = s \<or> (\<exists>r t. persist E ok (s\<lparr>sr_records := hm_insert f r (sr_records s)\<rparr>) = (t, s'))
    \<or> (\<exists>r. s' = s\<lparr>sr_records := hm_insert f r (sr_records s)\<rparr>)"
  shows "isolated {f} X s s'"
proof -
  have i: "isolated {f} X s (s\<lparr>sr_records := hm_insert f r (sr_records s)\<rparr>)" for r by (intro isolates) simp
  from assms show ?thesis using i isolated_trans [OF i isolated_persist [where X = X]] by (auto simp: isolates)
qed

lemma isolated_validate: "validate_version E now ok f version s = Some (r, s') \<Longrightarrow> isolated {f} X s s'"
  by (rule isolated_change) (auto simp: validate_version_def validate_entry_def split: sum.splits option.splits prod.splits if_splits)

lemma isolated_archive: "archive_version E now ok f version s = (r, s') \<Longrightarrow> isolated {f} X s s'"
  by (rule isolated_change) (auto simp: archive_version_def archive_apply_def split: sum.splits option.splits prod.splits)

lemma isolated_unload:
  assumes "stop_and_unload E now drained f s = (r, s')"
  shows "isolated {f} (set_option (supervisor_of f s)) s s'"
proof -
  define oc where "oc = \<lparr> oc_now = now, oc_repository = Inr (), oc_drained = drained, oc_init = None, oc_restart = None, oc_persist = True \<rparr>"
  obtain t s2 where t: "take_previous E oc f s = (t, s2)" by fastforce
  have "s' = s2"
    using assms t by (auto simp: stop_and_unload_def unload_take_def unload_finish_def take_previous_def oc_def
      split: prod.splits sum.splits option.splits)
  with isolated_take [OF t] show ?thesis by simp
qed

lemma isolated_fire:
  assumes "fire E fi f overlap cp = Some (r, cp')"
  shows "isolated {f} (set_option (supervisor_of f (cp_server cp))) (cp_server cp) (cp_server cp')"
proof (cases "supervisor_of f (cp_server cp)")
  case None
  with assms show ?thesis by (simp add: fire_def isolates)
next
  case (Some k)
  obtain t s where p: "fire_prepare E fi overlap k (cp_server cp) = (t, s)" by fastforce
  have s: "isolated {f} {k} (cp_server cp) s"
    using p isolated_stop by (auto simp: fire_prepare_def wait_at_def isolates split: overlap_policy.splits if_splits)
  have "cp_server cp' = s \<or> (\<exists>q. start_at E (fi_now fi) (fi_init fi) k s = Some (q, cp_server cp'))"
    using assms Some p by (auto simp: fire_def split: sum.splits option.splits prod.splits)
  then show ?thesis
  proof (elim disjE exE)
    fix q
    assume "start_at E (fi_now fi) (fi_init fi) k s = Some (q, cp_server cp')"
    then have "isolated {f} {k} s (cp_server cp')" by (rule isolated_start) simp
    from isolated_trans [OF s this] Some show ?thesis by simp
  qed (use s Some in simp)
qed

lemma isolated_arm:
  assumes "arm E upcoming fi f cp = Some cp'"
  shows "isolated {f} (set_option (supervisor_of f (cp_server cp))) (cp_server cp) (cp_server cp')"
proof -
  have fires: "isolated {f} (set_option (supervisor_of f (cp_server cp))) (cp_server cp) (cp_server cp2)"
    if "fire E fi f overlap cp1 = Some (q, cp2)" "cp_server cp1 = cp_server cp" for overlap cp1 q cp2
    using isolated_fire [OF that(1)] that(2) by simp
  show ?thesis using assms fires
    by (auto simp: arm_def Let_def isolates split: arm_decision.splits option.splits if_splits)
qed

section \<open>The calendar of the other flows\<close>

definition undisturbed :: "string \<Rightarrow> flow_scheduler \<Rightarrow> flow_scheduler \<Rightarrow> bool" where
  "undisturbed f sd sd' \<longleftrightarrow>
     length (sd_jobs sd) \<le> length (sd_jobs sd') \<and>
     (\<forall>a. a \<noteq> f \<longrightarrow> hm_get (sd_armed sd') a = hm_get (sd_armed sd) a \<and> store_get a (sd_store sd') = store_get a (sd_store sd)) \<and>
     (\<forall>j<length (sd_jobs sd). jb_flow (sd_jobs sd ! j) \<noteq> f \<longrightarrow> sd_jobs sd' ! j = sd_jobs sd ! j)"

lemma undisturbed_refl [simp]: "undisturbed f sd sd"
  by (simp add: undisturbed_def)

lemma undisturbed_trans: "undisturbed f sd sd1 \<Longrightarrow> undisturbed f sd1 sd2 \<Longrightarrow> undisturbed f sd sd2"
  unfolding undisturbed_def by (metis (no_types, lifting) dual_order.trans less_le_trans)

lemma undisturbed_disarm:
  assumes "jobs_ok sd"
  shows "undisturbed f sd (disarm f sd)"
proof (cases "hm_get (sd_armed sd) f")
  case None
  then show ?thesis by (simp add: disarm_def)
next
  case (Some j)
  with jobs_okD(2) [OF assms] have "j < length (sd_jobs sd)" "jb_flow (sd_jobs sd ! j) = f" by simp_all
  with Some show ?thesis by (auto simp: disarm_def undisturbed_def nth_list_update)
qed

lemma undisturbed_spawn: "undisturbed f sd (spawn_job f sch sd)"
  by (auto simp: spawn_job_def undisturbed_def nth_append split: schedule_trigger.split)

lemma undisturbed_record: "undisturbed f sd (scheduler_record now ok f status sd)"
  by (simp add: undisturbed_def) (simp add: scheduler_record_def Let_def store_get_put)

lemma undisturbed_fire: "fire E fi f overlap cp = Some (r, cp') \<Longrightarrow> undisturbed f (cp_scheduler cp) (cp_scheduler cp')"
  by (auto simp: fire_def undisturbed_record split: option.splits prod.splits sum.splits)

lemma undisturbed_arm:
  assumes "jobs_ok (cp_scheduler cp)" "arm E upcoming fi f cp = Some cp'"
  shows "undisturbed f (cp_scheduler cp) (cp_scheduler cp')"
proof (cases "arm_decide E f (cp_server cp)")
  case (ArmWith sch)
  define cp1 where "cp1 = cp\<lparr>cp_scheduler := disarm f (cp_scheduler cp)\<rparr>"
  have "\<exists>cp2. (cp2 = cp1 \<or> (\<exists>r. fire E fi f (sch_overlap sch) cp1 = Some (r, cp2))) \<and>
    cp_scheduler cp' = spawn_job f sch (cp_scheduler cp2)"
    using assms(2) ArmWith by (auto simp: arm_def Let_def cp1_def [symmetric] split: option.splits if_splits)
  then obtain cp2 where cp2: "cp2 = cp1 \<or> (\<exists>r. fire E fi f (sch_overlap sch) cp1 = Some (r, cp2))"
    and cp': "cp_scheduler cp' = spawn_job f sch (cp_scheduler cp2)" by blast
  have "undisturbed f (cp_scheduler cp) (cp_scheduler cp1)" unfolding cp1_def using undisturbed_disarm [OF assms(1)] by simp
  moreover have "undisturbed f (cp_scheduler cp1) (cp_scheduler cp2)" using cp2 undisturbed_fire by auto
  ultimately show ?thesis unfolding cp' using undisturbed_trans undisturbed_spawn by blast
qed (use assms undisturbed_disarm in \<open>auto simp: arm_def\<close>)

section \<open>Requests\<close>

text \<open>What a request for the flow \<open>f\<close> may touch.\<close>

definition only_flow :: "string \<Rightarrow> nat set \<Rightarrow> control_plane \<Rightarrow> control_plane \<Rightarrow> bool" where
  "only_flow f X cp cp' \<longleftrightarrow> isolated {f} X (cp_server cp) (cp_server cp') \<and> undisturbed f (cp_scheduler cp) (cp_scheduler cp')"

lemma only_flow_refl [simp]: "only_flow f X cp cp"
  by (simp add: only_flow_def isolates)

lemma only_flow_server [simp]: "only_flow f X cp (cp\<lparr>cp_server := s\<rparr>) = isolated {f} X (cp_server cp) s"
  by (simp add: only_flow_def)

lemma only_flow_trans:
  assumes "only_flow f X cp cp1" "only_flow f Y cp1 cp2" "Y \<subseteq> X \<union> {length (sr_supervisors (cp_server cp))..}"
  shows "only_flow f X cp cp2"
  using assms isolated_trans [OF _ _ assms(3)] undisturbed_trans by (auto simp: only_flow_def)

lemma only_flow_arm:
  assumes "jobs_ok (cp_scheduler cp)" "arm E upcoming fi f cp = Some cp'"
  shows "only_flow f (set_option (supervisor_of f (cp_server cp))) cp cp'"
  using isolated_arm undisturbed_arm assms by (simp add: only_flow_def)

lemma only_flow_answer:
  "registry_answer st cp (r, s) = (st', cp') \<Longrightarrow> isolated {f} X (cp_server cp) s \<Longrightarrow> only_flow f X cp cp'"
  by (auto simp: registry_answer_def split: sum.splits)

lemma only_flow_deployed:
  assumes "jobs_ok (cp_scheduler cp)" "deployed_answer A rq f start cp (Some (r, s)) = Some (st, cp')"
    and "isolated {f} X (cp_server cp) s"
    and "\<And>n. r = Inr n \<Longrightarrow> start \<Longrightarrow> set_option (supervisor_of f s) \<subseteq> X \<union> {length (sr_supervisors (cp_server cp))..}"
  shows "only_flow f X cp cp'"
proof (cases r)
  case (Inl e)
  with assms(2,3) show ?thesis by (auto simp: deployed_answer_def)
next
  case (Inr n)
  define cp1 where "cp1 = cp\<lparr>cp_server := s\<rparr>"
  have cp': "sync_schedule A rq f start cp1 = Some cp'" using assms(2) Inr by (auto simp: deployed_answer_def cp1_def)
  have first: "only_flow f X cp cp1" "jobs_ok (cp_scheduler cp1)" using assms(1,3) by (simp_all add: cp1_def)
  show ?thesis
  proof (cases start)
    case True
    then have "arm (ae_registry A) (ae_upcoming A) (rq_fire rq) f cp1 = Some cp'" using cp' by (simp add: sync_schedule_def)
    from only_flow_trans [OF first(1) only_flow_arm [OF first(2) this]] show ?thesis using assms(4) [OF Inr True] by (simp add: cp1_def)
  next
    case False
    then have "only_flow f {} cp1 cp'" using cp' undisturbed_disarm [OF first(2), of f]
      by (auto simp: sync_schedule_def only_flow_def isolates)
    then show ?thesis by (rule only_flow_trans [OF first(1)]) simp
  qed
qed

lemma activate_supervisor:
  assumes "server_ok E s" "activate E oc f version True allow s = Some (Inr n, s')"
  shows "set_option (supervisor_of f s') \<subseteq> {length (sr_supervisors s)..}"
  using server_okD(2) [OF assms(1)] assms(2)
  by (cases rule: activate_deployed) (simp add: supervisor_of_def newer_flow_def)

lemma deploy_only_flow:
  assumes "server_ok (ae_registry A) (cp_server cp)" "jobs_ok (cp_scheduler cp)"
    and "deployed_answer A rq f start cp q = Some (st, cp')"
    and "\<And>r s. q = Some (r, s) \<Longrightarrow>
      isl r \<and> s = cp_server cp \<or> (\<exists>oc n allow. activate (ae_registry A) oc f n start allow (cp_server cp) = Some (r, s))"
  shows "only_flow f (set_option (supervisor_of f (cp_server cp))) cp cp'"
proof (cases q)
  case None
  with assms(3) show ?thesis by (simp add: deployed_answer_def)
next
  case (Some x)
  obtain r s where x: "q = Some (r, s)" using Some by (cases x) simp
  from assms(4) [OF x] show ?thesis
  proof (elim disjE exE)
    assume "isl r \<and> s = cp_server cp"
    then show ?thesis by (intro only_flow_deployed [OF assms(2,3) [unfolded x]]) (auto simp: isolates)
  next
    fix oc n allow
    assume a: "activate (ae_registry A) oc f n start allow (cp_server cp) = Some (r, s)"
    show ?thesis
    proof (rule only_flow_deployed [OF assms(2,3) [unfolded x] isolated_activate [OF a]])
      fix m
      assume "r = Inr m" start
      with a have "activate (ae_registry A) oc f n True allow (cp_server cp) = Some (Inr m, s)" by simp
      from activate_supervisor [OF assms(1) this]
      show "set_option (supervisor_of f s) \<subseteq> set_option (supervisor_of f (cp_server cp)) \<union> {length (sr_supervisors (cp_server cp))..}"
        by blast
    qed
  qed
qed

lemma guarded_only:
  assumes "guarded A rq permission f cp act = Some (st, cp')" "act () = Some (st, cp') \<Longrightarrow> only_flow f X cp cp'"
  shows "only_flow f X cp cp'"
  by (rule guarded_steps [where P = "only_flow f X cp", OF assms(1) _ assms(2)]) simp_all

lemma api_deploy_flow_document:
  assumes "api_deploy_flow A rq f start body cp = Some (st, cp')" "cp' \<noteq> cp"
  obtains fc where "dv_yaml (ev_document (ae_registry A)) body = Inr fc" "fc_id fc = f"
  using assms(1) unfolding api_deploy_flow_def
proof (cases rule: guarded_cases)
  case refused
  with assms(2) show ?thesis by simp
next
  case (allowed cx)
  with assms(2) that show ?thesis
    by (auto simp: parse_and_validate_def split: option.splits sum.splits if_splits)
qed

lemma create_supervisors: "create_draft E now ok body remark s = (r, s') \<Longrightarrow> supervisor_of f s' = supervisor_of f s"
  by (erule create_draft_cases) (simp_all add: supervisor_of_def persist_frame(2))

lemma validate_supervisors: "validate_version E now ok g n s = Some (r, s') \<Longrightarrow> supervisor_of f s' = supervisor_of f s"
  by (auto simp: validate_version_def validate_entry_def supervisor_of_def dest!: persist_frame(2)
      split: sum.splits option.splits prod.splits if_splits)

lemma api_deploy_flow_only:
  assumes ok: "plane_ok (ae_registry A) cp" "codec_ok (ae_registry A)"
    and run: "api_deploy_flow A rq f start body cp = Some (st, cp')" and f: "trim f = f"
  shows "only_flow f (set_option (supervisor_of f (cp_server cp))) cp cp'"
proof (cases "cp' = cp")
  case False
  obtain fc where fc: "dv_yaml (ev_document (ae_registry A)) body = Inr fc" "fc_id fc = f"
    using api_deploy_flow_document [OF run False] .
  let ?X = "set_option (supervisor_of f (cp_server cp))"
  have create: "isolated {f} ?X (cp_server cp) s"
    if "create_draft (ae_registry A) (rq_now rq) (rq_ok rq) body None (cp_server cp) = (r, s)" for r s
    by (rule isolated_create [OF that, where fc = fc]) (simp add: fc f)
  from run show ?thesis
  proof (cases rule: api_deploy_flow_cases)
    case (drafted e s)
    then show ?thesis using create by simp
  next
    case (checked i version s r s')
    from isolated_trans [OF create [OF checked(1)] isolated_validate [OF checked(2)]] checked(3) show ?thesis by auto
  next
    case (deployed i version s r s')
    define cp1 where "cp1 = cp\<lparr>cp_server := s'\<rparr>"
    have cp1: "plane_ok (ae_registry A) cp1" unfolding cp1_def
      using plane_call [OF plane_call [OF ok(1) server_call.create [OF deployed(1)]]] server_call.validate [OF deployed(2)] by simp
    have sup: "supervisor_of f s' = supervisor_of f (cp_server cp)"
      using create_supervisors [OF deployed(1)] validate_supervisors [OF deployed(2)] by simp
    have "only_flow f ?X cp cp1" unfolding cp1_def
      using isolated_trans [OF create [OF deployed(1)] isolated_validate [OF deployed(2), of "{}"]] by simp
    moreover have "only_flow f ?X cp1 cp'"
    proof -
      have "only_flow f (set_option (supervisor_of f (cp_server cp1))) cp1 cp'"
        by (rule deploy_only_flow [OF server_reachable_ok [OF plane_okD(1) [OF cp1] ok(2)] plane_okD(2) [OF cp1] deployed(3) [folded cp1_def]])
          (auto simp: deploy_version_def cp1_def)
      then show ?thesis by (simp add: cp1_def sup)
    qed
    ultimately show ?thesis by (rule only_flow_trans) simp
  qed (use False in simp)
qed simp

lemma api_start_flow_only:
  assumes "plane_ok (ae_registry A) cp" "api_start_flow A rq f cp = Some (st, cp')"
  shows "only_flow f (set_option (supervisor_of f (cp_server cp))) cp cp'"
  using assms(2) unfolding api_start_flow_def
proof (rule guarded_only)
  let ?start = "\<lambda>k. start_at (ae_registry A) (rq_now rq) (fi_init (rq_fire rq)) k (cp_server cp)"
  assume act: "(case supervisor_of f (cp_server cp) of
       None \<Rightarrow> Some (HttpNotFound, cp)
     | Some k \<Rightarrow>
         (case ?start k of
            None \<Rightarrow> None
          | Some (Inl e, s) \<Rightarrow> Some (HttpInternal, cp\<lparr>cp_server := s\<rparr>)
          | Some (Inr False, s) \<Rightarrow> Some (HttpConflict, cp\<lparr>cp_server := s\<rparr>)
          | Some (Inr True, s) \<Rightarrow>
              map_option (\<lambda>cp. (HttpOk, cp)) (arm (ae_registry A) (ae_upcoming A) (rq_fire rq) f (cp\<lparr>cp_server := s\<rparr>)))) =
      Some (st, cp')"
  show "only_flow f (set_option (supervisor_of f (cp_server cp))) cp cp'"
  proof (cases "supervisor_of f (cp_server cp)")
    case None
    with act show ?thesis by simp
  next
    case (Some k)
    with act obtain r s where r: "?start k = Some (r, s)" by (auto split: option.splits)
    define cp1 where "cp1 = cp\<lparr>cp_server := s\<rparr>"
    have first: "only_flow f {k} cp cp1" using isolated_start [OF r] by (simp add: cp1_def)
    show ?thesis
    proof (cases "r = Inr True")
      case True
      with act Some r have arm: "arm (ae_registry A) (ae_upcoming A) (rq_fire rq) f cp1 = Some cp'" by (auto simp: cp1_def)
      have "jobs_ok (cp_scheduler cp1)" using plane_okD(2) [OF assms(1)] by (simp add: cp1_def)
      note a = only_flow_arm [OF this arm]
      have "supervisor_of f (cp_server cp1) = Some k"
        using Some start_at_frame(2) [OF r] by (simp add: supervisor_of_def cp1_def)
      then show ?thesis using only_flow_trans [OF first a] Some by simp
    next
      case False
      with act Some r have "cp' = cp1" by (auto simp: cp1_def split: sum.splits bool.splits)
      with first Some show ?thesis by simp
    qed
  qed
qed

lemma api_trigger_flow_only:
  assumes "api_trigger_flow A rq f cp = Some (st, cp')"
  shows "only_flow f (set_option (supervisor_of f (cp_server cp))) cp cp'"
  using assms unfolding api_trigger_flow_def
proof (rule guarded_only)
  assume "(case trigger (ae_registry A) (rq_fire rq) f cp of
       None \<Rightarrow> None
     | Some (Inr True, cp) \<Rightarrow> Some (if supervisor_of f (cp_server cp) = None then HttpNotFound else HttpOk, cp)
     | Some (Inr False, cp) \<Rightarrow> Some (HttpConflict, cp)
     | Some (Inl e, cp) \<Rightarrow>
         Some (case e of Configuration (FlowNotLoaded _) \<Rightarrow> HttpNotFound | _ \<Rightarrow> HttpInternal, cp)) = Some (st, cp')"
  then obtain r where "trigger (ae_registry A) (rq_fire rq) f cp = Some (r, cp')"
    by (auto split: option.splits sum.splits bool.splits)
  then have "cp' = cp \<or> (\<exists>overlap. fire (ae_registry A) (rq_fire rq) f overlap cp = Some (r, cp'))"
    by (auto simp: trigger_def split: option.splits)
  then show "only_flow f (set_option (supervisor_of f (cp_server cp))) cp cp'"
    using isolated_fire undisturbed_fire by (auto simp: only_flow_def isolates)
qed

lemma api_stop_flow_only:
  assumes "plane_ok (ae_registry A) cp" "api_stop_flow A rq f cp = Some (st, cp')"
  shows "only_flow f (set_option (supervisor_of f (cp_server cp))) cp cp'"
  using assms(2) unfolding api_stop_flow_def
proof (rule guarded_only)
  define cp1 where "cp1 = cp\<lparr>cp_scheduler := disarm f (cp_scheduler cp)\<rparr>"
  obtain r s where c: "stop_and_unload (ae_registry A) (rq_now rq) (fi_drained (rq_fire rq)) f (cp_server cp1) = (r, s)" by fastforce
  assume "(let cp = cp\<lparr>cp_scheduler := disarm f (cp_scheduler cp)\<rparr>
     in Some (registry_answer HttpOk cp
          (stop_and_unload (ae_registry A) (rq_now rq) (fi_drained (rq_fire rq)) f (cp_server cp)))) = Some (st, cp')"
  then have "registry_answer HttpOk cp1 (r, s) = (st, cp')" by (simp add: Let_def cp1_def c [unfolded cp1_def, simplified])
  from only_flow_answer [OF this isolated_unload [OF c]]
  have "only_flow f (set_option (supervisor_of f (cp_server cp))) cp1 cp'" by (simp add: cp1_def)
  moreover have "only_flow f (set_option (supervisor_of f (cp_server cp))) cp cp1"
    using undisturbed_disarm [OF plane_okD(2) [OF assms(1)]] by (simp add: cp1_def only_flow_def isolates)
  ultimately show "only_flow f (set_option (supervisor_of f (cp_server cp))) cp cp'" using only_flow_trans by blast
qed

lemma mutate_sync_only:
  "mutate_sync A rq f operation cp = Some (st, cp') \<Longrightarrow> only_flow f (set_option (supervisor_of f (cp_server cp))) cp cp'"
  unfolding mutate_sync_def by (erule guarded_only) (auto simp: isolates split: option.splits)

lemma api_version_only:
  fixes f :: string
  assumes ok: "plane_ok (ae_registry A) cp" "codec_ok (ae_registry A)"
  defines "X \<equiv> set_option (supervisor_of f (cp_server cp))"
  shows "api_validate_version A rq f version cp = Some (st, cp') \<Longrightarrow> only_flow f X cp cp'"
    and "api_archive_version A rq f version cp = Some (st, cp') \<Longrightarrow> only_flow f X cp cp'"
    and "api_deploy_version A rq f version start cp = Some (st, cp') \<Longrightarrow> only_flow f X cp cp'"
    and "api_rollback_flow A rq f start cp = Some (st, cp') \<Longrightarrow> only_flow f X cp cp'"
proof -
  note sok = server_reachable_ok [OF plane_okD(1) [OF ok(1)] ok(2)]
  show "only_flow f X cp cp'" if "api_validate_version A rq f version cp = Some (st, cp')"
    using that unfolding api_validate_version_def
    by (rule guarded_only) (auto intro: only_flow_answer isolated_validate)
  show "only_flow f X cp cp'" if "api_archive_version A rq f version cp = Some (st, cp')"
    using that unfolding api_archive_version_def
    by (rule guarded_only)
      (cases "archive_version (ae_registry A) (rq_now rq) (rq_ok rq) f version (cp_server cp)",
        auto intro: only_flow_answer isolated_archive)
  show "only_flow f X cp cp'" if "api_deploy_version A rq f version start cp = Some (st, cp')"
    using that unfolding api_deploy_version_def X_def
    by (rule guarded_only)
      (auto split: sum.splits intro!: deploy_only_flow [OF sok plane_okD(2) [OF ok(1)]] simp: deploy_version_def)
  show "only_flow f X cp cp'" if "api_rollback_flow A rq f start cp = Some (st, cp')"
    using that unfolding api_rollback_flow_def X_def
    by (rule guarded_only)
      (auto split: sum.splits option.splits intro!: deploy_only_flow [OF sok plane_okD(2) [OF ok(1)]] simp: rollback_def)
qed

lemma api_create_flow_only:
  assumes "api_create_flow A rq body cp = Some (st, cp')" "draft_flow_id (ae_registry A) body = Inr f"
  shows "only_flow f X cp cp'"
proof -
  obtain r s where c: "create_draft (ae_registry A) (rq_now rq) (rq_ok rq) body None (cp_server cp) = (r, s)" by fastforce
  note i = isolated_create [OF c disjI1 [OF assms(2)], of X]
  have "cp' = cp \<or> registry_answer HttpCreated cp (r, s) = (st, cp')"
    using assms c by (auto simp: api_create_flow_def split: sum.splits if_splits)
  then show ?thesis using only_flow_answer [OF _ i] by auto
qed

text \<open>
  C29. A request for one flow, whose id has no blanks around it, runs alone and leaves every other flow
  as it was: its record, its entry and its supervisor, what is stored of its schedule, and its job. An
  upload for an id with blanks around it writes the flow of the id without them
  (\<open>padded_upload_writes_other_flow\<close> below).
\<close>

theorem requests_isolated:
  assumes "server_reachable (ae_registry A) (cp_server cp)" "jobs_ok (cp_scheduler cp)" "codec_ok (ae_registry A)"
    and "serve_request A rq request cp = Some (st, cp')" "request_flow (ae_registry A) request = Some f" "trim f = f" "a \<noteq> f"
  shows "get_record a (cp_server cp') = get_record a (cp_server cp) \<and>
    hm_get (sr_running (cp_server cp')) a = hm_get (sr_running (cp_server cp)) a \<and>
    (\<forall>k. supervisor_of a (cp_server cp) = Some k \<longrightarrow>
      sr_supervisors (cp_server cp') ! k = sr_supervisors (cp_server cp) ! k) \<and>
    store_get a (sd_store (cp_scheduler cp')) = store_get a (sd_store (cp_scheduler cp)) \<and>
    hm_get (sd_armed (cp_scheduler cp')) a = hm_get (sd_armed (cp_scheduler cp)) a \<and>
    (\<forall>j. hm_get (sd_armed (cp_scheduler cp)) a = Some j \<longrightarrow>
      sd_jobs (cp_scheduler cp') ! j = sd_jobs (cp_scheduler cp) ! j)"
proof -
  have ok: "plane_ok (ae_registry A) cp" using assms(1,2) by (simp add: plane_ok_def)
  let ?X = "set_option (supervisor_of f (cp_server cp))"
  have only: "only_flow f ?X cp cp'"
    using assms(3-6) ok
    by (cases request) (auto intro: api_create_flow_only api_deploy_flow_only api_version_only api_start_flow_only
        api_trigger_flow_only api_stop_flow_only mutate_sync_only split: sum.splits)
  note sok = server_reachable_ok [OF assms(1,3)]
  have "k < length (sr_supervisors (cp_server cp)) \<and> k \<notin> ?X" if "supervisor_of a (cp_server cp) = Some k" for k
  proof -
    have "k \<notin> ?X" using that assms(7) runtime_okD(3) [OF server_okD(2) [OF sok]] by (auto simp: supervisor_of_def)
    with supervisor_of_less [OF sok that] show ?thesis by simp
  qed
  then show ?thesis
    using only assms(7) jobs_okD(2) [OF assms(2)] by (auto simp: only_flow_def isolated_def undisturbed_def get_record_def)
qed

lemma requests_isolated_witness: "store_get ''g'' (sd_store (cp_scheduler example_skipped)) = store_get ''g'' (sd_store (cp_scheduler example_plane))"
proof -
  have "server_reachable (ae_registry example_api) (cp_server example_plane)" "jobs_ok (cp_scheduler example_plane)"
    "codec_ok (ae_registry example_api)"
    using example_reachable(3) registry_codec_ok
    by (simp_all add: example_api_def example_plane_def jobs_ok_def scheduler_new_def)
  from requests_isolated [OF this example_triggered, of "''f''" "''g''"] show ?thesis by simp
qed

text \<open>
  The upload of a document authorises the id of the path, and the draft is written under that id
  without the blanks around it: a caller whose project is the padded id changes the other flow.
\<close>

theorem padded_upload_writes_other_flow:
  assumes "authorize_flow (ae_sha256 A) (ae_admin A) (rq_authorization rq) PermOperate f = Inr cx"
    and "parse_and_validate (ev_document (ae_registry A)) body = Some (Inr fc)" "fc_id fc = f" "trim f \<noteq> f" "trim f \<noteq> []"
    and "get_record f (cp_server cp) = None" "rq_ok rq"
    and "get_record (trim f) (cp_server cp) = Some r"
  shows "\<exists>cp'. api_deploy_flow A rq f start body cp = Some (HttpNotFound, cp') \<and>
    (\<exists>r'. get_record (trim f) (cp_server cp') = Some r' \<and> length (fr_versions r') = Suc (length (fr_versions r)))"
proof -
  have yaml: "dv_yaml (ev_document (ae_registry A)) body = Inr fc"
    using assms(2) by (auto simp: parse_and_validate_def split: sum.splits option.splits)
  define v where "v = draft_version (next_version r) (rq_now rq) body (ev_checksum (ae_registry A) body) None"
  define s where "s = (cp_server cp)\<lparr>sr_records := hm_insert (trim f) (push_version (rq_now rq) v r) (sr_records (cp_server cp))\<rparr>"
  obtain s' where p: "persist (ae_registry A) True s = (Inr (), s')" by (cases "sr_dir s") (simp_all add: persist_def)
  have c: "create_draft (ae_registry A) (rq_now rq) (rq_ok rq) body None (cp_server cp) = (Inr (trim f, next_version r), s')"
    using assms(3,5,7,8) yaml p by (simp add: create_draft_def Let_def get_record_def v_def s_def)
  have rec: "hm_get (sr_records s') f = None" "hm_get (sr_records s') (trim f) = Some (push_version (rq_now rq) v r)"
    using assms(4,6) persist_frame(1) [OF p] by (simp_all add: s_def get_record_def)
  then have "validate_version (ae_registry A) (rq_now rq) (rq_ok rq) f (next_version r) s' = Some (Inl (NotFound ''flujo''), s')"
    by (simp add: validate_version_def version_source_def)
  with assms(1-3) c have "api_deploy_flow A rq f start body cp = Some (HttpNotFound, cp\<lparr>cp_server := s'\<rparr>)"
    by (simp add: api_deploy_flow_def guarded_def)
  then show ?thesis using rec(2) by (simp add: get_record_def push_version_def)
qed

end
