(* ===== verification/Server_Observe.thy ===== *)
theory Server_Observe
  imports Server_Tenants Packet_Repository
begin

text \<open>
  What the control plane shows (\<open>crates/jaiba-server/src/observability.rs\<close>): snapshots, metrics,
  the streams over web sockets, provenance and dead letters; and what the process decides at its
  start about origins and secrets. The metrics of a flow, their texts and the JSON of a message
  are parameters.
\<close>

section \<open>Snapshots\<close>

record 'm flow_snapshot =
  sn_flow_id :: string
  sn_control :: flow_control
  sn_metrics :: 'm
  sn_ready :: bool

text \<open>\<open>metrics\<close>: the summary of the supervisor at a position, when it is asked for.\<close>

definition sv_snapshot :: "(nat \<Rightarrow> 'm) \<Rightarrow> nat \<Rightarrow> server \<Rightarrow> 'm flow_snapshot" where
  "sv_snapshot metrics k s =
     (let su = sr_supervisors s ! k; control = sv_control (su_supervisor su)
      in \<lparr> sn_flow_id = fc_id (su_config su), sn_control = control, sn_metrics = metrics k,
           sn_ready = (ctl_state control \<in> {Running, Paused}) \<rparr>)"

definition snapshots :: "(nat \<Rightarrow> 'm) \<Rightarrow> server \<Rightarrow> 'm flow_snapshot list" where
  "snapshots metrics s = sort_key sn_flow_id (map (\<lambda>(_, p). sv_snapshot metrics (rf_supervisor p) s) (sr_running s))"

definition filter_snapshots :: "auth_context \<Rightarrow> 'm flow_snapshot list \<Rightarrow> 'm flow_snapshot list" where
  "filter_snapshots cx xs = filter (\<lambda>x. allows_project cx (sn_flow_id x)) xs"

definition visible_snapshots :: "(nat \<Rightarrow> 'm) \<Rightarrow> auth_context \<Rightarrow> server \<Rightarrow> 'm flow_snapshot list" where
  "visible_snapshots metrics cx s = filter_snapshots cx (snapshots metrics s)"

definition registry_prometheus :: "(nat \<Rightarrow> string) \<Rightarrow> auth_context \<Rightarrow> server \<Rightarrow> string" where
  "registry_prometheus texts cx s =
     merge_prometheus (map (\<lambda>(_, p). texts (rf_supervisor p)) (filter (\<lambda>(i, _). allows_project cx i) (sr_running s)))"

definition readiness :: "server \<Rightarrow> http_status" where
  "readiness s = (if list_ex sn_ready (snapshots (\<lambda>_. ()) s) then HttpOk else HttpUnavailable)"

definition api_runtime ::
  "api_env \<Rightarrow> (nat \<Rightarrow> 'm) \<Rightarrow> string option \<Rightarrow> string option \<Rightarrow> control_plane \<Rightarrow> (http_status, 'm flow_snapshot option) result" where
  "api_runtime A metrics authorization query_token cp =
     map_sum id (\<lambda>cx. case visible_snapshots metrics cx (cp_server cp) of [] \<Rightarrow> None | x # _ \<Rightarrow> Some x)
       (authorize_observability (ae_sha256 A) (ae_admin A) authorization query_token)"

definition api_prometheus :: "api_env \<Rightarrow> (nat \<Rightarrow> string) \<Rightarrow> string option \<Rightarrow> control_plane \<Rightarrow> (http_status, string) result" where
  "api_prometheus A texts authorization cp =
     map_sum id (\<lambda>cx. registry_prometheus texts cx (cp_server cp))
       (authorize_perm (ae_sha256 A) (ae_admin A) authorization PermRead)"

definition api_validate_flow :: "api_env \<Rightarrow> string option \<Rightarrow> string \<Rightarrow> (http_status, string \<times> nat \<times> nat) result option" where
  "api_validate_flow A authorization body =
     (case authorize_perm (ae_sha256 A) (ae_admin A) authorization PermOperate of
        Inl st \<Rightarrow> Some (Inl st)
      | Inr cx \<Rightarrow>
          (case parse_and_validate (ev_document (ae_registry A)) body of
             None \<Rightarrow> None
           | Some (Inl e) \<Rightarrow> Some (Inl HttpUnprocessable)
           | Some (Inr fc) \<Rightarrow>
               if \<not> allows_project cx (fc_id fc) then Some (Inl HttpForbidden)
               else Some (Inr (fc_id fc, length (fc_processors fc), length (fc_connections fc)))))"

section \<open>Streams\<close>

definition ws_poll_interval :: "(string \<Rightarrow> string option) \<Rightarrow> nat" where
  "ws_poll_interval env =
     (let ms = (case env ''JAIBA_WS_POLL_MS'' of None \<Rightarrow> 250 | Some v \<Rightarrow> (case parse_u64 v of None \<Rightarrow> 250 | Some n \<Rightarrow> n))
      in min (max ms 50) 5000)"

definition ws_changed_payload :: "string option \<Rightarrow> string \<Rightarrow> string option" where
  "ws_changed_payload last_sent payload = (if last_sent = Some payload then None else Some payload)"

text \<open>
  The loop of a stream over its ticks: what the tick would send, when it can be serialised, and
  whether the send succeeds. The result is what the client receives.
\<close>

fun stream :: "string option \<Rightarrow> (string option \<times> bool) list \<Rightarrow> string list" where
  "stream last_sent [] = []"
| "stream last_sent ((None, ok) # ticks) = []"
| "stream last_sent ((Some message, ok) # ticks) =
     (case ws_changed_payload last_sent message of
        None \<Rightarrow> stream last_sent ticks
      | Some message \<Rightarrow> if ok then message # stream (Some message) ticks else [])"

text \<open>A tick sees a state of the process, the metrics of that time, and how the send ends.\<close>

definition stream_metrics ::
  "('m option \<Rightarrow> string option) \<Rightarrow> auth_context \<Rightarrow> (server \<times> (nat \<Rightarrow> 'm) \<times> bool) list \<Rightarrow> string list" where
  "stream_metrics to_string cx ticks =
     stream None (map (\<lambda>(s, metrics, ok).
       (to_string (case visible_snapshots metrics cx s of [] \<Rightarrow> None | x # _ \<Rightarrow> Some (sn_metrics x)), ok)) ticks)"

record 'm runtime_event =
  re_flow :: "'m flow_snapshot option"
  re_flows :: "'m flow_snapshot list"

definition stream_runtime ::
  "('m runtime_event \<Rightarrow> string option) \<Rightarrow> auth_context \<Rightarrow> (server \<times> (nat \<Rightarrow> 'm) \<times> bool) list \<Rightarrow> string list" where
  "stream_runtime to_string cx ticks =
     stream None (map (\<lambda>(s, metrics, ok).
       (let flows = visible_snapshots metrics cx s
        in to_string \<lparr> re_flow = (case flows of [] \<Rightarrow> None | x # _ \<Rightarrow> Some x), re_flows = flows \<rparr>, ok)) ticks)"

section \<open>Repositories\<close>

definition resolve_target_flow :: "string option \<Rightarrow> server \<Rightarrow> string option" where
  "resolve_target_flow flow s = (case flow of Some f \<Rightarrow> Some f | None \<Rightarrow> sole_running_id s)"

text \<open>The flow whose repository a request is for; the handle is the one of its database file.\<close>

definition target_repository ::
  "api_env \<Rightarrow> string option \<Rightarrow> permission \<Rightarrow> string option \<Rightarrow> control_plane \<Rightarrow> (http_status, string) result" where
  "target_repository A authorization permission flow cp =
     (case authorize_perm (ae_sha256 A) (ae_admin A) authorization permission of
        Inl st \<Rightarrow> Inl st
      | Inr cx \<Rightarrow>
          (case resolve_target_flow flow (cp_server cp) of
             None \<Rightarrow> Inl HttpUnavailable
           | Some flow_id \<Rightarrow>
               if \<not> allows_project cx flow_id then Inl HttpForbidden
               else if has_repository flow_id (cp_server cp) then Inr flow_id else Inl HttpUnavailable))"

definition api_provenance ::
  "api_env \<Rightarrow> string option \<Rightarrow> string option \<Rightarrow> string option \<Rightarrow> nat option \<Rightarrow> control_plane \<Rightarrow> packet_repository
    \<Rightarrow> (http_status, provenance_row list) result" where
  "api_provenance A authorization flow packet_id limit cp rp =
     map_sum id (\<lambda>flow_id. case packet_id of
         Some p \<Rightarrow> provenance_for_packet flow_id p (case limit of None \<Rightarrow> 1000 | Some n \<Rightarrow> n) rp
       | None \<Rightarrow> recent_provenance flow_id (case limit of None \<Rightarrow> 100 | Some n \<Rightarrow> n) rp)
       (target_repository A authorization PermRead flow cp)"

definition api_dead_letters ::
  "api_env \<Rightarrow> string option \<Rightarrow> string option \<Rightarrow> nat option \<Rightarrow> control_plane \<Rightarrow> packet_repository
    \<Rightarrow> (http_status, dead_letter_entry list) result" where
  "api_dead_letters A authorization flow limit cp rp =
     map_sum id (\<lambda>flow_id. dead_letters flow_id (case limit of None \<Rightarrow> 100 | Some n \<Rightarrow> n) rp)
       (target_repository A authorization PermRead flow cp)"

definition api_replay_dead_letter ::
  "api_env \<Rightarrow> string option \<Rightarrow> int \<Rightarrow> string \<Rightarrow> string option \<Rightarrow> control_plane \<Rightarrow> packet_repository
    \<Rightarrow> http_status \<times> packet_repository" where
  "api_replay_dead_letter A authorization now queue_id flow cp rp =
     (case target_repository A authorization PermOperate flow cp of
        Inl st \<Rightarrow> (st, rp)
      | Inr flow_id \<Rightarrow>
          (case requeue_dead_letter now queue_id rp of
             (True, rp) \<Rightarrow> (HttpOk, rp)
           | (False, rp) \<Rightarrow> (HttpNotFound, rp)))"

section \<open>The start of the process\<close>

definition default_origins :: "string list" where
  "default_origins =
     [''tauri://localhost'', ''http://tauri.localhost'', ''https://tauri.localhost'', ''http://localhost:5173'', ''http://127.0.0.1:5173'']"

text \<open>\<open>header_value\<close>: whether the HTTP library takes the origin as the value of a header.\<close>

datatype cors_error = CorsWildcard | CorsInvalid

definition cors_for_origins :: "(string \<Rightarrow> bool) \<Rightarrow> string \<Rightarrow> (cors_error, string list) result" where
  "cors_for_origins header_value extra =
     (let origins = default_origins @ filter (\<lambda>s. s \<noteq> []) (map trim (split_on CHR '','' extra))
      in case find (\<lambda>origin. origin = ''*'' \<or> \<not> header_value origin) origins of
           None \<Rightarrow> Inr origins
         | Some origin \<Rightarrow> Inl (if origin = ''*'' then CorsWildcard else CorsInvalid))"

datatype connection_stores = StoresEncrypted string | StoresInMemory

datatype stores_error = SecretsNotOpened | SecretsWithoutKey | MasterKeyMissing

text \<open>
  \<open>present\<close>: the secrets file exists; \<open>opens\<close>: the store opens with a passphrase. The result
  names the passphrase that the encrypted store was opened with.
\<close>

definition build_connection_stores ::
  "(string \<Rightarrow> string option) \<Rightarrow> bool \<Rightarrow> bool \<Rightarrow> (string \<Rightarrow> bool) \<Rightarrow> (stores_error, connection_stores) result" where
  "build_connection_stores env loopback present opens =
     (case (case env ''JAIBA_MASTER_KEY'' of None \<Rightarrow> None | Some k \<Rightarrow> if trim k = [] then None else Some k) of
        Some k \<Rightarrow> if opens k then Inr (StoresEncrypted k) else Inl SecretsNotOpened
      | None \<Rightarrow>
          if present then Inl SecretsWithoutKey
          else if master_key_required env loopback then Inl MasterKeyMissing
          else Inr StoresInMemory)"

section \<open>A stream sends each change once\<close>

lemma stream_remdups:
  "stream last_sent (map (\<lambda>m. (Some m, True)) ms) =
     (case last_sent of None \<Rightarrow> remdups_adj ms | Some m \<Rightarrow> tl (remdups_adj (m # ms)))"
proof (induction ms arbitrary: last_sent)
  case Nil
  then show ?case by (cases last_sent) simp_all
next
  case (Cons m ms)
  have tl: "m # tl (remdups_adj (m # ms)) = remdups_adj (m # ms)" by (simp add: remdups_adj_Cons split: list.split)
  show ?case
  proof (cases last_sent)
    case None
    then show ?thesis by (simp add: ws_changed_payload_def Cons.IH tl)
  next
    case (Some x)
    show ?thesis
    proof (cases "x = m")
      case True
      then show ?thesis using Some by (simp add: ws_changed_payload_def Cons.IH)
    next
      case False
      then show ?thesis using Some by (simp add: ws_changed_payload_def Cons.IH tl)
    qed
  qed
qed

text \<open>The messages of the ticks, up to the first that does not serialise.\<close>

fun stream_payloads :: "(string option \<times> bool) list \<Rightarrow> string list" where
  "stream_payloads ((Some message, ok) # ticks) = message # stream_payloads ticks"
| "stream_payloads ticks = []"

lemma stream_prefix:
  "\<exists>n. stream last_sent ticks = take n (stream last_sent (map (\<lambda>m. (Some m, True)) (stream_payloads ticks)))"
proof (induction last_sent ticks rule: stream.induct)
  case (3 last_sent message ok ticks)
  show ?case
  proof (cases "ws_changed_payload last_sent message")
    case None
    with 3(1) [OF None] show ?thesis by simp
  next
    case (Some m)
    show ?thesis
    proof (cases ok)
      case True
      from 3(2) [OF Some True] obtain n where n: "stream (Some m) ticks = take n (stream (Some m)
        (map (\<lambda>m. (Some m, True)) (stream_payloads ticks)))" by blast
      show ?thesis by (rule exI [where x = "Suc n"]) (simp add: Some True n)
    next
      case False
      then show ?thesis by (intro exI [where x = 0]) (simp add: Some)
    qed
  qed
qed (auto intro: exI [where x = 0])

text \<open>
  The client of a stream receives, in order, every snapshot that differs from the one sent
  before: with sends that succeed and messages that serialise these are the payloads of the ticks
  without repetitions, and in every case an initial part of that list.
\<close>

theorem stream_sends_changes:
  "(\<exists>n. stream None ticks = take n (remdups_adj (stream_payloads ticks))) \<and>
    stream None (map (\<lambda>m. (Some m, True)) ms) = remdups_adj ms \<and>
    50 \<le> ws_poll_interval env \<and> ws_poll_interval env \<le> 5000"
  using stream_prefix [of None ticks] stream_remdups [of None]
  by (simp add: ws_poll_interval_def Let_def)

section \<open>What a caller sees\<close>

lemma hm_get_filter: "P a \<Longrightarrow> hm_get (filter (\<lambda>(i, _). P i) m) a = hm_get m a"
  by (induction m) auto

text \<open>Two states that agree on the caller's projects.\<close>

definition own_runs :: "auth_context \<Rightarrow> server \<Rightarrow> (string \<times> running_flow) list" where
  "own_runs cx s = filter (\<lambda>(i, _). allows_project cx i) (sr_running s)"

definition same_view :: "auth_context \<Rightarrow> server \<Rightarrow> server \<Rightarrow> bool" where
  "same_view cx s s' \<longleftrightarrow>
     filter (\<lambda>(i, _). allows_project cx i) (sr_records s') = filter (\<lambda>(i, _). allows_project cx i) (sr_records s) \<and>
     own_runs cx s' = own_runs cx s \<and>
     (\<forall>(i, p)\<in>set (own_runs cx s). sr_supervisors s' ! rf_supervisor p = sr_supervisors s ! rf_supervisor p)"

text \<open>A flow runs under the id of its document, which holds for ids without blanks around them.\<close>

definition ids_match :: "server \<Rightarrow> bool" where
  "ids_match s \<longleftrightarrow> (\<forall>(i, p)\<in>set (sr_running s). fc_id (su_config (sr_supervisors s ! rf_supervisor p)) = i)"

lemma visible_runs:
  assumes "ids_match s"
  shows "visible_snapshots metrics cx s =
    sort_key sn_flow_id (map (\<lambda>(_, p). sv_snapshot metrics (rf_supervisor p) s) (own_runs cx s))"
proof -
  have "filter (\<lambda>x. allows_project cx (sn_flow_id x)) (map (\<lambda>(_, p). sv_snapshot metrics (rf_supervisor p) s) runs) =
      map (\<lambda>(_, p). sv_snapshot metrics (rf_supervisor p) s) (filter (\<lambda>(i, _). allows_project cx i) runs)"
    if "\<forall>(i, p)\<in>set runs. fc_id (su_config (sr_supervisors s ! rf_supervisor p)) = i" for runs
    using that by (induction runs) (auto simp: sv_snapshot_def Let_def)
  note this [OF assms [unfolded ids_match_def]]
  then show ?thesis
    unfolding visible_snapshots_def filter_snapshots_def snapshots_def filter_sort own_runs_def by (rule arg_cong)
qed

lemma same_view_snapshots:
  assumes "same_view cx s s'" "ids_match s" "ids_match s'"
  shows "visible_snapshots metrics cx s' = visible_snapshots metrics cx s"
proof -
  have "map (\<lambda>(_, p). sv_snapshot metrics (rf_supervisor p) s') (own_runs cx s) =
      map (\<lambda>(_, p). sv_snapshot metrics (rf_supervisor p) s) (own_runs cx s)"
    using assms(1) by (intro map_cong) (auto simp: same_view_def sv_snapshot_def)
  moreover have "own_runs cx s' = own_runs cx s" using assms(1) by (simp add: same_view_def)
  ultimately show ?thesis by (simp only: visible_runs [OF assms(2)] visible_runs [OF assms(3)])
qed

lemma same_view_records:
  assumes "same_view cx s s'" "server_ok E s" "server_ok E s'"
  shows "filter (\<lambda>r. allows_project cx (fr_id r)) (list_records s') = filter (\<lambda>r. allows_project cx (fr_id r)) (list_records s)"
    and "allows_project cx a \<Longrightarrow> hm_get (sr_records s') a = hm_get (sr_records s) a"
    and "allows_project cx a \<Longrightarrow> hm_get (sr_running s') a = hm_get (sr_running s) a"
proof -
  have own: "filter (\<lambda>r. allows_project cx (fr_id r)) (map snd (sr_records t)) =
      map snd (filter (\<lambda>(i, _). allows_project cx i) (sr_records t))" if t: "server_ok E t" for t
  proof -
    have keys: "fr_id r = i" if "(i, r) \<in> set (sr_records t)" for i r
      by (rule records_okD(2) [OF server_okD(1) [OF t]])
        (rule iffD2 [OF hm_get_Some_iff [OF records_okD(1) [OF server_okD(1) [OF t]]] that])
    have "filter (\<lambda>x. allows_project cx (fr_id (snd x))) (sr_records t) = filter (\<lambda>(i, _). allows_project cx i) (sr_records t)"
      by (rule filter_cong [OF refl]) (metis keys case_prod_beta prod.collapse)
    then show ?thesis by (simp add: filter_map comp_def)
  qed
  show "filter (\<lambda>r. allows_project cx (fr_id r)) (list_records s') = filter (\<lambda>r. allows_project cx (fr_id r)) (list_records s)"
    using own [OF assms(2)] own [OF assms(3)] assms(1) by (simp add: list_records_def filter_sort same_view_def)
  show "allows_project cx a \<Longrightarrow> hm_get (sr_records s') a = hm_get (sr_records s) a"
    using hm_get_filter [of "allows_project cx" a] assms(1) unfolding same_view_def by metis
  show "allows_project cx a \<Longrightarrow> hm_get (sr_running s') a = hm_get (sr_running s) a"
    using hm_get_filter [of "allows_project cx" a] assms(1) unfolding same_view_def own_runs_def by metis
qed


text \<open>
  C30. The state of the flows, the metrics, the list of flows, a flow, its versions and an exported
  version: in two states that agree on the caller's projects, however the other flows differ, each of
  these requests gets the same answer. In both states every flow runs under the id of its document
  (\<open>ids_match\<close>), which is so when no id has blanks around it. The other reads are not among these:
  provenance and dead letters without a flow id are those of the only flow that runs, so their answer
  depends on whether another one does; \<open>/ready\<close> asks for no permission; the streams over web
  sockets are not stated here; the requests for connections are not about flows.
\<close>

theorem reads_stay_in_projects:
  assumes "server_reachable (ae_registry A) (cp_server cp)" "server_reachable (ae_registry A) (cp_server cp')"
    and "codec_ok (ae_registry A)" "ids_match (cp_server cp)" "ids_match (cp_server cp')"
    and view: "\<And>q cx. authenticate (ae_sha256 A) (ae_admin A) (rq_authorization rq) q = Inr cx \<Longrightarrow>
      same_view cx (cp_server cp) (cp_server cp')"
  shows "api_runtime A metrics (rq_authorization rq) query_token cp' = api_runtime A metrics (rq_authorization rq) query_token cp \<and>
    api_prometheus A texts (rq_authorization rq) cp' = api_prometheus A texts (rq_authorization rq) cp \<and>
    api_list_flows A rq cp' = api_list_flows A rq cp \<and> api_get_flow A rq i cp' = api_get_flow A rq i cp \<and>
    api_list_versions A rq i cp' = api_list_versions A rq i cp \<and> api_export_version A rq i n cp' = api_export_version A rq i n cp"
proof (intro conjI)
  note ok = server_reachable_ok [OF assms(1,3)] and ok' = server_reachable_ok [OF assms(2,3)]
  let ?auth = "authorize_flow (ae_sha256 A) (ae_admin A) (rq_authorization rq) PermRead i"
  have perm: "same_view cx (cp_server cp) (cp_server cp')"
    if "authorize_perm (ae_sha256 A) (ae_admin A) (rq_authorization rq) PermRead = Inr cx" for cx
    using that view [of None] by (auto simp: authorize_perm_def split: sum.splits if_splits)
  have flow: "get_record i (cp_server cp') = get_record i (cp_server cp)" "supervisor_of i (cp_server cp') = supervisor_of i (cp_server cp)"
    if "?auth = Inr cx" for cx
    using same_view_records(2,3) [OF view [OF authorize_flow_Inr(1) [OF that]] ok ok' authorize_flow_Inr(3) [OF that]]
    by (simp_all add: get_record_def supervisor_of_def)
  show "api_runtime A metrics (rq_authorization rq) query_token cp' = api_runtime A metrics (rq_authorization rq) query_token cp"
  proof (cases "authorize_observability (ae_sha256 A) (ae_admin A) (rq_authorization rq) query_token")
    case (Inr cx)
    then have "authenticate (ae_sha256 A) (ae_admin A) (rq_authorization rq) query_token = Inr cx"
      by (auto simp: authorize_observability_def split: sum.splits if_splits)
    from same_view_snapshots [OF view [OF this] assms(4,5), of metrics] show ?thesis by (simp add: api_runtime_def Inr)
  qed (simp add: api_runtime_def)
  show "api_prometheus A texts (rq_authorization rq) cp' = api_prometheus A texts (rq_authorization rq) cp"
    using perm by (cases "authorize_perm (ae_sha256 A) (ae_admin A) (rq_authorization rq) PermRead")
      (auto simp: api_prometheus_def registry_prometheus_def same_view_def own_runs_def)
  show "api_list_flows A rq cp' = api_list_flows A rq cp"
    using same_view_records(1) [OF perm ok ok']
    by (cases "authorize_perm (ae_sha256 A) (ae_admin A) (rq_authorization rq) PermRead") (simp_all add: api_list_flows_def)
  show "api_get_flow A rq i cp' = api_get_flow A rq i cp"
    using flow by (cases ?auth) (simp_all add: api_get_flow_def split: option.split)
  show "api_list_versions A rq i cp' = api_list_versions A rq i cp"
    using flow(1) by (cases ?auth) (simp_all add: api_list_versions_def)
  show "api_export_version A rq i n cp' = api_export_version A rq i n cp"
    using flow(1) by (cases ?auth) (simp_all add: api_export_version_def export_version_def get_record_def)
qed

text \<open>A principal of another flow cannot tell whether the flow \<open>f\<close> was deployed.\<close>

definition example_other_api :: api_env where
  "example_other_api = example_api\<lparr>ae_admin := (ae_admin example_api)\<lparr>aa_principals :=
     [\<lparr> pn_id = ''eva'', pn_role = Viewer, pn_projects = [''g''], pn_token_secret = ''u'' \<rparr>]\<rparr>\<rparr>"

lemma reads_stay_in_projects_witness:
  "api_list_flows example_other_api (example_request ''Bearer u'') example_plane =
     api_list_flows example_other_api (example_request ''Bearer u'') (example_plane\<lparr>cp_server := example_idle\<rparr>)"
proof -
  have reach: "server_reachable (ae_registry example_other_api) (cp_server (example_plane\<lparr>cp_server := example_idle\<rparr>))"
    "server_reachable (ae_registry example_other_api) (cp_server example_plane)" "codec_ok (ae_registry example_other_api)"
    using example_reachable registry_codec_ok by (simp_all add: example_other_api_def example_api_def example_plane_def)
  have ids: "ids_match (cp_server (example_plane\<lparr>cp_server := example_idle\<rparr>))" "ids_match (cp_server example_plane)"
    by (simp_all add: ids_match_def example_plane_def example_idle_def example_empty_def registry_new_def example_server_def newer_flow_def)
  have view: "same_view cx (cp_server (example_plane\<lparr>cp_server := example_idle\<rparr>)) (cp_server example_plane)"
    if "authenticate (ae_sha256 example_other_api) (ae_admin example_other_api) (rq_authorization (example_request ''Bearer u'')) q = Inr cx"
    for q cx
  proof -
    have "\<not> allows_project cx ''f''" using that
      by (auto simp: authenticate_def example_other_api_def example_api_def example_request_def extract_bearer_token_def strip_prefix_def
        starts_with_def match_principal_def token_matches_def constant_time_eq_iff allows_project_def split: if_splits)
    then show ?thesis
      by (simp add: same_view_def own_runs_def example_plane_def example_idle_def example_empty_def registry_new_def example_server_def)
  qed
  show ?thesis
    by (rule conjunct1 [OF conjunct2 [OF conjunct2 [OF reads_stay_in_projects [OF reach ids]]]]) (rule view)
qed

section \<open>Dead letters of other flows\<close>

text \<open>
  The reads of a repository are limited to the flow that was authorised; the replay of a dead
  letter is not: it takes any packet of the database file, and flows share the default one.
\<close>

lemma repository_reads_own_flow:
  assumes "target_repository A authorization PermRead flow cp = Inr f"
  shows "api_provenance A authorization flow packet_id limit cp rp = Inr ps \<Longrightarrow> p \<in> set ps \<Longrightarrow> pr_flow_id p = f"
    and "api_dead_letters A authorization flow limit cp rp = Inr ds \<Longrightarrow> d \<in> set ds \<Longrightarrow> dl_flow_id d = f"
  using assms
  by (auto simp: api_provenance_def api_dead_letters_def provenance_for_packet_def recent_provenance_def dead_letters_def
      split: option.splits dest!: in_set_takeD)

theorem replay_reaches_other_flow:
  assumes "target_repository A authorization PermOperate flow cp = Inr f"
    and "filter (\<lambda>r. qr_queue_id r = queue_id \<and> qr_status r = QDeadLetter) (rp_queue rp) = [r]" "qr_flow_id r \<noteq> f"
  shows "\<exists>rp'. api_replay_dead_letter A authorization now queue_id flow cp rp = (HttpOk, rp') \<and>
    (\<exists>r'\<in>set (rp_queue rp'). qr_queue_id r' = queue_id \<and> qr_flow_id r' = qr_flow_id r \<and> qr_status r' = QPending)"
proof -
  define g :: "queue_row \<Rightarrow> queue_row" where "g = (\<lambda>r. r\<lparr>qr_status := QPending, qr_attempt := 0, qr_error := None, qr_claimed_at := None, qr_completed_at := None\<rparr>)"
  define rows where "rows = map (\<lambda>r. if qr_queue_id r = queue_id \<and> qr_status r = QDeadLetter then g r else r) (rp_queue rp)"
  have r: "r \<in> set (rp_queue rp)" "qr_queue_id r = queue_id" "qr_status r = QDeadLetter"
    using arg_cong [OF assms(2), of set] by auto
  then have "g r \<in> set rows" unfolding rows_def by force
  moreover have "requeue_dead_letter now queue_id rp = (True, insert_provenance now queue_id Requeued (rp\<lparr>rp_queue := rows\<rparr>))"
    unfolding requeue_dead_letter_def update_rows_def rows_def g_def by (simp add: assms(2))
  moreover have "rp_queue (fold (add_provenance now Requeued) rs rp) = rp_queue rp" for rs rp
    by (induction rs arbitrary: rp) (simp_all add: add_provenance_def)
  moreover have "qr_queue_id (g r) = queue_id \<and> qr_flow_id (g r) = qr_flow_id r \<and> qr_status (g r) = QPending"
    using r(2) by (simp add: g_def)
  ultimately show ?thesis
    using assms(1) by (auto simp: api_replay_dead_letter_def insert_provenance_def intro!: bexI [where x = "g r"])
qed

section \<open>Origins and secrets\<close>

text \<open>
  An accepted list of origins has the defaults and no wildcard; secrets are kept in memory only
  where no secrets file is left behind, no passphrase is given, and the process is on loopback or
  was told to.
\<close>

lemma origins_explicit:
  assumes "cors_for_origins header_value extra = Inr origins"
  shows "set default_origins \<subseteq> set origins" "''*'' \<notin> set origins" "list_all header_value origins"
  using assms by (auto simp: cors_for_origins_def Let_def find_None_iff list_all_iff split: option.splits)

lemma secrets_in_memory:
  assumes "build_connection_stores env loopback present opens = Inr StoresInMemory"
  shows "\<not> present" "loopback \<or> env_flag_enabled env ''JAIBA_ALLOW_INMEMORY_SECRETS''"
    "\<not> env_flag_enabled env ''JAIBA_REQUIRE_MASTER_KEY''"
  using assms by (auto simp: build_connection_stores_def master_key_required_def split: option.splits if_splits)

end
