(* ===== verification/Sql_Compile.thy ===== *)
theory Sql_Compile
  imports Flow_Config
begin

text \<open>
  From a neutral query to the statement of a dialect (\<open>crates/jaiba-server/src/sql_builder.rs\<close>, with
  the query types of \<open>crates/jaiba-plugin-sdk/src/lib.rs\<close>): identifiers are checked and quoted, values
  become parameters. What is shown is that no value and no quote of the caller reaches the
  statement.
\<close>

section \<open>Queries\<close>

datatype filter_operator =
    OpEq | OpNotEq | OpGreaterThan | OpGreaterOrEqual | OpLessThan | OpLessOrEqual
  | OpContains | OpStartsWith | OpIn | OpIsNull | OpIsNotNull

datatype sort_direction = SortAsc | SortDesc

datatype join_kind = JoinInner | JoinLeft | JoinRight | JoinFull

record query_source =
  qs_schema :: "string option"
  qs_table :: string

record query_filter =
  qf_field :: string
  qf_operator :: filter_operator
  qf_value :: json

record query_order =
  qo_field :: string
  qo_direction :: sort_direction

record query_join =
  qj_kind :: join_kind
  qj_source :: query_source
  qj_left :: string
  qj_right :: string

record query_spec =
  qp_source :: query_source
  qp_columns :: "string list"
  qp_joins :: "query_join list"
  qp_filters :: "query_filter list"
  qp_group_by :: "string list"
  qp_order_by :: "query_order list"
  qp_limit :: "nat option"

text \<open>The other two fields of the Rust struct are \<open>None\<close> here.\<close>

record compiled_query =
  cq_statement :: string
  cq_parameters :: "json list"

section \<open>Identifiers\<close>

datatype dialect = Postgres | MySql | SqlServer

text \<open>The messages of the plugin error.\<close>

datatype sql_error =
    InvalidIdentifier string
  | EmptyIdentifier
  | NoColumns
  | NullOperator
  | InWithoutList
  | InEmpty
  | InWithNull

definition is_valid_identifier :: "string \<Rightarrow> bool" where
  "is_valid_identifier segment =
     (case segment of
        [] \<Rightarrow> False
      | c # cs \<Rightarrow> (is_ascii_alphabetic c \<or> c = CHR ''_'') \<and>
          list_all (\<lambda>c. is_ascii_alphanumeric c \<or> c = CHR ''_'' \<or> c = CHR ''$'') cs)"

fun quote_segment :: "dialect \<Rightarrow> string \<Rightarrow> string" where
  "quote_segment Postgres segment = [CHR 0x22] @ segment @ [CHR 0x22]"
| "quote_segment MySql segment = [CHR 0x60] @ segment @ [CHR 0x60]"
| "quote_segment SqlServer segment = ''['' @ segment @ '']''"

fun traverse :: "('a \<Rightarrow> ('e, 'b) result) \<Rightarrow> 'a list \<Rightarrow> ('e, 'b list) result" where
  "traverse f [] = Inr []"
| "traverse f (x # xs) = (case f x of Inl e \<Rightarrow> Inl e | Inr y \<Rightarrow> map_sum id (\<lambda>ys. y # ys) (traverse f xs))"

fun join_with :: "string \<Rightarrow> string list \<Rightarrow> string" where
  "join_with sep [] = []"
| "join_with sep [x] = x"
| "join_with sep (x # xs) = x @ sep @ join_with sep xs"

definition quote :: "dialect \<Rightarrow> string \<Rightarrow> (sql_error, string) result" where
  "quote d identifier =
     (case traverse (\<lambda>segment. let segment = trim segment
                       in if segment = ''*'' then Inr ''*''
                          else if \<not> is_valid_identifier segment then Inl (InvalidIdentifier identifier)
                          else Inr (quote_segment d segment)) (split_on CHR ''.'' identifier) of
        Inl e \<Rightarrow> Inl e
      | Inr parts \<Rightarrow> if parts = [] then Inl EmptyIdentifier else Inr (join_with ''.'' parts))"

fun like_keyword :: "dialect \<Rightarrow> string" where
  "like_keyword Postgres = ''ILIKE''"
| "like_keyword MySql = ''LIKE''"
| "like_keyword SqlServer = ''LIKE''"

fun placeholder :: "dialect \<Rightarrow> nat \<Rightarrow> string" where
  "placeholder Postgres index = ''$'' @ show_nat index"
| "placeholder MySql index = ''?''"
| "placeholder SqlServer index = ''@P'' @ show_nat index"

definition quote_source :: "dialect \<Rightarrow> query_source \<Rightarrow> (sql_error, string) result" where
  "quote_source d source =
     (case qs_schema source of
        Some schema \<Rightarrow>
          if trim schema \<noteq> []
          then (case quote d schema of
                  Inl e \<Rightarrow> Inl e
                | Inr s \<Rightarrow> map_sum id (\<lambda>t. s @ ''.'' @ t) (quote d (qs_table source)))
          else quote d (qs_table source)
      | None \<Rightarrow> quote d (qs_table source))"

section \<open>Filters\<close>

fun scalar_string :: "json \<Rightarrow> string" where
  "scalar_string (JString s) = s"
| "scalar_string (JNumber n) = n"
| "scalar_string (JBool b) = (if b then ''true'' else ''false'')"
| "scalar_string _ = []"

text \<open>\<open>bind\<close>: the placeholder of a value that comes after \<open>n\<close> others.\<close>

definition bind :: "dialect \<Rightarrow> nat \<Rightarrow> string" where
  "bind d n = placeholder d (Suc n)"

text \<open>A filter after \<open>n\<close> parameters: its clause and the parameters it adds.\<close>

definition compile_filter :: "dialect \<Rightarrow> query_filter \<Rightarrow> nat \<Rightarrow> (sql_error, string \<times> json list) result" where
  "compile_filter d f n =
     (case quote d (qf_field f) of
        Inl e \<Rightarrow> Inl e
      | Inr field \<Rightarrow>
          (let v = qf_value f; op = qf_operator f
           in if json_is_null v \<and> op \<notin> set [OpEq, OpNotEq, OpIsNull, OpIsNotNull] then Inl NullOperator
              else case op of
                OpEq \<Rightarrow> if json_is_null v then Inr (field @ '' IS NULL'', []) else Inr (field @ '' = '' @ bind d n, [v])
              | OpNotEq \<Rightarrow> if json_is_null v then Inr (field @ '' IS NOT NULL'', []) else Inr (field @ '' <> '' @ bind d n, [v])
              | OpGreaterThan \<Rightarrow> Inr (field @ '' > '' @ bind d n, [v])
              | OpGreaterOrEqual \<Rightarrow> Inr (field @ '' >= '' @ bind d n, [v])
              | OpLessThan \<Rightarrow> Inr (field @ '' < '' @ bind d n, [v])
              | OpLessOrEqual \<Rightarrow> Inr (field @ '' <= '' @ bind d n, [v])
              | OpContains \<Rightarrow>
                  Inr (field @ '' '' @ like_keyword d @ '' '' @ bind d n, [JString (''%'' @ scalar_string v @ ''%'')])
              | OpStartsWith \<Rightarrow>
                  Inr (field @ '' '' @ like_keyword d @ '' '' @ bind d n, [JString (scalar_string v @ ''%'')])
              | OpIn \<Rightarrow>
                  (case v of
                     JArray items \<Rightarrow>
                       if items = [] then Inl InEmpty
                       else if list_ex json_is_null items then Inl InWithNull
                       else Inr (field @ '' IN ('' @ join_with '', '' (map (bind d) [n..<n + length items]) @ '')'', items)
                   | _ \<Rightarrow> Inl InWithoutList)
              | OpIsNull \<Rightarrow> Inr (field @ '' IS NULL'', [])
              | OpIsNotNull \<Rightarrow> Inr (field @ '' IS NOT NULL'', [])))"

fun compile_filters :: "dialect \<Rightarrow> query_filter list \<Rightarrow> nat \<Rightarrow> (sql_error, string list \<times> json list) result" where
  "compile_filters d [] n = Inr ([], [])"
| "compile_filters d (f # fs) n =
     (case compile_filter d f n of
        Inl e \<Rightarrow> Inl e
      | Inr (clause, vs) \<Rightarrow>
          map_sum id (\<lambda>(clauses, ws). (clause # clauses, vs @ ws)) (compile_filters d fs (n + length vs)))"

section \<open>Statements\<close>

fun join_keyword :: "join_kind \<Rightarrow> string" where
  "join_keyword JoinInner = ''INNER JOIN''"
| "join_keyword JoinLeft = ''LEFT JOIN''"
| "join_keyword JoinRight = ''RIGHT JOIN''"
| "join_keyword JoinFull = ''FULL JOIN''"

definition compile_join :: "dialect \<Rightarrow> query_join \<Rightarrow> (sql_error, string) result" where
  "compile_join d j =
     (case quote_source d (qj_source j) of
        Inl e \<Rightarrow> Inl e
      | Inr target \<Rightarrow>
          (case quote d (qj_left j) of
             Inl e \<Rightarrow> Inl e
           | Inr left \<Rightarrow>
               map_sum id (\<lambda>right. '' '' @ join_keyword (qj_kind j) @ '' '' @ target @ '' ON '' @ left @ '' = '' @ right)
                 (quote d (qj_right j))))"

definition compile_order :: "dialect \<Rightarrow> query_order \<Rightarrow> (sql_error, string) result" where
  "compile_order d order =
     map_sum id (\<lambda>field. field @ '' '' @ (case qo_direction order of SortAsc \<Rightarrow> ''ASC'' | SortDesc \<Rightarrow> ''DESC''))
       (quote d (qo_field order))"

definition compile_top :: "dialect \<Rightarrow> nat option \<Rightarrow> string" where
  "compile_top d limit =
     (case limit of Some n \<Rightarrow> if d = SqlServer then ''TOP ('' @ show_nat n @ '') '' else [] | None \<Rightarrow> [])"

definition compile_limit :: "dialect \<Rightarrow> nat option \<Rightarrow> string" where
  "compile_limit d limit =
     (case limit of Some n \<Rightarrow> if d = SqlServer then [] else '' LIMIT '' @ show_nat n | None \<Rightarrow> [])"

definition compile :: "query_spec \<Rightarrow> dialect \<Rightarrow> (sql_error, compiled_query) result" where
  "compile spec d =
     (if qp_columns spec = [] then Inl NoColumns
      else case traverse (quote d) (qp_columns spec) of
        Inl e \<Rightarrow> Inl e
      | Inr columns \<Rightarrow>
      (case quote_source d (qp_source spec) of
        Inl e \<Rightarrow> Inl e
      | Inr source \<Rightarrow>
      (case traverse (compile_join d) (qp_joins spec) of
        Inl e \<Rightarrow> Inl e
      | Inr joins \<Rightarrow>
      (case compile_filters d (qp_filters spec) 0 of
        Inl e \<Rightarrow> Inl e
      | Inr (clauses, parameters) \<Rightarrow>
      (case traverse (quote d) (qp_group_by spec) of
        Inl e \<Rightarrow> Inl e
      | Inr groups \<Rightarrow>
      (case traverse (compile_order d) (qp_order_by spec) of
        Inl e \<Rightarrow> Inl e
      | Inr order \<Rightarrow>
          Inr \<lparr> cq_statement =
                  ''SELECT '' @ compile_top d (qp_limit spec) @ join_with '', '' columns @ '' FROM '' @ source @ concat joins @
                  (if clauses = [] then [] else '' WHERE '' @ join_with '' AND '' clauses) @
                  (if groups = [] then [] else '' GROUP BY '' @ join_with '', '' groups) @
                  (if order = [] then [] else '' ORDER BY '' @ join_with '', '' order) @
                  compile_limit d (qp_limit spec),
                cq_parameters = parameters \<rparr>))))))"

section \<open>What is accepted\<close>

text \<open>The identifiers and filters that compile, whatever the dialect.\<close>

definition identifier_ok :: "string \<Rightarrow> bool" where
  "identifier_ok i \<longleftrightarrow> (\<forall>s\<in>set (split_on CHR ''.'' i). trim s = ''*'' \<or> is_valid_identifier (trim s))"

definition source_ok :: "query_source \<Rightarrow> bool" where
  "source_ok source \<longleftrightarrow> identifier_ok (qs_table source) \<and>
     (\<forall>schema. qs_schema source = Some schema \<longrightarrow> trim schema \<noteq> [] \<longrightarrow> identifier_ok schema)"

fun value_ok :: "filter_operator \<Rightarrow> json \<Rightarrow> bool" where
  "value_ok OpIn v = (\<exists>items. v = JArray items \<and> items \<noteq> [] \<and> \<not> list_ex json_is_null items)"
| "value_ok op v = (json_is_null v \<longrightarrow> op \<in> {OpEq, OpNotEq, OpIsNull, OpIsNotNull})"

definition filter_ok :: "query_filter \<Rightarrow> bool" where
  "filter_ok f \<longleftrightarrow> identifier_ok (qf_field f) \<and> value_ok (qf_operator f) (qf_value f)"

definition spec_ok :: "query_spec \<Rightarrow> bool" where
  "spec_ok spec \<longleftrightarrow>
     qp_columns spec \<noteq> [] \<and> list_all identifier_ok (qp_columns spec) \<and> source_ok (qp_source spec) \<and>
     list_all (\<lambda>j. source_ok (qj_source j) \<and> identifier_ok (qj_left j) \<and> identifier_ok (qj_right j)) (qp_joins spec) \<and>
     list_all filter_ok (qp_filters spec) \<and> list_all identifier_ok (qp_group_by spec) \<and>
     list_all (\<lambda>order. identifier_ok (qo_field order)) (qp_order_by spec)"

named_theorems compiles

lemma map_sum_Inr: "(\<exists>y. map_sum id f r = Inr y) \<longleftrightarrow> (\<exists>y. r = Inr y)"
  by (cases r) simp_all

lemma traverse_Inr: "(\<exists>ys. traverse f xs = Inr ys) \<longleftrightarrow> (\<forall>x\<in>set xs. \<exists>y. f x = Inr y)"
proof (induction xs)
  case (Cons x xs)
  show ?case
  proof (cases "f x")
    case (Inr y)
    then show ?thesis using Cons.IH by (simp add: map_sum_Inr)
  qed simp
qed simp

lemma traverse_nth: "traverse f xs = Inr ys \<Longrightarrow> length ys = length xs \<and> (\<forall>y\<in>set ys. \<exists>x\<in>set xs. f x = Inr y)"
proof (induction xs arbitrary: ys)
  case (Cons x xs)
  then obtain y zs where "f x = Inr y" "traverse f xs = Inr zs" "ys = y # zs"
    by (auto split: sum.splits simp: map_sum_def)
  then show ?case using Cons.IH by auto
qed simp

lemma quote_Inr [compiles]: "(\<exists>s. quote d i = Inr s) \<longleftrightarrow> identifier_ok i"
proof -
  let ?f = "\<lambda>segment. let segment = trim segment
    in if segment = ''*'' then Inr ''*''
       else if \<not> is_valid_identifier segment then Inl (InvalidIdentifier i)
       else Inr (quote_segment d segment)"
  have f: "(\<exists>y. ?f s = Inr y) \<longleftrightarrow> trim s = ''*'' \<or> is_valid_identifier (trim s)" for s
    by (simp add: Let_def)
  have "(\<exists>s. quote d i = Inr s) \<longleftrightarrow> (\<exists>ys. traverse ?f (split_on CHR ''.'' i) = Inr ys)"
  proof (cases "traverse ?f (split_on CHR ''.'' i)")
    case (Inr ys)
    then have "ys \<noteq> []" using traverse_nth [OF Inr] by auto
    then show ?thesis using Inr by (simp add: quote_def)
  qed (simp add: quote_def)
  then show ?thesis unfolding traverse_Inr f identifier_ok_def .
qed

lemma quote_cases: obtains (ok) s where "quote d i = Inr s" "identifier_ok i" | (no) e where "quote d i = Inl e" "\<not> identifier_ok i"
  using quote_Inr [of d i] by (cases "quote d i") auto

lemma quote_source_Inr [compiles]: "(\<exists>s. quote_source d source = Inr s) \<longleftrightarrow> source_ok source"
proof (cases "qs_schema source")
  case None
  then show ?thesis by (simp add: quote_source_def source_ok_def quote_Inr)
next
  case (Some schema)
  show ?thesis
  proof (cases "trim schema = []")
    case True
    then show ?thesis using Some by (simp add: quote_source_def source_ok_def quote_Inr)
  next
    case False
    show ?thesis
      by (rule quote_cases [of d schema]) (use Some False in \<open>auto simp: quote_source_def source_ok_def quote_Inr map_sum_Inr\<close>)
  qed
qed

lemma compile_filter_Inr [compiles]: "(\<exists>r. compile_filter d f n = Inr r) \<longleftrightarrow> filter_ok f"
proof (rule quote_cases [of d "qf_field f"])
  fix s
  assume q: "quote d (qf_field f) = Inr s" "identifier_ok (qf_field f)"
  have "(\<exists>r. compile_filter d f n = Inr r) \<longleftrightarrow> value_ok (qf_operator f) (qf_value f)"
    unfolding compile_filter_def q(1)
    by (cases "qf_operator f"; cases "qf_value f") (simp_all add: Let_def)
  with q(2) show ?thesis by (simp add: filter_ok_def)
qed (simp add: compile_filter_def filter_ok_def)

lemma compile_filters_Inr: "(\<exists>r. compile_filters d fs n = Inr r) \<longleftrightarrow> list_all filter_ok fs"
proof (induction fs arbitrary: n)
  case (Cons f fs)
  show ?case
  proof (cases "compile_filter d f n")
    case (Inl e)
    then show ?thesis using compile_filter_Inr [of d f n] by simp
  next
    case (Inr r)
    obtain clause vs where r: "r = (clause, vs)" by (cases r)
    have "filter_ok f" using compile_filter_Inr [of d f n] Inr by blast
    moreover have "(\<exists>q. map_sum id (\<lambda>(clauses, ws). (clause # clauses, vs @ ws)) (compile_filters d fs (n + length vs)) = Inr q) \<longleftrightarrow>
        list_all filter_ok fs" unfolding map_sum_Inr by (rule Cons.IH)
    ultimately show ?thesis by (simp add: Inr r del: map_sum_Inr split_paired_Ex)
  qed
qed simp

lemma compile_join_Inr [compiles]:
  "(\<exists>s. compile_join d j = Inr s) \<longleftrightarrow> source_ok (qj_source j) \<and> identifier_ok (qj_left j) \<and> identifier_ok (qj_right j)"
proof (cases "quote_source d (qj_source j)")
  case (Inl e)
  then show ?thesis using quote_source_Inr [of d "qj_source j"] by (simp add: compile_join_def)
next
  case (Inr s)
  have s: "source_ok (qj_source j)" using quote_source_Inr [of d "qj_source j"] Inr by blast
  show ?thesis
    by (rule quote_cases [of d "qj_left j"]) (use s Inr in \<open>simp_all add: compile_join_def map_sum_Inr quote_Inr\<close>)
qed

lemma compile_order_Inr [compiles]: "(\<exists>s. compile_order d order = Inr s) \<longleftrightarrow> identifier_ok (qo_field order)"
  by (simp add: compile_order_def map_sum_Inr quote_Inr)

lemma compile_parts:
  assumes "compile spec d = Inr c"
  obtains columns source joins clauses groups order where
    "qp_columns spec \<noteq> []" "traverse (quote d) (qp_columns spec) = Inr columns" "quote_source d (qp_source spec) = Inr source"
    "traverse (compile_join d) (qp_joins spec) = Inr joins" "compile_filters d (qp_filters spec) 0 = Inr (clauses, cq_parameters c)"
    "traverse (quote d) (qp_group_by spec) = Inr groups" "traverse (compile_order d) (qp_order_by spec) = Inr order"
    "cq_statement c = ''SELECT '' @ compile_top d (qp_limit spec) @ join_with '', '' columns @ '' FROM '' @ source @ concat joins @
       (if clauses = [] then [] else '' WHERE '' @ join_with '' AND '' clauses) @
       (if groups = [] then [] else '' GROUP BY '' @ join_with '', '' groups) @
       (if order = [] then [] else '' ORDER BY '' @ join_with '', '' order) @ compile_limit d (qp_limit spec)"
  using assms that by (auto simp: compile_def split: if_splits sum.splits)

lemma compile_spec_ok: "(\<exists>c. compile spec d = Inr c) \<longleftrightarrow> spec_ok spec"
proof
  assume "\<exists>c. compile spec d = Inr c"
  then obtain c where "compile spec d = Inr c" by blast
  then show "spec_ok spec"
  proof (cases rule: compile_parts)
    case (1 columns source joins clauses groups order)
    from 1(2,4,6,7) have "\<forall>x\<in>set (qp_columns spec). \<exists>y. quote d x = Inr y" "\<forall>x\<in>set (qp_joins spec). \<exists>y. compile_join d x = Inr y"
      "\<forall>x\<in>set (qp_group_by spec). \<exists>y. quote d x = Inr y" "\<forall>x\<in>set (qp_order_by spec). \<exists>y. compile_order d x = Inr y"
      unfolding traverse_Inr [symmetric] by blast+
    moreover have "source_ok (qp_source spec)" using 1(3) quote_source_Inr by blast
    moreover have "list_all filter_ok (qp_filters spec)" using 1(5) compile_filters_Inr by blast
    ultimately show ?thesis using 1(1) by (simp add: spec_ok_def compiles list_all_iff)
  qed
next
  assume ok: "spec_ok spec"
  then have "\<exists>ys. traverse (quote d) (qp_columns spec) = Inr ys" "\<exists>ys. traverse (compile_join d) (qp_joins spec) = Inr ys"
    "\<exists>ys. traverse (quote d) (qp_group_by spec) = Inr ys" "\<exists>ys. traverse (compile_order d) (qp_order_by spec) = Inr ys"
    by (simp_all add: spec_ok_def traverse_Inr compiles list_all_iff)
  moreover have "\<exists>s. quote_source d (qp_source spec) = Inr s" using ok by (simp add: spec_ok_def compiles)
  moreover have "\<exists>clauses vs. compile_filters d (qp_filters spec) 0 = Inr (clauses, vs)"
    using ok compile_filters_Inr [of d "qp_filters spec" 0] by (simp add: spec_ok_def)
  ultimately show "\<exists>c. compile spec d = Inr c" using ok by (auto simp: compile_def spec_ok_def)
qed

text \<open>
  C32. A query compiles exactly when it has a column, every identifier in it is one or more
  names (or \<open>*\<close>) separated by dots, and every filter has a value that its operator takes; the
  dialect does not matter.
\<close>

theorem compile_succeeds_iff: "(\<exists>c. compile spec d = Inr c) \<longleftrightarrow> spec_ok spec"
  by (rule compile_spec_ok)

section \<open>What reaches the statement\<close>

text \<open>The characters of names, of the fixed text and of placeholders; the quotes of the dialect.\<close>

definition plain_char :: "char \<Rightarrow> bool" where
  "plain_char c \<longleftrightarrow> is_ascii_alphanumeric c \<or> c \<in> set ''_$ .,*=<>()''"

fun dialect_chars :: "dialect \<Rightarrow> char set" where
  "dialect_chars Postgres = {CHR 0x22}"
| "dialect_chars MySql = {CHR 0x60, CHR ''?''}"
| "dialect_chars SqlServer = {CHR ''['', CHR '']'', CHR ''@''}"

definition statement_char :: "dialect \<Rightarrow> char \<Rightarrow> bool" where
  "statement_char d c \<longleftrightarrow> plain_char c \<or> c \<in> dialect_chars d"

definition clean :: "dialect \<Rightarrow> string \<Rightarrow> bool" where
  "clean d s \<longleftrightarrow> list_all (statement_char d) s"

lemma clean_Nil [simp]: "clean d []" by (simp add: clean_def)

lemma clean_Cons [simp]: "clean d (c # s) \<longleftrightarrow> statement_char d c \<and> clean d s" by (simp add: clean_def)

lemma clean_append [simp]: "clean d (s @ t) \<longleftrightarrow> clean d s \<and> clean d t" by (simp add: clean_def)

lemma clean_concat [simp]: "clean d (concat ss) \<longleftrightarrow> list_all (clean d) ss" by (induction ss) simp_all

lemma clean_plain: "list_all plain_char s \<Longrightarrow> clean d s" by (auto simp: clean_def statement_char_def list_all_iff)

lemma clean_join: "clean d sep \<Longrightarrow> list_all (clean d) ss \<Longrightarrow> clean d (join_with sep ss)"
  by (induction sep ss rule: join_with.induct) simp_all

lemma clean_show_nat: "clean d (show_nat n)"
proof (rule clean_plain)
  show "list_all plain_char (show_nat n)"
    using show_nat_props [of n] by (auto simp: plain_char_def is_ascii_alphanumeric_def list_all_iff)
qed

lemma clean_placeholder: "clean d (placeholder d n)"
proof -
  have "plain_char CHR ''$''" "plain_char CHR ''P''"
    by (simp_all add: plain_char_def is_ascii_alphanumeric_def is_ascii_alphabetic_def)
  then have "statement_char d CHR ''$''" "statement_char d CHR ''P''" by (simp_all add: statement_char_def)
  then show ?thesis using clean_show_nat by (cases d) (simp_all add: clean_def statement_char_def)
qed

lemma clean_identifier: "is_valid_identifier s \<Longrightarrow> clean d (quote_segment d s)"
proof -
  assume "is_valid_identifier s"
  then have "list_all plain_char s"
    by (auto simp: is_valid_identifier_def plain_char_def is_ascii_alphanumeric_def list_all_iff split: list.splits)
  then have "clean d s" by (rule clean_plain)
  then show ?thesis by (cases d) (simp_all add: clean_def statement_char_def)
qed

lemmas char_tests = statement_char_def plain_char_def is_ascii_alphanumeric_def is_ascii_alphabetic_def

lemma clean_words [simp]: "clean d (join_keyword k)" "clean d (like_keyword d')"
  by (cases k; simp add: char_tests) (cases d'; simp add: char_tests)

lemma clean_quote: "quote d i = Inr s \<Longrightarrow> clean d s"
proof -
  assume q: "quote d i = Inr s"
  let ?f = "\<lambda>segment. let segment = trim segment
    in if segment = ''*'' then Inr ''*''
       else if \<not> is_valid_identifier segment then Inl (InvalidIdentifier i)
       else Inr (quote_segment d segment)"
  from q obtain parts where p: "traverse ?f (split_on CHR ''.'' i) = Inr parts" "s = join_with ''.'' parts"
    by (auto simp: quote_def split: sum.splits if_splits)
  have "clean d ''*''" by (simp add: char_tests)
  then have "clean d y" if "?f x = Inr y" for x y
    using that clean_identifier [of "trim x" d] by (cases "trim x = ''*''") (auto simp: Let_def split: if_splits)
  then have "list_all (clean d) parts" using traverse_nth [OF p(1)] by (fastforce simp: list_all_iff)
  then show ?thesis unfolding p(2) by (intro clean_join) (simp_all add: char_tests)
qed

lemma clean_source: "quote_source d source = Inr s \<Longrightarrow> clean d s"
  using clean_quote by (auto simp: quote_source_def map_sum_def char_tests split: option.splits if_splits sum.splits)

lemma clean_filter: "compile_filter d f n = Inr (clause, vs) \<Longrightarrow> clean d clause"
proof -
  assume c: "compile_filter d f n = Inr (clause, vs)"
  then obtain field where q: "quote d (qf_field f) = Inr field" by (auto simp: compile_filter_def split: sum.splits)
  have b: "clean d (bind d m)" for m by (simp add: bind_def clean_placeholder)
  have "clean d (join_with '', '' (map (bind d) ms))" for ms
    by (intro clean_join) (simp_all add: list_all_iff b char_tests)
  with b clean_quote [OF q] c show ?thesis
    unfolding compile_filter_def q Let_def sum.case
    by (cases "qf_operator f") (auto simp: char_tests split: if_splits json.splits)
qed

lemma clean_filters: "compile_filters d fs n = Inr (clauses, vs) \<Longrightarrow> list_all (clean d) clauses"
proof (induction fs arbitrary: n clauses vs)
  case (Cons f fs)
  then obtain clause us where f: "compile_filter d f n = Inr (clause, us)" by (auto split: sum.splits)
  with Cons.prems obtain rest ws where "compile_filters d fs (n + length us) = Inr (rest, ws)" "clauses = clause # rest"
    by (auto simp: map_sum_def split: sum.splits)
  then show ?case using Cons.IH clean_filter [OF f] by simp
qed simp

lemma clean_traverse:
  assumes "traverse f xs = Inr ys" "\<And>x y. f x = Inr y \<Longrightarrow> clean d y"
  shows "list_all (clean d) ys"
  using traverse_nth [OF assms(1)] assms(2) by (auto simp: list_all_iff)

lemma clean_order: "compile_order d order = Inr s \<Longrightarrow> clean d s"
  using clean_quote by (auto simp: compile_order_def map_sum_def char_tests split: sum.splits sort_direction.splits)

lemma clean_join_clause: "compile_join d j = Inr s \<Longrightarrow> clean d s"
  using clean_quote clean_source by (auto simp: compile_join_def map_sum_def char_tests split: sum.splits)

text \<open>
  C33. A compiled statement is made of letters, digits, \<open>_\<close>, \<open>$\<close>, blanks, the punctuation
  \<open>.,*=<>()\<close> and the quotes and placeholder characters of its dialect: no string quote, no
  semicolon, no comment and no backslash can reach it, whatever the caller sends.
\<close>

theorem statement_is_clean:
  assumes "compile spec d = Inr c"
  shows "list_all (statement_char d) (cq_statement c) \<and>
    set (cq_statement c) \<inter> {CHR '';'', CHR ''-'', CHR ''/'', CHR ''#'', CHR 0x27, CHR 0x5C, CHR 0x0A} = {}"
  using assms
proof (cases rule: compile_parts)
  case (1 columns source joins clauses groups order)
  have "list_all (clean d) columns" using 1(2) by (rule clean_traverse) (rule clean_quote)
  moreover have "list_all (clean d) groups" using 1(6) by (rule clean_traverse) (rule clean_quote)
  moreover have "list_all (clean d) joins" using 1(4) by (rule clean_traverse) (rule clean_join_clause)
  moreover have "list_all (clean d) order" using 1(7) by (rule clean_traverse) (rule clean_order)
  moreover have "clean d (compile_top d (qp_limit spec))" "clean d (compile_limit d (qp_limit spec))"
    by (simp_all add: compile_top_def compile_limit_def clean_show_nat char_tests split: option.split)
  moreover have "clean d (join_with sep ss)" if "sep \<in> set ['', '', '' AND '']" "list_all (clean d) ss" for sep ss
    using that by (intro clean_join) (auto simp: char_tests)
  ultimately have all: "clean d (cq_statement c)"
    using clean_filters [OF 1(5)] clean_source [OF 1(3)] unfolding 1(8) by (simp add: char_tests)
  have "\<not> statement_char d ch" if "ch \<in> {CHR '';'', CHR ''-'', CHR ''/'', CHR ''#'', CHR 0x27, CHR 0x5C, CHR 0x0A}" for ch
    using that by (cases d) (auto simp: char_tests is_ascii_digit_def)
  with all show ?thesis unfolding clean_def list_all_iff by blast
qed

definition example_query :: "json \<Rightarrow> query_spec" where
  "example_query v =
     \<lparr> qp_source = \<lparr> qs_schema = Some ''public'', qs_table = ''orders'' \<rparr>, qp_columns = [''id'', ''total''], qp_joins = [],
       qp_filters = [\<lparr> qf_field = ''total'', qf_operator = OpGreaterThan, qf_value = v \<rparr>], qp_group_by = [],
       qp_order_by = [\<lparr> qo_field = ''id'', qo_direction = SortDesc \<rparr>], qp_limit = Some 5 \<rparr>"

lemma example_compiled:
  "compile (example_query (JNumber ''100'')) Postgres = Inr
     \<lparr> cq_statement = ''SELECT '' @ quote_segment Postgres ''id'' @ '', '' @ quote_segment Postgres ''total'' @ '' FROM '' @
         quote_segment Postgres ''public'' @ ''.'' @ quote_segment Postgres ''orders'' @ '' WHERE '' @
         quote_segment Postgres ''total'' @ '' > $1 ORDER BY '' @ quote_segment Postgres ''id'' @ '' DESC LIMIT 5'',
       cq_parameters = [JNumber ''100''] \<rparr>"
proof -
  have trim: "trim ''id'' = ''id''" "trim ''total'' = ''total''" "trim ''public'' = ''public''" "trim ''orders'' = ''orders''"
    unfolding trim_def by (simp_all add: trim_start_noop trim_end_noop white_space_def starts_with_def)
  have names: "is_valid_identifier ''id''" "is_valid_identifier ''total''" "is_valid_identifier ''public''" "is_valid_identifier ''orders''"
    by (simp_all add: is_valid_identifier_def char_tests)
  have "quote Postgres ''id'' = Inr (quote_segment Postgres ''id'')" "quote Postgres ''total'' = Inr (quote_segment Postgres ''total'')"
    "quote Postgres ''public'' = Inr (quote_segment Postgres ''public'')" "quote Postgres ''orders'' = Inr (quote_segment Postgres ''orders'')"
    by (simp_all add: quote_def trim names)
  moreover have "show_nat 1 = ''1''" "show_nat 5 = ''5''" by code_simp+
  ultimately show ?thesis
    by (simp add: compile_def example_query_def compile_top_def compile_limit_def quote_source_def trim compile_filter_def
        compile_order_def bind_def)
qed

lemma statement_is_clean_witness:
  "\<exists>c. compile (example_query (JNumber ''100'')) Postgres = Inr c \<and> CHR 0x27 \<notin> set (cq_statement c)"
  using statement_is_clean [OF example_compiled] example_compiled by blast

section \<open>Values are parameters\<close>

text \<open>What a filter is but for its value: whether that is null, a list, and how long.\<close>

fun value_shape :: "filter_operator \<Rightarrow> json \<Rightarrow> bool \<times> (nat \<times> bool) option" where
  "value_shape OpIn (JArray items) = (False, Some (length items, list_ex json_is_null items))"
| "value_shape op v = (json_is_null v, None)"

definition filter_shape :: "query_filter \<Rightarrow> string \<times> filter_operator \<times> bool \<times> (nat \<times> bool) option" where
  "filter_shape f = (qf_field f, qf_operator f, value_shape (qf_operator f) (qf_value f))"

lemma compile_filter_shape:
  assumes "filter_shape f = filter_shape g"
  shows "map_sum id (map_prod id length) (compile_filter d f n) = map_sum id (map_prod id length) (compile_filter d g n)"
proof -
  have same: "qf_field f = qf_field g" "qf_operator f = qf_operator g"
    "value_shape (qf_operator g) (qf_value f) = value_shape (qf_operator g) (qf_value g)"
    using assms unfolding filter_shape_def by auto
  show ?thesis
  proof (cases "quote d (qf_field g)")
    case (Inl e)
    then show ?thesis by (simp add: compile_filter_def same)
  next
    case (Inr field)
    show ?thesis using same(3) unfolding compile_filter_def same(1,2) Inr sum.case Let_def
      by (cases "qf_operator g"; cases "qf_value f"; cases "qf_value g") auto
  qed
qed

lemma compile_filters_shape:
  assumes "map filter_shape fs = map filter_shape gs"
  shows "map_sum id (map_prod id length) (compile_filters d fs n) = map_sum id (map_prod id length) (compile_filters d gs n)"
  using assms
proof (induction fs arbitrary: gs n)
  case Nil
  then show ?case by simp
next
  case (Cons f fs)
  then obtain g hs where g: "gs = g # hs" "filter_shape f = filter_shape g" "map filter_shape fs = map filter_shape hs" by auto
  note one = compile_filter_shape [OF g(2), of d n]
  show ?case
  proof (cases "compile_filter d f n")
    case (Inl e)
    with one show ?thesis by (cases "compile_filter d g n") (simp_all add: g(1))
  next
    case (Inr r)
    with one obtain clause vs ws where r: "compile_filter d f n = Inr (clause, vs)" "compile_filter d g n = Inr (clause, ws)"
      "length vs = length ws"
      by (cases "compile_filter d g n"; cases r) auto
    note rest = Cons.IH [OF g(3), of "n + length ws"]
    show ?thesis
      using rest r(3)
      by (cases "compile_filters d fs (n + length ws)"; cases "compile_filters d hs (n + length ws)")
        (auto simp: g(1) r split: prod.splits)
  qed
qed

text \<open>
  C34. The statement, and whether there is one, does not depend on the values of the filters: two
  queries that differ only in them, for the same operators, compile to the same text, and to as
  many parameters.
\<close>

theorem values_stay_out_of_statement:
  assumes "map filter_shape (qp_filters spec) = map filter_shape fs"
  shows "map_sum id (\<lambda>c. (cq_statement c, length (cq_parameters c))) (compile (spec\<lparr>qp_filters := fs\<rparr>) d) =
    map_sum id (\<lambda>c. (cq_statement c, length (cq_parameters c))) (compile spec d)"
proof -
  note same = compile_filters_shape [OF assms, of d 0]
  show ?thesis
  proof (cases "compile_filters d (qp_filters spec) 0")
    case (Inl e)
    with same have "compile_filters d fs 0 = Inl e" by (cases "compile_filters d fs 0") auto
    with Inl show ?thesis by (simp add: compile_def split: sum.split)
  next
    case (Inr r)
    with same obtain clauses vs ws where "compile_filters d (qp_filters spec) 0 = Inr (clauses, vs)"
      "compile_filters d fs 0 = Inr (clauses, ws)" "length vs = length ws"
      by (cases "compile_filters d fs 0"; cases r) auto
    then show ?thesis by (simp add: compile_def split: sum.split)
  qed
qed

lemma values_stay_out_of_statement_witness:
  "map_sum id (\<lambda>c. (cq_statement c, length (cq_parameters c))) (compile (example_query (JString ''1; DROP TABLE x'')) MySql) =
   map_sum id (\<lambda>c. (cq_statement c, length (cq_parameters c))) (compile (example_query (JNumber ''100'')) MySql)"
proof -
  have "map filter_shape (qp_filters (example_query (JNumber ''100''))) =
      map filter_shape (qp_filters (example_query (JString ''1; DROP TABLE x'')))"
    by (simp add: example_query_def filter_shape_def)
  from values_stay_out_of_statement [OF this, of MySql] show ?thesis by (simp add: example_query_def)
qed

section \<open>Placeholders and parameters\<close>

text \<open>The character that only placeholders contain, in the dialects that have one.\<close>

fun marker :: "dialect \<Rightarrow> char" where
  "marker SqlServer = CHR ''@''"
| "marker _ = CHR ''?''"

definition marks :: "dialect \<Rightarrow> string \<Rightarrow> nat" where
  "marks d s = count_list s (marker d)"

lemma marker_not_plain: "\<not> plain_char (marker d)"
  by (cases d) (simp_all add: char_tests is_ascii_digit_def)

lemma marks_simps [simp]:
  "marks d [] = 0" "marks d (s @ t) = marks d s + marks d t" "plain_char c \<Longrightarrow> marks d (c # s) = marks d s"
  using marker_not_plain [of d] by (auto simp: marks_def)

lemma marks_zero: "list_all plain_char s \<Longrightarrow> marks d s = 0"
  by (induction s) simp_all

lemma marks_join: "marks d sep = 0 \<Longrightarrow> marks d (join_with sep ss) = (\<Sum>s\<leftarrow>ss. marks d s)"
  by (induction sep ss rule: join_with.induct) simp_all

lemma marks_join_zero: "marks d sep = 0 \<Longrightarrow> \<forall>s\<in>set ss. marks d s = 0 \<Longrightarrow> marks d (join_with sep ss) = 0"
  by (induction sep ss rule: join_with.induct) simp_all

lemma marks_concat_zero: "\<forall>s\<in>set ss. marks d s = 0 \<Longrightarrow> marks d (concat ss) = 0"
  by (induction ss) simp_all

lemma marks_traverse:
  assumes "traverse f xs = Inr ys" "\<And>x y. f x = Inr y \<Longrightarrow> marks d y = 0"
  shows "\<forall>s\<in>set ys. marks d s = 0"
  using traverse_nth [OF assms(1)] assms(2) by blast

lemma marks_segment: "is_valid_identifier s \<Longrightarrow> marks d (quote_segment d s) = 0"
proof -
  assume "is_valid_identifier s"
  then have "list_all plain_char s"
    by (auto simp: is_valid_identifier_def plain_char_def is_ascii_alphanumeric_def list_all_iff split: list.splits)
  from marks_zero [OF this, of d] show ?thesis by (cases d) (simp_all add: marks_def)
qed

lemma marks_quote: "quote d i = Inr s \<Longrightarrow> marks d s = 0"
proof -
  assume q: "quote d i = Inr s"
  let ?f = "\<lambda>segment. let segment = trim segment
    in if segment = ''*'' then Inr ''*''
       else if \<not> is_valid_identifier segment then Inl (InvalidIdentifier i)
       else Inr (quote_segment d segment)"
  from q obtain parts where p: "traverse ?f (split_on CHR ''.'' i) = Inr parts" "s = join_with ''.'' parts"
    by (auto simp: quote_def split: sum.splits if_splits)
  have star: "marks d ''*'' = 0" "marks d ''.'' = 0" by (simp_all add: char_tests)
  have "\<forall>s\<in>set parts. marks d s = 0" using p(1)
  proof (rule marks_traverse)
    show "marks d y = 0" if "?f x = Inr y" for x y
      using that star marks_segment [of "trim x" d] by (cases "trim x = ''*''") (auto simp: Let_def split: if_splits)
  qed
  then show ?thesis unfolding p(2) by (rule marks_join_zero [OF star(2)])
qed

lemma marks_source: "quote_source d source = Inr s \<Longrightarrow> marks d s = 0"
  using marks_quote [of d] by (auto simp: quote_source_def map_sum_def char_tests split: option.splits if_splits sum.splits)

lemma marks_show_nat [simp]: "marks d (show_nat n) = 0"
  using show_nat_props [of n]
  by (intro marks_zero) (auto simp: plain_char_def is_ascii_alphanumeric_def list_all_iff)

lemma marks_bind: "d \<noteq> Postgres \<Longrightarrow> marks d (bind d n) = 1"
  using marks_show_nat [of d "Suc n"] by (cases d) (simp_all add: bind_def marks_def)

lemma marks_words [simp]: "marks d (join_keyword k) = 0" "marks d (like_keyword d') = 0"
  by (cases k; simp add: char_tests) (cases d'; simp add: char_tests)

lemma marks_clause:
  assumes "d \<noteq> Postgres" "compile_filter d f n = Inr (clause, vs)"
  shows "marks d clause = length vs"
proof -
  obtain field where q: "quote d (qf_field f) = Inr field"
    using assms(2) by (auto simp: compile_filter_def split: sum.splits)
  note zero = marks_quote [OF q] and one = marks_bind [OF assms(1)]
  have sep: "marks d '', '' = 0" by (simp add: char_tests)
  have list: "marks d (join_with '', '' (map (bind d) [n..<n + m])) = m" for m
    unfolding marks_join [OF sep] map_map comp_def one by (simp add: sum_list_triv)
  from assms(2) show ?thesis
    unfolding compile_filter_def q Let_def sum.case
    by (cases "qf_operator f") (use zero one list in \<open>auto simp: char_tests split: if_splits json.splits\<close>)
qed

lemma marks_clauses:
  assumes "d \<noteq> Postgres"
  shows "compile_filters d fs n = Inr (clauses, vs) \<Longrightarrow> (\<Sum>s\<leftarrow>clauses. marks d s) = length vs"
proof (induction fs arbitrary: n clauses vs)
  case (Cons f fs)
  then obtain clause us where f: "compile_filter d f n = Inr (clause, us)" by (auto split: sum.splits)
  with Cons.prems obtain rest ws where r: "compile_filters d fs (n + length us) = Inr (rest, ws)" "clauses = clause # rest" "vs = us @ ws"
    by (auto simp: map_sum_def split: sum.splits)
  then show ?case using Cons.IH marks_clause [OF assms f] by simp
qed simp

lemma marks_rest:
  "compile_join d j = Inr s \<Longrightarrow> marks d s = 0" "compile_order d order = Inr s \<Longrightarrow> marks d s = 0"
  "marks d (compile_top d limit) = 0" "marks d (compile_limit d limit) = 0"
proof -
  show "marks d s = 0" if "compile_join d j = Inr s"
    using that marks_quote [of d] marks_source [of d]
    by (auto simp: compile_join_def map_sum_def char_tests split: sum.splits)
  show "marks d s = 0" if "compile_order d order = Inr s"
    using that marks_quote [of d] by (auto simp: compile_order_def map_sum_def char_tests split: sum.splits sort_direction.splits)
  show "marks d (compile_top d limit) = 0" "marks d (compile_limit d limit) = 0"
    by (simp_all add: compile_top_def compile_limit_def char_tests split: option.split)
qed

text \<open>
  For MySQL and SQL Server the statement has exactly as many placeholders as there are
  parameters, so every value that is bound has its place, and no other.
\<close>

theorem placeholders_match_parameters:
  assumes "compile spec d = Inr c" "d \<noteq> Postgres"
  shows "marks d (cq_statement c) = length (cq_parameters c)"
  using assms(1)
proof (cases rule: compile_parts)
  case (1 columns source joins clauses groups order)
  have zero: "marks d sep = 0" if "sep \<in> {'', '', '' AND ''}" for sep using that by (auto simp: char_tests)
  have "marks d (join_with '', '' columns) = 0"
    by (rule marks_join_zero [OF zero marks_traverse [OF 1(2)]]) (simp_all add: marks_quote)
  moreover have "marks d (join_with '', '' groups) = 0"
    by (rule marks_join_zero [OF zero marks_traverse [OF 1(6)]]) (simp_all add: marks_quote)
  moreover have "marks d (join_with '', '' order) = 0"
    by (rule marks_join_zero [OF zero marks_traverse [OF 1(7)]]) (simp_all add: marks_rest)
  moreover have "marks d (concat joins) = 0"
    by (rule marks_concat_zero [OF marks_traverse [OF 1(4)]]) (simp add: marks_rest)
  moreover have "marks d (join_with '' AND '' clauses) = length (cq_parameters c)"
    using marks_join [OF zero, of "'' AND ''" clauses] marks_clauses [OF assms(2) 1(5)] by simp
  moreover have "clauses = [] \<Longrightarrow> cq_parameters c = []" using marks_clauses [OF assms(2) 1(5)] by simp
  ultimately show ?thesis
    using marks_source [OF 1(3)] unfolding 1(8) by (simp add: marks_rest char_tests)
qed

lemma placeholders_match_parameters_witness:
  "\<exists>c. compile (example_query (JNumber ''100'')) MySql = Inr c \<and> marks MySql (cq_statement c) = length (cq_parameters c)"
proof -
  have "spec_ok (example_query (JNumber ''100''))"
    using compile_spec_ok example_compiled by blast
  then obtain c where "compile (example_query (JNumber ''100'')) MySql = Inr c" using compile_spec_ok by blast
  with placeholders_match_parameters [OF this] show ?thesis by simp
qed

end
