(* ===== verification/Conn_Secrets.thy ===== *)
theory Conn_Secrets
  imports Prelude
begin

text \<open>
  The stores of connection secrets: what the manager relies on (\<open>SecretStore\<close> of
  \<open>crates/jaiba-connection-manager/src/lib.rs\<close>), the store in memory, and the encrypted file
  (\<open>EncryptedFileSecretStore\<close> of \<open>secure.rs\<close>). Key derivation, AES-GCM, Base64, JSON, the random
  source and whether a file can be written are parameters.
\<close>

section \<open>The interface\<close>

record connection_secret =
  se_username :: string
  se_password :: string
  se_options :: "(string \<times> string) list"

datatype secure_store_error =
    SsIo
  | SsCrypto
  | SsKdf string
  | SsWrongKey
  | SsCorrupt string
  | SsUnsupportedVersion nat
  | SsRandom

datatype connection_type =
    CtOracle | CtPostgres | CtSqlServer | CtMySql | CtMariaDb | CtMongoDb | CtClickHouse
  | CtKafka | CtOpcUa | CtRest | CtCustom string

datatype persistence_error =
    PeSecure secure_store_error
  | PeRepository string
  | PeRollback

datatype plugin_error =
    PlConfiguration string
  | PlConnection string
  | PlDiagnostic string
  | PlExploration string
  | PlProcessing string
  | PlUnsupported string

datatype connection_manager_error =
    CmNotFound string
  | CmDuplicateName string
  | CmMissingPlugin connection_type
  | CmSecretUnavailable string
  | CmMetadataTimeout nat
  | CmPersistence persistence_error
  | CmPlugin plugin_error

text \<open>\<open>'w\<close>: what the environment decides of a call that writes.\<close>

record ('s, 'w) secret_ops =
  so_resolve :: "string \<Rightarrow> 's \<Rightarrow> (connection_manager_error, connection_secret) result"
  so_store :: "'w \<Rightarrow> string \<Rightarrow> connection_secret \<Rightarrow> 's \<Rightarrow> (connection_manager_error, unit) result \<times> 's"
  so_remove :: "'w \<Rightarrow> string \<Rightarrow> 's \<Rightarrow> (connection_manager_error, unit) result \<times> 's"

text \<open>What the manager relies on: a call that fails changes nothing.\<close>

locale secret_store =
  fixes ops :: "('s, 'w) secret_ops"
    and inv :: "'s \<Rightarrow> bool"
    and holds :: "'s \<Rightarrow> string \<Rightarrow> connection_secret option"
  assumes resolve: "inv s \<Longrightarrow> so_resolve ops r s = (case holds s r of None \<Rightarrow> Inl (CmSecretUnavailable r) | Some x \<Rightarrow> Inr x)"
    and store: "inv s \<Longrightarrow> so_store ops w r x s = (q, s') \<Longrightarrow>
      inv s' \<and> holds s' = (if q = Inr () then (holds s)(r \<mapsto> x) else holds s)"
    and remove: "inv s \<Longrightarrow> so_remove ops w r s = (q, s') \<Longrightarrow>
      inv s' \<and> holds s' = (if q = Inr () then (holds s)(r := None) else holds s)"
begin

lemma resolve_after_store: "inv s \<Longrightarrow> so_store ops w r x s = (Inr (), s') \<Longrightarrow> so_resolve ops r s' = Inr x"
  using store [of s w r x "Inr ()" s'] resolve [of s' r] by simp

lemma resolve_after_remove: "inv s \<Longrightarrow> so_remove ops w r s = (Inr (), s') \<Longrightarrow> so_resolve ops r s' = Inl (CmSecretUnavailable r)"
  using remove [of s w r "Inr ()" s'] resolve [of s' r] by simp

lemma failed_call:
  "inv s \<Longrightarrow> so_store ops w r x s = (Inl e, s') \<Longrightarrow> holds s' = holds s"
  "inv s \<Longrightarrow> so_remove ops w r s = (Inl e, s') \<Longrightarrow> holds s' = holds s"
  using store [of s w r x "Inl e" s'] remove [of s w r "Inl e" s'] by simp_all

end

section \<open>The store in memory\<close>

type_synonym memory_secrets = "(string \<times> connection_secret) list"

definition in_memory_resolve :: "string \<Rightarrow> memory_secrets \<Rightarrow> (connection_manager_error, connection_secret) result" where
  "in_memory_resolve r s = (case hm_get s r of None \<Rightarrow> Inl (CmSecretUnavailable r) | Some x \<Rightarrow> Inr x)"

definition in_memory_store ::
  "unit \<Rightarrow> string \<Rightarrow> connection_secret \<Rightarrow> memory_secrets \<Rightarrow> (connection_manager_error, unit) result \<times> memory_secrets" where
  "in_memory_store w r x s = (Inr (), hm_insert r x s)"

definition in_memory_remove :: "unit \<Rightarrow> string \<Rightarrow> memory_secrets \<Rightarrow> (connection_manager_error, unit) result \<times> memory_secrets" where
  "in_memory_remove w r s = (Inr (), hm_remove r s)"

definition in_memory_ops :: "(memory_secrets, unit) secret_ops" where
  "in_memory_ops = \<lparr> so_resolve = in_memory_resolve, so_store = in_memory_store, so_remove = in_memory_remove \<rparr>"

interpretation in_memory: secret_store in_memory_ops "\<lambda>_. True" hm_get
  by unfold_locales
    (auto simp: in_memory_ops_def in_memory_resolve_def in_memory_store_def in_memory_remove_def fun_eq_iff)

section \<open>The encrypted file\<close>

record argon2_params =
  ap_m_kib :: nat
  ap_t :: nat
  ap_p :: nat

definition argon2_params_default :: argon2_params where
  "argon2_params_default = \<lparr> ap_m_kib = 19456, ap_t = 2, ap_p = 1 \<rparr>"

record secret_file =
  sf_version :: nat
  sf_key_id :: "string option"
  sf_kdf :: "string option"
  sf_salt :: "string option"
  sf_argon2 :: "argon2_params option"
  sf_verifier :: "string option"
  sf_entries :: "(string \<times> string) list"

text \<open>The libraries. A key is the string of its 32 bytes.\<close>

record crypto =
  cr_argon2 :: "string \<Rightarrow> string \<Rightarrow> argon2_params \<Rightarrow> (string, string) result"
  cr_sha256 :: "string \<Rightarrow> string"
  cr_encrypt :: "string \<Rightarrow> string \<Rightarrow> string \<Rightarrow> string option"
  cr_decrypt :: "string \<Rightarrow> string \<Rightarrow> string \<Rightarrow> string option"
  cr_b64 :: "string \<Rightarrow> string"
  cr_unb64 :: "string \<Rightarrow> string option"
  cr_payload_json :: "connection_secret \<Rightarrow> string"
  cr_payload :: "string \<Rightarrow> connection_secret option"
  cr_file_json :: "secret_file \<Rightarrow> string"
  cr_file :: "string \<Rightarrow> secret_file option"

definition nonce_len :: nat where "nonce_len = 12"
definition salt_len :: nat where "salt_len = 16"
definition kdf_name :: string where "kdf_name = ''argon2id''"
definition verifier_plaintext :: string where "verifier_plaintext = ''jaiba-secret-store-v2''"

definition hex_nibble :: "nat \<Rightarrow> char" where
  "hex_nibble n = ''0123456789abcdef'' ! n"

definition hex_prefix :: "string \<Rightarrow> nat \<Rightarrow> string" where
  "hex_prefix bytes n = concat (map (\<lambda>b. [hex_nibble (of_char b div 16), hex_nibble (of_char b mod 16)]) (take n bytes))"

definition fingerprint :: "crypto \<Rightarrow> string \<Rightarrow> string" where
  "fingerprint C key = hex_prefix (cr_sha256 C key) 8"

definition derive_key_argon2 :: "crypto \<Rightarrow> string \<Rightarrow> string \<Rightarrow> argon2_params \<Rightarrow> (secure_store_error, string) result" where
  "derive_key_argon2 C master_key salt params =
     (case cr_argon2 C master_key salt params of Inl e \<Rightarrow> Inl (SsKdf e) | Inr key \<Rightarrow> Inr key)"

text \<open>\<open>nonce\<close>: the bytes of the random source, when it answers.\<close>

definition encrypt :: "crypto \<Rightarrow> string option \<Rightarrow> string \<Rightarrow> string \<Rightarrow> (secure_store_error, string) result" where
  "encrypt C nonce key plaintext =
     (case nonce of
        None \<Rightarrow> Inl SsRandom
      | Some n \<Rightarrow>
          (case cr_encrypt C key n plaintext of
             None \<Rightarrow> Inl SsCrypto
           | Some ciphertext \<Rightarrow> Inr (cr_b64 C (n @ ciphertext))))"

definition decrypt :: "crypto \<Rightarrow> string \<Rightarrow> string \<Rightarrow> (secure_store_error, string) result" where
  "decrypt C key blob_base64 =
     (case cr_unb64 C blob_base64 of
        None \<Rightarrow> Inl (SsCorrupt ''base64'')
      | Some blob \<Rightarrow>
          if length blob \<le> nonce_len then Inl (SsCorrupt ''bloque cifrado demasiado corto'')
          else (case cr_decrypt C key (take nonce_len blob) (drop nonce_len blob) of
                  None \<Rightarrow> Inl SsCrypto
                | Some plaintext \<Rightarrow> Inr plaintext))"

definition verify_canary :: "crypto \<Rightarrow> string \<Rightarrow> string \<Rightarrow> (secure_store_error, unit) result" where
  "verify_canary C key verifier =
     (case decrypt C key verifier of
        Inl _ \<Rightarrow> Inl SsWrongKey
      | Inr plaintext \<Rightarrow> if plaintext \<noteq> verifier_plaintext then Inl SsWrongKey else Inr ())"

definition make_verifier :: "crypto \<Rightarrow> string option \<Rightarrow> string \<Rightarrow> (secure_store_error, string) result" where
  "make_verifier C nonce key = encrypt C nonce key verifier_plaintext"

record secret_inner =
  in_key :: string
  in_salt :: string
  in_params :: argon2_params
  in_key_id :: string
  in_secrets :: memory_secrets

text \<open>The store and its file: the bytes at its path, \<open>None\<close> when there is none.\<close>

record encrypted_store =
  es_fingerprint :: string
  es_inner :: secret_inner
  es_file :: "string option"

text \<open>
  What the environment decides: the random bytes in the order they are asked for, and whether the
  new file replaces the old one.
\<close>

record secure_call =
  sc_random :: "nat \<Rightarrow> string option"
  sc_written :: bool

text \<open>The entries are encrypted in the order of the hash map and sorted in the file.\<close>

fun encrypt_entries ::
  "crypto \<Rightarrow> (nat \<Rightarrow> string option) \<Rightarrow> nat \<Rightarrow> string \<Rightarrow> memory_secrets \<Rightarrow> (secure_store_error, (string \<times> string) list) result" where
  "encrypt_entries C random n key [] = Inr []"
| "encrypt_entries C random n key ((r, x) # secrets) =
     (case encrypt C (random n) key (cr_payload_json C x) of
        Inl e \<Rightarrow> Inl e
      | Inr blob \<Rightarrow> map_sum id (bt_insert r blob) (encrypt_entries C random (Suc n) key secrets))"

definition write_file_at ::
  "crypto \<Rightarrow> secure_call \<Rightarrow> secret_inner \<Rightarrow> string option \<Rightarrow> (secure_store_error, unit) result \<times> string option" where
  "write_file_at C call inn old =
     (case encrypt_entries C (sc_random call) 0 (in_key inn) (in_secrets inn) of
        Inl e \<Rightarrow> (Inl e, old)
      | Inr entries \<Rightarrow>
          (case make_verifier C (sc_random call (length (in_secrets inn))) (in_key inn) of
             Inl e \<Rightarrow> (Inl e, old)
           | Inr verifier \<Rightarrow>
               if sc_written call
               then (Inr (), Some (cr_file_json C
                 \<lparr> sf_version = 2, sf_key_id = None, sf_kdf = Some kdf_name, sf_salt = Some (cr_b64 C (in_salt inn)),
                   sf_argon2 = Some (in_params inn), sf_verifier = Some verifier, sf_entries = entries \<rparr>))
               else (Inl SsIo, old)))"

section \<open>Opening\<close>

definition store_with :: "crypto \<Rightarrow> string \<Rightarrow> string \<Rightarrow> argon2_params \<Rightarrow> memory_secrets \<Rightarrow> string option \<Rightarrow> encrypted_store" where
  "store_with C key salt params secrets file_content =
     \<lparr> es_fingerprint = fingerprint C key,
       es_inner = \<lparr> in_key = key, in_salt = salt, in_params = params, in_key_id = fingerprint C key, in_secrets = secrets \<rparr>,
       es_file = file_content \<rparr>"

definition create_empty :: "crypto \<Rightarrow> string option \<Rightarrow> string \<Rightarrow> (secure_store_error, encrypted_store) result" where
  "create_empty C salt master_key =
     (case salt of
        None \<Rightarrow> Inl SsRandom
      | Some salt \<Rightarrow>
          map_sum id (\<lambda>key. store_with C key salt argon2_params_default [] None)
            (derive_key_argon2 C master_key salt argon2_params_default))"

text \<open>The secrets of a file, entry by entry in the order of the file.\<close>

fun read_entries :: "crypto \<Rightarrow> string \<Rightarrow> (string \<times> string) list \<Rightarrow> (secure_store_error, memory_secrets) result" where
  "read_entries C key [] = Inr []"
| "read_entries C key ((r, blob) # entries) =
     (case decrypt C key blob of
        Inl _ \<Rightarrow> Inl SsWrongKey
      | Inr plaintext \<Rightarrow>
          (case cr_payload C plaintext of
             None \<Rightarrow> Inl (SsCorrupt ''payload'')
           | Some x \<Rightarrow> map_sum id (\<lambda>m. (r, x) # m) (read_entries C key entries)))"

definition open_v2 :: "crypto \<Rightarrow> string \<Rightarrow> string \<Rightarrow> secret_file \<Rightarrow> (secure_store_error, encrypted_store) result" where
  "open_v2 C raw master_key f =
     (case sf_salt f of
        None \<Rightarrow> Inl (SsCorrupt ''falta salt'')
      | Some salt_b64 \<Rightarrow>
     (case cr_unb64 C salt_b64 of
        None \<Rightarrow> Inl (SsCorrupt ''base64'')
      | Some salt \<Rightarrow>
          if length salt < 8 then Inl (SsCorrupt ''salt demasiado corta'')
          else (let params = (case sf_argon2 f of None \<Rightarrow> argon2_params_default | Some p \<Rightarrow> p)
                in if (case sf_kdf f of None \<Rightarrow> kdf_name | Some k \<Rightarrow> k) \<noteq> kdf_name then Inl (SsCorrupt ''KDF no soportado'')
                   else case derive_key_argon2 C master_key salt params of
                     Inl e \<Rightarrow> Inl e
                   | Inr key \<Rightarrow>
                       (case sf_verifier f of
                          None \<Rightarrow> Inl (SsCorrupt ''falta verifier'')
                        | Some verifier \<Rightarrow>
                            (case verify_canary C key verifier of
                               Inl e \<Rightarrow> Inl e
                             | Inr _ \<Rightarrow>
                                 map_sum id (\<lambda>secrets. store_with C key salt params secrets (Some raw))
                                   (read_entries C key (sf_entries f)))))))"

text \<open>The result of a migration comes with the file: it is written before the store is returned.\<close>

definition open_and_migrate_v1 ::
  "crypto \<Rightarrow> secure_call \<Rightarrow> string option \<Rightarrow> string \<Rightarrow> string \<Rightarrow> secret_file \<Rightarrow> (secure_store_error, encrypted_store) result" where
  "open_and_migrate_v1 C call salt raw master_key f =
     (let key = cr_sha256 C master_key
      in case sf_key_id f of
           None \<Rightarrow> Inl (SsCorrupt ''falta key_id en v1'')
         | Some stored_id \<Rightarrow>
             if stored_id \<noteq> fingerprint C key then Inl SsWrongKey
             else case read_entries C key (sf_entries f) of
               Inl e \<Rightarrow> Inl e
             | Inr secrets \<Rightarrow>
                 (case salt of
                    None \<Rightarrow> Inl SsRandom
                  | Some salt \<Rightarrow>
                      (case derive_key_argon2 C master_key salt argon2_params_default of
                         Inl e \<Rightarrow> Inl e
                       | Inr new_key \<Rightarrow>
                           (let s = store_with C new_key salt argon2_params_default secrets (Some raw)
                            in case write_file_at C call (es_inner s) (Some raw) of
                                 (Inl e, _) \<Rightarrow> Inl e
                               | (Inr _, written) \<Rightarrow> Inr (s\<lparr>es_file := written\<rparr>)))))"

text \<open>\<open>content\<close>: the bytes at the path; \<open>readable\<close>: whether they can be read.\<close>

definition secrets_open ::
  "crypto \<Rightarrow> secure_call \<Rightarrow> string option \<Rightarrow> bool \<Rightarrow> string option \<Rightarrow> string \<Rightarrow> (secure_store_error, encrypted_store) result" where
  "secrets_open C call salt readable content master_key =
     (case content of
        None \<Rightarrow> create_empty C salt master_key
      | Some raw \<Rightarrow>
          if \<not> readable then Inl SsIo
          else case cr_file C raw of
            None \<Rightarrow> Inl (SsCorrupt ''json'')
          | Some f \<Rightarrow>
              if sf_version f = 1 then open_and_migrate_v1 C call salt raw master_key f
              else if sf_version f = 2 then open_v2 C raw master_key f
              else Inl (SsUnsupportedVersion (sf_version f)))"

section \<open>Use\<close>

definition rotate_key ::
  "crypto \<Rightarrow> secure_call \<Rightarrow> string option \<Rightarrow> string \<Rightarrow> encrypted_store \<Rightarrow> (secure_store_error, string) result \<times> encrypted_store" where
  "rotate_key C call salt new_master_key s =
     (case salt of
        None \<Rightarrow> (Inl SsRandom, s)
      | Some new_salt \<Rightarrow>
          (case derive_key_argon2 C new_master_key new_salt argon2_params_default of
             Inl e \<Rightarrow> (Inl e, s)
           | Inr new_key \<Rightarrow>
               (let pending = \<lparr> in_key = new_key, in_salt = new_salt, in_params = argon2_params_default,
                                in_key_id = fingerprint C new_key, in_secrets = in_secrets (es_inner s) \<rparr>
                in case write_file_at C call pending (es_file s) of
                     (Inl e, _) \<Rightarrow> (Inl e, s)
                   | (Inr _, written) \<Rightarrow>
                       (Inr (fingerprint C new_key),
                        s\<lparr>es_inner := pending, es_fingerprint := fingerprint C new_key, es_file := written\<rparr>))))"

definition encrypted_resolve :: "string \<Rightarrow> encrypted_store \<Rightarrow> (connection_manager_error, connection_secret) result" where
  "encrypted_resolve r s =
     (case hm_get (in_secrets (es_inner s)) r of None \<Rightarrow> Inl (CmSecretUnavailable r) | Some x \<Rightarrow> Inr x)"

definition encrypted_store_secret ::
  "crypto \<Rightarrow> secure_call \<Rightarrow> string \<Rightarrow> connection_secret \<Rightarrow> encrypted_store
    \<Rightarrow> (connection_manager_error, unit) result \<times> encrypted_store" where
  "encrypted_store_secret C call r x s =
     (let previous = hm_get (in_secrets (es_inner s)) r;
          inn = (es_inner s)\<lparr>in_secrets := hm_insert r x (in_secrets (es_inner s))\<rparr>
      in case write_file_at C call inn (es_file s) of
           (Inl e, _) \<Rightarrow>
             (Inl (CmPersistence (PeSecure e)),
              s\<lparr>es_inner := inn\<lparr>in_secrets := (case previous of
                 Some p \<Rightarrow> hm_insert r p (in_secrets inn) | None \<Rightarrow> hm_remove r (in_secrets inn))\<rparr>\<rparr>)
         | (Inr _, written) \<Rightarrow> (Inr (), s\<lparr>es_inner := inn, es_file := written\<rparr>))"

definition encrypted_remove_secret ::
  "crypto \<Rightarrow> secure_call \<Rightarrow> string \<Rightarrow> encrypted_store \<Rightarrow> (connection_manager_error, unit) result \<times> encrypted_store" where
  "encrypted_remove_secret C call r s =
     (case hm_get (in_secrets (es_inner s)) r of
        None \<Rightarrow> (Inr (), s)
      | Some previous \<Rightarrow>
          (let inn = (es_inner s)\<lparr>in_secrets := hm_remove r (in_secrets (es_inner s))\<rparr>
           in case write_file_at C call inn (es_file s) of
                (Inl e, _) \<Rightarrow>
                  (Inl (CmPersistence (PeSecure e)), s\<lparr>es_inner := inn\<lparr>in_secrets := hm_insert r previous (in_secrets inn)\<rparr>\<rparr>)
              | (Inr _, written) \<Rightarrow> (Inr (), s\<lparr>es_inner := inn, es_file := written\<rparr>)))"

definition encrypted_ops :: "crypto \<Rightarrow> (encrypted_store, secure_call) secret_ops" where
  "encrypted_ops C =
     \<lparr> so_resolve = encrypted_resolve, so_store = encrypted_store_secret C, so_remove = encrypted_remove_secret C \<rparr>"

definition encrypted_holds :: "encrypted_store \<Rightarrow> string \<Rightarrow> connection_secret option" where
  "encrypted_holds s = hm_get (in_secrets (es_inner s))"

interpretation encrypted: secret_store "encrypted_ops C" "\<lambda>_. True" encrypted_holds for C
proof
  fix s w r x q s'
  show "so_resolve (encrypted_ops C) r s = (case encrypted_holds s r of None \<Rightarrow> Inl (CmSecretUnavailable r) | Some x \<Rightarrow> Inr x)"
    by (simp add: encrypted_ops_def encrypted_resolve_def encrypted_holds_def)
  show "True \<and> encrypted_holds s' = (if q = Inr () then (encrypted_holds s)(r \<mapsto> x) else encrypted_holds s)"
    if "so_store (encrypted_ops C) w r x s = (q, s')"
    using that
    by (auto simp: encrypted_ops_def encrypted_store_secret_def encrypted_holds_def Let_def fun_eq_iff
        split: prod.splits sum.splits option.splits)
  show "True \<and> encrypted_holds s' = (if q = Inr () then (encrypted_holds s)(r := None) else encrypted_holds s)"
    if "so_remove (encrypted_ops C) w r s = (q, s')"
    using that
    by (auto simp: encrypted_ops_def encrypted_remove_secret_def encrypted_holds_def Let_def fun_eq_iff
        split: prod.splits sum.splits option.splits)
qed

section \<open>What the file holds\<close>

text \<open>
  The documented behaviour of the libraries: what is encrypted is decrypted with the same key, a
  Base64 and a JSON text are read back as what was written, a JSON object has each name once.
\<close>

definition crypto_ok :: "crypto \<Rightarrow> bool" where
  "crypto_ok C \<longleftrightarrow>
     (\<forall>k n p c. cr_encrypt C k n p = Some c \<longrightarrow> c \<noteq> [] \<and> cr_decrypt C k n c = Some p) \<and>
     (\<forall>b. cr_unb64 C (cr_b64 C b) = Some b) \<and>
     (\<forall>x. bt_wf (se_options x) \<longrightarrow> cr_payload C (cr_payload_json C x) = Some x) \<and>
     (\<forall>t x. cr_payload C t = Some x \<longrightarrow> bt_wf (se_options x)) \<and>
     (\<forall>f. bt_wf (sf_entries f) \<longrightarrow> cr_file C (cr_file_json C f) = Some f) \<and>
     (\<forall>t f. cr_file C t = Some f \<longrightarrow> bt_wf (sf_entries f))"

text \<open>\<open>random_bytes (NONCE_LEN)\<close> and \<open>random_bytes (SALT_LEN)\<close> answer as many bytes as they are asked for.\<close>

definition call_ok :: "secure_call \<Rightarrow> bool" where
  "call_ok call \<longleftrightarrow> (\<forall>i n. sc_random call i = Some n \<longrightarrow> length n = nonce_len)"

definition salt_ok :: "string option \<Rightarrow> bool" where
  "salt_ok salt \<longleftrightarrow> (\<forall>b. salt = Some b \<longrightarrow> length b = salt_len)"

definition inner_ok :: "crypto \<Rightarrow> string \<Rightarrow> secret_inner \<Rightarrow> bool" where
  "inner_ok C master inn \<longleftrightarrow>
     derive_key_argon2 C master (in_salt inn) (in_params inn) = Inr (in_key inn) \<and> 8 \<le> length (in_salt inn) \<and>
     hm_wf (in_secrets inn) \<and> (\<forall>(r, x) \<in> set (in_secrets inn). bt_wf (se_options x))"

lemma decrypt_encrypt:
  assumes "crypto_ok C" and "\<forall>b. nonce = Some b \<longrightarrow> length b = nonce_len" and "encrypt C nonce key p = Inr blob"
  shows "decrypt C key blob = Inr p"
  using assms by (auto simp: encrypt_def decrypt_def crypto_ok_def split: option.splits)

lemma encrypt_entries_wf: "encrypt_entries C random n key secrets = Inr entries \<Longrightarrow> bt_wf entries"
  by (induction C random n key secrets arbitrary: entries rule: encrypt_entries.induct)
    (auto split: sum.splits simp: map_sum_def)

lemma read_bt_insert:
  assumes "bt_wf entries" and "read_entries C key entries = Inr m"
    and "decrypt C key blob = Inr t" and "cr_payload C t = Some x"
  shows "\<exists>m'. read_entries C key (bt_insert r blob entries) = Inr m' \<and> hm_get m' = (hm_get m)(r \<mapsto> x)"
  using assms
proof (induction entries arbitrary: m)
  case (Cons e entries)
  obtain k b where e: "e = (k, b)" by (cases e)
  with Cons.prems(2) obtain y m0 where y: "m = (k, y) # m0" "read_entries C key entries = Inr m0"
    "\<exists>t'. decrypt C key b = Inr t' \<and> cr_payload C t' = Some y"
    by (auto split: sum.splits option.splits simp: map_sum_def)
  have "bt_wf entries" using Cons.prems(1) e by (simp add: bt_wf_def)
  from Cons.IH [OF this y(2) Cons.prems(3,4)] obtain m1
    where m1: "read_entries C key (bt_insert r blob entries) = Inr m1" "hm_get m1 = (hm_get m0)(r \<mapsto> x)" by blast
  show ?case using e y m1 Cons.prems(3,4) by (auto simp: fun_eq_iff)
qed simp

lemma read_encrypt_entries:
  assumes "crypto_ok C" and "\<forall>i n. random i = Some n \<longrightarrow> length n = nonce_len"
    and "\<forall>(r, x) \<in> set secrets. bt_wf (se_options x)" and "encrypt_entries C random n key secrets = Inr entries"
  shows "\<exists>m. read_entries C key entries = Inr m \<and> hm_get m = hm_get secrets"
  using assms
proof (induction C random n key secrets arbitrary: entries rule: encrypt_entries.induct)
  case (2 C random n key r x secrets)
  from "2.prems"(4) obtain blob es where b: "encrypt C (random n) key (cr_payload_json C x) = Inr blob"
    "encrypt_entries C random (Suc n) key secrets = Inr es" "entries = bt_insert r blob es"
    by (auto split: sum.splits simp: map_sum_def)
  have "decrypt C key blob = Inr (cr_payload_json C x)" using decrypt_encrypt [OF "2.prems"(1) _ b(1)] "2.prems"(2) by blast
  moreover have "cr_payload C (cr_payload_json C x) = Some x" using "2.prems"(1,3) by (simp add: crypto_ok_def)
  moreover obtain m where "read_entries C key es = Inr m" "hm_get m = hm_get secrets"
    using "2.IH" [OF b(1) "2.prems"(1,2) _ b(2)] "2.prems"(3) by auto
  ultimately show ?case
    using read_bt_insert [OF encrypt_entries_wf [OF b(2)], of C key m blob "cr_payload_json C x" x r] b(3)
    by (auto simp: fun_eq_iff)
qed auto

lemma payload_wf: "crypto_ok C \<Longrightarrow> cr_payload C t = Some x \<Longrightarrow> bt_wf (se_options x)"
  by (auto simp: crypto_ok_def)

lemma read_entries_wf:
  "crypto_ok C \<Longrightarrow> read_entries C key entries = Inr m \<Longrightarrow>
    map fst m = map fst entries \<and> (\<forall>(r, x) \<in> set m. bt_wf (se_options x))"
proof (induction entries arbitrary: m)
  case (Cons e entries)
  obtain k b where "e = (k, b)" by (cases e)
  with Cons.prems(2) obtain t y m0 where "m = (k, y) # m0" "read_entries C key entries = Inr m0" "cr_payload C t = Some y" "fst e = k"
    by (auto split: sum.splits option.splits simp: map_sum_def)
  with Cons.IH [OF Cons.prems(1)] payload_wf [OF Cons.prems(1)] show ?case by auto
qed simp

lemma open_written:
  assumes "crypto_ok C" and "call_ok call" and "inner_ok C master inn" and "write_file_at C call inn old = (Inr (), content)"
  shows "\<exists>raw s. content = Some raw \<and> secrets_open C call' salt True content master = Inr s \<and>
    encrypted_holds s = hm_get (in_secrets inn) \<and> in_key (es_inner s) = in_key inn"
proof -
  from assms(4) obtain entries v where w: "encrypt_entries C (sc_random call) 0 (in_key inn) (in_secrets inn) = Inr entries"
    "make_verifier C (sc_random call (length (in_secrets inn))) (in_key inn) = Inr v"
    "content = Some (cr_file_json C
                 \<lparr> sf_version = 2, sf_key_id = None, sf_kdf = Some kdf_name, sf_salt = Some (cr_b64 C (in_salt inn)),
                   sf_argon2 = Some (in_params inn), sf_verifier = Some v, sf_entries = entries \<rparr>)"
    by (auto simp: write_file_at_def split: sum.splits if_splits)
  have "bt_wf entries" using w(1) by (rule encrypt_entries_wf)
  obtain m where m: "read_entries C (in_key inn) entries = Inr m" "hm_get m = hm_get (in_secrets inn)"
    using read_encrypt_entries [OF assms(1) _ _ w(1)] assms(2,3) by (auto simp: call_ok_def inner_ok_def)
  have "decrypt C (in_key inn) v = Inr verifier_plaintext"
    using decrypt_encrypt [OF assms(1) _ w(2) [unfolded make_verifier_def]] assms(2) by (simp add: call_ok_def)
  then have "verify_canary C (in_key inn) v = Inr ()" by (simp add: verify_canary_def)
  then show ?thesis
    using w(3) m assms(1,3) \<open>bt_wf entries\<close>
    by (simp add: secrets_open_def open_v2_def crypto_ok_def inner_ok_def Let_def store_with_def encrypted_holds_def)
qed

section \<open>Using and reopening a store\<close>

text \<open>What a manager does with a store, each call with what the environment decides of it.\<close>

datatype secret_use =
    UseStore secure_call string connection_secret
  | UseRemove secure_call string
  | UseRotate secure_call "string option" string

text \<open>The passphrase that opens the store goes with it: a rotation that succeeds replaces it.\<close>

fun use_secrets :: "crypto \<Rightarrow> secret_use list \<Rightarrow> string \<times> encrypted_store \<Rightarrow> string \<times> encrypted_store" where
  "use_secrets C [] ms = ms"
| "use_secrets C (UseStore call r x # us) (master, s) = use_secrets C us (master, snd (encrypted_store_secret C call r x s))"
| "use_secrets C (UseRemove call r # us) (master, s) = use_secrets C us (master, snd (encrypted_remove_secret C call r s))"
| "use_secrets C (UseRotate call salt m # us) (master, s) =
     use_secrets C us
       (case rotate_key C call salt m s of
          (Inl _, s') \<Rightarrow> (master, s')
        | (Inr _, s') \<Rightarrow> (m, s'))"

fun use_ok :: "secret_use \<Rightarrow> bool" where
  "use_ok (UseStore call r x) \<longleftrightarrow> call_ok call \<and> bt_wf (se_options x)"
| "use_ok (UseRemove call r) \<longleftrightarrow> call_ok call"
| "use_ok (UseRotate call salt m) \<longleftrightarrow> call_ok call \<and> salt_ok salt"

text \<open>The file opens with the passphrase to the secrets of the store; without a file there are none.\<close>

definition file_current :: "crypto \<Rightarrow> string \<Rightarrow> encrypted_store \<Rightarrow> bool" where
  "file_current C master s \<longleftrightarrow>
     (case es_file s of
        None \<Rightarrow> in_secrets (es_inner s) = []
      | Some raw \<Rightarrow> \<forall>call salt. call_ok call \<longrightarrow> salt_ok salt \<longrightarrow>
          (\<exists>s'. secrets_open C call salt True (Some raw) master = Inr s' \<and> encrypted_holds s' = encrypted_holds s \<and>
                in_key (es_inner s') = in_key (es_inner s)))"

definition store_sound :: "crypto \<Rightarrow> string \<Rightarrow> encrypted_store \<Rightarrow> bool" where
  "store_sound C master s \<longleftrightarrow> inner_ok C master (es_inner s) \<and> file_current C master s"

lemma file_current_written:
  assumes "crypto_ok C" and "call_ok call" and "inner_ok C master inn" and "write_file_at C call inn old = (Inr (), content)"
    and "es_inner s = inn" and "es_file s = content"
  shows "store_sound C master s"
proof -
  have "\<exists>raw. content = Some raw" using open_written [OF assms(1-4)] by blast
  then obtain raw where raw: "content = Some raw" by blast
  have "\<exists>s'. secrets_open C call' salt True (Some raw) master = Inr s' \<and> encrypted_holds s' = encrypted_holds s \<and>
      in_key (es_inner s') = in_key (es_inner s)" for call' salt
    using open_written [OF assms(1-4), of call' salt] assms(5) raw by (auto simp: encrypted_holds_def)
  then show ?thesis using assms(3,5,6) raw by (simp add: store_sound_def file_current_def)
qed

lemma inner_ok_secrets:
  "inner_ok C master inn \<Longrightarrow> bt_wf (se_options x) \<Longrightarrow> inner_ok C master (inn\<lparr>in_secrets := hm_insert r x (in_secrets inn)\<rparr>)"
  "inner_ok C master inn \<Longrightarrow> inner_ok C master (inn\<lparr>in_secrets := hm_remove r (in_secrets inn)\<rparr>)"
  using set_hm_insert [of r x "in_secrets inn"]
  by (auto simp: inner_ok_def dest: in_hm_remove)

text \<open>After a failed write the map holds what it held, in another order.\<close>

lemma sound_same_holds:
  assumes "store_sound C master s" and "inner_ok C master inn"
    and "in_key inn = in_key (es_inner s)" and "hm_get (in_secrets inn) = hm_get (in_secrets (es_inner s))"
  shows "store_sound C master (s\<lparr>es_inner := inn\<rparr>)"
proof -
  have "in_secrets inn = [] \<longleftrightarrow> in_secrets (es_inner s) = []"
    using assms(4) by (metis map_of_eq_empty_iff)
  with assms show ?thesis by (auto simp: store_sound_def file_current_def encrypted_holds_def split: option.splits)
qed

lemma sound_store:
  assumes "crypto_ok C" and "store_sound C master s" and "call_ok call" and "bt_wf (se_options x)"
  shows "store_sound C master (snd (encrypted_store_secret C call r x s))"
proof -
  let ?inn = "(es_inner s)\<lparr>in_secrets := hm_insert r x (in_secrets (es_inner s))\<rparr>"
  have i: "inner_ok C master (es_inner s)" using assms(2) by (simp add: store_sound_def)
  have ok: "inner_ok C master ?inn" by (rule inner_ok_secrets(1) [OF i assms(4)])
  obtain q content where w: "write_file_at C call ?inn (es_file s) = (q, content)" by fastforce
  show ?thesis
  proof (cases q)
    case (Inr u)
    then show ?thesis using w file_current_written [OF assms(1,3) ok] by (simp add: encrypted_store_secret_def Let_def)
  next
    case (Inl e)
    let ?undone = "?inn\<lparr>in_secrets := (case hm_get (in_secrets (es_inner s)) r of
                 Some p \<Rightarrow> hm_insert r p (in_secrets ?inn) | None \<Rightarrow> hm_remove r (in_secrets ?inn))\<rparr>"
    have "inner_ok C master ?undone"
    proof (cases "hm_get (in_secrets (es_inner s)) r")
      case (Some p)
      then have "bt_wf (se_options p)" using i hm_get_in_set by (fastforce simp: inner_ok_def)
      with Some show ?thesis using inner_ok_secrets(1) [OF ok, of p r] by simp
    qed (use inner_ok_secrets(2) [OF ok] in simp)
    then have "store_sound C master (s\<lparr>es_inner := ?undone\<rparr>)"
      using sound_same_holds [OF assms(2)] by (auto simp: fun_eq_iff split: option.splits)
    with w Inl show ?thesis by (simp add: encrypted_store_secret_def Let_def)
  qed
qed

lemma sound_remove:
  assumes "crypto_ok C" and "store_sound C master s" and "call_ok call"
  shows "store_sound C master (snd (encrypted_remove_secret C call r s))"
proof (cases "hm_get (in_secrets (es_inner s)) r")
  case None
  then show ?thesis using assms(2) by (simp add: encrypted_remove_secret_def)
next
  case (Some p)
  let ?inn = "(es_inner s)\<lparr>in_secrets := hm_remove r (in_secrets (es_inner s))\<rparr>"
  have i: "inner_ok C master (es_inner s)" using assms(2) by (simp add: store_sound_def)
  have ok: "inner_ok C master ?inn" by (rule inner_ok_secrets(2) [OF i])
  obtain q content where w: "write_file_at C call ?inn (es_file s) = (q, content)" by fastforce
  show ?thesis
  proof (cases q)
    case (Inr u)
    then show ?thesis using w Some file_current_written [OF assms(1,3) ok] by (simp add: encrypted_remove_secret_def Let_def)
  next
    case (Inl e)
    let ?undone = "?inn\<lparr>in_secrets := hm_insert r p (in_secrets ?inn)\<rparr>"
    have "bt_wf (se_options p)" using i Some hm_get_in_set by (fastforce simp: inner_ok_def)
    then have "inner_ok C master ?undone" using inner_ok_secrets(1) [OF ok, of p r] by simp
    then have "store_sound C master (s\<lparr>es_inner := ?undone\<rparr>)"
      using sound_same_holds [OF assms(2)] Some by (auto simp: fun_eq_iff)
    with w Inl Some show ?thesis by (simp add: encrypted_remove_secret_def Let_def)
  qed
qed

lemma sound_rotate:
  assumes "crypto_ok C" and "store_sound C master s" and "call_ok call" and "salt_ok salt"
    and "rotate_key C call salt m s = (q, s')"
  shows "store_sound C (case q of Inl _ \<Rightarrow> master | Inr _ \<Rightarrow> m) s'"
proof (cases q)
  case (Inl e)
  then have "s' = s" using assms(5) by (auto simp: rotate_key_def Let_def split: option.splits sum.splits prod.splits)
  with Inl assms(2) show ?thesis by simp
next
  case (Inr fp)
  with assms(5) obtain b key where k: "salt = Some b" "derive_key_argon2 C m b argon2_params_default = Inr key"
    by (auto simp: rotate_key_def split: option.splits sum.splits)
  let ?pending = "\<lparr> in_key = key, in_salt = b, in_params = argon2_params_default,
                                in_key_id = fingerprint C key, in_secrets = in_secrets (es_inner s) \<rparr>"
  have ok: "inner_ok C m ?pending"
    using k assms(2,4) by (simp add: inner_ok_def store_sound_def salt_ok_def salt_len_def)
  obtain w content where w: "write_file_at C call ?pending (es_file s) = (w, content)" by fastforce
  with Inr assms(5) k have "w = Inr ()" "es_inner s' = ?pending" "es_file s' = content"
    by (auto simp: rotate_key_def Let_def split: sum.splits)
  with Inr w file_current_written [OF assms(1,3) ok] show ?thesis by simp
qed

text \<open>A store that was opened is sound: the file it read, migrated or did not find.\<close>

lemma open_v2_sound:
  assumes "crypto_ok C" and "cr_file C raw = Some f" and "sf_version f = 2" and "open_v2 C raw master f = Inr s"
  shows "store_sound C master s"
proof -
  have r: "secrets_open C call salt True (Some raw) master = Inr s" for call salt
    using assms(2-4) by (simp add: secrets_open_def)
  from assms(4) obtain key salt m where k: "derive_key_argon2 C master salt (in_params (es_inner s)) = Inr key" "8 \<le> length salt"
    "read_entries C key (sf_entries f) = Inr m" "es_file s = Some raw"
    "in_key (es_inner s) = key" "in_salt (es_inner s) = salt" "in_secrets (es_inner s) = m"
    by (auto simp: open_v2_def store_with_def Let_def map_sum_def split: option.splits sum.splits if_splits)
  have "bt_wf (sf_entries f)" using assms(1,2) by (auto simp: crypto_ok_def)
  then have "hm_wf m" using read_entries_wf [OF assms(1) k(3)] bt_wf_distinct by (auto simp: hm_wf_def)
  with k read_entries_wf [OF assms(1) k(3)] have "inner_ok C master (es_inner s)" by (simp add: inner_ok_def)
  with k r show ?thesis by (auto simp: store_sound_def file_current_def)
qed

lemma migrated_sound:
  assumes "crypto_ok C" and "cr_file C raw = Some f" and "call_ok call" and "salt_ok salt"
    and "open_and_migrate_v1 C call salt raw master f = Inr s"
  shows "store_sound C master s"
proof -
  from assms(5) obtain secrets b key written where k: "read_entries C (cr_sha256 C master) (sf_entries f) = Inr secrets"
    "salt = Some b" "derive_key_argon2 C master b argon2_params_default = Inr key"
    "write_file_at C call (es_inner (store_with C key b argon2_params_default secrets (Some raw))) (Some raw) = (Inr (), written)"
    "s = (store_with C key b argon2_params_default secrets (Some raw))\<lparr>es_file := written\<rparr>"
    by (auto simp: open_and_migrate_v1_def Let_def split: option.splits sum.splits if_splits prod.splits)
  have "bt_wf (sf_entries f)" using assms(1,2) by (auto simp: crypto_ok_def)
  then have "hm_wf secrets" using read_entries_wf [OF assms(1) k(1)] bt_wf_distinct by (auto simp: hm_wf_def)
  then have "inner_ok C master (es_inner (store_with C key b argon2_params_default secrets (Some raw)))"
    using k read_entries_wf [OF assms(1) k(1)] assms(4)
    by (simp add: inner_ok_def store_with_def salt_ok_def salt_len_def)
  from file_current_written [OF assms(1,3) this k(4)] k(5) show ?thesis by simp
qed

lemma opened_sound:
  assumes "crypto_ok C" and "call_ok call" and "salt_ok salt" and "secrets_open C call salt readable content master = Inr s"
  shows "store_sound C master s"
proof (cases content)
  case None
  with assms(4) obtain b key where "salt = Some b" "derive_key_argon2 C master b argon2_params_default = Inr key"
    "s = store_with C key b argon2_params_default [] None"
    by (auto simp: secrets_open_def create_empty_def map_sum_def split: option.splits sum.splits)
  with assms(3) show ?thesis
    by (simp add: store_sound_def inner_ok_def file_current_def store_with_def salt_ok_def salt_len_def)
next
  case (Some raw)
  with assms(4) obtain f where f: "cr_file C raw = Some f"
    "sf_version f = 1 \<and> open_and_migrate_v1 C call salt raw master f = Inr s \<or> sf_version f = 2 \<and> open_v2 C raw master f = Inr s"
    by (auto simp: secrets_open_def split: option.splits if_splits)
  with migrated_sound [OF assms(1) f(1) assms(2,3)] open_v2_sound [OF assms(1) f(1)] show ?thesis by blast
qed

lemma use_sound:
  assumes "crypto_ok C" and "store_sound C master s" and "\<forall>u \<in> set us. use_ok u"
    and "use_secrets C us (master, s) = (master', s')"
  shows "store_sound C master' s'"
  using assms(2-4)
proof (induction us arbitrary: master s)
  case (Cons u us)
  show ?case
  proof (cases u)
    case (UseStore call r x)
    with Cons.prems sound_store [OF assms(1), of master s call x r] show ?thesis
      by (intro Cons.IH [of master "snd (encrypted_store_secret C call r x s)"]) auto
  next
    case (UseRemove call r)
    with Cons.prems sound_remove [OF assms(1), of master s call r] show ?thesis
      by (intro Cons.IH [of master "snd (encrypted_remove_secret C call r s)"]) auto
  next
    case (UseRotate call salt m)
    obtain q s1 where q: "rotate_key C call salt m s = (q, s1)" by fastforce
    have "store_sound C (case q of Inl _ \<Rightarrow> master | Inr _ \<Rightarrow> m) s1"
      using sound_rotate [OF assms(1) Cons.prems(1) _ _ q] UseRotate Cons.prems(2) by simp
    with UseRotate Cons.prems q show ?thesis
      by (intro Cons.IH [of "case q of Inl _ \<Rightarrow> master | Inr _ \<Rightarrow> m" s1]) (auto split: sum.splits)
  qed
qed simp

section \<open>A sample of the libraries\<close>

text \<open>Texts of several fields: each character after a mark, each field ended by another.\<close>

definition enc_field :: "string \<Rightarrow> string" where
  "enc_field s = concat (map (\<lambda>c. [CHR ''1'', c]) s) @ ''0''"

fun dec_field :: "string \<Rightarrow> (string \<times> string) option" where
  "dec_field [] = None"
| "dec_field (m # t) =
     (if m = CHR ''0'' then Some ([], t)
      else case t of [] \<Rightarrow> None | c # t' \<Rightarrow> map_option (\<lambda>(s, u). (c # s, u)) (dec_field t'))"

definition enc_fields :: "string list \<Rightarrow> string" where
  "enc_fields ss = concat (map enc_field ss)"

fun dec_fields :: "nat \<Rightarrow> string \<Rightarrow> string list" where
  "dec_fields 0 t = []"
| "dec_fields (Suc n) t = (case dec_field t of None \<Rightarrow> [] | Some (s, u) \<Rightarrow> s # dec_fields n u)"

lemma dec_enc_field: "dec_field (enc_field s @ t) = Some (s, t)"
  by (induction s) (auto simp: enc_field_def)

lemma dec_enc_fields: "length ss \<le> n \<Longrightarrow> dec_fields n (enc_fields ss) = ss"
proof (induction ss arbitrary: n)
  case Nil
  then show ?case by (cases n) (auto simp: enc_fields_def)
next
  case (Cons s ss)
  then obtain m where "n = Suc m" "length ss \<le> m" by (cases n) auto
  with Cons.IH [of m] show ?case by (simp add: enc_fields_def dec_enc_field)
qed

lemma length_enc_fields: "length ss \<le> length (enc_fields ss)"
  by (induction ss) (auto simp: enc_fields_def enc_field_def)

fun enc_pairs :: "(string \<times> string) list \<Rightarrow> string list" where
  "enc_pairs [] = []"
| "enc_pairs ((k, v) # m) = k # v # enc_pairs m"

fun dec_pairs :: "string list \<Rightarrow> (string \<times> string) list" where
  "dec_pairs (k # v # ss) = (k, v) # dec_pairs ss"
| "dec_pairs _ = []"

lemma dec_enc_pairs [simp]: "dec_pairs (enc_pairs m) = m"
  by (induction m rule: enc_pairs.induct) auto

definition enc_nat :: "nat \<Rightarrow> string" where "enc_nat n = replicate n CHR ''1''"

definition enc_opt :: "string option \<Rightarrow> string" where
  "enc_opt x = (case x of None \<Rightarrow> [] | Some s \<Rightarrow> CHR ''1'' # s)"

definition dec_opt :: "string \<Rightarrow> string option" where
  "dec_opt s = (case s of [] \<Rightarrow> None | _ # t \<Rightarrow> Some t)"

lemma dec_enc_small [simp]: "length (enc_nat n) = n" "dec_opt (enc_opt x) = x"
  by (auto simp: enc_nat_def enc_opt_def dec_opt_def split: option.splits)

definition enc_argon :: "argon2_params option \<Rightarrow> string list" where
  "enc_argon x = (case x of
     None \<Rightarrow> [[], [], [], []]
   | Some p \<Rightarrow> [''1'', enc_nat (ap_m_kib p), enc_nat (ap_t p), enc_nat (ap_p p)])"

definition sample_payload :: "string \<Rightarrow> connection_secret option" where
  "sample_payload t = (case dec_fields (length t) t of
     u # p # ss \<Rightarrow>
       if bt_wf (dec_pairs ss) then Some \<lparr> se_username = u, se_password = p, se_options = dec_pairs ss \<rparr> else None
   | _ \<Rightarrow> None)"

definition sample_file_json :: "secret_file \<Rightarrow> string" where
  "sample_file_json f = enc_fields ([enc_nat (sf_version f), enc_opt (sf_key_id f), enc_opt (sf_kdf f), enc_opt (sf_salt f),
     enc_opt (sf_verifier f)] @ enc_argon (sf_argon2 f) @ enc_pairs (sf_entries f))"

definition sample_file :: "string \<Rightarrow> secret_file option" where
  "sample_file t = (case dec_fields (length t) t of
     v # i # k # s # c # a # am # at # ap # ss \<Rightarrow>
       if bt_wf (dec_pairs ss) then
         Some \<lparr> sf_version = length v, sf_key_id = dec_opt i, sf_kdf = dec_opt k, sf_salt = dec_opt s,
                sf_argon2 = (if a = [] then None else Some \<lparr> ap_m_kib = length am, ap_t = length at, ap_p = length ap \<rparr>),
                sf_verifier = dec_opt c, sf_entries = dec_pairs ss \<rparr>
       else None
   | _ \<Rightarrow> None)"

definition sample_crypto :: crypto where
  "sample_crypto =
     \<lparr> cr_argon2 = \<lambda>m s p. Inr (m @ s), cr_sha256 = id, cr_encrypt = \<lambda>k n p. Some (CHR ''x'' # p),
       cr_decrypt = \<lambda>k n c. Some (tl c), cr_b64 = id, cr_unb64 = Some,
       cr_payload_json = \<lambda>x. enc_fields (se_username x # se_password x # enc_pairs (se_options x)), cr_payload = sample_payload,
       cr_file_json = sample_file_json, cr_file = sample_file \<rparr>"

lemma sample_payload_read:
  "bt_wf (se_options x) \<Longrightarrow> sample_payload (enc_fields (se_username x # se_password x # enc_pairs (se_options x))) = Some x"
  using dec_enc_fields [OF length_enc_fields] by (simp add: sample_payload_def)

lemma sample_file_read: "bt_wf (sf_entries f) \<Longrightarrow> sample_file (sample_file_json f) = Some f"
  unfolding sample_file_def sample_file_json_def dec_enc_fields [OF length_enc_fields]
  by (simp add: enc_argon_def split: option.split)

lemma sample_crypto_ok: "crypto_ok sample_crypto"
  using sample_payload_read sample_file_read
  by (auto simp: crypto_ok_def sample_crypto_def sample_payload_def sample_file_def split: list.splits if_splits)

definition sample_call :: "bool \<Rightarrow> secure_call" where
  "sample_call written = \<lparr> sc_random = \<lambda>_. Some (replicate 12 CHR ''n''), sc_written = written \<rparr>"

definition sample_salt :: "string option" where
  "sample_salt = Some (replicate 16 CHR ''s'')"

definition sample_secret :: connection_secret where
  "sample_secret = \<lparr> se_username = ''dma'', se_password = ''pw'', se_options = [(''sid'', ''ORCL'')] \<rparr>"

lemma sample_ok:
  "call_ok (sample_call written)" "salt_ok sample_salt" "bt_wf (se_options sample_secret)"
  by (simp_all add: call_ok_def sample_call_def salt_ok_def sample_salt_def nonce_len_def salt_len_def sample_secret_def bt_wf_def)

text \<open>A new store, and what is done with it: a secret is stored, a write fails, the passphrase is rotated.\<close>

definition sample_store :: encrypted_store where
  "sample_store = store_with sample_crypto (''key'' @ replicate 16 CHR ''s'') (replicate 16 CHR ''s'') argon2_params_default [] None"

definition sample_uses :: "secret_use list" where
  "sample_uses = [UseStore (sample_call True) ''r'' sample_secret, UseRemove (sample_call False) ''r'',
     UseRotate (sample_call True) sample_salt ''other'']"

definition sample_used :: encrypted_store where
  "sample_used = snd (use_secrets sample_crypto sample_uses (''key'', sample_store))"

lemma sample_opened: "secrets_open sample_crypto (sample_call True) sample_salt True None ''key'' = Inr sample_store"
  by (simp add: secrets_open_def create_empty_def sample_salt_def derive_key_argon2_def sample_crypto_def sample_store_def)

lemma sample_use:
  "use_secrets sample_crypto sample_uses (''key'', sample_store) = (''other'', sample_used)"
  "es_file sample_used \<noteq> None" "so_resolve (encrypted_ops sample_crypto) ''r'' sample_used = Inr sample_secret"
  by (simp_all add: sample_used_def sample_uses_def sample_store_def store_with_def encrypted_store_secret_def encrypted_remove_secret_def
      rotate_key_def write_file_at_def encrypt_def make_verifier_def sample_call_def sample_crypto_def sample_salt_def
      derive_key_argon2_def encrypted_ops_def encrypted_resolve_def Let_def)

section \<open>Properties\<close>

text \<open>C35.
  Secrets survive a restart: after any stores, removals and rotations, whichever of them fail, the
  file opens with the passphrase in use to the secrets that the store held.\<close>

theorem secrets_reopen:
  assumes "crypto_ok C" and "call_ok call" and "salt_ok salt"
    and "secrets_open C call salt readable content master = Inr s"
    and "\<forall>u \<in> set us. use_ok u" and "use_secrets C us (master, s) = (master', s')"
    and "call_ok call'" and "salt_ok salt'" and "es_file s' = Some raw"
  shows "\<exists>s''. secrets_open C call' salt' True (Some raw) master' = Inr s'' \<and>
    (\<forall>r. so_resolve (encrypted_ops C) r s'' = so_resolve (encrypted_ops C) r s')"
proof -
  have "store_sound C master' s'"
    by (rule use_sound [OF assms(1) opened_sound [OF assms(1-4)] assms(5,6)])
  with assms(7-9) obtain s'' where "secrets_open C call' salt' True (Some raw) master' = Inr s''" "encrypted_holds s'' = encrypted_holds s'"
    by (auto simp: store_sound_def file_current_def)
  then show ?thesis by (auto simp: encrypted.resolve)
qed

theorem secrets_reopen_witness:
  "\<exists>raw s''. es_file sample_used = Some raw \<and>
    secrets_open sample_crypto (sample_call True) None True (Some raw) ''other'' = Inr s'' \<and>
    so_resolve (encrypted_ops sample_crypto) ''r'' s'' = Inr sample_secret"
proof -
  obtain raw where raw: "es_file sample_used = Some raw" using sample_use(2) by blast
  have u: "\<forall>u \<in> set sample_uses. use_ok u" using sample_ok by (simp add: sample_uses_def)
  have "salt_ok None" by (simp add: salt_ok_def)
  then obtain s'' where "secrets_open sample_crypto (sample_call True) None True (Some raw) ''other'' = Inr s''"
    "\<forall>r. so_resolve (encrypted_ops sample_crypto) r s'' = so_resolve (encrypted_ops sample_crypto) r sample_used"
    using secrets_reopen [OF sample_crypto_ok sample_ok(1,2) sample_opened u sample_use(1) sample_ok(1) _ raw] by blast
  with raw sample_use(3) show ?thesis by auto
qed

text \<open>A rotation is all or nothing: when it succeeds the file is one that the new passphrase opens to the
  same secrets, and when it fails the store, its file and its fingerprint are as before.\<close>

theorem rotation_is_transactional:
  assumes "crypto_ok C" and "store_sound C master s" and "call_ok call" and "salt_ok salt"
    and "rotate_key C call salt m s = (q, s')"
  shows "encrypted_holds s' = encrypted_holds s \<and>
    (case q of
       Inl e \<Rightarrow> s' = s
     | Inr fp \<Rightarrow> es_fingerprint s' = fp \<and> in_key_id (es_inner s') = fp \<and> fp = fingerprint C (in_key (es_inner s')) \<and>
         es_file s' \<noteq> None \<and> file_current C m s')"
proof -
  have "store_sound C (case q of Inl _ \<Rightarrow> master | Inr _ \<Rightarrow> m) s'" by (rule sound_rotate [OF assms])
  moreover have "es_file s' \<noteq> None" if "q = Inr fp" for fp
    using that assms(5)
    by (auto simp: rotate_key_def write_file_at_def Let_def split: option.splits sum.splits prod.splits if_splits)
  ultimately show ?thesis
    using assms(5)
    by (auto simp: rotate_key_def Let_def encrypted_holds_def store_sound_def split: option.splits sum.splits prod.splits)
qed

theorem rotation_is_transactional_witness:
  "encrypted_holds (snd (rotate_key sample_crypto (sample_call False) sample_salt ''other'' sample_store)) = encrypted_holds sample_store"
proof -
  obtain q s' where q: "rotate_key sample_crypto (sample_call False) sample_salt ''other'' sample_store = (q, s')" by fastforce
  have "store_sound sample_crypto ''key'' sample_store" by (rule opened_sound [OF sample_crypto_ok sample_ok(1,2) sample_opened])
  from rotation_is_transactional [OF sample_crypto_ok this sample_ok(1,2) q] q show ?thesis by simp
qed

end
