(* ===== verification/Conn_Manager.thy ===== *)
theory Conn_Manager
  imports Conn_Secrets Sql_Compile "HOL-Library.Multiset"
begin

text \<open>
  The manager of connections (\<open>ConnectionManager\<close> of
  \<open>crates/jaiba-connection-manager/src/lib.rs\<close>): its profiles and their file, their status, the
  plugins, the caches of what the plugins explored, the audit trail and the events. The plugins, the
  regular expressions that redact a message, the clock and the identifiers it draws are parameters.
\<close>

section \<open>Data\<close>

record connection_endpoint =
  ep_host :: string
  ep_port :: nat
  ep_database :: "string option"
  ep_ssl :: bool
  ep_pool_min :: nat
  ep_pool_max :: nat
  ep_timeout_ms :: nat
  ep_options :: "(string \<times> string) list"

datatype availability = AvUnknown | AvTesting | AvAvailable | AvDegraded | AvUnavailable

record pool_status =
  ps_active :: nat
  ps_idle :: nat
  ps_maximum :: nat

record connection_test_result =
  tr_availability :: availability
  tr_latency_ms :: nat
  tr_version :: "string option"
  tr_pool :: "pool_status option"
  tr_tested_at :: int
  tr_message :: "string option"

record diagnostic_check =
  dc_code :: string
  dc_label :: string
  dc_status :: availability
  dc_latency_ms :: "nat option"
  dc_details :: json

datatype database_object_kind = KiSchema | KiCollection | KiTable | KiView | KiProcedure | KiFunction | KiSequence

record database_object =
  do_schema :: "string option"
  do_name :: string
  do_kind :: database_object_kind

record column_metadata =
  cl_name :: string
  cl_data_type :: string
  cl_nullable :: bool
  cl_ordinal :: nat
  cl_default :: "string option"

record key_metadata =
  ky_name :: string
  ky_kind :: string
  ky_columns :: "string list"

record index_metadata =
  ix_name :: string
  ix_columns :: "string list"
  ix_unique :: bool

record object_description =
  od_object :: database_object
  od_columns :: "column_metadata list"
  od_keys :: "key_metadata list"
  od_indexes :: "index_metadata list"

record connection_profile =
  cp_id :: string
  cp_name :: string
  cp_type :: connection_type
  cp_endpoint :: connection_endpoint
  cp_secret_ref :: string
  cp_tags :: "string list"

record connection_status =
  cs_profile_id :: string
  cs_availability :: availability
  cs_latency_ms :: "nat option"
  cs_version :: "string option"
  cs_pool_active :: "nat option"
  cs_pool_maximum :: "nat option"
  cs_tested_at :: "int option"
  cs_message :: "string option"

definition status_unknown :: "string \<Rightarrow> connection_status" where
  "status_unknown i =
     \<lparr> cs_profile_id = i, cs_availability = AvUnknown, cs_latency_ms = None, cs_version = None,
       cs_pool_active = None, cs_pool_maximum = None, cs_tested_at = None, cs_message = None \<rparr>"

datatype connection_event =
    ProfileChanged string
  | ProfileDeleted string
  | StatusChanged connection_status

record connection_export =
  ce_format :: string
  ce_profiles :: "connection_profile list"

datatype audit_action = AuCreated | AuUpdated | AuDeleted | AuKeyRotated | AuTested

record audit_entry =
  ae_timestamp :: int
  ae_action :: audit_action
  ae_profile_id :: string
  ae_profile_name :: "string option"
  ae_actor :: "string option"

text \<open>
  A plugin. Its answers depend on the outside: \<open>'p\<close> is what the outside decides of a call. An
  exploration that does not end in time is \<open>None\<close>.
\<close>

record 'p connection_plugin =
  pl_display_name :: string
  pl_test :: "'p \<Rightarrow> connection_endpoint \<Rightarrow> connection_secret \<Rightarrow> (plugin_error, connection_test_result) result"
  pl_diagnose :: "'p \<Rightarrow> connection_endpoint \<Rightarrow> connection_secret \<Rightarrow> (plugin_error, diagnostic_check list) result"
  pl_list_objects :: "'p \<Rightarrow> connection_endpoint \<Rightarrow> connection_secret \<Rightarrow> string option
    \<Rightarrow> (plugin_error, database_object list) result option"
  pl_describe_object :: "'p \<Rightarrow> connection_endpoint \<Rightarrow> connection_secret \<Rightarrow> database_object
    \<Rightarrow> (plugin_error, object_description) result option"
  pl_compile_query :: "query_spec \<Rightarrow> (plugin_error, compiled_query) result"

definition plugin_error_text :: "plugin_error \<Rightarrow> string" where
  "plugin_error_text e = (case e of
     PlConfiguration m \<Rightarrow> ''plugin configuration error: '' @ m
   | PlConnection m \<Rightarrow> ''connection failed: '' @ m
   | PlDiagnostic m \<Rightarrow> ''diagnostic failed: '' @ m
   | PlExploration m \<Rightarrow> ''schema exploration failed: '' @ m
   | PlProcessing m \<Rightarrow> ''processor failed: '' @ m
   | PlUnsupported c \<Rightarrow> ''capability '' @ quoted c @ '' is not supported'')"

section \<open>The repository of profiles\<close>

text \<open>\<open>ConnectionType\<close> is written and read as its identifier.\<close>

definition connection_type_id :: "connection_type \<Rightarrow> string" where
  "connection_type_id t = (case t of
     CtOracle \<Rightarrow> ''oracle'' | CtPostgres \<Rightarrow> ''postgres'' | CtSqlServer \<Rightarrow> ''sql_server'' | CtMySql \<Rightarrow> ''mysql''
   | CtMariaDb \<Rightarrow> ''maria_db'' | CtMongoDb \<Rightarrow> ''mongodb'' | CtClickHouse \<Rightarrow> ''clickhouse'' | CtKafka \<Rightarrow> ''kafka''
   | CtOpcUa \<Rightarrow> ''opc_ua'' | CtRest \<Rightarrow> ''rest'' | CtCustom i \<Rightarrow> i)"

definition connection_type_of :: "string \<Rightarrow> connection_type option" where
  "connection_type_of i =
     (if trim i = [] then None
      else Some (if i = ''oracle'' then CtOracle
        else if i = ''postgres'' then CtPostgres
        else if i = ''sql_server'' then CtSqlServer
        else if i = ''mysql'' then CtMySql
        else if i = ''maria_db'' then CtMariaDb
        else if i = ''mongodb'' \<or> i = ''mongo'' then CtMongoDb
        else if i = ''clickhouse'' then CtClickHouse
        else if i = ''kafka'' then CtKafka
        else if i = ''opc_ua'' then CtOpcUa
        else if i = ''rest'' then CtRest
        else CtCustom i))"

definition type_canonical :: "connection_type \<Rightarrow> bool" where
  "type_canonical t \<longleftrightarrow> connection_type_of (connection_type_id t) = Some t"

record ('f, 'v) repository_ops =
  ro_load :: "'f \<Rightarrow> (connection_manager_error, connection_profile list) result"
  ro_save :: "'v \<Rightarrow> connection_profile list \<Rightarrow> 'f \<Rightarrow> (connection_manager_error, unit) result \<times> 'f"

text \<open>What the manager relies on: what was saved is loaded, a save that fails changes nothing.\<close>

locale profile_repository =
  fixes rops :: "('f, 'v) repository_ops"
  assumes save: "\<forall>p \<in> set ps. type_canonical (cp_type p) \<Longrightarrow> ro_save rops v ps f = (q, f') \<Longrightarrow>
    ro_load rops f' = (if q = Inr () then Inr ps else ro_load rops f)"

text \<open>
  The JSON file: nothing, a text that is not a list of profiles, or the list with each type written
  as its identifier, the one part of a profile whose code is the program's own.
\<close>

type_synonym profile_file = "(string + (string \<times> connection_profile) list) option"

definition profile_row :: "connection_profile \<Rightarrow> string \<times> connection_profile" where
  "profile_row p = (connection_type_id (cp_type p), p)"

fun read_rows :: "(string \<times> connection_profile) list \<Rightarrow> (connection_manager_error, connection_profile list) result" where
  "read_rows [] = Inr []"
| "read_rows ((i, p) # rows) =
     (case connection_type_of i of
        None \<Rightarrow> Inl (CmPersistence (PeRepository ''connection adapter id cannot be empty''))
      | Some t \<Rightarrow> map_sum id (\<lambda>ps. p\<lparr>cp_type := t\<rparr> # ps) (read_rows rows))"

definition file_repository_load :: "profile_file \<Rightarrow> (connection_manager_error, connection_profile list) result" where
  "file_repository_load f =
     (case f of
        None \<Rightarrow> Inr []
      | Some (Inl raw) \<Rightarrow> Inl (CmPersistence (PeRepository raw))
      | Some (Inr rows) \<Rightarrow> read_rows rows)"

definition file_repository_save ::
  "bool \<Rightarrow> connection_profile list \<Rightarrow> profile_file \<Rightarrow> (connection_manager_error, unit) result \<times> profile_file" where
  "file_repository_save written ps f =
     (if written then (Inr (), Some (Inr (map profile_row ps))) else (Inl (CmPersistence (PeSecure SsIo)), f))"

definition file_repository :: "(profile_file, bool) repository_ops" where
  "file_repository = \<lparr> ro_load = file_repository_load, ro_save = file_repository_save \<rparr>"

lemma read_profile_rows: "\<forall>p \<in> set ps. type_canonical (cp_type p) \<Longrightarrow> read_rows (map profile_row ps) = Inr ps"
  by (induction ps) (simp_all add: profile_row_def type_canonical_def)

interpretation file_repository: profile_repository file_repository
  by unfold_locales
    (auto simp: file_repository_def file_repository_load_def file_repository_save_def read_profile_rows split: if_splits)

section \<open>The manager\<close>

text \<open>
  \<open>cm_repository\<close> is what the repository holds (\<open>None\<close> without persistence), \<open>cm_audit\<close> what the
  audit sink recorded (\<open>None\<close> without one), \<open>cm_events\<close> what was sent to the channel. Times are in
  milliseconds.
\<close>

record ('s, 'f, 'p) conn_manager =
  cm_profiles :: "(string \<times> connection_profile) list"
  cm_status :: "(string \<times> connection_status) list"
  cm_plugins :: "(connection_type \<times> 'p connection_plugin) list"
  cm_secrets :: 's
  cm_events :: "connection_event list"
  cm_metadata_cache :: "(string \<times> (nat \<times> database_object list)) list"
  cm_description_cache :: "(string \<times> (nat \<times> object_description)) list"
  cm_metadata_ttl :: nat
  cm_metadata_timeout :: nat
  cm_repository :: "'f option"
  cm_audit :: "audit_entry list option"

text \<open>
  What the manager was built with, and what the outside decides of a call: the outcomes of the secret
  store and of the repository, in the order of the calls, the clock and the identifiers it draws.
\<close>

record ('s, 'w, 'f, 'v) stores =
  st_secrets :: "('s, 'w) secret_ops"
  st_repository :: "('f, 'v) repository_ops"

record ('w, 'v) manager_call =
  mc_secret :: "nat \<Rightarrow> 'w"
  mc_save :: "nat \<Rightarrow> 'v"
  mc_secs :: int
  mc_uuid :: "nat \<Rightarrow> string"

definition with_metadata_policy :: "'s \<Rightarrow> nat \<Rightarrow> nat \<Rightarrow> ('s, 'f, 'p) conn_manager" where
  "with_metadata_policy secrets ttl timeout =
     \<lparr> cm_profiles = [], cm_status = [], cm_plugins = [], cm_secrets = secrets, cm_events = [], cm_metadata_cache = [],
       cm_description_cache = [], cm_metadata_ttl = ttl, cm_metadata_timeout = timeout, cm_repository = None, cm_audit = None \<rparr>"

definition new_manager :: "'s \<Rightarrow> ('s, 'f, 'p) conn_manager" where
  "new_manager secrets = with_metadata_policy secrets 60000 8000"

definition with_persistence :: "'f \<Rightarrow> ('s, 'f, 'p) conn_manager \<Rightarrow> ('s, 'f, 'p) conn_manager" where
  "with_persistence f m = m\<lparr>cm_repository := Some f\<rparr>"

definition with_audit :: "('s, 'f, 'p) conn_manager \<Rightarrow> ('s, 'f, 'p) conn_manager" where
  "with_audit m = m\<lparr>cm_audit := Some []\<rparr>"

text \<open>\<open>entry (id).or_insert_with (unknown)\<close>.\<close>

definition status_entry :: "string \<Rightarrow> (string \<times> connection_status) list \<Rightarrow> (string \<times> connection_status) list" where
  "status_entry i status = (case hm_get status i of None \<Rightarrow> hm_insert i (status_unknown i) status | Some _ \<Rightarrow> status)"

definition load_persisted ::
  "('s, 'w, 'f, 'v) stores \<Rightarrow> ('s, 'f, 'p) conn_manager \<Rightarrow> (connection_manager_error, nat) result \<times> ('s, 'f, 'p) conn_manager" where
  "load_persisted st m =
     (case cm_repository m of
        None \<Rightarrow> (Inr 0, m)
      | Some f \<Rightarrow>
          (case ro_load (st_repository st) f of
             Inl e \<Rightarrow> (Inl e, m)
           | Inr loaded \<Rightarrow>
               (Inr (length loaded),
                m\<lparr>cm_profiles := fold (\<lambda>p. hm_insert (cp_id p) p) loaded (cm_profiles m),
                  cm_status := fold (\<lambda>p. status_entry (cp_id p)) loaded (cm_status m)\<rparr>)))"

definition profile_snapshot :: "(string \<times> connection_profile) list \<Rightarrow> connection_profile list" where
  "profile_snapshot profiles = sort_key cp_name (map snd profiles)"

definition persist_profiles ::
  "('s, 'w, 'f, 'v) stores \<Rightarrow> 'v \<Rightarrow> (string \<times> connection_profile) list \<Rightarrow> ('s, 'f, 'p) conn_manager
    \<Rightarrow> (connection_manager_error, unit) result \<times> ('s, 'f, 'p) conn_manager" where
  "persist_profiles st v profiles m =
     (case cm_repository m of
        None \<Rightarrow> (Inr (), m)
      | Some f \<Rightarrow> (let (q, f') = ro_save (st_repository st) v (profile_snapshot profiles) f in (q, m\<lparr>cm_repository := Some f'\<rparr>)))"

definition record_audit :: "int \<Rightarrow> audit_action \<Rightarrow> string \<Rightarrow> string \<Rightarrow> ('s, 'f, 'p) conn_manager \<Rightarrow> ('s, 'f, 'p) conn_manager" where
  "record_audit secs action i name m =
     m\<lparr>cm_audit := map_option (\<lambda>es. es @ [\<lparr> ae_timestamp = secs, ae_action = action, ae_profile_id = i,
         ae_profile_name = Some name, ae_actor = Some ''api'' \<rparr>]) (cm_audit m)\<rparr>"

definition send_event :: "connection_event \<Rightarrow> ('s, 'f, 'p) conn_manager \<Rightarrow> ('s, 'f, 'p) conn_manager" where
  "send_event e m = m\<lparr>cm_events := cm_events m @ [e]\<rparr>"

definition invalidate_metadata :: "string \<Rightarrow> ('s, 'f, 'p) conn_manager \<Rightarrow> ('s, 'f, 'p) conn_manager" where
  "invalidate_metadata i m =
     m\<lparr>cm_metadata_cache := filter (\<lambda>(key, _). \<not> starts_with (i @ '':'') key) (cm_metadata_cache m),
       cm_description_cache := filter (\<lambda>(key, _). \<not> starts_with (i @ '':'') key) (cm_description_cache m)\<rparr>"

definition register_plugin :: "connection_type \<Rightarrow> 'p connection_plugin \<Rightarrow> ('s, 'f, 'p) conn_manager \<Rightarrow> ('s, 'f, 'p) conn_manager" where
  "register_plugin t pl m = m\<lparr>cm_plugins := hm_insert t pl (cm_plugins m)\<rparr>"

definition adapters :: "('s, 'f, 'p) conn_manager \<Rightarrow> (connection_type \<times> string) list" where
  "adapters m = sort_key snd (map (\<lambda>(t, pl). (t, pl_display_name pl)) (cm_plugins m))"

definition supports :: "connection_type \<Rightarrow> ('s, 'f, 'p) conn_manager \<Rightarrow> bool" where
  "supports t m \<longleftrightarrow> hm_get (cm_plugins m) t \<noteq> None"

definition list_profiles :: "('s, 'f, 'p) conn_manager \<Rightarrow> connection_profile list" where
  "list_profiles m = sort_key cp_name (map snd (cm_profiles m))"

definition get_profile :: "string \<Rightarrow> ('s, 'f, 'p) conn_manager \<Rightarrow> (connection_manager_error, connection_profile) result" where
  "get_profile i m = (case hm_get (cm_profiles m) i of None \<Rightarrow> Inl (CmNotFound i) | Some p \<Rightarrow> Inr p)"

section \<open>Changes of profiles\<close>

definition eq_ignore_ascii_case :: "string \<Rightarrow> string \<Rightarrow> bool" where
  "eq_ignore_ascii_case a b \<longleftrightarrow> to_ascii_lowercase a = to_ascii_lowercase b"

text \<open>A write of the map of profiles; \<open>v\<close> is the outcome of the repository.\<close>

definition upsert_profile ::
  "('s, 'w, 'f, 'v) stores \<Rightarrow> 'v \<Rightarrow> int \<Rightarrow> connection_profile \<Rightarrow> bool \<Rightarrow> ('s, 'f, 'p) conn_manager
    \<Rightarrow> (connection_manager_error, unit) result \<times> ('s, 'f, 'p) conn_manager" where
  "upsert_profile st v secs profile replacing m =
     (let profiles = cm_profiles m; i = cp_id profile; name = cp_name profile
      in if \<exists>c \<in> set (map snd profiles). eq_ignore_ascii_case (cp_name c) name \<and> cp_id c \<noteq> i
         then (Inl (CmDuplicateName name), m)
         else if \<not> replacing \<and> hm_get profiles i \<noteq> None then (Inl (CmDuplicateName name), m)
         else (let pending = hm_insert i profile profiles
               in case persist_profiles st v pending m of
                    (Inl e, m1) \<Rightarrow> (Inl e, m1)
                  | (Inr _, m1) \<Rightarrow>
                      (Inr (),
                       invalidate_metadata i
                         (send_event (ProfileChanged i)
                           (record_audit secs (if replacing then AuUpdated else AuCreated) i name
                             (m1\<lparr>cm_profiles := pending, cm_status := status_entry i (cm_status m1)\<rparr>))))))"

definition create_profile ::
  "('s, 'w, 'f, 'v) stores \<Rightarrow> 'v \<Rightarrow> int \<Rightarrow> string \<Rightarrow> string \<Rightarrow> connection_type \<Rightarrow> connection_endpoint \<Rightarrow> string
    \<Rightarrow> ('s, 'f, 'p) conn_manager \<Rightarrow> (connection_manager_error, connection_profile) result \<times> ('s, 'f, 'p) conn_manager" where
  "create_profile st v secs uuid name t endpoint secret_ref m =
     (let profile = \<lparr> cp_id = uuid, cp_name = name, cp_type = t, cp_endpoint = endpoint, cp_secret_ref = secret_ref, cp_tags = [] \<rparr>
      in case upsert_profile st v secs profile False m of
           (Inl e, m1) \<Rightarrow> (Inl e, m1)
         | (Inr _, m1) \<Rightarrow> (Inr profile, m1))"

definition update_profile ::
  "('s, 'w, 'f, 'v) stores \<Rightarrow> 'v \<Rightarrow> int \<Rightarrow> connection_profile \<Rightarrow> ('s, 'f, 'p) conn_manager
    \<Rightarrow> (connection_manager_error, unit) result \<times> ('s, 'f, 'p) conn_manager" where
  "update_profile st v secs profile m =
     (if hm_get (cm_profiles m) (cp_id profile) = None then (Inl (CmNotFound (cp_id profile)), m)
      else upsert_profile st v secs profile True m)"

text \<open>What a deletion does once the map of profiles is replaced.\<close>

definition publish_deletion ::
  "int \<Rightarrow> connection_profile \<Rightarrow> string \<Rightarrow> (string \<times> connection_profile) list \<Rightarrow> ('s, 'f, 'p) conn_manager \<Rightarrow> ('s, 'f, 'p) conn_manager" where
  "publish_deletion secs profile i pending m =
     send_event (ProfileDeleted i)
       (record_audit secs AuDeleted i (cp_name profile)
         (invalidate_metadata i (m\<lparr>cm_profiles := pending, cm_status := hm_remove i (cm_status m)\<rparr>)))"

definition delete_profile ::
  "('s, 'w, 'f, 'v) stores \<Rightarrow> 'v \<Rightarrow> int \<Rightarrow> string \<Rightarrow> ('s, 'f, 'p) conn_manager
    \<Rightarrow> (connection_manager_error, connection_profile) result \<times> ('s, 'f, 'p) conn_manager" where
  "delete_profile st v secs i m =
     (case hm_get (cm_profiles m) i of
        None \<Rightarrow> (Inl (CmNotFound i), m)
      | Some profile \<Rightarrow>
          (let pending = hm_remove i (cm_profiles m)
           in case persist_profiles st v pending m of
                (Inl e, m1) \<Rightarrow> (Inl e, m1)
              | (Inr _, m1) \<Rightarrow> (Inr profile, publish_deletion secs profile i pending m1)))"

definition store_secret ::
  "('s, 'w, 'f, 'v) stores \<Rightarrow> 'w \<Rightarrow> string \<Rightarrow> connection_secret \<Rightarrow> ('s, 'f, 'p) conn_manager
    \<Rightarrow> (connection_manager_error, unit) result \<times> ('s, 'f, 'p) conn_manager" where
  "store_secret st w r x m = (let (q, s) = so_store (st_secrets st) w r x (cm_secrets m) in (q, m\<lparr>cm_secrets := s\<rparr>))"

definition remove_secret ::
  "('s, 'w, 'f, 'v) stores \<Rightarrow> 'w \<Rightarrow> string \<Rightarrow> ('s, 'f, 'p) conn_manager
    \<Rightarrow> (connection_manager_error, unit) result \<times> ('s, 'f, 'p) conn_manager" where
  "remove_secret st w r m = (let (q, s) = so_remove (st_secrets st) w r (cm_secrets m) in (q, m\<lparr>cm_secrets := s\<rparr>))"

definition resolve_secret ::
  "('s, 'w, 'f, 'v) stores \<Rightarrow> string \<Rightarrow> ('s, 'f, 'p) conn_manager \<Rightarrow> (connection_manager_error, connection_secret) result" where
  "resolve_secret st r m = so_resolve (st_secrets st) r (cm_secrets m)"

definition duplicate_profile ::
  "('s, 'w, 'f, 'v) stores \<Rightarrow> ('w, 'v) manager_call \<Rightarrow> string \<Rightarrow> string \<Rightarrow> ('s, 'f, 'p) conn_manager
    \<Rightarrow> (connection_manager_error, connection_profile) result \<times> ('s, 'f, 'p) conn_manager" where
  "duplicate_profile st c i name m =
     (case get_profile i m of
        Inl e \<Rightarrow> (Inl e, m)
      | Inr original \<Rightarrow>
     (case resolve_secret st (cp_secret_ref original) m of
        Inl e \<Rightarrow> (Inl e, m)
      | Inr secret \<Rightarrow>
          (let secret_ref = ''secret://connection/'' @ mc_uuid c 0
           in case store_secret st (mc_secret c 0) secret_ref secret m of
                (Inl e, m1) \<Rightarrow> (Inl e, m1)
              | (Inr _, m1) \<Rightarrow>
                  (case create_profile st (mc_save c 0) (mc_secs c) (mc_uuid c 1) name (cp_type original) (cp_endpoint original) secret_ref m1 of
                     (Inr profile, m2) \<Rightarrow> (Inr profile, m2)
                   | (Inl e, m2) \<Rightarrow>
                       (case remove_secret st (mc_secret c 1) secret_ref m2 of
                          (Inl _, m3) \<Rightarrow> (Inl (CmPersistence PeRollback), m3)
                        | (Inr _, m3) \<Rightarrow> (Inl e, m3))))))"

definition update_with_secret ::
  "('s, 'w, 'f, 'v) stores \<Rightarrow> ('w, 'v) manager_call \<Rightarrow> connection_profile \<Rightarrow> connection_secret \<Rightarrow> ('s, 'f, 'p) conn_manager
    \<Rightarrow> (connection_manager_error, unit) result \<times> ('s, 'f, 'p) conn_manager" where
  "update_with_secret st c profile secret m =
     (case resolve_secret st (cp_secret_ref profile) m of
        Inl e \<Rightarrow> (Inl e, m)
      | Inr previous \<Rightarrow>
          (case store_secret st (mc_secret c 0) (cp_secret_ref profile) secret m of
             (Inl e, m1) \<Rightarrow> (Inl e, m1)
           | (Inr _, m1) \<Rightarrow>
               (case update_profile st (mc_save c 0) (mc_secs c) profile m1 of
                  (Inr _, m2) \<Rightarrow> (Inr (), m2)
                | (Inl e, m2) \<Rightarrow>
                    (case store_secret st (mc_secret c 1) (cp_secret_ref profile) previous m2 of
                       (Inl _, m3) \<Rightarrow> (Inl (CmPersistence PeRollback), m3)
                     | (Inr _, m3) \<Rightarrow> (Inl e, m3)))))"

definition delete_with_secret ::
  "('s, 'w, 'f, 'v) stores \<Rightarrow> ('w, 'v) manager_call \<Rightarrow> string \<Rightarrow> ('s, 'f, 'p) conn_manager
    \<Rightarrow> (connection_manager_error, connection_profile) result \<times> ('s, 'f, 'p) conn_manager" where
  "delete_with_secret st c i m =
     (let profiles = cm_profiles m
      in case hm_get profiles i of
           None \<Rightarrow> (Inl (CmNotFound i), m)
         | Some profile \<Rightarrow>
             (let secret_ref = cp_secret_ref profile;
                  shared = (\<exists>d \<in> set (map snd profiles). cp_id d \<noteq> i \<and> cp_secret_ref d = secret_ref);
                  pending = hm_remove i profiles
              in case (if shared then Inr () else map_sum id (\<lambda>_. ()) (resolve_secret st secret_ref m)) of
                   Inl e \<Rightarrow> (Inl e, m)
                 | Inr _ \<Rightarrow>
                (case persist_profiles st (mc_save c 0) pending m of
                   (Inl e, m1) \<Rightarrow> (Inl e, m1)
                 | (Inr _, m1) \<Rightarrow>
                (case (if shared then (Inr (), m1) else remove_secret st (mc_secret c 0) secret_ref m1) of
                   (Inr _, m2) \<Rightarrow> (Inr profile, publish_deletion (mc_secs c) profile i pending m2)
                 | (Inl e, m2) \<Rightarrow>
                     (case persist_profiles st (mc_save c 1) profiles m2 of
                        (Inl _, m3) \<Rightarrow> (Inl (CmPersistence PeRollback), m3\<lparr>cm_profiles := pending\<rparr>)
                      | (Inr _, m3) \<Rightarrow> (Inl e, m3))))))"

definition export_profiles :: "('s, 'f, 'p) conn_manager \<Rightarrow> connection_export" where
  "export_profiles m = \<lparr> ce_format = ''jaiba.connections/v1'', ce_profiles = list_profiles m \<rparr>"

text \<open>The loop of an import; the identifiers drawn and the outcomes go by position.\<close>

fun import_profiles ::
  "('s, 'w, 'f, 'v) stores \<Rightarrow> ('w, 'v) manager_call \<Rightarrow> nat \<Rightarrow> connection_profile list \<Rightarrow> ('s, 'f, 'p) conn_manager
    \<Rightarrow> (connection_manager_error, connection_profile list) result \<times> ('s, 'f, 'p) conn_manager" where
  "import_profiles st c n [] m = (Inr [], m)"
| "import_profiles st c n (p # ps) m =
     (let profile = (if cp_id p = [] then p\<lparr>cp_id := mc_uuid c n\<rparr> else p)
      in case upsert_profile st (mc_save c n) (mc_secs c) profile False m of
           (Inl e, m1) \<Rightarrow> (Inl e, m1)
         | (Inr _, m1) \<Rightarrow>
             (case import_profiles st c (Suc n) ps m1 of
                (Inl e, m2) \<Rightarrow> (Inl e, m2)
              | (Inr imported, m2) \<Rightarrow> (Inr (profile # imported), m2)))"

section \<open>Use of the connections\<close>

definition profile_status :: "string \<Rightarrow> ('s, 'f, 'p) conn_manager \<Rightarrow> (connection_manager_error, connection_status) result" where
  "profile_status i m = (case hm_get (cm_status m) i of None \<Rightarrow> Inl (CmNotFound i) | Some x \<Rightarrow> Inr x)"

definition publish_status :: "connection_status \<Rightarrow> ('s, 'f, 'p) conn_manager \<Rightarrow> ('s, 'f, 'p) conn_manager" where
  "publish_status x m = send_event (StatusChanged x) (m\<lparr>cm_status := hm_insert (cs_profile_id x) x (cm_status m)\<rparr>)"

definition set_testing :: "string \<Rightarrow> ('s, 'f, 'p) conn_manager \<Rightarrow> ('s, 'f, 'p) conn_manager" where
  "set_testing i m =
     (let current = (case profile_status i m of Inl _ \<Rightarrow> status_unknown i | Inr x \<Rightarrow> x)
      in publish_status (current\<lparr>cs_availability := AvTesting\<rparr>) m)"

definition plugin_of :: "connection_type \<Rightarrow> ('s, 'f, 'p) conn_manager \<Rightarrow> (connection_manager_error, 'p connection_plugin) result" where
  "plugin_of t m = (case hm_get (cm_plugins m) t of None \<Rightarrow> Inl (CmMissingPlugin t) | Some pl \<Rightarrow> Inr pl)"

definition resolve_connection ::
  "('s, 'w, 'f, 'v) stores \<Rightarrow> string \<Rightarrow> ('s, 'f, 'p) conn_manager
    \<Rightarrow> (connection_manager_error, connection_profile \<times> 'p connection_plugin \<times> connection_secret) result" where
  "resolve_connection st i m =
     (case get_profile i m of
        Inl e \<Rightarrow> Inl e
      | Inr profile \<Rightarrow>
          (case plugin_of (cp_type profile) m of
             Inl e \<Rightarrow> Inl e
           | Inr plugin \<Rightarrow>
               (case resolve_secret st (cp_secret_ref profile) m of
                  Inl e \<Rightarrow> Inl e
                | Inr secret \<Rightarrow> Inr (profile, plugin, secret))))"

text \<open>The status that a test publishes. \<open>redact\<close>: the regular expressions of \<open>redact_sensitive\<close>.\<close>

definition tested_status :: "(string \<Rightarrow> string) \<Rightarrow> string \<Rightarrow> connection_test_result \<Rightarrow> connection_status" where
  "tested_status redact i r =
     \<lparr> cs_profile_id = i, cs_availability = tr_availability r, cs_latency_ms = Some (tr_latency_ms r), cs_version = tr_version r,
       cs_pool_active = map_option ps_active (tr_pool r), cs_pool_maximum = map_option ps_maximum (tr_pool r),
       cs_tested_at = Some (tr_tested_at r), cs_message = map_option redact (tr_message r) \<rparr>"

definition failed_status :: "(string \<Rightarrow> string) \<Rightarrow> string \<Rightarrow> int \<Rightarrow> plugin_error \<Rightarrow> connection_status" where
  "failed_status redact i secs e =
     \<lparr> cs_profile_id = i, cs_availability = AvUnavailable, cs_latency_ms = None, cs_version = None,
       cs_pool_active = None, cs_pool_maximum = None, cs_tested_at = Some secs, cs_message = Some (redact (plugin_error_text e)) \<rparr>"

text \<open>The checks come before the first status; \<open>p\<close> is what the outside decides of the test.\<close>

definition test_connection ::
  "('s, 'w, 'f, 'v) stores \<Rightarrow> (string \<Rightarrow> string) \<Rightarrow> int \<Rightarrow> 'p \<Rightarrow> string \<Rightarrow> ('s, 'f, 'p) conn_manager
    \<Rightarrow> (connection_manager_error, connection_test_result) result \<times> ('s, 'f, 'p) conn_manager" where
  "test_connection st redact secs p i m =
     (case resolve_connection st i m of
        Inl e \<Rightarrow> (Inl e, m)
      | Inr (profile, plugin, secret) \<Rightarrow>
          (let m1 = set_testing i m
           in case pl_test plugin p (cp_endpoint profile) secret of
                Inr r \<Rightarrow> (Inr r, record_audit secs AuTested i (cp_name profile) (publish_status (tested_status redact i r) m1))
              | Inl e \<Rightarrow>
                  (Inl (CmPlugin e), record_audit secs AuTested i (cp_name profile) (publish_status (failed_status redact i secs e) m1))))"

definition diagnose_connection ::
  "('s, 'w, 'f, 'v) stores \<Rightarrow> 'p \<Rightarrow> string \<Rightarrow> ('s, 'f, 'p) conn_manager \<Rightarrow> (connection_manager_error, diagnostic_check list) result" where
  "diagnose_connection st p i m =
     (case resolve_connection st i m of
        Inl e \<Rightarrow> Inl e
      | Inr (profile, plugin, secret) \<Rightarrow> map_sum CmPlugin id (pl_diagnose plugin p (cp_endpoint profile) secret))"

definition metadata_key :: "string \<Rightarrow> string option \<Rightarrow> string" where
  "metadata_key i schema = i @ '':'' @ (case schema of None \<Rightarrow> ''*'' | Some s \<Rightarrow> s)"

definition description_key :: "string \<Rightarrow> database_object \<Rightarrow> string" where
  "description_key i obj = i @ '':'' @ (case do_schema obj of None \<Rightarrow> [] | Some s \<Rightarrow> s) @ '':'' @ do_name obj"

text \<open>What a cache answers: an entry younger than the time to live.\<close>

definition cached :: "nat \<Rightarrow> nat \<Rightarrow> (string \<times> (nat \<times> 'a)) list \<Rightarrow> string \<Rightarrow> 'a option" where
  "cached ttl now cache key =
     (case hm_get cache key of
        None \<Rightarrow> None
      | Some (created, x) \<Rightarrow> if now - created < ttl then Some x else None)"

text \<open>\<open>now\<close>: when the cache is read; \<open>later\<close>: when the answer of the plugin is put in it.\<close>

definition list_objects ::
  "('s, 'w, 'f, 'v) stores \<Rightarrow> nat \<Rightarrow> nat \<Rightarrow> 'p \<Rightarrow> string \<Rightarrow> string option \<Rightarrow> ('s, 'f, 'p) conn_manager
    \<Rightarrow> (connection_manager_error, database_object list) result \<times> ('s, 'f, 'p) conn_manager" where
  "list_objects st now later p i schema m =
     (let key = metadata_key i schema
      in case cached (cm_metadata_ttl m) now (cm_metadata_cache m) key of
           Some objects \<Rightarrow> (Inr objects, m)
         | None \<Rightarrow>
             (case resolve_connection st i m of
                Inl e \<Rightarrow> (Inl e, m)
              | Inr (profile, plugin, secret) \<Rightarrow>
                  (case pl_list_objects plugin p (cp_endpoint profile) secret schema of
                     None \<Rightarrow> (Inl (CmMetadataTimeout (cm_metadata_timeout m)), m)
                   | Some (Inl e) \<Rightarrow> (Inl (CmPlugin e), m)
                   | Some (Inr objects) \<Rightarrow>
                       (Inr objects, m\<lparr>cm_metadata_cache := hm_insert key (later, objects) (cm_metadata_cache m)\<rparr>))))"

definition describe_object ::
  "('s, 'w, 'f, 'v) stores \<Rightarrow> nat \<Rightarrow> nat \<Rightarrow> 'p \<Rightarrow> string \<Rightarrow> database_object \<Rightarrow> ('s, 'f, 'p) conn_manager
    \<Rightarrow> (connection_manager_error, object_description) result \<times> ('s, 'f, 'p) conn_manager" where
  "describe_object st now later p i obj m =
     (let key = description_key i obj
      in case cached (cm_metadata_ttl m) now (cm_description_cache m) key of
           Some d \<Rightarrow> (Inr d, m)
         | None \<Rightarrow>
             (case resolve_connection st i m of
                Inl e \<Rightarrow> (Inl e, m)
              | Inr (profile, plugin, secret) \<Rightarrow>
                  (case pl_describe_object plugin p (cp_endpoint profile) secret obj of
                     None \<Rightarrow> (Inl (CmMetadataTimeout (cm_metadata_timeout m)), m)
                   | Some (Inl e) \<Rightarrow> (Inl (CmPlugin e), m)
                   | Some (Inr d) \<Rightarrow>
                       (Inr d, m\<lparr>cm_description_cache := hm_insert key (later, d) (cm_description_cache m)\<rparr>))))"

definition compile_query ::
  "string \<Rightarrow> query_spec \<Rightarrow> ('s, 'f, 'p) conn_manager \<Rightarrow> (connection_manager_error, compiled_query) result" where
  "compile_query i q m =
     (case get_profile i m of
        Inl e \<Rightarrow> Inl e
      | Inr profile \<Rightarrow>
          (case plugin_of (cp_type profile) m of
             Inl e \<Rightarrow> Inl e
           | Inr plugin \<Rightarrow> map_sum CmPlugin id (pl_compile_query plugin q)))"

section \<open>The invariant\<close>

definition names_apart :: "(string \<times> connection_profile) list \<Rightarrow> bool" where
  "names_apart profiles \<longleftrightarrow>
     (\<forall>(i, p) \<in> set profiles. \<forall>(j, q) \<in> set profiles. eq_ignore_ascii_case (cp_name p) (cp_name q) \<longrightarrow> i = j)"

definition profiles_ok :: "(string \<times> connection_profile) list \<Rightarrow> bool" where
  "profiles_ok profiles \<longleftrightarrow>
     hm_wf profiles \<and> names_apart profiles \<and> (\<forall>(i, p) \<in> set profiles. cp_id p = i \<and> type_canonical (cp_type p))"

text \<open>The repository holds the profiles in memory, and every profile has a status.\<close>

definition manager_ok :: "('f, 'v) repository_ops \<Rightarrow> ('s, 'f, 'p) conn_manager \<Rightarrow> bool" where
  "manager_ok rops m \<longleftrightarrow>
     profiles_ok (cm_profiles m) \<and>
     (\<forall>f. cm_repository m = Some f \<longrightarrow> ro_load rops f = Inr (profile_snapshot (cm_profiles m))) \<and>
     fst ` set (cm_profiles m) \<subseteq> fst ` set (cm_status m)"

lemma profiles_ok_insert:
  assumes "profiles_ok profiles" and "type_canonical (cp_type p)"
    and "\<not> (\<exists>c \<in> set (map snd profiles). eq_ignore_ascii_case (cp_name c) (cp_name p) \<and> cp_id c \<noteq> cp_id p)"
  shows "profiles_ok (hm_insert (cp_id p) p profiles)"
proof -
  have wf: "hm_wf profiles" using assms(1) by (simp add: profiles_ok_def)
  have in_set: "(j, q) \<in> set (hm_insert (cp_id p) p profiles) \<longleftrightarrow> (if j = cp_id p then q = p else (j, q) \<in> set profiles)" for j q
    using hm_get_Some_iff [OF wf, of j q] hm_get_Some_iff [OF hm_wf_insert [OF wf], of "cp_id p" p j q] by auto
  have ids: "cp_id d = k" if "(k, d) \<in> set profiles" for k d using assms(1) that by (auto simp: profiles_ok_def)
  have new: "k = cp_id p" if "(k, d) \<in> set profiles" "eq_ignore_ascii_case (cp_name d) (cp_name p)" for k d
    using assms(3) that ids by force
  have sym: "eq_ignore_ascii_case a b = eq_ignore_ascii_case b a" for a b by (auto simp: eq_ignore_ascii_case_def)
  have "i = j" if "(i, a) \<in> set (hm_insert (cp_id p) p profiles)" "(j, b) \<in> set (hm_insert (cp_id p) p profiles)"
    "eq_ignore_ascii_case (cp_name a) (cp_name b)" for i a j b
  proof (cases "i = cp_id p"; cases "j = cp_id p")
    assume "i \<noteq> cp_id p" "j \<noteq> cp_id p"
    with that assms(1) show ?thesis unfolding in_set profiles_ok_def names_apart_def by fastforce
  qed (use that new sym in \<open>auto simp: in_set\<close>)
  then have "names_apart (hm_insert (cp_id p) p profiles)" unfolding names_apart_def by blast
  then show ?thesis using assms(1,2) wf by (auto simp: profiles_ok_def in_set split: if_splits)
qed

lemma profiles_ok_remove:
  assumes "profiles_ok profiles"
  shows "profiles_ok (hm_remove i profiles)"
proof -
  have "set (hm_remove i profiles) \<subseteq> set profiles" using in_hm_remove by fast
  moreover have "hm_wf (hm_remove i profiles)" using assms by (simp add: profiles_ok_def)
  ultimately show ?thesis
    using assms unfolding profiles_ok_def names_apart_def split_beta by (intro conjI) blast+
qed

text \<open>The operations and what they keep, over any secret store and repository that keep their contracts.\<close>

abbreviation stores_of :: "('s, 'w) secret_ops \<Rightarrow> ('f, 'v) repository_ops \<Rightarrow> ('s, 'w, 'f, 'v) stores" where
  "stores_of sops rops \<equiv> \<lparr> st_secrets = sops, st_repository = rops \<rparr>"

definition repository_holds :: "('f, 'v) repository_ops \<Rightarrow> ('s, 'f, 'p) conn_manager \<Rightarrow> (string \<times> connection_profile) list \<Rightarrow> bool" where
  "repository_holds rops m profiles \<longleftrightarrow>
     (\<forall>f. cm_repository m = Some f \<longrightarrow> ro_load rops f = Inr (profile_snapshot profiles))"

lemma manager_ok_iff:
  "manager_ok rops m \<longleftrightarrow> profiles_ok (cm_profiles m) \<and> repository_holds rops m (cm_profiles m) \<and>
     fst ` set (cm_profiles m) \<subseteq> fst ` set (cm_status m)"
  by (simp add: manager_ok_def repository_holds_def)

text \<open>What an operation changes of the rest does not matter to the invariant.\<close>

named_theorems manager_frame

lemma frames [manager_frame]:
  "cm_profiles (record_audit secs a i n m) = cm_profiles m" "cm_status (record_audit secs a i n m) = cm_status m"
  "cm_repository (record_audit secs a i n m) = cm_repository m" "cm_secrets (record_audit secs a i n m) = cm_secrets m"
  "cm_plugins (record_audit secs a i n m) = cm_plugins m"
  "cm_profiles (send_event e m) = cm_profiles m" "cm_status (send_event e m) = cm_status m"
  "cm_repository (send_event e m) = cm_repository m" "cm_secrets (send_event e m) = cm_secrets m"
  "cm_plugins (send_event e m) = cm_plugins m"
  "cm_profiles (invalidate_metadata i m) = cm_profiles m" "cm_status (invalidate_metadata i m) = cm_status m"
  "cm_repository (invalidate_metadata i m) = cm_repository m" "cm_secrets (invalidate_metadata i m) = cm_secrets m"
  "cm_plugins (invalidate_metadata i m) = cm_plugins m"
  by (simp_all add: record_audit_def send_event_def invalidate_metadata_def)

lemma fst_hm_insert [simp]: "fst ` set (hm_insert k v m) = insert k (fst ` set m)"
  by (metis dom_map_of_conv_image_fst dom_fun_upd option.distinct(1) update_conv')

lemma fst_hm_remove [simp]: "fst ` set (hm_remove k m) = fst ` set m - {k}"
  by (auto simp: hm_remove_filter image_iff split_beta) 

lemma fst_status_entry: "fst ` set (status_entry i status) = insert i (fst ` set status)"
  by (cases "hm_get status i") (auto simp: status_entry_def dest: hm_get_in_set intro: image_eqI [rotated])

locale connection_stores = secret_store sops sinv holds + profile_repository rops
  for sops :: "('s, 'w) secret_ops" and sinv :: "'s \<Rightarrow> bool" and holds :: "'s \<Rightarrow> string \<Rightarrow> connection_secret option"
    and rops :: "('f, 'v) repository_ops"
begin

lemma persisted:
  assumes "profiles_ok pending" and "repository_holds rops m profiles"
    and "persist_profiles (stores_of sops rops) v pending m = (q, m')"
  shows "repository_holds rops m' (if q = Inr () then pending else profiles)" "\<exists>r. m' = m\<lparr>cm_repository := r\<rparr>"
proof -
  have "\<forall>p \<in> set (profile_snapshot pending). type_canonical (cp_type p)"
    using assms(1) by (auto simp: profile_snapshot_def profiles_ok_def)
  from save [OF this] show "repository_holds rops m' (if q = Inr () then pending else profiles)"
    using assms(2,3) by (auto simp: persist_profiles_def repository_holds_def split: option.splits prod.splits)
  show "\<exists>r. m' = m\<lparr>cm_repository := r\<rparr>"
    using assms(3) by (auto simp: persist_profiles_def split: option.splits prod.splits)
      (metis conn_manager.surjective conn_manager.update_convs(10))
qed

lemma upsert_outcome:
  assumes "manager_ok rops m" and "type_canonical (cp_type p)"
    and "upsert_profile (stores_of sops rops) v secs p replacing m = (q, m')"
  shows "manager_ok rops m'" "cm_secrets m' = cm_secrets m"
    "cm_profiles m' = (if q = Inr () then hm_insert (cp_id p) p (cm_profiles m) else cm_profiles m)"
proof -
  let ?pending = "hm_insert (cp_id p) p (cm_profiles m)"
  have ok: "profiles_ok (cm_profiles m)" "repository_holds rops m (cm_profiles m)" "fst ` set (cm_profiles m) \<subseteq> fst ` set (cm_status m)"
    using assms(1) by (simp_all add: manager_ok_iff)
  have "manager_ok rops m' \<and> cm_secrets m' = cm_secrets m \<and>
    cm_profiles m' = (if q = Inr () then ?pending else cm_profiles m)"
  proof (cases "(\<exists>c \<in> set (map snd (cm_profiles m)). eq_ignore_ascii_case (cp_name c) (cp_name p) \<and> cp_id c \<noteq> cp_id p) \<or>
      \<not> replacing \<and> hm_get (cm_profiles m) (cp_id p) \<noteq> None")
    case True
    then have "q = Inl (CmDuplicateName (cp_name p)) \<and> m' = m" using assms(3) by (simp add: upsert_profile_def Let_def split: if_splits)
    with assms(1) show ?thesis by simp
  next
    case False
    then have c: "\<not> (\<exists>c \<in> set (map snd (cm_profiles m)). eq_ignore_ascii_case (cp_name c) (cp_name p) \<and> cp_id c \<noteq> cp_id p)"
      "\<not> (\<not> replacing \<and> hm_get (cm_profiles m) (cp_id p) \<noteq> None)" by blast+
    have pok: "profiles_ok ?pending" by (rule profiles_ok_insert [OF ok(1) assms(2) c(1)])
    obtain w m1 where w: "persist_profiles (stores_of sops rops) v ?pending m = (w, m1)" by fastforce
    from persisted [OF pok ok(2) w] obtain r where r: "m1 = m\<lparr>cm_repository := r\<rparr>"
      "repository_holds rops m1 (if w = Inr () then ?pending else cm_profiles m)" by blast
    have "(q, m') = (case w of Inl e \<Rightarrow> (Inl e, m1) | Inr _ \<Rightarrow> (Inr (), invalidate_metadata (cp_id p) (send_event (ProfileChanged (cp_id p))
        (record_audit secs (if replacing then AuUpdated else AuCreated) (cp_id p) (cp_name p)
          (m1\<lparr>cm_profiles := ?pending, cm_status := status_entry (cp_id p) (cm_status m1)\<rparr>)))))"
      using assms(3) unfolding upsert_profile_def Let_def if_not_P [OF c(1)] if_not_P [OF c(2)] w by (simp split: sum.splits)
    then show ?thesis
      using r ok pok
      by (cases w) (auto simp: manager_ok_iff repository_holds_def manager_frame fst_status_entry)
  qed
  then show "manager_ok rops m'" "cm_secrets m' = cm_secrets m"
    "cm_profiles m' = (if q = Inr () then ?pending else cm_profiles m)" by blast+
qed

lemma update_outcome:
  assumes "manager_ok rops m" and "type_canonical (cp_type p)"
    and "update_profile (stores_of sops rops) v secs p m = (q, m')"
  shows "manager_ok rops m'" "cm_secrets m' = cm_secrets m"
    "cm_profiles m' = (if q = Inr () then hm_insert (cp_id p) p (cm_profiles m) else cm_profiles m)"
  using assms upsert_outcome [OF assms(1,2), of v secs True q m']
  by (auto simp: update_profile_def split: if_splits)

lemma create_outcome:
  assumes "manager_ok rops m" and "type_canonical t"
    and "create_profile (stores_of sops rops) v secs uuid name t endpoint r m = (q, m')"
  shows "manager_ok rops m'" "cm_secrets m' = cm_secrets m"
    "cm_profiles m' = (case q of Inl _ \<Rightarrow> cm_profiles m | Inr p \<Rightarrow> hm_insert uuid p (cm_profiles m))"
    "q = Inr p \<Longrightarrow> cp_id p = uuid \<and> cp_secret_ref p = r"
proof -
  let ?p = "\<lparr> cp_id = uuid, cp_name = name, cp_type = t, cp_endpoint = endpoint, cp_secret_ref = r, cp_tags = [] \<rparr>"
  obtain w m1 where w: "upsert_profile (stores_of sops rops) v secs ?p False m = (w, m1)" by fastforce
  from upsert_outcome [OF assms(1) _ w] assms(2,3) w
  show "manager_ok rops m'" "cm_secrets m' = cm_secrets m"
    "cm_profiles m' = (case q of Inl _ \<Rightarrow> cm_profiles m | Inr p \<Rightarrow> hm_insert uuid p (cm_profiles m))"
    "q = Inr p \<Longrightarrow> cp_id p = uuid \<and> cp_secret_ref p = r"
    by (auto simp: create_profile_def Let_def split: sum.splits)
qed

lemma publish_deletion_frame:
  "cm_profiles (publish_deletion secs p i pending m) = pending" "cm_secrets (publish_deletion secs p i pending m) = cm_secrets m"
  "cm_repository (publish_deletion secs p i pending m) = cm_repository m"
  "cm_status (publish_deletion secs p i pending m) = hm_remove i (cm_status m)"
  by (simp_all add: publish_deletion_def manager_frame)

lemma publish_deletion_ok:
  assumes "manager_ok rops m" and "repository_holds rops m1 (hm_remove i (cm_profiles m))" and "cm_status m1 = cm_status m"
  shows "manager_ok rops (publish_deletion secs p i (hm_remove i (cm_profiles m)) m1)"
  using assms by (auto simp: manager_ok_iff repository_holds_def publish_deletion_frame profiles_ok_remove)

lemma delete_outcome:
  assumes "manager_ok rops m" and "delete_profile (stores_of sops rops) v secs i m = (q, m')"
  shows "manager_ok rops m'" "cm_secrets m' = cm_secrets m"
    "cm_profiles m' = (case q of Inl _ \<Rightarrow> cm_profiles m | Inr _ \<Rightarrow> hm_remove i (cm_profiles m))"
proof -
  have ok: "profiles_ok (hm_remove i (cm_profiles m))" "repository_holds rops m (cm_profiles m)"
    using assms(1) by (auto simp: manager_ok_iff profiles_ok_remove)
  obtain w m1 where w: "persist_profiles (stores_of sops rops) v (hm_remove i (cm_profiles m)) m = (w, m1)" by fastforce
  from persisted [OF ok w] obtain r where r: "m1 = m\<lparr>cm_repository := r\<rparr>"
      "repository_holds rops m1 (if w = Inr () then hm_remove i (cm_profiles m) else cm_profiles m)" by blast
  have "manager_ok rops m' \<and> cm_secrets m' = cm_secrets m \<and>
    cm_profiles m' = (case q of Inl _ \<Rightarrow> cm_profiles m | Inr _ \<Rightarrow> hm_remove i (cm_profiles m))"
  proof (cases "hm_get (cm_profiles m) i")
    case None
    with assms show ?thesis by (auto simp: delete_profile_def)
  next
    case (Some p)
    show ?thesis
    proof (cases w)
      case (Inl e)
      then have "q = Inl e \<and> m' = m1" using assms(2) Some w by (simp add: delete_profile_def)
      with Inl r assms(1) show ?thesis by (simp add: manager_ok_iff repository_holds_def)
    next
      case (Inr u)
      then have "q = Inr p \<and> m' = publish_deletion secs p i (hm_remove i (cm_profiles m)) m1"
        using assms(2) Some w by (simp add: delete_profile_def)
      moreover have "cm_status m1 = cm_status m" "cm_secrets m1 = cm_secrets m" using r(1) by simp_all
      ultimately show ?thesis
        using Inr r(2) publish_deletion_ok [OF assms(1), of m1 i secs p] by (simp add: publish_deletion_frame)
    qed
  qed
  then show "manager_ok rops m'" "cm_secrets m' = cm_secrets m"
    "cm_profiles m' = (case q of Inl _ \<Rightarrow> cm_profiles m | Inr _ \<Rightarrow> hm_remove i (cm_profiles m))" by blast+
qed

lemma secret_outcome:
  assumes "sinv (cm_secrets m)"
  shows "store_secret (stores_of sops rops) w r x m = (q, m') \<Longrightarrow>
      \<exists>s. m' = m\<lparr>cm_secrets := s\<rparr> \<and> sinv s \<and> holds s = (if q = Inr () then (holds (cm_secrets m))(r \<mapsto> x) else holds (cm_secrets m))"
    "remove_secret (stores_of sops rops) w r m = (q, m') \<Longrightarrow>
      \<exists>s. m' = m\<lparr>cm_secrets := s\<rparr> \<and> sinv s \<and> holds s = (if q = Inr () then (holds (cm_secrets m))(r := None) else holds (cm_secrets m))"
  using store [OF assms, of w r x] remove [OF assms, of w r]
  by (auto simp: store_secret_def remove_secret_def split: prod.splits)

lemma manager_ok_secrets: "manager_ok rops (m\<lparr>cm_secrets := s\<rparr>) = manager_ok rops m"
  by (simp add: manager_ok_def)

lemma update_with_secret_outcome:
  assumes "manager_ok rops m" and "sinv (cm_secrets m)" and "type_canonical (cp_type p)"
    and "update_with_secret (stores_of sops rops) c p x m = (q, m')"
  shows "manager_ok rops m' \<and> sinv (cm_secrets m') \<and>
    (case q of
       Inr _ \<Rightarrow> cm_profiles m' = hm_insert (cp_id p) p (cm_profiles m) \<and>
         holds (cm_secrets m') = (holds (cm_secrets m))(cp_secret_ref p \<mapsto> x)
     | Inl e \<Rightarrow> cm_profiles m' = cm_profiles m \<and>
         (e \<noteq> CmPersistence PeRollback \<longrightarrow> holds (cm_secrets m') = holds (cm_secrets m)))"
proof (cases "holds (cm_secrets m) (cp_secret_ref p)")
  case None
  then have "q = Inl (CmSecretUnavailable (cp_secret_ref p)) \<and> m' = m"
    using assms(4) by (simp add: update_with_secret_def resolve_secret_def resolve [OF assms(2)])
  with assms(1,2) show ?thesis by simp
next
  case (Some old)
  then have res: "resolve_secret (stores_of sops rops) (cp_secret_ref p) m = Inr old"
    by (simp add: resolve_secret_def resolve [OF assms(2)])
  obtain w1 m1 where w1: "store_secret (stores_of sops rops) (mc_secret c 0) (cp_secret_ref p) x m = (w1, m1)" by fastforce
  from secret_outcome(1) [OF assms(2) w1] obtain s1 where s1: "m1 = m\<lparr>cm_secrets := s1\<rparr>" "sinv s1"
    "holds s1 = (if w1 = Inr () then (holds (cm_secrets m))(cp_secret_ref p \<mapsto> x) else holds (cm_secrets m))" by blast
  have ok1: "manager_ok rops m1" using s1(1) assms(1) by (simp add: manager_ok_secrets)
  obtain w2 m2 where w2: "update_profile (stores_of sops rops) (mc_save c 0) (mc_secs c) p m1 = (w2, m2)" by fastforce
  have o2: "manager_ok rops m2" "cm_secrets m2 = s1"
    "cm_profiles m2 = (if w2 = Inr () then hm_insert (cp_id p) p (cm_profiles m) else cm_profiles m)"
    using update_outcome [OF ok1 assms(3) w2] s1(1) by simp_all
  obtain w3 m3 where w3: "store_secret (stores_of sops rops) (mc_secret c 1) (cp_secret_ref p) old m2 = (w3, m3)" by fastforce
  from secret_outcome(1) [OF _ w3] o2(2) s1(2) obtain s3 where s3: "m3 = m2\<lparr>cm_secrets := s3\<rparr>" "sinv s3"
    "holds s3 = (if w3 = Inr () then (holds s1)(cp_secret_ref p \<mapsto> old) else holds s1)" by auto
  show ?thesis
    using assms(1,4) Some res w1 w2 w3 s1 s3 o2 ok1
    by (cases w1; cases w2; cases w3) (auto simp: update_with_secret_def manager_ok_secrets fun_upd_idem)
qed

lemma delete_with_secret_outcome:
  assumes "manager_ok rops m" and "sinv (cm_secrets m)"
    and "delete_with_secret (stores_of sops rops) c i m = (q, m')"
  shows "manager_ok rops m' \<and> sinv (cm_secrets m') \<and>
    (case q of
       Inr p \<Rightarrow> hm_get (cm_profiles m) i = Some p \<and> cm_profiles m' = hm_remove i (cm_profiles m) \<and>
         holds (cm_secrets m') =
           (if \<exists>d \<in> set (map snd (cm_profiles m)). cp_id d \<noteq> i \<and> cp_secret_ref d = cp_secret_ref p then holds (cm_secrets m)
            else (holds (cm_secrets m))(cp_secret_ref p := None))
     | Inl e \<Rightarrow> holds (cm_secrets m') = holds (cm_secrets m) \<and>
         (cm_profiles m' = cm_profiles m \<or> e = CmPersistence PeRollback \<and> cm_profiles m' = hm_remove i (cm_profiles m)))"
proof (cases "hm_get (cm_profiles m) i")
  case None
  then have "q = Inl (CmNotFound i) \<and> m' = m" using assms(3) by (simp add: delete_with_secret_def)
  with assms(1,2) show ?thesis by simp
next
  case (Some p)
  let ?pending = "hm_remove i (cm_profiles m)"
  define shared where "shared \<longleftrightarrow> (\<exists>d \<in> set (map snd (cm_profiles m)). cp_id d \<noteq> i \<and> cp_secret_ref d = cp_secret_ref p)"
  define checked where "checked = (if shared then Inr () else map_sum id (\<lambda>_. ()) (resolve_secret (stores_of sops rops) (cp_secret_ref p) m))"
  have ok: "profiles_ok (cm_profiles m)" "profiles_ok ?pending" "repository_holds rops m (cm_profiles m)"
    "fst ` set (cm_profiles m) \<subseteq> fst ` set (cm_status m)"
    using assms(1) by (simp_all add: manager_ok_iff profiles_ok_remove)
  obtain w1 m1 where w1: "persist_profiles (stores_of sops rops) (mc_save c 0) ?pending m = (w1, m1)" by fastforce
  from persisted [OF ok(2,3) w1] obtain r1 where r1: "m1 = m\<lparr>cm_repository := r1\<rparr>"
    "repository_holds rops m1 (if w1 = Inr () then ?pending else cm_profiles m)" by blast
  obtain w2 m2 where w2: "(if shared then (Inr (), m1) else remove_secret (stores_of sops rops) (mc_secret c 0) (cp_secret_ref p) m1) = (w2, m2)"
    by fastforce
  have "\<exists>s. m2 = m1\<lparr>cm_secrets := s\<rparr> \<and> sinv s \<and>
    holds s = (if w2 = Inr () \<and> \<not> shared then (holds (cm_secrets m))(cp_secret_ref p := None) else holds (cm_secrets m))"
  proof (cases shared)
    case True
    then show ?thesis using w2 r1(1) assms(2) by (intro exI [of _ "cm_secrets m"]) auto
  next
    case False
    then show ?thesis using secret_outcome(2) [of m1 "mc_secret c 0" "cp_secret_ref p" w2 m2] w2 r1(1) assms(2) by auto
  qed
  then obtain s2 where s2: "m2 = m1\<lparr>cm_secrets := s2\<rparr>" "sinv s2"
    "holds s2 = (if w2 = Inr () \<and> \<not> shared then (holds (cm_secrets m))(cp_secret_ref p := None) else holds (cm_secrets m))" by blast
  obtain w3 m3 where w3: "persist_profiles (stores_of sops rops) (mc_save c 1) (cm_profiles m) m2 = (w3, m3)" by fastforce
  have eq: "(q, m') = (case checked of Inl e \<Rightarrow> (Inl e, m) | Inr _ \<Rightarrow>
     (case w1 of Inl e \<Rightarrow> (Inl e, m1) | Inr _ \<Rightarrow>
     (case w2 of Inr _ \<Rightarrow> (Inr p, publish_deletion (mc_secs c) p i ?pending m2)
      | Inl e \<Rightarrow> (case w3 of Inl _ \<Rightarrow> (Inl (CmPersistence PeRollback), m3\<lparr>cm_profiles := ?pending\<rparr>) | Inr _ \<Rightarrow> (Inl e, m3)))))"
    unfolding assms(3) [symmetric] delete_with_secret_def Let_def Some option.case shared_def [symmetric] checked_def [symmetric]
      w1 w2 prod.case w3
    by (simp split: sum.splits prod.splits add: w2 w3)
  show ?thesis
  proof (cases checked)
    case (Inl e)
    with eq assms(1,2) show ?thesis by simp
  next
    case (Inr u)
    show ?thesis
    proof (cases w1)
      case (Inl e)
      with eq Inr r1 ok assms(2) show ?thesis by (simp add: manager_ok_iff repository_holds_def)
    next
      case ok1: (Inr u1)
      then have h2: "repository_holds rops m2 ?pending" using r1(2) s2(1) by (simp add: repository_holds_def)
      show ?thesis
      proof (cases w2)
        case (Inr u2)
        with eq \<open>checked = Inr u\<close> ok1 have "q = Inr p \<and> m' = publish_deletion (mc_secs c) p i ?pending m2" by simp
        moreover have "cm_status m2 = cm_status m" "cm_secrets m2 = s2" using s2(1) r1(1) by simp_all
        ultimately show ?thesis
          using publish_deletion_ok [OF assms(1) h2, of "mc_secs c" p] s2 Inr Some
          by (auto simp: publish_deletion_frame shared_def)
      next
        case (Inl e)
        from persisted [OF ok(1) h2 w3] obtain r3 where r3: "m3 = m2\<lparr>cm_repository := r3\<rparr>"
          "repository_holds rops m3 (if w3 = Inr () then cm_profiles m else ?pending)" by blast
        have m3: "cm_profiles m3 = cm_profiles m" "cm_status m3 = cm_status m" "cm_secrets m3 = s2"
          using r3(1) s2(1) r1(1) by simp_all
        have h: "holds s2 = holds (cm_secrets m)" using s2(3) Inl by simp
        show ?thesis
        proof (cases w3)
          case (Inr u3)
          with eq \<open>checked = Inr u\<close> ok1 Inl have "q = Inl e \<and> m' = m3" by simp
          with Inr r3(2) ok m3 h s2(2) show ?thesis by (simp add: manager_ok_iff)
        next
          case (Inl e3)
          with eq \<open>checked = Inr u\<close> ok1 \<open>w2 = Inl e\<close> have "q = Inl (CmPersistence PeRollback) \<and> m' = m3\<lparr>cm_profiles := ?pending\<rparr>" by simp
          with Inl r3(2) ok m3 h s2(2) show ?thesis by (auto simp: manager_ok_iff repository_holds_def)
        qed
      qed
    qed
  qed
qed

lemma duplicate_outcome:
  assumes "manager_ok rops m" and "sinv (cm_secrets m)"
    and "duplicate_profile (stores_of sops rops) c i name m = (q, m')"
  shows "manager_ok rops m' \<and> sinv (cm_secrets m')"
proof (cases "hm_get (cm_profiles m) i")
  case None
  with assms show ?thesis by (simp add: duplicate_profile_def get_profile_def)
next
  case (Some p)
  show ?thesis
  proof (cases "holds (cm_secrets m) (cp_secret_ref p)")
    case None
    with Some assms show ?thesis
      by (simp add: duplicate_profile_def get_profile_def resolve_secret_def resolve [OF assms(2)])
  next
    case (Some x)
    let ?r = "''secret://connection/'' @ mc_uuid c 0"
    have p: "type_canonical (cp_type p)"
      using \<open>hm_get (cm_profiles m) i = Some p\<close> assms(1) by (auto simp: manager_ok_iff profiles_ok_def dest!: hm_get_in_set)
    obtain w1 m1 where w1: "store_secret (stores_of sops rops) (mc_secret c 0) ?r x m = (w1, m1)" by fastforce
    from secret_outcome(1) [OF assms(2) w1] assms(1) have m1: "manager_ok rops m1" "sinv (cm_secrets m1)"
      by (auto simp: manager_ok_secrets)
    obtain w2 m2 where w2: "create_profile (stores_of sops rops) (mc_save c 0) (mc_secs c) (mc_uuid c 1) name (cp_type p) (cp_endpoint p) ?r m1 = (w2, m2)"
      by (metis surj_pair)
    from create_outcome(1,2) [OF m1(1) p w2] m1(2) have m2: "manager_ok rops m2" "sinv (cm_secrets m2)" by simp_all
    obtain w3 m3 where w3: "remove_secret (stores_of sops rops) (mc_secret c 1) ?r m2 = (w3, m3)" by fastforce
    from secret_outcome(2) [OF m2(2) w3] m2(1) have m3: "manager_ok rops m3" "sinv (cm_secrets m3)"
      by (auto simp: manager_ok_secrets)
    have "m' = m1 \<or> m' = m2 \<or> m' = m3"
      using assms(3) \<open>hm_get (cm_profiles m) i = Some p\<close> Some w1 w2 w3
      by (simp add: duplicate_profile_def get_profile_def resolve_secret_def resolve [OF assms(2)] Let_def split: sum.splits)
    with m1 m2 m3 show ?thesis by blast
  qed
qed

lemma import_outcome:
  "manager_ok rops m \<Longrightarrow> \<forall>p \<in> set ps. type_canonical (cp_type p) \<Longrightarrow>
    import_profiles (stores_of sops rops) c n ps m = (q, m') \<Longrightarrow> manager_ok rops m' \<and> cm_secrets m' = cm_secrets m"
proof (induction ps arbitrary: n m q m')
  case (Cons p ps)
  let ?p = "if cp_id p = [] then p\<lparr>cp_id := mc_uuid c n\<rparr> else p"
  obtain w m1 where w: "upsert_profile (stores_of sops rops) (mc_save c n) (mc_secs c) ?p False m = (w, m1)" by fastforce
  have m1: "manager_ok rops m1" "cm_secrets m1 = cm_secrets m"
    using upsert_outcome [OF Cons.prems(1) _ w] Cons.prems(2) by auto
  obtain w2 m2 where w2: "import_profiles (stores_of sops rops) c (Suc n) ps m1 = (w2, m2)" by fastforce
  have "manager_ok rops m2 \<and> cm_secrets m2 = cm_secrets m1"
    using Cons.IH [OF m1(1) _ w2] Cons.prems(2) by simp
  moreover have "m' = m1 \<or> m' = m2"
    using Cons.prems(3) w w2 by (auto simp: Let_def split: sum.splits)
  ultimately show ?case using m1 by auto
qed simp

end

text \<open>What else the manager does leaves the profiles and their repository as they are.\<close>

lemma manager_ok_frame:
  "cm_profiles m' = cm_profiles m \<Longrightarrow> cm_repository m' = cm_repository m \<Longrightarrow>
    fst ` set (cm_status m) \<subseteq> fst ` set (cm_status m') \<Longrightarrow> manager_ok rops m \<Longrightarrow> manager_ok rops m'"
  unfolding manager_ok_def by simp blast

lemma publish_status_frame [manager_frame]:
  "cm_profiles (publish_status x m) = cm_profiles m" "cm_repository (publish_status x m) = cm_repository m"
  "cm_secrets (publish_status x m) = cm_secrets m" "cm_status (publish_status x m) = hm_insert (cs_profile_id x) x (cm_status m)"
  by (simp_all add: publish_status_def manager_frame)

lemma set_testing_frame [manager_frame]:
  "cm_profiles (set_testing i m) = cm_profiles m" "cm_repository (set_testing i m) = cm_repository m"
  "cm_secrets (set_testing i m) = cm_secrets m" "fst ` set (cm_status m) \<subseteq> fst ` set (cm_status (set_testing i m))"
  by (auto simp: set_testing_def manager_frame Let_def)

lemma test_frame:
  assumes "test_connection st redact secs p i m = (q, m')"
  shows "cm_profiles m' = cm_profiles m" "cm_repository m' = cm_repository m" "cm_secrets m' = cm_secrets m"
    "fst ` set (cm_status m) \<subseteq> fst ` set (cm_status m')"
proof -
  have "m' = m \<or> (\<exists>x n. m' = record_audit secs AuTested i n (publish_status x (set_testing i m)))"
    using assms by (auto simp: test_connection_def Let_def split: sum.splits) blast+
  then show "cm_profiles m' = cm_profiles m" "cm_repository m' = cm_repository m" "cm_secrets m' = cm_secrets m"
    "fst ` set (cm_status m) \<subseteq> fst ` set (cm_status m')"
    using set_testing_frame(4) [of m i] by (elim disjE exE; simp add: manager_frame subset_insertI2)+
qed

lemma exploration_frame:
  assumes "list_objects st now later p i schema m = (q, m') \<or> describe_object st now later p i obj m = (d, m')"
  shows "cm_profiles m' = cm_profiles m \<and> cm_repository m' = cm_repository m \<and> cm_secrets m' = cm_secrets m \<and> cm_status m' = cm_status m"
  using assms by (auto simp: list_objects_def describe_object_def Let_def split: option.splits sum.splits)

section \<open>What a file of profiles loads\<close>

lemma fold_hm_insert:
  "distinct (map key L) \<Longrightarrow> hm_get (fold (\<lambda>p. hm_insert (key p) p) L m) = hm_get m ++ map_of (map (\<lambda>p. (key p, p)) L)"
proof (induction L arbitrary: m)
  case (Cons p L)
  then have "key p \<notin> dom (map_of (map (\<lambda>p. (key p, p)) L))" by (auto simp: dom_map_of_conv_image_fst)
  with Cons show ?case by (auto simp: fun_eq_iff map_add_def split: option.splits)
qed simp

lemma hm_wf_fold_insert: "hm_wf m \<Longrightarrow> hm_wf (fold (\<lambda>p. hm_insert (key p) p) L m)"
  by (induction L arbitrary: m) auto

lemma hm_eq_set:
  assumes "hm_wf m" and "hm_wf m'" and "hm_get m = hm_get m'"
  shows "set m = set m'"
proof -
  have "x \<in> set m \<longleftrightarrow> x \<in> set m'" for x
    using assms(3) hm_get_Some_iff [OF assms(1), of "fst x" "snd x"] hm_get_Some_iff [OF assms(2), of "fst x" "snd x"]
    by simp
  then show ?thesis by blast
qed

lemma profiles_distinct:
  assumes "profiles_ok profiles"
  shows "distinct (map snd profiles)" "distinct (map cp_id (map snd profiles))" "inj_on cp_name (set (map snd profiles))"
proof -
  have ids: "map cp_id (map snd profiles) = map fst profiles" using assms by (auto simp: profiles_ok_def)
  then show d: "distinct (map cp_id (map snd profiles))" using assms by (simp add: profiles_ok_def hm_wf_def del: map_map)
  then show "distinct (map snd profiles)" using distinct_map by blast
  have "fst x = fst y" if "x \<in> set profiles" "y \<in> set profiles" "cp_name (snd x) = cp_name (snd y)" for x y
    using assms that unfolding profiles_ok_def names_apart_def split_beta eq_ignore_ascii_case_def by (metis (no_types))
  with assms show "inj_on cp_name (set (map snd profiles))"
    by (auto simp: inj_on_def profiles_ok_def hm_wf_def) (metis eq_key_imp_eq_value fst_conv snd_conv)
qed

lemma snapshot_eq:
  assumes "profiles_ok profiles" and "profiles_ok profiles'" and "hm_get profiles = hm_get profiles'"
  shows "profile_snapshot profiles = profile_snapshot profiles'"
proof -
  have "set profiles = set profiles'" using assms by (intro hm_eq_set) (simp_all add: profiles_ok_def)
  then have "mset (map snd profiles) = mset (map snd profiles')"
    using profiles_distinct(1) [OF assms(1)] profiles_distinct(1) [OF assms(2)]
    by (subst set_eq_iff_mset_eq_distinct [symmetric]) auto
  then show ?thesis
    unfolding profile_snapshot_def using profiles_distinct(3) [OF assms(1)]
    by (intro sort_key_inj_key_eq) simp_all
qed

lemma snapshot_loads:
  assumes "profiles_ok profiles"
  shows "hm_get (fold (\<lambda>p. hm_insert (cp_id p) p) (profile_snapshot profiles) []) = hm_get profiles"
    "hm_wf (fold (\<lambda>p. hm_insert (cp_id p) p) (profile_snapshot profiles) [])"
proof -
  let ?L = "profile_snapshot profiles"
  have "mset (map cp_id ?L) = mset (map cp_id (map snd profiles))"
    unfolding mset_map [of cp_id] profile_snapshot_def mset_sort ..
  then have d: "distinct (map cp_id ?L)" using profiles_distinct(2) [OF assms] mset_eq_imp_distinct_iff by blast
  have "hm_wf (map (\<lambda>p. (cp_id p, p)) ?L)" using d by (simp add: hm_wf_def comp_def)
  moreover have "set (map (\<lambda>p. (cp_id p, p)) ?L) = set profiles"
    using assms by (force simp: profile_snapshot_def profiles_ok_def)
  ultimately have "map_of (map (\<lambda>p. (cp_id p, p)) ?L) = hm_get profiles"
    using assms map_of_inject_set unfolding profiles_ok_def hm_wf_def by blast
  then show "hm_get (fold (\<lambda>p. hm_insert (cp_id p) p) ?L []) = hm_get profiles"
    using fold_hm_insert [OF d, of "[]"] by simp
  show "hm_wf (fold (\<lambda>p. hm_insert (cp_id p) p) ?L [])" by (simp add: hm_wf_fold_insert)
qed

lemma profiles_ok_set: "profiles_ok profiles \<Longrightarrow> hm_wf profiles' \<Longrightarrow> set profiles' = set profiles \<Longrightarrow> profiles_ok profiles'"
  by (simp add: profiles_ok_def names_apart_def)

lemma fst_fold_status: "fst ` set (fold (\<lambda>p. status_entry (cp_id p)) L status) = fst ` set status \<union> cp_id ` set L"
  by (induction L arbitrary: status) (auto simp: fst_status_entry)

text \<open>Loading while the manager is in use finds what is there.\<close>

lemma fold_insert_same:
  "\<forall>p \<in> set L. hm_get m (cp_id p) = Some p \<Longrightarrow> hm_get (fold (\<lambda>p. hm_insert (cp_id p) p) L m) = hm_get m"
proof (induction L arbitrary: m)
  case (Cons a L)
  then have "hm_get (hm_insert (cp_id a) a m) = hm_get m" by (auto simp: fun_eq_iff)
  with Cons.IH [of "hm_insert (cp_id a) a m"] Cons.prems show ?case by simp
qed simp

lemma load_outcome:
  assumes "manager_ok rops m" and "load_persisted (stores_of sops rops) m = (q, m')"
  shows "manager_ok rops m'" "cm_secrets m' = cm_secrets m" "hm_get (cm_profiles m') = hm_get (cm_profiles m)"
proof -
  have "manager_ok rops m' \<and> cm_secrets m' = cm_secrets m \<and> hm_get (cm_profiles m') = hm_get (cm_profiles m)"
  proof (cases "cm_repository m")
    case None
    with assms show ?thesis by (simp add: load_persisted_def)
  next
    case (Some f)
    let ?L = "profile_snapshot (cm_profiles m)"
    have ok: "profiles_ok (cm_profiles m)" "ro_load rops f = Inr ?L" "fst ` set (cm_profiles m) \<subseteq> fst ` set (cm_status m)"
      using assms(1) Some by (simp_all add: manager_ok_def)
    have m': "m' = m\<lparr>cm_profiles := fold (\<lambda>p. hm_insert (cp_id p) p) ?L (cm_profiles m),
        cm_status := fold (\<lambda>p. status_entry (cp_id p)) ?L (cm_status m)\<rparr>"
      using assms(2) Some ok(2) by (simp add: load_persisted_def)
    have wf: "hm_wf (cm_profiles m)" using ok(1) by (simp add: profiles_ok_def)
    have "hm_get (cm_profiles m) (cp_id p) = Some p" if "p \<in> set ?L" for p
      using that ok(1) hm_get_Some_iff [OF wf] by (auto simp: profile_snapshot_def profiles_ok_def)
    then have same: "hm_get (cm_profiles m') = hm_get (cm_profiles m)" unfolding m' by (simp add: fold_insert_same)
    have wf': "hm_wf (cm_profiles m')" unfolding m' using wf by (simp add: hm_wf_fold_insert)
    have set: "set (cm_profiles m') = set (cm_profiles m)" by (rule hm_eq_set [OF wf' wf same])
    have ok': "profiles_ok (cm_profiles m')" by (rule profiles_ok_set [OF ok(1) wf' set])
    have snap: "profile_snapshot (cm_profiles m') = ?L" by (rule snapshot_eq [OF ok' ok(1) same])
    have "cm_repository m' = cm_repository m" "cm_secrets m' = cm_secrets m" unfolding m' by simp_all
    moreover have "fst ` set (cm_profiles m') \<subseteq> fst ` set (cm_status m')"
      unfolding set using ok(3) by (auto simp: m' fst_fold_status)
    ultimately show ?thesis using ok' snap same ok(2) Some by (simp add: manager_ok_def)
  qed
  then show "manager_ok rops m'" "cm_secrets m' = cm_secrets m" "hm_get (cm_profiles m') = hm_get (cm_profiles m)" by simp_all
qed

section \<open>The life of a manager\<close>

datatype ('w, 'v, 'p) manager_op =
    MoRegister connection_type "'p connection_plugin"
  | MoCreate 'v int string string connection_type connection_endpoint string
  | MoUpdate 'v int connection_profile
  | MoDelete 'v int string
  | MoDuplicate "('w, 'v) manager_call" string string
  | MoUpdateSecret "('w, 'v) manager_call" connection_profile connection_secret
  | MoDeleteSecret "('w, 'v) manager_call" string
  | MoImport "('w, 'v) manager_call" "connection_profile list"
  | MoTest int 'p string
  | MoList nat nat 'p string "string option"
  | MoDescribe nat nat 'p string database_object
  | MoLoad

text \<open>The types that come from a request are read from their identifiers.\<close>

fun op_canonical :: "('w, 'v, 'p) manager_op \<Rightarrow> bool" where
  "op_canonical (MoCreate v secs uuid name t endpoint r) \<longleftrightarrow> type_canonical t"
| "op_canonical (MoUpdate v secs p) \<longleftrightarrow> type_canonical (cp_type p)"
| "op_canonical (MoUpdateSecret c p x) \<longleftrightarrow> type_canonical (cp_type p)"
| "op_canonical (MoImport c ps) \<longleftrightarrow> (\<forall>p \<in> set ps. type_canonical (cp_type p))"
| "op_canonical _ \<longleftrightarrow> True"

fun manager_step ::
  "('s, 'w, 'f, 'v) stores \<Rightarrow> (string \<Rightarrow> string) \<Rightarrow> ('w, 'v, 'p) manager_op \<Rightarrow> ('s, 'f, 'p) conn_manager \<Rightarrow> ('s, 'f, 'p) conn_manager" where
  "manager_step st redact (MoRegister t pl) m = register_plugin t pl m"
| "manager_step st redact (MoCreate v secs uuid name t endpoint r) m = snd (create_profile st v secs uuid name t endpoint r m)"
| "manager_step st redact (MoUpdate v secs p) m = snd (update_profile st v secs p m)"
| "manager_step st redact (MoDelete v secs i) m = snd (delete_profile st v secs i m)"
| "manager_step st redact (MoDuplicate c i name) m = snd (duplicate_profile st c i name m)"
| "manager_step st redact (MoUpdateSecret c p x) m = snd (update_with_secret st c p x m)"
| "manager_step st redact (MoDeleteSecret c i) m = snd (delete_with_secret st c i m)"
| "manager_step st redact (MoImport c ps) m = snd (import_profiles st c 0 ps m)"
| "manager_step st redact (MoTest secs p i) m = snd (test_connection st redact secs p i m)"
| "manager_step st redact (MoList now later p i schema) m = snd (list_objects st now later p i schema m)"
| "manager_step st redact (MoDescribe now later p i obj) m = snd (describe_object st now later p i obj m)"
| "manager_step st redact MoLoad m = snd (load_persisted st m)"

context connection_stores
begin

lemma step_ok:
  assumes "manager_ok rops m" and "sinv (cm_secrets m)" and "op_canonical op"
  shows "manager_ok rops (manager_step (stores_of sops rops) redact op m) \<and>
    sinv (cm_secrets (manager_step (stores_of sops rops) redact op m))"
proof (cases op)
  case (MoRegister t pl)
  with assms show ?thesis by (simp add: register_plugin_def manager_ok_def)
next
  case (MoCreate v secs uuid name t endpoint r)
  with assms create_outcome(1,2) [OF assms(1)] show ?thesis by (metis manager_step.simps(2) op_canonical.simps(1) prod.collapse)
next
  case (MoUpdate v secs p)
  with assms update_outcome(1,2) [OF assms(1)] show ?thesis by (metis manager_step.simps(3) op_canonical.simps(2) prod.collapse)
next
  case (MoDelete v secs i)
  with assms delete_outcome(1,2) [OF assms(1)] show ?thesis by (metis manager_step.simps(4) prod.collapse)
next
  case (MoDuplicate c i name)
  with duplicate_outcome [OF assms(1,2)] show ?thesis by (metis manager_step.simps(5) prod.collapse)
next
  case (MoUpdateSecret c p x)
  with assms update_with_secret_outcome [OF assms(1,2)] show ?thesis by (metis manager_step.simps(6) op_canonical.simps(3) prod.collapse)
next
  case (MoDeleteSecret c i)
  with delete_with_secret_outcome [OF assms(1,2)] show ?thesis by (metis manager_step.simps(7) prod.collapse)
next
  case (MoImport c ps)
  with assms import_outcome [OF assms(1)] show ?thesis by (metis manager_step.simps(8) op_canonical.simps(4) prod.collapse)
next
  case (MoTest secs p i)
  obtain q m' where t: "test_connection (stores_of sops rops) redact secs p i m = (q, m')" by fastforce
  from manager_ok_frame [OF test_frame(1,2,4) [OF t] assms(1)] test_frame(3) [OF t] t MoTest assms(2) show ?thesis by simp
next
  case (MoList now later p i schema)
  obtain q m' where l: "list_objects (stores_of sops rops) now later p i schema m = (q, m')" by fastforce
  with exploration_frame [OF disjI1 [OF l]] assms MoList show ?thesis by (simp add: manager_ok_def)
next
  case (MoDescribe now later p i obj)
  obtain q m' where d: "describe_object (stores_of sops rops) now later p i obj m = (q, m')" by fastforce
  with exploration_frame [OF disjI2 [OF d]] assms MoDescribe show ?thesis by (simp add: manager_ok_def)
next
  case MoLoad
  with assms load_outcome(1,2) [OF assms(1)] show ?thesis by (metis manager_step.simps(12) prod.collapse)
qed

lemma run_ok:
  "manager_ok rops m \<Longrightarrow> sinv (cm_secrets m) \<Longrightarrow> \<forall>op \<in> set ops. op_canonical op \<Longrightarrow>
    manager_ok rops (fold (manager_step (stores_of sops rops) redact) ops m) \<and>
    sinv (cm_secrets (fold (manager_step (stores_of sops rops) redact) ops m))"
  by (induction ops arbitrary: m) (auto simp: step_ok)

end

interpretation encrypted_stores: connection_stores "encrypted_ops C" "\<lambda>_. True" encrypted_holds file_repository for C ..

interpretation in_memory_stores: connection_stores in_memory_ops "\<lambda>_. True" hm_get file_repository ..

section \<open>Restart\<close>

text \<open>A new manager over the repository of one that was sound.\<close>

lemma restart:
  fixes m :: "('s, 'f, 'p) conn_manager" and m' :: "('t, 'f, 'q) conn_manager"
  assumes "manager_ok rops m" and "cm_repository m = Some f"
    and "load_persisted (stores_of sops rops) (with_persistence f (new_manager s)) = (q, m')"
  shows "q = Inr (length (cm_profiles m)) \<and> manager_ok rops m' \<and> hm_get (cm_profiles m') = hm_get (cm_profiles m) \<and>
    list_profiles m' = list_profiles m"
proof -
  let ?L = "profile_snapshot (cm_profiles m)"
  have ok: "profiles_ok (cm_profiles m)" "ro_load rops f = Inr ?L" using assms(1,2) by (simp_all add: manager_ok_def)
  have m': "q = Inr (length ?L)" "cm_profiles m' = fold (\<lambda>p. hm_insert (cp_id p) p) ?L []"
    "cm_status m' = fold (\<lambda>p. status_entry (cp_id p)) ?L []" "cm_repository m' = Some f"
    using assms(3) ok(2) by (auto simp: load_persisted_def with_persistence_def new_manager_def with_metadata_policy_def)
  have same: "hm_get (cm_profiles m') = hm_get (cm_profiles m)" "hm_wf (cm_profiles m')"
    using snapshot_loads [OF ok(1)] m'(2) by simp_all
  have set: "set (cm_profiles m') = set (cm_profiles m)" using same ok(1) by (intro hm_eq_set) (simp_all add: profiles_ok_def)
  have ok': "profiles_ok (cm_profiles m')" by (rule profiles_ok_set [OF ok(1) same(2) set])
  have eq: "profile_snapshot (cm_profiles m') = ?L" by (rule snapshot_eq [OF ok' ok(1) same(1)])
  have "fst ` set (cm_profiles m') \<subseteq> cp_id ` set ?L"
    unfolding set using ok(1) by (force simp: profile_snapshot_def profiles_ok_def)
  then have "fst ` set (cm_profiles m') \<subseteq> fst ` set (cm_status m')" using m'(3) by (simp add: fst_fold_status)
  with m' ok(2) ok' eq same show ?thesis
    by (simp add: manager_ok_def list_profiles_def) (simp add: profile_snapshot_def)
qed

text \<open>
  A file that a manager can begin on: none yet, or a list of profiles, in the order of their names,
  whose ids differ and whose names differ in more than the case of ASCII letters.
\<close>

definition profile_file_ok :: "profile_file \<Rightarrow> bool" where
  "profile_file_ok f =
     (case file_repository_load f of
        Inl _ \<Rightarrow> False
      | Inr ps \<Rightarrow> sorted (map cp_name ps) \<and> profiles_ok (map (\<lambda>p. (cp_id p, p)) ps))"

lemma begun_ok:
  assumes "profile_file_ok f"
  shows "manager_ok file_repository
    (snd (load_persisted (stores_of sops file_repository) (with_persistence f (new_manager s) :: ('s, profile_file, 'p) conn_manager)))"
proof -
  let ?new = "with_persistence f (new_manager s) :: ('s, profile_file, 'p) conn_manager"
  obtain ps where ps: "file_repository_load f = Inr ps" "sorted (map cp_name ps)" "profiles_ok (map (\<lambda>p. (cp_id p, p)) ps)"
    using assms by (auto simp: profile_file_ok_def split: sum.splits)
  let ?m = "?new\<lparr>cm_profiles := map (\<lambda>p. (cp_id p, p)) ps,
      cm_status := map (\<lambda>p. (cp_id p, status_unknown (cp_id p))) ps\<rparr>"
  have "profile_snapshot (map (\<lambda>p. (cp_id p, p)) ps) = ps"
    using ps(2) by (simp add: profile_snapshot_def comp_def sorted_sort_id sort_key_id_if_sorted)
  then have ok: "manager_ok file_repository ?m"
    using ps by (simp add: manager_ok_def with_persistence_def file_repository_def image_image)
  obtain q m' where load: "load_persisted (stores_of sops file_repository) ?new = (q, m')" by fastforce
  have "cm_repository ?m = Some f" by (simp add: with_persistence_def)
  from restart [OF ok this load] load show ?thesis by simp
qed

lemma saved_file_ok:
  assumes "manager_ok file_repository m" and "cm_repository m = Some f"
  shows "profile_file_ok f"
proof -
  let ?L = "profile_snapshot (cm_profiles m)"
  have ok: "profiles_ok (cm_profiles m)" and load: "file_repository_load f = Inr ?L"
    using assms by (simp_all add: manager_ok_def file_repository_def)
  have "mset (map cp_id ?L) = mset (map cp_id (map snd (cm_profiles m)))"
    unfolding mset_map [of cp_id] profile_snapshot_def mset_sort ..
  then have "distinct (map cp_id ?L)" using profiles_distinct(2) [OF ok] mset_eq_imp_distinct_iff by blast
  then have "hm_wf (map (\<lambda>p. (cp_id p, p)) ?L)" by (simp add: hm_wf_def comp_def)
  moreover have "set (map (\<lambda>p. (cp_id p, p)) ?L) = set (cm_profiles m)"
    using ok by (force simp: profile_snapshot_def profiles_ok_def)
  ultimately have "profiles_ok (map (\<lambda>p. (cp_id p, p)) ?L)" by (rule profiles_ok_set [OF ok])
  then show ?thesis by (simp add: profile_file_ok_def load) (simp add: profile_snapshot_def)
qed

section \<open>What a write leaves\<close>

lemma upsert_success:
  assumes "upsert_profile st v secs p replacing m = (Inr (), m')"
  obtains r where "m' = invalidate_metadata (cp_id p) (send_event (ProfileChanged (cp_id p))
      (record_audit secs (if replacing then AuUpdated else AuCreated) (cp_id p) (cp_name p)
        (m\<lparr>cm_repository := r, cm_profiles := hm_insert (cp_id p) p (cm_profiles m), cm_status := status_entry (cp_id p) (cm_status m)\<rparr>)))"
proof -
  obtain w m1 where w: "persist_profiles st v (hm_insert (cp_id p) p (cm_profiles m)) m = (w, m1)" by fastforce
  have "\<exists>r. m1 = m\<lparr>cm_repository := r\<rparr>"
    using w by (auto simp: persist_profiles_def split: option.splits prod.splits)
      (metis conn_manager.surjective conn_manager.update_convs(10))
  then obtain r where r: "m1 = m\<lparr>cm_repository := r\<rparr>" ..
  have "m' = invalidate_metadata (cp_id p) (send_event (ProfileChanged (cp_id p))
      (record_audit secs (if replacing then AuUpdated else AuCreated) (cp_id p) (cp_name p)
        (m1\<lparr>cm_profiles := hm_insert (cp_id p) p (cm_profiles m), cm_status := status_entry (cp_id p) (cm_status m1)\<rparr>)))"
    using assms w unfolding upsert_profile_def Let_def by (cases w) (auto split: if_splits)
  then show ?thesis by (intro that [of r]) (simp add: r)
qed

section \<open>A sample manager\<close>

definition sample_endpoint :: connection_endpoint where
  "sample_endpoint = \<lparr> ep_host = ''127.0.0.1'', ep_port = 5432, ep_database = Some ''dma'', ep_ssl = False, ep_pool_min = 1,
     ep_pool_max = 10, ep_timeout_ms = 5000, ep_options = [] \<rparr>"

definition sample_profile :: connection_profile where
  "sample_profile = \<lparr> cp_id = ''u'', cp_name = ''Db'', cp_type = CtPostgres, cp_endpoint = sample_endpoint,
     cp_secret_ref = ''r'', cp_tags = [] \<rparr>"

definition sample_plugin :: "unit connection_plugin" where
  "sample_plugin = \<lparr> pl_display_name = ''PostgreSQL'', pl_test = \<lambda>_ _ _. Inl (PlConnection ''refused''), pl_diagnose = \<lambda>_ _ _. Inr [],
     pl_list_objects = \<lambda>_ e _ _. Some (Inr [\<lparr> do_schema = None, do_name = ep_host e, do_kind = KiTable \<rparr>]),
     pl_describe_object = \<lambda>_ _ _ _. None, pl_compile_query = \<lambda>_. Inl (PlUnsupported ''query_builder'') \<rparr>"

definition sample_ops :: "(secure_call, bool, unit) manager_op list" where
  "sample_ops = [MoRegister CtPostgres sample_plugin, MoCreate True 0 ''u'' ''Db'' CtPostgres sample_endpoint ''r'',
     MoCreate True 1 ''w'' ''DB'' CtPostgres sample_endpoint ''r'', MoTest 2 () ''u'']"

abbreviation sample_stores :: "(encrypted_store, secure_call, profile_file, bool) stores" where
  "sample_stores \<equiv> stores_of (encrypted_ops sample_crypto) file_repository"

definition sample_manager :: "(encrypted_store, profile_file, unit) conn_manager" where
  "sample_manager = fold (manager_step sample_stores id) sample_ops (with_persistence None (new_manager sample_used))"

definition sample_manager_call :: "(secure_call, bool) manager_call" where
  "sample_manager_call = \<lparr> mc_secret = \<lambda>_. sample_call True, mc_save = \<lambda>_. False, mc_secs = 9, mc_uuid = \<lambda>_. ''x'' \<rparr>"

lemma sample_canonical: "type_canonical CtPostgres"
  by code_simp

lemma sample_ops_canonical: "\<forall>op \<in> set sample_ops. op_canonical op"
  by (simp add: sample_ops_def sample_canonical)

lemma no_file_ok: "profile_file_ok None"
  by (simp add: profile_file_ok_def file_repository_load_def profiles_ok_def names_apart_def hm_wf_def)

lemma begun_without_file: "snd (load_persisted (stores_of sops file_repository) (with_persistence None (new_manager s))) =
    with_persistence None (new_manager s)"
  by (simp add: load_persisted_def with_persistence_def file_repository_def file_repository_load_def)

lemma new_manager_ok: "manager_ok file_repository (with_persistence None (new_manager s))"
  using begun_ok [OF no_file_ok] begun_without_file by metis

lemma sample_manager_ok: "manager_ok file_repository sample_manager"
  unfolding sample_manager_def
  using encrypted_stores.run_ok [OF new_manager_ok _ sample_ops_canonical] by blast

lemma sample_names: "eq_ignore_ascii_case ''Db'' ''DB''" "eq_ignore_ascii_case ''Db'' ''Other'' = False"
  by code_simp+

lemma sample_manager_state:
  "cm_profiles sample_manager = [(''u'', sample_profile)]"
  "cm_repository sample_manager = Some (Some (Inr [(''postgres'', sample_profile)]))"
  "cm_plugins sample_manager = [(CtPostgres, sample_plugin)]"
  "cm_secrets sample_manager = sample_used"
proof -
  let ?m = "with_persistence None (new_manager sample_used) :: (encrypted_store, profile_file, unit) conn_manager"
  have new: "cm_profiles ?m = []" "cm_repository ?m = Some None" "cm_plugins ?m = []" "cm_secrets ?m = sample_used"
    by (simp_all add: with_persistence_def new_manager_def with_metadata_policy_def)
  let ?m1 = "manager_step sample_stores id (MoRegister CtPostgres sample_plugin) ?m"
  let ?m2 = "manager_step sample_stores id (MoCreate True 0 ''u'' ''Db'' CtPostgres sample_endpoint ''r'') ?m1"
  have m2: "cm_profiles ?m2 = [(''u'', sample_profile)]" "cm_repository ?m2 = Some (Some (Inr [(''postgres'', sample_profile)]))"
    "cm_plugins ?m2 = [(CtPostgres, sample_plugin)]" "cm_secrets ?m2 = sample_used"
    using new
    by (simp_all add: register_plugin_def create_profile_def upsert_profile_def Let_def persist_profiles_def profile_snapshot_def
        file_repository_def file_repository_save_def profile_row_def connection_type_id_def manager_frame sample_profile_def)
  let ?m3 = "manager_step sample_stores id (MoCreate True 1 ''w'' ''DB'' CtPostgres sample_endpoint ''r'') ?m2"
  have m3: "?m3 = ?m2"
    using m2(1) sample_names(1) by (simp add: create_profile_def upsert_profile_def Let_def sample_profile_def)
  let ?m4 = "manager_step sample_stores id (MoTest 2 () ''u'') ?m3"
  obtain q m4 where t: "test_connection sample_stores id 2 () ''u'' ?m3 = (q, m4)" by fastforce
  have eq: "sample_manager = m4" using t by (simp add: sample_manager_def sample_ops_def)
  have "cm_plugins m4 = cm_plugins ?m3"
    using t by (auto simp: test_connection_def Let_def manager_frame set_testing_def publish_status_def split: sum.splits)
  with eq m2 test_frame(1-3) [OF t] m3
  show "cm_profiles sample_manager = [(''u'', sample_profile)]"
    "cm_repository sample_manager = Some (Some (Inr [(''postgres'', sample_profile)]))"
    "cm_plugins sample_manager = [(CtPostgres, sample_plugin)]"
    "cm_secrets sample_manager = sample_used" by simp_all
qed

lemma sample_resolved: "resolve_secret sample_stores ''r'' sample_manager = Inr sample_secret"
  using sample_use(3) by (simp add: resolve_secret_def sample_manager_state)

lemma sample_calls_fail:
  "isl (fst (update_with_secret sample_stores sample_manager_call (sample_profile\<lparr>cp_name := ''Other''\<rparr>)
     (sample_secret\<lparr>se_password := ''new''\<rparr>) sample_manager))"
  "fst (delete_with_secret sample_stores sample_manager_call ''u'' sample_manager) = Inl (CmPersistence (PeSecure SsIo))"
proof -
  let ?p = "sample_profile\<lparr>cp_name := ''Other''\<rparr>"
  have u: "fst (update_profile sample_stores False 9 ?p (sample_manager\<lparr>cm_secrets := s\<rparr>)) = Inl (CmPersistence (PeSecure SsIo))" for s
    by (simp add: update_profile_def upsert_profile_def Let_def persist_profiles_def sample_manager_state file_repository_def
        file_repository_save_def sample_profile_def)
  have r: "cp_secret_ref ?p = ''r''" by (simp add: sample_profile_def)
  show "isl (fst (update_with_secret sample_stores sample_manager_call ?p (sample_secret\<lparr>se_password := ''new''\<rparr>) sample_manager))"
    unfolding update_with_secret_def r sample_resolved
    using u by (auto simp: store_secret_def sample_manager_call_def split: prod.splits sum.splits) (metis fst_conv sum.distinct(1))+
  have "cp_secret_ref sample_profile = ''r''" "cp_id sample_profile = ''u''" by (simp_all add: sample_profile_def)
  then show "fst (delete_with_secret sample_stores sample_manager_call ''u'' sample_manager) = Inl (CmPersistence (PeSecure SsIo))"
    using sample_resolved
    by (simp add: delete_with_secret_def sample_manager_state Let_def persist_profiles_def file_repository_def
        file_repository_save_def sample_manager_call_def)
qed

section \<open>Properties\<close>

text \<open>C36.
  Profiles survive a restart. A manager over an encrypted secret store begins by loading its file,
  which does not exist yet or lists profiles in the order of their names, with ids that differ and
  names that differ in more than the case of ASCII letters (\<open>profile_file_ok\<close>; every file that a manager
  writes is of this form). Whatever it is asked then, one call after the other, loading again among
  them, whichever calls fail: its names stay apart, ignoring the case of ASCII letters and of no
  others, and a new manager over its file lists the same profiles. The types of the profiles in the
  requests are those that their identifiers read as (\<open>op_canonical\<close>), as types that come in a request
  are.\<close>

theorem profiles_survive_restart:
  assumes "\<forall>op \<in> set ops. op_canonical op" and "profile_file_ok f0"
    and "m = fold (manager_step (stores_of (encrypted_ops C) file_repository) redact) ops
      (snd (load_persisted (stores_of (encrypted_ops C) file_repository) (with_persistence f0 (new_manager s))))"
    and "cm_repository m = Some f"
    and "load_persisted (stores_of (encrypted_ops C) file_repository) (with_persistence f (new_manager s')) = (q, m')"
  shows "names_apart (cm_profiles m) \<and> profile_file_ok f \<and> q = Inr (length (cm_profiles m)) \<and>
    list_profiles m' = list_profiles m"
proof -
  have ok: "manager_ok file_repository m"
    unfolding assms(3) using encrypted_stores.run_ok [OF begun_ok [OF assms(2)] _ assms(1)] by blast
  then have "names_apart (cm_profiles m)" by (simp add: manager_ok_def profiles_ok_def)
  with restart [OF ok assms(4,5)] saved_file_ok [OF ok assms(4)] show ?thesis by blast
qed

theorem profiles_survive_restart_witness:
  "let first = the (cm_repository sample_manager);
       m = manager_step sample_stores id MoLoad (snd (load_persisted sample_stores (with_persistence first (new_manager sample_used))))
         :: (encrypted_store, profile_file, unit) conn_manager
   in cm_repository m = Some first \<and> profile_file_ok first \<and>
     list_profiles (snd (load_persisted sample_stores (with_persistence first (new_manager sample_store)))
       :: (encrypted_store, profile_file, unit) conn_manager) = list_profiles m"
proof -
  let ?first = "the (cm_repository sample_manager)"
  let ?m = "manager_step sample_stores id MoLoad (snd (load_persisted sample_stores (with_persistence ?first (new_manager sample_used))))
      :: (encrypted_store, profile_file, unit) conn_manager"
  obtain q and m' :: "(encrypted_store, profile_file, unit) conn_manager"
    where l: "load_persisted sample_stores (with_persistence ?first (new_manager sample_store)) = (q, m')"
    by fastforce
  have first: "profile_file_ok ?first" by (rule saved_file_ok [OF sample_manager_ok]) (simp add: sample_manager_state)
  have rep: "cm_repository ?m = Some ?first"
    by (simp add: load_persisted_def with_persistence_def split: sum.split)
  have "?m = fold (manager_step sample_stores id) [MoLoad]
      (snd (load_persisted sample_stores (with_persistence ?first (new_manager sample_used))))" by simp
  from profiles_survive_restart [OF _ first this rep l] l first rep show ?thesis by (simp add: Let_def)
qed

text \<open>C37.
  A change of a profile and its credentials is all or nothing: when it succeeds both are the new ones,
  when it fails the profiles are as before, and so is every credential unless the error says that it
  could not be restored.\<close>

theorem secret_update_all_or_nothing:
  assumes "manager_ok file_repository m" and "type_canonical (cp_type p)"
    and "update_with_secret (stores_of (encrypted_ops C) file_repository) c p x m = (q, m')"
  shows "manager_ok file_repository m' \<and>
    (case q of
       Inr _ \<Rightarrow> cm_profiles m' = hm_insert (cp_id p) p (cm_profiles m) \<and>
         encrypted_holds (cm_secrets m') = (encrypted_holds (cm_secrets m))(cp_secret_ref p \<mapsto> x)
     | Inl e \<Rightarrow> cm_profiles m' = cm_profiles m \<and>
         (e \<noteq> CmPersistence PeRollback \<longrightarrow> encrypted_holds (cm_secrets m') = encrypted_holds (cm_secrets m)))"
  using encrypted_stores.update_with_secret_outcome [OF assms(1) _ assms(2,3)] by blast

theorem secret_update_all_or_nothing_witness:
  "cm_profiles (snd (update_with_secret sample_stores sample_manager_call
     (sample_profile\<lparr>cp_name := ''Other''\<rparr>) (sample_secret\<lparr>se_password := ''new''\<rparr>) sample_manager)) = [(''u'', sample_profile)]"
proof -
  let ?p = "sample_profile\<lparr>cp_name := ''Other''\<rparr>" and ?x = "sample_secret\<lparr>se_password := ''new''\<rparr>"
  obtain q m' where u: "update_with_secret sample_stores sample_manager_call ?p ?x sample_manager = (q, m')" by fastforce
  have "type_canonical (cp_type ?p)" by (simp add: sample_profile_def sample_canonical)
  from secret_update_all_or_nothing [OF sample_manager_ok this u] sample_calls_fail(1) u show ?thesis
    by (auto simp: sample_manager_state isl_def)
qed

text \<open>C38.
  Deleting a connection with its secret keeps the others: every other profile stays, and so does the
  secret it refers to, however the deletion ends. When it succeeds the profile is gone and its secret
  no longer resolves, unless another profile refers to it.\<close>

theorem deletion_keeps_other_secrets:
  assumes "manager_ok file_repository m"
    and "delete_with_secret (stores_of (encrypted_ops C) file_repository) c i m = (q, m')"
  shows "(\<forall>(j, p) \<in> set (cm_profiles m). j \<noteq> i \<longrightarrow> (j, p) \<in> set (cm_profiles m') \<and>
      encrypted_holds (cm_secrets m') (cp_secret_ref p) = encrypted_holds (cm_secrets m) (cp_secret_ref p)) \<and>
    (case q of
       Inr p \<Rightarrow> hm_get (cm_profiles m') i = None \<and>
         ((\<forall>(j, d) \<in> set (cm_profiles m'). cp_secret_ref d \<noteq> cp_secret_ref p) \<longrightarrow>
           encrypted_holds (cm_secrets m') (cp_secret_ref p) = None)
     | Inl e \<Rightarrow> encrypted_holds (cm_secrets m') = encrypted_holds (cm_secrets m) \<and>
         (e \<noteq> CmPersistence PeRollback \<longrightarrow> cm_profiles m' = cm_profiles m))"
proof -
  note o = encrypted_stores.delete_with_secret_outcome [OF assms(1) _ assms(2)]
  have ids: "(j, p) \<in> set (cm_profiles m) \<Longrightarrow> cp_id p = j" for j p
    using assms(1) by (auto simp: manager_ok_def profiles_ok_def)
  have other: "encrypted_holds (cm_secrets m') (cp_secret_ref d) = encrypted_holds (cm_secrets m) (cp_secret_ref d)"
    if "q = Inr p" "(j, d) \<in> set (cm_profiles m)" "j \<noteq> i" for p j d
  proof -
    have "d \<in> set (map snd (cm_profiles m)) \<and> cp_id d \<noteq> i" using that ids by force
    with o that(1) show ?thesis by (auto split: if_splits)
  qed
  have rest: "(j, p) \<in> set (hm_remove i (cm_profiles m)) \<longleftrightarrow> (j, p) \<in> set (cm_profiles m) \<and> j \<noteq> i" for j p
    by (auto simp: hm_remove_filter)
  show ?thesis
  proof (cases q)
    case (Inl e)
    with o rest show ?thesis by auto
  next
    case (Inr p)
    have m': "cm_profiles m' = hm_remove i (cm_profiles m)" using o Inr by simp
    have gone: "encrypted_holds (cm_secrets m') (cp_secret_ref p) = None"
      if "\<forall>(j, d) \<in> set (cm_profiles m'). cp_secret_ref d \<noteq> cp_secret_ref p"
    proof -
      have "\<not> (\<exists>d \<in> set (map snd (cm_profiles m)). cp_id d \<noteq> i \<and> cp_secret_ref d = cp_secret_ref p)"
        using that ids unfolding m' by (fastforce simp: rest)
      moreover have "encrypted_holds (cm_secrets m') =
           (if \<exists>d \<in> set (map snd (cm_profiles m)). cp_id d \<noteq> i \<and> cp_secret_ref d = cp_secret_ref p then encrypted_holds (cm_secrets m)
            else (encrypted_holds (cm_secrets m))(cp_secret_ref p := None))" using o Inr by simp
      ultimately show ?thesis by (simp only: if_False fun_upd_same)
    qed
    have "\<forall>(j, d) \<in> set (cm_profiles m). j \<noteq> i \<longrightarrow> (j, d) \<in> set (cm_profiles m') \<and>
      encrypted_holds (cm_secrets m') (cp_secret_ref d) = encrypted_holds (cm_secrets m) (cp_secret_ref d)"
      using other [OF Inr] unfolding m' by (auto simp: rest)
    moreover have "hm_get (cm_profiles m') i = None" unfolding m' by simp
    ultimately show ?thesis using Inr gone by simp
  qed
qed

theorem deletion_keeps_other_secrets_witness:
  "cm_profiles (snd (delete_with_secret sample_stores sample_manager_call ''u'' sample_manager)) = [(''u'', sample_profile)] \<and>
   encrypted_holds (cm_secrets (snd (delete_with_secret sample_stores sample_manager_call ''u'' sample_manager))) =
    encrypted_holds sample_used"
proof -
  obtain q m' where d: "delete_with_secret sample_stores sample_manager_call ''u'' sample_manager = (q, m')" by fastforce
  have "q = Inl (CmPersistence (PeSecure SsIo))" using sample_calls_fail(2) d by simp
  with deletion_keeps_other_secrets [OF sample_manager_ok d] d show ?thesis by (simp add: sample_manager_state)
qed

text \<open>What was explored before an edit is not shown after it: once a profile is written, the objects of
  its schemas are asked again of the plugin, with the new endpoint.\<close>

theorem edited_connection_is_explored_again:
  assumes "upsert_profile st v secs p replacing m = (Inr (), m')"
    and "plugin_of (cp_type p) m = Inr pl" and "resolve_secret st (cp_secret_ref p) m = Inr x"
    and "pl_list_objects pl w (cp_endpoint p) x schema = Some (Inr objects)"
  shows "fst (list_objects st now later w (cp_id p) schema m') = Inr objects"
proof -
  from assms(1) obtain r where m': "m' = invalidate_metadata (cp_id p) (send_event (ProfileChanged (cp_id p))
      (record_audit secs (if replacing then AuUpdated else AuCreated) (cp_id p) (cp_name p)
        (m\<lparr>cm_repository := r, cm_profiles := hm_insert (cp_id p) p (cm_profiles m), cm_status := status_entry (cp_id p) (cm_status m)\<rparr>)))"
    by (rule upsert_success)
  have "starts_with (cp_id p @ '':'') (metadata_key (cp_id p) schema)" by (simp add: starts_with_def metadata_key_def)
  then have "hm_get (cm_metadata_cache m') (metadata_key (cp_id p) schema) = None"
    unfolding hm_get_None_iff m' by (auto simp: invalidate_metadata_def)
  then have "cached (cm_metadata_ttl m') now (cm_metadata_cache m') (metadata_key (cp_id p) schema) = None" by (simp add: cached_def)
  moreover have "resolve_connection st (cp_id p) m' = Inr (p, pl, x)"
    using assms(2,3) by (simp add: m' resolve_connection_def get_profile_def plugin_of_def resolve_secret_def manager_frame)
  ultimately show ?thesis using assms(4) by (simp add: list_objects_def Let_def)
qed

theorem edited_connection_is_explored_again_witness:
  "fst (list_objects sample_stores 5 6 () ''u'' None
     (snd (upsert_profile sample_stores True 4 (sample_profile\<lparr>cp_endpoint := sample_endpoint\<lparr>ep_host := ''db2''\<rparr>\<rparr>) True
       (snd (list_objects sample_stores 0 1 () ''u'' None sample_manager)))))
    = Inr [\<lparr> do_schema = None, do_name = ''db2'', do_kind = KiTable \<rparr>]"
proof -
  let ?p = "sample_profile\<lparr>cp_endpoint := sample_endpoint\<lparr>ep_host := ''db2''\<rparr>\<rparr>"
  obtain q m where l: "list_objects sample_stores 0 1 () ''u'' None sample_manager = (q, m)" by fastforce
  have m: "cm_profiles m = [(''u'', sample_profile)]" "cm_repository m = Some (Some (Inr [(''postgres'', sample_profile)]))"
    "cm_secrets m = sample_used" "cm_plugins m = [(CtPostgres, sample_plugin)]"
    using exploration_frame [OF disjI1 [OF l]] l
    by (auto simp: sample_manager_state list_objects_def Let_def split: option.splits sum.splits)
  obtain m' where u: "upsert_profile sample_stores True 4 ?p True m = (Inr (), m')"
    using m by (simp add: upsert_profile_def Let_def persist_profiles_def file_repository_def file_repository_save_def sample_profile_def)
  have "plugin_of (cp_type ?p) m = Inr sample_plugin" by (simp add: plugin_of_def m sample_profile_def)
  moreover have "resolve_secret sample_stores (cp_secret_ref ?p) m = Inr sample_secret"
    using sample_use(3) by (simp add: resolve_secret_def m sample_profile_def)
  moreover have "pl_list_objects sample_plugin () (cp_endpoint ?p) sample_secret None =
      Some (Inr [\<lparr> do_schema = None, do_name = ''db2'', do_kind = KiTable \<rparr>])" by (simp add: sample_plugin_def)
  ultimately have "fst (list_objects sample_stores 5 6 () (cp_id ?p) None m') = Inr [\<lparr> do_schema = None, do_name = ''db2'', do_kind = KiTable \<rparr>]"
    by (rule edited_connection_is_explored_again [OF u])
  then show ?thesis using l u by (simp add: sample_profile_def)
qed

end
