(* ===== verification/Plugin_Protocol.thy ===== *)
theory Plugin_Protocol
  imports Flow_Config
begin

text \<open>
  The protocol of external plugins (module \<open>isolated\<close> of \<open>crates/jaiba-plugin-sdk/src/lib.rs\<close>): one
  JSON text per line, with a limit on its length. A reader is the list of what its buffer will hold,
  one entry for each time it is filled, so that nothing depends on how the bytes arrive. JSON is a
  parameter.
\<close>

section \<open>Messages\<close>

record plugin_descriptor =
  pg_id :: string
  pg_version :: string
  pg_display_name :: string
  pg_category :: string
  pg_default_port :: nat
  pg_capabilities :: "string list"

datatype plugin_packet =
    PkRecords "json list"
  | PkBytes (pk_content: string) (pk_media_type: "string option")

record plugin_execution_context =
  px_flow_id :: string
  px_processor_id :: string
  px_attributes :: "(string \<times> string) list"

definition protocol_version :: nat where "protocol_version = 1"
definition max_frame_bytes :: nat where "max_frame_bytes = 8 * 1024 * 1024"
definition newline :: char where "newline = CHR 0x0A"

datatype request_operation = RoDescribe | RoExecute | RoShutdown

record plugin_request =
  rq_protocol_version :: nat
  rq_request_id :: string
  rq_operation :: request_operation
  rq_configuration :: json
  rq_packet :: "plugin_packet option"
  rq_context :: "plugin_execution_context option"

datatype plugin_result =
    PrDescriptor plugin_descriptor
  | PrPackets "plugin_packet list"
  | PrShutdown

record protocol_error =
  pe_code :: string
  pe_text :: string
  pe_retryable :: bool

record plugin_response =
  rp_protocol_version :: nat
  rp_request_id :: string
  rp_result :: "plugin_result option"
  rp_error :: "protocol_error option"

datatype frame_error =
    FrTooLarge
  | FrIo string
  | FrJson
  | FrVersion nat
  | FrInvalidResponse
  | FrMismatchedRequest (expected_id: string) (received_id: string)

text \<open>serde's texts of a type of messages, and \<open>VersionedEnvelope\<close>.\<close>

record 'm envelope =
  en_encode :: "'m \<Rightarrow> string"
  en_decode :: "string \<Rightarrow> 'm option"
  en_version :: "'m \<Rightarrow> nat"

section \<open>Writing\<close>

text \<open>\<open>broken\<close>: how many bytes the writer took before it failed, if it did.\<close>

definition write_frame :: "'m envelope \<Rightarrow> nat option \<Rightarrow> 'm \<Rightarrow> string \<Rightarrow> (frame_error, unit) result \<times> string" where
  "write_frame E broken message out =
     (let encoded = en_encode E message
      in if max_frame_bytes < length encoded then (Inl FrTooLarge, out)
         else case broken of
           Some n \<Rightarrow> (Inl (FrIo ''write''), out @ take n (encoded @ [newline]))
         | None \<Rightarrow> (Inr (), out @ encoded @ [newline]))"

section \<open>Reading\<close>

type_synonym reader = "(string + string) list"

text \<open>The bytes of a buffer that go to the line: up to its first newline.\<close>

fun chunk_length :: "string \<Rightarrow> nat" where
  "chunk_length [] = 0"
| "chunk_length (c # cs) = (if c = newline then 1 else Suc (chunk_length cs))"

definition ends_with_newline :: "string \<Rightarrow> bool" where
  "ends_with_newline s \<longleftrightarrow> s \<noteq> [] \<and> last s = newline"

text \<open>The loop of \<open>read_frame\<close>; an empty buffer is the end of the input.\<close>

fun read_line :: "string \<Rightarrow> reader \<Rightarrow> (frame_error, string) result \<times> reader" where
  "read_line encoded [] = (Inr encoded, [])"
| "read_line encoded (Inl e # rd) = (Inl (FrIo e), rd)"
| "read_line encoded (Inr available # rd) =
     (if available = [] then (Inr encoded, Inr available # rd)
      else (let n = chunk_length available
            in if max_frame_bytes + 1 < length encoded + n then (Inl FrTooLarge, Inr available # rd)
               else (let encoded = encoded @ take n available
                     in if ends_with_newline encoded
                        then (Inr encoded, if drop n available = [] then rd else Inr (drop n available) # rd)
                        else read_line encoded rd)))"

definition read_frame :: "'m envelope \<Rightarrow> reader \<Rightarrow> (frame_error, 'm option) result \<times> reader" where
  "read_frame E rd =
     (case read_line [] rd of
        (Inl e, rd) \<Rightarrow> (Inl e, rd)
      | (Inr encoded, rd) \<Rightarrow>
          if encoded = [] then (Inr None, rd)
          else if max_frame_bytes + 1 < length encoded \<or> \<not> ends_with_newline encoded then (Inl FrTooLarge, rd)
          else (case en_decode E (butlast encoded) of
                  None \<Rightarrow> (Inl FrJson, rd)
                | Some message \<Rightarrow>
                    if en_version E message \<noteq> protocol_version then (Inl (FrVersion (en_version E message)), rd)
                    else (Inr (Some message), rd)))"

definition validate_response :: "plugin_response \<Rightarrow> (frame_error, unit) result" where
  "validate_response r =
     (if (rp_result r \<noteq> None) = (rp_error r \<noteq> None) then Inl FrInvalidResponse else Inr ())"

text \<open>\<open>IsolatedPluginProcess::transact\<close>: what goes to the plugin and what is read of it.\<close>

definition isolated_transact ::
  "plugin_request envelope \<Rightarrow> plugin_response envelope \<Rightarrow> nat option \<Rightarrow> plugin_request \<Rightarrow> string \<times> reader
    \<Rightarrow> (frame_error, plugin_response) result \<times> string \<times> reader" where
  "isolated_transact Q P broken request pipes =
     (let (stdin, stdout) = pipes
      in case write_frame Q broken request stdin of
           (Inl e, stdin) \<Rightarrow> (Inl e, stdin, stdout)
         | (Inr _, stdin) \<Rightarrow>
             (case read_frame P stdout of
                (Inl e, stdout) \<Rightarrow> (Inl e, stdin, stdout)
              | (Inr None, stdout) \<Rightarrow> (Inl (FrIo ''plugin stopped before responding''), stdin, stdout)
              | (Inr (Some response), stdout) \<Rightarrow>
                  (case validate_response response of
                     Inl e \<Rightarrow> (Inl e, stdin, stdout)
                   | Inr _ \<Rightarrow>
                       if rp_request_id response \<noteq> rq_request_id request
                       then (Inl (FrMismatchedRequest (rq_request_id request) (rp_request_id response)), stdin, stdout)
                       else (Inr response, stdin, stdout))))"

section \<open>A reader as its bytes\<close>

text \<open>A reader whose buffer is never filled with nothing before the end, and that does not fail.\<close>

definition steady :: "reader \<Rightarrow> bool" where
  "steady rd \<longleftrightarrow> (\<forall>x \<in> set rd. \<exists>c. x = Inr c \<and> c \<noteq> [])"

fun reader_bytes :: "reader \<Rightarrow> string" where
  "reader_bytes [] = []"
| "reader_bytes (Inl _ # rd) = []"
| "reader_bytes (Inr c # rd) = c @ reader_bytes rd"

text \<open>What a frame is, of the bytes that are left alone.\<close>

definition frame_of :: "'m envelope \<Rightarrow> string \<Rightarrow> (frame_error, 'm option) result" where
  "frame_of E bytes =
     (let line = takeWhile (\<lambda>c. c \<noteq> newline) bytes
      in if bytes = [] then Inr None
         else if newline \<notin> set bytes \<or> max_frame_bytes < length line then Inl FrTooLarge
         else case en_decode E line of
           None \<Rightarrow> Inl FrJson
         | Some message \<Rightarrow>
             if en_version E message \<noteq> protocol_version then Inl (FrVersion (en_version E message)) else Inr (Some message))"

lemma chunk_length_takeWhile:
  "chunk_length c = (if newline \<in> set c then Suc (length (takeWhile (\<lambda>c. c \<noteq> newline) c)) else length c)"
  by (induction c) auto

lemma take_chunk:
  "newline \<in> set c \<Longrightarrow> take (chunk_length c) c = takeWhile (\<lambda>c. c \<noteq> newline) c @ [newline]"
  "newline \<notin> set c \<Longrightarrow> take (chunk_length c) c = c"
  by (induction c) auto

lemma last_line: "newline \<notin> set line \<Longrightarrow> ends_with_newline line = False" "ends_with_newline (line @ [newline])"
  by (cases line rule: rev_cases) (auto simp: ends_with_newline_def)

lemma takeWhile_past:
  "newline \<notin> set s \<Longrightarrow> takeWhile (\<lambda>c. c \<noteq> newline) (s @ r) = s @ takeWhile (\<lambda>c. c \<noteq> newline) r"
  by (induction s) auto

text \<open>A line of the bytes, after what is already read of it.\<close>

lemma read_line_bytes:
  assumes "steady rd" and "newline \<notin> set encoded" and "length encoded \<le> max_frame_bytes + 1"
    and "read_line encoded rd = (q, rd')"
  shows "let bytes = encoded @ reader_bytes rd; line = takeWhile (\<lambda>c. c \<noteq> newline) bytes
    in if newline \<notin> set bytes
       then q = Inl FrTooLarge \<and> max_frame_bytes + 1 < length bytes \<or> q = Inr bytes \<and> length bytes \<le> max_frame_bytes + 1
       else if max_frame_bytes < length line then q = Inl FrTooLarge
       else q = Inr (line @ [newline]) \<and> steady rd' \<and> reader_bytes rd' = drop (Suc (length line)) bytes"
  using assms
proof (induction encoded rd rule: read_line.induct)
  case (1 encoded)
  then show ?case by (simp add: Let_def)
next
  case (2 encoded e rd)
  then show ?case by (simp add: steady_def)
next
  case (3 encoded c rd)
  have c: "c \<noteq> []" "steady rd" using "3.prems"(1) by (auto simp: steady_def)
  show ?case
  proof (cases "newline \<in> set c")
    case True
    let ?w = "takeWhile (\<lambda>c. c \<noteq> newline) c"
    have line: "takeWhile (\<lambda>c. c \<noteq> newline) (encoded @ reader_bytes (Inr c # rd)) = encoded @ ?w"
      using True "3.prems"(2) by (simp add: takeWhile_append2 takeWhile_append1 [of newline])
        (metis (mono_tags, lifting) takeWhile_append1 takeWhile_append2)
    have n: "chunk_length c = Suc (length ?w)" using True by (simp add: chunk_length_takeWhile)
    have "length ?w < length c" using True by (induction c) auto
    then show ?thesis
      using "3.prems"(4) True c n line take_chunk(1) [OF True]
      by (auto simp: Let_def ends_with_newline_def steady_def split: if_splits)
  next
    case False
    have n: "chunk_length c = length c" using False by (simp add: chunk_length_takeWhile)
    show ?thesis
    proof (cases "max_frame_bytes + 1 < length encoded + length c")
      case True
      have "max_frame_bytes < length (takeWhile (\<lambda>c. c \<noteq> newline) (encoded @ c @ reader_bytes rd))"
        using True False "3.prems"(2) by (simp add: takeWhile_past)
      then show ?thesis using True "3.prems"(4) c n by (auto simp: Let_def)
    next
      case le: False
      have no: "newline \<notin> set (encoded @ c)" "\<not> ends_with_newline (encoded @ c)"
        using False "3.prems"(2) last_line(1) [of "encoded @ c"] by simp_all
      have "read_line (encoded @ c) rd = (q, rd')" using "3.prems"(4) c n le no by (simp add: Let_def)
      with "3.IH" [of "chunk_length c" "encoded @ c"] c n le no show ?thesis by (simp add: Let_def)
    qed
  qed
qed

lemma takeWhile_no_newline: "newline \<notin> set (takeWhile (\<lambda>c. c \<noteq> newline) s)"
  by (auto dest: set_takeWhileD)

text \<open>After a frame that was read the rest of the bytes is still to be read.\<close>

lemma read_frame_bytes:
  assumes "steady rd" and "read_frame E rd = (q, rd')"
  shows "q = frame_of E (reader_bytes rd)"
    "newline \<in> set (reader_bytes rd) \<Longrightarrow> length (takeWhile (\<lambda>c. c \<noteq> newline) (reader_bytes rd)) \<le> max_frame_bytes \<Longrightarrow>
      steady rd' \<and> reader_bytes rd' = drop (Suc (length (takeWhile (\<lambda>c. c \<noteq> newline) (reader_bytes rd)))) (reader_bytes rd)"
proof -
  let ?bytes = "reader_bytes rd" and ?line = "takeWhile (\<lambda>c. c \<noteq> newline) (reader_bytes rd)"
  obtain w rd1 where w: "read_line [] rd = (w, rd1)" by fastforce
  note l = read_line_bytes [OF assms(1) _ _ w, simplified, unfolded Let_def]
  have frame: "q = (case w of Inl e \<Rightarrow> Inl e | Inr encoded \<Rightarrow>
          if encoded = [] then Inr None
          else if max_frame_bytes + 1 < length encoded \<or> \<not> ends_with_newline encoded then Inl FrTooLarge
          else (case en_decode E (butlast encoded) of None \<Rightarrow> Inl FrJson
                | Some message \<Rightarrow> if en_version E message \<noteq> protocol_version then Inl (FrVersion (en_version E message)) else Inr (Some message)))"
    "rd' = rd1"
    using assms(2) w by (auto simp: read_frame_def split: sum.splits if_splits option.splits)
  show "q = frame_of E ?bytes"
  proof (cases "newline \<in> set ?bytes")
    case True
    then have "?bytes \<noteq> []" by auto
    with True l frame(1) show ?thesis by (auto simp: frame_of_def Let_def last_line split: if_splits)
  next
    case False
    with l frame(1) show ?thesis by (auto simp: frame_of_def Let_def last_line)
  qed
  show "steady rd' \<and> reader_bytes rd' = drop (Suc (length ?line)) ?bytes"
    if "newline \<in> set ?bytes" "length ?line \<le> max_frame_bytes"
    using l that frame(2) by simp
qed

text \<open>Reading frame after frame.\<close>

fun read_frames :: "'m envelope \<Rightarrow> nat \<Rightarrow> reader \<Rightarrow> (frame_error, 'm option) result list" where
  "read_frames E 0 rd = []"
| "read_frames E (Suc n) rd = (let (q, rd) = read_frame E rd in q # read_frames E n rd)"

fun write_frames :: "'m envelope \<Rightarrow> 'm list \<Rightarrow> string \<Rightarrow> (frame_error, unit) result \<times> string" where
  "write_frames E [] out = (Inr (), out)"
| "write_frames E (m # ms) out =
     (case write_frame E None m out of
        (Inl e, out) \<Rightarrow> (Inl e, out)
      | (Inr _, out) \<Rightarrow> write_frames E ms out)"

text \<open>serde reads what it writes, on one line.\<close>

definition envelope_ok :: "'m envelope \<Rightarrow> bool" where
  "envelope_ok E \<longleftrightarrow> (\<forall>m. en_decode E (en_encode E m) = Some m \<and> newline \<notin> set (en_encode E m))"

lemma write_frames_bytes:
  "write_frames E ms out = (Inr (), out') \<Longrightarrow>
    out' = out @ concat (map (\<lambda>m. en_encode E m @ [newline]) ms) \<and> (\<forall>m \<in> set ms. length (en_encode E m) \<le> max_frame_bytes)"
proof (induction ms arbitrary: out)
  case (Cons m ms)
  then have "\<not> max_frame_bytes < length (en_encode E m)" "write_frames E ms (out @ en_encode E m @ [newline]) = (Inr (), out')"
    by (simp_all add: write_frame_def Let_def split: if_splits)
  with Cons.IH show ?case by fastforce
qed simp

lemma takeWhile_line: "newline \<notin> set line \<Longrightarrow> takeWhile (\<lambda>c. c \<noteq> newline) (line @ newline # rest) = line"
  by (induction line) auto

lemma read_written:
  assumes "envelope_ok E" and "\<forall>m \<in> set ms. length (en_encode E m) \<le> max_frame_bytes \<and> en_version E m = protocol_version"
    and "steady rd" and "reader_bytes rd = concat (map (\<lambda>m. en_encode E m @ [newline]) ms)"
  shows "read_frames E (Suc (length ms)) rd = map (Inr \<circ> Some) ms @ [Inr None]"
  using assms(2-4)
proof (induction ms arbitrary: rd)
  case Nil
  obtain q rd' where r: "read_frame E rd = (q, rd')" by fastforce
  with read_frame_bytes(1) [OF Nil.prems(2) r] Nil.prems(3) show ?case by (simp add: frame_of_def)
next
  case (Cons m ms)
  let ?rest = "concat (map (\<lambda>m. en_encode E m @ [newline]) ms)"
  have m: "newline \<notin> set (en_encode E m)" "en_decode E (en_encode E m) = Some m" using assms(1) by (simp_all add: envelope_ok_def)
  have b: "reader_bytes rd = en_encode E m @ newline # ?rest" using Cons.prems(3) by simp
  have line: "takeWhile (\<lambda>c. c \<noteq> newline) (reader_bytes rd) = en_encode E m" unfolding b by (rule takeWhile_line [OF m(1)])
  obtain q rd' where r: "read_frame E rd = (q, rd')" by fastforce
  have "q = Inr (Some m)"
    using read_frame_bytes(1) [OF Cons.prems(2) r] Cons.prems(1) m(2) line b by (simp add: frame_of_def Let_def)
  moreover have "steady rd' \<and> reader_bytes rd' = ?rest"
    using read_frame_bytes(2) [OF Cons.prems(2) r] Cons.prems(1) line b by simp
  ultimately show ?case using Cons.IH [of rd'] Cons.prems(1) r by simp
qed

section \<open>A sample of messages\<close>

definition sample_envelope :: "bool envelope" where
  "sample_envelope = \<lparr> en_encode = \<lambda>b. if b then ''yes'' else ''no'',
     en_decode = \<lambda>t. if t = ''yes'' then Some True else if t = ''no'' then Some False else None, en_version = \<lambda>_. 1 \<rparr>"

text \<open>Two messages that arrive in three pieces.\<close>

definition sample_reader :: reader where
  "sample_reader = [Inr ''ye'', Inr (''s'' @ [newline] @ ''n''), Inr (''o'' @ [newline])]"

lemma sample_envelope_ok: "envelope_ok sample_envelope"
  by (auto simp: envelope_ok_def sample_envelope_def newline_def)

lemma sample_reader_steady: "steady sample_reader"
  by (simp add: steady_def sample_reader_def)

section \<open>Properties\<close>

text \<open>C39.
  A frame does not depend on how its bytes arrive: whatever the fills of the buffer, what is read is
  the function \<open>frame_of\<close> of the bytes, and after a line within the limit exactly the rest is left.\<close>

theorem frames_ignore_buffering:
  assumes "steady rd" and "read_frame E rd = (q, rd')"
  shows "q = frame_of E (reader_bytes rd) \<and>
    (newline \<in> set (reader_bytes rd) \<and> length (takeWhile (\<lambda>c. c \<noteq> newline) (reader_bytes rd)) \<le> max_frame_bytes \<longrightarrow>
      steady rd' \<and> reader_bytes rd' = drop (Suc (length (takeWhile (\<lambda>c. c \<noteq> newline) (reader_bytes rd)))) (reader_bytes rd))"
  using read_frame_bytes [OF assms] by blast

theorem frames_ignore_buffering_witness: "fst (read_frame sample_envelope sample_reader) = Inr (Some True)"
proof -
  obtain q rd' where r: "read_frame sample_envelope sample_reader = (q, rd')" by fastforce
  have "frame_of sample_envelope (reader_bytes sample_reader) = Inr (Some True)"
    by (simp add: frame_of_def sample_reader_def sample_envelope_def newline_def max_frame_bytes_def protocol_version_def)
  with frames_ignore_buffering [OF sample_reader_steady r] r show ?thesis by simp
qed

text \<open>Messages that were written are read one by one, whatever the fills of the buffer, and then the end
  of the input is seen.\<close>

theorem frames_round_trip:
  assumes "envelope_ok E" and "\<forall>m \<in> set ms. en_version E m = protocol_version"
    and "write_frames E ms [] = (Inr (), out)" and "steady rd" and "reader_bytes rd = out"
  shows "read_frames E (Suc (length ms)) rd = map (Inr \<circ> Some) ms @ [Inr None]"
  using read_written [OF assms(1) _ assms(4)] write_frames_bytes [OF assms(3)] assms(2,5) by simp

theorem frames_round_trip_witness:
  "read_frames sample_envelope 3 sample_reader = [Inr (Some True), Inr (Some False), Inr None]"
proof -
  have "write_frames sample_envelope [True, False] [] = (Inr (), reader_bytes sample_reader)"
    by (simp add: write_frame_def sample_envelope_def sample_reader_def max_frame_bytes_def)
  moreover have "\<forall>m \<in> set [True, False]. en_version sample_envelope m = protocol_version"
    by (simp add: sample_envelope_def protocol_version_def)
  ultimately show ?thesis
    using frames_round_trip [OF sample_envelope_ok _ _ sample_reader_steady refl, of "[True, False]"] by (simp add: numeral_3_eq_3)
qed

end
