(* ===== verification/Plugin_Manifest.thy ===== *)
theory Plugin_Manifest
  imports Plugin_Protocol
begin

text \<open>
  The manifest of an external plugin and how it is started
  (\<open>crates/jaiba-runtime/src/processors/external_plugin.rs\<close>): the checks of ids, images and limits, the
  arguments of the container runtime, paths. Paths are those of Unix; YAML, JSON and the directory of
  the plugins are parameters.
\<close>

section \<open>Paths\<close>

datatype path_component = RootDir | CurDir | ParentDir | Normal string

text \<open>\<open>Path::components\<close>: repeated separators and inner dots are dropped.\<close>

definition path_components :: "string \<Rightarrow> path_component list" where
  "path_components p =
     (let parts = split_on CHR ''/'' p
      in (if starts_with ''/'' p then [RootDir] else if hd parts = ''.'' then [CurDir] else []) @
         map (\<lambda>s. if s = ''..'' then ParentDir else Normal s) (filter (\<lambda>s. s \<noteq> [] \<and> s \<noteq> ''.'') parts))"

text \<open>\<open>Path::join\<close>.\<close>

definition path_join :: "string \<Rightarrow> string \<Rightarrow> string" where
  "path_join d p =
     (if starts_with ''/'' p then p
      else if d = [] \<or> last d = CHR ''/'' then d @ p
      else d @ ''/'' @ p)"

section \<open>Manifests\<close>

text \<open>\<open>f64\<close>: a fraction, or infinity or NaN.\<close>

datatype f64 = Finite int nat | NotFinite

datatype container_network = NetNone | NetBridge

record container_spec =
  ct_image :: string
  ct_network :: container_network
  ct_memory :: string
  ct_cpus :: f64
  ct_pids :: nat

record plugin_manifest =
  mf_id :: string
  mf_version :: string
  mf_description :: string
  mf_command :: "string option"
  mf_container :: "container_spec option"
  mf_args :: "string list"

definition network_str :: "container_network \<Rightarrow> string" where
  "network_str n = (case n of NetNone \<Rightarrow> ''none'' | NetBridge \<Rightarrow> ''bridge'')"

definition default_container_memory :: string where "default_container_memory = ''256m''"
definition default_container_cpus :: f64 where "default_container_cpus = Finite 1 1"
definition default_container_pids :: nat where "default_container_pids = 64"

text \<open>The messages of \<open>validate\<close>.\<close>

datatype manifest_error =
    InvalidPluginId string
  | ImageInvalid string
  | MemoryInvalid string
  | CpusInvalid f64
  | PidsZero
  | CommandOrContainer

definition is_ascii_lowercase :: "char \<Rightarrow> bool" where
  "is_ascii_lowercase c \<longleftrightarrow> (let n = of_char c :: nat in 97 \<le> n \<and> n \<le> 122)"

definition valid_plugin_id :: "string \<Rightarrow> bool" where
  "valid_plugin_id i \<longleftrightarrow>
     i \<noteq> [] \<and> length i \<le> 64 \<and>
     list_all (\<lambda>b. is_ascii_lowercase b \<or> is_ascii_digit b \<or> b = CHR ''-'' \<or> b = CHR ''_'') i"

definition is_lower_hex :: "char \<Rightarrow> bool" where
  "is_lower_hex b \<longleftrightarrow> is_ascii_digit b \<or> b \<in> set ''abcdef''"

text \<open>\<open>str::rsplit_once\<close>.\<close>

fun rsplit_once :: "string \<Rightarrow> string \<Rightarrow> (string \<times> string) option" where
  "rsplit_once pat [] = None"
| "rsplit_once pat (c # s) =
     (case rsplit_once pat s of
        Some (a, b) \<Rightarrow> Some (c # a, b)
      | None \<Rightarrow> map_option (\<lambda>b. ([], b)) (strip_prefix pat (c # s)))"

definition pinned_by_digest :: "container_spec \<Rightarrow> bool" where
  "pinned_by_digest spec =
     (case rsplit_once ''@sha256:'' (ct_image spec) of
        None \<Rightarrow> False
      | Some (name, digest) \<Rightarrow> name \<noteq> [] \<and> length digest = 64 \<and> list_all is_lower_hex digest)"

text \<open>\<open>char::is_control\<close> in UTF-8: the two blocks of control characters.\<close>

definition has_control :: "string \<Rightarrow> bool" where
  "has_control s \<longleftrightarrow>
     list_ex (\<lambda>c. (of_char c :: nat) < 32 \<or> of_char c = (127 :: nat)) s \<or>
     list_ex (\<lambda>n. contains s [CHR 0xC2, char_of n]) [128 ..< 160 :: nat]"

definition has_white_space :: "string \<Rightarrow> bool" where
  "has_white_space s \<longleftrightarrow> list_ex (contains s) white_space"

definition memory_digits :: "string \<Rightarrow> string" where
  "memory_digits m = (if m \<noteq> [] \<and> last m \<in> set ''bkmgBKMG'' then butlast m else m)"

definition cpus_ok :: "f64 \<Rightarrow> bool" where
  "cpus_ok c = (case c of NotFinite \<Rightarrow> False | Finite n d \<Rightarrow> 0 < n \<and> n \<le> 256 * int d)"

definition container_validate :: "container_spec \<Rightarrow> (manifest_error, unit) result" where
  "container_validate spec =
     (let image = ct_image spec
      in if image = [] \<or> 255 < length image \<or> starts_with ''-'' image \<or> has_white_space image \<or> has_control image
         then Inl (ImageInvalid image)
         else if memory_digits (ct_memory spec) = [] \<or> \<not> list_all is_ascii_digit (memory_digits (ct_memory spec))
         then Inl (MemoryInvalid (ct_memory spec))
         else if \<not> cpus_ok (ct_cpus spec) then Inl (CpusInvalid (ct_cpus spec))
         else if ct_pids spec = 0 then Inl PidsZero
         else Inr ())"

definition manifest_validate :: "plugin_manifest \<Rightarrow> (manifest_error, unit) result" where
  "manifest_validate m =
     (if \<not> valid_plugin_id (mf_id m) then Inl (InvalidPluginId (mf_id m))
      else case (mf_command m, mf_container m) of
        (Some command, None) \<Rightarrow> if trim command \<noteq> [] then Inr () else Inl CommandOrContainer
      | (None, Some spec) \<Rightarrow> container_validate spec
      | _ \<Rightarrow> Inl CommandOrContainer)"

section \<open>Starting\<close>

text \<open>\<open>show_f64\<close>: the text of a number of processors.\<close>

definition container_run_args :: "(f64 \<Rightarrow> string) \<Rightarrow> container_spec \<Rightarrow> string \<Rightarrow> string \<Rightarrow> string list \<Rightarrow> string list" where
  "container_run_args show_f64 spec plugin_id name args =
     [''run'', ''-i'', ''--rm'', ''--pull=never'', ''--name='' @ name, ''--label=jaiba.plugin='' @ plugin_id,
      ''--network='' @ network_str (ct_network spec), ''--read-only'', ''--tmpfs=/tmp:rw,noexec,nosuid,size=64m'',
      ''--cap-drop=ALL'', ''--security-opt=no-new-privileges'', ''--memory='' @ ct_memory spec,
      ''--memory-swap='' @ ct_memory spec, ''--cpus='' @ show_f64 (ct_cpus spec), ''--pids-limit='' @ show_nat (ct_pids spec),
      ct_image spec] @ args"

datatype launch =
    LaunchProcess string
  | LaunchContainer string container_spec

definition container_runtime :: "(string \<Rightarrow> string option) \<Rightarrow> string" where
  "container_runtime env =
     (case env ''JAIBA_CONTAINER_RUNTIME'' of
        None \<Rightarrow> ''docker''
      | Some r \<Rightarrow> if trim r \<noteq> [] then r else ''docker'')"

definition program_path :: "string \<Rightarrow> string \<Rightarrow> string" where
  "program_path directory command =
     (if 1 < length (path_components command) then path_join directory command else command)"

record external_plugin_config =
  xc_plugin :: string
  xc_config :: json
  xc_timeout_ms :: nat

definition empty_object :: json where "empty_object = JObject []"
definition default_timeout_ms :: nat where "default_timeout_ms = 30000"

datatype plugin_config_error =
    ConfigUnreadable
  | PluginIdInvalid string
  | TimeoutZero
  | PluginsDisabled
  | PluginNotInstalled string
  | ManifestUnreadable
  | ManifestOfOther string string
  | ManifestInvalid manifest_error

text \<open>What the checks of a configuration give: the manifest without its container, the launch, and the rest.\<close>

record loaded_plugin =
  ld_manifest :: plugin_manifest
  ld_launch :: launch
  ld_directory :: string
  ld_configuration :: json
  ld_timeout_ms :: nat

text \<open>
  A manifest with neither a command nor a container has not passed its validation: the code marks that
  case as unreachable, and the launch given here for it is never used.
  \<open>read_config\<close> and \<open>read_manifest\<close> are serde's, with the defaults; \<open>files\<close> what can be read,
  \<open>env\<close> the environment of the process.
\<close>

definition from_config_in ::
  "(json \<Rightarrow> external_plugin_config option) \<Rightarrow> (string \<Rightarrow> plugin_manifest option) \<Rightarrow> (string \<Rightarrow> string option)
    \<Rightarrow> (string \<Rightarrow> string option) \<Rightarrow> json \<Rightarrow> string option \<Rightarrow> (plugin_config_error, loaded_plugin) result" where
  "from_config_in read_config read_manifest files env value plugin_dir =
     (case read_config value of
        None \<Rightarrow> Inl ConfigUnreadable
      | Some config \<Rightarrow>
     if \<not> valid_plugin_id (xc_plugin config) then Inl (PluginIdInvalid (xc_plugin config))
     else if xc_timeout_ms config = 0 then Inl TimeoutZero
     else (case plugin_dir of
        None \<Rightarrow> Inl PluginsDisabled
      | Some plugin_dir \<Rightarrow>
     (let directory = path_join plugin_dir (xc_plugin config)
      in case files (path_join directory ''plugin.yaml'') of
        None \<Rightarrow> Inl (PluginNotInstalled (xc_plugin config))
      | Some text \<Rightarrow>
     (case read_manifest text of
        None \<Rightarrow> Inl ManifestUnreadable
      | Some manifest \<Rightarrow>
     if mf_id manifest \<noteq> xc_plugin config then Inl (ManifestOfOther (mf_id manifest) (xc_plugin config))
     else (case manifest_validate manifest of
        Inl e \<Rightarrow> Inl (ManifestInvalid e)
      | Inr _ \<Rightarrow>
          (let launch = (case (mf_command manifest, mf_container manifest) of
                           (_, Some spec) \<Rightarrow> LaunchContainer (container_runtime env) spec
                         | (Some command, None) \<Rightarrow> LaunchProcess (program_path directory command)
                         | (None, None) \<Rightarrow> LaunchProcess [])
           in Inr \<lparr> ld_manifest = manifest\<lparr>mf_container := None\<rparr>, ld_launch = launch, ld_directory = directory,
                    ld_configuration = xc_config config, ld_timeout_ms = xc_timeout_ms config \<rparr>))))))"

definition from_config ::
  "(json \<Rightarrow> external_plugin_config option) \<Rightarrow> (string \<Rightarrow> plugin_manifest option) \<Rightarrow> (string \<Rightarrow> string option)
    \<Rightarrow> (string \<Rightarrow> string option) \<Rightarrow> json \<Rightarrow> (plugin_config_error, loaded_plugin) result" where
  "from_config read_config read_manifest files env value =
     from_config_in read_config read_manifest files env value (env ''JAIBA_PLUGIN_DIR'')"

section \<open>The directory of the plugins is not written\<close>

text \<open>An absolute path without dots, as the names of its directories.\<close>

definition normalized :: "path_component list \<Rightarrow> string list" where
  "normalized cs = fold (\<lambda>c names. case c of
     RootDir \<Rightarrow> [] | CurDir \<Rightarrow> names | ParentDir \<Rightarrow> butlast names | Normal s \<Rightarrow> names @ [s]) cs []"

text \<open>\<open>real\<close>: \<open>canonicalize\<close> of a path that exists. The part that does not exist is kept.\<close>

function resolve_existing :: "(string list \<Rightarrow> string list option) \<Rightarrow> string list \<Rightarrow> string list \<Rightarrow> string list option" where
  "resolve_existing real existing missing =
     (case real existing of
        Some canonical \<Rightarrow> Some (canonical @ missing)
      | None \<Rightarrow> if existing = [] then None else resolve_existing real (butlast existing) (last existing # missing))"
  by pat_completeness auto
termination by (relation "measure (\<lambda>(_, existing, _). length existing)") auto

definition resolve_path :: "(string list \<Rightarrow> string list option) \<Rightarrow> string option \<Rightarrow> string \<Rightarrow> string list option" where
  "resolve_path real cwd p =
     (case (if starts_with ''/'' p then Some p else map_option (\<lambda>d. path_join d p) cwd) of
        None \<Rightarrow> None
      | Some absolute \<Rightarrow> resolve_existing real (normalized (path_components absolute)) [])"

definition is_within :: "(string list \<Rightarrow> string list option) \<Rightarrow> string option \<Rightarrow> string \<Rightarrow> string \<Rightarrow> bool" where
  "is_within real cwd p directory =
     (case (resolve_path real cwd p, resolve_path real cwd directory) of
        (Some p, Some d) \<Rightarrow> take (length d) p = d
      | _ \<Rightarrow> False)"

definition reject_plugin_dir ::
  "(string list \<Rightarrow> string list option) \<Rightarrow> string option \<Rightarrow> (string \<Rightarrow> string option) \<Rightarrow> string \<Rightarrow> (string, unit) result" where
  "reject_plugin_dir real cwd env p =
     (case env ''JAIBA_PLUGIN_DIR'' of
        None \<Rightarrow> Inr ()
      | Some d \<Rightarrow> if is_within real cwd p d then Inl p else Inr ())"

declare resolve_existing.simps [simp del]

text \<open>Without links a path that exists is its own canonical path.\<close>

definition no_links :: "(string list \<Rightarrow> string list option) \<Rightarrow> bool" where
  "no_links real \<longleftrightarrow> real [] = Some [] \<and> (\<forall>names. real names = None \<or> real names = Some names)"

lemma resolve_without_links: "no_links real \<Longrightarrow> resolve_existing real existing missing = Some (existing @ missing)"
proof (induction real existing missing rule: resolve_existing.induct)
  case (1 real existing missing)
  show ?case
  proof (cases "real existing")
    case (Some c)
    moreover have "real existing = None \<or> real existing = Some existing" using 1(2) by (simp add: no_links_def)
    ultimately show ?thesis by (subst resolve_existing.simps) simp
  next
    case None
    with 1(2) have "existing \<noteq> []" by (auto simp: no_links_def)
    with 1 None show ?thesis by (subst resolve_existing.simps) simp
  qed
qed

text \<open>Links are followed after the dots are taken out: the file behind a link and two dots is another.\<close>

definition sample_links :: "string list \<Rightarrow> string list option" where
  "sample_links names = (if names = [''data'', ''link''] then Some [''plugins'', ''ocr''] else if length names \<le> 1 then Some names else None)"

lemma sample_components:
  "path_components ''/data/link/../evil/plugin.yaml'' = [RootDir, Normal ''data'', Normal ''link'', ParentDir, Normal ''evil'', Normal ''plugin.yaml'']"
  "path_components ''/plugins'' = [RootDir, Normal ''plugins'']"
  "path_components ''/srv/../data/../plugins/./ocr/plugin.yaml'' =
     [RootDir, Normal ''srv'', ParentDir, Normal ''data'', ParentDir, Normal ''plugins'', Normal ''ocr'', Normal ''plugin.yaml'']"
  by code_simp+

lemma dots_after_links:
  "sample_links [''data'', ''link''] = Some [''plugins'', ''ocr'']"
  "resolve_path sample_links None ''/data/link/../evil/plugin.yaml'' = Some [''data'', ''evil'', ''plugin.yaml'']"
  "reject_plugin_dir sample_links None (\<lambda>_. Some ''/plugins'') ''/data/link/../evil/plugin.yaml'' = Inr ()"
proof -
  show "sample_links [''data'', ''link''] = Some [''plugins'', ''ocr'']" by (simp add: sample_links_def)
  have e: "resolve_existing sample_links [''data'', ''evil'', ''plugin.yaml''] [] = Some [''data'', ''evil'', ''plugin.yaml'']"
    by (subst resolve_existing.simps, simp add: sample_links_def, subst resolve_existing.simps, simp add: sample_links_def,
        subst resolve_existing.simps, simp add: sample_links_def)
  have d: "resolve_existing sample_links [''plugins''] [] = Some [''plugins'']"
    by (subst resolve_existing.simps) (simp add: sample_links_def)
  show r: "resolve_path sample_links None ''/data/link/../evil/plugin.yaml'' = Some [''data'', ''evil'', ''plugin.yaml'']"
    by (simp add: resolve_path_def sample_components normalized_def starts_with_def e)
  have "resolve_path sample_links None ''/plugins'' = Some [''plugins'']"
    by (simp add: resolve_path_def sample_components normalized_def starts_with_def d)
  with r show "reject_plugin_dir sample_links None (\<lambda>_. Some ''/plugins'') ''/data/link/../evil/plugin.yaml'' = Inr ()"
    by (simp add: reject_plugin_dir_def is_within_def)
qed

text \<open>The names of a path from the current directory.\<close>

definition absolute_names :: "string option \<Rightarrow> string \<Rightarrow> string list" where
  "absolute_names cwd q = normalized (path_components (if starts_with ''/'' q then q else path_join (the cwd) q))"

lemma resolve_names:
  "no_links real \<Longrightarrow> starts_with ''/'' p \<or> cwd \<noteq> None \<Longrightarrow> resolve_path real cwd p = Some (absolute_names cwd p)"
  by (auto simp: resolve_path_def absolute_names_def resolve_without_links)

lemma network_no_dash: "network_str n \<noteq> [] \<and> \<not> starts_with ''-'' (network_str n)"
  by (cases n) (simp_all add: network_str_def starts_with_def)

section \<open>Properties\<close>

text \<open>How the runtime reads its arguments: the options are all of the form \<open>--name=value\<close> or a flag, the first
  argument that is not an option is the image, the rest is for the program in it.\<close>

definition run_reading :: "string list \<Rightarrow> (string list \<times> string \<times> string list) option" where
  "run_reading argv =
     (case argv of
        [] \<Rightarrow> None
      | command # rest \<Rightarrow>
          if command \<noteq> ''run'' then None
          else case dropWhile (starts_with ''-'') rest of
                 [] \<Rightarrow> None
               | first # args \<Rightarrow> Some (takeWhile (starts_with ''-'') rest, first, args))"

text \<open>C40.
  What the runtime reads from the arguments that an accepted manifest is started with: exactly these
  options and no other, in which only the name of the container, the id of the plugin, the network
  (none or bridge) and the limits vary; the image of the manifest; and the arguments of the manifest
  for the program in it, even those that look like options. The id of the plugin is valid, the image
  has no white space, the limit on memory, which is also that on memory and swap, is digits and at most a unit,
  there is at least one process, and the processors are more than 0 and at most 256.\<close>

theorem container_is_confined:
  assumes "manifest_validate m = Inr ()" and "mf_container m = Some spec"
  shows "run_reading (container_run_args show_f64 spec (mf_id m) name args) =
      Some ([''-i'', ''--rm'', ''--pull=never'', ''--name='' @ name, ''--label=jaiba.plugin='' @ mf_id m,
        if ct_network spec = NetNone then ''--network=none'' else ''--network=bridge'',
        ''--read-only'', ''--tmpfs=/tmp:rw,noexec,nosuid,size=64m'', ''--cap-drop=ALL'', ''--security-opt=no-new-privileges'',
        ''--memory='' @ ct_memory spec, ''--memory-swap='' @ ct_memory spec, ''--cpus='' @ show_f64 (ct_cpus spec),
        ''--pids-limit='' @ show_nat (ct_pids spec)], ct_image spec, args) \<and>
    valid_plugin_id (mf_id m) \<and> \<not> has_white_space (ct_image spec) \<and>
    (memory_digits (ct_memory spec) \<noteq> [] \<and> list_all is_ascii_digit (memory_digits (ct_memory spec))) \<and>
    0 < ct_pids spec \<and> (\<exists>n d. ct_cpus spec = Finite n d \<and> 0 < n \<and> n \<le> 256 * int d)"
proof -
  have v: "container_validate spec = Inr ()" and id: "valid_plugin_id (mf_id m)"
    using assms by (auto simp: manifest_validate_def split: if_splits option.splits)
  then have i: "ct_image spec \<noteq> []" "\<not> starts_with ''-'' (ct_image spec)" "\<not> has_white_space (ct_image spec)"
    and l: "memory_digits (ct_memory spec) \<noteq> []" "list_all is_ascii_digit (memory_digits (ct_memory spec))"
      "cpus_ok (ct_cpus spec)" "0 < ct_pids spec"
    by (auto simp: container_validate_def Let_def split: if_splits)
  have cpus: "\<exists>n d. ct_cpus spec = Finite n d \<and> 0 < n \<and> n \<le> 256 * int d"
    using l(3) by (auto simp: cpus_ok_def split: f64.splits)
  have "run_reading (container_run_args show_f64 spec (mf_id m) name args) =
      Some ([''-i'', ''--rm'', ''--pull=never'', ''--name='' @ name, ''--label=jaiba.plugin='' @ mf_id m,
        ''--network='' @ network_str (ct_network spec),
        ''--read-only'', ''--tmpfs=/tmp:rw,noexec,nosuid,size=64m'', ''--cap-drop=ALL'', ''--security-opt=no-new-privileges'',
        ''--memory='' @ ct_memory spec, ''--memory-swap='' @ ct_memory spec, ''--cpus='' @ show_f64 (ct_cpus spec),
        ''--pids-limit='' @ show_nat (ct_pids spec)], ct_image spec, args)"
    using i by (simp add: run_reading_def container_run_args_def) (simp add: starts_with_def)
  moreover have "''--network='' @ network_str (ct_network spec) =
      (if ct_network spec = NetNone then ''--network=none'' else ''--network=bridge'')"
    by (cases "ct_network spec") (simp_all add: network_str_def)
  ultimately show ?thesis using id i l cpus by simp
qed

definition sample_spec :: container_spec where
  "sample_spec = \<lparr> ct_image = ''ghcr.io/a/ocr:1'', ct_network = NetNone, ct_memory = ''256m'', ct_cpus = Finite 1 1, ct_pids = 64 \<rparr>"

definition sample_manifest :: plugin_manifest where
  "sample_manifest = \<lparr> mf_id = ''ocr'', mf_version = ''1.0.0'', mf_description = [], mf_command = None,
     mf_container = Some sample_spec, mf_args = [''--privileged''] \<rparr>"

lemma sample_manifest_valid: "manifest_validate sample_manifest = Inr ()"
  by code_simp

theorem container_is_confined_witness:
  "map_option snd (run_reading (container_run_args (\<lambda>_. ''1'') sample_spec ''ocr'' ''jaiba-plugin-ocr-1'' [''--privileged''])) =
     Some (''ghcr.io/a/ocr:1'', [''--privileged''])"
proof -
  have "mf_container sample_manifest = Some sample_spec" "mf_id sample_manifest = ''ocr''" "ct_image sample_spec = ''ghcr.io/a/ocr:1''"
    "ct_network sample_spec = NetNone"
    by (simp_all add: sample_manifest_def sample_spec_def)
  with container_is_confined [OF sample_manifest_valid this(1), of "\<lambda>_. ''1''" "''jaiba-plugin-ocr-1''" "[''--privileged'']"]
  show ?thesis by simp
qed

text \<open>On a file system without links a flow may not write below the directory of the plugins: a path is
  refused exactly when, taken from the current directory and without its dots, it begins with that of
  the directory.\<close>

theorem plugin_dir_is_protected:
  assumes "no_links real" and "env ''JAIBA_PLUGIN_DIR'' = Some d"
    and "starts_with ''/'' p \<or> cwd \<noteq> None" and "starts_with ''/'' d \<or> cwd \<noteq> None"
  shows "reject_plugin_dir real cwd env p = Inl p \<longleftrightarrow> (\<exists>rest. absolute_names cwd p = absolute_names cwd d @ rest)"
proof -
  have "reject_plugin_dir real cwd env p = Inl p \<longleftrightarrow> take (length (absolute_names cwd d)) (absolute_names cwd p) = absolute_names cwd d"
    using assms by (simp add: reject_plugin_dir_def is_within_def resolve_names)
  also have "\<dots> \<longleftrightarrow> (\<exists>rest. absolute_names cwd p = absolute_names cwd d @ rest)"
    by (metis append_eq_conv_conj append_take_drop_id)
  finally show ?thesis .
qed

theorem plugin_dir_is_protected_witness:
  "reject_plugin_dir (\<lambda>names. if length names \<le> 1 then Some names else None) (Some ''/srv'') (\<lambda>_. Some ''/plugins'')
     ''../data/../plugins/./ocr/plugin.yaml'' = Inl ''../data/../plugins/./ocr/plugin.yaml''"
proof -
  have "no_links (\<lambda>names. if length names \<le> 1 then Some names else None)" by (simp add: no_links_def)
  moreover have "absolute_names (Some ''/srv'') ''../data/../plugins/./ocr/plugin.yaml'' = [''plugins''] @ [''ocr'', ''plugin.yaml'']"
    "absolute_names (Some ''/srv'') ''/plugins'' = [''plugins'']"
    by (simp_all add: absolute_names_def starts_with_def path_join_def sample_components normalized_def)
  ultimately show ?thesis
    using plugin_dir_is_protected [of "\<lambda>names. if length names \<le> 1 then Some names else None" "\<lambda>_. Some ''/plugins''" "''/plugins''"
        "''../data/../plugins/./ocr/plugin.yaml''" "Some ''/srv''"] by (simp add: starts_with_def)
qed

end
