(* ===== verification/Spec2Isabelle.thy ===== *)
theory Spec2Isabelle
  imports Circuit_Breaker Flow_Progress Jme_Durability Jme_Cold_Reopen Server_Observe Sql_Compile Conn_Secrets Conn_Manager Plugin_Manifest
begin

text \<open>
  Verification library of Jaiva (the workspace \<open>jaiba\<close>): an engine that runs data flows described in
  YAML, a domain memory in several levels, and a control plane that deploys and watches flows.

  \<^bold>\<open>Parts and how they interact.\<close> A flow document is read into the structs of
  \<open>crates/jaiba-core/src/config/flow.rs\<close> and becomes a graph of processors and connections
  (\<open>graph.rs\<close>). \<open>FlowEngine::new\<close> validates it, and \<open>run_inner\<close> executes it: a scheduler picks packets
  off the queues of the connections, tasks run processors with retries, their emissions come back on
  a channel and are routed to the queues, under limits on tasks, queues and bytes of memory. A
  \<open>FlowSupervisor\<close> owns the task of a run and a \<open>FlowControl\<close> its lifecycle. Packets can be kept in a
  local repository with their provenance. Processors may use the domain memory
  (\<open>crates/jaiba-memory\<close>): a Hot level in memory over Warm, Cold and Frozen stores, with deferred or
  immediate writes to a sink. The server (\<open>crates/jaiba-server\<close>) keeps versioned documents in a
  registry, deploys them, arms their schedules and answers requests of authenticated principals.
  Connections to outside systems have profiles and encrypted secrets
  (\<open>crates/jaiba-connection-manager\<close>), queries are compiled to SQL, and external plugins are started
  from manifests and spoken to over a line protocol (\<open>crates/jaiba-plugin-sdk\<close>).

  \<^bold>\<open>Theories, the code they model and what they show.\<close>
  \<^item> \<open>Prelude\<close>: results as sums, saturating arithmetic, hash maps and ordered maps as association
    lists, Rust strings and the functions on them that the code uses.
  \<^item> \<open>Flow_Config\<close>, \<open>Flow_Graph\<close>, \<open>Flow_Error\<close>, \<open>Flow_Validation\<close> (\<open>config/flow.rs\<close>, \<open>graph.rs\<close>,
    \<open>error.rs\<close>, \<open>executor/validation.rs\<close>): one record per configuration struct, Kahn's algorithm with
    its panics as \<open>None\<close>, the checks of a configuration. Building a graph never panics and succeeds
    exactly on acyclic, well-formed flows; an engine is only made of a runnable one.
  \<^item> \<open>Circuit_Breaker\<close>, \<open>Flow_Control\<close>, \<open>Memory_Limiter\<close>, \<open>Packet\<close>, \<open>Packet_Repository\<close>
    (\<open>engine/circuit.rs\<close>, \<open>control.rs\<close>, \<open>supervisor.rs\<close>, \<open>memory.rs\<close>, \<open>packet.rs\<close>, \<open>schema.rs\<close>,
    \<open>repository.rs\<close>): state machines with their invariants over all interleavings of calls: when a
    circuit opens, that one task of a flow lives while starts do not overlap the calls that await one
    (and what happens when they do), that no budget is exceeded, that the events written about a packet
    tell its status, cleanups of the provenance notwithstanding, and that a claim is exclusive. The
    handle that a \<open>stop_gracefully\<close> or a failed \<open>start\<close> has taken out of the slot and awaits is in
    \<open>sv_stopping\<close> or \<open>sv_joining\<close>; \<open>au_log\<close> and \<open>au_cutoffs\<close> are observations beside the repository (the
    rows ever written, the cleanups so far) that no operation reads.
  \<^item> \<open>Flow_Router\<close>, \<open>Flow_Scheduler\<close>, \<open>Flow_Retry\<close>, \<open>Flow_Executor\<close>, \<open>Flow_Progress\<close>
    (\<open>executor/routing.rs\<close>, \<open>scheduler.rs\<close>, \<open>retry.rs\<close>, \<open>mod.rs\<close>, \<open>processor.rs\<close>, \<open>workers.rs\<close>): routing
    is all or nothing, scheduling and every reachable state of a run keep the limits, retries return
    when what they wait for ends and are bounded, a validated run without a repository does not
    deadlock. The statements about runs ask that no connection is listed twice, which validation does
    not refuse (\<open>duplicate_connection_overfills\<close>).
  \<^item> \<open>Jme_Policy\<close>, \<open>Jme_Hot\<close>, \<open>Jme_Stores\<close>, \<open>Jme_Deferred\<close>, \<open>Jme_Manager\<close>, \<open>Jme_Levels\<close>,
    \<open>Jme_Durability\<close> (\<open>crates/jaiba-memory\<close>): the policy block and its validation, the Hot level, the
    stores below it, the sinks, the manager that ties them together; the bounds of Hot, which copy a
    get answers with when levels fail to be read, that a removal forgets, that an eviction keeps a copy
    of what has a level below Hot, and what each policy makes durable whatever fails.
  \<^item> \<open>Jme_Cold_Format\<close>, \<open>Jme_Cold\<close>, \<open>Jme_Cold_Index\<close>, \<open>Jme_Cold_Store\<close>, \<open>Jme_Cold_Reopen\<close>
    (\<open>cold.rs\<close>): the bytes of a segment, the store on a disk, its refinement of a map while the disk
    carries out every operation and a key keeps its class, and that a store opened again, also after a
    torn write, holds the same.
  \<^item> \<open>Server_Document\<close>, \<open>Server_Registry\<close>, \<open>Server_History\<close>, \<open>Server_Reach\<close>, \<open>Server_Steps\<close>,
    \<open>Server_Lifecycle\<close>, \<open>Server_Deploy\<close> (\<open>flow_registry.rs\<close>): versions are immutable, at most one is
    deployed, a failed deployment changes nothing, a restart finds the same records; calls of the
    registry are single steps (\<open>server_call\<close>), and the theorems on races show what overlapping ones do.
  \<^item> \<open>Server_Schedule\<close>, \<open>Server_Calendar\<close> (\<open>scheduler.rs\<close>, \<open>schedule_store.rs\<close>): arming, ticks, overlap
    policies; one live job per flow, what a fire records, and the races that lose a fire.
  \<^item> \<open>Server_Auth\<close>, \<open>Server_Api\<close>, \<open>Server_Tenants\<close>, \<open>Server_Observe\<close> (\<open>auth.rs\<close>,
    \<open>observability.rs\<close>): who may do what, that requests change only the flow they name when its id
    has no blanks around it, that the reads of flows, versions and metrics stay within the projects of
    the caller, the streams.
  \<^item> \<open>Sql_Compile\<close> (\<open>sql_builder.rs\<close>): which queries compile, and that neither an identifier nor a value
    of the request can change the shape of the statement.
  \<^item> \<open>Conn_Secrets\<close>, \<open>Conn_Manager\<close> (\<open>crates/jaiba-connection-manager\<close>): the encrypted file reopens to
    the same secrets after any calls, profiles survive a restart of a manager begun on any file a manager
    writes, changes of profile and secret
    together are all or nothing, a deletion keeps the secrets of the others.
  \<^item> \<open>Plugin_Protocol\<close>, \<open>Plugin_Manifest\<close> (module \<open>isolated\<close> of \<open>crates/jaiba-plugin-sdk/src/lib.rs\<close>,
    \<open>processors/external_plugin.rs\<close>): frames do not depend on buffering and round-trip, an accepted
    manifest is started with a fixed list of options, the directory of the plugins is not written
    as long as no links are in play.

  \<^bold>\<open>Interfaces.\<close> What one part relies on of another is a locale, interpreted on the definitions that
  provide it: \<open>tier_store\<close> and \<open>retaining_store\<close> (the levels below Hot; on the stores that keep nothing
  and those in memory, while the stores on disk refine a map in theorems of their own), \<open>persist_sink\<close> and \<open>durable_sinks\<close> (on the recording sink and the
  file of JSON lines), \<open>jme_levels\<close>, \<open>jme_retaining\<close> and \<open>manager_invariant\<close> (the manager over any
  backends), \<open>secret_store\<close>, \<open>profile_repository\<close> and their sum \<open>connection_stores\<close> (on the encrypted
  file, the store in memory and the file of profiles).

  \<^bold>\<open>Conventions.\<close> A \<open>Result\<close> is a sum with the error on the left; the text of an error is a constructor
  with the values it shows; a panic is \<open>None\<close>. Unsigned integers are natural numbers: where the code
  saturates, the saturation is written out, where it checks, the check is; sums of sizes of resident
  data, version numbers and segment numbers are taken to stay in range. Strings are their UTF-8
  bytes. A hash map is the list of its entries in its iteration order, so a statement over all states
  holds for every order. The clock, random identifiers, whether a file can be written, how an awaited
  call ends and how a task ends are arguments. Code behind \<open>await\<close> is split into steps where other
  steps can come in between (supervisor, run loop, budget); calls of the registry, of the calendar and
  of the connection manager run to their end, and the races this leaves out are stated over their
  parts. Supervisors live in a table and tasks are positions in a list, since they are shared.

  \<^bold>\<open>Fuel and loops.\<close> Loops are structural recursion, or recursion with a measure. A processor that never
  answers, a wait that never ends and a cron plan that never fires are \<open>None\<close> of an argument, and the
  theorems that a call returns (\<open>retry_returns\<close>, \<open>build_succeeds_iff\<close>) say which of them are assumed to
  end. A stream and a plan run over the finite list of their ticks.

  \<^bold>\<open>Libraries as parameters.\<close> serde (JSON and YAML), SHA-256, LZ4, AES-GCM, Argon2, Base64, the random
  source, cron expressions and time zones, regular expressions, the drivers of the connection plugins
  and the constructors of the processors are parameters. What is assumed of them is named
  (\<open>codec_ok\<close>, \<open>cold_codec_ok\<close>, \<open>crypto_ok\<close>, \<open>envelope_ok\<close>: what is written is read back, what is
  encrypted is decrypted) and shown to be satisfiable by an instance.

  \<^bold>\<open>Not modelled.\<close> The connectors and the processors of the catalogue (drivers of databases, Kafka,
  files, the preparation of data for models), the Redis store, the metrics and their texts, logging,
  state files and checkpoints of processors, the web server itself (TLS, CORS headers, web sockets,
  shutdown), the endpoints of the connections and their plugins, the catalogue of plugins and the
  processes of external plugins, the command line, the desktop application and the simulator. They
  are input and output, glue over libraries, or code that only calls what is modelled; of the
  processes of plugins the protocol and the manifests are modelled. The cache of mapped files of the
  Cold store is left out, since reads through it give the same bytes.
\<close>

end
